(* ===== verification/Prelude.thy ===== *)
theory Prelude
  imports Main "HOL-Library.Word" "HOL-Library.Multiset"
begin

text \<open>
  Shared vocabulary of the development: the result type of operations that may throw, the
  collections of rewrite rules the component theories extend, and generic facts on lists,
  finite maps and bounded arithmetic that several components use.
\<close>

section \<open>Collections of rules\<close>

named_theorems model_defs \<open>definitions a component proof unfolds as a group\<close>
named_theorems inv_intros \<open>an operation keeps the invariant of its component\<close>

section \<open>Operations that may throw\<close>

text \<open>
  A C++ operation that may throw returns a value of the sum type: \<open>Inl e\<close> is the thrown
  exception, \<open>Inr x\<close> the normal result. Where the code has changed state before it
  throws, the model returns the state next to the result instead.
\<close>

type_synonym ('e, 'a) result = "'e + 'a"

fun bindR :: "('e, 'a) result \<Rightarrow> ('a \<Rightarrow> ('e, 'b) result) \<Rightarrow> ('e, 'b) result" where
  "bindR (Inl e) f = Inl e"
| "bindR (Inr x) f = f x"

lemma bindR_eq_Inr: "bindR r f = Inr y \<longleftrightarrow> (\<exists>x. r = Inr x \<and> f x = Inr y)"
  by (cases r) auto

lemma bindR_eq_Inl: "bindR r f = Inl e \<longleftrightarrow> r = Inl e \<or> (\<exists>x. r = Inr x \<and> f x = Inl e)"
  by (cases r) auto

lemma bindR_assoc: "bindR (bindR r f) g = bindR r (\<lambda>x. bindR (f x) g)"
  by (cases r) auto

definition is_ok :: "('e, 'a) result \<Rightarrow> bool" where
  "is_ok r = (case r of Inl _ \<Rightarrow> False | Inr _ \<Rightarrow> True)"

lemma is_ok_simps [simp]: "is_ok (Inr x)" "\<not> is_ok (Inl e)"
  by (simp_all add: is_ok_def)

lemma is_ok_iff: "is_ok r \<longleftrightarrow> (\<exists>x. r = Inr x)"
  by (cases r) auto

text \<open>
  A loop over a container whose body may throw: the state is threaded through the body and
  the first exception stops the loop.
\<close>

fun foldR :: "('a \<Rightarrow> 's \<Rightarrow> ('e, 's) result) \<Rightarrow> 'a list \<Rightarrow> 's \<Rightarrow> ('e, 's) result" where
  "foldR f [] s = Inr s"
| "foldR f (x # xs) s = bindR (f x s) (foldR f xs)"

lemma foldR_append: "foldR f (xs @ ys) s = bindR (foldR f xs s) (foldR f ys)"
proof (induction xs arbitrary: s)
  case (Cons x xs)
  then have "foldR f (xs @ ys) = (\<lambda>s. bindR (foldR f xs s) (foldR f ys))" by auto
  then show ?case by (simp add: bindR_assoc)
qed simp

lemma foldR_invariant:
  assumes "foldR f xs s = Inr s'" and "P s"
    and "\<And>x s s'. x \<in> set xs \<Longrightarrow> P s \<Longrightarrow> f x s = Inr s' \<Longrightarrow> P s'"
  shows "P s'"
  using assms
proof (induction xs arbitrary: s)
  case Nil
  then show ?case by simp
next
  case (Cons x xs)
  from Cons.prems(1) obtain s1 where s1: "f x s = Inr s1" "foldR f xs s1 = Inr s'"
    by (auto simp: bindR_eq_Inr)
  have "P s1" using Cons.prems(2,3) s1(1) by auto
  then show ?case using Cons.IH s1(2) Cons.prems(3) by auto
qed

section \<open>Bytes and fixed-width integers\<close>

type_synonym byte = "8 word"
type_synonym u16 = "16 word"
type_synonym u32 = "32 word"
type_synonym u64 = "64 word"

text \<open>The digits of a number in base 256, least significant first, add up to the number.\<close>

lemma sum_base256:
  "(\<Sum>i<k. (n div 256 ^ i mod 256) * 256 ^ i) = n mod (256 :: nat) ^ k"
proof (induction k)
  case 0
  then show ?case by simp
next
  case (Suc k)
  have "n mod 256 ^ Suc k = 256 ^ k * (n div 256 ^ k mod 256) + n mod 256 ^ k"
    by (metis mod_mult2_eq power_Suc2)
  with Suc show ?case by (simp add: mult.commute)
qed

section \<open>Lists\<close>

lemma list_update_take_drop:
  "i < length xs \<Longrightarrow> xs[i := x] = take i xs @ x # drop (Suc i) xs"
  by (rule upd_conv_take_nth_drop)

lemma mset_concat_update:
  "i < length xss \<Longrightarrow>
   mset (concat (xss[i := ys])) + mset (xss ! i) = mset (concat xss) + mset ys"
proof -
  assume i: "i < length xss"
  have "concat xss = concat (take i xss) @ (xss ! i) @ concat (drop (Suc i) xss)"
    using i by (metis concat.simps(2) concat_append id_take_nth_drop)
  moreover have "concat (xss[i := ys]) = concat (take i xss) @ ys @ concat (drop (Suc i) xss)"
    using i by (simp add: upd_conv_take_nth_drop)
  ultimately show ?thesis by simp
qed

section \<open>Quotients and remainders of a counter that advances by one\<close>

lemma div_Suc_dvd: "0 < w \<Longrightarrow> Suc n mod w = 0 \<Longrightarrow> Suc n div w = Suc (n div w)"
  for n w :: nat
  by (metis div_Suc)

lemma div_Suc_not_dvd: "Suc n mod w \<noteq> 0 \<Longrightarrow> Suc n div w = n div w"
  for n w :: nat
  by (metis div_Suc)

lemma mod_eq_within:
  assumes "a \<le> x" "x < a + w" "x mod w = a mod w"
  shows "x = (a :: nat)"
proof -
  have "w dvd x - a" using assms(1,3) by (metis mod_eq_dvd_iff_nat)
  then show ?thesis using assms(1,2) by (auto dest: dvd_imp_le)
qed

section \<open>Decimal numbers\<close>

text \<open>\<open>std::to_string\<close> of an unsigned number.\<close>

fun to_string :: "nat \<Rightarrow> string" where
  "to_string n = (if n < 10 then [char_of (48 + n)] else to_string (n div 10) @ [char_of (48 + n mod 10)])"

declare to_string.simps [simp del]

fun of_digits :: "string \<Rightarrow> nat" where
  "of_digits s = fold (\<lambda>c n. 10 * n + (of_char c - 48)) s 0"

lemma of_digits_to_string: "of_digits (to_string n) = n"
proof (induction n rule: to_string.induct)
  case (1 n)
  show ?case
  proof (cases "n < 10")
    case False
    have "n mod 10 < 10" by simp
    with False 1 show ?thesis by (subst to_string.simps) simp
  qed (subst to_string.simps, simp)
qed

lemma to_string_inject: "to_string m = to_string n \<longleftrightarrow> m = n"
  by (metis of_digits_to_string)

section \<open>Sequences of yaml nodes\<close>

text \<open>Decoding stops with an exception at the first node that cannot be decoded; a missing sequence is empty.\<close>

fun decode_each :: "('n \<Rightarrow> 'a option) \<Rightarrow> 'n list \<Rightarrow> 'a list option" where
  "decode_each f [] = Some []"
| "decode_each f (n # ns) = Option.bind (f n) (\<lambda>x. map_option (Cons x) (decode_each f ns))"

definition decode_seq :: "('n \<Rightarrow> 'a option) \<Rightarrow> 'n list option \<Rightarrow> 'a list option" where
  "decode_seq f seq = (case seq of None \<Rightarrow> Some [] | Some ns \<Rightarrow> decode_each f ns)"

text \<open>A node that is there sets the option; otherwise the option keeps its value.\<close>

definition or_keep :: "'a option \<Rightarrow> 'a \<Rightarrow> 'a" where
  "or_keep v d = (case v of None \<Rightarrow> d | Some x \<Rightarrow> x)"

text \<open>\<open>emplace\<close> of the unordered maps: an entry that is there stays.\<close>

definition emplace :: "'k \<Rightarrow> 'v \<Rightarrow> ('k \<times> 'v) list \<Rightarrow> ('k \<times> 'v) list" where
  "emplace k v m = (if map_of m k = None then m @ [(k, v)] else m)"

end
