(* ===== verification/BufferUtil.thy ===== *)
theory BufferUtil
  imports Prelude
begin

text \<open>
  The byte-buffer codecs of \<open>src/common/util/buffer_util.h\<close>: the little-endian integer
  stores and loads, \<open>BufferOperator\<close> (a write cursor) and \<open>ConstBufferOperator\<close> (a read
  cursor). Both classes hold three pointers into one region; a cursor here is the record of
  these addresses together with the bytes of the region. Pointers are 64-bit addresses and
  pointer addition wraps at \<open>2 ^ 64\<close>, as the bounds tests \<open>cur_ + len > end_\<close> of the code
  compute it. An access that the tests let through but that lies outside the region is the
  error value \<open>OutOfRegion\<close>.
\<close>

unbundle bit_operations_syntax

section \<open>Integer codecs\<close>

definition SetBufFromUint64 :: "u64 \<Rightarrow> byte list" where
  "SetBufFromUint64 n =
     [ucast (n AND 0xFF),
      ucast (drop_bit 8 n AND 0xFF),
      ucast (drop_bit 16 n AND 0xFF),
      ucast (drop_bit 24 n AND 0xFF),
      ucast (drop_bit 32 n AND 0xFF),
      ucast (drop_bit 40 n AND 0xFF),
      ucast (drop_bit 48 n AND 0xFF),
      ucast (drop_bit 56 n AND 0xFF)]"

definition GetUint64FromBuf :: "byte list \<Rightarrow> u64" where
  "GetUint64FromBuf p =
     ucast (p ! 0) +
     push_bit 8 (ucast (p ! 1)) +
     push_bit 16 (ucast (p ! 2)) +
     push_bit 24 (ucast (p ! 3)) +
     push_bit 32 (ucast (p ! 4)) +
     push_bit 40 (ucast (p ! 5)) +
     push_bit 48 (ucast (p ! 6)) +
     push_bit 56 (ucast (p ! 7))"

text \<open>
  The object representation of an unsigned integer on a little-endian machine, which
  \<open>memcpy\<close> and the reinterpreting load of the code use when \<open>std::endian::native\<close> is
  \<open>little\<close>: byte \<open>i\<close> has the weight \<open>256 ^ i\<close>.
\<close>

definition object_bytes :: "nat \<Rightarrow> 'a::len word \<Rightarrow> byte list" where
  "object_bytes k n = map (\<lambda>i. of_nat (unat n div 256 ^ i)) [0..<k]"

definition object_value :: "byte list \<Rightarrow> 'a::len word" where
  "object_value p = of_nat (\<Sum>i<length p. unat (p ! i) * 256 ^ i)"

definition SetBufFromUint32 :: "bool \<Rightarrow> u32 \<Rightarrow> byte list" where
  "SetBufFromUint32 little n =
     (if little then object_bytes 4 n
      else [ucast (n AND 0xFF),
            ucast (drop_bit 8 n AND 0xFF),
            ucast (drop_bit 16 n AND 0xFF),
            ucast (drop_bit 24 n AND 0xFF)])"

definition GetUint32FromBuf :: "bool \<Rightarrow> byte list \<Rightarrow> u32" where
  "GetUint32FromBuf little p =
     (if little then object_value (take 4 p)
      else ucast (p ! 0) +
           push_bit 8 (ucast (p ! 1)) +
           push_bit 16 (ucast (p ! 2)) +
           push_bit 24 (ucast (p ! 3)))"

definition SetBufFromUint16 :: "bool \<Rightarrow> u16 \<Rightarrow> byte list" where
  "SetBufFromUint16 little n =
     (if little then object_bytes 2 n
      else [ucast (n AND 0xFF), ucast (drop_bit 8 n AND 0xFF)])"

definition GetUint16FromBuf :: "bool \<Rightarrow> byte list \<Rightarrow> u16" where
  "GetUint16FromBuf little p =
     (if little then object_value (take 2 p)
      else ucast (p ! 0) + push_bit 8 (ucast (p ! 1)))"

section \<open>Cursors\<close>

datatype BufferLenType = kUInt8 | kUInt16 | kUInt32 | kUInt64

fun len_type_size :: "BufferLenType \<Rightarrow> nat" where
  "len_type_size kUInt8 = 1"
| "len_type_size kUInt16 = 2"
| "len_type_size kUInt32 = 4"
| "len_type_size kUInt64 = 8"

datatype buffer_error =
    BufferOutOfBounds
  | StringLengthOutOfRange
  | OutOfRegion

record buffer_operator =
  bo_start :: nat
  bo_end :: nat
  bo_cur :: nat
  bo_mem :: "byte list"

definition mk_buffer_operator :: "nat \<Rightarrow> byte list \<Rightarrow> buffer_operator" where
  "mk_buffer_operator ptr bytes =
     \<lparr>bo_start = ptr, bo_end = (ptr + length bytes) mod 2 ^ 64, bo_cur = ptr, bo_mem = bytes\<rparr>"

definition ptr_add :: "nat \<Rightarrow> nat \<Rightarrow> nat" where
  "ptr_add p n = (p + n) mod 2 ^ 64"

definition store_bytes :: "byte list \<Rightarrow> buffer_operator \<Rightarrow> (buffer_error, buffer_operator) result" where
  "store_bytes bs b =
     (if bo_start b \<le> bo_cur b \<and> bo_cur b + length bs \<le> bo_end b
      then let off = bo_cur b - bo_start b in
        Inr (b\<lparr>bo_mem := take off (bo_mem b) @ bs @ drop (off + length bs) (bo_mem b)\<rparr>)
      else Inl OutOfRegion)"

definition load_bytes :: "nat \<Rightarrow> buffer_operator \<Rightarrow> (buffer_error, byte list) result" where
  "load_bytes len b =
     (if bo_start b \<le> bo_cur b \<and> bo_cur b + len \<le> bo_start b + length (bo_mem b)
      then Inr (take len (drop (bo_cur b - bo_start b) (bo_mem b)))
      else Inl OutOfRegion)"

definition Skip :: "nat \<Rightarrow> buffer_operator \<Rightarrow> (buffer_error, nat \<times> buffer_operator) result" where
  "Skip len b =
     (if bo_end b < ptr_add (bo_cur b) len then Inl BufferOutOfBounds
      else let cur = ptr_add (bo_cur b) len in Inr (cur - bo_start b, b\<lparr>bo_cur := cur\<rparr>))"

definition JumpTo :: "nat \<Rightarrow> buffer_operator \<Rightarrow> (buffer_error, buffer_operator) result" where
  "JumpTo pos b =
     (if bo_end b - bo_start b < pos then Inl BufferOutOfBounds
      else Inr (b\<lparr>bo_cur := ptr_add (bo_start b) pos\<rparr>))"

text \<open>
  \<open>SetBuffer(data, len)\<close> with the bytes of \<open>data\<close>; the \<open>SetUint\<close> operations have the
  same shape, with the bytes of the integer.
\<close>

definition SetBuffer :: "byte list \<Rightarrow> buffer_operator \<Rightarrow> (buffer_error, buffer_operator) result" where
  "SetBuffer bs b =
     (if bo_end b < ptr_add (bo_cur b) (length bs) then Inl BufferOutOfBounds
      else bindR (store_bytes bs b)
             (\<lambda>b'. Inr (b'\<lparr>bo_cur := ptr_add (bo_cur b') (length bs)\<rparr>)))"

definition SetUint8 :: "byte \<Rightarrow> buffer_operator \<Rightarrow> (buffer_error, buffer_operator) result" where
  "SetUint8 n b = SetBuffer [n] b"

definition SetUint16 :: "bool \<Rightarrow> u16 \<Rightarrow> buffer_operator \<Rightarrow> (buffer_error, buffer_operator) result" where
  "SetUint16 little n b = SetBuffer (SetBufFromUint16 little n) b"

definition SetUint32 :: "bool \<Rightarrow> u32 \<Rightarrow> buffer_operator \<Rightarrow> (buffer_error, buffer_operator) result" where
  "SetUint32 little n b = SetBuffer (SetBufFromUint32 little n) b"

definition SetUint64 :: "u64 \<Rightarrow> buffer_operator \<Rightarrow> (buffer_error, buffer_operator) result" where
  "SetUint64 n b = SetBuffer (SetBufFromUint64 n) b"

definition SetString ::
  "bool \<Rightarrow> byte list \<Rightarrow> BufferLenType \<Rightarrow> buffer_operator \<Rightarrow> (buffer_error, buffer_operator) result"
where
  "SetString little s len_type b =
     (let str_len = length s in
      if bo_end b < ptr_add (ptr_add (bo_cur b) (len_type_size len_type)) str_len
      then Inl BufferOutOfBounds
      else bindR
        (case len_type of
           kUInt8 \<Rightarrow> if 2 ^ 8 - 1 < str_len then Inl StringLengthOutOfRange
                     else SetUint8 (of_nat str_len) b
         | kUInt16 \<Rightarrow> if 2 ^ 16 - 1 < str_len then Inl StringLengthOutOfRange
                     else SetUint16 little (of_nat str_len) b
         | kUInt32 \<Rightarrow> if 2 ^ 32 - 1 < str_len then Inl StringLengthOutOfRange
                     else SetUint32 little (of_nat str_len) b
         | kUInt64 \<Rightarrow> if 2 ^ 64 - 1 < str_len then Inl StringLengthOutOfRange
                     else SetUint64 (of_nat str_len) b)
        (\<lambda>b. bindR (store_bytes s b)
          (\<lambda>b. Inr (b\<lparr>bo_cur := ptr_add (bo_cur b) str_len\<rparr>))))"

definition GetRemainingSize :: "buffer_operator \<Rightarrow> nat" where
  "GetRemainingSize b = bo_end b - bo_cur b"

text \<open>The loads of \<open>ConstBufferOperator\<close>: test, load, advance.\<close>

definition GetBytes :: "nat \<Rightarrow> buffer_operator \<Rightarrow> (buffer_error, byte list \<times> buffer_operator) result" where
  "GetBytes len b =
     (if bo_end b < ptr_add (bo_cur b) len then Inl BufferOutOfBounds
      else bindR (load_bytes len b)
             (\<lambda>bs. Inr (bs, b\<lparr>bo_cur := ptr_add (bo_cur b) len\<rparr>)))"

definition GetUint8 :: "buffer_operator \<Rightarrow> (buffer_error, byte \<times> buffer_operator) result" where
  "GetUint8 b = bindR (GetBytes 1 b) (\<lambda>(p, b). Inr (p ! 0, b))"

definition GetUint16 :: "bool \<Rightarrow> buffer_operator \<Rightarrow> (buffer_error, u16 \<times> buffer_operator) result" where
  "GetUint16 little b = bindR (GetBytes 2 b) (\<lambda>(p, b). Inr (GetUint16FromBuf little p, b))"

definition GetUint32 :: "bool \<Rightarrow> buffer_operator \<Rightarrow> (buffer_error, u32 \<times> buffer_operator) result" where
  "GetUint32 little b = bindR (GetBytes 4 b) (\<lambda>(p, b). Inr (GetUint32FromBuf little p, b))"

definition GetUint64 :: "buffer_operator \<Rightarrow> (buffer_error, u64 \<times> buffer_operator) result" where
  "GetUint64 b = bindR (GetBytes 8 b) (\<lambda>(p, b). Inr (GetUint64FromBuf p, b))"

text \<open>
  A span or string view is an address and a length; \<open>GetBuffer\<close> and \<open>GetString\<close> return it
  without reading the bytes behind it.
\<close>

type_synonym view = "nat \<times> nat"

definition GetBuffer :: "nat \<Rightarrow> buffer_operator \<Rightarrow> (buffer_error, view \<times> buffer_operator) result" where
  "GetBuffer len b =
     (if bo_end b < ptr_add (bo_cur b) len then Inl BufferOutOfBounds
      else Inr ((bo_cur b, len), b\<lparr>bo_cur := ptr_add (bo_cur b) len\<rparr>))"

definition GetString ::
  "bool \<Rightarrow> BufferLenType \<Rightarrow> buffer_operator \<Rightarrow> (buffer_error, view \<times> buffer_operator) result"
where
  "GetString little len_type b =
     bindR
       (case len_type of
          kUInt8 \<Rightarrow> bindR (GetUint8 b) (\<lambda>(n, b). Inr (unat n, b))
        | kUInt16 \<Rightarrow> bindR (GetUint16 little b) (\<lambda>(n, b). Inr (unat n, b))
        | kUInt32 \<Rightarrow> bindR (GetUint32 little b) (\<lambda>(n, b). Inr (unat n, b))
        | kUInt64 \<Rightarrow> bindR (GetUint64 b) (\<lambda>(n, b). Inr (unat n, b)))
       (\<lambda>(str_len, b). GetBuffer str_len b)"

definition GetRemainingBuffer :: "buffer_operator \<Rightarrow> (buffer_error, view \<times> buffer_operator) result" where
  "GetRemainingBuffer b = GetBuffer (GetRemainingSize b) b"

definition view_bytes :: "buffer_operator \<Rightarrow> view \<Rightarrow> byte list" where
  "view_bytes b v = take (snd v) (drop (fst v - bo_start b) (bo_mem b))"

definition view_inside :: "buffer_operator \<Rightarrow> view \<Rightarrow> bool" where
  "view_inside b v \<longleftrightarrow> bo_start b \<le> fst v \<and> fst v + snd v \<le> bo_end b"

text \<open>
  Reading the bytes of a view. \<open>bo_mem\<close> is the memory that really lies behind the pointer the cursor was
  made with; reading anything else is undefined and is the error \<open>OutOfRegion\<close>, which
  no code throws.
\<close>

definition view_load :: "buffer_operator \<Rightarrow> view \<Rightarrow> (buffer_error, byte list) result" where
  "view_load b v =
     (if bo_start b \<le> fst v \<and> fst v + snd v \<le> bo_start b + length (bo_mem b)
      then Inr (view_bytes b v) else Inl OutOfRegion)"

section \<open>Codec laws\<close>

lemma mask8: "(0xFF :: 'a::len word) = mask 8"
  by (simp add: mask_eq_exp_minus_1)

lemma ucast_and_mask8: "ucast ((x :: 'a::len word) AND 0xFF) = (ucast x :: byte)"
  unfolding mask8 by (rule bit_word_eqI) (auto simp: bit_simps dest: bit_imp_le_length)

lemma unat_low_byte: "unat (ucast (x AND 0xFF) :: byte) = unat x mod 256"
  for x :: "'a::len word"
  unfolding ucast_and_mask8 by (simp only: unsigned_ucast_eq take_bit_eq_mod) simp

lemma unat_drop_bit_div: "unat (drop_bit k n) = unat n div 2 ^ k" for n :: "'a::len word"
  using unat_drop_bit_eq [of k n] by (simp only: drop_bit_eq_div [of k "unat n"])

lemma push_bit_ucast: "push_bit k (ucast (b :: byte) :: 'a::len word) = of_nat (unat b * 2 ^ k)"
  by (simp add: push_bit_eq_mult)

lemma ucast_of_nat_unat: "(ucast (b :: byte) :: 'a::len word) = of_nat (unat b)"
  by simp

text \<open>The interface of an integer codec: a fixed size and a decoder that inverts the encoder.\<close>

locale int_codec =
  fixes size_of :: nat
    and encode :: "'n \<Rightarrow> byte list"
    and decode :: "byte list \<Rightarrow> 'n"
  assumes length_encode: "length (encode n) = size_of"
    and decode_encode: "decode (encode n) = n"

lemma object_value_bytes:
  assumes "LENGTH('a) = 8 * k"
  shows "object_value (object_bytes k (n :: 'a::len word)) = n"
proof -
  have "(\<Sum>i<k. unat (of_nat (unat n div 256 ^ i) :: byte) * 256 ^ i) =
        (\<Sum>i<k. (unat n div 256 ^ i mod 256) * 256 ^ i)"
    by (simp add: unat_of_nat)
  also have "\<dots> = unat n mod 256 ^ k" by (rule sum_base256)
  also have "\<dots> = unat n"
  proof -
    have "(256 :: nat) ^ k = 2 ^ LENGTH('a)" using assms by (simp add: power_mult)
    then show ?thesis using unsigned_less [of n] by simp
  qed
  finally show ?thesis by (simp add: object_value_def object_bytes_def)
qed

lemma sum_lessThan_8:
  "(\<Sum>i<8. f i) = f 0 + f 1 + f 2 + f 3 + f 4 + f 5 + f 6 + f 7" for f :: "nat \<Rightarrow> nat"
  by (simp add: numeral_eq_Suc)

lemma sum_lessThan_4: "(\<Sum>i<4. f i) = f 0 + f 1 + f 2 + f 3" for f :: "nat \<Rightarrow> nat"
  by (simp add: numeral_eq_Suc)

lemma sum_lessThan_2: "(\<Sum>i<2. f i) = f 0 + f 1" for f :: "nat \<Rightarrow> nat"
  by (simp add: numeral_eq_Suc)

lemma sum_base256_64:
  "n < 2 ^ 64 \<Longrightarrow>
   n mod 256 + n div 2 ^ 8 mod 256 * 2 ^ 8 + n div 2 ^ 16 mod 256 * 2 ^ 16 +
   n div 2 ^ 24 mod 256 * 2 ^ 24 + n div 2 ^ 32 mod 256 * 2 ^ 32 +
   n div 2 ^ 40 mod 256 * 2 ^ 40 + n div 2 ^ 48 mod 256 * 2 ^ 48 +
   n div 2 ^ 56 mod 256 * 2 ^ 56 = (n :: nat)"
  using sum_base256 [of n 8] by (simp add: sum_lessThan_8)

lemma GetUint64FromBuf_bytes:
  "GetUint64FromBuf [b0, b1, b2, b3, b4, b5, b6, b7] =
     of_nat (unat b0 + unat b1 * 2 ^ 8 + unat b2 * 2 ^ 16 + unat b3 * 2 ^ 24 +
       unat b4 * 2 ^ 32 + unat b5 * 2 ^ 40 + unat b6 * 2 ^ 48 + unat b7 * 2 ^ 56)"
  unfolding GetUint64FromBuf_def push_bit_ucast by simp

lemma GetUint64_SetBuf: "GetUint64FromBuf (SetBufFromUint64 n) = n"
  unfolding SetBufFromUint64_def GetUint64FromBuf_bytes unat_low_byte unat_drop_bit_div
  by (subst sum_base256_64) (use unsigned_less [of n] in simp_all)

lemma sum_base256_32:
  "n < 2 ^ 32 \<Longrightarrow>
   n mod 256 + n div 2 ^ 8 mod 256 * 2 ^ 8 + n div 2 ^ 16 mod 256 * 2 ^ 16 +
   n div 2 ^ 24 mod 256 * 2 ^ 24 = (n :: nat)"
  using sum_base256 [of n 4] by (simp add: sum_lessThan_4)

lemma GetUint32_explicit:
  "GetUint32FromBuf False [b0, b1, b2, b3] =
     of_nat (unat b0 + unat b1 * 2 ^ 8 + unat b2 * 2 ^ 16 + unat b3 * 2 ^ 24)"
  unfolding GetUint32FromBuf_def push_bit_ucast by simp

lemma GetUint32_SetBuf: "GetUint32FromBuf little (SetBufFromUint32 little n) = n"
proof (cases little)
  case True
  have "length (object_bytes 4 n) = 4" by (simp add: object_bytes_def)
  with True show ?thesis
    by (simp add: GetUint32FromBuf_def SetBufFromUint32_def object_value_bytes)
next
  case False
  have "SetBufFromUint32 False n =
      [ucast (n AND 0xFF), ucast (drop_bit 8 n AND 0xFF), ucast (drop_bit 16 n AND 0xFF),
       ucast (drop_bit 24 n AND 0xFF)]"
    by (simp only: SetBufFromUint32_def if_False)
  then have "GetUint32FromBuf False (SetBufFromUint32 False n) = n"
    by (simp only: GetUint32_explicit unat_low_byte unat_drop_bit_div)
      (subst sum_base256_32, use unsigned_less [of n] in simp_all)
  with False show ?thesis by simp
qed

lemma sum_base256_16: "n < 2 ^ 16 \<Longrightarrow> n mod 256 + n div 2 ^ 8 mod 256 * 2 ^ 8 = (n :: nat)"
  using sum_base256 [of n 2] by (simp add: sum_lessThan_2)

lemma GetUint16_explicit: "GetUint16FromBuf False [b0, b1] = of_nat (unat b0 + unat b1 * 2 ^ 8)"
  unfolding GetUint16FromBuf_def push_bit_ucast by simp

lemma GetUint16_SetBuf: "GetUint16FromBuf little (SetBufFromUint16 little n) = n"
proof (cases little)
  case True
  have "length (object_bytes 2 n) = 2" by (simp add: object_bytes_def)
  with True show ?thesis
    by (simp add: GetUint16FromBuf_def SetBufFromUint16_def object_value_bytes)
next
  case False
  have "SetBufFromUint16 False n = [ucast (n AND 0xFF), ucast (drop_bit 8 n AND 0xFF)]"
    by (simp only: SetBufFromUint16_def if_False)
  then have "GetUint16FromBuf False (SetBufFromUint16 False n) = n"
    by (simp only: GetUint16_explicit unat_low_byte unat_drop_bit_div)
      (subst sum_base256_16, use unsigned_less [of n] in simp_all)
  with False show ?thesis by simp
qed

section \<open>Cursor invariant\<close>

text \<open>
  A cursor is well formed when its pointer lies inside its region, the region lies in the
  lower half of the address space (where every platform the code runs on puts user data)
  and the model holds one byte per address of the region.
\<close>

definition buf_wf :: "buffer_operator \<Rightarrow> bool" where
  "buf_wf b \<longleftrightarrow> bo_start b \<le> bo_cur b \<and> bo_cur b \<le> bo_end b \<and> bo_end b \<le> 2 ^ 63 \<and>
     length (bo_mem b) = bo_end b - bo_start b"

definition splice :: "nat \<Rightarrow> byte list \<Rightarrow> byte list \<Rightarrow> byte list" where
  "splice off bs m = take off m @ bs @ drop (off + length bs) m"

lemma length_splice: "off + length bs \<le> length m \<Longrightarrow> length (splice off bs m) = length m"
  by (simp add: splice_def)

lemma take_drop_splice: "off + length bs \<le> length m \<Longrightarrow> take (length bs) (drop off (splice off bs m)) = bs"
  by (simp add: splice_def)

lemma splice_splice:
  assumes "off + length bs + length cs \<le> length m"
  shows "splice (off + length bs) cs (splice off bs m) = splice off (bs @ cs) m"
proof -
  have "min (length m) off = off" using assms by simp
  then show ?thesis using assms by (simp add: splice_def ac_simps)
qed

lemma ptr_add_small: "p + n < 2 ^ 64 \<Longrightarrow> ptr_add p n = p + n"
  by (simp add: ptr_add_def)

lemma buf_wf_mk: "p + length bs \<le> 2 ^ 63 \<Longrightarrow> buf_wf (mk_buffer_operator p bs)"
  by (simp add: buf_wf_def mk_buffer_operator_def)

lemma store_bytes_splice:
  "bo_start b \<le> bo_cur b \<Longrightarrow> bo_cur b + length bs \<le> bo_end b \<Longrightarrow>
   store_bytes bs b = Inr (b\<lparr>bo_mem := splice (bo_cur b - bo_start b) bs (bo_mem b)\<rparr>)"
  by (simp add: store_bytes_def splice_def Let_def)

lemma SetBuffer_wf_eq:
  assumes "buf_wf b" "length bs < 2 ^ 63"
  shows "SetBuffer bs b =
    (if length bs \<le> GetRemainingSize b
     then Inr (b\<lparr>bo_mem := splice (bo_cur b - bo_start b) bs (bo_mem b),
                 bo_cur := bo_cur b + length bs\<rparr>)
     else Inl BufferOutOfBounds)"
proof -
  have "ptr_add (bo_cur b) (length bs) = bo_cur b + length bs"
    using assms by (intro ptr_add_small) (simp add: buf_wf_def)
  then show ?thesis using assms
    by (auto simp: SetBuffer_def store_bytes_def GetRemainingSize_def buf_wf_def splice_def Let_def)
qed

lemma GetBytes_wf_eq:
  assumes "buf_wf b" "len < 2 ^ 63"
  shows "GetBytes len b =
    (if len \<le> GetRemainingSize b
     then Inr (take len (drop (bo_cur b - bo_start b) (bo_mem b)), b\<lparr>bo_cur := bo_cur b + len\<rparr>)
     else Inl BufferOutOfBounds)"
proof -
  have "ptr_add (bo_cur b) len = bo_cur b + len"
    using assms by (intro ptr_add_small) (simp add: buf_wf_def)
  then show ?thesis using assms
    by (auto simp: GetBytes_def load_bytes_def GetRemainingSize_def buf_wf_def)
qed

lemma GetBuffer_wf_eq:
  assumes "buf_wf b" "len < 2 ^ 63"
  shows "GetBuffer len b =
    (if len \<le> GetRemainingSize b
     then Inr ((bo_cur b, len), b\<lparr>bo_cur := bo_cur b + len\<rparr>)
     else Inl BufferOutOfBounds)"
proof -
  have "ptr_add (bo_cur b) len = bo_cur b + len"
    using assms by (intro ptr_add_small) (simp add: buf_wf_def)
  then show ?thesis using assms by (auto simp: GetBuffer_def GetRemainingSize_def buf_wf_def)
qed

lemma SetBuffer_keeps_wf [inv_intros]:
  assumes "buf_wf b" "length bs < 2 ^ 63" "SetBuffer bs b = Inr b'"
  shows "buf_wf b'"
  using assms
  by (auto simp: SetBuffer_wf_eq buf_wf_def GetRemainingSize_def length_splice split: if_splits)

lemma GetBytes_keeps_wf [inv_intros]:
  assumes "buf_wf b" "len < 2 ^ 63" "GetBytes len b = Inr (bs, b')"
  shows "buf_wf b'"
  using assms by (auto simp: GetBytes_wf_eq buf_wf_def GetRemainingSize_def split: if_splits)

lemma GetBuffer_keeps_wf [inv_intros]:
  assumes "buf_wf b" "len < 2 ^ 63" "GetBuffer len b = Inr (v, b')"
  shows "buf_wf b' \<and> view_inside b' v"
  using assms
  by (auto simp: GetBuffer_wf_eq buf_wf_def view_inside_def GetRemainingSize_def split: if_splits)

section \<open>Round trips through a cursor\<close>

definition rewind_to :: "buffer_operator \<Rightarrow> buffer_operator \<Rightarrow> buffer_operator" where
  "rewind_to b b' = b'\<lparr>bo_cur := bo_cur b\<rparr>"

context int_codec
begin

text \<open>What a codec writes at the cursor is what it reads back from there.\<close>

lemma write_then_read:
  assumes wf: "buf_wf b" and small: "size_of < 2 ^ 63"
    and w: "SetBuffer (encode n) b = Inr b'"
  shows "bindR (GetBytes size_of (rewind_to b b')) (\<lambda>(p, c). Inr (decode p, c)) = Inr (n, b')"
proof -
  from w wf small have fits: "size_of \<le> GetRemainingSize b"
    and b': "b' = b\<lparr>bo_mem := splice (bo_cur b - bo_start b) (encode n) (bo_mem b),
                     bo_cur := bo_cur b + size_of\<rparr>"
    by (auto simp: SetBuffer_wf_eq length_encode split: if_splits)
  have len: "bo_cur b - bo_start b + length (encode n) \<le> length (bo_mem b)"
    using wf fits by (auto simp: buf_wf_def GetRemainingSize_def length_encode)
  have wf': "buf_wf (rewind_to b b')"
    using wf len by (simp add: b' rewind_to_def buf_wf_def length_splice)
  show ?thesis
    using fits take_drop_splice [OF len] GetBytes_wf_eq [OF wf' small]
    by (simp add: b' rewind_to_def GetRemainingSize_def length_encode decode_encode)
qed

end

interpretation u8c: int_codec 1 "\<lambda>n. [n]" "\<lambda>p. p ! 0"
  by unfold_locales simp_all

interpretation u16c: int_codec 2 "SetBufFromUint16 little" "GetUint16FromBuf little" for little
  by unfold_locales (simp add: SetBufFromUint16_def object_bytes_def, rule GetUint16_SetBuf)

interpretation u32c: int_codec 4 "SetBufFromUint32 little" "GetUint32FromBuf little" for little
  by unfold_locales (simp add: SetBufFromUint32_def object_bytes_def, rule GetUint32_SetBuf)

interpretation u64c: int_codec 8 SetBufFromUint64 GetUint64FromBuf
  by unfold_locales (simp add: SetBufFromUint64_def, rule GetUint64_SetBuf)

lemma unat_bound: "unat (w :: 'a::len word) < 2 ^ LENGTH('a)"
  by (rule unsigned_less)

text \<open>The layout does not depend on the byte order of the machine.\<close>

lemma object_byte: "of_nat (unat n div 256 ^ i) = (ucast (drop_bit (8 * i) n AND 0xFF) :: byte)"
  for n :: "'a::len word"
proof -
  have "(256 :: nat) ^ i = 2 ^ (8 * i)" by (simp add: power_mult)
  then have "unat n div 256 ^ i = unat (drop_bit (8 * i) n)" by (simp only: unat_drop_bit_div)
  then show ?thesis by (simp only: ucast_and_mask8) simp
qed

lemma upt_4: "[0..<4] = [0, 1, 2, 3 :: nat]"
  by (simp add: upt_rec)

lemma SetBufFromUint16_host: "SetBufFromUint16 little n = SetBufFromUint16 False n"
  using object_byte [of n 0] object_byte [of n 1]
  by (simp add: SetBufFromUint16_def object_bytes_def upt_rec numeral_2_eq_2)

lemma SetBufFromUint32_host: "SetBufFromUint32 little n = SetBufFromUint32 False n"
  using object_byte [of n 0] object_byte [of n 1] object_byte [of n 2] object_byte [of n 3]
  by (simp add: SetBufFromUint32_def object_bytes_def upt_4)

text \<open>The encoding of a string's length and the number it is read back as.\<close>

fun len_bytes :: "bool \<Rightarrow> BufferLenType \<Rightarrow> nat \<Rightarrow> byte list" where
  "len_bytes little kUInt8 n = [of_nat n]"
| "len_bytes little kUInt16 n = SetBufFromUint16 little (of_nat n)"
| "len_bytes little kUInt32 n = SetBufFromUint32 little (of_nat n)"
| "len_bytes little kUInt64 n = SetBufFromUint64 (of_nat n)"

fun len_value :: "bool \<Rightarrow> BufferLenType \<Rightarrow> byte list \<Rightarrow> nat" where
  "len_value little kUInt8 p = unat (p ! 0)"
| "len_value little kUInt16 p = unat (GetUint16FromBuf little p)"
| "len_value little kUInt32 p = unat (GetUint32FromBuf little p)"
| "len_value little kUInt64 p = unat (GetUint64FromBuf p)"

fun len_max :: "BufferLenType \<Rightarrow> nat" where
  "len_max kUInt8 = 2 ^ 8 - 1"
| "len_max kUInt16 = 2 ^ 16 - 1"
| "len_max kUInt32 = 2 ^ 32 - 1"
| "len_max kUInt64 = 2 ^ 64 - 1"

lemma length_len_bytes [simp]: "length (len_bytes little t n) = len_type_size t"
  by (cases t) (simp_all add: u16c.length_encode u32c.length_encode u64c.length_encode)

lemma len_value_bytes: "n \<le> len_max t \<Longrightarrow> len_value little t (len_bytes little t n) = n"
  by (cases t) (simp_all add: u16c.decode_encode u32c.decode_encode u64c.decode_encode unat_of_nat)

lemma len_type_size_small: "len_type_size t \<le> 8"
  by (cases t) simp_all

lemma SetString_unfold:
  "SetString little s t b =
     (if bo_end b < ptr_add (ptr_add (bo_cur b) (len_type_size t)) (length s)
      then Inl BufferOutOfBounds
      else if len_max t < length s then Inl StringLengthOutOfRange
      else bindR (SetBuffer (len_bytes little t (length s)) b)
        (\<lambda>b. bindR (store_bytes s b)
          (\<lambda>b. Inr (b\<lparr>bo_cur := ptr_add (bo_cur b) (length s)\<rparr>))))"
  by (cases t)
    (simp_all add: SetString_def SetUint8_def SetUint16_def SetUint32_def SetUint64_def Let_def)

lemma GetString_unfold:
  "GetString little t b =
     bindR (GetBytes (len_type_size t) b) (\<lambda>(p, b). GetBuffer (len_value little t p) b)"
  by (cases t)
    (simp_all add: GetString_def GetUint8_def GetUint16_def GetUint32_def GetUint64_def
      bindR_assoc split_def)

lemma SetString_wf_eq:
  assumes wf: "buf_wf b" and small: "length s < 2 ^ 62"
  shows "SetString little s t b =
     (if GetRemainingSize b < len_type_size t + length s then Inl BufferOutOfBounds
      else if len_max t < length s then Inl StringLengthOutOfRange
      else SetBuffer (len_bytes little t (length s) @ s) b)"
proof -
  let ?k = "len_type_size t" and ?l = "len_bytes little t (length s)"
  have k: "?k \<le> 8" by (rule len_type_size_small)
  have cur: "bo_cur b \<le> bo_end b" "bo_end b \<le> 2 ^ 63" using wf by (simp_all add: buf_wf_def)
  have pa: "ptr_add (ptr_add (bo_cur b) ?k) (length s) = bo_cur b + ?k + length s"
    using k cur small by (simp add: ptr_add_small)
  show ?thesis
  proof (cases "GetRemainingSize b < ?k + length s \<or> len_max t < length s")
    case True
    then show ?thesis using pa cur by (auto simp: SetString_unfold GetRemainingSize_def)
  next
    case False
    let ?b1 = "b\<lparr>bo_mem := splice (bo_cur b - bo_start b) ?l (bo_mem b), bo_cur := bo_cur b + ?k\<rparr>"
    have fit: "bo_start b \<le> bo_cur b" "bo_cur b + ?k + length s \<le> bo_end b"
      "bo_cur b - bo_start b + ?k + length s \<le> length (bo_mem b)"
      using False wf by (auto simp: buf_wf_def GetRemainingSize_def)
    have s1: "SetBuffer ?l b = Inr ?b1"
      using False wf k SetBuffer_wf_eq [OF wf, of ?l] by (simp add: GetRemainingSize_def)
    have off: "bo_cur b + ?k - bo_start b = bo_cur b - bo_start b + ?k" using fit(1) by simp
    have "store_bytes s ?b1 =
        Inr (?b1\<lparr>bo_mem := splice (bo_cur ?b1 - bo_start ?b1) s (bo_mem ?b1)\<rparr>)"
      by (rule store_bytes_splice) (use fit(1,2) in simp_all)
    moreover have "splice (bo_cur ?b1 - bo_start ?b1) s (bo_mem ?b1) =
        splice (bo_cur b - bo_start b) (?l @ s) (bo_mem b)"
      using fit(3) splice_splice [of "bo_cur b - bo_start b" ?l s "bo_mem b"]
      by (simp add: off)
    ultimately have s2: "store_bytes s ?b1 =
        Inr (?b1\<lparr>bo_mem := splice (bo_cur b - bo_start b) (?l @ s) (bo_mem b)\<rparr>)"
      by (simp only:)
    have s3: "ptr_add (bo_cur b + ?k) (length s) = bo_cur b + ?k + length s"
      by (rule ptr_add_small) (use cur small k in simp)
    have chk: "\<not> bo_end b < ptr_add (ptr_add (bo_cur b) ?k) (length s)" "\<not> len_max t < length s"
      using False pa fit(2) by simp_all
    have "SetString little s t b =
        Inr (b\<lparr>bo_mem := splice (bo_cur b - bo_start b) (?l @ s) (bo_mem b),
               bo_cur := bo_cur b + ?k + length s\<rparr>)"
      unfolding SetString_unfold using chk s1 s2 s3 by simp
    then show ?thesis
      using False wf small k SetBuffer_wf_eq [OF wf, of "?l @ s"]
      by (simp add: add.assoc)
  qed
qed

section \<open>Properties\<close>

text \<open>
  Whatever \<open>SetString\<close> writes, \<open>GetString\<close> with the same length type reads back: from a
  well-formed cursor the string view returned covers exactly the bytes of the string, lies
  inside the region, and both cursors end at the same position.
\<close>

theorem string_round_trip:
  assumes "buf_wf b" "length s < 2 ^ 62" "SetString little s t b = Inr b'"
  shows "\<exists>v. GetString little t (rewind_to b b') = Inr (v, b') \<and>
    view_inside b' v \<and> view_bytes b' v = s"
proof -
  let ?l = "len_bytes little t (length s)" and ?off = "bo_cur b - bo_start b"
  note k = len_type_size_small [of t]
  from assms have fits: "len_type_size t + length s \<le> GetRemainingSize b" "length s \<le> len_max t"
    and w: "SetBuffer (?l @ s) b = Inr b'"
    by (auto simp: SetString_wf_eq not_less split: if_splits)
  have b': "b' = b\<lparr>bo_mem := splice ?off (?l @ s) (bo_mem b),
      bo_cur := bo_cur b + (len_type_size t + length s)\<rparr>"
    using w assms(1,2) k fits SetBuffer_wf_eq [of b "?l @ s"] by (simp split: if_splits)
  have mem: "?off + length (?l @ s) \<le> length (bo_mem b)"
    using fits(1) assms(1) by (auto simp: buf_wf_def GetRemainingSize_def)
  have region: "drop ?off (bo_mem b') = ?l @ s @ drop (?off + length (?l @ s)) (bo_mem b)"
    using mem by (simp add: b' splice_def)
  have wf: "buf_wf (rewind_to b b')"
    using assms(1) mem by (simp add: b' rewind_to_def buf_wf_def length_splice)
  let ?c = "(rewind_to b b')\<lparr>bo_cur := bo_cur b + len_type_size t\<rparr>"
  have rd: "GetBytes (len_type_size t) (rewind_to b b') = Inr (?l, ?c)"
    using GetBytes_wf_eq [OF wf, of "len_type_size t"] fits(1) k region
    by (simp add: b' rewind_to_def GetRemainingSize_def)
  have wfc: "buf_wf ?c" using GetBytes_keeps_wf [OF wf _ rd] k by simp
  have "GetBuffer (length s) ?c = Inr ((bo_cur b + len_type_size t, length s), b')"
    using GetBuffer_wf_eq [OF wfc, of "length s"] fits(1) assms(2)
    by (simp add: b' rewind_to_def GetRemainingSize_def)
  moreover have "view_bytes b' (bo_cur b + len_type_size t, length s) = s"
  proof -
    have "drop (bo_cur b + len_type_size t - bo_start b) (bo_mem b') =
        drop (len_type_size t) (drop ?off (bo_mem b'))"
      using assms(1) by (simp add: buf_wf_def add.commute)
    then show ?thesis by (simp add: view_bytes_def b' region [unfolded b', simplified])
  qed
  moreover have "view_inside b' (bo_cur b + len_type_size t, length s)"
    using fits(1) assms(1) by (auto simp: b' view_inside_def buf_wf_def GetRemainingSize_def)
  ultimately show ?thesis using rd fits(2) by (simp add: GetString_unfold len_value_bytes)
qed

definition demo_buffer :: buffer_operator where
  "demo_buffer = mk_buffer_operator 4096 (replicate 12 0)"

theorem string_round_trip_witness:
  "\<exists>b' v. SetString True [104, 105] kUInt16 demo_buffer = Inr b' \<and>
     GetString True kUInt16 (rewind_to demo_buffer b') = Inr (v, b') \<and>
     view_bytes b' v = [104, 105]"
proof -
  have wf: "buf_wf demo_buffer" by (simp add: demo_buffer_def buf_wf_mk)
  have "is_ok (SetString True [104, 105] kUInt16 demo_buffer)"
    by (subst SetString_wf_eq [OF wf], simp, subst SetBuffer_wf_eq [OF wf])
      (simp_all add: demo_buffer_def mk_buffer_operator_def GetRemainingSize_def u16c.length_encode)
  then obtain b' where b': "SetString True [104, 105] kUInt16 demo_buffer = Inr b'"
    by (auto simp: is_ok_iff)
  from string_round_trip [OF wf _ this] show ?thesis using b' by auto
qed

text \<open>The operations of the write cursor, as one alphabet.\<close>

datatype write_op =
    WSkip nat | WJumpTo nat | WUint8 byte | WUint16 u16 | WUint32 u32 | WUint64 u64
  | WBuffer "byte list" | WString "byte list" BufferLenType

fun apply_write :: "bool \<Rightarrow> write_op \<Rightarrow> buffer_operator \<Rightarrow> (buffer_error, buffer_operator) result" where
  "apply_write little (WSkip n) b = bindR (Skip n b) (\<lambda>(_, b). Inr b)"
| "apply_write little (WJumpTo n) b = JumpTo n b"
| "apply_write little (WUint8 n) b = SetUint8 n b"
| "apply_write little (WUint16 n) b = SetUint16 little n b"
| "apply_write little (WUint32 n) b = SetUint32 little n b"
| "apply_write little (WUint64 n) b = SetUint64 n b"
| "apply_write little (WBuffer bs) b = SetBuffer bs b"
| "apply_write little (WString s t) b = SetString little s t b"

fun write_size :: "write_op \<Rightarrow> nat" where
  "write_size (WSkip n) = n"
| "write_size (WBuffer bs) = length bs"
| "write_size (WString s t) = length s"
| "write_size _ = 0"

definition write_safe :: "buffer_operator \<Rightarrow> (buffer_error, buffer_operator) result \<Rightarrow> bool" where
  "write_safe b r \<longleftrightarrow> r \<noteq> Inl OutOfRegion \<and>
     (\<forall>b'. r = Inr b' \<longrightarrow> buf_wf b' \<and> bo_start b' = bo_start b \<and> bo_end b' = bo_end b)"

lemma write_safe_same_region:
  "bo_start b1 = bo_start b \<Longrightarrow> bo_end b1 = bo_end b \<Longrightarrow> write_safe b1 r = write_safe b r"
  by (simp add: write_safe_def)

lemma write_safe_SetBuffer:
  assumes "buf_wf b" "length bs < 2 ^ 63"
  shows "write_safe b (SetBuffer bs b)"
  using SetBuffer_keeps_wf [OF assms] SetBuffer_wf_eq [OF assms] by (auto simp: write_safe_def)

lemma apply_write_safe:
  assumes wf: "buf_wf b" and small: "write_size op < 2 ^ 62"
  shows "write_safe b (apply_write little op b)"
proof (cases op)
  case (WSkip n)
  then have "ptr_add (bo_cur b) n = bo_cur b + n"
    using wf small by (intro ptr_add_small) (simp add: buf_wf_def)
  with WSkip wf show ?thesis by (auto simp: Skip_def write_safe_def buf_wf_def Let_def)
next
  case (WJumpTo n)
  show ?thesis
  proof (cases "bo_end b - bo_start b < n")
    case False
    then have "ptr_add (bo_start b) n = bo_start b + n"
      using wf by (intro ptr_add_small) (auto simp: buf_wf_def)
    then have "apply_write little op b = Inr (b\<lparr>bo_cur := bo_start b + n\<rparr>)"
      using False WJumpTo by (simp add: JumpTo_def)
    moreover have "buf_wf (b\<lparr>bo_cur := bo_start b + n\<rparr>)"
      using False wf by (auto simp: buf_wf_def)
    ultimately show ?thesis by (simp add: write_safe_def)
  qed (simp add: WJumpTo JumpTo_def write_safe_def)
next
  case (WString s t)
  have "length (len_bytes little t (length s) @ s) < 2 ^ 63"
    using small WString len_type_size_small [of t] by simp
  note safe = write_safe_SetBuffer [OF wf this]
  have "length s < 2 ^ 62" using small WString by simp
  from SetString_wf_eq [OF wf this, of little t]
  consider "SetString little s t b = Inl BufferOutOfBounds"
    | "SetString little s t b = Inl StringLengthOutOfRange"
    | "SetString little s t b = SetBuffer (len_bytes little t (length s) @ s) b"
    by presburger
  then show ?thesis by cases (simp_all only: WString apply_write.simps safe, simp_all add: write_safe_def)
qed (use wf small in \<open>simp_all add: write_safe_SetBuffer SetUint8_def SetUint16_def SetUint32_def
       SetUint64_def u16c.length_encode u32c.length_encode u64c.length_encode\<close>)

text \<open>
  No sequence of write operations with object-sized arguments on a well-formed cursor
  touches memory outside its region: each either throws one of the two documented
  exceptions or leaves a well-formed cursor over the same region.
\<close>

theorem writes_stay_inside:
  assumes "buf_wf b" and "\<forall>op \<in> set ops. write_size op < 2 ^ 62"
  shows "write_safe b (foldR (apply_write little) ops b)"
  using assms
proof (induction ops arbitrary: b)
  case Nil
  then show ?case by (simp add: write_safe_def)
next
  case (Cons op ops)
  have safe: "write_safe b (apply_write little op b)"
    using Cons.prems by (intro apply_write_safe) auto
  show ?case
  proof (cases "apply_write little op b")
    case (Inr b1)
    with safe have b1: "buf_wf b1" "bo_start b1 = bo_start b" "bo_end b1 = bo_end b"
      by (auto simp: write_safe_def)
    have "write_safe b1 (foldR (apply_write little) ops b1)"
      using b1(1) Cons.prems(2) by (intro Cons.IH) simp_all
    with b1 Inr show ?thesis by (simp add: write_safe_same_region [OF b1(2,3)])
  qed (use safe in \<open>simp add: write_safe_def\<close>)
qed

theorem writes_stay_inside_witness:
  "write_safe demo_buffer (foldR (apply_write True) [WUint32 7, WString [1, 2] kUInt8, WSkip 1] demo_buffer)"
proof -
  have wf: "buf_wf demo_buffer" by (simp add: demo_buffer_def buf_wf_mk)
  show ?thesis by (rule writes_stay_inside [OF wf]) simp
qed

definition hostile_buffer :: buffer_operator where
  "hostile_buffer = mk_buffer_operator 4096 (replicate 8 255)"

text \<open>
  The bounds test of \<open>GetString\<close> is not enough: a length field that makes the pointer
  sum wrap passes it, and the returned view leaves the region. Eight bytes \<open>0xFF\<close> are such
  a buffer.
\<close>

theorem GetString_length_wraps:
  "buf_wf hostile_buffer \<and>
   GetString little kUInt64 hostile_buffer =
     Inr ((4104, 2 ^ 64 - 1), hostile_buffer\<lparr>bo_cur := 4103\<rparr>) \<and>
   \<not> view_inside hostile_buffer (4104, 2 ^ 64 - 1)"
proof -
  have wf: "buf_wf hostile_buffer" by (simp add: hostile_buffer_def buf_wf_mk)
  have "GetBytes 8 hostile_buffer = Inr (replicate 8 255, hostile_buffer\<lparr>bo_cur := 4104\<rparr>)"
    using GetBytes_wf_eq [OF wf, of 8]
    by (simp add: hostile_buffer_def mk_buffer_operator_def GetRemainingSize_def)
  moreover have "replicate 8 (255 :: byte) = [255, 255, 255, 255, 255, 255, 255, 255]"
    by (simp add: numeral_eq_Suc)
  then have "GetUint64FromBuf (replicate 8 255) = - 1" by (simp only: GetUint64FromBuf_bytes) simp
  then have "len_value little kUInt64 (replicate 8 255) = 2 ^ 64 - 1"
    by (simp add: unsigned_minus_1_eq_mask mask_eq_exp_minus_1)
  moreover have "GetBuffer (2 ^ 64 - 1) (hostile_buffer\<lparr>bo_cur := 4104\<rparr>) =
      Inr ((4104, 2 ^ 64 - 1), hostile_buffer\<lparr>bo_cur := 4103\<rparr>)"
    by (simp add: GetBuffer_def hostile_buffer_def mk_buffer_operator_def ptr_add_def)
  moreover have "\<not> view_inside hostile_buffer (4104, 2 ^ 64 - 1)"
    by (simp add: view_inside_def hostile_buffer_def mk_buffer_operator_def)
  ultimately show ?thesis using wf by (simp add: GetString_unfold)
qed

end
