(* ===== verification/StringUtil.thy ===== *)
theory StringUtil
  imports Prelude "HOL-Library.Char_ord" "HOL-Library.List_Lexorder"
begin

text \<open>
  The string routines of \<open>src/common/util/string_util.h\<close> that search, trim, split and join.
  Positions are \<open>nat\<close>; \<open>std::string_view::npos\<close> is \<open>None\<close>. A \<open>std::map\<close> over strings is
  an association list in key order, which is what its iterators enumerate.
\<close>

section \<open>Positions\<close>

definition match_at :: "string \<Rightarrow> string \<Rightarrow> nat \<Rightarrow> bool" where
  "match_at s sub i \<longleftrightarrow> i + length sub \<le> length s \<and> take (length sub) (drop i s) = sub"

text \<open>\<open>s.find(sub, pos)\<close> and \<open>s.rfind(sub, pos)\<close>.\<close>

definition find_pos :: "string \<Rightarrow> string \<Rightarrow> nat \<Rightarrow> nat option" where
  "find_pos s sub pos = List.find (match_at s sub) [pos..<Suc (length s)]"

definition rfind_pos :: "string \<Rightarrow> string \<Rightarrow> nat \<Rightarrow> nat option" where
  "rfind_pos s sub pos = List.find (match_at s sub) (rev [0..<Suc (min pos (length s))])"

definition find_first_not_of :: "string \<Rightarrow> char \<Rightarrow> nat option" where
  "find_first_not_of s c = List.find (\<lambda>i. s ! i \<noteq> c) [0..<length s]"

definition find_last_not_of :: "string \<Rightarrow> char \<Rightarrow> nat option" where
  "find_last_not_of s c = List.find (\<lambda>i. s ! i \<noteq> c) (rev [0..<length s])"

text \<open>\<open>s.substr(pos, n)\<close>; the difference of two \<open>size_t\<close> wraps.\<close>

definition substr :: "string \<Rightarrow> nat \<Rightarrow> nat \<Rightarrow> string" where
  "substr s pos n = take n (drop pos s)"

definition usub :: "nat \<Rightarrow> nat \<Rightarrow> nat" where
  "usub a b = (if b \<le> a then a - b else 2 ^ 64 - (b - a))"

section \<open>Trim\<close>

definition Trim :: "string \<Rightarrow> string" where
  "Trim s =
     (if s = [] then s
      else let s1 = take (case find_last_not_of s CHR '' '' of None \<Rightarrow> 0 | Some p \<Rightarrow> p + 1) s
           in drop (case find_first_not_of s1 CHR '' '' of None \<Rightarrow> length s1 | Some p \<Rightarrow> p) s1)"

text \<open>The overload on \<open>std::string\<close> erases in place; \<open>npos + 1\<close> is 0.\<close>

definition erase :: "string \<Rightarrow> nat \<Rightarrow> nat option \<Rightarrow> string" where
  "erase s pos n = take pos s @ (case n of None \<Rightarrow> [] | Some k \<Rightarrow> drop (pos + k) s)"

definition Trim_in_place :: "string \<Rightarrow> string" where
  "Trim_in_place s =
     (if s = [] then s
      else let s1 = erase s (case find_last_not_of s CHR '' '' of None \<Rightarrow> 0 | Some p \<Rightarrow> p + 1) None
           in erase s1 0 (find_first_not_of s1 CHR '' ''))"

section \<open>Splitting and joining\<close>

function split_loop :: "string \<Rightarrow> string \<Rightarrow> bool \<Rightarrow> bool \<Rightarrow> nat \<Rightarrow> string list" where
  "split_loop source sep trim clear pos_start =
     (let pos_end = (case find_pos source sep pos_start of None \<Rightarrow> length source | Some e \<Rightarrow> e);
          sub_str = substr source pos_start (usub pos_end pos_start);
          sub_str = (if trim then Trim sub_str else sub_str);
          item = (if clear \<and> sub_str = [] then [] else [sub_str])
      in item @ (if pos_end < length source \<and> sep \<noteq> []
                 then split_loop source sep trim clear (pos_end + length sep) else []))"
  by pat_completeness auto

lemma find_Some_iff_interval:
  "List.find P [a..<b] = Some i \<longleftrightarrow> a \<le> i \<and> i < b \<and> P i \<and> (\<forall>j. a \<le> j \<and> j < i \<longrightarrow> \<not> P j)"
proof
  assume "List.find P [a..<b] = Some i"
  then obtain k where "k < b - a" "P (a + k)" "i = a + k" "\<forall>j<k. \<not> P (a + j)"
    by (auto simp: find_Some_iff)
  then show "a \<le> i \<and> i < b \<and> P i \<and> (\<forall>j. a \<le> j \<and> j < i \<longrightarrow> \<not> P j)"
    by (auto dest!: le_Suc_ex)
next
  assume "a \<le> i \<and> i < b \<and> P i \<and> (\<forall>j. a \<le> j \<and> j < i \<longrightarrow> \<not> P j)"
  then show "List.find P [a..<b] = Some i"
    by (auto simp: find_Some_iff intro!: exI [of _ "i - a"])
qed

lemma find_None_interval: "List.find P [a..<b] = None \<longleftrightarrow> (\<forall>i. a \<le> i \<and> i < b \<longrightarrow> \<not> P i)"
  by (auto simp: find_None_iff)

lemma find_pos_Some:
  "find_pos s sub pos = Some i \<longleftrightarrow> pos \<le> i \<and> match_at s sub i \<and> (\<forall>j. pos \<le> j \<and> j < i \<longrightarrow> \<not> match_at s sub j)"
  unfolding find_pos_def find_Some_iff_interval by (auto simp: match_at_def)

lemma find_pos_None: "find_pos s sub pos = None \<longleftrightarrow> (\<forall>i \<ge> pos. \<not> match_at s sub i)"
  unfolding find_pos_def find_None_interval by (auto simp: match_at_def)

lemma next_pos_decreases:
  assumes "(case find_pos s sep pos of None \<Rightarrow> length s | Some e \<Rightarrow> e) < length s" "sep \<noteq> []"
  shows "length s - ((case find_pos s sep pos of None \<Rightarrow> length s | Some e \<Rightarrow> e) + length sep) <
    length s - pos"
proof -
  obtain e where e: "find_pos s sep pos = Some e" using assms(1) by (auto split: option.splits)
  then have "pos \<le> e" by (simp add: find_pos_Some)
  with e assms show ?thesis by (cases sep) auto
qed

termination split_loop
  by (relation "measure (\<lambda>(source, sep, trim, clear, pos). length source - pos)")
    (auto intro: next_pos_decreases)

declare split_loop.simps [simp del]

definition SplitToVec :: "string \<Rightarrow> string \<Rightarrow> bool \<Rightarrow> bool \<Rightarrow> string list" where
  "SplitToVec source sep trim clear =
     (if source = [] \<or> sep = [] then [] else split_loop source sep trim clear 0)"

fun join_loop :: "bool \<Rightarrow> string list \<Rightarrow> string \<Rightarrow> string" where
  "join_loop at_begin [] sep = []"
| "join_loop at_begin (x # xs) sep = (if at_begin then [] else sep) @ x @ join_loop False xs sep"

definition JoinVec :: "string list \<Rightarrow> string \<Rightarrow> string" where
  "JoinVec vec sep = join_loop True vec sep"

text \<open>A \<open>std::set\<close> of strings enumerates its elements in order, each once.\<close>

fun set_emplace :: "'a::linorder \<Rightarrow> 'a list \<Rightarrow> 'a list" where
  "set_emplace x [] = [x]"
| "set_emplace x (y # ys) = (if x < y then x # y # ys else if x = y then y # ys else y # set_emplace x ys)"

definition SplitToSet :: "string \<Rightarrow> string \<Rightarrow> bool \<Rightarrow> bool \<Rightarrow> string list" where
  "SplitToSet source sep trim clear =
     (if source = [] \<or> sep = [] then []
      else fold set_emplace (split_loop source sep trim clear 0) [])"

definition JoinSet :: "string list \<Rightarrow> string \<Rightarrow> string" where
  "JoinSet st sep = join_loop True st sep"

section \<open>Key-value strings\<close>

text \<open>\<open>m[k] = v\<close>, \<open>m.find(k)\<close> of a \<open>std::map\<close>.\<close>

fun map_assign :: "'k::linorder \<Rightarrow> 'v \<Rightarrow> ('k \<times> 'v) list \<Rightarrow> ('k \<times> 'v) list" where
  "map_assign k v [] = [(k, v)]"
| "map_assign k v ((k', v') # m) =
     (if k < k' then (k, v) # (k', v') # m
      else if k = k' then (k, v) # m
      else (k', v') # map_assign k v m)"

definition add_kv :: "bool \<Rightarrow> bool \<Rightarrow> string \<Rightarrow> string \<Rightarrow> (string \<times> string) list \<Rightarrow> (string \<times> string) list" where
  "add_kv trim clear kv_str msep result =
     (case find_pos kv_str msep 0 of
        None \<Rightarrow> result
      | Some msep_pos \<Rightarrow>
          let first = substr kv_str 0 msep_pos;
              second = drop (msep_pos + length msep) kv_str
          in if trim
             then let first = Trim first
                  in if \<not> (clear \<and> first = []) then map_assign first (Trim second) result else result
             else if \<not> (clear \<and> first = []) then map_assign first second result else result)"

function split_map_loop ::
  "string \<Rightarrow> string \<Rightarrow> string \<Rightarrow> bool \<Rightarrow> bool \<Rightarrow> nat \<Rightarrow> (string \<times> string) list \<Rightarrow> (string \<times> string) list"
where
  "split_map_loop source vsep msep trim clear v_pos_start result =
     (let v_pos_end = (case find_pos source vsep v_pos_start of None \<Rightarrow> length source | Some e \<Rightarrow> e);
          result = (if v_pos_start < v_pos_end
                    then add_kv trim clear (substr source v_pos_start (usub v_pos_end v_pos_start)) msep result
                    else result)
      in if v_pos_end < length source \<and> vsep \<noteq> []
         then split_map_loop source vsep msep trim clear (v_pos_end + length vsep) result else result)"
  by pat_completeness auto
termination
  by (relation "measure (\<lambda>(source, vsep, msep, trim, clear, pos, r). length source - pos)")
    (auto intro: next_pos_decreases)

declare split_map_loop.simps [simp del]

definition SplitToMap :: "string \<Rightarrow> string \<Rightarrow> string \<Rightarrow> bool \<Rightarrow> bool \<Rightarrow> (string \<times> string) list" where
  "SplitToMap source vsep msep trim clear =
     (if source = [] \<or> vsep = [] \<or> msep = [] \<or> vsep = msep then []
      else split_map_loop source vsep msep trim clear 0 [])"

fun join_map_loop :: "bool \<Rightarrow> (string \<times> string) list \<Rightarrow> string \<Rightarrow> string \<Rightarrow> string" where
  "join_map_loop at_begin [] vsep msep = []"
| "join_map_loop at_begin ((k, v) # m) vsep msep =
     (if at_begin then [] else vsep) @ k @ msep @ v @ join_map_loop False m vsep msep"

definition JoinMap :: "(string \<times> string) list \<Rightarrow> string \<Rightarrow> string \<Rightarrow> string" where
  "JoinMap kvmap vsep msep = join_map_loop True kvmap vsep msep"

definition GetMapItemWithDef :: "(string \<times> string) list \<Rightarrow> string \<Rightarrow> string \<Rightarrow> string" where
  "GetMapItemWithDef m key defval = (case map_of m key of Some v \<Rightarrow> v | None \<Rightarrow> defval)"

definition GetMapKeys :: "('k::linorder \<times> 'v) list \<Rightarrow> 'k list" where
  "GetMapKeys m = fold (\<lambda>kv re. set_emplace (fst kv) re) m []"

definition AddKV :: "string \<Rightarrow> string \<Rightarrow> string \<Rightarrow> string \<Rightarrow> string \<Rightarrow> string" where
  "AddKV s key val vsep msep =
     (let s = (if s \<noteq> [] then s @ vsep else s); s = s @ key; s = s @ msep in s @ val)"

section \<open>Trim removes exactly the outer spaces\<close>

lemma find_rev_Some_iff:
  "List.find P (rev [0..<n]) = Some i \<longleftrightarrow> i < n \<and> P i \<and> (\<forall>j. i < j \<and> j < n \<longrightarrow> \<not> P j)"
proof (induction n)
  case (Suc n)
  then show ?case by (auto simp: less_Suc_eq)
qed simp

lemma find_rev_None_iff: "List.find P (rev [0..<n]) = None \<longleftrightarrow> (\<forall>i<n. \<not> P i)"
  by (auto simp: find_None_iff)

definition is_space :: "char \<Rightarrow> bool" where "is_space c \<longleftrightarrow> c = CHR '' ''"

lemma drop_first_not_of:
  "drop (case find_first_not_of s CHR '' '' of None \<Rightarrow> length s | Some p \<Rightarrow> p) s = dropWhile is_space s"
proof (cases "find_first_not_of s CHR '' ''")
  case None
  then have "\<forall>c \<in> set s. is_space c"
    by (auto simp: find_first_not_of_def find_None_interval is_space_def in_set_conv_nth)
  then have eq: "dropWhile is_space s = []" by (simp only: dropWhile_eq_Nil_conv)
  show ?thesis unfolding eq using None by simp
next
  case (Some p)
  then have "p < length s" "s ! p \<noteq> CHR '' ''" "\<forall>j<p. s ! j = CHR '' ''"
    by (auto simp: find_first_not_of_def find_Some_iff_interval)
  then have "takeWhile is_space s = take p s"
    by (intro takeWhile_eq_take_P_nth) (auto simp: is_space_def)
  with Some \<open>p < length s\<close> show ?thesis by (simp add: dropWhile_eq_drop)
qed

lemma take_last_not_of:
  "take (case find_last_not_of s CHR '' '' of None \<Rightarrow> 0 | Some p \<Rightarrow> p + 1) s =
     rev (dropWhile is_space (rev s))"
proof (cases "find_last_not_of s CHR '' ''")
  case None
  then have "\<forall>c \<in> set (rev s). is_space c"
    unfolding find_last_not_of_def find_rev_None_iff by (auto simp: is_space_def in_set_conv_nth)
  then have "dropWhile is_space (rev s) = []" by (simp only: dropWhile_eq_Nil_conv)
  with None show ?thesis by simp
next
  case (Some p)
  then have p: "p < length s" "s ! p \<noteq> CHR '' ''" "\<forall>j. p < j \<and> j < length s \<longrightarrow> s ! j = CHR '' ''"
    unfolding find_last_not_of_def find_rev_Some_iff by auto
  then have "takeWhile is_space (rev s) = take (length s - Suc p) (rev s)"
    by (intro takeWhile_eq_take_P_nth) (auto simp: is_space_def rev_nth intro!: p(3) [rule_format])
  then have "dropWhile is_space (rev s) = drop (length s - Suc p) (rev s)"
    using p(1) by (simp add: dropWhile_eq_drop)
  with Some p(1) show ?thesis by (simp add: rev_drop)
qed

lemma Trim_eq: "Trim s = dropWhile is_space (rev (dropWhile is_space (rev s)))"
proof (cases "s = []")
  case False
  then have "Trim s = dropWhile is_space (take (case find_last_not_of s CHR '' '' of None \<Rightarrow> 0 | Some p \<Rightarrow> p + 1) s)"
    by (simp only: Trim_def if_False Let_def drop_first_not_of)
  then show ?thesis by (simp only: take_last_not_of)
qed (simp add: Trim_def)

lemma Trim_in_place_eq: "Trim_in_place s = Trim s"
  by (simp add: Trim_in_place_def Trim_def erase_def Let_def split: option.splits)

lemma dropWhile_space_split: "\<exists>a. s = replicate a CHR '' '' @ dropWhile is_space s"
proof -
  have "takeWhile is_space s = replicate (length (takeWhile is_space s)) CHR '' ''"
    by (rule replicate_eqI) (auto simp: is_space_def dest: set_takeWhileD)
  then show ?thesis by (metis takeWhile_dropWhile_id)
qed

lemma Trim_decomposes: "\<exists>a b. s = replicate a CHR '' '' @ Trim s @ replicate b CHR '' ''"
proof -
  let ?t = "rev (dropWhile is_space (rev s))"
  obtain b where "rev s = replicate b CHR '' '' @ dropWhile is_space (rev s)"
    using dropWhile_space_split by blast
  then have "s = ?t @ replicate b CHR '' ''" by (metis rev_append rev_replicate rev_rev_ident)
  moreover obtain a where "?t = replicate a CHR '' '' @ Trim s"
    unfolding Trim_eq using dropWhile_space_split by blast
  ultimately show ?thesis by (metis append_assoc)
qed

lemma Trim_ends:
  assumes "Trim s \<noteq> []"
  shows "hd (Trim s) \<noteq> CHR '' ''" "last (Trim s) \<noteq> CHR '' ''"
proof -
  let ?t = "rev (dropWhile is_space (rev s))"
  have ne: "dropWhile is_space ?t \<noteq> []" using assms by (simp add: Trim_eq)
  show "hd (Trim s) \<noteq> CHR '' ''"
    using hd_dropWhile [OF ne] by (simp add: Trim_eq is_space_def)
  have "dropWhile is_space (rev s) \<noteq> []" using ne by (metis dropWhile.simps(1) rev.simps(1))
  from hd_dropWhile [OF this] have "last ?t \<noteq> CHR '' ''"
    by (simp add: last_rev is_space_def)
  moreover have "last (dropWhile is_space ?t) = last ?t"
    using ne by (metis last_appendR takeWhile_dropWhile_id)
  ultimately show "last (Trim s) \<noteq> CHR '' ''" by (simp add: Trim_eq)
qed

lemma dropWhile_hd: "xs \<noteq> [] \<Longrightarrow> \<not> P (hd xs) \<Longrightarrow> dropWhile P xs = xs"
  by (cases xs) auto

lemma Trim_fixed: "s = [] \<or> (hd s \<noteq> CHR '' '' \<and> last s \<noteq> CHR '' '') \<Longrightarrow> Trim s = s"
proof (elim disjE)
  assume *: "hd s \<noteq> CHR '' '' \<and> last s \<noteq> CHR '' ''"
  show "Trim s = s"
  proof (cases "s = []")
    case False
    have "dropWhile is_space (rev s) = rev s"
      by (rule dropWhile_hd) (use * False in \<open>simp_all add: is_space_def hd_rev\<close>)
    moreover have "dropWhile is_space s = s"
      by (rule dropWhile_hd) (use * False in \<open>simp_all add: is_space_def\<close>)
    ultimately show ?thesis by (simp add: Trim_eq)
  qed (simp add: Trim_def)
qed (simp add: Trim_def)

section \<open>Split and join\<close>

abbreviation raw_split :: "string \<Rightarrow> string \<Rightarrow> nat \<Rightarrow> string list" where
  "raw_split s sep pos \<equiv> split_loop s sep False False pos"

lemma split_loop_raw:
  "split_loop s sep trim clear pos =
     filter (\<lambda>x. \<not> (clear \<and> x = [])) (map (if trim then Trim else id) (raw_split s sep pos))"
proof (induction s sep trim clear pos rule: split_loop.induct)
  case (1 s sep trim clear pos)
  let ?e = "case find_pos s sep pos of None \<Rightarrow> length s | Some e \<Rightarrow> e"
  note u = split_loop.simps [of s sep trim clear pos] split_loop.simps [of s sep False False pos]
  show ?case
  proof (cases "?e < length s \<and> sep \<noteq> []")
    case True
    note IH = 1 [OF refl refl refl refl True]
    show ?thesis unfolding u Let_def if_P [OF True] IH by simp
  next
    case False
    show ?thesis unfolding u Let_def if_not_P [OF False] by simp
  qed
qed

lemma raw_split_not_Nil [simp]: "raw_split s sep pos \<noteq> []"
  by (subst split_loop.simps) (simp add: Let_def)

lemma join_loop_False: "xs \<noteq> [] \<Longrightarrow> join_loop False xs sep = sep @ JoinVec xs sep"
  by (cases xs) (simp_all add: JoinVec_def)

lemma JoinVec_Cons: "JoinVec (x # xs) sep = (if xs = [] then x else x @ sep @ JoinVec xs sep)"
  by (simp add: JoinVec_def join_loop_False [unfolded JoinVec_def])

lemma match_at_drop: "match_at s sub i \<Longrightarrow> drop i s = sub @ drop (i + length sub) s"
  by (metis append_take_drop_id drop_drop match_at_def add.commute)

lemma raw_split_unfold:
  assumes "pos \<le> length s" "sep \<noteq> []"
  shows "raw_split s sep pos =
    (case find_pos s sep pos of
       None \<Rightarrow> [drop pos s]
     | Some e \<Rightarrow> take (e - pos) (drop pos s) # raw_split s sep (e + length sep))"
proof (cases "find_pos s sep pos")
  case None
  with assms show ?thesis
    by (subst split_loop.simps) (simp add: Let_def substr_def usub_def)
next
  case (Some e)
  then have "pos \<le> e" "e + length sep \<le> length s" by (simp_all add: find_pos_Some match_at_def)
  with Some assms show ?thesis
    by (subst split_loop.simps) (cases sep, auto simp: Let_def substr_def usub_def)
qed

lemma after_sep_decreases:
  "pos \<le> e \<Longrightarrow> e + length sep \<le> length s \<Longrightarrow> sep \<noteq> [] \<Longrightarrow>
   length s - (e + length sep) < length s - pos"
  by (cases sep) auto

lemma join_raw_split:
  assumes "pos \<le> length s" "sep \<noteq> []"
  shows "JoinVec (raw_split s sep pos) sep = drop pos s"
  using assms
proof (induction "length s - pos" arbitrary: pos rule: less_induct)
  case less
  show ?case
  proof (cases "find_pos s sep pos")
    case None
    with less.prems show ?thesis by (simp add: raw_split_unfold JoinVec_Cons)
  next
    case (Some e)
    then have e: "pos \<le> e" "match_at s sep e" by (simp_all add: find_pos_Some)
    then have "e + length sep \<le> length s" "0 < length sep"
      using less.prems by (simp_all add: match_at_def)
    then have "JoinVec (raw_split s sep (e + length sep)) sep = drop (e + length sep) s"
      by (intro less.hyps after_sep_decreases) (use e less.prems in auto)
    then have "JoinVec (raw_split s sep pos) sep = take (e - pos) (drop pos s) @ drop e s"
      using Some less.prems match_at_drop [OF e(2)] by (simp add: raw_split_unfold JoinVec_Cons)
    also have "\<dots> = drop pos s" using e(1) by (metis append_take_drop_id drop_drop le_add_diff_inverse2)
    finally show ?thesis .
  qed
qed

lemma match_at_take_drop:
  assumes "match_at (take n (drop p s)) sub i" "p \<le> length s"
  shows "match_at s sub (p + i)"
proof -
  have len: "i + length sub \<le> n" "i + length sub \<le> length s - p"
    using assms(1) by (auto simp: match_at_def)
  have "sub = take (length sub) (drop i (take n (drop p s)))" using assms(1) by (simp add: match_at_def)
  also have "\<dots> = take (length sub) (drop (p + i) s)"
    using len(1) by (simp add: drop_take min_def add.commute)
  finally show ?thesis using len(2) assms(2) by (simp add: match_at_def)
qed

lemma raw_split_items_sep_free:
  assumes "pos \<le> length s" "sep \<noteq> []" "x \<in> set (raw_split s sep pos)"
  shows "find_pos x sep 0 = None"
  using assms
proof (induction "length s - pos" arbitrary: pos rule: less_induct)
  case less
  show ?case
  proof (cases "find_pos s sep pos")
    case None
    then have "x = take (length s - pos) (drop pos s)" using less.prems by (simp add: raw_split_unfold)
    then have "match_at s sep (pos + i)" if "match_at x sep i" for i
      using that less.prems(1) by (metis match_at_take_drop)
    then show ?thesis using None unfolding find_pos_None by (metis le_add1)
  next
    case (Some e)
    then have e: "pos \<le> e" "match_at s sep e" "\<forall>j. pos \<le> j \<and> j < e \<longrightarrow> \<not> match_at s sep j"
      by (simp_all add: find_pos_Some)
    then have e2: "e + length sep \<le> length s" "0 < length sep"
      using less.prems by (simp_all add: match_at_def)
    consider "x = take (e - pos) (drop pos s)" | "x \<in> set (raw_split s sep (e + length sep))"
      using less.prems Some by (auto simp: raw_split_unfold)
    then show ?thesis
    proof cases
      case 1
      have False if m: "match_at x sep i" for i
      proof -
        have "i + length sep \<le> e - pos" using m 1 by (auto simp: match_at_def)
        moreover have "match_at s sep (pos + i)" using m 1 less.prems(1) by (metis match_at_take_drop)
        ultimately show False using e(3) e2(2) by auto
      qed
      then show ?thesis unfolding find_pos_None by blast
    next
      case 2
      with e e2 less.prems(2) show ?thesis
        by (intro less.hyps [of "e + length sep"] after_sep_decreases) auto
    qed
  qed
qed

lemma SplitToVec_raw:
  "s \<noteq> [] \<Longrightarrow> sep \<noteq> [] \<Longrightarrow> SplitToVec s sep False False = raw_split s sep 0"
  by (simp add: SplitToVec_def)

lemma match_at_char: "match_at s [c] i \<longleftrightarrow> i < length s \<and> s ! i = c"
  by (cases "i < length s") (auto simp: match_at_def take_Suc_conv_app_nth hd_drop_conv_nth take_Suc)

lemma find_char_None: "find_pos s [c] 0 = None \<longleftrightarrow> c \<notin> set s"
  by (auto simp: find_pos_None match_at_char in_set_conv_nth)

text \<open>For a one-character separator a list of separator-free items is determined by its join.\<close>

lemma JoinVec_char_inject:
  assumes "JoinVec xs [c] = JoinVec ys [c]" "xs \<noteq> []" "ys \<noteq> []"
    and "\<forall>x \<in> set xs. c \<notin> set x" "\<forall>y \<in> set ys. c \<notin> set y"
  shows "xs = ys"
  using assms
proof (induction xs arbitrary: ys)
  case Nil
  then show ?case by simp
next
  case (Cons x xs)
  obtain y ys' where ys: "ys = y # ys'" using Cons.prems(3) by (cases ys) auto
  have free: "c \<notin> set x" "c \<notin> set y" using Cons.prems ys by auto
  note j = Cons.prems(1) [unfolded ys JoinVec_Cons]
  show ?case
  proof (cases "xs = []")
    case True
    with j free have "ys' = []" by (auto split: if_splits)
    with True j ys show ?thesis by simp
  next
    case False
    with j free have ne: "ys' \<noteq> []" by (auto split: if_splits)
    with j False have "x @ c # JoinVec xs [c] = y @ c # JoinVec ys' [c]" by simp
    with free have "x = y" "JoinVec xs [c] = JoinVec ys' [c]"
      by (auto simp: append_Cons_eq_iff append_eq_append_conv2 append_eq_Cons_conv Cons_eq_append_conv)
    moreover have "xs = ys'"
      using Cons.IH [of ys'] calculation(2) False ne Cons.prems(4,5) ys by simp
    ultimately show ?thesis using ys by simp
  qed
qed

lemma raw_split_JoinVec:
  assumes "xs \<noteq> []" "\<forall>x \<in> set xs. c \<notin> set x"
  shows "raw_split (JoinVec xs [c]) [c] 0 = xs"
proof (rule JoinVec_char_inject [where c = c])
  show "JoinVec (raw_split (JoinVec xs [c]) [c] 0) [c] = JoinVec xs [c]"
    by (simp add: join_raw_split)
  show "\<forall>y \<in> set (raw_split (JoinVec xs [c]) [c] 0). c \<notin> set y"
    using raw_split_items_sep_free [of 0 "JoinVec xs [c]" "[c]"] by (simp add: find_char_None)
qed (use assms in simp_all)

section \<open>Maps in key order\<close>

definition sorted_map :: "('k::linorder \<times> 'v) list \<Rightarrow> bool" where
  "sorted_map m \<longleftrightarrow> sorted_wrt (<) (map fst m)"

lemma set_map_assign: "fst ` set (map_assign k v m) = insert k (fst ` set m)"
  by (induction k v m rule: map_assign.induct) (simp_all add: insert_commute)

lemma sorted_map_assign: "sorted_map m \<Longrightarrow> sorted_map (map_assign k v m)"
proof (induction m)
  case Nil
  then show ?case by (simp add: sorted_map_def)
next
  case (Cons kv m)
  obtain k' v' where kv: "kv = (k', v')" by force
  have "sorted_map m" "\<forall>x \<in> fst ` set m. k' < x" using Cons.prems by (auto simp: kv sorted_map_def)
  moreover have "sorted_map (map_assign k v m)" using Cons calculation(1) by simp
  ultimately show ?case using Cons.prems set_map_assign [of k v m]
    by (auto simp: kv sorted_map_def not_less dest: order.strict_trans)
qed

lemma map_of_map_assign: "sorted_map m \<Longrightarrow> map_of (map_assign k v m) = (map_of m)(k \<mapsto> v)"
proof (induction m)
  case Nil
  then show ?case by simp
next
  case (Cons kv m)
  obtain k' v' where kv: "kv = (k', v')" by force
  have "sorted_map m" "\<forall>x \<in> fst ` set m. k' < x" using Cons.prems by (auto simp: kv sorted_map_def)
  with Cons.IH show ?case by (auto simp: kv fun_eq_iff)
qed

text \<open>
  The map interface the string routines rely on: assignment changes the looked-up value of
  one key and keeps the enumeration in key order.
\<close>

locale ordered_map =
  fixes assign :: "'k::linorder \<Rightarrow> 'v \<Rightarrow> 'm \<Rightarrow> 'm"
    and lookup :: "'m \<Rightarrow> 'k \<Rightarrow> 'v option"
    and ordered :: "'m \<Rightarrow> bool"
  assumes lookup_assign: "ordered m \<Longrightarrow> lookup (assign k v m) = (lookup m)(k \<mapsto> v)"
    and ordered_assign: "ordered m \<Longrightarrow> ordered (assign k v m)"
begin

lemma ordered_fold_assign: "ordered m \<Longrightarrow> ordered (fold (\<lambda>(k, v). assign k v) kvs m)"
  by (induction kvs arbitrary: m) (auto simp: ordered_assign)

lemma lookup_fold_assign:
  "ordered m \<Longrightarrow> lookup (fold (\<lambda>(k, v). assign k v) kvs m) = lookup m ++ map_of (rev kvs)"
  by (induction kvs arbitrary: m) (auto simp: ordered_assign lookup_assign map_add_def fun_eq_iff
      split: option.splits)

end

interpretation std_map: ordered_map map_assign map_of sorted_map
  by unfold_locales (auto simp: map_of_map_assign sorted_map_assign)

lemma fold_map_assign_sorted:
  assumes "sorted_map m"
  shows "fold (\<lambda>(k, v). map_assign k v) m [] = m"
proof -
  have app: "fold (\<lambda>(k, v). map_assign k v) ys xs = xs @ ys"
    if "sorted_map (xs @ ys)" for xs ys :: "('a \<times> 'b) list"
    using that
  proof (induction ys arbitrary: xs)
    case (Cons y ys)
    have "map_assign (fst y) (snd y) zs = zs @ [y]" if "sorted_map (zs @ [y])" for zs
      using that by (induction zs) (auto simp: sorted_map_def)
    moreover have "sorted_map (xs @ [y])" using Cons.prems by (auto simp: sorted_map_def sorted_wrt_append)
    ultimately show ?case using Cons by (cases y) simp
  qed simp
  from app [of "[]" m] assms show ?thesis by simp
qed

section \<open>Key-value round trip\<close>

lemma raw_split_keeps_pos:
  "find_pos s sep pos = Some e \<Longrightarrow> e + length sep \<le> length s"
  by (simp add: find_pos_Some match_at_def)

lemma split_map_loop_fold:
  assumes "pos \<le> length s" "vsep \<noteq> []" "msep \<noteq> []"
  shows "split_map_loop s vsep msep trim clear pos m =
    fold (\<lambda>x. add_kv trim clear x msep) (raw_split s vsep pos) m"
  using assms
proof (induction "length s - pos" arbitrary: pos m rule: less_induct)
  case less
  have nil: "add_kv trim clear [] msep r = r" for r
    using less.prems(3) by (cases "find_pos [] msep 0") (auto simp: add_kv_def find_pos_Some match_at_def)
  show ?case
  proof (cases "find_pos s vsep pos")
    case None
    then show ?thesis using less.prems nil
      by (subst split_map_loop.simps) (auto simp: raw_split_unfold substr_def usub_def Let_def)
  next
    case (Some e)
    then have e: "pos \<le> e" "e + length vsep \<le> length s" by (simp_all add: find_pos_Some match_at_def)
    then have "e < length s" using less.prems(2) by (cases vsep) auto
    have "split_map_loop s vsep msep trim clear (e + length vsep) r =
        fold (\<lambda>x. add_kv trim clear x msep) (raw_split s vsep (e + length vsep)) r" for r
      by (intro less.hyps after_sep_decreases) (use e less.prems in auto)
    then show ?thesis using Some less.prems nil e \<open>e < length s\<close>
      by (subst split_map_loop.simps) (auto simp: raw_split_unfold substr_def usub_def Let_def)
  qed
qed

lemma find_char_append: "c \<notin> set k \<Longrightarrow> find_pos (k @ c # v) [c] 0 = Some (length k)"
  by (auto simp: find_pos_Some match_at_char nth_append in_set_conv_nth)

definition kv_clean :: "char \<Rightarrow> char \<Rightarrow> bool \<Rightarrow> string \<times> string \<Rightarrow> bool" where
  "kv_clean a b trim kv \<longleftrightarrow> fst kv \<noteq> [] \<and> a \<notin> set (fst kv) \<and> b \<notin> set (fst kv) \<and> a \<notin> set (snd kv) \<and>
     (trim \<longrightarrow> Trim (fst kv) = fst kv \<and> Trim (snd kv) = snd kv)"

lemma add_kv_item:
  "kv_clean a b trim (k, v) \<Longrightarrow> add_kv trim clear (k @ b # v) [b] m = map_assign k v m"
  by (simp add: kv_clean_def add_kv_def find_char_append substr_def Let_def)

lemma JoinMap_JoinVec: "JoinMap m vsep msep = JoinVec (map (\<lambda>(k, v). k @ msep @ v) m) vsep"
proof -
  have "join_map_loop at m vsep msep = join_loop at (map (\<lambda>(k, v). k @ msep @ v) m) vsep" for at
    by (induction m arbitrary: at) auto
  then show ?thesis by (simp add: JoinMap_def JoinVec_def)
qed

lemma fold_add_kv_items:
  assumes "\<forall>kv \<in> set kvs. kv_clean a b trim kv"
  shows "fold (\<lambda>x. add_kv trim clear x [b]) (map (\<lambda>(k, v). k @ b # v) kvs) m =
    fold (\<lambda>(k, v). map_assign k v) kvs m"
  using assms by (induction kvs arbitrary: m) (auto simp: add_kv_item)

text \<open>
  \<open>SplitToMap\<close> inverts \<open>JoinMap\<close>: a map whose keys are non-empty and whose keys and
  values do not hold the separator characters (and carry no outer spaces when trimming is
  on) is read back unchanged from its joined string.
\<close>

theorem SplitToMap_JoinMap:
  assumes "a \<noteq> b" "sorted_map m" "m \<noteq> []" "\<forall>kv \<in> set m. kv_clean a b trim kv"
  shows "SplitToMap (JoinMap m [a] [b]) [a] [b] trim clear = m"
proof -
  let ?items = "map (\<lambda>(k, v). k @ b # v) m"
  have j: "JoinMap m [a] [b] = JoinVec ?items [a]" by (simp add: JoinMap_JoinVec)
  have items: "?items \<noteq> []" "\<forall>x \<in> set ?items. a \<notin> set x" "\<forall>x \<in> set ?items. x \<noteq> []"
    using assms by (auto simp: kv_clean_def)
  have "JoinVec ?items [a] \<noteq> []"
    using items(1,3) by (cases ?items) (auto simp: JoinVec_Cons)
  then have "SplitToMap (JoinVec ?items [a]) [a] [b] trim clear =
      fold (\<lambda>x. add_kv trim clear x [b]) (raw_split (JoinVec ?items [a]) [a] 0) []"
    using assms(1) by (simp add: SplitToMap_def split_map_loop_fold)
  also have "\<dots> = fold (\<lambda>x. add_kv trim clear x [b]) ?items []"
    using raw_split_JoinVec [OF items(1,2)] by simp
  also have "\<dots> = m" using assms by (simp add: fold_add_kv_items fold_map_assign_sorted)
  finally show ?thesis by (simp add: j)
qed

theorem SplitToMap_JoinMap_witness:
  "SplitToMap (JoinMap [(''a'', ''1''), (''b'', ''x y'')] ''&'' ''='') ''&'' ''='' True True =
   [(''a'', ''1''), (''b'', ''x y'')]"
  by (rule SplitToMap_JoinMap) (simp_all add: sorted_map_def kv_clean_def Trim_fixed)

text \<open>
  \<open>SplitToVec\<close> without trimming or dropping loses nothing: joining its items with the
  separator gives the source back, and no item still holds the separator.
\<close>

theorem SplitToVec_JoinVec:
  assumes "s \<noteq> []" "sep \<noteq> []"
  shows "JoinVec (SplitToVec s sep False False) sep = s \<and>
    (\<forall>x \<in> set (SplitToVec s sep False False). find_pos x sep 0 = None)"
  using assms join_raw_split [of 0 s sep] raw_split_items_sep_free [of 0 s sep]
  by (simp add: SplitToVec_raw)

theorem SplitToVec_JoinVec_witness:
  "JoinVec (SplitToVec ''a::b::'' ''::'' False False) ''::'' = ''a::b::''"
  using SplitToVec_JoinVec [of "''a::b::''" "''::''"] by simp

text \<open>
  The flags of \<open>SplitToVec\<close> act item by item: trimming maps \<open>Trim\<close> over the plain
  items, clearing then drops the empty ones; \<open>Trim\<close> removes all outer spaces and only
  those.
\<close>

theorem SplitToVec_flags:
  "SplitToVec s sep trim clear =
     filter (\<lambda>x. \<not> (clear \<and> x = [])) (map (if trim then Trim else id) (SplitToVec s sep False False)) \<and>
   (\<exists>m n. s = replicate m CHR '' '' @ Trim s @ replicate n CHR '' '') \<and>
   (Trim s = [] \<or> hd (Trim s) \<noteq> CHR '' '' \<and> last (Trim s) \<noteq> CHR '' '')"
  using Trim_decomposes [of s] Trim_ends [of s] split_loop_raw [of s sep trim clear 0]
  by (auto simp: SplitToVec_def)

end
