(* ===== verification/StringSearch.thy ===== *)
theory StringSearch
  imports StringUtil
begin

text \<open>
  The list and key-value searches of \<open>src/common/util/string_util.h\<close> that scan the string in
  place instead of splitting it (\<open>GetValueFromStrKV\<close>, \<open>CheckIfInList\<close>) and the version
  comparison built on \<open>SplitToVec\<close>. The in-place list search is shown equal to searching the
  split list; for the in-place key-value search the corresponding statement fails.
\<close>

section \<open>Searches in place\<close>

text \<open>
  The loops carry the value of \<open>key_pos\<close> (\<open>None\<close> ends them). The tests on an empty separator
  and on a key position past the string only make the functions total: the callers exclude
  the first, \<open>find\<close> the second.
\<close>

definition key_start :: "string \<Rightarrow> string \<Rightarrow> nat \<Rightarrow> nat" where
  "key_start str sep key_pos =
     (case rfind_pos str sep key_pos of None \<Rightarrow> 0 | Some p \<Rightarrow> p + length sep)"

function kv_loop :: "string \<Rightarrow> string \<Rightarrow> string \<Rightarrow> string \<Rightarrow> bool \<Rightarrow> nat option \<Rightarrow> string" where
  "kv_loop str key vsep msep trim None = []"
| "kv_loop str key vsep msep trim (Some key_pos) =
     (case find_pos str msep (key_pos + length key) of
        None \<Rightarrow> []
      | Some msep_pos \<Rightarrow>
          let key_start_pos = key_start str vsep key_pos;
              right_key_flag =
                (if trim
                 then Trim (substr str key_start_pos (usub msep_pos key_start_pos)) = key
                 else key_start_pos = key_pos \<and> msep_pos = key_pos + length key)
          in if right_key_flag
             then let val_start_pos = msep_pos + length msep;
                      val_end_pos = (case find_pos str vsep val_start_pos of
                                       None \<Rightarrow> length str | Some e \<Rightarrow> e);
                      re = substr str val_start_pos (usub val_end_pos val_start_pos)
                  in if trim then Trim re else re
             else if msep = [] then []
             else kv_loop str key vsep msep trim (find_pos str key (msep_pos + length msep)))"
  by pat_completeness auto
termination
proof (relation "measure (\<lambda>(str, key, vsep, msep, trim, p). case p of None \<Rightarrow> 0 | Some i \<Rightarrow> Suc (length str - i))",
    simp, goal_cases)
  case (1 str key vsep msep trim key_pos msep_pos)
  then have m: "key_pos + length key \<le> msep_pos" "msep_pos + length msep \<le> length str" "msep \<noteq> []"
    by (auto simp: find_pos_Some match_at_def)
  show ?case
  proof (cases "find_pos str key (msep_pos + length msep)")
    case None
    then show ?thesis by simp
  next
    case (Some j)
    then have "msep_pos + length msep \<le> j" "j \<le> length str" by (auto simp: find_pos_Some match_at_def)
    with m Some show ?thesis by (cases msep) auto
  qed
qed

definition GetValueFromStrKV :: "string \<Rightarrow> string \<Rightarrow> string \<Rightarrow> string \<Rightarrow> bool \<Rightarrow> string" where
  "GetValueFromStrKV str key vsep msep trim =
     (if key = [] \<or> vsep = [] \<or> msep = [] \<or> vsep = msep then []
      else if find_pos key vsep 0 \<noteq> None \<or> find_pos key msep 0 \<noteq> None then []
      else kv_loop str key vsep msep trim (find_pos str key 0))"

function list_loop :: "string \<Rightarrow> string \<Rightarrow> string \<Rightarrow> bool \<Rightarrow> nat option \<Rightarrow> bool" where
  "list_loop str key sep trim None = False"
| "list_loop str key sep trim (Some key_pos) =
     (let key_start_pos = key_start str sep key_pos;
          key_end_pos = (case find_pos str sep (key_pos + length key) of
                           None \<Rightarrow> length str | Some e \<Rightarrow> e)
      in if (if trim
             then Trim (substr str key_start_pos (usub key_end_pos key_start_pos)) = key
             else key_start_pos = key_pos \<and> key_end_pos = key_pos + length key)
         then True
         else if sep = [] \<or> length str < key_pos + length key then False
         else list_loop str key sep trim (find_pos str key (key_end_pos + length sep)))"
  by pat_completeness auto
termination
proof (relation "measure (\<lambda>(str, key, sep, trim, p). case p of None \<Rightarrow> 0 | Some i \<Rightarrow> Suc (length str - i))",
    simp, goal_cases)
  case (1 str key sep trim key_pos start e)
  then have m: "key_pos + length key \<le> e" "e \<le> length str" "sep \<noteq> []"
    by (auto simp: find_pos_Some match_at_def split: option.splits)
  show ?case
  proof (cases "find_pos str key (e + length sep)")
    case None
    then show ?thesis by simp
  next
    case (Some j)
    then have "e + length sep \<le> j" "j \<le> length str" by (auto simp: find_pos_Some match_at_def)
    with m Some show ?thesis by (cases sep) auto
  qed
qed

declare kv_loop.simps(2) [simp del] list_loop.simps(2) [simp del]

definition CheckIfInList :: "string \<Rightarrow> string \<Rightarrow> string \<Rightarrow> bool \<Rightarrow> bool" where
  "CheckIfInList str key sep trim =
     (if key = [] \<or> sep = [] then False
      else if find_pos key sep 0 \<noteq> None then False
      else list_loop str key sep trim (find_pos str key 0))"

section \<open>Versions\<close>

text \<open>
  \<open>std::from_chars\<close> into an \<open>int\<close>, with the demand of the code that it stops at the end of
  the token: an optional minus sign, then digits only, with a value an \<open>int\<close> can hold.
\<close>

definition is_digit :: "char \<Rightarrow> bool" where
  "is_digit c \<longleftrightarrow> 48 \<le> (of_char c :: nat) \<and> (of_char c :: nat) \<le> 57"

definition digits_value :: "string \<Rightarrow> int" where
  "digits_value ds = foldl (\<lambda>n c. 10 * n + (of_char c - 48)) 0 ds"

definition parse_int :: "string \<Rightarrow> int option" where
  "parse_int s =
     (let neg = (case s of [] \<Rightarrow> False | c # _ \<Rightarrow> c = CHR ''-''); ds = (if neg then tl s else s);
          n = (if neg then - digits_value ds else digits_value ds)
      in if ds \<noteq> [] \<and> list_all is_digit ds \<and> - (2 ^ 31) \<le> n \<and> n \<le> 2 ^ 31 - 1 then Some n else None)"

datatype version_error = InvalidVersionFormat

fun cmp_version_loop :: "string list \<Rightarrow> string list \<Rightarrow> (version_error, int) result" where
  "cmp_version_loop (x # xs) (y # ys) =
     (case (parse_int x, parse_int y) of
        (Some m, Some n) \<Rightarrow>
          if m < n then Inr (- 1) else if m > n then Inr 1 else cmp_version_loop xs ys
      | _ \<Rightarrow> Inl InvalidVersionFormat)"
| "cmp_version_loop [] [] = Inr 0"
| "cmp_version_loop (x # xs) [] = Inr 1"
| "cmp_version_loop [] (y # ys) = Inr (- 1)"

definition CmpVersion :: "string \<Rightarrow> string \<Rightarrow> (version_error, int) result" where
  "CmpVersion ver1 ver2 =
     cmp_version_loop (SplitToVec ver1 ''.'' True True) (SplitToVec ver2 ''.'' True True)"

definition CheckVersionInside :: "string \<Rightarrow> string \<Rightarrow> string \<Rightarrow> (version_error, bool) result" where
  "CheckVersionInside ver start_ver end_ver =
     bindR (CmpVersion ver (if start_ver = [] then ''0.0.0.0'' else start_ver)) (\<lambda>c1.
       if c1 \<ge> 0
       then bindR (CmpVersion ver (if end_ver = [] then ''999.9.9.9'' else end_ver)) (\<lambda>c2. Inr (c2 \<le> 0))
       else Inr False)"

section \<open>The list search finds exactly the items\<close>


lemma match_at_nth:
  "match_at s sub i \<longleftrightarrow> i + length sub \<le> length s \<and> (\<forall>k < length sub. s ! (i + k) = sub ! k)"
  by (auto simp: match_at_def list_eq_iff_nth_eq)

lemma match_in_item:
  assumes c: "c \<notin> set key" "key \<noteq> []" and rest: "rest = [] \<or> hd rest = c"
    and i: "length pre \<le> i" "i \<le> length pre + length x"
  shows "match_at (pre @ x @ rest) key i \<longleftrightarrow> match_at x key (i - length pre)"
proof
  assume m: "match_at (pre @ x @ rest) key i"
  have in_x: "i + length key \<le> length pre + length x"
  proof (rule ccontr)
    let ?p = "length pre + length x"
    assume "\<not> ?thesis"
    then have k: "?p - i < length key" "rest \<noteq> []" using m i by (auto simp: match_at_nth)
    then have "key ! (?p - i) = (pre @ x @ rest) ! (i + (?p - i))" using m by (simp add: match_at_nth)
    also have "\<dots> = c" using i k rest by (simp add: nth_append hd_conv_nth)
    finally show False using c k(1) nth_mem by metis
  qed
  have "x ! (i - length pre + k) = key ! k" if "k < length key" for k
  proof -
    have "key ! k = (pre @ x @ rest) ! (i + k)" using m that by (simp add: match_at_nth)
    also have "\<dots> = x ! (i + k - length pre)"
    proof -
      have "i + k - length pre < length x" using in_x that i by linarith
      then show ?thesis using i by (simp add: nth_append)
    qed
    finally show ?thesis using i by simp
  qed
  then show "match_at x key (i - length pre)" using in_x i by (auto simp: match_at_nth)
next
  assume m: "match_at x key (i - length pre)"
  have "(pre @ x @ rest) ! (i + k) = key ! k" if "k < length key" for k
  proof -
    have "x ! (i - length pre + k) = key ! k" "i - length pre + k < length x"
      using m that by (auto simp: match_at_nth)
    then show ?thesis using i by (simp add: nth_append)
  qed
  then show "match_at (pre @ x @ rest) key i" using m i by (auto simp: match_at_nth)
qed

definition norm_item :: "bool \<Rightarrow> string \<Rightarrow> string" where
  "norm_item trim x = (if trim then Trim x else x)"

lemma match_at_infix: "match_at (a @ key @ b) key (length a)"
  by (simp add: match_at_def)

lemma norm_item_matches: "norm_item trim x = key \<Longrightarrow> \<exists>j. match_at x key j"
  using Trim_decomposes [of x] match_at_infix [of _ key] match_at_infix [of "[]" key "[]"]
  by (auto simp: norm_item_def split: if_splits)

lemma key_start_item:
  assumes "pre = [] \<or> last pre = c" "c \<notin> set x" "j < length x"
  shows "key_start (pre @ x @ rest) [c] (length pre + j) = length pre"
proof -
  let ?s = "pre @ x @ rest"
  have nx: "\<not> match_at ?s [c] i" if "length pre \<le> i" "i \<le> length pre + j" for i
    using that assms(2,3) by (auto simp: match_at_char nth_append)
  have min: "min (length pre + j) (length ?s) = length pre + j" using assms(3) by simp
  show ?thesis
  proof (cases "pre = []")
    case True
    then have "rfind_pos ?s [c] (length pre + j) = None"
      unfolding rfind_pos_def min find_rev_None_iff using nx by auto
    with True show ?thesis by (simp add: key_start_def)
  next
    case False
    then have "match_at ?s [c] (length pre - 1)"
      using assms(1) by (cases pre rule: rev_cases) (auto simp: match_at_char nth_append)
    then have "rfind_pos ?s [c] (length pre + j) = Some (length pre - 1)"
      unfolding rfind_pos_def min find_rev_Some_iff using nx False by auto
    with False show ?thesis by (simp add: key_start_def)
  qed
qed

lemma item_end:
  assumes "c \<notin> set x" "rest = [] \<or> hd rest = c" "k \<le> length x"
  shows "(case find_pos (pre @ x @ rest) [c] (length pre + k) of
      None \<Rightarrow> length (pre @ x @ rest) | Some e \<Rightarrow> e) = length pre + length x"
proof -
  let ?s = "pre @ x @ rest"
  have nx: "\<not> match_at ?s [c] i" if "length pre + k \<le> i" "i < length pre + length x" for i
    using that assms(1) by (auto simp: match_at_char nth_append)
  show ?thesis
  proof (cases "rest = []")
    case True
    then have "\<not> match_at ?s [c] i" if "length pre + k \<le> i" for i
      using nx [OF that] by (cases "i < length pre + length x") (auto simp: match_at_char)
    then have "find_pos ?s [c] (length pre + k) = None" unfolding find_pos_None by blast
    with True show ?thesis by simp
  next
    case False
    then have "match_at ?s [c] (length pre + length x)"
      using assms(2) by (simp add: match_at_char nth_append hd_conv_nth)
    then have "find_pos ?s [c] (length pre + k) = Some (length pre + length x)"
      unfolding find_pos_Some using nx assms(3) by auto
    then show ?thesis by simp
  qed
qed

lemma find_pos_skip:
  assumes "\<And>i. a \<le> i \<Longrightarrow> i < b \<Longrightarrow> \<not> match_at s sub i" "a \<le> b"
  shows "find_pos s sub a = find_pos s sub b"
proof (cases "find_pos s sub b")
  case None
  then have "find_pos s sub a = None" using assms(1) unfolding find_pos_None by (metis not_le)
  with None show ?thesis by simp
next
  case (Some i)
  then have "find_pos s sub a = Some i" using assms unfolding find_pos_Some
    by (metis le_trans not_le)
  with Some show ?thesis by simp
qed

lemma list_loop_items:
  assumes key: "c \<notin> set key" "key \<noteq> []"
    and "pre = [] \<or> last pre = c" "items \<noteq> []" "\<forall>x \<in> set items. c \<notin> set x"
    and "s = pre @ JoinVec items [c]"
  shows "list_loop s key [c] trim (find_pos s key (length pre)) \<longleftrightarrow> key \<in> norm_item trim ` set items"
  using assms(3-)
proof (induction items arbitrary: pre)
  case Nil
  then show ?case by simp
next
  case (Cons x xs)
  define rest where "rest = (if xs = [] then [] else c # JoinVec xs [c])"
  have s: "s = pre @ x @ rest" using Cons.prems by (simp add: rest_def JoinVec_Cons)
  have rest: "rest = [] \<or> hd rest = c" by (simp add: rest_def)
  have cx: "c \<notin> set x" using Cons.prems by simp
  have m: "match_at s key i \<longleftrightarrow> match_at x key (i - length pre)"
    if "length pre \<le> i" "i \<le> length pre + length x" for i
    unfolding s by (rule match_in_item [OF key rest that])
  have cont: "list_loop s key [c] trim (find_pos s key (length pre + length x + 1)) \<longleftrightarrow>
      key \<in> norm_item trim ` set xs"
  proof (cases "xs = []")
    case True
    then have "find_pos s key (length pre + length x + 1) = None"
      unfolding find_pos_None by (auto simp: s rest_def match_at_def)
    with True show ?thesis by simp
  next
    case False
    have "list_loop s key [c] trim (find_pos s key (length (pre @ x @ [c]))) \<longleftrightarrow>
        key \<in> norm_item trim ` set xs"
      by (rule Cons.IH) (use False Cons.prems in \<open>auto simp: JoinVec_Cons\<close>)
    then show ?thesis by (simp add: add.assoc)
  qed
  show ?case
  proof (cases "\<exists>j. match_at x key j")
    case False
    have "find_pos s key (length pre) = find_pos s key (length pre + length x + 1)"
      by (rule find_pos_skip) (use m False in auto)
    moreover have "norm_item trim x \<noteq> key" using norm_item_matches False by blast
    ultimately show ?thesis using cont by auto
  next
    case True
    define j where "j = (LEAST j. match_at x key j)"
    have j: "match_at x key j" "\<And>i. i < j \<Longrightarrow> \<not> match_at x key i"
      using True by (auto simp: j_def intro: LeastI dest: not_less_Least)
    then have jx: "j + length key \<le> length x" by (simp add: match_at_def)
    then have jl: "j < length x" using key(2) by (cases key) auto
    have f: "find_pos s key (length pre) = Some (length pre + j)"
      unfolding find_pos_Some using m j jl by auto
    have st: "key_start s [c] (length pre + j) = length pre"
      unfolding s by (rule key_start_item) (use Cons.prems cx jl in auto)
    have en: "(case find_pos s [c] (length pre + j + length key) of None \<Rightarrow> length s | Some e \<Rightarrow> e) =
        length pre + length x"
      unfolding s using item_end [OF cx rest jx, of pre] by (simp only: add.assoc)
    have sub: "substr s (length pre) (usub (length pre + length x) (length pre)) = x"
      by (simp add: substr_def usub_def s)
    have eq: "(j = 0 \<and> length pre + length x = length pre + j + length key) \<longleftrightarrow> x = key"
    proof
      assume "x = key"
      then have "match_at x key 0" by (simp add: match_at_def)
      then have "j = 0" using j(2) by blast
      with \<open>x = key\<close> show "j = 0 \<and> length pre + length x = length pre + j + length key" by simp
    qed (use j(1) in \<open>auto simp: match_at_def\<close>)
    have lens: "\<not> length s < length pre + j + length key" using jx by (simp add: s)
    have "list_loop s key [c] trim (find_pos s key (length pre)) \<longleftrightarrow>
        norm_item trim x = key \<or> list_loop s key [c] trim (find_pos s key (length pre + length x + 1))"
      unfolding f list_loop.simps(2) Let_def st en sub using lens eq by (auto simp: norm_item_def)
    then show ?thesis using cont by auto
  qed
qed
lemma set_Trim: "set (Trim x) \<subseteq> set x"
  using Trim_decomposes [of x] by (metis Un_upper2 le_sup_iff set_append)

text \<open>
  The in-place search of a list string gives the answer of splitting the list and
  looking the key up: \<open>CheckIfInList\<close> holds exactly for the items \<open>SplitToVec\<close> returns, for
  every string, key, one-character separator and trim flag.
\<close>

theorem CheckIfInList_correct:
  "CheckIfInList str key [c] trim \<longleftrightarrow> key \<in> set (SplitToVec str [c] trim True)"
proof (cases "str = []")
  case True
  then have "find_pos str key 0 = None" if "key \<noteq> []"
    using that unfolding find_pos_None by (auto simp: match_at_def)
  with True show ?thesis by (simp add: CheckIfInList_def SplitToVec_def)
next
  case False
  let ?items = "raw_split str [c] 0"
  have items: "\<forall>x \<in> set ?items. c \<notin> set x"
    using raw_split_items_sep_free [of 0 str "[c]"] by (simp add: find_char_None)
  have str: "str = [] @ JoinVec ?items [c]" by (simp add: join_raw_split)
  have split: "set (SplitToVec str [c] trim True) = norm_item trim ` set ?items - {[]}"
    using False split_loop_raw [of str "[c]" trim True 0]
    by (auto simp: SplitToVec_def norm_item_def)
  show ?thesis
  proof (cases "key = [] \<or> c \<in> set key")
    case True
    moreover have "c \<notin> set (norm_item trim x)" if "x \<in> set ?items" for x
      using items that set_Trim [of x] by (auto simp: norm_item_def)
    ultimately show ?thesis by (auto simp: CheckIfInList_def split find_char_None)
  next
    case ok: False
    then have "list_loop str key [c] trim (find_pos str key (length ([] :: string)))
        \<longleftrightarrow> key \<in> norm_item trim ` set ?items"
      by (intro list_loop_items) (use items str in auto)
    with ok show ?thesis by (auto simp: CheckIfInList_def split find_char_None)
  qed
qed

section \<open>The key-value search\<close>

text \<open>
  If the first occurrence of the key is a whole key of the list (it starts the string
  or follows a separator, and the inner separator follows it), \<open>GetValueFromStrKV\<close> returns
  the value behind it.
\<close>

theorem GetValueFromStrKV_first:
  assumes "a \<noteq> b" "key \<noteq> []" "a \<notin> set key" "b \<notin> set key" "a \<notin> set v"
    and "pre = [] \<or> last pre = a" "rest = [] \<or> hd rest = a" "trim \<longrightarrow> Trim key = key"
    and "str = pre @ key @ b # v @ rest" "find_pos str key 0 = Some (length pre)"
  shows "GetValueFromStrKV str key [a] [b] trim = norm_item trim v"
proof -
  have str1: "str = pre @ (key @ b # v) @ rest" using assms(9) by simp
  have st: "key_start str [a] (length pre) = length pre"
    using key_start_item [of pre a "key @ b # v" 0 rest] assms(1,3,5,6) by (simp add: str1)
  have mp: "find_pos str [b] (length pre + length key) = Some (length pre + length key)"
    unfolding find_pos_Some assms(9) by (auto simp: match_at_char nth_append)
  have en: "(case find_pos str [a] (length pre + length key + 1) of None \<Rightarrow> length str | Some e \<Rightarrow> e) =
      length pre + length key + 1 + length v"
  proof -
    have eq: "(pre @ key @ [b]) @ v @ rest = str" by (simp add: assms(9))
    from item_end [of a v rest 0 "pre @ key @ [b]", unfolded eq] assms(5,7) show ?thesis by simp
  qed
  have "kv_loop str key [a] [b] trim (Some (length pre)) = norm_item trim v"
    using assms(8) en
    by (subst kv_loop.simps(2))
      (simp add: mp st Let_def substr_def usub_def norm_item_def, auto simp: assms(9))
  with assms(1-4,10) show ?thesis by (simp add: GetValueFromStrKV_def find_char_None)
qed

theorem GetValueFromStrKV_first_witness:
  "GetValueFromStrKV ''k=1&id=7&z='' ''id'' ''&'' ''='' True = ''7''"
proof -
  have "GetValueFromStrKV ''k=1&id=7&z='' ''id'' ''&'' ''='' True = norm_item True ''7''"
    by (rule GetValueFromStrKV_first [where pre = "''k=1&''" and rest = "''&z=''"])
      (simp_all add: Trim_fixed find_pos_def match_at_def)
  then show ?thesis by (simp add: norm_item_def Trim_fixed)
qed

text \<open>
  In general the in-place search disagrees with the split map: when the text of the key
  occurs inside an earlier value, the search skips past the real entry. For
  \<open>x=a&a=1\<close> it returns the empty string, while the map holds \<open>1\<close> under \<open>a\<close>.
\<close>

theorem GetValueFromStrKV_misses_key:
  "GetValueFromStrKV ''x=a&a=1'' ''a'' ''&'' ''='' True = [] \<and>
   map_of (SplitToMap ''x=a&a=1'' ''&'' ''='' True True) ''a'' = Some ''1''"
  by code_simp

section \<open>Versions are compared as sequences of numbers\<close>

lemma cmp_version_loop_order:
  assumes "list_all (\<lambda>t. parse_int t \<noteq> None) xs" "list_all (\<lambda>t. parse_int t \<noteq> None) ys"
  shows "cmp_version_loop xs ys =
    (let us = map (the \<circ> parse_int) xs; vs = map (the \<circ> parse_int) ys
     in Inr (if us < vs then - 1 else if us = vs then 0 else 1))"
  using assms by (induction xs ys rule: cmp_version_loop.induct) (auto simp: Let_def)

definition version_tokens :: "string \<Rightarrow> string list" where
  "version_tokens v = SplitToVec v ''.'' True True"

definition valid_version :: "string \<Rightarrow> bool" where
  "valid_version v \<longleftrightarrow> list_all (\<lambda>t. parse_int t \<noteq> None) (version_tokens v)"

definition version_nums :: "string \<Rightarrow> int list" where
  "version_nums v = map (the \<circ> parse_int) (version_tokens v)"

lemma CmpVersion_order:
  assumes "valid_version v1" "valid_version v2"
  shows "CmpVersion v1 v2 =
    Inr (if version_nums v1 < version_nums v2 then - 1
         else if version_nums v1 = version_nums v2 then 0 else 1)"
  using assms
  by (simp add: CmpVersion_def valid_version_def version_nums_def version_tokens_def
      cmp_version_loop_order Let_def)

text \<open>
  On well-formed versions \<open>CmpVersion\<close> is the lexicographic order of the number
  sequences, so \<open>CheckVersionInside\<close> decides membership in the closed interval of its bounds.
\<close>

theorem CheckVersionInside_interval:
  assumes "valid_version v" "valid_version lo" "valid_version hi" "lo \<noteq> []" "hi \<noteq> []"
  shows "CheckVersionInside v lo hi =
    Inr (version_nums lo \<le> version_nums v \<and> version_nums v \<le> version_nums hi)"
  using assms by (auto simp: CheckVersionInside_def CmpVersion_order)

theorem CheckVersionInside_interval_witness:
  "CheckVersionInside ''1.10.0'' ''1.2'' ''1.10.1'' = Inr True"
proof -
  have "valid_version ''1.10.0''" "valid_version ''1.2''" "valid_version ''1.10.1''"
    by code_simp+
  note valid = this
  have "version_nums ''1.10.0'' = [1, 10, 0]" "version_nums ''1.2'' = [1, 2]"
    "version_nums ''1.10.1'' = [1, 10, 1]"
    by code_simp+
  with CheckVersionInside_interval [OF valid] show ?thesis by simp
qed

text \<open>
  \<open>CmpVersion\<close> is antisymmetric on all inputs: swapping the arguments negates the result
  and keeps the exception.
\<close>

theorem CmpVersion_swap:
  "CmpVersion v2 v1 = (case CmpVersion v1 v2 of Inl e \<Rightarrow> Inl e | Inr n \<Rightarrow> Inr (- n))"
proof -
  have "cmp_version_loop ys xs = (case cmp_version_loop xs ys of Inl e \<Rightarrow> Inl e | Inr n \<Rightarrow> Inr (- n))"
    for xs ys
    by (induction xs ys rule: cmp_version_loop.induct) (auto split: option.splits)
  then show ?thesis unfolding CmpVersion_def .
qed

end
