(* ===== verification/StringEdit.thy ===== *)
theory StringEdit
  imports StringSearch
begin

text \<open>
  The routines of \<open>src/common/util/string_util.h\<close> that rewrite strings: \<open>ReplaceString\<close>, which
  moves pieces of the string inside its own buffer, \<open>ReplaceEnvVars\<close>, the case conversions,
  \<open>StandardisePath\<close>, the prefix and suffix tests, the FNV-1a hashes and the UTF-8 truncation.
\<close>

unbundle bit_operations_syntax

section \<open>Replacement in place\<close>

text \<open>
  The buffer of the string is a list of characters; \<open>memcpy\<close> and \<open>memmove\<close> write a block that
  was read before the write, so overlapping blocks are moved as \<open>memmove\<close> moves them.
\<close>

definition mem_read :: "string \<Rightarrow> nat \<Rightarrow> nat \<Rightarrow> string" where
  "mem_read buf off n = take n (drop off buf)"

definition mem_write :: "nat \<Rightarrow> string \<Rightarrow> string \<Rightarrow> string" where
  "mem_write off bs buf = take off buf @ bs @ drop (off + length bs) buf"

function find_all :: "string \<Rightarrow> string \<Rightarrow> nat \<Rightarrow> nat list" where
  "find_all str ov pos =
     (case find_pos str ov pos of
        None \<Rightarrow> []
      | Some p \<Rightarrow> p # (if ov = [] then [] else find_all str ov (p + length ov)))"
  by pat_completeness auto
termination
proof (relation "measure (\<lambda>(str, ov, pos). Suc (length str) - pos)", simp, goal_cases)
  case (1 str ov pos p)
  then have "pos \<le> p" "p \<le> length str" by (auto simp: find_pos_Some match_at_def)
  with 1 show ?case by (cases ov) auto
qed

declare find_all.simps [simp del]

text \<open>
  One iteration of the three loops; \<open>(a, b)\<close> is \<open>(vec_pos[ii], vec_pos[ii + 1])\<close>, with the
  length of the string appended to \<open>vec_pos\<close> as the last position.
\<close>

definition shrink_step :: "nat \<Rightarrow> string \<Rightarrow> nat \<times> nat \<Rightarrow> nat \<times> string \<Rightarrow> nat \<times> string" where
  "shrink_step old_len nv ab st =
     (let (a, b) = ab; (p, buf) = st;
          buf = mem_write p nv buf;
          p = p + length nv;
          cplen = usub (usub b a) old_len;
          buf = mem_write p (mem_read buf (a + old_len) cplen) buf
      in (p + cplen, buf))"

definition grow_step :: "nat \<Rightarrow> string \<Rightarrow> nat \<times> nat \<Rightarrow> nat \<times> string \<Rightarrow> nat \<times> string" where
  "grow_step old_len nv ab st =
     (let (a, b) = ab; (p, buf) = st;
          cplen = usub (usub b a) old_len;
          p = p - cplen;
          buf = mem_write p (mem_read buf (a + old_len) cplen) buf;
          p = p - length nv
      in (p, mem_write p nv buf))"

definition ReplaceString :: "string \<Rightarrow> string \<Rightarrow> string \<Rightarrow> string" where
  "ReplaceString str ov nv =
     (if str = [] \<or> ov = [] then str
      else let vec_pos = find_all str ov 0; old_len = length ov; new_len = length nv;
               pos_end = vec_pos @ [length str]; pairs = zip pos_end (tl pos_end)
           in if vec_pos = [] then str
              else if old_len = new_len then fold (\<lambda>p buf. mem_write p nv buf) vec_pos str
              else if old_len > new_len
              then (let (p, buf) = fold (shrink_step old_len nv) pairs (hd vec_pos, str) in take p buf)
              else let diff = new_len - old_len;
                       buf = str @ replicate (diff * length vec_pos) CHR 0x00
                   in snd (foldr (grow_step old_len nv) pairs (length buf, buf)))"

text \<open>
  The pieces of the string between the positions, and the property of the positions that the
  loops rely on: at each position the old substring stands in the string, and the positions
  are far enough apart.
\<close>

fun pieces :: "string \<Rightarrow> nat \<Rightarrow> nat list \<Rightarrow> string list" where
  "pieces s n (a # b # P) = take (b - (a + n)) (drop (a + n) s) # pieces s n (b # P)"
| "pieces s n P = []"

fun spaced :: "string \<Rightarrow> string \<Rightarrow> nat list \<Rightarrow> bool" where
  "spaced s ov (a # b # P) \<longleftrightarrow>
     a + length ov \<le> b \<and> b \<le> length s \<and> take (length ov) (drop a s) = ov \<and> spaced s ov (b # P)"
| "spaced s ov P \<longleftrightarrow> True"

fun tail_of :: "string \<Rightarrow> string list \<Rightarrow> string" where
  "tail_of nv [] = []"
| "tail_of nv (x # xs) = nv @ x @ tail_of nv xs"

lemma JoinVec_tail_of: "JoinVec (x # xs) nv = x @ tail_of nv xs"
  by (induction xs arbitrary: x) (auto simp: JoinVec_Cons)

lemma find_all_hd:
  assumes "pos \<le> length s"
  shows "pos \<le> hd (find_all s ov pos @ [length s])" "hd (find_all s ov pos @ [length s]) \<le> length s"
proof -
  have "(case find_pos s ov pos of None \<Rightarrow> length s | Some p \<Rightarrow> p) = hd (find_all s ov pos @ [length s])"
    by (subst find_all.simps) (auto split: option.splits)
  moreover have "pos \<le> (case find_pos s ov pos of None \<Rightarrow> length s | Some p \<Rightarrow> p)"
    "(case find_pos s ov pos of None \<Rightarrow> length s | Some p \<Rightarrow> p) \<le> length s"
    using assms by (auto simp: find_pos_Some match_at_def split: option.splits)
  ultimately show "pos \<le> hd (find_all s ov pos @ [length s])"
    "hd (find_all s ov pos @ [length s]) \<le> length s" by simp_all
qed

lemma find_all_pieces:
  assumes "ov \<noteq> []" "pos \<le> length s"
  shows "spaced s ov (find_all s ov pos @ [length s])" (is ?A)
    and "raw_split s ov pos =
      take (hd (find_all s ov pos @ [length s]) - pos) (drop pos s) #
      pieces s (length ov) (find_all s ov pos @ [length s])" (is ?B)
proof -
  have "?A \<and> ?B" using assms
  proof (induction "length s - pos" arbitrary: pos rule: less_induct)
    case less
    show ?case
    proof (cases "find_pos s ov pos")
      case None
      then have "find_all s ov pos = []" by (subst find_all.simps) simp
      then show ?thesis using None less.prems by (simp add: raw_split_unfold)
    next
      case (Some p)
      then have p: "pos \<le> p" "p + length ov \<le> length s" "take (length ov) (drop p s) = ov"
        by (auto simp: find_pos_Some match_at_def)
      let ?Q = "find_all s ov (p + length ov) @ [length s]"
      obtain q Q where Q: "?Q = q # Q" by (cases ?Q) auto
      have q: "p + length ov \<le> q" "q \<le> length s" using find_all_hd [OF p(2), of ov] Q by simp_all
      have fa: "find_all s ov pos @ [length s] = p # q # Q"
        using Some less.prems Q by (subst find_all.simps) simp
      have "spaced s ov ?Q \<and> raw_split s ov (p + length ov) =
          take (hd ?Q - (p + length ov)) (drop (p + length ov) s) # pieces s (length ov) ?Q"
        by (intro less.hyps after_sep_decreases) (use p less.prems in auto)
      with Q q p fa show ?thesis using Some less.prems by (simp add: raw_split_unfold)
    qed
  qed
  then show ?A ?B by blast+
qed

lemma usub_le [simp]: "b \<le> a \<Longrightarrow> usub a b = a - b"
  by (simp add: usub_def)

subsection \<open>The shrinking loop\<close>

lemma mem_write_append:
  "length A = off \<Longrightarrow> length B = length bs \<Longrightarrow> mem_write off bs (A @ B @ C) = A @ bs @ C"
  by (simp add: mem_write_def)

lemma drop_split_piece:
  assumes "a + n \<le> b" "b \<le> length s" "take n (drop a s) = ov"
  shows "drop a s = ov @ take (b - (a + n)) (drop (a + n) s) @ drop b s"
proof -
  have "drop a s = take n (drop a s) @ drop (a + n) s"
    by (metis add.commute append_take_drop_id drop_drop)
  moreover have "drop (a + n) s = take (b - (a + n)) (drop (a + n) s) @ drop b s"
    using assms(1) by (metis add.commute append_take_drop_id drop_drop le_add_diff_inverse2)
  ultimately show ?thesis using assms(3) by metis
qed

lemma mem_write_overlap:
  assumes "length A = off" "off + length bs \<le> length (A @ B)"
  shows "\<exists>B'. mem_write off bs (A @ B @ C) = A @ bs @ B' @ C \<and> length bs + length B' = length B"
proof -
  have "drop (off + length bs) (A @ B @ C) = drop (length bs) B @ C" using assms by simp
  then show ?thesis using assms
    by (intro exI [of _ "drop (length bs) B"]) (simp add: mem_write_def)
qed

lemma shrink_step_eq:
  assumes nv: "length nv \<le> length ov" and ab: "a + length ov \<le> b"
    and buf: "length A + length G = a"
    and x: "length x = b - (a + length ov)"
  shows "\<exists>G'. shrink_step (length ov) nv (a, b) (length A, A @ G @ ov @ x @ R) =
      (length A + length nv + length x, (A @ nv @ x) @ G' @ R) \<and> length (A @ nv @ x) + length G' = b"
proof -
  have c: "usub (usub b a) (length ov) = length x" using ab x by simp
  obtain G1 where G1: "mem_write (length A) nv (A @ (G @ ov) @ x @ R) = A @ nv @ G1 @ x @ R"
    "length nv + length G1 = length (G @ ov)"
    using mem_write_overlap [of A "length A" nv "G @ ov" "x @ R"] nv by auto
  have rd: "mem_read (A @ nv @ G1 @ x @ R) (a + length ov) (length x) = x"
    using G1(2) buf by (simp add: mem_read_def flip: add.assoc)
  obtain G2 where G2: "mem_write (length (A @ nv)) x ((A @ nv) @ (G1 @ x) @ R) = (A @ nv) @ x @ G2 @ R"
    "length x + length G2 = length (G1 @ x)"
    using mem_write_overlap [of "A @ nv" "length (A @ nv)" x "G1 @ x" R] by auto
  have "shrink_step (length ov) nv (a, b) (length A, A @ G @ ov @ x @ R) =
      (length A + length nv + length x, (A @ nv @ x) @ G2 @ R)"
    using G1(1) G2(1) rd c by (simp add: shrink_step_def Let_def)
  moreover have "length (A @ nv @ x) + length G2 = b" using G1(2) G2(2) buf ab x by simp
  ultimately show ?thesis by blast
qed

lemma shrink_loop:
  assumes "length nv \<le> length ov" "spaced s ov (a # P)" "last (a # P) = length s"
    and "length A + length G = a"
  shows "\<exists>G'. fold (shrink_step (length ov) nv) (zip (a # P) P) (length A, A @ G @ drop a s) =
    (length (A @ tail_of nv (pieces s (length ov) (a # P))),
     (A @ tail_of nv (pieces s (length ov) (a # P))) @ G')"
  using assms(2-)
proof (induction P arbitrary: a A G)
  case Nil
  then show ?case by simp
next
  case (Cons b P)
  let ?x = "take (b - (a + length ov)) (drop (a + length ov) s)"
  have ab: "a + length ov \<le> b" "b \<le> length s" "take (length ov) (drop a s) = ov" "spaced s ov (b # P)"
    using Cons.prems by simp_all
  have d: "drop a s = ov @ ?x @ drop b s" by (rule drop_split_piece [OF ab(1,2,3)])
  have lx: "length ?x = b - (a + length ov)" using ab by simp
  obtain G' where st: "shrink_step (length ov) nv (a, b) (length A, A @ G @ ov @ ?x @ drop b s) =
      (length A + length nv + length ?x, (A @ nv @ ?x) @ G' @ drop b s)"
    and l: "length (A @ nv @ ?x) + length G' = b"
    using shrink_step_eq [OF assms(1) ab(1) Cons.prems(3) lx] by blast
  have "\<exists>G''. fold (shrink_step (length ov) nv) (zip (b # P) P)
      (length (A @ nv @ ?x), (A @ nv @ ?x) @ G' @ drop b s) =
    (length ((A @ nv @ ?x) @ tail_of nv (pieces s (length ov) (b # P))),
     ((A @ nv @ ?x) @ tail_of nv (pieces s (length ov) (b # P))) @ G'')"
    by (rule Cons.IH [OF ab(4) _ l]) (use Cons.prems in simp)
  moreover have "fold (shrink_step (length ov) nv) (zip (a # b # P) (b # P)) (length A, A @ G @ drop a s) =
      fold (shrink_step (length ov) nv) (zip (b # P) P)
        (length (A @ nv @ ?x), (A @ nv @ ?x) @ G' @ drop b s)"
    unfolding d using st by (simp add: add.assoc)
  ultimately show ?case by simp
qed

subsection \<open>The growing loop\<close>

lemma mem_write_end:
  assumes "length bs \<le> length B"
  shows "mem_write (length A + length B - length bs) bs (A @ B @ C) =
    A @ take (length B - length bs) B @ bs @ C"
proof -
  have "take (length A + length B - length bs) (A @ B @ C) = A @ take (length B - length bs) B"
    "length A + length B - length bs + length bs = length (A @ B)"
    using assms by simp_all
  then show ?thesis by (simp add: mem_write_def)
qed

lemma grow_step_eq:
  assumes "length ov \<le> length nv" "a + length ov \<le> b" "length A = a"
    and "length x = b - (a + length ov)" "length nv - length ov \<le> length G"
  shows "\<exists>G'. grow_step (length ov) nv (a, b) (b + length G, (A @ ov @ x) @ G @ E) =
      (a + length G', A @ G' @ nv @ x @ E) \<and> length G' = length G - (length nv - length ov)"
proof -
  let ?B = "ov @ x @ G" and ?p = "b + length G"
  have b: "b = length A + length ov + length x" using assms by simp
  have c: "usub (usub b a) (length ov) = length x" using assms by simp
  have p1: "?p - length x = length A + length ?B - length x" using b by simp
  define B1 where "B1 = take (length ?B - length x) ?B"
  have lB1: "length B1 = length ov + length G" by (simp add: B1_def)
  have w1: "mem_write (?p - length x) x (A @ ?B @ E) = A @ B1 @ x @ E"
    unfolding p1 B1_def by (rule mem_write_end) simp
  have rd: "mem_read (A @ ?B @ E) (a + length ov) (length x) = x"
    using assms(3) by (simp add: mem_read_def)
  define B2 where "B2 = take (length B1 - length nv) B1"
  have p2: "?p - length x - length nv = length A + length B1 - length nv" using b lB1 by simp
  have w2: "mem_write (?p - length x - length nv) nv (A @ B1 @ x @ E) = A @ B2 @ nv @ x @ E"
    unfolding p2 B2_def by (rule mem_write_end) (use lB1 assms in simp)
  have lB2: "length B2 = length G - (length nv - length ov)" using lB1 assms by (simp add: B2_def)
  have "grow_step (length ov) nv (a, b) (?p, (A @ ov @ x) @ G @ E) =
      (?p - length x - length nv, A @ B2 @ nv @ x @ E)"
    using w1 w2 rd c by (simp add: grow_step_def Let_def)
  moreover have "?p - length x - length nv = a + length B2" using lB2 b assms by simp
  ultimately show ?thesis using lB2 by auto
qed

lemma grow_loop:
  assumes "length ov \<le> length nv" "spaced s ov (a # P)" "last (a # P) = length s"
    and "length P * (length nv - length ov) \<le> length G"
  shows "\<exists>G'. foldr (grow_step (length ov) nv) (zip (a # P) P) (length s + length G, s @ G) =
    (a + length G', take a s @ G' @ tail_of nv (pieces s (length ov) (a # P))) \<and>
    length G' = length G - length P * (length nv - length ov)"
  using assms(2-)
proof (induction P arbitrary: a)
  case Nil
  then show ?case by simp
next
  case (Cons b P)
  let ?x = "take (b - (a + length ov)) (drop (a + length ov) s)" and ?d = "length nv - length ov"
  have ab: "a + length ov \<le> b" "b \<le> length s" "take (length ov) (drop a s) = ov" "spaced s ov (b # P)"
    using Cons.prems by simp_all
  obtain G1 where IH: "foldr (grow_step (length ov) nv) (zip (b # P) P) (length s + length G, s @ G) =
      (b + length G1, take b s @ G1 @ tail_of nv (pieces s (length ov) (b # P)))"
    and l1: "length G1 = length G - length P * ?d"
    using Cons.IH [OF ab(4)] Cons.prems by auto
  have tb: "take b s = take a s @ ov @ ?x"
  proof -
    have "s = take a s @ ov @ ?x @ drop b s"
      using drop_split_piece [OF ab(1,2,3)] by (metis append_take_drop_id)
    then have "take b s @ drop b s = (take a s @ ov @ ?x) @ drop b s" by simp
    then show ?thesis by (simp only: append_same_eq)
  qed
  have "\<exists>G'. grow_step (length ov) nv (a, b)
      (b + length G1, (take a s @ ov @ ?x) @ G1 @ tail_of nv (pieces s (length ov) (b # P))) =
      (a + length G', take a s @ G' @ nv @ ?x @ tail_of nv (pieces s (length ov) (b # P))) \<and>
      length G' = length G1 - ?d"
    by (rule grow_step_eq [OF assms(1) ab(1)]) (use ab l1 Cons.prems(3) in auto)
  then show ?case using IH l1 by (auto simp: tb diff_diff_add ac_simps)
qed

subsection \<open>The loop for equal lengths\<close>

lemma same_length_loop:
  assumes "length nv = length ov" "spaced s ov (P @ [length s])"
    and "length A = (case P of [] \<Rightarrow> length s | a # _ \<Rightarrow> a)"
  shows "fold (\<lambda>p buf. mem_write p nv buf) P (A @ drop (length A) s) =
    A @ tail_of nv (pieces s (length ov) (P @ [length s]))"
  using assms(2-)
proof (induction P arbitrary: A)
  case Nil
  then show ?case by simp
next
  case (Cons a P)
  obtain b Q where Q: "P @ [length s] = b # Q" by (cases "P @ [length s]") auto
  let ?x = "take (b - (a + length ov)) (drop (a + length ov) s)"
  have ab: "a + length ov \<le> b" "b \<le> length s" "take (length ov) (drop a s) = ov"
    "spaced s ov (P @ [length s])"
    using Cons.prems Q by simp_all
  have d: "drop a s = ov @ ?x @ drop b s" by (rule drop_split_piece [OF ab(1,2,3)])
  have la: "length A = a" using Cons.prems by simp
  have w: "mem_write a nv (A @ ov @ ?x @ drop b s) = A @ nv @ ?x @ drop b s"
    by (rule mem_write_append) (use la assms(1) in simp_all)
  have lb: "length (A @ nv @ ?x) = b" using ab la assms(1) by simp
  have "fold (\<lambda>p buf. mem_write p nv buf) P ((A @ nv @ ?x) @ drop (length (A @ nv @ ?x)) s) =
      (A @ nv @ ?x) @ tail_of nv (pieces s (length ov) (P @ [length s]))"
    by (rule Cons.IH [OF ab(4)]) (use Q lb in \<open>auto split: list.splits\<close>)
  then show ?case using w d la lb Q by simp
qed

text \<open>
  \<open>ReplaceString\<close>, which moves the pieces inside the string's own buffer, from the front
  when the new substring is shorter and from the back when it is longer, computes the
  result of splitting the string at the old substring and joining the pieces with the new
  one.
\<close>

theorem ReplaceString_correct:
  assumes "ov \<noteq> []"
  shows "ReplaceString s ov nv = JoinVec (raw_split s ov 0) nv"
proof -
  let ?P = "find_all s ov 0 @ [length s]"
  have sp: "spaced s ov ?P" using find_all_pieces(1) [OF assms, of 0 s] by simp
  have spl: "raw_split s ov 0 = take (hd ?P) s # pieces s (length ov) ?P"
    using find_all_pieces(2) [OF assms, of 0 s] by simp
  have ref: "JoinVec (raw_split s ov 0) nv = take (hd ?P) s @ tail_of nv (pieces s (length ov) ?P)"
    by (simp add: spl JoinVec_tail_of)
  show ?thesis
  proof (cases "find_all s ov 0")
    case Nil
    then show ?thesis using ref assms by (simp add: ReplaceString_def)
  next
    case (Cons a Q)
    have a: "a \<le> length s" using find_all_hd(2) [of 0 s ov] Cons by simp
    have ne: "s \<noteq> []" using sp Cons assms by (cases "Q @ [length s]") auto
    consider "length ov = length nv" | "length nv < length ov" | "length ov < length nv" by linarith
    then show ?thesis
    proof cases
      case 1
      have "fold (\<lambda>p buf. mem_write p nv buf) (a # Q) (take a s @ drop (length (take a s)) s) =
          take a s @ tail_of nv (pieces s (length ov) ((a # Q) @ [length s]))"
        by (rule same_length_loop) (use 1 sp Cons a in auto)
      then show ?thesis using 1 ref Cons assms ne a by (simp add: ReplaceString_def Let_def)
    next
      case 2
      obtain G where "fold (shrink_step (length ov) nv) (zip (a # Q @ [length s]) (Q @ [length s]))
          (length (take a s), take a s @ [] @ drop a s) =
        (length (take a s @ tail_of nv (pieces s (length ov) (a # Q @ [length s]))),
         (take a s @ tail_of nv (pieces s (length ov) (a # Q @ [length s]))) @ G)"
        using shrink_loop [of nv ov s a "Q @ [length s]" "take a s" "[]"] 2 sp Cons a by auto
      then show ?thesis using 2 ref Cons assms ne a by (simp add: ReplaceString_def Let_def)
    next
      case 3
      let ?G = "replicate ((length nv - length ov) * length (a # Q)) CHR 0x00"
      have le: "length (Q @ [length s]) * (length nv - length ov) \<le> length ?G"
        by (simp add: mult.commute)
      have sp1: "spaced s ov (a # Q @ [length s])" and last1: "last (a # Q @ [length s]) = length s"
        using sp Cons by simp_all
      obtain G where g: "foldr (grow_step (length ov) nv) (zip (a # Q @ [length s]) (Q @ [length s]))
          (length s + length ?G, s @ ?G) =
        (a + length G, take a s @ G @ tail_of nv (pieces s (length ov) (a # Q @ [length s])))"
        "length G = length ?G - length (Q @ [length s]) * (length nv - length ov)"
        using grow_loop [OF less_imp_le [OF 3] sp1 last1 le] by blast
      from g(2) have "G = []" by (simp add: mult.commute)
      with g(1) show ?thesis using 3 ref Cons assms ne by (simp add: ReplaceString_def Let_def)
    qed
  qed
qed

theorem ReplaceString_correct_witness:
  "ReplaceString ''a.b.c'' ''.'' ''::'' = JoinVec (raw_split ''a.b.c'' ''.'' 0) ''::'' \<and>
   JoinVec (raw_split ''a.b.c'' ''.'' 0) ''::'' = ''a::b::c''"
  using ReplaceString_correct [of "''.''" "''a.b.c''" "''::''"] by code_simp

section \<open>Environment variables\<close>

text \<open>
  The regular expression \<open>\$\{([^}]+)\}\<close> matches at a position of the text exactly when a
  dollar sign and an opening brace are followed by at least one character other than the
  closing brace and then a closing brace; the group is the text between the braces. The
  process environment \<open>getenv\<close> is a parameter.
\<close>

definition env_match :: "string \<Rightarrow> nat \<Rightarrow> string option" where
  "env_match t i =
     (case drop i t of
        c1 # c2 # u \<Rightarrow>
          if c1 = CHR ''$'' \<and> c2 = CHR ''{''
          then let name = takeWhile (\<lambda>c. c \<noteq> CHR ''}'') u
               in if name \<noteq> [] \<and> length name < length u then Some name else None
          else None
      | _ \<Rightarrow> None)"

definition regex_search_env :: "string \<Rightarrow> (nat \<times> string) option" where
  "regex_search_env t =
     (case List.find (\<lambda>i. env_match t i \<noteq> None) [0..<length t] of
        None \<Rightarrow> None
      | Some i \<Rightarrow> Some (i, the (env_match t i)))"

lemma env_match_bounds: "env_match t i = Some name \<Longrightarrow> i + length name + 3 \<le> length t"
proof -
  assume *: "env_match t i = Some name"
  then obtain c1 c2 u where u: "drop i t = c1 # c2 # u" "length name < length u"
    by (auto simp: env_match_def Let_def split: list.splits if_splits)
  have "length (drop i t) = length u + 2" using u(1) by simp
  then show ?thesis using u(2) by simp
qed

lemma regex_search_env_bounds:
  "regex_search_env t = Some (i, name) \<Longrightarrow> i + length name + 3 \<le> length t"
  by (auto simp: regex_search_env_def find_Some_iff split: option.splits intro: env_match_bounds)

function env_loop :: "(string \<Rightarrow> string option) \<Rightarrow> string \<Rightarrow> nat \<Rightarrow> string" where
  "env_loop getenv result cur_pos =
     (case regex_search_env (drop cur_pos result) of
        None \<Rightarrow> result
      | Some (position, env_name) \<Rightarrow>
          let env_val = (case getenv env_name of None \<Rightarrow> [] | Some v \<Rightarrow> v);
              at = cur_pos + position
          in env_loop getenv
               (take at result @ env_val @ drop (at + (length env_name + 3)) result)
               (cur_pos + (position + length env_val)))"
  by pat_completeness auto
termination
proof (relation "measure (\<lambda>(g, r, p). length r - p)", simp, goal_cases)
  case (1 getenv result cur_pos m position name env_val at)
  then have "position + length name + 3 \<le> length (drop cur_pos result)"
    by (auto dest: regex_search_env_bounds)
  with 1 show ?case by simp
qed

declare env_loop.simps [simp del]

definition ReplaceEnvVars :: "(string \<Rightarrow> string option) \<Rightarrow> string \<Rightarrow> string" where
  "ReplaceEnvVars getenv input = env_loop getenv input 0"

text \<open>The same replacement on the rest of the text only, with no position and no rewriting.\<close>

function expand_env :: "(string \<Rightarrow> string option) \<Rightarrow> string \<Rightarrow> string" where
  "expand_env getenv t =
     (case regex_search_env t of
        None \<Rightarrow> t
      | Some (i, name) \<Rightarrow>
          take i t @ (case getenv name of None \<Rightarrow> [] | Some v \<Rightarrow> v) @
          expand_env getenv (drop (i + length name + 3) t))"
  by pat_completeness auto
termination
  by (relation "measure (\<lambda>(g, t). length t)") (auto dest: regex_search_env_bounds)

declare expand_env.simps [simp del]

lemma env_loop_expand:
  "cur_pos \<le> length r \<Longrightarrow> env_loop getenv r cur_pos = take cur_pos r @ expand_env getenv (drop cur_pos r)"
proof (induction getenv r cur_pos rule: env_loop.induct)
  case (1 getenv r cur)
  show ?case
  proof (cases "regex_search_env (drop cur r)")
    case None
    then show ?thesis by (simp add: env_loop.simps [of _ r] expand_env.simps [of _ "drop cur r"])
  next
    case (Some m)
    then obtain i name where m: "regex_search_env (drop cur r) = Some (i, name)" by (cases m) auto
    let ?v = "case getenv name of None \<Rightarrow> [] | Some v \<Rightarrow> v"
    let ?r = "take (cur + i) r @ ?v @ drop (cur + i + (length name + 3)) r"
    let ?c = "cur + (i + length ?v)"
    have b: "cur + i + length name + 3 \<le> length r"
      using regex_search_env_bounds [OF m] "1.prems" by simp
    then have c: "?c \<le> length ?r" and lt: "length (take (cur + i) r) = cur + i" by simp_all
    have "env_loop getenv ?r ?c = take ?c ?r @ expand_env getenv (drop ?c ?r)"
      using "1.IH" [OF m refl refl refl c] .
    moreover have "take ?c ?r = take (cur + i) r @ ?v"
      "drop ?c ?r = drop (cur + i + (length name + 3)) r"
      using lt by simp_all
    ultimately have "env_loop getenv ?r ?c =
        take (cur + i) r @ ?v @ expand_env getenv (drop (cur + i + (length name + 3)) r)"
      by simp
    then have "env_loop getenv r cur =
        take (cur + i) r @ ?v @ expand_env getenv (drop (cur + i + (length name + 3)) r)"
      using m by (simp add: env_loop.simps [of _ r cur] Let_def)
    moreover have "take (cur + i) r = take cur r @ take i (drop cur r)" by (rule take_add)
    ultimately show ?thesis using m
      by (simp add: expand_env.simps [of _ "drop cur r"] ac_simps)
  qed
qed

text \<open>
  \<open>ReplaceEnvVars\<close>, which rewrites the text in place and restarts the search behind each
  inserted value, replaces every \<open>${NAME}\<close> of the original text once from left to right by
  the variable's value (empty when unset) and never expands inside an inserted value.
\<close>

theorem ReplaceEnvVars_single_pass: "ReplaceEnvVars getenv input = expand_env getenv input"
  by (simp add: ReplaceEnvVars_def env_loop_expand)

section \<open>Characters, prefixes and suffixes\<close>

definition CharToLower :: "char \<Rightarrow> char" where
  "CharToLower c =
     (if 65 \<le> (of_char c :: nat) \<and> (of_char c :: nat) \<le> 90 then char_of ((of_char c :: nat) + 32) else c)"

definition CharToUpper :: "char \<Rightarrow> char" where
  "CharToUpper c =
     (if 97 \<le> (of_char c :: nat) \<and> (of_char c :: nat) \<le> 122 then char_of ((of_char c :: nat) - 32) else c)"

definition StrToLower :: "string \<Rightarrow> string" where
  "StrToLower str = map CharToLower str"

definition StrToUpper :: "string \<Rightarrow> string" where
  "StrToUpper str = map CharToUpper str"

definition CheckIEqual :: "string \<Rightarrow> string \<Rightarrow> bool" where
  "CheckIEqual str1 str2 =
     (if length str1 \<noteq> length str2 then False
      else list_all2 (\<lambda>a b. CharToLower a = CharToLower b) str1 str2)"

definition isalnum_char :: "char \<Rightarrow> bool" where
  "isalnum_char c \<longleftrightarrow> is_digit c \<or> (65 \<le> (of_char c :: nat) \<and> (of_char c :: nat) \<le> 90) \<or>
     (97 \<le> (of_char c :: nat) \<and> (of_char c :: nat) \<le> 122)"

definition IsAlnumStr :: "string \<Rightarrow> bool" where
  "IsAlnumStr str = (if length str = 0 then False else list_all isalnum_char str)"

definition IsDigitStr :: "string \<Rightarrow> bool" where
  "IsDigitStr str = (if length str = 0 then False else list_all is_digit str)"

text \<open>
  \<open>StrToTitleCase\<close> dereferences \<open>str.begin()\<close> first, which an empty string does not have:
  \<open>None\<close> is that undefined access.
\<close>

definition title_step :: "nat \<Rightarrow> string \<Rightarrow> string" where
  "title_step i s = (if s ! i = CHR '' '' then s[i + 1 := CharToUpper (s ! (i + 1))] else s)"

definition StrToTitleCase :: "string \<Rightarrow> string option" where
  "StrToTitleCase str =
     (if str = [] then None
      else Some (fold title_step [0..<length str - 1] (str[0 := CharToUpper (str ! 0)])))"

definition StandardisePath :: "string \<Rightarrow> string" where
  "StandardisePath path =
     (if path = [] then ''/''
      else let path = map (\<lambda>c. if c = CHR 0x5C then CHR ''/'' else c) path
           in if path ! (length path - 1) \<noteq> CHR ''/'' then path @ ''/'' else path)"

definition StartsWith :: "string \<Rightarrow> string \<Rightarrow> bool \<Rightarrow> bool" where
  "StartsWith str pattern ignore_case =
     (if length str < length pattern \<or> length pattern = 0 then False
      else if ignore_case
      then list_all (\<lambda>i. CharToLower (pattern ! i) = CharToLower (str ! i)) [0..<length pattern]
      else list_all (\<lambda>i. pattern ! i = str ! i) [0..<length pattern])"

definition EndsWith :: "string \<Rightarrow> string \<Rightarrow> bool \<Rightarrow> bool" where
  "EndsWith str pattern ignore_case =
     (if length str < length pattern \<or> length pattern = 0 then False
      else let begin_pos = length str - length pattern
           in if ignore_case
              then list_all (\<lambda>i. CharToLower (pattern ! i) = CharToLower (str ! (begin_pos + i)))
                     [0..<length pattern]
              else list_all (\<lambda>i. pattern ! i = str ! (begin_pos + i)) [0..<length pattern])"

section \<open>FNV-1a\<close>

definition Hash64Fnv1a :: "byte list \<Rightarrow> u64" where
  "Hash64Fnv1a data =
     fold (\<lambda>b hash. (hash XOR ucast b) * 0x100000001b3) data 0xcbf29ce484222325"

definition Hash32Fnv1a :: "byte list \<Rightarrow> u32" where
  "Hash32Fnv1a data = fold (\<lambda>b hash. (hash XOR ucast b) * 0x1000193) data 0x811c9dc5"

section \<open>Truncation of UTF-8 text\<close>

definition is_cont :: "byte \<Rightarrow> bool" where
  "is_cont b \<longleftrightarrow> b AND 0xC0 = 0x80"

fun back_up :: "byte list \<Rightarrow> nat \<Rightarrow> nat" where
  "back_up s 0 = 0"
| "back_up s (Suc p) = (if is_cont (s ! Suc p) then back_up s p else Suc p)"

definition SafeUtf8TruncationLength :: "byte list \<Rightarrow> nat \<Rightarrow> nat" where
  "SafeUtf8TruncationLength utf8_str desired_length =
     (let actual_length = length utf8_str in
      if desired_length \<ge> actual_length then actual_length
      else if \<not> is_cont (utf8_str ! desired_length) then desired_length
      else back_up utf8_str desired_length)"

lemma back_up_spec:
  "back_up s p \<le> p \<and> (\<forall>i. back_up s p < i \<and> i \<le> p \<longrightarrow> is_cont (s ! i)) \<and>
   (back_up s p = 0 \<or> \<not> is_cont (s ! back_up s p))"
  by (induction p) (auto simp: le_Suc_eq)

text \<open>
  A well-formed UTF-8 text is a sequence of characters, each a byte that is not a
  continuation byte followed by continuation bytes only.
\<close>

definition utf8_char :: "byte list \<Rightarrow> bool" where
  "utf8_char ch \<longleftrightarrow> ch \<noteq> [] \<and> \<not> is_cont (hd ch) \<and> list_all is_cont (tl ch)"

lemma char_boundary:
  assumes "list_all utf8_char chs" "r < length (concat chs)" "\<not> is_cont (concat chs ! r)"
  shows "\<exists>k. take r (concat chs) = concat (take k chs)"
  using assms
proof (induction chs arbitrary: r)
  case Nil
  then show ?case by simp
next
  case (Cons ch chs)
  show ?case
  proof (cases "r < length ch")
    case True
    have "r = 0"
    proof (rule ccontr)
      assume "r \<noteq> 0"
      then have "is_cont (ch ! r)"
        using True Cons.prems(1) by (cases ch) (auto simp: utf8_char_def list_all_length nth_Cons')
      then show False using True Cons.prems(3) by (simp add: nth_append)
    qed
    then show ?thesis by (intro exI [of _ 0]) simp
  next
    case False
    moreover have "r - length ch < length (concat chs)" using False Cons.prems(2) by simp
    ultimately obtain k where "take (r - length ch) (concat chs) = concat (take k chs)"
      using Cons.IH [of "r - length ch"] Cons.prems by (auto simp: nth_append)
    with False show ?thesis by (intro exI [of _ "Suc k"]) simp
  qed
qed

text \<open>
  Truncating well-formed UTF-8 text at \<open>SafeUtf8TruncationLength\<close> never splits a
  character: the kept bytes are a whole number of characters, at most as many bytes as
  asked for, and only continuation bytes are given up in between.
\<close>

theorem SafeUtf8Truncation_whole_characters:
  assumes "list_all utf8_char chs" "s = concat chs" "r = SafeUtf8TruncationLength s n"
  shows "(\<exists>k. take r s = concat (take k chs)) \<and> r \<le> length s \<and>
    (n < length s \<longrightarrow> r \<le> n \<and> (\<forall>i. r < i \<and> i \<le> n \<longrightarrow> is_cont (s ! i)))"
proof (cases "n < length s")
  case False
  then show ?thesis using assms by (auto simp: SafeUtf8TruncationLength_def intro: exI [of _ "length chs"])
next
  case True
  have r: "r \<le> n" "\<forall>i. r < i \<and> i \<le> n \<longrightarrow> is_cont (s ! i)" "r = 0 \<or> \<not> is_cont (s ! r)"
    using True assms(3) back_up_spec [of s n]
    by (auto simp: SafeUtf8TruncationLength_def Let_def split: if_splits)
  have "\<exists>k. take r s = concat (take k chs)"
  proof (cases "r = 0")
    case True
    then show ?thesis by (intro exI [of _ 0]) simp
  next
    case False
    then show ?thesis using r True assms(1,2) char_boundary [of chs r] by auto
  qed
  with r True show ?thesis by auto
qed

theorem SafeUtf8Truncation_witness:
  "list_all utf8_char [[0x61], [0xC3, 0xA9], [0x62]] \<and>
   SafeUtf8TruncationLength [0x61, 0xC3, 0xA9, 0x62] 2 = 1 \<and>
   (\<exists>k. take 1 [0x61, 0xC3, 0xA9, 0x62] = concat (take k [[0x61], [0xC3, 0xA9], [0x62 :: byte]]))"
proof -
  have u: "list_all utf8_char [[0x61], [0xC3, 0xA9], [0x62]]"
    by (simp add: utf8_char_def is_cont_def)
  have r: "SafeUtf8TruncationLength [0x61, 0xC3, 0xA9, 0x62] 2 = 1"
    by code_simp
  from SafeUtf8Truncation_whole_characters [OF u refl refl, of 2] u r show ?thesis by simp
qed

lemma CheckIEqual_lower: "CheckIEqual s t \<longleftrightarrow> StrToLower s = StrToLower t"
  by (auto simp: CheckIEqual_def StrToLower_def list_all2_conv_all_nth list_eq_iff_nth_eq
      dest: arg_cong [of _ _ length])

lemma CharToUpper_space: "CharToUpper c = CHR '' '' \<longleftrightarrow> c = CHR '' ''"
proof
  assume *: "CharToUpper c = CHR '' ''"
  show "c = CHR '' ''"
  proof (cases "97 \<le> (of_char c :: nat) \<and> (of_char c :: nat) \<le> 122")
    case True
    then have "(of_char c :: nat) - 32 < 256" by linarith
    with True have "(of_char (CharToUpper c) :: nat) = of_char c - 32"
      by (simp add: CharToUpper_def)
    with * have "(of_char c :: nat) - 32 = 32" by simp
    with True show ?thesis by linarith
  next
    case False
    then have "CharToUpper c = c" unfolding CharToUpper_def by (simp only: if_False)
    with * show ?thesis by simp
  qed
qed (simp add: CharToUpper_def)

lemma title_fold:
  assumes "n < length s"
  shows "fold title_step [0..<n] s =
    map (\<lambda>i. if 0 < i \<and> i \<le> n \<and> s ! (i - 1) = CHR '' '' then CharToUpper (s ! i) else s ! i) [0..<length s]"
  using assms
proof (induction n)
  case 0
  then show ?case by (auto intro!: nth_equalityI)
next
  case (Suc n)
  let ?t = "\<lambda>m i. if 0 < i \<and> i \<le> m \<and> s ! (i - 1) = CHR '' '' then CharToUpper (s ! i) else s ! i"
  have IH: "fold title_step [0..<n] s = map (?t n) [0..<length s]" using Suc by simp
  have "map (?t n) [0..<length s] ! n = CHR '' '' \<longleftrightarrow> s ! n = CHR '' ''"
    using Suc.prems by (simp add: CharToUpper_space)
  then have "title_step n (map (?t n) [0..<length s]) = map (?t (Suc n)) [0..<length s]"
    using Suc.prems by (intro nth_equalityI) (auto simp: title_step_def nth_list_update le_Suc_eq)
  then show ?case using IH by simp
qed

lemma prefix_by_index:
  "length p \<le> length s \<and> (\<forall>i<length p. p ! i = s ! i) \<longleftrightarrow> (\<exists>t. s = p @ t)"
proof
  assume *: "length p \<le> length s \<and> (\<forall>i<length p. p ! i = s ! i)"
  then have "take (length p) s = p" by (intro nth_equalityI) auto
  then show "\<exists>t. s = p @ t" by (metis append_take_drop_id)
qed (auto simp: nth_append)

lemma suffix_by_index:
  "length p \<le> length s \<and> (\<forall>i<length p. p ! i = s ! (length s - length p + i)) \<longleftrightarrow> (\<exists>t. s = t @ p)"
proof
  assume *: "length p \<le> length s \<and> (\<forall>i<length p. p ! i = s ! (length s - length p + i))"
  then have "drop (length s - length p) s = p" by (intro nth_equalityI) auto
  then show "\<exists>t. s = t @ p" by (metis append_take_drop_id)
qed (auto simp: nth_append)

text \<open>
  \<open>StartsWith\<close> and \<open>EndsWith\<close> decide the prefix and suffix relation for non-empty
  patterns, on the lower-cased strings when case is ignored, and \<open>CheckIEqual\<close> is equality
  of the lower-cased strings.
\<close>

theorem prefix_suffix_tests:
  "(StartsWith s p ic \<longleftrightarrow>
     p \<noteq> [] \<and> (\<exists>t. (if ic then StrToLower s else s) = (if ic then StrToLower p else p) @ t)) \<and>
   (EndsWith s p ic \<longleftrightarrow>
     p \<noteq> [] \<and> (\<exists>t. (if ic then StrToLower s else s) = t @ (if ic then StrToLower p else p))) \<and>
   (CheckIEqual s p \<longleftrightarrow> StrToLower s = StrToLower p)"
proof (intro conjI)
  have len: "length (StrToLower x) = length x" for x by (simp add: StrToLower_def)
  have nth: "i < length x \<Longrightarrow> StrToLower x ! i = CharToLower (x ! i)" for x i
    by (simp add: StrToLower_def)
  show "StartsWith s p ic \<longleftrightarrow>
     p \<noteq> [] \<and> (\<exists>t. (if ic then StrToLower s else s) = (if ic then StrToLower p else p) @ t)"
    unfolding StartsWith_def prefix_by_index [symmetric] by (auto simp: list_all_iff len nth not_less)
  show "EndsWith s p ic \<longleftrightarrow>
     p \<noteq> [] \<and> (\<exists>t. (if ic then StrToLower s else s) = t @ (if ic then StrToLower p else p))"
    unfolding EndsWith_def suffix_by_index [symmetric]
    by (auto simp: list_all_iff len nth not_less Let_def)
  show "CheckIEqual s p \<longleftrightarrow> StrToLower s = StrToLower p" by (rule CheckIEqual_lower)
qed

text \<open>
  \<open>StrToTitleCase\<close> fails only on the empty string; otherwise it upper-cases exactly the
  first character and every character that follows a space.
\<close>

theorem StrToTitleCase_spec:
  "StrToTitleCase s =
     (if s = [] then None
      else Some (map (\<lambda>i. if i = 0 \<or> s ! (i - 1) = CHR '' '' then CharToUpper (s ! i) else s ! i)
        [0..<length s]))"
proof (cases "s = []")
  case False
  let ?s = "s[0 := CharToUpper (s ! 0)]"
  have sp: "?s ! j = CHR '' '' \<longleftrightarrow> s ! j = CHR '' ''" if "j < length s" for j
    using that by (cases "j = 0") (simp_all add: CharToUpper_space)
  have "fold title_step [0..<length s - 1] ?s =
      map (\<lambda>i. if 0 < i \<and> i \<le> length s - 1 \<and> ?s ! (i - 1) = CHR '' '' then CharToUpper (?s ! i) else ?s ! i)
        [0..<length s]"
    using title_fold [of "length s - 1" ?s] False by simp
  also have "\<dots> = map (\<lambda>i. if i = 0 \<or> s ! (i - 1) = CHR '' '' then CharToUpper (s ! i) else s ! i) [0..<length s]"
    using sp by (intro map_cong) auto
  finally show ?thesis using False by (simp add: StrToTitleCase_def)
qed (simp add: StrToTitleCase_def)

lemma StandardisePath_ends: "last (StandardisePath p) = CHR ''/'' \<and> CHR 0x5C \<notin> set (StandardisePath p)"
  by (auto simp: StandardisePath_def Let_def last_map nth_append last_conv_nth split: if_splits)

lemma StandardisePath_idem: "StandardisePath (StandardisePath p) = StandardisePath p"
proof -
  let ?q = "StandardisePath p"
  have "?q \<noteq> []" by (auto simp: StandardisePath_def Let_def)
  moreover have "map (\<lambda>c. if c = CHR 0x5C then CHR ''/'' else c) ?q = ?q"
    using StandardisePath_ends [of p] by (intro map_idI) auto
  ultimately show ?thesis
    using StandardisePath_ends [of p] by (simp add: StandardisePath_def [of ?q] Let_def last_conv_nth)
qed

end
