(* ===== verification/UrlUtil.thy ===== *)
theory UrlUtil
  imports StringEdit
begin

text \<open>
  Urls: percent encoding (\<open>url_encode.h\<close>) and parsing and joining (\<open>url_parser.h\<close>). Characters
  are bytes. \<open>ParseUrl\<close> matches one fixed regular expression whose groups are delimited by the
  characters they exclude, so a match is found without backtracking; the model takes the
  groups off the string in this order. The dot of the last group matches no line break.
\<close>

section \<open>Percent encoding\<close>

definition ToHex :: "nat \<Rightarrow> bool \<Rightarrow> char" where
  "ToHex x up = char_of (if x > 9 then x + (if up then 65 else 97) - 10 else x + 48)"

definition FromHex :: "char \<Rightarrow> nat" where
  "FromHex c =
     (let x = (of_char c :: nat) in
      if 48 \<le> x \<and> x \<le> 57 then x - 48
      else if 65 \<le> x \<and> x \<le> 70 then x - 65 + 10
      else if 97 \<le> x \<and> x \<le> 102 then x - 97 + 10
      else 0)"

definition escape :: "char \<Rightarrow> bool \<Rightarrow> string" where
  "escape c up = [CHR ''%'', ToHex ((of_char c :: nat) div 16) up, ToHex ((of_char c :: nat) mod 16) up]"

definition url_plain :: "char \<Rightarrow> bool" where
  "url_plain c \<longleftrightarrow> isalnum_char c \<or> c = CHR ''-'' \<or> c = CHR ''_'' \<or> c = CHR ''.'' \<or> c = CHR ''~''"

definition UrlEncode :: "string \<Rightarrow> bool \<Rightarrow> string" where
  "UrlEncode str up =
     concat (map (\<lambda>c. if url_plain c then [c] else if c = CHR '' '' then ''+'' else escape c up) str)"

fun UrlDecode :: "string \<Rightarrow> string" where
  "UrlDecode [] = []"
| "UrlDecode (c # s) =
     (if c = CHR ''+'' then CHR '' '' # UrlDecode s
      else if c = CHR ''%'' then
        (case s of
           h # l # s' \<Rightarrow> char_of (FromHex h * 16 + FromHex l) # UrlDecode s'
         | _ \<Rightarrow> [])
      else c # UrlDecode s)"

definition HttpHeaderEncode :: "string \<Rightarrow> bool \<Rightarrow> string" where
  "HttpHeaderEncode str up =
     concat (map (\<lambda>c. if isalnum_char c \<or> c = CHR ''-'' then [c] else escape c up) str)"

fun HttpHeaderDecode :: "string \<Rightarrow> string" where
  "HttpHeaderDecode [] = []"
| "HttpHeaderDecode (c # s) =
     (if c = CHR ''%'' then
        (case s of
           h # l # s' \<Rightarrow> char_of (FromHex h * 16 + FromHex l) # HttpHeaderDecode s'
         | _ \<Rightarrow> [])
      else c # HttpHeaderDecode s)"

lemma FromHex_ToHex: "x < 16 \<Longrightarrow> FromHex (ToHex x up) = x"
  by (auto simp: FromHex_def ToHex_def Let_def)

lemma escape_value: "char_of (FromHex (ToHex ((of_char c :: nat) div 16) up) * 16 + FromHex (ToHex ((of_char c :: nat) mod 16) up)) = c"
proof -
  have "(of_char c :: nat) < 256" by simp
  then have "(of_char c :: nat) div 16 < 16" by (intro less_mult_imp_div_less) simp
  then show ?thesis by (simp add: FromHex_ToHex)
qed

lemma UrlDecode_escape: "UrlDecode (escape c up @ s) = c # UrlDecode s"
  by (simp add: escape_def escape_value)

lemma HttpHeaderDecode_escape: "HttpHeaderDecode (escape c up @ s) = c # HttpHeaderDecode s"
  by (simp add: escape_def escape_value)

lemma plain_not_special: "isalnum_char c \<Longrightarrow> c \<noteq> CHR ''+'' \<and> c \<noteq> CHR ''%''"
  by (auto simp: isalnum_char_def is_digit_def)

lemma UrlDecode_UrlEncode: "UrlDecode (UrlEncode s up) = s"
  using plain_not_special
  by (induction s) (auto simp: UrlEncode_def UrlDecode_escape url_plain_def)

lemma UrlEncode_inject: "UrlEncode s up = UrlEncode s' up \<longleftrightarrow> s = s'"
  by (metis UrlDecode_UrlEncode)

lemma ToHex_alnum: "x < 16 \<Longrightarrow> isalnum_char (ToHex x up)"
  by (auto simp: ToHex_def isalnum_char_def is_digit_def)

text \<open>An encoded string holds only letters, digits and the marks of the encoding.\<close>

lemma UrlEncode_chars:
  assumes "c \<in> set (UrlEncode s up)"
  shows "url_plain c \<or> c = CHR ''+'' \<or> c = CHR ''%''"
proof -
  obtain d where d: "c \<in> set (if url_plain d then [d] else if d = CHR '' '' then ''+'' else escape d up)"
    using assms unfolding UrlEncode_def set_concat set_map by blast
  have "(of_char d :: nat) < 256" by simp
  then have "(of_char d :: nat) div 16 < 16" by (intro less_mult_imp_div_less) simp
  then show ?thesis using d ToHex_alnum by (auto simp: escape_def url_plain_def split: if_splits)
qed

lemma UrlEncode_no_slash: "CHR ''/'' \<notin> set (UrlEncode s up)"
  using UrlEncode_chars [of "CHR ''/''" s up] by (auto simp: url_plain_def isalnum_char_def is_digit_def)

text \<open>
  Decoding inverts both encodings on every byte string, in upper and lower case.
\<close>

theorem url_codec_round_trip:
  "UrlDecode (UrlEncode s up) = s \<and> HttpHeaderDecode (HttpHeaderEncode s up) = s"
proof
  show "UrlDecode (UrlEncode s up) = s" by (rule UrlDecode_UrlEncode)
  show "HttpHeaderDecode (HttpHeaderEncode s up) = s"
    using plain_not_special
    by (induction s) (auto simp: HttpHeaderEncode_def HttpHeaderDecode_escape)
qed

section \<open>Parsing\<close>

record url =
  protocol :: string
  host :: string
  service :: string
  path :: string
  query :: string
  fragment :: string

definition before :: "string \<Rightarrow> string \<Rightarrow> string" where
  "before stops s = takeWhile (\<lambda>c. c \<notin> set stops) s"

definition behind :: "string \<Rightarrow> string \<Rightarrow> string" where
  "behind stops s = dropWhile (\<lambda>c. c \<notin> set stops) s"

definition ParseUrl :: "string \<Rightarrow> url option" where
  "ParseUrl s =
     (let p = before '':/?#'' s;
          has_protocol = (p \<noteq> [] \<and> take 3 (behind '':/?#'' s) = ''://'');
          rest = (if has_protocol then drop 3 (behind '':/?#'' s) else s);
          auth = before ''/?#'' rest;
          rest = behind ''/?#'' rest;
          pth = before ''?#'' rest;
          rest = behind ''?#'' rest;
          qry = (if rest \<noteq> [] \<and> hd rest = CHR ''?'' then before ''#'' (tl rest) else []);
          rest = (if rest \<noteq> [] \<and> hd rest = CHR ''?'' then behind ''#'' (tl rest) else rest);
          frg = tl rest
      in if CHR 0x0A \<in> set frg \<or> CHR 0x0D \<in> set frg then None
         else Some
           \<lparr>protocol = (if has_protocol then p else []),
            host = (if CHR '':'' \<in> set auth then before '':'' auth else auth),
            service = (if CHR '':'' \<in> set auth then tl (behind '':'' auth) else []),
            path = pth, query = qry, fragment = frg\<rparr>)"

definition JoinUrl :: "url \<Rightarrow> string" where
  "JoinUrl u =
     (if protocol u \<noteq> [] then protocol u @ ''://'' else []) @
     host u @
     (if service u \<noteq> [] then '':'' @ service u else []) @
     (if path u \<noteq> [] then (if path u ! 0 \<noteq> CHR ''/'' then ''/'' else []) @ path u else []) @
     (if query u \<noteq> [] then ''?'' @ query u else []) @
     (if fragment u \<noteq> [] then ''#'' @ fragment u else [])"

definition without :: "string \<Rightarrow> string \<Rightarrow> bool" where
  "without stops s \<longleftrightarrow> (\<forall>c \<in> set s. c \<notin> set stops)"

definition url_ok :: "url \<Rightarrow> bool" where
  "url_ok u \<longleftrightarrow>
     without '':/?#'' (protocol u) \<and> without '':/?#'' (host u) \<and> without ''/?#'' (service u) \<and>
     without ''?#'' (path u) \<and> without ''#'' (query u) \<and>
     CHR 0x0A \<notin> set (fragment u) \<and> CHR 0x0D \<notin> set (fragment u) \<and>
     (path u \<noteq> [] \<longrightarrow> hd (path u) = CHR ''/'')"

lemma before_behind:
  assumes "without stops s" "t = [] \<or> hd t \<in> set stops"
  shows "before stops (s @ t) = s" "behind stops (s @ t) = t"
proof -
  have "\<forall>c \<in> set s. c \<notin> set stops" using assms(1) by (simp add: without_def)
  moreover have "takeWhile (\<lambda>c. c \<notin> set stops) t = []" "dropWhile (\<lambda>c. c \<notin> set stops) t = t"
    using assms(2) by (cases t; auto)+
  ultimately show "before stops (s @ t) = s" "behind stops (s @ t) = t"
    by (simp_all add: before_def behind_def takeWhile_append dropWhile_append)
qed

text \<open>
  Parsing inverts joining for every url whose parts contain no delimiter of their own and
  whose path, if any, starts with a slash.
\<close>

theorem ParseUrl_JoinUrl:
  assumes "url_ok u"
  shows "ParseUrl (JoinUrl u) = Some u"
proof -
  have ok: "without '':/?#'' (protocol u)" "without '':/?#'' (host u)" "without ''/?#'' (service u)"
    "without ''?#'' (path u)" "without ''#'' (query u)"
    "CHR 0x0A \<notin> set (fragment u)" "CHR 0x0D \<notin> set (fragment u)"
    "path u \<noteq> [] \<longrightarrow> hd (path u) = CHR ''/''"
    using assms by (auto simp: url_ok_def)
  obtain F where F: "F = (if fragment u \<noteq> [] then ''#'' @ fragment u else [])" by blast
  obtain Q where Q: "Q = (if query u \<noteq> [] then ''?'' @ query u else []) @ F" by blast
  obtain P where P: "P = path u @ Q" by blast
  obtain A where A: "A = host u @ (if service u \<noteq> [] then '':'' @ service u else [])" by blast
  have hdF: "F = [] \<or> hd F \<in> set ''#''" by (simp add: F)
  have hdQ: "Q = [] \<or> hd Q \<in> set ''?#''" using hdF by (auto simp: Q)
  have hdP: "P = [] \<or> hd P \<in> set ''/?#''" using hdQ ok(8) by (cases "path u") (auto simp: P)
  have wA: "without ''/?#'' A" using ok(2,3) by (auto simp: A without_def)
  have join: "JoinUrl u = (if protocol u \<noteq> [] then protocol u @ ''://'' else []) @ A @ P"
    using ok(8) by (auto simp: JoinUrl_def A P Q F hd_conv_nth)
  have auth: "before ''/?#'' (A @ P) = A" "behind ''/?#'' (A @ P) = P" by (rule before_behind [OF wA hdP])+
  have pth: "before ''?#'' P = path u" "behind ''?#'' P = Q"
    unfolding P by (rule before_behind [OF ok(4) hdQ])+
  have qry: "before ''#'' (query u @ F) = query u" "behind ''#'' (query u @ F) = F"
    by (rule before_behind [OF ok(5) hdF])+
  have tail: "(if Q \<noteq> [] \<and> hd Q = CHR ''?'' then before ''#'' (tl Q) else []) = query u"
    "tl (if Q \<noteq> [] \<and> hd Q = CHR ''?'' then behind ''#'' (tl Q) else Q) = fragment u"
    using qry by (auto simp: Q F)
  have A_parts: "(if CHR '':'' \<in> set A then before '':'' A else A) = host u"
    "(if CHR '':'' \<in> set A then tl (behind '':'' A) else []) = service u"
  proof -
    have wh: "without '':'' (host u)" using ok(2) by (auto simp: without_def)
    show "(if CHR '':'' \<in> set A then before '':'' A else A) = host u"
      "(if CHR '':'' \<in> set A then tl (behind '':'' A) else []) = service u"
      using before_behind [OF wh, of "'':'' @ service u"] wh by (auto simp: A without_def)
  qed
  have proto: "(if before '':/?#'' (JoinUrl u) \<noteq> [] \<and> take 3 (behind '':/?#'' (JoinUrl u)) = ''://''
      then before '':/?#'' (JoinUrl u) else []) = protocol u \<and>
    (if before '':/?#'' (JoinUrl u) \<noteq> [] \<and> take 3 (behind '':/?#'' (JoinUrl u)) = ''://''
      then drop 3 (behind '':/?#'' (JoinUrl u)) else JoinUrl u) = A @ P"
  proof (cases "protocol u = []")
    case False
    have "before '':/?#'' (protocol u @ (''://'' @ A @ P)) = protocol u"
      "behind '':/?#'' (protocol u @ (''://'' @ A @ P)) = ''://'' @ A @ P"
      by (rule before_behind [OF ok(1)], simp)+
    then show ?thesis using False by (simp add: join)
  next
    case True
    have "take 3 (behind '':/?#'' (A @ P)) \<noteq> ''://''"
    proof -
      obtain X where X: "A @ P = host u @ X" "X = (if service u \<noteq> [] then '':'' @ service u else []) @ P"
        by (simp add: A)
      have "X = [] \<or> hd X \<in> set '':/?#''" using hdP by (auto simp: X(2))
      then have "behind '':/?#'' (A @ P) = X" unfolding X(1) by (rule before_behind [OF ok(2)])
      moreover have "take 3 X \<noteq> ''://''"
        using ok(3) hdP by (cases "service u"; cases P) (auto simp: X(2) without_def)
      ultimately show ?thesis by simp
    qed
    then show ?thesis using True by (simp add: join)
  qed
  have "ParseUrl (JoinUrl u) = Some \<lparr>protocol = protocol u, host = host u, service = service u,
      path = path u, query = query u, fragment = fragment u\<rparr>"
    using proto tail A_parts auth pth ok(6,7) unfolding ParseUrl_def Let_def by auto
  then show ?thesis by simp
qed

definition demo_url :: url where
  "demo_url = \<lparr>protocol = ''local'', host = ''rpc'', service = [], path = ''/f'', query = ''pkg_path=a'', fragment = []\<rparr>"

theorem ParseUrl_JoinUrl_witness: "ParseUrl (JoinUrl demo_url) = Some demo_url"
  by (rule ParseUrl_JoinUrl) (simp add: demo_url_def url_ok_def without_def)

end
