(* ===== verification/Lifecycle.thy ===== *)
theory Lifecycle
  imports Prelude
begin

text \<open>
  The life cycle that every manager and executor of the runtime shares. Each keeps an
  \<open>std::atomic<State> state_\<close> and guards its entry points with
  \<open>std::atomic_exchange(&state_, new) == expected\<close>, which writes the new state whether or
  not the test succeeds. A call therefore yields its next state and, beside it, the
  exception it throws, if any. The locale states what the entry points promise; it is
  interpreted by the components.
\<close>

section \<open>The state word\<close>

datatype lc_state = kPreInit | kInit | kStart | kShutdown

text \<open>A call that may throw: the exception, if any, and the state it leaves behind.\<close>

type_synonym ('e, 's) outcome = "'e option \<times> 's"

definition atomic_exchange :: "lc_state \<Rightarrow> lc_state \<Rightarrow> lc_state \<times> lc_state" where
  "atomic_exchange cur new = (cur, new)"

section \<open>The contract\<close>

datatype 'a lc_call = Call_Initialize 'a | Call_Start | Call_Shutdown

fun is_init_call :: "'a lc_call \<Rightarrow> bool" where
  "is_init_call (Call_Initialize a) = True"
| "is_init_call _ = False"

text \<open>
  \<open>accepted calls\<close> describes the call sequences that never throw, as a language: shutdowns
  at any time, one initialisation before the first shutdown and one start behind it.
\<close>

fun accepts :: "lc_state \<Rightarrow> 'a lc_call list \<Rightarrow> bool" where
  "accepts st [] = True"
| "accepts st (Call_Initialize a # cs) = (st = kPreInit \<and> accepts kInit cs)"
| "accepts st (Call_Start # cs) = (st = kInit \<and> accepts kStart cs)"
| "accepts st (Call_Shutdown # cs) = accepts kShutdown cs"

locale lifecycle =
  fixes state_of :: "'s \<Rightarrow> lc_state"
    and initialize :: "'a \<Rightarrow> 's \<Rightarrow> ('e, 's) outcome"
    and start :: "'s \<Rightarrow> ('e, 's) outcome"
    and shutdown :: "'s \<Rightarrow> 's"
  assumes initialize_ok: "initialize a s = (None, s') \<Longrightarrow> state_of s = kPreInit \<and> state_of s' = kInit"
    and initialize_throws: "initialize a s = (Some e, s') \<Longrightarrow> state_of s' \<in> {state_of s, kInit}"
    and start_ok: "start s = (None, s') \<Longrightarrow> state_of s = kInit \<and> state_of s' = kStart"
    and start_throws: "start s = (Some e, s') \<Longrightarrow> state_of s' \<in> {state_of s, kStart}"
    and shutdown_state: "state_of (shutdown s) = kShutdown"
    and shutdown_again: "state_of s = kShutdown \<Longrightarrow> shutdown s = s"
begin

fun call :: "'a lc_call \<Rightarrow> 's \<Rightarrow> ('e, 's) outcome" where
  "call (Call_Initialize a) s = initialize a s"
| "call Call_Start s = start s"
| "call Call_Shutdown s = (None, shutdown s)"

fun calls :: "'a lc_call list \<Rightarrow> 's \<Rightarrow> ('e, 's) outcome" where
  "calls [] s = (None, s)"
| "calls (c # cs) s = (case call c s of (Some e, s') \<Rightarrow> (Some e, s') | (None, s') \<Rightarrow> calls cs s')"

lemma calls_accepted: "calls cs s = (None, s') \<Longrightarrow> accepts (state_of s) cs"
proof (induction cs arbitrary: s)
  case (Cons c cs)
  then show ?case
  proof (cases c)
    case (Call_Initialize a)
    with Cons show ?thesis by (auto split: prod.splits option.splits dest!: initialize_ok) (metis)
  next
    case Call_Start
    with Cons show ?thesis by (auto split: prod.splits option.splits dest!: start_ok) (metis)
  next
    case Call_Shutdown
    with Cons have "accepts (state_of (shutdown s)) cs" by auto
    with Call_Shutdown show ?thesis by (simp add: shutdown_state)
  qed
qed simp

lemma shutdown_idempotent: "shutdown (shutdown s) = shutdown s"
  by (simp add: shutdown_again shutdown_state)

lemma no_start_after_shutdown: "fst (start (shutdown s)) \<noteq> None"
  using start_ok [of "shutdown s"] by (cases "start (shutdown s)") (auto simp: shutdown_state)

lemma no_initialize_after_shutdown: "fst (initialize a (shutdown s)) \<noteq> None"
  using initialize_ok [of a "shutdown s"] by (cases "initialize a (shutdown s)") (auto simp: shutdown_state)

end

text \<open>What the language of accepted sequences says: at most one initialisation and one start.\<close>

lemma accepts_closed:
  "st = kShutdown \<Longrightarrow> accepts st cs \<Longrightarrow> c \<in> set cs \<Longrightarrow> c = Call_Shutdown"
  by (induction st cs rule: accepts.induct) auto

lemma accepts_one_start:
  assumes "accepts st cs"
  shows "length (filter (\<lambda>c. c = Call_Start) cs) \<le> 1 \<and>
    length (filter is_init_call cs) \<le> 1 \<and>
    (st \<noteq> kPreInit \<longrightarrow> filter is_init_call cs = []) \<and>
    (st = kStart \<or> st = kShutdown \<longrightarrow> filter (\<lambda>c. c = Call_Start) cs = [])"
  using assms by (induction st cs rule: accepts.induct) auto

end
