(* ===== verification/TimeWheel.thy ===== *)
theory TimeWheel
  imports Lifecycle "HOL-Library.AList" "HOL-Library.Code_Target_Nat"
begin

text \<open>
  The time-wheel executor (\<open>time_wheel_executor.cc\<close> and \<open>.h\<close>): a hierarchy of wheels whose
  slots hold task lists, an overflow map behind the last wheel, and a timer thread that
  advances the hierarchy by one tick per \<open>dt\<close>. Ticks and counters are natural numbers; the
  two computations in nanoseconds that can leave 64 bits, \<open>tp - tw_start_time_point\<close> and
  \<open>tw_current_tick_count * tw_dt_count\<close>, are written modulo \<open>2 ^ 64\<close>. An access the C++ code
  makes outside a vector and a division by zero are error values.
\<close>

section \<open>Data\<close>

type_synonym task_id = nat

record task_with_timestamp =
  tick_count :: nat
  task :: task_id

type_synonym task_list = "task_with_timestamp list"

record timing_wheel_tool =
  current_pos :: nat
  scale :: nat
  wheel :: "task_list list"

record task_map =
  tm_pos :: nat
  tm_map :: "(nat \<times> task_list) list"

datatype tw_error =
    IndexOutOfRange | DivideByZero | NoGetExecutor | InitializedTwice | NotInitialized
  | BadBindExecutor string | BindSelf string | NotPreInit

record executor_ref =
  er_name :: string
  er_thread_safe :: bool

record tw_options =
  bind_executor :: string
  dt :: nat
  wheel_size :: "nat list"
  thread_sched_policy :: string
  thread_bind_cpu :: "nat list"
  use_system_clock :: bool

definition default_options :: tw_options where
  "default_options = \<lparr>bind_executor = [], dt = 100000000, wheel_size = [100, 360],
     thread_sched_policy = [], thread_bind_cpu = [], use_system_clock = False\<rparr>"

record tw_node =
  n_bind_executor :: "string option"
  n_dt_us :: "nat option"
  n_wheel_size :: "nat list option"
  n_thread_sched_policy :: "string option"
  n_thread_bind_cpu :: "nat list option"
  n_use_system_clock :: "bool option"

definition encode_options :: "tw_options \<Rightarrow> tw_node" where
  "encode_options rhs =
     \<lparr>n_bind_executor = Some (bind_executor rhs),
      n_dt_us = Some (dt rhs div 1000),
      n_wheel_size = Some (wheel_size rhs),
      n_thread_sched_policy = Some (thread_sched_policy rhs),
      n_thread_bind_cpu = Some (thread_bind_cpu rhs),
      n_use_system_clock = Some (use_system_clock rhs)\<rparr>"

definition decode_options :: "tw_node \<Rightarrow> tw_options \<Rightarrow> tw_options" where
  "decode_options node rhs =
     \<lparr>bind_executor = or_keep (n_bind_executor node) (bind_executor rhs),
      dt = (case n_dt_us node of None \<Rightarrow> dt rhs | Some us \<Rightarrow> us * 1000),
      wheel_size = or_keep (n_wheel_size node) (wheel_size rhs),
      thread_sched_policy = or_keep (n_thread_sched_policy node) (thread_sched_policy rhs),
      thread_bind_cpu = or_keep (n_thread_bind_cpu node) (thread_bind_cpu rhs),
      use_system_clock = or_keep (n_use_system_clock node) (use_system_clock rhs)\<rparr>"

record time_wheel_executor =
  tw_name :: string
  tw_options :: tw_options
  tw_state :: lc_state
  tw_get_executor_func :: "(string \<Rightarrow> executor_ref option) option"
  tw_bind_executor_ref :: "executor_ref option"
  tw_thread_safe :: bool
  tw_dt_count :: nat
  tw_start_time_point :: nat
  tw_start_flag :: bool
  tw_current_tick_count :: nat
  tw_timing_wheel_vec :: "timing_wheel_tool list"
  tw_timing_task_map :: task_map
  tw_imd_queue :: "task_id list"
  tw_timer_thread :: bool
  tw_bound_calls :: "task_id list"

section \<open>The wheels\<close>

definition splice_task :: "task_with_timestamp \<Rightarrow> timing_wheel_tool \<Rightarrow> timing_wheel_tool" where
  "splice_task t w =
     (let p = tick_count t mod length (wheel w)
      in w\<lparr>wheel := (wheel w)[p := wheel w ! p @ [t]]\<rparr>)"

definition map_borrow :: "task_map \<Rightarrow> task_list \<times> task_map" where
  "map_borrow m =
     (case map_of (tm_map m) (tm_pos m) of
        None \<Rightarrow> ([], m\<lparr>tm_pos := tm_pos m + 1\<rparr>)
      | Some l \<Rightarrow> (l, \<lparr>tm_pos = tm_pos m + 1, tm_map = AList.delete (tm_pos m) (tm_map m)\<rparr>))"

text \<open>
  \<open>Tick ws m\<close> is \<open>Tick\<close> of the first wheel of \<open>ws\<close>, which borrows from the wheels behind it
  and, behind the last one, from the task map. The \<open>borrow_func\<close> of a wheel moves the
  borrowed tasks into its own slots by \<open>tick_count % wheel.size()\<close>.
\<close>

fun Tick :: "timing_wheel_tool list \<Rightarrow> task_map \<Rightarrow>
    (tw_error, task_list \<times> timing_wheel_tool list \<times> task_map) result" where
  "Tick [] m = Inl IndexOutOfRange"
| "Tick (w # ws) m =
     (if current_pos w \<ge> length (wheel w) then Inl IndexOutOfRange
      else
        let out = wheel w ! current_pos w;
            w1 = w\<lparr>wheel := (wheel w)[current_pos w := []], current_pos := current_pos w + 1\<rparr>
        in if current_pos w1 = length (wheel w1)
           then bindR (if ws \<noteq> [] then Tick ws m
                       else (case map_borrow m of (l, m') \<Rightarrow> Inr (l, [], m')))
                  (\<lambda>(borrowed, ws', m').
                     Inr (out, fold splice_task borrowed (w1\<lparr>current_pos := 0\<rparr>) # ws', m'))
           else Inr (out, w1 # ws, m))"

section \<open>The executor\<close>

fun make_wheels :: "nat \<Rightarrow> nat \<Rightarrow> nat list \<Rightarrow> timing_wheel_tool list" where
  "make_wheels ii cur_scale [] = []"
| "make_wheels ii cur_scale (n # ns) =
     \<lparr>current_pos = (if ii = 0 then 0 else 1),
      scale = cur_scale * n,
      wheel = replicate n []\<rparr> # make_wheels (ii + 1) (cur_scale * n) ns"

definition setup_wheels :: "time_wheel_executor \<Rightarrow> time_wheel_executor" where
  "setup_wheels s =
     s\<lparr>tw_dt_count := dt (tw_options s),
       tw_timing_wheel_vec := tw_timing_wheel_vec s @ make_wheels 0 1 (wheel_size (tw_options s)),
       tw_timing_task_map := (tw_timing_task_map s)\<lparr>tm_pos := 1\<rparr>\<rparr>"

definition Initialize ::
  "string \<times> tw_node option \<Rightarrow> time_wheel_executor \<Rightarrow> (tw_error, time_wheel_executor) outcome" where
  "Initialize = (\<lambda>(name, options_node) s.
     case tw_get_executor_func s of
       None \<Rightarrow> (Some NoGetExecutor, s)
     | Some get_executor \<Rightarrow>
         (let (old, new) = atomic_exchange (tw_state s) kInit; s = s\<lparr>tw_state := new\<rparr> in
          if old \<noteq> kPreInit then (Some InitializedTwice, s)
          else
            let s = s\<lparr>tw_name := name\<rparr>;
                s = (case options_node of
                       None \<Rightarrow> s
                     | Some node \<Rightarrow> s\<lparr>tw_options := decode_options node default_options\<rparr>)
            in if bind_executor (tw_options s) = [] then (None, setup_wheels s)
               else
                 let r = get_executor (bind_executor (tw_options s));
                     s = s\<lparr>tw_bind_executor_ref := r\<rparr>
                 in case r of
                      None \<Rightarrow> (Some (BadBindExecutor (bind_executor (tw_options s))), s)
                    | Some e \<Rightarrow>
                        if er_name e = tw_name s then (Some (BindSelf (bind_executor (tw_options s))), s)
                        else (None, setup_wheels (s\<lparr>tw_thread_safe := er_thread_safe e\<rparr>))))"

definition Start :: "time_wheel_executor \<Rightarrow> (tw_error, time_wheel_executor) outcome" where
  "Start s =
     (let (old, new) = atomic_exchange (tw_state s) kStart; s = s\<lparr>tw_state := new\<rparr> in
      if old \<noteq> kInit then (Some NotInitialized, s)
      else (None, s\<lparr>tw_timer_thread := True\<rparr>))"

definition Shutdown :: "time_wheel_executor \<Rightarrow> time_wheel_executor" where
  "Shutdown s =
     (let (old, new) = atomic_exchange (tw_state s) kShutdown; s = s\<lparr>tw_state := new\<rparr> in
      if old = kShutdown then s
      else s\<lparr>tw_timer_thread := False,
             tw_timing_task_map := (tw_timing_task_map s)\<lparr>tm_map := []\<rparr>,
             tw_timing_wheel_vec := [],
             tw_get_executor_func := None\<rparr>)"

definition RegisterGetExecutorFunc ::
  "(string \<Rightarrow> executor_ref option) \<Rightarrow> time_wheel_executor \<Rightarrow> (tw_error, time_wheel_executor) outcome" where
  "RegisterGetExecutorFunc f s =
     (if tw_state s \<noteq> kPreInit then (Some NotPreInit, s)
      else (None, s\<lparr>tw_get_executor_func := Some f\<rparr>))"

definition Execute :: "task_id \<Rightarrow> time_wheel_executor \<Rightarrow> time_wheel_executor" where
  "Execute t s =
     (if tw_bind_executor_ref s \<noteq> None then s\<lparr>tw_bound_calls := tw_bound_calls s @ [t]\<rparr>
      else s\<lparr>tw_imd_queue := tw_imd_queue s @ [t]\<rparr>)"

definition wrap64 :: "int \<Rightarrow> nat" where
  "wrap64 x = nat (x mod 2 ^ 64)"

definition Now :: "time_wheel_executor \<Rightarrow> nat" where
  "Now s = wrap64 (int (tw_current_tick_count s * tw_dt_count s + tw_start_time_point s))"

text \<open>
  The loop of \<open>ExecuteAt\<close> over the wheel sizes: the first level whose size exceeds the
  remaining distance takes the task, at the slot of the target in that level's units; behind
  the last level the task goes to the map.
\<close>

fun place :: "nat \<Rightarrow> nat list \<Rightarrow> nat \<Rightarrow> nat \<Rightarrow> task_with_timestamp \<Rightarrow>
    timing_wheel_tool list \<Rightarrow> task_map \<Rightarrow>
    (tw_error, timing_wheel_tool list \<times> task_map) result" where
  "place ii [] target diff e ws m =
     Inr (ws, m\<lparr>tm_map := AList.update target (or_keep (map_of (tm_map m) target) [] @ [e]) (tm_map m)\<rparr>)"
| "place ii (n # ns) target diff e ws m =
     (if diff < n
      then (if ii < length ws \<and> target mod n < length (wheel (ws ! ii))
            then let w = ws ! ii; p = target mod n
                 in Inr (ws[ii := w\<lparr>wheel := (wheel w)[p := wheel w ! p @ [e]]\<rparr>], m)
            else Inl IndexOutOfRange)
      else if n = 0 then Inl DivideByZero
      else place (ii + 1) ns (target div n) (diff div n) e ws m)"

definition ExecuteAt :: "nat \<Rightarrow> task_id \<Rightarrow> time_wheel_executor \<Rightarrow> (tw_error, time_wheel_executor) result" where
  "ExecuteAt tp t s =
     (let virtual_tp = wrap64 (int tp - int (tw_start_time_point s)) in
      if virtual_tp < wrap64 (int (tw_current_tick_count s * tw_dt_count s)) then Inr (Execute t s)
      else if tw_dt_count s = 0 then Inl DivideByZero
      else
        let target_tick = virtual_tp div tw_dt_count s;
            diff_tick_count = wrap64 (int target_tick - int (tw_current_tick_count s))
        in bindR (place 0 (wheel_size (tw_options s)) target_tick diff_tick_count
                    \<lparr>tick_count = virtual_tp div tw_dt_count s, task = t\<rparr>
                    (tw_timing_wheel_vec s) (tw_timing_task_map s))
             (\<lambda>(ws, m). Inr (s\<lparr>tw_timing_wheel_vec := ws, tw_timing_task_map := m\<rparr>)))"

section \<open>The timer loop\<close>

text \<open>
  One iteration of \<open>TimerLoop\<close> after its sleep: the immediate tasks (\<open>loop_immediate\<close>), the
  tick under the lock (\<open>loop_take\<close>), the tasks it yields, run outside the lock
  (\<open>loop_perform\<close>), and the new count (\<open>loop_finish\<close>). The lock is released between
  \<open>loop_take\<close> and \<open>loop_finish\<close> when there are tasks to run.
\<close>

definition loop_immediate :: "time_wheel_executor \<Rightarrow> task_id list \<times> time_wheel_executor" where
  "loop_immediate s =
     (if tw_bind_executor_ref s = None then (tw_imd_queue s, s\<lparr>tw_imd_queue := []\<rparr>) else ([], s))"

definition loop_take :: "time_wheel_executor \<Rightarrow> (tw_error, task_list \<times> time_wheel_executor) result" where
  "loop_take s =
     bindR (Tick (tw_timing_wheel_vec s) (tw_timing_task_map s))
       (\<lambda>(l, ws, m). Inr (l, s\<lparr>tw_timing_wheel_vec := ws, tw_timing_task_map := m\<rparr>))"

definition loop_perform :: "task_list \<Rightarrow> time_wheel_executor \<Rightarrow> task_id list \<times> time_wheel_executor" where
  "loop_perform l s =
     (if tw_bind_executor_ref s \<noteq> None
      then ([], s\<lparr>tw_bound_calls := tw_bound_calls s @ map task l\<rparr>)
      else (map task l, s))"

definition loop_finish :: "time_wheel_executor \<Rightarrow> time_wheel_executor" where
  "loop_finish s = s\<lparr>tw_current_tick_count := tw_current_tick_count s + 1\<rparr>"

text \<open>
  Runs of the executor: other threads, and the tasks themselves, call \<open>Execute\<close> and
  \<open>ExecuteAt\<close> between the lock regions of the timer thread. \<open>run_log\<close> records which task was
  taken out for execution at which tick, \<open>run_now\<close> the tasks run inline.
\<close>

record tw_run =
  run_exec :: time_wheel_executor
  run_pending :: "task_list option"
  run_log :: "(nat \<times> task_with_timestamp) list"
  run_now :: "task_id list"

datatype tw_op = OpExecuteAt nat task_id | OpExecute task_id | OpTake | OpFinish

fun tw_step :: "tw_op \<Rightarrow> tw_run \<Rightarrow> (tw_error, tw_run) result" where
  "tw_step (OpExecuteAt tp t) r = bindR (ExecuteAt tp t (run_exec r)) (\<lambda>s. Inr (r\<lparr>run_exec := s\<rparr>))"
| "tw_step (OpExecute t) r = Inr (r\<lparr>run_exec := Execute t (run_exec r)\<rparr>)"
| "tw_step OpTake r =
     (case run_pending r of
        Some l \<Rightarrow> Inr r
      | None \<Rightarrow>
          let (now, s) = loop_immediate (run_exec r) in
          bindR (loop_take s) (\<lambda>(l, s).
            if l = [] then Inr (r\<lparr>run_exec := loop_finish s, run_now := run_now r @ now\<rparr>)
            else Inr (r\<lparr>run_exec := s, run_pending := Some l, run_now := run_now r @ now,
                        run_log := run_log r @ map (Pair (tw_current_tick_count s)) l\<rparr>)))"
| "tw_step OpFinish r =
     (case run_pending r of
        None \<Rightarrow> Inr r
      | Some l \<Rightarrow>
          let (now, s) = loop_perform l (run_exec r)
          in Inr (r\<lparr>run_exec := loop_finish s, run_pending := None, run_now := run_now r @ now\<rparr>))"

abbreviation tw_steps :: "tw_op list \<Rightarrow> tw_run \<Rightarrow> (tw_error, tw_run) result" where
  "tw_steps \<equiv> foldR tw_step"

section \<open>The position invariant\<close>

text \<open>
  \<open>pos_ok u ws p\<close>: the first wheel of \<open>ws\<close> has been ticked \<open>u\<close> times, each further wheel is one
  tick ahead of the wheel before it, and \<open>p\<close> is the map position behind the last one.
\<close>

fun pos_ok :: "nat \<Rightarrow> timing_wheel_tool list \<Rightarrow> nat \<Rightarrow> bool" where
  "pos_ok u [] p = (p = u)"
| "pos_ok u (w # ws) p =
     (wheel w \<noteq> [] \<and> current_pos w = u mod length (wheel w) \<and>
      pos_ok (u div length (wheel w) + 1) ws p)"

abbreviation sizes :: "timing_wheel_tool list \<Rightarrow> nat list" where
  "sizes ws \<equiv> map (\<lambda>w. length (wheel w)) ws"

lemma splice_task_simps [simp]:
  "length (wheel (splice_task t w)) = length (wheel w)"
  "current_pos (splice_task t w) = current_pos w"
  by (simp_all add: splice_task_def Let_def)

lemma fold_splice_simps [simp]:
  "length (wheel (fold splice_task l w)) = length (wheel w)"
  "current_pos (fold splice_task l w) = current_pos w"
  "wheel (fold splice_task l w) = [] \<longleftrightarrow> wheel w = []"
proof -
  show "length (wheel (fold splice_task l w)) = length (wheel w)"
    "current_pos (fold splice_task l w) = current_pos w"
    by (induction l arbitrary: w) simp_all
  then show "wheel (fold splice_task l w) = [] \<longleftrightarrow> wheel w = []"
    by (metis length_0_conv)
qed

lemma map_borrow_pos [simp]: "tm_pos (snd (map_borrow m)) = tm_pos m + 1"
  by (simp add: map_borrow_def split: option.splits)

lemma wrap_step:
  assumes "0 < (n :: nat)"
  shows "u mod n + 1 = n \<longleftrightarrow> (u + 1) mod n = 0"
    and "u mod n + 1 = n \<Longrightarrow> (u + 1) div n = u div n + 1"
    and "u mod n + 1 \<noteq> n \<Longrightarrow> (u + 1) mod n = u mod n + 1 \<and> (u + 1) div n = u div n"
proof -
  show "u mod n + 1 = n \<longleftrightarrow> (u + 1) mod n = 0"
    using assms by (simp add: mod_Suc)
  show "u mod n + 1 = n \<Longrightarrow> (u + 1) div n = u div n + 1"
    using assms by (simp add: div_Suc mod_Suc)
  show "u mod n + 1 \<noteq> n \<Longrightarrow> (u + 1) mod n = u mod n + 1 \<and> (u + 1) div n = u div n"
    using assms by (simp add: div_Suc mod_Suc)
qed

lemma Tick_pos_ok:
  assumes "pos_ok u ws (tm_pos m)" "ws \<noteq> []"
  shows "\<exists>out ws' m'. Tick ws m = Inr (out, ws', m') \<and> pos_ok (u + 1) ws' (tm_pos m') \<and>
    sizes ws' = sizes ws"
  using assms
proof (induction ws m arbitrary: u rule: Tick.induct)
  case (2 w ws m)
  let ?n = "length (wheel w)" and ?p = "current_pos w"
  have n: "0 < ?n" and p: "?p = u mod ?n" and tl: "pos_ok (u div ?n + 1) ws (tm_pos m)"
    using "2.prems" by auto
  have lt: "?p < ?n" using n p by simp
  show ?case
  proof (cases "?p + 1 = ?n")
    case False
    then show ?thesis using n lt tl wrap_step(3) [OF n, of u] by (auto simp: Let_def simp flip: p)
  next
    case True
    let ?r = "if ws \<noteq> [] then Tick ws m else (case map_borrow m of (l, m') \<Rightarrow> Inr (l, [], m'))"
    obtain l ws' m' where r: "?r = Inr (l, ws', m')" "pos_ok (u div ?n + 1 + 1) ws' (tm_pos m')"
      "sizes ws' = sizes ws"
    proof (cases "ws = []")
      case True
      then show ?thesis using that tl map_borrow_pos [of m] by (cases "map_borrow m") auto
    next
      case False
      then show ?thesis using that "2.IH" [OF _ refl refl _ _ tl] lt \<open>?p + 1 = ?n\<close> by fastforce
    qed
    have "(u + 1) mod ?n = 0" "(u + 1) div ?n = u div ?n + 1"
      using True p wrap_step(1,2) [OF n, of u] by auto
    then show ?thesis using n lt True r by (auto simp: Let_def)
  qed
qed simp

section \<open>No task is lost by a tick\<close>

abbreviation map_tasks :: "(nat \<times> task_list) list \<Rightarrow> task_list" where
  "map_tasks m \<equiv> concat (map snd m)"

definition wheel_tasks :: "timing_wheel_tool list \<Rightarrow> task_with_timestamp multiset" where
  "wheel_tasks ws = mset (concat (concat (map wheel ws)))"

definition held :: "timing_wheel_tool list \<Rightarrow> task_map \<Rightarrow> task_with_timestamp multiset" where
  "held ws m = wheel_tasks ws + mset (map_tasks (tm_map m))"

lemma wheel_tasks_Cons [simp]: "wheel_tasks (w # ws) = mset (concat (wheel w)) + wheel_tasks ws"
  by (simp add: wheel_tasks_def)

lemma wheel_tasks_Nil [simp]: "wheel_tasks [] = {#}"
  by (simp add: wheel_tasks_def)

lemma splice_task_mset:
  assumes "wheel w \<noteq> []"
  shows "mset (concat (wheel (splice_task t w))) = add_mset t (mset (concat (wheel w)))"
  using mset_concat_update [of "tick_count t mod length (wheel w)" "wheel w"
      "wheel w ! (tick_count t mod length (wheel w)) @ [t]"] assms
  by (simp add: splice_task_def Let_def)

lemma fold_splice_mset:
  "wheel w \<noteq> [] \<Longrightarrow>
   mset (concat (wheel (fold splice_task l w))) = mset (concat (wheel w)) + mset l"
proof (induction l arbitrary: w)
  case (Cons t l)
  have "wheel (splice_task t w) \<noteq> []" using Cons.prems splice_task_simps(1) by (metis length_0_conv)
  then show ?case using Cons by (simp add: splice_task_mset)
qed simp

lemma AList_delete_mset:
  "distinct (map fst m) \<Longrightarrow> map_of m k = Some l \<Longrightarrow>
   mset (map_tasks m) = mset l + mset (map_tasks (AList.delete k m))"
proof (induction m)
  case (Cons kv m)
  show ?case
  proof (cases "fst kv = k")
    case True
    then have "AList.delete k m = m"
      using Cons.prems(1) by (simp add: AList.delete_idem)
    with True Cons.prems show ?thesis by (auto simp: AList.delete_eq)
  next
    case False
    with Cons show ?thesis by (auto simp: AList.delete_eq)
  qed
qed simp

lemma AList_update_mset:
  "distinct (map fst m) \<Longrightarrow>
   mset (map_tasks (AList.update k (or_keep (map_of m k) [] @ [e]) m)) = add_mset e (mset (map_tasks m))"
  by (induction m) (auto simp: or_keep_def split: option.splits)

lemma map_borrow_mset:
  assumes "distinct (map fst (tm_map m))" "map_borrow m = (l, m')"
  shows "mset (map_tasks (tm_map m)) = mset l + mset (map_tasks (tm_map m'))"
    and "distinct (map fst (tm_map m'))"
  using assms AList_delete_mset [of "tm_map m" "tm_pos m"]
  by (auto simp: map_borrow_def AList.distinct_delete split: option.splits)

lemma Tick_conserves:
  assumes "Tick ws m = Inr (out, ws', m')" "distinct (map fst (tm_map m))"
  shows "held ws m = mset out + held ws' m' \<and> distinct (map fst (tm_map m'))"
  using assms
proof (induction ws m arbitrary: out ws' m' rule: Tick.induct)
  case (2 w ws m)
  let ?p = "current_pos w" and ?n = "length (wheel w)"
  let ?w1 = "w\<lparr>wheel := (wheel w)[?p := []], current_pos := ?p + 1\<rparr>"
  have lt: "?p < ?n" using "2.prems"(1) by (simp split: if_splits)
  have drained: "mset (concat (wheel ?w1)) + mset (wheel w ! ?p) = mset (concat (wheel w))"
    using mset_concat_update [OF lt, of "[]"] by simp
  show ?case
  proof (cases "?p + 1 = ?n")
    case False
    then show ?thesis using lt "2.prems" drained by (auto simp: Let_def held_def ac_simps)
  next
    case True
    let ?r = "if ws \<noteq> [] then Tick ws m else (case map_borrow m of (l, m') \<Rightarrow> Inr (l, [], m'))"
    let ?w2 = "?w1\<lparr>current_pos := 0\<rparr>"
    obtain l vs where r: "?r = Inr (l, vs, m')" "out = wheel w ! ?p" "ws' = fold splice_task l ?w2 # vs"
      using "2.prems"(1) lt True by (auto simp: Let_def bindR_eq_Inr)
    have ih: "held ws m = mset l + held vs m' \<and> distinct (map fst (tm_map m'))"
    proof (cases "ws = []")
      case True
      then show ?thesis using r(1) map_borrow_mset [OF "2.prems"(2)]
        by (auto simp: held_def split: prod.splits)
    next
      case False
      then show ?thesis using "2.IH" [OF _ refl refl _ _ _ "2.prems"(2)] lt True r(1) by auto
    qed
    have "wheel ?w2 \<noteq> []" using lt by auto
    from fold_splice_mset [OF this, of l]
    have "held ws' m' = mset (concat (wheel ?w1)) + (mset l + held vs m')"
      by (simp add: r(3) held_def)
    moreover have "held (w # ws) m = mset (concat (wheel ?w1)) + mset out + held ws m"
      by (simp add: held_def r(2) drained [simplified])
    ultimately show ?thesis using ih by (simp add: ac_simps)
  qed
qed simp

section \<open>Where a task waits\<close>

text \<open>
  \<open>located u ws e\<close>: with \<open>u\<close> ticks done, the entry \<open>e\<close> waits in the slot of the first or the
  second wheel from which it reaches its own tick in time.
\<close>

fun located :: "nat \<Rightarrow> timing_wheel_tool list \<Rightarrow> task_with_timestamp \<Rightarrow> bool" where
  "located u [] e = False"
| "located u (w # ws) e =
     (let T = tick_count e; n = length (wheel w) in
      (u \<le> T \<and> T < u + n \<and> e \<in> set (wheel w ! (T mod n))) \<or>
      (case ws of
         [] \<Rightarrow> False
       | v # _ \<Rightarrow>
           let k = length (wheel v); d = T div n
           in u div n + 1 \<le> d \<and> d < u div n + 1 + k \<and> e \<in> set (wheel v ! (d mod k))))"

lemma splice_task_slot:
  "i < length (wheel w) \<Longrightarrow>
   set (wheel (splice_task t w) ! i) =
     (if i = tick_count t mod length (wheel w) then insert t (set (wheel w ! i)) else set (wheel w ! i))"
  by (auto simp: splice_task_def Let_def nth_list_update)

lemma fold_splice_slot:
  "i < length (wheel w) \<Longrightarrow>
   set (wheel (fold splice_task l w) ! i) =
     set (wheel w ! i) \<union> {t \<in> set l. tick_count t mod length (wheel w) = i}"
  by (induction l arbitrary: w) (auto simp: splice_task_slot)

lemma Tick_head:
  assumes "Tick (w # ws) m = Inr (out, ws', m')"
  shows "current_pos w < length (wheel w) \<and> out = wheel w ! current_pos w \<and>
    (\<exists>w' vs. ws' = w' # vs \<and> length (wheel w') = length (wheel w) \<and>
       (\<forall>i < length (wheel w). i \<noteq> current_pos w \<longrightarrow> set (wheel w ! i) \<subseteq> set (wheel w' ! i)))"
  using assms by (auto simp: Let_def bindR_eq_Inr fold_splice_slot split: if_splits)

lemma Tick_located_level0:
  assumes "pos_ok u (w # ws) (tm_pos m)" "Tick (w # ws) m = Inr (out, ws', m')"
    and "u \<le> tick_count e" "tick_count e < u + length (wheel w)"
    and "e \<in> set (wheel w ! (tick_count e mod length (wheel w)))"
  shows "if tick_count e = u then e \<in> set out else located (u + 1) ws' e"
proof -
  let ?n = "length (wheel w)"
  obtain w' vs where h: "out = wheel w ! current_pos w" "ws' = w' # vs" "length (wheel w') = ?n"
    "\<And>i. i < ?n \<Longrightarrow> i \<noteq> current_pos w \<Longrightarrow> set (wheel w ! i) \<subseteq> set (wheel w' ! i)"
    using Tick_head [OF assms(2)] by blast
  have p: "current_pos w = u mod ?n" and n: "0 < ?n" using assms(1) by auto
  show ?thesis
  proof (cases "tick_count e = u")
    case True
    then show ?thesis using assms(5) h(1) p by simp
  next
    case False
    then have "tick_count e mod ?n \<noteq> u mod ?n"
      using mod_eq_within [OF assms(3,4)] by blast
    then have "e \<in> set (wheel w' ! (tick_count e mod ?n))"
      using h(4) [of "tick_count e mod ?n"] assms(5) p n by auto
    then show ?thesis using False assms(3,4) h(2,3) by (auto simp: Let_def)
  qed
qed

lemma Tick_located_level1:
  assumes "pos_ok u (w # v # vs) (tm_pos m)" "Tick (w # v # vs) m = Inr (out, ws', m')"
    and "u div length (wheel w) + 1 \<le> tick_count e div length (wheel w)"
    and "tick_count e div length (wheel w) < u div length (wheel w) + 1 + length (wheel v)"
    and "e \<in> set (wheel v ! (tick_count e div length (wheel w) mod length (wheel v)))"
  shows "tick_count e \<noteq> u \<and> located (u + 1) ws' e"
proof -
  let ?n = "length (wheel w)" and ?k = "length (wheel v)" and ?T = "tick_count e"
  let ?d = "?T div ?n" and ?u1 = "u div ?n + 1"
  have p: "current_pos w = u mod ?n" "current_pos v = ?u1 mod ?k" and n: "0 < ?n" "0 < ?k"
    using assms(1) by auto
  have lt: "current_pos w < ?n" using p n by simp
  have ne: "?T \<noteq> u" using assms(3) by auto
  show ?thesis
  proof (cases "current_pos w + 1 = ?n")
    case False
    then have "(u + 1) div ?n = u div ?n" using wrap_step(3) [OF n(1), of u] p by simp
    moreover have "ws' = w\<lparr>wheel := (wheel w)[current_pos w := []], current_pos := current_pos w + 1\<rparr> # v # vs"
      using assms(2) False lt by (auto simp: Let_def)
    ultimately show ?thesis using assms(3-5) ne by (simp add: Let_def)
  next
    case True
    have u1: "(u + 1) div ?n = ?u1" "(u + 1) mod ?n = 0" using True p wrap_step [OF n(1), of u] by auto
    let ?w2 = "w\<lparr>wheel := (wheel w)[current_pos w := []], current_pos := 0\<rparr>"
    obtain l ws2 where t: "Tick (v # vs) m = Inr (l, ws2, m')" "ws' = fold splice_task l ?w2 # ws2"
      using assms(2) True lt by (auto simp: Let_def bindR_eq_Inr)
    obtain v' vs' where h: "l = wheel v ! current_pos v" "ws2 = v' # vs'" "length (wheel v') = ?k"
      "\<And>i. i < ?k \<Longrightarrow> i \<noteq> current_pos v \<Longrightarrow> set (wheel v ! i) \<subseteq> set (wheel v' ! i)"
      using Tick_head [OF t(1)] by blast
    show ?thesis
    proof (cases "?d = ?u1")
      case True
      then have el: "e \<in> set l" using assms(5) h(1) p by simp
      have "u + 1 = ?u1 * ?n" using u1 by (metis div_mult_mod_eq add.right_neutral)
      moreover have "?T = ?u1 * ?n + ?T mod ?n" using True by (metis div_mult_mod_eq)
      moreover have "?T mod ?n < ?n" using n by simp
      ultimately have "u + 1 \<le> ?T \<and> ?T < u + 1 + ?n" by linarith
      then show ?thesis using ne el n by (simp add: t(2) Let_def fold_splice_slot)
    next
      case False
      then have "?d mod ?k \<noteq> ?u1 mod ?k" using mod_eq_within [OF assms(3,4)] by blast
      then have "e \<in> set (wheel v' ! (?d mod ?k))" using h(4) [of "?d mod ?k"] assms(5) p n by auto
      then show ?thesis using ne False assms(3,4) u1 by (simp add: t(2) h Let_def)
    qed
  qed
qed

lemma Tick_located:
  assumes "pos_ok u ws (tm_pos m)" "Tick ws m = Inr (out, ws', m')" "located u ws e"
  shows "if tick_count e = u then e \<in> set out else located (u + 1) ws' e"
proof (cases ws)
  case (Cons w vs)
  show ?thesis
  proof (cases "u \<le> tick_count e \<and> tick_count e < u + length (wheel w) \<and>
      e \<in> set (wheel w ! (tick_count e mod length (wheel w)))")
    case True
    then show ?thesis using Tick_located_level0 [OF assms(1,2) [unfolded Cons]] by blast
  next
    case False
    then obtain v us where v: "vs = v # us"
      "u div length (wheel w) + 1 \<le> tick_count e div length (wheel w)"
      "tick_count e div length (wheel w) < u div length (wheel w) + 1 + length (wheel v)"
      "e \<in> set (wheel v ! (tick_count e div length (wheel w) mod length (wheel v)))"
      using assms(3) Cons by (auto simp: Let_def split: list.splits)
    then show ?thesis using Tick_located_level1 [OF assms(1,2) [unfolded Cons v(1)]] by simp
  qed
qed (use assms in simp)

section \<open>Scheduling\<close>

text \<open>\<open>grows ws ws'\<close>: the same wheels at the same positions, with tasks added to slots.\<close>

definition grows :: "timing_wheel_tool list \<Rightarrow> timing_wheel_tool list \<Rightarrow> bool" where
  "grows ws ws' = list_all2 (\<lambda>w w'. current_pos w' = current_pos w \<and>
     length (wheel w') = length (wheel w) \<and>
     (\<forall>i < length (wheel w). set (wheel w ! i) \<subseteq> set (wheel w' ! i))) ws ws'"

lemma grows_refl [simp]: "grows ws ws"
  by (simp add: grows_def list_all2_refl)

lemma grows_pos_ok: "grows ws ws' \<Longrightarrow> pos_ok u ws' p \<longleftrightarrow> pos_ok u ws p"
  unfolding grows_def
proof (induction arbitrary: u rule: list_all2_induct)
  case (Cons w ws w' ws')
  then have "wheel w' = [] \<longleftrightarrow> wheel w = []" by (metis length_0_conv)
  with Cons show ?case by simp
qed simp

lemma grows_sizes: "grows ws ws' \<Longrightarrow> sizes ws' = sizes ws"
  unfolding grows_def by (induction rule: list_all2_induct) auto

lemma grows_Cons:
  "grows (w # ws) vs \<Longrightarrow>
   \<exists>w' ws'. vs = w' # ws' \<and> length (wheel w') = length (wheel w) \<and> grows ws ws' \<and>
     (\<forall>i < length (wheel w). set (wheel w ! i) \<subseteq> set (wheel w' ! i))"
  by (auto simp: grows_def list_all2_Cons1)

lemma grows_located:
  assumes "grows ws ws'" "pos_ok u ws p" "located u ws e"
  shows "located u ws' e"
proof (cases ws)
  case w: (Cons w vs)
  let ?n = "length (wheel w)" and ?T = "tick_count e"
  obtain w' vs' where w': "ws' = w' # vs'" "length (wheel w') = ?n" "grows vs vs'"
    "\<forall>i < ?n. set (wheel w ! i) \<subseteq> set (wheel w' ! i)"
    using grows_Cons assms(1) w by blast
  have n: "0 < ?n" using assms(2) w by simp
  have lvl0: "e \<in> set (wheel w ! (?T mod ?n)) \<Longrightarrow> e \<in> set (wheel w' ! (?T mod ?n))"
    using w'(4) mod_less_divisor [OF n, of ?T] by blast
  show ?thesis
  proof (cases vs)
    case Nil
    then show ?thesis using assms(3) w w' lvl0 by (simp add: Let_def)
  next
    case (Cons v us)
    let ?k = "length (wheel v)"
    obtain v' us' where v': "vs' = v' # us'" "length (wheel v') = ?k"
      "\<forall>i < ?k. set (wheel v ! i) \<subseteq> set (wheel v' ! i)"
      using grows_Cons w'(3) Cons by blast
    have k: "0 < ?k" using assms(2) w Cons by simp
    have "e \<in> set (wheel v ! (?T div ?n mod ?k)) \<Longrightarrow> e \<in> set (wheel v' ! (?T div ?n mod ?k))"
      using v'(3) mod_less_divisor [OF k, of "?T div ?n"] by blast
    then show ?thesis using assms(3) lvl0 by (auto simp: w w'(1,2) v'(1,2) Cons Let_def)
  qed
qed (use assms in simp)

lemma wheel_tasks_update:
  assumes "i < length ws"
  shows "wheel_tasks (ws[i := w]) + mset (concat (wheel (ws ! i))) = wheel_tasks ws + mset (concat (wheel w))"
proof -
  have *: "wheel_tasks vs = mset (concat (map (concat \<circ> wheel) vs))" for vs
    by (induction vs) simp_all
  show ?thesis using mset_concat_update [of i "map (concat \<circ> wheel) ws" "concat (wheel w)"] assms
    by (simp add: * map_update)
qed

lemma add_slot_held:
  assumes "i < length ws" "p < length (wheel (ws ! i))"
  shows "wheel_tasks (ws[i := (ws ! i)\<lparr>wheel := (wheel (ws ! i))[p := wheel (ws ! i) ! p @ [e]]\<rparr>]) =
    add_mset e (wheel_tasks ws)"
  using wheel_tasks_update [OF assms(1), of "(ws ! i)\<lparr>wheel := (wheel (ws ! i))[p := wheel (ws ! i) ! p @ [e]]\<rparr>"]
    mset_concat_update [OF assms(2), of "wheel (ws ! i) ! p @ [e]"]
  by simp

lemma slot_append: "j < length xs \<Longrightarrow> set (xs ! j) \<subseteq> set (xs[p := xs ! p @ ys] ! j)"
  by (cases "p = j") auto

lemma add_slot_grows:
  assumes "i < length ws"
  shows "grows ws (ws[i := (ws ! i)\<lparr>wheel := (wheel (ws ! i))[p := wheel (ws ! i) ! p @ [e]]\<rparr>])"
  using assms by (auto simp: grows_def list_all2_conv_all_nth nth_list_update dest: slot_append [THEN subsetD])

text \<open>\<open>place\<close> always succeeds on wheels of the configured, positive sizes and adds just the task.\<close>

lemma place_total:
  assumes "sizes (drop ii ws) = ns" "0 \<notin> set ns" "distinct (map fst (tm_map m))"
  shows "\<exists>ws' m'. place ii ns target diff e ws m = Inr (ws', m') \<and> grows ws ws' \<and>
    tm_pos m' = tm_pos m \<and> distinct (map fst (tm_map m')) \<and> held ws' m' = add_mset e (held ws m)"
  using assms
proof (induction ns arbitrary: ii target diff)
  case Nil
  then show ?case using AList_update_mset [OF Nil(3)]
    by (simp add: held_def AList.distinct_update)
next
  case (Cons n ns)
  have ii: "ii < length ws" using Cons.prems(1) by (cases "ii < length ws") auto
  then have d: "length (wheel (ws ! ii)) = n" "sizes (drop (Suc ii) ws) = ns"
    using Cons.prems(1) by (auto simp: Cons_nth_drop_Suc [symmetric])
  show ?case
  proof (cases "diff < n")
    case True
    then have "target mod n < length (wheel (ws ! ii))" using d Cons.prems(2) by simp
    then show ?thesis using True ii Cons.prems(3)
      by (simp add: Let_def add_slot_grows add_slot_held held_def)
  next
    case False
    then show ?thesis using Cons.IH [of "Suc ii"] Cons.prems d by simp
  qed
qed

lemma div_add_le: "0 < n \<Longrightarrow> (a + b) div n \<le> a div n + b div n + 1" for a b n :: nat
proof -
  assume n: "0 < n"
  have "a mod n + b mod n < 2 * n" using mod_less_divisor [OF n, of a] mod_less_divisor [OF n, of b] by linarith
  then have "(a mod n + b mod n) div n < 2" by (simp add: less_mult_imp_div_less)
  then show ?thesis by (subst div_add1_eq) linarith
qed

definition reach2 :: "nat list \<Rightarrow> nat" where
  "reach2 ns = (case ns of [] \<Rightarrow> 0 | [n] \<Rightarrow> n | n # k # _ \<Rightarrow> n * k)"

text \<open>Within the reach of the first two wheels \<open>place\<close> puts the task where it is located.\<close>

lemma place_located:
  assumes "sizes ws = ns" "0 \<notin> set ns" "u \<le> tick_count e" "tick_count e - u < reach2 ns"
    and "place 0 ns (tick_count e) (tick_count e - u) e ws m = Inr (ws', m')"
  shows "located u ws' e"
proof (cases ws)
  case Nil
  then show ?thesis using assms by (simp add: reach2_def)
next
  case (Cons w vs)
  let ?n = "length (wheel w)" and ?T = "tick_count e"
  have n: "0 < ?n" using assms(1,2) Cons by auto
  show ?thesis
  proof (cases "?T - u < ?n")
    case True
    moreover from True have "?T < u + ?n" using assms(3) by linarith
    ultimately show ?thesis using assms Cons n by (auto simp: Let_def)
  next
    case False
    then obtain v us where v: "vs = v # us" using assms(1,4) Cons
      by (cases vs) (auto simp: reach2_def)
    let ?k = "length (wheel v)"
    have k: "0 < ?k" and lt: "(?T - u) div ?n < ?k"
      using assms(1,2,4) Cons v by (auto simp: reach2_def less_mult_imp_div_less mult.commute)
    have "(u + ?n) div ?n \<le> ?T div ?n" using False assms(3) by (intro div_le_mono) linarith
    then have lo: "u div ?n + 1 \<le> ?T div ?n" using n by (simp add: div_add_self2)
    have "?T div ?n \<le> u div ?n + (?T - u) div ?n + 1"
      using div_add_le [OF n, of u "?T - u"] assms(3) by simp
    then have hi: "?T div ?n < u div ?n + 1 + ?k" using lt by linarith
    have "ws' = w # v\<lparr>wheel := (wheel v)[?T div ?n mod ?k := wheel v ! (?T div ?n mod ?k) @ [e]]\<rparr> # us"
      using assms(1,5) Cons v False lt n k by (auto simp: Let_def)
    then show ?thesis using lo hi k by (simp add: Let_def)
  qed
qed

section \<open>Runs\<close>

text \<open>
  The invariant of a running executor: the wheels have the configured sizes and the
  positions of \<open>u\<close> ticks, where \<open>u\<close> is one more than the count while a tick's tasks are
  being performed.
\<close>

definition tw_inv :: "nat \<Rightarrow> time_wheel_executor \<Rightarrow> bool" where
  "tw_inv u s \<longleftrightarrow>
     pos_ok u (tw_timing_wheel_vec s) (tm_pos (tw_timing_task_map s)) \<and>
     sizes (tw_timing_wheel_vec s) = wheel_size (tw_options s) \<and>
     wheel_size (tw_options s) \<noteq> [] \<and>
     0 \<notin> set (wheel_size (tw_options s)) \<and>
     distinct (map fst (tm_map (tw_timing_task_map s))) \<and>
     0 < tw_dt_count s"

definition run_ticks :: "tw_run \<Rightarrow> nat" where
  "run_ticks r = tw_current_tick_count (run_exec r) + (if run_pending r = None then 0 else 1)"

definition run_inv :: "tw_run \<Rightarrow> bool" where
  "run_inv r \<longleftrightarrow> tw_inv (run_ticks r) (run_exec r)"

definition exec_held :: "time_wheel_executor \<Rightarrow> task_with_timestamp multiset" where
  "exec_held s = held (tw_timing_wheel_vec s) (tw_timing_task_map s)"

lemma Execute_frame [simp]:
  "tw_timing_wheel_vec (Execute t s) = tw_timing_wheel_vec s"
  "tw_timing_task_map (Execute t s) = tw_timing_task_map s"
  "tw_options (Execute t s) = tw_options s"
  "tw_dt_count (Execute t s) = tw_dt_count s"
  "tw_current_tick_count (Execute t s) = tw_current_tick_count s"
  "tw_start_time_point (Execute t s) = tw_start_time_point s"
  by (simp_all add: Execute_def)

lemma Execute_inv [simp, inv_intros]: "tw_inv u (Execute t s) \<longleftrightarrow> tw_inv u s"
  by (simp add: tw_inv_def)

text \<open>
  \<open>ExecuteAt\<close> either runs the task at once or adds one entry with the tick of its time point;
  it never fails on a well-formed executor.
\<close>

lemma ExecuteAt_cases:
  assumes "tw_inv u s"
  obtains "ExecuteAt tp t s = Inr (Execute t s)"
    "wrap64 (int tp - int (tw_start_time_point s)) < wrap64 (int (tw_current_tick_count s * tw_dt_count s))"
  | ws m where
    "ExecuteAt tp t s = Inr (s\<lparr>tw_timing_wheel_vec := ws, tw_timing_task_map := m\<rparr>)"
    "\<not> wrap64 (int tp - int (tw_start_time_point s)) < wrap64 (int (tw_current_tick_count s * tw_dt_count s))"
    "place 0 (wheel_size (tw_options s)) (wrap64 (int tp - int (tw_start_time_point s)) div tw_dt_count s)
       (wrap64 (int (wrap64 (int tp - int (tw_start_time_point s)) div tw_dt_count s)
          - int (tw_current_tick_count s)))
       \<lparr>tick_count = wrap64 (int tp - int (tw_start_time_point s)) div tw_dt_count s, task = t\<rparr>
       (tw_timing_wheel_vec s) (tw_timing_task_map s) = Inr (ws, m)"
    "grows (tw_timing_wheel_vec s) ws" "tm_pos m = tm_pos (tw_timing_task_map s)"
    "distinct (map fst (tm_map m))"
    "held ws m = add_mset \<lparr>tick_count = wrap64 (int tp - int (tw_start_time_point s)) div tw_dt_count s, task = t\<rparr>
       (exec_held s)"
proof (cases "wrap64 (int tp - int (tw_start_time_point s)) < wrap64 (int (tw_current_tick_count s * tw_dt_count s))")
  case True
  then show ?thesis using that(1) by (simp add: ExecuteAt_def Let_def)
next
  case False
  let ?v = "wrap64 (int tp - int (tw_start_time_point s))"
  let ?e = "\<lparr>tick_count = ?v div tw_dt_count s, task = t\<rparr>"
  obtain ws m where pl: "place 0 (wheel_size (tw_options s)) (?v div tw_dt_count s)
       (wrap64 (int (?v div tw_dt_count s) - int (tw_current_tick_count s))) ?e
       (tw_timing_wheel_vec s) (tw_timing_task_map s) = Inr (ws, m)"
    "grows (tw_timing_wheel_vec s) ws" "tm_pos m = tm_pos (tw_timing_task_map s)"
    "distinct (map fst (tm_map m))" "held ws m = add_mset ?e (exec_held s)"
    using place_total [of 0 "tw_timing_wheel_vec s" "wheel_size (tw_options s)" "tw_timing_task_map s"] assms
    by (fastforce simp: tw_inv_def exec_held_def)
  moreover have "ExecuteAt tp t s = Inr (s\<lparr>tw_timing_wheel_vec := ws, tw_timing_task_map := m\<rparr>)"
    using False pl(1) assms by (simp add: ExecuteAt_def Let_def tw_inv_def)
  ultimately show ?thesis using that(2) False by blast
qed

lemma ExecuteAt_inv [inv_intros]:
  assumes "tw_inv u s" "ExecuteAt tp t s = Inr s'"
  shows "tw_inv u s' \<and> tw_current_tick_count s' = tw_current_tick_count s \<and>
    (\<forall>e. located u (tw_timing_wheel_vec s) e \<longrightarrow> located u (tw_timing_wheel_vec s') e) \<and>
    (exec_held s' = exec_held s \<or> (\<exists>k. exec_held s' = add_mset \<lparr>tick_count = k, task = t\<rparr> (exec_held s)))"
proof (cases rule: ExecuteAt_cases [OF assms(1), of tp t])
  case 1
  then show ?thesis using assms by (simp add: exec_held_def)
next
  case (2 ws m)
  then have s': "s' = s\<lparr>tw_timing_wheel_vec := ws, tw_timing_task_map := m\<rparr>" using assms(2) by simp
  have "tw_inv u s'"
    using assms(1) 2 by (simp add: s' tw_inv_def grows_pos_ok grows_sizes)
  moreover have "\<forall>e. located u (tw_timing_wheel_vec s) e \<longrightarrow> located u (tw_timing_wheel_vec s') e"
    using grows_located [OF 2(4)] assms(1) by (auto simp: s' tw_inv_def)
  ultimately show ?thesis using 2(7) by (auto simp: s' exec_held_def)
qed

lemma loop_take_inv [inv_intros]:
  assumes "tw_inv u s"
  shows "\<exists>l s'. loop_take s = Inr (l, s') \<and> tw_inv (u + 1) s' \<and>
    tw_current_tick_count s' = tw_current_tick_count s \<and>
    exec_held s = mset l + exec_held s' \<and>
    (\<forall>e. located u (tw_timing_wheel_vec s) e \<longrightarrow>
       (if tick_count e = u then e \<in> set l else located (u + 1) (tw_timing_wheel_vec s') e))"
proof -
  let ?ws = "tw_timing_wheel_vec s" and ?m = "tw_timing_task_map s"
  have p: "pos_ok u ?ws (tm_pos ?m)" and ne: "?ws \<noteq> []" and d: "distinct (map fst (tm_map ?m))"
    using assms by (auto simp: tw_inv_def)
  obtain l ws' m' where t: "Tick ?ws ?m = Inr (l, ws', m')" "pos_ok (u + 1) ws' (tm_pos m')"
    "sizes ws' = sizes ?ws" using Tick_pos_ok [OF p ne] by blast
  have c: "held ?ws ?m = mset l + held ws' m'" "distinct (map fst (tm_map m'))"
    using Tick_conserves [OF t(1) d] by auto
  let ?s' = "s\<lparr>tw_timing_wheel_vec := ws', tw_timing_task_map := m'\<rparr>"
  have "tw_inv (u + 1) ?s'" using assms t c by (simp add: tw_inv_def)
  moreover have "loop_take s = Inr (l, ?s')" by (simp add: loop_take_def t(1))
  moreover have "\<forall>e. located u ?ws e \<longrightarrow>
      (if tick_count e = u then e \<in> set l else located (u + 1) (tw_timing_wheel_vec ?s') e)"
    by (intro allI impI, drule Tick_located [OF p t(1)]) (simp split: if_splits)
  ultimately show ?thesis using c(1)
    by (intro exI [of _ l] exI [of _ ?s'] conjI) (simp_all add: exec_held_def)
qed

definition tagged :: "task_id \<Rightarrow> task_with_timestamp multiset \<Rightarrow> nat" where
  "tagged t M = size (filter_mset (\<lambda>e. task e = t) M)"

lemma tagged_simps [simp]:
  "tagged t {#} = 0"
  "tagged t (A + B) = tagged t A + tagged t B"
  "tagged t (add_mset e A) = (if task e = t then 1 else 0) + tagged t A"
  by (simp_all add: tagged_def)

definition occurrences :: "task_id \<Rightarrow> tw_run \<Rightarrow> nat" where
  "occurrences t r = tagged t (mset (map snd (run_log r))) + tagged t (exec_held (run_exec r))"

definition log_inv :: "tw_run \<Rightarrow> bool" where
  "log_inv r \<longleftrightarrow> (\<forall>(k, e) \<in> set (run_log r). k < run_ticks r)"

definition tracked :: "task_with_timestamp \<Rightarrow> tw_run \<Rightarrow> bool" where
  "tracked e r \<longleftrightarrow>
     (if tick_count e < run_ticks r then (tick_count e, e) \<in> set (run_log r)
      else located (run_ticks r) (tw_timing_wheel_vec (run_exec r)) e)"

lemmas run_defs = run_inv_def log_inv_def tracked_def occurrences_def run_ticks_def

lemma tw_step_ExecuteAt:
  assumes "run_inv r" "log_inv r" "t \<noteq> t'"
  shows "\<exists>r'. tw_step (OpExecuteAt tp t') r = Inr r' \<and> run_inv r' \<and> log_inv r' \<and> (tracked e r \<longrightarrow> tracked e r') \<and>
    occurrences t r' = occurrences t r"
proof -
  have inv: "tw_inv (run_ticks r) (run_exec r)" using assms(1) by (simp add: run_inv_def)
  then obtain s' where s': "ExecuteAt tp t' (run_exec r) = Inr s'"
    by (cases rule: ExecuteAt_cases [OF inv, of tp t']) auto
  note i = ExecuteAt_inv [OF inv s']
  have "tagged t (exec_held s') = tagged t (exec_held (run_exec r))" using i assms(3) by auto
  moreover have "run_ticks (r\<lparr>run_exec := s'\<rparr>) = run_ticks r" using i by (simp add: run_ticks_def)
  ultimately show ?thesis using s' i assms(2) by (auto simp: run_inv_def log_inv_def tracked_def occurrences_def)
qed

lemma loop_immediate_frame:
  assumes "loop_immediate s = (now, s')"
  shows "tw_timing_wheel_vec s' = tw_timing_wheel_vec s" "exec_held s' = exec_held s"
    "tw_inv u s' = tw_inv u s" "tw_current_tick_count s' = tw_current_tick_count s"
  using assms by (auto simp: loop_immediate_def exec_held_def tw_inv_def split: if_splits)

lemma loop_finish_frame [simp]:
  "tw_timing_wheel_vec (loop_finish s) = tw_timing_wheel_vec s" "exec_held (loop_finish s) = exec_held s"
  "tw_inv u (loop_finish s) = tw_inv u s"
  "tw_current_tick_count (loop_finish s) = tw_current_tick_count s + 1"
  by (auto simp: loop_finish_def exec_held_def tw_inv_def)

lemma loop_perform_frame:
  assumes "loop_perform l s = (now, s')"
  shows "tw_timing_wheel_vec s' = tw_timing_wheel_vec s" "exec_held s' = exec_held s"
    "tw_inv u s' = tw_inv u s" "tw_current_tick_count s' = tw_current_tick_count s"
  using assms by (auto simp: loop_perform_def exec_held_def tw_inv_def split: if_splits)

lemma tw_step_Take:
  assumes "run_inv r" "log_inv r"
  shows "\<exists>r'. tw_step OpTake r = Inr r' \<and> run_inv r' \<and> log_inv r' \<and> (tracked e r \<longrightarrow> tracked e r') \<and>
    occurrences t r' = occurrences t r"
proof (cases "run_pending r")
  case None
  obtain now s where im: "loop_immediate (run_exec r) = (now, s)" by fastforce
  note fr = loop_immediate_frame [OF im]
  let ?c = "tw_current_tick_count (run_exec r)"
  have "tw_inv ?c s" using assms(1) None fr by (simp add: run_inv_def run_ticks_def)
  then obtain l s' where t: "loop_take s = Inr (l, s')" "tw_inv (?c + 1) s'"
    "tw_current_tick_count s' = ?c" "exec_held s = mset l + exec_held s'"
    "\<And>e. located ?c (tw_timing_wheel_vec s) e \<Longrightarrow>
       (if tick_count e = ?c then e \<in> set l else located (?c + 1) (tw_timing_wheel_vec s') e)"
    using loop_take_inv [of ?c s] fr by auto
  have loc: "tracked e r \<Longrightarrow> tick_count e = ?c \<Longrightarrow> e \<in> set l"
    "tracked e r \<Longrightarrow> ?c < tick_count e \<Longrightarrow> located (Suc ?c) (tw_timing_wheel_vec s') e"
    "tracked e r \<Longrightarrow> tick_count e < ?c \<Longrightarrow> (tick_count e, e) \<in> set (run_log r)"
    using None fr t(5) [of e] by (auto simp: tracked_def run_ticks_def)
  have log: "\<forall>(k, e) \<in> set (run_log r). k < Suc ?c" using assms(2) None by (fastforce simp: log_inv_def run_ticks_def)
  show ?thesis
  proof (cases "l = []")
    case True
    let ?r' = "r\<lparr>run_exec := loop_finish s', run_now := run_now r @ now\<rparr>"
    have "tw_step OpTake r = Inr ?r'" using None im t(1) True by simp
    moreover have "tracked e r \<Longrightarrow> tracked e ?r'" using loc True t(3) None
      by (cases "tick_count e" ?c rule: linorder_cases) (auto simp: tracked_def run_ticks_def)
    ultimately show ?thesis using t None True log fr by (simp add: run_inv_def log_inv_def occurrences_def run_ticks_def)
  next
    case False
    let ?r' = "r\<lparr>run_exec := s', run_pending := Some l, run_now := run_now r @ now,
      run_log := run_log r @ map (Pair ?c) l\<rparr>"
    have "tw_step OpTake r = Inr ?r'" using None im t(1,3) False by simp
    moreover have "tracked e r \<Longrightarrow> tracked e ?r'" using loc t(3)
      by (cases "tick_count e" ?c rule: linorder_cases) (auto simp: tracked_def run_ticks_def)
    moreover have "occurrences t ?r' = occurrences t r"
      using t(4) fr by (simp add: occurrences_def comp_def)
    moreover have "run_inv ?r'" "log_inv ?r'" using t(2,3) log by (auto simp: run_inv_def log_inv_def run_ticks_def)
    ultimately show ?thesis by blast
  qed
qed (use assms in simp)

lemma tw_step_Finish:
  assumes "run_inv r" "log_inv r"
  shows "\<exists>r'. tw_step OpFinish r = Inr r' \<and> run_inv r' \<and> log_inv r' \<and> (tracked e r \<longrightarrow> tracked e r') \<and>
    occurrences t r' = occurrences t r"
proof (cases "run_pending r")
  case (Some l)
  obtain now s where pf: "loop_perform l (run_exec r) = (now, s)" by fastforce
  show ?thesis using assms Some pf loop_perform_frame [OF pf]
    by (auto simp: run_defs split: if_splits)
qed (use assms in simp)

lemma tw_steps_tracked:
  assumes "run_inv r" "log_inv r" "\<And>tp. OpExecuteAt tp t \<notin> set ops"
  shows "\<exists>r'. tw_steps ops r = Inr r' \<and> run_inv r' \<and> log_inv r' \<and> (tracked e r \<longrightarrow> tracked e r') \<and>
    occurrences t r' = occurrences t r"
  using assms
proof (induction ops arbitrary: r)
  case (Cons op ops)
  have "\<exists>r'. tw_step op r = Inr r' \<and> run_inv r' \<and> log_inv r' \<and> (tracked e r \<longrightarrow> tracked e r') \<and> occurrences t r' = occurrences t r"
  proof (cases op)
    case (OpExecuteAt tp t')
    then have "t \<noteq> t'" using Cons.prems(3) [of tp] by auto
    then show ?thesis using tw_step_ExecuteAt [OF Cons.prems(1,2)] OpExecuteAt by blast
  next
    case (OpExecute t')
    then show ?thesis using Cons.prems(1,2) by (auto simp: run_defs exec_held_def split: if_splits)
  next
    case OpTake
    then show ?thesis using tw_step_Take [OF Cons.prems(1,2)] by blast
  next
    case OpFinish
    then show ?thesis using tw_step_Finish [OF Cons.prems(1,2)] by blast
  qed
  then obtain r' where r': "tw_step op r = Inr r'" "run_inv r'" "log_inv r'" "tracked e r \<longrightarrow> tracked e r'"
    "occurrences t r' = occurrences t r" by blast
  then show ?case using Cons.IH [OF r'(2,3)] Cons.prems(3) by (auto simp: bindR_eq_Inr)
qed simp

lemma located_held:
  assumes "pos_ok u ws p" "located u ws e"
  shows "e \<in># wheel_tasks ws"
proof -
  have slot: "e \<in> set (wheel w ! (k mod length (wheel w))) \<Longrightarrow> wheel w \<noteq> [] \<Longrightarrow> e \<in> set (concat (wheel w))"
    for w k by (metis UnionI imageI length_greater_0_conv mod_less_divisor nth_mem set_concat)
  show ?thesis using assms
    by (cases ws) (auto simp: Let_def dest: slot split: list.splits)
qed

lemma tagged_pos: "e \<in># M \<Longrightarrow> 0 < tagged (task e) M"
  by (auto simp: tagged_def nonempty_has_size [symmetric] filter_mset_eq_conv)

definition hits :: "task_id \<Rightarrow> tw_run \<Rightarrow> (nat \<times> task_with_timestamp) list" where
  "hits t r = filter (\<lambda>(k, e). task e = t) (run_log r)"

lemma hits_tagged: "length (hits t r) = tagged t (mset (map snd (run_log r)))"
proof -
  have "length (filter (\<lambda>(k, e). task e = t) l) = tagged t (mset (map snd l))" for l :: "(nat \<times> task_with_timestamp) list"
    by (induction l) auto
  then show ?thesis by (simp add: hits_def)
qed

lemma tracked_hits:
  assumes "run_inv r" "log_inv r" "tracked e r" "occurrences (task e) r = 1"
  shows "map fst (hits (task e) r) = (if tick_count e < run_ticks r then [tick_count e] else [])"
proof (cases "tick_count e < run_ticks r")
  case True
  then have "(tick_count e, e) \<in> set (hits (task e) r)" using assms(3) by (simp add: tracked_def hits_def)
  moreover have "length (hits (task e) r) \<le> 1" using assms(4) by (simp add: hits_tagged occurrences_def)
  ultimately show ?thesis using True by (cases "hits (task e) r") auto
next
  case False
  let ?s = "run_exec r"
  have "e \<in># wheel_tasks (tw_timing_wheel_vec ?s)"
    using False assms(1,3) located_held by (auto simp: tracked_def run_inv_def tw_inv_def)
  then have "0 < tagged (task e) (exec_held ?s)" by (auto simp: exec_held_def held_def dest: tagged_pos)
  then have "length (hits (task e) r) = 0"
    using assms(4) unfolding hits_tagged occurrences_def by linarith
  then show ?thesis using False by simp
qed

definition idle_run :: "time_wheel_executor \<Rightarrow> tw_run" where
  "idle_run s = \<lparr>run_exec = s, run_pending = None, run_log = [], run_now = []\<rparr>"

lemma wrap64_id: "0 \<le> x \<Longrightarrow> x < 2 ^ 64 \<Longrightarrow> wrap64 x = nat x"
  by (simp add: wrap64_def)

text \<open>
  C21. A task scheduled between two ticks (the thread is not handing out the tasks of a tick; one
  scheduled meanwhile may wait a turn), for a time not
  before the start and at a tick \<open>T\<close> not before the current one and within the reach of the first two
  wheels, is taken out exactly once and exactly at tick \<open>T\<close>, whatever else is scheduled afterwards
  and however those calls interleave with the timer thread; the timer loop never fails.
\<close>

theorem ExecuteAt_fires_on_time:
  assumes "tw_inv (tw_current_tick_count s) s"
    and "tw_start_time_point s \<le> tp" "tp < 2 ^ 64"
    and "T = (tp - tw_start_time_point s) div tw_dt_count s"
    and "tw_current_tick_count s \<le> T" "T - tw_current_tick_count s < reach2 (wheel_size (tw_options s))"
    and "\<forall>e \<in># exec_held s. task e \<noteq> t" "\<forall>tp'. OpExecuteAt tp' t \<notin> set ops"
  shows "\<exists>s1 r. ExecuteAt tp t s = Inr s1 \<and> tw_steps ops (idle_run s1) = Inr r \<and>
    map fst (hits t r) = (if T < run_ticks r then [T] else [])"
proof -
  let ?c = "tw_current_tick_count s" and ?dt = "tw_dt_count s"
  let ?e = "\<lparr>tick_count = T, task = t\<rparr>"
  have v: "wrap64 (int tp - int (tw_start_time_point s)) = tp - tw_start_time_point s"
    using assms(2,3) by (subst wrap64_id) auto
  have "?c * ?dt \<le> T * ?dt" using assms(5) by simp
  also have "\<dots> \<le> tp - tw_start_time_point s" by (simp add: assms(4))
  finally have le: "?c * ?dt \<le> tp - tw_start_time_point s" .
  then have late: "\<not> tp - tw_start_time_point s < wrap64 (int (?c * ?dt))"
    using assms(3) by (subst wrap64_id) (auto simp del: of_nat_mult)
  have "T \<le> tp - tw_start_time_point s" unfolding assms(4) by (rule div_le_dividend)
  then have d: "wrap64 (int T - int ?c) = T - ?c"
    using assms(3,5) by (subst wrap64_id) auto
  obtain s1 where s1: "ExecuteAt tp t s = Inr s1" "tw_inv ?c s1" "tw_current_tick_count s1 = ?c"
    "located ?c (tw_timing_wheel_vec s1) ?e" "exec_held s1 = add_mset ?e (exec_held s)"
  proof (cases rule: ExecuteAt_cases [OF assms(1), of tp t])
    case 1
    then show ?thesis using late v by simp
  next
    case (2 ws m)
    have "located ?c ws ?e"
      using 2(3) assms(1,5,6) by (intro place_located) (auto simp: v assms(4) [symmetric] d tw_inv_def)
    then show ?thesis using that [OF 2(1)] ExecuteAt_inv [OF assms(1) 2(1)] 2(7)
      by (simp add: exec_held_def v assms(4))
  qed
  have "tagged t (exec_held s) = 0" using assms(7) by (auto simp: tagged_def filter_mset_eq_conv)
  then have "occurrences t (idle_run s1) = 1" using s1(5) by (simp add: occurrences_def idle_run_def)
  moreover have "run_inv (idle_run s1)" "log_inv (idle_run s1)" "tracked ?e (idle_run s1)"
    using s1 assms(5) by (simp_all add: idle_run_def run_defs)
  ultimately obtain r where "tw_steps ops (idle_run s1) = Inr r" "run_inv r" "log_inv r" "tracked ?e r"
    "occurrences t r = 1" using tw_steps_tracked [where r = "idle_run s1" and e = ?e and t = t and ops = ops] assms(8) by auto
  then show ?thesis using s1(1) tracked_hits [of r ?e] by auto
qed

section \<open>Initialisation and life cycle\<close>

definition new_time_wheel_executor :: "(string \<Rightarrow> executor_ref option) option \<Rightarrow> time_wheel_executor" where
  "new_time_wheel_executor f =
     \<lparr>tw_name = [], tw_options = default_options, tw_state = kPreInit, tw_get_executor_func = f,
      tw_bind_executor_ref = None, tw_thread_safe = True, tw_dt_count = 0, tw_start_time_point = 0,
      tw_start_flag = False, tw_current_tick_count = 0, tw_timing_wheel_vec = [],
      tw_timing_task_map = \<lparr>tm_pos = 0, tm_map = []\<rparr>, tw_imd_queue = [], tw_timer_thread = False,
      tw_bound_calls = []\<rparr>"

text \<open>
  The wheel sizes for which the start positions are right: a non-empty first wheel, and at
  least two slots in every further wheel, whose position starts at 1.
\<close>

definition good_sizes :: "nat list \<Rightarrow> bool" where
  "good_sizes ns \<longleftrightarrow> ns \<noteq> [] \<and> 0 < hd ns \<and> (\<forall>n \<in> set (tl ns). 2 \<le> n)"

lemma make_wheels_sizes [simp]: "sizes (make_wheels ii sc ns) = ns"
  by (induction ii sc ns rule: make_wheels.induct) simp_all

lemma make_wheels_pos_ok:
  "0 < ii \<Longrightarrow> \<forall>n \<in> set ns. 2 \<le> n \<Longrightarrow> pos_ok 1 (make_wheels ii sc ns) 1"
  by (induction ii sc ns rule: make_wheels.induct) auto

lemma make_wheels_pos_ok0: "good_sizes ns \<Longrightarrow> pos_ok 0 (make_wheels 0 1 ns) 1"
  by (cases ns) (auto simp: good_sizes_def make_wheels_pos_ok [of 1, simplified])

lemma setup_wheels_inv:
  assumes "tw_timing_wheel_vec s = []" "tm_map (tw_timing_task_map s) = []"
    and "good_sizes (wheel_size (tw_options s))" "0 < dt (tw_options s)"
  shows "tw_inv 0 (setup_wheels s)"
  using assms make_wheels_pos_ok0 [OF assms(3)]
  by (cases "wheel_size (tw_options s)") (auto simp: tw_inv_def setup_wheels_def good_sizes_def)

text \<open>A successful \<open>Initialize\<close> of a new executor establishes the invariant at tick 0.\<close>

lemma Initialize_inv:
  assumes "Initialize (n, node) (new_time_wheel_executor f) = (None, s)"
    and "good_sizes (wheel_size (tw_options s))" "0 < dt (tw_options s)"
  shows "tw_inv 0 s \<and> tw_current_tick_count s = 0 \<and> exec_held s = {#}"
proof -
  obtain s0 where s0: "s = setup_wheels s0" "tw_timing_wheel_vec s0 = []"
    "tm_map (tw_timing_task_map s0) = []" "tw_current_tick_count s0 = 0"
    using assms(1)
    by (auto simp: Initialize_def new_time_wheel_executor_def atomic_exchange_def Let_def
        split: option.splits if_splits)
  have "wheel_tasks (make_wheels ii sc ns) = {#}" for ii sc ns
    by (induction ii sc ns rule: make_wheels.induct) auto
  then have "exec_held s = {#}" "tw_current_tick_count s = 0"
    using s0 by (simp_all add: exec_held_def held_def setup_wheels_def)
  moreover have "tw_options s = tw_options s0" using s0(1) by (simp add: setup_wheels_def)
  ultimately show ?thesis using s0 assms(2,3) setup_wheels_inv [of s0] by simp
qed

interpretation tw: lifecycle tw_state Initialize Start Shutdown
  by unfold_locales
    (auto simp: Initialize_def Start_def Shutdown_def atomic_exchange_def setup_wheels_def Let_def
      split: option.splits if_splits prod.splits)

definition demo_executor :: "nat list \<Rightarrow> time_wheel_executor" where
  "demo_executor ns =
     snd (Initialize (''tw'', Some ((encode_options default_options)\<lparr>n_dt_us := Some 1, n_wheel_size := Some ns\<rparr>))
       (new_time_wheel_executor (Some (\<lambda>_. None))))"

definition fired :: "task_id \<Rightarrow> tw_op list \<Rightarrow> time_wheel_executor \<Rightarrow> (tw_error, nat list) result" where
  "fired t ops s = bindR (tw_steps ops (idle_run s)) (\<lambda>r. Inr (map fst (hits t r)))"

lemma demo_executor_inv: "good_sizes ns \<Longrightarrow> tw_inv 0 (demo_executor ns) \<and>
  tw_current_tick_count (demo_executor ns) = 0 \<and> exec_held (demo_executor ns) = {#} \<and>
  tw_start_time_point (demo_executor ns) = 0 \<and> tw_dt_count (demo_executor ns) = 1000 \<and>
  wheel_size (tw_options (demo_executor ns)) = ns"
proof -
  assume ns: "good_sizes ns"
  let ?n = "Some ((encode_options default_options)\<lparr>n_dt_us := Some 1, n_wheel_size := Some ns\<rparr>)"
  let ?e = "new_time_wheel_executor (Some (\<lambda>_. None))"
  have i: "Initialize (''tw'', ?n) ?e = (None, demo_executor ns)"
    and o: "tw_options (demo_executor ns) = default_options\<lparr>dt := 1000, wheel_size := ns\<rparr>"
      "tw_start_time_point (demo_executor ns) = 0" "tw_dt_count (demo_executor ns) = 1000"
    by (simp_all add: demo_executor_def Initialize_def new_time_wheel_executor_def atomic_exchange_def
        Let_def decode_options_def encode_options_def default_options_def or_keep_def setup_wheels_def)
  show ?thesis using Initialize_inv [OF i] ns o by simp
qed

theorem ExecuteAt_fires_on_time_witness:
  "\<exists>s1 r. ExecuteAt 9500 7 (demo_executor [4, 3]) = Inr s1 \<and>
    tw_steps [OpTake, OpExecuteAt 3000 8, OpTake] (idle_run s1) = Inr r \<and>
    map fst (hits 7 r) = (if 9 < run_ticks r then [9] else [])"
proof -
  have "good_sizes [4, 3]" by (simp add: good_sizes_def)
  note d = demo_executor_inv [OF this]
  show ?thesis
    using ExecuteAt_fires_on_time [of "demo_executor [4, 3]" 9500 9 7 "[OpTake, OpExecuteAt 3000 8, OpTake]"] d
    by (simp add: reach2_def)
qed

text \<open>
  Beyond the first two wheels the promise fails. A task that comes from the overflow map
  is put into the last wheel by \<open>tick_count % wheel.size()\<close>, not by its count in that wheel's
  units: with wheels of 4 and 3 slots the task due at tick 13 is taken out at tick 17.
\<close>

theorem overflow_task_fires_late:
  "fired 1 (OpExecuteAt 13000 1 # concat (replicate 20 [OpTake, OpFinish])) (demo_executor [4, 3]) = Inr [17]"
  by code_simp

text \<open>
  While the tasks of a tick are performed the count still names that tick, whose slot is
  already drained: a task scheduled then for the current time waits for a full turn of the
  first wheel.
\<close>

theorem schedule_during_tick_waits_a_turn:
  "fired 2 ([OpExecuteAt 0 1, OpTake, OpExecuteAt 0 2, OpFinish] @ concat (replicate 6 [OpTake, OpFinish]))
     (demo_executor [4, 3]) = Inr [4]"
  by code_simp

section \<open>Tasks lost in the overflow map\<close>

lemma map_borrow_below:
  assumes "map_borrow m = (l, m')" "k < tm_pos m"
  shows "map_of (tm_map m') k = map_of (tm_map m) k"
  using assms by (auto simp: map_borrow_def AList.delete_conv' split: option.splits)

lemma Tick_map_below:
  assumes "Tick ws m = Inr (out, ws', m')" "k < tm_pos m"
  shows "map_of (tm_map m') k = map_of (tm_map m) k \<and> k < tm_pos m'"
  using assms
proof (induction ws m arbitrary: out ws' m' rule: Tick.induct)
  case (2 w ws m)
  show ?case
  proof (cases "current_pos w + 1 = length (wheel w)")
    case True
    then obtain l vs where
      r: "(if ws \<noteq> [] then Tick ws m else (case map_borrow m of (l, m') \<Rightarrow> Inr (l, [], m'))) = Inr (l, vs, m')"
      using "2.prems"(1) by (auto simp: Let_def bindR_eq_Inr)
    show ?thesis
    proof (cases "ws = []")
      case True
      then have b: "map_borrow m = (l, m')" using r by (auto split: prod.splits)
      then have "tm_pos m' = tm_pos m + 1" using map_borrow_pos [of m] by simp
      then show ?thesis using map_borrow_below [OF b "2.prems"(2)] "2.prems"(2) by simp
    next
      case False
      then show ?thesis using "2.IH" [OF _ refl refl _ _ _ "2.prems"(2)] \<open>current_pos w + 1 = _\<close> r by auto
    qed
  next
    case False
    then show ?thesis using "2.prems" by (auto simp: Let_def split: if_splits)
  qed
qed simp

lemma place_map_keeps:
  "place ii ns target diff e ws m = Inr (ws', m') \<Longrightarrow>
   tm_pos m' = tm_pos m \<and> set (or_keep (map_of (tm_map m) k) []) \<subseteq> set (or_keep (map_of (tm_map m') k) [])"
  by (induction ii ns target diff e ws m rule: place.induct)
    (auto simp: Let_def AList.update_conv' or_keep_def split: if_splits)

text \<open>\<open>stranded e s\<close>: the entry sits in the map at a key the map position has passed.\<close>

definition stranded :: "task_with_timestamp \<Rightarrow> time_wheel_executor \<Rightarrow> bool" where
  "stranded e s \<longleftrightarrow>
     (\<exists>k < tm_pos (tw_timing_task_map s). e \<in> set (or_keep (map_of (tm_map (tw_timing_task_map s)) k) []))"

lemma stranded_held:
  assumes "stranded e s"
  shows "e \<in># exec_held s"
proof -
  obtain k l where "map_of (tm_map (tw_timing_task_map s)) k = Some l" "e \<in> set l"
    using assms unfolding stranded_def or_keep_def by (metis option.case_eq_if empty_iff list.set(1) option.collapse)
  then have "e \<in> set (map_tasks (tm_map (tw_timing_task_map s)))"
    by (auto dest!: map_of_SomeD intro!: bexI [of _ "(k, l)"])
  then show ?thesis by (simp add: exec_held_def held_def)
qed

lemma ExecuteAt_stranded:
  assumes "ExecuteAt tp t s = Inr s'" "stranded e s"
  shows "stranded e s'"
proof -
  have "tm_pos (tw_timing_task_map s') = tm_pos (tw_timing_task_map s) \<and>
    set (or_keep (map_of (tm_map (tw_timing_task_map s)) k) [])
      \<subseteq> set (or_keep (map_of (tm_map (tw_timing_task_map s')) k) [])" for k
    using assms(1) place_map_keeps
    by (fastforce simp: ExecuteAt_def Let_def bindR_eq_Inr split: if_splits)
  then show ?thesis using assms(2) unfolding stranded_def by fastforce
qed

lemma tw_step_stranded:
  assumes "tw_step op r = Inr r'" "stranded e (run_exec r)"
  shows "stranded e (run_exec r')"
proof (cases op)
  case (OpExecuteAt tp t)
  then show ?thesis using assms ExecuteAt_stranded by (auto simp: bindR_eq_Inr)
next
  case OpTake
  have "stranded e s' \<Longrightarrow> loop_take s' = Inr (l, s'') \<Longrightarrow> stranded e s''" for s' l s''
    by (auto simp: loop_take_def bindR_eq_Inr stranded_def dest!: Tick_map_below)
  moreover have "stranded e (snd (loop_immediate (run_exec r)))"
    using assms(2) by (simp add: loop_immediate_def stranded_def)
  moreover have "stranded e (loop_finish s) = stranded e s" for s by (simp add: loop_finish_def stranded_def)
  ultimately show ?thesis using OpTake assms
    by (auto simp: Let_def bindR_eq_Inr split: option.splits prod.splits if_splits)
next
  case OpFinish
  then show ?thesis using assms
    by (auto simp: Let_def loop_perform_def loop_finish_def stranded_def split: option.splits if_splits)
qed (use assms in \<open>auto simp: stranded_def\<close>)

lemma tw_steps_stranded:
  assumes "run_inv r" "log_inv r" "stranded e (run_exec r)" "occurrences (task e) r = 1"
    "\<And>tp. OpExecuteAt tp (task e) \<notin> set ops"
  shows "\<exists>r'. tw_steps ops r = Inr r' \<and> hits (task e) r' = []"
proof -
  obtain r' where r': "tw_steps ops r = Inr r'" "occurrences (task e) r' = 1"
    using tw_steps_tracked [OF assms(1,2,5)] assms(4) by auto
  have "stranded e (run_exec r')"
    using foldR_invariant [where P = "\<lambda>r. stranded e (run_exec r)", OF r'(1)] assms(3) tw_step_stranded by blast
  then have "0 < tagged (task e) (exec_held (run_exec r'))" by (intro tagged_pos stranded_held)
  then have "length (hits (task e) r') = 0" using r'(2) unfolding hits_tagged occurrences_def by linarith
  then show ?thesis using r'(1) by simp
qed

text \<open>
  With two wheels of \<open>n\<close> and \<open>k\<close> slots the map position runs ahead of the count during the
  last turn of the first wheel. A task scheduled in that window for a tick at least \<open>n * k\<close>
  ahead whose map key is the next one is never taken out, whatever happens afterwards.
\<close>

theorem overflow_task_lost:
  assumes "tw_inv c s" "c = tw_current_tick_count s" "wheel_size (tw_options s) = [n, k]"
    and "(c div n + 1) mod k = 0"
    and "tw_start_time_point s \<le> tp" "tp < 2 ^ 64"
    and "T = (tp - tw_start_time_point s) div tw_dt_count s"
    and "c + n * k \<le> T" "T div n div k = c div n div k + 1"
    and "\<forall>e \<in># exec_held s. task e \<noteq> t" "\<forall>tp'. OpExecuteAt tp' t \<notin> set ops"
  shows "\<exists>s1 r. ExecuteAt tp t s = Inr s1 \<and> tw_steps ops (idle_run s1) = Inr r \<and> hits t r = []"
proof -
  let ?dt = "tw_dt_count s" and ?m = "tw_timing_task_map s"
  let ?e = "\<lparr>tick_count = T, task = t\<rparr>"
  have nk: "0 < n" "0 < k" and dt: "0 < ?dt" using assms(1,3) by (auto simp: tw_inv_def)
  have v: "wrap64 (int tp - int (tw_start_time_point s)) = tp - tw_start_time_point s"
    using assms(5,6) by (subst wrap64_id) auto
  have "c * ?dt \<le> T * ?dt" using assms(8) by simp
  also have "\<dots> \<le> tp - tw_start_time_point s" by (simp add: assms(7))
  finally have "\<not> tp - tw_start_time_point s < wrap64 (int (c * ?dt))"
    using assms(6) by (subst wrap64_id) (auto simp del: of_nat_mult)
  note late = this
  have "T \<le> tp - tw_start_time_point s" unfolding assms(7) by (rule div_le_dividend)
  then have d: "wrap64 (int T - int c) = T - c" using assms(6,8) by (subst wrap64_id) auto
  have far: "\<not> T - c < n" "\<not> (T - c) div n < k"
    using assms(8) nk by (auto simp: not_less less_eq_div_iff_mult_less_eq mult.commute
        intro: order.trans [of n "n * k"])
  obtain w w' where ws: "tw_timing_wheel_vec s = [w, w']" "length (wheel w) = n" "length (wheel w') = k"
    using assms(1,3) by (auto simp: tw_inv_def map_eq_Cons_conv)
  have pos: "tm_pos ?m = (c div n + 1) div k + 1" using assms(1) ws by (simp add: tw_inv_def)
  have key: "T div n div k < tm_pos ?m"
    using assms(4,9) pos nk by (metis Suc_eq_plus1 div_Suc_dvd less_Suc_eq mod_eq_0_iff_dvd)
  show ?thesis
  proof (cases rule: ExecuteAt_cases [OF assms(1), of tp t])
    case 1
    then show ?thesis using late v assms(2) by simp
  next
    case (2 ws1 m1)
    let ?s1 = "s\<lparr>tw_timing_wheel_vec := ws1, tw_timing_task_map := m1\<rparr>"
    have m1: "m1 = ?m\<lparr>tm_map := AList.update (T div n div k)
        (or_keep (map_of (tm_map ?m) (T div n div k)) [] @ [?e]) (tm_map ?m)\<rparr>"
      using 2(3) far nk by (simp add: v assms(7) [symmetric] assms(2) [symmetric] d assms(3))
    have st: "stranded ?e ?s1"
      using key by (auto simp: stranded_def m1 AList.update_conv' or_keep_def intro!: exI [of _ "T div n div k"])
    have "tagged t (exec_held s) = 0" using assms(10) by (auto simp: tagged_def filter_mset_eq_conv)
    then have "occurrences t (idle_run ?s1) = 1"
      using 2(7) by (simp add: occurrences_def idle_run_def exec_held_def)
    moreover have "run_inv (idle_run ?s1)" "log_inv (idle_run ?s1)"
      using ExecuteAt_inv [OF assms(1) 2(1)] assms(2) by (simp_all add: idle_run_def run_defs)
    ultimately obtain r where "tw_steps ops (idle_run ?s1) = Inr r" "hits t r = []"
      using tw_steps_stranded [of "idle_run ?s1" ?e ops] st assms(11) by (auto simp: idle_run_def)
    then show ?thesis using 2(1) by blast
  qed
qed

definition ticked_executor :: "nat list \<Rightarrow> nat \<Rightarrow> time_wheel_executor" where
  "ticked_executor ns j =
     (case tw_steps (replicate j OpTake) (idle_run (demo_executor ns)) of
        Inr r \<Rightarrow> run_exec r | Inl e \<Rightarrow> demo_executor ns)"

theorem overflow_task_lost_witness:
  "\<exists>s1 r. ExecuteAt 20000 7 (ticked_executor [4, 3] 8) = Inr s1 \<and>
    tw_steps (replicate 100 OpTake) (idle_run s1) = Inr r \<and> hits 7 r = []"
proof -
  have "tw_inv 8 (ticked_executor [4, 3] 8)" by code_simp
  moreover have "tw_current_tick_count (ticked_executor [4, 3] 8) = 8" by code_simp
  moreover have "wheel_size (tw_options (ticked_executor [4, 3] 8)) = [4, 3]" by code_simp
  moreover have "tw_start_time_point (ticked_executor [4, 3] 8) = 0" by code_simp
  moreover have "tw_dt_count (ticked_executor [4, 3] 8) = 1000" by code_simp
  moreover have "exec_held (ticked_executor [4, 3] 8) = {#}" by code_simp
  ultimately show ?thesis
    using overflow_task_lost [of 8 "ticked_executor [4, 3] 8" 4 3 20000 20 7 "replicate 100 OpTake"] by simp
qed

end
