(* ===== verification/Sync.thy ===== *)
theory Sync
  imports Prelude
begin

text \<open>
  The synchronisation primitives of \<open>common/util\<close>: the dynamic latch (\<open>dynamiclatch.h\<close>), the
  blocking queue (\<open>block_queue.h\<close>) and the light signal (\<open>light_signal.h\<close>). The latch is
  lock-free, so its operations are split at their atomic accesses and any number of threads
  interleave; the queue and the signal hold their mutex for a whole operation, which is one
  step.
\<close>

unbundle bit_operations_syntax

section \<open>The dynamic latch\<close>

definition CLOSED_FLAG :: u64 where "CLOSED_FLAG = push_bit 63 1"
definition COUNT_MASK :: u64 where "COUNT_MASK = NOT CLOSED_FLAG"

definition GetCount :: "u64 \<Rightarrow> u64" where "GetCount state = state AND COUNT_MASK"
definition IsClosed :: "u64 \<Rightarrow> bool" where "IsClosed state \<longleftrightarrow> state AND CLOSED_FLAG \<noteq> 0"

text \<open>
  The program counter of a thread inside the latch. A local \<open>current_state\<close> is the word the
  thread loaded last. The flag tells a \<open>Close\<close> or \<open>Wait\<close> that is part of \<open>CloseAndWait\<close>.
  \<open>Sleeping cur\<close> is a thread blocked in \<open>state_.wait(cur)\<close>, \<open>Woken cur\<close> one that a
  \<open>notify_all\<close> has unblocked and that compares the word with \<open>cur\<close> again.
\<close>

datatype latch_pc =
    Idle
  | Adding u64 u64
  | AddDone bool
  | Closing bool u64
  | Notifying bool
  | WaitLoad bool
  | Waiting bool u64
  | Sleeping bool u64
  | Woken bool u64
  | WaitDone bool
  | Asserted

record latch =
  lt_word :: u64
  lt_pc :: "nat \<Rightarrow> latch_pc"

definition new_latch :: latch where
  "new_latch = \<lparr>lt_word = 0, lt_pc = (\<lambda>_. Idle)\<rparr>"

abbreviation goto :: "nat \<Rightarrow> latch_pc \<Rightarrow> latch \<Rightarrow> latch" where
  "goto i p s \<equiv> s\<lparr>lt_pc := (lt_pc s)(i := p)\<rparr>"

definition TryAdd_load :: "nat \<Rightarrow> u64 \<Rightarrow> latch \<Rightarrow> latch" where
  "TryAdd_load i delta s = goto i (Adding delta (lt_word s)) s"

text \<open>One turn of the loop of \<open>TryAdd\<close>; \<open>weak\<close> lets the weak exchange fail spuriously.\<close>

definition TryAdd_turn :: "nat \<Rightarrow> bool \<Rightarrow> u64 \<Rightarrow> u64 \<Rightarrow> latch \<Rightarrow> latch" where
  "TryAdd_turn i weak delta current_state s =
     (if IsClosed current_state then goto i (AddDone False) s
      else if lt_word s = current_state \<and> \<not> weak
      then goto i (AddDone True) (s\<lparr>lt_word := current_state + delta\<rparr>)
      else goto i (Adding delta (lt_word s)) s)"

definition CountDown :: "nat \<Rightarrow> u64 \<Rightarrow> latch \<Rightarrow> latch" where
  "CountDown i delta s =
     (let prev_count = GetCount (lt_word s); s = s\<lparr>lt_word := lt_word s - delta\<rparr> in
      if \<not> delta \<le> prev_count then goto i Asserted s
      else if prev_count = delta then goto i (Notifying False) s
      else goto i Idle s)"

definition Close_load :: "nat \<Rightarrow> bool \<Rightarrow> latch \<Rightarrow> latch" where
  "Close_load i and_wait s = goto i (Closing and_wait (lt_word s)) s"

definition Close_turn :: "nat \<Rightarrow> bool \<Rightarrow> bool \<Rightarrow> u64 \<Rightarrow> latch \<Rightarrow> latch" where
  "Close_turn i weak and_wait current_state s =
     (let return = (if and_wait then WaitLoad True else Idle) in
      if IsClosed current_state then goto i return s
      else
        let new_state = current_state OR CLOSED_FLAG in
        if lt_word s = current_state \<and> \<not> weak
        then goto i (if GetCount new_state = 0 then Notifying and_wait else return)
               (s\<lparr>lt_word := new_state\<rparr>)
        else goto i (Closing and_wait (lt_word s)) s)"

text \<open>\<open>notify_all\<close> unblocks every thread that sleeps on the word.\<close>

definition notify_all :: "nat \<Rightarrow> bool \<Rightarrow> latch \<Rightarrow> latch" where
  "notify_all i and_wait s =
     goto i (if and_wait then WaitLoad True else Idle)
       (s\<lparr>lt_pc := (\<lambda>j. case lt_pc s j of Sleeping f cur \<Rightarrow> Woken f cur | p \<Rightarrow> p)\<rparr>)"

definition Wait_load :: "nat \<Rightarrow> bool \<Rightarrow> latch \<Rightarrow> latch" where
  "Wait_load i f s = goto i (Waiting f (lt_word s)) s"

definition Wait_turn :: "nat \<Rightarrow> bool \<Rightarrow> u64 \<Rightarrow> latch \<Rightarrow> latch" where
  "Wait_turn i f current_state s =
     (if GetCount current_state = 0 then goto i (WaitDone f) s
      else if lt_word s = current_state then goto i (Sleeping f current_state) s
      else goto i (WaitLoad f) s)"

definition Wait_wake :: "nat \<Rightarrow> bool \<Rightarrow> u64 \<Rightarrow> latch \<Rightarrow> latch" where
  "Wait_wake i f current_state s =
     (if lt_word s = current_state then goto i (Sleeping f current_state) s
      else goto i (WaitLoad f) s)"

text \<open>
  What a thread can do next. The entry points are taken by an idle thread; a returned call
  leaves its result in the program counter until the thread goes on.
\<close>

datatype latch_act = CallTryAdd u64 | CallCountDown u64 | CallClose | CallWait | CallCloseAndWait | Go bool

fun latch_step :: "nat \<Rightarrow> latch_act \<Rightarrow> latch \<Rightarrow> latch option" where
  "latch_step i (Go weak) s =
     (case lt_pc s i of
        Adding delta cur \<Rightarrow> Some (TryAdd_turn i weak delta cur s)
      | AddDone r \<Rightarrow> Some (goto i Idle s)
      | Closing f cur \<Rightarrow> Some (Close_turn i weak f cur s)
      | Notifying f \<Rightarrow> Some (notify_all i f s)
      | WaitLoad f \<Rightarrow> Some (Wait_load i f s)
      | Waiting f cur \<Rightarrow> Some (Wait_turn i f cur s)
      | Woken f cur \<Rightarrow> Some (Wait_wake i f cur s)
      | WaitDone f \<Rightarrow> Some (goto i Idle s)
      | _ \<Rightarrow> None)"
| "latch_step i (CallTryAdd delta) s = (if lt_pc s i = Idle then Some (TryAdd_load i delta s) else None)"
| "latch_step i (CallCountDown delta) s = (if lt_pc s i = Idle then Some (CountDown i delta s) else None)"
| "latch_step i CallClose s = (if lt_pc s i = Idle then Some (Close_load i False s) else None)"
| "latch_step i CallWait s = (if lt_pc s i = Idle then Some (goto i (WaitLoad False) s) else None)"
| "latch_step i CallCloseAndWait s = (if lt_pc s i = Idle then Some (Close_load i True s) else None)"

text \<open>
  The states the latch can reach under the discipline its users keep: amounts are counted
  down only after they were added, and the count stays below \<open>2 ^ 63\<close>. \<open>latch_reach s n\<close>: the
  latch is in state \<open>s\<close> and \<open>n\<close> is the sum of the amounts added and not yet counted down.
\<close>

inductive latch_reach :: "latch \<Rightarrow> nat \<Rightarrow> bool" where
  reach_new: "latch_reach new_latch 0"
| reach_add: "latch_reach s n \<Longrightarrow> lt_pc s i = Adding delta cur \<Longrightarrow> latch_step i (Go weak) s = Some s' \<Longrightarrow>
    lt_pc s' i = AddDone True \<Longrightarrow> n + unat delta < 2 ^ 63 \<Longrightarrow> latch_reach s' (n + unat delta)"
| reach_down: "latch_reach s n \<Longrightarrow> unat delta \<le> n \<Longrightarrow> latch_step i (CallCountDown delta) s = Some s' \<Longrightarrow>
    latch_reach s' (n - unat delta)"
| reach_other: "latch_reach s n \<Longrightarrow> latch_step i act s = Some s' \<Longrightarrow>
    (\<forall>delta. act \<noteq> CallCountDown delta) \<Longrightarrow> \<not> (\<exists>delta cur. lt_pc s i = Adding delta cur \<and> lt_pc s' i = AddDone True) \<Longrightarrow>
    latch_reach s' n"

subsection \<open>The word\<close>

lemma COUNT_MASK_mask: "COUNT_MASK = mask 63"
  by (simp add: COUNT_MASK_def CLOSED_FLAG_def mask_eq_exp_minus_1 not_eq_complement)

lemma IsClosed_bit: "IsClosed w \<longleftrightarrow> bit w 63"
  unfolding IsClosed_def CLOSED_FLAG_def push_bit_of_1 and_exp_eq_0_iff_not_bit by simp

lemma unat_GetCount: "unat (GetCount w) = unat w mod 2 ^ 63"
  unfolding GetCount_def COUNT_MASK_mask take_bit_eq_mask [symmetric] unsigned_take_bit_eq
  by (rule take_bit_eq_mod)

lemma IsClosed_unat: "IsClosed w \<longleftrightarrow> 2 ^ 63 \<le> unat w"
proof -
  have "unat w < 2 ^ 64" using unsigned_less [of w] by simp
  then have "unat w div 2 ^ 63 < 2" by (intro less_mult_imp_div_less) simp
  moreover have "bit (unat w) 63 \<longleftrightarrow> bit w 63" by (simp add: bit_unsigned_iff)
  then have "IsClosed w \<longleftrightarrow> odd (unat w div 2 ^ 63)" unfolding IsClosed_bit by (metis bit_iff_odd)
  moreover have "2 ^ 63 \<le> unat w \<longleftrightarrow> 1 \<le> unat w div 2 ^ 63"
    by (simp add: div_greater_zero_iff Suc_le_eq)
  ultimately show ?thesis using less_2_cases [of "unat w div 2 ^ 63"] by auto
qed

definition word_holds :: "u64 \<Rightarrow> nat \<Rightarrow> bool" where
  "word_holds w n \<longleftrightarrow> n < 2 ^ 63 \<and> unat w = (if IsClosed w then 2 ^ 63 else 0) + n"

lemma word_holds_count: "word_holds w n \<Longrightarrow> unat (GetCount w) = n"
  by (auto simp: word_holds_def unat_GetCount)

lemma GetCount_zero: "word_holds w n \<Longrightarrow> GetCount w = 0 \<longleftrightarrow> n = 0"
  using word_holds_count [of w n] by (metis unat_0 unat_eq_zero)

lemma word_holds_add:
  assumes "word_holds w n" "\<not> IsClosed w" "n + unat d < 2 ^ 63"
  shows "word_holds (w + d) (n + unat d) \<and> \<not> IsClosed (w + d)"
proof -
  have "unat (w + d) = n + unat d"
    using assms by (subst unat_word_ariths) (simp add: word_holds_def)
  then show ?thesis using assms(3) by (simp add: word_holds_def IsClosed_unat)
qed

lemma word_holds_sub:
  assumes "word_holds w n" "unat d \<le> n"
  shows "word_holds (w - d) (n - unat d) \<and> (IsClosed (w - d) \<longleftrightarrow> IsClosed w)"
proof -
  have "d \<le> w" using assms by (simp add: word_le_nat_alt word_holds_def)
  then have "unat (w - d) = unat w - unat d" by (simp add: unat_sub)
  then show ?thesis using assms
    by (cases "2 ^ 63 \<le> unat w") (auto simp: word_holds_def IsClosed_unat)
qed

lemma word_holds_close:
  assumes "word_holds w n" "\<not> IsClosed w"
  shows "word_holds (w OR CLOSED_FLAG) n \<and> IsClosed (w OR CLOSED_FLAG)"
proof -
  have "w AND CLOSED_FLAG = 0" using assms(2) by (simp add: IsClosed_def)
  then have "w OR CLOSED_FLAG = w + CLOSED_FLAG" by (simp add: disjunctive_add_eq_or)
  moreover have "unat CLOSED_FLAG = 2 ^ 63" by (simp add: CLOSED_FLAG_def)
  ultimately have "unat (w OR CLOSED_FLAG) = n + 2 ^ 63"
    using assms unat_word_ariths(1) [of w CLOSED_FLAG] by (simp add: word_holds_def)
  then show ?thesis using assms by (simp add: word_holds_def IsClosed_unat)
qed

subsection \<open>The invariant\<close>

fun after_close :: "latch_pc \<Rightarrow> bool" where
  "after_close (Notifying f) = f"
| "after_close (WaitLoad f) = f"
| "after_close (Waiting f cur) = f"
| "after_close (Sleeping f cur) = f"
| "after_close (Woken f cur) = f"
| "after_close (WaitDone f) = f"
| "after_close _ = False"

text \<open>
  What holds of one thread's program counter \<open>p\<close> when the word is \<open>w\<close> and \<open>notifier\<close> tells
  whether some thread is about to notify.
\<close>

definition pc_ok :: "u64 \<Rightarrow> bool \<Rightarrow> latch_pc \<Rightarrow> bool" where
  "pc_ok w notifier p \<longleftrightarrow>
     (after_close p \<longrightarrow> IsClosed w) \<and>
     (case p of
        Sleeping f cur \<Rightarrow> GetCount cur \<noteq> 0 \<and> (GetCount w \<noteq> 0 \<or> notifier)
      | Woken f cur \<Rightarrow> GetCount cur \<noteq> 0
      | Waiting f cur \<Rightarrow> f \<longrightarrow> IsClosed cur \<and> GetCount w \<le> GetCount cur
      | WaitDone f \<Rightarrow> f \<longrightarrow> GetCount w = 0
      | Closing f cur \<Rightarrow> IsClosed cur \<longrightarrow> IsClosed w
      | Adding delta cur \<Rightarrow> IsClosed cur \<longrightarrow> IsClosed w
      | AddDone r \<Rightarrow> r \<or> IsClosed w
      | Asserted \<Rightarrow> False
      | _ \<Rightarrow> True)"

definition has_notifier :: "latch \<Rightarrow> bool" where
  "has_notifier s \<longleftrightarrow> (\<exists>j f. lt_pc s j = Notifying f)"

definition latch_inv :: "latch \<Rightarrow> nat \<Rightarrow> bool" where
  "latch_inv s n \<longleftrightarrow> word_holds (lt_word s) n \<and> (\<forall>i. pc_ok (lt_word s) (has_notifier s) (lt_pc s i))"

lemma latch_inv_new: "latch_inv new_latch 0"
  by (simp add: latch_inv_def new_latch_def word_holds_def IsClosed_unat pc_ok_def)

text \<open>A step that leaves the word alone and moves one thread that is no notifier.\<close>

lemma latch_inv_goto:
  assumes "latch_inv s n" "\<forall>f. lt_pc s i \<noteq> Notifying f"
    "pc_ok (lt_word s) (has_notifier s) p"
  shows "latch_inv (goto i p s) n"
proof -
  have "has_notifier s \<Longrightarrow> has_notifier (goto i p s)"
    using assms(2) by (auto simp: has_notifier_def)
  then have "pc_ok (lt_word s) (has_notifier s) q \<Longrightarrow> pc_ok (lt_word s) (has_notifier (goto i p s)) q" for q
    by (auto simp: pc_ok_def split: latch_pc.splits)
  then show ?thesis using assms by (auto simp: latch_inv_def)
qed

text \<open>A step that changes the word: the other threads keep their condition when the new word
  stays closed, its count does not grow once it is closed, and it reaches zero only with a
  notifier.\<close>

lemma latch_inv_word:
  assumes "latch_inv s n" "\<forall>f. lt_pc s i \<noteq> Notifying f" "word_holds w n'"
    and "IsClosed (lt_word s) \<Longrightarrow> IsClosed w \<and> n' \<le> n"
    and "n' = 0 \<Longrightarrow> n = 0 \<or> (\<exists>f. p = Notifying f)"
    and "pc_ok w (has_notifier (goto i p (s\<lparr>lt_word := w\<rparr>))) p"
  shows "latch_inv (goto i p (s\<lparr>lt_word := w\<rparr>)) n'"
proof -
  let ?s' = "goto i p (s\<lparr>lt_word := w\<rparr>)"
  have c: "GetCount (lt_word s) = 0 \<longleftrightarrow> n = 0" "GetCount w = 0 \<longleftrightarrow> n' = 0"
    using assms(1,3) GetCount_zero by (auto simp: latch_inv_def)
  have le: "n' \<le> n \<Longrightarrow> GetCount w \<le> GetCount (lt_word s)"
    using word_holds_count [of "lt_word s" n] word_holds_count [of w n'] assms(1,3)
    by (simp add: latch_inv_def word_le_nat_alt)
  have nt: "has_notifier s \<Longrightarrow> has_notifier ?s'" using assms(2) by (auto simp: has_notifier_def)
  have nz: "n' = 0 \<Longrightarrow> n \<noteq> 0 \<Longrightarrow> has_notifier ?s'" using assms(5) by (auto simp: has_notifier_def)
  have "pc_ok w (has_notifier ?s') (lt_pc s j)" for j
  proof -
    have ok: "pc_ok (lt_word s) (has_notifier s) (lt_pc s j)" using assms(1) by (simp add: latch_inv_def)
    show ?thesis
    proof (cases "lt_pc s j")
      case (Sleeping f cur)
      then show ?thesis using ok assms(4) c nt nz by (auto simp: pc_ok_def)
    next
      case (Waiting f cur)
      then show ?thesis using ok assms(4) le by (auto simp: pc_ok_def)
    next
      case (WaitDone f)
      then show ?thesis using ok assms(4) c by (auto simp: pc_ok_def)
    qed (use ok assms(4) in \<open>auto simp: pc_ok_def\<close>)
  qed
  then show ?thesis using assms(3,6) by (auto simp: latch_inv_def)
qed

lemma latch_inv_add:
  assumes "latch_inv s n" "lt_pc s i = Adding delta cur" "latch_step i (Go weak) s = Some s'"
    "lt_pc s' i = AddDone True" "n + unat delta < 2 ^ 63"
  shows "latch_inv s' (n + unat delta)"
proof -
  have t: "s' = goto i (AddDone True) (s\<lparr>lt_word := lt_word s + delta\<rparr>)" "\<not> IsClosed (lt_word s)"
    using assms(2-4) by (auto simp: TryAdd_turn_def split: if_splits)
  have w: "word_holds (lt_word s + delta) (n + unat delta)"
    using word_holds_add t(2) assms(1,5) by (simp add: latch_inv_def)
  show ?thesis unfolding t(1)
    by (rule latch_inv_word [OF assms(1) _ w]) (use assms(2) t(2) in \<open>simp_all add: pc_ok_def\<close>)
qed

lemma latch_inv_down:
  assumes "latch_inv s n" "unat delta \<le> n" "latch_step i (CallCountDown delta) s = Some s'"
  shows "latch_inv s' (n - unat delta)"
proof -
  have idle: "lt_pc s i = Idle" and s': "s' = CountDown i delta s" using assms(3) by (auto split: if_splits)
  have h: "word_holds (lt_word s) n" using assms(1) by (simp add: latch_inv_def)
  have le: "delta \<le> GetCount (lt_word s)" and eq: "GetCount (lt_word s) = delta \<longleftrightarrow> n = unat delta"
    using word_holds_count [OF h] assms(2) by (auto simp: word_le_nat_alt word_unat_eq_iff)
  let ?p = "if GetCount (lt_word s) = delta then Notifying False else Idle"
  have "s' = goto i ?p (s\<lparr>lt_word := lt_word s - delta\<rparr>)" using le by (simp add: s' CountDown_def Let_def)
  moreover have "latch_inv (goto i ?p (s\<lparr>lt_word := lt_word s - delta\<rparr>)) (n - unat delta)"
    by (rule latch_inv_word [OF assms(1)])
      (use idle assms(2) word_holds_sub [OF h assms(2)] eq in \<open>auto simp: pc_ok_def\<close>)
  ultimately show ?thesis by simp
qed

lemma latch_inv_notify:
  assumes "latch_inv s n" "lt_pc s i = Notifying f"
  shows "latch_inv (notify_all i f s) n"
proof -
  have "pc_ok (lt_word s) b (case lt_pc s j of Sleeping f cur \<Rightarrow> Woken f cur | p \<Rightarrow> p)" for j b
    using assms(1) by (auto simp: latch_inv_def pc_ok_def split: latch_pc.splits dest!: spec [of _ j])
  moreover have "after_close (lt_pc s i) \<longrightarrow> IsClosed (lt_word s)"
    using assms(1) by (simp add: latch_inv_def pc_ok_def)
  then have "pc_ok (lt_word s) b (if f then WaitLoad True else Idle)" for b
    using assms(2) by (simp add: pc_ok_def)
  ultimately show ?thesis using assms(1) by (cases f) (auto simp: latch_inv_def notify_all_def)
qed

lemma latch_inv_close:
  assumes "latch_inv s n" "lt_pc s i = Closing f cur"
  shows "latch_inv (Close_turn i weak f cur s) n"
proof -
  let ?ret = "if f then WaitLoad True else Idle"
  have h: "word_holds (lt_word s) n" using assms(1) by (simp add: latch_inv_def)
  consider "IsClosed cur" | "\<not> IsClosed cur" "lt_word s = cur" "\<not> weak" | "\<not> IsClosed cur" "lt_word s \<noteq> cur \<or> weak"
    by blast
  then show ?thesis
  proof cases
    case 1
    then have "pc_ok (lt_word s) (has_notifier s) ?ret"
      using assms by (auto simp: latch_inv_def pc_ok_def dest!: spec [of _ i])
    then show ?thesis using 1 latch_inv_goto [OF assms(1), of i ?ret] assms(2) by (simp add: Close_turn_def)
  next
    case 2
    let ?w = "lt_word s OR CLOSED_FLAG"
    have c: "word_holds ?w n" "IsClosed ?w" using word_holds_close [OF h] 2 by auto
    let ?p = "if GetCount ?w = 0 then Notifying f else ?ret"
    have "latch_inv (goto i ?p (s\<lparr>lt_word := ?w\<rparr>)) n"
      by (rule latch_inv_word [OF assms(1)]) (use assms(2) c in \<open>auto simp: pc_ok_def\<close>)
    then show ?thesis using 2 by (simp add: Close_turn_def Let_def)
  next
    case 3
    then show ?thesis using latch_inv_goto [OF assms(1), of i "Closing f (lt_word s)"] assms(2)
      by (auto simp: Close_turn_def Let_def pc_ok_def)
  qed
qed

lemma latch_inv_other:
  assumes inv: "latch_inv s n" and st: "latch_step i act s = Some s'"
    and "\<forall>delta. act \<noteq> CallCountDown delta"
    and nadd: "\<not> (\<exists>delta cur. lt_pc s i = Adding delta cur \<and> lt_pc s' i = AddDone True)"
  shows "latch_inv s' n"
proof -
  have ok: "pc_ok (lt_word s) (has_notifier s) (lt_pc s i)"
    and h: "word_holds (lt_word s) n" using inv by (auto simp: latch_inv_def)
  note mv = latch_inv_goto [OF inv, of i]
  show ?thesis
  proof (cases act)
    case (Go weak)
    show ?thesis
    proof (cases "lt_pc s i")
      case (Adding delta cur)
      then show ?thesis using st nadd Go ok mv by (auto simp: TryAdd_turn_def pc_ok_def split: if_splits)
    next
      case (Closing f cur)
      then show ?thesis using st Go latch_inv_close [OF inv] by auto
    next
      case (Notifying f)
      then show ?thesis using st Go latch_inv_notify [OF inv] by auto
    next
      case (WaitLoad f)
      then show ?thesis using st Go ok mv by (auto simp: Wait_load_def pc_ok_def)
    next
      case (Waiting f cur)
      then show ?thesis using st Go ok mv by (auto simp: Wait_turn_def pc_ok_def split: if_splits)
    next
      case (Woken f cur)
      then show ?thesis using st Go ok mv by (auto simp: Wait_wake_def pc_ok_def split: if_splits)
    qed (use st Go mv in \<open>auto simp: pc_ok_def\<close>)
  qed (use st assms(3) mv in \<open>auto simp: TryAdd_load_def Close_load_def pc_ok_def split: if_splits\<close>)
qed

lemma latch_reach_inv: "latch_reach s n \<Longrightarrow> latch_inv s n"
proof (induction rule: latch_reach.induct)
  case reach_new
  show ?case by (rule latch_inv_new)
next
  case (reach_add s n i delta cur weak s')
  then show ?case by (blast intro: latch_inv_add)
next
  case (reach_down s n delta i s')
  then show ?case by (blast intro: latch_inv_down)
next
  case (reach_other s n i act s')
  then show ?case by (blast intro: latch_inv_other)
qed

lemma latch_closed_step:
  assumes "word_holds (lt_word s) n" "IsClosed (lt_word s)" "latch_step i act s = Some s'"
    and "\<forall>d. act = CallCountDown d \<longrightarrow> unat d \<le> n"
  shows "\<not> (\<exists>d cur. lt_pc s i = Adding d cur \<and> lt_pc s' i = AddDone True) \<and>
    IsClosed (lt_word s') \<and> unat (GetCount (lt_word s')) \<le> n"
proof (cases "\<exists>d. act = CallCountDown d")
  case True
  then obtain d where d: "act = CallCountDown d" "unat d \<le> n" using assms(4) by blast
  then have "lt_pc s i = Idle" "lt_word s' = lt_word s - d"
    using assms(3) by (auto simp: CountDown_def Let_def split: if_splits)
  then show ?thesis using word_holds_sub [OF assms(1) d(2)] word_holds_count assms(2) by fastforce
next
  case False
  then have "lt_word s' = lt_word s \<and> \<not> (\<exists>d cur. lt_pc s i = Adding d cur \<and> lt_pc s' i = AddDone True)"
    using assms(2,3) by (cases act) (auto simp: TryAdd_load_def TryAdd_turn_def Close_load_def Close_turn_def notify_all_def
        Wait_load_def Wait_turn_def Wait_wake_def Let_def split: latch_pc.splits if_splits)
  then show ?thesis using assms(2) word_holds_count [OF assms(1)] by simp
qed

text \<open>
  C24. The latch counts correctly under any interleaving of its users: the word holds exactly
  the amount added and not yet counted down, no \<open>CountDown\<close> underflows, a refused \<open>TryAdd\<close>
  means the latch is closed, and a thread whose \<open>CloseAndWait\<close> has returned sees a closed
  latch with nothing outstanding. Once the latch is closed no step of any thread admits an add,
  raises the count or opens the latch again.
\<close>

theorem latch_counts:
  assumes "latch_reach s n"
  shows "unat (GetCount (lt_word s)) = n \<and>
    (\<forall>i. lt_pc s i \<noteq> Asserted \<and>
      (lt_pc s i = AddDone False \<longrightarrow> IsClosed (lt_word s)) \<and>
      (lt_pc s i = WaitDone True \<longrightarrow> IsClosed (lt_word s) \<and> n = 0)) \<and>
    (IsClosed (lt_word s) \<longrightarrow>
      (\<forall>i act s'. latch_step i act s = Some s' \<and> (\<forall>d. act = CallCountDown d \<longrightarrow> unat d \<le> n) \<longrightarrow>
        \<not> (\<exists>d cur. lt_pc s i = Adding d cur \<and> lt_pc s' i = AddDone True) \<and>
        IsClosed (lt_word s') \<and> unat (GetCount (lt_word s')) \<le> n))"
proof -
  have h: "word_holds (lt_word s) n" and ok: "pc_ok (lt_word s) (has_notifier s) (lt_pc s i)" for i
    using latch_reach_inv [OF assms] by (auto simp: latch_inv_def)
  have threads: "\<forall>i. lt_pc s i \<noteq> Asserted \<and>
      (lt_pc s i = AddDone False \<longrightarrow> IsClosed (lt_word s)) \<and>
      (lt_pc s i = WaitDone True \<longrightarrow> IsClosed (lt_word s) \<and> n = 0)"
  proof
    fix i
    show "lt_pc s i \<noteq> Asserted \<and> (lt_pc s i = AddDone False \<longrightarrow> IsClosed (lt_word s)) \<and>
      (lt_pc s i = WaitDone True \<longrightarrow> IsClosed (lt_word s) \<and> n = 0)"
      using ok [of i] GetCount_zero [OF h] by (cases "lt_pc s i") (auto simp: pc_ok_def)
  qed
  show ?thesis using word_holds_count [OF h] threads latch_closed_step [OF h] by blast
qed

text \<open>
  A run used as an example: thread 0 adds 1, thread 1 waits and falls asleep, thread 0 counts
  down.
\<close>

definition added_latch :: latch where
  "added_latch = \<lparr>lt_word = 1, lt_pc = (\<lambda>_. Idle)(0 := AddDone True)\<rparr>"

definition drained_latch :: latch where
  "drained_latch = \<lparr>lt_word = 0, lt_pc = (\<lambda>_. Idle)(1 := Sleeping False 1, 0 := Notifying False)\<rparr>"

lemma GetCount_one: "GetCount 1 = 1" "GetCount 0 = 0" "\<not> IsClosed 0" "\<not> IsClosed 1"
  by (simp_all add: GetCount_def COUNT_MASK_def IsClosed_def CLOSED_FLAG_def)

lemma added_latch_reach: "latch_reach added_latch 1"
proof -
  let ?s1 = "goto 0 (Adding 1 0) new_latch"
  have r: "latch_reach ?s1 0"
    by (rule reach_other [OF reach_new, of 0 "CallTryAdd 1"]) (auto simp: TryAdd_load_def new_latch_def)
  have "latch_reach added_latch (0 + unat (1 :: u64))"
    by (rule reach_add [OF r, of 0 1 0 False])
      (auto simp: TryAdd_turn_def new_latch_def GetCount_one added_latch_def)
  then show ?thesis by simp
qed

lemma drained_latch_reach: "latch_reach drained_latch 0"
proof -
  let ?s3 = "goto 1 (WaitLoad False) added_latch"
  let ?s4 = "goto 1 (Waiting False 1) added_latch"
  let ?s5 = "goto 1 (Sleeping False 1) added_latch"
  let ?s6 = "goto 0 Idle ?s5"
  have "latch_reach ?s3 1"
    by (rule reach_other [OF added_latch_reach, of 1 CallWait]) (auto simp: added_latch_def)
  then have "latch_reach ?s4 1"
    by (rule reach_other [of _ _ 1 "Go False"]) (auto simp: Wait_load_def added_latch_def)
  then have "latch_reach ?s5 1"
    by (rule reach_other [of _ _ 1 "Go False"]) (auto simp: Wait_turn_def added_latch_def GetCount_one)
  then have "latch_reach ?s6 1"
    by (rule reach_other [of _ _ 0 "Go False"]) (auto simp: added_latch_def)
  then have "latch_reach drained_latch (1 - unat (1 :: u64))"
    by (rule reach_down [of _ _ 1 0])
      (auto simp: CountDown_def added_latch_def drained_latch_def GetCount_one Let_def)
  then show ?thesis by simp
qed

theorem latch_counts_witness: "unat (GetCount (lt_word added_latch)) = 1"
  using latch_counts [OF added_latch_reach] by blast

text \<open>
  C25. No wake-up is lost: whenever a thread sleeps in \<open>Wait\<close>, either something is still
  outstanding or some thread is about to call \<open>notify_all\<close>, and the notification unblocks
  every sleeper.
\<close>

theorem latch_no_lost_wakeup:
  assumes "latch_reach s n" "lt_pc s i = Sleeping f cur" "n = 0"
  shows "\<exists>j g s'. lt_pc s j = Notifying g \<and> latch_step j (Go weak) s = Some s' \<and> lt_pc s' i = Woken f cur"
proof -
  have "pc_ok (lt_word s) (has_notifier s) (lt_pc s i)" "word_holds (lt_word s) n"
    using latch_reach_inv [OF assms(1)] by (auto simp: latch_inv_def)
  then obtain j g where "lt_pc s j = Notifying g"
    using assms(2,3) GetCount_zero by (auto simp: pc_ok_def has_notifier_def)
  moreover from this have "i \<noteq> j" using assms(2) by auto
  ultimately show ?thesis using assms(2)
    by (intro exI [of _ j] exI [of _ g] exI [of _ "notify_all j g s"]) (simp add: notify_all_def)
qed

theorem latch_no_lost_wakeup_witness:
  "\<exists>j g s'. lt_pc drained_latch j = Notifying g \<and> latch_step j (Go False) drained_latch = Some s' \<and>
    lt_pc s' 1 = Woken False 1"
  using latch_no_lost_wakeup [OF drained_latch_reach, of 1 False 1 False] by (simp add: drained_latch_def)

section \<open>The blocking queue\<close>

datatype bq_error = BlockQueueStoppedException

record 'a block_queue =
  bq_queue :: "'a list"
  bq_running :: bool

definition new_block_queue :: "'a block_queue" where
  "new_block_queue = \<lparr>bq_queue = [], bq_running = True\<rparr>"

definition Enqueue :: "'a \<Rightarrow> 'a block_queue \<Rightarrow> (bq_error, 'a block_queue) result" where
  "Enqueue item q =
     (if \<not> bq_running q then Inl BlockQueueStoppedException
      else Inr (q\<lparr>bq_queue := bq_queue q @ [item]\<rparr>))"

text \<open>\<open>Dequeue\<close> blocks (\<open>None\<close>) while the queue is empty and running.\<close>

definition Dequeue :: "'a block_queue \<Rightarrow> (bq_error, 'a \<times> 'a block_queue) result option" where
  "Dequeue q =
     (if bq_queue q = [] \<and> bq_running q then None
      else if \<not> bq_running q then Some (Inl BlockQueueStoppedException)
      else Some (Inr (hd (bq_queue q), q\<lparr>bq_queue := tl (bq_queue q)\<rparr>)))"

definition TryDequeue :: "'a block_queue \<Rightarrow> 'a option \<times> 'a block_queue" where
  "TryDequeue q =
     (if bq_queue q = [] \<or> \<not> bq_running q then (None, q)
      else (Some (hd (bq_queue q)), q\<lparr>bq_queue := tl (bq_queue q)\<rparr>))"

definition Stop :: "'a block_queue \<Rightarrow> 'a block_queue" where
  "Stop q = q\<lparr>bq_running := False\<rparr>"

definition Size :: "'a block_queue \<Rightarrow> nat" where "Size q = length (bq_queue q)"
definition IsRunning :: "'a block_queue \<Rightarrow> bool" where "IsRunning q = bq_running q"

text \<open>
  A queue as its users see it: an insertion that may be refused and a removal that may find
  nothing, over an abstract content. From the two laws the locale derives that the items
  leave in the order in which they were accepted, none lost and none twice.
\<close>

locale fifo =
  fixes content :: "'q \<Rightarrow> 'a list"
    and put :: "'a \<Rightarrow> 'q \<Rightarrow> 'q option"
    and get :: "'q \<Rightarrow> ('a \<times> 'q) option"
  assumes put_content: "put x q = Some q' \<Longrightarrow> content q' = content q @ [x]"
    and get_content: "get q = Some (x, q') \<Longrightarrow> content q = x # content q'"
begin

fun history :: "'a option list \<Rightarrow> 'q \<Rightarrow> 'a list \<times> 'a list \<times> 'q" where
  "history [] q = ([], [], q)"
| "history (Some x # ops) q =
     (case put x q of
        None \<Rightarrow> history ops q
      | Some q' \<Rightarrow> (case history ops q' of (ins, outs, r) \<Rightarrow> (x # ins, outs, r)))"
| "history (None # ops) q =
     (case get q of
        None \<Rightarrow> history ops q
      | Some (x, q') \<Rightarrow> (case history ops q' of (ins, outs, r) \<Rightarrow> (ins, x # outs, r)))"

lemma history_fifo: "history ops q = (ins, outs, r) \<Longrightarrow> content q @ ins = outs @ content r"
proof (induction ops q arbitrary: ins outs rule: history.induct)
  case (2 x ops q)
  then show ?case by (fastforce split: option.splits prod.splits dest!: put_content)
next
  case (3 ops q)
  then show ?case by (auto split: option.splits prod.splits dest!: get_content)
qed simp

end

definition bq_put :: "'a \<Rightarrow> 'a block_queue \<Rightarrow> 'a block_queue option" where
  "bq_put x q = (case Enqueue x q of Inl _ \<Rightarrow> None | Inr q' \<Rightarrow> Some q')"

definition bq_get :: "'a block_queue \<Rightarrow> ('a \<times> 'a block_queue) option" where
  "bq_get q = (case Dequeue q of Some (Inr r) \<Rightarrow> Some r | _ \<Rightarrow> None)"

interpretation bq: fifo bq_queue bq_put bq_get
  by unfold_locales (auto simp: bq_put_def bq_get_def Enqueue_def Dequeue_def split: if_splits)

datatype 'a bq_op = BqEnqueue 'a | BqDequeue | BqTryDequeue | BqStop

fun bq_step :: "'a bq_op \<Rightarrow> 'a list \<times> 'a list \<times> 'a block_queue \<Rightarrow> 'a list \<times> 'a list \<times> 'a block_queue" where
  "bq_step (BqEnqueue x) (ins, outs, q) =
     (case Enqueue x q of Inl _ \<Rightarrow> (ins, outs, q) | Inr q' \<Rightarrow> (ins @ [x], outs, q'))"
| "bq_step BqDequeue (ins, outs, q) =
     (case Dequeue q of Some (Inr (x, q')) \<Rightarrow> (ins, outs @ [x], q') | _ \<Rightarrow> (ins, outs, q))"
| "bq_step BqTryDequeue (ins, outs, q) =
     (case TryDequeue q of (Some x, q') \<Rightarrow> (ins, outs @ [x], q') | (None, q') \<Rightarrow> (ins, outs, q'))"
| "bq_step BqStop (ins, outs, q) = (ins, outs, Stop q)"

definition bq_hist :: "'a bq_op list \<Rightarrow> 'a list \<times> 'a list \<times> 'a block_queue" where
  "bq_hist ops = fold bq_step ops ([], [], new_block_queue)"

lemma bq_step_fifo:
  "bq_step op (ins, outs, q) = (ins', outs', q') \<Longrightarrow> ins = outs @ bq_queue q \<Longrightarrow> ins' = outs' @ bq_queue q'"
  by (cases op) (auto simp: Enqueue_def Dequeue_def TryDequeue_def Stop_def split: if_splits)

lemma bq_step_stopped:
  "bq_step op (ins, outs, q) = (ins', outs', q') \<Longrightarrow> \<not> bq_running q \<Longrightarrow> (ins', outs', q') = (ins, outs, q)"
  by (cases op) (auto simp: Enqueue_def Dequeue_def TryDequeue_def Stop_def split: if_splits)

lemma bq_fold_fifo:
  "fold bq_step ops (ins, outs, q) = (ins', outs', q') \<Longrightarrow> ins = outs @ bq_queue q \<Longrightarrow> ins' = outs' @ bq_queue q'"
proof (induction ops arbitrary: ins outs q)
  case (Cons op ops)
  obtain i o1 q1 where s: "bq_step op (ins, outs, q) = (i, o1, q1)" by (metis prod_cases3)
  show ?case using Cons.IH [of i o1 q1] Cons.prems bq_step_fifo [OF s] s by simp
qed simp

lemma bq_fold_stopped: "\<not> bq_running q \<Longrightarrow> fold bq_step ops (ins, outs, q) = (ins, outs, q)"
proof (induction ops)
  case (Cons op ops)
  obtain i o1 q1 where s: "bq_step op (ins, outs, q) = (i, o1, q1)" by (metis prod_cases3)
  show ?case using Cons bq_step_stopped [OF s Cons.prems] s by simp
qed simp

text \<open>
  The blocking queue is first in, first out under any sequence of operations: the items
  accepted are the items handed out followed by the ones still queued, and after \<open>Stop\<close>
  nothing is accepted or handed out any more.
\<close>

theorem block_queue_fifo:
  "\<exists>ins outs q. bq_hist ops = (ins, outs, q) \<and> ins = outs @ bq_queue q \<and>
     bq_hist (ops @ BqStop # later) = (ins, outs, Stop q)"
proof -
  obtain ins outs q where h: "bq_hist ops = (ins, outs, q)" by (metis prod_cases3)
  have "ins = outs @ bq_queue q"
    using bq_fold_fifo [of ops "[]" "[]" new_block_queue] h by (simp add: bq_hist_def new_block_queue_def)
  moreover have "bq_hist (ops @ BqStop # later) = (ins, outs, Stop q)"
    using h bq_fold_stopped [of "Stop q"] by (simp add: bq_hist_def Stop_def)
  ultimately show ?thesis using h by blast
qed

section \<open>The light signal\<close>

text \<open>
  \<open>Wait\<close> and \<open>WaitFor\<close> return at once when the flag is set; otherwise the thread blocks on the
  condition variable once, without a loop: it returns after a notification, a spurious
  wake-up or, for \<open>WaitFor\<close>, the timeout. The reason is an argument of the model.
\<close>

datatype wake_reason = Notified | Spurious | TimedOut

definition Signal_Notify :: "bool \<Rightarrow> bool" where "Signal_Notify flag = True"
definition Signal_Reset :: "bool \<Rightarrow> bool" where "Signal_Reset flag = False"

definition Signal_Wait_blocks :: "bool \<Rightarrow> bool" where
  "Signal_Wait_blocks flag \<longleftrightarrow> \<not> flag"

definition Signal_WaitFor :: "bool \<Rightarrow> wake_reason \<Rightarrow> bool" where
  "Signal_WaitFor flag reason \<longleftrightarrow> (if flag then True else if reason = TimedOut then False else True)"

text \<open>A \<open>true\<close> from \<open>WaitFor\<close> does not imply that the signal was given.\<close>

lemma WaitFor_spurious: "Signal_WaitFor False Spurious"
  by (simp add: Signal_WaitFor_def)

end
