(* ===== verification/FilterChain.thy ===== *)
theory FilterChain
  imports Prelude
begin

text \<open>
  The framework-side filters of \<open>channel_framework_async_filter.h\<close> and
  \<open>rpc_framework_async_filter.h\<close>: a collector wraps a chain of filters around the final
  handle, and a manager builds one collector per topic or function from the names of the
  registered filters. A handle takes the message or invocation and acts on the rest of the
  program, the type \<open>'w\<close>; a filter takes the handle it has to go on with, and may call it any
  number of times. A handle is a \<open>std::function\<close> that is moved down the chain: where a
  call moves it away, the next call finds an empty function and throws. Both managers keep
  one contract, stated as a locale.
\<close>

section \<open>Data\<close>

type_synonym ('m, 'w) handle = "'m \<Rightarrow> 'w \<Rightarrow> 'w"

text \<open>How a call ends, with the state of the program then; an empty function throws at once.\<close>

datatype 'w ended = Returned (world_of: 'w) | Threw (world_of: 'w)

type_synonym ('m, 'w) callee = "'m \<Rightarrow> 'w \<Rightarrow> 'w ended"

definition empty_function :: "('m, 'w) callee" where
  "empty_function m w = Threw w"

text \<open>
  What a filter does with the message it is given: it ends, or it calls its handle and goes on by how
  that call ended. A filter that keeps its handle and calls it after it has returned is not
  represented.
\<close>

datatype ('m, 'w) filter_run = Ends "'w ended" | Calls 'm 'w "'w ended \<Rightarrow> ('m, 'w) filter_run"

type_synonym ('m, 'w) afilter = "'m \<Rightarrow> 'w \<Rightarrow> ('m, 'w) filter_run"

text \<open>
  The \<open>final_filter_\<close> of a collector: called with a message and a handle by rvalue reference, it
  says how the call ended and whether it has moved the handle away.
\<close>

type_synonym ('m, 'w) collector = "'m \<Rightarrow> ('m, 'w) callee \<Rightarrow> 'w \<Rightarrow> 'w ended \<times> bool"

datatype filter_error =
    FilterRegistered string | FilterNotFound string | CollectorExists string

record ('m, 'w) filter_manager =
  fm_filter_map :: "string \<Rightarrow> ('m, 'w) afilter option"
  fm_collector_map :: "string \<Rightarrow> ('m, 'w) collector option"
  fm_names_map :: "string \<Rightarrow> string list option"

definition new_filter_manager :: "('m, 'w) filter_manager" where
  "new_filter_manager =
     \<lparr>fm_filter_map = (\<lambda>_. None), fm_collector_map = (\<lambda>_. None), fm_names_map = (\<lambda>_. None)\<rparr>"

section \<open>The channel side\<close>

text \<open>
  The default \<open>final_filter_\<close> calls the handle and does not move it. The one
  \<open>RegisterFilter\<close> makes moves the handle into the lambda it gives the filter; that lambda passes its
  captured handle to the previous \<open>final_filter\<close> at every call, as that one left it.
  \<open>Clear\<close> leaves an empty function that cannot be called.
\<close>

definition FilterCollector :: "('m, 'w) collector" where
  "FilterCollector = (\<lambda>m h w. (h m w, False))"

primrec run_filter :: "('m, 'w) filter_run \<Rightarrow> ('m, 'w) collector \<Rightarrow> ('m, 'w) callee \<Rightarrow> 'w ended" where
  "run_filter (Ends e) final_filter h = e"
| "run_filter (Calls m w k) final_filter h =
     (case final_filter m h w of (e, moved) \<Rightarrow> run_filter (k e) final_filter (if moved then empty_function else h))"

definition Collector_RegisterFilter :: "('m, 'w) afilter \<Rightarrow> ('m, 'w) collector \<Rightarrow> ('m, 'w) collector" where
  "Collector_RegisterFilter flt final_filter = (\<lambda>m h w. (run_filter (flt m w) final_filter h, True))"

text \<open>The state of the program when the call has ended, by return or by exception.\<close>

definition InvokeChannel :: "('m, 'w) collector \<Rightarrow> ('m, 'w) handle \<Rightarrow> 'm \<Rightarrow> 'w \<Rightarrow> 'w" where
  "InvokeChannel final_filter h m w = world_of (fst (final_filter m (\<lambda>m w. Returned (h m w)) w))"

definition RegisterFilter ::
  "string \<Rightarrow> ('m, 'w) afilter \<Rightarrow> ('m, 'w) filter_manager \<Rightarrow> (filter_error, ('m, 'w) filter_manager) result" where
  "RegisterFilter name f fm =
     (case fm_filter_map fm name of
        Some _ \<Rightarrow> Inl (FilterRegistered name)
      | None \<Rightarrow> Inr (fm\<lparr>fm_filter_map := (fm_filter_map fm)(name \<mapsto> f)\<rparr>))"

fun collect_filters ::
  "(string \<Rightarrow> ('m, 'w) afilter option) \<Rightarrow> string list \<Rightarrow> ('m, 'w) collector \<Rightarrow> (filter_error, ('m, 'w) collector) result" where
  "collect_filters fs [] final = Inr final"
| "collect_filters fs (n # ns) final =
     (case fs n of
        None \<Rightarrow> Inl (FilterNotFound n)
      | Some f \<Rightarrow> collect_filters fs ns (Collector_RegisterFilter f final))"

definition CreateFilterCollector ::
  "string \<Rightarrow> string list \<Rightarrow> ('m, 'w) filter_manager \<Rightarrow> (filter_error, ('m, 'w) filter_manager) result" where
  "CreateFilterCollector topic_name filter_name_vec fm =
     (if filter_name_vec = [] then Inr fm
      else bindR (collect_filters (fm_filter_map fm) filter_name_vec FilterCollector)
        (\<lambda>c. case fm_collector_map fm topic_name of
               Some _ \<Rightarrow> Inl (CollectorExists topic_name)
             | None \<Rightarrow>
                 Inr (fm\<lparr>fm_collector_map := (fm_collector_map fm)(topic_name \<mapsto> c),
                         fm_names_map := (case fm_names_map fm topic_name of
                            Some _ \<Rightarrow> fm_names_map fm
                          | None \<Rightarrow> (fm_names_map fm)(topic_name \<mapsto> filter_name_vec))\<rparr>)))"

definition CreateFilterCollectorIfNotExist ::
  "string \<Rightarrow> string list \<Rightarrow> ('m, 'w) filter_manager \<Rightarrow> (filter_error, ('m, 'w) filter_manager) result" where
  "CreateFilterCollectorIfNotExist topic_name filter_name_vec fm =
     (if fm_collector_map fm topic_name = None then CreateFilterCollector topic_name filter_name_vec fm
      else Inr fm)"

definition GetFilterCollector :: "string \<Rightarrow> ('m, 'w) filter_manager \<Rightarrow> ('m, 'w) collector" where
  "GetFilterCollector topic_name fm =
     (case fm_collector_map fm topic_name of Some c \<Rightarrow> c | None \<Rightarrow> FilterCollector)"

definition GetFilterNameVec :: "string \<Rightarrow> ('m, 'w) filter_manager \<Rightarrow> string list" where
  "GetFilterNameVec topic_name fm =
     (case fm_names_map fm topic_name of Some ns \<Rightarrow> ns | None \<Rightarrow> [])"

definition Clear :: "('m, 'w) filter_manager \<Rightarrow> ('m, 'w) filter_manager" where
  "Clear fm = fm\<lparr>fm_collector_map := (\<lambda>_. None), fm_filter_map := (\<lambda>_. None)\<rparr>"

section \<open>The rpc side\<close>

definition Rpc_FilterCollector :: "('m, 'w) collector" where
  "Rpc_FilterCollector = (\<lambda>ptr h w. (h ptr w, False))"

definition Rpc_Collector_RegisterFilter :: "('m, 'w) afilter \<Rightarrow> ('m, 'w) collector \<Rightarrow> ('m, 'w) collector" where
  "Rpc_Collector_RegisterFilter flt final_filter = (\<lambda>ptr h w. (run_filter (flt ptr w) final_filter h, True))"

definition InvokeRpc :: "('m, 'w) collector \<Rightarrow> ('m, 'w) handle \<Rightarrow> 'm \<Rightarrow> 'w \<Rightarrow> 'w" where
  "InvokeRpc final_filter h ptr w = world_of (fst (final_filter ptr (\<lambda>ptr w. Returned (h ptr w)) w))"

definition Rpc_RegisterFilter ::
  "string \<Rightarrow> ('m, 'w) afilter \<Rightarrow> ('m, 'w) filter_manager \<Rightarrow> (filter_error, ('m, 'w) filter_manager) result" where
  "Rpc_RegisterFilter name f fm =
     (if fm_filter_map fm name \<noteq> None then Inl (FilterRegistered name)
      else Inr (fm\<lparr>fm_filter_map := (fm_filter_map fm)(name := Some f)\<rparr>))"

definition Rpc_CreateFilterCollector ::
  "string \<Rightarrow> string list \<Rightarrow> ('m, 'w) filter_manager \<Rightarrow> (filter_error, ('m, 'w) filter_manager) result" where
  "Rpc_CreateFilterCollector func_name filter_name_vec fm =
     (if filter_name_vec = [] then Inr fm
      else bindR (foldR (\<lambda>name c. case fm_filter_map fm name of
                           None \<Rightarrow> Inl (FilterNotFound name)
                         | Some f \<Rightarrow> Inr (Rpc_Collector_RegisterFilter f c))
                   filter_name_vec Rpc_FilterCollector)
        (\<lambda>c. if fm_collector_map fm func_name \<noteq> None then Inl (CollectorExists func_name)
             else Inr (fm\<lparr>fm_collector_map := (fm_collector_map fm)(func_name := Some c),
                          fm_names_map := (if fm_names_map fm func_name \<noteq> None then fm_names_map fm
                            else (fm_names_map fm)(func_name := Some filter_name_vec))\<rparr>)))"

definition Rpc_CreateFilterCollectorIfNotExist ::
  "string \<Rightarrow> string list \<Rightarrow> ('m, 'w) filter_manager \<Rightarrow> (filter_error, ('m, 'w) filter_manager) result" where
  "Rpc_CreateFilterCollectorIfNotExist func_name filter_name_vec fm =
     (if fm_collector_map fm func_name = None then Rpc_CreateFilterCollector func_name filter_name_vec fm
      else Inr fm)"

definition Rpc_GetFilterCollector :: "string \<Rightarrow> ('m, 'w) filter_manager \<Rightarrow> ('m, 'w) collector" where
  "Rpc_GetFilterCollector func_name fm =
     (if fm_collector_map fm func_name \<noteq> None then the (fm_collector_map fm func_name)
      else Rpc_FilterCollector)"

definition Rpc_GetFilterNameVec :: "string \<Rightarrow> ('m, 'w) filter_manager \<Rightarrow> string list" where
  "Rpc_GetFilterNameVec func_name fm =
     (if fm_names_map fm func_name \<noteq> None then the (fm_names_map fm func_name) else [])"

definition Rpc_Clear :: "('m, 'w) filter_manager \<Rightarrow> ('m, 'w) filter_manager" where
  "Rpc_Clear fm = fm\<lparr>fm_collector_map := (\<lambda>_. None), fm_filter_map := (\<lambda>_. None)\<rparr>"

section \<open>The order of the chain\<close>

text \<open>
  The chain a collector stands for: the filter registered last is entered first. The first call a
  filter makes of its handle goes through the rest of the chain to the final handle; a later call goes through the
  rest of the chain too, but unless the filter is the innermost one it finds the final handle
  moved away.
\<close>

primrec first_then :: "('m, 'w) filter_run \<Rightarrow> ('m, 'w) callee \<Rightarrow> ('m, 'w) callee \<Rightarrow> 'w ended" where
  "first_then (Ends e) h later = e"
| "first_then (Calls m w k) h later = first_then (k (h m w)) later later"

fun through :: "('m, 'w) afilter list \<Rightarrow> ('m, 'w) callee \<Rightarrow> ('m, 'w) callee" where
  "through [] h = h"
| "through (f # fs) h = (\<lambda>m w. first_then (f m w) (through fs h) (through fs (if fs = [] then h else empty_function)))"

definition chain :: "('m, 'w) afilter list \<Rightarrow> ('m, 'w) handle \<Rightarrow> ('m, 'w) handle" where
  "chain fs h = (\<lambda>m w. world_of (through fs (\<lambda>m w. Returned (h m w)) m w))"

lemma chain_Nil [simp]: "chain [] h = h"
  by (simp add: chain_def fun_eq_iff)

fun lookup_all :: "(string \<Rightarrow> 'f option) \<Rightarrow> string list \<Rightarrow> 'f list" where
  "lookup_all fs [] = []"
| "lookup_all fs (n # ns) = (case fs n of None \<Rightarrow> lookup_all fs ns | Some f \<Rightarrow> f # lookup_all fs ns)"

lemma run_filter_through:
  assumes "\<And>m h w. c m h w = (through fs h m w, fs \<noteq> [])"
  shows "run_filter r c h = first_then r (through fs h) (through fs (if fs = [] then h else empty_function))"
  by (induction r arbitrary: h) (auto simp: assms)

lemma Collector_RegisterFilter_through:
  assumes "\<And>m h w. c m h w = (through fs h m w, fs \<noteq> [])"
  shows "Collector_RegisterFilter f c m h w = (through (f # fs) h m w, f # fs \<noteq> [])"
  using run_filter_through [of c fs, OF assms] by (simp add: Collector_RegisterFilter_def)

lemma collect_filters_chain:
  "collect_filters fs ns final = Inr c \<Longrightarrow> (\<And>m h w. final m h w = (through gs h m w, gs \<noteq> [])) \<Longrightarrow>
   (\<forall>n \<in> set ns. fs n \<noteq> None) \<and>
   (\<forall>m h w. c m h w = (through (rev (lookup_all fs ns) @ gs) h m w, rev (lookup_all fs ns) @ gs \<noteq> []))"
proof (induction fs ns final arbitrary: gs rule: collect_filters.induct)
  case (1 fs final)
  from "1.prems"(1) have "c = final" by (simp del: fun_eq_iff)
  then show ?case using "1.prems"(2) by (simp del: fun_eq_iff)
next
  case (2 fs n ns final)
  then obtain f where f: "fs n = Some f" by (auto split: option.splits)
  note IH = "2.IH" [OF f, of "f # gs", OF _ Collector_RegisterFilter_through [OF "2.prems"(2)]]
  show ?case using IH "2.prems"(1) f by auto
qed

lemma collect_filters_ok: "\<forall>n \<in> set ns. fs n \<noteq> None \<Longrightarrow> \<exists>c. collect_filters fs ns final = Inr c"
  by (induction fs ns final rule: collect_filters.induct) (auto split: option.splits)

lemma collect_filters_foldR:
  "collect_filters fs ns final =
   foldR (\<lambda>name c. case fs name of None \<Rightarrow> Inl (FilterNotFound name)
      | Some f \<Rightarrow> Inr (Rpc_Collector_RegisterFilter f c)) ns final"
  by (induction fs ns final rule: collect_filters.induct)
    (auto simp: Rpc_Collector_RegisterFilter_def Collector_RegisterFilter_def split: option.splits)

text \<open>The two managers are one: the rpc functions are the channel functions.\<close>

lemma Rpc_same_new: "Rpc_FilterCollector = FilterCollector"
  by (simp add: Rpc_FilterCollector_def FilterCollector_def)

lemma Rpc_same_register: "Rpc_RegisterFilter = RegisterFilter"
  by (intro ext) (simp add: Rpc_RegisterFilter_def RegisterFilter_def split: option.splits)

lemma Rpc_same_create: "Rpc_CreateFilterCollector n ns fm = CreateFilterCollector n ns fm"
proof -
  have *: "(\<lambda>c. if fm_collector_map fm n \<noteq> None then Inl (CollectorExists n)
           else Inr (fm\<lparr>fm_collector_map := (fm_collector_map fm)(n := Some c),
                        fm_names_map := (if fm_names_map fm n \<noteq> None then fm_names_map fm
                          else (fm_names_map fm)(n := Some ns))\<rparr>)) =
      (\<lambda>c. case fm_collector_map fm n of
             Some _ \<Rightarrow> Inl (CollectorExists n)
           | None \<Rightarrow>
               Inr (fm\<lparr>fm_collector_map := (fm_collector_map fm)(n \<mapsto> c),
                       fm_names_map := (case fm_names_map fm n of
                          Some _ \<Rightarrow> fm_names_map fm
                        | None \<Rightarrow> (fm_names_map fm)(n \<mapsto> ns))\<rparr>))"
    by (intro ext) (auto split: option.splits)
  show ?thesis
    unfolding Rpc_CreateFilterCollector_def CreateFilterCollector_def * Rpc_same_new collect_filters_foldR
    by (rule refl)
qed

lemma Rpc_same_create_if:
  "Rpc_CreateFilterCollectorIfNotExist n ns fm = CreateFilterCollectorIfNotExist n ns fm"
  by (simp add: Rpc_CreateFilterCollectorIfNotExist_def CreateFilterCollectorIfNotExist_def Rpc_same_create)

lemma Rpc_same_get: "Rpc_GetFilterCollector n fm = GetFilterCollector n fm"
  by (simp add: Rpc_GetFilterCollector_def GetFilterCollector_def Rpc_same_new split: option.splits)

lemma Rpc_same_names: "Rpc_GetFilterNameVec n fm = GetFilterNameVec n fm"
  by (auto simp: Rpc_GetFilterNameVec_def GetFilterNameVec_def split: option.splits)

lemma Rpc_same_invoke: "InvokeRpc = InvokeChannel"
  by (intro ext) (simp add: InvokeRpc_def InvokeChannel_def)

lemmas Rpc_same = Rpc_same_new Rpc_same_register Rpc_same_create Rpc_same_create_if Rpc_same_get
  Rpc_same_names Rpc_same_invoke

section \<open>The contract of a filter manager\<close>

text \<open>
  What the backend managers rely on: after \<open>create\<close> has succeeded for a key, its collector
  runs the chain of the names it was first created with, and later calls, for this key or
  another one, do not change it. \<open>names\<close> is the specification's record of these names.
\<close>

text \<open>The first non-empty list of names given for a key.\<close>

fun first_names :: "string \<Rightarrow> (string \<times> string list) list \<Rightarrow> string list" where
  "first_names k [] = []"
| "first_names k ((k', ns) # ks) = (if k' = k \<and> ns \<noteq> [] then ns else first_names k ks)"

locale filter_contract =
  fixes create :: "string \<Rightarrow> string list \<Rightarrow> ('m, 'w) filter_manager \<Rightarrow> (filter_error, ('m, 'w) filter_manager) result"
    and get :: "string \<Rightarrow> ('m, 'w) filter_manager \<Rightarrow> ('m, 'w) collector"
    and names :: "string \<Rightarrow> ('m, 'w) filter_manager \<Rightarrow> string list"
    and ok :: "('m, 'w) filter_manager \<Rightarrow> bool"
  assumes create_ok: "ok fm \<Longrightarrow> create k ns fm = Inr fm' \<Longrightarrow> ok fm'"
    and create_filters: "create k ns fm = Inr fm' \<Longrightarrow> fm_filter_map fm' = fm_filter_map fm"
    and create_names: "ok fm \<Longrightarrow> create k ns fm = Inr fm' \<Longrightarrow>
      names k fm' = (if names k fm = [] then ns else names k fm)"
    and create_other: "create k ns fm = Inr fm' \<Longrightarrow> k' \<noteq> k \<Longrightarrow> names k' fm' = names k' fm"
    and get_chain: "ok fm \<Longrightarrow> InvokeChannel (get k fm) h = chain (rev (lookup_all (fm_filter_map fm) (names k fm))) h"
    and get_found: "ok fm \<Longrightarrow> \<forall>n \<in> set (names k fm). fm_filter_map fm n \<noteq> None"
begin

lemma creates_names:
  "ok fm \<Longrightarrow> foldR (\<lambda>(k, ns). create k ns) ks fm = Inr fm' \<Longrightarrow>
   ok fm' \<and> fm_filter_map fm' = fm_filter_map fm \<and>
   names k fm' = (if names k fm = [] then first_names k ks else names k fm)"
proof (induction ks arbitrary: fm)
  case (Cons kn ks)
  obtain k' ns where kn: "kn = (k', ns)" by (cases kn)
  then obtain fm1 where c: "create k' ns fm = Inr fm1" "foldR (\<lambda>(k, ns). create k ns) ks fm1 = Inr fm'"
    using Cons.prems(2) by (auto simp: bindR_eq_Inr)
  have "names k fm1 = (if k' = k then (if names k fm = [] then ns else names k fm) else names k fm)"
    using create_names [OF Cons.prems(1) c(1)] create_other [OF c(1), of k] by auto
  then show ?case using Cons.IH [OF create_ok [OF Cons.prems(1) c(1)] c(2)] create_filters [OF c(1)] kn by auto
qed simp

lemma creates_chain:
  assumes "ok fm" "names k fm = []" "foldR (\<lambda>(k, ns). create k ns) ks fm = Inr fm'"
  shows "InvokeChannel (get k fm') h = chain (rev (lookup_all (fm_filter_map fm) (first_names k ks))) h"
    and "names k fm' = first_names k ks"
  using creates_names [OF assms(1,3), of k] get_chain [of fm' k h] assms(2) by simp_all

end

text \<open>The invariant of a manager that has not been cleared.\<close>

definition key_ok :: "(string \<Rightarrow> ('m, 'w) afilter option) \<Rightarrow> ('m, 'w) collector option \<Rightarrow> string list option \<Rightarrow> bool" where
  "key_ok fs c ns \<longleftrightarrow>
     (case c of
        None \<Rightarrow> ns = None
      | Some c \<Rightarrow> \<exists>l. ns = Some l \<and> l \<noteq> [] \<and> collect_filters fs l FilterCollector = Inr c)"

definition fm_ok :: "('m, 'w) filter_manager \<Rightarrow> bool" where
  "fm_ok fm \<longleftrightarrow> (\<forall>k. key_ok (fm_filter_map fm) (fm_collector_map fm k) (fm_names_map fm k))"

lemma fm_ok_new: "fm_ok new_filter_manager"
  by (simp add: fm_ok_def key_ok_def new_filter_manager_def)

lemma collect_filters_mono:
  "collect_filters fs ns final = Inr c \<Longrightarrow> fs n = None \<Longrightarrow> collect_filters (fs(n \<mapsto> f)) ns final = Inr c"
  by (induction fs ns final rule: collect_filters.induct) (auto split: option.splits)

lemma key_ok_mono: "key_ok fs c ns \<Longrightarrow> fs n = None \<Longrightarrow> key_ok (fs(n \<mapsto> f)) c ns"
  by (auto simp: key_ok_def intro: collect_filters_mono split: option.splits)

lemma RegisterFilter_ok: "fm_ok fm \<Longrightarrow> RegisterFilter n f fm = Inr fm' \<Longrightarrow> fm_ok fm'"
  by (auto simp: fm_ok_def RegisterFilter_def key_ok_mono split: option.splits)

lemma CreateIf_cases:
  assumes "fm_ok fm" "CreateFilterCollectorIfNotExist k ns fm = Inr fm'"
  shows "(fm' = fm \<and> (ns = [] \<or> fm_collector_map fm k \<noteq> None)) \<or>
    (ns \<noteq> [] \<and> fm_collector_map fm k = None \<and> fm_names_map fm k = None \<and>
      (\<exists>c. collect_filters (fm_filter_map fm) ns FilterCollector = Inr c \<and>
         fm' = fm\<lparr>fm_collector_map := (fm_collector_map fm)(k \<mapsto> c), fm_names_map := (fm_names_map fm)(k \<mapsto> ns)\<rparr>))"
proof (cases "fm_collector_map fm k")
  case None
  then have "fm_names_map fm k = None" using assms(1) by (auto simp: fm_ok_def key_ok_def dest: spec [of _ k])
  then show ?thesis using None assms(2)
    by (auto simp: CreateFilterCollectorIfNotExist_def CreateFilterCollector_def bindR_eq_Inr split: if_splits)
qed (use assms in \<open>simp add: CreateFilterCollectorIfNotExist_def\<close>)

interpretation cf: filter_contract CreateFilterCollectorIfNotExist GetFilterCollector GetFilterNameVec fm_ok
proof unfold_locales
  fix fm fm' :: "('m, 'w) filter_manager" and k k' ns
  show "fm_ok fm'" if "fm_ok fm" "CreateFilterCollectorIfNotExist k ns fm = Inr fm'"
    using CreateIf_cases [OF that] that(1) by (auto simp: fm_ok_def) (simp add: key_ok_def)
  show "fm_filter_map fm' = fm_filter_map fm" if "CreateFilterCollectorIfNotExist k ns fm = Inr fm'"
    using that by (auto simp: CreateFilterCollectorIfNotExist_def CreateFilterCollector_def bindR_eq_Inr
        split: if_splits option.splits)
  show "GetFilterNameVec k fm' = (if GetFilterNameVec k fm = [] then ns else GetFilterNameVec k fm)"
    if "fm_ok fm" "CreateFilterCollectorIfNotExist k ns fm = Inr fm'"
  proof -
    have "fm_collector_map fm k \<noteq> None \<Longrightarrow> GetFilterNameVec k fm \<noteq> []"
      "fm_collector_map fm k = None \<Longrightarrow> GetFilterNameVec k fm = []"
      using that(1) by (auto simp: fm_ok_def key_ok_def GetFilterNameVec_def dest!: spec [of _ k])
    then show ?thesis using CreateIf_cases [OF that] by (auto simp: GetFilterNameVec_def)
  qed
  show "GetFilterNameVec k' fm' = GetFilterNameVec k' fm"
    if "CreateFilterCollectorIfNotExist k ns fm = Inr fm'" "k' \<noteq> k"
    using that by (auto simp: CreateFilterCollectorIfNotExist_def CreateFilterCollector_def GetFilterNameVec_def
        bindR_eq_Inr split: if_splits option.splits)
  have inv: "(\<exists>c ns. fm_collector_map fm k = Some c \<and> fm_names_map fm k = Some ns \<and>
      collect_filters (fm_filter_map fm) ns FilterCollector = Inr c) \<or>
      (fm_collector_map fm k = None \<and> fm_names_map fm k = None)" if "fm_ok fm"
    using that by (auto simp: fm_ok_def key_ok_def dest!: spec [of _ k] split: option.splits)
  have base: "(FilterCollector :: ('m, 'w) collector) m h w = (through [] h m w, [] \<noteq> ([] :: ('m, 'w) afilter list))" for m h w
    by (simp add: FilterCollector_def)
  show "InvokeChannel (GetFilterCollector k fm) h = chain (rev (lookup_all (fm_filter_map fm) (GetFilterNameVec k fm))) h"
    if "fm_ok fm" for h
  proof -
    have "InvokeChannel c h = chain (rev (lookup_all (fm_filter_map fm) ns)) h"
      if "collect_filters (fm_filter_map fm) ns FilterCollector = Inr c" for c ns
      using collect_filters_chain [OF that base] by (simp add: InvokeChannel_def chain_def fun_eq_iff)
    moreover have "InvokeChannel FilterCollector h = chain [] h"
      by (simp add: InvokeChannel_def chain_def fun_eq_iff FilterCollector_def)
    ultimately show ?thesis
      using inv [OF that] by (auto simp: GetFilterCollector_def GetFilterNameVec_def)
  qed
  show "\<forall>n \<in> set (GetFilterNameVec k fm). fm_filter_map fm n \<noteq> None" if "fm_ok fm"
    using inv [OF that] collect_filters_chain [of "fm_filter_map fm" _ FilterCollector _ "[]", OF _ base]
    by (fastforce simp: GetFilterNameVec_def)
qed

interpretation rf: filter_contract Rpc_CreateFilterCollectorIfNotExist Rpc_GetFilterCollector Rpc_GetFilterNameVec fm_ok
  unfolding filter_contract_def Rpc_same
  using cf.filter_contract_axioms unfolding filter_contract_def by blast

text \<open>
  C28. However the collectors of a manager were created, a message of a topic (and a call of an
  rpc function) passes exactly the filters named by the first non-empty list given for that
  topic, the last name outermost, and the handle is called innermost; a filter that calls its
  handle again runs the rest of the chain again, but unless it is the innermost filter the final handle has
  been moved away and that call throws there. Topics do not affect each other.
\<close>

theorem filters_run_in_chain_order:
  assumes "fm_ok fm" "GetFilterNameVec k fm = []"
    and "foldR (\<lambda>(k, ns). CreateFilterCollectorIfNotExist k ns) ks fm = Inr fm'"
  shows "InvokeChannel (GetFilterCollector k fm') h m w = chain (rev (lookup_all (fm_filter_map fm) (first_names k ks))) h m w \<and>
    InvokeRpc (Rpc_GetFilterCollector k fm') h m w = chain (rev (lookup_all (fm_filter_map fm) (first_names k ks))) h m w \<and>
    GetFilterNameVec k fm' = first_names k ks"
  using cf.creates_chain [OF assms(1,2,3)] by (simp add: Rpc_same)

text \<open>
  A filter that writes its number around one call of its handle, and one that calls its handle
  twice: inside the first it finds the handle gone the second time, on its own or innermost it does not.
\<close>

definition tag_filter :: "nat \<Rightarrow> (nat, nat list) afilter" where
  "tag_filter n m w = Calls m (w @ [n]) (\<lambda>e. case e of Returned w' \<Rightarrow> Ends (Returned (w' @ [n])) | Threw w' \<Rightarrow> Ends (Threw w'))"

definition twice_filter :: "(nat, nat list) afilter" where
  "twice_filter m w = Calls m w (\<lambda>e. Calls m (world_of e) Ends)"

definition two_filters :: "(nat, nat list) filter_manager" where
  "two_filters = new_filter_manager\<lparr>fm_filter_map := [''a'' \<mapsto> tag_filter 1, ''b'' \<mapsto> tag_filter 2, ''c'' \<mapsto> twice_filter]\<rparr>"

theorem filters_run_in_chain_order_witness:
  "\<exists>fm'. foldR (\<lambda>(k, ns). CreateFilterCollectorIfNotExist k ns)
      [(''t'', [''a'', ''b'']), (''t'', [''b'']), (''in'', [''c'', ''a'']), (''out'', [''a'', ''c''])] two_filters = Inr fm' \<and>
    InvokeChannel (GetFilterCollector ''t'' fm') (\<lambda>m w. w @ [m]) 0 [] = [2, 1, 0, 1, 2] \<and>
    InvokeChannel (GetFilterCollector ''in'' fm') (\<lambda>m w. w @ [m]) 0 [] = [1, 0, 0, 1] \<and>
    InvokeChannel (GetFilterCollector ''out'' fm') (\<lambda>m w. w @ [m]) 0 [] = [1, 0, 1, 1]"
proof -
  let ?ks = "[(''t'', [''a'', ''b'']), (''t'', [''b'']), (''in'', [''c'', ''a'']), (''out'', [''a'', ''c''])]"
  have ok: "fm_ok two_filters" "GetFilterNameVec k two_filters = []" for k
    by (simp_all add: two_filters_def fm_ok_def key_ok_def new_filter_manager_def GetFilterNameVec_def)
  obtain fm' where c: "foldR (\<lambda>(k, ns). CreateFilterCollectorIfNotExist k ns) ?ks two_filters = Inr fm'"
    by (simp add: CreateFilterCollectorIfNotExist_def CreateFilterCollector_def two_filters_def new_filter_manager_def)
  note run = filters_run_in_chain_order [OF ok c, of _ "\<lambda>m w. w @ [m]" 0 "[]", THEN conjunct1]
  note evals = run chain_def two_filters_def tag_filter_def twice_filter_def empty_function_def
  have "InvokeChannel (GetFilterCollector ''t'' fm') (\<lambda>m w. w @ [m]) 0 [] = [2, 1, 0, 1, 2]" by (simp add: evals)
  moreover have "InvokeChannel (GetFilterCollector ''in'' fm') (\<lambda>m w. w @ [m]) 0 [] = [1, 0, 0, 1]" by (simp add: evals)
  moreover have "InvokeChannel (GetFilterCollector ''out'' fm') (\<lambda>m w. w @ [m]) 0 [] = [1, 0, 1, 1]" by (simp add: evals)
  ultimately show ?thesis using c by blast
qed

text \<open>
  \<open>Clear\<close> empties the collectors and the filters but not the recorded names, so a manager
  that is filled again reports the old names for a topic.
\<close>

lemma Clear_keeps_names:
  assumes "fm_names_map fm k = Some old" "fm_filter_map fm' = [n \<mapsto> f]"
    and "fm_collector_map fm' = fm_collector_map (Clear fm)" "fm_names_map fm' = fm_names_map (Clear fm)"
  shows "\<exists>fm''. CreateFilterCollectorIfNotExist k [n] fm' = Inr fm'' \<and> GetFilterNameVec k fm'' = old"
  using assms
  by (simp add: CreateFilterCollectorIfNotExist_def CreateFilterCollector_def Clear_def GetFilterNameVec_def)

end
