(* ===== verification/ChannelMsg.thy ===== *)
theory ChannelMsg
  imports Prelude "HOL-Library.AList"
begin

text \<open>
  Messages on their way through a channel (\<open>channel_msg_wrapper.h\<close>,
  \<open>channel_backend_tools.h\<close>): the wrapper that carries a message or serialised copies of it,
  the functions that recover or serialise the message on demand, and the \<open>SubscribeTool\<close>
  through which backends hand received data to subscribers. The type support of a message
  type is generated code outside this part of the program, so it is a record of functions;
  the theorems name what they need of it.
\<close>

section \<open>Data\<close>

type_synonym bytes = "byte list"

record 'm type_support =
  ts_name :: string
  ts_types :: "string list"
  ts_serialize :: "string \<Rightarrow> 'm \<Rightarrow> bytes option"
  ts_deserialize :: "string \<Rightarrow> bytes \<Rightarrow> 'm option"
  ts_copy :: "'m \<Rightarrow> 'm"

definition DefaultSerializationType :: "'m type_support \<Rightarrow> string" where
  "DefaultSerializationType ts = ts_types ts ! 0"

record 'm topic_info =
  ti_msg_type :: string
  ti_topic_name :: string
  ti_pkg_path :: string
  ti_module_name :: string
  ti_index :: nat
  ti_support :: "'m type_support"

record channel_context =
  cx_publisher :: bool
  cx_used :: bool
  cx_meta :: "(string \<times> string) list"

definition GetMetaValue :: "string \<Rightarrow> channel_context \<Rightarrow> string" where
  "GetMetaValue key cx = (case map_of (cx_meta cx) key of Some v \<Rightarrow> v | None \<Rightarrow> [])"

definition SetMetaValue :: "string \<Rightarrow> string \<Rightarrow> channel_context \<Rightarrow> channel_context" where
  "SetMetaValue key val cx = cx\<lparr>cx_meta := AList.update key val (cx_meta cx)\<rparr>"

definition GetMetaKeys :: "channel_context \<Rightarrow> string list" where
  "GetMetaKeys cx = map fst (cx_meta cx)"

definition SetUsed :: "channel_context \<Rightarrow> channel_context" where
  "SetUsed cx = cx\<lparr>cx_used := True\<rparr>"

definition GetSerializationType :: "channel_context \<Rightarrow> string" where
  "GetSerializationType cx = GetMetaValue ''aimrt-serialization_type'' cx"

definition SetSerializationType :: "string \<Rightarrow> channel_context \<Rightarrow> channel_context" where
  "SetSerializationType val cx = SetMetaValue ''aimrt-serialization_type'' val cx"

text \<open>
  The serialisation cache is an unordered map with \<open>emplace\<close>, which keeps an entry that is
  there; the message pointer and the message cache are the message itself.
\<close>

record 'm msg_wrapper =
  mw_info :: "'m topic_info"
  mw_msg :: "'m option"
  mw_ctx :: channel_context
  mw_cache :: "(string \<times> bytes) list"
  mw_msg_cache :: "'m option"

datatype msg_error =
    NullMsgEmptyCache | NullMsgDeserializeFailed | NullMsgNoType | SerializeFailed
  | DeserializeFailed | UnexpectedErrors

definition cache_emplace :: "string \<Rightarrow> bytes \<Rightarrow> (string \<times> bytes) list \<Rightarrow> (string \<times> bytes) list" where
  "cache_emplace k v c = (if map_of c k = None then c @ [(k, v)] else c)"

section \<open>Recovering and serialising the message\<close>

definition recover :: "string \<Rightarrow> bytes \<Rightarrow> 'm msg_wrapper \<Rightarrow> (msg_error, 'm msg_wrapper) result" where
  "recover serialization_type b w =
     (case ts_deserialize (ti_support (mw_info w)) serialization_type b of
        None \<Rightarrow> Inl NullMsgDeserializeFailed
      | Some m \<Rightarrow> Inr (w\<lparr>mw_msg_cache := Some m, mw_msg := Some m\<rparr>))"

fun check_types :: "string list \<Rightarrow> 'm msg_wrapper \<Rightarrow> (msg_error, 'm msg_wrapper) result" where
  "check_types [] w = Inl NullMsgNoType"
| "check_types (t # ts) w =
     (case map_of (mw_cache w) t of
        None \<Rightarrow> check_types ts w
      | Some b \<Rightarrow> recover t b w)"

definition CheckMsg :: "'m msg_wrapper \<Rightarrow> (msg_error, 'm msg_wrapper) result" where
  "CheckMsg w =
     (if mw_msg w \<noteq> None then Inr w
      else if mw_cache w = [] then Inl NullMsgEmptyCache
      else if length (mw_cache w) = 1 then recover (fst (hd (mw_cache w))) (snd (hd (mw_cache w))) w
      else check_types (ts_types (ti_support (mw_info w))) w)"

definition TryCheckMsg :: "'m msg_wrapper \<Rightarrow> bool \<times> 'm msg_wrapper" where
  "TryCheckMsg w = (case CheckMsg w of Inl _ \<Rightarrow> (False, w) | Inr w' \<Rightarrow> (True, w'))"

definition SerializeMsgWithCache ::
  "'m msg_wrapper \<Rightarrow> string \<Rightarrow> (msg_error, bytes \<times> 'm msg_wrapper) result" where
  "SerializeMsgWithCache w serialization_type =
     (case map_of (mw_cache w) serialization_type of
        Some b \<Rightarrow> Inr (b, w)
      | None \<Rightarrow>
          bindR (CheckMsg w) (\<lambda>w.
            case mw_msg w of
              None \<Rightarrow> Inl SerializeFailed
            | Some m \<Rightarrow>
                (case ts_serialize (ti_support (mw_info w)) serialization_type m of
                   None \<Rightarrow> Inl SerializeFailed
                 | Some b \<Rightarrow> Inr (b, w\<lparr>mw_cache := cache_emplace serialization_type b (mw_cache w)\<rparr>))))"

definition TrySerializeMsgWithCache ::
  "'m msg_wrapper \<Rightarrow> string \<Rightarrow> bytes option \<times> 'm msg_wrapper" where
  "TrySerializeMsgWithCache w serialization_type =
     (case SerializeMsgWithCache w serialization_type of
        Inl _ \<Rightarrow> (None, w)
      | Inr (b, w') \<Rightarrow> (Some b, w'))"

section \<open>The subscribe tool\<close>

record 'm subscribe_wrapper =
  sw_info :: "'m topic_info"
  sw_require :: "string list"

record 'm subscribe_tool =
  st_subs :: "'m subscribe_wrapper list"
  st_require :: "string list"

text \<open>
  A callback is observed as a delivery: the subscriber and the wrapper it is called with. A
  call that throws yields the deliveries made before.
\<close>

type_synonym 'm deliveries = "('m subscribe_wrapper \<times> 'm msg_wrapper) list"

definition AddSubscribeWrapper :: "'m subscribe_wrapper \<Rightarrow> 'm subscribe_tool \<Rightarrow> 'm subscribe_tool" where
  "AddSubscribeWrapper s tool =
     tool\<lparr>st_require := st_require tool @ sw_require s, st_subs := st_subs tool @ [s]\<rparr>"

definition sub_msg :: "'m subscribe_wrapper \<Rightarrow> channel_context \<Rightarrow> 'm \<Rightarrow> 'm msg_wrapper" where
  "sub_msg s cx m = \<lparr>mw_info = sw_info s, mw_msg = Some m, mw_ctx = cx, mw_cache = [], mw_msg_cache = Some m\<rparr>"

definition sub_cached :: "'m subscribe_wrapper \<Rightarrow> channel_context \<Rightarrow> string \<Rightarrow> bytes \<Rightarrow> 'm msg_wrapper" where
  "sub_cached s cx t b =
     \<lparr>mw_info = sw_info s, mw_msg = None, mw_ctx = cx, mw_cache = [(t, b)], mw_msg_cache = None\<rparr>"

fun DoSubscribeCallbackWithoutCache ::
  "'m subscribe_wrapper list \<Rightarrow> channel_context \<Rightarrow> string \<Rightarrow> bytes \<Rightarrow> msg_error option \<times> 'm deliveries" where
  "DoSubscribeCallbackWithoutCache [] cx t b = (None, [])"
| "DoSubscribeCallbackWithoutCache (s # ss) cx t b =
     (case ts_deserialize (ti_support (sw_info s)) t b of
        None \<Rightarrow> (Some DeserializeFailed, [])
      | Some m \<Rightarrow>
          (case DoSubscribeCallbackWithoutCache ss cx t b of (e, ds) \<Rightarrow> (e, (s, sub_msg s cx m) # ds)))"

definition DoSubscribeCallbackWithCache ::
  "'m subscribe_wrapper list \<Rightarrow> channel_context \<Rightarrow> string \<Rightarrow> bytes \<Rightarrow> msg_error option \<times> 'm deliveries" where
  "DoSubscribeCallbackWithCache subs cx t b = (None, map (\<lambda>s. (s, sub_cached s cx t b)) subs)"

definition DoSubscribeCallback_msg ::
  "channel_context \<Rightarrow> 'm subscribe_wrapper \<Rightarrow> 'm \<Rightarrow> 'm subscribe_tool \<Rightarrow> msg_error option \<times> 'm deliveries" where
  "DoSubscribeCallback_msg cx s m tool =
     (if st_subs tool = [] \<or> s \<noteq> hd (st_subs tool) then (Some UnexpectedErrors, [])
      else
        let first = (s, sub_msg s cx m) in
        if length (st_subs tool) = 1 then (None, [first])
        else
          let t = DefaultSerializationType (ti_support (sw_info s)) in
          case ts_serialize (ti_support (sw_info s)) t m of
            None \<Rightarrow> (Some SerializeFailed, [first])
          | Some b \<Rightarrow> (None, first # map (\<lambda>s. (s, sub_cached s cx t b)) (tl (st_subs tool))))"

definition DoSubscribeCallback_view ::
  "channel_context \<Rightarrow> string \<Rightarrow> bytes list \<Rightarrow> 'm subscribe_tool \<Rightarrow> msg_error option \<times> 'm deliveries" where
  "DoSubscribeCallback_view cx t view tool =
     (if t \<notin> set (st_require tool) then DoSubscribeCallbackWithoutCache (st_subs tool) cx t (concat view)
      else DoSubscribeCallbackWithCache (st_subs tool) cx t (fold (\<lambda>seg buf. buf @ seg) view []))"

definition DoSubscribeCallback_data ::
  "channel_context \<Rightarrow> string \<Rightarrow> bytes \<Rightarrow> 'm subscribe_tool \<Rightarrow> msg_error option \<times> 'm deliveries" where
  "DoSubscribeCallback_data cx t data tool =
     (if t \<notin> set (st_require tool) then DoSubscribeCallbackWithoutCache (st_subs tool) cx t data
      else DoSubscribeCallbackWithCache (st_subs tool) cx t data)"

section \<open>Coherence\<close>

text \<open>
  A wrapper is coherent for a message \<open>m\<close> when it carries \<open>m\<close> or serialised copies of it, one
  only or at least one in a serialisation type its type support names, and every cached copy
  reads back as \<open>m\<close>.
\<close>

definition coherent :: "'m \<Rightarrow> 'm msg_wrapper \<Rightarrow> bool" where
  "coherent m w \<longleftrightarrow>
     (mw_msg w = Some m \<or>
      mw_msg w = None \<and>
        (length (mw_cache w) = 1 \<or> (\<exists>t \<in> set (ts_types (ti_support (mw_info w))). map_of (mw_cache w) t \<noteq> None))) \<and>
     distinct (map fst (mw_cache w)) \<and>
     (\<forall>(t, b) \<in> set (mw_cache w). ts_deserialize (ti_support (mw_info w)) t b = Some m)"

text \<open>What the program relies on: a type support reads back what it has written.\<close>

definition codec :: "'m type_support \<Rightarrow> bool" where
  "codec ts \<longleftrightarrow> (\<forall>t m b. ts_serialize ts t m = Some b \<longrightarrow> ts_deserialize ts t b = Some m)"

lemma check_types_coherent:
  assumes "\<forall>(t, b) \<in> set (mw_cache w). ts_deserialize (ti_support (mw_info w)) t b = Some m"
    and "\<exists>t \<in> set ts. map_of (mw_cache w) t \<noteq> None"
  shows "check_types ts w = Inr (w\<lparr>mw_msg_cache := Some m, mw_msg := Some m\<rparr>)"
  using assms(2)
proof (induction ts)
  case (Cons t ts)
  show ?case
  proof (cases "map_of (mw_cache w) t")
    case (Some b)
    then have "ts_deserialize (ti_support (mw_info w)) t b = Some m"
      using assms(1) map_of_SomeD by fastforce
    then show ?thesis using Some by (simp add: recover_def)
  qed (use Cons in auto)
qed simp

lemma CheckMsg_coherent:
  assumes "coherent m w"
  shows "\<exists>w'. CheckMsg w = Inr w' \<and> mw_msg w' = Some m \<and> mw_cache w' = mw_cache w \<and>
    mw_info w' = mw_info w \<and> coherent m w'"
proof (cases "mw_msg w")
  case None
  let ?w' = "w\<lparr>mw_msg_cache := Some m, mw_msg := Some m\<rparr>"
  have rd: "\<forall>(t, b) \<in> set (mw_cache w). ts_deserialize (ti_support (mw_info w)) t b = Some m"
    and sup: "length (mw_cache w) \<noteq> 1 \<Longrightarrow> \<exists>t \<in> set (ts_types (ti_support (mw_info w))). map_of (mw_cache w) t \<noteq> None"
    using assms None unfolding coherent_def by (simp_all del: map_of_eq_Some_iff)
  then have ne: "mw_cache w \<noteq> []" by auto
  have "CheckMsg w = Inr ?w'"
  proof (cases "length (mw_cache w) = 1")
    case True
    then obtain t b where "mw_cache w = [(t, b)]" by (auto simp: length_Suc_conv)
    then show ?thesis using None rd by (simp add: CheckMsg_def recover_def)
  next
    case False
    then show ?thesis using None ne check_types_coherent [OF rd sup] by (simp add: CheckMsg_def)
  qed
  then show ?thesis using assms by (auto simp: coherent_def)
qed (use assms in \<open>auto simp: CheckMsg_def coherent_def\<close>)

lemma cache_emplace_set: "map_of c k = None \<Longrightarrow> cache_emplace k v c = c @ [(k, v)]"
  by (simp add: cache_emplace_def)

text \<open>Serialising: from the cache, or from the message, which is recovered first; both ways succeed.\<close>

lemma SerializeMsgWithCache_total:
  assumes "coherent m w" "codec (ti_support (mw_info w))" "t \<in> set (ts_types (ti_support (mw_info w)))"
    and "map_of (mw_cache w) t \<noteq> None \<or> ts_serialize (ti_support (mw_info w)) t m \<noteq> None"
  shows "\<exists>b w'. SerializeMsgWithCache w t = Inr (b, w') \<and> coherent m w' \<and> mw_info w' = mw_info w \<and>
    map_of (mw_cache w') t = Some b \<and> ts_deserialize (ti_support (mw_info w)) t b = Some m"
proof (cases "map_of (mw_cache w) t")
  case (Some b)
  then have "ts_deserialize (ti_support (mw_info w)) t b = Some m"
    using assms(1) map_of_SomeD [OF Some] by (auto simp: coherent_def)
  then show ?thesis using assms(1) Some by (simp add: SerializeMsgWithCache_def)
next
  case None
  obtain w1 where w1: "CheckMsg w = Inr w1" "mw_msg w1 = Some m" "mw_cache w1 = mw_cache w"
    "mw_info w1 = mw_info w" "coherent m w1" using CheckMsg_coherent [OF assms(1)] by blast
  obtain b where b: "ts_serialize (ti_support (mw_info w)) t m = Some b" using assms(4) None by auto
  then have d: "ts_deserialize (ti_support (mw_info w)) t b = Some m" using assms(2) by (simp add: codec_def)
  let ?w' = "w1\<lparr>mw_cache := mw_cache w @ [(t, b)]\<rparr>"
  have "SerializeMsgWithCache w t = Inr (b, ?w')"
    using None w1 b by (simp add: SerializeMsgWithCache_def cache_emplace_set)
  moreover have "coherent m ?w'" using w1(2-5) d None by (auto simp: coherent_def map_of_eq_None_iff)
  moreover have "map_of (mw_cache ?w') t = Some b" using None by (simp add: map_add_Some_iff)
  ultimately show ?thesis using w1(4) d by auto
qed

lemma SerializeMsgWithCache_fails:
  assumes "coherent m w" "map_of (mw_cache w) t = None" "ts_serialize (ti_support (mw_info w)) t m = None"
  shows "SerializeMsgWithCache w t = Inl SerializeFailed"
proof -
  obtain w1 where "CheckMsg w = Inr w1" "mw_msg w1 = Some m" "mw_info w1 = mw_info w"
    using CheckMsg_coherent [OF assms(1)] by blast
  then show ?thesis using assms(2,3) by (simp add: SerializeMsgWithCache_def)
qed

lemma SerializeMsgWithCache_coherent:
  assumes "coherent m w" "codec (ti_support (mw_info w))" "t \<in> set (ts_types (ti_support (mw_info w)))"
    and "SerializeMsgWithCache w t = Inr (b, w')"
  shows "ts_deserialize (ti_support (mw_info w)) t b = Some m \<and> coherent m w' \<and>
    SerializeMsgWithCache w' t = Inr (b, w')"
proof -
  have "map_of (mw_cache w) t \<noteq> None \<or> ts_serialize (ti_support (mw_info w)) t m \<noteq> None"
    using SerializeMsgWithCache_fails [OF assms(1), of t] assms(4) by (metis Inl_Inr_False)
  from SerializeMsgWithCache_total [OF assms(1-3) this] assms(4) show ?thesis
    by (auto simp: SerializeMsgWithCache_def)
qed

lemma CheckMsg_frame: "CheckMsg w = Inr w' \<Longrightarrow> mw_ctx w' = mw_ctx w \<and> mw_info w' = mw_info w"
proof -
  have r: "recover t b w = Inr w' \<Longrightarrow> mw_ctx w' = mw_ctx w \<and> mw_info w' = mw_info w" for t b
    by (auto simp: recover_def split: option.splits)
  have c: "check_types ts w = Inr w' \<Longrightarrow> mw_ctx w' = mw_ctx w \<and> mw_info w' = mw_info w" for ts
    by (induction ts) (auto dest: r split: option.splits)
  show "CheckMsg w = Inr w' \<Longrightarrow> mw_ctx w' = mw_ctx w \<and> mw_info w' = mw_info w"
    using r c by (auto simp: CheckMsg_def split: if_splits)
qed

lemma SerializeMsgWithCache_frame:
  "SerializeMsgWithCache w t = Inr (b, w') \<Longrightarrow> mw_ctx w' = mw_ctx w \<and> mw_info w' = mw_info w"
  by (cases "map_of (mw_cache w) t"; cases "CheckMsg w")
    (auto simp: SerializeMsgWithCache_def dest!: CheckMsg_frame split: option.split_asm)


text \<open>A type support for numbers below 256, used as an example.\<close>

definition number_support :: "nat type_support" where
  "number_support =
     \<lparr>ts_name = ''number'', ts_types = [''bin'', ''rev''],
      ts_serialize = (\<lambda>t m. if m < 256 then Some [of_nat m] else None),
      ts_deserialize = (\<lambda>t b. case b of [x] \<Rightarrow> Some (unat x) | _ \<Rightarrow> None),
      ts_copy = (\<lambda>m. m)\<rparr>"

definition number_info :: "string \<Rightarrow> nat topic_info" where
  "number_info module =
     \<lparr>ti_msg_type = ''number'', ti_topic_name = ''t'', ti_pkg_path = ''p'', ti_module_name = module,
      ti_index = 1, ti_support = number_support\<rparr>"

lemma number_support_codec: "codec number_support"
  by (auto simp: codec_def number_support_def unat_of_nat split: if_splits)

definition sub_context :: channel_context where
  "sub_context = \<lparr>cx_publisher = False, cx_used = False, cx_meta = []\<rparr>"

definition number_sub :: "string \<Rightarrow> nat subscribe_wrapper" where
  "number_sub module = \<lparr>sw_info = number_info module, sw_require = [''bin'']\<rparr>"

text \<open>Two cached copies, the only supported type last: the message is recovered from it.\<close>

definition cached_wrapper :: "nat msg_wrapper" where
  "cached_wrapper = \<lparr>mw_info = number_info ''a'', mw_msg = None, mw_ctx = sub_context,
     mw_cache = [(''old'', [7]), (''rev'', [7])], mw_msg_cache = None\<rparr>"


section \<open>Delivery\<close>

lemma view_concat: "fold (\<lambda>seg buf. buf @ seg) view [] = concat view"
proof -
  have "fold (\<lambda>seg buf. buf @ seg) view acc = acc @ concat view" for acc :: "'a list"
    by (induction view arbitrary: acc) simp_all
  then show ?thesis by simp
qed

text \<open>\<open>gets m s w\<close>: the callback of \<open>s\<close> is called with its own info and finds \<open>m\<close>.\<close>

definition gets :: "'m \<Rightarrow> 'm subscribe_wrapper \<Rightarrow> 'm msg_wrapper \<Rightarrow> bool" where
  "gets m s w \<longleftrightarrow> mw_info w = sw_info s \<and> (\<exists>w'. CheckMsg w = Inr w' \<and> mw_msg w' = Some m)"

lemma gets_sub_msg: "gets m s (sub_msg s cx m)"
  by (simp add: gets_def sub_msg_def CheckMsg_def)

lemma gets_sub_cached:
  "ts_deserialize (ti_support (sw_info s)) t b = Some m \<Longrightarrow> gets m s (sub_cached s cx t b)"
  by (simp add: gets_def sub_cached_def CheckMsg_def recover_def)

lemma WithoutCache_delivers:
  "\<forall>s \<in> set subs. ts_deserialize (ti_support (sw_info s)) t b = Some (f s) \<Longrightarrow>
   DoSubscribeCallbackWithoutCache subs cx t b = (None, map (\<lambda>s. (s, sub_msg s cx (f s))) subs)"
  by (induction subs) auto

text \<open>The subscribers of a message's topic and type, and the type it is serialised in.\<close>

definition on_topic :: "'m msg_wrapper \<Rightarrow> 'm subscribe_wrapper \<Rightarrow> bool" where
  "on_topic w s \<longleftrightarrow> ti_msg_type (sw_info s) = ti_msg_type (mw_info w) \<and>
     ti_topic_name (sw_info s) = ti_topic_name (mw_info w)"

definition publish_type :: "'m msg_wrapper \<Rightarrow> string" where
  "publish_type w = (if GetSerializationType (mw_ctx w) = [] then DefaultSerializationType (ti_support (mw_info w))
     else GetSerializationType (mw_ctx w))"

text \<open>
  Received data reaches every subscriber of a tool once, in the order of registration,
  and each finds the message the data stand for, whether the tool hands out copies or the
  shared buffer and however the buffer is cut into segments.
\<close>

theorem SubscribeTool_delivers:
  assumes "\<forall>s \<in> set (st_subs tool). ts_deserialize (ti_support (sw_info s)) t (concat view) = Some (f s)"
  shows "\<exists>ds. DoSubscribeCallback_view cx t view tool = (None, ds) \<and>
    DoSubscribeCallback_data cx t (concat view) tool = (None, ds) \<and>
    map fst ds = st_subs tool \<and> (\<forall>(s, w) \<in> set ds. gets (f s) s w)"
proof -
  let ?ds = "if t \<notin> set (st_require tool) then map (\<lambda>s. (s, sub_msg s cx (f s))) (st_subs tool)
    else map (\<lambda>s. (s, sub_cached s cx t (concat view))) (st_subs tool)"
  have "map fst ?ds = st_subs tool" by (simp add: comp_def)
  moreover have "\<forall>(s, w) \<in> set ?ds. gets (f s) s w"
    using assms by (auto intro: gets_sub_msg gets_sub_cached)
  moreover have "DoSubscribeCallback_view cx t view tool = (None, ?ds)"
    "DoSubscribeCallback_data cx t (concat view) tool = (None, ?ds)"
    using WithoutCache_delivers [OF assms]
    by (simp_all add: DoSubscribeCallback_view_def DoSubscribeCallback_data_def DoSubscribeCallbackWithCache_def view_concat)
  ultimately show ?thesis by blast
qed

definition number_tool :: "nat subscribe_tool" where
  "number_tool = AddSubscribeWrapper (number_sub ''b'')
     (AddSubscribeWrapper (number_sub ''a'') \<lparr>st_subs = [], st_require = []\<rparr>)"

theorem SubscribeTool_delivers_witness:
  "\<exists>ds. DoSubscribeCallback_view sub_context ''bin'' [[], [7]] number_tool = (None, ds) \<and>
    map fst ds = [number_sub ''a'', number_sub ''b'']"
proof -
  have *: "\<forall>s \<in> set (st_subs number_tool). ts_deserialize (ti_support (sw_info s)) ''bin'' (concat [[], [7]]) = Some 7"
    by (simp add: number_tool_def AddSubscribeWrapper_def number_sub_def number_info_def number_support_def)
  then show ?thesis using SubscribeTool_delivers [of number_tool "''bin''" "[[], [7]]" "\<lambda>_. 7" sub_context]
    by (auto simp: number_tool_def AddSubscribeWrapper_def)
qed

end
