(* ===== verification/Registry.thy ===== *)
theory Registry
  imports ChannelMsg
begin

text \<open>
  The registries of channels (\<open>channel_registry.cc\<close>) and remote calls (\<open>rpc_registry.cc\<close>). A
  registry owns the wrappers under their full key and keeps index maps of pointers into it; a
  pointer is modelled by the wrapper it points to, which never changes once registered. What
  the backends rely on is stated once, as a locale, for all four tables.
\<close>

section \<open>The channel registry\<close>

record chan_key =
  k_msg_type :: string
  k_topic_name :: string
  k_pkg_path :: string
  k_module_name :: string

record 'm publish_type_wrapper =
  pw_info :: "'m topic_info"
  pw_require :: "string list"

record 'm channel_registry =
  cr_pub :: "chan_key \<Rightarrow> 'm publish_type_wrapper option"
  cr_pub_topic_index :: "string \<Rightarrow> 'm publish_type_wrapper list"
  cr_sub :: "chan_key \<Rightarrow> 'm subscribe_wrapper option"
  cr_sub_topic_index :: "string \<Rightarrow> 'm subscribe_wrapper list"
  cr_sub_mtp_index :: "string \<times> string \<times> string \<Rightarrow> (string \<times> 'm subscribe_wrapper) list option"

definition new_channel_registry :: "'m channel_registry" where
  "new_channel_registry =
     \<lparr>cr_pub = (\<lambda>_. None), cr_pub_topic_index = (\<lambda>_. []), cr_sub = (\<lambda>_. None),
      cr_sub_topic_index = (\<lambda>_. []), cr_sub_mtp_index = (\<lambda>_. None)\<rparr>"

definition info_key :: "'m topic_info \<Rightarrow> chan_key" where
  "info_key info =
     \<lparr>k_msg_type = ti_msg_type info, k_topic_name = ti_topic_name info,
      k_pkg_path = ti_pkg_path info, k_module_name = ti_module_name info\<rparr>"

definition RegisterPublishType :: "'m publish_type_wrapper \<Rightarrow> 'm channel_registry \<Rightarrow> bool \<times> 'm channel_registry" where
  "RegisterPublishType w r =
     (let key = info_key (pw_info w) in
      case cr_pub r key of
        Some _ \<Rightarrow> (False, r)
      | None \<Rightarrow>
          (True, r\<lparr>cr_pub := (cr_pub r)(key \<mapsto> w),
                   cr_pub_topic_index := (cr_pub_topic_index r)
                     (k_topic_name key := cr_pub_topic_index r (k_topic_name key) @ [w])\<rparr>))"

definition Subscribe :: "'m subscribe_wrapper \<Rightarrow> 'm channel_registry \<Rightarrow> bool \<times> 'm channel_registry" where
  "Subscribe w r =
     (let key = info_key (sw_info w) in
      case cr_sub r key of
        Some _ \<Rightarrow> (False, r)
      | None \<Rightarrow>
          let m_t_p_key = (k_msg_type key, k_topic_name key, k_pkg_path key);
              modules = (case cr_sub_mtp_index r m_t_p_key of None \<Rightarrow> [] | Some m \<Rightarrow> m)
          in (True, r\<lparr>cr_sub := (cr_sub r)(key \<mapsto> w),
                      cr_sub_topic_index := (cr_sub_topic_index r)
                        (k_topic_name key := cr_sub_topic_index r (k_topic_name key) @ [w]),
                      cr_sub_mtp_index := (cr_sub_mtp_index r)
                        (m_t_p_key \<mapsto> AList.update (k_module_name key) w modules)\<rparr>))"

definition GetSubscribeWrapperPtr ::
  "string \<Rightarrow> string \<Rightarrow> string \<Rightarrow> string \<Rightarrow> 'm channel_registry \<Rightarrow> 'm subscribe_wrapper option" where
  "GetSubscribeWrapperPtr msg_type topic_name pkg_path module_name r =
     cr_sub r \<lparr>k_msg_type = msg_type, k_topic_name = topic_name, k_pkg_path = pkg_path, k_module_name = module_name\<rparr>"

definition GetModuleSubscribeWrapperMapPtr ::
  "string \<Rightarrow> string \<Rightarrow> string \<Rightarrow> 'm channel_registry \<Rightarrow> (string \<times> 'm subscribe_wrapper) list option" where
  "GetModuleSubscribeWrapperMapPtr msg_type topic_name pkg_path r =
     cr_sub_mtp_index r (msg_type, topic_name, pkg_path)"

definition GetPublishTypeWrapperPtr ::
  "string \<Rightarrow> string \<Rightarrow> string \<Rightarrow> string \<Rightarrow> 'm channel_registry \<Rightarrow> 'm publish_type_wrapper option" where
  "GetPublishTypeWrapperPtr msg_type topic_name pkg_path module_name r =
     cr_pub r \<lparr>k_msg_type = msg_type, k_topic_name = topic_name, k_pkg_path = pkg_path, k_module_name = module_name\<rparr>"

section \<open>The rpc registry\<close>

record ('q, 'p) func_info =
  fi_func_name :: string
  fi_pkg_path :: string
  fi_module_name :: string
  fi_index :: nat
  fi_req_support :: "'q type_support"
  fi_rsp_support :: "'p type_support"

text \<open>The service function of a wrapper is known by the identity of its service.\<close>

record ('q, 'p) service_func_wrapper =
  sf_info :: "('q, 'p) func_info"
  sf_service_func :: nat

record ('q, 'p) client_func_wrapper =
  cf_info :: "('q, 'p) func_info"

record func_key =
  fk_func_name :: string
  fk_pkg_path :: string
  fk_module_name :: string

record ('q, 'p) rpc_registry =
  rr_service :: "func_key \<Rightarrow> ('q, 'p) service_func_wrapper option"
  rr_service_index :: "string \<Rightarrow> ('q, 'p) service_func_wrapper list"
  rr_client :: "func_key \<Rightarrow> ('q, 'p) client_func_wrapper option"
  rr_client_index :: "string \<Rightarrow> ('q, 'p) client_func_wrapper list"

definition new_rpc_registry :: "('q, 'p) rpc_registry" where
  "new_rpc_registry =
     \<lparr>rr_service = (\<lambda>_. None), rr_service_index = (\<lambda>_. []), rr_client = (\<lambda>_. None), rr_client_index = (\<lambda>_. [])\<rparr>"

definition func_key_of :: "('q, 'p) func_info \<Rightarrow> func_key" where
  "func_key_of info =
     \<lparr>fk_func_name = fi_func_name info, fk_pkg_path = fi_pkg_path info, fk_module_name = fi_module_name info\<rparr>"

definition RegisterServiceFunc ::
  "('q, 'p) service_func_wrapper \<Rightarrow> ('q, 'p) rpc_registry \<Rightarrow> bool \<times> ('q, 'p) rpc_registry" where
  "RegisterServiceFunc w r =
     (let key = func_key_of (sf_info w) in
      case rr_service r key of
        Some _ \<Rightarrow> (False, r)
      | None \<Rightarrow>
          (True, r\<lparr>rr_service := (rr_service r)(key \<mapsto> w),
                   rr_service_index := (rr_service_index r)
                     (fk_func_name key := rr_service_index r (fk_func_name key) @ [w])\<rparr>))"

definition RegisterClientFunc ::
  "('q, 'p) client_func_wrapper \<Rightarrow> ('q, 'p) rpc_registry \<Rightarrow> bool \<times> ('q, 'p) rpc_registry" where
  "RegisterClientFunc w r =
     (let key = func_key_of (cf_info w) in
      case rr_client r key of
        Some _ \<Rightarrow> (False, r)
      | None \<Rightarrow>
          (True, r\<lparr>rr_client := (rr_client r)(key \<mapsto> w),
                   rr_client_index := (rr_client_index r)
                     (fk_func_name key := rr_client_index r (fk_func_name key) @ [w])\<rparr>))"

definition GetServiceFuncWrapperPtr ::
  "string \<Rightarrow> string \<Rightarrow> string \<Rightarrow> ('q, 'p) rpc_registry \<Rightarrow> ('q, 'p) service_func_wrapper option" where
  "GetServiceFuncWrapperPtr func_name pkg_path module_name r =
     rr_service r \<lparr>fk_func_name = func_name, fk_pkg_path = pkg_path, fk_module_name = module_name\<rparr>"

definition GetClientFuncWrapperPtr ::
  "string \<Rightarrow> string \<Rightarrow> string \<Rightarrow> ('q, 'p) rpc_registry \<Rightarrow> ('q, 'p) client_func_wrapper option" where
  "GetClientFuncWrapperPtr func_name pkg_path module_name r =
     rr_client r \<lparr>fk_func_name = func_name, fk_pkg_path = pkg_path, fk_module_name = module_name\<rparr>"

section \<open>The contract of a table\<close>

text \<open>
  The entries a sequence of registrations leaves: the first one for every key, in order.
\<close>

fun keep_first :: "('w \<Rightarrow> 'k) \<Rightarrow> 'w list \<Rightarrow> 'w list" where
  "keep_first key [] = []"
| "keep_first key (w # ws) = w # filter (\<lambda>v. key v \<noteq> key w) (keep_first key ws)"

lemma keep_first_find: "List.find (\<lambda>w. key w = k) (keep_first key ws) = List.find (\<lambda>w. key w = k) ws"
proof (induction ws)
  case (Cons w ws)
  have "List.find (\<lambda>v. key v = k) (filter (\<lambda>v. key v \<noteq> key w) vs) = List.find (\<lambda>v. key v = k) vs" if "key w \<noteq> k" for vs
    using that by (induction vs) auto
  with Cons show ?case by auto
qed simp

lemma keep_first_snoc:
  "keep_first key (ws @ [w]) =
   (if List.find (\<lambda>v. key v = key w) ws = None then keep_first key ws @ [w] else keep_first key ws)"
proof (induction ws)
  case (Cons v ws)
  then show ?case by (cases "key v = key w") (auto simp: find_None_iff)
qed simp

lemma keep_first_distinct: "distinct (map key (keep_first key ws))"
  by (induction ws) (auto simp: distinct_map_filter)

text \<open>
  A table with a registration operation, a lookup by key and an index list per name. From the
  laws of one registration the locale derives what any sequence of registrations leaves.
\<close>

locale table =
  fixes key :: "'w \<Rightarrow> 'k" and name_of :: "'k \<Rightarrow> string"
    and register :: "'w \<Rightarrow> 'r \<Rightarrow> bool \<times> 'r"
    and look :: "'r \<Rightarrow> 'k \<Rightarrow> 'w option" and index :: "'r \<Rightarrow> string \<Rightarrow> 'w list"
  assumes register_new: "look r (key w) = None \<Longrightarrow> register w r = (b, r') \<Longrightarrow>
      b \<and> look r' = (look r)(key w \<mapsto> w) \<and>
      index r' = (index r)(name_of (key w) := index r (name_of (key w)) @ [w])"
    and register_again: "look r (key w) \<noteq> None \<Longrightarrow> register w r = (False, r)"
begin

definition registers :: "'w list \<Rightarrow> 'r \<Rightarrow> 'r" where
  "registers ws r = fold (\<lambda>w r. snd (register w r)) ws r"

definition empty_table :: "'r \<Rightarrow> bool" where
  "empty_table r \<longleftrightarrow> look r = (\<lambda>_. None) \<and> index r = (\<lambda>_. [])"

lemma registers_look_index:
  assumes "empty_table r"
  shows "look (registers ws r) = (\<lambda>k. List.find (\<lambda>w. key w = k) ws) \<and>
    index (registers ws r) = (\<lambda>n. filter (\<lambda>w. name_of (key w) = n) (keep_first key ws))"
proof (induction ws rule: rev_induct)
  case Nil
  then show ?case using assms by (simp add: registers_def empty_table_def)
next
  case (snoc w ws)
  let ?r = "registers ws r"
  have step: "registers (ws @ [w]) r = snd (register w ?r)" by (simp add: registers_def)
  have find_snoc: "List.find P (ws @ [w]) = (case List.find P ws of Some x \<Rightarrow> Some x | None \<Rightarrow> if P w then Some w else None)" for P
    by (induction ws) auto
  show ?case
  proof (cases "look ?r (key w)")
    case None
    obtain b r' where r': "register w ?r = (b, r')" by fastforce
    have n: "List.find (\<lambda>v. key v = key w) ws = None" using None snoc by simp
    note new = register_new [OF None r']
    have "look r' k = List.find (\<lambda>w. key w = k) (ws @ [w])" for k
      using new snoc n by (cases "k = key w") (auto simp: find_snoc split: option.splits)
    moreover have "index r' m = filter (\<lambda>w. name_of (key w) = m) (keep_first key (ws @ [w]))" for m
      using new snoc n by (simp add: keep_first_snoc)
    ultimately show ?thesis by (simp add: step r' fun_eq_iff)
  next
    case (Some v)
    then have "register w ?r = (False, ?r)" using register_again by simp
    moreover have f: "List.find (\<lambda>v. key v = key w) ws = Some v" using Some snoc by simp
    moreover have "List.find (\<lambda>w. key w = k) (ws @ [w]) = List.find (\<lambda>w. key w = k) ws" for k
      using f by (auto simp: find_snoc split: option.splits)
    ultimately show ?thesis using snoc by (simp add: step keep_first_snoc)
  qed
qed

lemma index_complete:
  assumes "empty_table r"
  shows "set (index (registers ws r) n) = {w. \<exists>k. look (registers ws r) k = Some w \<and> name_of k = n \<and> key w = k}"
proof -
  let ?l = "keep_first key ws"
  have d: "distinct (map key ?l)" by (rule keep_first_distinct)
  have "w \<in> set ?l \<longleftrightarrow> List.find (\<lambda>v. key v = key w) ?l = Some w" for w
  proof
    assume "w \<in> set ?l"
    then obtain i where i: "i < length ?l" "?l ! i = w" by (auto simp: in_set_conv_nth)
    have "key (?l ! j) \<noteq> key w" if "j < i" for j
      using d that i by (auto simp: distinct_conv_nth)
    then show "List.find (\<lambda>v. key v = key w) ?l = Some w" using i by (auto simp: find_Some_iff)
  qed (auto simp: find_Some_iff)
  then show ?thesis
    using registers_look_index [OF assms, of ws] by (auto simp: keep_first_find)
qed

end

interpretation sub: table "\<lambda>w. info_key (sw_info w)" k_topic_name Subscribe cr_sub cr_sub_topic_index
  by unfold_locales (auto simp: Subscribe_def Let_def split: option.splits)

interpretation pub: table "\<lambda>w. info_key (pw_info w)" k_topic_name RegisterPublishType cr_pub cr_pub_topic_index
  by unfold_locales (auto simp: RegisterPublishType_def Let_def split: option.splits)

interpretation service: table "\<lambda>w. func_key_of (sf_info w)" fk_func_name RegisterServiceFunc rr_service rr_service_index
  by unfold_locales (auto simp: RegisterServiceFunc_def Let_def split: option.splits)

interpretation client: table "\<lambda>w. func_key_of (cf_info w)" fk_func_name RegisterClientFunc rr_client rr_client_index
  by unfold_locales (auto simp: RegisterClientFunc_def Let_def split: option.splits)

section \<open>What registrations leave behind\<close>

text \<open>The index by message type, topic and package agrees with the table.\<close>

definition entry_ok :: "(string \<times> 'w) list option \<Rightarrow> (string \<Rightarrow> 'w option) \<Rightarrow> bool" where
  "entry_ok e g \<longleftrightarrow>
     (case e of
        None \<Rightarrow> \<forall>md. g md = None
      | Some f \<Rightarrow> f \<noteq> [] \<and> distinct (map fst f) \<and> (\<forall>md. map_of f md = g md))"

definition mtp_ok :: "'m channel_registry \<Rightarrow> bool" where
  "mtp_ok r \<longleftrightarrow> (\<forall>m t p. entry_ok (cr_sub_mtp_index r (m, t, p)) (\<lambda>md. GetSubscribeWrapperPtr m t p md r))"

lemma mtp_ok_new: "mtp_ok new_channel_registry"
  by (simp add: mtp_ok_def entry_ok_def new_channel_registry_def GetSubscribeWrapperPtr_def)

lemma AList_update_nonempty: "AList.update k v l \<noteq> []"
  by (cases l) auto

lemma Subscribe_mtp_ok [inv_intros]:
  assumes "mtp_ok r"
  shows "mtp_ok (snd (Subscribe w r))"
proof (cases "cr_sub r (info_key (sw_info w))")
  case None
  let ?k = "info_key (sw_info w)" and ?r' = "snd (Subscribe w r)"
  let ?mtp = "(k_msg_type ?k, k_topic_name ?k, k_pkg_path ?k)"
  let ?old = "\<lambda>key. case cr_sub_mtp_index r key of None \<Rightarrow> [] | Some f \<Rightarrow> f"
  have old: "map_of (?old (m, t, p)) md = GetSubscribeWrapperPtr m t p md r \<and> distinct (map fst (?old (m, t, p)))" for m t p md
  proof -
    have "entry_ok (cr_sub_mtp_index r (m, t, p)) (\<lambda>md. GetSubscribeWrapperPtr m t p md r)"
      using assms by (simp add: mtp_ok_def)
    then show ?thesis by (simp add: entry_ok_def split: option.splits)
  qed
  have sub: "cr_sub ?r' = (cr_sub r)(?k \<mapsto> w)"
    and idx: "cr_sub_mtp_index ?r' = (cr_sub_mtp_index r)(?mtp \<mapsto> AList.update (k_module_name ?k) w (?old ?mtp))"
    using None by (simp_all add: Subscribe_def Let_def)
  have get: "GetSubscribeWrapperPtr m t p md ?r' =
      (if (m, t, p) = ?mtp \<and> md = k_module_name ?k then Some w else GetSubscribeWrapperPtr m t p md r)" for m t p md
    by (auto simp: GetSubscribeWrapperPtr_def sub info_key_def)
  have "entry_ok (cr_sub_mtp_index ?r' (m, t, p)) (\<lambda>md. GetSubscribeWrapperPtr m t p md ?r')" for m t p
  proof (cases "(m, t, p) = ?mtp")
    case True
    have "AList.update (k_module_name ?k) w (?old ?mtp) \<noteq> []" by (rule AList_update_nonempty)
    then show ?thesis using True old [of m t p] by (simp add: idx get entry_ok_def AList.distinct_update update_conv')
  next
    case False
    then have "(\<lambda>md. GetSubscribeWrapperPtr m t p md ?r') = (\<lambda>md. GetSubscribeWrapperPtr m t p md r)"
      by (auto simp: get fun_eq_iff)
    moreover have "cr_sub_mtp_index ?r' (m, t, p) = cr_sub_mtp_index r (m, t, p)"
      unfolding idx using False by (rule fun_upd_other)
    ultimately show ?thesis using assms by (simp only: mtp_ok_def)
  qed
  then show ?thesis by (simp add: mtp_ok_def)
qed (use assms in \<open>simp add: Subscribe_def Let_def\<close>)

lemma RegisterPublishType_mtp_ok [inv_intros]: "mtp_ok r \<Longrightarrow> mtp_ok (snd (RegisterPublishType w r))"
  by (cases "cr_pub r (info_key (pw_info w))")
    (simp_all add: RegisterPublishType_def mtp_ok_def GetSubscribeWrapperPtr_def Let_def)

text \<open>
  C26. After any sequence of subscriptions the registry answers with the first subscriber of
  every key; the topic index lists exactly these subscribers, in order and without repetition,
  and the map of a message type, topic and package holds exactly its modules and is never
  empty.
\<close>

theorem subscriptions_indexed:
  assumes "r = fold (\<lambda>w r. snd (Subscribe w r)) ws new_channel_registry"
  shows "cr_sub r = (\<lambda>k. List.find (\<lambda>w. info_key (sw_info w) = k) ws) \<and>
    cr_sub_topic_index r n =
      filter (\<lambda>w. ti_topic_name (sw_info w) = n) (keep_first (\<lambda>w. info_key (sw_info w)) ws) \<and>
    (case GetModuleSubscribeWrapperMapPtr m t p r of
       None \<Rightarrow> \<forall>md. GetSubscribeWrapperPtr m t p md r = None
     | Some f \<Rightarrow> f \<noteq> [] \<and> distinct (map fst f) \<and> (\<forall>md. map_of f md = GetSubscribeWrapperPtr m t p md r))"
proof -
  have e: "sub.empty_table new_channel_registry" by (simp add: sub.empty_table_def new_channel_registry_def)
  have r: "r = sub.registers ws new_channel_registry" by (simp add: assms sub.registers_def)
  have "mtp_ok (fold (\<lambda>w r. snd (Subscribe w r)) vs q)" if "mtp_ok q" for vs and q :: "'a channel_registry"
    using that by (induction vs arbitrary: q) (auto intro: Subscribe_mtp_ok)
  then have "mtp_ok r" using mtp_ok_new by (simp add: assms)
  then have "entry_ok (GetModuleSubscribeWrapperMapPtr m t p r) (\<lambda>md. GetSubscribeWrapperPtr m t p md r)"
    by (simp add: mtp_ok_def GetModuleSubscribeWrapperMapPtr_def)
  then have "case GetModuleSubscribeWrapperMapPtr m t p r of
       None \<Rightarrow> \<forall>md. GetSubscribeWrapperPtr m t p md r = None
     | Some f \<Rightarrow> f \<noteq> [] \<and> distinct (map fst f) \<and> (\<forall>md. map_of f md = GetSubscribeWrapperPtr m t p md r)"
    unfolding entry_ok_def .
  then show ?thesis using sub.registers_look_index [OF e, of ws] unfolding r
    by (simp add: info_key_def)
qed

theorem subscriptions_indexed_witness:
  "cr_sub_topic_index (fold (\<lambda>w r. snd (Subscribe w r)) [number_sub ''a'', number_sub ''b'', number_sub ''a''] new_channel_registry) ''t''
   = [number_sub ''a'', number_sub ''b'']"
  using subscriptions_indexed [OF refl, of "[number_sub ''a'', number_sub ''b'', number_sub ''a'']" "''t''"]
  by (simp add: number_sub_def number_info_def info_key_def)

end
