(* ===== verification/LocalChannel.thy ===== *)
theory LocalChannel
  imports Registry Lifecycle
begin

text \<open>
  The local channel backend (\<open>local_channel_backend.cc\<close>): it delivers a published message to
  the subscribers of the same process, sharing one copy of the message inside the publisher's
  package and a serialised form with the other packages. Its nested index is an association
  list per level; the order of an unordered map is the order of the list. The callbacks made,
  at once or through the subscriber executor, are the result of \<open>Publish\<close>.
\<close>

section \<open>State and life cycle\<close>

record lcb_options =
  lo_subscriber_use_inline_executor :: bool
  lo_subscriber_executor :: string

record lcb_node =
  ln_use_inline :: "bool option"
  ln_executor :: "string option"

definition lcb_encode :: "lcb_options \<Rightarrow> lcb_node" where
  "lcb_encode rhs =
     \<lparr>ln_use_inline = Some (lo_subscriber_use_inline_executor rhs),
      ln_executor = (if \<not> lo_subscriber_use_inline_executor rhs then Some (lo_subscriber_executor rhs) else None)\<rparr>"

text \<open>A required key that is missing makes the conversion throw (\<open>None\<close>).\<close>

definition lcb_decode :: "lcb_node \<Rightarrow> lcb_options \<Rightarrow> lcb_options option" where
  "lcb_decode node rhs =
     (case ln_use_inline node of
        None \<Rightarrow> None
      | Some True \<Rightarrow> Some (rhs\<lparr>lo_subscriber_use_inline_executor := True\<rparr>)
      | Some False \<Rightarrow>
          (case ln_executor node of
             None \<Rightarrow> None
           | Some e \<Rightarrow> Some (rhs\<lparr>lo_subscriber_use_inline_executor := False, lo_subscriber_executor := e\<rparr>)))"

type_synonym pkg_index = "(string \<times> string list) list"

record local_channel_backend =
  lb_options :: lcb_options
  lb_state :: lc_state
  lb_get_executor_func :: "(string \<Rightarrow> nat option) option"
  lb_subscribe_executor :: "nat option"
  lb_index :: "(string \<times> (string \<times> pkg_index) list) list"

datatype lcb_error = InitializedTwice | NotInit | NotPreInit | BadNode | NoGetExecutor | InvalidExecutor string

definition new_local_channel_backend :: local_channel_backend where
  "new_local_channel_backend =
     \<lparr>lb_options = \<lparr>lo_subscriber_use_inline_executor = True, lo_subscriber_executor = []\<rparr>,
      lb_state = kPreInit, lb_get_executor_func = None, lb_subscribe_executor = None, lb_index = []\<rparr>"

definition lcb_Initialize :: "lcb_node option \<Rightarrow> local_channel_backend \<Rightarrow> (lcb_error, local_channel_backend) outcome" where
  "lcb_Initialize options_node b =
     (let (old, new) = atomic_exchange (lb_state b) kInit; b = b\<lparr>lb_state := new\<rparr> in
      if old \<noteq> kPreInit then (Some InitializedTwice, b)
      else
        case (case options_node of
                None \<Rightarrow> Some (lb_options b)
              | Some node \<Rightarrow> lcb_decode node (lb_options new_local_channel_backend)) of
          None \<Rightarrow> (Some BadNode, b)
        | Some opts \<Rightarrow>
            let b = b\<lparr>lb_options := opts\<rparr> in
            if lo_subscriber_use_inline_executor opts then (None, b)
            else
              case lb_get_executor_func b of
                None \<Rightarrow> (Some NoGetExecutor, b)
              | Some get \<Rightarrow>
                  let r = get (lo_subscriber_executor opts); b = b\<lparr>lb_subscribe_executor := r\<rparr> in
                  if r = None then (Some (InvalidExecutor (lo_subscriber_executor opts)), b) else (None, b))"

definition lcb_Start :: "local_channel_backend \<Rightarrow> (lcb_error, local_channel_backend) outcome" where
  "lcb_Start b =
     (let (old, new) = atomic_exchange (lb_state b) kStart; b = b\<lparr>lb_state := new\<rparr> in
      if old \<noteq> kInit then (Some NotInit, b) else (None, b))"

definition lcb_Shutdown :: "local_channel_backend \<Rightarrow> local_channel_backend" where
  "lcb_Shutdown b =
     (let (old, new) = atomic_exchange (lb_state b) kShutdown; b = b\<lparr>lb_state := new\<rparr> in
      if old = kShutdown then b else b\<lparr>lb_index := [], lb_get_executor_func := None\<rparr>)"

definition lcb_RegisterGetExecutorFunc ::
  "(string \<Rightarrow> nat option) \<Rightarrow> local_channel_backend \<Rightarrow> (lcb_error, local_channel_backend) outcome" where
  "lcb_RegisterGetExecutorFunc f b =
     (if lb_state b \<noteq> kPreInit then (Some NotPreInit, b) else (None, b\<lparr>lb_get_executor_func := Some f\<rparr>))"

section \<open>Registration\<close>

definition lcb_RegisterPublishType :: "'m publish_type_wrapper \<Rightarrow> local_channel_backend \<Rightarrow> bool" where
  "lcb_RegisterPublishType w b \<longleftrightarrow> lb_state b = kInit"

text \<open>\<open>operator[]\<close> of the nested maps: the entry, or an empty one when there is none.\<close>

definition at_list :: "(string \<times> 'v list) list \<Rightarrow> string \<Rightarrow> 'v list" where
  "at_list m k = (case map_of m k of Some v \<Rightarrow> v | None \<Rightarrow> [])"

definition set_insert :: "'a \<Rightarrow> 'a list \<Rightarrow> 'a list" where
  "set_insert x xs = (if x \<in> set xs then xs else xs @ [x])"

definition lcb_Subscribe :: "'m subscribe_wrapper \<Rightarrow> local_channel_backend \<Rightarrow> bool \<times> local_channel_backend" where
  "lcb_Subscribe w b =
     (if lb_state b \<noteq> kInit then (False, b)
      else
        let info = sw_info w;
            topics = at_list (lb_index b) (ti_msg_type info);
            pkgs = at_list topics (ti_topic_name info);
            modules = at_list pkgs (ti_pkg_path info);
            pkgs' = AList.update (ti_pkg_path info) (set_insert (ti_module_name info) modules) pkgs
        in (True, b\<lparr>lb_index := AList.update (ti_msg_type info)
                      (AList.update (ti_topic_name info) pkgs' topics) (lb_index b)\<rparr>))"

section \<open>Publishing\<close>

definition copy_meta :: "channel_context \<Rightarrow> channel_context \<Rightarrow> channel_context" where
  "copy_meta src dst = fold (\<lambda>k d. SetMetaValue k (GetMetaValue k src) d) (GetMetaKeys src) dst"

definition new_sub_context :: "'m msg_wrapper \<Rightarrow> channel_context" where
  "new_sub_context w =
     SetMetaValue ''aimrt-backend'' ''local''
       (copy_meta (mw_ctx w) \<lparr>cx_publisher = False, cx_used = False, cx_meta = []\<rparr>)"

text \<open>
  One package of the loop. It returns the deliveries and the publisher's wrapper, whose
  message and cache the calls may fill.
\<close>

definition publish_same_pkg ::
  "channel_context \<Rightarrow> (string \<times> 'm subscribe_wrapper) list \<Rightarrow> 'm msg_wrapper \<Rightarrow>
   (msg_error, 'm deliveries \<times> 'm msg_wrapper) result" where
  "publish_same_pkg cx modules w =
     (let tpl = sw_info (snd (hd modules)) in
      bindR (CheckMsg w) (\<lambda>w.
        case mw_msg w of
          None \<Rightarrow> Inl NullMsgEmptyCache
        | Some m \<Rightarrow>
            let msg = ts_copy (ti_support tpl) m in
            Inr (map (\<lambda>(_, s).
                   (s, \<lparr>mw_info = sw_info s, mw_msg = Some msg, mw_ctx = cx, mw_cache = mw_cache w,
                        mw_msg_cache = Some msg\<rparr>)) modules, w)))"

definition publish_other_pkg ::
  "channel_context \<Rightarrow> string \<Rightarrow> (string \<times> 'm subscribe_wrapper) list \<Rightarrow> 'm msg_wrapper \<Rightarrow>
   (msg_error, 'm deliveries \<times> 'm msg_wrapper) result" where
  "publish_other_pkg cx t modules w =
     (let cx = SetSerializationType t cx in
      bindR (SerializeMsgWithCache w t) (\<lambda>(_, w).
        Inr (map (\<lambda>(_, s).
               (s, \<lparr>mw_info = sw_info s, mw_msg = None, mw_ctx = cx, mw_cache = mw_cache w,
                    mw_msg_cache = None\<rparr>)) modules, w)))"

fun publish_pkgs ::
  "'m channel_registry \<Rightarrow> string \<Rightarrow> string list \<Rightarrow> 'm msg_wrapper \<Rightarrow> 'm deliveries \<times> 'm msg_wrapper" where
  "publish_pkgs reg t [] w = ([], w)"
| "publish_pkgs reg t (pkg # pkgs) w =
     (let pub_info = mw_info w in
      case GetModuleSubscribeWrapperMapPtr (ti_msg_type pub_info) (ti_topic_name pub_info) pkg reg of
        None \<Rightarrow> publish_pkgs reg t pkgs w
      | Some modules \<Rightarrow>
          if modules = [] then publish_pkgs reg t pkgs w
          else
            case (if pkg = ti_pkg_path pub_info then publish_same_pkg (new_sub_context w) modules w
                  else publish_other_pkg (new_sub_context w) t modules w) of
              Inl _ \<Rightarrow> ([], w)
            | Inr (ds, w') \<Rightarrow> (case publish_pkgs reg t pkgs w' of (ds', w'') \<Rightarrow> (ds @ ds', w'')))"

definition lcb_Publish ::
  "'m channel_registry \<Rightarrow> 'm msg_wrapper \<Rightarrow> local_channel_backend \<Rightarrow> 'm deliveries \<times> 'm msg_wrapper" where
  "lcb_Publish reg w b =
     (if lb_state b \<noteq> kStart then ([], w)
      else
        case map_of (lb_index b) (ti_msg_type (mw_info w)) of
          None \<Rightarrow> ([], w)
        | Some topics \<Rightarrow>
            (case map_of topics (ti_topic_name (mw_info w)) of
               None \<Rightarrow> ([], w)
             | Some pkgs \<Rightarrow>
                 let t = GetSerializationType (mw_ctx w);
                     t = (if t = [] then DefaultSerializationType (ti_support (mw_info w)) else t)
                 in publish_pkgs reg t (map fst pkgs) w))"

interpretation lcb: lifecycle lb_state lcb_Initialize lcb_Start lcb_Shutdown
  by unfold_locales
    (auto simp: lcb_Initialize_def lcb_Start_def lcb_Shutdown_def atomic_exchange_def Let_def
      split: option.splits if_splits)

section \<open>The index\<close>

text \<open>The packages a message type and topic have in the index.\<close>

definition index_pkgs :: "string \<Rightarrow> string \<Rightarrow> local_channel_backend \<Rightarrow> string list" where
  "index_pkgs m t b = map fst (at_list (at_list (lb_index b) m) t)"

lemma at_list_update: "at_list (AList.update k v m) k' = (if k' = k then v else at_list m k')"
  by (simp add: at_list_def update_conv')

lemma map_fst_update:
  "map fst (AList.update k v m) = (if k \<in> set (map fst m) then map fst m else map fst m @ [k])"
  by (induction m) auto

lemma lcb_Subscribe_pkgs:
  assumes "lb_state b = kInit"
  shows "lcb_Subscribe w b = (True, snd (lcb_Subscribe w b)) \<and> lb_state (snd (lcb_Subscribe w b)) = kInit \<and>
    index_pkgs m t (snd (lcb_Subscribe w b)) =
      (if m = ti_msg_type (sw_info w) \<and> t = ti_topic_name (sw_info w)
       then set_insert (ti_pkg_path (sw_info w)) (index_pkgs m t b) else index_pkgs m t b)"
  using assms
  by (auto simp: lcb_Subscribe_def Let_def index_pkgs_def at_list_update map_fst_update set_insert_def)

lemma lcb_Publish_pkgs:
  "lb_state b = kStart \<Longrightarrow> lcb_Publish reg w b =
   publish_pkgs reg (if GetSerializationType (mw_ctx w) = [] then DefaultSerializationType (ti_support (mw_info w))
       else GetSerializationType (mw_ctx w))
     (index_pkgs (ti_msg_type (mw_info w)) (ti_topic_name (mw_info w)) b) w"
  by (simp add: lcb_Publish_def index_pkgs_def at_list_def Let_def split: option.splits)

text \<open>
  The backend and the registry are filled by the same subscriptions: the manager registers a
  wrapper and passes it on to the backend only when the registry has accepted it.
\<close>

definition subscribe_both ::
  "'m subscribe_wrapper \<Rightarrow> 'm channel_registry \<times> local_channel_backend \<Rightarrow> 'm channel_registry \<times> local_channel_backend" where
  "subscribe_both w = (\<lambda>(reg, b).
     (case Registry.Subscribe w reg of
        (False, reg') \<Rightarrow> (reg', b)
      | (True, reg') \<Rightarrow> (reg', snd (lcb_Subscribe w b))))"

text \<open>
  The packages of the index are exactly those that have an entry in the registry's map, once
  each.
\<close>

definition index_ok :: "'m channel_registry \<Rightarrow> local_channel_backend \<Rightarrow> bool" where
  "index_ok reg b \<longleftrightarrow> mtp_ok reg \<and>
     (\<forall>m t. distinct (index_pkgs m t b) \<and>
        (\<forall>p. p \<in> set (index_pkgs m t b) \<longleftrightarrow> GetModuleSubscribeWrapperMapPtr m t p reg \<noteq> None))"

lemma subscribe_both_ok [inv_intros]:
  assumes "index_ok reg b" "lb_state b = kInit" "subscribe_both w (reg, b) = (reg', b')"
  shows "index_ok reg' b' \<and> lb_state b' = kInit"
proof (cases "cr_sub reg (info_key (sw_info w))")
  case None
  then have r: "reg' = snd (Registry.Subscribe w reg)" "b' = snd (lcb_Subscribe w b)"
    using assms(3) by (auto simp: subscribe_both_def Registry.Subscribe_def Let_def)
  have "GetModuleSubscribeWrapperMapPtr m t p reg' \<noteq> None \<longleftrightarrow>
      GetModuleSubscribeWrapperMapPtr m t p reg \<noteq> None \<or>
      (m, t, p) = (ti_msg_type (sw_info w), ti_topic_name (sw_info w), ti_pkg_path (sw_info w))" for m t p
    using None by (auto simp: r(1) Registry.Subscribe_def Let_def GetModuleSubscribeWrapperMapPtr_def info_key_def)
  then show ?thesis
    using assms(1) Subscribe_mtp_ok [of reg w] lcb_Subscribe_pkgs [OF assms(2), of w]
    unfolding index_ok_def r(2) by (simp add: r(1) [symmetric] set_insert_def) blast
next
  case (Some v)
  then show ?thesis using assms by (simp add: subscribe_both_def Registry.Subscribe_def Let_def)
qed

section \<open>Delivery to every subscriber\<close>

lemma publish_same_pkg_delivers:
  assumes "coherent m w" "modules \<noteq> []" "ts_copy (ti_support (sw_info (snd (hd modules)))) m = m"
  shows "\<exists>ds w'. publish_same_pkg cx modules w = Inr (ds, w') \<and> map fst ds = map snd modules \<and>
    (\<forall>(s, d) \<in> set ds. gets m s d) \<and> coherent m w' \<and> mw_info w' = mw_info w"
proof -
  obtain w1 where "CheckMsg w = Inr w1" "mw_msg w1 = Some m" "mw_info w1 = mw_info w" "coherent m w1"
    using CheckMsg_coherent [OF assms(1)] by blast
  then show ?thesis using assms(2,3)
    by (auto simp: publish_same_pkg_def Let_def gets_def CheckMsg_def)
qed

lemma publish_other_pkg_delivers:
  assumes "coherent m w" "codec (ti_support (mw_info w))" "t \<in> set (ts_types (ti_support (mw_info w)))"
    and "ts_serialize (ti_support (mw_info w)) t m \<noteq> None"
    and "\<forall>s \<in> set (map snd modules). ti_support (sw_info s) = ti_support (mw_info w)"
  shows "\<exists>ds w'. publish_other_pkg cx t modules w = Inr (ds, w') \<and> map fst ds = map snd modules \<and>
    (\<forall>(s, d) \<in> set ds. gets m s d) \<and> coherent m w' \<and> mw_info w' = mw_info w"
proof -
  obtain b w1 where w1: "SerializeMsgWithCache w t = Inr (b, w1)" "coherent m w1" "mw_info w1 = mw_info w"
    "map_of (mw_cache w1) t = Some b" using SerializeMsgWithCache_total [OF assms(1-3)] assms(4) by blast
  let ?d = "\<lambda>s. \<lparr>mw_info = sw_info s, mw_msg = None, mw_ctx = SetSerializationType t cx, mw_cache = mw_cache w1,
    mw_msg_cache = None\<rparr>"
  have "gets m s (?d s)" if "(md, s) \<in> set modules" for md s
  proof -
    have "ti_support (sw_info s) = ti_support (mw_info w)" using assms(5) that by force
    then have "coherent m (?d s)" using w1(2-4) assms(3) by (auto simp: coherent_def)
    then show ?thesis using CheckMsg_coherent [of m "?d s"] by (auto simp: gets_def)
  qed
  then show ?thesis using w1 by (auto simp: publish_other_pkg_def Let_def)
qed

definition pkg_subs :: "'m channel_registry \<Rightarrow> string \<Rightarrow> string \<Rightarrow> string \<Rightarrow> 'm subscribe_wrapper list" where
  "pkg_subs reg m t p =
     (case GetModuleSubscribeWrapperMapPtr m t p reg of None \<Rightarrow> [] | Some l \<Rightarrow> map snd l)"

lemma publish_pkgs_delivers:
  assumes "coherent m w" "codec (ti_support (mw_info w))" "t \<in> set (ts_types (ti_support (mw_info w)))"
    and "ts_serialize (ti_support (mw_info w)) t m \<noteq> None" "ts_copy (ti_support (mw_info w)) m = m"
    and "\<forall>p \<in> set pkgs. \<forall>s \<in> set (pkg_subs reg (ti_msg_type (mw_info w)) (ti_topic_name (mw_info w)) p).
      ti_support (sw_info s) = ti_support (mw_info w)"
  shows "\<exists>ds w'. publish_pkgs reg t pkgs w = (ds, w') \<and>
    map fst ds = concat (map (pkg_subs reg (ti_msg_type (mw_info w)) (ti_topic_name (mw_info w))) pkgs) \<and>
    (\<forall>(s, d) \<in> set ds. gets m s d)"
  using assms
proof (induction pkgs arbitrary: w)
  case (Cons p pkgs)
  let ?subs = "pkg_subs reg (ti_msg_type (mw_info w)) (ti_topic_name (mw_info w))"
  show ?case
  proof (cases "?subs p = []")
    case True
    then have "publish_pkgs reg t (p # pkgs) w = publish_pkgs reg t pkgs w"
      by (auto simp: pkg_subs_def Let_def split: option.splits)
    then show ?thesis using Cons.IH [of w] Cons.prems True by simp
  next
    case False
    then obtain l where l: "GetModuleSubscribeWrapperMapPtr (ti_msg_type (mw_info w)) (ti_topic_name (mw_info w)) p reg = Some l"
      "?subs p = map snd l" "l \<noteq> []" by (auto simp: pkg_subs_def split: option.splits)
    let ?r = "if p = ti_pkg_path (mw_info w) then publish_same_pkg (new_sub_context w) l w
      else publish_other_pkg (new_sub_context w) t l w"
    have sup: "\<forall>s \<in> set (map snd l). ti_support (sw_info s) = ti_support (mw_info w)"
      using Cons.prems(6) l(2) by auto
    then have "ts_copy (ti_support (sw_info (snd (hd l)))) m = m" using l(3) Cons.prems(5) by (cases l) auto
    then obtain ds1 w1 where r: "?r = Inr (ds1, w1)" "map fst ds1 = map snd l" "\<forall>(s, d) \<in> set ds1. gets m s d"
      "coherent m w1" "mw_info w1 = mw_info w"
      using publish_same_pkg_delivers [OF Cons.prems(1) l(3)] publish_other_pkg_delivers [OF Cons.prems(1-4) sup]
      by (metis (no_types, lifting))
    obtain ds w' where "publish_pkgs reg t pkgs w1 = (ds, w')" "map fst ds = concat (map ?subs pkgs)"
      "\<forall>(s, d) \<in> set ds. gets m s d"
      using Cons.IH [of w1] Cons.prems r(4,5) by auto
    then show ?thesis using r(1-3) l by (auto simp: Let_def)
  qed
qed simp

text \<open>The subscribers of the index's packages are the registered ones, once each.\<close>

definition keyed :: "'m channel_registry \<Rightarrow> bool" where
  "keyed reg \<longleftrightarrow> (\<forall>k s. cr_sub reg k = Some s \<longrightarrow> info_key (sw_info s) = k)"

lemma pkg_subs_registered:
  assumes "mtp_ok reg"
  shows "s \<in> set (pkg_subs reg m t p) \<longleftrightarrow> (\<exists>md. GetSubscribeWrapperPtr m t p md reg = Some s)"
proof -
  have e: "entry_ok (cr_sub_mtp_index reg (m, t, p)) (\<lambda>md. GetSubscribeWrapperPtr m t p md reg)"
    using assms by (simp add: mtp_ok_def)
  show ?thesis
  proof (cases "cr_sub_mtp_index reg (m, t, p)")
    case None
    then show ?thesis using e by (simp add: pkg_subs_def GetModuleSubscribeWrapperMapPtr_def entry_ok_def)
  next
    case (Some l)
    then have "distinct (map fst l)" "\<forall>md. map_of l md = GetSubscribeWrapperPtr m t p md reg"
      using e by (auto simp: entry_ok_def)
    moreover have "s \<in> snd ` set l \<longleftrightarrow> (\<exists>md. map_of l md = Some s)"
      using \<open>distinct (map fst l)\<close> by (force simp: map_of_eq_Some_iff)
    ultimately show ?thesis using Some by (simp add: pkg_subs_def GetModuleSubscribeWrapperMapPtr_def)
  qed
qed

lemma pkg_subs_distinct:
  assumes "mtp_ok reg" "keyed reg"
  shows "distinct (pkg_subs reg m t p)"
proof (cases "cr_sub_mtp_index reg (m, t, p)")
  case (Some l)
  have "entry_ok (cr_sub_mtp_index reg (m, t, p)) (\<lambda>md. GetSubscribeWrapperPtr m t p md reg)"
    using assms(1) by (simp add: mtp_ok_def)
  then have d: "distinct (map fst l)" and l: "\<forall>md. map_of l md = GetSubscribeWrapperPtr m t p md reg"
    using Some by (auto simp: entry_ok_def)
  have "\<forall>(md, s) \<in> set l. ti_module_name (sw_info s) = md"
  proof clarify
    fix md s assume "(md, s) \<in> set l"
    then have "map_of l md = Some s" using d by simp
    then have "GetSubscribeWrapperPtr m t p md reg = Some s" using l by simp
    then have "info_key (sw_info s) =
        \<lparr>k_msg_type = m, k_topic_name = t, k_pkg_path = p, k_module_name = md\<rparr>"
      using assms(2) unfolding keyed_def GetSubscribeWrapperPtr_def by blast
    then show "ti_module_name (sw_info s) = md" by (simp add: info_key_def)
  qed
  then have "map fst l = map (\<lambda>s. ti_module_name (sw_info s)) (map snd l)" by auto
  then have "distinct (map snd l)" using d by (metis distinct_map)
  then show ?thesis using Some by (simp add: pkg_subs_def GetModuleSubscribeWrapperMapPtr_def)
qed (simp add: pkg_subs_def GetModuleSubscribeWrapperMapPtr_def)

lemma subscribe_both_keyed:
  "keyed reg \<Longrightarrow> subscribe_both w (reg, b) = (reg', b') \<Longrightarrow> keyed reg'"
  by (auto simp: keyed_def subscribe_both_def Registry.Subscribe_def Let_def split: option.splits if_splits)

lemma subscribe_both_reg: "fst (subscribe_both w (reg, b)) = snd (Registry.Subscribe w reg)"
  by (simp add: subscribe_both_def Registry.Subscribe_def Let_def split: option.splits)

lemma fold_subscribe_both:
  assumes "index_ok reg b" "keyed reg" "lb_state b = kInit" "fold subscribe_both ws (reg, b) = (reg', b')"
  shows "index_ok reg' b' \<and> keyed reg' \<and> lb_state b' = kInit \<and>
    reg' = fold (\<lambda>w r. snd (Registry.Subscribe w r)) ws reg"
  using assms
proof (induction ws arbitrary: reg b)
  case (Cons w ws)
  obtain r1 b1 where s: "subscribe_both w (reg, b) = (r1, b1)" by fastforce
  then have "r1 = snd (Registry.Subscribe w reg)" using subscribe_both_reg [of w reg b] by simp
  then show ?case
    using Cons.IH [of r1 b1] Cons.prems subscribe_both_ok [OF Cons.prems(1,3) s] subscribe_both_keyed [OF Cons.prems(2) s] s
    by auto
qed simp

lemma info_key_simps:
  "k_msg_type (info_key i) = ti_msg_type i" "k_topic_name (info_key i) = ti_topic_name i"
  "k_pkg_path (info_key i) = ti_pkg_path i" "k_module_name (info_key i) = ti_module_name i"
  by (simp_all add: info_key_def)

lemma index_pkgs_subs:
  assumes "index_ok reg b" "keyed reg"
  shows "set (concat (map (pkg_subs reg m t) (index_pkgs m t b))) =
      {s. \<exists>k. cr_sub reg k = Some s \<and> k_msg_type k = m \<and> k_topic_name k = t} \<and>
    distinct (concat (map (pkg_subs reg m t) (index_pkgs m t b)))"
proof
  have mtp: "mtp_ok reg" and d: "distinct (index_pkgs m t b)"
    and p: "\<And>p. p \<in> set (index_pkgs m t b) \<longleftrightarrow> GetModuleSubscribeWrapperMapPtr m t p reg \<noteq> None"
    using assms(1) by (auto simp: index_ok_def)
  have inp: "s \<in> set (pkg_subs reg m t p) \<Longrightarrow> p \<in> set (index_pkgs m t b)" for s p
    by (cases "GetModuleSubscribeWrapperMapPtr m t p reg") (auto simp: p pkg_subs_def)
  have sk: "s \<in> set (pkg_subs reg m t p) \<longleftrightarrow> (\<exists>k. cr_sub reg k = Some s \<and> k_msg_type k = m \<and> k_topic_name k = t \<and> k_pkg_path k = p)" for s p
  proof
    assume "s \<in> set (pkg_subs reg m t p)"
    then obtain md where "GetSubscribeWrapperPtr m t p md reg = Some s" using pkg_subs_registered [OF mtp] by blast
    then show "\<exists>k. cr_sub reg k = Some s \<and> k_msg_type k = m \<and> k_topic_name k = t \<and> k_pkg_path k = p"
      unfolding GetSubscribeWrapperPtr_def
      by (intro exI [of _ "\<lparr>k_msg_type = m, k_topic_name = t, k_pkg_path = p, k_module_name = md\<rparr>"]) simp
  next
    assume "\<exists>k. cr_sub reg k = Some s \<and> k_msg_type k = m \<and> k_topic_name k = t \<and> k_pkg_path k = p"
    then obtain k where "cr_sub reg k = Some s" "k_msg_type k = m" "k_topic_name k = t" "k_pkg_path k = p" by blast
    then have "GetSubscribeWrapperPtr m t p (k_module_name k) reg = Some s"
      unfolding GetSubscribeWrapperPtr_def by (cases k) simp
    then show "s \<in> set (pkg_subs reg m t p)" using pkg_subs_registered [OF mtp] by blast
  qed
  show "set (concat (map (pkg_subs reg m t) (index_pkgs m t b))) =
      {s. \<exists>k. cr_sub reg k = Some s \<and> k_msg_type k = m \<and> k_topic_name k = t}"
    using inp by (auto simp: sk) (metis sk)
  have disj: "set (pkg_subs reg m t p) \<inter> set (pkg_subs reg m t q) = {}" if "p \<noteq> q" for p q
  proof -
    have "k_pkg_path (info_key (sw_info s)) = p" if "s \<in> set (pkg_subs reg m t p)" for s p
      using that assms(2) unfolding sk keyed_def by blast
    then show ?thesis using \<open>p \<noteq> q\<close> by blast
  qed
  have "distinct (concat (map (pkg_subs reg m t) ps))" if "distinct ps" for ps
    using that
  proof (induction ps)
    case (Cons p ps)
    have "set (pkg_subs reg m t p) \<inter> set (pkg_subs reg m t q) = {}" if "q \<in> set ps" for q
      using Cons.prems that disj [of p q] by auto
    then have "set (pkg_subs reg m t p) \<inter> \<Union> (set ` pkg_subs reg m t ` set ps) = {}" by blast
    then show ?case using Cons pkg_subs_distinct [OF mtp assms(2)] by simp
  qed simp
  then show "distinct (concat (map (pkg_subs reg m t) (index_pkgs m t b)))" using d by blast
qed

text \<open>
  C10. A message published on the local backend reaches every subscriber of its type and topic
  exactly once, the first registration for each key counting, and every subscriber finds the
  published message, whichever package it is in.
\<close>

theorem local_publish_reaches_all:
  assumes "fold subscribe_both ws (new_channel_registry, b0) = (reg, b1)"
    and "lb_state b0 = kInit" "lb_index b0 = []" "lcb_Start b1 = (None, b)"
    and "coherent m w" "codec ts" "ti_support (mw_info w) = ts" "ts_copy ts m = m"
    and "publish_type w \<in> set (ts_types ts)" "ts_serialize ts (publish_type w) m \<noteq> None"
    and "\<forall>s \<in> set ws. on_topic w s \<longrightarrow> ti_support (sw_info s) = ts"
  shows "\<exists>ds w'. lcb_Publish reg w b = (ds, w') \<and> distinct (map fst ds) \<and>
    set (map fst ds) = set (filter (on_topic w) (keep_first (\<lambda>s. info_key (sw_info s)) ws)) \<and>
    (\<forall>(s, d) \<in> set ds. gets m s d)"
proof -
  have "index_ok new_channel_registry b0"
    using mtp_ok_new assms(3)
    by (auto simp: index_ok_def index_pkgs_def at_list_def GetModuleSubscribeWrapperMapPtr_def new_channel_registry_def)
  moreover have "keyed new_channel_registry" by (simp add: keyed_def new_channel_registry_def)
  ultimately have inv: "index_ok reg b1" "keyed reg"
    and reg: "reg = sub.registers ws new_channel_registry"
    using fold_subscribe_both [OF _ _ assms(2,1)] by (auto simp: sub.registers_def)
  let ?m = "ti_msg_type (mw_info w)" and ?t = "ti_topic_name (mw_info w)"
  let ?subs = "concat (map (pkg_subs reg ?m ?t) (index_pkgs ?m ?t b1))"
  have e: "sub.empty_table new_channel_registry" by (simp add: sub.empty_table_def new_channel_registry_def)
  have look: "cr_sub reg = (\<lambda>k. List.find (\<lambda>w. info_key (sw_info w) = k) ws)"
    using sub.registers_look_index [OF e, of ws] by (simp add: reg)
  have "set ?subs = {s. \<exists>k. cr_sub reg k = Some s \<and> k_msg_type k = ?m \<and> k_topic_name k = ?t}"
    using index_pkgs_subs [OF inv, of ?m ?t] by blast
  also have "\<dots> = {s. cr_sub reg (info_key (sw_info s)) = Some s \<and> on_topic w s}"
    using inv(2) unfolding keyed_def on_topic_def by (intro Collect_cong) (metis info_key_simps)
  also have "\<dots> = {s \<in> set (cr_sub_topic_index reg ?t). on_topic w s}"
    using sub.index_complete [OF e, of ws ?t] unfolding reg [symmetric]
    by (auto simp: on_topic_def info_key_simps)
  also have "\<dots> = set (filter (on_topic w) (keep_first (\<lambda>s. info_key (sw_info s)) ws))"
    using sub.registers_look_index [OF e, of ws] by (auto simp: reg on_topic_def info_key_def)
  finally have subs: "set ?subs = set (filter (on_topic w) (keep_first (\<lambda>s. info_key (sw_info s)) ws))" .
  have dist: "distinct ?subs" using index_pkgs_subs [OF inv, of ?m ?t] by blast
  have b: "lb_state b = kStart" "index_pkgs ?m ?t b = index_pkgs ?m ?t b1"
    using assms(4) by (auto simp: lcb_Start_def atomic_exchange_def index_pkgs_def Let_def split: if_splits)
  have "\<forall>s \<in> set ?subs. ti_support (sw_info s) = ti_support (mw_info w)"
  proof
    fix s assume "s \<in> set ?subs"
    then have "s \<in> set (filter (on_topic w) (keep_first (\<lambda>s. info_key (sw_info s)) ws))" using subs by blast
    moreover have "set (keep_first (\<lambda>s. info_key (sw_info s)) vs) \<subseteq> set vs" for vs :: "'a subscribe_wrapper list"
      by (induction vs) auto
    ultimately show "ti_support (sw_info s) = ti_support (mw_info w)" using assms(7,11) by auto
  qed
  then obtain ds w' where p: "publish_pkgs reg (publish_type w) (index_pkgs ?m ?t b1) w = (ds, w')"
    and f: "map fst ds = ?subs" and g: "\<forall>(s, d) \<in> set ds. gets m s d"
    using publish_pkgs_delivers [of m w "publish_type w" "index_pkgs ?m ?t b1" reg] assms(5-10) by auto
  have "lcb_Publish reg w b = (ds, w')"
    using lcb_Publish_pkgs [OF b(1), of reg w] p b(2) by (simp add: publish_type_def)
  moreover have "distinct (map fst ds)" unfolding f by (rule dist)
  moreover have "set (map fst ds) = set (filter (on_topic w) (keep_first (\<lambda>s. info_key (sw_info s)) ws))"
    unfolding f by (rule subs)
  ultimately show ?thesis using g by blast
qed

text \<open>Two subscribers in different packages, the publisher in one of them.\<close>

definition pkg_sub :: "string \<Rightarrow> nat subscribe_wrapper" where
  "pkg_sub pkg = \<lparr>sw_info = (number_info ''m'')\<lparr>ti_pkg_path := pkg\<rparr>, sw_require = []\<rparr>"

definition pub_msg :: "nat msg_wrapper" where
  "pub_msg = \<lparr>mw_info = number_info ''m'', mw_msg = Some 7,
     mw_ctx = \<lparr>cx_publisher = True, cx_used = False, cx_meta = []\<rparr>, mw_cache = [], mw_msg_cache = None\<rparr>"

theorem local_publish_reaches_all_witness:
  "\<exists>reg b ds w'. lcb_Publish reg pub_msg b = (ds, w') \<and> set (map fst ds) = {pkg_sub ''p'', pkg_sub ''q''} \<and>
    (\<forall>(s, d) \<in> set ds. gets 7 s d)"
proof -
  let ?ws = "[pkg_sub ''p'', pkg_sub ''q'']" and ?b0 = "new_local_channel_backend\<lparr>lb_state := kInit\<rparr>"
  obtain reg b1 where f: "fold subscribe_both ?ws (new_channel_registry, ?b0) = (reg, b1)" by fastforce
  have i: "index_ok new_channel_registry ?b0" "keyed new_channel_registry" "lb_state ?b0 = kInit"
    using mtp_ok_new by (auto simp: index_ok_def index_pkgs_def at_list_def GetModuleSubscribeWrapperMapPtr_def
        new_channel_registry_def new_local_channel_backend_def keyed_def)
  have "lb_state b1 = kInit" using fold_subscribe_both [OF i f] by blast
  then obtain b where s: "lcb_Start b1 = (None, b)" by (simp add: lcb_Start_def atomic_exchange_def Let_def)
  have c: "coherent 7 pub_msg" by (simp add: coherent_def pub_msg_def)
  have ts: "ti_support (mw_info pub_msg) = number_support" "ts_copy number_support 7 = 7"
    "publish_type pub_msg \<in> set (ts_types number_support)"
    "ts_serialize number_support (publish_type pub_msg) 7 \<noteq> None"
    "\<forall>s \<in> set ?ws. on_topic pub_msg s \<longrightarrow> ti_support (sw_info s) = number_support"
    by (simp_all add: pub_msg_def number_info_def number_support_def publish_type_def GetSerializationType_def
        GetMetaValue_def DefaultSerializationType_def pkg_sub_def)
  have l: "lb_index ?b0 = []" by (simp add: new_local_channel_backend_def)
  have "filter (on_topic pub_msg) (keep_first (\<lambda>s. info_key (sw_info s)) ?ws) = ?ws"
    by (simp add: on_topic_def pub_msg_def pkg_sub_def number_info_def info_key_def)
  with local_publish_reaches_all [OF f i(3) l s c number_support_codec ts] show ?thesis
    by (metis list.set(1) list.simps(15))
qed

end
