(* ===== verification/ChannelManager.thy ===== *)
theory ChannelManager
  imports LocalChannel FilterChain
begin

text \<open>
  The channel backend manager (\<open>channel_backend_manager.cc\<close>): it registers publishers and
  subscribers, picks the backends and filters of a topic by its rules, and sends each
  published message through the filters of its topic to the topic's backends. Backends are
  known by name; the calls made to them are recorded in \<open>cm_calls\<close> and, for \<open>Publish\<close>, are its
  result. What lies outside, the regular-expression engine and the answers of the backends, is
  the parameter \<open>env\<close>.
\<close>

section \<open>State\<close>

type_synonym rules = "(string \<times> string list) list"

datatype 'm backend_call =
    BStart string | BShutdown string
  | BSubscribe string "'m subscribe_wrapper"
  | BRegisterPublishType string "'m publish_type_wrapper"

text \<open>\<open>en_regex expr s\<close> is \<open>None\<close> when the expression does not compile.\<close>

record 'm env =
  en_regex_match :: "string \<Rightarrow> string \<Rightarrow> bool option"
  en_answer :: "'m backend_call \<Rightarrow> bool"

type_synonym 'm publish_log = "(string \<times> 'm msg_wrapper) list"

record ('m, 'v) channel_backend_manager =
  cm_state :: lc_state
  cm_registry :: "'m channel_registry"
  cm_publish_filters :: "('m msg_wrapper, 'm publish_log) filter_manager"
  cm_subscribe_filters :: "('m msg_wrapper, 'v) filter_manager"
  cm_publish_filters_rules :: rules
  cm_subscribe_filters_rules :: rules
  cm_pub_topics_backends_rules :: rules
  cm_sub_topics_backends_rules :: rules
  cm_backends :: "string list"
  cm_sub_backend_index :: "string \<Rightarrow> string list option"
  cm_pub_backend_index :: "string \<Rightarrow> string list option"
  cm_sub_topic_index :: nat
  cm_pub_topic_index :: nat
  cm_pub_topic_seq :: "string \<Rightarrow> u32 option"
  cm_calls :: "'m backend_call list"

datatype cm_error = CmInitializedTwice | CmNotInit | CmNotPreInit

definition cm_Initialize :: "unit \<Rightarrow> ('m, 'v) channel_backend_manager \<Rightarrow> (cm_error, ('m, 'v) channel_backend_manager) outcome" where
  "cm_Initialize u s =
     (let (old, new) = atomic_exchange (cm_state s) kInit; s = s\<lparr>cm_state := new\<rparr> in
      if old \<noteq> kPreInit then (Some CmInitializedTwice, s) else (None, s))"

definition cm_Start :: "('m, 'v) channel_backend_manager \<Rightarrow> (cm_error, ('m, 'v) channel_backend_manager) outcome" where
  "cm_Start s =
     (let (old, new) = atomic_exchange (cm_state s) kStart; s = s\<lparr>cm_state := new\<rparr> in
      if old \<noteq> kInit then (Some CmNotInit, s)
      else (None, s\<lparr>cm_calls := cm_calls s @ map BStart (cm_backends s)\<rparr>))"

definition cm_Shutdown :: "('m, 'v) channel_backend_manager \<Rightarrow> ('m, 'v) channel_backend_manager" where
  "cm_Shutdown s =
     (let (old, new) = atomic_exchange (cm_state s) kShutdown; s = s\<lparr>cm_state := new\<rparr> in
      if old = kShutdown then s
      else s\<lparr>cm_calls := cm_calls s @ map BShutdown (cm_backends s)\<rparr>)"

text \<open>The setters and \<open>RegisterChannelBackend\<close> are allowed before \<open>Initialize\<close> only.\<close>

definition pre_init ::
  "(('m, 'v) channel_backend_manager \<Rightarrow> ('m, 'v) channel_backend_manager) \<Rightarrow>
   ('m, 'v) channel_backend_manager \<Rightarrow> (cm_error, ('m, 'v) channel_backend_manager) outcome" where
  "pre_init f s = (if cm_state s \<noteq> kPreInit then (Some CmNotPreInit, s) else (None, f s))"

definition cm_SetChannelRegistry where
  "cm_SetChannelRegistry r = pre_init (\<lambda>s. s\<lparr>cm_registry := r\<rparr>)"
definition cm_SetPublishFrameworkAsyncChannelFilterManager where
  "cm_SetPublishFrameworkAsyncChannelFilterManager f = pre_init (\<lambda>s. s\<lparr>cm_publish_filters := f\<rparr>)"
definition cm_SetSubscribeFrameworkAsyncChannelFilterManager where
  "cm_SetSubscribeFrameworkAsyncChannelFilterManager f = pre_init (\<lambda>s. s\<lparr>cm_subscribe_filters := f\<rparr>)"
definition cm_SetPublishFiltersRules where
  "cm_SetPublishFiltersRules r = pre_init (\<lambda>s. s\<lparr>cm_publish_filters_rules := r\<rparr>)"
definition cm_SetSubscribeFiltersRules where
  "cm_SetSubscribeFiltersRules r = pre_init (\<lambda>s. s\<lparr>cm_subscribe_filters_rules := r\<rparr>)"
definition cm_SetPubTopicsBackendsRules where
  "cm_SetPubTopicsBackendsRules r = pre_init (\<lambda>s. s\<lparr>cm_pub_topics_backends_rules := r\<rparr>)"
definition cm_SetSubTopicsBackendsRules where
  "cm_SetSubTopicsBackendsRules r = pre_init (\<lambda>s. s\<lparr>cm_sub_topics_backends_rules := r\<rparr>)"
definition cm_RegisterChannelBackend where
  "cm_RegisterChannelBackend b = pre_init (\<lambda>s. s\<lparr>cm_backends := cm_backends s @ [b]\<rparr>)"

interpretation cm: lifecycle cm_state cm_Initialize cm_Start cm_Shutdown
  by unfold_locales
    (auto simp: cm_Initialize_def cm_Start_def cm_Shutdown_def atomic_exchange_def Let_def split: if_splits)

section \<open>Rules\<close>

fun GetFilterRules :: "(string \<Rightarrow> string \<Rightarrow> bool option) \<Rightarrow> string \<Rightarrow> rules \<Rightarrow> string list" where
  "GetFilterRules rmatch topic_name [] = []"
| "GetFilterRules rmatch topic_name ((topic_regex, filters) # rules) =
     (case rmatch topic_regex topic_name of
        Some True \<Rightarrow> filters
      | _ \<Rightarrow> GetFilterRules rmatch topic_name rules)"

fun find_backends :: "string list \<Rightarrow> string list \<Rightarrow> string list" where
  "find_backends backends [] = []"
| "find_backends backends (n # ns) =
     (case List.find (\<lambda>b. b = n) backends of
        None \<Rightarrow> find_backends backends ns
      | Some b \<Rightarrow> b # find_backends backends ns)"

fun GetBackendsByRules :: "(string \<Rightarrow> string \<Rightarrow> bool option) \<Rightarrow> string list \<Rightarrow> string \<Rightarrow> rules \<Rightarrow> string list" where
  "GetBackendsByRules rmatch backends topic_name [] = []"
| "GetBackendsByRules rmatch backends topic_name ((topic_regex, enable_backends) # rules) =
     (case rmatch topic_regex topic_name of
        Some True \<Rightarrow> find_backends backends enable_backends
      | _ \<Rightarrow> GetBackendsByRules rmatch backends topic_name rules)"

section \<open>Registration\<close>

record 'm proxy_info =
  px_msg_type_support :: "'m type_support option"
  px_callback_null :: bool
  px_topic_name :: string
  px_pkg_path :: string
  px_module_name :: string

text \<open>A call that may throw out of the filter manager; the state is kept either way.\<close>

type_synonym ('m, 'v) cm_reply = "(filter_error, bool) result \<times> ('m, 'v) channel_backend_manager"

definition ask_backends :: "('m backend_call \<Rightarrow> bool) \<Rightarrow> 'm backend_call list \<Rightarrow> bool" where
  "ask_backends answer calls = fold (\<lambda>c ret. ret \<and> answer c) calls True"

text \<open>The part of both \<open>Subscribe\<close> functions behind the construction of the wrapper.\<close>

definition subscribe_wrapper ::
  "'m env \<Rightarrow> 'm subscribe_wrapper \<Rightarrow> ('m, 'v) channel_backend_manager \<Rightarrow> ('m, 'v) cm_reply" where
  "subscribe_wrapper env w s =
     (let topic_name = ti_topic_name (sw_info w);
          filter_name_vec = GetFilterRules (en_regex_match env) topic_name (cm_subscribe_filters_rules s)
      in case CreateFilterCollectorIfNotExist topic_name filter_name_vec (cm_subscribe_filters s) of
           Inl e \<Rightarrow> (Inl e, s)
         | Inr fm \<Rightarrow>
             let s = s\<lparr>cm_subscribe_filters := fm\<rparr> in
             (case Registry.Subscribe w (cm_registry s) of
                (False, _) \<Rightarrow> (Inr False, s)
              | (True, reg) \<Rightarrow>
                  let s = s\<lparr>cm_registry := reg\<rparr>;
                      s = (case cm_sub_backend_index s topic_name of
                             Some _ \<Rightarrow> s
                           | None \<Rightarrow> s\<lparr>cm_sub_backend_index := (cm_sub_backend_index s)
                               (topic_name \<mapsto> GetBackendsByRules (en_regex_match env) (cm_backends s)
                                  topic_name (cm_sub_topics_backends_rules s))\<rparr>);
                      calls = map (\<lambda>b. BSubscribe b w) (the (cm_sub_backend_index s topic_name))
                  in (Inr (ask_backends (en_answer env) calls), s\<lparr>cm_calls := cm_calls s @ calls\<rparr>)))"

definition cm_Subscribe_proxy ::
  "'m env \<Rightarrow> 'm proxy_info \<Rightarrow> ('m, 'v) channel_backend_manager \<Rightarrow> ('m, 'v) cm_reply" where
  "cm_Subscribe_proxy env px s =
     (if cm_state s \<noteq> kInit then (Inr False, s)
      else case px_msg_type_support px of
        None \<Rightarrow> (Inr False, s)
      | Some ts \<Rightarrow>
          if px_callback_null px then (Inr False, s)
          else
            let s = s\<lparr>cm_sub_topic_index := cm_sub_topic_index s + 1\<rparr> in
            subscribe_wrapper env
              \<lparr>sw_info = \<lparr>ti_msg_type = ts_name ts, ti_topic_name = px_topic_name px,
                 ti_pkg_path = px_pkg_path px, ti_module_name = px_module_name px,
                 ti_index = cm_sub_topic_index s, ti_support = ts\<rparr>, sw_require = []\<rparr> s)"

definition cm_Subscribe :: "'m env \<Rightarrow> 'm subscribe_wrapper \<Rightarrow> ('m, 'v) channel_backend_manager \<Rightarrow> ('m, 'v) cm_reply" where
  "cm_Subscribe env w s = (if cm_state s \<noteq> kInit then (Inr False, s) else subscribe_wrapper env w s)"

text \<open>The callback a subscriber is registered with: its topic's filters, then the message.\<close>

definition sub_callback ::
  "('m, 'v) channel_backend_manager \<Rightarrow> string \<Rightarrow> ('m msg_wrapper, 'v) handle \<Rightarrow> ('m msg_wrapper, 'v) handle" where
  "sub_callback s topic_name user w =
     InvokeChannel (GetFilterCollector topic_name (cm_subscribe_filters s))
       (\<lambda>w v. case CheckMsg w of Inl _ \<Rightarrow> v | Inr w' \<Rightarrow> user w' v) w"

definition register_publish_wrapper ::
  "'m env \<Rightarrow> 'm publish_type_wrapper \<Rightarrow> ('m, 'v) channel_backend_manager \<Rightarrow> ('m, 'v) cm_reply" where
  "register_publish_wrapper env w s =
     (let topic_name = ti_topic_name (pw_info w);
          s = (if cm_pub_topic_seq s topic_name = None
               then s\<lparr>cm_pub_topic_seq := (cm_pub_topic_seq s)(topic_name \<mapsto> 0)\<rparr> else s);
          filter_name_vec = GetFilterRules (en_regex_match env) topic_name (cm_publish_filters_rules s)
      in case CreateFilterCollectorIfNotExist topic_name filter_name_vec (cm_publish_filters s) of
           Inl e \<Rightarrow> (Inl e, s)
         | Inr fm \<Rightarrow>
             let s = s\<lparr>cm_publish_filters := fm\<rparr> in
             (case Registry.RegisterPublishType w (cm_registry s) of
                (False, _) \<Rightarrow> (Inr False, s)
              | (True, reg) \<Rightarrow>
                  let s = s\<lparr>cm_registry := reg\<rparr>;
                      s = (case cm_pub_backend_index s topic_name of
                             Some _ \<Rightarrow> s
                           | None \<Rightarrow> s\<lparr>cm_pub_backend_index := (cm_pub_backend_index s)
                               (topic_name \<mapsto> GetBackendsByRules (en_regex_match env) (cm_backends s)
                                  topic_name (cm_pub_topics_backends_rules s))\<rparr>);
                      calls = map (\<lambda>b. BRegisterPublishType b w) (the (cm_pub_backend_index s topic_name))
                  in (Inr (ask_backends (en_answer env) calls), s\<lparr>cm_calls := cm_calls s @ calls\<rparr>)))"

definition cm_RegisterPublishType_proxy ::
  "'m env \<Rightarrow> 'm proxy_info \<Rightarrow> ('m, 'v) channel_backend_manager \<Rightarrow> ('m, 'v) cm_reply" where
  "cm_RegisterPublishType_proxy env px s =
     (if cm_state s \<noteq> kInit then (Inr False, s)
      else case px_msg_type_support px of
        None \<Rightarrow> (Inr False, s)
      | Some ts \<Rightarrow>
          let s = s\<lparr>cm_pub_topic_index := cm_pub_topic_index s + 1\<rparr> in
          register_publish_wrapper env
            \<lparr>pw_info = \<lparr>ti_msg_type = ts_name ts, ti_topic_name = px_topic_name px,
               ti_pkg_path = px_pkg_path px, ti_module_name = px_module_name px,
               ti_index = cm_pub_topic_index s, ti_support = ts\<rparr>, pw_require = []\<rparr> s)"

definition cm_RegisterPublishType ::
  "'m env \<Rightarrow> 'm publish_type_wrapper \<Rightarrow> ('m, 'v) channel_backend_manager \<Rightarrow> ('m, 'v) cm_reply" where
  "cm_RegisterPublishType env w s =
     (if cm_state s \<noteq> kInit then (Inr False, s) else register_publish_wrapper env w s)"

section \<open>Publishing\<close>

record 'm publish_info =
  pp_msg_type :: string
  pp_topic_name :: string
  pp_pkg_path :: string
  pp_module_name :: string
  pp_msg :: 'm
  pp_ctx :: channel_context

text \<open>
  The part of both \<open>Publish\<close> functions behind the choice of the topic info: the context is
  checked and marked, gets the next sequence number of its topic and a timestamp, and the
  message passes the filters and goes to the backends. The result is the calls of the
  backends' \<open>Publish\<close>, the context and the manager.
\<close>

definition set_sequence ::
  "string \<Rightarrow> channel_context \<Rightarrow> ('m, 'v) channel_backend_manager \<Rightarrow> channel_context \<times> ('m, 'v) channel_backend_manager" where
  "set_sequence topic_name cx s =
     (case cm_pub_topic_seq s topic_name of
        None \<Rightarrow> (cx, s)
      | Some n \<Rightarrow>
          let seq = n + 1 in
          (SetMetaValue ''aimrt-pub_seq'' (to_string (unat seq)) cx,
           s\<lparr>cm_pub_topic_seq := (cm_pub_topic_seq s)(topic_name \<mapsto> seq)\<rparr>))"

definition send_to_backends ::
  "('m, 'v) channel_backend_manager \<Rightarrow> 'm msg_wrapper \<Rightarrow> 'm publish_log \<Rightarrow> 'm publish_log" where
  "send_to_backends s w log =
     (case cm_pub_backend_index s (ti_topic_name (mw_info w)) of
        None \<Rightarrow> log
      | Some backends \<Rightarrow> log @ map (\<lambda>b. (b, w)) backends)"

definition publish_with ::
  "nat \<Rightarrow> 'm msg_wrapper \<Rightarrow> ('m, 'v) channel_backend_manager \<Rightarrow>
   'm publish_log \<times> channel_context \<times> ('m, 'v) channel_backend_manager" where
  "publish_with now w s =
     (let cx = mw_ctx w; topic_name = ti_topic_name (mw_info w) in
      if \<not> cx_publisher cx \<or> cx_used cx then ([], cx, s)
      else
        let cx = SetUsed cx;
            (cx, s) = set_sequence topic_name cx s;
            cx = SetMetaValue ''aimrt-pub_ts'' (to_string now) cx;
            collector = GetFilterCollector topic_name (cm_publish_filters s)
        in (InvokeChannel collector (send_to_backends s) (w\<lparr>mw_ctx := cx\<rparr>) [], cx, s))"

definition cm_Publish_proxy ::
  "nat \<Rightarrow> 'm publish_info \<Rightarrow> ('m, 'v) channel_backend_manager \<Rightarrow>
   'm publish_log \<times> channel_context \<times> ('m, 'v) channel_backend_manager" where
  "cm_Publish_proxy now pp s =
     (if cm_state s \<noteq> kStart then ([], pp_ctx pp, s)
      else case GetPublishTypeWrapperPtr (pp_msg_type pp) (pp_topic_name pp) (pp_pkg_path pp) (pp_module_name pp)
                  (cm_registry s) of
        None \<Rightarrow> ([], pp_ctx pp, s)
      | Some pw \<Rightarrow>
          publish_with now
            \<lparr>mw_info = pw_info pw, mw_msg = Some (pp_msg pp), mw_ctx = pp_ctx pp, mw_cache = [], mw_msg_cache = None\<rparr> s)"

definition cm_Publish ::
  "nat \<Rightarrow> 'm msg_wrapper \<Rightarrow> ('m, 'v) channel_backend_manager \<Rightarrow>
   'm publish_log \<times> channel_context \<times> ('m, 'v) channel_backend_manager" where
  "cm_Publish now w s = (if cm_state s \<noteq> kStart then ([], mw_ctx w, s) else publish_with now w s)"

definition GetPubTopicBackendInfo :: "('m, 'v) channel_backend_manager \<Rightarrow> string \<Rightarrow> string list option" where
  "GetPubTopicBackendInfo s = cm_pub_backend_index s"

definition GetSubTopicBackendInfo :: "('m, 'v) channel_backend_manager \<Rightarrow> string \<Rightarrow> string list option" where
  "GetSubTopicBackendInfo s = cm_sub_backend_index s"

section \<open>What the rules select\<close>

lemma find_eq: "List.find (\<lambda>b. b = n) bs = (if n \<in> set bs then Some n else None)"
  by (induction bs) auto

lemma find_backends_filter: "find_backends bs ns = filter (\<lambda>n. n \<in> set bs) ns"
  by (induction bs ns rule: find_backends.induct) (auto simp: find_eq)

text \<open>The rule that decides: the first whose expression compiles and matches.\<close>

definition deciding_rule :: "(string \<Rightarrow> string \<Rightarrow> bool option) \<Rightarrow> string \<Rightarrow> rules \<Rightarrow> string list" where
  "deciding_rule rmatch topic rules =
     (case List.find (\<lambda>(re, _). rmatch re topic = Some True) rules of None \<Rightarrow> [] | Some (_, l) \<Rightarrow> l)"

lemma GetFilterRules_deciding: "GetFilterRules rmatch topic rules = deciding_rule rmatch topic rules"
  by (induction rmatch topic rules rule: GetFilterRules.induct)
    (auto simp: deciding_rule_def split: option.splits bool.splits)

lemma GetBackendsByRules_deciding:
  "GetBackendsByRules rmatch bs topic rules = filter (\<lambda>n. n \<in> set bs) (deciding_rule rmatch topic rules)"
  by (induction rmatch bs topic rules rule: GetBackendsByRules.induct)
    (auto simp: deciding_rule_def find_backends_filter split: option.splits bool.splits)

lemma ask_backends_all: "ask_backends answer calls \<longleftrightarrow> (\<forall>c \<in> set calls. answer c)"
proof -
  have "fold (\<lambda>c ret. ret \<and> answer c) calls b \<longleftrightarrow> b \<and> (\<forall>c \<in> set calls. answer c)" for b
    by (induction calls arbitrary: b) auto
  then show ?thesis by (simp add: ask_backends_def)
qed

section \<open>The invariant\<close>

definition topic_backends :: "'m env \<Rightarrow> ('m, 'v) channel_backend_manager \<Rightarrow> string \<Rightarrow> string list" where
  "topic_backends env s topic =
     filter (\<lambda>n. n \<in> set (cm_backends s)) (deciding_rule (en_regex_match env) topic (cm_pub_topics_backends_rules s))"

definition cm_inv :: "'m env \<Rightarrow> ('m, 'v) channel_backend_manager \<Rightarrow> bool" where
  "cm_inv env s \<longleftrightarrow>
     fm_ok (cm_publish_filters s) \<and>
     (\<forall>k w. cr_pub (cm_registry s) k = Some w \<longrightarrow>
        info_key (pw_info w) = k \<and>
        cm_pub_topic_seq s (k_topic_name k) \<noteq> None \<and>
        cm_pub_backend_index s (k_topic_name k) = Some (topic_backends env s (k_topic_name k)) \<and>
        GetFilterNameVec (k_topic_name k) (cm_publish_filters s) =
          deciding_rule (en_regex_match env) (k_topic_name k) (cm_publish_filters_rules s)) \<and>
     (\<forall>t ns. cm_pub_backend_index s t = Some ns \<longrightarrow> ns = topic_backends env s t) \<and>
     (\<forall>t. GetFilterNameVec t (cm_publish_filters s) \<in>
        {[], deciding_rule (en_regex_match env) t (cm_publish_filters_rules s)})"

lemma subscribe_wrapper_frame:
  assumes "subscribe_wrapper env w s = (r, s')"
  shows "cm_publish_filters s' = cm_publish_filters s" "cm_pub_topic_seq s' = cm_pub_topic_seq s"
    "cm_pub_backend_index s' = cm_pub_backend_index s" "cm_backends s' = cm_backends s"
    "cm_pub_topics_backends_rules s' = cm_pub_topics_backends_rules s"
    "cm_publish_filters_rules s' = cm_publish_filters_rules s"
    "cr_pub (cm_registry s') = cr_pub (cm_registry s)" "cm_state s' = cm_state s"
proof -
  let ?t = "ti_topic_name (sw_info w)"
  obtain b reg where reg: "Registry.Subscribe w (cm_registry s) = (b, reg)" by fastforce
  then have pub: "cr_pub reg = cr_pub (cm_registry s)"
    by (auto simp: Registry.Subscribe_def Let_def split: option.splits)
  have "cm_publish_filters s' = cm_publish_filters s \<and> cm_pub_topic_seq s' = cm_pub_topic_seq s \<and>
    cm_pub_backend_index s' = cm_pub_backend_index s \<and> cm_backends s' = cm_backends s \<and>
    cm_pub_topics_backends_rules s' = cm_pub_topics_backends_rules s \<and>
    cm_publish_filters_rules s' = cm_publish_filters_rules s \<and>
    cr_pub (cm_registry s') = cr_pub (cm_registry s) \<and> cm_state s' = cm_state s"
  proof (cases "CreateFilterCollectorIfNotExist ?t
      (GetFilterRules (en_regex_match env) ?t (cm_subscribe_filters_rules s)) (cm_subscribe_filters s)")
    case (Inl e)
    then show ?thesis using assms by (auto simp: subscribe_wrapper_def Let_def)
  next
    case (Inr fm)
    show ?thesis
    proof (cases b)
      case True
      then show ?thesis using assms Inr reg pub
        by (cases "cm_sub_backend_index s ?t") (auto simp: subscribe_wrapper_def Let_def)
    next
      case False
      then show ?thesis using assms Inr reg by (auto simp: subscribe_wrapper_def Let_def)
    qed
  qed
  then show "cm_publish_filters s' = cm_publish_filters s" "cm_pub_topic_seq s' = cm_pub_topic_seq s"
    "cm_pub_backend_index s' = cm_pub_backend_index s" "cm_backends s' = cm_backends s"
    "cm_pub_topics_backends_rules s' = cm_pub_topics_backends_rules s"
    "cm_publish_filters_rules s' = cm_publish_filters_rules s"
    "cr_pub (cm_registry s') = cr_pub (cm_registry s)" "cm_state s' = cm_state s" by simp_all
qed

lemma subscribe_wrapper_inv [inv_intros]:
  assumes "cm_inv env s" "subscribe_wrapper env w s = (r, s')"
  shows "cm_inv env s'"
  using assms(1) unfolding cm_inv_def topic_backends_def subscribe_wrapper_frame [OF assms(2)] .

text \<open>The state a successful or failed registration of a publisher leaves.\<close>

lemma register_publish_wrapper_cases:
  assumes "register_publish_wrapper env w s = (r, s')"
  obtains (no_filter) "s' = s\<lparr>cm_pub_topic_seq := cm_pub_topic_seq s'\<rparr>"
      "\<forall>t. cm_pub_topic_seq s t \<noteq> None \<longrightarrow> cm_pub_topic_seq s' t \<noteq> None"
  | (repeated) fm where
      "CreateFilterCollectorIfNotExist (ti_topic_name (pw_info w))
         (deciding_rule (en_regex_match env) (ti_topic_name (pw_info w)) (cm_publish_filters_rules s))
         (cm_publish_filters s) = Inr fm"
      "s' = s\<lparr>cm_pub_topic_seq := cm_pub_topic_seq s', cm_publish_filters := fm\<rparr>"
      "\<forall>t. cm_pub_topic_seq s t \<noteq> None \<longrightarrow> cm_pub_topic_seq s' t \<noteq> None"
  | (registered) fm where
      "CreateFilterCollectorIfNotExist (ti_topic_name (pw_info w))
         (deciding_rule (en_regex_match env) (ti_topic_name (pw_info w)) (cm_publish_filters_rules s))
         (cm_publish_filters s) = Inr fm"
      "cm_publish_filters s' = fm" "cm_backends s' = cm_backends s"
      "cm_pub_topics_backends_rules s' = cm_pub_topics_backends_rules s"
      "cm_publish_filters_rules s' = cm_publish_filters_rules s"
      "\<forall>t. cm_pub_topic_seq s t \<noteq> None \<longrightarrow> cm_pub_topic_seq s' t \<noteq> None"
      "cm_pub_topic_seq s' (ti_topic_name (pw_info w)) \<noteq> None"
      "cr_pub (cm_registry s') = (cr_pub (cm_registry s))(info_key (pw_info w) \<mapsto> w)"
      "cm_pub_backend_index s' = (if cm_pub_backend_index s (ti_topic_name (pw_info w)) = None
         then (cm_pub_backend_index s)(ti_topic_name (pw_info w) \<mapsto> topic_backends env s (ti_topic_name (pw_info w)))
         else cm_pub_backend_index s)"
      "cm_state s' = cm_state s"
proof -
  let ?t = "ti_topic_name (pw_info w)"
  let ?seq = "if cm_pub_topic_seq s ?t = None then (cm_pub_topic_seq s)(?t \<mapsto> 0) else cm_pub_topic_seq s"
  let ?s = "s\<lparr>cm_pub_topic_seq := ?seq\<rparr>"
  have s: "(if cm_pub_topic_seq s ?t = None then s\<lparr>cm_pub_topic_seq := (cm_pub_topic_seq s)(?t \<mapsto> 0)\<rparr> else s) = ?s"
    by simp
  have mono: "\<forall>t. cm_pub_topic_seq s t \<noteq> None \<longrightarrow> ?seq t \<noteq> None" "?seq ?t \<noteq> None" by auto
  obtain b reg where reg: "Registry.RegisterPublishType w (cm_registry s) = (b, reg)" by fastforce
  show ?thesis
  proof (cases "CreateFilterCollectorIfNotExist ?t (deciding_rule (en_regex_match env) ?t (cm_publish_filters_rules s))
      (cm_publish_filters s)")
    case (Inl e)
    then have "s' = ?s" using assms by (simp add: register_publish_wrapper_def Let_def s GetFilterRules_deciding)
    then show ?thesis using mono by (intro no_filter) simp_all
  next
    case (Inr fm)
    show ?thesis
    proof (cases b)
      case False
      then have "s' = ?s\<lparr>cm_publish_filters := fm\<rparr>"
        using assms Inr reg by (simp add: register_publish_wrapper_def Let_def s GetFilterRules_deciding)
      then show ?thesis using mono Inr by (intro repeated) simp_all
    next
      case True
      then have "cr_pub reg = (cr_pub (cm_registry s))(info_key (pw_info w) \<mapsto> w)"
        using reg by (auto simp: Registry.RegisterPublishType_def Let_def split: option.splits)
      then show ?thesis using assms Inr reg True mono
        by (intro registered [OF Inr]; cases "cm_pub_backend_index s ?t")
          (auto simp: register_publish_wrapper_def Let_def s GetFilterRules_deciding
            GetBackendsByRules_deciding topic_backends_def)
    qed
  qed
qed

lemma CreateIf_names:
  assumes "fm_ok fm" "CreateFilterCollectorIfNotExist k ns fm = Inr fm'"
  shows "fm_ok fm'" "fm_filter_map fm' = fm_filter_map fm"
    "GetFilterNameVec t fm' = (if t = k \<and> GetFilterNameVec k fm = [] then ns else GetFilterNameVec t fm)"
  using cf.create_ok [OF assms] cf.create_filters [OF assms(2)] cf.create_names [OF assms] cf.create_other [OF assms(2), of t]
  by (cases "t = k"; simp)+

lemma register_publish_wrapper_inv [inv_intros]:
  assumes inv: "cm_inv env s" and call: "register_publish_wrapper env w s = (r, s')"
  shows "cm_inv env s'"
proof -
  have ok: "fm_ok (cm_publish_filters s)" using inv by (simp add: cm_inv_def)
  let ?t = "ti_topic_name (pw_info w)"
  have inv_key: "cr_pub (cm_registry s) k = Some v \<Longrightarrow>
      info_key (pw_info v) = k \<and> cm_pub_topic_seq s (k_topic_name k) \<noteq> None \<and>
      cm_pub_backend_index s (k_topic_name k) = Some (topic_backends env s (k_topic_name k)) \<and>
      GetFilterNameVec (k_topic_name k) (cm_publish_filters s) =
        deciding_rule (en_regex_match env) (k_topic_name k) (cm_publish_filters_rules s)" for k v
    using inv unfolding cm_inv_def by blast
  have inv_idx: "cm_pub_backend_index s t = Some ns \<Longrightarrow> ns = topic_backends env s t" for t ns
    using inv unfolding cm_inv_def by blast
  have inv_names: "GetFilterNameVec t (cm_publish_filters s) \<in>
      {[], deciding_rule (en_regex_match env) t (cm_publish_filters_rules s)}" for t
    using inv unfolding cm_inv_def by blast
  show ?thesis
  proof (cases rule: register_publish_wrapper_cases [OF call])
    case 1
    have *: "cm_registry s' = cm_registry s" "cm_publish_filters s' = cm_publish_filters s"
      "cm_pub_backend_index s' = cm_pub_backend_index s" "topic_backends env s' = topic_backends env s"
      "cm_publish_filters_rules s' = cm_publish_filters_rules s"
      by (subst 1(1), simp add: topic_backends_def fun_eq_iff)+
    show ?thesis using inv 1(2) unfolding cm_inv_def * by blast
  next
    case (2 fm)
    have *: "cm_registry s' = cm_registry s" "cm_publish_filters s' = fm"
      "cm_pub_backend_index s' = cm_pub_backend_index s" "topic_backends env s' = topic_backends env s"
      "cm_publish_filters_rules s' = cm_publish_filters_rules s"
      by (subst 2(2), simp add: topic_backends_def fun_eq_iff)+
    note n = CreateIf_names [OF ok 2(1)]
    show ?thesis
      unfolding cm_inv_def *
    proof (intro conjI allI impI)
      fix k v assume kv: "cr_pub (cm_registry s) k = Some v"
      show "info_key (pw_info v) = k" "cm_pub_topic_seq s' (k_topic_name k) \<noteq> None"
        "cm_pub_backend_index s (k_topic_name k) = Some (topic_backends env s (k_topic_name k))"
        using inv_key [OF kv] 2(3) by blast+
      show "GetFilterNameVec (k_topic_name k) fm =
          deciding_rule (en_regex_match env) (k_topic_name k) (cm_publish_filters_rules s)"
        using inv_key [OF kv] by (simp add: n(3))
    next
      fix t show "GetFilterNameVec t fm \<in> {[], deciding_rule (en_regex_match env) t (cm_publish_filters_rules s)}"
        using inv_names [of t] by (simp add: n(3))
    qed (use n(1) inv_idx in blast)+
  next
    case (3 fm)
    have *: "topic_backends env s' = topic_backends env s" using 3 by (simp add: topic_backends_def fun_eq_iff)
    note n = CreateIf_names [OF ok 3(1)]
    have key: "k_topic_name (info_key (pw_info w)) = ti_topic_name (pw_info w)" by (simp add: info_key_def)
    have idx: "cm_pub_backend_index s' ?t = Some (topic_backends env s ?t)"
      using inv_idx [of ?t] by (cases "cm_pub_backend_index s ?t") (simp_all add: 3(9))
    have idx_other: "cm_pub_backend_index s' t = cm_pub_backend_index s t" if "t \<noteq> ?t" for t
      using that by (simp add: 3(9))
    have names: "GetFilterNameVec ?t fm = deciding_rule (en_regex_match env) ?t (cm_publish_filters_rules s)"
      using inv_names [of ?t] by (auto simp: n(3))
    have names_other: "GetFilterNameVec t fm = GetFilterNameVec t (cm_publish_filters s)" if "t \<noteq> ?t" for t
      using that by (simp add: n(3))
    have seq: "cm_pub_topic_seq s t \<noteq> None \<Longrightarrow> cm_pub_topic_seq s' t \<noteq> None" for t using 3(6) by blast
    show ?thesis
      unfolding cm_inv_def * 3(2,5)
    proof (intro conjI allI impI)
      fix k v assume kv: "cr_pub (cm_registry s') k = Some v"
      have c: "(k = info_key (pw_info w) \<and> v = w) \<or> cr_pub (cm_registry s) k = Some v"
        using kv by (auto simp: 3(8) split: if_splits)
      show "info_key (pw_info v) = k" using c inv_key by blast
      show "cm_pub_topic_seq s' (k_topic_name k) \<noteq> None" using c inv_key [of k v] seq 3(7) key by auto
      show "cm_pub_backend_index s' (k_topic_name k) = Some (topic_backends env s (k_topic_name k))"
        using c inv_key [of k v] idx idx_other key by (cases "k_topic_name k = ?t") auto
      show "GetFilterNameVec (k_topic_name k) fm =
          deciding_rule (en_regex_match env) (k_topic_name k) (cm_publish_filters_rules s)"
        using c inv_key [of k v] names names_other key by (cases "k_topic_name k = ?t") auto
    next
      fix t ns assume "cm_pub_backend_index s' t = Some ns"
      then show "ns = topic_backends env s t" using idx idx_other inv_idx by (cases "t = ?t") auto
    next
      fix t
      show "GetFilterNameVec t fm \<in> {[], deciding_rule (en_regex_match env) t (cm_publish_filters_rules s)}"
        using names names_other inv_names by (cases "t = ?t") auto
    qed (rule n(1))
  qed
qed

datatype 'm registration =
    RegSubscribeProxy "'m proxy_info" | RegSubscribe "'m subscribe_wrapper"
  | RegPublishProxy "'m proxy_info" | RegPublish "'m publish_type_wrapper"

fun reg_step :: "'m env \<Rightarrow> 'm registration \<Rightarrow> ('m, 'v) channel_backend_manager \<Rightarrow> ('m, 'v) channel_backend_manager" where
  "reg_step env (RegSubscribeProxy px) s = snd (cm_Subscribe_proxy env px s)"
| "reg_step env (RegSubscribe w) s = snd (cm_Subscribe env w s)"
| "reg_step env (RegPublishProxy px) s = snd (cm_RegisterPublishType_proxy env px s)"
| "reg_step env (RegPublish w) s = snd (cm_RegisterPublishType env w s)"

lemma cm_inv_index [simp]:
  "cm_inv env (s\<lparr>cm_sub_topic_index := n\<rparr>) = cm_inv env s"
  "cm_inv env (s\<lparr>cm_pub_topic_index := n\<rparr>) = cm_inv env s"
  by (simp_all add: cm_inv_def topic_backends_def)

lemma snd_inv:
  "cm_inv env s \<Longrightarrow> cm_inv env (snd (subscribe_wrapper env w s))"
  "cm_inv env s \<Longrightarrow> cm_inv env (snd (register_publish_wrapper env v s))"
  by (metis subscribe_wrapper_inv prod.collapse) (metis register_publish_wrapper_inv prod.collapse)

lemma reg_step_inv: "cm_inv env s \<Longrightarrow> cm_inv env (reg_step env op s)"
  by (cases op) (auto simp: cm_Subscribe_proxy_def cm_Subscribe_def cm_RegisterPublishType_proxy_def
      cm_RegisterPublishType_def Let_def intro!: snd_inv split: option.splits)

lemma reg_steps_inv: "cm_inv env s \<Longrightarrow> cm_inv env (fold (reg_step env) ops s)"
  by (induction ops arbitrary: s) (simp_all add: reg_step_inv)

text \<open>A manager before its first registration.\<close>

definition cm_fresh :: "('m, 'v) channel_backend_manager \<Rightarrow> bool" where
  "cm_fresh s \<longleftrightarrow> cm_registry s = new_channel_registry \<and> cm_pub_backend_index s = (\<lambda>_. None) \<and>
     fm_ok (cm_publish_filters s) \<and> (\<forall>t. GetFilterNameVec t (cm_publish_filters s) = [])"

lemma cm_fresh_inv: "cm_fresh s \<Longrightarrow> cm_inv env s"
  by (simp add: cm_fresh_def cm_inv_def new_channel_registry_def)

lemma set_sequence_frame:
  assumes "set_sequence t cx s = (cx', s')"
  shows "cm_publish_filters s' = cm_publish_filters s" "cm_pub_backend_index s' = cm_pub_backend_index s"
    "cm_registry s' = cm_registry s" "cm_state s' = cm_state s" "cx_used cx' = cx_used cx" "cx_publisher cx' = cx_publisher cx"
  using assms by (auto simp: set_sequence_def Let_def SetMetaValue_def split: option.splits)

lemma SetMetaValue_get: "GetMetaValue k (SetMetaValue k' v cx) = (if k = k' then v else GetMetaValue k cx)"
  by (simp add: GetMetaValue_def SetMetaValue_def update_conv')

lemma publish_with_inv:
  assumes inv: "cm_inv env s" and key: "cr_pub (cm_registry s) k = Some pw"
    and w: "mw_info w = pw_info pw" "cx_publisher (mw_ctx w)" "\<not> cx_used (mw_ctx w)"
    and call: "publish_with now w s = (log, cx', s')"
  defines "t \<equiv> ti_topic_name (pw_info pw)"
  defines "filters \<equiv> deciding_rule (en_regex_match env) t (cm_publish_filters_rules s)"
  shows "log = chain (rev (lookup_all (fm_filter_map (cm_publish_filters s)) filters)) (send_to_backends s') (w\<lparr>mw_ctx := cx'\<rparr>) []"
    and "send_to_backends s' (w\<lparr>mw_ctx := cx'\<rparr>) [] = map (\<lambda>b. (b, w\<lparr>mw_ctx := cx'\<rparr>)) (topic_backends env s t)"
    and "\<exists>n. cm_pub_topic_seq s t = Some n \<and> GetMetaValue ''aimrt-pub_seq'' cx' = to_string (unat (n + 1)) \<and>
      cm_pub_topic_seq s' = (cm_pub_topic_seq s)(t \<mapsto> n + 1)"
    and "cx_used cx'" "cm_state s' = cm_state s" "cm_registry s' = cm_registry s"
proof -
  have "info_key (pw_info pw) = k" using inv key unfolding cm_inv_def by blast
  then have kt: "k_topic_name k = t" by (auto simp: info_key_def t_def)
  have seq: "cm_pub_topic_seq s t \<noteq> None"
    and idx: "cm_pub_backend_index s t = Some (topic_backends env s t)"
    and names: "GetFilterNameVec t (cm_publish_filters s) = filters" and ok: "fm_ok (cm_publish_filters s)"
    using inv key kt unfolding cm_inv_def filters_def by blast+
  obtain n where n: "cm_pub_topic_seq s t = Some n" using seq by auto
  let ?cx1 = "SetMetaValue ''aimrt-pub_seq'' (to_string (unat (n + 1))) (SetUsed (mw_ctx w))"
  let ?s1 = "s\<lparr>cm_pub_topic_seq := (cm_pub_topic_seq s)(t \<mapsto> n + 1)\<rparr>"
  have r: "cx' = SetMetaValue ''aimrt-pub_ts'' (to_string now) ?cx1" "s' = ?s1"
    "log = InvokeChannel (GetFilterCollector t (cm_publish_filters s)) (send_to_backends ?s1) (w\<lparr>mw_ctx := cx'\<rparr>) []"
    using call w n by (auto simp: publish_with_def set_sequence_def Let_def t_def)
  show "log = chain (rev (lookup_all (fm_filter_map (cm_publish_filters s)) filters)) (send_to_backends s') (w\<lparr>mw_ctx := cx'\<rparr>) []"
    by (simp add: r(2,3) cf.get_chain [OF ok, of t] names)
  show "send_to_backends s' (w\<lparr>mw_ctx := cx'\<rparr>) [] = map (\<lambda>b. (b, w\<lparr>mw_ctx := cx'\<rparr>)) (topic_backends env s t)"
    using idx by (simp add: send_to_backends_def r(2) w(1) t_def)
  show "\<exists>n. cm_pub_topic_seq s t = Some n \<and> GetMetaValue ''aimrt-pub_seq'' cx' = to_string (unat (n + 1)) \<and>
      cm_pub_topic_seq s' = (cm_pub_topic_seq s)(t \<mapsto> n + 1)"
    using n by (simp add: r(1,2) SetMetaValue_get)
  show "cx_used cx'" by (simp add: r(1) SetMetaValue_def SetUsed_def)
  show "cm_state s' = cm_state s" "cm_registry s' = cm_registry s" by (simp_all add: r(2))
qed

lemma cm_Start_frame:
  assumes "cm_Start s = (None, s')"
  shows "cm_state s' = kStart" "cm_registry s' = cm_registry s" "cm_publish_filters s' = cm_publish_filters s"
    "cm_pub_backend_index s' = cm_pub_backend_index s" "cm_pub_topic_seq s' = cm_pub_topic_seq s"
    "cm_backends s' = cm_backends s" "cm_publish_filters_rules s' = cm_publish_filters_rules s"
    "cm_pub_topics_backends_rules s' = cm_pub_topics_backends_rules s"
  using assms by (auto simp: cm_Start_def atomic_exchange_def Let_def split: if_splits)

lemma started_publish:
  assumes "cm_inv env s" "cm_state s = kStart"
    and "GetPublishTypeWrapperPtr (pp_msg_type pp) (pp_topic_name pp) (pp_pkg_path pp) (pp_module_name pp) (cm_registry s) = Some pw"
    and "cx_publisher (pp_ctx pp)" "\<not> cx_used (pp_ctx pp)"
    and "cm_Publish_proxy now pp s = (log, cx', s')"
    and "filters = deciding_rule (en_regex_match env) (pp_topic_name pp) (cm_publish_filters_rules s)"
    and "w = \<lparr>mw_info = pw_info pw, mw_msg = Some (pp_msg pp), mw_ctx = cx', mw_cache = [], mw_msg_cache = None\<rparr>"
  shows "log = chain (rev (lookup_all (fm_filter_map (cm_publish_filters s)) filters)) (send_to_backends s') w []"
    and "send_to_backends s' w [] = map (\<lambda>b. (b, w)) (topic_backends env s (pp_topic_name pp))"
    and "\<exists>n. cm_pub_topic_seq s (pp_topic_name pp) = Some n \<and>
       GetMetaValue ''aimrt-pub_seq'' cx' = to_string (unat (n + 1)) \<and>
       cm_pub_topic_seq s' = (cm_pub_topic_seq s)(pp_topic_name pp \<mapsto> n + 1)"
    and "cm_Publish_proxy later (pp\<lparr>pp_ctx := cx'\<rparr>) s' = ([], cx', s')"
proof -
  let ?k = "\<lparr>k_msg_type = pp_msg_type pp, k_topic_name = pp_topic_name pp, k_pkg_path = pp_pkg_path pp,
    k_module_name = pp_module_name pp\<rparr>"
  have key: "cr_pub (cm_registry s) ?k = Some pw" using assms(3) by (simp add: GetPublishTypeWrapperPtr_def)
  then have "info_key (pw_info pw) = ?k" using assms(1) unfolding cm_inv_def by blast
  then have topic: "ti_topic_name (pw_info pw) = pp_topic_name pp" by (simp add: info_key_def)
  let ?w = "\<lparr>mw_info = pw_info pw, mw_msg = Some (pp_msg pp), mw_ctx = pp_ctx pp, mw_cache = [], mw_msg_cache = None\<rparr>"
  have call: "publish_with now ?w s = (log, cx', s')"
    using assms(2,6) by (simp add: cm_Publish_proxy_def assms(3))
  note p = publish_with_inv [OF assms(1) key, of ?w now log cx' s', simplified, OF assms(4,5) call, unfolded topic]
  show "cm_Publish_proxy later (pp\<lparr>pp_ctx := cx'\<rparr>) s' = ([], cx', s')"
    using p(4-6) assms(2,3) by (simp add: cm_Publish_proxy_def publish_with_def)
  show "log = chain (rev (lookup_all (fm_filter_map (cm_publish_filters s)) filters)) (send_to_backends s') w []"
    "send_to_backends s' w [] = map (\<lambda>b. (b, w)) (topic_backends env s (pp_topic_name pp))"
    "\<exists>n. cm_pub_topic_seq s (pp_topic_name pp) = Some n \<and>
       GetMetaValue ''aimrt-pub_seq'' cx' = to_string (unat (n + 1)) \<and>
       cm_pub_topic_seq s' = (cm_pub_topic_seq s)(pp_topic_name pp \<mapsto> n + 1)"
    using p(1-3) by (simp_all add: assms(7,8))
qed

text \<open>Registrations change neither the rules nor the backends nor the registered filters.\<close>

lemma CreateIf_filter_map:
  "CreateFilterCollectorIfNotExist k ns fm = Inr fm' \<Longrightarrow> fm_filter_map fm' = fm_filter_map fm"
  by (auto simp: CreateFilterCollectorIfNotExist_def CreateFilterCollector_def bindR_eq_Inr split: if_splits option.splits)

definition same_rules :: "('m, 'v) channel_backend_manager \<Rightarrow> ('m, 'v) channel_backend_manager \<Rightarrow> bool" where
  "same_rules s s' \<longleftrightarrow> cm_backends s' = cm_backends s \<and> cm_state s' = cm_state s \<and>
     cm_pub_topics_backends_rules s' = cm_pub_topics_backends_rules s \<and>
     cm_publish_filters_rules s' = cm_publish_filters_rules s \<and>
     fm_filter_map (cm_publish_filters s') = fm_filter_map (cm_publish_filters s)"

lemma same_rules_trans: "same_rules s s1 \<Longrightarrow> same_rules s1 s2 \<Longrightarrow> same_rules s s2"
  by (simp add: same_rules_def)

lemma wrapper_same_rules:
  "same_rules s (snd (subscribe_wrapper env w s))" "same_rules s (snd (register_publish_wrapper env v s))"
proof -
  obtain r s' where "subscribe_wrapper env w s = (r, s')" by fastforce
  then show "same_rules s (snd (subscribe_wrapper env w s))"
    using subscribe_wrapper_frame [of env w s r s'] by (simp add: same_rules_def)
  obtain b reg where "Registry.RegisterPublishType v (cm_registry s) = (b, reg)" by fastforce
  then show "same_rules s (snd (register_publish_wrapper env v s))"
    by (cases b; cases "cm_pub_backend_index s (ti_topic_name (pw_info v))")
      (auto simp: register_publish_wrapper_def same_rules_def Let_def dest!: CreateIf_filter_map split: sum.splits)
qed

lemma reg_step_same_rules: "same_rules s (reg_step env op s)"
proof -
  have i: "same_rules (s\<lparr>cm_sub_topic_index := n\<rparr>) s' = same_rules s s'" "same_rules (s\<lparr>cm_pub_topic_index := n\<rparr>) s' = same_rules s s'"
    "same_rules s s" for n s'
    by (simp_all add: same_rules_def)
  show ?thesis
    using wrapper_same_rules [of s env] wrapper_same_rules [of "s\<lparr>cm_sub_topic_index := cm_sub_topic_index s + 1\<rparr>" env]
      wrapper_same_rules [of "s\<lparr>cm_pub_topic_index := cm_pub_topic_index s + 1\<rparr>" env]
    by (cases op) (simp_all add: cm_Subscribe_proxy_def cm_Subscribe_def cm_RegisterPublishType_proxy_def
        cm_RegisterPublishType_def Let_def i split: option.splits)
qed

lemma reg_steps_same_rules: "same_rules s (fold (reg_step env) ops s)"
proof (induction ops arbitrary: s)
  case (Cons op ops)
  then show ?case using same_rules_trans [OF reg_step_same_rules [of s env op] Cons] by simp
qed (simp add: same_rules_def)

text \<open>
  C9. Once the registrations are done and the manager is started, publishing on a registered
  topic with a fresh publisher context runs exactly the filters of the deciding filter rule,
  last name outermost, around the calls of exactly the existing backends of the deciding
  backend rule, in the order of that rule; the context carries the next sequence number of
  the topic, and a second publication with it reaches no backend and takes no number.
\<close>

theorem publish_reaches_topic_backends:
  assumes "cm_fresh s0" "s1 = fold (reg_step env) ops s0" "cm_Start s1 = (None, s)"
    and "GetPublishTypeWrapperPtr (pp_msg_type pp) (pp_topic_name pp) (pp_pkg_path pp) (pp_module_name pp) (cm_registry s) = Some pw"
    and "cx_publisher (pp_ctx pp)" "\<not> cx_used (pp_ctx pp)"
    and "cm_Publish_proxy now pp s = (log, cx', s')"
    and "filters = deciding_rule (en_regex_match env) (pp_topic_name pp) (cm_publish_filters_rules s)"
    and "w = \<lparr>mw_info = pw_info pw, mw_msg = Some (pp_msg pp), mw_ctx = cx', mw_cache = [], mw_msg_cache = None\<rparr>"
  shows "log = chain (rev (lookup_all (fm_filter_map (cm_publish_filters s)) filters)) (send_to_backends s') w [] \<and>
    send_to_backends s' w [] = map (\<lambda>b. (b, w)) (topic_backends env s (pp_topic_name pp)) \<and>
    (\<exists>n. cm_pub_topic_seq s (pp_topic_name pp) = Some n \<and>
       GetMetaValue ''aimrt-pub_seq'' cx' = to_string (unat (n + 1)) \<and>
       cm_pub_topic_seq s' = (cm_pub_topic_seq s)(pp_topic_name pp \<mapsto> n + 1)) \<and>
    cm_Publish_proxy later (pp\<lparr>pp_ctx := cx'\<rparr>) s' = ([], cx', s')"
proof -
  have "cm_inv env s1" unfolding assms(2) using assms(1) by (intro reg_steps_inv cm_fresh_inv)
  then have inv: "cm_inv env s"
    unfolding cm_inv_def topic_backends_def cm_Start_frame(2-) [OF assms(3)] .
  have st: "cm_state s = kStart" by (rule cm_Start_frame [OF assms(3)])
  show ?thesis using started_publish [OF inv st assms(4-9)] by blast
qed

text \<open>A manager with one backend, whose rule for all topics also names a missing one.\<close>

definition demo_env :: "nat env" where
  "demo_env = \<lparr>en_regex_match = (\<lambda>re s. if re = ''(.*)'' then Some True else None), en_answer = (\<lambda>_. True)\<rparr>"

definition demo_manager :: "(nat, unit) channel_backend_manager" where
  "demo_manager =
     \<lparr>cm_state = kInit, cm_registry = new_channel_registry, cm_publish_filters = new_filter_manager,
      cm_subscribe_filters = new_filter_manager, cm_publish_filters_rules = [], cm_subscribe_filters_rules = [],
      cm_pub_topics_backends_rules = [(''['', []), (''(.*)'', [''mqtt'', ''local''])],
      cm_sub_topics_backends_rules = [], cm_backends = [''local''],
      cm_sub_backend_index = (\<lambda>_. None), cm_pub_backend_index = (\<lambda>_. None), cm_sub_topic_index = 0,
      cm_pub_topic_index = 0, cm_pub_topic_seq = (\<lambda>_. None), cm_calls = []\<rparr>"

definition demo_publish :: "nat publish_info" where
  "demo_publish =
     \<lparr>pp_msg_type = ''number'', pp_topic_name = ''t'', pp_pkg_path = ''p'', pp_module_name = ''m'', pp_msg = 7,
      pp_ctx = \<lparr>cx_publisher = True, cx_used = False, cx_meta = []\<rparr>\<rparr>"

definition demo_pub_wrapper :: "nat publish_type_wrapper" where
  "demo_pub_wrapper = \<lparr>pw_info = number_info ''m'', pw_require = []\<rparr>"

theorem publish_reaches_topic_backends_witness:
  "\<exists>(s :: (nat, unit) channel_backend_manager) log cx' s' w. cm_Publish_proxy 5 demo_publish s = (log, cx', s') \<and> log = [(''local'', w)]"
proof -
  obtain s1 where e: "s1 = fold (reg_step demo_env) [RegPublish demo_pub_wrapper] demo_manager" by blast
  obtain s where es: "s = snd (cm_Start s1)" by blast
  have fresh: "cm_fresh demo_manager"
    by (simp add: cm_fresh_def demo_manager_def fm_ok_def key_ok_def GetFilterNameVec_def new_filter_manager_def)
  have fold1: "s1 = snd (register_publish_wrapper demo_env demo_pub_wrapper demo_manager)"
    by (simp add: e cm_RegisterPublishType_def demo_manager_def)
  have s1: "cm_state s1 = kInit" "cr_pub (cm_registry s1) (info_key (number_info ''m'')) = Some demo_pub_wrapper"
    "cm_publish_filters_rules s1 = []" "cm_backends s1 = [''local'']"
    "cm_pub_topics_backends_rules s1 = [(''['', []), (''(.*)'', [''mqtt'', ''local''])]"
    unfolding fold1
    by (simp_all add: register_publish_wrapper_def demo_manager_def demo_pub_wrapper_def Let_def
        CreateFilterCollectorIfNotExist_def CreateFilterCollector_def new_filter_manager_def
        Registry.RegisterPublishType_def new_channel_registry_def)
  have start: "cm_Start s1 = (None, s)"
    using s1(1) by (simp add: es cm_Start_def atomic_exchange_def Let_def)
  note f = cm_Start_frame [OF start]
  have pw: "GetPublishTypeWrapperPtr (pp_msg_type demo_publish) (pp_topic_name demo_publish) (pp_pkg_path demo_publish)
      (pp_module_name demo_publish) (cm_registry s) = Some demo_pub_wrapper"
    using s1(2) unfolding f(2) by (simp add: GetPublishTypeWrapperPtr_def demo_publish_def info_key_def number_info_def)
  have cx: "cx_publisher (pp_ctx demo_publish)" "\<not> cx_used (pp_ctx demo_publish)" by (simp_all add: demo_publish_def)
  obtain log cx' s' where call: "cm_Publish_proxy 5 demo_publish s = (log, cx', s')" by (metis prod_cases3)
  have "deciding_rule (en_regex_match demo_env) ''t'' (cm_publish_filters_rules s) = []"
    "topic_backends demo_env s ''t'' = [''local'']"
    by (simp_all add: f s1 deciding_rule_def topic_backends_def demo_env_def)
  moreover have "pp_topic_name demo_publish = ''t''" by (simp add: demo_publish_def)
  ultimately have "\<exists>w. log = [(''local'', w)]"
    using publish_reaches_topic_backends [OF fresh e start pw cx call refl refl] by simp
  then show ?thesis using call by blast
qed

end
