(* ===== verification/RpcCall.thy ===== *)
theory RpcCall
  imports Registry
begin

text \<open>
  A remote call on its way (\<open>rpc_context.h\<close>, \<open>rpc_invoke_wrapper.h\<close>, \<open>rpc_backend_tools.h\<close>) and
  the table of outstanding calls a backend keeps (\<open>rpc_client_tool.h\<close>). The request and
  response types are the parameters \<open>'q\<close> and \<open>'p\<close>; their type supports are generated code and
  come with the function's info.
\<close>

section \<open>Status codes\<close>

definition STATUS_OK :: u32 where "STATUS_OK = 0"
definition STATUS_TIMEOUT :: u32 where "STATUS_TIMEOUT = 2"
definition SVR_NOT_FOUND :: u32 where "SVR_NOT_FOUND = 1003"
definition SVR_SERIALIZATION_FAILED :: u32 where "SVR_SERIALIZATION_FAILED = 1005"
definition SVR_DESERIALIZATION_FAILED :: u32 where "SVR_DESERIALIZATION_FAILED = 1007"
definition CLI_FUNC_NOT_REGISTERED :: u32 where "CLI_FUNC_NOT_REGISTERED = 2001"
definition CLI_BACKEND_INTERNAL_ERROR :: u32 where "CLI_BACKEND_INTERNAL_ERROR = 2002"
definition CLI_INVALID_CONTEXT :: u32 where "CLI_INVALID_CONTEXT = 2003"
definition CLI_INVALID_ADDR :: u32 where "CLI_INVALID_ADDR = 2004"
definition CLI_SERIALIZATION_FAILED :: u32 where "CLI_SERIALIZATION_FAILED = 2006"
definition CLI_DESERIALIZATION_FAILED :: u32 where "CLI_DESERIALIZATION_FAILED = 2008"
definition CLI_NO_BACKEND_TO_HANDLE :: u32 where "CLI_NO_BACKEND_TO_HANDLE = 2009"

section \<open>Contexts and wrappers\<close>

text \<open>The timeout is a number of nanoseconds.\<close>

record rpc_context =
  rc_client :: bool
  rc_used :: bool
  rc_timeout :: u64
  rc_meta :: "(string \<times> string) list"

definition rpc_GetMetaValue :: "string \<Rightarrow> rpc_context \<Rightarrow> string" where
  "rpc_GetMetaValue key cx = (case map_of (rc_meta cx) key of Some v \<Rightarrow> v | None \<Rightarrow> [])"

definition rpc_SetMetaValue :: "string \<Rightarrow> string \<Rightarrow> rpc_context \<Rightarrow> rpc_context" where
  "rpc_SetMetaValue key val cx = cx\<lparr>rc_meta := AList.update key val (rc_meta cx)\<rparr>"

definition rpc_GetMetaKeys :: "rpc_context \<Rightarrow> string list" where
  "rpc_GetMetaKeys cx = map fst (rc_meta cx)"

definition rpc_SetUsed :: "rpc_context \<Rightarrow> rpc_context" where
  "rpc_SetUsed cx = cx\<lparr>rc_used := True\<rparr>"

definition rpc_Reset :: "rpc_context \<Rightarrow> rpc_context" where
  "rpc_Reset cx = cx\<lparr>rc_used := False, rc_timeout := 0, rc_meta := []\<rparr>"

definition rpc_SetTimeout :: "u64 \<Rightarrow> rpc_context \<Rightarrow> rpc_context" where
  "rpc_SetTimeout t cx = cx\<lparr>rc_timeout := t\<rparr>"

definition GetToAddr :: "rpc_context \<Rightarrow> string" where
  "GetToAddr cx = rpc_GetMetaValue ''aimrt-to_addr'' cx"

definition SetToAddr :: "string \<Rightarrow> rpc_context \<Rightarrow> rpc_context" where
  "SetToAddr val cx = rpc_SetMetaValue ''aimrt-to_addr'' val cx"

definition rpc_GetSerializationType :: "rpc_context \<Rightarrow> string" where
  "rpc_GetSerializationType cx = rpc_GetMetaValue ''aimrt-serialization_type'' cx"

definition rpc_SetSerializationType :: "string \<Rightarrow> rpc_context \<Rightarrow> rpc_context" where
  "rpc_SetSerializationType val cx = rpc_SetMetaValue ''aimrt-serialization_type'' val cx"

definition GetFunctionName :: "rpc_context \<Rightarrow> string" where
  "GetFunctionName cx = rpc_GetMetaValue ''aimrt-function_name'' cx"

definition SetFunctionName :: "string \<Rightarrow> rpc_context \<Rightarrow> rpc_context" where
  "SetFunctionName val cx = rpc_SetMetaValue ''aimrt-function_name'' val cx"

lemma rpc_meta_get_set [simp]:
  "rpc_GetMetaValue k (rpc_SetMetaValue k' v cx) = (if k = k' then v else rpc_GetMetaValue k cx)"
  by (simp add: rpc_GetMetaValue_def rpc_SetMetaValue_def update_conv')

lemma rpc_context_frame [simp]:
  "rc_client (rpc_SetMetaValue k v cx) = rc_client cx" "rc_used (rpc_SetMetaValue k v cx) = rc_used cx"
  "rc_timeout (rpc_SetMetaValue k v cx) = rc_timeout cx"
  "rc_client (rpc_SetTimeout t cx) = rc_client cx" "rc_used (rpc_SetTimeout t cx) = rc_used cx"
  "rc_timeout (rpc_SetTimeout t cx) = t" "rpc_GetMetaValue k (rpc_SetTimeout t cx) = rpc_GetMetaValue k cx"
  "rc_client (rpc_SetUsed cx) = rc_client cx" "rc_used (rpc_SetUsed cx)"
  "rc_timeout (rpc_SetUsed cx) = rc_timeout cx" "rpc_GetMetaValue k (rpc_SetUsed cx) = rpc_GetMetaValue k cx"
  by (simp_all add: rpc_SetMetaValue_def rpc_SetTimeout_def rpc_SetUsed_def rpc_GetMetaValue_def)

text \<open>
  A response that no one has written yet is \<open>None\<close>. \<open>iw_callback\<close> says whether the callback is
  set: \<open>InvokeCallBack\<close> resets it, and calling an empty one throws.
\<close>

record ('q, 'p) invoke_wrapper =
  iw_info :: "('q, 'p) func_info"
  iw_req :: 'q
  iw_rsp :: "'p option"
  iw_ctx :: rpc_context
  iw_callback :: bool
  iw_req_cache :: "(string \<times> bytes) list"
  iw_rsp_cache :: "(string \<times> bytes) list"

definition SerializeReqWithCache ::
  "('q, 'p) invoke_wrapper \<Rightarrow> string \<Rightarrow> (msg_error, bytes \<times> ('q, 'p) invoke_wrapper) result" where
  "SerializeReqWithCache w serialization_type =
     (case map_of (iw_req_cache w) serialization_type of
        Some b \<Rightarrow> Inr (b, w)
      | None \<Rightarrow>
          (case ts_serialize (fi_req_support (iw_info w)) serialization_type (iw_req w) of
             None \<Rightarrow> Inl SerializeFailed
           | Some b \<Rightarrow> Inr (b, w\<lparr>iw_req_cache := cache_emplace serialization_type b (iw_req_cache w)\<rparr>)))"

definition TrySerializeReqWithCache ::
  "('q, 'p) invoke_wrapper \<Rightarrow> string \<Rightarrow> bytes option \<times> ('q, 'p) invoke_wrapper" where
  "TrySerializeReqWithCache w serialization_type =
     (case SerializeReqWithCache w serialization_type of
        Inl _ \<Rightarrow> (None, w)
      | Inr (b, w') \<Rightarrow> (Some b, w'))"

definition SerializeRspWithCache ::
  "('q, 'p) invoke_wrapper \<Rightarrow> string \<Rightarrow> (msg_error, bytes \<times> ('q, 'p) invoke_wrapper) result" where
  "SerializeRspWithCache w serialization_type =
     (case map_of (iw_rsp_cache w) serialization_type of
        Some b \<Rightarrow> Inr (b, w)
      | None \<Rightarrow>
          (case Option.bind (iw_rsp w) (ts_serialize (fi_rsp_support (iw_info w)) serialization_type) of
             None \<Rightarrow> Inl SerializeFailed
           | Some b \<Rightarrow> Inr (b, w\<lparr>iw_rsp_cache := cache_emplace serialization_type b (iw_rsp_cache w)\<rparr>)))"

definition TrySerializeRspWithCache ::
  "('q, 'p) invoke_wrapper \<Rightarrow> string \<Rightarrow> bytes option \<times> ('q, 'p) invoke_wrapper" where
  "TrySerializeRspWithCache w serialization_type =
     (case SerializeRspWithCache w serialization_type of
        Inl _ \<Rightarrow> (None, w)
      | Inr (b, w') \<Rightarrow> (Some b, w'))"

section \<open>Outstanding calls\<close>

text \<open>
  \<open>RpcClientTool\<close>: a concurrent hash map from request numbers to the recorded calls, an optional
  timeout executor (its number and whether it supports timers) and, as \<open>ct_timers\<close>, the request
  numbers whose timeout task is with that executor. A timeout task that runs takes the record
  of its number, if it is still there.
\<close>

record 'c client_tool =
  ct_executor :: "nat option"
  ct_map :: "(u32 \<times> 'c) list"
  ct_timers :: "(u32 \<times> u64) list"

definition new_client_tool :: "'c client_tool" where
  "new_client_tool = \<lparr>ct_executor = None, ct_map = [], ct_timers = []\<rparr>"

definition RegisterTimeoutExecutor :: "nat \<times> bool \<Rightarrow> 'c client_tool \<Rightarrow> 'c client_tool option" where
  "RegisterTimeoutExecutor ex ct = (if \<not> snd ex then None else Some (ct\<lparr>ct_executor := Some (fst ex)\<rparr>))"

definition Record :: "u32 \<Rightarrow> u64 \<Rightarrow> 'c \<Rightarrow> 'c client_tool \<Rightarrow> bool \<times> 'c client_tool" where
  "Record req_id timeout c ct =
     (if map_of (ct_map ct) req_id \<noteq> None then (False, ct)
      else
        let ct = ct\<lparr>ct_map := ct_map ct @ [(req_id, c)]\<rparr> in
        (True, if ct_executor ct \<noteq> None then ct\<lparr>ct_timers := ct_timers ct @ [(req_id, timeout)]\<rparr> else ct))"

definition GetRecord :: "u32 \<Rightarrow> 'c client_tool \<Rightarrow> 'c option \<times> 'c client_tool" where
  "GetRecord req_id ct =
     (case map_of (ct_map ct) req_id of
        None \<Rightarrow> (None, ct)
      | Some c \<Rightarrow> (Some c, ct\<lparr>ct_map := AList.delete req_id (ct_map ct)\<rparr>))"

definition ct_ok :: "'c client_tool \<Rightarrow> bool" where
  "ct_ok ct \<longleftrightarrow> distinct (map fst (ct_map ct))"

text \<open>How often a call is recorded.\<close>

definition recorded :: "'c client_tool \<Rightarrow> 'c \<Rightarrow> nat" where
  "recorded ct c = length (filter (\<lambda>(_, x). x = c) (ct_map ct))"

lemma new_client_tool_ok [simp]: "ct_ok new_client_tool" "recorded new_client_tool c = 0"
  by (simp_all add: ct_ok_def recorded_def new_client_tool_def)

lemma Record_ok:
  assumes "Record r t c ct = (b, ct')" "ct_ok ct"
  shows "ct_ok ct'" "recorded ct' c' = recorded ct c' + (if b \<and> c' = c then 1 else 0)"
    "b \<longleftrightarrow> r \<notin> fst ` set (ct_map ct)" "set (map fst (ct_map ct')) = set (map fst (ct_map ct)) \<union> {r}"
proof -
  have r: "map_of (ct_map ct) r = None \<longleftrightarrow> r \<notin> fst ` set (ct_map ct)" by (simp add: map_of_eq_None_iff)
  show "ct_ok ct'" "recorded ct' c' = recorded ct c' + (if b \<and> c' = c then 1 else 0)"
    "b \<longleftrightarrow> r \<notin> fst ` set (ct_map ct)" "set (map fst (ct_map ct')) = set (map fst (ct_map ct)) \<union> {r}"
    using assms r by (auto simp: Record_def Let_def ct_ok_def recorded_def split: if_splits)
qed

lemma delete_count:
  "distinct (map fst m) \<Longrightarrow> map_of m r = Some c \<Longrightarrow>
   length (filter (\<lambda>(_, x). x = c') m) = length (filter (\<lambda>(_, x). x = c') (AList.delete r m)) + (if c' = c then 1 else 0)"
proof (induction m)
  case (Cons p m)
  obtain k x where p: "p = (k, x)" by fastforce
  show ?case
  proof (cases "k = r")
    case True
    then have "AList.delete r m = m" using Cons.prems(1) by (intro AList.delete_id) (auto simp: p)
    then show ?thesis using True Cons.prems(2) by (auto simp: p)
  qed (use Cons in \<open>auto simp: p\<close>)
qed simp

lemma GetRecord_ok:
  assumes "GetRecord r ct = (co, ct')" "ct_ok ct"
  shows "ct_ok ct'" "recorded ct c = recorded ct' c + (if co = Some c then 1 else 0)"
    "co = None \<longleftrightarrow> r \<notin> fst ` set (ct_map ct)" "set (map fst (ct_map ct')) = set (map fst (ct_map ct)) - {r}"
    "ct_timers ct' = ct_timers ct" "ct_executor ct' = ct_executor ct"
proof -
  have all: "ct_ok ct' \<and> recorded ct c = recorded ct' c + (if co = Some c then 1 else 0) \<and>
    (co = None \<longleftrightarrow> r \<notin> fst ` set (ct_map ct)) \<and> set (map fst (ct_map ct')) = set (map fst (ct_map ct)) - {r} \<and>
    ct_timers ct' = ct_timers ct \<and> ct_executor ct' = ct_executor ct"
  proof (cases "map_of (ct_map ct) r")
    case None
    then have "r \<notin> fst ` set (ct_map ct)" by (simp add: map_of_eq_None_iff)
    then show ?thesis using assms None by (simp add: GetRecord_def)
  next
    case (Some x)
    then have "r \<in> fst ` set (ct_map ct)" by (metis map_of_eq_None_iff option.distinct(1))
    moreover have "co = Some x" "ct' = ct\<lparr>ct_map := AList.delete r (ct_map ct)\<rparr>"
      using assms(1) Some by (auto simp: GetRecord_def)
    moreover have "set (map fst (AList.delete r (ct_map ct))) = set (map fst (ct_map ct)) - {r}"
      unfolding delete_keys by simp
    moreover have "distinct (map fst (AList.delete r (ct_map ct)))"
      using assms(2) unfolding ct_ok_def by (rule distinct_delete)
    ultimately show ?thesis using assms(2) delete_count [of "ct_map ct" r x c] Some
      by (simp add: ct_ok_def recorded_def)
  qed
  then show "ct_ok ct'" "recorded ct c = recorded ct' c + (if co = Some c then 1 else 0)"
    "co = None \<longleftrightarrow> r \<notin> fst ` set (ct_map ct)" "set (map fst (ct_map ct')) = set (map fst (ct_map ct)) - {r}"
    "ct_timers ct' = ct_timers ct" "ct_executor ct' = ct_executor ct" by blast+
qed

lemma GetRecord_Record:
  assumes "Record r t c ct = (True, ct')"
  shows "fst (GetRecord r ct') = Some c"
  proof -
  have n: "map_of (ct_map ct) r = None" and m: "ct_map ct' = ct_map ct @ [(r, c)]"
    using assms by (auto simp: Record_def Let_def split: if_splits)
  then have "map_of (ct_map ct') r = Some c" by (simp add: map_add_def)
  then show ?thesis by (simp add: GetRecord_def)
qed

end
