(* ===== verification/LocalRpc.thy ===== *)
theory LocalRpc
  imports RpcCall LocalChannel UrlUtil StringSearch
begin

text \<open>
  The local rpc backend (\<open>local_rpc_backend.cc\<close>): it finds the service a call is meant for,
  calls it directly inside the client's package and through serialised copies otherwise, and
  races the reply against a timeout. The theory models the whole exchange as a state with the
  client calls, the calls that are between \<open>Record\<close> and the service, the calls the services have
  not answered and a log of the client callbacks; each entry point is a function on it, and
  the interleavings are a step relation.
\<close>

section \<open>State and life cycle\<close>

record lrb_options =
  ro_timeout_executor :: string

record lrb_node =
  rn_timeout_executor :: "string option"

definition lrb_encode :: "lrb_options \<Rightarrow> lrb_node" where
  "lrb_encode rhs = \<lparr>rn_timeout_executor = Some (ro_timeout_executor rhs)\<rparr>"

definition lrb_decode :: "lrb_node \<Rightarrow> lrb_options \<Rightarrow> lrb_options" where
  "lrb_decode node rhs =
     (case rn_timeout_executor node of None \<Rightarrow> rhs | Some e \<Rightarrow> rhs\<lparr>ro_timeout_executor := e\<rparr>)"

text \<open>
  The client calls are known by number. \<open>rb_tool\<close> is \<open>client_tool_ptr_\<close>; an executor is known
  by its number and by whether it supports timers.
\<close>

record local_rpc_backend =
  rb_options :: lrb_options
  rb_state :: lc_state
  rb_get_executor_func :: "(string \<Rightarrow> (nat \<times> bool) option) option"
  rb_req_id :: u32
  rb_tool :: "nat client_tool option"
  rb_index :: "(string \<times> pkg_index) list"

datatype lrb_error =
    RbInitializedTwice | RbNotInit | RbNotPreInit | RbNoGetExecutor
  | RbNoTimeoutExecutor string | RbNoTimerSupport

definition new_local_rpc_backend :: local_rpc_backend where
  "new_local_rpc_backend =
     \<lparr>rb_options = \<lparr>ro_timeout_executor = []\<rparr>, rb_state = kPreInit, rb_get_executor_func = None,
      rb_req_id = 0, rb_tool = None, rb_index = []\<rparr>"

definition lrb_Initialize :: "lrb_node option \<Rightarrow> local_rpc_backend \<Rightarrow> (lrb_error, local_rpc_backend) outcome" where
  "lrb_Initialize options_node b =
     (let (old, new) = atomic_exchange (rb_state b) kInit; b = b\<lparr>rb_state := new\<rparr> in
      if old \<noteq> kPreInit then (Some RbInitializedTwice, b)
      else
        let opts = (case options_node of
                      None \<Rightarrow> rb_options b
                    | Some node \<Rightarrow> lrb_decode node (rb_options new_local_rpc_backend));
            b = b\<lparr>rb_options := opts, rb_tool := Some new_client_tool\<rparr>
        in if ro_timeout_executor opts = [] then (None, b)
           else case rb_get_executor_func b of
             None \<Rightarrow> (Some RbNoGetExecutor, b)
           | Some get \<Rightarrow>
               (case get (ro_timeout_executor opts) of
                  None \<Rightarrow> (Some (RbNoTimeoutExecutor (ro_timeout_executor opts)), b)
                | Some ex \<Rightarrow>
                    (case RegisterTimeoutExecutor ex new_client_tool of
                       None \<Rightarrow> (Some RbNoTimerSupport, b)
                     | Some tool \<Rightarrow> (None, b\<lparr>rb_tool := Some tool\<rparr>))))"

definition lrb_Start :: "local_rpc_backend \<Rightarrow> (lrb_error, local_rpc_backend) outcome" where
  "lrb_Start b =
     (let (old, new) = atomic_exchange (rb_state b) kStart; b = b\<lparr>rb_state := new\<rparr> in
      if old \<noteq> kInit then (Some RbNotInit, b) else (None, b))"

definition lrb_Shutdown :: "local_rpc_backend \<Rightarrow> local_rpc_backend" where
  "lrb_Shutdown b =
     (let (old, new) = atomic_exchange (rb_state b) kShutdown; b = b\<lparr>rb_state := new\<rparr> in
      if old = kShutdown then b
      else b\<lparr>rb_index := [], rb_tool := None, rb_get_executor_func := None\<rparr>)"

definition lrb_RegisterGetExecutorFunc ::
  "(string \<Rightarrow> (nat \<times> bool) option) \<Rightarrow> local_rpc_backend \<Rightarrow> (lrb_error, local_rpc_backend) outcome" where
  "lrb_RegisterGetExecutorFunc f b =
     (if rb_state b \<noteq> kPreInit then (Some RbNotPreInit, b) else (None, b\<lparr>rb_get_executor_func := Some f\<rparr>))"

interpretation lrb: lifecycle rb_state lrb_Initialize lrb_Start lrb_Shutdown
  by unfold_locales
    (auto simp: lrb_Initialize_def lrb_Start_def lrb_Shutdown_def atomic_exchange_def Let_def
      split: option.splits if_splits)

section \<open>Registration\<close>

definition lrb_RegisterServiceFunc ::
  "('q, 'p) service_func_wrapper \<Rightarrow> local_rpc_backend \<Rightarrow> bool \<times> local_rpc_backend" where
  "lrb_RegisterServiceFunc w b =
     (if rb_state b \<noteq> kInit then (False, b)
      else
        let info = sf_info w;
            pkgs = at_list (rb_index b) (fi_func_name info);
            modules = at_list pkgs (fi_pkg_path info)
        in (True, b\<lparr>rb_index := AList.update (fi_func_name info)
                      (AList.update (fi_pkg_path info) (set_insert (fi_module_name info) modules) pkgs)
                      (rb_index b)\<rparr>))"

definition lrb_RegisterClientFunc :: "('q, 'p) client_func_wrapper \<Rightarrow> local_rpc_backend \<Rightarrow> bool" where
  "lrb_RegisterClientFunc w b \<longleftrightarrow> rb_state b = kInit"

section \<open>Finding the service\<close>

text \<open>The package and module an address asks for; an empty string stands for "any".\<close>

definition wanted_service :: "string \<Rightarrow> (u32, string \<times> string) result" where
  "wanted_service to_addr =
     (if to_addr = [] then Inr ([], [])
      else case ParseUrl to_addr of
        None \<Rightarrow> Inr ([], [])
      | Some url \<Rightarrow>
          if protocol url \<noteq> ''local'' then Inl CLI_BACKEND_INTERNAL_ERROR
          else Inr (GetValueFromStrKV (query url) ''pkg_path'' ''&'' ''='' True,
                    GetValueFromStrKV (query url) ''module_name'' ''&'' ''='' True))"

definition find_service :: "string \<times> string \<Rightarrow> pkg_index \<Rightarrow> (u32, string \<times> string) result" where
  "find_service want pkgs =
     (let (pkg_path, module_name) = want in
      if pkg_path = [] then
        if module_name = [] then Inr (fst (hd pkgs), hd (snd (hd pkgs)))
        else case List.find (\<lambda>(_, modules). module_name \<in> set modules) pkgs of
               None \<Rightarrow> Inl CLI_INVALID_ADDR
             | Some (p, _) \<Rightarrow> if p = [] then Inl CLI_INVALID_ADDR else Inr (p, module_name)
      else case map_of pkgs pkg_path of
             None \<Rightarrow> Inl CLI_INVALID_ADDR
           | Some modules \<Rightarrow>
               if module_name = [] then Inr (pkg_path, hd modules)
               else if module_name \<in> set modules then Inr (pkg_path, module_name)
               else Inl CLI_INVALID_ADDR)"

definition resolve_service ::
  "('q, 'p) rpc_registry \<Rightarrow> local_rpc_backend \<Rightarrow> ('q, 'p) invoke_wrapper \<Rightarrow>
   (u32, ('q, 'p) service_func_wrapper) result" where
  "resolve_service reg b w =
     bindR (wanted_service (GetToAddr (iw_ctx w))) (\<lambda>want.
       case map_of (rb_index b) (fi_func_name (iw_info w)) of
         None \<Rightarrow> Inl SVR_NOT_FOUND
       | Some pkgs \<Rightarrow>
           bindR (find_service want pkgs) (\<lambda>(pkg_path, module_name).
             case GetServiceFuncWrapperPtr (fi_func_name (iw_info w)) pkg_path module_name reg of
               None \<Rightarrow> Inl CLI_BACKEND_INTERNAL_ERROR
             | Some s \<Rightarrow> Inr s))"

section \<open>The exchange\<close>

text \<open>
  A client callback that is run is logged with its status. \<open>BadCall\<close> is the exception of an
  empty callback, \<open>NullTool\<close> a use of the client tool after it was released.
\<close>

datatype rpc_event = Called nat u32 | BadCall nat | NullTool

datatype reply_to = Direct nat | ByRecord u32 string

record ('q, 'p) service_call =
  sc_service :: nat
  sc_wrapper :: "('q, 'p) invoke_wrapper"
  sc_reply :: reply_to

record ('q, 'p) inflight =
  if_client :: nat
  if_req_id :: u32
  if_service :: "('q, 'p) service_func_wrapper"
  if_wrapper :: "('q, 'p) invoke_wrapper"

record ('q, 'p) rpc_world =
  wo_backend :: local_rpc_backend
  wo_clients :: "nat \<Rightarrow> ('q, 'p) invoke_wrapper option"
  wo_inflight :: "('q, 'p) inflight list"
  wo_services :: "('q, 'p) service_call list"
  wo_log :: "rpc_event list"

definition call_callback :: "nat \<Rightarrow> u32 \<Rightarrow> ('q, 'p) rpc_world \<Rightarrow> ('q, 'p) rpc_world" where
  "call_callback c status s =
     (case wo_clients s c of
        None \<Rightarrow> s
      | Some w \<Rightarrow> s\<lparr>wo_log := wo_log s @ [if iw_callback w then Called c status else BadCall c]\<rparr>)"

text \<open>When the callback is empty the exception leaves \<open>InvokeCallBack\<close> before the reset.\<close>

definition InvokeCallBack :: "nat \<Rightarrow> u32 \<Rightarrow> ('q, 'p) rpc_world \<Rightarrow> ('q, 'p) rpc_world" where
  "InvokeCallBack c status s =
     (let s = call_callback c status s in
      s\<lparr>wo_clients := (wo_clients s)(c := map_option (\<lambda>w. w\<lparr>iw_callback := False\<rparr>) (wo_clients s c))\<rparr>)"

definition service_context :: "('q, 'p) func_info \<Rightarrow> ('q, 'p) invoke_wrapper \<Rightarrow> rpc_context" where
  "service_context service_info w =
     (let cx = rpc_SetTimeout (rc_timeout (iw_ctx w)) \<lparr>rc_client = False, rc_used = False, rc_timeout = 0, rc_meta = []\<rparr>;
          cx = fold (\<lambda>k cx. rpc_SetMetaValue k (rpc_GetMetaValue k (iw_ctx w)) cx) (rpc_GetMetaKeys (iw_ctx w)) cx;
          cx = SetFunctionName (fi_func_name service_info) cx;
          cx = rpc_SetMetaValue ''aimrt-backend'' ''local'' cx;
          cx = rpc_SetMetaValue ''aimrt-from_pkg'' (fi_pkg_path (iw_info w)) cx
      in rpc_SetMetaValue ''aimrt-from_module'' (fi_module_name (iw_info w)) cx)"

definition service_wrapper :: "('q, 'p) func_info \<Rightarrow> ('q, 'p) invoke_wrapper \<Rightarrow> ('q, 'p) invoke_wrapper" where
  "service_wrapper service_info w =
     \<lparr>iw_info = service_info, iw_req = iw_req w, iw_rsp = None, iw_ctx = service_context service_info w,
      iw_callback = True, iw_req_cache = [], iw_rsp_cache = []\<rparr>"

text \<open>
  \<open>Invoke\<close> up to and including \<open>Record\<close>. The request of the service's wrapper is overwritten
  when the call goes on, so until then it holds the client's. From reading the state to recording
  the call is one step: an \<open>Invoke\<close> that has read \<open>kStart\<close> just before \<open>Shutdown\<close> resets the
  index and the tool under it is not represented.
\<close>

definition lrb_Invoke :: "('q, 'p) rpc_registry \<Rightarrow> nat \<Rightarrow> ('q, 'p) rpc_world \<Rightarrow> ('q, 'p) rpc_world" where
  "lrb_Invoke reg c s =
     (let b = wo_backend s in
      case wo_clients s c of
        None \<Rightarrow> s
      | Some w \<Rightarrow>
          if rb_state b \<noteq> kStart then InvokeCallBack c CLI_BACKEND_INTERNAL_ERROR s
          else case resolve_service reg b w of
            Inl status \<Rightarrow> InvokeCallBack c status s
          | Inr sf \<Rightarrow>
              let sw = service_wrapper (sf_info sf) w in
              if fi_pkg_path (sf_info sf) = fi_pkg_path (iw_info w)
              then s\<lparr>wo_services := wo_services s @
                      [\<lparr>sc_service = sf_service_func sf, sc_wrapper = sw, sc_reply = Direct c\<rparr>]\<rparr>
              else case rb_tool b of
                None \<Rightarrow> s\<lparr>wo_log := wo_log s @ [NullTool]\<rparr>
              | Some tool \<Rightarrow>
                  let cur_req_id = rb_req_id b;
                      (ret, tool) = Record cur_req_id (rc_timeout (iw_ctx w)) c tool;
                      s = s\<lparr>wo_backend := b\<lparr>rb_req_id := cur_req_id + 1, rb_tool := Some tool\<rparr>\<rparr>
                  in if \<not> ret then InvokeCallBack c CLI_BACKEND_INTERNAL_ERROR s
                     else s\<lparr>wo_inflight := wo_inflight s @
                       [\<lparr>if_client = c, if_req_id = cur_req_id, if_service = sf, if_wrapper = sw\<rparr>]\<rparr>)"

text \<open>The rest of \<open>Invoke\<close>: serialise, deserialise, call the service.\<close>

definition lrb_send :: "('q, 'p) inflight \<Rightarrow> ('q, 'p) rpc_world \<Rightarrow> ('q, 'p) rpc_world" where
  "lrb_send f s =
     (case wo_clients s (if_client f) of
        None \<Rightarrow> s
      | Some w \<Rightarrow>
          let serialization_type = rpc_GetSerializationType (iw_ctx w) in
          case TrySerializeReqWithCache w serialization_type of
            (None, w) \<Rightarrow> InvokeCallBack (if_client f) CLI_SERIALIZATION_FAILED s
          | (Some buf, w) \<Rightarrow>
              let s = s\<lparr>wo_clients := (wo_clients s)(if_client f \<mapsto> w)\<rparr> in
              case ts_deserialize (fi_req_support (iw_info (if_wrapper f))) serialization_type buf of
                None \<Rightarrow> InvokeCallBack (if_client f) CLI_DESERIALIZATION_FAILED s
              | Some req \<Rightarrow>
                  let sw = (if_wrapper f)\<lparr>iw_req := req,
                             iw_req_cache := cache_emplace serialization_type buf (iw_req_cache (if_wrapper f))\<rparr>
                  in s\<lparr>wo_services := wo_services s @
                         [\<lparr>sc_service = sf_service_func (if_service f), sc_wrapper = sw,
                           sc_reply = ByRecord (if_req_id f) serialization_type\<rparr>]\<rparr>)"

text \<open>The callback of the service's wrapper, called with the status and the response written.\<close>

definition lrb_reply :: "('q, 'p) service_call \<Rightarrow> u32 \<Rightarrow> 'p \<Rightarrow> ('q, 'p) rpc_world \<Rightarrow> ('q, 'p) rpc_world" where
  "lrb_reply sc status rsp s =
     (case sc_reply sc of
        Direct c \<Rightarrow>
          call_callback c status
            (s\<lparr>wo_clients := (wo_clients s)(c := map_option (\<lambda>w. w\<lparr>iw_rsp := Some rsp\<rparr>) (wo_clients s c))\<rparr>)
      | ByRecord req_id serialization_type \<Rightarrow>
          (case rb_tool (wo_backend s) of
             None \<Rightarrow> s\<lparr>wo_log := wo_log s @ [NullTool]\<rparr>
           | Some tool \<Rightarrow>
               (case GetRecord req_id tool of
                  (None, _) \<Rightarrow> s
                | (Some c, tool) \<Rightarrow>
                    let s = s\<lparr>wo_backend := (wo_backend s)\<lparr>rb_tool := Some tool\<rparr>\<rparr>;
                        sw = (sc_wrapper sc)\<lparr>iw_rsp := Some rsp\<rparr>
                    in case TrySerializeRspWithCache sw serialization_type of
                         (None, _) \<Rightarrow> InvokeCallBack c SVR_SERIALIZATION_FAILED s
                       | (Some buf, _) \<Rightarrow>
                           (case wo_clients s c of
                              None \<Rightarrow> s
                            | Some w \<Rightarrow>
                                (case ts_deserialize (fi_rsp_support (iw_info w)) serialization_type buf of
                                   None \<Rightarrow> InvokeCallBack c SVR_DESERIALIZATION_FAILED s
                                 | Some r \<Rightarrow>
                                     let w = w\<lparr>iw_rsp := Some r,
                                               iw_rsp_cache := cache_emplace serialization_type buf (iw_rsp_cache w)\<rparr>
                                     in InvokeCallBack c status (s\<lparr>wo_clients := (wo_clients s)(c \<mapsto> w)\<rparr>))))))"

text \<open>
  A timeout task of the client tool, which does nothing once the tool is released, followed by
  the handle \<open>Initialize\<close> has registered.
\<close>

definition lrb_timeout :: "u32 \<times> u64 \<Rightarrow> ('q, 'p) rpc_world \<Rightarrow> ('q, 'p) rpc_world" where
  "lrb_timeout timer s =
     (case rb_tool (wo_backend s) of
        None \<Rightarrow> s
      | Some tool \<Rightarrow>
          let tool = tool\<lparr>ct_timers := remove1 timer (ct_timers tool)\<rparr> in
          (case GetRecord (fst timer) tool of
             (None, tool) \<Rightarrow> s\<lparr>wo_backend := (wo_backend s)\<lparr>rb_tool := Some tool\<rparr>\<rparr>
           | (Some c, tool) \<Rightarrow>
               call_callback c STATUS_TIMEOUT (s\<lparr>wo_backend := (wo_backend s)\<lparr>rb_tool := Some tool\<rparr>\<rparr>)))"

section \<open>Interleavings\<close>

text \<open>
  The threads of the program meet in the exchange: clients call \<open>Invoke\<close>, which may be
  interrupted behind \<open>Record\<close>, services answer in any order and at any time, each at most once
  (the callback handed to a service is moved out of its wrapper), timers fire, and the backend
  is shut down.
\<close>

datatype ('q, 'p) rpc_act =
    ActInvoke nat "('q, 'p) invoke_wrapper" | ActSend nat | ActReply nat u32 'p
  | ActTimeout "u32 \<times> u64" | ActShutdown

definition remove_nth :: "nat \<Rightarrow> 'a list \<Rightarrow> 'a list" where
  "remove_nth i xs = take i xs @ drop (Suc i) xs"

fun rpc_step :: "('q, 'p) rpc_registry \<Rightarrow> ('q, 'p) rpc_act \<Rightarrow> ('q, 'p) rpc_world \<Rightarrow> ('q, 'p) rpc_world option" where
  "rpc_step reg (ActInvoke c w) s =
     (if wo_clients s c = None \<and> iw_callback w
      then Some (lrb_Invoke reg c (s\<lparr>wo_clients := (wo_clients s)(c \<mapsto> w)\<rparr>)) else None)"
| "rpc_step reg (ActSend i) s =
     (if i < length (wo_inflight s)
      then Some (lrb_send (wo_inflight s ! i) (s\<lparr>wo_inflight := remove_nth i (wo_inflight s)\<rparr>)) else None)"
| "rpc_step reg (ActReply i status rsp) s =
     (if i < length (wo_services s)
      then Some (lrb_reply (wo_services s ! i) status rsp (s\<lparr>wo_services := remove_nth i (wo_services s)\<rparr>)) else None)"
| "rpc_step reg (ActTimeout timer) s =
     (case rb_tool (wo_backend s) of
        None \<Rightarrow> Some s
      | Some tool \<Rightarrow> if timer \<in> set (ct_timers tool) then Some (lrb_timeout timer s) else None)"
| "rpc_step reg ActShutdown s = Some (s\<lparr>wo_backend := lrb_Shutdown (wo_backend s)\<rparr>)"

text \<open>The condition on a call: its request survives the trip to every service of its function.\<close>

definition sendable :: "('q, 'p) func_info \<Rightarrow> ('q, 'p) invoke_wrapper \<Rightarrow> bool" where
  "sendable info w \<longleftrightarrow>
     (case TrySerializeReqWithCache w (rpc_GetSerializationType (iw_ctx w)) of
        (None, _) \<Rightarrow> False
      | (Some b, _) \<Rightarrow> ts_deserialize (fi_req_support info) (rpc_GetSerializationType (iw_ctx w)) b \<noteq> None)"

definition good_act :: "('q, 'p) rpc_registry \<Rightarrow> ('q, 'p) rpc_act \<Rightarrow> bool" where
  "good_act reg act \<longleftrightarrow>
     (case act of
        ActInvoke c w \<Rightarrow>
          \<forall>p m sf. GetServiceFuncWrapperPtr (fi_func_name (iw_info w)) p m reg = Some sf \<longrightarrow> sendable (sf_info sf) w
      | _ \<Rightarrow> True)"

definition idle_world :: "local_rpc_backend \<Rightarrow> ('q, 'p) rpc_world" where
  "idle_world b = \<lparr>wo_backend = b, wo_clients = (\<lambda>_. None), wo_inflight = [], wo_services = [], wo_log = []\<rparr>"

definition fresh_backend :: "local_rpc_backend \<Rightarrow> bool" where
  "fresh_backend b \<longleftrightarrow> rb_state b = kStart \<and> (case rb_tool b of None \<Rightarrow> False | Some tool \<Rightarrow> ct_map tool = [])"

inductive rpc_reach :: "('q, 'p) rpc_registry \<Rightarrow> local_rpc_backend \<Rightarrow> ('q, 'p) rpc_world \<Rightarrow> bool"
  for reg b where
  rpc_start: "rpc_reach reg b (idle_world b)"
| rpc_next: "rpc_reach reg b s \<Longrightarrow> rpc_step reg act s = Some s' \<Longrightarrow> good_act reg act \<Longrightarrow> rpc_reach reg b s'"

section \<open>The invariant\<close>

text \<open>
  Every client call owns one token until its callback runs: the record in the client tool, or
  the direct call waiting for its service. \<open>D\<close> names the call whose token is in the hand of the
  operation under way.
\<close>

fun is_call :: "nat \<Rightarrow> rpc_event \<Rightarrow> bool" where
  "is_call c (Called c' _) \<longleftrightarrow> c' = c"
| "is_call c (BadCall c') \<longleftrightarrow> c' = c"
| "is_call c NullTool \<longleftrightarrow> False"

definition calls_of :: "nat \<Rightarrow> rpc_event list \<Rightarrow> nat" where
  "calls_of c log = length (filter (is_call c) log)"

definition waiting :: "nat \<Rightarrow> ('q, 'p) service_call list \<Rightarrow> nat" where
  "waiting c scs = length (filter (\<lambda>sc. sc_reply sc = Direct c) scs)"

definition in_tool :: "nat \<Rightarrow> nat client_tool option \<Rightarrow> nat" where
  "in_tool c tool = (case tool of None \<Rightarrow> 0 | Some t \<Rightarrow> recorded t c)"

definition tokens :: "nat option \<Rightarrow> nat \<Rightarrow> ('q, 'p) rpc_world \<Rightarrow> nat" where
  "tokens D c s = calls_of c (wo_log s) + in_tool c (rb_tool (wo_backend s)) + waiting c (wo_services s) +
     (if D = Some c then 1 else 0)"

definition tool_ok :: "local_rpc_backend \<Rightarrow> bool" where
  "tool_ok b \<longleftrightarrow> (rb_state b = kStart \<longrightarrow> rb_tool b \<noteq> None) \<and> (\<forall>t. rb_tool b = Some t \<longrightarrow> ct_ok t)"

definition balanced :: "nat option \<Rightarrow> ('q, 'p) rpc_world \<Rightarrow> bool" where
  "balanced D s \<longleftrightarrow>
     (\<forall>c. (wo_clients s c = None \<longrightarrow> tokens D c s = 0) \<and> tokens D c s \<le> 1 \<and>
        (rb_state (wo_backend s) = kStart \<and> wo_clients s c \<noteq> None \<longrightarrow> tokens D c s = 1)) \<and>
     (\<forall>c w. wo_clients s c = Some w \<and> calls_of c (wo_log s) = 0 \<longrightarrow> iw_callback w) \<and>
     (\<forall>c. BadCall c \<notin> set (wo_log s))"

definition sends_ok :: "('q, 'p) rpc_world \<Rightarrow> bool" where
  "sends_ok s \<longleftrightarrow>
     (\<forall>f \<in> set (wo_inflight s). \<exists>w. wo_clients s (if_client f) = Some w \<and> sendable (iw_info (if_wrapper f)) w)"

definition answered_by :: "u32 \<Rightarrow> ('q, 'p) rpc_world \<Rightarrow> bool" where
  "answered_by r s \<longleftrightarrow> (\<exists>f \<in> set (wo_inflight s). if_req_id f = r) \<or>
     (\<exists>sc \<in> set (wo_services s). \<exists>ty. sc_reply sc = ByRecord r ty)"

definition answerable :: "('q, 'p) rpc_world \<Rightarrow> bool" where
  "answerable s \<longleftrightarrow> (\<forall>t r. rb_tool (wo_backend s) = Some t \<and> r \<in> set (map fst (ct_map t)) \<longrightarrow> answered_by r s)"

definition rpc_inv :: "nat option \<Rightarrow> ('q, 'p) rpc_world \<Rightarrow> bool" where
  "rpc_inv D s \<longleftrightarrow> tool_ok (wo_backend s) \<and> balanced D s \<and> sends_ok s \<and> answerable s"

lemma calls_of_simps [simp]:
  "calls_of c [] = 0" "calls_of c (log @ [e]) = calls_of c log + (if is_call c e then 1 else 0)"
  by (simp_all add: calls_of_def)

lemma waiting_simps [simp]:
  "waiting c [] = 0" "waiting c (scs @ [sc]) = waiting c scs + (if sc_reply sc = Direct c then 1 else 0)"
  by (simp_all add: waiting_def)

lemma remove_nth_set: "i < length xs \<Longrightarrow> set xs = insert (xs ! i) (set (remove_nth i xs))"
  by (subst id_take_nth_drop [of i xs]) (auto simp: remove_nth_def)

lemma waiting_remove_nth:
  "i < length scs \<Longrightarrow>
   waiting c scs = waiting c (remove_nth i scs) + (if sc_reply (scs ! i) = Direct c then 1 else 0)"
  by (subst id_take_nth_drop [of i scs]) (auto simp: waiting_def remove_nth_def)

lemma TrySerializeReq_fst:
  "fst (TrySerializeReqWithCache w t) =
   (case map_of (iw_req_cache w) t of Some b \<Rightarrow> Some b | None \<Rightarrow> ts_serialize (fi_req_support (iw_info w)) t (iw_req w))"
  by (simp add: TrySerializeReqWithCache_def SerializeReqWithCache_def split: option.splits)

lemma sendable_alt:
  "sendable info w \<longleftrightarrow>
   (\<exists>b. fst (TrySerializeReqWithCache w (rpc_GetSerializationType (iw_ctx w))) = Some b \<and>
     ts_deserialize (fi_req_support info) (rpc_GetSerializationType (iw_ctx w)) b \<noteq> None)"
  by (auto simp: sendable_def split: prod.splits option.splits)

lemma sendable_frame [simp]:
  "sendable info (w\<lparr>iw_callback := x\<rparr>) = sendable info w"
  "sendable info (w\<lparr>iw_rsp := r\<rparr>) = sendable info w"
  "sendable info (w\<lparr>iw_rsp_cache := rc\<rparr>) = sendable info w"
  by (simp_all add: sendable_alt TrySerializeReq_fst cong: option.case_cong)

lemma answerable_frame [simp]:
  "answerable (s\<lparr>wo_log := l\<rparr>) = answerable s" "answerable (s\<lparr>wo_clients := cs\<rparr>) = answerable s"
  by (simp_all add: answerable_def answered_by_def)

lemma sends_ok_frame [simp]:
  "sends_ok (s\<lparr>wo_log := l\<rparr>) = sends_ok s" "sends_ok (s\<lparr>wo_backend := b\<rparr>) = sends_ok s"
  "sends_ok (s\<lparr>wo_services := scs\<rparr>) = sends_ok s"
  by (simp_all add: sends_ok_def)

text \<open>What an operation on the clients has to keep of a wrapper.\<close>

definition same_call :: "('q, 'p) invoke_wrapper \<Rightarrow> ('q, 'p) invoke_wrapper \<Rightarrow> bool" where
  "same_call w w' \<longleftrightarrow> iw_callback w' = iw_callback w \<and> (\<forall>info. sendable info w \<longrightarrow> sendable info w')"

lemma rpc_inv_client:
  assumes "rpc_inv D s" "wo_clients s c = Some w" "same_call w w'"
  shows "rpc_inv D (s\<lparr>wo_clients := (wo_clients s)(c \<mapsto> w')\<rparr>)"
proof -
  let ?s = "s\<lparr>wo_clients := (wo_clients s)(c \<mapsto> w')\<rparr>"
  have t: "tokens D d ?s = tokens D d s" for d by (simp add: tokens_def)
  have n: "wo_clients ?s d = None \<longleftrightarrow> wo_clients s d = None" for d using assms(2) by simp
  have "\<exists>v. wo_clients s d = Some v \<and> iw_callback v = iw_callback u" if "wo_clients ?s d = Some u" for d u
    using that assms(2,3) by (auto simp: same_call_def split: if_splits)
  then have "balanced D ?s" using assms(1) unfolding rpc_inv_def balanced_def t n
    by (simp del: fun_upd_apply) metis
  moreover have "\<exists>u. wo_clients ?s d = Some u \<and> sendable info u" if "wo_clients s d = Some v" "sendable info v" for d v info
    using that assms(2,3) by (auto simp: same_call_def)
  then have "sends_ok ?s" using assms(1) unfolding rpc_inv_def sends_ok_def by (simp del: fun_upd_apply) metis
  ultimately show ?thesis using assms(1) by (simp add: rpc_inv_def)
qed

lemma rpc_inv_hand:
  assumes "rpc_inv (Some c) s"
  obtains w where "wo_clients s c = Some w" "iw_callback w" "calls_of c (wo_log s) = 0"
    "in_tool c (rb_tool (wo_backend s)) = 0" "waiting c (wo_services s) = 0"
proof -
  have b: "balanced (Some c) s" using assms by (simp add: rpc_inv_def)
  have "tokens (Some c) c s \<ge> 1" by (simp add: tokens_def)
  moreover have "tokens (Some c) c s \<le> 1" "wo_clients s c = None \<longrightarrow> tokens (Some c) c s = 0"
    using b unfolding balanced_def by blast+
  ultimately have t: "wo_clients s c \<noteq> None" "tokens (Some c) c s = 1" by linarith+
  then obtain w where w: "wo_clients s c = Some w" by blast
  have z: "calls_of c (wo_log s) = 0" "in_tool c (rb_tool (wo_backend s)) = 0" "waiting c (wo_services s) = 0"
    using t(2) by (simp_all add: tokens_def)
  have "iw_callback w" using b w z(1) unfolding balanced_def by blast
  with w z show ?thesis by (intro that)
qed

lemma call_callback_inv [inv_intros]:
  assumes "rpc_inv (Some c) s"
  shows "rpc_inv None (call_callback c status s)"
proof -
  obtain w where w: "wo_clients s c = Some w" "iw_callback w" using rpc_inv_hand [OF assms] by blast
  let ?s = "s\<lparr>wo_log := wo_log s @ [Called c status]\<rparr>"
  have t: "tokens None d ?s = tokens (Some c) d s" for d by (simp add: tokens_def)
  have "calls_of d (wo_log s) = 0" if "calls_of d (wo_log ?s) = 0" for d
    using that by (auto split: if_splits)
  then have "balanced None ?s" using assms unfolding rpc_inv_def balanced_def t by auto
  then have "rpc_inv None ?s"
    using assms by (simp add: rpc_inv_def)
  then show ?thesis by (simp add: call_callback_def w)
qed

lemma InvokeCallBack_inv [inv_intros]:
  assumes "rpc_inv (Some c) s"
  shows "rpc_inv None (InvokeCallBack c status s)"
proof -
  obtain w where w: "wo_clients s c = Some w" "iw_callback w" using rpc_inv_hand [OF assms] by blast
  let ?s = "s\<lparr>wo_log := wo_log s @ [Called c status]\<rparr>" and ?w = "w\<lparr>iw_callback := False\<rparr>"
  let ?r = "?s\<lparr>wo_clients := (wo_clients s)(c \<mapsto> ?w)\<rparr>"
  have i: "rpc_inv None ?s" using call_callback_inv [OF assms, of status] by (simp add: call_callback_def w)
  have t: "tokens None d ?r = tokens None d ?s" for d by (simp add: tokens_def)
  have n: "wo_clients ?r d = None \<longleftrightarrow> wo_clients ?s d = None" for d using w by simp
  have "wo_clients ?s d = Some u" if "wo_clients ?r d = Some u" "calls_of d (wo_log ?r) = 0" for d u
    using that by (auto split: if_splits)
  then have "balanced None ?r" using i unfolding rpc_inv_def balanced_def t n
    by (simp del: fun_upd_apply calls_of_simps) metis
  moreover have "\<exists>u. wo_clients ?r d = Some u \<and> sendable info u" if "wo_clients ?s d = Some v" "sendable info v" for d v info
    using that w by auto
  then have "sends_ok ?r" using i unfolding rpc_inv_def sends_ok_def by (simp del: fun_upd_apply) metis
  ultimately have "rpc_inv None ?r" using i by (simp add: rpc_inv_def)
  moreover have "InvokeCallBack c status s = ?r" by (simp add: InvokeCallBack_def call_callback_def w Let_def)
  ultimately show ?thesis by simp
qed

text \<open>
  Taking a record out of the tool puts its token into the hand; the services may lose the call
  that was to answer it.
\<close>

lemma rpc_inv_take:
  assumes inv: "rpc_inv None s" and tool: "rb_tool (wo_backend s) = Some tool"
    and get: "GetRecord r (tool\<lparr>ct_timers := ts\<rparr>) = (co, tool')"
    and wait: "\<forall>c. waiting c scs = waiting c (wo_services s)"
    and keep: "\<forall>sc \<in> set (wo_services s). sc \<in> set scs \<or> (\<exists>ty. sc_reply sc = ByRecord r ty)"
  shows "rpc_inv co (s\<lparr>wo_services := scs, wo_backend := (wo_backend s)\<lparr>rb_tool := Some tool'\<rparr>\<rparr>)"
proof -
  let ?s = "s\<lparr>wo_services := scs, wo_backend := (wo_backend s)\<lparr>rb_tool := Some tool'\<rparr>\<rparr>"
  have "ct_ok tool" using inv tool by (simp add: rpc_inv_def tool_ok_def)
  then have ok: "ct_ok (tool\<lparr>ct_timers := ts\<rparr>)" by (simp add: ct_ok_def)
  note g = GetRecord_ok [OF get ok]
  have rec: "recorded (tool\<lparr>ct_timers := ts\<rparr>) c = recorded tool c" for c by (simp add: recorded_def)
  have t: "tokens co c ?s = tokens None c s" for c
    using g(2) [of c] wait by (simp add: tokens_def in_tool_def tool rec)
  have "balanced co ?s" using inv unfolding rpc_inv_def balanced_def t by simp
  moreover have "tool_ok (wo_backend ?s)" using g(1) by (simp add: tool_ok_def)
  moreover have "answered_by q ?s" if "q \<in> set (map fst (ct_map tool'))" for q
  proof -
    have q: "q \<in> set (map fst (ct_map tool))" "q \<noteq> r" using that g(4) by auto
    then have "answered_by q s" using inv tool by (simp add: rpc_inv_def answerable_def)
    then show ?thesis using keep q(2) unfolding answered_by_def by fastforce
  qed
  then have "answerable ?s" unfolding answerable_def by simp
  ultimately show ?thesis using inv by (simp add: rpc_inv_def)
qed

lemma lrb_timeout_inv [inv_intros]:
  assumes "rpc_inv None s"
  shows "rpc_inv None (lrb_timeout timer s)"
proof (cases "rb_tool (wo_backend s)")
  case None
  then show ?thesis using assms by (simp add: lrb_timeout_def)
next
  case (Some tool)
  obtain co tool' where g: "GetRecord (fst timer) (tool\<lparr>ct_timers := remove1 timer (ct_timers tool)\<rparr>) = (co, tool')"
    by fastforce
  have "rpc_inv co (s\<lparr>wo_backend := (wo_backend s)\<lparr>rb_tool := Some tool'\<rparr>\<rparr>)"
    using rpc_inv_take [OF assms Some g, of "wo_services s"] by simp
  then show ?thesis using call_callback_inv by (cases co) (auto simp: lrb_timeout_def Some g Let_def)
qed

lemma lrb_reply_inv [inv_intros]:
  assumes inv: "rpc_inv None s" and i: "i < length (wo_services s)"
  shows "rpc_inv None (lrb_reply (wo_services s ! i) status rsp (s\<lparr>wo_services := remove_nth i (wo_services s)\<rparr>))"
proof -
  let ?sc = "wo_services s ! i" and ?scs = "remove_nth i (wo_services s)"
  let ?s = "s\<lparr>wo_services := ?scs\<rparr>"
  note w = waiting_remove_nth [OF i] and set = remove_nth_set [OF i]
  show ?thesis
  proof (cases "sc_reply ?sc")
    case (Direct c)
    have t: "tokens (Some c) d ?s = tokens None d s" for d using w [of d] Direct by (simp add: tokens_def)
    have "balanced (Some c) ?s" using inv unfolding rpc_inv_def balanced_def t by simp
    moreover have "answered_by q s \<Longrightarrow> answered_by q ?s" for q
      using set Direct by (auto simp: answered_by_def)
    then have "answerable ?s" using inv unfolding rpc_inv_def answerable_def by simp blast
    ultimately have h: "rpc_inv (Some c) ?s" using inv by (simp add: rpc_inv_def)
    then obtain v where v: "wo_clients ?s c = Some v" using rpc_inv_hand by blast
    have "rpc_inv (Some c) (?s\<lparr>wo_clients := (wo_clients ?s)(c \<mapsto> v\<lparr>iw_rsp := Some rsp\<rparr>)\<rparr>)"
      by (rule rpc_inv_client [OF h v]) (simp add: same_call_def)
    then show ?thesis using call_callback_inv v by (simp add: lrb_reply_def Direct)
  next
    case (ByRecord r ty)
    have wait: "\<forall>c. waiting c ?scs = waiting c (wo_services s)" using w ByRecord by simp
    have keep: "\<forall>sc \<in> set (wo_services s). sc \<in> set ?scs \<or> (\<exists>ty. sc_reply sc = ByRecord r ty)"
      using set ByRecord by auto
    show ?thesis
    proof (cases "rb_tool (wo_backend s)")
      case None
      have t: "tokens None d (?s\<lparr>wo_log := wo_log s @ [NullTool]\<rparr>) = tokens None d s" for d
        using wait by (simp add: tokens_def)
      have "balanced None (?s\<lparr>wo_log := wo_log s @ [NullTool]\<rparr>)"
        using inv unfolding rpc_inv_def balanced_def t by simp
      moreover have "answerable ?s" using None by (simp add: answerable_def)
      ultimately show ?thesis using inv by (simp add: lrb_reply_def ByRecord None rpc_inv_def)
    next
      case (Some tool)
      obtain co tool' where g: "GetRecord r tool = (co, tool')" by fastforce
      let ?t = "?s\<lparr>wo_backend := (wo_backend s)\<lparr>rb_tool := Some tool'\<rparr>\<rparr>"
      have h: "rpc_inv co ?t"
        using rpc_inv_take [OF inv Some, of r "ct_timers tool" co tool' ?scs] g wait keep by simp
      show ?thesis
      proof (cases co)
        case None
        have "tool' = tool" using g None by (auto simp: GetRecord_def split: option.splits)
        then have "wo_backend ?t = wo_backend s" using Some by (cases "wo_backend s") simp
        then have "?t = ?s" by simp
        then show ?thesis using h None g by (simp add: lrb_reply_def ByRecord Some)
      next
        case (Some c)
        obtain buf v' where b: "TrySerializeRspWithCache ((sc_wrapper ?sc)\<lparr>iw_rsp := Some rsp\<rparr>) ty = (buf, v')"
          by fastforce
        obtain w where w: "wo_clients ?t c = Some w" using h Some rpc_inv_hand by blast
        have "rpc_inv (Some c) (?t\<lparr>wo_clients := (wo_clients ?t)(c \<mapsto> w\<lparr>iw_rsp := Some x, iw_rsp_cache := y\<rparr>)\<rparr>)" for x y
          using rpc_inv_client [OF h [unfolded Some] w] by (simp add: same_call_def)
        then have step: "rpc_inv None (InvokeCallBack c st
            (?t\<lparr>wo_clients := (wo_clients ?t)(c \<mapsto> w\<lparr>iw_rsp := Some x, iw_rsp_cache := y\<rparr>)\<rparr>))" for x y st
          by (rule InvokeCallBack_inv)
        show ?thesis using step InvokeCallBack_inv [OF h [unfolded Some]] w g Some \<open>rb_tool (wo_backend s) = Some tool\<close> b
          by (auto simp: lrb_reply_def ByRecord Let_def split: option.splits)
      qed
    qed
  qed
qed

lemma lrb_send_inv [inv_intros]:
  assumes inv: "rpc_inv None s" and i: "i < length (wo_inflight s)"
  shows "rpc_inv None (lrb_send (wo_inflight s ! i) (s\<lparr>wo_inflight := remove_nth i (wo_inflight s)\<rparr>))"
proof -
  let ?f = "wo_inflight s ! i"
  have f: "?f \<in> set (wo_inflight s)" using i by simp
  then obtain w where w: "wo_clients s (if_client ?f) = Some w" and snd: "sendable (iw_info (if_wrapper ?f)) w"
    using inv by (auto simp: rpc_inv_def sends_ok_def)
  let ?ty = "rpc_GetSerializationType (iw_ctx w)"
  obtain b w' where b: "TrySerializeReqWithCache w ?ty = (Some b, w')"
    using snd by (auto simp: sendable_def split: prod.splits option.splits)
  obtain req where req: "ts_deserialize (fi_req_support (iw_info (if_wrapper ?f))) ?ty b = Some req"
    using snd b by (auto simp: sendable_def)
  have w': "w' = w \<or> w' = w\<lparr>iw_req_cache := cache_emplace ?ty b (iw_req_cache w)\<rparr> \<and> map_of (iw_req_cache w) ?ty = None"
    using b by (auto simp: TrySerializeReqWithCache_def SerializeReqWithCache_def split: option.splits sum.splits)
  have fb: "fst (TrySerializeReqWithCache w ?ty) = Some b" using b by simp
  have "fst (TrySerializeReqWithCache w' ?ty) = Some b \<and> iw_ctx w' = iw_ctx w \<and> iw_callback w' = iw_callback w"
    using w' fb by (auto simp: TrySerializeReq_fst cache_emplace_set map_add_def split: option.splits)
  then have same: "same_call w w'" using b by (simp add: same_call_def sendable_alt)
  let ?s1 = "s\<lparr>wo_clients := (wo_clients s)(if_client ?f \<mapsto> w')\<rparr>"
  have i1: "rpc_inv None ?s1" by (rule rpc_inv_client [OF inv w same])
  obtain sc where sc: "lrb_send ?f (s\<lparr>wo_inflight := remove_nth i (wo_inflight s)\<rparr>) =
      s\<lparr>wo_inflight := remove_nth i (wo_inflight s), wo_clients := (wo_clients s)(if_client ?f \<mapsto> w'),
        wo_services := wo_services s @ [sc]\<rparr>"
    and r: "sc_reply sc = ByRecord (if_req_id ?f) ?ty"
    by (simp add: lrb_send_def w b req Let_def)
  let ?r = "s\<lparr>wo_inflight := remove_nth i (wo_inflight s), wo_clients := (wo_clients s)(if_client ?f \<mapsto> w'),
        wo_services := wo_services s @ [sc]\<rparr>"
  note set = remove_nth_set [OF i]
  have t: "tokens None d ?r = tokens None d ?s1" for d using r by (simp add: tokens_def)
  have "balanced None ?r" using i1 unfolding rpc_inv_def balanced_def t by simp
  moreover have "\<forall>g \<in> set (wo_inflight ?r). g \<in> set (wo_inflight ?s1)" using set by auto
  then have "sends_ok ?r" using i1 by (simp add: rpc_inv_def sends_ok_def)
  moreover have "answered_by q ?s1 \<Longrightarrow> answered_by q ?r" for q
    using set r unfolding answered_by_def by auto
  then have "answerable ?r" using i1 unfolding rpc_inv_def answerable_def by simp blast
  ultimately have "rpc_inv None ?r" using i1 by (simp add: rpc_inv_def)
  then show ?thesis unfolding sc .
qed

lemma resolve_service_registered:
  "resolve_service reg b w = Inr sf \<Longrightarrow> \<exists>p m. GetServiceFuncWrapperPtr (fi_func_name (iw_info w)) p m reg = Some sf"
  by (auto simp: resolve_service_def bindR_eq_Inr split: option.splits)

lemma lrb_Invoke_inv [inv_intros]:
  assumes inv: "rpc_inv None s" and new: "wo_clients s c = None" "iw_callback w"
    and good: "good_act reg (ActInvoke c w)"
  shows "rpc_inv None (lrb_Invoke reg c (s\<lparr>wo_clients := (wo_clients s)(c \<mapsto> w)\<rparr>))"
proof -
  let ?s = "s\<lparr>wo_clients := (wo_clients s)(c \<mapsto> w)\<rparr>"
  have z: "tokens None c s = 0" using inv new by (simp add: rpc_inv_def balanced_def)
  have t: "tokens (Some c) d ?s = (if d = c then 1 else tokens None d s)" for d
    using z by (simp add: tokens_def)
  have "balanced (Some c) ?s" using inv new unfolding rpc_inv_def balanced_def t by auto
  moreover have "sends_ok ?s" using inv new unfolding rpc_inv_def sends_ok_def by fastforce
  ultimately have h: "rpc_inv (Some c) ?s" using inv by (simp add: rpc_inv_def)
  show ?thesis
  proof (cases "rb_state (wo_backend s) = kStart")
    case False
    then show ?thesis using InvokeCallBack_inv [OF h] by (simp add: lrb_Invoke_def)
  next
    case start: True
    then obtain tool where tool: "rb_tool (wo_backend s) = Some tool" "ct_ok tool"
      using inv by (auto simp: rpc_inv_def tool_ok_def)
    show ?thesis
    proof (cases "resolve_service reg (wo_backend s) w")
      case (Inl st)
      then show ?thesis using InvokeCallBack_inv [OF h] start by (simp add: lrb_Invoke_def)
    next
      case (Inr sf)
      then have snd: "sendable (sf_info sf) w"
        using good resolve_service_registered unfolding good_act_def by fastforce
      show ?thesis
      proof (cases "fi_pkg_path (sf_info sf) = fi_pkg_path (iw_info w)")
        case True
        let ?sc = "\<lparr>sc_service = sf_service_func sf, sc_wrapper = service_wrapper (sf_info sf) w, sc_reply = Direct c\<rparr>"
        let ?r = "?s\<lparr>wo_services := wo_services s @ [?sc]\<rparr>"
        have t: "tokens None d ?r = tokens (Some c) d ?s" for d by (simp add: tokens_def)
        have "balanced None ?r" using h unfolding rpc_inv_def balanced_def t by simp
        moreover have "answered_by q ?s \<Longrightarrow> answered_by q ?r" for q by (auto simp: answered_by_def)
        then have "answerable ?r" using h unfolding rpc_inv_def answerable_def by simp blast
        ultimately have "rpc_inv None ?r" using h by (simp add: rpc_inv_def)
        then show ?thesis using start Inr True by (simp add: lrb_Invoke_def Let_def)
      next
        case False
        obtain ret tool' where rec: "Record (rb_req_id (wo_backend s)) (rc_timeout (iw_ctx w)) c tool = (ret, tool')"
          by fastforce
        note R = Record_ok [OF rec tool(2)]
        let ?b = "(wo_backend s)\<lparr>rb_req_id := rb_req_id (wo_backend s) + 1, rb_tool := Some tool'\<rparr>"
        show ?thesis
        proof (cases ret)
          case no: False
          then have "tool' = tool" using rec by (auto simp: Record_def Let_def split: if_splits)
          then have t: "tokens (Some c) d (?s\<lparr>wo_backend := ?b\<rparr>) = tokens (Some c) d ?s" for d
            using tool by (simp add: tokens_def)
          have "balanced (Some c) (?s\<lparr>wo_backend := ?b\<rparr>)" using h unfolding rpc_inv_def balanced_def t by simp
          moreover have "answerable (?s\<lparr>wo_backend := ?b\<rparr>)"
            using h tool \<open>tool' = tool\<close> by (simp add: rpc_inv_def answerable_def answered_by_def)
          ultimately have "rpc_inv (Some c) (?s\<lparr>wo_backend := ?b\<rparr>)"
            using h R(1) by (simp add: rpc_inv_def tool_ok_def)
          then show ?thesis using InvokeCallBack_inv start Inr False tool rec no
            by (simp add: lrb_Invoke_def Let_def)
        next
          case yes: True
          let ?f = "\<lparr>if_client = c, if_req_id = rb_req_id (wo_backend s), if_service = sf,
            if_wrapper = service_wrapper (sf_info sf) w\<rparr>"
          let ?r = "?s\<lparr>wo_backend := ?b, wo_inflight := wo_inflight s @ [?f]\<rparr>"
          have t: "tokens None d ?r = tokens (Some c) d ?s" for d
            using R(2) [of d] yes tool by (auto simp: tokens_def in_tool_def)
          have "balanced None ?r" using h unfolding rpc_inv_def balanced_def t by simp
          moreover have "sends_ok ?r" using h snd by (simp add: rpc_inv_def sends_ok_def service_wrapper_def)
          moreover have "answered_by q ?r" if "q \<in> set (map fst (ct_map tool'))" for q
          proof (cases "q = rb_req_id (wo_backend s)")
            case True
            then show ?thesis by (simp add: answered_by_def)
          next
            case False
            then have "q \<in> set (map fst (ct_map tool))" using that R(4) by auto
            then have "answered_by q s" using inv tool by (simp add: rpc_inv_def answerable_def)
            then show ?thesis by (auto simp: answered_by_def)
          qed
          then have "answerable ?r" by (simp add: answerable_def)
          ultimately have "rpc_inv None ?r" using h R(1) by (simp add: rpc_inv_def tool_ok_def)
          then show ?thesis using start Inr False tool rec yes by (simp add: lrb_Invoke_def Let_def)
        qed
      qed
    qed
  qed
qed

lemma lrb_Shutdown_inv [inv_intros]:
  assumes inv: "rpc_inv None s"
  shows "rpc_inv None (s\<lparr>wo_backend := lrb_Shutdown (wo_backend s)\<rparr>)"
proof -
  let ?b = "lrb_Shutdown (wo_backend s)"
  let ?s = "s\<lparr>wo_backend := ?b\<rparr>"
  have st: "rb_state ?b = kShutdown" by (simp add: lrb.shutdown_state)
  have tool: "rb_tool ?b = rb_tool (wo_backend s) \<or> rb_tool ?b = None"
    by (simp add: lrb_Shutdown_def atomic_exchange_def Let_def)
  then have le: "tokens None c ?s \<le> tokens None c s" for c by (auto simp: tokens_def in_tool_def)
  have "tokens None c ?s \<le> 1 \<and> (wo_clients s c = None \<longrightarrow> tokens None c ?s = 0)" for c
    using inv le [of c] unfolding rpc_inv_def balanced_def by (metis le_trans le_zero_eq)
  then have "balanced None ?s" using inv unfolding rpc_inv_def balanced_def by (simp add: st)
  moreover have "tool_ok ?b" using inv tool by (auto simp: rpc_inv_def tool_ok_def st)
  moreover have a: "answered_by q ?s = answered_by q s" for q by (simp add: answered_by_def)
  have "answerable s" using inv by (simp add: rpc_inv_def)
  then have "answerable ?s" using tool unfolding answerable_def a
    by (cases "rb_tool ?b = None") (simp, metis rpc_world.select_convs(1) rpc_world.surjective rpc_world.update_convs(1))
  ultimately show ?thesis using inv by (simp add: rpc_inv_def)
qed

lemma rpc_step_inv:
  "rpc_inv None s \<Longrightarrow> rpc_step reg act s = Some s' \<Longrightarrow> good_act reg act \<Longrightarrow> rpc_inv None s'"
  by (cases act) (auto split: if_splits option.splits
      intro: lrb_Invoke_inv lrb_send_inv lrb_reply_inv lrb_timeout_inv lrb_Shutdown_inv)

lemma rpc_reach_inv:
  assumes "rpc_reach reg b s" "fresh_backend b"
  shows "rpc_inv None s"
  using assms
proof (induction rule: rpc_reach.induct)
  case rpc_start
  then show ?case
    by (auto simp: rpc_inv_def tool_ok_def balanced_def sends_ok_def answerable_def idle_world_def tokens_def
        in_tool_def recorded_def ct_ok_def fresh_backend_def split: option.splits)
qed (auto intro: rpc_step_inv)

text \<open>
  C1. Among calls whose request serialises, and whose bytes every service registered for the
  function reads back (one that does not is called back by the failure and again by its timer): whatever the interleaving of clients, services, timeouts
  and a shutdown, the callback of a call is run at most once and never after it was reset; and as
  long as the backend is not shut down, once no call is on its way and no service still owes an
  answer, every callback has run exactly once.
\<close>

theorem local_rpc_callback_once:
  assumes "rpc_reach reg b s" "fresh_backend b"
  shows "calls_of c (wo_log s) \<le> 1 \<and> BadCall c \<notin> set (wo_log s) \<and>
    (rb_state (wo_backend s) = kStart \<and> wo_inflight s = [] \<and> wo_services s = [] \<and> wo_clients s c \<noteq> None \<longrightarrow>
     calls_of c (wo_log s) = 1)"
proof -
  have inv: "rpc_inv None s" by (rule rpc_reach_inv [OF assms])
  then have b: "tokens None c s \<le> 1" "BadCall c \<notin> set (wo_log s)"
    "rb_state (wo_backend s) = kStart \<and> wo_clients s c \<noteq> None \<longrightarrow> tokens None c s = 1"
    unfolding rpc_inv_def balanced_def by blast+
  have "in_tool c (rb_tool (wo_backend s)) = 0" if "wo_inflight s = []" "wo_services s = []"
  proof (cases "rb_tool (wo_backend s)")
    case (Some t)
    have "r \<notin> set (map fst (ct_map t))" for r
      using inv that Some by (simp add: rpc_inv_def answerable_def answered_by_def)
    then have "ct_map t = []" by (cases "ct_map t") auto
    then show ?thesis by (simp add: in_tool_def Some recorded_def)
  qed (simp add: in_tool_def)
  then show ?thesis using b by (auto simp: tokens_def)
qed

text \<open>A service in package \<open>q\<close> and a call from package \<open>p\<close> on the number codec.\<close>

definition num_func :: "string \<Rightarrow> (nat, nat) func_info" where
  "num_func pkg =
     \<lparr>fi_func_name = ''f'', fi_pkg_path = pkg, fi_module_name = ''m'', fi_index = 1,
      fi_req_support = number_support, fi_rsp_support = number_support\<rparr>"

definition num_registry :: "(nat, nat) rpc_registry" where
  "num_registry = snd (RegisterServiceFunc \<lparr>sf_info = num_func ''q'', sf_service_func = 5\<rparr> new_rpc_registry)"

definition num_backend :: "local_rpc_backend" where
  "num_backend = snd (lrb_Start (snd (lrb_RegisterServiceFunc \<lparr>sf_info = num_func ''q'', sf_service_func = 5\<rparr>
     (snd (lrb_Initialize (Some \<lparr>rn_timeout_executor = Some ''t''\<rparr>)
       (new_local_rpc_backend\<lparr>rb_get_executor_func := Some (\<lambda>_. Some (1, True))\<rparr>))))))"

definition num_call :: "nat \<Rightarrow> (nat, nat) invoke_wrapper" where
  "num_call req =
     \<lparr>iw_info = num_func ''p'', iw_req = req, iw_rsp = Some 0,
      iw_ctx = \<lparr>rc_client = True, rc_used = True, rc_timeout = 9,
                rc_meta = [(''aimrt-serialization_type'', ''bin'')]\<rparr>,
      iw_callback = True, iw_req_cache = [], iw_rsp_cache = []\<rparr>"

fun rpc_run :: "('q, 'p) rpc_registry \<Rightarrow> ('q, 'p) rpc_act list \<Rightarrow> ('q, 'p) rpc_world \<Rightarrow> ('q, 'p) rpc_world option" where
  "rpc_run reg [] s = Some s"
| "rpc_run reg (a # as) s = Option.bind (rpc_step reg a s) (rpc_run reg as)"

lemma rpc_run_snoc: "rpc_run reg (as @ [a]) s = Option.bind (rpc_run reg as s) (rpc_step reg a)"
proof (induction as arbitrary: s)
  case Nil
  then show ?case by (cases "rpc_step reg a s") simp_all
next
  case (Cons x as)
  then show ?case by (cases "rpc_step reg x s") (simp_all del: rpc_step.simps)
qed

lemma rpc_run_reach:
  "rpc_reach reg b s \<Longrightarrow> rpc_run reg as s = Some s' \<Longrightarrow> \<forall>a \<in> set as. good_act reg a \<Longrightarrow> rpc_reach reg b s'"
  by (induction as arbitrary: s) (auto simp: bind_eq_Some_conv intro: rpc_next)

lemma num_backend_fresh: "fresh_backend num_backend"
  by (simp add: fresh_backend_def num_backend_def lrb_Initialize_def lrb_Start_def lrb_RegisterServiceFunc_def
      new_local_rpc_backend_def atomic_exchange_def RegisterTimeoutExecutor_def new_client_tool_def lrb_decode_def Let_def)

lemma num_call_good: "n < 256 \<Longrightarrow> good_act num_registry (ActInvoke 1 (num_call n))"
  by (auto simp: good_act_def sendable_alt TrySerializeReq_fst num_call_def num_func_def num_registry_def
      RegisterServiceFunc_def new_rpc_registry_def GetServiceFuncWrapperPtr_def func_key_of_def Let_def
      number_support_def rpc_GetSerializationType_def rpc_GetMetaValue_def split: if_splits)

text \<open>The first part of a call that crosses packages.\<close>

lemma lrb_Invoke_remote:
  assumes "rb_state (wo_backend s) = kStart" "rb_tool (wo_backend s) = Some tool"
    and "wo_clients s c = None" "iw_callback w" "resolve_service reg (wo_backend s) w = Inr sf"
    and "fi_pkg_path (sf_info sf) \<noteq> fi_pkg_path (iw_info w)" "rb_req_id (wo_backend s) \<notin> fst ` set (ct_map tool)"
  shows "\<exists>tool'. rpc_step reg (ActInvoke c w) s = Some
      (s\<lparr>wo_clients := (wo_clients s)(c \<mapsto> w),
         wo_backend := (wo_backend s)\<lparr>rb_req_id := rb_req_id (wo_backend s) + 1, rb_tool := Some tool'\<rparr>,
         wo_inflight := wo_inflight s @ [\<lparr>if_client = c, if_req_id = rb_req_id (wo_backend s), if_service = sf,
           if_wrapper = service_wrapper (sf_info sf) w\<rparr>]\<rparr>) \<and>
    Record (rb_req_id (wo_backend s)) (rc_timeout (iw_ctx w)) c tool = (True, tool')"
proof -
  have "map_of (ct_map tool) (rb_req_id (wo_backend s)) = None" using assms(7) by (simp add: map_of_eq_None_iff)
  then obtain tool' where "Record (rb_req_id (wo_backend s)) (rc_timeout (iw_ctx w)) c tool = (True, tool')"
    by (simp add: Record_def Let_def)
  then show ?thesis using assms by (simp add: lrb_Invoke_def Let_def)
qed

lemma remove_nth_last [simp]: "remove_nth (length xs) (xs @ [x]) = xs"
  by (simp add: remove_nth_def)

text \<open>
  C2. A call to another package is an exact remote procedure call: the service is handed the
  client's request, and when it answers before the timeout the client finds the service's
  response and gets the service's status, once.
\<close>

theorem local_rpc_round_trip:
  assumes "rb_state (wo_backend s) = kStart" "rb_tool (wo_backend s) = Some tool"
    and "wo_clients s c = None" "iw_callback w" "resolve_service reg (wo_backend s) w = Inr sf"
    and "fi_pkg_path (sf_info sf) \<noteq> fi_pkg_path (iw_info w)" "rb_req_id (wo_backend s) \<notin> fst ` set (ct_map tool)"
    and "fi_req_support (sf_info sf) = fi_req_support (iw_info w)" "codec (fi_req_support (iw_info w))"
    and "fi_rsp_support (sf_info sf) = fi_rsp_support (iw_info w)" "codec (fi_rsp_support (iw_info w))"
    and "ts_serialize (fi_req_support (iw_info w)) (rpc_GetSerializationType (iw_ctx w)) (iw_req w) \<noteq> None"
    and "ts_serialize (fi_rsp_support (iw_info w)) (rpc_GetSerializationType (iw_ctx w)) rsp \<noteq> None"
    and "iw_req_cache w = []"
  shows "\<exists>s1 sc s2 w2. rpc_run reg [ActInvoke c w, ActSend (length (wo_inflight s))] s = Some s1 \<and>
    wo_services s1 = wo_services s @ [sc] \<and> sc_service sc = sf_service_func sf \<and> iw_req (sc_wrapper sc) = iw_req w \<and>
    rpc_step reg (ActReply (length (wo_services s)) status rsp) s1 = Some s2 \<and>
    wo_log s2 = wo_log s @ [Called c status] \<and> wo_clients s2 c = Some w2 \<and> iw_rsp w2 = Some rsp"
proof -
  let ?ty = "rpc_GetSerializationType (iw_ctx w)" and ?r = "rb_req_id (wo_backend s)"
  obtain tool' where inv: "rpc_step reg (ActInvoke c w) s = Some
      (s\<lparr>wo_clients := (wo_clients s)(c \<mapsto> w),
         wo_backend := (wo_backend s)\<lparr>rb_req_id := ?r + 1, rb_tool := Some tool'\<rparr>,
         wo_inflight := wo_inflight s @ [\<lparr>if_client = c, if_req_id = ?r, if_service = sf,
           if_wrapper = service_wrapper (sf_info sf) w\<rparr>]\<rparr>)"
    and rec: "Record ?r (rc_timeout (iw_ctx w)) c tool = (True, tool')"
    using lrb_Invoke_remote [OF assms(1-7)] by blast
  obtain b where b: "ts_serialize (fi_req_support (iw_info w)) ?ty (iw_req w) = Some b" using assms(12) by blast
  then have db: "ts_deserialize (fi_req_support (iw_info w)) ?ty b = Some (iw_req w)" using assms(9) by (simp add: codec_def)
  have "TrySerializeReqWithCache w ?ty = (Some b, w\<lparr>iw_req_cache := [(?ty, b)]\<rparr>)"
    using b assms(14) by (simp add: TrySerializeReqWithCache_def SerializeReqWithCache_def cache_emplace_def)
  then obtain s1 sc where s1: "rpc_run reg [ActInvoke c w, ActSend (length (wo_inflight s))] s = Some s1"
    and sc: "wo_services s1 = wo_services s @ [sc]" "sc_service sc = sf_service_func sf" "iw_req (sc_wrapper sc) = iw_req w"
      "sc_reply sc = ByRecord ?r ?ty" "iw_rsp_cache (sc_wrapper sc) = []" "iw_info (sc_wrapper sc) = sf_info sf"
    and st: "wo_clients s1 c = Some (w\<lparr>iw_req_cache := [(?ty, b)]\<rparr>)" "rb_tool (wo_backend s1) = Some tool'"
      "wo_log s1 = wo_log s"
    using inv db assms(8) by (simp add: lrb_send_def service_wrapper_def Let_def)
  obtain q where q: "ts_serialize (fi_rsp_support (iw_info w)) ?ty rsp = Some q" using assms(13) by blast
  then have dq: "ts_deserialize (fi_rsp_support (iw_info w)) ?ty q = Some rsp" using assms(11) by (simp add: codec_def)
  obtain v where ser: "TrySerializeRspWithCache ((sc_wrapper sc)\<lparr>iw_rsp := Some rsp\<rparr>) ?ty = (Some q, v)"
    using q assms(10) sc(5,6) by (simp add: TrySerializeRspWithCache_def SerializeRspWithCache_def)
  obtain tool2 where get: "GetRecord ?r tool' = (Some c, tool2)" using GetRecord_Record [OF rec] by (metis prod.collapse)
  obtain s2 where s2: "rpc_step reg (ActReply (length (wo_services s)) status rsp) s1 = Some s2" by (simp add: sc(1))
  have "wo_log s2 = wo_log s @ [Called c status] \<and> (\<exists>w2. wo_clients s2 c = Some w2 \<and> iw_rsp w2 = Some rsp)"
    using s2 sc(4) st get ser dq assms(4)
    by (auto simp: sc(1) nth_append lrb_reply_def InvokeCallBack_def call_callback_def Let_def)
  then show ?thesis using s1 sc(1-3) s2 by blast
qed

text \<open>
  C8. A request that cannot be serialised is answered at once with a failure status, but its
  record stays in the client tool: when its timer fires, the timeout handle calls the callback
  that \<open>InvokeCallBack\<close> has reset.
\<close>

theorem failed_request_times_out:
  assumes "rb_state (wo_backend s) = kStart" "rb_tool (wo_backend s) = Some tool" "ct_executor tool \<noteq> None"
    and "wo_clients s c = None" "iw_callback w" "resolve_service reg (wo_backend s) w = Inr sf"
    and "fi_pkg_path (sf_info sf) \<noteq> fi_pkg_path (iw_info w)" "rb_req_id (wo_backend s) \<notin> fst ` set (ct_map tool)"
    and "ts_serialize (fi_req_support (iw_info w)) (rpc_GetSerializationType (iw_ctx w)) (iw_req w) = None"
    and "iw_req_cache w = []"
  shows "\<exists>s'. rpc_run reg [ActInvoke c w, ActSend (length (wo_inflight s)),
      ActTimeout (rb_req_id (wo_backend s), rc_timeout (iw_ctx w))] s = Some s' \<and>
    wo_log s' = wo_log s @ [Called c CLI_SERIALIZATION_FAILED, BadCall c]"
proof -
  let ?ty = "rpc_GetSerializationType (iw_ctx w)" and ?r = "rb_req_id (wo_backend s)"
  let ?timer = "(?r, rc_timeout (iw_ctx w))"
  obtain tool' where inv: "rpc_step reg (ActInvoke c w) s = Some
      (s\<lparr>wo_clients := (wo_clients s)(c \<mapsto> w),
         wo_backend := (wo_backend s)\<lparr>rb_req_id := ?r + 1, rb_tool := Some tool'\<rparr>,
         wo_inflight := wo_inflight s @ [\<lparr>if_client = c, if_req_id = ?r, if_service = sf,
           if_wrapper = service_wrapper (sf_info sf) w\<rparr>]\<rparr>)"
    and rec: "Record ?r (rc_timeout (iw_ctx w)) c tool = (True, tool')"
    using lrb_Invoke_remote [OF assms(1,2,4-8)] by blast
  have "TrySerializeReqWithCache w ?ty = (None, w)"
    using assms(9,10) by (simp add: TrySerializeReqWithCache_def SerializeReqWithCache_def)
  then obtain s1 where s1: "rpc_run reg [ActInvoke c w, ActSend (length (wo_inflight s))] s = Some s1"
    and st: "rb_tool (wo_backend s1) = Some tool'" "wo_log s1 = wo_log s @ [Called c CLI_SERIALIZATION_FAILED]"
      "wo_clients s1 c = Some (w\<lparr>iw_callback := False\<rparr>)"
    using inv assms(5) by (simp add: lrb_send_def InvokeCallBack_def call_callback_def Let_def)
  have timer: "?timer \<in> set (ct_timers tool')" using rec assms(3) by (auto simp: Record_def Let_def split: if_splits)
  let ?tool = "tool'\<lparr>ct_timers := remove1 ?timer (ct_timers tool')\<rparr>"
  have "fst (GetRecord ?r ?tool) = fst (GetRecord ?r tool')" by (simp add: GetRecord_def split: option.splits)
  then obtain tool2 where get: "GetRecord ?r ?tool = (Some c, tool2)"
    using GetRecord_Record [OF rec] by (metis prod.collapse)
  obtain s' where s': "rpc_step reg (ActTimeout ?timer) s1 = Some s'" using st(1) timer by simp
  have "wo_log s' = wo_log s1 @ [BadCall c]"
    using s' st timer get by (auto simp: lrb_timeout_def call_callback_def Let_def)
  moreover have "rpc_run reg [ActInvoke c w, ActSend (length (wo_inflight s)), ActTimeout ?timer] s = Some s'"
    using rpc_run_snoc [of reg "[ActInvoke c w, ActSend (length (wo_inflight s))]" "ActTimeout ?timer" s] s1 s'
    by (simp del: rpc_run.simps rpc_step.simps)
  ultimately show ?thesis using st(2) by simp
qed

text \<open>An answer that arrives after \<open>Shutdown\<close> uses the released client tool.\<close>

lemma reply_after_shutdown:
  assumes "i < length (wo_services s)" "sc_reply (wo_services s ! i) = ByRecord r ty" "rb_state (wo_backend s) \<noteq> kShutdown"
  shows "\<exists>s'. rpc_run reg [ActShutdown, ActReply i status rsp] s = Some s' \<and> wo_log s' = wo_log s @ [NullTool]"
  using assms by (simp add: lrb_reply_def lrb_Shutdown_def atomic_exchange_def Let_def)

text \<open>The example: the backend after its initialisation and the resolution of a call.\<close>

lemmas num_evals = num_backend_def lrb_Initialize_def lrb_Start_def lrb_RegisterServiceFunc_def
  new_local_rpc_backend_def atomic_exchange_def RegisterTimeoutExecutor_def new_client_tool_def lrb_decode_def
  num_call_def num_func_def num_registry_def at_list_def set_insert_def RegisterServiceFunc_def
  new_rpc_registry_def GetServiceFuncWrapperPtr_def func_key_of_def number_support_def
  rpc_GetSerializationType_def rpc_GetMetaValue_def

lemma num_resolve:
  "resolve_service num_registry num_backend (num_call n) = Inr \<lparr>sf_info = num_func ''q'', sf_service_func = 5\<rparr>"
  by (simp add: resolve_service_def wanted_service_def find_service_def GetToAddr_def num_evals Let_def)

lemma num_world:
  "rb_state num_backend = kStart" "rb_tool num_backend = Some (new_client_tool\<lparr>ct_executor := Some 1\<rparr>)"
  "rb_req_id num_backend = 0"
  by (simp_all add: num_evals Let_def)

lemma num_call_simps:
  "rpc_GetSerializationType (iw_ctx (num_call n)) = ''bin''" "iw_callback (num_call n)" "iw_req_cache (num_call n) = []"
  "iw_req (num_call n) = n" "fi_req_support (iw_info (num_call n)) = number_support"
  "fi_rsp_support (iw_info (num_call n)) = number_support" "fi_pkg_path (iw_info (num_call n)) = ''p''"
  "rc_timeout (iw_ctx (num_call n)) = 9"
  by (simp_all add: num_evals)

theorem local_rpc_callback_once_witness:
  "\<exists>s. rpc_run num_registry [ActInvoke 1 (num_call 7), ActSend 0, ActReply 0 0 9] (idle_world num_backend) = Some s \<and>
    calls_of 1 (wo_log s) = 1"
proof -
  let ?as = "[ActInvoke 1 (num_call 7), ActSend 0, ActReply 0 0 9]"
  obtain s where s: "rpc_run num_registry ?as (idle_world num_backend) = Some s"
    and e: "wo_inflight s = []" "wo_services s = []" "rb_state (wo_backend s) = kStart" "wo_clients s 1 \<noteq> None"
    by (simp add: lrb_Invoke_def lrb_send_def lrb_reply_def InvokeCallBack_def call_callback_def Let_def idle_world_def
        num_resolve num_world num_call_simps Record_def GetRecord_def new_client_tool_def remove_nth_def
        TrySerializeReqWithCache_def SerializeReqWithCache_def TrySerializeRspWithCache_def SerializeRspWithCache_def
        service_wrapper_def num_func_def number_support_def)
  have "rpc_reach num_registry num_backend s"
    by (rule rpc_run_reach [OF rpc_start s]) (use num_call_good [of 7] in \<open>auto simp: good_act_def\<close>)
  with local_rpc_callback_once [OF this num_backend_fresh, of 1] s e show ?thesis by blast
qed

lemma idle_simps [simp]:
  "wo_backend (idle_world b) = b" "wo_clients (idle_world b) c = None" "wo_inflight (idle_world b) = []"
  "wo_services (idle_world b) = []" "wo_log (idle_world b) = []"
  by (simp_all add: idle_world_def)

theorem local_rpc_round_trip_witness:
  "\<exists>s1 s2 w2. rpc_run num_registry [ActInvoke 1 (num_call 7), ActSend 0] (idle_world num_backend) = Some s1 \<and>
    rpc_step num_registry (ActReply 0 0 9) s1 = Some s2 \<and> wo_log s2 = [Called 1 0] \<and>
    wo_clients s2 1 = Some w2 \<and> iw_rsp w2 = Some 9"
proof -
  let ?s = "idle_world num_backend :: (nat, nat) rpc_world" and ?w = "num_call 7"
  have "\<exists>s1 sc s2 w2. rpc_run num_registry [ActInvoke 1 ?w, ActSend (length (wo_inflight ?s))] ?s = Some s1 \<and>
    wo_services s1 = wo_services ?s @ [sc] \<and> sc_service sc = sf_service_func \<lparr>sf_info = num_func ''q'', sf_service_func = 5\<rparr> \<and>
    iw_req (sc_wrapper sc) = iw_req ?w \<and>
    rpc_step num_registry (ActReply (length (wo_services ?s)) 0 9) s1 = Some s2 \<and>
    wo_log s2 = wo_log ?s @ [Called 1 0] \<and> wo_clients s2 1 = Some w2 \<and> iw_rsp w2 = Some 9"
    by (rule local_rpc_round_trip [where tool = "new_client_tool\<lparr>ct_executor := Some 1\<rparr>"])
      (simp_all only: idle_simps num_resolve num_world num_call_simps number_support_codec,
       simp_all add: num_func_def number_support_def new_client_tool_def)
  then show ?thesis by (simp only: idle_simps list.size append_Nil) blast
qed

theorem failed_request_times_out_witness:
  "\<exists>s'. rpc_run num_registry [ActInvoke 1 (num_call 300), ActSend 0, ActTimeout (0, 9)] (idle_world num_backend) = Some s' \<and>
    wo_log s' = [Called 1 CLI_SERIALIZATION_FAILED, BadCall 1]"
proof -
  let ?s = "idle_world num_backend :: (nat, nat) rpc_world" and ?w = "num_call 300"
  have "\<exists>s'. rpc_run num_registry [ActInvoke 1 ?w, ActSend (length (wo_inflight ?s)),
      ActTimeout (rb_req_id (wo_backend ?s), rc_timeout (iw_ctx ?w))] ?s = Some s' \<and>
    wo_log s' = wo_log ?s @ [Called 1 CLI_SERIALIZATION_FAILED, BadCall 1]"
    by (rule failed_request_times_out [where tool = "new_client_tool\<lparr>ct_executor := Some 1\<rparr>"
        and sf = "\<lparr>sf_info = num_func ''q'', sf_service_func = 5\<rparr>"])
      (simp_all only: idle_simps num_resolve num_world num_call_simps,
       simp_all add: num_func_def number_support_def new_client_tool_def)
  then show ?thesis by (simp only: idle_simps num_world num_call_simps list.size append_Nil)
qed

end
