(* ===== verification/RpcManager.thy ===== *)
theory RpcManager
  imports LocalRpc ChannelManager
begin

text \<open>
  The rpc backend manager (\<open>rpc_backend_manager.cc\<close>): it registers services and clients,
  picks the backends and filters of a function by its rules and hands each call through the
  client-side filters to one backend. Backends are known by name; the calls made to them are
  recorded in \<open>rm_calls\<close> and, for \<open>Invoke\<close>, in an event log. The regular-expression engine and
  the answers of the backends are the parameter \<open>env\<close>.
\<close>

section \<open>State\<close>

datatype ('q, 'p) rpc_backend_call =
    RStart string | RShutdown string
  | RRegisterService string "('q, 'p) service_func_wrapper"
  | RRegisterClient string "('q, 'p) client_func_wrapper"

record ('q, 'p) rpc_env =
  re_regex_match :: "string \<Rightarrow> string \<Rightarrow> bool option"
  re_answer :: "('q, 'p) rpc_backend_call \<Rightarrow> bool"

text \<open>What a client sees of a call: a backend gets it, or its callback is run with a status.\<close>

datatype ('q, 'p) rm_event =
    Handed string "('q, 'p) invoke_wrapper" | Failed u32 | Served nat "('q, 'p) invoke_wrapper"

type_synonym ('q, 'p) rm_log = "('q, 'p) rm_event list"

record ('q, 'p) rpc_backend_manager =
  rm_state :: lc_state
  rm_registry :: "('q, 'p) rpc_registry"
  rm_client_filters :: "(('q, 'p) invoke_wrapper, ('q, 'p) rm_log) filter_manager"
  rm_server_filters :: "(('q, 'p) invoke_wrapper, ('q, 'p) rm_log) filter_manager"
  rm_clients_filters_rules :: rules
  rm_servers_filters_rules :: rules
  rm_clients_backends_rules :: rules
  rm_servers_backends_rules :: rules
  rm_backends :: "string list"
  rm_clients_backend_index :: "string \<Rightarrow> string list option"
  rm_servers_backend_index :: "string \<Rightarrow> string list option"
  rm_client_index :: nat
  rm_server_index :: nat
  rm_request_id :: "string \<Rightarrow> u32 option"
  rm_calls :: "('q, 'p) rpc_backend_call list"

datatype rm_error = RmInitializedTwice | RmNotInit | RmNotPreInit | RmNotStart

definition rm_Initialize :: "unit \<Rightarrow> ('q, 'p) rpc_backend_manager \<Rightarrow> (rm_error, ('q, 'p) rpc_backend_manager) outcome" where
  "rm_Initialize u s =
     (let (old, new) = atomic_exchange (rm_state s) kInit; s = s\<lparr>rm_state := new\<rparr> in
      if old \<noteq> kPreInit then (Some RmInitializedTwice, s) else (None, s))"

definition rm_Start :: "('q, 'p) rpc_backend_manager \<Rightarrow> (rm_error, ('q, 'p) rpc_backend_manager) outcome" where
  "rm_Start s =
     (let (old, new) = atomic_exchange (rm_state s) kStart; s = s\<lparr>rm_state := new\<rparr> in
      if old \<noteq> kInit then (Some RmNotInit, s)
      else (None, s\<lparr>rm_calls := rm_calls s @ map RStart (rm_backends s)\<rparr>))"

definition rm_Shutdown :: "('q, 'p) rpc_backend_manager \<Rightarrow> ('q, 'p) rpc_backend_manager" where
  "rm_Shutdown s =
     (let (old, new) = atomic_exchange (rm_state s) kShutdown; s = s\<lparr>rm_state := new\<rparr> in
      if old = kShutdown then s
      else s\<lparr>rm_calls := rm_calls s @ map RShutdown (rm_backends s)\<rparr>)"

definition rm_pre_init ::
  "(('q, 'p) rpc_backend_manager \<Rightarrow> ('q, 'p) rpc_backend_manager) \<Rightarrow>
   ('q, 'p) rpc_backend_manager \<Rightarrow> (rm_error, ('q, 'p) rpc_backend_manager) outcome" where
  "rm_pre_init f s = (if rm_state s \<noteq> kPreInit then (Some RmNotPreInit, s) else (None, f s))"

definition rm_SetRpcRegistry where
  "rm_SetRpcRegistry r = rm_pre_init (\<lambda>s. s\<lparr>rm_registry := r\<rparr>)"
definition rm_SetClientFrameworkAsyncRpcFilterManager where
  "rm_SetClientFrameworkAsyncRpcFilterManager f = rm_pre_init (\<lambda>s. s\<lparr>rm_client_filters := f\<rparr>)"
definition rm_SetServerFrameworkAsyncRpcFilterManager where
  "rm_SetServerFrameworkAsyncRpcFilterManager f = rm_pre_init (\<lambda>s. s\<lparr>rm_server_filters := f\<rparr>)"
definition rm_SetClientsFiltersRules where
  "rm_SetClientsFiltersRules r = rm_pre_init (\<lambda>s. s\<lparr>rm_clients_filters_rules := r\<rparr>)"
definition rm_SetServersFiltersRules where
  "rm_SetServersFiltersRules r = rm_pre_init (\<lambda>s. s\<lparr>rm_servers_filters_rules := r\<rparr>)"
definition rm_SetClientsBackendsRules where
  "rm_SetClientsBackendsRules r = rm_pre_init (\<lambda>s. s\<lparr>rm_clients_backends_rules := r\<rparr>)"
definition rm_SetServersBackendsRules where
  "rm_SetServersBackendsRules r = rm_pre_init (\<lambda>s. s\<lparr>rm_servers_backends_rules := r\<rparr>)"
definition rm_RegisterRpcBackend where
  "rm_RegisterRpcBackend b = rm_pre_init (\<lambda>s. s\<lparr>rm_backends := rm_backends s @ [b]\<rparr>)"

interpretation rm: lifecycle rm_state rm_Initialize rm_Start rm_Shutdown
  by unfold_locales
    (auto simp: rm_Initialize_def rm_Start_def rm_Shutdown_def atomic_exchange_def Let_def split: if_splits)

section \<open>Rules\<close>

fun rm_GetFilterRules :: "(string \<Rightarrow> string \<Rightarrow> bool option) \<Rightarrow> string \<Rightarrow> rules \<Rightarrow> string list" where
  "rm_GetFilterRules rmatch func_name [] = []"
| "rm_GetFilterRules rmatch func_name ((func_regex, filters) # rules) =
     (case rmatch func_regex func_name of
        Some True \<Rightarrow> filters
      | _ \<Rightarrow> rm_GetFilterRules rmatch func_name rules)"

fun rm_find_backends :: "string list \<Rightarrow> string list \<Rightarrow> string list" where
  "rm_find_backends backends [] = []"
| "rm_find_backends backends (n # ns) =
     (case List.find (\<lambda>b. b = n) backends of
        None \<Rightarrow> rm_find_backends backends ns
      | Some b \<Rightarrow> b # rm_find_backends backends ns)"

fun rm_GetBackendsByRules :: "(string \<Rightarrow> string \<Rightarrow> bool option) \<Rightarrow> string list \<Rightarrow> string \<Rightarrow> rules \<Rightarrow> string list" where
  "rm_GetBackendsByRules rmatch backends func_name [] = []"
| "rm_GetBackendsByRules rmatch backends func_name ((func_regex, enable_backends) # rules) =
     (case rmatch func_regex func_name of
        Some True \<Rightarrow> rm_find_backends backends enable_backends
      | _ \<Rightarrow> rm_GetBackendsByRules rmatch backends func_name rules)"

lemma rm_same_rules:
  "rm_GetFilterRules rmatch f rules = deciding_rule rmatch f rules"
  "rm_GetBackendsByRules rmatch bs f rules = filter (\<lambda>n. n \<in> set bs) (deciding_rule rmatch f rules)"
proof -
  have "rm_find_backends bs ns = find_backends bs ns" for bs ns by (induction ns) (auto split: option.splits)
  then show "rm_GetBackendsByRules rmatch bs f rules = filter (\<lambda>n. n \<in> set bs) (deciding_rule rmatch f rules)"
    by (induction rmatch bs f rules rule: rm_GetBackendsByRules.induct)
      (auto simp: deciding_rule_def find_backends_filter split: option.splits bool.splits)
  show "rm_GetFilterRules rmatch f rules = deciding_rule rmatch f rules"
    by (induction rmatch f rules rule: rm_GetFilterRules.induct)
      (auto simp: deciding_rule_def split: option.splits bool.splits)
qed

section \<open>Registration\<close>

record ('q, 'p) func_proxy_info =
  fx_func_name :: string
  fx_pkg_path :: string
  fx_module_name :: string
  fx_req_type_support :: "'q type_support option"
  fx_rsp_type_support :: "'p type_support option"
  fx_service_func :: "nat option"

type_synonym ('q, 'p) rm_reply = "(filter_error, bool) result \<times> ('q, 'p) rpc_backend_manager"

definition rm_ask :: "('c \<Rightarrow> bool) \<Rightarrow> 'c list \<Rightarrow> bool" where
  "rm_ask answer calls = fold (\<lambda>c ret. ret \<and> answer c) calls True"

text \<open>The parts of both registrations behind the construction of the wrapper.\<close>

definition register_service_wrapper ::
  "('q, 'p) rpc_env \<Rightarrow> ('q, 'p) service_func_wrapper \<Rightarrow> ('q, 'p) rpc_backend_manager \<Rightarrow> ('q, 'p) rm_reply" where
  "register_service_wrapper env w s =
     (let func_name = fi_func_name (sf_info w);
          filter_name_vec = rm_GetFilterRules (re_regex_match env) func_name (rm_servers_filters_rules s)
      in case Rpc_CreateFilterCollectorIfNotExist func_name filter_name_vec (rm_server_filters s) of
           Inl e \<Rightarrow> (Inl e, s)
         | Inr fm \<Rightarrow>
             let s = s\<lparr>rm_server_filters := fm\<rparr> in
             (case RegisterServiceFunc w (rm_registry s) of
                (False, _) \<Rightarrow> (Inr False, s)
              | (True, reg) \<Rightarrow>
                  let s = s\<lparr>rm_registry := reg\<rparr>;
                      s = (case rm_servers_backend_index s func_name of
                             Some _ \<Rightarrow> s
                           | None \<Rightarrow> s\<lparr>rm_servers_backend_index := (rm_servers_backend_index s)
                               (func_name \<mapsto> rm_GetBackendsByRules (re_regex_match env) (rm_backends s)
                                  func_name (rm_servers_backends_rules s))\<rparr>);
                      calls = map (\<lambda>b. RRegisterService b w) (the (rm_servers_backend_index s func_name))
                  in (Inr (rm_ask (re_answer env) calls), s\<lparr>rm_calls := rm_calls s @ calls\<rparr>)))"

definition rm_RegisterServiceFunc ::
  "('q, 'p) rpc_env \<Rightarrow> ('q, 'p) func_proxy_info \<Rightarrow> ('q, 'p) rpc_backend_manager \<Rightarrow> ('q, 'p) rm_reply" where
  "rm_RegisterServiceFunc env fx s =
     (if rm_state s \<noteq> kInit then (Inr False, s)
      else case (fx_req_type_support fx, fx_rsp_type_support fx) of
        (Some req, Some rsp) \<Rightarrow>
          (case fx_service_func fx of
             None \<Rightarrow> (Inr False, s)
           | Some service_func \<Rightarrow>
               let s = s\<lparr>rm_server_index := rm_server_index s + 1\<rparr> in
               register_service_wrapper env
                 \<lparr>sf_info = \<lparr>fi_func_name = fx_func_name fx, fi_pkg_path = fx_pkg_path fx,
                    fi_module_name = fx_module_name fx, fi_index = rm_server_index s,
                    fi_req_support = req, fi_rsp_support = rsp\<rparr>, sf_service_func = service_func\<rparr> s)
      | _ \<Rightarrow> (Inr False, s))"

text \<open>
  The service function a service is registered with: its function's filters around the step
  that gives the context its response id and calls the service.
\<close>

definition serve_request :: "nat \<Rightarrow> ('q, 'p) invoke_wrapper \<Rightarrow> ('q, 'p) rm_log \<Rightarrow> ('q, 'p) rm_log" where
  "serve_request svc w log =
     log @ [Served svc (w\<lparr>iw_callback := False,
       iw_ctx := rpc_SetMetaValue ''aimrt-response_id'' (rpc_GetMetaValue ''aimrt-request_id'' (iw_ctx w)) (iw_ctx w)\<rparr>)]"

definition service_entry ::
  "('q, 'p) rpc_backend_manager \<Rightarrow> ('q, 'p) service_func_wrapper \<Rightarrow> ('q, 'p) invoke_wrapper \<Rightarrow> ('q, 'p) rm_log \<Rightarrow> ('q, 'p) rm_log" where
  "service_entry s sf w =
     InvokeRpc (Rpc_GetFilterCollector (fi_func_name (sf_info sf)) (rm_server_filters s))
       (serve_request (sf_service_func sf)) w"

definition init_request_id :: "string \<Rightarrow> ('q, 'p) rpc_backend_manager \<Rightarrow> ('q, 'p) rpc_backend_manager" where
  "init_request_id func_name s =
     s\<lparr>rm_request_id := (case rm_request_id s func_name of
        None \<Rightarrow> (rm_request_id s)(func_name \<mapsto> 0) | Some _ \<Rightarrow> rm_request_id s)\<rparr>"

definition register_client_wrapper ::
  "('q, 'p) rpc_env \<Rightarrow> ('q, 'p) client_func_wrapper \<Rightarrow> ('q, 'p) rpc_backend_manager \<Rightarrow> ('q, 'p) rm_reply" where
  "register_client_wrapper env w s =
     (let func_name = fi_func_name (cf_info w);
          filter_name_vec = rm_GetFilterRules (re_regex_match env) func_name (rm_clients_filters_rules s)
      in case Rpc_CreateFilterCollectorIfNotExist func_name filter_name_vec (rm_client_filters s) of
           Inl e \<Rightarrow> (Inl e, s)
         | Inr fm \<Rightarrow>
             let s = s\<lparr>rm_client_filters := fm\<rparr> in
             (case RegisterClientFunc w (rm_registry s) of
                (False, _) \<Rightarrow> (Inr False, s)
              | (True, reg) \<Rightarrow>
                  let s = s\<lparr>rm_registry := reg,
                        rm_clients_backend_index := (case rm_clients_backend_index s func_name of
                           Some _ \<Rightarrow> rm_clients_backend_index s
                         | None \<Rightarrow> (rm_clients_backend_index s)
                             (func_name \<mapsto> rm_GetBackendsByRules (re_regex_match env) (rm_backends s)
                                func_name (rm_clients_backends_rules s)))\<rparr>;
                      calls = map (\<lambda>b. RRegisterClient b w) (the (rm_clients_backend_index s func_name))
                  in (Inr (rm_ask (re_answer env) calls), s\<lparr>rm_calls := rm_calls s @ calls\<rparr>)))"

definition rm_RegisterClientFunc ::
  "('q, 'p) rpc_env \<Rightarrow> ('q, 'p) func_proxy_info \<Rightarrow> ('q, 'p) rpc_backend_manager \<Rightarrow> ('q, 'p) rm_reply" where
  "rm_RegisterClientFunc env fx s =
     (if rm_state s \<noteq> kInit then (Inr False, s)
      else case (fx_req_type_support fx, fx_rsp_type_support fx) of
        (Some req, Some rsp) \<Rightarrow>
          let s = s\<lparr>rm_client_index := rm_client_index s + 1\<rparr> in
          register_client_wrapper env
            \<lparr>cf_info = \<lparr>fi_func_name = fx_func_name fx, fi_pkg_path = fx_pkg_path fx,
               fi_module_name = fx_module_name fx, fi_index = rm_client_index s,
               fi_req_support = req, fi_rsp_support = rsp\<rparr>\<rparr> (init_request_id (fx_func_name fx) s)
      | _ \<Rightarrow> (Inr False, s))"

section \<open>Calling\<close>

record ('q, 'p) invoke_info =
  ii_func_name :: string
  ii_pkg_path :: string
  ii_module_name :: string
  ii_ctx :: rpc_context
  ii_req :: 'q
  ii_rsp :: 'p

text \<open>The backend an address names: the part before the first \<open>"://"\<close>.\<close>

fun addr_backend :: "string \<Rightarrow> string option" where
  "addr_backend [] = None"
| "addr_backend (c # cs) = (if take 3 (c # cs) = ''://'' then Some [] else map_option ((#) c) (addr_backend cs))"

definition invoke_backend ::
  "('q, 'p) rpc_backend_manager \<Rightarrow> ('q, 'p) invoke_wrapper \<Rightarrow> ('q, 'p) rm_log \<Rightarrow> ('q, 'p) rm_log" where
  "invoke_backend s w log =
     (let w = (if rc_timeout (iw_ctx w) = 0 then w\<lparr>iw_ctx := rpc_SetTimeout 5000000000 (iw_ctx w)\<rparr> else w) in
      case rm_clients_backend_index s (fi_func_name (iw_info w)) of
        None \<Rightarrow> log @ [Failed CLI_NO_BACKEND_TO_HANDLE]
      | Some backends \<Rightarrow>
          if backends = [] then log @ [Failed CLI_NO_BACKEND_TO_HANDLE]
          else
            let to_addr = GetToAddr (iw_ctx w) in
            if to_addr \<noteq> [] then
              case addr_backend to_addr of
                None \<Rightarrow> log @ [Failed CLI_INVALID_ADDR]
              | Some b \<Rightarrow>
                  if b \<in> set (rm_backends s) \<and> b \<in> set backends then log @ [Handed b w]
                  else log @ [Failed CLI_INVALID_ADDR]
            else
              log @ [Handed (hd backends) (w\<lparr>iw_ctx := rpc_SetMetaValue ''aimrt-backend'' (hd backends) (iw_ctx w)\<rparr>)])"

definition rm_Invoke ::
  "('q, 'p) invoke_info \<Rightarrow> ('q, 'p) rpc_backend_manager \<Rightarrow>
   rm_error option \<times> ('q, 'p) rm_log \<times> rpc_context \<times> ('q, 'p) rpc_backend_manager" where
  "rm_Invoke ii s =
     (if rm_state s \<noteq> kStart then (Some RmNotStart, [], ii_ctx ii, s)
      else case GetClientFuncWrapperPtr (ii_func_name ii) (ii_pkg_path ii) (ii_module_name ii) (rm_registry s) of
        None \<Rightarrow> (None, [Failed CLI_FUNC_NOT_REGISTERED], ii_ctx ii, s)
      | Some cf \<Rightarrow>
          let cx = ii_ctx ii in
          if \<not> rc_client cx \<or> rc_used cx then (None, [Failed CLI_INVALID_CONTEXT], cx, s)
          else
            let cx = rpc_SetUsed cx;
                (cx, s) = (case rm_request_id s (ii_func_name ii) of
                   None \<Rightarrow> (cx, s)
                 | Some n \<Rightarrow>
                     (rpc_SetMetaValue ''aimrt-request_id'' (to_string (unat (n + 1))) cx,
                      s\<lparr>rm_request_id := (rm_request_id s)(ii_func_name ii \<mapsto> n + 1)\<rparr>));
                cx = (if rpc_GetSerializationType cx = []
                      then rpc_SetSerializationType (DefaultSerializationType (fi_req_support (cf_info cf))) cx else cx);
                w = \<lparr>iw_info = cf_info cf, iw_req = ii_req ii, iw_rsp = Some (ii_rsp ii), iw_ctx = cx,
                     iw_callback = True, iw_req_cache = [], iw_rsp_cache = []\<rparr>
            in (None, InvokeRpc (Rpc_GetFilterCollector (ii_func_name ii) (rm_client_filters s)) (invoke_backend s) w [],
                cx, s))"

definition GetClientsBackendInfo :: "('q, 'p) rpc_backend_manager \<Rightarrow> string \<Rightarrow> string list option" where
  "GetClientsBackendInfo s = rm_clients_backend_index s"

definition GetServersBackendInfo :: "('q, 'p) rpc_backend_manager \<Rightarrow> string \<Rightarrow> string list option" where
  "GetServersBackendInfo s = rm_servers_backend_index s"

section \<open>The invariant\<close>

definition func_backends :: "('q, 'p) rpc_env \<Rightarrow> ('q, 'p) rpc_backend_manager \<Rightarrow> string \<Rightarrow> string list" where
  "func_backends env s f =
     filter (\<lambda>n. n \<in> set (rm_backends s)) (deciding_rule (re_regex_match env) f (rm_clients_backends_rules s))"

definition func_filters :: "('q, 'p) rpc_env \<Rightarrow> ('q, 'p) rpc_backend_manager \<Rightarrow> string \<Rightarrow> string list" where
  "func_filters env s f = deciding_rule (re_regex_match env) f (rm_clients_filters_rules s)"

text \<open>What a registered client function finds: its request counter, its backends and its filters.\<close>

definition client_ready :: "('q, 'p) rpc_env \<Rightarrow> ('q, 'p) rpc_backend_manager \<Rightarrow> string \<Rightarrow> bool" where
  "client_ready env s f \<longleftrightarrow>
     rm_request_id s f \<noteq> None \<and> rm_clients_backend_index s f = Some (func_backends env s f) \<and>
     Rpc_GetFilterNameVec f (rm_client_filters s) = func_filters env s f"

definition rm_inv :: "('q, 'p) rpc_env \<Rightarrow> ('q, 'p) rpc_backend_manager \<Rightarrow> bool" where
  "rm_inv env s \<longleftrightarrow>
     fm_ok (rm_client_filters s) \<and>
     (\<forall>k w. rr_client (rm_registry s) k = Some w \<longrightarrow> func_key_of (cf_info w) = k \<and> client_ready env s (fk_func_name k)) \<and>
     (\<forall>f. rm_clients_backend_index s f \<in> {None, Some (func_backends env s f)}) \<and>
     (\<forall>f. Rpc_GetFilterNameVec f (rm_client_filters s) \<in> {[], func_filters env s f})"

text \<open>The part of the state the invariant is about.\<close>

definition same_clients :: "('q, 'p) rpc_backend_manager \<Rightarrow> ('q, 'p) rpc_backend_manager \<Rightarrow> bool" where
  "same_clients s s' \<longleftrightarrow>
     rm_client_filters s' = rm_client_filters s \<and> rm_clients_backend_index s' = rm_clients_backend_index s \<and>
     rm_request_id s' = rm_request_id s \<and> rm_backends s' = rm_backends s \<and>
     rm_clients_backends_rules s' = rm_clients_backends_rules s \<and>
     rm_clients_filters_rules s' = rm_clients_filters_rules s \<and>
     rr_client (rm_registry s') = rr_client (rm_registry s)"

lemma rm_inv_same: "same_clients s s' \<Longrightarrow> rm_inv env s' = rm_inv env s"
  unfolding same_clients_def rm_inv_def client_ready_def func_backends_def func_filters_def by simp

lemma register_service_same: "same_clients s (snd (register_service_wrapper env w s))"
  by (simp add: register_service_wrapper_def Let_def same_clients_def RegisterServiceFunc_def
      split: sum.splits option.splits prod.splits)

lemma init_request_id_inv [inv_intros]: "rm_inv env s \<Longrightarrow> rm_inv env (init_request_id f s)"
  by (cases "rm_request_id s f") (auto simp: init_request_id_def rm_inv_def client_ready_def func_backends_def func_filters_def)

lemma init_request_id_set: "rm_request_id (init_request_id f s) f \<noteq> None"
  by (simp add: init_request_id_def split: option.splits)

lemma rm_inv_filters:
  assumes inv: "rm_inv env s" and c: "Rpc_CreateFilterCollectorIfNotExist f (func_filters env s f) (rm_client_filters s) = Inr fm"
  shows "rm_inv env (s\<lparr>rm_client_filters := fm\<rparr>)" "Rpc_GetFilterNameVec f fm = func_filters env s f"
proof -
  let ?s = "s\<lparr>rm_client_filters := fm\<rparr>"
  have ok: "fm_ok (rm_client_filters s)" and n: "Rpc_GetFilterNameVec g (rm_client_filters s) \<in> {[], func_filters env s g}" for g
    using inv by (auto simp: rm_inv_def)
  have names: "Rpc_GetFilterNameVec g fm = (if g = f then func_filters env s f else Rpc_GetFilterNameVec g (rm_client_filters s))" for g
    using rf.create_names [OF ok c] rf.create_other [OF c, of g] n [of f] by auto
  then show "Rpc_GetFilterNameVec f fm = func_filters env s f" by simp
  have rules: "func_filters env ?s = func_filters env s" "func_backends env ?s = func_backends env s"
    by (simp_all add: func_filters_def func_backends_def fun_eq_iff)
  have "client_ready env s g \<Longrightarrow> client_ready env ?s g" for g by (simp add: client_ready_def rules names)
  moreover have "Rpc_GetFilterNameVec g fm \<in> {[], func_filters env s g}" for g using n [of g] by (simp add: names)
  ultimately show "rm_inv env ?s" using inv rf.create_ok [OF ok c] unfolding rm_inv_def rules by simp
qed

lemma rm_inv_register:
  assumes inv: "rm_inv env s" and f: "f = fi_func_name (cf_info w)" and id: "rm_request_id s f \<noteq> None"
    and names: "Rpc_GetFilterNameVec f (rm_client_filters s) = func_filters env s f"
    and reg: "RegisterClientFunc w (rm_registry s) = (True, reg)"
  shows "rm_inv env (s\<lparr>rm_registry := reg, rm_clients_backend_index := (case rm_clients_backend_index s f of
    Some _ \<Rightarrow> rm_clients_backend_index s | None \<Rightarrow> (rm_clients_backend_index s)(f \<mapsto> func_backends env s f))\<rparr>)"
proof -
  let ?i = "case rm_clients_backend_index s f of
    Some _ \<Rightarrow> rm_clients_backend_index s | None \<Rightarrow> (rm_clients_backend_index s)(f \<mapsto> func_backends env s f)"
  let ?s = "s\<lparr>rm_registry := reg, rm_clients_backend_index := ?i\<rparr>"
  have rules: "func_filters env ?s = func_filters env s" "func_backends env ?s = func_backends env s"
    by (simp_all add: func_filters_def func_backends_def fun_eq_iff)
  have old: "rm_clients_backend_index s g \<in> {None, Some (func_backends env s g)}" for g
    using inv by (simp add: rm_inv_def)
  have idx: "?i g = (if g = f then Some (func_backends env s f) else rm_clients_backend_index s g)" for g
    using old [of f] by (auto split: option.splits)
  have cl: "rr_client reg = (rr_client (rm_registry s))(func_key_of (cf_info w) \<mapsto> w)"
    using reg by (auto simp: RegisterClientFunc_def Let_def split: option.splits)
  have ready: "client_ready env ?s f" using id names by (simp add: client_ready_def rules idx)
  have keep: "client_ready env s g \<Longrightarrow> client_ready env ?s g" for g by (auto simp: client_ready_def rules idx)
  have "func_key_of (cf_info v) = k \<and> client_ready env ?s (fk_func_name k)" if "rr_client reg k = Some v" for k v
  proof (cases "k = func_key_of (cf_info w)")
    case True
    then show ?thesis using that ready by (simp add: cl f func_key_of_def)
  next
    case False
    then show ?thesis using that inv keep by (simp add: cl rm_inv_def)
  qed
  then show ?thesis using inv old unfolding rm_inv_def rules by (simp add: idx)
qed

lemma register_client_inv [inv_intros]:
  assumes i1: "rm_inv env s1" and id: "rm_request_id s1 (fi_func_name (cf_info w)) \<noteq> None"
  shows "rm_inv env (snd (register_client_wrapper env w s1))"
proof -
  let ?f = "fi_func_name (cf_info w)"
  have filters: "rm_GetFilterRules (re_regex_match env) ?f (rm_clients_filters_rules s1) = func_filters env s1 ?f"
    by (simp add: rm_same_rules func_filters_def)
  have backs: "rm_GetBackendsByRules (re_regex_match env) (rm_backends t) ?f (rm_clients_backends_rules t) = func_backends env t ?f"
    for t :: "('a, 'b) rpc_backend_manager" by (simp add: rm_same_rules func_backends_def)
  show ?thesis
  proof (cases "Rpc_CreateFilterCollectorIfNotExist ?f (func_filters env s1 ?f) (rm_client_filters s1)")
    case (Inl e)
    then show ?thesis using i1 by (simp add: register_client_wrapper_def Let_def filters)
  next
    case (Inr fm)
    let ?s2 = "s1\<lparr>rm_client_filters := fm\<rparr>"
    note i2 = rm_inv_filters [OF i1 Inr]
    obtain b reg where reg: "RegisterClientFunc w (rm_registry s1) = (b, reg)" by fastforce
    show ?thesis
    proof (cases b)
      case False
      then show ?thesis using i2 Inr reg by (simp add: register_client_wrapper_def Let_def filters)
    next
      case True
      let ?s3 = "?s2\<lparr>rm_registry := reg, rm_clients_backend_index := (case rm_clients_backend_index ?s2 ?f of
        Some _ \<Rightarrow> rm_clients_backend_index ?s2 | None \<Rightarrow> (rm_clients_backend_index ?s2)(?f \<mapsto> func_backends env ?s2 ?f))\<rparr>"
      have ff: "func_filters env ?s2 = func_filters env s1" by (simp add: func_filters_def fun_eq_iff)
      have "rm_inv env ?s3"
        by (rule rm_inv_register [OF i2(1) refl]) (use id i2(2) reg True in \<open>simp_all add: ff\<close>)
      moreover have "snd (register_client_wrapper env w s1) =
          ?s3\<lparr>rm_calls := rm_calls s1 @ map (\<lambda>b. RRegisterClient b w) (the (rm_clients_backend_index ?s3 ?f))\<rparr>"
        using Inr [unfolded func_filters_def] reg True
        by (simp add: register_client_wrapper_def Let_def rm_same_rules func_backends_def cong: option.case_cong)
      moreover have "rm_inv env (?s3\<lparr>rm_calls := calls\<rparr>) = rm_inv env ?s3" for calls
        by (rule rm_inv_same) (simp add: same_clients_def)
      ultimately show ?thesis by simp
    qed
  qed
qed

datatype ('q, 'p) rpc_registration = RegService "('q, 'p) func_proxy_info" | RegClient "('q, 'p) func_proxy_info"

fun rpc_reg_step :: "('q, 'p) rpc_env \<Rightarrow> ('q, 'p) rpc_registration \<Rightarrow> ('q, 'p) rpc_backend_manager \<Rightarrow> ('q, 'p) rpc_backend_manager" where
  "rpc_reg_step env (RegService fx) s = snd (rm_RegisterServiceFunc env fx s)"
| "rpc_reg_step env (RegClient fx) s = snd (rm_RegisterClientFunc env fx s)"

lemma rm_inv_index [simp]:
  "rm_inv env (s\<lparr>rm_server_index := n\<rparr>) = rm_inv env s" "rm_inv env (s\<lparr>rm_client_index := n\<rparr>) = rm_inv env s"
  by (rule rm_inv_same, simp add: same_clients_def)+

lemma rpc_reg_step_inv: "rm_inv env s \<Longrightarrow> rm_inv env (rpc_reg_step env op s)"
proof (cases op)
  case (RegService fx)
  assume "rm_inv env s"
  moreover have "rm_inv env (snd (register_service_wrapper env w t)) = rm_inv env t" for w and t :: "('a, 'b) rpc_backend_manager"
    by (rule rm_inv_same [OF register_service_same])
  ultimately show ?thesis using RegService by (simp add: rm_RegisterServiceFunc_def Let_def split: option.splits)
next
  case (RegClient fx)
  assume "rm_inv env s"
  then have "rm_inv env (init_request_id f (s\<lparr>rm_client_index := n\<rparr>))" for f n by (simp add: init_request_id_inv)
  then have "fi_func_name (cf_info w) = f \<Longrightarrow>
      rm_inv env (snd (register_client_wrapper env w (init_request_id f (s\<lparr>rm_client_index := n\<rparr>))))" for w f n
    by (intro register_client_inv) (simp_all add: init_request_id_set)
  then show ?thesis using RegClient \<open>rm_inv env s\<close>
    by (simp add: rm_RegisterClientFunc_def Let_def split: option.splits)
qed

lemma rpc_reg_steps_inv: "rm_inv env s \<Longrightarrow> rm_inv env (fold (rpc_reg_step env) ops s)"
  by (induction ops arbitrary: s) (simp_all add: rpc_reg_step_inv)

definition rm_fresh :: "('q, 'p) rpc_backend_manager \<Rightarrow> bool" where
  "rm_fresh s \<longleftrightarrow> rm_registry s = new_rpc_registry \<and> rm_clients_backend_index s = (\<lambda>_. None) \<and>
     fm_ok (rm_client_filters s) \<and> (\<forall>f. Rpc_GetFilterNameVec f (rm_client_filters s) = [])"

lemma rm_fresh_inv: "rm_fresh s \<Longrightarrow> rm_inv env s"
  by (simp add: rm_fresh_def rm_inv_def new_rpc_registry_def)

lemma rm_Start_same:
  assumes "rm_Start s = (None, s')"
  shows "same_clients s s'" "rm_state s' = kStart"
  using assms by (auto simp: rm_Start_def atomic_exchange_def Let_def same_clients_def split: if_splits)

section \<open>Where a call goes\<close>

text \<open>The specification of the last step of a call, on the list of the function's backends.\<close>

definition route :: "string list \<Rightarrow> ('q, 'p) invoke_wrapper \<Rightarrow> ('q, 'p) rm_event" where
  "route backends w =
     (let to_addr = GetToAddr (iw_ctx w);
          w = (if rc_timeout (iw_ctx w) = 0 then w\<lparr>iw_ctx := rpc_SetTimeout 5000000000 (iw_ctx w)\<rparr> else w)
      in case backends of
           [] \<Rightarrow> Failed CLI_NO_BACKEND_TO_HANDLE
         | b # _ \<Rightarrow>
             if to_addr = [] then Handed b (w\<lparr>iw_ctx := rpc_SetMetaValue ''aimrt-backend'' b (iw_ctx w)\<rparr>)
             else if \<exists>b \<in> set backends. \<exists>rest. to_addr = b @ ''://'' @ rest \<and> addr_backend to_addr = Some b
             then Handed (the (addr_backend to_addr)) w
             else Failed CLI_INVALID_ADDR)"

lemma addr_backend_prefix: "addr_backend a = Some b \<Longrightarrow> \<exists>rest. a = b @ ''://'' @ rest"
proof (induction a arbitrary: b)
  case (Cons c cs)
  show ?case
  proof (cases "take 3 (c # cs) = ''://''")
    case True
    then have "c # cs = ''://'' @ drop 3 (c # cs)" by (metis append_take_drop_id)
    moreover have "b = []" using Cons.prems True by (simp del: take_Suc_Cons)
    ultimately show ?thesis by (metis append_Nil)
  next
    case False
    then obtain b' where "addr_backend cs = Some b'" "b = c # b'"
      using Cons.prems by (auto simp del: take_Suc_Cons)
    with Cons.IH show ?thesis by fastforce
  qed
qed simp

lemma invoke_backend_route:
  assumes "rm_clients_backend_index s (fi_func_name (iw_info w)) = Some bs" "set bs \<subseteq> set (rm_backends s)"
  shows "invoke_backend s w log = log @ [route bs w]"
proof -
  let ?w = "if rc_timeout (iw_ctx w) = 0 then w\<lparr>iw_ctx := rpc_SetTimeout 5000000000 (iw_ctx w)\<rparr> else w"
  have info: "fi_func_name (iw_info ?w) = fi_func_name (iw_info w)" and addr: "GetToAddr (iw_ctx ?w) = GetToAddr (iw_ctx w)"
    by (simp_all add: GetToAddr_def)
  have mem: "(\<exists>b \<in> set bs. \<exists>rest. a = b @ ''://'' @ rest \<and> addr_backend a = Some b) \<longleftrightarrow>
      (\<exists>b. addr_backend a = Some b \<and> b \<in> set bs)" for a using addr_backend_prefix by blast
  show ?thesis
  proof (cases bs)
    case Nil
    then show ?thesis using assms(1) by (simp add: invoke_backend_def route_def Let_def info)
  next
    case (Cons b bs')
    then show ?thesis using assms unfolding invoke_backend_def route_def Let_def info addr mem
      by (auto split: option.splits)
  qed
qed

lemma started_call:
  assumes "rm_inv env s" "rm_state s = kStart"
    and "GetClientFuncWrapperPtr (ii_func_name ii) (ii_pkg_path ii) (ii_module_name ii) (rm_registry s) = Some cf"
    and "rc_client (ii_ctx ii)" "\<not> rc_used (ii_ctx ii)"
    and "rm_Invoke ii s = (e, log, cx', s')"
  shows "\<exists>w n. e = None \<and>
    log = chain (rev (lookup_all (fm_filter_map (rm_client_filters s)) (func_filters env s (ii_func_name ii))))
            (invoke_backend s') w [] \<and>
    invoke_backend s' w [] = [route (func_backends env s (ii_func_name ii)) w] \<and>
    iw_info w = cf_info cf \<and> iw_req w = ii_req ii \<and> iw_ctx w = cx' \<and>
    rm_request_id s (ii_func_name ii) = Some n \<and> rm_request_id s' (ii_func_name ii) = Some (n + 1) \<and>
    rpc_GetMetaValue ''aimrt-request_id'' cx' = to_string (unat (n + 1)) \<and>
    rm_Invoke (ii\<lparr>ii_ctx := cx'\<rparr>) s' = (None, [Failed CLI_INVALID_CONTEXT], cx', s')"
proof -
  let ?f = "ii_func_name ii"
  note inv = assms(1) and st = assms(2)
  let ?k = "\<lparr>fk_func_name = ?f, fk_pkg_path = ii_pkg_path ii, fk_module_name = ii_module_name ii\<rparr>"
  have "rr_client (rm_registry s) ?k = Some cf" using assms(3) by (simp add: GetClientFuncWrapperPtr_def)
  then have k: "func_key_of (cf_info cf) = ?k" and ready: "client_ready env s ?f"
    using inv unfolding rm_inv_def by (metis func_key.select_convs(1))+
  have name: "fi_func_name (cf_info cf) = ?f" using k by (simp add: func_key_of_def)
  obtain n where n: "rm_request_id s ?f = Some n" using ready by (auto simp: client_ready_def)
  let ?s = "s\<lparr>rm_request_id := (rm_request_id s)(?f \<mapsto> n + 1)\<rparr>"
  let ?w = "\<lparr>iw_info = cf_info cf, iw_req = ii_req ii, iw_rsp = Some (ii_rsp ii), iw_ctx = cx',
    iw_callback = True, iw_req_cache = [], iw_rsp_cache = []\<rparr>"
  have call: "e = None" "s' = ?s"
    "log = InvokeRpc (Rpc_GetFilterCollector ?f (rm_client_filters s)) (invoke_backend ?s) ?w []"
    "rpc_GetMetaValue ''aimrt-request_id'' cx' = to_string (unat (n + 1))" "rc_used cx'"
    using assms(3-6) st n by (auto simp: rm_Invoke_def Let_def rpc_SetSerializationType_def split: if_splits)
  have ok: "fm_ok (rm_client_filters s)" using inv by (simp add: rm_inv_def)
  have names: "Rpc_GetFilterNameVec ?f (rm_client_filters s) = func_filters env s ?f"
    and idx: "rm_clients_backend_index s ?f = Some (func_backends env s ?f)"
    using ready by (simp_all add: client_ready_def)
  have log: "log = chain (rev (lookup_all (fm_filter_map (rm_client_filters s)) (func_filters env s ?f))) (invoke_backend s') ?w []"
    by (simp add: call(2,3) Rpc_same_invoke rf.get_chain [OF ok, of ?f] names)
  have "set (func_backends env s ?f) \<subseteq> set (rm_backends s')" by (auto simp: func_backends_def call(2))
  then have route: "invoke_backend s' ?w [] = [route (func_backends env s ?f) ?w]"
    using invoke_backend_route [of s' ?w "func_backends env s ?f" "[]"] idx by (simp add: call(2) name)
  have "rm_Invoke (ii\<lparr>ii_ctx := cx'\<rparr>) s' = (None, [Failed CLI_INVALID_CONTEXT], cx', s')"
    using st assms(3) call(5) by (simp add: rm_Invoke_def call(2))
  then show ?thesis using call(1,2,4) log route n by (intro exI [of _ ?w] exI [of _ n]) simp
qed

text \<open>Registration changes neither the rules nor the backends nor the filters there are.\<close>

definition rpc_same_rules :: "('q, 'p) rpc_backend_manager \<Rightarrow> ('q, 'p) rpc_backend_manager \<Rightarrow> bool" where
  "rpc_same_rules s s' \<longleftrightarrow> rm_backends s' = rm_backends s \<and> rm_state s' = rm_state s \<and>
     rm_clients_backends_rules s' = rm_clients_backends_rules s \<and> rm_clients_filters_rules s' = rm_clients_filters_rules s \<and>
     fm_filter_map (rm_client_filters s') = fm_filter_map (rm_client_filters s)"

lemma rpc_same_rules_trans: "rpc_same_rules s s1 \<Longrightarrow> rpc_same_rules s1 s2 \<Longrightarrow> rpc_same_rules s s2"
  by (simp add: rpc_same_rules_def)

lemma rpc_wrapper_same_rules:
  "rpc_same_rules s (snd (register_service_wrapper env v s))" "rpc_same_rules s (snd (register_client_wrapper env w s))"
proof -
  show "rpc_same_rules s (snd (register_service_wrapper env v s))"
    by (simp add: register_service_wrapper_def Let_def rpc_same_rules_def split: sum.splits option.splits prod.splits bool.splits)
  obtain b reg where "RegisterClientFunc w (rm_registry s) = (b, reg)" by fastforce
  then show "rpc_same_rules s (snd (register_client_wrapper env w s))"
    by (cases b) (auto simp: register_client_wrapper_def rpc_same_rules_def Let_def Rpc_same dest!: CreateIf_filter_map split: sum.splits)
qed

lemma rpc_reg_step_same_rules: "rpc_same_rules s (rpc_reg_step env op s)"
proof -
  have i: "rpc_same_rules (s\<lparr>rm_server_index := n\<rparr>) s' = rpc_same_rules s s'"
    "rpc_same_rules (init_request_id f (s\<lparr>rm_client_index := n\<rparr>)) s' = rpc_same_rules s s'" "rpc_same_rules s s" for n f s'
    by (simp_all add: rpc_same_rules_def init_request_id_def)
  note w = rpc_wrapper_same_rules(1) [of "s\<lparr>rm_server_index := rm_server_index s + 1\<rparr>" env, unfolded i]
    rpc_wrapper_same_rules(2) [of "init_request_id f (s\<lparr>rm_client_index := rm_client_index s + 1\<rparr>)" env for f, unfolded i]
  show ?thesis using w by (cases op) (simp_all add: rm_RegisterServiceFunc_def rm_RegisterClientFunc_def Let_def i split: option.splits)
qed

lemma rpc_reg_steps_same_rules: "rpc_same_rules s (fold (rpc_reg_step env) ops s)"
proof (induction ops arbitrary: s)
  case (Cons op ops)
  then show ?case using rpc_same_rules_trans [OF rpc_reg_step_same_rules [of s env op] Cons] by simp
qed (simp add: rpc_same_rules_def)

text \<open>
  C7. Once the registrations are done and the manager is started, a call of a registered
  function with a fresh client context passes exactly the filters of the deciding filter rule
  and then does exactly one thing: it is handed to the backend its address names, if that is
  one of the function's backends, or to the first of these when it names none, with a timeout
  of five seconds when it has none; otherwise its callback gets the failure status. The
  context carries the next request number of the function and cannot be used again.
\<close>

theorem rpc_call_reaches_backend:
  assumes "rm_fresh s0" "s1 = fold (rpc_reg_step env) ops s0" "rm_Start s1 = (None, s)"
    and "GetClientFuncWrapperPtr (ii_func_name ii) (ii_pkg_path ii) (ii_module_name ii) (rm_registry s) = Some cf"
    and "rc_client (ii_ctx ii)" "\<not> rc_used (ii_ctx ii)"
    and "rm_Invoke ii s = (e, log, cx', s')"
  shows "\<exists>w n. e = None \<and>
    log = chain (rev (lookup_all (fm_filter_map (rm_client_filters s)) (func_filters env s (ii_func_name ii))))
            (invoke_backend s') w [] \<and>
    invoke_backend s' w [] = [route (func_backends env s (ii_func_name ii)) w] \<and>
    iw_info w = cf_info cf \<and> iw_req w = ii_req ii \<and> iw_ctx w = cx' \<and>
    rm_request_id s (ii_func_name ii) = Some n \<and> rm_request_id s' (ii_func_name ii) = Some (n + 1) \<and>
    rpc_GetMetaValue ''aimrt-request_id'' cx' = to_string (unat (n + 1)) \<and>
    rm_Invoke (ii\<lparr>ii_ctx := cx'\<rparr>) s' = (None, [Failed CLI_INVALID_CONTEXT], cx', s')"
proof -
  have "rm_inv env s1" unfolding assms(2) using assms(1) by (intro rpc_reg_steps_inv rm_fresh_inv)
  then have inv: "rm_inv env s" using rm_inv_same [OF rm_Start_same(1) [OF assms(3)]] by blast
  show ?thesis by (rule started_call [OF inv rm_Start_same(2) [OF assms(3)] assms(4-7)])
qed

text \<open>A manager with one backend and one client function.\<close>

definition rpc_demo_env :: "(nat, nat) rpc_env" where
  "rpc_demo_env = \<lparr>re_regex_match = (\<lambda>re s. if re = ''(.*)'' then Some True else None), re_answer = (\<lambda>_. True)\<rparr>"

definition rpc_demo_manager :: "(nat, nat) rpc_backend_manager" where
  "rpc_demo_manager =
     \<lparr>rm_state = kInit, rm_registry = new_rpc_registry, rm_client_filters = new_filter_manager,
      rm_server_filters = new_filter_manager, rm_clients_filters_rules = [], rm_servers_filters_rules = [],
      rm_clients_backends_rules = [(''['', []), (''(.*)'', [''mqtt'', ''local''])], rm_servers_backends_rules = [],
      rm_backends = [''local''], rm_clients_backend_index = (\<lambda>_. None), rm_servers_backend_index = (\<lambda>_. None),
      rm_client_index = 0, rm_server_index = 0, rm_request_id = (\<lambda>_. None), rm_calls = []\<rparr>"

definition rpc_demo_func :: "(nat, nat) func_proxy_info" where
  "rpc_demo_func = \<lparr>fx_func_name = ''f'', fx_pkg_path = ''p'', fx_module_name = ''m'',
     fx_req_type_support = Some number_support, fx_rsp_type_support = Some number_support, fx_service_func = None\<rparr>"

definition rpc_demo_call :: "(nat, nat) invoke_info" where
  "rpc_demo_call = \<lparr>ii_func_name = ''f'', ii_pkg_path = ''p'', ii_module_name = ''m'',
     ii_ctx = \<lparr>rc_client = True, rc_used = False, rc_timeout = 0, rc_meta = [(''aimrt-to_addr'', ''local://x'')]\<rparr>,
     ii_req = 7, ii_rsp = 0\<rparr>"

theorem rpc_call_reaches_backend_witness:
  "\<exists>s log cx' s' w. rm_Invoke rpc_demo_call s = (None, log, cx', s') \<and> log = [Handed ''local'' w] \<and>
    rc_timeout (iw_ctx w) = 5000000000"
proof -
  obtain s1 where e: "s1 = fold (rpc_reg_step rpc_demo_env) [RegClient rpc_demo_func] rpc_demo_manager" by blast
  obtain s where es: "s = snd (rm_Start s1)" by blast
  have fresh: "rm_fresh rpc_demo_manager"
    by (simp add: rm_fresh_def rpc_demo_manager_def fm_ok_def key_ok_def Rpc_GetFilterNameVec_def new_filter_manager_def)
  have s1: "rm_state s1 = kInit" "rr_client (rm_registry s1) \<lparr>fk_func_name = ''f'', fk_pkg_path = ''p'', fk_module_name = ''m''\<rparr> \<noteq> None"
    "rm_clients_filters_rules s1 = []" "rm_backends s1 = [''local'']"
    "rm_clients_backends_rules s1 = [(''['', []), (''(.*)'', [''mqtt'', ''local''])]"
    unfolding e
    by (simp_all add: rm_RegisterClientFunc_def register_client_wrapper_def init_request_id_def rpc_demo_manager_def
        rpc_demo_func_def Let_def Rpc_same CreateFilterCollectorIfNotExist_def CreateFilterCollector_def
        new_filter_manager_def RegisterClientFunc_def new_rpc_registry_def func_key_of_def)
  have start: "rm_Start s1 = (None, s)"
    using s1(1) by (simp add: es rm_Start_def atomic_exchange_def Let_def)
  have f: "rm_registry s = rm_registry s1" "rm_clients_filters_rules s = []" "rm_backends s = [''local'']"
    "rm_clients_backends_rules s = [(''['', []), (''(.*)'', [''mqtt'', ''local''])]"
    using s1 start by (auto simp: rm_Start_def atomic_exchange_def Let_def)
  obtain cf where cf: "GetClientFuncWrapperPtr (ii_func_name rpc_demo_call) (ii_pkg_path rpc_demo_call)
      (ii_module_name rpc_demo_call) (rm_registry s) = Some cf"
    using s1(2) by (auto simp: GetClientFuncWrapperPtr_def rpc_demo_call_def f)
  have cx: "rc_client (ii_ctx rpc_demo_call)" "\<not> rc_used (ii_ctx rpc_demo_call)" by (simp_all add: rpc_demo_call_def)
  obtain err log cx' s' where call: "rm_Invoke rpc_demo_call s = (err, log, cx', s')" by (metis prod_cases4)
  have r: "func_filters rpc_demo_env s ''f'' = []" "func_backends rpc_demo_env s ''f'' = [''local'']"
    "ii_func_name rpc_demo_call = ''f''"
    by (simp_all add: func_filters_def func_backends_def f deciding_rule_def rpc_demo_env_def rpc_demo_call_def)
  obtain w where w: "err = None" "log = [route [''local''] w]" "iw_ctx w = cx'"
    using rpc_call_reaches_backend [OF fresh e start cf cx call] by (auto simp: r)
  have "GetToAddr cx' = ''local://x''" "rc_timeout cx' = 0"
    using call cf by (auto simp: rm_Invoke_def Let_def rpc_demo_call_def GetToAddr_def rpc_GetSerializationType_def
        rpc_SetSerializationType_def rpc_SetMetaValue_def rpc_SetUsed_def rpc_GetMetaValue_def update_conv'
        split: if_splits option.splits)
  then have "log = [Handed ''local'' (w\<lparr>iw_ctx := rpc_SetTimeout 5000000000 cx'\<rparr>)]"
    using w(2,3) by (simp add: route_def Let_def)
  then show ?thesis using call w(1) by (intro exI) auto
qed

end
