(* ===== verification/ThreadExecutor.thy ===== *)
theory ThreadExecutor
  imports Lifecycle
begin

text \<open>
  The executors that run their tasks on one thread of their own: \<open>guard_thread_executor.cc\<close> and
  \<open>simple_thread_executor.cc\<close>. Producers call \<open>Execute\<close> from any thread; it checks the state,
  counts the task against a threshold and queues it. The worker swaps the queue out and runs
  it. Every atomic access and every critical section is one step, and the theorems speak of all
  interleavings of the steps.
\<close>

section \<open>State\<close>

record gt_options =
  go_name :: string
  go_thread_sched_policy :: string
  go_thread_bind_cpu :: "u32 list"
  go_queue_threshold :: u32
  go_alarm_interval_ms :: int

text \<open>
  The options node as \<open>decode\<close> sees it: whether it is a map, and for each key whether it is
  absent, converts to the type asked for, or does not (then \<open>as\<close> throws, as it does on
  a node that is not a map).
\<close>

datatype 'a yaml_field = Absent | Holds 'a | Malformed

record gt_node =
  gn_is_map :: bool
  gn_name :: "string yaml_field"
  gn_thread_sched_policy :: "string yaml_field"
  gn_thread_bind_cpu :: "u32 list yaml_field"
  gn_queue_threshold :: "u32 yaml_field"
  gn_alarm_interval_ms :: "int yaml_field"

definition gt_default_options :: gt_options where
  "gt_default_options =
     \<lparr>go_name = ''aimrt_guard'', go_thread_sched_policy = [], go_thread_bind_cpu = [],
      go_queue_threshold = 10000, go_alarm_interval_ms = 1000\<rparr>"

definition gt_encode :: "gt_options \<Rightarrow> gt_node" where
  "gt_encode rhs =
     \<lparr>gn_is_map = True, gn_name = Holds (go_name rhs), gn_thread_sched_policy = Holds (go_thread_sched_policy rhs),
      gn_thread_bind_cpu = Holds (go_thread_bind_cpu rhs), gn_queue_threshold = Holds (go_queue_threshold rhs),
      gn_alarm_interval_ms = Holds (go_alarm_interval_ms rhs)\<rparr>"

fun keep_or :: "'a yaml_field \<Rightarrow> 'a \<Rightarrow> 'a option" where
  "keep_or Absent old = Some old"
| "keep_or (Holds x) old = Some x"
| "keep_or Malformed old = None"

definition gt_decode :: "gt_node \<Rightarrow> gt_options \<Rightarrow> gt_options option" where
  "gt_decode node rhs =
     (if \<not> gn_is_map node then None
      else Option.bind (keep_or (gn_name node) (go_name rhs)) (\<lambda>name.
        Option.bind (keep_or (gn_thread_sched_policy node) (go_thread_sched_policy rhs)) (\<lambda>policy.
        Option.bind (keep_or (gn_thread_bind_cpu node) (go_thread_bind_cpu rhs)) (\<lambda>cpus.
        Option.bind (keep_or (gn_queue_threshold node) (go_queue_threshold rhs)) (\<lambda>threshold.
        Option.bind (keep_or (gn_alarm_interval_ms node) (go_alarm_interval_ms rhs)) (\<lambda>interval.
          Some \<lparr>go_name = name, go_thread_sched_policy = policy, go_thread_bind_cpu = cpus,
                go_queue_threshold = threshold, go_alarm_interval_ms = interval\<rparr>))))))"

lemma gt_decode_encode: "gt_decode (gt_encode rhs) opts = Some rhs"
  by (simp add: gt_decode_def gt_encode_def)

text \<open>
  Tasks are known by number. A producer is between two steps of \<open>Execute\<close>, a stopper between
  two of \<open>Shutdown\<close>. The worker's place in its loop is its program counter: \<open>WTest\<close> where it holds
  the mutex and tests the predicate of \<open>cond_.wait\<close>, \<open>WSleep\<close> where it waits for a notification,
  \<open>WRun\<close> with the rest of \<open>tmp_queue\<close>.
\<close>

type_synonym task_no = nat

datatype producer = Checked task_no | Counted task_no | Over task_no

datatype stopper = AtNotify | AtJoin | Returned

datatype worker = WNone | WCheck | WTest | WSleep | WRun "task_no list" | WDrain | WExit

datatype te_event = Queued task_no | Ran task_no | Threw task_no | Refused task_no | Rejected task_no

record thread_executor =
  te_options :: gt_options
  te_name :: string
  te_state :: lc_state
  te_threshold :: u32
  te_num :: u32
  te_queue :: "task_no list"
  te_worker :: worker
  te_thread :: bool
  te_stoppers :: "stopper list"
  te_producers :: "nat \<Rightarrow> producer option"
  te_log :: "te_event list"

datatype te_error = TeInitializedTwice | TeBadOptions | TeNotInit

definition new_thread_executor :: thread_executor where
  "new_thread_executor =
     \<lparr>te_options = gt_default_options, te_name = [], te_state = kPreInit, te_threshold = 0, te_num = 0,
      te_queue = [], te_worker = WNone, te_thread = False, te_stoppers = [], te_producers = (\<lambda>_. None), te_log = []\<rparr>"

section \<open>Life cycle\<close>

text \<open>
  The pointer \<open>thread_ptr_\<close> is \<open>te_thread\<close>. \<open>gt_Shutdown\<close> and \<open>st_Shutdown\<close> are the first
  step of \<open>Shutdown\<close>, the exchange; a call that gets past it is appended to \<open>te_stoppers\<close> and
  goes on by \<open>Shutdown_next\<close>: it notifies under the mutex, then blocks in the join
  until the worker has left its function (the step is not enabled before), then resets the pointer.
\<close>

definition gt_Initialize :: "gt_node option \<Rightarrow> thread_executor \<Rightarrow> (te_error, thread_executor) outcome" where
  "gt_Initialize options_node s =
     (let (old, new) = atomic_exchange (te_state s) kInit; s = s\<lparr>te_state := new\<rparr> in
      if old \<noteq> kPreInit then (Some TeInitializedTwice, s)
      else
        case (case options_node of None \<Rightarrow> Some (te_options s) | Some node \<Rightarrow> gt_decode node gt_default_options) of
          None \<Rightarrow> (Some TeBadOptions, s)
        | Some opts \<Rightarrow> (None, s\<lparr>te_options := opts, te_name := go_name opts, te_threshold := go_queue_threshold opts,
                               te_thread := True, te_worker := WCheck\<rparr>))"

definition gt_Start :: "thread_executor \<Rightarrow> (te_error, thread_executor) outcome" where
  "gt_Start s =
     (let (old, new) = atomic_exchange (te_state s) kStart; s = s\<lparr>te_state := new\<rparr> in
      if old \<noteq> kInit then (Some TeNotInit, s) else (None, s))"

definition gt_Shutdown :: "thread_executor \<Rightarrow> thread_executor" where
  "gt_Shutdown s =
     (let (old, new) = atomic_exchange (te_state s) kShutdown; s = s\<lparr>te_state := new\<rparr> in
      if old = kShutdown then s else s\<lparr>te_stoppers := te_stoppers s @ [AtNotify]\<rparr>)"

definition st_Initialize :: "string \<Rightarrow> gt_node option \<Rightarrow> thread_executor \<Rightarrow> (te_error, thread_executor) outcome" where
  "st_Initialize name options_node s =
     (let (old, new) = atomic_exchange (te_state s) kInit; s = s\<lparr>te_state := new\<rparr> in
      if old \<noteq> kPreInit then (Some TeInitializedTwice, s)
      else
        case (case options_node of None \<Rightarrow> Some (te_options s) | Some node \<Rightarrow> gt_decode node gt_default_options) of
          None \<Rightarrow> (Some TeBadOptions, s\<lparr>te_name := name\<rparr>)
        | Some opts \<Rightarrow> (None, s\<lparr>te_options := opts, te_name := name, te_threshold := go_queue_threshold opts,
                               te_thread := True, te_worker := WCheck\<rparr>))"

definition st_Start :: "thread_executor \<Rightarrow> (te_error, thread_executor) outcome" where
  "st_Start s =
     (let (old, new) = atomic_exchange (te_state s) kStart; s = s\<lparr>te_state := new\<rparr> in
      if old \<noteq> kInit then (Some TeNotInit, s) else (None, s))"

definition st_Shutdown :: "thread_executor \<Rightarrow> thread_executor" where
  "st_Shutdown s =
     (let (old, new) = atomic_exchange (te_state s) kShutdown; s = s\<lparr>te_state := new\<rparr> in
      if old = kShutdown then s else s\<lparr>te_stoppers := te_stoppers s @ [AtNotify]\<rparr>)"

definition notify_one :: "thread_executor \<Rightarrow> thread_executor" where
  "notify_one s = (if te_worker s = WSleep then s\<lparr>te_worker := WTest\<rparr> else s)"

fun Shutdown_next :: "nat \<Rightarrow> thread_executor \<Rightarrow> thread_executor option" where
  "Shutdown_next i s =
     (if i \<ge> length (te_stoppers s) then None
      else case te_stoppers s ! i of
        AtNotify \<Rightarrow> Some ((notify_one s)\<lparr>te_stoppers := (te_stoppers s)[i := AtJoin]\<rparr>)
      | AtJoin \<Rightarrow>
          if te_thread s \<and> te_worker s \<noteq> WExit then None
          else Some (s\<lparr>te_thread := False, te_stoppers := (te_stoppers s)[i := Returned]\<rparr>)
      | Returned \<Rightarrow> None)"

interpretation gt: lifecycle te_state gt_Initialize gt_Start gt_Shutdown
  by unfold_locales
    (auto simp: gt_Initialize_def gt_Start_def gt_Shutdown_def atomic_exchange_def Let_def split: if_splits option.splits)

interpretation st: lifecycle te_state "st_Initialize name" st_Start st_Shutdown for name
  by unfold_locales
    (auto simp: st_Initialize_def st_Start_def st_Shutdown_def atomic_exchange_def Let_def split: if_splits option.splits)

section \<open>Execute\<close>

definition te_finish :: "nat \<Rightarrow> te_event list \<Rightarrow> thread_executor \<Rightarrow> thread_executor" where
  "te_finish p es s = s\<lparr>te_producers := (te_producers s)(p := None), te_log := te_log s @ es\<rparr>"

definition Execute_check :: "nat \<Rightarrow> task_no \<Rightarrow> thread_executor \<Rightarrow> thread_executor" where
  "Execute_check p t s =
     (if te_state s \<noteq> kInit \<and> te_state s \<noteq> kStart then te_finish p [Refused t] s
      else s\<lparr>te_producers := (te_producers s)(p \<mapsto> Checked t)\<rparr>)"

text \<open>The increment yields the new count, on which the tests are made.\<close>

definition Execute_count :: "nat \<Rightarrow> task_no \<Rightarrow> thread_executor \<Rightarrow> thread_executor" where
  "Execute_count p t s =
     (let cur_queue_task_num = te_num s + 1; s = s\<lparr>te_num := cur_queue_task_num\<rparr> in
      if go_alarm_interval_ms (te_options s) \<ge> 0 \<and> cur_queue_task_num > te_threshold s
      then s\<lparr>te_producers := (te_producers s)(p \<mapsto> Over t)\<rparr>
      else s\<lparr>te_producers := (te_producers s)(p \<mapsto> Counted t)\<rparr>)"

definition Execute_reject :: "nat \<Rightarrow> task_no \<Rightarrow> thread_executor \<Rightarrow> thread_executor" where
  "Execute_reject p t s = te_finish p [Rejected t] (s\<lparr>te_num := te_num s - 1\<rparr>)"

definition Execute_enqueue :: "nat \<Rightarrow> task_no \<Rightarrow> thread_executor \<Rightarrow> thread_executor" where
  "Execute_enqueue p t s = te_finish p [Queued t] (notify_one (s\<lparr>te_queue := te_queue s @ [t]\<rparr>))"

section \<open>The worker\<close>

text \<open>The outcome of a task is the oracle's: \<open>ok\<close> is false when the task throws.\<close>

definition run_task :: "bool \<Rightarrow> task_no \<Rightarrow> thread_executor \<Rightarrow> thread_executor" where
  "run_task ok t s =
     (if ok then s\<lparr>te_num := te_num s - 1, te_log := te_log s @ [Ran t]\<rparr>
      else s\<lparr>te_log := te_log s @ [Threw t]\<rparr>)"

fun worker_step :: "bool \<Rightarrow> thread_executor \<Rightarrow> thread_executor option" where
  "worker_step ok s =
     (case te_worker s of
        WNone \<Rightarrow> None
      | WCheck \<Rightarrow> Some (s\<lparr>te_worker := (if te_state s \<noteq> kShutdown then WTest else WDrain)\<rparr>)
      | WTest \<Rightarrow>
          if te_queue s \<noteq> [] \<or> te_state s = kShutdown
          then Some (s\<lparr>te_queue := [], te_worker := WRun (te_queue s)\<rparr>) else Some (s\<lparr>te_worker := WSleep\<rparr>)
      | WSleep \<Rightarrow> None
      | WRun [] \<Rightarrow> Some (s\<lparr>te_worker := WCheck\<rparr>)
      | WRun (t # ts) \<Rightarrow> Some ((run_task ok t s)\<lparr>te_worker := WRun ts\<rparr>)
      | WDrain \<Rightarrow>
          (case te_queue s of
             [] \<Rightarrow> Some (s\<lparr>te_worker := WExit\<rparr>)
           | t # q \<Rightarrow> Some ((run_task ok t s)\<lparr>te_queue := q\<rparr>))
      | WExit \<Rightarrow> None)"

datatype te_act = Exec nat task_no | Go nat | Work bool | Spurious | DoStart | DoShutdown | Stop nat

text \<open>\<open>n\<close> bounds the number of the producer threads. A sleeping worker may also wake for no reason.\<close>

fun te_step :: "nat \<Rightarrow> te_act \<Rightarrow> thread_executor \<Rightarrow> thread_executor option" where
  "te_step n (Exec p t) s = (if p < n \<and> te_producers s p = None then Some (Execute_check p t s) else None)"
| "te_step n (Go p) s =
     (case te_producers s p of
        None \<Rightarrow> None
      | Some (Checked t) \<Rightarrow> Some (Execute_count p t s)
      | Some (Counted t) \<Rightarrow> Some (Execute_enqueue p t s)
      | Some (Over t) \<Rightarrow> Some (Execute_reject p t s))"
| "te_step n (Work ok) s = worker_step ok s"
| "te_step n DoStart s = Some (snd (gt_Start s))"
| "te_step n DoShutdown s = Some (gt_Shutdown s)"
| "te_step n Spurious s = (if te_worker s = WSleep then Some (s\<lparr>te_worker := WTest\<rparr>) else None)"
| "te_step n (Stop i) s = Shutdown_next i s"

fun te_run :: "nat \<Rightarrow> te_act list \<Rightarrow> thread_executor \<Rightarrow> thread_executor option" where
  "te_run n [] s = Some s"
| "te_run n (a # as) s = Option.bind (te_step n a s) (te_run n as)"

inductive te_reach :: "nat \<Rightarrow> thread_executor \<Rightarrow> thread_executor \<Rightarrow> bool" for n s0 where
  te_refl: "te_reach n s0 s0"
| te_next: "te_reach n s0 s \<Longrightarrow> te_step n a s = Some s' \<Longrightarrow> te_reach n s0 s'"

lemma te_run_reach: "te_reach n s0 s \<Longrightarrow> te_run n as s = Some s' \<Longrightarrow> te_reach n s0 s'"
  by (induction as arbitrary: s) (auto simp: bind_eq_Some_conv simp del: te_step.simps intro: te_next)

section \<open>The invariant\<close>

fun is_counted :: "producer option \<Rightarrow> bool" where
  "is_counted (Some (Counted t)) = True"
| "is_counted _ = False"

fun is_over :: "producer option \<Rightarrow> bool" where
  "is_over (Some (Over t)) = True"
| "is_over _ = False"

definition how_many :: "(producer option \<Rightarrow> bool) \<Rightarrow> nat \<Rightarrow> (nat \<Rightarrow> producer option) \<Rightarrow> nat" where
  "how_many P n m = (\<Sum>p<n. if P (m p) then 1 else 0)"

fun in_hand :: "worker \<Rightarrow> task_no list" where
  "in_hand (WRun ts) = ts"
| "in_hand _ = []"

fun queued_of :: "te_event list \<Rightarrow> task_no list" where
  "queued_of [] = []"
| "queued_of (e # es) = (case e of Queued t \<Rightarrow> t # queued_of es | _ \<Rightarrow> queued_of es)"

fun finished_of :: "te_event list \<Rightarrow> task_no list" where
  "finished_of [] = []"
| "finished_of (e # es) = (case e of Ran t \<Rightarrow> t # finished_of es | Threw t \<Rightarrow> t # finished_of es | _ \<Rightarrow> finished_of es)"

fun threw_of :: "te_event list \<Rightarrow> nat" where
  "threw_of [] = 0"
| "threw_of (e # es) = (case e of Threw t \<Rightarrow> Suc (threw_of es) | _ \<Rightarrow> threw_of es)"

lemma logs_append [simp]:
  "queued_of (xs @ ys) = queued_of xs @ queued_of ys"
  "finished_of (xs @ ys) = finished_of xs @ finished_of ys"
  "threw_of (xs @ ys) = threw_of xs + threw_of ys"
  by (induction xs) (auto split: te_event.splits)

text \<open>The tasks that occupy the queue's capacity.\<close>

definition load :: "nat \<Rightarrow> thread_executor \<Rightarrow> nat" where
  "load n s = length (te_queue s) + length (in_hand (te_worker s)) + how_many is_counted n (te_producers s) + threw_of (te_log s)"

definition te_inv :: "nat \<Rightarrow> thread_executor \<Rightarrow> bool" where
  "te_inv n s \<longleftrightarrow>
     (\<forall>p. te_producers s p \<noteq> None \<longrightarrow> p < n) \<and>
     te_num s = of_nat (load n s + how_many is_over n (te_producers s)) \<and>
     queued_of (te_log s) = finished_of (te_log s) @ in_hand (te_worker s) @ te_queue s \<and>
     (go_alarm_interval_ms (te_options s) \<ge> 0 \<longrightarrow> load n s \<le> unat (te_threshold s))"

lemma how_many_update:
  assumes "p < n"
  shows "how_many P n (m(p := x)) + (if P (m p) then 1 else 0) = how_many P n m + (if P x then 1 else 0)"
proof -
  let ?f = "\<lambda>m q. if P (m q) then 1 else (0::nat)"
  have "sum (?f m) {..<n} = ?f m p + sum (?f m) ({..<n} - {p})" for m using assms by (simp add: sum.remove)
  moreover have "sum (?f (m(p := x))) ({..<n} - {p}) = sum (?f m) ({..<n} - {p})"
    by (rule sum.cong) auto
  ultimately show ?thesis by (simp add: how_many_def)
qed

lemma how_many_less:
  assumes "p < n" "\<not> P (m p)"
  shows "how_many P n m < n"
proof -
  have "how_many P n m \<le> (\<Sum>q<n. if q = p then 0 else 1)"
    unfolding how_many_def using assms(2) by (intro sum_mono) auto
  also have "\<dots> = n - 1" using assms(1) by (simp add: sum.remove [of _ p])
  finally show ?thesis using assms(1) by simp
qed

lemma worker_step_inv [inv_intros]:
  assumes inv: "te_inv n s" and step: "worker_step ok s = Some s'"
  shows "te_inv n s'"
proof -
  have num: "te_num s = of_nat (load n s + how_many is_over n (te_producers s))"
    and fifo: "queued_of (te_log s) = finished_of (te_log s) @ in_hand (te_worker s) @ te_queue s"
    using inv by (simp_all add: te_inv_def)
  have dec: "te_num s - 1 = of_nat m" if "load n s + how_many is_over n (te_producers s) = Suc m" for m
    using num that by simp
  show ?thesis
  proof (cases "te_worker s")
    case (WRun ts)
    show ?thesis
    proof (cases ts)
      case Nil
      then show ?thesis using inv step WRun by (auto simp: te_inv_def load_def)
    next
      case (Cons t ts')
      then have "load n s = Suc (length (te_queue s) + length ts' + how_many is_counted n (te_producers s) + threw_of (te_log s))"
        by (simp add: load_def WRun)
      then show ?thesis using inv step WRun Cons dec
        by (auto simp: te_inv_def load_def run_task_def split: if_splits)
    qed
  next
    case WDrain
    show ?thesis
    proof (cases "te_queue s")
      case Nil
      then show ?thesis using inv step WDrain by (auto simp: te_inv_def load_def)
    next
      case (Cons t q)
      then have "load n s = Suc (length q + how_many is_counted n (te_producers s) + threw_of (te_log s))"
        by (simp add: load_def WDrain)
      then show ?thesis using inv step WDrain Cons dec
        by (auto simp: te_inv_def load_def run_task_def split: if_splits)
    qed
  qed (use inv step in \<open>auto simp: te_inv_def load_def split: if_splits\<close>)
qed

lemma gt_state_only:
  "snd (gt_Start s) = s\<lparr>te_state := kStart\<rparr>"
  "gt_Shutdown s = s\<lparr>te_state := kShutdown, te_stoppers := te_stoppers s @ (if te_state s = kShutdown then [] else [AtNotify])\<rparr>"
  by (simp_all add: gt_Start_def gt_Shutdown_def atomic_exchange_def Let_def)

lemma notify_one_frame [simp]:
  "te_queue (notify_one s) = te_queue s" "te_log (notify_one s) = te_log s" "te_num (notify_one s) = te_num s"
  "te_state (notify_one s) = te_state s" "te_producers (notify_one s) = te_producers s" "te_options (notify_one s) = te_options s"
  "te_threshold (notify_one s) = te_threshold s" "te_thread (notify_one s) = te_thread s" "te_stoppers (notify_one s) = te_stoppers s"
  "in_hand (te_worker (notify_one s)) = in_hand (te_worker s)" "te_worker (notify_one s) \<noteq> WSleep"
  "te_worker (notify_one s) = WExit \<longleftrightarrow> te_worker s = WExit" "te_worker (notify_one s) = WNone \<longleftrightarrow> te_worker s = WNone"
  by (simp_all add: notify_one_def)

lemma Shutdown_next_cases:
  assumes "Shutdown_next i s = Some s'"
  obtains (Notify) "i < length (te_stoppers s)" "te_stoppers s ! i = AtNotify"
      "s' = (notify_one s)\<lparr>te_stoppers := (te_stoppers s)[i := AtJoin]\<rparr>"
  | (Join) "i < length (te_stoppers s)" "te_stoppers s ! i = AtJoin" "\<not> te_thread s \<or> te_worker s = WExit"
      "s' = s\<lparr>te_thread := False, te_stoppers := (te_stoppers s)[i := Returned]\<rparr>"
  using assms by (auto split: if_splits stopper.splits)

declare Shutdown_next.simps [simp del]

lemma te_step_inv [inv_intros]:
  assumes inv: "te_inv n s" and room: "n + unat (te_threshold s) < 2 ^ 32" and step: "te_step n a s = Some s'"
  shows "te_inv n s'"
proof (cases a)
  case (Exec p t)
  then show ?thesis using inv step how_many_update [of p n is_counted "te_producers s" "Some (Checked t)"]
      how_many_update [of p n is_over "te_producers s" "Some (Checked t)"] how_many_update [of p n is_counted "te_producers s" None]
      how_many_update [of p n is_over "te_producers s" None]
    by (auto simp: te_inv_def Execute_check_def te_finish_def load_def split: if_splits)
next
  case (Go p)
  obtain pr where pr: "te_producers s p = Some pr" using step Go by (auto split: option.splits)
  then have p: "p < n" using inv by (simp add: te_inv_def)
  note up = how_many_update [OF p, of _ "te_producers s"]
  show ?thesis
  proof (cases pr)
    case (Checked t)
    let ?s = "s\<lparr>te_num := te_num s + 1\<rparr>"
    have s': "s' = Execute_count p t s" using step Go pr Checked by simp
    show ?thesis
    proof (cases "go_alarm_interval_ms (te_options s) \<ge> 0 \<and> te_num s + 1 > te_threshold s")
      case True
      then have "s' = ?s\<lparr>te_producers := (te_producers s)(p \<mapsto> Over t)\<rparr>" by (simp add: s' Execute_count_def Let_def)
      then show ?thesis using inv up [of is_counted "Some (Over t)"] up [of is_over "Some (Over t)"] p pr Checked
        by (auto simp: te_inv_def load_def)
    next
      case False
      then have e: "s' = ?s\<lparr>te_producers := (te_producers s)(p \<mapsto> Counted t)\<rparr>"
        unfolding s' Execute_count_def Let_def by auto
      have "load n s + 1 \<le> unat (te_threshold s)" if "go_alarm_interval_ms (te_options s) \<ge> 0"
      proof -
        have l: "load n s \<le> unat (te_threshold s)" using inv that by (simp add: te_inv_def)
        have "how_many is_over n (te_producers s) < n" using how_many_less [of p n is_over "te_producers s"] p pr Checked by simp
        then have small: "load n s + how_many is_over n (te_producers s) + 1 < 2 ^ 32" using l room by linarith
        have "te_num s + 1 = of_nat (load n s + how_many is_over n (te_producers s) + 1)" using inv by (simp add: te_inv_def)
        then have "unat (te_num s + 1) = load n s + how_many is_over n (te_producers s) + 1"
          using small by (simp only: unat_of_nat len_of_numeral_defs) (simp add: take_bit_eq_mod)
        then show ?thesis using False that by (simp add: word_less_nat_alt)
      qed
      then show ?thesis using inv up [of is_counted "Some (Counted t)"] up [of is_over "Some (Counted t)"] p pr Checked
        by (auto simp: e te_inv_def load_def)
    qed
  next
    case (Counted t)
    then have "s' = Execute_enqueue p t s" using step Go pr by simp
    moreover have "how_many is_counted n (te_producers s) = Suc (how_many is_counted n ((te_producers s)(p := None)))"
      "how_many is_over n ((te_producers s)(p := None)) = how_many is_over n (te_producers s)"
      using up [of is_counted None] up [of is_over None] pr Counted by simp_all
    ultimately show ?thesis using inv by (auto simp: Execute_enqueue_def te_finish_def te_inv_def load_def)
  next
    case (Over t)
    then have s': "s' = Execute_reject p t s" using step Go pr by simp
    have o: "how_many is_over n (te_producers s) = Suc (how_many is_over n ((te_producers s)(p := None)))"
      and c: "how_many is_counted n ((te_producers s)(p := None)) = how_many is_counted n (te_producers s)"
      using up [of is_over None] up [of is_counted None] pr Over by simp_all
    have "te_num s - 1 = of_nat (load n s + how_many is_over n ((te_producers s)(p := None)))"
      using inv o by (simp add: te_inv_def)
    then show ?thesis using inv c by (auto simp: s' Execute_reject_def te_finish_def te_inv_def load_def)
  qed
next
  case (Work ok)
  then show ?thesis using inv step worker_step_inv by simp
next
  case (Stop i)
  then have "Shutdown_next i s = Some s'" using step by simp
  then show ?thesis by (cases rule: Shutdown_next_cases) (use inv in \<open>auto simp: te_inv_def load_def\<close>)
qed (use inv step in \<open>auto simp: te_inv_def load_def gt_state_only split: if_splits\<close>)

lemma te_step_config:
  "te_step n a s = Some s' \<Longrightarrow> te_threshold s' = te_threshold s \<and> te_options s' = te_options s"
  by (cases a) (auto elim!: Shutdown_next_cases simp: gt_state_only Execute_check_def Execute_count_def Execute_reject_def Execute_enqueue_def
      te_finish_def run_task_def Let_def split: option.splits producer.splits worker.splits list.splits if_splits)

lemma te_reach_inv:
  assumes "te_reach n s0 s" "te_inv n s0" "n + unat (te_threshold s0) < 2 ^ 32"
  shows "te_inv n s" "te_threshold s = te_threshold s0" "te_options s = te_options s0"
  using assms
proof (induction rule: te_reach.induct)
  case (te_next s a s')
  { case 1 then show ?case using te_next te_step_inv [of n s a s'] by simp }
  { case 2 then show ?case using te_next te_step_config by metis }
  { case 3 then show ?case using te_next te_step_config by metis }
qed simp_all

lemma initialized_inv:
  "gt_Initialize node new_thread_executor = (None, s) \<Longrightarrow> te_inv n s"
  by (auto simp: gt_Initialize_def new_thread_executor_def atomic_exchange_def Let_def te_inv_def load_def how_many_def
      split: option.splits)

text \<open>
  C34. However up to \<open>n\<close> producers, the worker and the life cycle interleave (\<open>n\<close> plus the threshold
  below \<open>2 ^ 32\<close>), the tasks the worker has finished, those in its hand and those in the queue are,
  in this order, the tasks queued: every task runs at most once and in the order of queueing. The
  counter is exactly the number of tasks in the queue, in the worker's hand and counted by producers that
  have yet to queue them, of tasks that threw, and of producers that have yet to take their
  increment back. With the alarm switched on the tasks queued, in hand or thrown never exceed the threshold.
\<close>

theorem executor_fifo_bounded:
  assumes "gt_Initialize node new_thread_executor = (None, s0)" "te_reach n s0 s"
    and "n + unat (te_threshold s0) < 2 ^ 32"
  shows "queued_of (te_log s) = finished_of (te_log s) @ in_hand (te_worker s) @ te_queue s \<and>
    te_num s = of_nat (load n s + how_many is_over n (te_producers s)) \<and>
    (go_alarm_interval_ms (te_options s) \<ge> 0 \<longrightarrow>
      length (te_queue s) + length (in_hand (te_worker s)) + threw_of (te_log s) \<le> unat (te_threshold s))"
proof -
  have "te_inv n s" using te_reach_inv [OF assms(2) initialized_inv [OF assms(1)] assms(3)] by blast
  then show ?thesis by (auto simp: te_inv_def load_def)
qed

definition small_node :: gt_node where
  "small_node = \<lparr>gn_is_map = True, gn_name = Absent, gn_thread_sched_policy = Absent, gn_thread_bind_cpu = Absent,
     gn_queue_threshold = Holds 2, gn_alarm_interval_ms = Absent\<rparr>"

definition small_executor :: thread_executor where
  "small_executor = snd (gt_Initialize (Some small_node) new_thread_executor)"

lemma small_executor_simps:
  "gt_Initialize (Some small_node) new_thread_executor = (None, small_executor)"
  "te_threshold small_executor = 2" "te_num small_executor = 0" "te_queue small_executor = []"
  "te_worker small_executor = WCheck" "te_producers small_executor = (\<lambda>_. None)" "te_log small_executor = []"
  "te_state small_executor = kInit" "te_thread small_executor" "te_stoppers small_executor = []" "go_alarm_interval_ms (te_options small_executor) = 1000"
  by (simp_all add: small_executor_def gt_Initialize_def new_thread_executor_def atomic_exchange_def Let_def
      gt_decode_def gt_default_options_def small_node_def)

lemmas te_evals = notify_one_def Shutdown_next.simps Execute_check_def Execute_count_def Execute_reject_def Execute_enqueue_def te_finish_def
  run_task_def Let_def gt_state_only small_executor_simps(2-)

text \<open>Two producers and the worker, with the task that runs first being queued first.\<close>

theorem executor_fifo_bounded_witness:
  "\<exists>s. te_run 2 [Exec 0 7, Exec 1 8, Go 1, Go 0, Go 1, Go 0, Work True, Work True, Work True] small_executor = Some s \<and>
    finished_of (te_log s) = [8] \<and> in_hand (te_worker s) @ te_queue s = [7] \<and> queued_of (te_log s) = [8, 7]"
proof -
  let ?as = "[Exec 0 7, Exec 1 8, Go 1, Go 0, Go 1, Go 0, Work True, Work True, Work True]"
  obtain s where s: "te_run 2 ?as small_executor = Some s"
    and r: "finished_of (te_log s) = [8]" "in_hand (te_worker s) @ te_queue s = [7]"
    by (simp add: te_evals)
  have "te_reach 2 small_executor s" by (rule te_run_reach [OF te_refl s])
  then show ?thesis using executor_fifo_bounded [OF small_executor_simps(1)] s r by (simp add: small_executor_simps(2))
qed

text \<open>
  C36. A task that throws is never taken off the count. Once as many tasks have thrown as the
  threshold allows, the executor queues no task any more, whatever happens.
\<close>

theorem throwing_tasks_exhaust_executor:
  assumes "gt_Initialize node new_thread_executor = (None, s0)" "te_reach n s0 s"
    and "n + unat (te_threshold s0) < 2 ^ 32" "go_alarm_interval_ms (te_options s0) \<ge> 0"
    and "threw_of (te_log s) = unat (te_threshold s0)" "te_reach n s s'"
  shows "queued_of (te_log s') = queued_of (te_log s)"
proof -
  note r = te_reach_inv [OF assms(2) initialized_inv [OF assms(1)] assms(3)]
  have full: "te_inv n t \<Longrightarrow> te_threshold t = te_threshold s0 \<Longrightarrow> te_options t = te_options s0 \<Longrightarrow>
      threw_of (te_log t) \<ge> unat (te_threshold s0) \<Longrightarrow> how_many is_counted n (te_producers t) = 0" for t
    using assms(4) by (auto simp: te_inv_def load_def)
  have "te_inv n s' \<and> te_threshold s' = te_threshold s0 \<and> te_options s' = te_options s0 \<and>
      threw_of (te_log s') \<ge> unat (te_threshold s0) \<and> queued_of (te_log s') = queued_of (te_log s)"
    using assms(6)
  proof (induction rule: te_reach.induct)
    case te_refl
    then show ?case using r assms(5) by simp
  next
    case (te_next t a t')
    note IH = te_next.IH
    have inv: "te_inv n t'" using te_step_inv [of n t a t'] te_next IH assms(3) by simp
    have more: "threw_of (te_log t') \<ge> threw_of (te_log t)"
      using te_next.hyps(2) by (cases a) (auto elim!: Shutdown_next_cases simp: gt_state_only Execute_check_def Execute_count_def Execute_reject_def
          Execute_enqueue_def te_finish_def run_task_def Let_def split: option.splits producer.splits worker.splits list.splits if_splits)
    have no: "te_producers t p \<noteq> Some (Counted x)" for p x
    proof
      assume p: "te_producers t p = Some (Counted x)"
      then have "p < n" using IH by (auto simp: te_inv_def)
      then have "how_many is_counted n (te_producers t) \<ge> 1"
        using p unfolding how_many_def by (subst sum.remove [of _ p]) auto
      then show False using full [of t] IH by simp
    qed
    have "queued_of (te_log t') = queued_of (te_log t)"
      using te_next.hyps(2) no by (cases a) (auto elim!: Shutdown_next_cases simp: gt_state_only Execute_check_def Execute_count_def Execute_reject_def
          te_finish_def run_task_def Let_def split: option.splits producer.splits worker.splits list.splits if_splits)
    then show ?case using IH inv more te_step_config [OF te_next.hyps(2)] by auto
  qed
  then show ?thesis by blast
qed

theorem throwing_tasks_exhaust_executor_witness:
  "\<exists>s s'. te_run 1 [Exec 0 7, Go 0, Go 0, Exec 0 8, Go 0, Go 0, Work True, Work True, Work False, Work False] small_executor = Some s \<and>
    te_run 1 [Exec 0 9, Go 0, Go 0] s = Some s' \<and> queued_of (te_log s') = queued_of (te_log s)"
proof -
  let ?as = "[Exec 0 7, Go 0, Go 0, Exec 0 8, Go 0, Go 0, Work True, Work True, Work False, Work False]"
  obtain s where s: "te_run 1 ?as small_executor = Some s" and t: "threw_of (te_log s) = 2"
    and "\<exists>s'. te_run 1 [Exec 0 9, Go 0, Go 0] s = Some s'"
    by (simp add: te_evals)
  then obtain s' where s': "te_run 1 [Exec 0 9, Go 0, Go 0] s = Some s'" by blast
  have "te_reach 1 small_executor s" "te_reach 1 s s'" by (rule te_run_reach [OF te_refl s], rule te_run_reach [OF te_refl s'])
  then have "queued_of (te_log s') = queued_of (te_log s)"
    using throwing_tasks_exhaust_executor [OF small_executor_simps(1), of 1 s s'] t by (simp add: small_executor_simps)
  then show ?thesis using s s' by blast
qed

section \<open>Shutdown\<close>

text \<open>
  No wake-up is lost: a worker that sleeps has an empty queue, and once the state is \<open>Shutdown\<close>
  some caller of \<open>Shutdown\<close> has still to notify it. Nobody returns from the join before
  the worker has left its function.
\<close>

definition wake_inv :: "nat \<Rightarrow> thread_executor \<Rightarrow> bool" where
  "wake_inv n s \<longleftrightarrow>
     (\<forall>p. te_producers s p \<noteq> None \<longrightarrow> p < n) \<and>
     queued_of (te_log s) = finished_of (te_log s) @ in_hand (te_worker s) @ te_queue s \<and>
     te_worker s \<noteq> WNone \<and>
     (te_worker s = WSleep \<longrightarrow> te_queue s = [] \<and> (te_state s = kShutdown \<longrightarrow> AtNotify \<in> set (te_stoppers s))) \<and>
     (\<not> te_thread s \<longrightarrow> te_worker s = WExit) \<and>
     (Returned \<in> set (te_stoppers s) \<longrightarrow> \<not> te_thread s)"

lemma initialized_wake: "gt_Initialize node new_thread_executor = (None, s) \<Longrightarrow> wake_inv n s"
  by (auto simp: gt_Initialize_def new_thread_executor_def atomic_exchange_def Let_def wake_inv_def split: option.splits)

lemma worker_step_wake:
  "wake_inv n s \<Longrightarrow> worker_step ok s = Some s' \<Longrightarrow> wake_inv n s'"
  by (auto simp: wake_inv_def run_task_def split: worker.splits list.splits if_splits)

lemma producer_step_wake:
  "wake_inv n s \<Longrightarrow> te_step n (Go p) s = Some s' \<Longrightarrow> wake_inv n s'"
  by (auto simp: wake_inv_def Execute_count_def Execute_reject_def Execute_enqueue_def te_finish_def Let_def
      split: option.splits producer.splits if_splits)

lemma stopper_step_wake:
  assumes "wake_inv n s" "Shutdown_next i s = Some s'"
  shows "wake_inv n s'"
  using assms(2)
proof (cases rule: Shutdown_next_cases)
  case Notify
  then show ?thesis using assms(1) set_update_subset_insert [of "te_stoppers s" i AtJoin] by (auto simp: wake_inv_def)
next
  case Join
  have "AtNotify \<in> set ((te_stoppers s)[i := Returned])" if "AtNotify \<in> set (te_stoppers s)"
    using that Join(1,2) by (metis in_set_conv_nth length_list_update nth_list_update_neq stopper.distinct(1))
  then show ?thesis using assms(1) Join by (auto simp: wake_inv_def)
qed

lemma te_step_wake [inv_intros]:
  assumes inv: "wake_inv n s" and step: "te_step n a s = Some s'"
  shows "wake_inv n s'"
proof (cases a)
  case (Go p)
  then show ?thesis using producer_step_wake [OF inv] step by simp
next
  case (Work ok)
  then show ?thesis using worker_step_wake [OF inv] step by simp
next
  case (Stop i)
  then show ?thesis using stopper_step_wake [OF inv] step by simp
qed (use inv step in \<open>auto simp: wake_inv_def gt_state_only Execute_check_def te_finish_def split: if_splits\<close>)

lemma te_reach_wake: "te_reach n s0 s \<Longrightarrow> wake_inv n s0 \<Longrightarrow> wake_inv n s"
  by (induction rule: te_reach.induct) (auto intro: te_step_wake)

text \<open>
  What remains to be done once nothing new is called: the steps of worker, callers of
  \<open>Shutdown\<close> and producers under way, with every producer counted with the work its task makes.
\<close>

fun closing :: "te_act \<Rightarrow> bool" where
  "closing (Work ok) = True"
| "closing (Go p) = True"
| "closing (Stop i) = True"
| "closing Spurious = True"
| "closing (Exec p t) = False"
| "closing DoStart = False"
| "closing DoShutdown = False"

fun worker_todo :: "worker \<Rightarrow> nat \<Rightarrow> nat" where
  "worker_todo WNone q = 0"
| "worker_todo WExit q = 0"
| "worker_todo WDrain q = q + 1"
| "worker_todo WCheck q = q + 2"
| "worker_todo (WRun ts) q = length ts + q + 3"
| "worker_todo WTest q = q + 4"
| "worker_todo WSleep q = q + 5"

fun producer_todo :: "producer option \<Rightarrow> nat" where
  "producer_todo None = 0"
| "producer_todo (Some (Over t)) = 1"
| "producer_todo (Some (Counted t)) = 2"
| "producer_todo (Some (Checked t)) = 3"

fun stopper_todo :: "stopper \<Rightarrow> nat" where
  "stopper_todo AtNotify = 2"
| "stopper_todo AtJoin = 1"
| "stopper_todo Returned = 0"

definition todo :: "nat \<Rightarrow> thread_executor \<Rightarrow> nat" where
  "todo n s = worker_todo (te_worker s) (length (te_queue s)) + (\<Sum>p<n. producer_todo (te_producers s p)) +
     sum_list (map stopper_todo (te_stoppers s))"

lemma worker_todo_more: "worker_todo w (Suc q) \<le> Suc (worker_todo w q)"
  by (cases w) simp_all

lemma worker_todo_notified: "worker_todo (te_worker (notify_one s)) q \<le> worker_todo (te_worker s) q"
  by (simp add: notify_one_def)

lemma todo_bound: "todo n s \<le> length (in_hand (te_worker s)) + length (te_queue s) + 5 + 3 * n + 2 * length (te_stoppers s)"
proof -
  have "worker_todo (te_worker s) (length (te_queue s)) \<le> length (in_hand (te_worker s)) + length (te_queue s) + 5"
    by (cases "te_worker s") simp_all
  moreover have "producer_todo x \<le> 3" for x by (cases x rule: producer_todo.cases) simp_all
  then have "(\<Sum>p<n. producer_todo (te_producers s p)) \<le> of_nat (card {..<n}) * 3" by (intro sum_bounded_above) blast
  moreover have "sum_list (map stopper_todo xs) \<le> 2 * length xs" for xs
  proof (induction xs)
    case (Cons x xs)
    then show ?case by (cases x) simp_all
  qed simp
  ultimately show ?thesis unfolding todo_def by (simp add: add_mono_thms_linordered_semiring(1) mult.commute)
qed

lemma producers_todo_update:
  assumes "p < (n::nat)"
  shows "(\<Sum>q<n. producer_todo ((m(p := x)) q)) + producer_todo (m p) = (\<Sum>q<n. producer_todo (m q)) + producer_todo x"
proof -
  have "sum (\<lambda>q. producer_todo (m' q)) {..<n} = producer_todo (m' p) + sum (\<lambda>q. producer_todo (m' q)) ({..<n} - {p})" for m'
    using assms by (intro sum.remove) auto
  moreover have "sum (\<lambda>q. producer_todo ((m(p := x)) q)) ({..<n} - {p}) = sum (\<lambda>q. producer_todo (m q)) ({..<n} - {p})"
    by (rule sum.cong) auto
  ultimately show ?thesis by simp
qed

lemma stoppers_todo_update:
  "i < length xs \<Longrightarrow> sum_list (map stopper_todo (xs[i := x])) + stopper_todo (xs ! i) = sum_list (map stopper_todo xs) + stopper_todo x"
  by (induction xs arbitrary: i) (auto split: nat.splits)

lemma worker_step_todo:
  "te_state s = kShutdown \<Longrightarrow> worker_step ok s = Some s' \<Longrightarrow> todo n s' < todo n s"
  by (auto simp: todo_def run_task_def split: worker.splits list.splits if_splits)

lemma producer_step_todo:
  assumes "te_step n (Go p) s = Some s'" "p < n"
  shows "todo n s' < todo n s"
proof -
  obtain pr where pr: "te_producers s p = Some pr" using assms(1) by (auto split: option.splits)
  note up = producers_todo_update [OF assms(2), of "te_producers s"]
  show ?thesis
  proof (cases pr)
    case (Checked t)
    then show ?thesis using assms(1) pr up [of "Some (Over t)"] up [of "Some (Counted t)"]
      by (auto simp: todo_def Execute_count_def Let_def)
  next
    case (Counted t)
    have "worker_todo (te_worker (notify_one (s\<lparr>te_queue := te_queue s @ [t]\<rparr>))) (Suc (length (te_queue s)))
        \<le> Suc (worker_todo (te_worker s) (length (te_queue s)))"
      using worker_todo_notified [of "s\<lparr>te_queue := te_queue s @ [t]\<rparr>"] worker_todo_more le_trans by fastforce
    then show ?thesis using assms(1) pr up [of None] Counted by (auto simp: todo_def Execute_enqueue_def te_finish_def)
  next
    case (Over t)
    then show ?thesis using assms(1) pr up [of None] by (auto simp: todo_def Execute_reject_def te_finish_def)
  qed
qed

lemma stopper_step_todo:
  assumes "Shutdown_next i s = Some s'"
  shows "todo n s' < todo n s"
  using assms
proof (cases rule: Shutdown_next_cases)
  case Notify
  then show ?thesis using stoppers_todo_update [OF Notify(1), of AtJoin] worker_todo_notified [of s "length (te_queue s)"]
    by (simp add: todo_def)
next
  case Join
  then show ?thesis using stoppers_todo_update [OF Join(1), of Returned] by (simp add: todo_def)
qed

text \<open>The tasks of the moment of \<open>Shutdown\<close> are finished before the worker is.\<close>

definition drains :: "task_no list \<Rightarrow> thread_executor \<Rightarrow> bool" where
  "drains ts s \<longleftrightarrow>
     (\<exists>more. finished_of (te_log s) @ in_hand (te_worker s) @ te_queue s = ts @ more) \<and>
     (te_worker s = WExit \<longrightarrow> (\<exists>more. finished_of (te_log s) = ts @ more))"

lemma worker_step_drains: "drains ts s \<Longrightarrow> worker_step ok s = Some s' \<Longrightarrow> drains ts s'"
  by (auto simp: drains_def run_task_def split: worker.splits list.splits if_splits)

lemma producer_step_drains: "drains ts s \<Longrightarrow> te_step n (Go p) s = Some s' \<Longrightarrow> drains ts s'"
  by (auto simp: drains_def Execute_count_def Execute_reject_def Execute_enqueue_def te_finish_def Let_def
      split: option.splits producer.splits if_splits) (metis append.assoc)+

lemma stopper_step_drains: "drains ts s \<Longrightarrow> Shutdown_next i s = Some s' \<Longrightarrow> drains ts s'"
  by (auto simp: drains_def elim!: Shutdown_next_cases)

lemma closing_step:
  assumes "closing a" "te_step n a s = Some s'" "wake_inv n s" "te_state s = kShutdown" "drains ts s"
  shows "wake_inv n s' \<and> te_state s' = kShutdown \<and> drains ts s' \<and> todo n s' < todo n s \<and>
    length (te_stoppers s') = length (te_stoppers s)"
proof (cases a)
  case (Work ok)
  then have w: "worker_step ok s = Some s'" using assms(2) by simp
  then have "te_state s' = te_state s \<and> te_stoppers s' = te_stoppers s"
    by (auto simp: run_task_def split: worker.splits list.splits if_splits)
  then show ?thesis using worker_step_wake [OF assms(3) w] worker_step_drains [OF assms(5) w] worker_step_todo [OF assms(4) w]
      assms(4) by simp
next
  case (Go p)
  then have g: "te_step n (Go p) s = Some s'" using assms(2) by simp
  then have "p < n" using assms(3) by (auto simp: wake_inv_def split: option.splits)
  moreover have "te_state s' = te_state s \<and> te_stoppers s' = te_stoppers s"
    using g by (auto simp: Execute_count_def Execute_reject_def Execute_enqueue_def te_finish_def Let_def
        split: option.splits producer.splits)
  ultimately show ?thesis
    using producer_step_wake [OF assms(3) g] producer_step_drains [OF assms(5) g] producer_step_todo [OF g] assms(4) by simp
next
  case (Stop i)
  then have t: "Shutdown_next i s = Some s'" using assms(2) by simp
  then have "te_state s' = te_state s \<and> length (te_stoppers s') = length (te_stoppers s)"
    by (auto elim!: Shutdown_next_cases)
  then show ?thesis using stopper_step_wake [OF assms(3) t] stopper_step_drains [OF assms(5) t] stopper_step_todo [OF t]
      assms(4) by simp
next
  case Spurious
  then show ?thesis using assms(2-5) by (auto simp: wake_inv_def drains_def todo_def split: if_splits)
qed (use assms(1) in simp_all)

lemma closing_run:
  assumes "\<forall>a \<in> set acts. closing a" "te_run n acts s = Some s'" "wake_inv n s" "te_state s = kShutdown" "drains ts s"
  shows "wake_inv n s' \<and> te_state s' = kShutdown \<and> drains ts s' \<and> length acts + todo n s' \<le> todo n s \<and>
    length (te_stoppers s') = length (te_stoppers s)"
  using assms
proof (induction acts arbitrary: s)
  case (Cons a acts)
  then obtain s1 where s1: "te_step n a s = Some s1" "te_run n acts s1 = Some s'"
    by (auto simp: bind_eq_Some_conv simp del: te_step.simps)
  from Cons.prems have "closing a" by simp
  from closing_step [OF this s1(1) Cons.prems(3-5)] Cons.IH [OF _ s1(2)] Cons.prems(1) show ?case by fastforce
qed simp

lemma closing_stuck:
  assumes "wake_inv n s" "te_state s = kShutdown" "\<forall>a. closing a \<longrightarrow> te_step n a s = None"
  shows "te_worker s = WExit \<and> te_producers s p = None \<and> set (te_stoppers s) \<subseteq> {Returned}"
proof -
  have stop: "te_stoppers s ! i = Returned \<or> te_stoppers s ! i = AtJoin \<and> te_worker s \<noteq> WExit" if "i < length (te_stoppers s)" for i
    using assms(3) [rule_format, of "Stop i"] that by (auto simp: Shutdown_next.simps split: stopper.splits if_splits)
  have "te_worker s \<noteq> WSleep" using assms(1,2) stop by (fastforce simp: wake_inv_def in_set_conv_nth)
  moreover have "worker_step True s = None" using assms(3) [rule_format, of "Work True"] by simp
  ultimately have exit: "te_worker s = WExit"
    using assms(1) by (auto simp: wake_inv_def split: worker.splits list.splits if_splits)
  moreover have "te_producers s p = None" using assms(3) [rule_format, of "Go p"] by (auto split: option.splits producer.splits)
  moreover have "set (te_stoppers s) \<subseteq> {Returned}" using stop exit by (fastforce simp: in_set_conv_nth)
  ultimately show ?thesis by blast
qed




text \<open>
  A producer that has passed the state check queues its task even after the worker has
  finished; such a task is never run, and neither is any other one queued behind it.
\<close>

theorem queued_after_exit_never_runs:
  assumes "te_worker s = WExit" "te_reach n s s'"
  shows "finished_of (te_log s') = finished_of (te_log s) \<and> (\<exists>q. te_queue s' = te_queue s @ q) \<and> te_worker s' = WExit"
  using assms(2)
proof (induction rule: te_reach.induct)
  case (te_next t a t')
  then have "te_worker t = WExit" by blast
  then have "te_worker t' = WExit \<and> finished_of (te_log t') = finished_of (te_log t) \<and> (\<exists>q. te_queue t' = te_queue t @ q)"
    using te_next.hyps(2)
    by (cases a) (auto elim!: Shutdown_next_cases simp: gt_state_only Execute_check_def Execute_count_def Execute_reject_def Execute_enqueue_def
        te_finish_def Let_def split: option.splits producer.splits if_splits)
  then show ?case using te_next.IH by auto
qed (simp add: assms(1))

theorem queued_after_exit_never_runs_witness:
  "\<exists>s s'. te_run 1 [Exec 0 7, DoShutdown, Work True, Work True] small_executor = Some s \<and>
    te_run 1 [Go 0, Go 0] s = Some s' \<and> queued_of (te_log s') = [7] \<and> finished_of (te_log s') = []"
proof -
  obtain s where s: "te_run 1 [Exec 0 7, DoShutdown, Work True, Work True] small_executor = Some s"
    and w: "te_worker s = WExit" "finished_of (te_log s) = []"
    and "\<exists>s'. te_run 1 [Go 0, Go 0] s = Some s' \<and> queued_of (te_log s') = [7]"
    by (simp add: te_evals)
  then obtain s' where s': "te_run 1 [Go 0, Go 0] s = Some s'" "queued_of (te_log s') = [7]" by blast
  show ?thesis using queued_after_exit_never_runs [OF w(1) te_run_reach [OF te_refl s'(1)]] w(2) s s' by auto
qed

text \<open>
  The guards write the state even when they throw: \<open>Start\<close> on an executor that was shut down
  throws, and leaves a state in which \<open>Execute\<close> admits tasks again although the worker is gone.
\<close>

lemma failed_start_reopens:
  assumes "te_state s = kShutdown"
  shows "\<exists>s'. gt_Start s = (Some TeNotInit, s') \<and> te_producers (Execute_check p t s') p = Some (Checked t)"
  using assms by (simp add: gt_Start_def atomic_exchange_def Let_def Execute_check_def)

end
