(* ===== verification/ExecutorManager.thy ===== *)
theory ExecutorManager
  imports TimeWheel ThreadExecutor
begin

text \<open>
  \<open>executor_manager.cc\<close>: generating the executors of the configuration by name and type,
  handing them out, starting them and shutting them down. The simple thread executor and the
  time wheel are those of their own theories; the executors over asio and tbb, which live on
  libraries outside the repository, and those that plugins register are a parameter with the
  operations of \<open>ExecutorBase\<close>.
\<close>

section \<open>Executors\<close>

datatype 'x executor = SimpleThread thread_executor | TimeWheelEx time_wheel_executor | External 'x

text \<open>
  What the manager calls of an external executor, the constructors of the asio and tbb
  executors, and how each of the modelled executors reads its YAML node.
\<close>

record ('x, 'n) executor_env =
  xo_Type :: "'x \<Rightarrow> string"
  xo_Name :: "'x \<Rightarrow> string"
  xo_ThreadSafe :: "'x \<Rightarrow> bool"
  xo_SupportTimerSchedule :: "'x \<Rightarrow> bool"
  xo_Initialize :: "string \<Rightarrow> 'n option \<Rightarrow> 'x \<Rightarrow> bool \<times> 'x"
  xo_Start :: "'x \<Rightarrow> bool \<times> 'x"
  xo_Shutdown :: "'x \<Rightarrow> 'x"
  xo_asio_thread :: 'x
  xo_asio_strand :: "(string \<Rightarrow> 'x option) \<Rightarrow> 'x"
  xo_tbb_thread :: 'x
  xn_simple :: "'n \<Rightarrow> gt_node"
  xn_wheel :: "'n \<Rightarrow> tw_node"

datatype em_error =
    EmDuplicate string | EmInvalidType string | EmGenFailed string | EmInitializedTwice | EmNotInit | EmNotPreInit
  | EmExecutor string

fun ex_Type :: "('x, 'n) executor_env \<Rightarrow> 'x executor \<Rightarrow> string" where
  "ex_Type env (SimpleThread e) = ''simple_thread''"
| "ex_Type env (TimeWheelEx e) = ''time_wheel''"
| "ex_Type env (External x) = xo_Type env x"

fun ex_Name :: "('x, 'n) executor_env \<Rightarrow> 'x executor \<Rightarrow> string" where
  "ex_Name env (SimpleThread e) = te_name e"
| "ex_Name env (TimeWheelEx e) = tw_name e"
| "ex_Name env (External x) = xo_Name env x"

fun ex_ThreadSafe :: "('x, 'n) executor_env \<Rightarrow> 'x executor \<Rightarrow> bool" where
  "ex_ThreadSafe env (SimpleThread e) = True"
| "ex_ThreadSafe env (TimeWheelEx e) = tw_thread_safe e"
| "ex_ThreadSafe env (External x) = xo_ThreadSafe env x"

fun ex_SupportTimerSchedule :: "('x, 'n) executor_env \<Rightarrow> 'x executor \<Rightarrow> bool" where
  "ex_SupportTimerSchedule env (SimpleThread e) = False"
| "ex_SupportTimerSchedule env (TimeWheelEx e) = True"
| "ex_SupportTimerSchedule env (External x) = xo_SupportTimerSchedule env x"

fun ex_Initialize :: "('x, 'n) executor_env \<Rightarrow> string \<Rightarrow> 'n option \<Rightarrow> 'x executor \<Rightarrow> bool \<times> 'x executor" where
  "ex_Initialize env n node (SimpleThread e) =
     (case st_Initialize n (map_option (xn_simple env) node) e of (err, e') \<Rightarrow> (err = None, SimpleThread e'))"
| "ex_Initialize env n node (TimeWheelEx e) =
     (case TimeWheel.Initialize (n, map_option (xn_wheel env) node) e of (err, e') \<Rightarrow> (err = None, TimeWheelEx e'))"
| "ex_Initialize env n node (External x) =
     (case xo_Initialize env n node x of (ok, x') \<Rightarrow> (ok, External x'))"

fun ex_Start :: "('x, 'n) executor_env \<Rightarrow> 'x executor \<Rightarrow> bool \<times> 'x executor" where
  "ex_Start env (SimpleThread e) = (case st_Start e of (err, e') \<Rightarrow> (err = None, SimpleThread e'))"
| "ex_Start env (TimeWheelEx e) = (case TimeWheel.Start e of (err, e') \<Rightarrow> (err = None, TimeWheelEx e'))"
| "ex_Start env (External x) = (case xo_Start env x of (ok, x') \<Rightarrow> (ok, External x'))"

fun ex_Shutdown :: "('x, 'n) executor_env \<Rightarrow> 'x executor \<Rightarrow> 'x executor" where
  "ex_Shutdown env (SimpleThread e) = SimpleThread (st_Shutdown e)"
| "ex_Shutdown env (TimeWheelEx e) = TimeWheelEx (TimeWheel.Shutdown e)"
| "ex_Shutdown env (External x) = External (xo_Shutdown env x)"

section \<open>State\<close>

text \<open>
  A generator sees, of the manager, the executors created so far: \<open>GetExecutor\<close>, which the time
  wheel is handed, and the lookup of asio contexts, which the strand is handed. The closures read
  the manager when \<open>Initialize\<close> of the new executor calls them, right after they are made.
  A proxy points to its executor, here by its place in \<open>executor_vec_\<close>; every executor manager
  proxy refers to the one map, so it is known by its module's name alone.
\<close>

type_synonym 'x executor_gen = "(string \<Rightarrow> executor_ref option) \<Rightarrow> (string \<Rightarrow> 'x option) \<Rightarrow> 'x executor option"

record 'n executor_options =
  eo_name :: string
  eo_type :: string
  eo_options :: "'n option"

record ('x, 'n) executor_manager =
  em_options :: "'n executor_options list"
  em_state :: lc_state
  em_gen_func_map :: "string \<Rightarrow> 'x executor_gen option"
  em_used_names :: "string set"
  em_vec :: "'x executor list"
  em_proxy_map :: "string \<Rightarrow> nat option"
  em_manager_proxies :: "string list"

definition new_executor_manager :: "('x, 'n) executor_manager" where
  "new_executor_manager =
     \<lparr>em_options = [], em_state = kPreInit, em_gen_func_map = (\<lambda>_. None), em_used_names = {}, em_vec = [],
      em_proxy_map = (\<lambda>_. None), em_manager_proxies = []\<rparr>"

text \<open>
  The \<open>executors\<close> sequence of the YAML node, when it has one; its entries are appended to the
  options, and a missing \<open>options\<close> is the null node.
\<close>

definition em_decode :: "(string \<times> string \<times> 'n option) list option \<Rightarrow> 'n executor_options list \<Rightarrow> 'n executor_options list" where
  "em_decode node rhs =
     (case node of
        None \<Rightarrow> rhs
      | Some es \<Rightarrow> rhs @ map (\<lambda>(n, t, opts). \<lparr>eo_name = n, eo_type = t, eo_options = opts\<rparr>) es)"

definition em_encode :: "'n executor_options list \<Rightarrow> (string \<times> string \<times> 'n option) list option" where
  "em_encode rhs = Some (map (\<lambda>e. (eo_name e, eo_type e, eo_options e)) rhs)"

definition SetUsedExecutorName :: "string \<Rightarrow> ('x, 'n) executor_manager \<Rightarrow> ('x, 'n) executor_manager" where
  "SetUsedExecutorName n s = s\<lparr>em_used_names := insert n (em_used_names s)\<rparr>"

section \<open>Looking executors up\<close>

definition executor_ref_of :: "('x, 'n) executor_env \<Rightarrow> 'x executor \<Rightarrow> executor_ref" where
  "executor_ref_of env e = \<lparr>er_name = ex_Name env e, er_thread_safe = ex_ThreadSafe env e\<rparr>"

definition em_GetExecutor :: "('x, 'n) executor_env \<Rightarrow> ('x, 'n) executor_manager \<Rightarrow> string \<Rightarrow> executor_ref option" where
  "em_GetExecutor env s n =
     (case em_proxy_map s n of None \<Rightarrow> None | Some i \<Rightarrow> Some (executor_ref_of env (em_vec s ! i)))"

definition GetAsioHandle :: "('x, 'n) executor_env \<Rightarrow> ('x, 'n) executor_manager \<Rightarrow> string \<Rightarrow> 'x option" where
  "GetAsioHandle env s n =
     (case find (\<lambda>e. ex_Type env e = ''asio_thread'' \<and> ex_Name env e = n) (em_vec s) of
        Some (External x) \<Rightarrow> Some x
      | _ \<Rightarrow> None)"

definition em_GetExecutorManagerProxy ::
  "string \<Rightarrow> ('x, 'n) executor_manager \<Rightarrow> (em_error, ('x, 'n) executor_manager) outcome" where
  "em_GetExecutorManagerProxy module_name s =
     (if em_state s \<noteq> kInit then (Some EmNotInit, s)
      else if module_name \<in> set (em_manager_proxies s) then (None, s)
      else (None, s\<lparr>em_manager_proxies := em_manager_proxies s @ [module_name]\<rparr>))"

section \<open>Generating the executors\<close>

definition RegisterExecutorGenFunc ::
  "string \<Rightarrow> 'x executor_gen \<Rightarrow> ('x, 'n) executor_manager \<Rightarrow> (em_error, ('x, 'n) executor_manager) outcome" where
  "RegisterExecutorGenFunc t f s =
     (if em_state s \<noteq> kPreInit then (Some EmNotPreInit, s)
      else (None, s\<lparr>em_gen_func_map := (case em_gen_func_map s t of
                      None \<Rightarrow> (em_gen_func_map s)(t \<mapsto> f) | Some _ \<Rightarrow> em_gen_func_map s)\<rparr>))"

definition asio_thread_gen :: "('x, 'n) executor_env \<Rightarrow> 'x executor_gen" where
  "asio_thread_gen env = (\<lambda>get_executor get_asio. Some (External (xo_asio_thread env)))"

definition asio_strand_gen :: "('x, 'n) executor_env \<Rightarrow> 'x executor_gen" where
  "asio_strand_gen env = (\<lambda>get_executor get_asio. Some (External (xo_asio_strand env get_asio)))"

definition tbb_thread_gen :: "('x, 'n) executor_env \<Rightarrow> 'x executor_gen" where
  "tbb_thread_gen env = (\<lambda>get_executor get_asio. Some (External (xo_tbb_thread env)))"

definition simple_thread_gen :: "'x executor_gen" where
  "simple_thread_gen = (\<lambda>get_executor get_asio. Some (SimpleThread new_thread_executor))"

definition time_wheel_gen :: "'x executor_gen" where
  "time_wheel_gen = (\<lambda>get_executor get_asio.
     Some (TimeWheelEx (snd (RegisterGetExecutorFunc get_executor (new_time_wheel_executor None)))))"

fun try_all :: "('s \<Rightarrow> (em_error, 's) outcome) list \<Rightarrow> 's \<Rightarrow> (em_error, 's) outcome" where
  "try_all [] s = (None, s)"
| "try_all (f # fs) s = (case f s of (Some e, s') \<Rightarrow> (Some e, s') | (None, s') \<Rightarrow> try_all fs s')"

definition RegisterBuiltins :: "('x, 'n) executor_env \<Rightarrow> ('x, 'n) executor_manager \<Rightarrow> (em_error, ('x, 'n) executor_manager) outcome" where
  "RegisterBuiltins env = try_all
     [RegisterExecutorGenFunc ''asio_thread'' (asio_thread_gen env),
      RegisterExecutorGenFunc ''asio_strand'' (asio_strand_gen env),
      RegisterExecutorGenFunc ''tbb_thread'' (tbb_thread_gen env),
      RegisterExecutorGenFunc ''simple_thread'' simple_thread_gen,
      RegisterExecutorGenFunc ''time_wheel'' time_wheel_gen]"

text \<open>The body of the loop over the options; an executor whose own \<open>Initialize\<close> throws is dropped.\<close>

definition em_generate ::
  "('x, 'n) executor_env \<Rightarrow> 'n executor_options \<Rightarrow> ('x, 'n) executor_manager \<Rightarrow> (em_error, ('x, 'n) executor_manager) outcome" where
  "em_generate env opt s =
     (if em_proxy_map s (eo_name opt) \<noteq> None \<or> eo_name opt \<in> em_used_names s then (Some (EmDuplicate (eo_name opt)), s)
      else case em_gen_func_map s (eo_type opt) of
        None \<Rightarrow> (Some (EmInvalidType (eo_type opt)), s)
      | Some gen \<Rightarrow>
          (case gen (em_GetExecutor env s) (GetAsioHandle env s) of
             None \<Rightarrow> (Some (EmGenFailed (eo_name opt)), s)
           | Some executor \<Rightarrow>
               (case ex_Initialize env (eo_name opt) (eo_options opt) executor of
                  (False, _) \<Rightarrow> (Some (EmExecutor (eo_name opt)), s)
                | (True, executor) \<Rightarrow>
                    (None, s\<lparr>em_proxy_map := (em_proxy_map s)(eo_name opt \<mapsto> length (em_vec s)),
                             em_vec := em_vec s @ [executor]\<rparr>))))"

definition em_Initialize ::
  "('x, 'n) executor_env \<Rightarrow> (string \<times> string \<times> 'n option) list option option \<Rightarrow> ('x, 'n) executor_manager \<Rightarrow>
   (em_error, ('x, 'n) executor_manager) outcome" where
  "em_Initialize env options_node s =
     (case RegisterBuiltins env s of
        (Some e, s) \<Rightarrow> (Some e, s)
      | (None, s) \<Rightarrow>
          let (old, new) = atomic_exchange (em_state s) kInit; s = s\<lparr>em_state := new\<rparr> in
          if old \<noteq> kPreInit then (Some EmInitializedTwice, s)
          else
            let s = (case options_node of None \<Rightarrow> s | Some node \<Rightarrow> s\<lparr>em_options := em_decode node []\<rparr>)
            in try_all (map (em_generate env) (em_options s)) s)"

section \<open>Start and shutdown\<close>

fun start_all :: "('x, 'n) executor_env \<Rightarrow> 'x executor list \<Rightarrow> (em_error, 'x executor list) outcome" where
  "start_all env [] = (None, [])"
| "start_all env (e # es) =
     (case ex_Start env e of
        (False, e') \<Rightarrow> (Some (EmExecutor (ex_Name env e)), e' # es)
      | (True, e') \<Rightarrow> (case start_all env es of (err, es') \<Rightarrow> (err, e' # es')))"

definition em_Start :: "('x, 'n) executor_env \<Rightarrow> ('x, 'n) executor_manager \<Rightarrow> (em_error, ('x, 'n) executor_manager) outcome" where
  "em_Start env s =
     (let (old, new) = atomic_exchange (em_state s) kStart; s = s\<lparr>em_state := new\<rparr> in
      if old \<noteq> kInit then (Some EmNotInit, s)
      else case start_all env (em_vec s) of (err, es) \<Rightarrow> (err, s\<lparr>em_vec := es\<rparr>))"

text \<open>
  \<open>Shutdown\<close> in the steps other threads can see: the proxies are destroyed, then the executors
  are shut down one after the other, then destroyed.
\<close>

definition em_clear_proxies :: "('x, 'n) executor_manager \<Rightarrow> ('x, 'n) executor_manager" where
  "em_clear_proxies s = s\<lparr>em_manager_proxies := [], em_proxy_map := (\<lambda>_. None)\<rparr>"

definition em_shutdown_nth :: "('x, 'n) executor_env \<Rightarrow> nat \<Rightarrow> ('x, 'n) executor_manager \<Rightarrow> ('x, 'n) executor_manager" where
  "em_shutdown_nth env i s = s\<lparr>em_vec := (em_vec s)[i := ex_Shutdown env (em_vec s ! i)]\<rparr>"

definition em_clear :: "('x, 'n) executor_manager \<Rightarrow> ('x, 'n) executor_manager" where
  "em_clear s = s\<lparr>em_vec := [], em_gen_func_map := (\<lambda>_. None)\<rparr>"

definition em_Shutdown :: "('x, 'n) executor_env \<Rightarrow> ('x, 'n) executor_manager \<Rightarrow> ('x, 'n) executor_manager" where
  "em_Shutdown env s =
     (let (old, new) = atomic_exchange (em_state s) kShutdown; s = s\<lparr>em_state := new\<rparr> in
      if old = kShutdown then s
      else let s = em_clear_proxies s
           in em_clear (fold (em_shutdown_nth env) [0..<length (em_vec s)] s))"

section \<open>The invariant\<close>

text \<open>
  \<open>names\<close> are the configured names in order. The proxies are exactly those of the executors made
  so far, a bound time wheel holds a handle the manager has given out, and its timer thread has
  not been started.
\<close>

definition em_inv :: "('x, 'n) executor_env \<Rightarrow> string list \<Rightarrow> ('x, 'n) executor_manager \<Rightarrow> bool" where
  "em_inv env names s \<longleftrightarrow>
     em_proxy_map s = map_of (zip names [0..<length names]) \<and> distinct names \<and>
     set names \<inter> em_used_names s = {} \<and> map (ex_Name env) (em_vec s) = names"

definition wheels_bound :: "string list \<Rightarrow> 'x executor list \<Rightarrow> bool" where
  "wheels_bound names es \<longleftrightarrow>
     (\<forall>w r. TimeWheelEx w \<in> set es \<longrightarrow> tw_bind_executor_ref w = Some r \<longrightarrow> er_name r \<in> set names)"

definition keeps_names :: "('x, 'n) executor_env \<Rightarrow> bool" where
  "keeps_names env \<longleftrightarrow> (\<forall>n node x x'. xo_Initialize env n node x = (True, x') \<longrightarrow> xo_Name env x' = n)"

lemma proxies_lookup:
  "map_of (zip names [0..<length names]) n = Some i \<Longrightarrow> i < length names \<and> names ! i = n"
  by (drule map_of_SomeD) (auto simp: in_set_zip)

lemma proxies_none: "n \<notin> set names \<Longrightarrow> map_of (zip names [0..<length names]) n = None"
  using proxies_lookup [of names n] nth_mem [of _ names] by (cases "map_of (zip names [0..<length names]) n") auto

lemma proxies_snoc:
  assumes "n \<notin> set names"
  shows "map_of (zip (names @ [n]) [0..<Suc (length names)]) = (map_of (zip names [0..<length names]))(n \<mapsto> length names)"
  using proxies_none [OF assms] by (auto simp: map_add_def fun_eq_iff proxies_none split: option.split)

lemma ex_Initialize_name:
  "keeps_names env \<Longrightarrow> ex_Initialize env n node e = (True, e') \<Longrightarrow> ex_Name env e' = n"
  by (cases e) (auto simp: keeps_names_def st_Initialize_def TimeWheel.Initialize_def setup_wheels_def atomic_exchange_def Let_def
      split: prod.splits if_splits option.splits)

lemma em_inv_nth: "em_inv env names s \<Longrightarrow> length (em_vec s) = length names \<and> (\<forall>i<length names. ex_Name env (em_vec s ! i) = names ! i)"
  by (metis em_inv_def length_map nth_map)

lemma lookup_in_dom:
  assumes "em_inv env names s" "em_GetExecutor env s n = Some r"
  shows "n \<in> set names \<and> er_name r = n"
proof -
  obtain i where i: "em_proxy_map s n = Some i" "r = executor_ref_of env (em_vec s ! i)"
    using assms(2) by (auto simp: em_GetExecutor_def split: option.splits)
  then have "i < length names" "names ! i = n" using assms(1) proxies_lookup [of names n i] by (simp_all add: em_inv_def)
  then show ?thesis using em_inv_nth [OF assms(1)] i(2) by (auto simp: executor_ref_of_def)
qed

text \<open>The generators of the manager, apart from those a plugin has registered before.\<close>

definition builtin_gens :: "('x, 'n) executor_env \<Rightarrow> string \<Rightarrow> 'x executor_gen option" where
  "builtin_gens env =
     [''asio_thread'' \<mapsto> asio_thread_gen env, ''asio_strand'' \<mapsto> asio_strand_gen env,
      ''tbb_thread'' \<mapsto> tbb_thread_gen env, ''simple_thread'' \<mapsto> simple_thread_gen, ''time_wheel'' \<mapsto> time_wheel_gen]"

lemma builtins_registered:
  assumes "em_state s = kPreInit"
  shows "RegisterBuiltins env s = (None, s\<lparr>em_gen_func_map := builtin_gens env ++ em_gen_func_map s\<rparr>)"
proof -
  have reg: "RegisterExecutorGenFunc t f s = (None, s\<lparr>em_gen_func_map := [t \<mapsto> f] ++ em_gen_func_map s\<rparr>)"
    if "em_state s = kPreInit" for t f and s :: "('x, 'n) executor_manager"
    using that by (auto simp: RegisterExecutorGenFunc_def fun_eq_iff map_add_def split: option.split intro!: arg_cong2 [where f = em_gen_func_map_update])
  show ?thesis
    by (simp add: RegisterBuiltins_def reg assms builtin_gens_def)
      (auto simp: fun_eq_iff map_add_def split: option.split intro!: arg_cong2 [where f = em_gen_func_map_update])
qed

lemma em_generate_ok:
  assumes "em_generate env opt s = (None, s')"
  obtains gen e0 e where "em_gen_func_map s (eo_type opt) = Some gen" "gen (em_GetExecutor env s) (GetAsioHandle env s) = Some e0"
    "ex_Initialize env (eo_name opt) (eo_options opt) e0 = (True, e)" "em_proxy_map s (eo_name opt) = None"
    "eo_name opt \<notin> em_used_names s"
    "s' = s\<lparr>em_proxy_map := (em_proxy_map s)(eo_name opt \<mapsto> length (em_vec s)), em_vec := em_vec s @ [e]\<rparr>"
  using assms by (auto simp: em_generate_def split: if_splits option.splits prod.splits bool.splits)

lemma em_generate_inv [inv_intros]:
  assumes "em_inv env names s" "keeps_names env" "em_generate env opt s = (None, s')"
  shows "em_inv env (names @ [eo_name opt]) s'"
proof -
  from assms(3) obtain gen e0 e where g: "ex_Initialize env (eo_name opt) (eo_options opt) e0 = (True, e)"
    "em_proxy_map s (eo_name opt) = None" "eo_name opt \<notin> em_used_names s"
    "s' = s\<lparr>em_proxy_map := (em_proxy_map s)(eo_name opt \<mapsto> length (em_vec s)), em_vec := em_vec s @ [e]\<rparr>"
    by (rule em_generate_ok)
  have new: "eo_name opt \<notin> set names" using assms(1) g(2)
    by (auto simp: em_inv_def map_of_zip_is_None)
  have len: "length (em_vec s) = length names" using em_inv_nth [OF assms(1)] by blast
  show ?thesis
    using assms(1) new g(3) len ex_Initialize_name [OF assms(2) g(1)] proxies_snoc [OF new]
    by (auto simp: g(4) em_inv_def)
qed

lemma em_generate_frame:
  "em_generate env opt s = (err, s') \<Longrightarrow>
   em_gen_func_map s' = em_gen_func_map s \<and> em_used_names s' = em_used_names s \<and> em_state s' = em_state s \<and> em_options s' = em_options s"
  by (auto simp: em_generate_def split: if_splits option.splits prod.splits bool.splits)

text \<open>Along the whole loop: the executor of every entry comes from the generator of its type.\<close>

definition made_by :: "('x, 'n) executor_env \<Rightarrow> (string \<Rightarrow> 'x executor_gen option) \<Rightarrow> 'n executor_options \<Rightarrow> 'x executor \<Rightarrow> bool" where
  "made_by env gens opt e \<longleftrightarrow>
     (\<exists>gen get_executor get_asio e0. gens (eo_type opt) = Some gen \<and> gen get_executor get_asio = Some e0 \<and>
        ex_Initialize env (eo_name opt) (eo_options opt) e0 = (True, e))"

lemma generate_all:
  assumes "em_inv env names s" "keeps_names env" "try_all (map (em_generate env) opts) s = (None, s')"
    and "list_all2 (made_by env (em_gen_func_map s)) prev (em_vec s)"
  shows "em_inv env (names @ map eo_name opts) s' \<and> em_gen_func_map s' = em_gen_func_map s \<and>
    em_used_names s' = em_used_names s \<and> em_state s' = em_state s \<and>
    list_all2 (made_by env (em_gen_func_map s)) (prev @ opts) (em_vec s')"
  using assms
proof (induction opts arbitrary: names s prev)
  case (Cons opt opts)
  obtain s1 where s1: "em_generate env opt s = (None, s1)" "try_all (map (em_generate env) opts) s1 = (None, s')"
    using Cons.prems(3) by (auto split: prod.splits option.splits)
  have f: "em_gen_func_map s1 = em_gen_func_map s" "em_used_names s1 = em_used_names s" "em_state s1 = em_state s"
    using em_generate_frame [OF s1(1)] by simp_all
  from s1(1) obtain gen e0 e where g: "em_gen_func_map s (eo_type opt) = Some gen"
    "gen (em_GetExecutor env s) (GetAsioHandle env s) = Some e0"
    "ex_Initialize env (eo_name opt) (eo_options opt) e0 = (True, e)" "em_vec s1 = em_vec s @ [e]"
    by (rule em_generate_ok) auto
  then have "made_by env (em_gen_func_map s) opt e" unfolding made_by_def by blast
  then have "list_all2 (made_by env (em_gen_func_map s)) (prev @ [opt]) (em_vec s1)"
    using Cons.prems(4) by (simp add: g(4) list_all2_appendI)
  then show ?case
    using Cons.IH [OF em_generate_inv [OF Cons.prems(1,2) s1(1)] Cons.prems(2) s1(2), of "prev @ [opt]"] f by simp
qed simp

definition em_fresh :: "('x, 'n) executor_manager \<Rightarrow> bool" where
  "em_fresh s \<longleftrightarrow> em_state s = kPreInit \<and> em_options s = [] \<and> em_vec s = [] \<and> em_proxy_map s = (\<lambda>_. None)"

lemma em_Initialize_ok:
  assumes "em_fresh s0" "keeps_names env" "em_Initialize env (Some (Some es)) s0 = (None, s)"
  shows "em_inv env (map fst es) s \<and> em_used_names s = em_used_names s0 \<and> em_state s = kInit \<and>
    list_all2 (made_by env (builtin_gens env ++ em_gen_func_map s0)) (em_decode (Some es) []) (em_vec s)"
proof -
  let ?s1 = "s0\<lparr>em_gen_func_map := builtin_gens env ++ em_gen_func_map s0, em_state := kInit, em_options := em_decode (Some es) []\<rparr>"
  have st: "em_state s0 = kPreInit" "em_vec s0 = []" "em_proxy_map s0 = (\<lambda>_. None)" using assms(1) by (simp_all add: em_fresh_def)
  have run: "try_all (map (em_generate env) (em_decode (Some es) [])) ?s1 = (None, s)"
    using assms(3) by (simp add: em_Initialize_def builtins_registered st atomic_exchange_def Let_def)
  have "em_inv env [] ?s1" by (simp add: em_inv_def st)
  from generate_all [OF this assms(2) run, of "[]"] show ?thesis
    by (simp add: st em_decode_def comp_def case_prod_beta')
qed

lemma em_Shutdown_proxies:
  assumes "em_state s \<noteq> kShutdown"
  shows "em_proxy_map (em_Shutdown env s) = (\<lambda>_. None)"
proof -
  have "em_proxy_map (fold (em_shutdown_nth env) ks t) = em_proxy_map t" for ks t
    by (induction ks arbitrary: t) (simp_all add: em_shutdown_nth_def)
  then show ?thesis using assms
    by (simp add: em_Shutdown_def atomic_exchange_def Let_def em_clear_def em_clear_proxies_def)
qed

text \<open>
  When the manager initialises, the configured names are distinct and avoid the reserved
  ones, every one of them yields its own executor, made by the generator of its type and in the
  configured order, no other name yields one, and every type is known; after a shutdown no name
  yields an executor any more.
\<close>

theorem configured_executors_resolve:
  assumes "em_fresh s0" "keeps_names env" "em_Initialize env (Some (Some es)) s0 = (None, s)"
  shows "distinct (map fst es) \<and> set (map fst es) \<inter> em_used_names s0 = {} \<and>
    (\<forall>i<length es. em_GetExecutor env s (fst (es ! i)) = Some (executor_ref_of env (em_vec s ! i)) \<and>
       er_name (executor_ref_of env (em_vec s ! i)) = fst (es ! i) \<and>
       made_by env (builtin_gens env ++ em_gen_func_map s0) (em_decode (Some es) [] ! i) (em_vec s ! i)) \<and>
    (\<forall>n. n \<notin> set (map fst es) \<longrightarrow> em_GetExecutor env s n = None) \<and>
    (\<forall>n. em_GetExecutor env (em_Shutdown env s) n = None)"
proof -
  note ok = em_Initialize_ok [OF assms]
  have inv: "em_inv env (map fst es) s" and st: "em_state s = kInit" using ok by simp_all
  have len: "length (em_vec s) = length es" and names: "\<And>i. i < length es \<Longrightarrow> ex_Name env (em_vec s ! i) = fst (es ! i)"
    using em_inv_nth [OF inv] by auto
  have find: "em_proxy_map s (fst (es ! i)) = Some i" if "i < length es" for i
    using inv that map_of_zip_nth [of "map fst es" "[0..<length es]" i] by (simp add: em_inv_def)
  have miss: "em_GetExecutor env s n = None" if "n \<notin> set (map fst es)" for n
  proof -
    have "em_proxy_map s n = None" using inv proxies_none [OF that] by (simp only: em_inv_def)
    then show ?thesis by (simp add: em_GetExecutor_def)
  qed
  have "em_GetExecutor env (em_Shutdown env s) n = None" for n
    by (simp add: em_GetExecutor_def em_Shutdown_proxies st)
  moreover have "\<forall>i<length es. made_by env (builtin_gens env ++ em_gen_func_map s0) (em_decode (Some es) [] ! i) (em_vec s ! i)"
    using ok by (auto simp: list_all2_conv_all_nth em_decode_def)
  moreover have "\<forall>i<length es. em_GetExecutor env s (fst (es ! i)) = Some (executor_ref_of env (em_vec s ! i))"
    using find by (simp add: em_GetExecutor_def)
  moreover have "\<forall>i<length es. er_name (executor_ref_of env (em_vec s ! i)) = fst (es ! i)"
    using names by (simp add: executor_ref_of_def)
  moreover have "distinct (map fst es)" "set (map fst es) \<inter> em_used_names s0 = {}"
    using inv ok by (simp_all only: em_inv_def)
  ultimately show ?thesis using miss by blast
qed

text \<open>A manager with the two executors of the repository, for the examples.\<close>

definition plain_env :: "(nat, gt_node + tw_node) executor_env" where
  "plain_env =
     \<lparr>xo_Type = (\<lambda>_. ''external''), xo_Name = (\<lambda>_. []), xo_ThreadSafe = (\<lambda>_. True), xo_SupportTimerSchedule = (\<lambda>_. False),
      xo_Initialize = (\<lambda>n node x. (False, x)), xo_Start = (\<lambda>x. (True, x)), xo_Shutdown = (\<lambda>x. x),
      xo_asio_thread = 0, xo_asio_strand = (\<lambda>_. 0), xo_tbb_thread = 0,
      xn_simple = (\<lambda>n. case n of Inl g \<Rightarrow> g | Inr _ \<Rightarrow> gt_encode gt_default_options),
      xn_wheel = (\<lambda>n. case n of Inr w \<Rightarrow> w | Inl _ \<Rightarrow> encode_options default_options)\<rparr>"

definition bound_to :: "string \<Rightarrow> tw_node" where
  "bound_to n = (encode_options default_options)\<lparr>n_bind_executor := Some n, n_wheel_size := Some [2, 2]\<rparr>"

definition two_executors :: "(string \<times> string \<times> (gt_node + tw_node) option) list" where
  "two_executors = [(''work'', ''simple_thread'', None), (''timer'', ''time_wheel'', Some (Inr (bound_to ''work'')))]"

lemma plain_env_names: "keeps_names plain_env"
  by (simp add: keeps_names_def plain_env_def)

lemma new_manager_fresh: "em_fresh (SetUsedExecutorName n new_executor_manager)"
  by (simp add: em_fresh_def SetUsedExecutorName_def new_executor_manager_def)

lemmas two_executors_evals = em_Initialize_def builtins_registered SetUsedExecutorName_def new_executor_manager_def
  atomic_exchange_def Let_def two_executors_def em_decode_def em_generate_def builtin_gens_def simple_thread_gen_def
  time_wheel_gen_def plain_env_def st_Initialize_def new_thread_executor_def RegisterGetExecutorFunc_def
  new_time_wheel_executor_def TimeWheel.Initialize_def em_GetExecutor_def bound_to_def encode_options_def decode_options_def
  or_keep_def default_options_def executor_ref_of_def map_add_def setup_wheels_def em_Start_def st_Start_def TimeWheel.Start_def

lemma two_executors_run:
  assumes "''work'' \<notin> U" "''timer'' \<notin> U"
  obtains s1 s2 w r where
    "em_Initialize plain_env (Some (Some two_executors)) (new_executor_manager\<lparr>em_used_names := U\<rparr>) = (None, s1)"
    "em_Start plain_env s1 = (None, s2)" "em_vec s2 ! 1 = TimeWheelEx w" "tw_bind_executor_ref w = Some r" "er_name r = ''work''"
  using assms by (auto simp: two_executors_evals)

lemma used_guard: "SetUsedExecutorName n new_executor_manager = new_executor_manager\<lparr>em_used_names := {n}\<rparr>"
  by (simp add: SetUsedExecutorName_def new_executor_manager_def)

theorem configured_executors_resolve_witness:
  "\<exists>s. em_GetExecutor plain_env s ''timer'' = Some (executor_ref_of plain_env (em_vec s ! 1)) \<and>
    em_GetExecutor plain_env s ''main'' = None \<and>
    em_Initialize plain_env (Some (Some two_executors)) (SetUsedExecutorName ''aimrt_guard'' new_executor_manager) = (None, s)"
proof -
  obtain s where s: "em_Initialize plain_env (Some (Some two_executors))
      (SetUsedExecutorName ''aimrt_guard'' new_executor_manager) = (None, s)"
    unfolding used_guard by (rule two_executors_run [of "{''aimrt_guard''}"]) simp_all
  note r = configured_executors_resolve [OF new_manager_fresh plain_env_names s]
  have "1 < length two_executors" "fst (two_executors ! 1) = ''timer''" "''main'' \<notin> set (map fst two_executors)"
    by (simp_all add: two_executors_def)
  then show ?thesis using r s by metis
qed

section \<open>Shutdown with a bound time wheel\<close>

lemma TimeWheel_init_bound:
  assumes "TimeWheel.Initialize (n, node) w = (None, w')" "tw_bind_executor_ref w = None"
    and "tw_get_executor_func w = Some f" "tw_bind_executor_ref w' = Some r"
  shows "f (bind_executor (tw_options w')) = Some r"
  using assms by (auto simp: TimeWheel.Initialize_def setup_wheels_def atomic_exchange_def Let_def split: if_splits option.splits)

lemma builtin_gen_wheel:
  assumes "builtin_gens env t = Some gen" "gen f g = Some (TimeWheelEx w)"
  shows "tw_get_executor_func w = Some f \<and> tw_bind_executor_ref w = None"
  using assms by (auto simp: builtin_gens_def asio_thread_gen_def asio_strand_gen_def tbb_thread_gen_def simple_thread_gen_def
      time_wheel_gen_def RegisterGetExecutorFunc_def new_time_wheel_executor_def split: if_splits)

lemma em_generate_bound:
  assumes inv: "em_inv env names s" "keeps_names env" and b: "wheels_bound names (em_vec s)"
    and g: "em_generate env opt s = (None, s')" "em_gen_func_map s = builtin_gens env"
  shows "wheels_bound (names @ [eo_name opt]) (em_vec s')"
proof -
  obtain gen e0 e where gen: "builtin_gens env (eo_type opt) = Some gen"
    "gen (em_GetExecutor env s) (GetAsioHandle env s) = Some e0"
    "ex_Initialize env (eo_name opt) (eo_options opt) e0 = (True, e)" "em_vec s' = em_vec s @ [e]"
    using g by (auto elim: em_generate_ok)
  have "er_name r \<in> set names" if e: "e = TimeWheelEx w" and r: "tw_bind_executor_ref w = Some r" for w r
  proof -
    obtain w0 where w0: "e0 = TimeWheelEx w0" "TimeWheel.Initialize (eo_name opt, map_option (xn_wheel env) (eo_options opt)) w0 = (None, w)"
      using gen(3) e by (cases e0) (auto split: prod.splits)
    have f: "tw_get_executor_func w0 = Some (em_GetExecutor env s)" "tw_bind_executor_ref w0 = None"
      using builtin_gen_wheel [OF gen(1)] gen(2) w0(1) by auto
    show ?thesis using lookup_in_dom [OF inv(1) TimeWheel_init_bound [OF w0(2) f(2,1) r]] by simp
  qed
  then show ?thesis using b by (auto simp: wheels_bound_def gen(4))
qed

lemma generate_all_bound:
  assumes "em_inv env names s" "keeps_names env" "wheels_bound names (em_vec s)"
    and "try_all (map (em_generate env) opts) s = (None, s')" "em_gen_func_map s = builtin_gens env"
  shows "wheels_bound (names @ map eo_name opts) (em_vec s')"
  using assms
proof (induction opts arbitrary: names s)
  case (Cons opt opts)
  obtain s1 where s1: "em_generate env opt s = (None, s1)" "try_all (map (em_generate env) opts) s1 = (None, s')"
    using Cons.prems(4) by (auto split: prod.splits option.splits)
  show ?case
    using Cons.IH [OF em_generate_inv [OF Cons.prems(1,2) s1(1)] Cons.prems(2) em_generate_bound [OF Cons.prems(1-3) s1(1) Cons.prems(5)] s1(2)]
      em_generate_frame [OF s1(1)] Cons.prems(5) by simp
qed simp

lemma start_all_nth:
  "start_all env es = (None, es') \<Longrightarrow> list_all2 (\<lambda>e e'. ex_Start env e = (True, e')) es es'"
  by (induction es arbitrary: es') (auto split: prod.splits bool.splits)

text \<open>
  \<open>Shutdown\<close> destroys the proxies first and shuts the executors down one by one behind that.
  A time wheel that is bound to another executor keeps the handle of a destroyed proxy while its
  timer thread is still running, and still hands tasks to it, until its own turn comes.
\<close>

theorem shutdown_leaves_dangling_handle:
  assumes "em_fresh s0" "em_gen_func_map s0 = (\<lambda>_. None)" "keeps_names env"
    and "em_Initialize env (Some (Some es)) s0 = (None, s1)" "em_Start env s1 = (None, s2)"
    and "i < length es" "em_vec s2 ! i = TimeWheelEx w" "tw_bind_executor_ref w = Some r" "k \<le> i"
  shows "let t = fold (em_shutdown_nth env) [0..<k] (em_clear_proxies (s2\<lparr>em_state := kShutdown\<rparr>)) in
    em_proxy_map s2 (er_name r) \<noteq> None \<and> em_proxy_map t (er_name r) = None \<and>
    em_vec t ! i = TimeWheelEx w \<and> tw_timer_thread w \<and>
    tw_bound_calls (TimeWheel.Execute x w) = tw_bound_calls w @ [x]"
proof -
  let ?c = "em_clear_proxies (s2\<lparr>em_state := kShutdown\<rparr>)"
  have st: "em_state s0 = kPreInit" "em_vec s0 = []" "em_proxy_map s0 = (\<lambda>_. None)" using assms(1) by (simp_all add: em_fresh_def)
  let ?s = "s0\<lparr>em_gen_func_map := builtin_gens env, em_state := kInit, em_options := em_decode (Some es) []\<rparr>"
  have run: "try_all (map (em_generate env) (em_decode (Some es) [])) ?s = (None, s1)"
    using assms(4) by (simp add: em_Initialize_def builtins_registered st atomic_exchange_def Let_def assms(2) map_add_def)
  have "em_inv env [] ?s" "wheels_bound [] (em_vec ?s)" by (simp_all add: em_inv_def st wheels_bound_def)
  then have bound: "wheels_bound (map fst es) (em_vec s1)"
    using generate_all_bound [where names = "[]", OF _ assms(3) _ run] by (simp add: em_decode_def comp_def case_prod_beta')
  have inv: "em_inv env (map fst es) s1" using em_Initialize_ok [OF assms(1,3,4)] by simp
  have s2: "start_all env (em_vec s1) = (None, em_vec s2)" "em_proxy_map s2 = em_proxy_map s1"
    using assms(5) by (auto simp: em_Start_def atomic_exchange_def Let_def split: if_splits prod.splits)
  have "list_all2 (\<lambda>e e'. ex_Start env e = (True, e')) (em_vec s1) (em_vec s2)" by (rule start_all_nth [OF s2(1)])
  then have len: "length (em_vec s2) = length es" and started: "ex_Start env (em_vec s1 ! i) = (True, TimeWheelEx w)"
    using em_inv_nth [OF inv] assms(6,7) by (auto simp: list_all2_conv_all_nth)
  obtain w1 where w1: "em_vec s1 ! i = TimeWheelEx w1" "TimeWheel.Start w1 = (None, w)"
    using started by (cases "em_vec s1 ! i") (auto split: prod.splits)
  have w: "tw_timer_thread w" "tw_bind_executor_ref w1 = Some r"
    using w1(2) assms(8) by (auto simp: TimeWheel.Start_def atomic_exchange_def Let_def split: if_splits)
  have "TimeWheelEx w1 \<in> set (em_vec s1)" using w1(1) em_inv_nth [OF inv] assms(6) by (metis length_map nth_mem)
  then have "er_name r \<in> set (map fst es)" using bound w(2) by (auto simp: wheels_bound_def)
  then have "em_proxy_map s1 (er_name r) \<noteq> None"
    using inv by (simp add: em_inv_def map_of_zip_is_None)
  moreover have "em_vec (fold (em_shutdown_nth env) [0..<j] ?c) ! i = em_vec s2 ! i \<and>
      em_proxy_map (fold (em_shutdown_nth env) [0..<j] ?c) = (\<lambda>_. None)" if "j \<le> i" for j
    using that by (induction j) (simp_all add: em_shutdown_nth_def em_clear_proxies_def)
  ultimately show ?thesis using w(1) assms(7,8,9) s2(2) by (simp add: TimeWheel.Execute_def Let_def)
qed

theorem shutdown_leaves_dangling_handle_witness:
  "\<exists>s1 s2 w r. em_Initialize plain_env (Some (Some two_executors)) (SetUsedExecutorName ''aimrt_guard'' new_executor_manager) = (None, s1) \<and>
    em_Start plain_env s1 = (None, s2) \<and> em_vec s2 ! 1 = TimeWheelEx w \<and> tw_timer_thread w \<and> er_name r = ''work'' \<and>
    tw_bind_executor_ref w = Some r \<and> em_proxy_map (em_shutdown_nth plain_env 0 (em_clear_proxies (s2\<lparr>em_state := kShutdown\<rparr>))) ''work'' = None"
proof -
  let ?s0 = "SetUsedExecutorName ''aimrt_guard'' new_executor_manager :: (nat, gt_node + tw_node) executor_manager"
  obtain s1 s2 w r where s1: "em_Initialize plain_env (Some (Some two_executors)) ?s0 = (None, s1)"
    and s2: "em_Start plain_env s1 = (None, s2)" "em_vec s2 ! 1 = TimeWheelEx w" "tw_bind_executor_ref w = Some r" "er_name r = ''work''"
    unfolding used_guard by (rule two_executors_run [of "{''aimrt_guard''}"]) simp_all
  show ?thesis
    using shutdown_leaves_dangling_handle [OF new_manager_fresh _ plain_env_names s1 s2(1) _ s2(2,3), of 1] s1 s2
    by (simp add: two_executors_def SetUsedExecutorName_def new_executor_manager_def Let_def)
qed

section \<open>The life cycle contract\<close>

lemma generate_all_state: "try_all (map (em_generate env) opts) s = (err, s') \<Longrightarrow> em_state s' = em_state s"
proof (induction opts arbitrary: s)
  case (Cons opt opts)
  obtain e1 s1 where "em_generate env opt s = (e1, s1)" by fastforce
  then show ?case using Cons em_generate_frame [of env opt s e1 s1] by (cases e1) auto
qed simp

lemma builtins_refused:
  "em_state s \<noteq> kPreInit \<Longrightarrow> RegisterBuiltins env s = (Some EmNotPreInit, s)"
  by (simp add: RegisterBuiltins_def RegisterExecutorGenFunc_def)

lemma em_Initialize_state:
  assumes "em_Initialize env node s = (err, s')"
  shows "(em_state s = kPreInit \<and> em_state s' = kInit) \<or> (err \<noteq> None \<and> s' = s)"
proof (cases "em_state s = kPreInit")
  case True
  then show ?thesis using assms
    by (auto simp: em_Initialize_def builtins_registered atomic_exchange_def Let_def dest!: generate_all_state split: option.splits)
next
  case False
  then show ?thesis using assms by (auto simp: em_Initialize_def builtins_refused)
qed

interpretation em: lifecycle em_state "em_Initialize env" "em_Start env" "em_Shutdown env"
  for env :: "('x, 'n) executor_env"
proof unfold_locales
  have frame: "em_state (fold (em_shutdown_nth env) ks t) = em_state t" for ks and t :: "('x, 'n) executor_manager"
    by (induction ks arbitrary: t) (simp_all add: em_shutdown_nth_def)
  show "em_Initialize env a s = (None, s') \<Longrightarrow> em_state s = kPreInit \<and> em_state s' = kInit" for a s s'
    using em_Initialize_state by blast
  show "em_Initialize env a s = (Some e, s') \<Longrightarrow> em_state s' \<in> {em_state s, kInit}" for a s e s'
    using em_Initialize_state by blast
  show "em_Start env s = (None, s') \<Longrightarrow> em_state s = kInit \<and> em_state s' = kStart" for s s'
    by (auto simp: em_Start_def atomic_exchange_def Let_def split: if_splits prod.splits)
  show "em_Start env s = (Some e, s') \<Longrightarrow> em_state s' \<in> {em_state s, kStart}" for s e s'
    by (auto simp: em_Start_def atomic_exchange_def Let_def split: if_splits prod.splits)
  show "em_state (em_Shutdown env s) = kShutdown" for s
    by (simp add: em_Shutdown_def atomic_exchange_def Let_def em_clear_def frame em_clear_proxies_def)
  show "em_state s = kShutdown \<Longrightarrow> em_Shutdown env s = s" for s
    by (simp add: em_Shutdown_def atomic_exchange_def Let_def)
qed

end
