(* ===== verification/Core.thy ===== *)
theory Core
  imports ExecutorManager "HOL-Library.Sublist"
begin

text \<open>
  \<open>aimrt_core.cc\<close>: the order in which the core initialises, starts and shuts down its parts, the
  hooks it runs on entering each of its states, and the two flags and the promise by which
  \<open>Start\<close>, \<open>AsyncStart\<close>, \<open>Shutdown\<close> and the destructor meet from different threads. What a
  part's operation or a hook does is a parameter; it may throw and may register further hooks.
\<close>

section \<open>States and programs\<close>

datatype part =
    Configurator | Plugin | MainThread | GuardThread | Executor | Log | Allocator | Rpc | Channel | Parameter | Modules

datatype phase = InitPhase | StartPhase | ShutdownPhase

text \<open>
  \<open>kPre InitPhase\<close> is \<open>kPreInit\<close>, \<open>kPostPart StartPhase Rpc\<close> is \<open>kPostStartRpc\<close>, and so on.
\<close>

datatype core_state = kPre phase | kPost phase | kPrePart phase part | kPostPart phase part

definition states_of :: "phase \<Rightarrow> part list \<Rightarrow> core_state list" where
  "states_of ph ps = kPre ph # concat (map (\<lambda>p. [kPrePart ph p, kPostPart ph p]) ps) @ [kPost ph]"

text \<open>The enumeration of the header, in its order.\<close>

definition core_states :: "core_state list" where
  "core_states =
     states_of InitPhase [Configurator, Plugin, MainThread, GuardThread, Executor, Log, Allocator, Rpc, Channel, Parameter, Modules] @
     states_of StartPhase [Configurator, Plugin, MainThread, GuardThread, Executor, Log, Allocator, Rpc, Channel, Parameter, Modules] @
     states_of ShutdownPhase [Modules, Parameter, Channel, Rpc, Allocator, Log, Executor, GuardThread, MainThread, Plugin, Configurator]"

datatype instr = Enter core_state | Do phase part | SetUsedNames | SetCoreLogger | ResetCoreLogger

text \<open>
  The bodies of \<open>Initialize\<close>, \<open>StartImpl\<close> and \<open>ShutdownImpl\<close>, statement by statement; handing the
  logger and the executor lookup to a part belongs to the part's operation.
\<close>

definition Initialize_prog :: "instr list" where
  "Initialize_prog =
     [Enter (kPre InitPhase),
      Enter (kPrePart InitPhase Configurator), Do InitPhase Configurator, Enter (kPostPart InitPhase Configurator),
      Enter (kPrePart InitPhase Plugin), Do InitPhase Plugin, Enter (kPostPart InitPhase Plugin),
      Enter (kPrePart InitPhase MainThread), Do InitPhase MainThread, Enter (kPostPart InitPhase MainThread),
      Enter (kPrePart InitPhase GuardThread), Do InitPhase GuardThread, Enter (kPostPart InitPhase GuardThread),
      Enter (kPrePart InitPhase Executor), SetUsedNames, Do InitPhase Executor, Enter (kPostPart InitPhase Executor),
      Enter (kPrePart InitPhase Log), Do InitPhase Log, SetCoreLogger, Enter (kPostPart InitPhase Log),
      Enter (kPrePart InitPhase Allocator), Do InitPhase Allocator, Enter (kPostPart InitPhase Allocator),
      Enter (kPrePart InitPhase Rpc), Do InitPhase Rpc, Enter (kPostPart InitPhase Rpc),
      Enter (kPrePart InitPhase Channel), Do InitPhase Channel, Enter (kPostPart InitPhase Channel),
      Enter (kPrePart InitPhase Parameter), Do InitPhase Parameter, Enter (kPostPart InitPhase Parameter),
      Enter (kPrePart InitPhase Modules), Do InitPhase Modules, Enter (kPostPart InitPhase Modules),
      Enter (kPost InitPhase)]"

definition StartImpl_prog :: "instr list" where
  "StartImpl_prog =
     [Enter (kPre StartPhase),
      Enter (kPrePart StartPhase Configurator), Do StartPhase Configurator, Enter (kPostPart StartPhase Configurator),
      Enter (kPrePart StartPhase Plugin), Do StartPhase Plugin, Enter (kPostPart StartPhase Plugin),
      Enter (kPrePart StartPhase MainThread), Do StartPhase MainThread, Enter (kPostPart StartPhase MainThread),
      Enter (kPrePart StartPhase GuardThread), Do StartPhase GuardThread, Enter (kPostPart StartPhase GuardThread),
      Enter (kPrePart StartPhase Executor), Do StartPhase Executor, Enter (kPostPart StartPhase Executor),
      Enter (kPrePart StartPhase Log), Do StartPhase Log, Enter (kPostPart StartPhase Log),
      Enter (kPrePart StartPhase Allocator), Do StartPhase Allocator, Enter (kPostPart StartPhase Allocator),
      Enter (kPrePart StartPhase Rpc), Do StartPhase Rpc, Enter (kPostPart StartPhase Rpc),
      Enter (kPrePart StartPhase Channel), Do StartPhase Channel, Enter (kPostPart StartPhase Channel),
      Enter (kPrePart StartPhase Parameter), Do StartPhase Parameter, Enter (kPostPart StartPhase Parameter),
      Enter (kPrePart StartPhase Modules), Do StartPhase Modules, Enter (kPostPart StartPhase Modules),
      Enter (kPost StartPhase)]"

definition ShutdownImpl_prog :: "instr list" where
  "ShutdownImpl_prog =
     [Enter (kPre ShutdownPhase),
      Enter (kPrePart ShutdownPhase Modules), Do ShutdownPhase Modules, Enter (kPostPart ShutdownPhase Modules),
      Enter (kPrePart ShutdownPhase Parameter), Do ShutdownPhase Parameter, Enter (kPostPart ShutdownPhase Parameter),
      Enter (kPrePart ShutdownPhase Channel), Do ShutdownPhase Channel, Enter (kPostPart ShutdownPhase Channel),
      Enter (kPrePart ShutdownPhase Rpc), Do ShutdownPhase Rpc, Enter (kPostPart ShutdownPhase Rpc),
      Enter (kPrePart ShutdownPhase Allocator), Do ShutdownPhase Allocator, Enter (kPostPart ShutdownPhase Allocator),
      Enter (kPrePart ShutdownPhase Log), ResetCoreLogger, Do ShutdownPhase Log, Enter (kPostPart ShutdownPhase Log),
      Enter (kPrePart ShutdownPhase Executor), Do ShutdownPhase Executor, Enter (kPostPart ShutdownPhase Executor),
      Enter (kPrePart ShutdownPhase GuardThread), Do ShutdownPhase GuardThread, Enter (kPostPart ShutdownPhase GuardThread),
      Enter (kPrePart ShutdownPhase MainThread), Do ShutdownPhase MainThread, Enter (kPostPart ShutdownPhase MainThread),
      Enter (kPrePart ShutdownPhase Plugin), Do ShutdownPhase Plugin, Enter (kPostPart ShutdownPhase Plugin),
      Enter (kPrePart ShutdownPhase Configurator), Do ShutdownPhase Configurator, Enter (kPostPart ShutdownPhase Configurator),
      Enter (kPost ShutdownPhase)]"

section \<open>The core\<close>

text \<open>
  \<open>ce_call\<close> is the operation of a part, \<open>ce_hook\<close> runs the hook of a number, both with the hooks
  they register; \<open>ce_used\<close> hands the names of the main and the guard thread to the executor
  manager; \<open>ce_report\<close> says whether the parts' reports can all be generated.
\<close>

type_synonym registrations = "(core_state \<times> nat) list"

record 'w core_env =
  ce_call :: "phase \<Rightarrow> part \<Rightarrow> 'w \<Rightarrow> bool \<times> 'w \<times> registrations"
  ce_hook :: "nat \<Rightarrow> 'w \<Rightarrow> bool \<times> 'w \<times> registrations"
  ce_used :: "'w \<Rightarrow> 'w"
  ce_report :: "'w \<Rightarrow> bool"

datatype core_event = Executed instr | HookRan core_state nat | PromiseSet | PromiseAlreadySet | FutureAlreadyTaken

datatype continuation = Return | ThenWait | ThenSpawn nat

datatype core_thread = Idle | Running "instr list" continuation | TakeFuture | Waiting | SettingPromise

record 'w core =
  co_state :: core_state
  co_shutdown_flag :: bool
  co_promise :: bool
  co_future_taken :: bool
  co_shutdown_impl_flag :: bool
  co_hooks :: "core_state \<Rightarrow> nat list"
  co_core_logger :: bool
  co_parts :: 'w
  co_threads :: "nat \<Rightarrow> core_thread"
  co_log :: "core_event list"

definition new_core :: "'w \<Rightarrow> 'w core" where
  "new_core w =
     \<lparr>co_state = kPre InitPhase, co_shutdown_flag = False, co_promise = False, co_future_taken = False,
      co_shutdown_impl_flag = False, co_hooks = (\<lambda>_. []), co_core_logger = False, co_parts = w,
      co_threads = (\<lambda>_. Idle), co_log = []\<rparr>"

definition RegisterHookFunc :: "core_state \<times> nat \<Rightarrow> 'w core \<Rightarrow> 'w core" where
  "RegisterHookFunc = (\<lambda>(st, h) s. s\<lparr>co_hooks := (co_hooks s)(st := co_hooks s st @ [h])\<rparr>)"

text \<open>
  The hooks of a state, in order of registration, until one throws. The vector is read before the
  loop: a hook that registers another one for the very state being entered would invalidate the
  iterators of the loop, and is not considered.
\<close>

fun run_hooks :: "'w core_env \<Rightarrow> core_state \<Rightarrow> nat list \<Rightarrow> 'w core \<Rightarrow> bool \<times> 'w core" where
  "run_hooks env st [] s = (True, s)"
| "run_hooks env st (h # hs) s =
     (case ce_hook env h (co_parts s) of
        (ok, w, regs) \<Rightarrow>
          let s = fold RegisterHookFunc regs (s\<lparr>co_parts := w, co_log := co_log s @ [HookRan st h]\<rparr>)
          in if ok then run_hooks env st hs s else (False, s))"

definition EnterState :: "'w core_env \<Rightarrow> core_state \<Rightarrow> 'w core \<Rightarrow> bool \<times> 'w core" where
  "EnterState env st s = run_hooks env st (co_hooks s st) (s\<lparr>co_state := st\<rparr>)"

fun exec_instr :: "'w core_env \<Rightarrow> instr \<Rightarrow> 'w core \<Rightarrow> bool \<times> 'w core" where
  "exec_instr env (Enter st) s = EnterState env st s"
| "exec_instr env (Do ph p) s =
     (case ce_call env ph p (co_parts s) of (ok, w, regs) \<Rightarrow> (ok, fold RegisterHookFunc regs (s\<lparr>co_parts := w\<rparr>)))"
| "exec_instr env SetUsedNames s = (True, s\<lparr>co_parts := ce_used env (co_parts s)\<rparr>)"
| "exec_instr env SetCoreLogger s = (True, s\<lparr>co_core_logger := True\<rparr>)"
| "exec_instr env ResetCoreLogger s = (True, s\<lparr>co_core_logger := False\<rparr>)"

section \<open>Threads\<close>

definition at :: "nat \<Rightarrow> core_thread \<Rightarrow> 'w core \<Rightarrow> 'w core" where
  "at i t s = s\<lparr>co_threads := (co_threads s)(i := t)\<rparr>"

definition co_note :: "core_event \<Rightarrow> 'w core \<Rightarrow> 'w core" where
  "co_note e s = s\<lparr>co_log := co_log s @ [e]\<rparr>"

text \<open>\<open>ShutdownImpl\<close> up to its first statement: the exchange of its flag.\<close>

definition ShutdownImpl_begin :: "nat \<Rightarrow> 'w core \<Rightarrow> 'w core" where
  "ShutdownImpl_begin i s =
     (if co_shutdown_impl_flag s then at i Idle s
      else at i (Running ShutdownImpl_prog Return) (s\<lparr>co_shutdown_impl_flag := True\<rparr>))"

text \<open>The check \<open>StartImpl\<close> makes through \<open>GenInitializationReport\<close>; it throws when it fails.\<close>

definition StartImpl_begin :: "'w core_env \<Rightarrow> nat \<Rightarrow> continuation \<Rightarrow> 'w core \<Rightarrow> 'w core" where
  "StartImpl_begin env i k s =
     (if co_state s = kPost InitPhase \<and> ce_report env (co_parts s) then at i (Running StartImpl_prog k) s else at i Idle s)"

text \<open>\<open>Shutdown\<close> up to the exchange of its flag.\<close>

definition Shutdown_begin :: "nat \<Rightarrow> 'w core \<Rightarrow> 'w core" where
  "Shutdown_begin i s =
     (if co_shutdown_flag s then at i Idle s else at i SettingPromise (s\<lparr>co_shutdown_flag := True\<rparr>))"

definition Shutdown_set :: "nat \<Rightarrow> 'w core \<Rightarrow> 'w core" where
  "Shutdown_set i s =
     (if co_promise s then at i Idle (co_note PromiseAlreadySet s)
      else at i Idle (co_note PromiseSet (s\<lparr>co_promise := True\<rparr>)))"

datatype core_act =
    ActInitialize nat | ActStart nat | ActAsyncStart nat nat | ActShutdown nat | ActDestroy nat | ActStep nat

text \<open>
  One step of a thread. An exception leaves the function, and with it the thread is idle again;
  the new thread \<open>j\<close> of \<open>AsyncStart\<close> begins with taking the future.
\<close>

definition thread_step :: "'w core_env \<Rightarrow> nat \<Rightarrow> 'w core \<Rightarrow> 'w core option" where
  "thread_step env i s =
     (case co_threads s i of
        Idle \<Rightarrow> None
      | Running [] Return \<Rightarrow> Some (at i Idle s)
      | Running [] ThenWait \<Rightarrow> Some (at i TakeFuture s)
      | Running [] (ThenSpawn j) \<Rightarrow>
          if j \<noteq> i \<and> co_threads s j = Idle then Some (at i Idle (at j TakeFuture s)) else None
      | Running (c # cs) k \<Rightarrow>
          (case exec_instr env c (co_note (Executed c) s) of
             (ok, s) \<Rightarrow> Some (at i (if ok then Running cs k else Idle) s))
      | TakeFuture \<Rightarrow>
          if co_future_taken s then Some (at i Idle (co_note FutureAlreadyTaken s))
          else Some (at i Waiting (s\<lparr>co_future_taken := True\<rparr>))
      | Waiting \<Rightarrow> if co_promise s then Some (ShutdownImpl_begin i s) else None
      | SettingPromise \<Rightarrow> Some (Shutdown_set i s))"

fun core_step :: "'w core_env \<Rightarrow> core_act \<Rightarrow> 'w core \<Rightarrow> 'w core option" where
  "core_step env (ActInitialize i) s = (if co_threads s i = Idle then Some (at i (Running Initialize_prog Return) s) else None)"
| "core_step env (ActStart i) s = (if co_threads s i = Idle then Some (StartImpl_begin env i ThenWait s) else None)"
| "core_step env (ActAsyncStart i j) s = (if co_threads s i = Idle then Some (StartImpl_begin env i (ThenSpawn j) s) else None)"
| "core_step env (ActShutdown i) s = (if co_threads s i = Idle then Some (Shutdown_begin i s) else None)"
| "core_step env (ActDestroy i) s = (if co_threads s i = Idle then Some (ShutdownImpl_begin i s) else None)"
| "core_step env (ActStep i) s = thread_step env i s"

fun core_run :: "'w core_env \<Rightarrow> core_act list \<Rightarrow> 'w core \<Rightarrow> 'w core option" where
  "core_run env [] s = Some s"
| "core_run env (a # as) s = Option.bind (core_step env a s) (core_run env as)"

inductive core_reach :: "'w core_env \<Rightarrow> 'w core \<Rightarrow> 'w core \<Rightarrow> bool" for env s0 where
  core_refl: "core_reach env s0 s0"
| core_next: "core_reach env s0 s \<Longrightarrow> core_step env a s = Some s' \<Longrightarrow> core_reach env s0 s'"

lemma core_run_reach: "core_reach env s0 s \<Longrightarrow> core_run env as s = Some s' \<Longrightarrow> core_reach env s0 s'"
  by (induction as arbitrary: s) (auto simp: bind_eq_Some_conv simp del: core_step.simps intro: core_next)

section \<open>Executors by name\<close>

text \<open>\<open>GetExecutor\<close> of the core: the guard thread under its name or none, else the executor manager.\<close>

definition core_GetExecutor ::
  "('x, 'n) executor_env \<Rightarrow> thread_executor \<Rightarrow> ('x, 'n) executor_manager \<Rightarrow> string \<Rightarrow> executor_ref option" where
  "core_GetExecutor env guard em n =
     (if n = [] \<or> n = te_name guard then Some \<lparr>er_name = te_name guard, er_thread_safe = True\<rparr>
      else em_GetExecutor env em n)"

section \<open>What the threads keep\<close>

fun executed :: "core_event list \<Rightarrow> instr list" where
  "executed [] = []"
| "executed (e # es) = (case e of Executed c \<Rightarrow> c # executed es | _ \<Rightarrow> executed es)"

lemma executed_append [simp]: "executed (xs @ ys) = executed xs @ executed ys"
  by (induction xs) (auto split: core_event.splits)

fun phase_of :: "instr \<Rightarrow> phase" where
  "phase_of (Enter (kPre ph)) = ph"
| "phase_of (Enter (kPost ph)) = ph"
| "phase_of (Enter (kPrePart ph p)) = ph"
| "phase_of (Enter (kPostPart ph p)) = ph"
| "phase_of (Do ph p) = ph"
| "phase_of SetUsedNames = InitPhase"
| "phase_of SetCoreLogger = InitPhase"
| "phase_of ResetCoreLogger = ShutdownPhase"

definition is_sd :: "instr \<Rightarrow> bool" where
  "is_sd c \<longleftrightarrow> phase_of c = ShutdownPhase"

lemma progs_sd [simp]:
  "filter is_sd Initialize_prog = []" "filter is_sd StartImpl_prog = []" "filter is_sd ShutdownImpl_prog = ShutdownImpl_prog"
  by (simp_all add: Initialize_prog_def StartImpl_prog_def ShutdownImpl_prog_def is_sd_def)

lemma ShutdownImpl_prog_nonempty [simp]: "ShutdownImpl_prog \<noteq> []"
  by (simp add: ShutdownImpl_prog_def)

definition sd :: "'w core \<Rightarrow> instr list" where
  "sd s = filter is_sd (executed (co_log s))"

fun sd_left :: "core_thread \<Rightarrow> instr list" where
  "sd_left (Running cs k) = filter is_sd cs"
| "sd_left _ = []"

definition sd_inv :: "'w core \<Rightarrow> bool" where
  "sd_inv s \<longleftrightarrow>
     prefix (sd s) ShutdownImpl_prog \<and>
     (\<forall>i. sd_left (co_threads s i) \<noteq> [] \<longrightarrow> sd s @ sd_left (co_threads s i) = ShutdownImpl_prog) \<and>
     (\<forall>i j. sd_left (co_threads s i) \<noteq> [] \<longrightarrow> sd_left (co_threads s j) \<noteq> [] \<longrightarrow> i = j) \<and>
     (\<not> co_shutdown_impl_flag s \<longrightarrow> sd s = [] \<and> (\<forall>i. sd_left (co_threads s i) = []))"

definition promise_inv :: "'w core \<Rightarrow> bool" where
  "promise_inv s \<longleftrightarrow>
     (\<not> co_shutdown_flag s \<longrightarrow> \<not> co_promise s \<and> (\<forall>i. co_threads s i \<noteq> SettingPromise)) \<and>
     (\<forall>i j. co_threads s i = SettingPromise \<longrightarrow> co_threads s j = SettingPromise \<longrightarrow> i = j) \<and>
     (\<forall>i. co_threads s i = SettingPromise \<longrightarrow> \<not> co_promise s) \<and>
     PromiseAlreadySet \<notin> set (co_log s)"

definition same_control :: "'w core \<Rightarrow> 'w core \<Rightarrow> bool" where
  "same_control s s' \<longleftrightarrow>
     co_threads s' = co_threads s \<and> co_shutdown_flag s' = co_shutdown_flag s \<and> co_promise s' = co_promise s \<and>
     co_future_taken s' = co_future_taken s \<and> co_shutdown_impl_flag s' = co_shutdown_impl_flag s \<and>
     executed (co_log s') = executed (co_log s) \<and> (PromiseAlreadySet \<in> set (co_log s') \<longleftrightarrow> PromiseAlreadySet \<in> set (co_log s))"

lemma same_control_trans: "same_control s t \<Longrightarrow> same_control t u \<Longrightarrow> same_control s u"
  by (simp add: same_control_def)

lemma register_same: "same_control s (fold RegisterHookFunc regs s)"
proof (induction regs arbitrary: s)
  case (Cons r regs)
  have "same_control s (RegisterHookFunc r s)" by (simp add: same_control_def RegisterHookFunc_def case_prod_beta')
  then show ?case using Cons same_control_trans by fastforce
qed (simp add: same_control_def)

lemma run_hooks_same: "run_hooks env st hs s = (ok, s') \<Longrightarrow> same_control s s'"
proof (induction hs arbitrary: s)
  case (Cons h hs)
  obtain o1 w regs where r: "ce_hook env h (co_parts s) = (o1, w, regs)" by (metis prod_cases3)
  let ?t = "s\<lparr>co_parts := w, co_log := co_log s @ [HookRan st h]\<rparr>"
  have "same_control s ?t" by (simp add: same_control_def)
  then have t: "same_control s (fold RegisterHookFunc regs ?t)" using register_same same_control_trans by blast
  show ?case
  proof (cases o1)
    case True
    then show ?thesis using Cons r same_control_trans [OF t] by simp
  next
    case False
    then show ?thesis using Cons.prems r t by simp
  qed
qed (simp add: same_control_def)

lemma exec_same: "exec_instr env c s = (ok, s') \<Longrightarrow> same_control s s'"
proof (cases c)
  case (Enter st)
  assume "exec_instr env c s = (ok, s')"
  then have "same_control (s\<lparr>co_state := st\<rparr>) s'" using Enter by (auto simp: EnterState_def dest: run_hooks_same)
  then show ?thesis by (simp add: same_control_def)
next
  case (Do ph p)
  assume "exec_instr env c s = (ok, s')"
  then obtain w regs where "s' = fold RegisterHookFunc regs (s\<lparr>co_parts := w\<rparr>)" using Do by (auto split: prod.splits)
  then have "same_control (s\<lparr>co_parts := w\<rparr>) s'" using register_same by blast
  then show ?thesis by (simp add: same_control_def)
qed (auto simp: same_control_def)

lemma at_simps [simp]:
  "co_threads (at i t s) = (co_threads s)(i := t)" "co_shutdown_flag (at i t s) = co_shutdown_flag s"
  "co_promise (at i t s) = co_promise s" "co_future_taken (at i t s) = co_future_taken s"
  "co_shutdown_impl_flag (at i t s) = co_shutdown_impl_flag s" "co_log (at i t s) = co_log s" "co_state (at i t s) = co_state s"
  "co_parts (at i t s) = co_parts s" "co_hooks (at i t s) = co_hooks s"
  by (simp_all add: at_def)

lemma note_simps [simp]:
  "co_threads (co_note e s) = co_threads s" "co_shutdown_flag (co_note e s) = co_shutdown_flag s"
  "co_promise (co_note e s) = co_promise s" "co_future_taken (co_note e s) = co_future_taken s"
  "co_shutdown_impl_flag (co_note e s) = co_shutdown_impl_flag s" "co_log (co_note e s) = co_log s @ [e]"
  "co_state (co_note e s) = co_state s" "co_parts (co_note e s) = co_parts s" "co_hooks (co_note e s) = co_hooks s"
  by (simp_all add: co_note_def)

lemma sd_inv_less:
  assumes "sd_inv s" "sd s' = sd s" "co_shutdown_impl_flag s' = co_shutdown_impl_flag s"
    and "\<And>j. sd_left (co_threads s' j) = [] \<or> sd_left (co_threads s' j) = sd_left (co_threads s j)"
  shows "sd_inv s'"
proof -
  have *: "sd_left (co_threads s' j) = sd_left (co_threads s j)" "sd_left (co_threads s j) \<noteq> []"
    if "sd_left (co_threads s' j) \<noteq> []" for j using assms(4) [of j] that by auto
  show ?thesis unfolding sd_inv_def assms(2,3)
  proof (intro conjI allI impI)
    show "prefix (sd s) ShutdownImpl_prog" using assms(1) by (simp add: sd_inv_def)
    show "sd s @ sd_left (co_threads s' j) = ShutdownImpl_prog" if "sd_left (co_threads s' j) \<noteq> []" for j
      using * [OF that] assms(1) by (simp add: sd_inv_def)
    show "i = j" if "sd_left (co_threads s' i) \<noteq> []" "sd_left (co_threads s' j) \<noteq> []" for i j
      using *(2) [OF that(1)] *(2) [OF that(2)] assms(1) by (simp add: sd_inv_def)
    assume no: "\<not> co_shutdown_impl_flag s"
    show "sd s = []" using no assms(1) by (simp add: sd_inv_def)
    show "sd_left (co_threads s' j) = []" for j
    proof -
      have "sd_left (co_threads s j) = []" using no assms(1) by (simp add: sd_inv_def)
      then show ?thesis using assms(4) [of j] by auto
    qed
  qed
qed

lemma ShutdownImpl_begin_inv [inv_intros]:
  assumes "sd_inv s" "sd_left (co_threads s i) = []"
  shows "sd_inv (ShutdownImpl_begin i s)"
proof (cases "co_shutdown_impl_flag s")
  case True
  then show ?thesis using sd_inv_less [OF assms(1), of "at i Idle s"] by (simp add: ShutdownImpl_begin_def sd_def)
next
  case False
  then have "sd s = []" "\<And>j. sd_left (co_threads s j) = []" using assms(1) by (simp_all add: sd_inv_def)
  then show ?thesis using False by (simp add: ShutdownImpl_begin_def sd_inv_def sd_def)
qed

lemma exec_step_inv:
  assumes "sd_inv s" "co_threads s i = Running (c # cs) k" "exec_instr env c (co_note (Executed c) s) = (ok, s1)"
    and "s' = at i (if ok then Running cs k else Idle) s1"
  shows "sd_inv s'"
proof -
  note same = exec_same [OF assms(3), unfolded same_control_def]
  have thr: "co_threads s' = (co_threads s)(i := if ok then Running cs k else Idle)" and fl: "co_shutdown_impl_flag s' = co_shutdown_impl_flag s"
    using same by (simp_all add: assms(4))
  have sd': "sd s' = sd s @ (if is_sd c then [c] else [])" using same by (simp add: sd_def assms(4))
  show ?thesis
  proof (cases "is_sd c")
    case False
    then show ?thesis by (intro sd_inv_less [OF assms(1)]) (simp_all add: sd' fl thr assms(2))
  next
    case True
    let ?l = "filter is_sd cs"
    have here: "sd_left (co_threads s i) = c # ?l" using True by (simp add: assms(2))
    have full: "sd s @ c # ?l = ShutdownImpl_prog" using assms(1) here by (metis list.distinct(1) sd_inv_def)
    have others: "sd_left (co_threads s j) = []" if "j \<noteq> i" for j
      using assms(1) here that by (metis list.distinct(1) sd_inv_def)
    have flag: "co_shutdown_impl_flag s" using assms(1) here by (metis list.distinct(1) sd_inv_def)
    have "prefix (sd s @ [c]) ShutdownImpl_prog" using full by (metis append.assoc append_Cons append_Nil prefixI)
    then show ?thesis using True others full flag
      by (auto simp: sd_inv_def sd' fl thr)
  qed
qed

lemma core_step_sd_inv [inv_intros]:
  assumes inv: "sd_inv s" and step: "core_step env a s = Some s'"
  shows "sd_inv s'"
proof -
  have put: "sd_inv (at i t s1)" if "sd s1 = sd s" "co_shutdown_impl_flag s1 = co_shutdown_impl_flag s" "co_threads s1 = co_threads s"
    "sd_left t = []" for i t s1
    using that by (intro sd_inv_less [OF inv]) (auto simp: sd_def)
  show ?thesis
  proof (cases a)
    case (ActStep i)
    have st: "thread_step env i s = Some s'" using step ActStep by simp
    show ?thesis
    proof (cases "co_threads s i")
      case (Running cs k)
      show ?thesis
      proof (cases cs)
        case Nil
        have two: "sd_inv (at j t (at i' t' s))" if "sd_left t = []" "sd_left t' = []" for j t i' t'
          using that by (intro sd_inv_less [OF inv]) (auto simp: sd_def)
        show ?thesis using st Running Nil
          by (cases k) (auto simp: thread_step_def split: if_splits intro: put two)
      next
        case (Cons c cs')
        obtain ok s1 where r: "exec_instr env c (co_note (Executed c) s) = (ok, s1)" by fastforce
        then have "s' = at i (if ok then Running cs' k else Idle) s1" using st Running Cons by (simp add: thread_step_def)
        then show ?thesis using exec_step_inv [OF inv _ r] Running Cons by simp
      qed
    next
      case Waiting
      then show ?thesis using st inv ShutdownImpl_begin_inv [of s i] by (auto simp: thread_step_def split: if_splits)
    qed (use st in \<open>auto simp: thread_step_def Shutdown_set_def sd_def intro!: put split: if_splits\<close>)
  next
    case (ActDestroy i)
    then show ?thesis using step inv ShutdownImpl_begin_inv [of s i] by (auto split: if_splits)
  qed (use step in \<open>auto simp: StartImpl_begin_def Shutdown_begin_def sd_def intro!: put split: if_splits\<close>)
qed

lemma core_step_promise_inv [inv_intros]:
  assumes inv: "promise_inv s" and step: "core_step env a s = Some s'"
  shows "promise_inv s'"
proof -
  have put: "promise_inv s1"
    if "co_shutdown_flag s1 = co_shutdown_flag s" "co_promise s1 = co_promise s"
      "PromiseAlreadySet \<in> set (co_log s1) \<longleftrightarrow> PromiseAlreadySet \<in> set (co_log s)"
      "\<And>j. co_threads s1 j = SettingPromise \<Longrightarrow> co_threads s j = SettingPromise" for s1
    unfolding promise_inv_def that(1-3) using inv [unfolded promise_inv_def] that(4) by blast
  show ?thesis
  proof (cases a)
    case (ActStep i)
    have st: "thread_step env i s = Some s'" using step ActStep by simp
    show ?thesis
    proof (cases "co_threads s i")
      case (Running cs k)
      show ?thesis
      proof (cases cs)
        case Nil
        show ?thesis using st Running Nil
          by (cases k) (auto simp: thread_step_def split: if_splits intro!: put)
      next
        case (Cons c cs')
        obtain ok s1 where r: "exec_instr env c (co_note (Executed c) s) = (ok, s1)" by fastforce
        then have "s' = at i (if ok then Running cs' k else Idle) s1" using st Running Cons by (simp add: thread_step_def)
        then show ?thesis using exec_same [OF r] by (intro put) (auto simp: same_control_def split: if_splits)
      qed
    next
      case SettingPromise
      then have f: "\<not> co_promise s" "co_shutdown_flag s" "PromiseAlreadySet \<notin> set (co_log s)"
        and only: "\<forall>j. j \<noteq> i \<longrightarrow> co_threads s j \<noteq> SettingPromise"
        using inv unfolding promise_inv_def by blast+
      have "s' = at i Idle (co_note PromiseSet (s\<lparr>co_promise := True\<rparr>))"
        using st SettingPromise f(1) by (simp add: thread_step_def Shutdown_set_def)
      then show ?thesis using f only by (simp add: promise_inv_def)
    qed (use st in \<open>auto simp: thread_step_def ShutdownImpl_begin_def intro!: put split: if_splits\<close>)
  next
    case (ActShutdown i)
    show ?thesis
    proof (cases "co_shutdown_flag s")
      case True
      then show ?thesis using step ActShutdown by (auto simp: Shutdown_begin_def intro!: put split: if_splits)
    next
      case False
      then have "\<not> co_promise s" "\<And>j. co_threads s j \<noteq> SettingPromise" "PromiseAlreadySet \<notin> set (co_log s)"
        using inv unfolding promise_inv_def by blast+
      then show ?thesis using step ActShutdown False by (auto simp: Shutdown_begin_def promise_inv_def split: if_splits)
    qed
  qed (use step in \<open>auto simp: StartImpl_begin_def ShutdownImpl_begin_def intro!: put split: if_splits\<close>)
qed

lemma core_reach_inv:
  assumes "core_reach env s0 s" "sd_inv s0" "promise_inv s0"
  shows "sd_inv s \<and> promise_inv s"
  using assms(1)
proof (induction rule: core_reach.induct)
  case (core_next s a s')
  then show ?case using core_step_sd_inv core_step_promise_inv by blast
qed (simp add: assms)

lemma new_core_inv: "sd_inv (new_core w)" "promise_inv (new_core w)"
  by (simp_all add: sd_inv_def promise_inv_def new_core_def sd_def)

text \<open>
  C29. Whatever threads initialise, start, shut down and destroy the core, in any interleaving and
  whichever hooks and parts throw: the shutdown statements are executed in their order and each at
  most once, so every part is shut down at most once, and the promise is never set twice.
\<close>

theorem core_shuts_down_once:
  assumes "core_reach env (new_core w) s"
  shows "prefix (filter is_sd (executed (co_log s))) ShutdownImpl_prog \<and>
    count_list (executed (co_log s)) (Do ShutdownPhase p) \<le> 1 \<and>
    PromiseAlreadySet \<notin> set (co_log s) \<and>
    (\<not> co_shutdown_flag s \<longrightarrow> \<not> co_promise s)"
proof -
  have inv: "sd_inv s" "promise_inv s" using core_reach_inv [OF assms new_core_inv] by auto
  have pre: "prefix (sd s) ShutdownImpl_prog" using inv(1) by (simp add: sd_inv_def)
  have "count_list ShutdownImpl_prog (Do ShutdownPhase p) \<le> 1" by (cases p) (simp_all add: ShutdownImpl_prog_def)
  moreover have "count_list (sd s) (Do ShutdownPhase p) \<le> count_list ShutdownImpl_prog (Do ShutdownPhase p)"
    using pre by (metis count_list_append le_add1 prefixE)
  moreover have "count_list (filter is_sd xs) (Do ShutdownPhase p) = count_list xs (Do ShutdownPhase p)" for xs
    by (induction xs) (auto simp: is_sd_def)
  ultimately have "count_list (executed (co_log s)) (Do ShutdownPhase p) \<le> 1" by (simp add: sd_def)
  then show ?thesis using pre inv(2) by (simp add: sd_def promise_inv_def)
qed

text \<open>A run in which a thread starts twice and two threads shut down; the second start is refused.\<close>

definition quiet_env :: "unit core_env" where
  "quiet_env = \<lparr>ce_call = (\<lambda>ph p w. (True, w, [])), ce_hook = (\<lambda>h w. (True, w, [])), ce_used = (\<lambda>w. w), ce_report = (\<lambda>w. True)\<rparr>"

theorem core_shuts_down_once_witness:
  "\<exists>s. core_run quiet_env [ActDestroy 0, ActStep 0, ActShutdown 1, ActDestroy 2, ActStart 3, ActStep 0, ActStep 0, ActStep 1]
      (new_core ()) = Some s \<and>
    prefix (filter is_sd (executed (co_log s))) ShutdownImpl_prog \<and>
    executed (co_log s) = [Enter (kPre ShutdownPhase), Enter (kPrePart ShutdownPhase Modules), Do ShutdownPhase Modules]"
proof -
  obtain s where s: "core_run quiet_env [ActDestroy 0, ActStep 0, ActShutdown 1, ActDestroy 2, ActStart 3, ActStep 0, ActStep 0, ActStep 1]
      (new_core ()) = Some s"
    "executed (co_log s) = [Enter (kPre ShutdownPhase), Enter (kPrePart ShutdownPhase Modules), Do ShutdownPhase Modules]"
    by (simp add: new_core_def quiet_env_def ShutdownImpl_begin_def Shutdown_begin_def StartImpl_begin_def thread_step_def
        ShutdownImpl_prog_def EnterState_def Shutdown_set_def at_def co_note_def)
  show ?thesis using s core_shuts_down_once [OF core_run_reach [OF core_refl s(1)]] by blast
qed

section \<open>A whole run\<close>

definition ce_quiet :: "'w core_env \<Rightarrow> bool" where
  "ce_quiet env \<longleftrightarrow> (\<forall>ph p w. fst (ce_call env ph p w)) \<and> (\<forall>h w. fst (ce_hook env h w)) \<and> (\<forall>w. ce_report env w)"

lemma register_state: "co_state (fold RegisterHookFunc regs s) = co_state s"
  by (induction regs arbitrary: s) (auto simp: RegisterHookFunc_def)

lemma run_hooks_state: "run_hooks env st hs s = (ok, s') \<Longrightarrow> co_state s' = co_state s"
  by (induction hs arbitrary: s) (auto simp: register_state Let_def split: prod.splits if_splits)

fun next_state :: "instr \<Rightarrow> core_state \<Rightarrow> core_state" where
  "next_state (Enter st') st = st'"
| "next_state _ st = st"

lemma exec_state: "exec_instr env c s = (ok, s') \<Longrightarrow> co_state s' = next_state c (co_state s)"
  by (cases c) (auto simp: EnterState_def register_state dest!: run_hooks_state split: prod.splits)

text \<open>
  What an instruction does to the parts and the hooks, which depends on nothing else; the result
  says whether it throws.
\<close>

type_synonym 'w core_view = "'w \<times> (core_state \<Rightarrow> nat list)"

definition view :: "'w core \<Rightarrow> 'w core_view" where
  "view s = (co_parts s, co_hooks s)"

fun view_register :: "registrations \<Rightarrow> 'w core_view \<Rightarrow> 'w core_view" where
  "view_register [] v = v"
| "view_register ((st, h) # regs) v = view_register regs (fst v, (snd v)(st := snd v st @ [h]))"

fun view_hooks :: "'w core_env \<Rightarrow> nat list \<Rightarrow> 'w core_view \<Rightarrow> bool \<times> 'w core_view" where
  "view_hooks env [] v = (True, v)"
| "view_hooks env (h # hs) v =
     (case ce_hook env h (fst v) of
        (ok, w, regs) \<Rightarrow> if ok then view_hooks env hs (view_register regs (w, snd v)) else (False, view_register regs (w, snd v)))"

fun view_instr :: "'w core_env \<Rightarrow> instr \<Rightarrow> 'w core_view \<Rightarrow> bool \<times> 'w core_view" where
  "view_instr env (Enter st) v = view_hooks env (snd v st) v"
| "view_instr env (Do ph p) v = (case ce_call env ph p (fst v) of (ok, w, regs) \<Rightarrow> (ok, view_register regs (w, snd v)))"
| "view_instr env SetUsedNames v = (True, (ce_used env (fst v), snd v))"
| "view_instr env c v = (True, v)"

fun view_all :: "'w core_env \<Rightarrow> instr list \<Rightarrow> 'w core_view \<Rightarrow> bool \<times> 'w core_view" where
  "view_all env [] v = (True, v)"
| "view_all env (c # cs) v = (case view_instr env c v of (True, v) \<Rightarrow> view_all env cs v | (False, v) \<Rightarrow> (False, v))"

lemma view_all_append:
  "view_all env (xs @ ys) v = (case view_all env xs v of (True, v) \<Rightarrow> view_all env ys v | (False, v) \<Rightarrow> (False, v))"
  by (induction xs arbitrary: v) (auto split: prod.splits bool.splits)

lemma view_fold_register: "view (fold RegisterHookFunc regs s) = view_register regs (view s)"
proof (induction regs arbitrary: s)
  case (Cons r regs)
  then show ?case by (cases r) (simp add: RegisterHookFunc_def view_def)
qed simp

lemma view_run_hooks:
  "run_hooks env st hs s = (ok, s') \<Longrightarrow> view_hooks env hs (view s) = (ok, view s')"
proof (induction hs arbitrary: s)
  case (Cons h hs)
  obtain o1 w regs where r: "ce_hook env h (co_parts s) = (o1, w, regs)" by (metis prod_cases3)
  let ?t = "fold RegisterHookFunc regs (s\<lparr>co_parts := w, co_log := co_log s @ [HookRan st h]\<rparr>)"
  have vt: "view ?t = view_register regs (w, co_hooks s)" unfolding view_fold_register by (simp add: view_def)
  have sel: "fst (view s) = co_parts s" "snd (view s) = co_hooks s" by (simp_all add: view_def)
  show ?case
  proof (cases o1)
    case True
    then have "view_hooks env hs (view ?t) = (ok, view s')" using Cons r by simp
    then show ?thesis using True r by (simp add: sel vt)
  next
    case False
    then have "s' = ?t" "\<not> ok" using Cons.prems r by auto
    then show ?thesis using False r vt by (simp add: sel)
  qed
qed simp

lemma view_exec: "exec_instr env c s = (ok, s') \<Longrightarrow> view_instr env c (view s) = (ok, view s')"
proof (cases c)
  case (Enter st)
  assume "exec_instr env c s = (ok, s')"
  then have "run_hooks env st (co_hooks s st) (s\<lparr>co_state := st\<rparr>) = (ok, s')" using Enter by (simp add: EnterState_def)
  from view_run_hooks [OF this] show ?thesis using Enter by (simp add: view_def)
next
  case (Do ph p)
  assume r: "exec_instr env c s = (ok, s')"
  obtain w regs where "ce_call env ph p (co_parts s) = (ok, w, regs)" "s' = fold RegisterHookFunc regs (s\<lparr>co_parts := w\<rparr>)"
    using r Do by (auto split: prod.splits)
  then show ?thesis using Do view_fold_register [of regs "s\<lparr>co_parts := w\<rparr>"] by (simp add: view_def)
qed (auto simp: view_def)

lemma view_hooks_ok: "ce_quiet env \<Longrightarrow> fst (view_hooks env hs v)"
proof (induction hs arbitrary: v)
  case (Cons h hs)
  obtain o1 w regs where r: "ce_hook env h (fst v) = (o1, w, regs)" by (metis prod_cases3)
  then have "o1" using Cons.prems by (metis ce_quiet_def fst_conv)
  then show ?case using Cons r by simp
qed simp

lemma view_all_ok: "ce_quiet env \<Longrightarrow> fst (view_all env cs v)"
proof (induction cs arbitrary: v)
  case (Cons c cs)
  have "fst (view_instr env c v)"
  proof (cases c)
    case (Do ph p)
    have "fst (ce_call env ph p (fst v))" using Cons.prems by (simp add: ce_quiet_def)
    then show ?thesis using Do by (auto split: prod.splits)
  qed (auto simp: view_hooks_ok Cons.prems)
  then show ?case using Cons by (auto split: prod.splits bool.splits)
qed simp

definition same_flags :: "'w core \<Rightarrow> 'w core \<Rightarrow> bool" where
  "same_flags s s' \<longleftrightarrow> co_shutdown_flag s' = co_shutdown_flag s \<and> co_promise s' = co_promise s \<and>
     co_future_taken s' = co_future_taken s \<and> co_shutdown_impl_flag s' = co_shutdown_impl_flag s"

lemma core_run_append: "core_run env (as @ bs) s = Option.bind (core_run env as s) (core_run env bs)"
  by (induction as arbitrary: s) (auto simp del: core_step.simps split: Option.bind_splits)

lemma run_prog:
  assumes "fst (view_all env cs (view s))" "co_threads s i = Running cs k"
  shows "\<exists>s'. core_run env (replicate (length cs) (ActStep i)) s = Some s' \<and> co_threads s' = (co_threads s)(i := Running [] k) \<and>
    executed (co_log s') = executed (co_log s) @ cs \<and> same_flags s s' \<and> co_state s' = fold next_state cs (co_state s) \<and>
    view_all env cs (view s) = (True, view s')"
  using assms
proof (induction cs arbitrary: s)
  case Nil
  then have "(co_threads s)(i := Running [] k) = co_threads s" by auto
  then show ?case by (simp add: same_flags_def)
next
  case (Cons c cs)
  obtain ok s1 where r': "exec_instr env c (co_note (Executed c) s) = (ok, s1)" by fastforce
  have nv: "view (co_note (Executed c) s) = view s" by (simp add: view_def)
  have v: "view_instr env c (view s) = (ok, view s1)" using view_exec [OF r'] by (simp only: nv)
  have ok: "ok" and rest: "fst (view_all env cs (view s1))" using Cons.prems(1) v by (auto split: bool.splits)
  have r: "exec_instr env c (co_note (Executed c) s) = (True, s1)" using r' ok by simp
  note same = exec_same [OF r, unfolded same_control_def]
  let ?t = "at i (Running cs k) s1"
  have step: "core_step env (ActStep i) s = Some ?t" using Cons.prems r by (simp add: thread_step_def)
  have vt: "view ?t = view s1" by (simp add: view_def)
  have thr: "co_threads ?t i = Running cs k" "fst (view_all env cs (view ?t))" using rest vt by simp_all
  from Cons.IH [OF thr(2,1)] obtain s' where s': "core_run env (replicate (length cs) (ActStep i)) ?t = Some s'"
    "co_threads s' = (co_threads ?t)(i := Running [] k)" "executed (co_log s') = executed (co_log ?t) @ cs" "same_flags ?t s'"
    "co_state s' = fold next_state cs (co_state ?t)" "view_all env cs (view ?t) = (True, view s')" by blast
  have "core_run env (replicate (length (c # cs)) (ActStep i)) s = Some s'"
    using step s'(1) by (simp del: core_step.simps)
  moreover have "co_threads s' = (co_threads s)(i := Running [] k)"
    using s'(2) same by (simp add: fun_eq_iff)
  moreover have "executed (co_log s') = executed (co_log s) @ c # cs" "same_flags s s'"
    using s'(3,4) same by (simp_all add: same_flags_def)
  moreover have "co_state s' = fold next_state (c # cs) (co_state s)"
    using s'(5) exec_state [OF r] by simp
  moreover have "view_all env (c # cs) (view s) = (True, view s')" using s'(6) v ok vt by simp
  ultimately show ?case by blast
qed

text \<open>
  One thread initialises, starts and waits; another one shuts down; the first one wakes and
  performs the shutdown.
\<close>

definition full_run :: "core_act list" where
  "full_run =
     ([ActInitialize 0] @ replicate (length Initialize_prog) (ActStep 0) @ [ActStep 0]) @
     ([ActStart 0] @ replicate (length StartImpl_prog) (ActStep 0) @ [ActStep 0, ActStep 0]) @
     [ActShutdown 1, ActStep 1] @
     ([ActStep 0] @ replicate (length ShutdownImpl_prog) (ActStep 0) @ [ActStep 0])"

text \<open>What a state of the enumeration stands for: entering it, and the part's operation behind a \<open>kPre\<close>.\<close>

fun around :: "core_state \<Rightarrow> instr list" where
  "around (kPrePart ph p) = [Enter (kPrePart ph p), Do ph p]"
| "around st = [Enter st]"

definition core_work :: "instr \<Rightarrow> bool" where
  "core_work c \<longleftrightarrow> c \<notin> {SetUsedNames, SetCoreLogger, ResetCoreLogger}"

lemma progs_work:
  "filter core_work (Initialize_prog @ StartImpl_prog @ ShutdownImpl_prog) = concat (map around core_states)"
  by (simp add: core_work_def Initialize_prog_def StartImpl_prog_def ShutdownImpl_prog_def core_states_def states_of_def)

lemma Initialize_prog_state: "fold next_state Initialize_prog st = kPost InitPhase"
  by (simp add: Initialize_prog_def)

text \<open>The three programs in one; the report is generated between the first two.\<close>

lemma full_run_through:
  assumes v1: "view_all env Initialize_prog (w, \<lambda>_. []) = (True, v1)" and rep: "ce_report env (fst v1)"
    and v2: "view_all env StartImpl_prog v1 = (True, v2)" and v3: "view_all env ShutdownImpl_prog v2 = (True, v3)"
  shows "\<exists>s. core_run env full_run (new_core w) = Some s \<and> view s = v3 \<and>
    executed (co_log s) = Initialize_prog @ StartImpl_prog @ ShutdownImpl_prog \<and> (\<forall>i. co_threads s i = Idle)"
proof -
  let ?s0 = "at 0 (Running Initialize_prog Return) (new_core w)"
  have s0: "core_step env (ActInitialize 0) (new_core w) = Some ?s0" by (simp add: new_core_def)
  have w0: "view ?s0 = (w, \<lambda>_. [])" by (simp add: view_def new_core_def)
  obtain s1 where s1: "core_run env (replicate (length Initialize_prog) (ActStep 0)) ?s0 = Some s1"
    "co_threads s1 = (co_threads ?s0)(0 := Running [] Return)" "executed (co_log s1) = executed (co_log ?s0) @ Initialize_prog"
    "same_flags ?s0 s1" "co_state s1 = fold next_state Initialize_prog (co_state ?s0)" "view s1 = v1"
    using run_prog [of env Initialize_prog ?s0 0 Return] v1 w0 by auto
  have thr1: "co_threads s1 = (\<lambda>_. Idle)(0 := Running [] Return)" using s1(2) by (simp add: new_core_def fun_eq_iff)
  let ?s2 = "at 0 (Running StartImpl_prog ThenWait) (at 0 Idle s1)"
  have w1: "co_parts s1 = fst v1" "view ?s2 = v1" using s1(6) by (auto simp: view_def)
  have s2: "core_run env [ActStep 0, ActStart 0] s1 = Some ?s2"
    using thr1 s1(5) rep w1(1) by (simp add: thread_step_def StartImpl_begin_def Initialize_prog_state)
  obtain s3 where s3: "core_run env (replicate (length StartImpl_prog) (ActStep 0)) ?s2 = Some s3"
    "co_threads s3 = (co_threads ?s2)(0 := Running [] ThenWait)" "executed (co_log s3) = executed (co_log ?s2) @ StartImpl_prog"
    "same_flags ?s2 s3" "view s3 = v2"
    using run_prog [of env StartImpl_prog ?s2 0 ThenWait] v2 w1(2) by auto
  have thr3: "co_threads s3 = (\<lambda>_. Idle)(0 := Running [] ThenWait)" using s3(2) thr1 by (simp add: fun_eq_iff)
  have fl3: "\<not> co_shutdown_flag s3" "\<not> co_promise s3" "\<not> co_future_taken s3" "\<not> co_shutdown_impl_flag s3"
    using s1(4) s3(4) by (simp_all add: same_flags_def new_core_def)
  obtain s4 where s4: "core_run env [ActStep 0, ActStep 0, ActShutdown 1, ActStep 1, ActStep 0] s3 = Some s4"
    "co_threads s4 = (\<lambda>_. Idle)(0 := Running ShutdownImpl_prog Return)" "executed (co_log s4) = executed (co_log s3)"
    "view s4 = view s3"
    using thr3 fl3 by (auto simp: thread_step_def Shutdown_begin_def Shutdown_set_def ShutdownImpl_begin_def fun_eq_iff view_def)
  obtain s5 where s5: "core_run env (replicate (length ShutdownImpl_prog) (ActStep 0)) s4 = Some s5"
    "co_threads s5 = (co_threads s4)(0 := Running [] Return)" "executed (co_log s5) = executed (co_log s4) @ ShutdownImpl_prog"
    "view s5 = v3"
    using run_prog [of env ShutdownImpl_prog s4 0 Return] s4(2,4) s3(5) v3 by auto
  have s6: "core_run env [ActStep 0] s5 = Some (at 0 Idle s5)" using s5(2) by (simp add: thread_step_def)
  have full: "full_run = [ActInitialize 0] @ replicate (length Initialize_prog) (ActStep 0) @ [ActStep 0, ActStart 0] @
      replicate (length StartImpl_prog) (ActStep 0) @ [ActStep 0, ActStep 0, ActShutdown 1, ActStep 1, ActStep 0] @
      replicate (length ShutdownImpl_prog) (ActStep 0) @ [ActStep 0]"
    by (simp add: full_run_def)
  have init: "core_run env [ActInitialize 0] (new_core w) = Some ?s0" using s0 by (simp del: core_step.simps)
  have "core_run env full_run (new_core w) = Some (at 0 Idle s5)"
    by (simp only: full init core_run_append s1(1) s2 s3(1) s4(1) s5(1) s6 Option.bind.simps)
  moreover have "executed (co_log (at 0 Idle s5)) = Initialize_prog @ StartImpl_prog @ ShutdownImpl_prog"
    using s1(3) s3(3) s4(3) s5(3) by (simp add: new_core_def)
  moreover have "view (at 0 Idle s5) = v3" using s5(4) by (simp add: view_def)
  moreover have "co_threads (at 0 Idle s5) i = Idle" for i using s4(2) s5(2) by simp
  ultimately show ?thesis by blast
qed

text \<open>
  C30. A run in which nothing throws gets through, and enters the states exactly in the order in
  which the enumeration lists them, each once, with every part's operation between its \<open>kPre\<close> and
  its \<open>kPost\<close> state.
\<close>

theorem core_follows_its_states:
  assumes "ce_quiet env"
  shows "\<exists>s. core_run env full_run (new_core w) = Some s \<and>
    filter core_work (executed (co_log s)) = concat (map around core_states) \<and>
    (\<forall>i. co_threads s i = Idle)"
proof -
  have ok: "\<exists>v'. view_all env cs v = (True, v')" for cs v
    using view_all_ok [OF assms, of cs v] by (cases "view_all env cs v") auto
  obtain v1 v2 v3 where v: "view_all env Initialize_prog (w, \<lambda>_. []) = (True, v1)" "view_all env StartImpl_prog v1 = (True, v2)"
    "view_all env ShutdownImpl_prog v2 = (True, v3)" using ok by meson
  have rep: "ce_report env (fst v1)" using assms by (simp add: ce_quiet_def)
  from full_run_through [OF v(1) rep v(2,3)] progs_work show ?thesis by auto
qed

theorem core_follows_its_states_witness:
  "\<exists>s. core_run quiet_env full_run (new_core ()) = Some s \<and> kPost ShutdownPhase = last core_states \<and>
    filter core_work (executed (co_log s)) = concat (map around core_states)"
proof -
  have "ce_quiet quiet_env" by (simp add: ce_quiet_def quiet_env_def)
  moreover have "kPost ShutdownPhase = last core_states" by (simp add: core_states_def states_of_def)
  ultimately show ?thesis using core_follows_its_states by metis
qed

text \<open>A core that was never shut down, however far it got before, is shut down whole by its destructor.\<close>

lemma destructor_shuts_down:
  assumes "ce_quiet env" "co_threads s i = Idle" "\<not> co_shutdown_impl_flag s"
  shows "\<exists>s'. core_run env (ActDestroy i # replicate (length ShutdownImpl_prog) (ActStep i)) s = Some s' \<and>
    executed (co_log s') = executed (co_log s) @ ShutdownImpl_prog"
proof -
  let ?s1 = "at i (Running ShutdownImpl_prog Return) (s\<lparr>co_shutdown_impl_flag := True\<rparr>)"
  have "core_step env (ActDestroy i) s = Some ?s1" using assms(2,3) by (simp add: ShutdownImpl_begin_def)
  then show ?thesis using run_prog [OF view_all_ok [OF assms(1)], of ?s1 i ShutdownImpl_prog Return] by (auto simp del: core_step.simps)
qed

section \<open>A shutdown that throws\<close>

definition sd_over :: "instr list \<Rightarrow> 'w core \<Rightarrow> bool" where
  "sd_over cs s \<longleftrightarrow> co_shutdown_impl_flag s \<and> (\<forall>i. sd_left (co_threads s i) = []) \<and> sd s = cs"

lemma sd_over_step:
  assumes over: "sd_over cs s" and step: "core_step env a s = Some s'"
  shows "sd_over cs s'"
proof -
  have put: "sd_over cs s1" if "sd s1 = sd s" "co_shutdown_impl_flag s1 = co_shutdown_impl_flag s"
    "\<And>j. sd_left (co_threads s1 j) = [] \<or> sd_left (co_threads s1 j) = sd_left (co_threads s j)" for s1
    unfolding sd_over_def that(1,2) using over [unfolded sd_over_def] that(3) by metis
  have begun: "sd_over cs (ShutdownImpl_begin i s)" for i
    using over by (intro put) (auto simp: ShutdownImpl_begin_def sd_over_def sd_def)
  show ?thesis
  proof (cases a)
    case (ActStep i)
    have st: "thread_step env i s = Some s'" using step ActStep by simp
    show ?thesis
    proof (cases "co_threads s i")
      case (Running rest k)
      show ?thesis
      proof (cases rest)
        case Nil
        show ?thesis using st Running Nil
          by (cases k) (auto simp: thread_step_def sd_def split: if_splits intro!: put)
      next
        case (Cons c rest')
        obtain ok s1 where r: "exec_instr env c (co_note (Executed c) s) = (ok, s1)" by fastforce
        then have s': "s' = at i (if ok then Running rest' k else Idle) s1" using st Running Cons by (simp add: thread_step_def)
        have "filter is_sd (c # rest') = []" using over Running Cons by (metis sd_left.simps(1) sd_over_def)
        then show ?thesis using exec_same [OF r] by (intro put) (auto simp: same_control_def s' sd_def split: if_splits)
      qed
    next
      case Waiting
      then show ?thesis using st begun by (auto simp: thread_step_def split: if_splits)
    qed (use st in \<open>auto simp: thread_step_def Shutdown_set_def sd_def intro!: put split: if_splits\<close>)
  next
    case (ActDestroy i)
    then show ?thesis using step begun by (auto split: if_splits)
  qed (use step in \<open>auto simp: StartImpl_begin_def Shutdown_begin_def sd_def intro!: put split: if_splits\<close>)
qed

text \<open>
  C31. \<open>ShutdownImpl\<close> sets its flag before it does anything. When a hook or a part throws out of
  it, what it has not reached is never shut down, neither by another \<open>Start\<close> that wakes nor by the
  destructor.
\<close>

theorem aborted_shutdown_stays_aborted:
  assumes "co_shutdown_impl_flag s" "\<forall>i. sd_left (co_threads s i) = []" "core_reach env s s'"
  shows "filter is_sd (executed (co_log s')) = filter is_sd (executed (co_log s))"
proof -
  have "sd_over (sd s) s'" using assms(3)
  proof (induction rule: core_reach.induct)
    case core_refl
    then show ?case using assms(1,2) by (simp add: sd_over_def)
  next
    case (core_next t a t')
    then show ?case using sd_over_step by blast
  qed
  then show ?thesis by (simp add: sd_over_def sd_def)
qed

text \<open>A hook on \<open>kPreShutdownModules\<close> that throws: no part is ever shut down.\<close>

definition throwing_env :: "unit core_env" where
  "throwing_env = quiet_env\<lparr>ce_hook := (\<lambda>h w. (False, w, []))\<rparr>"

definition hooked_core :: "unit core" where
  "hooked_core = RegisterHookFunc (kPrePart ShutdownPhase Modules, 7) (new_core ())"

theorem aborted_shutdown_stays_aborted_witness:
  "\<exists>s. core_run throwing_env [ActDestroy 0, ActStep 0, ActStep 0] hooked_core = Some s \<and>
    (\<forall>as s' p. core_run throwing_env as s = Some s' \<longrightarrow> Do ShutdownPhase p \<notin> set (filter is_sd (executed (co_log s'))))"
proof -
  obtain s where s: "core_run throwing_env [ActDestroy 0, ActStep 0, ActStep 0] hooked_core = Some s"
    "co_shutdown_impl_flag s" "\<forall>i. sd_left (co_threads s i) = []"
    "filter is_sd (executed (co_log s)) = [Enter (kPre ShutdownPhase), Enter (kPrePart ShutdownPhase Modules)]"
    by (simp add: hooked_core_def new_core_def throwing_env_def quiet_env_def ShutdownImpl_begin_def thread_step_def
        ShutdownImpl_prog_def EnterState_def at_def co_note_def RegisterHookFunc_def is_sd_def)
  have "Do ShutdownPhase p \<notin> set (filter is_sd (executed (co_log s')))" if "core_run throwing_env as s = Some s'" for as s' p
    unfolding aborted_shutdown_stays_aborted [OF s(2,3) core_run_reach [OF core_refl that]] s(4) by simp
  then show ?thesis using s(1) by blast
qed

section \<open>Names of executors\<close>

text \<open>
  The core reserves the name of the guard thread before the executor manager is initialised, so a
  configured executor is never hidden by the guard.
\<close>

lemma configured_executor_not_hidden:
  assumes "em_fresh em0" "keeps_names env" "te_name guard \<in> em_used_names em0"
    and "em_Initialize env (Some (Some es)) em0 = (None, em)" "n \<in> set (map fst es)" "n \<noteq> []"
  shows "core_GetExecutor env guard em n = em_GetExecutor env em n \<and>
    core_GetExecutor env guard em [] = core_GetExecutor env guard em (te_name guard)"
proof -
  have inv: "em_inv env (map fst es) em" and u: "em_used_names em = em_used_names em0"
    using em_Initialize_ok [OF assms(1,2,4)] by simp_all
  then have "set (map fst es) \<inter> em_used_names em = {}" by (simp only: em_inv_def)
  then have "n \<noteq> te_name guard" using assms(3,5) u by auto
  then show ?thesis using assms(6) by (simp add: core_GetExecutor_def)
qed

end
