(* ===== verification/ModuleManager.thy ===== *)
theory ModuleManager
  imports Lifecycle "HOL-Library.Sublist"
begin

text \<open>
  \<open>module_loader.cc\<close> and \<open>module_manager.cc\<close>: choosing the modules of a package, initialising
  the registered and the loaded modules in order, starting them, and shutting them down in the
  reverse order. Dynamic libraries and the modules behind their C interface are parameters.
\<close>

section \<open>Libraries and modules\<close>

record module_info =
  mi_name :: string
  mi_major_version :: u32
  mi_minor_version :: u32
  mi_patch_version :: u32
  mi_build_version :: u32
  mi_author :: string
  mi_description :: string

text \<open>
  A dynamic library: its full path, the symbols it exports and what they compute. The name list
  function may return a null pointer and the creation function too.
\<close>

record 'm dynlib =
  dl_full_path :: string
  dl_symbols :: "string list"
  dl_module_num :: nat
  dl_module_names :: "string list option"
  dl_create :: "string \<Rightarrow> 'm option"

text \<open>
  \<open>mv_open\<close> is \<open>DynamicLib::Load\<close>; \<open>mv_initialize\<close> and \<open>mv_start\<close> are the results of the
  module's own operations; \<open>mv_order\<close> is the order in which a traversal of the
  \<open>unordered_map\<close> of the loaders visits the keys.
\<close>

record 'm module_env =
  mv_open :: "string \<Rightarrow> 'm dynlib option"
  mv_info :: "'m \<Rightarrow> module_info"
  mv_initialize :: "'m \<Rightarrow> bool"
  mv_start :: "'m \<Rightarrow> bool"
  mv_order :: "string list \<Rightarrow> string list"

datatype mm_error =
    MmLoadFailed string | MmNoSymbol string | MmNoModule | MmNullNameList | MmEmptyName nat | MmRepeatedName string
  | MmCreateFailed string | MmWrongName string string
  | MmNoConfigurator | MmInitializedTwice | MmNotInit | MmNotPreInit | MmNullModule | MmDuplicate string
  | MmInitFailed string | MmStartFailed string | MmNotFound string | MmBadFunctionCall

section \<open>The loader\<close>

datatype enable_or_disable = kUseNone | kUseEnable | kUseDisable

record 'm module_loader =
  ml_pkg_path :: string
  ml_lib :: "'m dynlib option"
  ml_module_names :: "string list"
  ml_loaded_names :: "string list"
  ml_ptr_map :: "(string \<times> 'm) list"
  ml_mode :: enable_or_disable

definition loader_symbols :: "string list" where
  "loader_symbols =
     [''AimRTDynlibGetModuleNum'', ''AimRTDynlibGetModuleNameList'', ''AimRTDynlibCreateModule'', ''AimRTDynlibDestroyModule'']"

text \<open>The loop that checks the name list; \<open>ii\<close> is the index of the message.\<close>

fun check_names :: "nat \<Rightarrow> string list \<Rightarrow> string list \<Rightarrow> (mm_error, string list) result" where
  "check_names ii [] vec = Inr vec"
| "check_names ii (n # ns) vec =
     (if n = [] then Inl (MmEmptyName ii)
      else if n \<in> set vec then Inl (MmRepeatedName n)
      else check_names (Suc ii) ns (vec @ [n]))"

definition choose_mode :: "string list \<Rightarrow> string list \<Rightarrow> enable_or_disable" where
  "choose_mode disable enable =
     (if disable \<noteq> [] \<and> enable \<noteq> [] then kUseEnable
      else if disable \<noteq> [] \<and> enable = [] then kUseDisable
      else if disable = [] \<and> enable \<noteq> [] then kUseEnable
      else kUseNone)"

definition load_one ::
  "'m module_env \<Rightarrow> 'm dynlib \<Rightarrow> string list \<Rightarrow> string list \<Rightarrow> string \<Rightarrow> 'm module_loader \<Rightarrow> (mm_error, 'm module_loader) result" where
  "load_one env lib disable enable n l =
     (if ml_mode l = kUseDisable \<and> n \<in> set disable then Inr l
      else if ml_mode l = kUseEnable \<and> n \<notin> set enable then Inr l
      else case dl_create lib n of
        None \<Rightarrow> Inl (MmCreateFailed n)
      | Some m \<Rightarrow>
          if mi_name (mv_info env m) \<noteq> n then Inl (MmWrongName n (mi_name (mv_info env m)))
          else Inr (l\<lparr>ml_loaded_names := ml_loaded_names l @ [n], ml_ptr_map := ml_ptr_map l @ [(n, m)]\<rparr>))"

definition LoadPkg ::
  "'m module_env \<Rightarrow> string \<Rightarrow> string list \<Rightarrow> string list \<Rightarrow> (mm_error, 'm module_loader) result" where
  "LoadPkg env pkg_path disable enable =
     (case mv_open env pkg_path of
        None \<Rightarrow> Inl (MmLoadFailed pkg_path)
      | Some lib \<Rightarrow>
          case find (\<lambda>fn. fn \<notin> set (dl_symbols lib)) loader_symbols of
            Some fn \<Rightarrow> Inl (MmNoSymbol fn)
          | None \<Rightarrow>
              if \<not> dl_module_num lib > 0 then Inl MmNoModule
              else case dl_module_names lib of
                None \<Rightarrow> Inl MmNullNameList
              | Some names \<Rightarrow>
                  bindR (check_names 0 (take (dl_module_num lib) names) []) (\<lambda>vec.
                    foldR (load_one env lib disable enable) vec
                      \<lparr>ml_pkg_path = pkg_path, ml_lib = Some lib, ml_module_names = vec, ml_loaded_names = [],
                       ml_ptr_map = [], ml_mode = choose_mode disable enable\<rparr>))"

definition GetModule :: "string \<Rightarrow> 'm module_loader \<Rightarrow> 'm option" where
  "GetModule n l = map_of (ml_ptr_map l) n"

definition UnLoadPkg :: "'m module_loader \<Rightarrow> 'm list \<times> 'm module_loader" where
  "UnLoadPkg l =
     (case ml_lib l of
        None \<Rightarrow> ([], l)
      | Some _ \<Rightarrow> (map snd (ml_ptr_map l),
                   l\<lparr>ml_ptr_map := [], ml_loaded_names := [], ml_module_names := [], ml_lib := None\<rparr>))"

section \<open>State of the manager\<close>

record pkg_options =
  po_path :: string
  po_disable_modules :: "string list"
  po_enable_modules :: "string list"

record module_options =
  mo_name :: string
  mo_enable :: bool
  mo_log_lvl :: nat
  mo_use_default_log_lvl :: bool
  mo_cfg_file_path :: string

record detail_info =
  di_name :: string
  di_pkg_path :: string
  di_info :: module_info
  di_log_lvl :: nat
  di_use_default_log_lvl :: bool
  di_cfg_file_path :: string

record 'm module_wrapper =
  mw_detail :: detail_info
  mw_loader :: "string option"
  mw_module :: "'m option"

datatype 'm mm_event = Configured detail_info | Initialized 'm | InitRefused 'm | Started 'm | ShutDown 'm

text \<open>
  \<open>module_detail_info_vec_\<close> holds pointers into the wrappers; here the names under which they
  are found.
\<close>

record 'm module_manager =
  mm_pkgs_options :: "pkg_options list"
  mm_modules_options :: "module_options list"
  mm_state :: lc_state
  mm_configurator :: bool
  mm_registered :: "(string \<times> 'm) list"
  mm_init_order :: "string list"
  mm_loader_map :: "(string \<times> 'm module_loader) list"
  mm_wrapper_map :: "string \<Rightarrow> 'm module_wrapper option"
  mm_detail_names :: "string list"
  mm_log :: "'m mm_event list"

definition new_module_manager :: "'m module_manager" where
  "new_module_manager =
     \<lparr>mm_pkgs_options = [], mm_modules_options = [], mm_state = kPreInit, mm_configurator = False, mm_registered = [],
      mm_init_order = [], mm_loader_map = [], mm_wrapper_map = (\<lambda>_. None), mm_detail_names = [], mm_log = []\<rparr>"

text \<open>The YAML node: its two sequences, with the fields an entry may leave out.\<close>

record pkg_node =
  pn_path :: string
  pn_disable_modules :: "string list option"
  pn_enable_modules :: "string list option"

record module_node =
  mn_name :: string
  mn_enable :: "bool option"
  mn_log_lvl :: "nat option"
  mn_cfg_file_path :: "string option"

definition keep_field :: "'a option \<Rightarrow> 'a \<Rightarrow> 'a" where
  "keep_field v d = (case v of None \<Rightarrow> d | Some x \<Rightarrow> x)"

definition decode_pkg :: "pkg_node \<Rightarrow> pkg_options" where
  "decode_pkg n = \<lparr>po_path = pn_path n, po_disable_modules = keep_field (pn_disable_modules n) [],
     po_enable_modules = keep_field (pn_enable_modules n) []\<rparr>"

definition decode_module :: "module_node \<Rightarrow> module_options" where
  "decode_module n = \<lparr>mo_name = mn_name n, mo_enable = keep_field (mn_enable n) True, mo_log_lvl = keep_field (mn_log_lvl n) 0,
     mo_use_default_log_lvl = (mn_log_lvl n = None), mo_cfg_file_path = keep_field (mn_cfg_file_path n) []\<rparr>"

definition mm_decode ::
  "pkg_node list option \<times> module_node list option \<Rightarrow> pkg_options list \<times> module_options list" where
  "mm_decode = (\<lambda>(pkgs, modules). (map decode_pkg (keep_field pkgs []), map decode_module (keep_field modules [])))"

definition encode_module :: "module_options \<Rightarrow> module_node" where
  "encode_module opt = \<lparr>mn_name = mo_name opt, mn_enable = Some (mo_enable opt),
     mn_log_lvl = (if \<not> mo_use_default_log_lvl opt then Some (mo_log_lvl opt) else None),
     mn_cfg_file_path = (if mo_cfg_file_path opt \<noteq> [] then Some (mo_cfg_file_path opt) else None)\<rparr>"

definition mm_encode ::
  "pkg_options list \<times> module_options list \<Rightarrow> pkg_node list option \<times> module_node list option" where
  "mm_encode = (\<lambda>(pkgs, modules).
     (Some (map (\<lambda>p. \<lparr>pn_path = po_path p, pn_disable_modules = Some (po_disable_modules p),
                      pn_enable_modules = Some (po_enable_modules p)\<rparr>) pkgs),
      Some (map encode_module modules)))"

section \<open>Initialisation\<close>

definition GetModuleOptions :: "string \<Rightarrow> 'm module_manager \<Rightarrow> module_options option" where
  "GetModuleOptions n s = find (\<lambda>opt. mo_name opt = n) (mm_modules_options s)"

definition mm_enabled :: "string \<Rightarrow> 'm module_manager \<Rightarrow> bool" where
  "mm_enabled n s = (case GetModuleOptions n s of None \<Rightarrow> True | Some opt \<Rightarrow> mo_enable opt)"

definition with_options :: "module_options option \<Rightarrow> detail_info \<Rightarrow> detail_info" where
  "with_options opts d =
     (case opts of
        None \<Rightarrow> d
      | Some opt \<Rightarrow> d\<lparr>di_log_lvl := mo_log_lvl opt, di_use_default_log_lvl := mo_use_default_log_lvl opt,
                      di_cfg_file_path := mo_cfg_file_path opt\<rparr>)"

text \<open>
  \<open>InitModule\<close>: the options of the module, which are added to the list when it has none; the
  configuration of its core proxy; and its own initialisation, which may refuse.
\<close>

definition InitModule ::
  "'m module_env \<Rightarrow> 'm module_wrapper \<Rightarrow> 'm module_manager \<Rightarrow> mm_error option \<times> 'm module_wrapper \<times> 'm module_manager" where
  "InitModule env w s =
     (let n = di_name (mw_detail w); opts = GetModuleOptions n s;
          w = w\<lparr>mw_detail := with_options opts (mw_detail w)\<rparr>;
          s = (case opts of
                 Some _ \<Rightarrow> s
               | None \<Rightarrow> s\<lparr>mm_modules_options := mm_modules_options s @
                   [\<lparr>mo_name = n, mo_enable = True, mo_log_lvl = di_log_lvl (mw_detail w),
                     mo_use_default_log_lvl = di_use_default_log_lvl (mw_detail w),
                     mo_cfg_file_path = di_cfg_file_path (mw_detail w)\<rparr>]\<rparr>)
      in if \<not> mm_configurator s then (Some MmBadFunctionCall, w, s)
         else
           let s = s\<lparr>mm_log := mm_log s @ [Configured (mw_detail w)]\<rparr> in
           case mw_module w of
             None \<Rightarrow> (None, w, s)
           | Some m \<Rightarrow>
               if mv_initialize env m then (None, w, s\<lparr>mm_log := mm_log s @ [Initialized m]\<rparr>)
               else (Some (MmInitFailed n), w, s\<lparr>mm_log := mm_log s @ [InitRefused m]\<rparr>))"

definition new_detail :: "string \<Rightarrow> string \<Rightarrow> module_info \<Rightarrow> detail_info" where
  "new_detail n pkg info = \<lparr>di_name = n, di_pkg_path = pkg, di_info = info, di_log_lvl = 0,
     di_use_default_log_lvl = True, di_cfg_file_path = []\<rparr>"

text \<open>What both loops of \<open>Initialize\<close> do with a module of a name.\<close>

definition add_module ::
  "'m module_env \<Rightarrow> string \<Rightarrow> string \<Rightarrow> string option \<Rightarrow> 'm \<Rightarrow> 'm module_manager \<Rightarrow> (mm_error, 'm module_manager) outcome" where
  "add_module env n pkg loader m s =
     (let w = \<lparr>mw_detail = new_detail n pkg (mv_info env m), mw_loader = loader, mw_module = Some m\<rparr> in
      case InitModule env w s of
        (Some e, w, s) \<Rightarrow> (Some e, s)
      | (None, w, s) \<Rightarrow>
          (None, s\<lparr>mm_init_order := mm_init_order s @ [n], mm_detail_names := mm_detail_names s @ [n],
                   mm_wrapper_map := (mm_wrapper_map s)(n \<mapsto> w)\<rparr>))"

definition init_registered :: "'m module_env \<Rightarrow> string \<times> 'm \<Rightarrow> 'm module_manager \<Rightarrow> (mm_error, 'm module_manager) outcome" where
  "init_registered env item s =
     (let m = snd item; n = mi_name (mv_info env m) in
      if \<not> mm_enabled n s then (None, s)
      else if mm_wrapper_map s n \<noteq> None then (Some (MmDuplicate n), s)
      else add_module env n (fst item) None m s)"

definition init_loaded ::
  "'m module_env \<Rightarrow> string \<Rightarrow> 'm module_loader \<Rightarrow> string \<Rightarrow> 'm module_manager \<Rightarrow> (mm_error, 'm module_manager) outcome" where
  "init_loaded env pkg_path l n s =
     (if \<not> mm_enabled n s then (None, s)
      else if mm_wrapper_map s n \<noteq> None then (Some (MmDuplicate n), s)
      else case GetModule n l of
        None \<Rightarrow> (Some MmNullModule, s)
      | Some m \<Rightarrow> add_module env n pkg_path (Some pkg_path) m s)"

text \<open>A loop whose body may throw and leaves its state behind.\<close>

fun each :: "('a \<Rightarrow> 's \<Rightarrow> (mm_error, 's) outcome) \<Rightarrow> 'a list \<Rightarrow> 's \<Rightarrow> (mm_error, 's) outcome" where
  "each f [] s = (None, s)"
| "each f (x # xs) s = (case f x s of (Some e, s) \<Rightarrow> (Some e, s) | (None, s) \<Rightarrow> each f xs s)"

text \<open>
  Loading the packages replaces the path of the options by the full path; the loader of a path
  that is in the map already is dropped by \<open>emplace\<close>.
\<close>

definition load_pkg :: "'m module_env \<Rightarrow> nat \<Rightarrow> 'm module_manager \<Rightarrow> (mm_error, 'm module_manager) outcome" where
  "load_pkg env i s =
     (let p = mm_pkgs_options s ! i in
      case LoadPkg env (po_path p) (po_disable_modules p) (po_enable_modules p) of
        Inl e \<Rightarrow> (Some e, s)
      | Inr l \<Rightarrow>
          let path = (case ml_lib l of None \<Rightarrow> [] | Some lib \<Rightarrow> dl_full_path lib) in
          (None, s\<lparr>mm_pkgs_options := (mm_pkgs_options s)[i := p\<lparr>po_path := path\<rparr>],
                   mm_loader_map := (if path \<in> fst ` set (mm_loader_map s) then mm_loader_map s
                                     else mm_loader_map s @ [(path, l)])\<rparr>))"

definition init_pkg :: "'m module_env \<Rightarrow> string \<Rightarrow> 'm module_manager \<Rightarrow> (mm_error, 'm module_manager) outcome" where
  "init_pkg env path s =
     (case map_of (mm_loader_map s) path of
        None \<Rightarrow> (None, s)
      | Some l \<Rightarrow> each (init_loaded env path l) (ml_loaded_names l) s)"

definition mm_Initialize ::
  "'m module_env \<Rightarrow> (pkg_node list option \<times> module_node list option) option \<Rightarrow> 'm module_manager \<Rightarrow>
   (mm_error, 'm module_manager) outcome" where
  "mm_Initialize env options_node s =
     (if \<not> mm_configurator s then (Some MmNoConfigurator, s)
      else
        let (old, new) = atomic_exchange (mm_state s) kInit; s = s\<lparr>mm_state := new\<rparr> in
        if old \<noteq> kPreInit then (Some MmInitializedTwice, s)
        else
          let s = (case options_node of
                     None \<Rightarrow> s
                   | Some node \<Rightarrow> s\<lparr>mm_pkgs_options := fst (mm_decode node), mm_modules_options := snd (mm_decode node)\<rparr>)
          in case each (load_pkg env) [0..<length (mm_pkgs_options s)] s of
               (Some e, s) \<Rightarrow> (Some e, s)
             | (None, s) \<Rightarrow>
                 (case each (init_registered env) (mm_registered s) s of
                    (Some e, s) \<Rightarrow> (Some e, s)
                  | (None, s) \<Rightarrow> each (init_pkg env) (mv_order env (map fst (mm_loader_map s))) s))"

section \<open>Start, shutdown and registration\<close>

definition start_module :: "'m module_env \<Rightarrow> string \<Rightarrow> 'm module_manager \<Rightarrow> (mm_error, 'm module_manager) outcome" where
  "start_module env n s =
     (case mm_wrapper_map s n of
        None \<Rightarrow> (Some (MmNotFound n), s)
      | Some w \<Rightarrow>
          (case mw_module w of
             None \<Rightarrow> (Some (MmNotFound n), s)
           | Some m \<Rightarrow>
               if mv_start env m then (None, s\<lparr>mm_log := mm_log s @ [Started m]\<rparr>) else (Some (MmStartFailed n), s)))"

definition mm_Start :: "'m module_env \<Rightarrow> 'm module_manager \<Rightarrow> (mm_error, 'm module_manager) outcome" where
  "mm_Start env s =
     (let (old, new) = atomic_exchange (mm_state s) kStart; s = s\<lparr>mm_state := new\<rparr> in
      if old \<noteq> kInit then (Some MmNotInit, s) else each (start_module env) (mm_init_order s) s)"

definition shutdown_module :: "string \<Rightarrow> 'm module_manager \<Rightarrow> 'm module_manager" where
  "shutdown_module n s =
     (case mm_wrapper_map s n of
        None \<Rightarrow> s
      | Some w \<Rightarrow> (case mw_module w of None \<Rightarrow> s | Some m \<Rightarrow> s\<lparr>mm_log := mm_log s @ [ShutDown m]\<rparr>))"

definition mm_Shutdown :: "'m module_manager \<Rightarrow> 'm module_manager" where
  "mm_Shutdown s =
     (let (old, new) = atomic_exchange (mm_state s) kShutdown; s = s\<lparr>mm_state := new\<rparr> in
      if old = kShutdown then s
      else (fold shutdown_module (rev (mm_init_order s)) s)
             \<lparr>mm_wrapper_map := (\<lambda>_. None), mm_init_order := [], mm_registered := [], mm_configurator := False\<rparr>)"

definition RegisterModule :: "string \<Rightarrow> 'm option \<Rightarrow> 'm module_manager \<Rightarrow> (mm_error, 'm module_manager) outcome" where
  "RegisterModule pkg m s =
     (if mm_state s \<noteq> kPreInit then (Some MmNotPreInit, s)
      else case m of
        None \<Rightarrow> (Some MmNullModule, s)
      | Some m \<Rightarrow> (None, s\<lparr>mm_registered := mm_registered s @ [(pkg, m)]\<rparr>))"

definition RegisterCoreProxyConfigurator :: "'m module_manager \<Rightarrow> (mm_error, 'm module_manager) outcome" where
  "RegisterCoreProxyConfigurator s =
     (if mm_state s \<noteq> kPreInit then (Some MmNotPreInit, s) else (None, s\<lparr>mm_configurator := True\<rparr>))"

definition CreateModule ::
  "'m module_env \<Rightarrow> string \<Rightarrow> module_info \<Rightarrow> 'm module_manager \<Rightarrow> (mm_error, 'm module_manager) outcome" where
  "CreateModule env pkg info s =
     (if mm_state s \<noteq> kInit then (Some MmNotInit, s)
      else
        let n = mi_name info in
        if mm_wrapper_map s n \<noteq> None then (Some (MmDuplicate n), s)
        else case InitModule env \<lparr>mw_detail = new_detail n pkg info, mw_loader = None, mw_module = None\<rparr> s of
          (Some e, w, s) \<Rightarrow> (Some e, s)
        | (None, w, s) \<Rightarrow>
            (None, s\<lparr>mm_detail_names := mm_detail_names s @ [n], mm_wrapper_map := (mm_wrapper_map s)(n \<mapsto> w)\<rparr>))"

definition GetModuleNameList :: "'m module_manager \<Rightarrow> (mm_error, string list) result" where
  "GetModuleNameList s = (if mm_state s \<noteq> kInit then Inl MmNotInit else Inr (mm_init_order s))"

text \<open>The detail infos behind the pointers handed out; \<open>None\<close> is a pointer to a destroyed wrapper.\<close>

definition GetModuleDetailInfoList :: "'m module_manager \<Rightarrow> (mm_error, detail_info option list) result" where
  "GetModuleDetailInfoList s =
     (if mm_state s \<noteq> kInit then Inl MmNotInit
      else Inr (map (\<lambda>n. map_option mw_detail (mm_wrapper_map s n)) (mm_detail_names s)))"

section \<open>Order of the modules\<close>

fun inited_of :: "'m mm_event list \<Rightarrow> 'm list" where
  "inited_of [] = []"
| "inited_of (e # es) = (case e of Initialized m \<Rightarrow> m # inited_of es | _ \<Rightarrow> inited_of es)"

fun started_of :: "'m mm_event list \<Rightarrow> 'm list" where
  "started_of [] = []"
| "started_of (e # es) = (case e of Started m \<Rightarrow> m # started_of es | _ \<Rightarrow> started_of es)"

fun shut_down_of :: "'m mm_event list \<Rightarrow> 'm list" where
  "shut_down_of [] = []"
| "shut_down_of (e # es) = (case e of ShutDown m \<Rightarrow> m # shut_down_of es | _ \<Rightarrow> shut_down_of es)"

lemma mm_log_append [simp]:
  "inited_of (xs @ ys) = inited_of xs @ inited_of ys"
  "started_of (xs @ ys) = started_of xs @ started_of ys"
  "shut_down_of (xs @ ys) = shut_down_of xs @ shut_down_of ys"
  by (induction xs) (auto split: mm_event.splits)

definition module_at :: "'m module_manager \<Rightarrow> string \<Rightarrow> 'm option" where
  "module_at s n = (case mm_wrapper_map s n of None \<Rightarrow> None | Some w \<Rightarrow> mw_module w)"

definition mm_inv :: "'m module_manager \<Rightarrow> bool" where
  "mm_inv s \<longleftrightarrow>
     distinct (mm_init_order s) \<and> map (module_at s) (mm_init_order s) = map Some (inited_of (mm_log s)) \<and>
     started_of (mm_log s) = [] \<and> shut_down_of (mm_log s) = []"

lemma mm_inv_module: "mm_inv s \<Longrightarrow> n \<in> set (mm_init_order s) \<Longrightarrow> mm_wrapper_map s n \<noteq> None"
proof
  assume "mm_inv s" "n \<in> set (mm_init_order s)" "mm_wrapper_map s n = None"
  then have "None \<in> set (map (module_at s) (mm_init_order s))" by (force simp: module_at_def)
  then show False using \<open>mm_inv s\<close> by (simp only: mm_inv_def) auto
qed

lemma InitModule_frame:
  assumes "InitModule env w s = (err, w', s')"
  shows "mm_init_order s' = mm_init_order s \<and> mm_wrapper_map s' = mm_wrapper_map s \<and> mm_state s' = mm_state s \<and>
    mm_loader_map s' = mm_loader_map s \<and> mm_registered s' = mm_registered s \<and> mw_module w' = mw_module w \<and>
    started_of (mm_log s') = started_of (mm_log s) \<and> shut_down_of (mm_log s') = shut_down_of (mm_log s) \<and>
    inited_of (mm_log s') = inited_of (mm_log s) @
      (if err = None then (case mw_module w of None \<Rightarrow> [] | Some m \<Rightarrow> [m]) else [])"
  using assms by (auto simp: InitModule_def Let_def split: if_splits option.splits)

lemma add_wrapper_inv:
  assumes "mm_inv s" "mm_wrapper_map s n = None" "mm_init_order s' = mm_init_order s @ ns"
    and "mm_wrapper_map s' = (mm_wrapper_map s)(n \<mapsto> w)" "ns = (case mw_module w of None \<Rightarrow> [] | Some m \<Rightarrow> [n])"
    and "inited_of (mm_log s') = inited_of (mm_log s) @ (case mw_module w of None \<Rightarrow> [] | Some m \<Rightarrow> [m])"
    and "started_of (mm_log s') = started_of (mm_log s)" "shut_down_of (mm_log s') = shut_down_of (mm_log s)"
  shows "mm_inv s'"
proof -
  have new: "n \<notin> set (mm_init_order s)" using mm_inv_module [OF assms(1)] assms(2) by blast
  have "map (module_at s') (mm_init_order s) = map (module_at s) (mm_init_order s)"
    using new by (auto simp: module_at_def assms(4))
  moreover have "module_at s' n = mw_module w" by (simp add: module_at_def assms(4))
  ultimately show ?thesis using assms(1,3,5-8) new by (auto simp: mm_inv_def simp del: map_eq_conv split: option.splits)
qed

lemma mm_inv_same:
  assumes "mm_inv s" "mm_init_order s' = mm_init_order s" "mm_wrapper_map s' = mm_wrapper_map s"
    and "inited_of (mm_log s') = inited_of (mm_log s)" "started_of (mm_log s') = started_of (mm_log s)"
    and "shut_down_of (mm_log s') = shut_down_of (mm_log s)"
  shows "mm_inv s'"
  using assms by (simp add: mm_inv_def module_at_def cong: map_cong)

lemma add_module_inv [inv_intros]:
  assumes "mm_inv s" "mm_wrapper_map s n = None" "add_module env n pkg loader m s = (err, s')"
  shows "mm_inv s'"
proof -
  let ?w = "\<lparr>mw_detail = new_detail n pkg (mv_info env m), mw_loader = loader, mw_module = Some m\<rparr>"
  obtain e w' s1 where r: "InitModule env ?w s = (e, w', s1)" by (metis prod_cases3)
  note f = InitModule_frame [OF r]
  show ?thesis
  proof (cases e)
    case (Some x)
    then have "s' = s1" using assms(3) r by (simp add: add_module_def Let_def)
    then show ?thesis using mm_inv_same [OF assms(1)] f Some by auto
  next
    case None
    then have s': "s' = s1\<lparr>mm_init_order := mm_init_order s1 @ [n], mm_detail_names := mm_detail_names s1 @ [n],
        mm_wrapper_map := (mm_wrapper_map s1)(n \<mapsto> w')\<rparr>"
      using assms(3) r by (simp add: add_module_def Let_def)
    show ?thesis
      by (rule add_wrapper_inv [OF assms(1,2), where w = w' and ns = "[n]"]) (use f None in \<open>simp_all add: s'\<close>)
  qed
qed

lemma each_inv:
  assumes "P s" "each f xs s = (err, s')" "\<And>x s err s'. P s \<Longrightarrow> f x s = (err, s') \<Longrightarrow> P s'"
  shows "P s'"
  using assms(1,2)
proof (induction xs arbitrary: s)
  case (Cons x xs)
  obtain e s1 where r: "f x s = (e, s1)" by fastforce
  then have "P s1" using assms(3) Cons.prems(1) by blast
  then show ?case using Cons r by (cases e) auto
qed simp

lemma init_registered_inv [inv_intros]: "mm_inv s \<Longrightarrow> init_registered env item s = (err, s') \<Longrightarrow> mm_inv s'"
  by (auto simp: init_registered_def Let_def split: if_splits intro: add_module_inv)

lemma init_loaded_inv [inv_intros]: "mm_inv s \<Longrightarrow> init_loaded env p l n s = (err, s') \<Longrightarrow> mm_inv s'"
  by (auto simp: init_loaded_def split: if_splits option.splits intro: add_module_inv)

lemma init_pkg_inv [inv_intros]: "mm_inv s \<Longrightarrow> init_pkg env p s = (err, s') \<Longrightarrow> mm_inv s'"
  unfolding init_pkg_def by (auto split: option.splits elim: each_inv [where P = mm_inv] intro: init_loaded_inv)

lemma load_pkg_inv [inv_intros]: "mm_inv s \<Longrightarrow> load_pkg env i s = (err, s') \<Longrightarrow> mm_inv s'"
  by (auto simp: load_pkg_def Let_def split: sum.splits intro: mm_inv_same)

lemma CreateModule_inv [inv_intros]:
  assumes "mm_inv s" "CreateModule env pkg info s = (err, s')"
  shows "mm_inv s'"
proof (cases "mm_state s \<noteq> kInit \<or> mm_wrapper_map s (mi_name info) \<noteq> None")
  case True
  then show ?thesis using assms by (auto simp: CreateModule_def Let_def split: if_splits)
next
  case False
  let ?n = "mi_name info"
  let ?w = "\<lparr>mw_detail = new_detail ?n pkg info, mw_loader = None, mw_module = None\<rparr>"
  obtain e w' s1 where r: "InitModule env ?w s = (e, w', s1)" by (metis prod_cases3)
  note f = InitModule_frame [OF r]
  show ?thesis
  proof (cases e)
    case (Some x)
    then have "s' = s1" using assms(2) r False by (simp add: CreateModule_def Let_def)
    then show ?thesis using mm_inv_same [OF assms(1)] f Some by auto
  next
    case None
    then have s': "s' = s1\<lparr>mm_detail_names := mm_detail_names s1 @ [?n], mm_wrapper_map := (mm_wrapper_map s1)(?n \<mapsto> w')\<rparr>"
      using assms(2) r False by (simp add: CreateModule_def Let_def)
    show ?thesis
      by (rule add_wrapper_inv [OF assms(1), where n = ?n and w = w' and ns = "[]"]) (use f None False in \<open>simp_all add: s'\<close>)
  qed
qed

lemma add_module_state: "add_module env n pkg loader m s = (err, s') \<Longrightarrow> mm_state s' = mm_state s"
  by (auto simp: add_module_def Let_def split: prod.splits option.splits dest: InitModule_frame)

lemma mm_state_steps:
  "init_registered env item s = (err, s') \<Longrightarrow> mm_state s' = mm_state s"
  "init_loaded env p l n s = (err, s') \<Longrightarrow> mm_state s' = mm_state s"
  "load_pkg env i s = (err, s') \<Longrightarrow> mm_state s' = mm_state s"
  "CreateModule env pkg info s = (err, s') \<Longrightarrow> mm_state s' = mm_state s"
  by (auto simp: init_registered_def init_loaded_def load_pkg_def CreateModule_def Let_def add_module_state
      split: if_splits option.splits sum.splits prod.splits dest: InitModule_frame)

lemma each_state:
  "each f xs s = (err, s') \<Longrightarrow> (\<And>x s err s'. f x s = (err, s') \<Longrightarrow> mm_state s' = mm_state s) \<Longrightarrow> mm_state s' = mm_state s"
  using each_inv [where P = "\<lambda>t. mm_state t = mm_state s", OF refl] by metis

lemma init_pkg_state: "init_pkg env p s = (err, s') \<Longrightarrow> mm_state s' = mm_state s"
  unfolding init_pkg_def by (auto split: option.splits elim: each_state dest: mm_state_steps)

definition mm_fresh :: "'m module_manager \<Rightarrow> bool" where
  "mm_fresh s \<longleftrightarrow> mm_state s = kPreInit \<and> mm_init_order s = [] \<and> mm_wrapper_map s = (\<lambda>_. None) \<and> mm_log s = []"

lemma mm_Initialize_inv:
  assumes "mm_fresh s0" "mm_Initialize env node s0 = (err, s)"
  shows "mm_inv s \<and> mm_state s \<noteq> kShutdown"
proof (cases "mm_configurator s0")
  case False
  then show ?thesis using assms by (simp add: mm_Initialize_def mm_fresh_def mm_inv_def)
next
  case True
  define t where "t = (case node of None \<Rightarrow> s0\<lparr>mm_state := kInit\<rparr>
    | Some node \<Rightarrow> s0\<lparr>mm_state := kInit, mm_pkgs_options := fst (mm_decode node), mm_modules_options := snd (mm_decode node)\<rparr>)"
  have t: "mm_inv t" "mm_state t = kInit" using assms(1) by (auto simp: t_def mm_inv_def mm_fresh_def split: option.split)
  obtain e1 s1 where r1: "each (load_pkg env) [0..<length (mm_pkgs_options t)] t = (e1, s1)" by fastforce
  have i1: "mm_inv s1" by (rule each_inv [where P = mm_inv, OF t(1) r1 load_pkg_inv])
  have st1: "mm_state s1 = kInit" using each_state [OF r1 mm_state_steps(3)] t(2) by simp
  obtain e2 s2 where r2: "each (init_registered env) (mm_registered s1) s1 = (e2, s2)" by fastforce
  have i2: "mm_inv s2" by (rule each_inv [where P = mm_inv, OF i1 r2 init_registered_inv])
  have st2: "mm_state s2 = kInit" using each_state [OF r2 mm_state_steps(1)] st1 by simp
  obtain e3 s3 where r3: "each (init_pkg env) (mv_order env (map fst (mm_loader_map s2))) s2 = (e3, s3)" by fastforce
  have i3: "mm_inv s3" by (rule each_inv [where P = mm_inv, OF i2 r3 init_pkg_inv])
  have st3: "mm_state s3 = kInit" using each_state [OF r3 init_pkg_state] st2 by simp
  have "s \<in> {s1, s2, s3}"
    using assms r1 r2 r3 True
    by (auto simp: mm_Initialize_def mm_fresh_def atomic_exchange_def Let_def t_def split: option.splits)
  then show ?thesis using i1 i2 i3 st1 st2 st3 by auto
qed

lemma module_at_frame [simp]:
  "module_at (s\<lparr>mm_log := l\<rparr>) = module_at s" "module_at (s\<lparr>mm_state := st\<rparr>) = module_at s"
  by (simp_all add: module_at_def fun_eq_iff)

lemma start_modules:
  assumes "each (start_module env) ns s = (err, s')" "map (module_at s) ns = map Some ms"
  shows "\<exists>ps. s' = s\<lparr>mm_log := mm_log s @ map Started ps\<rparr> \<and> prefix ps ms \<and> (err = None \<longrightarrow> ps = ms)"
  using assms
proof (induction ns arbitrary: s ms)
  case Nil
  then show ?case by auto
next
  case (Cons n ns)
  then obtain m ms' where ms: "ms = m # ms'" "module_at s n = Some m" "map (module_at s) ns = map Some ms'"
    by (cases ms) auto
  then obtain w where w: "mm_wrapper_map s n = Some w" "mw_module w = Some m"
    by (auto simp: module_at_def split: option.splits)
  show ?case
  proof (cases "mv_start env m")
    case False
    then have "s' = s \<and> err \<noteq> None" using Cons.prems(1) w by (auto simp: start_module_def)
    then show ?thesis by (auto intro!: exI [of _ "[]"])
  next
    case True
    let ?t = "s\<lparr>mm_log := mm_log s @ [Started m]\<rparr>"
    have "start_module env n s = (None, ?t)" using w True by (simp add: start_module_def)
    then have "each (start_module env) ns ?t = (err, s')" using Cons.prems(1) by simp
    moreover have "map (module_at ?t) ns = map Some ms'" using ms(3) by (simp del: map_eq_conv)
    ultimately obtain ps where "s' = ?t\<lparr>mm_log := mm_log ?t @ map Started ps\<rparr>" "prefix ps ms'" "err = None \<longrightarrow> ps = ms'"
      using Cons.IH by blast
    then show ?thesis using ms(1) by (intro exI [of _ "m # ps"]) auto
  qed
qed

lemma shutdown_modules:
  "map (module_at s) ns = map Some ms \<Longrightarrow> fold shutdown_module ns s = s\<lparr>mm_log := mm_log s @ map ShutDown ms\<rparr>"
proof (induction ns arbitrary: s ms)
  case (Cons n ns)
  then obtain m ms' where ms: "ms = m # ms'" "module_at s n = Some m" "map (module_at s) ns = map Some ms'"
    by (cases ms) auto
  then have "shutdown_module n s = s\<lparr>mm_log := mm_log s @ [ShutDown m]\<rparr>"
    by (auto simp: shutdown_module_def module_at_def split: option.splits)
  moreover have "map (module_at (s\<lparr>mm_log := mm_log s @ [ShutDown m]\<rparr>)) ns = map Some ms'"
    using ms(3) by (simp del: map_eq_conv)
  ultimately show ?case using Cons.IH ms(1) by simp
qed simp

lemma log_of_maps [simp]:
  "inited_of (map Started ps) = []" "started_of (map Started ps) = ps" "shut_down_of (map Started ps) = []"
  "inited_of (map ShutDown ps) = []" "started_of (map ShutDown ps) = []" "shut_down_of (map ShutDown ps) = ps"
  by (induction ps) auto

lemma shutdown_modules_state: "mm_state (fold shutdown_module ns s) = mm_state s"
  by (induction ns arbitrary: s) (simp_all add: shutdown_module_def split: option.split)

definition create_all :: "'m module_env \<Rightarrow> (string \<times> module_info) list \<Rightarrow> 'm module_manager \<Rightarrow> 'm module_manager" where
  "create_all env ops s = fold (\<lambda>(pkg, info) s. snd (CreateModule env pkg info s)) ops s"

lemma create_all_inv: "mm_inv s \<Longrightarrow> mm_inv (create_all env ops s) \<and> mm_state (create_all env ops s) = mm_state s"
proof (induction ops arbitrary: s)
  case (Cons x ops)
  obtain err s1 where r: "CreateModule env (fst x) (snd x) s = (err, s1)" by fastforce
  show ?case using Cons.IH [OF CreateModule_inv [OF Cons.prems r]] r mm_state_steps(4) [OF r]
    by (simp add: create_all_def case_prod_beta')
qed (simp add: create_all_def)

lemma modules_stop:
  assumes inv: "mm_inv s2" "mm_state s2 \<noteq> kShutdown"
    and "(started, s3) = (if start then (fst (mm_Start env s2) = None, snd (mm_Start env s2)) else (False, s2))"
  shows "shut_down_of (mm_log (mm_Shutdown s3)) = rev (inited_of (mm_log s3)) \<and>
    inited_of (mm_log (mm_Shutdown s3)) = inited_of (mm_log s2) \<and>
    prefix (started_of (mm_log s3)) (inited_of (mm_log s2)) \<and>
    (started \<longrightarrow> started_of (mm_log s3) = inited_of (mm_log s2)) \<and>
    mm_Shutdown (mm_Shutdown s3) = mm_Shutdown s3"
proof -
  let ?ms = "inited_of (mm_log s2)"
  have mods: "map (module_at s2) (mm_init_order s2) = map Some ?ms" and none: "started_of (mm_log s2) = []" "shut_down_of (mm_log s2) = []"
    using inv(1) by (simp_all add: mm_inv_def del: map_eq_conv)
  have "\<exists>ps st. s3 = s2\<lparr>mm_state := st, mm_log := mm_log s2 @ map Started ps\<rparr> \<and> prefix ps ?ms \<and> (started \<longrightarrow> ps = ?ms) \<and> st \<noteq> kShutdown"
  proof (cases "start \<and> mm_state s2 = kInit")
    case True
    obtain e s' where r: "each (start_module env) (mm_init_order s2) (s2\<lparr>mm_state := kStart\<rparr>) = (e, s')" by fastforce
    have "map (module_at (s2\<lparr>mm_state := kStart\<rparr>)) (mm_init_order s2) = map Some ?ms"
      using mods by (simp del: map_eq_conv)
    from start_modules [OF r this] obtain ps where "s' = s2\<lparr>mm_state := kStart, mm_log := mm_log s2 @ map Started ps\<rparr>"
      "prefix ps ?ms" "e = None \<longrightarrow> ps = ?ms" by auto
    moreover have "mm_Start env s2 = (e, s')" using True r by (simp add: mm_Start_def atomic_exchange_def Let_def)
    ultimately show ?thesis using assms(3) True by (intro exI [of _ ps] exI [of _ kStart]) auto
  next
    case False
    have plain: "s2 = s2\<lparr>mm_state := mm_state s2, mm_log := mm_log s2 @ map Started []\<rparr>" by simp
    show ?thesis
    proof (cases start)
      case True
      then have "mm_Start env s2 = (Some MmNotInit, s2\<lparr>mm_state := kStart\<rparr>)"
        using False by (simp add: mm_Start_def atomic_exchange_def Let_def)
      then show ?thesis using assms(3) True by (intro exI [of _ "[]"] exI [of _ kStart]) auto
    next
      case False
      then have "s3 = s2" "\<not> started" using assms(3) by simp_all
      then show ?thesis using inv(2) plain by (intro exI [of _ "[]"] exI [of _ "mm_state s2"]) auto
    qed
  qed
  then obtain ps st where s3: "s3 = s2\<lparr>mm_state := st, mm_log := mm_log s2 @ map Started ps\<rparr>" "prefix ps ?ms"
    "started \<longrightarrow> ps = ?ms" "st \<noteq> kShutdown" by blast
  let ?t = "s3\<lparr>mm_state := kShutdown\<rparr>"
  have "module_at ?t = module_at s2" by (simp add: s3(1) module_at_def fun_eq_iff)
  then have "map (module_at ?t) (rev (mm_init_order s3)) = map Some (rev ?ms)"
    using mods by (simp add: s3(1) rev_map [symmetric] del: map_eq_conv)
  from shutdown_modules [OF this] have "mm_log (mm_Shutdown s3) = mm_log s3 @ map ShutDown (rev ?ms)"
    using s3(4) by (simp add: mm_Shutdown_def atomic_exchange_def Let_def s3(1))
  moreover have "mm_state (mm_Shutdown s3) = kShutdown"
    by (simp add: mm_Shutdown_def atomic_exchange_def Let_def shutdown_modules_state)
  then have "mm_Shutdown (mm_Shutdown s3) = mm_Shutdown s3" by (simp add: mm_Shutdown_def [of "mm_Shutdown s3"] atomic_exchange_def Let_def)
  ultimately show ?thesis using s3 none by simp
qed

text \<open>
  C32. Whether or not \<open>Initialize\<close> gets through, whether \<open>Start\<close> is called and succeeds, and
  whatever modules are created by hand in between, \<open>Shutdown\<close> shuts down exactly the modules
  whose initialisation succeeded, each once and in the reverse order; \<open>Start\<close> starts them in the
  order of initialisation, up to the first that refuses.
\<close>

theorem modules_stop_in_reverse:
  assumes "mm_fresh s0" "mm_Initialize env node s0 = (err, s1)" "s2 = create_all env ops s1"
    and "(started, s3) = (if start then (fst (mm_Start env s2) = None, snd (mm_Start env s2)) else (False, s2))"
  shows "shut_down_of (mm_log (mm_Shutdown s3)) = rev (inited_of (mm_log s3)) \<and>
    inited_of (mm_log (mm_Shutdown s3)) = inited_of (mm_log s2) \<and>
    prefix (started_of (mm_log s3)) (inited_of (mm_log s2)) \<and>
    (started \<longrightarrow> started_of (mm_log s3) = inited_of (mm_log s2)) \<and>
    mm_Shutdown (mm_Shutdown s3) = mm_Shutdown s3"
proof -
  have "mm_inv s2" "mm_state s2 \<noteq> kShutdown"
    using mm_Initialize_inv [OF assms(1,2)] create_all_inv [of s1 env ops] assms(3) by auto
  then show ?thesis using assms(4) by (rule modules_stop)
qed

text \<open>Three modules registered by hand, the second of which refuses to start and the third to initialise.\<close>

definition named_info :: "nat \<Rightarrow> module_info" where
  "named_info m = \<lparr>mi_name = to_string m, mi_major_version = 0, mi_minor_version = 0, mi_patch_version = 0,
     mi_build_version = 0, mi_author = [], mi_description = []\<rparr>"

definition three_modules :: "nat module_env" where
  "three_modules = \<lparr>mv_open = (\<lambda>_. None), mv_info = named_info, mv_initialize = (\<lambda>m. m < 3), mv_start = (\<lambda>m. m \<noteq> 2),
     mv_order = (\<lambda>ps. ps)\<rparr>"

definition three_registered :: "nat module_manager" where
  "three_registered = new_module_manager\<lparr>mm_configurator := True, mm_registered := [(''core'', 1), (''core'', 2), (''core'', 3)]\<rparr>"

theorem modules_stop_in_reverse_witness:
  "\<exists>err s1. mm_Initialize three_modules None three_registered = (err, s1) \<and> err \<noteq> None \<and>
    shut_down_of (mm_log (mm_Shutdown (snd (mm_Start three_modules s1)))) = [2, 1] \<and>
    started_of (mm_log (snd (mm_Start three_modules s1))) = [1]"
proof -
  obtain err s1 where r: "mm_Initialize three_modules None three_registered = (err, s1)" "err \<noteq> None"
    "inited_of (mm_log s1) = [1, 2]" "started_of (mm_log (snd (mm_Start three_modules s1))) = [1]"
    "inited_of (mm_log (snd (mm_Start three_modules s1))) = [1, 2]"
    by (simp add: mm_Initialize_def three_registered_def new_module_manager_def atomic_exchange_def Let_def three_modules_def
        init_registered_def mm_enabled_def GetModuleOptions_def add_module_def InitModule_def new_detail_def with_options_def
        named_info_def to_string_inject mm_Start_def start_module_def)
  have fresh: "mm_fresh three_registered" by (simp add: mm_fresh_def three_registered_def new_module_manager_def)
  have "s1 = create_all three_modules [] s1" by (simp add: create_all_def)
  from modules_stop_in_reverse [OF fresh r(1) this, of "fst (mm_Start three_modules s1) = None" "snd (mm_Start three_modules s1)" True] r
  show ?thesis by simp
qed

section \<open>The modules of a package\<close>

lemma check_names_ok: "check_names ii ns vec = Inr vec' \<Longrightarrow> distinct vec \<Longrightarrow> vec' = vec @ ns \<and> distinct vec' \<and> [] \<notin> set ns"
  by (induction ii ns vec rule: check_names.induct) (auto split: if_splits)

definition selected :: "string list \<Rightarrow> string list \<Rightarrow> string \<Rightarrow> bool" where
  "selected disable enable n = (if enable \<noteq> [] then n \<in> set enable else n \<notin> set disable)"

lemma load_all:
  assumes "foldR (load_one env lib disable enable) ns l = Inr l'" "ml_mode l = choose_mode disable enable"
  shows "ml_loaded_names l' = ml_loaded_names l @ filter (selected disable enable) ns \<and>
    (\<exists>ms. ml_ptr_map l' = ml_ptr_map l @ zip (filter (selected disable enable) ns) ms \<and>
       list_all2 (\<lambda>n m. dl_create lib n = Some m \<and> mi_name (mv_info env m) = n) (filter (selected disable enable) ns) ms) \<and>
    ml_module_names l' = ml_module_names l \<and> ml_lib l' = ml_lib l"
  using assms
proof (induction ns arbitrary: l)
  case (Cons n ns)
  obtain l1 where l1: "load_one env lib disable enable n l = Inr l1" "foldR (load_one env lib disable enable) ns l1 = Inr l'"
    using Cons.prems(1) by (auto simp: bindR_eq_Inr)
  show ?case
  proof (cases "selected disable enable n")
    case True
    then obtain m where m: "dl_create lib n = Some m" "mi_name (mv_info env m) = n"
      "l1 = l\<lparr>ml_loaded_names := ml_loaded_names l @ [n], ml_ptr_map := ml_ptr_map l @ [(n, m)]\<rparr>"
      using l1(1) Cons.prems(2) by (auto simp: load_one_def selected_def choose_mode_def split: if_splits option.splits)
    with Cons.IH [OF l1(2)] Cons.prems(2) obtain ms where
      "ml_ptr_map l' = ml_ptr_map l @ (n, m) # zip (filter (selected disable enable) ns) ms"
      "list_all2 (\<lambda>n m. dl_create lib n = Some m \<and> mi_name (mv_info env m) = n) (filter (selected disable enable) ns) ms"
      "ml_loaded_names l' = ml_loaded_names l @ n # filter (selected disable enable) ns"
      "ml_module_names l' = ml_module_names l" "ml_lib l' = ml_lib l" by auto
    then show ?thesis using True m by (auto intro!: exI [of _ "m # ms"])
  next
    case False
    then have "l1 = l" using l1(1) Cons.prems(2) by (auto simp: load_one_def selected_def choose_mode_def split: if_splits option.splits)
    then show ?thesis using Cons.IH [OF l1(2)] Cons.prems(2) False by simp
  qed
qed auto

text \<open>
  A package that loads yields the modules its lists select, in the order of the library: all
  but the disabled ones, or only the enabled ones when any are named; every one of them is found
  under its name and calls itself by it.
\<close>

theorem LoadPkg_selects:
  assumes "LoadPkg env pkg_path disable enable = Inr l"
  shows "\<exists>lib names. mv_open env pkg_path = Some lib \<and> dl_module_names lib = Some names \<and>
    ml_loaded_names l = filter (selected disable enable) (take (dl_module_num lib) names) \<and>
    distinct (ml_loaded_names l) \<and>
    (\<forall>n. (n \<in> set (ml_loaded_names l) \<longrightarrow> (\<exists>m. GetModule n l = Some m \<and> dl_create lib n = Some m \<and> mi_name (mv_info env m) = n)) \<and>
         (n \<notin> set (ml_loaded_names l) \<longrightarrow> GetModule n l = None))"
proof -
  obtain lib names vec where lib: "mv_open env pkg_path = Some lib" "dl_module_names lib = Some names"
    and vec: "check_names 0 (take (dl_module_num lib) names) [] = Inr vec"
    and run: "foldR (load_one env lib disable enable) vec
      \<lparr>ml_pkg_path = pkg_path, ml_lib = Some lib, ml_module_names = vec, ml_loaded_names = [],
       ml_ptr_map = [], ml_mode = choose_mode disable enable\<rparr> = Inr l"
    using assms by (auto simp: LoadPkg_def bindR_eq_Inr split: option.splits if_splits)
  have v: "vec = take (dl_module_num lib) names" "distinct vec" using check_names_ok [OF vec] by auto
  let ?ns = "filter (selected disable enable) vec"
  obtain ms where l: "ml_loaded_names l = ?ns" "ml_ptr_map l = zip ?ns ms"
    and ms: "list_all2 (\<lambda>n m. dl_create lib n = Some m \<and> mi_name (mv_info env m) = n) ?ns ms"
    using load_all [OF run] by auto
  have len: "length ?ns = length ms" using ms by (rule list_all2_lengthD)
  have "\<exists>m. GetModule n l = Some m \<and> dl_create lib n = Some m \<and> mi_name (mv_info env m) = n" if n: "n \<in> set ?ns" for n
  proof -
    obtain i where i: "i < length ?ns" "?ns ! i = n" using n by (metis in_set_conv_nth)
    then have "GetModule n l = Some (ms ! i)" using map_of_zip_nth [OF len, of i] v(2) len by (simp add: GetModule_def l(2))
    then show ?thesis using ms i by (auto simp: list_all2_conv_all_nth)
  qed
  moreover have "GetModule n l = None" if "n \<notin> set ?ns" for n
    using that map_of_zip_is_None [OF len, of n] by (simp add: GetModule_def l(2))
  ultimately show ?thesis using lib v l(1) by auto
qed

section \<open>The life cycle contract\<close>

lemma mm_Initialize_state:
  assumes "mm_Initialize env node s = (err, s')"
  shows "(mm_state s = kPreInit \<and> mm_state s' = kInit) \<or> (err \<noteq> None \<and> mm_state s' \<in> {mm_state s, kInit})"
proof (cases "mm_configurator s \<and> mm_state s = kPreInit")
  case False
  then show ?thesis using assms by (auto simp: mm_Initialize_def atomic_exchange_def Let_def split: if_splits)
next
  case True
  define t where "t = (case node of None \<Rightarrow> s\<lparr>mm_state := kInit\<rparr>
    | Some node \<Rightarrow> s\<lparr>mm_state := kInit, mm_pkgs_options := fst (mm_decode node), mm_modules_options := snd (mm_decode node)\<rparr>)"
  have t: "mm_state t = kInit" by (simp add: t_def split: option.split)
  obtain e1 s1 where r1: "each (load_pkg env) [0..<length (mm_pkgs_options t)] t = (e1, s1)" by fastforce
  obtain e2 s2 where r2: "each (init_registered env) (mm_registered s1) s1 = (e2, s2)" by fastforce
  obtain e3 s3 where r3: "each (init_pkg env) (mv_order env (map fst (mm_loader_map s2))) s2 = (e3, s3)" by fastforce
  have "mm_state s1 = kInit" "mm_state s2 = mm_state s1" "mm_state s3 = mm_state s2"
    using each_state [OF r1 mm_state_steps(3)] each_state [OF r2 mm_state_steps(1)] each_state [OF r3 init_pkg_state] t by simp_all
  moreover have "s' \<in> {s1, s2, s3}"
    using assms r1 r2 r3 True by (auto simp: mm_Initialize_def atomic_exchange_def Let_def t_def split: option.splits)
  ultimately show ?thesis using True by auto
qed

lemma start_module_state: "start_module env n s = (err, s') \<Longrightarrow> mm_state s' = mm_state s"
  by (auto simp: start_module_def split: option.splits if_splits)

interpretation mm: lifecycle mm_state "mm_Initialize env" "mm_Start env" mm_Shutdown
  for env :: "'m module_env"
proof unfold_locales
  show "mm_Initialize env a s = (None, s') \<Longrightarrow> mm_state s = kPreInit \<and> mm_state s' = kInit" for a s s'
    using mm_Initialize_state by blast
  show "mm_Initialize env a s = (Some e, s') \<Longrightarrow> mm_state s' \<in> {mm_state s, kInit}" for a s e s'
    using mm_Initialize_state by blast
  show "mm_Start env s = (None, s') \<Longrightarrow> mm_state s = kInit \<and> mm_state s' = kStart" for s s'
    by (auto simp: mm_Start_def atomic_exchange_def Let_def dest: each_state [OF _ start_module_state] split: if_splits)
  show "mm_Start env s = (Some e, s') \<Longrightarrow> mm_state s' \<in> {mm_state s, kStart}" for s e s'
    by (auto simp: mm_Start_def atomic_exchange_def Let_def dest: each_state [OF _ start_module_state] split: if_splits)
  show "mm_state (mm_Shutdown s) = kShutdown" for s
    by (simp add: mm_Shutdown_def atomic_exchange_def Let_def shutdown_modules_state)
  show "mm_state s = kShutdown \<Longrightarrow> mm_Shutdown s = s" for s
    by (simp add: mm_Shutdown_def atomic_exchange_def Let_def)
qed

definition small_lib :: "nat dynlib" where
  "small_lib = \<lparr>dl_full_path = ''/lib/a.so'', dl_symbols = loader_symbols, dl_module_num = 2,
     dl_module_names = Some [to_string 2, to_string 3], dl_create = (\<lambda>n. Some (of_digits n))\<rparr>"

definition lib_env :: "nat module_env" where
  "lib_env = three_modules\<lparr>mv_open := (\<lambda>p. if p = ''a'' then Some small_lib else None)\<rparr>"

theorem LoadPkg_selects_witness:
  "\<exists>l. LoadPkg lib_env ''a'' [to_string 2] [] = Inr l \<and> ml_loaded_names l = [to_string 3] \<and>
    (\<exists>m. GetModule (to_string 3) l = Some m) \<and> GetModule (to_string 2) l = None"
proof -
  have ne: "to_string n \<noteq> []" for n by (subst to_string.simps) simp
  have op: "mv_open lib_env ''a'' = Some small_lib" by (simp add: lib_env_def)
  have syms: "find (\<lambda>fn. fn \<notin> set (dl_symbols small_lib)) loader_symbols = None"
    by (simp add: find_None_iff small_lib_def)
  have names: "check_names 0 (take (dl_module_num small_lib) [to_string 2, to_string 3]) [] = Inr [to_string 2, to_string 3]"
    by (simp add: small_lib_def ne to_string_inject)
  have lib: "dl_module_num small_lib > 0" "dl_module_names small_lib = Some [to_string 2, to_string 3]"
    "\<And>n. dl_create small_lib (to_string n) = Some n" "\<And>n. mi_name (mv_info lib_env n) = to_string n"
    by (simp_all add: small_lib_def of_digits_to_string lib_env_def three_modules_def named_info_def del: of_digits.simps)
  have one: "load_one lib_env small_lib [to_string 2] [] (to_string 2) l = Inr l"
    "load_one lib_env small_lib [to_string 2] [] (to_string 3) l =
      Inr (l\<lparr>ml_loaded_names := ml_loaded_names l @ [to_string 3], ml_ptr_map := ml_ptr_map l @ [(to_string 3, 3)]\<rparr>)"
    if "ml_mode l = kUseDisable" for l
    using that by (simp_all add: load_one_def lib(3,4) to_string_inject)
  have "LoadPkg lib_env ''a'' [to_string 2] [] =
      foldR (load_one lib_env small_lib [to_string 2] []) [to_string 2, to_string 3]
        \<lparr>ml_pkg_path = ''a'', ml_lib = Some small_lib, ml_module_names = [to_string 2, to_string 3], ml_loaded_names = [],
         ml_ptr_map = [], ml_mode = kUseDisable\<rparr>"
    by (simp only: LoadPkg_def op syms lib(1,2) names option.case bindR.simps not_True_eq_False if_False choose_mode_def) simp
  also have "\<dots> = Inr \<lparr>ml_pkg_path = ''a'', ml_lib = Some small_lib, ml_module_names = [to_string 2, to_string 3],
      ml_loaded_names = [to_string 3], ml_ptr_map = [(to_string 3, 3)], ml_mode = kUseDisable\<rparr>"
    by (simp add: one)
  finally have l: "LoadPkg lib_env ''a'' [to_string 2] [] = Inr \<lparr>ml_pkg_path = ''a'', ml_lib = Some small_lib,
      ml_module_names = [to_string 2, to_string 3], ml_loaded_names = [to_string 3], ml_ptr_map = [(to_string 3, 3)],
      ml_mode = kUseDisable\<rparr>" .
  have "to_string 2 \<notin> set [to_string 3]" by (simp add: to_string_inject)
  then show ?thesis using l LoadPkg_selects [OF l]
    by (intro exI [of _ "\<lparr>ml_pkg_path = ''a'', ml_lib = Some small_lib,
      ml_module_names = [to_string 2, to_string 3], ml_loaded_names = [to_string 3], ml_ptr_map = [(to_string 3, 3)],
      ml_mode = kUseDisable\<rparr>"]) (auto simp del: to_string_inject)
qed

lemma mm_Shutdown_frame:
  "started_of (mm_log (mm_Shutdown s)) = started_of (mm_log s)" "inited_of (mm_log (mm_Shutdown s)) = inited_of (mm_log s)"
proof -
  have "started_of (mm_log (fold shutdown_module ns t)) = started_of (mm_log t) \<and>
      inited_of (mm_log (fold shutdown_module ns t)) = inited_of (mm_log t)" for ns and t :: "'a module_manager"
    by (induction ns arbitrary: t) (simp_all add: shutdown_module_def split: option.split)
  then show "started_of (mm_log (mm_Shutdown s)) = started_of (mm_log s)" "inited_of (mm_log (mm_Shutdown s)) = inited_of (mm_log s)"
    by (simp_all add: mm_Shutdown_def atomic_exchange_def Let_def)
qed

end
