(* ===== verification/NetStream.thy ===== *)
theory NetStream
  imports BufferUtil Lifecycle "HOL-Library.Sublist"
begin

text \<open>
  The tcp session of \<open>asio_tcp_cli.h\<close> and \<open>asio_tcp_svr.h\<close>: messages are framed by a head of two
  magic bytes and a four-byte length, a coroutine on the strand of the session writes them in
  batches, and a receiving coroutine cuts the byte stream into messages again. The clients of
  a pool are found by the hash of their endpoint (\<open>AsioTcpClientPool\<close>, \<open>AsioUdpClientPool\<close>).
  A coroutine runs between two suspension points without interruption by another handler of
  its strand, so these stretches and the handlers are the atomic steps. boost's sockets,
  timers and strands are modelled by what their documentation says: a strand runs its
  handlers one at a time in the order they were posted, cancelling a timer ends the waits
  that are pending and no later one, and closing a socket aborts the operation in progress.
\<close>

section \<open>Framing\<close>

definition kHeadSize :: nat where "kHeadSize = 6"
definition kHeadByte1 :: byte where "kHeadByte1 = 0x59"
definition kHeadByte2 :: byte where "kHeadByte2 = 0x54"

definition frame_head :: "bool \<Rightarrow> nat \<Rightarrow> byte list" where
  "frame_head little msg_size = [kHeadByte1, kHeadByte2] @ SetBufFromUint32 little (of_nat msg_size)"

definition batch_bytes :: "bool \<Rightarrow> byte list list \<Rightarrow> byte list" where
  "batch_bytes little tmp_data_list = concat (map (\<lambda>m. frame_head little (length m) @ m) tmp_data_list)"

definition kHeartbeatPkg :: "byte list" where
  "kHeartbeatPkg = [kHeadByte1, kHeadByte2, 0, 0, 0, 0]"

text \<open>
  The receiver on the bytes that have arrived: the messages it has handed out, and why it does
  not go on: more bytes are needed, the head is not one, or the length is above the limit.
\<close>

datatype recv_status = NeedHead | NeedBody | InvalidHead | MsgTooLarge

function recv_frames :: "bool \<Rightarrow> nat \<Rightarrow> byte list \<Rightarrow> byte list list \<times> recv_status" where
  "recv_frames little max_recv_size bs =
     (if length bs < kHeadSize then ([], NeedHead)
      else if \<not> (bs ! 0 = kHeadByte1 \<and> bs ! 1 = kHeadByte2) then ([], InvalidHead)
      else
        let msg_len = unat (GetUint32FromBuf little (take 4 (drop 2 bs))) in
        if \<not> msg_len \<le> max_recv_size then ([], MsgTooLarge)
        else if length bs < kHeadSize + msg_len then ([], NeedBody)
        else
          case recv_frames little max_recv_size (drop (kHeadSize + msg_len) bs) of
            (ms, st) \<Rightarrow> (take msg_len (drop kHeadSize bs) # ms, st))"
  by pat_completeness auto
termination by (relation "measure (\<lambda>(_, _, bs). length bs)") (auto simp: kHeadSize_def)

declare recv_frames.simps [simp del]

section \<open>The sending side of a session\<close>

datatype write_kind = Batch | Heartbeat

datatype sender_phase =
    NotSpawned | Writing write_kind "byte list" | Written write_kind | WriteFailed | Sleeping | Woken bool | SenderDone

datatype strand_handler = HSend "byte list" | HStop

text \<open>
  \<open>ts_accepted\<close> is the history of the messages that reached the data list; the code keeps none.
\<close>

record tcp_session =
  ts_state :: lc_state
  ts_data_list :: "byte list list"
  ts_phase :: sender_phase
  ts_queue :: "strand_handler list"
  ts_closed :: bool
  ts_wire :: "byte list"
  ts_accepted :: "byte list list"

definition new_tcp_session :: tcp_session where
  "new_tcp_session = \<lparr>ts_state = kPreInit, ts_data_list = [], ts_phase = NotSpawned, ts_queue = [], ts_closed = False,
     ts_wire = [], ts_accepted = []\<rparr>"

definition ts_Initialize :: "tcp_session \<Rightarrow> tcp_session option" where
  "ts_Initialize s = (if ts_state s = kPreInit then Some (s\<lparr>ts_state := kInit\<rparr>) else None)"

definition ts_Start :: "tcp_session \<Rightarrow> tcp_session option" where
  "ts_Start s = (if ts_state s = kInit then Some (s\<lparr>ts_state := kStart\<rparr>) else None)"

text \<open>\<open>Shutdown\<close> from any thread: the first call posts the handler that stops timer and socket.\<close>

definition ts_Shutdown :: "tcp_session \<Rightarrow> tcp_session" where
  "ts_Shutdown s =
     (if ts_state s = kShutdown then s
      else s\<lparr>ts_state := kShutdown, ts_queue := ts_queue s @ [HStop]\<rparr>)"

definition ts_SendMsg :: "byte list \<Rightarrow> tcp_session \<Rightarrow> tcp_session" where
  "ts_SendMsg m s = s\<lparr>ts_queue := ts_queue s @ [HSend m]\<rparr>"

definition cancel_timer :: "tcp_session \<Rightarrow> tcp_session" where
  "cancel_timer s = (if ts_phase s = Sleeping then s\<lparr>ts_phase := Woken False\<rparr> else s)"

fun run_handler :: "strand_handler \<Rightarrow> tcp_session \<Rightarrow> tcp_session" where
  "run_handler (HSend m) s =
     (if ts_state s \<noteq> kStart then s
      else cancel_timer (s\<lparr>ts_data_list := ts_data_list s @ [m], ts_accepted := ts_accepted s @ [m]\<rparr>))"
| "run_handler HStop s =
     (cancel_timer s)\<lparr>ts_closed := True\<rparr>"

text \<open>The sender from a loop head to the next suspension point.\<close>

definition sender_finish :: "tcp_session \<Rightarrow> tcp_session" where
  "sender_finish s = ts_Shutdown (s\<lparr>ts_phase := SenderDone\<rparr>)"

definition inner_loop :: "bool \<Rightarrow> tcp_session \<Rightarrow> tcp_session" where
  "inner_loop little s =
     (if ts_data_list s \<noteq> []
      then s\<lparr>ts_data_list := [], ts_phase := Writing Batch (batch_bytes little (ts_data_list s))\<rparr>
      else s\<lparr>ts_phase := Sleeping\<rparr>)"

definition outer_loop :: "bool \<Rightarrow> tcp_session \<Rightarrow> tcp_session" where
  "outer_loop little s = (if ts_state s = kStart then inner_loop little s else sender_finish s)"

text \<open>
  \<open>client\<close> tells the two files apart: only the client sends a heartbeat when its timer expires.
\<close>

fun sender_resume :: "bool \<Rightarrow> bool \<Rightarrow> tcp_session \<Rightarrow> tcp_session option" where
  "sender_resume client little s =
     (case ts_phase s of
        NotSpawned \<Rightarrow> if ts_state s = kPreInit \<or> ts_state s = kInit then None else Some (outer_loop little s)
      | Written Batch \<Rightarrow> Some (inner_loop little s)
      | Written Heartbeat \<Rightarrow> Some (outer_loop little s)
      | WriteFailed \<Rightarrow> Some (sender_finish s)
      | Woken expired \<Rightarrow>
          Some (if client \<and> expired then s\<lparr>ts_phase := Writing Heartbeat kHeartbeatPkg\<rparr> else outer_loop little s)
      | _ \<Rightarrow> None)"

text \<open>
  The steps: calls of other threads, the next handler of the strand, a resumed sender, and what
  the system does: it completes a write, or writes a part and fails, or lets the timer expire.
\<close>

datatype session_act = SendMsg "byte list" | ShutdownCall | RunHandler | Resume | WriteDone | WriteError nat | TimerExpires

fun session_step :: "bool \<Rightarrow> bool \<Rightarrow> session_act \<Rightarrow> tcp_session \<Rightarrow> tcp_session option" where
  "session_step client little (SendMsg m) s = Some (ts_SendMsg m s)"
| "session_step client little ShutdownCall s = Some (ts_Shutdown s)"
| "session_step client little RunHandler s =
     (case ts_queue s of [] \<Rightarrow> None | h # hs \<Rightarrow> Some (run_handler h (s\<lparr>ts_queue := hs\<rparr>)))"
| "session_step client little Resume s = sender_resume client little s"
| "session_step client little WriteDone s =
     (case ts_phase s of
        Writing k bs \<Rightarrow> if ts_closed s then None else Some (s\<lparr>ts_wire := ts_wire s @ bs, ts_phase := Written k\<rparr>)
      | _ \<Rightarrow> None)"
| "session_step client little (WriteError n) s =
     (case ts_phase s of
        Writing k bs \<Rightarrow> if n < length bs then Some (s\<lparr>ts_wire := ts_wire s @ take n bs, ts_phase := WriteFailed\<rparr>) else None
      | _ \<Rightarrow> None)"
| "session_step client little TimerExpires s =
     (if ts_phase s = Sleeping then Some (s\<lparr>ts_phase := Woken True\<rparr>) else None)"

inductive session_reach :: "bool \<Rightarrow> bool \<Rightarrow> tcp_session \<Rightarrow> bool" for client little where
  start: "Option.bind (ts_Initialize new_tcp_session) ts_Start = Some s \<Longrightarrow> session_reach client little s"
| step: "session_reach client little s \<Longrightarrow> session_step client little a s = Some s' \<Longrightarrow> session_reach client little s'"

section \<open>Cutting the stream\<close>

lemma length_frame_head [simp]: "length (frame_head little n) = kHeadSize"
  by (simp add: frame_head_def kHeadSize_def u32c.length_encode)

lemma batch_bytes_simps [simp]:
  "batch_bytes little [] = []"
  "batch_bytes little (m # ms) = frame_head little (length m) @ m @ batch_bytes little ms"
  "batch_bytes little (ms @ ms') = batch_bytes little ms @ batch_bytes little ms'"
  by (simp_all add: batch_bytes_def)

lemma batch_bytes_host: "batch_bytes little ms = batch_bytes False ms"
  using SetBufFromUint32_host [of little] by (simp add: batch_bytes_def frame_head_def)

lemma heartbeat_is_empty_message: "kHeartbeatPkg = batch_bytes little [[]]"
proof -
  have "SetBufFromUint32 False 0 = [0, 0, 0, 0]" by (simp add: SetBufFromUint32_def)
  then show ?thesis by (simp add: kHeartbeatPkg_def frame_head_def SetBufFromUint32_host [of little])
qed

lemma frame_head_fields:
  assumes "length m < 2 ^ 32"
  shows "frame_head little (length m) ! 0 = kHeadByte1" "frame_head little (length m) ! 1 = kHeadByte2"
    "unat (GetUint32FromBuf little' (take 4 (drop 2 (frame_head little (length m) @ tail)))) = length m"
proof -
  have "take 4 (drop 2 (frame_head little (length m) @ tail)) = SetBufFromUint32 little' (of_nat (length m))"
    using SetBufFromUint32_host [of little] SetBufFromUint32_host [of little']
    by (simp add: frame_head_def u32c.length_encode)
  then show "unat (GetUint32FromBuf little' (take 4 (drop 2 (frame_head little (length m) @ tail)))) = length m"
    using assms by (simp add: u32c.decode_encode unat_of_nat)
qed (simp_all add: frame_head_def)

lemma recv_frame:
  assumes "length m \<le> lim" "lim < 2 ^ 32"
  shows "recv_frames little' lim (frame_head little (length m) @ m @ tail) =
    (m # fst (recv_frames little' lim tail), snd (recv_frames little' lim tail))"
proof -
  let ?X = "frame_head little (length m) @ m @ tail"
  have m: "length m < 2 ^ 32" using assms by simp
  note f = frame_head_fields [OF m, where little = little]
  have n: "?X ! 0 = kHeadByte1" "?X ! 1 = kHeadByte2"
    using f(1,2) by (simp_all add: nth_append kHeadSize_def)
  have len: "\<not> length ?X < kHeadSize" "\<not> length ?X < kHeadSize + length m" by simp_all
  have cut: "drop (kHeadSize + length m) ?X = tail" "take (length m) (drop kHeadSize ?X) = m" by simp_all
  have l: "(length m \<le> lim) = True" using assms(1) by simp
  have len': "(length ?X < kHeadSize) = False" "(length ?X < kHeadSize + length m) = False" using len by simp_all
  show ?thesis
    by (subst recv_frames.simps)
      (simp only: Let_def f(3) n cut len' l split_def if_False simp_thms not_True_eq_False not_False_eq_True)
qed

lemma recv_batch:
  assumes "\<forall>m \<in> set ms. length m \<le> lim" "lim < 2 ^ 32"
  shows "recv_frames little' lim (batch_bytes little ms @ tail) =
    (ms @ fst (recv_frames little' lim tail), snd (recv_frames little' lim tail))"
  using assms by (induction ms) (simp_all add: recv_frame)

text \<open>A part of a batch yields the messages that are complete in it, and more bytes are awaited.\<close>

lemma recv_part:
  assumes "prefix part (batch_bytes little ms)" "\<forall>m \<in> set ms. length m \<le> lim" "lim < 2 ^ 32"
  shows "prefix (fst (recv_frames little' lim part)) ms \<and> snd (recv_frames little' lim part) \<in> {NeedHead, NeedBody}"
  using assms
proof (induction ms arbitrary: part)
  case Nil
  then show ?case by (simp add: recv_frames.simps kHeadSize_def)
next
  case (Cons m ms)
  let ?h = "frame_head little (length m)"
  show ?case
  proof (cases "length part < kHeadSize + length m")
    case True
    show ?thesis
    proof (cases "length part < kHeadSize")
      case False
      have p: "prefix part (?h @ m @ batch_bytes little ms)" using Cons.prems(1) by simp
      then obtain r where "?h @ m @ batch_bytes little ms = part @ r" by (auto simp: prefix_def)
      from arg_cong [OF this, of "take kHeadSize"] have "take kHeadSize part = ?h" using False by simp
      then obtain body where part: "part = ?h @ body" by (metis append_take_drop_id)
      have m: "length m < 2 ^ 32" using Cons.prems(2,3) by simp
      note f = frame_head_fields [OF m, where little = little]
      have n: "part ! 0 = kHeadByte1" "part ! 1 = kHeadByte2"
        using f(1,2) by (simp_all add: part nth_append kHeadSize_def)
      have "unat (GetUint32FromBuf little' (take 4 (drop 2 part))) = length m" using f(3) by (simp add: part)
      then have "recv_frames little' lim part = ([], NeedBody)"
        using True False n Cons.prems(2) by (subst recv_frames.simps) (simp add: Let_def)
      then show ?thesis by simp
    qed (simp add: recv_frames.simps)
  next
    case False
    have "prefix (?h @ m) part"
      by (rule prefix_length_prefix [of _ "?h @ m @ batch_bytes little ms"]) (use Cons.prems(1) False in simp_all)
    then obtain part' where part: "part = ?h @ m @ part'" by (auto simp: prefix_def)
    then have "prefix part' (batch_bytes little ms)" using Cons.prems(1) by simp
    then show ?thesis using Cons.IH [of part'] Cons.prems(2,3) recv_frame [of m lim little' little part'] by (simp add: part)
  qed
qed

section \<open>The session under any interleaving\<close>

definition nonempty :: "byte list list \<Rightarrow> byte list list" where
  "nonempty ms = filter (\<lambda>m. m \<noteq> []) ms"

lemma nonempty_simps [simp]:
  "nonempty [] = []" "nonempty (ms @ ms') = nonempty ms @ nonempty ms'" "nonempty [[]] = []"
  by (simp_all add: nonempty_def)

text \<open>
  What the sender has in hand at each phase: the messages \<open>ms\<close> of a write that has not been
  reported complete, of which \<open>part\<close> has reached the wire.
\<close>

fun in_hand :: "bool \<Rightarrow> sender_phase \<Rightarrow> byte list list \<Rightarrow> byte list \<Rightarrow> bool" where
  "in_hand little (Writing k bs) ms part \<longleftrightarrow> bs = batch_bytes little ms \<and> part = []"
| "in_hand little WriteFailed ms part \<longleftrightarrow> True"
| "in_hand little SenderDone ms part \<longleftrightarrow> True"
| "in_hand little _ ms part \<longleftrightarrow> ms = [] \<and> part = []"

definition session_inv :: "bool \<Rightarrow> tcp_session \<Rightarrow> bool" where
  "session_inv little s \<longleftrightarrow>
     (\<exists>fs ms part. ts_wire s = batch_bytes little fs @ part \<and> prefix part (batch_bytes little ms) \<and>
        nonempty (ts_accepted s) = nonempty fs @ nonempty ms @ nonempty (ts_data_list s) \<and>
        in_hand little (ts_phase s) ms part) \<and>
     (ts_phase s = Sleeping \<longrightarrow> ts_data_list s = [])"

lemma session_invI:
  "ts_wire s = batch_bytes little fs @ part \<Longrightarrow> prefix part (batch_bytes little ms) \<Longrightarrow>
   nonempty (ts_accepted s) = nonempty fs @ nonempty ms @ nonempty (ts_data_list s) \<Longrightarrow>
   in_hand little (ts_phase s) ms part \<Longrightarrow> (ts_phase s = Sleeping \<longrightarrow> ts_data_list s = []) \<Longrightarrow> session_inv little s"
  unfolding session_inv_def by blast

lemma ts_Shutdown_frame [simp]:
  "ts_wire (ts_Shutdown s) = ts_wire s" "ts_accepted (ts_Shutdown s) = ts_accepted s"
  "ts_data_list (ts_Shutdown s) = ts_data_list s" "ts_phase (ts_Shutdown s) = ts_phase s"
  "ts_closed (ts_Shutdown s) = ts_closed s"
  by (simp_all add: ts_Shutdown_def)

lemma session_inv_frame [simp]:
  "session_inv little (s\<lparr>ts_queue := q\<rparr>) = session_inv little s"
  "session_inv little (s\<lparr>ts_closed := c\<rparr>) = session_inv little s"
  by (simp_all add: session_inv_def)

lemma session_inv_Shutdown [simp]: "session_inv little (ts_Shutdown s) = session_inv little s"
  by (simp add: session_inv_def)

text \<open>Between two writes: everything handed to the socket is on the wire.\<close>

definition between_writes :: "bool \<Rightarrow> tcp_session \<Rightarrow> bool" where
  "between_writes little s \<longleftrightarrow>
     (\<exists>fs. ts_wire s = batch_bytes little fs \<and> nonempty (ts_accepted s) = nonempty fs @ nonempty (ts_data_list s))"

lemma inner_loop_inv:
  assumes "between_writes little s"
  shows "session_inv little (inner_loop little s)"
proof -
  obtain fs where fs: "ts_wire s = batch_bytes little fs" "nonempty (ts_accepted s) = nonempty fs @ nonempty (ts_data_list s)"
    using assms by (auto simp: between_writes_def)
  show ?thesis
    by (rule session_invI [of _ _ fs "[]" "ts_data_list s"]) (use fs in \<open>auto simp: inner_loop_def\<close>)
qed

lemma outer_loop_inv:
  assumes "between_writes little s"
  shows "session_inv little (outer_loop little s)"
proof (cases "ts_state s = kStart")
  case False
  obtain fs where fs: "ts_wire s = batch_bytes little fs" "nonempty (ts_accepted s) = nonempty fs @ nonempty (ts_data_list s)"
    using assms by (auto simp: between_writes_def)
  have "session_inv little (s\<lparr>ts_phase := SenderDone\<rparr>)"
    by (rule session_invI [of _ _ fs "[]" "[]"]) (use fs in auto)
  then show ?thesis using False by (simp add: outer_loop_def sender_finish_def)
qed (simp add: outer_loop_def inner_loop_inv [OF assms])

lemma session_inv_between:
  assumes "session_inv little s" "ts_phase s \<in> {NotSpawned, Written Batch, Written Heartbeat, Sleeping, Woken b}"
  shows "between_writes little s"
  using assms by (auto simp: session_inv_def between_writes_def)

lemma sender_resume_inv:
  assumes "session_inv little s" "sender_resume client little s = Some s'"
  shows "session_inv little s'"
proof (cases "ts_phase s")
  case (Written k)
  then show ?thesis using assms inner_loop_inv outer_loop_inv session_inv_between [OF assms(1)] by (cases k) auto
next
  case (Woken b)
  have bw: "between_writes little s" using session_inv_between [OF assms(1), of b] Woken by simp
  then obtain fs where fs: "ts_wire s = batch_bytes little fs" "nonempty (ts_accepted s) = nonempty fs @ nonempty (ts_data_list s)"
    by (auto simp: between_writes_def)
  have "session_inv little (s\<lparr>ts_phase := Writing Heartbeat kHeartbeatPkg\<rparr>)"
    by (rule session_invI [of _ _ fs "[]" "[[]]"]) (use fs in \<open>auto simp: heartbeat_is_empty_message [of little]\<close>)
  then show ?thesis using assms(2) Woken outer_loop_inv [OF bw] by (auto split: if_splits)
next
  case NotSpawned
  then show ?thesis using assms outer_loop_inv session_inv_between [OF assms(1)] by (auto split: if_splits)
next
  case WriteFailed
  then obtain fs ms part where "ts_wire s = batch_bytes little fs @ part" "prefix part (batch_bytes little ms)"
    "nonempty (ts_accepted s) = nonempty fs @ nonempty ms @ nonempty (ts_data_list s)"
    using assms(1) by (auto simp: session_inv_def)
  then have "session_inv little (s\<lparr>ts_phase := SenderDone\<rparr>)" by (intro session_invI) auto
  then show ?thesis using assms(2) WriteFailed by (auto simp: sender_finish_def)
qed (use assms in auto)

lemma cancel_timer_inv:
  assumes "session_inv little s"
  shows "session_inv little (cancel_timer s)"
  using assms by (auto simp: cancel_timer_def session_inv_def)

lemma session_step_inv:
  assumes "session_inv little s" "session_step client little a s = Some s'"
  shows "session_inv little s'"
proof (cases a)
  case (SendMsg m)
  then show ?thesis using assms by (auto simp: ts_SendMsg_def)
next
  case ShutdownCall
  then show ?thesis using assms by auto
next
  case RunHandler
  then obtain h hs where q: "ts_queue s = h # hs" "s' = run_handler h (s\<lparr>ts_queue := hs\<rparr>)"
    using assms(2) by (auto split: list.splits)
  show ?thesis
  proof (cases h)
    case (HSend m)
    obtain fs ms part where i: "ts_wire s = batch_bytes little fs @ part" "prefix part (batch_bytes little ms)"
      "nonempty (ts_accepted s) = nonempty fs @ nonempty ms @ nonempty (ts_data_list s)" "in_hand little (ts_phase s) ms part"
      using assms(1) by (auto simp: session_inv_def)
    let ?s = "s\<lparr>ts_queue := hs, ts_data_list := ts_data_list s @ [m], ts_accepted := ts_accepted s @ [m]\<rparr>"
    have "session_inv little (cancel_timer ?s)"
      by (rule session_invI [of _ _ fs part ms]) (use i in \<open>auto simp: cancel_timer_def\<close>)
    then show ?thesis using q HSend assms(1) by simp
  next
    case HStop
    have "session_inv little (s\<lparr>ts_queue := hs\<rparr>)" using assms(1) by simp
    from cancel_timer_inv [OF this] show ?thesis using q HStop by simp
  qed
next
  case Resume
  then show ?thesis using assms sender_resume_inv by simp
next
  case WriteDone
  then obtain k bs where p: "ts_phase s = Writing k bs" "s' = s\<lparr>ts_wire := ts_wire s @ bs, ts_phase := Written k\<rparr>"
    using assms(2) by (auto split: sender_phase.splits if_splits)
  then obtain fs ms where i: "ts_wire s = batch_bytes little fs" "bs = batch_bytes little ms"
    "nonempty (ts_accepted s) = nonempty fs @ nonempty ms @ nonempty (ts_data_list s)"
    using assms(1) by (auto simp: session_inv_def)
  show ?thesis
    by (rule session_invI [of _ _ "fs @ ms" "[]" "[]"]) (use i p in \<open>cases k; auto\<close>)+
next
  case (WriteError n)
  then obtain k bs where p: "ts_phase s = Writing k bs" "s' = s\<lparr>ts_wire := ts_wire s @ take n bs, ts_phase := WriteFailed\<rparr>"
    using assms(2) by (auto split: sender_phase.splits if_splits)
  then obtain fs ms where i: "ts_wire s = batch_bytes little fs" "bs = batch_bytes little ms"
    "nonempty (ts_accepted s) = nonempty fs @ nonempty ms @ nonempty (ts_data_list s)"
    using assms(1) by (auto simp: session_inv_def)
  show ?thesis
    by (rule session_invI [of _ _ fs "take n bs" ms]) (use i p in \<open>auto simp: take_is_prefix\<close>)
next
  case TimerExpires
  then show ?thesis using assms by (auto simp: session_inv_def split: if_splits)
qed

lemma session_reach_inv: "session_reach client little s \<Longrightarrow> session_inv little s"
proof (induction rule: session_reach.induct)
  case (start s)
  then have "s = new_tcp_session\<lparr>ts_state := kStart\<rparr>"
    by (auto simp: ts_Initialize_def ts_Start_def new_tcp_session_def)
  then show ?case by (intro session_invI [of _ _ "[]" "[]" "[]"]) (auto simp: new_tcp_session_def)
next
  case (step s a s')
  then show ?case using session_step_inv by blast
qed

section \<open>What the peer receives\<close>

text \<open>
  C20. Under any interleaving of sending threads, shutdown, timer and socket, the peer cuts what
  has arrived into a prefix of the messages the session accepted, in order and unchanged, with
  empty heartbeats in between, and then waits for more; and whenever the sender sleeps, nothing
  it has accepted is left behind. The limit of the receiver is the only condition on the
  messages; the byte orders of the two machines do not matter.
\<close>

theorem tcp_session_delivers:
  assumes "session_reach client little s" "\<forall>m \<in> set (ts_accepted s). length m \<le> lim" "lim < 2 ^ 32"
  shows "\<exists>ms st. recv_frames little' lim (ts_wire s) = (ms, st) \<and> st \<in> {NeedHead, NeedBody} \<and>
    prefix (nonempty ms) (nonempty (ts_accepted s)) \<and>
    (ts_phase s = Sleeping \<longrightarrow> nonempty ms = nonempty (ts_accepted s))"
proof -
  have inv: "session_inv little s" by (rule session_reach_inv [OF assms(1)])
  then obtain fs ms part where i: "ts_wire s = batch_bytes little fs @ part" "prefix part (batch_bytes little ms)"
    "nonempty (ts_accepted s) = nonempty fs @ nonempty ms @ nonempty (ts_data_list s)" "in_hand little (ts_phase s) ms part"
    by (auto simp: session_inv_def)
  have small: "length m \<le> lim" if "m \<in> set fs \<union> set ms" for m
  proof (cases "m = []")
    case False
    then have "m \<in> set (nonempty (ts_accepted s))" using that i(3) by (auto simp: nonempty_def)
    then show ?thesis using assms(2) by (simp add: nonempty_def)
  qed simp
  have fs: "\<forall>m \<in> set fs. length m \<le> lim" and ms: "\<forall>m \<in> set ms. length m \<le> lim" using small by auto
  note p = recv_part [OF i(2) ms assms(3), of little']
  have r: "recv_frames little' lim (ts_wire s) = (fs @ fst (recv_frames little' lim part), snd (recv_frames little' lim part))"
    unfolding i(1) by (rule recv_batch [OF fs assms(3)])
  have "prefix (nonempty (fst (recv_frames little' lim part))) (nonempty ms)"
    using p by (auto simp: prefix_def)
  then have "prefix (nonempty (fs @ fst (recv_frames little' lim part))) (nonempty (ts_accepted s))"
    using i(3) by (auto simp: prefix_def)
  moreover have "nonempty (fs @ fst (recv_frames little' lim part)) = nonempty (ts_accepted s)" if "ts_phase s = Sleeping"
    using that i inv by (simp add: session_inv_def recv_frames.simps kHeadSize_def)
  ultimately show ?thesis using r p by blast
qed

text \<open>Runs of a session, for the examples.\<close>

fun session_run :: "bool \<Rightarrow> bool \<Rightarrow> session_act list \<Rightarrow> tcp_session \<Rightarrow> tcp_session option" where
  "session_run client little [] s = Some s"
| "session_run client little (a # as) s =
     (case session_step client little a s of None \<Rightarrow> None | Some s' \<Rightarrow> session_run client little as s')"

definition started_session :: tcp_session where
  "started_session = new_tcp_session\<lparr>ts_state := kStart\<rparr>"

lemma session_run_reach:
  "session_reach client little s \<Longrightarrow> session_run client little as s = Some s' \<Longrightarrow> session_reach client little s'"
  by (induction as arbitrary: s) (auto intro: session_reach.step split: option.splits)

lemma started_reach: "session_reach client little started_session"
  by (rule session_reach.start) (simp add: ts_Initialize_def ts_Start_def new_tcp_session_def started_session_def)

lemmas session_evals = ts_SendMsg_def ts_Shutdown_def cancel_timer_def inner_loop_def outer_loop_def sender_finish_def
  started_session_def new_tcp_session_def

theorem tcp_session_delivers_witness:
  "\<exists>s ms st. session_reach True True s \<and> ts_phase s = Sleeping \<and>
    recv_frames False 100 (ts_wire s) = (ms, st) \<and> nonempty ms = [[1, 2], [3]]"
proof -
  let ?as = "[Resume, SendMsg [1, 2], RunHandler, SendMsg [3], Resume, RunHandler, WriteDone, Resume, WriteDone, Resume]"
  obtain s where s: "session_run True True ?as started_session = Some s" "ts_phase s = Sleeping" "ts_accepted s = [[1, 2], [3]]"
    by (simp add: session_evals)
  have r: "session_reach True True s" by (rule session_run_reach [OF started_reach s(1)])
  have small: "\<forall>m \<in> set (ts_accepted s). length m \<le> 100" "(100 :: nat) < 2 ^ 32" by (simp_all add: s(3))
  from tcp_session_delivers [OF r small, of False] obtain ms st where
    "recv_frames False 100 (ts_wire s) = (ms, st)" "nonempty ms = nonempty (ts_accepted s)" using s(2) by auto
  then show ?thesis using r s(2,3) by (auto simp: nonempty_def)
qed

text \<open>
  The sender does not look at the state between a completed write and its sleep. When the
  handler of a shutdown runs while the completion of a write is queued, the cancellation finds
  no pending wait, and the sender goes to sleep on a session that is shut down, with nothing
  left that could wake it before its timer (60 seconds in the client, an hour in the server).
\<close>

theorem sender_sleeps_on_closed_session:
  "\<exists>s. session_reach client little s \<and> ts_state s = kShutdown \<and> ts_closed s \<and> ts_phase s = Sleeping \<and> ts_queue s = [] \<and>
    (\<forall>a s'. session_step client little a s = Some s' \<and> a \<noteq> TimerExpires \<longrightarrow> ts_phase s' = Sleeping)"
proof -
  let ?as = "[Resume, SendMsg [1], RunHandler, Resume, WriteDone, ShutdownCall, RunHandler, Resume]"
  obtain s where s: "session_run client little ?as started_session = Some s" "ts_state s = kShutdown" "ts_closed s"
    "ts_phase s = Sleeping" "ts_queue s = []"
    by (simp add: session_evals)
  have "session_reach client little s" by (rule session_run_reach [OF started_reach s(1)])
  moreover have "ts_phase s' = Sleeping" if "session_step client little a s = Some s'" "a \<noteq> TimerExpires" for a s'
    using that s(2-5) by (cases a) (auto simp: ts_SendMsg_def ts_Shutdown_def)
  ultimately show ?thesis using s(2-5) by blast
qed

theorem sender_sleeps_on_closed_session_witness:
  "\<exists>s. session_reach False True s \<and> ts_state s = kShutdown \<and> ts_closed s \<and> ts_phase s = Sleeping"
  using sender_sleeps_on_closed_session [of False True] by blast

section \<open>Stopping step by step\<close>

text \<open>
  The loop around the \<open>switch\<close> in every \<open>Shutdown\<close>: the cases fall through, an exception ends
  the pass, and the loop goes on behind the case that threw. \<open>throws k\<close> says whether case \<open>k\<close>
  throws; the result is the list of the cases that were begun. The loop variable grows by one
  in each pass or becomes zero.
\<close>

function stop_pass :: "(nat \<Rightarrow> bool) \<Rightarrow> nat \<Rightarrow> nat \<Rightarrow> nat list \<times> nat" where
  "stop_pass throws n step =
     (if step = 0 \<or> n < step then ([], 0)
      else if throws step then ([step], step + 1)
      else case stop_pass throws n (step + 1) of (done_steps, next_step) \<Rightarrow> (step # done_steps, next_step))"
  by pat_completeness auto
termination by (relation "measure (\<lambda>(_, n, step). Suc n - step)") auto

declare stop_pass.simps [simp del]

lemma stop_pass_next: "0 < step \<Longrightarrow> snd (stop_pass throws n step) = 0 \<or> step < snd (stop_pass throws n step)"
proof (induction throws n step rule: stop_pass.induct)
  case (1 throws n step)
  then show ?case by (subst (1 2) stop_pass.simps) (auto simp: split_def)
qed

lemma stop_pass_last: "snd (stop_pass throws n step) \<le> Suc n"
  by (induction throws n step rule: stop_pass.induct) (subst stop_pass.simps, auto simp: split_def)

function stop_loop :: "(nat \<Rightarrow> bool) \<Rightarrow> nat \<Rightarrow> nat \<Rightarrow> nat list" where
  "stop_loop throws n step =
     (if step = 0 then []
      else case stop_pass throws n step of (begun, next_step) \<Rightarrow> begun @ stop_loop throws n next_step)"
  by pat_completeness auto
termination
proof (relation "measure (\<lambda>(_, n, step). if step = 0 then 0 else Suc (Suc n - step))")
  fix throws :: "nat \<Rightarrow> bool" and n step begun next_step
  assume step: "step \<noteq> 0" "(begun, next_step) = stop_pass throws n step"
  have "snd (stop_pass throws n step) = next_step" using step(2) by (metis snd_conv)
  then show "((throws, n, next_step), throws, n, step) \<in> measure (\<lambda>(_, n, step). if step = 0 then 0 else Suc (Suc n - step))"
    using stop_pass_next [of step throws n] stop_pass_last [of throws n step] step(1)
    by (cases "next_step = 0"; cases "n < step") (auto simp: stop_pass.simps)
qed simp

declare stop_loop.simps [simp del]

lemma stop_pass_spec:
  "0 < step \<Longrightarrow> stop_pass throws n step = (begun, k) \<Longrightarrow>
   (k = 0 \<and> begun = [step..<Suc n]) \<or> (step < k \<and> k \<le> Suc n \<and> begun = [step..<k])"
proof (induction throws n step arbitrary: begun rule: stop_pass.induct)
  case (1 throws n step)
  show ?case
  proof (cases "n < step \<or> throws step")
    case True
    then show ?thesis using "1.prems" by (auto simp: stop_pass.simps [of throws n step] split: if_splits)
  next
    case False
    obtain b where b: "stop_pass throws n (step + 1) = (b, k)" "begun = step # b"
      using "1.prems" False by (auto simp: stop_pass.simps [of throws n step] split: prod.splits)
    then show ?thesis using "1.IH" [of b] False "1.prems"(1) by (auto simp: upt_rec [of step])
  qed
qed

lemma stop_loop_from: "0 < step \<Longrightarrow> stop_loop throws n step = [step..<Suc n]"
proof (induction throws n step rule: stop_loop.induct)
  case (1 throws n step)
  obtain begun k where p: "stop_pass throws n step = (begun, k)" by fastforce
  show ?case
  proof (cases "k = 0")
    case True
    then show ?thesis using stop_pass_spec [OF "1.prems" p] "1.prems"
      by (subst stop_loop.simps) (simp add: p stop_loop.simps [of _ _ 0])
  next
    case False
    then have k: "step < k" "k \<le> Suc n" "begun = [step..<k]" using stop_pass_spec [OF "1.prems" p] by auto
    then have "stop_loop throws n k = [k..<Suc n]" using "1.IH" [OF _ p [symmetric]] "1.prems" by auto
    then show ?thesis using k "1.prems" upt_add_eq_append [of step k "Suc n - k"]
      by (subst stop_loop.simps) (simp add: p)
  qed
qed

text \<open>
  Whichever of the \<open>n\<close> cases throw, the loop ends and has begun every one of them exactly
  once and in order: no exception makes the shutdown skip the release of what comes behind.
\<close>

theorem stop_loop_begins_every_step: "stop_loop throws n 1 = [1..<Suc n]"
  by (rule stop_loop_from) simp

end
