(* ===== verification/Frames.thy ===== *)
theory Frames
  imports BufferUtil ChannelMsg UrlUtil
begin

text \<open>
  The package layout the network backends share (\<open>tcp_channel_backend.cc\<close>,
  \<open>udp_channel_backend.cc\<close>, \<open>mqtt_channel_backend.cc\<close>, \<open>mqtt_rpc_backend.cc\<close>): strings behind
  a one- or two-byte length, a count of metadata pairs and the pairs, and the serialised
  message up to the end of the package. Everything is written and read with the cursors of
  \<open>buffer_util.h\<close>. The first sections give those cursors a stream view: what has been
  written so far, and what is still to be read.
\<close>

section \<open>Strings as bytes\<close>

definition octets :: "string \<Rightarrow> byte list" where
  "octets s = map of_char s"

definition chars_of :: "byte list \<Rightarrow> string" where
  "chars_of bs = map (\<lambda>b. char_of (unat b)) bs"

lemma unat_of_char: "unat (of_char c :: byte) = of_char c"
  by (cases c) (auto simp: of_char_def horner_sum_simps)

lemma chars_of_octets [simp]: "chars_of (octets s) = s"
  by (induction s) (simp_all add: chars_of_def octets_def unat_of_char)

lemma length_octets [simp]: "length (octets s) = length s"
  by (simp add: octets_def)

section \<open>A write cursor as a stream\<close>

definition room :: "buffer_operator \<Rightarrow> nat" where
  "room b = bo_end b - bo_cur b"

definition out :: "buffer_operator \<Rightarrow> byte list" where
  "out b = take (bo_cur b - bo_start b) (bo_mem b)"

text \<open>\<open>wrote b bs b'\<close>: from \<open>b\<close> the code has appended exactly \<open>bs\<close>.\<close>

definition wrote :: "buffer_operator \<Rightarrow> byte list \<Rightarrow> buffer_operator \<Rightarrow> bool" where
  "wrote b bs b' \<longleftrightarrow> buf_wf b' \<and> out b' = out b @ bs \<and> room b' + length bs = room b"

lemma wrote_wf: "wrote b bs b' \<Longrightarrow> buf_wf b'"
  by (simp add: wrote_def)

lemma wrote_refl: "buf_wf b \<Longrightarrow> wrote b [] b"
  by (simp add: wrote_def)

lemma wrote_mem: "buf_wf b \<Longrightarrow> wrote b bs b' \<Longrightarrow> length (bo_mem b') = length (bo_mem b)"
  by (auto simp: wrote_def buf_wf_def out_def room_def dest!: arg_cong [of _ _ length])

lemma wrote_trans: "wrote b bs b1 \<Longrightarrow> wrote b1 cs b2 \<Longrightarrow> wrote b (bs @ cs) b2"
  by (auto simp: wrote_def)

lemma room_small: "buf_wf b \<Longrightarrow> room b \<le> 2 ^ 63"
  by (auto simp: buf_wf_def room_def)

lemma SetBuffer_wrote:
  assumes "buf_wf b" "length bs \<le> room b" "length bs < 2 ^ 63"
  shows "\<exists>b'. SetBuffer bs b = Inr b' \<and> wrote b bs b'"
proof -
  let ?off = "bo_cur b - bo_start b"
  let ?b = "b\<lparr>bo_mem := splice ?off bs (bo_mem b), bo_cur := bo_cur b + length bs\<rparr>"
  have w: "SetBuffer bs b = Inr ?b"
    using assms by (simp add: SetBuffer_wf_eq GetRemainingSize_def room_def)
  have mem: "?off + length bs \<le> length (bo_mem b)" and cur: "bo_start b \<le> bo_cur b"
    using assms by (auto simp: buf_wf_def room_def)
  have "take (?off + length bs) (splice ?off bs (bo_mem b)) = take ?off (bo_mem b) @ bs"
    using mem by (simp add: splice_def)
  then have "out ?b = out b @ bs" using cur by (simp add: out_def Nat.add_diff_assoc2)
  moreover have "buf_wf ?b" by (rule SetBuffer_keeps_wf [OF assms(1,3) w])
  moreover have "room ?b + length bs = room b" using assms(2) by (auto simp: room_def)
  ultimately show ?thesis using w by (simp add: wrote_def)
qed

text \<open>The bytes \<open>SetString\<close> writes.\<close>

definition string_bytes :: "bool \<Rightarrow> BufferLenType \<Rightarrow> byte list \<Rightarrow> byte list" where
  "string_bytes little t s = len_bytes little t (length s) @ s"

lemma length_string_bytes [simp]: "length (string_bytes little t s) = len_type_size t + length s"
  by (simp add: string_bytes_def)

lemma SetString_wrote:
  assumes "buf_wf b" "len_type_size t + length s \<le> room b" "length s \<le> len_max t" "length s < 2 ^ 62"
  shows "\<exists>b'. SetString little s t b = Inr b' \<and> wrote b (string_bytes little t s) b'"
proof -
  have "SetString little s t b = SetBuffer (string_bytes little t s) b"
    using assms by (simp add: SetString_wf_eq GetRemainingSize_def room_def string_bytes_def)
  then show ?thesis
    using SetBuffer_wrote [OF assms(1), of "string_bytes little t s"] assms(2,4) len_type_size_small [of t]
    by simp
qed

lemma SetString_too_long:
  assumes "buf_wf b" "len_max t < length s" "length s < 2 ^ 62"
  shows "\<exists>e. SetString little s t b = Inl e"
  using assms by (simp add: SetString_wf_eq)

section \<open>A read cursor as a stream\<close>

definition rest :: "buffer_operator \<Rightarrow> byte list" where
  "rest b = drop (bo_cur b - bo_start b) (bo_mem b)"

text \<open>Reading only moves the pointer: the region stays the same.\<close>

definition same_region :: "buffer_operator \<Rightarrow> buffer_operator \<Rightarrow> bool" where
  "same_region b b' \<longleftrightarrow> bo_start b' = bo_start b \<and> bo_end b' = bo_end b \<and> bo_mem b' = bo_mem b"

lemma same_region_refl [simp]: "same_region b b"
  by (simp add: same_region_def)

lemma same_region_trans: "same_region b b1 \<Longrightarrow> same_region b1 b2 \<Longrightarrow> same_region b b2"
  by (simp add: same_region_def)

lemma view_load_same: "same_region b b' \<Longrightarrow> view_load b' v = view_load b v"
  by (simp add: view_load_def view_bytes_def same_region_def)

lemma view_load_inside: "buf_wf b \<Longrightarrow> view_inside b v \<Longrightarrow> view_load b v = Inr (view_bytes b v)"
  by (auto simp: view_load_def view_inside_def buf_wf_def)

lemma length_rest: "buf_wf b \<Longrightarrow> length (rest b) = GetRemainingSize b"
  by (auto simp: rest_def buf_wf_def GetRemainingSize_def)

lemma rest_small: "buf_wf b \<Longrightarrow> length (rest b) \<le> 2 ^ 63"
  by (auto simp: length_rest GetRemainingSize_def buf_wf_def)

lemma rest_mk: "rest (mk_buffer_operator p bs) = bs"
  by (simp add: rest_def mk_buffer_operator_def)

lemma GetBytes_stream:
  assumes "buf_wf b" "n < 2 ^ 63"
  shows "if n \<le> length (rest b)
    then \<exists>b'. GetBytes n b = Inr (take n (rest b), b') \<and> buf_wf b' \<and> same_region b b' \<and> rest b' = drop n (rest b)
    else GetBytes n b = Inl BufferOutOfBounds"
proof (cases "n \<le> length (rest b)")
  case True
  let ?b = "b\<lparr>bo_cur := bo_cur b + n\<rparr>"
  have g: "GetBytes n b = Inr (take n (rest b), ?b)"
    using True assms unfolding length_rest [OF assms(1)] by (simp add: GetBytes_wf_eq rest_def)
  have "bo_cur b + n - bo_start b = n + (bo_cur b - bo_start b)" using assms(1) by (auto simp: buf_wf_def)
  then have "rest ?b = drop n (rest b)" by (simp add: rest_def)
  then show ?thesis using True g GetBytes_keeps_wf [OF assms g] by (simp add: same_region_def)
next
  case False
  then show ?thesis using assms by (simp add: GetBytes_wf_eq length_rest)
qed

lemma GetBuffer_stream:
  assumes "buf_wf b" "n < 2 ^ 63"
  shows "if n \<le> length (rest b)
    then \<exists>v b'. GetBuffer n b = Inr (v, b') \<and> view_load b v = Inr (take n (rest b)) \<and> view_inside b v \<and> buf_wf b' \<and>
      same_region b b' \<and> rest b' = drop n (rest b)
    else GetBuffer n b = Inl BufferOutOfBounds"
proof (cases "n \<le> length (rest b)")
  case True
  let ?b = "b\<lparr>bo_cur := bo_cur b + n\<rparr>"
  have g: "GetBuffer n b = Inr ((bo_cur b, n), ?b)"
    using True assms by (simp add: GetBuffer_wf_eq length_rest)
  have "bo_cur b + n - bo_start b = n + (bo_cur b - bo_start b)" using assms(1) by (auto simp: buf_wf_def)
  then have "rest ?b = drop n (rest b)" by (simp add: rest_def)
  moreover have "view_inside b (bo_cur b, n)" using True assms(1)
    by (auto simp: view_inside_def length_rest GetRemainingSize_def buf_wf_def)
  ultimately show ?thesis using True g GetBuffer_keeps_wf [OF assms g] view_load_inside [OF assms(1)]
    by (auto simp: same_region_def view_bytes_def rest_def)
next
  case False
  then show ?thesis using assms by (simp add: GetBuffer_wf_eq length_rest)
qed

lemma len_value_small: "t \<noteq> kUInt64 \<Longrightarrow> len_value little t p < 2 ^ 32"
  using unat_bound [of "p ! 0"] unat_bound [of "GetUint16FromBuf little p"]
    unat_bound [of "GetUint32FromBuf little p"]
  by (cases t) simp_all

text \<open>
  A string read with a length of at most four bytes either lies inside the region or makes the
  code throw, whatever the bytes are.
\<close>

lemma GetString_safe:
  assumes "buf_wf b" "t \<noteq> kUInt64"
  shows "GetString little t b = Inl BufferOutOfBounds \<or>
    (\<exists>v b'. GetString little t b = Inr (v, b') \<and> view_inside b v \<and> buf_wf b' \<and> same_region b b' \<and>
      length (rest b') < length (rest b))"
proof (cases "len_type_size t \<le> length (rest b)")
  case True
  have k: "len_type_size t < 2 ^ 63" "0 < len_type_size t" using len_type_size_small [of t] by (simp, cases t) auto
  obtain b1 where b1: "GetBytes (len_type_size t) b = Inr (take (len_type_size t) (rest b), b1)" "buf_wf b1"
    "same_region b b1" "rest b1 = drop (len_type_size t) (rest b)"
    using GetBytes_stream [OF assms(1) k(1)] True by auto
  let ?n = "len_value little t (take (len_type_size t) (rest b))"
  have n: "?n < 2 ^ 63" using len_value_small [OF assms(2), of little "take (len_type_size t) (rest b)"] by simp
  have inside: "view_inside b1 v \<Longrightarrow> view_inside b v" for v
    using b1(3) by (simp add: view_inside_def same_region_def)
  show ?thesis
    using GetBuffer_stream [OF b1(2) n] b1 inside k(2) True
    by (auto simp: GetString_unfold split: if_splits intro: same_region_trans)
next
  case False
  have "len_type_size t < 2 ^ 63" using len_type_size_small [of t] by simp
  then show ?thesis using GetBytes_stream [OF assms(1), of "len_type_size t"] False by (simp add: GetString_unfold)
qed

lemma GetString_stream:
  assumes "buf_wf b" "length s \<le> len_max t" "rest b = string_bytes little t s @ tail"
  shows "\<exists>v b'. GetString little t b = Inr (v, b') \<and> view_load b v = Inr s \<and> buf_wf b' \<and> same_region b b' \<and> rest b' = tail"
proof -
  let ?k = "len_type_size t"
  have "len_type_size t + length s + length tail \<le> 2 ^ 63"
    using rest_small [OF assms(1)] by (simp add: assms(3))
  then have s: "length s < 2 ^ 63" and k: "?k < 2 ^ 63" using len_type_size_small [of t] by (cases t; simp)+
  obtain b1 where b1: "GetBytes ?k b = Inr (len_bytes little t (length s), b1)" "buf_wf b1" "same_region b b1"
    "rest b1 = s @ tail"
    using GetBytes_stream [OF assms(1) k] by (auto simp: assms(3) string_bytes_def)
  obtain v b2 where "GetBuffer (length s) b1 = Inr (v, b2)" "view_load b1 v = Inr s" "buf_wf b2" "same_region b1 b2" "rest b2 = tail"
    using GetBuffer_stream [OF b1(2) s] by (auto simp: b1(4))
  then show ?thesis using b1(1,3) assms(2) view_load_same [OF b1(3)]
    by (auto simp: GetString_unfold len_value_bytes intro: same_region_trans)
qed

lemma GetUint8_stream:
  assumes "buf_wf b"
  shows "case rest b of [] \<Rightarrow> GetUint8 b = Inl BufferOutOfBounds
    | x # xs \<Rightarrow> \<exists>b'. GetUint8 b = Inr (x, b') \<and> buf_wf b' \<and> same_region b b' \<and> rest b' = xs"
  using GetBytes_stream [OF assms, of 1] by (cases "rest b") (auto simp: GetUint8_def)

lemma GetUint32_stream:
  assumes "buf_wf b" "rest b = SetBufFromUint32 little n @ tail"
  shows "\<exists>b'. GetUint32 little b = Inr (n, b') \<and> buf_wf b' \<and> same_region b b' \<and> rest b' = tail"
  using GetBytes_stream [OF assms(1), of 4] assms(2)
  by (auto simp: GetUint32_def u32c.length_encode u32c.decode_encode)

lemma GetRemainingBuffer_stream:
  assumes "buf_wf b" "length (rest b) < 2 ^ 63"
  shows "\<exists>v b'. GetRemainingBuffer b = Inr (v, b') \<and> view_load b v = Inr (rest b) \<and> view_inside b v"
  using GetBuffer_stream [OF assms] length_rest [OF assms(1)] by (auto simp: GetRemainingBuffer_def)

section \<open>The channel package\<close>

text \<open>\<open>GetMetaKeyValsArray\<close>: keys and values of the metadata in turn.\<close>

definition GetMetaKeyValsArray :: "channel_context \<Rightarrow> string list" where
  "GetMetaKeyValsArray cx = concat (map (\<lambda>(k, v). [k, v]) (cx_meta cx))"

text \<open>The size the code computes for the package before it writes it, as a number.\<close>

definition context_meta_kv_size :: "string list \<Rightarrow> nat" where
  "context_meta_kv_size kvs = 1 + sum_list (map (\<lambda>s. 2 + length s) kvs)"

text \<open>
  Writing: the serialisation type, the number of pairs, the pairs and the segments of the
  serialised message.
\<close>

definition put_strings :: "bool \<Rightarrow> BufferLenType \<Rightarrow> string list \<Rightarrow> buffer_operator \<Rightarrow> (buffer_error, buffer_operator) result" where
  "put_strings little t ss b = foldR (\<lambda>s. SetString little (octets s) t) ss b"

definition put_meta :: "bool \<Rightarrow> string list \<Rightarrow> buffer_operator \<Rightarrow> (buffer_error, buffer_operator) result" where
  "put_meta little kvs b = bindR (SetUint8 (of_nat (length kvs div 2)) b) (put_strings little kUInt16 kvs)"

definition put_segments :: "byte list list \<Rightarrow> buffer_operator \<Rightarrow> (buffer_error, buffer_operator) result" where
  "put_segments segs b = foldR SetBuffer segs b"

definition put_channel_body ::
  "bool \<Rightarrow> string \<Rightarrow> string list \<Rightarrow> byte list list \<Rightarrow> buffer_operator \<Rightarrow> (buffer_error, buffer_operator) result" where
  "put_channel_body little serialization_type kvs segs b =
     bindR (SetString little (octets serialization_type) kUInt8 b)
       (\<lambda>b. bindR (put_meta little kvs b) (put_segments segs))"

text \<open>Reading: the loop over the pairs sets them in the context.\<close>

fun get_pairs :: "bool \<Rightarrow> nat \<Rightarrow> (string \<times> string) list \<Rightarrow> buffer_operator \<Rightarrow>
    (buffer_error, (string \<times> string) list \<times> buffer_operator) result" where
  "get_pairs little 0 acc b = Inr (acc, b)"
| "get_pairs little (Suc n) acc b =
     bindR (GetString little kUInt16 b) (\<lambda>(k, b1).
       bindR (GetString little kUInt16 b1) (\<lambda>(v, b2).
         bindR (view_load b k) (\<lambda>k. bindR (view_load b1 v) (\<lambda>v.
           get_pairs little n (AList.update (chars_of k) (chars_of v) acc) b2))))"

definition get_channel_body ::
  "bool \<Rightarrow> string \<Rightarrow> buffer_operator \<Rightarrow> (buffer_error, channel_context \<times> string \<times> byte list) result" where
  "get_channel_body little name b =
     bindR (GetString little kUInt8 b) (\<lambda>(t, b1). bindR (view_load b t) (\<lambda>t.
       let serialization_type = chars_of t;
           cx = SetSerializationType serialization_type \<lparr>cx_publisher = False, cx_used = False, cx_meta = []\<rparr> in
       bindR (GetUint8 b1) (\<lambda>(ctx_num, b2).
         bindR (get_pairs little (unat ctx_num) (cx_meta cx) b2) (\<lambda>(meta, b3).
           bindR (GetRemainingBuffer b3) (\<lambda>(v, b4). bindR (view_load b3 v) (\<lambda>msg.
             Inr (SetMetaValue ''aimrt-backend'' name (cx\<lparr>cx_meta := meta\<rparr>), serialization_type, msg)))))))"

section \<open>What is written is what is read\<close>

text \<open>The bytes of a package.\<close>

definition meta_bytes :: "bool \<Rightarrow> string list \<Rightarrow> byte list" where
  "meta_bytes little kvs =
     of_nat (length kvs div 2) # concat (map (\<lambda>s. string_bytes little kUInt16 (octets s)) kvs)"

definition channel_body :: "bool \<Rightarrow> string \<Rightarrow> string list \<Rightarrow> byte list \<Rightarrow> byte list" where
  "channel_body little t kvs msg = string_bytes little kUInt8 (octets t) @ meta_bytes little kvs @ msg"

text \<open>What the length fields can hold.\<close>

definition meta_fits :: "string list \<Rightarrow> bool" where
  "meta_fits kvs \<longleftrightarrow> length kvs div 2 \<le> 255 \<and> (\<forall>s \<in> set kvs. length s \<le> 65535)"

lemma length_meta_bytes: "length (meta_bytes little kvs) = context_meta_kv_size kvs"
proof -
  have "(\<Sum>s\<leftarrow>kvs. Suc (Suc (length s))) = (\<Sum>s\<leftarrow>kvs. 2 + length s)" by simp
  then show ?thesis by (simp add: meta_bytes_def context_meta_kv_size_def length_concat comp_def)
qed

lemma length_channel_body:
  "length (channel_body little t kvs msg) = 1 + length t + context_meta_kv_size kvs + length msg"
  by (simp add: channel_body_def length_meta_bytes)

lemma put_strings_wrote:
  assumes "buf_wf b" "\<forall>s \<in> set ss. length s \<le> len_max t" "t = kUInt8 \<or> t = kUInt16"
    and "length (concat (map (\<lambda>s. string_bytes little t (octets s)) ss)) \<le> room b"
  shows "\<exists>b'. put_strings little t ss b = Inr b' \<and>
    wrote b (concat (map (\<lambda>s. string_bytes little t (octets s)) ss)) b'"
  using assms
proof (induction ss arbitrary: b)
  case Nil
  then show ?case by (simp add: put_strings_def wrote_refl)
next
  case (Cons s ss)
  have "length (octets s) < 2 ^ 62" using Cons.prems(2,3) by auto
  then obtain b1 where b1: "SetString little (octets s) t b = Inr b1" "wrote b (string_bytes little t (octets s)) b1"
    using SetString_wrote [OF Cons.prems(1), of t "octets s" little] Cons.prems(2,4) by auto
  have "buf_wf b1" using b1(2) by (rule wrote_wf)
  moreover have "length (concat (map (\<lambda>s. string_bytes little t (octets s)) ss)) \<le> room b1"
    using Cons.prems(4) b1(2) by (simp add: wrote_def)
  ultimately obtain b2 where "put_strings little t ss b1 = Inr b2"
    "wrote b1 (concat (map (\<lambda>s. string_bytes little t (octets s)) ss)) b2"
    using Cons.IH [of b1] Cons.prems(2,3) by auto
  then show ?case using b1 wrote_trans [OF b1(2)] by (auto simp: put_strings_def)
qed

lemma put_segments_wrote:
  assumes "buf_wf b" "length (concat segs) \<le> room b" "length (concat segs) < 2 ^ 63"
  shows "\<exists>b'. put_segments segs b = Inr b' \<and> wrote b (concat segs) b'"
  using assms
proof (induction segs arbitrary: b)
  case Nil
  then show ?case by (simp add: put_segments_def wrote_refl)
next
  case (Cons s segs)
  obtain b1 where b1: "SetBuffer s b = Inr b1" "wrote b s b1"
    using SetBuffer_wrote [OF Cons.prems(1), of s] Cons.prems(2,3) by auto
  obtain b2 where "put_segments segs b1 = Inr b2" "wrote b1 (concat segs) b2"
    using Cons.IH [of b1] Cons.prems(2,3) b1(2) by (auto simp: wrote_def)
  then show ?case using b1 wrote_trans [OF b1(2)] by (auto simp: put_segments_def)
qed

lemma put_meta_wrote:
  assumes "buf_wf b" "meta_fits kvs" "context_meta_kv_size kvs \<le> room b"
  shows "\<exists>b'. put_meta little kvs b = Inr b' \<and> wrote b (meta_bytes little kvs) b'"
proof -
  have n: "length (meta_bytes little kvs) \<le> room b" using assms(3) by (simp add: length_meta_bytes)
  obtain b1 where b1: "SetUint8 (of_nat (length kvs div 2)) b = Inr b1" "wrote b [of_nat (length kvs div 2)] b1"
    using SetBuffer_wrote [OF assms(1), of "[of_nat (length kvs div 2)]"] n by (auto simp: SetUint8_def meta_bytes_def)
  obtain b2 where "put_strings little kUInt16 kvs b1 = Inr b2"
    "wrote b1 (concat (map (\<lambda>s. string_bytes little kUInt16 (octets s)) kvs)) b2"
    using put_strings_wrote [of b1 kvs kUInt16 little] b1(2) assms(2) n
    by (auto simp: wrote_def meta_fits_def meta_bytes_def)
  then show ?thesis using b1 wrote_trans [OF b1(2)] by (fastforce simp: put_meta_def meta_bytes_def)
qed

lemma put_channel_body_wrote:
  assumes "buf_wf b" "length t \<le> 255" "meta_fits kvs" "length (channel_body little t kvs (concat segs)) \<le> room b"
    and "length (concat segs) < 2 ^ 63"
  shows "\<exists>b'. put_channel_body little t kvs segs b = Inr b' \<and> wrote b (channel_body little t kvs (concat segs)) b'"
proof -
  note n = assms(4) [unfolded length_channel_body]
  obtain b1 where b1: "SetString little (octets t) kUInt8 b = Inr b1" "wrote b (string_bytes little kUInt8 (octets t)) b1"
    using SetString_wrote [OF assms(1), of kUInt8 "octets t" little] assms(2) n by auto
  obtain b2 where b2: "put_meta little kvs b1 = Inr b2" "wrote b1 (meta_bytes little kvs) b2"
    using put_meta_wrote [of b1 kvs little] b1(2) assms(3) n by (auto simp: wrote_def)
  obtain b3 where b3: "put_segments segs b2 = Inr b3" "wrote b2 (concat segs) b3"
    using put_segments_wrote [of b2 segs] b1(2) b2(2) assms(5) n
    by (auto simp: wrote_def length_meta_bytes)
  have "wrote b (channel_body little t kvs (concat segs)) b3"
    using wrote_trans [OF wrote_trans [OF b1(2) b2(2)] b3(2)] by (simp add: channel_body_def)
  then show ?thesis using b1(1) b2(1) b3(1) by (simp add: put_channel_body_def)
qed

text \<open>And only then: what does not fit makes one of the writes throw.\<close>

lemma SetBuffer_Inr: "buf_wf b \<Longrightarrow> length bs < 2 ^ 63 \<Longrightarrow> SetBuffer bs b = Inr b' \<Longrightarrow> wrote b bs b'"
  using SetBuffer_wrote [of b bs] by (auto simp: SetBuffer_wf_eq GetRemainingSize_def room_def split: if_splits)

lemma SetString_Inr:
  assumes "buf_wf b" "length s < 2 ^ 62" "SetString little s t b = Inr b'"
  shows "wrote b (string_bytes little t s) b' \<and> length s \<le> len_max t"
  using SetString_wrote [of b t s little] assms
  by (auto simp: SetString_wf_eq GetRemainingSize_def room_def split: if_splits)

lemma put_strings_Inr:
  assumes "buf_wf b" "\<forall>s \<in> set ss. length s < 2 ^ 62" "put_strings little t ss b = Inr b'"
  shows "wrote b (concat (map (\<lambda>s. string_bytes little t (octets s)) ss)) b' \<and> (\<forall>s \<in> set ss. length s \<le> len_max t)"
  using assms
proof (induction ss arbitrary: b)
  case Nil
  then show ?case by (simp add: put_strings_def wrote_refl)
next
  case (Cons s ss)
  obtain b1 where b1: "SetString little (octets s) t b = Inr b1" "put_strings little t ss b1 = Inr b'"
    using Cons.prems(3) by (auto simp: put_strings_def bindR_eq_Inr)
  have w1: "wrote b (string_bytes little t (octets s)) b1 \<and> length s \<le> len_max t"
    using SetString_Inr [OF Cons.prems(1) _ b1(1)] Cons.prems(2) by simp
  have "wrote b1 (concat (map (\<lambda>s. string_bytes little t (octets s)) ss)) b' \<and> (\<forall>s \<in> set ss. length s \<le> len_max t)"
    using Cons.IH [OF wrote_wf [OF conjunct1 [OF w1]] _ b1(2)] Cons.prems(2) by simp
  then show ?case using w1 wrote_trans by auto
qed

lemma put_segments_Inr:
  assumes "buf_wf b" "length (concat segs) < 2 ^ 63" "put_segments segs b = Inr b'"
  shows "wrote b (concat segs) b'"
  using assms
proof (induction segs arbitrary: b)
  case Nil
  then show ?case by (simp add: put_segments_def wrote_refl)
next
  case (Cons s segs)
  obtain b1 where b1: "SetBuffer s b = Inr b1" "put_segments segs b1 = Inr b'"
    using Cons.prems(3) by (auto simp: put_segments_def bindR_eq_Inr)
  have w1: "wrote b s b1" using SetBuffer_Inr [OF Cons.prems(1) _ b1(1)] Cons.prems(2) by simp
  have "wrote b1 (concat segs) b'"
    using Cons.IH [OF wrote_wf [OF w1] _ b1(2)] Cons.prems(2) by simp
  then show ?case using wrote_trans [OF w1] by simp
qed

lemma put_meta_Inr:
  assumes "buf_wf b" "\<forall>s \<in> set kvs. length s < 2 ^ 62" "put_meta little kvs b = Inr b'"
  shows "wrote b (meta_bytes little kvs) b' \<and> (\<forall>s \<in> set kvs. length s \<le> 65535)"
proof -
  obtain b1 where b1: "SetUint8 (of_nat (length kvs div 2)) b = Inr b1" "put_strings little kUInt16 kvs b1 = Inr b'"
    using assms(3) by (auto simp: put_meta_def bindR_eq_Inr)
  have w1: "wrote b [of_nat (length kvs div 2)] b1" using SetBuffer_Inr [OF assms(1)] b1(1) by (simp add: SetUint8_def)
  show ?thesis using put_strings_Inr [OF wrote_wf [OF w1] assms(2) b1(2)] wrote_trans [OF w1] by (auto simp: meta_bytes_def)
qed

lemma put_channel_body_Inr:
  assumes "buf_wf b" "put_channel_body little t kvs segs b = Inr b'"
    and "length t < 2 ^ 62" "\<forall>s \<in> set kvs. length s < 2 ^ 62" "length (concat segs) < 2 ^ 63"
  shows "wrote b (channel_body little t kvs (concat segs)) b' \<and> length t \<le> 255 \<and> (\<forall>s \<in> set kvs. length s \<le> 65535)"
proof -
  obtain b1 b2 where b: "SetString little (octets t) kUInt8 b = Inr b1" "put_meta little kvs b1 = Inr b2"
    "put_segments segs b2 = Inr b'"
    using assms(2) by (auto simp: put_channel_body_def bindR_eq_Inr)
  have w1: "wrote b (string_bytes little kUInt8 (octets t)) b1" and t: "length t \<le> 255"
    using SetString_Inr [OF assms(1) _ b(1)] assms(3) by auto
  have w2: "wrote b1 (meta_bytes little kvs) b2 \<and> (\<forall>s \<in> set kvs. length s \<le> 65535)"
    by (rule put_meta_Inr [OF wrote_wf [OF w1] assms(4) b(2)])
  then have "wrote b2 (concat segs) b'" using put_segments_Inr [OF _ assms(5) b(3)] by (auto dest: wrote_wf)
  then show ?thesis using wrote_trans [OF w1 wrote_trans] w2 t by (auto simp: channel_body_def)
qed

lemma get_pairs_stream:
  assumes "buf_wf b" "\<forall>(k, v) \<in> set ps. length k \<le> 65535 \<and> length v \<le> 65535"
    and "rest b = concat (map (\<lambda>s. string_bytes little kUInt16 (octets s)) (concat (map (\<lambda>(k, v). [k, v]) ps))) @ tail"
  shows "\<exists>b'. get_pairs little (length ps) acc b = Inr (fold (\<lambda>(k, v). AList.update k v) ps acc, b') \<and>
    buf_wf b' \<and> rest b' = tail"
  using assms
proof (induction ps arbitrary: acc b)
  case (Cons p ps)
  obtain k v where p: "p = (k, v)" by (cases p)
  let ?tail = "concat (map (\<lambda>s. string_bytes little kUInt16 (octets s)) (concat (map (\<lambda>(k, v). [k, v]) ps))) @ tail"
  have r: "rest b = string_bytes little kUInt16 (octets k) @ string_bytes little kUInt16 (octets v) @ ?tail"
    using Cons.prems(3) by (simp add: p)
  have le: "length (octets k) \<le> len_max kUInt16" "length (octets v) \<le> len_max kUInt16"
    using Cons.prems(2) by (simp_all add: p)
  obtain vk b1 where k: "GetString little kUInt16 b = Inr (vk, b1)" "view_load b vk = Inr (octets k)" "buf_wf b1"
    "rest b1 = string_bytes little kUInt16 (octets v) @ ?tail"
    using GetString_stream [OF Cons.prems(1) le(1) r] by blast
  obtain vv b2 where v: "GetString little kUInt16 b1 = Inr (vv, b2)" "view_load b1 vv = Inr (octets v)" "buf_wf b2" "rest b2 = ?tail"
    using GetString_stream [OF k(3) le(2) k(4)] by blast
  then show ?case using Cons.IH [OF v(3) _ v(4)] Cons.prems(2) k by (simp add: p)
qed simp

lemma GetMetaKeyValsArray_fits:
  "meta_fits (GetMetaKeyValsArray cx) \<longleftrightarrow>
   length (cx_meta cx) \<le> 255 \<and> (\<forall>(k, v) \<in> set (cx_meta cx). length k \<le> 65535 \<and> length v \<le> 65535)"
proof -
  have n: "length (concat (map (\<lambda>(k, v). [k, v]) ps)) = 2 * length ps" for ps :: "(string \<times> string) list"
    by (induction ps) auto
  show ?thesis by (auto simp: meta_fits_def GetMetaKeyValsArray_def n)
qed

text \<open>The context a subscriber gets for a package made of a publisher's metadata.\<close>

definition received_context :: "string \<Rightarrow> string \<Rightarrow> (string \<times> string) list \<Rightarrow> channel_context" where
  "received_context name t ps =
     SetMetaValue ''aimrt-backend'' name
       \<lparr>cx_publisher = False, cx_used = False,
        cx_meta = fold (\<lambda>(k, v). AList.update k v) ps [(''aimrt-serialization_type'', t)]\<rparr>"

lemma map_of_fold_update:
  assumes "distinct (map fst ps)"
  shows "map_of (fold (\<lambda>(k, v). AList.update k v) ps acc) k =
    (case map_of ps k of Some v \<Rightarrow> Some v | None \<Rightarrow> map_of acc k)"
  using assms
proof (induction ps arbitrary: acc)
  case (Cons p ps)
  obtain k' v' where p: "p = (k', v')" by (cases p)
  have "map_of ps k' = None" using Cons.prems by (simp add: p map_of_eq_None_iff)
  then show ?case using Cons by (auto simp: p update_conv' split: option.splits)
qed simp

text \<open>
  Every key of the publisher's metadata reads in the subscriber's context as it did in the
  publisher's, except the key of the backend's name.
\<close>

lemma received_context_meta:
  assumes "distinct (map fst (cx_meta cx))"
  shows "GetMetaValue k (received_context name t (cx_meta cx)) =
    (if k = ''aimrt-backend'' then name
     else if k \<in> fst ` set (cx_meta cx) then GetMetaValue k cx
     else if k = ''aimrt-serialization_type'' then t else [])"
proof -
  have u: "map_of (AList.update a w m) k = (if k = a then Some w else map_of m k)" for a w and m :: "(string \<times> string) list"
    by (simp add: update_conv')
  have d: "k \<notin> fst ` set (cx_meta cx) \<longleftrightarrow> map_of (cx_meta cx) k = None" by (simp add: map_of_eq_None_iff)
  show ?thesis
  proof (cases "map_of (cx_meta cx) k")
    case None
    then have "k \<notin> fst ` set (cx_meta cx)" using d by simp
    then show ?thesis using None
      by (simp add: received_context_def SetMetaValue_def GetMetaValue_def u map_of_fold_update [OF assms])
  next
    case (Some v)
    then have "k \<in> fst ` set (cx_meta cx)" using d by auto
    then show ?thesis using Some
      by (simp add: received_context_def SetMetaValue_def GetMetaValue_def u map_of_fold_update [OF assms])
  qed
qed

lemma get_channel_body_stream:
  assumes "buf_wf b" "rest b = channel_body little t (GetMetaKeyValsArray cx) msg" "length (rest b) < 2 ^ 63"
    and "length t \<le> 255" "meta_fits (GetMetaKeyValsArray cx)"
  shows "get_channel_body little name b = Inr (received_context name t (cx_meta cx), t, msg)"
proof -
  let ?ps = "cx_meta cx" and ?kvs = "GetMetaKeyValsArray cx"
  have r: "rest b = string_bytes little kUInt8 (octets t) @ meta_bytes little ?kvs @ msg"
    using assms(2) by (simp add: channel_body_def)
  have lt: "length (octets t) \<le> len_max kUInt8" using assms(4) by simp
  obtain v b1 where b1: "GetString little kUInt8 b = Inr (v, b1)" "view_load b v = Inr (octets t)" "buf_wf b1"
    "rest b1 = meta_bytes little ?kvs @ msg"
    using GetString_stream [OF assms(1) lt r] by blast
  have len: "length ?kvs div 2 = length ?ps"
  proof -
    have "length (concat (map (\<lambda>(k, v). [k, v]) ps)) = 2 * length ps" for ps :: "(string \<times> string) list"
      by (induction ps) auto
    then show ?thesis by (simp add: GetMetaKeyValsArray_def)
  qed
  let ?body = "concat (map (\<lambda>s. string_bytes little kUInt16 (octets s)) ?kvs) @ msg"
  obtain b2 where b2: "GetUint8 b1 = Inr (of_nat (length ?ps), b2)" "buf_wf b2" "rest b2 = ?body"
    using GetUint8_stream [OF b1(3)] by (auto simp: b1(4) meta_bytes_def len)
  have n: "unat (of_nat (length ?ps) :: byte) = length ?ps"
    and ok: "\<forall>(k, v) \<in> set ?ps. length k \<le> 65535 \<and> length v \<le> 65535"
    using assms(5) by (auto simp: GetMetaKeyValsArray_fits unat_of_nat)
  let ?cx = "SetSerializationType t \<lparr>cx_publisher = False, cx_used = False, cx_meta = []\<rparr>"
  obtain b3 where b3: "get_pairs little (length ?ps) (cx_meta ?cx) b2 =
      Inr (fold (\<lambda>(k, v). AList.update k v) ?ps (cx_meta ?cx), b3)" "buf_wf b3" "rest b3 = msg"
    using get_pairs_stream [OF b2(2) ok, of little msg "cx_meta ?cx"] b2(3) by (auto simp: GetMetaKeyValsArray_def)
  have "length msg < 2 ^ 63" using assms(2,3) by (simp add: length_channel_body)
  then obtain w b4 where "GetRemainingBuffer b3 = Inr (w, b4)" "view_load b3 w = Inr msg"
    using GetRemainingBuffer_stream [OF b3(2)] by (auto simp: b3(3))
  then show ?thesis using b1 b2 b3
    by (simp add: get_channel_body_def Let_def n received_context_def SetSerializationType_def SetMetaValue_def)
qed

lemma string_bytes_host: "string_bytes little t s = string_bytes False t s"
  using SetBufFromUint16_host [of little] SetBufFromUint32_host [of little]
  by (cases t) (auto simp: string_bytes_def)

lemma channel_body_host: "channel_body little t kvs msg = channel_body False t kvs msg"
  using string_bytes_host [of little] by (simp add: channel_body_def meta_bytes_def)

text \<open>
  Whatever bytes arrive, reading a package stays inside it: either it throws the out-of-bounds
  exception, or every string it has taken lies inside the package.
\<close>

lemma get_pairs_safe:
  assumes "buf_wf b"
  shows "get_pairs little n acc b = Inl BufferOutOfBounds \<or>
    (\<exists>ps b'. get_pairs little n acc b = Inr (ps, b') \<and> buf_wf b' \<and> length (rest b') \<le> length (rest b))"
  using assms
proof (induction n arbitrary: acc b)
  case (Suc n)
  note s = GetString_safe [of _ kUInt16 little]
  show ?case
  proof (cases "GetString little kUInt16 b")
    case (Inl e)
    then show ?thesis using s [OF Suc.prems] by auto
  next
    case (Inr p)
    then obtain k b1 where k: "GetString little kUInt16 b = Inr (k, b1)" "buf_wf b1" "length (rest b1) < length (rest b)"
      "view_inside b k" using s [OF Suc.prems] by auto
    show ?thesis
    proof (cases "GetString little kUInt16 b1")
      case (Inl e)
      then show ?thesis using s [OF k(2)] k(1) by auto
    next
      case (Inr p)
      then obtain v b2 where v: "GetString little kUInt16 b1 = Inr (v, b2)" "buf_wf b2" "length (rest b2) < length (rest b1)"
        "view_inside b1 v" using s [OF k(2)] by auto
      show ?thesis using Suc.IH [OF v(2)] k(1,3) v(1,3) view_load_inside [OF Suc.prems k(4)] view_load_inside [OF k(2) v(4)]
        by simp (meson le_trans less_imp_le)
    qed
  qed
qed simp

lemma get_channel_body_safe:
  assumes "buf_wf b" "length (rest b) < 2 ^ 63"
  shows "get_channel_body little name b = Inl BufferOutOfBounds \<or> is_ok (get_channel_body little name b)"
proof (cases "GetString little kUInt8 b")
  case (Inl e)
  then show ?thesis using GetString_safe [OF assms(1), of kUInt8 little] by (auto simp: get_channel_body_def)
next
  case (Inr p)
  then obtain t b1 where t: "GetString little kUInt8 b = Inr (t, b1)" "buf_wf b1" "length (rest b1) < length (rest b)"
    "view_load b t = Inr (view_bytes b t)"
    using GetString_safe [OF assms(1), of kUInt8 little] view_load_inside [OF assms(1)] by auto
  show ?thesis
  proof (cases "rest b1")
    case Nil
    then show ?thesis using GetUint8_stream [OF t(2)] t(1,4) by (simp add: get_channel_body_def Let_def)
  next
    case (Cons x xs)
    then obtain b2 where b2: "GetUint8 b1 = Inr (x, b2)" "buf_wf b2" "length (rest b2) \<le> length (rest b1)"
      using GetUint8_stream [OF t(2)] by auto
    let ?acc = "cx_meta (SetSerializationType (chars_of (view_bytes b t)) \<lparr>cx_publisher = False, cx_used = False, cx_meta = []\<rparr>)"
    show ?thesis
    proof (cases "get_pairs little (unat x) ?acc b2")
      case (Inl e)
      then show ?thesis using get_pairs_safe [OF b2(2), of little "unat x" ?acc] t(1,4) b2(1)
        by (auto simp: get_channel_body_def Let_def)
    next
      case (Inr q)
      then obtain ps b3 where b3: "get_pairs little (unat x) ?acc b2 = Inr (ps, b3)" "buf_wf b3"
        "length (rest b3) \<le> length (rest b2)"
        using get_pairs_safe [OF b2(2), of little "unat x" ?acc] by auto
      have "length (rest b3) < 2 ^ 63" using assms(2) t(3) b2(3) b3(3) by simp
      then show ?thesis using GetRemainingBuffer_stream [OF b3(2)] t(1,4) b2(1) b3(1)
        by (auto simp: get_channel_body_def Let_def)
    qed
  qed
qed

text \<open>A fresh buffer that the code fills completely.\<close>

lemma fresh_buffer:
  assumes "p + n \<le> 2 ^ 63"
  shows "buf_wf (mk_buffer_operator p (replicate n 0))" "room (mk_buffer_operator p (replicate n 0)) = n"
    "out (mk_buffer_operator p (replicate n 0)) = []"
  using assms by (simp_all add: buf_wf_mk) (simp_all add: room_def out_def mk_buffer_operator_def)

lemma wrote_all:
  assumes "wrote b bs b'" "out b = []" "room b = length bs"
  shows "bo_mem b' = bs"
proof -
  have "bo_cur b' = bo_end b'" "buf_wf b'" using assms by (auto simp: wrote_def room_def buf_wf_def)
  then have "out b' = bo_mem b'" by (simp add: out_def buf_wf_def)
  then show ?thesis using assms by (simp add: wrote_def)
qed

section \<open>Subscriptions by pattern\<close>

definition channel_pattern :: "string \<Rightarrow> string \<Rightarrow> string" where
  "channel_pattern topic_name msg_type =
     ''/channel/'' @ UrlEncode topic_name True @ ''/'' @ UrlEncode msg_type True"

lemma pattern_inject:
  "channel_pattern topic ty = channel_pattern topic' ty' \<longleftrightarrow> topic = topic' \<and> ty = ty'"
proof
  assume "channel_pattern topic ty = channel_pattern topic' ty'"
  then have eq: "UrlEncode topic True @ ''/'' @ UrlEncode ty True = UrlEncode topic' True @ ''/'' @ UrlEncode ty' True"
    by (simp add: channel_pattern_def)
  let ?p = "\<lambda>c. c \<noteq> CHR ''/''"
  have tw: "takeWhile ?p (UrlEncode x True @ ''/'' @ y) = UrlEncode x True" for x y
    using UrlEncode_no_slash [of x True] by (subst takeWhile_append2) auto
  have e: "UrlEncode topic True = UrlEncode topic' True"
    using arg_cong [OF eq, of "takeWhile ?p"] by (simp only: tw)
  then have "UrlEncode ty True = UrlEncode ty' True" using eq by simp
  then show "topic = topic' \<and> ty = ty'" using e by (simp add: UrlEncode_inject)
qed simp

definition sub_pattern :: "'m subscribe_wrapper \<Rightarrow> string" where
  "sub_pattern w = channel_pattern (ti_topic_name (sw_info w)) (ti_msg_type (sw_info w))"

definition tool_of :: "'m subscribe_wrapper list \<Rightarrow> 'm subscribe_tool" where
  "tool_of subs = \<lparr>st_subs = subs, st_require = concat (map sw_require subs)\<rparr>"

lemma map_of_emplace: "map_of (emplace k v m) k' = (if k' = k \<and> map_of m k = None then Some v else map_of m k')"
  by (auto simp: emplace_def map_add_def split: option.splits)

lemma AddSubscribeWrapper_tool_of: "AddSubscribeWrapper w (tool_of subs) = tool_of (subs @ [w])"
  by (simp add: AddSubscribeWrapper_def tool_of_def)

text \<open>
  \<open>served_by pat subs tools handles\<close>: the tables of a backend hold exactly the subscriptions
  \<open>subs\<close>, one tool per pattern \<open>pat\<close> gives them, and a handler each, named by the pattern whose tool it uses.
\<close>

definition served_by ::
  "('m subscribe_wrapper \<Rightarrow> string) \<Rightarrow> 'm subscribe_wrapper list \<Rightarrow> (string \<times> 'm subscribe_tool) list \<Rightarrow> (string \<times> string) list \<Rightarrow> bool" where
  "served_by pat subs tools handles \<longleftrightarrow>
     (\<forall>k. let ss = filter (\<lambda>s. pat s = k) subs in
        map_of tools k = (if ss = [] then None else Some (tool_of ss)) \<and>
        map_of handles k = (if ss = [] then None else Some k))"

text \<open>
  The contract of \<open>Subscribe\<close> in the backends that share this scheme: a pattern seen before gets
  the subscriber added to its tool, a new one gets a tool and a handler.
\<close>

locale subscription_tables =
  fixes pat :: "'m subscribe_wrapper \<Rightarrow> string"
    and tools :: "'s \<Rightarrow> (string \<times> 'm subscribe_tool) list"
    and handles :: "'s \<Rightarrow> (string \<times> string) list"
    and ready :: "'s \<Rightarrow> bool"
    and subscribe :: "'m subscribe_wrapper \<Rightarrow> 's \<Rightarrow> bool \<times> 's"
  assumes subscribe_ready: "ready s \<Longrightarrow> fst (subscribe w s) \<and> ready (snd (subscribe w s))"
    and subscribe_known: "ready s \<Longrightarrow> map_of (tools s) (pat w) = Some tool \<Longrightarrow>
      map_of (tools (snd (subscribe w s))) = (map_of (tools s))(pat w \<mapsto> AddSubscribeWrapper w tool) \<and>
      map_of (handles (snd (subscribe w s))) = map_of (handles s)"
    and subscribe_new: "ready s \<Longrightarrow> map_of (tools s) (pat w) = None \<Longrightarrow> map_of (handles s) (pat w) = None \<Longrightarrow>
      map_of (tools (snd (subscribe w s))) =
        (map_of (tools s))(pat w \<mapsto> AddSubscribeWrapper w \<lparr>st_subs = [], st_require = []\<rparr>) \<and>
      map_of (handles (snd (subscribe w s))) = (map_of (handles s))(pat w \<mapsto> pat w)"
begin

lemma subscribe_served:
  assumes "served_by pat subs (tools s) (handles s)" "ready s"
  shows "served_by pat (subs @ [w]) (tools (snd (subscribe w s))) (handles (snd (subscribe w s)))"
proof -
  let ?p = "pat w" and ?ss = "\<lambda>k. filter (\<lambda>s. pat s = k) subs"
  have t: "map_of (tools s) k = (if ?ss k = [] then None else Some (tool_of (?ss k)))"
    and h: "map_of (handles s) k = (if ?ss k = [] then None else Some k)" for k
    using assms(1) by (simp_all add: served_by_def Let_def)
  have new: "tool_of [w] = AddSubscribeWrapper w \<lparr>st_subs = [], st_require = []\<rparr>"
    by (simp add: AddSubscribeWrapper_def tool_of_def)
  show ?thesis
  proof (cases "?ss ?p = []")
    case True
    then have "map_of (tools s) ?p = None" "map_of (handles s) ?p = None" using t h by simp_all
    from subscribe_new [OF assms(2) this] show ?thesis using True t h new by (simp add: served_by_def Let_def)
  next
    case False
    then have "map_of (tools s) ?p = Some (tool_of (?ss ?p))" using t by simp
    from subscribe_known [OF assms(2) this] show ?thesis using False t h
      by (auto simp: served_by_def Let_def AddSubscribeWrapper_tool_of)
  qed
qed

lemma fold_served:
  assumes "ready s" "tools s = []" "handles s = []"
  shows "served_by pat subs (tools (fold (\<lambda>w s. snd (subscribe w s)) subs s)) (handles (fold (\<lambda>w s. snd (subscribe w s)) subs s)) \<and>
    ready (fold (\<lambda>w s. snd (subscribe w s)) subs s)"
proof (induction subs rule: rev_induct)
  case Nil
  then show ?case using assms by (simp add: served_by_def)
next
  case (snoc w subs)
  then show ?case using subscribe_served subscribe_ready by simp
qed

end

end
