(* ===== verification/NetChannel.thy ===== *)
theory NetChannel
  imports Frames UrlUtil Lifecycle
begin

text \<open>
  The tcp and the udp channel backend (\<open>tcp_channel_backend.cc\<close>, \<open>udp_channel_backend.cc\<close>) and
  the table of handlers both use (\<open>msg_handle_registry.h\<close>). The two backends are the same code
  but for the address scheme, their name and one missing guard, so they are one model with a
  \<open>net_kind\<close>. Regular expressions and the parsing of IP addresses belong to the standard
  library and to boost; they are parameters. \<open>Publish\<close> returns the packages it hands to the
  client pool.
\<close>

section \<open>State and life cycle\<close>

record net_kind =
  nk_name :: string
  nk_prefix :: string
  nk_guards_publish :: bool

definition tcp_kind :: net_kind where
  "tcp_kind = \<lparr>nk_name = ''tcp'', nk_prefix = ''tcp://'', nk_guards_publish = True\<rparr>"

definition udp_kind :: net_kind where
  "udp_kind = \<lparr>nk_name = ''udp'', nk_prefix = ''udp://'', nk_guards_publish = False\<rparr>"

record 'a net_env =
  ne_regex :: "string \<Rightarrow> string \<Rightarrow> bool option"
  ne_address :: "string \<Rightarrow> 'a option"

type_synonym 'a endpoint = "'a \<times> u16"

record msg_handle_registry =
  mr_shutdown_flag :: bool
  mr_handles :: "(string \<times> string) list"

record ('m, 'a) net_channel_backend =
  nb_pub_topics_options :: "(string \<times> string list) list"
  nb_state :: lc_state
  nb_server :: bool
  nb_tools :: "(string \<times> 'm subscribe_tool) list"
  nb_pub_cfg :: "(string \<times> 'a endpoint list) list"
  nb_registry :: msg_handle_registry

datatype net_error =
    NetInitializedTwice | NetNotInit | NetNotStart | NetBadAddress string | NetBadPort string | NetNoPort string
  | NetUriTooLong | NetNoPubCfg | NetEmptyUrlList | NetSerialize msg_error | NetTooMuchMeta | NetBuffer buffer_error

definition nb_Initialize ::
  "(string \<times> string list) list option \<Rightarrow> ('m, 'a) net_channel_backend \<Rightarrow> (net_error, ('m, 'a) net_channel_backend) outcome" where
  "nb_Initialize options_node b =
     (let (old, new) = atomic_exchange (nb_state b) kInit; b = b\<lparr>nb_state := new\<rparr> in
      if old \<noteq> kPreInit then (Some NetInitializedTwice, b)
      else (None, case options_node of None \<Rightarrow> b | Some opts \<Rightarrow> b\<lparr>nb_pub_topics_options := opts\<rparr>))"

definition nb_Start :: "('m, 'a) net_channel_backend \<Rightarrow> (net_error, ('m, 'a) net_channel_backend) outcome" where
  "nb_Start b =
     (let (old, new) = atomic_exchange (nb_state b) kStart; b = b\<lparr>nb_state := new\<rparr> in
      if old \<noteq> kInit then (Some NetNotInit, b) else (None, b))"

text \<open>\<open>MsgHandleRegistry\<close>: a handler is named by the pattern whose subscribe tool it has captured.\<close>

definition RegisterMsgHandle :: "string \<Rightarrow> string \<Rightarrow> msg_handle_registry \<Rightarrow> msg_handle_registry" where
  "RegisterMsgHandle uri h r = r\<lparr>mr_handles := emplace uri h (mr_handles r)\<rparr>"

definition mr_Shutdown :: "msg_handle_registry \<Rightarrow> msg_handle_registry" where
  "mr_Shutdown r = r\<lparr>mr_shutdown_flag := True\<rparr>"

definition nb_Shutdown :: "('m, 'a) net_channel_backend \<Rightarrow> ('m, 'a) net_channel_backend" where
  "nb_Shutdown b =
     (let (old, new) = atomic_exchange (nb_state b) kShutdown; b = b\<lparr>nb_state := new\<rparr> in
      if old = kShutdown then b
      else if nb_server b then b\<lparr>nb_registry := mr_Shutdown (nb_registry b)\<rparr> else b)"

interpretation nb: lifecycle nb_state nb_Initialize nb_Start nb_Shutdown
  by unfold_locales
    (auto simp: nb_Initialize_def nb_Start_def nb_Shutdown_def mr_Shutdown_def atomic_exchange_def Let_def
      split: option.splits if_splits)

section \<open>Registration\<close>

text \<open>
  \<open>strtol\<close> as \<open>atoi\<close> and \<open>std::stoi\<close> use it: leading white space, a sign, digits. \<open>atoi\<close> yields
  zero when there are none; \<open>std::stoi\<close> throws then, and when the value does not fit an \<open>int\<close>.
  A value of \<open>atoi\<close> that does not fit is undefined behaviour and keeps its value here.
\<close>

definition strtol :: "string \<Rightarrow> int option" where
  "strtol s =
     (let s = dropWhile (\<lambda>c. c = CHR '' '' \<or> (9 \<le> (of_char c :: nat) \<and> (of_char c :: nat) \<le> 13)) s;
          neg = (s \<noteq> [] \<and> hd s = CHR ''-'');
          s = (if s \<noteq> [] \<and> (hd s = CHR ''-'' \<or> hd s = CHR ''+'') then tl s else s);
          ds = takeWhile is_digit s
      in if ds = [] then None else Some (if neg then - digits_value ds else digits_value ds))"

definition atoi :: "string \<Rightarrow> int" where
  "atoi s = (case strtol s of None \<Rightarrow> 0 | Some n \<Rightarrow> n)"

definition stoi :: "string \<Rightarrow> int option" where
  "stoi s = (case strtol s of None \<Rightarrow> None
     | Some n \<Rightarrow> if - (2 ^ 31) \<le> n \<and> n \<le> 2 ^ 31 - 1 then Some n else None)"

text \<open>An option applies when its expression matches; one that does not compile never does.\<close>

definition find_option :: "(string \<Rightarrow> string \<Rightarrow> bool option) \<Rightarrow> string \<Rightarrow> (string \<times> 'o) list \<Rightarrow> 'o option" where
  "find_option regex topic opts = map_option snd (List.find (\<lambda>(expr, _). regex expr topic = Some True) opts)"

definition server_endpoint :: "'a net_env \<Rightarrow> string \<Rightarrow> (net_error, 'a endpoint) result" where
  "server_endpoint env publish_add =
     (case SplitToVec publish_add '':'' True True of
        ip # port # _ \<Rightarrow>
          (case ne_address env ip of
             None \<Rightarrow> Inl (NetBadAddress ip)
           | Some a \<Rightarrow> Inr (a, of_int (atoi port)))
      | _ \<Rightarrow> Inl (NetNoPort publish_add))"

definition server_endpoints :: "'a net_env \<Rightarrow> string list \<Rightarrow> (net_error, 'a endpoint list) result" where
  "server_endpoints env urls =
     foldR (\<lambda>u eps. bindR (server_endpoint env u) (\<lambda>ep. Inr (eps @ [ep]))) urls []"

definition nb_RegisterPublishType ::
  "net_kind \<Rightarrow> 'a net_env \<Rightarrow> 'm topic_info \<Rightarrow> ('m, 'a) net_channel_backend \<Rightarrow> bool \<times> ('m, 'a) net_channel_backend" where
  "nb_RegisterPublishType kind env info b =
     (if nk_guards_publish kind \<and> nb_state b \<noteq> kInit then (False, b)
      else
        let urls = (case find_option (ne_regex env) (ti_topic_name info) (nb_pub_topics_options b) of None \<Rightarrow> [] | Some us \<Rightarrow> us) in
        case server_endpoints env urls of
          Inl _ \<Rightarrow> (False, b)
        | Inr eps \<Rightarrow>
            let b = b\<lparr>nb_pub_cfg := emplace (ti_topic_name info) eps (nb_pub_cfg b)\<rparr> in
            (length (channel_pattern (ti_topic_name info) (ti_msg_type info)) \<le> 255, b))"

definition nb_Subscribe ::
  "'m subscribe_wrapper \<Rightarrow> ('m, 'a) net_channel_backend \<Rightarrow> bool \<times> ('m, 'a) net_channel_backend" where
  "nb_Subscribe w b =
     (if nb_state b \<noteq> kInit then (False, b)
      else if \<not> nb_server b then (False, b)
      else
        let info = sw_info w; pattern = channel_pattern (ti_topic_name info) (ti_msg_type info) in
        case map_of (nb_tools b) pattern of
          Some tool \<Rightarrow> (True, b\<lparr>nb_tools := AList.update pattern (AddSubscribeWrapper w tool) (nb_tools b)\<rparr>)
        | None \<Rightarrow>
            let b = b\<lparr>nb_tools := emplace pattern (AddSubscribeWrapper w \<lparr>st_subs = [], st_require = []\<rparr>) (nb_tools b)\<rparr> in
            (True, b\<lparr>nb_registry := RegisterMsgHandle pattern pattern (nb_registry b)\<rparr>))"

section \<open>Publishing\<close>

text \<open>The addresses of the context's \<open>to_addr\<close> that carry the scheme of the backend.\<close>

definition to_addr_endpoint ::
  "net_kind \<Rightarrow> 'a net_env \<Rightarrow> string \<Rightarrow> 'a endpoint list \<Rightarrow> (net_error, 'a endpoint list) result" where
  "to_addr_endpoint kind env addr eps =
     (if \<not> (\<exists>s. addr = nk_prefix kind @ s) then Inr eps
      else
        case ParseUrl (drop (length (nk_prefix kind)) addr) of
          None \<Rightarrow> Inr eps
        | Some url \<Rightarrow>
            (case ne_address env (host url) of
               None \<Rightarrow> Inl (NetBadAddress (host url))
             | Some a \<Rightarrow>
                 (case stoi (service url) of
                    None \<Rightarrow> Inl (NetBadPort (service url))
                  | Some n \<Rightarrow> Inr (eps @ [(a, of_int n)]))))"

definition to_addr_endpoints :: "net_kind \<Rightarrow> 'a net_env \<Rightarrow> string \<Rightarrow> (net_error, 'a endpoint list) result" where
  "to_addr_endpoints kind env to_addr = foldR (to_addr_endpoint kind env) (SplitToVec to_addr '';'' True True) []"

definition targets ::
  "net_kind \<Rightarrow> 'a net_env \<Rightarrow> ('m, 'a) net_channel_backend \<Rightarrow> 'm msg_wrapper \<Rightarrow> (net_error, 'a endpoint list) result" where
  "targets kind env b w =
     bindR (to_addr_endpoints kind env (GetMetaValue ''aimrt-to_addr'' (mw_ctx w)))
       (\<lambda>eps. if eps \<noteq> [] then Inr eps
              else case map_of (nb_pub_cfg b) (ti_topic_name (mw_info w)) of
                None \<Rightarrow> Inl NetNoPubCfg
              | Some eps \<Rightarrow> if eps = [] then Inl NetEmptyUrlList else Inr eps)"

text \<open>
  The size of the package is computed in 32 bits. \<open>p\<close> is the address at which the stream buffer
  has room for it, and \<open>segs\<close> are the segments of the serialised message.
\<close>

definition pkg_size :: "string \<Rightarrow> string \<Rightarrow> string list \<Rightarrow> nat \<Rightarrow> u32" where
  "pkg_size pattern t kvs msg_size =
     of_nat (1 + length pattern + 1 + length t + context_meta_kv_size kvs + msg_size)"

definition put_package ::
  "bool \<Rightarrow> nat \<Rightarrow> string \<Rightarrow> string \<Rightarrow> string list \<Rightarrow> byte list list \<Rightarrow> (buffer_error, byte list) result" where
  "put_package little p pattern t kvs segs =
     (let b = mk_buffer_operator p (replicate (unat (pkg_size pattern t kvs (sum_list (map length segs)))) 0) in
      bindR (SetString little (octets pattern) kUInt8 b) (\<lambda>b.
        bindR (put_channel_body little t kvs segs b) (\<lambda>b. Inr (bo_mem b))))"

definition nb_Publish ::
  "net_kind \<Rightarrow> 'a net_env \<Rightarrow> bool \<Rightarrow> nat \<Rightarrow> (bytes \<Rightarrow> byte list list) \<Rightarrow> ('m, 'a) net_channel_backend \<Rightarrow> 'm msg_wrapper \<Rightarrow>
   (net_error, ('a endpoint \<times> byte list) list) result \<times> 'm msg_wrapper" where
  "nb_Publish kind env little p segment b w =
     (if nb_state b \<noteq> kStart then (Inl NetNotStart, w)
      else
        case targets kind env b w of
          Inl e \<Rightarrow> (Inl e, w)
        | Inr eps \<Rightarrow>
            let t = publish_type w in
            case SerializeMsgWithCache w t of
              Inl e \<Rightarrow> (Inl (NetSerialize e), w)
            | Inr (msg, w) \<Rightarrow>
                let kvs = GetMetaKeyValsArray (mw_ctx w) in
                if \<not> length kvs div 2 \<le> 255 then (Inl NetTooMuchMeta, w)
                else
                  case put_package little p (channel_pattern (ti_topic_name (mw_info w)) (ti_msg_type (mw_info w))) t kvs (segment msg) of
                    Inl e \<Rightarrow> (Inl (NetBuffer e), w)
                  | Inr pkg \<Rightarrow> (Inr (map (\<lambda>ep. (ep, pkg)) eps), w))"

section \<open>Receiving\<close>

datatype handle_error =
    RegistryShutdown | InvalidMsg nat | UnregisteredUri string | HandlerBuffer buffer_error | HandlerMsg msg_error

text \<open>The handler \<open>Subscribe\<close> registers: it reads the package behind its pattern again from the start.\<close>

definition nb_handle ::
  "net_kind \<Rightarrow> bool \<Rightarrow> nat \<Rightarrow> 'm subscribe_tool \<Rightarrow> byte list \<Rightarrow> handle_error option \<times> 'm deliveries" where
  "nb_handle kind little p tool pkg =
     (case bindR (GetString little kUInt8 (mk_buffer_operator p pkg)) (\<lambda>(_, b). get_channel_body little (nk_name kind) b) of
        Inl e \<Rightarrow> (Some (HandlerBuffer e), [])
      | Inr (cx, t, msg) \<Rightarrow> apfst (map_option HandlerMsg) (DoSubscribeCallback_data cx t msg tool))"

text \<open>What \<open>HandleServerMsg\<close> loads from the received bytes itself; a load beyond them is undefined.\<close>

definition load_at :: "byte list \<Rightarrow> nat \<Rightarrow> nat \<Rightarrow> (buffer_error, byte list) result" where
  "load_at bs i n = (if i + n \<le> length bs then Inr (take n (drop i bs)) else Inl OutOfRegion)"

definition HandleServerMsg ::
  "net_kind \<Rightarrow> bool \<Rightarrow> nat \<Rightarrow> ('m, 'a) net_channel_backend \<Rightarrow> byte list \<Rightarrow> handle_error option \<times> 'm deliveries" where
  "HandleServerMsg kind little p b pkg =
     (if mr_shutdown_flag (nb_registry b) then (Some RegistryShutdown, [])
      else if \<not> length pkg > 1 then (Some (InvalidMsg (length pkg)), [])
      else case load_at pkg 0 1 of
        Inl e \<Rightarrow> (Some (HandlerBuffer e), [])
      | Inr size_byte \<Rightarrow>
          let uri_size = unat (hd size_byte) in
          if \<not> length pkg > uri_size + 1 then (Some (InvalidMsg (length pkg)), [])
          else case load_at pkg 1 uri_size of
            Inl e \<Rightarrow> (Some (HandlerBuffer e), [])
          | Inr uri_bytes \<Rightarrow>
              let uri = chars_of uri_bytes in
              case Option.bind (map_of (mr_handles (nb_registry b)) uri) (map_of (nb_tools b)) of
                None \<Rightarrow> (Some (UnregisteredUri uri), [])
              | Some tool \<Rightarrow> nb_handle kind little p tool pkg)"

text \<open>The udp backend's own operations, where they differ from the tcp backend's.\<close>

definition udp_RegisterPublishType ::
  "'a net_env \<Rightarrow> 'm topic_info \<Rightarrow> ('m, 'a) net_channel_backend \<Rightarrow> bool \<times> ('m, 'a) net_channel_backend" where
  "udp_RegisterPublishType = nb_RegisterPublishType udp_kind"

definition udp_Publish ::
  "'a net_env \<Rightarrow> bool \<Rightarrow> nat \<Rightarrow> (bytes \<Rightarrow> byte list list) \<Rightarrow> ('m, 'a) net_channel_backend \<Rightarrow> 'm msg_wrapper \<Rightarrow>
   (net_error, ('a endpoint \<times> byte list) list) result \<times> 'm msg_wrapper" where
  "udp_Publish = nb_Publish udp_kind"

definition udp_handle :: "bool \<Rightarrow> nat \<Rightarrow> 'm subscribe_tool \<Rightarrow> byte list \<Rightarrow> handle_error option \<times> 'm deliveries" where
  "udp_handle = nb_handle udp_kind"

section \<open>The package\<close>

definition package_bytes :: "bool \<Rightarrow> string \<Rightarrow> string \<Rightarrow> string list \<Rightarrow> byte list \<Rightarrow> byte list" where
  "package_bytes little pattern t kvs msg = string_bytes little kUInt8 (octets pattern) @ channel_body little t kvs msg"

definition package_size :: "string \<Rightarrow> string \<Rightarrow> string list \<Rightarrow> nat \<Rightarrow> nat" where
  "package_size pattern t kvs msg_size = 1 + length pattern + 1 + length t + context_meta_kv_size kvs + msg_size"

lemma length_package_bytes: "length (package_bytes little pattern t kvs msg) = package_size pattern t kvs (length msg)"
  by (simp add: package_bytes_def length_channel_body package_size_def)

lemma unat_pkg_size: "unat (pkg_size pattern t kvs n) = package_size pattern t kvs n mod 2 ^ 32"
proof -
  have "unat (of_nat m :: u32) = m mod 2 ^ 32" for m by (simp add: unat_of_nat)
  then show ?thesis by (simp only: pkg_size_def package_size_def)
qed

lemma kvs_small: "s \<in> set kvs \<Longrightarrow> length s \<le> context_meta_kv_size kvs"
  using member_le_sum_list [of "2 + length s" "map (\<lambda>s. 2 + length s) kvs"]
  by (simp add: context_meta_kv_size_def)

lemma put_package_bytes:
  assumes "p < 2 ^ 62" "package_size pattern t kvs (length (concat segs)) < 2 ^ 62"
    and "put_package little p pattern t kvs segs = Inr pkg"
  shows "pkg = package_bytes little pattern t kvs (concat segs) \<and> length pattern \<le> 255 \<and> length t \<le> 255 \<and>
    (\<forall>s \<in> set kvs. length s \<le> 65535) \<and> package_size pattern t kvs (length (concat segs)) < 2 ^ 32"
proof -
  let ?n = "package_size pattern t kvs (length (concat segs))"
  let ?k = "unat (pkg_size pattern t kvs (sum_list (map length segs)))"
  let ?b = "mk_buffer_operator p (replicate ?k 0)"
  have k: "?k = ?n mod 2 ^ 32" by (simp add: unat_pkg_size length_concat)
  have "?k < 2 ^ 32" by (simp add: k)
  then have room: "buf_wf ?b" "room ?b = ?k" "out ?b = []" using fresh_buffer [of p ?k] assms(1) by simp_all
  obtain b1 b2 where b: "SetString little (octets pattern) kUInt8 ?b = Inr b1"
    "put_channel_body little t kvs segs b1 = Inr b2" "pkg = bo_mem b2"
    using assms(3) by (auto simp: put_package_def bindR_eq_Inr Let_def)
  have w1: "wrote ?b (string_bytes little kUInt8 (octets pattern)) b1" "length pattern \<le> 255"
    using SetString_Inr [OF room(1) _ b(1)] assms(2) by (auto simp: package_size_def)
  have small: "length t < 2 ^ 62" "\<forall>s \<in> set kvs. length s < 2 ^ 62" "length (concat segs) < 2 ^ 63"
    using assms(2) kvs_small [of _ kvs] by (fastforce simp: package_size_def)+
  note w2 = put_channel_body_Inr [OF wrote_wf [OF w1(1)] b(2) small]
  have w: "wrote ?b (package_bytes little pattern t kvs (concat segs)) b2"
    using wrote_trans [OF w1(1)] w2 by (simp add: package_bytes_def)
  then have "?n \<le> ?k" using room(2) by (auto simp: wrote_def length_package_bytes)
  moreover have "?k \<le> ?n" by (simp add: k)
  ultimately have eq: "?k = ?n" by simp
  have "bo_mem b2 = package_bytes little pattern t kvs (concat segs)"
    by (rule wrote_all [OF w room(3)]) (simp only: room(2) [unfolded eq] eq length_package_bytes)
  then show ?thesis using b(3) w1(2) w2 eq k by (metis mod_less_divisor zero_less_numeral zero_less_power)
qed

lemma put_package_succeeds:
  assumes "p < 2 ^ 62" "package_size pattern t kvs (length (concat segs)) < 2 ^ 32"
    and "length pattern \<le> 255" "length t \<le> 255" "meta_fits kvs"
  shows "put_package little p pattern t kvs segs = Inr (package_bytes little pattern t kvs (concat segs))"
proof -
  let ?n = "package_size pattern t kvs (length (concat segs))"
  let ?b = "mk_buffer_operator p (replicate ?n 0)"
  have k: "unat (pkg_size pattern t kvs (sum_list (map length segs))) = ?n"
    using assms(2) by (simp add: unat_pkg_size length_concat)
  have room: "buf_wf ?b" "room ?b = ?n" "out ?b = []" using fresh_buffer [of p ?n] assms(1,2) by simp_all
  obtain b1 where b1: "SetString little (octets pattern) kUInt8 ?b = Inr b1"
    "wrote ?b (string_bytes little kUInt8 (octets pattern)) b1"
    using SetString_wrote [OF room(1), of kUInt8 "octets pattern" little] assms(3) room(2)
    by (auto simp: package_size_def)
  have r: "length (channel_body little t kvs (concat segs)) \<le> room b1"
    using b1(2) room(2) by (auto simp: wrote_def package_size_def length_channel_body)
  have s: "length (concat segs) < 2 ^ 63" using assms(2) by (simp add: package_size_def)
  obtain b2 where b2: "put_channel_body little t kvs segs b1 = Inr b2"
    "wrote b1 (channel_body little t kvs (concat segs)) b2"
    using put_channel_body_wrote [OF wrote_wf [OF b1(2)] assms(4,5) r s] by blast
  have "bo_mem b2 = package_bytes little pattern t kvs (concat segs)"
  proof (rule wrote_all [OF _ room(3)])
    show "wrote ?b (package_bytes little pattern t kvs (concat segs)) b2"
      using wrote_trans [OF b1(2) b2(2)] by (simp add: package_bytes_def)
    show "room ?b = length (package_bytes little pattern t kvs (concat segs))"
      unfolding length_package_bytes by (rule room(2))
  qed
  then show ?thesis using b1(1) b2(1) by (simp add: put_package_def k)
qed

section \<open>Subscriptions\<close>

definition can_subscribe :: "('m, 'a) net_channel_backend \<Rightarrow> bool" where
  "can_subscribe b \<longleftrightarrow> nb_state b = kInit \<and> nb_server b"

interpretation nets: subscription_tables sub_pattern nb_tools "\<lambda>b. mr_handles (nb_registry b)" can_subscribe nb_Subscribe
  by unfold_locales
    (auto simp: nb_Subscribe_def sub_pattern_def [symmetric] Let_def can_subscribe_def RegisterMsgHandle_def map_of_emplace
      update_conv' fun_eq_iff split: option.splits)

definition serves :: "'m subscribe_wrapper list \<Rightarrow> ('m, 'a) net_channel_backend \<Rightarrow> bool" where
  "serves subs b \<longleftrightarrow> served_by sub_pattern subs (nb_tools b) (mr_handles (nb_registry b))"

lemma nb_Subscribe_flag:
  "mr_shutdown_flag (nb_registry (snd (nb_Subscribe w b))) = mr_shutdown_flag (nb_registry b)"
  by (simp add: nb_Subscribe_def Let_def RegisterMsgHandle_def split: option.splits)

lemma subscriptions_served:
  assumes "can_subscribe b" "nb_tools b = []" "mr_handles (nb_registry b) = []"
  shows "serves subs (fold (\<lambda>w b. snd (nb_Subscribe w b)) subs b) \<and>
    mr_shutdown_flag (nb_registry (fold (\<lambda>w b. snd (nb_Subscribe w b)) subs b)) = mr_shutdown_flag (nb_registry b)"
proof -
  have "mr_shutdown_flag (nb_registry (fold (\<lambda>w b. snd (nb_Subscribe w b)) subs b)) = mr_shutdown_flag (nb_registry b)"
    by (induction subs arbitrary: b) (simp_all add: nb_Subscribe_flag)
  then show ?thesis using nets.fold_served [OF assms] by (simp add: serves_def)
qed

lemma nb_Start_serves [simp]:
  "serves subs (snd (nb_Start b)) = serves subs b" "nb_registry (snd (nb_Start b)) = nb_registry b"
  by (simp_all add: nb_Start_def atomic_exchange_def serves_def Let_def)

section \<open>From one process to the other\<close>

lemma HandleServerMsg_package:
  assumes "serves subs b" "filter (\<lambda>s. sub_pattern s = pattern) subs = ss" "ss \<noteq> []" "\<not> mr_shutdown_flag (nb_registry b)"
    and "p < 2 ^ 62" "package_size pattern t (GetMetaKeyValsArray cx) (length msg) < 2 ^ 32"
    and "length pattern \<le> 255" "length t \<le> 255" "meta_fits (GetMetaKeyValsArray cx)"
  shows "HandleServerMsg kind little' p b (package_bytes little pattern t (GetMetaKeyValsArray cx) msg) =
    apfst (map_option HandlerMsg)
      (DoSubscribeCallback_data (received_context (nk_name kind) t (cx_meta cx)) t msg (tool_of ss))"
proof -
  let ?kvs = "GetMetaKeyValsArray cx"
  let ?body = "channel_body little' t ?kvs msg"
  let ?pkg = "package_bytes little pattern t ?kvs msg"
  let ?b = "mk_buffer_operator p ?pkg"
  have pkg: "?pkg = string_bytes little' kUInt8 (octets pattern) @ ?body"
    using string_bytes_host [of little] string_bytes_host [of little'] channel_body_host [of little] channel_body_host [of little']
    by (simp add: package_bytes_def)
  have len: "length ?pkg < 2 ^ 32" using assms(6) by (simp only: length_package_bytes)
  have wf: "buf_wf ?b" and r: "rest ?b = string_bytes little' kUInt8 (octets pattern) @ ?body"
    using assms(5) len buf_wf_mk [of p ?pkg] by (simp_all add: rest_mk pkg)
  have lp: "length (octets pattern) \<le> len_max kUInt8" using assms(7) by simp
  obtain v b1 where b1: "GetString little' kUInt8 ?b = Inr (v, b1)" "buf_wf b1" "rest b1 = ?body"
    using GetString_stream [OF wf lp r] by blast
  have "length (rest b1) < 2 ^ 63" using len by (simp add: b1(3) pkg)
  then have body: "get_channel_body little' (nk_name kind) b1 = Inr (received_context (nk_name kind) t (cx_meta cx), t, msg)"
    using get_channel_body_stream [OF b1(2,3) _ assms(8,9)] by simp
  have head: "?pkg = of_nat (length pattern) # octets pattern @ ?body" by (simp add: pkg string_bytes_def)
  have n: "unat (of_nat (length pattern) :: byte) = length pattern" using assms(7) by (simp add: unat_of_nat)
  have "0 < length ?body" by (simp add: length_channel_body)
  then have sizes: "length ?pkg > 1" "length ?pkg > length pattern + 1" by (simp_all add: head)
  have n1: "load_at ?pkg 0 1 = Inr [?pkg ! 0]" by (simp add: head load_at_def)
  have uri: "load_at ?pkg 1 (length pattern) = Inr (octets pattern)" by (simp add: head load_at_def)
  have look: "Option.bind (map_of (mr_handles (nb_registry b)) pattern) (map_of (nb_tools b)) = Some (tool_of ss)"
    using assms(1-3) by (simp add: serves_def served_by_def Let_def)
  have hd: "unat (?pkg ! 0) = length pattern" using n by (simp add: head)
  have "nb_handle kind little' p (tool_of ss) ?pkg =
      apfst (map_option HandlerMsg) (DoSubscribeCallback_data (received_context (nk_name kind) t (cx_meta cx)) t msg (tool_of ss))"
    unfolding nb_handle_def using b1(1) body by simp
  then show ?thesis
    unfolding HandleServerMsg_def using assms(4) sizes
    by (simp only: Let_def hd n1 uri look list.sel chars_of_octets if_False option.case sum.case not_True_eq_False not_False_eq_True HOL.simp_thms)
qed

definition wire_pattern :: "'m msg_wrapper \<Rightarrow> string" where
  "wire_pattern w = channel_pattern (ti_topic_name (mw_info w)) (ti_msg_type (mw_info w))"

text \<open>The serialised message and the metadata are objects of the publisher's address space.\<close>

definition in_memory :: "'m msg_wrapper \<Rightarrow> bool" where
  "in_memory w \<longleftrightarrow>
     (\<forall>msg w'. SerializeMsgWithCache w (publish_type w) = Inr (msg, w') \<longrightarrow>
        package_size (wire_pattern w) (publish_type w) (GetMetaKeyValsArray (mw_ctx w)) (length msg) < 2 ^ 62)"

lemma nb_Publish_package:
  assumes "nb_Publish kind env little p segment b w = (Inr sends, w')" "p < 2 ^ 62" "in_memory w" "\<forall>bs. concat (segment bs) = bs"
  shows "\<exists>msg eps. SerializeMsgWithCache w (publish_type w) = Inr (msg, w') \<and> targets kind env b w = Inr eps \<and>
    sends = map (\<lambda>ep. (ep, package_bytes little (wire_pattern w) (publish_type w) (GetMetaKeyValsArray (mw_ctx w)) msg)) eps \<and>
    length (wire_pattern w) \<le> 255 \<and> length (publish_type w) \<le> 255 \<and> meta_fits (GetMetaKeyValsArray (mw_ctx w)) \<and>
    package_size (wire_pattern w) (publish_type w) (GetMetaKeyValsArray (mw_ctx w)) (length msg) < 2 ^ 32"
proof -
  obtain eps where eps: "targets kind env b w = Inr eps" and st: "nb_state b = kStart"
    using assms(1) by (auto simp: nb_Publish_def split: if_splits sum.splits)
  obtain msg w1 where s: "SerializeMsgWithCache w (publish_type w) = Inr (msg, w1)"
    using assms(1) eps st by (auto simp: nb_Publish_def Let_def split: sum.splits)
  have fr: "mw_ctx w1 = mw_ctx w" "mw_info w1 = mw_info w" using SerializeMsgWithCache_frame [OF s] by simp_all
  let ?kvs = "GetMetaKeyValsArray (mw_ctx w)"
  have n: "length ?kvs div 2 \<le> 255"
    using assms(1) eps st s fr by (auto simp: nb_Publish_def Let_def split: if_splits)
  obtain pkg where pkg: "put_package little p (wire_pattern w) (publish_type w) ?kvs (segment msg) = Inr pkg"
    "sends = map (\<lambda>ep. (ep, pkg)) eps" "w' = w1"
    using assms(1) eps st s fr n by (auto simp: nb_Publish_def Let_def wire_pattern_def split: sum.splits)
  have "package_size (wire_pattern w) (publish_type w) ?kvs (length (concat (segment msg))) < 2 ^ 62"
    using assms(3,4) s by (simp add: in_memory_def)
  from put_package_bytes [OF assms(2) this pkg(1)] show ?thesis
    using s eps pkg(2,3) n assms(4) by (auto simp: meta_fits_def)
qed

text \<open>What a subscriber of another process sees of a published message.\<close>

definition sees :: "'m \<Rightarrow> net_kind \<Rightarrow> 'm msg_wrapper \<Rightarrow> 'm subscribe_wrapper \<Rightarrow> 'm msg_wrapper \<Rightarrow> bool" where
  "sees m kind w s x \<longleftrightarrow> gets m s x \<and> GetMetaValue ''aimrt-backend'' (mw_ctx x) = nk_name kind \<and>
     (\<forall>k \<in> fst ` set (cx_meta (mw_ctx w)) - {''aimrt-backend''}. GetMetaValue k (mw_ctx x) = GetMetaValue k (mw_ctx w))"

lemma DoSubscribeCallback_data_sees:
  assumes "\<forall>s \<in> set ss. ts_deserialize (ti_support (sw_info s)) t msg = Some m" "distinct (map fst (cx_meta (mw_ctx w)))"
  shows "\<exists>ds. DoSubscribeCallback_data (received_context (nk_name kind) t (cx_meta (mw_ctx w))) t msg (tool_of ss) = (None, ds) \<and>
    map fst ds = ss \<and> (\<forall>(s, x) \<in> set ds. sees m kind w s x)"
proof -
  let ?cx = "received_context (nk_name kind) t (cx_meta (mw_ctx w))"
  note meta = received_context_meta [OF assms(2), of _ "nk_name kind" t]
  let ?ds = "if t \<notin> set (st_require (tool_of ss)) then map (\<lambda>s. (s, sub_msg s ?cx m)) ss
    else map (\<lambda>s. (s, sub_cached s ?cx t msg)) ss"
  have cx: "mw_ctx (sub_msg s ?cx m) = ?cx" "mw_ctx (sub_cached s ?cx t msg) = ?cx" for s
    by (simp_all add: sub_msg_def sub_cached_def)
  have "DoSubscribeCallback_data ?cx t msg (tool_of ss) = (None, ?ds)"
    using WithoutCache_delivers [OF assms(1)]
    by (simp add: DoSubscribeCallback_data_def DoSubscribeCallbackWithCache_def tool_of_def)
  moreover have "map fst ?ds = ss" by (simp add: comp_def)
  moreover have "\<forall>(s, x) \<in> set ?ds. sees m kind w s x"
    using assms(1) by (auto simp: sees_def cx meta intro: gets_sub_msg gets_sub_cached)
  ultimately show ?thesis by blast
qed

text \<open>
  C11. A package that one process publishes is, in the process that receives it, handed to
  exactly the subscribers of the message's topic and type, in the order they subscribed. Each
  finds the published message and the publisher's metadata, whatever the byte orders of the
  two machines and the segments of the serialised message. No other topic or type can take
  it, because the percent encoding keeps the patterns apart.
\<close>

theorem net_package_reaches_subscribers:
  assumes "nb_Publish kind env little p segment pb w = (Inr sends, w')" "(ep, pkg) \<in> set sends"
    and "p < 2 ^ 62" "p' < 2 ^ 62" "in_memory w" "\<forall>bs. concat (segment bs) = bs"
    and "coherent m w" "codec (ti_support (mw_info w))" "publish_type w \<in> set (ts_types (ti_support (mw_info w)))"
    and "distinct (map fst (cx_meta (mw_ctx w)))"
    and "can_subscribe b" "nb_tools b = []" "mr_handles (nb_registry b) = []" "\<not> mr_shutdown_flag (nb_registry b)"
    and "sb = snd (nb_Start (fold (\<lambda>s b. snd (nb_Subscribe s b)) subs b))"
    and "\<forall>s \<in> set subs. on_topic w s \<longrightarrow> ti_support (sw_info s) = ti_support (mw_info w)"
    and "\<exists>s \<in> set subs. on_topic w s"
  shows "\<exists>ds. HandleServerMsg kind little' p' sb pkg = (None, ds) \<and> map fst ds = filter (on_topic w) subs \<and>
    (\<forall>(s, x) \<in> set ds. sees m kind w s x)"
proof -
  let ?t = "publish_type w" and ?ss = "filter (on_topic w) subs"
  obtain msg eps where s: "SerializeMsgWithCache w ?t = Inr (msg, w')"
    and sends: "sends = map (\<lambda>ep. (ep, package_bytes little (wire_pattern w) ?t (GetMetaKeyValsArray (mw_ctx w)) msg)) eps"
    and fit: "length (wire_pattern w) \<le> 255" "length ?t \<le> 255" "meta_fits (GetMetaKeyValsArray (mw_ctx w))"
      "package_size (wire_pattern w) ?t (GetMetaKeyValsArray (mw_ctx w)) (length msg) < 2 ^ 32"
    using nb_Publish_package [OF assms(1,3,5,6)] by blast
  have pkg: "pkg = package_bytes little (wire_pattern w) ?t (GetMetaKeyValsArray (mw_ctx w)) msg"
    using assms(2) sends by auto
  have on: "sub_pattern s = wire_pattern w \<longleftrightarrow> on_topic w s" for s
    by (auto simp: sub_pattern_def wire_pattern_def pattern_inject on_topic_def)
  have sv: "serves subs sb" "\<not> mr_shutdown_flag (nb_registry sb)"
    using subscriptions_served [OF assms(11-13), of subs] assms(14,15) by simp_all
  have ss: "filter (\<lambda>s. sub_pattern s = wire_pattern w) subs = ?ss" "?ss \<noteq> []"
    using assms(17) by (auto simp: on filter_empty_conv)
  have h: "HandleServerMsg kind little' p' sb pkg = apfst (map_option HandlerMsg)
      (DoSubscribeCallback_data (received_context (nk_name kind) ?t (cx_meta (mw_ctx w))) ?t msg (tool_of ?ss))"
    unfolding pkg by (rule HandleServerMsg_package [OF sv(1) ss sv(2) assms(4) fit(4,1-3)])
  have "ts_deserialize (ti_support (mw_info w)) ?t msg = Some m"
    using SerializeMsgWithCache_coherent [OF assms(7-9) s] by simp
  then have "\<forall>s \<in> set ?ss. ts_deserialize (ti_support (sw_info s)) ?t msg = Some m" using assms(16) by auto
  then show ?thesis using DoSubscribeCallback_data_sees [of ?ss ?t msg m w kind] assms(10) h by auto
qed

section \<open>An example\<close>

definition wire_msg :: "nat msg_wrapper" where
  "wire_msg = \<lparr>mw_info = number_info ''m'', mw_msg = Some 7,
     mw_ctx = \<lparr>cx_publisher = True, cx_used = False, cx_meta = [(''k'', ''v'')]\<rparr>, mw_cache = [], mw_msg_cache = None\<rparr>"

definition wire_env :: "unit net_env" where
  "wire_env = \<lparr>ne_regex = (\<lambda>_ _. None), ne_address = (\<lambda>_. None)\<rparr>"

definition wire_backend :: "lc_state \<Rightarrow> (nat, unit) net_channel_backend" where
  "wire_backend st = \<lparr>nb_pub_topics_options = [], nb_state = st, nb_server = True, nb_tools = [],
     nb_pub_cfg = [(''t'', [((), 80)])], nb_registry = \<lparr>mr_shutdown_flag = False, mr_handles = []\<rparr>\<rparr>"

lemma wire_msg_simps:
  "publish_type wire_msg = ''bin''" "GetMetaKeyValsArray (mw_ctx wire_msg) = [''k'', ''v'']"
  "wire_pattern wire_msg = ''/channel/t/number''"
  "\<exists>w'. SerializeMsgWithCache wire_msg ''bin'' = Inr ([7], w')"
  "SerializeMsgWithCache wire_msg ''bin'' = Inr (x, w') \<Longrightarrow> x = [7]"
  "targets kind wire_env (wire_backend kStart) wire_msg = Inr [((), 80)]"
  by (auto simp: publish_type_def wire_msg_def GetSerializationType_def GetMetaValue_def DefaultSerializationType_def
      number_info_def number_support_def GetMetaKeyValsArray_def wire_pattern_def channel_pattern_def UrlEncode_def
      url_plain_def isalnum_char_def is_digit_def SerializeMsgWithCache_def CheckMsg_def targets_def
      to_addr_endpoints_def SplitToVec_def wire_backend_def)

lemma wire_publish:
  "\<exists>w'. nb_Publish kind wire_env True 0 (\<lambda>bs. [bs]) (wire_backend kStart) wire_msg =
    (Inr [(((), 80), package_bytes True ''/channel/t/number'' ''bin'' [''k'', ''v''] [7])], w')"
proof -
  obtain w1 where s: "SerializeMsgWithCache wire_msg ''bin'' = Inr ([7], w1)" using wire_msg_simps(4) by blast
  have fr: "mw_ctx w1 = mw_ctx wire_msg" "mw_info w1 = mw_info wire_msg" using SerializeMsgWithCache_frame [OF s] by simp_all
  have "put_package True 0 ''/channel/t/number'' ''bin'' [''k'', ''v''] [[7]] =
      Inr (package_bytes True ''/channel/t/number'' ''bin'' [''k'', ''v''] (concat [[7]]))"
    by (rule put_package_succeeds) (simp_all add: package_size_def context_meta_kv_size_def meta_fits_def)
  then show ?thesis using s fr wire_msg_simps(1-3,6)
    by (simp add: nb_Publish_def Let_def wire_pattern_def wire_backend_def)
qed

lemma wire_msg_ok:
  "in_memory wire_msg" "coherent 7 wire_msg" "codec (ti_support (mw_info wire_msg))"
  "publish_type wire_msg \<in> set (ts_types (ti_support (mw_info wire_msg)))" "distinct (map fst (cx_meta (mw_ctx wire_msg)))"
proof -
  show "in_memory wire_msg"
    using wire_msg_simps(5) by (auto simp: in_memory_def wire_msg_simps(1-3) package_size_def context_meta_kv_size_def)
  show "codec (ti_support (mw_info wire_msg))"
    using number_support_codec by (simp add: wire_msg_def number_info_def)
  show "publish_type wire_msg \<in> set (ts_types (ti_support (mw_info wire_msg)))"
    unfolding wire_msg_simps(1) by (simp add: wire_msg_def number_info_def number_support_def)
qed (simp_all add: coherent_def wire_msg_def)

lemma wire_subscriber:
  "can_subscribe (wire_backend kInit)" "nb_tools (wire_backend kInit) = []"
  "mr_handles (nb_registry (wire_backend kInit)) = []" "\<not> mr_shutdown_flag (nb_registry (wire_backend kInit))"
  "\<forall>s \<in> set [number_sub ''a'', number_sub ''b'']. on_topic wire_msg s \<longrightarrow> ti_support (sw_info s) = ti_support (mw_info wire_msg)"
  "filter (on_topic wire_msg) [number_sub ''a'', number_sub ''b''] = [number_sub ''a'', number_sub ''b'']"
  by (simp_all add: can_subscribe_def wire_backend_def on_topic_def wire_msg_def number_sub_def number_info_def)

theorem net_package_reaches_subscribers_witness:
  "\<exists>pkg (b :: (nat, unit) net_channel_backend) ds. HandleServerMsg tcp_kind False 0 b pkg = (None, ds) \<and>
    map fst ds = [number_sub ''a'', number_sub ''b''] \<and> (\<forall>(s, x) \<in> set ds. sees 7 tcp_kind wire_msg s x)"
proof -
  let ?pkg = "package_bytes True ''/channel/t/number'' ''bin'' [''k'', ''v''] [7]"
  obtain w' where p: "nb_Publish tcp_kind wire_env True 0 (\<lambda>bs. [bs]) (wire_backend kStart) wire_msg =
      (Inr [(((), 80), ?pkg)], w')" using wire_publish by blast
  have m: "(((), 80), ?pkg) \<in> set [(((), 80 :: u16), ?pkg)]" by simp
  have z: "(0 :: nat) < 2 ^ 62" by simp
  have e: "\<exists>s \<in> set [number_sub ''a'', number_sub ''b'']. on_topic wire_msg s"
    using wire_subscriber(6) by (auto simp: filter_eq_Cons_iff split: if_splits)
  have c: "\<forall>bs :: bytes. concat [bs] = bs" by simp
  show ?thesis
    by (rule exI, rule exI)
      (rule net_package_reaches_subscribers [where little' = False, OF p m z z wire_msg_ok(1) c wire_msg_ok(2-5)
        wire_subscriber(1-4) refl wire_subscriber(5) e, unfolded wire_subscriber(6)])
qed

section \<open>What is dropped\<close>

text \<open>
  Once the targets are found and the message is serialised, a package is sent unless one of
  its length fields cannot hold what it stands for: the pattern or the serialisation type is
  longer than 255 bytes, there are more than 255 pairs of metadata, a key or value is longer
  than 65535 bytes, or the whole is not below 4 GiB. Then nothing at all is sent.
\<close>

theorem net_publish_limits:
  assumes "nb_state b = kStart" "targets kind env b w = Inr eps"
    and "SerializeMsgWithCache w (publish_type w) = Inr (msg, w1)"
    and "p < 2 ^ 62" "in_memory w" "\<forall>bs. concat (segment bs) = bs"
  shows "is_ok (fst (nb_Publish kind env little p segment b w)) \<longleftrightarrow>
    length (wire_pattern w) \<le> 255 \<and> length (publish_type w) \<le> 255 \<and> meta_fits (GetMetaKeyValsArray (mw_ctx w)) \<and>
    package_size (wire_pattern w) (publish_type w) (GetMetaKeyValsArray (mw_ctx w)) (length msg) < 2 ^ 32"
proof
  assume "is_ok (fst (nb_Publish kind env little p segment b w))"
  then obtain sends w' where "nb_Publish kind env little p segment b w = (Inr sends, w')"
    by (cases "nb_Publish kind env little p segment b w") (auto simp: is_ok_iff)
  from nb_Publish_package [OF this assms(4-6)] assms(3) show "length (wire_pattern w) \<le> 255 \<and>
    length (publish_type w) \<le> 255 \<and> meta_fits (GetMetaKeyValsArray (mw_ctx w)) \<and>
    package_size (wire_pattern w) (publish_type w) (GetMetaKeyValsArray (mw_ctx w)) (length msg) < 2 ^ 32" by auto
next
  let ?kvs = "GetMetaKeyValsArray (mw_ctx w)"
  assume fit: "length (wire_pattern w) \<le> 255 \<and> length (publish_type w) \<le> 255 \<and> meta_fits ?kvs \<and>
    package_size (wire_pattern w) (publish_type w) ?kvs (length msg) < 2 ^ 32"
  have fr: "mw_ctx w1 = mw_ctx w" "mw_info w1 = mw_info w" using SerializeMsgWithCache_frame [OF assms(3)] by simp_all
  have "put_package little p (wire_pattern w) (publish_type w) ?kvs (segment msg) =
      Inr (package_bytes little (wire_pattern w) (publish_type w) ?kvs (concat (segment msg)))"
    by (rule put_package_succeeds) (use assms(4,6) fit in simp_all)
  then show "is_ok (fst (nb_Publish kind env little p segment b w))"
    using assms(1-3) fit fr by (simp add: nb_Publish_def Let_def wire_pattern_def meta_fits_def)
qed

theorem net_publish_limits_witness:
  "is_ok (fst (nb_Publish udp_kind wire_env True 0 (\<lambda>bs. [bs]) (wire_backend kStart) wire_msg))"
proof -
  obtain w1 where s: "SerializeMsgWithCache wire_msg (publish_type wire_msg) = Inr ([7], w1)"
    using wire_msg_simps(1,4) by auto
  have st: "nb_state (wire_backend kStart) = kStart" by (simp add: wire_backend_def)
  have c: "\<forall>bs :: bytes. concat [bs] = bs" by simp
  show ?thesis
    using net_publish_limits [OF st wire_msg_simps(6) s _ wire_msg_ok(1) c, of 0 udp_kind True]
    by (simp add: wire_msg_simps(1-3) package_size_def context_meta_kv_size_def meta_fits_def)
qed

text \<open>
  C33. Whatever bytes a peer sends, and whatever the registry holds, handling them loads nothing outside
  the package: where it reads the length and the name of the uri, the strings of the frame and the rest,
  the bytes are in the package, or reading stops with the out-of-bounds exception that
  the registry catches. Every such load is modelled with a result of its own for bytes that are
  not in the package, and that result never arises.
\<close>

theorem hostile_package_is_contained:
  assumes "p < 2 ^ 62" "length pkg < 2 ^ 62"
  shows "fst (HandleServerMsg kind little p b pkg) = Some (HandlerBuffer e) \<longrightarrow> e = BufferOutOfBounds"
proof -
  let ?b = "mk_buffer_operator p pkg"
  have wf: "buf_wf ?b" using assms buf_wf_mk [of p pkg] by simp
  let ?r = "bindR (GetString little kUInt8 ?b) (\<lambda>(_, b). get_channel_body little (nk_name kind) b)"
  have r: "?r = Inl BufferOutOfBounds \<or> is_ok ?r"
  proof (cases "GetString little kUInt8 ?b")
    case (Inl e)
    then show ?thesis using GetString_safe [OF wf, of kUInt8 little] by auto
  next
    case (Inr q)
    then obtain v b1 where b1: "GetString little kUInt8 ?b = Inr (v, b1)" "buf_wf b1" "length (rest b1) < length (rest ?b)"
      using GetString_safe [OF wf, of kUInt8 little] by auto
    then have "length (rest b1) < 2 ^ 63" using assms(2) by (simp add: rest_mk)
    from get_channel_body_safe [OF b1(2) this] show ?thesis using b1(1) by simp
  qed
  have "fst (nb_handle kind little p tool pkg) \<noteq> Some (HandlerBuffer e)" if "e \<noteq> BufferOutOfBounds" for tool :: "'a subscribe_tool" and e
    using r that by (auto simp: nb_handle_def is_ok_iff split: sum.splits)
  then show ?thesis by (auto simp: HandleServerMsg_def load_at_def Let_def split: option.splits)
qed

text \<open>A package whose pattern is registered but whose frame is cut: the exception.\<close>

theorem hostile_package_is_contained_witness:
  "\<exists>e. fst (HandleServerMsg tcp_kind True 4096
      (wire_backend kStart\<lparr>nb_tools := [(''a'', tool_of [])], nb_registry := \<lparr>mr_shutdown_flag = False, mr_handles = [(''a'', ''a'')]\<rparr>\<rparr>)
      (1 # octets ''a'' @ [200, 1, 2])) = Some (HandlerBuffer e) \<and> e = BufferOutOfBounds"
proof -
  let ?b = "wire_backend kStart\<lparr>nb_tools := [(''a'', tool_of [])], nb_registry := \<lparr>mr_shutdown_flag = False, mr_handles = [(''a'', ''a'')]\<rparr>\<rparr>"
  have "\<exists>e. fst (HandleServerMsg tcp_kind True 4096 ?b (1 # octets ''a'' @ [200, 1, 2])) = Some (HandlerBuffer e)"
    by (simp add: HandleServerMsg_def load_at_def nb_handle_def get_channel_body_def GetString_def GetUint8_def GetBytes_def
        GetBuffer_def load_bytes_def mk_buffer_operator_def ptr_add_def)
  then show ?thesis using hostile_package_is_contained [of 4096 "1 # octets ''a'' @ [200, 1, 2]" tcp_kind True ?b] by fastforce
qed

end
