(* ===== verification/MqttChannel.thy ===== *)
theory MqttChannel
  imports NetChannel
begin

text \<open>
  The mqtt channel backend (\<open>mqtt_channel_backend.cc\<close>) and the table of handlers of its plugin
  (\<open>mqtt_plugin/msg_handle_registry.h\<close>). The topic of a package is the pattern of its message,
  so the package holds only the channel body. The broker and the client library are outside
  the program: \<open>Publish\<close> returns what it gives to the library, and the handlers get what the
  library delivers. With a callback executor a message is handled in a task of its own.
\<close>

section \<open>Options and life cycle\<close>

type_synonym topic_node = "string option \<times> int option"

text \<open>The node of a topic: the name is required, the quality of service is 0, 1 or 2 and by default 2.\<close>

definition topic_options_decode :: "topic_node \<Rightarrow> (string \<times> int) option" where
  "topic_options_decode node =
     (let qos = (case snd node of None \<Rightarrow> 2 | Some q \<Rightarrow> q) in
      if \<not> (0 \<le> qos \<and> qos \<le> 2) then None
      else map_option (\<lambda>name. (name, qos)) (fst node))"

fun decode_topics :: "topic_node list \<Rightarrow> (string \<times> int) list option" where
  "decode_topics [] = Some []"
| "decode_topics (n # ns) =
     Option.bind (topic_options_decode n) (\<lambda>opt. map_option (Cons opt) (decode_topics ns))"

text \<open>
  The table of handlers, shared by the backends of the plugin. \<open>mq_tasks\<close> are the tasks given
  to the callback executor that have not run; \<open>mq_active_tasks\<close> is the counter the code keeps.
\<close>

record 'h mqtt_registry =
  mq_shutdown_flag :: bool
  mq_handles :: "(string \<times> 'h) list"
  mq_executor :: bool
  mq_active_tasks :: int
  mq_tasks :: "('h \<times> byte list) list"

record 'm mqtt_channel_backend =
  mb_pub_topics_options :: "(string \<times> int) list"
  mb_sub_topics_options :: "(string \<times> int) list"
  mb_state :: lc_state
  mb_max_pkg_size :: nat
  mb_tools :: "(string \<times> 'm subscribe_tool) list"
  mb_registry :: "string mqtt_registry"
  mb_pub_cfg :: "(string \<times> int) list"
  mb_sub_info :: "(string \<times> int) list"

datatype mqtt_error =
    MqInitializedTwice | MqBadNode | MqNotInit | MqNotStart | MqSerialize msg_error | MqTooMuchMeta | MqPkgTooLarge nat
  | MqBuffer buffer_error

definition mb_Initialize ::
  "(topic_node list \<times> topic_node list) option \<Rightarrow> 'm mqtt_channel_backend \<Rightarrow> (mqtt_error, 'm mqtt_channel_backend) outcome" where
  "mb_Initialize options_node b =
     (let (old, new) = atomic_exchange (mb_state b) kInit; b = b\<lparr>mb_state := new\<rparr> in
      if old \<noteq> kPreInit then (Some MqInitializedTwice, b)
      else case options_node of
        None \<Rightarrow> (None, b)
      | Some (pubs, subs) \<Rightarrow>
          (case (decode_topics pubs, decode_topics subs) of
             (Some ps, Some ss) \<Rightarrow> (None, b\<lparr>mb_pub_topics_options := ps, mb_sub_topics_options := ss\<rparr>)
           | _ \<Rightarrow> (Some MqBadNode, b)))"

definition mb_Start :: "'m mqtt_channel_backend \<Rightarrow> (mqtt_error, 'm mqtt_channel_backend) outcome" where
  "mb_Start b =
     (let (old, new) = atomic_exchange (mb_state b) kStart; b = b\<lparr>mb_state := new\<rparr> in
      if old \<noteq> kInit then (Some MqNotInit, b) else (None, b))"

text \<open>\<open>UnSubscribeMqttTopic\<close> names the topics taken back from the broker; it is the result beside the state.\<close>

definition mb_Shutdown :: "'m mqtt_channel_backend \<Rightarrow> string list \<times> 'm mqtt_channel_backend" where
  "mb_Shutdown b =
     (let (old, new) = atomic_exchange (mb_state b) kShutdown; b = b\<lparr>mb_state := new\<rparr> in
      if old = kShutdown then ([], b)
      else (map fst (mb_sub_info b), b\<lparr>mb_registry := (mb_registry b)\<lparr>mq_shutdown_flag := True\<rparr>\<rparr>))"

interpretation mb: lifecycle mb_state mb_Initialize mb_Start "\<lambda>b. snd (mb_Shutdown b)"
  by unfold_locales
    (auto simp: mb_Initialize_def mb_Start_def mb_Shutdown_def atomic_exchange_def Let_def
      split: option.splits prod.splits if_splits)

section \<open>The table of handlers\<close>

definition mq_RegisterMsgHandle :: "string \<Rightarrow> 'h \<Rightarrow> 'h mqtt_registry \<Rightarrow> 'h mqtt_registry" where
  "mq_RegisterMsgHandle topic h r = r\<lparr>mq_handles := emplace topic h (mq_handles r)\<rparr>"

text \<open>A message is dropped, queued as a task, or handled at once by the handler returned.\<close>

datatype 'h mq_dispatch = MqShutdown | MqUnregistered string | MqQueued | MqInline 'h

definition mq_HandleServerMsg :: "string \<Rightarrow> byte list \<Rightarrow> 'h mqtt_registry \<Rightarrow> 'h mq_dispatch \<times> 'h mqtt_registry" where
  "mq_HandleServerMsg topic message r =
     (if mq_shutdown_flag r then (MqShutdown, r)
      else case map_of (mq_handles r) topic of
        None \<Rightarrow> (MqUnregistered topic, r)
      | Some h \<Rightarrow>
          if mq_executor r
          then (MqQueued, r\<lparr>mq_active_tasks := mq_active_tasks r + 1, mq_tasks := mq_tasks r @ [(h, message)]\<rparr>)
          else (MqInline h, r))"

text \<open>
  A task of the executor: the message is freed and the counter taken back behind the handler,
  so an exception of the handler skips both. \<open>throws\<close> says whether the handler throws.
\<close>

definition mq_run_task :: "('h \<Rightarrow> byte list \<Rightarrow> bool) \<Rightarrow> 'h mqtt_registry \<Rightarrow> 'h mqtt_registry" where
  "mq_run_task throws r =
     (case mq_tasks r of
        [] \<Rightarrow> r
      | (h, message) # ts \<Rightarrow>
          let r = r\<lparr>mq_tasks := ts\<rparr> in
          if throws h message then r else r\<lparr>mq_active_tasks := mq_active_tasks r - 1\<rparr>)"

definition mq_WaitForAllTasks_returns :: "'h mqtt_registry \<Rightarrow> bool" where
  "mq_WaitForAllTasks_returns r \<longleftrightarrow> mq_active_tasks r = 0"

section \<open>Registration\<close>

definition mb_RegisterPublishType ::
  "(string \<Rightarrow> string \<Rightarrow> bool option) \<Rightarrow> 'm topic_info \<Rightarrow> 'm mqtt_channel_backend \<Rightarrow> bool \<times> 'm mqtt_channel_backend" where
  "mb_RegisterPublishType regex info b =
     (if mb_state b \<noteq> kInit then (False, b)
      else
        let qos = (case find_option regex (ti_topic_name info) (mb_pub_topics_options b) of None \<Rightarrow> 2 | Some q \<Rightarrow> q);
            b = b\<lparr>mb_pub_cfg := emplace (ti_topic_name info) qos (mb_pub_cfg b)\<rparr>
        in (length (channel_pattern (ti_topic_name info) (ti_msg_type info)) \<le> 255, b))"

definition mb_Subscribe ::
  "(string \<Rightarrow> string \<Rightarrow> bool option) \<Rightarrow> 'm subscribe_wrapper \<Rightarrow> 'm mqtt_channel_backend \<Rightarrow> bool \<times> 'm mqtt_channel_backend" where
  "mb_Subscribe regex w b =
     (if mb_state b \<noteq> kInit then (False, b)
      else
        let info = sw_info w;
            qos = (case find_option regex (ti_topic_name info) (mb_sub_topics_options b) of None \<Rightarrow> 2 | Some q \<Rightarrow> q);
            pattern = channel_pattern (ti_topic_name info) (ti_msg_type info)
        in case map_of (mb_tools b) pattern of
          Some tool \<Rightarrow> (True, b\<lparr>mb_tools := AList.update pattern (AddSubscribeWrapper w tool) (mb_tools b)\<rparr>)
        | None \<Rightarrow>
            let b = b\<lparr>mb_tools := emplace pattern (AddSubscribeWrapper w \<lparr>st_subs = [], st_require = []\<rparr>) (mb_tools b)\<rparr>;
                b = b\<lparr>mb_registry := mq_RegisterMsgHandle pattern pattern (mb_registry b)\<rparr>
            in (True, b\<lparr>mb_sub_info := mb_sub_info b @ [(pattern, qos)]\<rparr>))"

section \<open>Publishing and receiving\<close>

definition mqtt_pkg_size :: "string \<Rightarrow> string list \<Rightarrow> nat \<Rightarrow> nat" where
  "mqtt_pkg_size t kvs msg_size = 1 + length t + context_meta_kv_size kvs + msg_size"

definition mb_Publish ::
  "bool \<Rightarrow> nat \<Rightarrow> (bytes \<Rightarrow> byte list list) \<Rightarrow> 'm mqtt_channel_backend \<Rightarrow> 'm msg_wrapper \<Rightarrow>
   (mqtt_error, string \<times> int \<times> byte list) result \<times> 'm msg_wrapper" where
  "mb_Publish little p segment b w =
     (if mb_state b \<noteq> kStart then (Inl MqNotStart, w)
      else
        let qos = (case map_of (mb_pub_cfg b) (ti_topic_name (mw_info w)) of None \<Rightarrow> 2 | Some q \<Rightarrow> q);
            t = publish_type w
        in case SerializeMsgWithCache w t of
          Inl e \<Rightarrow> (Inl (MqSerialize e), w)
        | Inr (msg, w) \<Rightarrow>
            let kvs = GetMetaKeyValsArray (mw_ctx w) in
            if \<not> length kvs div 2 \<le> 255 then (Inl MqTooMuchMeta, w)
            else
              let n = mqtt_pkg_size t kvs (sum_list (map length (segment msg))) in
              if \<not> n \<le> mb_max_pkg_size b then (Inl (MqPkgTooLarge n), w)
              else case put_channel_body little t kvs (segment msg) (mk_buffer_operator p (replicate n 0)) of
                Inl e \<Rightarrow> (Inl (MqBuffer e), w)
              | Inr buf \<Rightarrow> (Inr (channel_pattern (ti_topic_name (mw_info w)) (ti_msg_type (mw_info w)), qos, bo_mem buf), w))"

definition mb_handle ::
  "bool \<Rightarrow> nat \<Rightarrow> 'm subscribe_tool \<Rightarrow> byte list \<Rightarrow> handle_error option \<times> 'm deliveries" where
  "mb_handle little p tool payload =
     (case get_channel_body little ''mqtt'' (mk_buffer_operator p payload) of
        Inl e \<Rightarrow> (Some (HandlerBuffer e), [])
      | Inr (cx, t, msg) \<Rightarrow> apfst (map_option HandlerMsg) (DoSubscribeCallback_data cx t msg tool))"

text \<open>A message of the broker that the table hands to the handler of a subscription, at once or as a task.\<close>

definition mb_receive ::
  "bool \<Rightarrow> nat \<Rightarrow> 'm mqtt_channel_backend \<Rightarrow> string \<Rightarrow> byte list \<Rightarrow> (handle_error option \<times> 'm deliveries) option" where
  "mb_receive little p b topic payload =
     (case mq_HandleServerMsg topic payload (mb_registry b) of
        (MqInline h, _) \<Rightarrow> map_option (\<lambda>tool. mb_handle little p tool payload) (map_of (mb_tools b) h)
      | (MqQueued, r) \<Rightarrow>
          (let (h, message) = last (mq_tasks r) in
           map_option (\<lambda>tool. mb_handle little p tool message) (map_of (mb_tools b) h))
      | _ \<Rightarrow> None)"

section \<open>From publisher to subscriber\<close>

definition can_subscribe_mqtt :: "'m mqtt_channel_backend \<Rightarrow> bool" where
  "can_subscribe_mqtt b \<longleftrightarrow> mb_state b = kInit"

interpretation mqtt: subscription_tables sub_pattern mb_tools "\<lambda>b. mq_handles (mb_registry b)" can_subscribe_mqtt "mb_Subscribe regex" for regex
  by unfold_locales
    (auto simp: mb_Subscribe_def sub_pattern_def [symmetric] Let_def can_subscribe_mqtt_def mq_RegisterMsgHandle_def map_of_emplace
      update_conv' fun_eq_iff split: option.splits)

lemma mb_Subscribe_flags:
  "mq_shutdown_flag (mb_registry (snd (mb_Subscribe regex w b))) = mq_shutdown_flag (mb_registry b)"
  by (simp add: mb_Subscribe_def Let_def mq_RegisterMsgHandle_def split: option.splits)

lemma mqtt_subscriptions:
  assumes "can_subscribe_mqtt b" "mb_tools b = []" "mq_handles (mb_registry b) = []"
    and "sb = snd (mb_Start (fold (\<lambda>w b. snd (mb_Subscribe regex w b)) subs b))"
  shows "served_by sub_pattern subs (mb_tools sb) (mq_handles (mb_registry sb)) \<and>
    mq_shutdown_flag (mb_registry sb) = mq_shutdown_flag (mb_registry b)"
proof -
  have "mq_shutdown_flag (mb_registry (fold (\<lambda>w b. snd (mb_Subscribe regex w b)) subs b)) = mq_shutdown_flag (mb_registry b)"
    by (induction subs arbitrary: b) (simp_all add: mb_Subscribe_flags)
  then show ?thesis using mqtt.fold_served [OF assms(1-3)] assms(4)
    by (simp add: mb_Start_def atomic_exchange_def Let_def)
qed

lemma channel_body_fills:
  assumes "p < 2 ^ 62" "n = length (channel_body little t kvs (concat segs))" "n < 2 ^ 62"
    and "put_channel_body little t kvs segs (mk_buffer_operator p (replicate n 0)) = Inr b"
  shows "bo_mem b = channel_body little t kvs (concat segs) \<and> length t \<le> 255 \<and> (\<forall>s \<in> set kvs. length s \<le> 65535)"
proof -
  have room: "buf_wf (mk_buffer_operator p (replicate n 0))" "room (mk_buffer_operator p (replicate n 0)) = n"
    "out (mk_buffer_operator p (replicate n 0)) = []" using fresh_buffer [of p n] assms(1,3) by simp_all
  have small: "length t < 2 ^ 62" "\<forall>s \<in> set kvs. length s < 2 ^ 62" "length (concat segs) < 2 ^ 63"
    using assms(2,3) kvs_small [of _ kvs] by (fastforce simp: length_channel_body)+
  note w = put_channel_body_Inr [OF room(1) assms(4) small]
  have "bo_mem b = channel_body little t kvs (concat segs)"
    by (rule wrote_all [OF conjunct1 [OF w] room(3)]) (simp only: room(2) assms(2) flip: assms(2))
  then show ?thesis using w by simp
qed

lemma mb_Publish_package:
  assumes "mb_Publish little p segment b w = (Inr (topic, qos, payload), w')" "p < 2 ^ 62" "mb_max_pkg_size b < 2 ^ 32"
    and "\<forall>bs. concat (segment bs) = bs"
  shows "\<exists>msg. SerializeMsgWithCache w (publish_type w) = Inr (msg, w') \<and> topic = wire_pattern w \<and>
    payload = channel_body little (publish_type w) (GetMetaKeyValsArray (mw_ctx w)) msg \<and> length payload < 2 ^ 32 \<and>
    length (publish_type w) \<le> 255 \<and> meta_fits (GetMetaKeyValsArray (mw_ctx w))"
proof -
  let ?kvs = "GetMetaKeyValsArray (mw_ctx w)" and ?t = "publish_type w"
  obtain msg w1 where s: "SerializeMsgWithCache w ?t = Inr (msg, w1)" and st: "mb_state b = kStart"
    using assms(1) by (auto simp: mb_Publish_def Let_def split: if_splits sum.splits)
  have fr: "mw_ctx w1 = mw_ctx w" "mw_info w1 = mw_info w" using SerializeMsgWithCache_frame [OF s] by simp_all
  have len: "sum_list (map length (segment msg)) = length msg" using assms(4) by (metis length_concat)
  let ?n = "mqtt_pkg_size ?t ?kvs (length msg)"
  have n: "length ?kvs div 2 \<le> 255" "?n \<le> mb_max_pkg_size b"
    using assms(1) st s fr len by (auto simp: mb_Publish_def Let_def split: if_splits)
  obtain buf where buf: "put_channel_body little ?t ?kvs (segment msg) (mk_buffer_operator p (replicate ?n 0)) = Inr buf"
    "payload = bo_mem buf" "w' = w1" "topic = wire_pattern w"
    using assms(1) st s fr n len by (auto simp: mb_Publish_def Let_def wire_pattern_def split: sum.splits)
  have size: "?n = length (channel_body little ?t ?kvs (concat (segment msg)))"
    using assms(4) by (simp add: mqtt_pkg_size_def length_channel_body)
  have "?n < 2 ^ 62" using n(2) assms(3) by simp
  from channel_body_fills [OF assms(2) size this buf(1)] show ?thesis
    using s buf(2-4) n assms(3,4) size by (auto simp: meta_fits_def)
qed

definition mqtt_kind :: net_kind where
  "mqtt_kind = \<lparr>nk_name = ''mqtt'', nk_prefix = ''mqtt://'', nk_guards_publish = True\<rparr>"

text \<open>
  What the mqtt backend publishes and the broker delivers on the topic is handed to exactly
  the subscribers of the message's topic and type, in the order they subscribed; each finds
  the message and the publisher's metadata, whether or not a callback executor is configured.
\<close>

theorem mqtt_package_reaches_subscribers:
  assumes "mb_Publish little p segment pb w = (Inr (topic, qos, payload), w')"
    and "p < 2 ^ 62" "p' < 2 ^ 62" "mb_max_pkg_size pb < 2 ^ 32" "\<forall>bs. concat (segment bs) = bs"
    and "coherent m w" "codec (ti_support (mw_info w))" "publish_type w \<in> set (ts_types (ti_support (mw_info w)))"
    and "distinct (map fst (cx_meta (mw_ctx w)))"
    and "can_subscribe_mqtt b" "mb_tools b = []" "mq_handles (mb_registry b) = []" "\<not> mq_shutdown_flag (mb_registry b)"
    and "sb = snd (mb_Start (fold (\<lambda>s b. snd (mb_Subscribe regex s b)) subs b))"
    and "\<forall>s \<in> set subs. on_topic w s \<longrightarrow> ti_support (sw_info s) = ti_support (mw_info w)"
    and "\<exists>s \<in> set subs. on_topic w s"
  shows "\<exists>ds. mb_receive little' p' sb topic payload = Some (None, ds) \<and> map fst ds = filter (on_topic w) subs \<and>
    (\<forall>(s, x) \<in> set ds. sees m mqtt_kind w s x)"
proof -
  let ?t = "publish_type w" and ?ss = "filter (on_topic w) subs" and ?kvs = "GetMetaKeyValsArray (mw_ctx w)"
  obtain msg where s: "SerializeMsgWithCache w ?t = Inr (msg, w')" and topic: "topic = wire_pattern w"
    and payload: "payload = channel_body little ?t ?kvs msg" "length payload < 2 ^ 32"
    and fit: "length ?t \<le> 255" "meta_fits ?kvs"
    using mb_Publish_package [OF assms(1,2,4,5)] by blast
  have on: "sub_pattern s = wire_pattern w \<longleftrightarrow> on_topic w s" for s
    by (auto simp: sub_pattern_def wire_pattern_def pattern_inject on_topic_def)
  have sv: "served_by sub_pattern subs (mb_tools sb) (mq_handles (mb_registry sb))" "\<not> mq_shutdown_flag (mb_registry sb)"
    using mqtt_subscriptions [OF assms(10-12,14)] assms(13) by simp_all
  have "filter (\<lambda>s. sub_pattern s = wire_pattern w) subs = ?ss" "?ss \<noteq> []"
    using assms(16) by (auto simp: on filter_empty_conv)
  then have look: "map_of (mq_handles (mb_registry sb)) topic = Some topic" "map_of (mb_tools sb) topic = Some (tool_of ?ss)"
    using sv(1) by (simp_all add: served_by_def Let_def topic)
  let ?b = "mk_buffer_operator p' payload"
  have wf: "buf_wf ?b" using assms(3) payload(2) buf_wf_mk [of p' payload] by simp
  have r: "rest ?b = channel_body little' ?t ?kvs msg"
    using channel_body_host [of little] channel_body_host [of little'] by (simp add: rest_mk payload(1))
  have "length (rest ?b) < 2 ^ 63" using payload(2) by (simp add: rest_mk)
  then have "get_channel_body little' ''mqtt'' ?b = Inr (received_context ''mqtt'' ?t (cx_meta (mw_ctx w)), ?t, msg)"
    by (rule get_channel_body_stream [OF wf r _ fit])
  then have h: "mb_handle little' p' (tool_of ?ss) payload = apfst (map_option HandlerMsg)
      (DoSubscribeCallback_data (received_context ''mqtt'' ?t (cx_meta (mw_ctx w))) ?t msg (tool_of ?ss))"
    by (simp add: mb_handle_def)
  have "ts_deserialize (ti_support (mw_info w)) ?t msg = Some m"
    using SerializeMsgWithCache_coherent [OF assms(6-8) s] by simp
  then have "\<forall>s \<in> set ?ss. ts_deserialize (ti_support (sw_info s)) ?t msg = Some m" using assms(15) by auto
  from DoSubscribeCallback_data_sees [OF this assms(9), of mqtt_kind]
  obtain ds where ds: "mb_handle little' p' (tool_of ?ss) payload = (None, ds)" "map fst ds = ?ss"
    "\<forall>(s, x) \<in> set ds. sees m mqtt_kind w s x"
    using h by (auto simp: mqtt_kind_def)
  have "mb_receive little' p' sb topic payload = Some (mb_handle little' p' (tool_of ?ss) payload)"
    using look sv(2) by (simp add: mb_receive_def mq_HandleServerMsg_def)
  then show ?thesis using ds by auto
qed

definition mqtt_backend :: "lc_state \<Rightarrow> nat mqtt_channel_backend" where
  "mqtt_backend st = \<lparr>mb_pub_topics_options = [], mb_sub_topics_options = [], mb_state = st, mb_max_pkg_size = 1048576,
     mb_tools = [], mb_registry = \<lparr>mq_shutdown_flag = False, mq_handles = [], mq_executor = True, mq_active_tasks = 0, mq_tasks = []\<rparr>,
     mb_pub_cfg = [], mb_sub_info = []\<rparr>"

lemma mqtt_publish_example:
  "\<exists>payload w'. mb_Publish True 0 (\<lambda>bs. [bs]) (mqtt_backend kStart) wire_msg = (Inr (''/channel/t/number'', 2, payload), w')"
proof -
  obtain w1 where s: "SerializeMsgWithCache wire_msg ''bin'' = Inr ([7], w1)" using wire_msg_simps(4) by blast
  have fr: "mw_ctx w1 = mw_ctx wire_msg" "mw_info w1 = mw_info wire_msg" using SerializeMsgWithCache_frame [OF s] by simp_all
  obtain n where n: "mqtt_pkg_size ''bin'' [''k'', ''v''] 1 = n" by blast
  then have n12: "n = 12" by (simp add: mqtt_pkg_size_def context_meta_kv_size_def)
  let ?b = "mk_buffer_operator 0 (replicate n 0)"
  have room: "buf_wf ?b" "room ?b = n" using fresh_buffer [of 0 n] n12 by simp_all
  have "\<exists>b'. put_channel_body True ''bin'' [''k'', ''v''] [[7]] ?b = Inr b' \<and> wrote ?b (channel_body True ''bin'' [''k'', ''v''] (concat [[7]])) b'"
  proof (rule put_channel_body_wrote [OF room(1)])
    show "length (channel_body True ''bin'' [''k'', ''v''] (concat [[7]])) \<le> room ?b"
      unfolding room(2) using n12 by (simp add: length_channel_body context_meta_kv_size_def)
  qed (simp_all add: meta_fits_def)
  then obtain b' where "put_channel_body True ''bin'' [''k'', ''v''] [[7]] ?b = Inr b'" by blast
  then show ?thesis using s fr wire_msg_simps(1-3) n n12
    by (simp add: mb_Publish_def Let_def wire_pattern_def mqtt_backend_def)
qed

theorem mqtt_package_reaches_subscribers_witness:
  "\<exists>b topic payload ds. mb_receive False 0 b topic payload = Some (None, ds) \<and>
    map fst ds = [number_sub ''a'', number_sub ''b''] \<and> (\<forall>(s, x) \<in> set ds. sees 7 mqtt_kind wire_msg s x)"
proof -
  obtain payload w' where p: "mb_Publish True 0 (\<lambda>bs. [bs]) (mqtt_backend kStart) wire_msg =
      (Inr (''/channel/t/number'', 2, payload), w')" using mqtt_publish_example by blast
  have z: "(0 :: nat) < 2 ^ 62" "mb_max_pkg_size (mqtt_backend kStart) < 2 ^ 32" by (simp_all add: mqtt_backend_def)
  have b: "can_subscribe_mqtt (mqtt_backend kInit)" "mb_tools (mqtt_backend kInit) = []"
    "mq_handles (mb_registry (mqtt_backend kInit)) = []" "\<not> mq_shutdown_flag (mb_registry (mqtt_backend kInit))"
    by (simp_all add: can_subscribe_mqtt_def mqtt_backend_def)
  have e: "\<exists>s \<in> set [number_sub ''a'', number_sub ''b'']. on_topic wire_msg s"
    using wire_subscriber(6) by (auto simp: filter_eq_Cons_iff split: if_splits)
  have c: "\<forall>bs :: bytes. concat [bs] = bs" by simp
  show ?thesis
    by (rule exI, rule exI, rule exI)
      (rule mqtt_package_reaches_subscribers [where little' = False and regex = "\<lambda>_ _. None", OF p z(1) z(1) z(2) c wire_msg_ok(2-5)
        b refl wire_subscriber(5) e, unfolded wire_subscriber(6)])
qed

section \<open>Tasks that throw\<close>

text \<open>The counter is the number of queued tasks and of tasks whose handler has thrown.\<close>

fun mq_events :: "('h \<Rightarrow> byte list \<Rightarrow> bool) \<Rightarrow> (string \<times> byte list) option list \<Rightarrow> 'h mqtt_registry \<Rightarrow> 'h mqtt_registry" where
  "mq_events throws [] r = r"
| "mq_events throws (Some (topic, message) # es) r = mq_events throws es (snd (mq_HandleServerMsg topic message r))"
| "mq_events throws (None # es) r = mq_events throws es (mq_run_task throws r)"

lemma mq_active_grows:
  assumes "int (length (mq_tasks r)) + n \<le> mq_active_tasks r"
  shows "int (length (mq_tasks (mq_events throws es r))) + n \<le> mq_active_tasks (mq_events throws es r)"
  using assms
proof (induction throws es r rule: mq_events.induct)
  case (2 throws topic message es r)
  then show ?case by (auto simp: mq_HandleServerMsg_def split: option.splits)
next
  case (3 throws es r)
  then show ?case by (auto simp: mq_run_task_def Let_def split: list.splits)
qed simp

text \<open>
  A handler that throws in the callback executor leaves its task counted for ever: whatever
  arrives and runs later, \<open>WaitForAllTasks\<close> never finds the counter at zero again.
\<close>

theorem thrown_task_counted_for_ever:
  assumes "mq_tasks r = [(h, message)]" "mq_active_tasks r = 1" "throws h message"
  shows "\<not> mq_WaitForAllTasks_returns (mq_events throws es (mq_run_task throws r))"
proof -
  let ?r = "mq_run_task throws r"
  have "int (length (mq_tasks ?r)) + 1 \<le> mq_active_tasks ?r" using assms by (simp add: mq_run_task_def)
  from mq_active_grows [OF this, of throws es] show ?thesis by (simp add: mq_WaitForAllTasks_returns_def)
qed

theorem thrown_task_counted_for_ever_witness:
  "\<not> mq_WaitForAllTasks_returns (mq_events (\<lambda>_ m. m = []) [Some (''t'', [1]), None, None]
     (mq_run_task (\<lambda>_ m. m = []) \<lparr>mq_shutdown_flag = False, mq_handles = [(''t'', ''t'')], mq_executor = True,
        mq_active_tasks = 1, mq_tasks = [(''t'', [])]\<rparr>))"
  by (rule thrown_task_counted_for_ever [of _ "''t''" "[]"]) simp_all

end
