(* ===== verification/MqttRpc.thy ===== *)
theory MqttRpc
  imports MqttChannel LocalRpc
begin

text \<open>
  The mqtt rpc backend (\<open>mqtt_rpc_backend.cc\<close>). The client writes a request with the topic the
  response is to go to and the number under which it has recorded the call; the service echoes
  the number in front of the status and the response. The client and the service side are two
  processes that share nothing but the packages, so they are two models. The broker and the
  client library are outside the program: an operation that publishes returns topic, quality
  of service and payload.
\<close>

definition SVR_UNKNOWN :: u32 where "SVR_UNKNOWN = 1000"
definition CLI_UNKNOWN :: u32 where "CLI_UNKNOWN = 2000"
definition CLI_SEND_REQ_FAILED :: u32 where "CLI_SEND_REQ_FAILED = 2010"

type_synonym publication = "string \<times> int \<times> byte list"

section \<open>State, life cycle and registration\<close>

text \<open>\<open>qc_calls\<close> are the client's invoke wrappers, by number; \<open>qc_log\<close> the callbacks made.\<close>

record ('q, 'p) mqtt_client =
  qc_state :: lc_state
  qc_client_id :: string
  qc_clients_options :: "(string \<times> string \<times> int) list"
  qc_max_pkg_size :: nat
  qc_req_id :: u32
  qc_cfg :: "(string \<times> string \<times> int) list"
  qc_tool :: "nat client_tool option"
  qc_sub_info :: "(string \<times> int) list"
  qc_calls :: "nat \<Rightarrow> ('q, 'p) invoke_wrapper option"
  qc_log :: "rpc_event list"

definition GetFuncNameWithoutPrefix :: "string \<Rightarrow> string" where
  "GetFuncNameWithoutPrefix func_name =
     (case find_pos func_name '':/'' 0 of Some pos \<Rightarrow> drop (pos + 1) func_name | None \<Rightarrow> func_name)"

definition rpc_rsp_topic :: "string \<Rightarrow> string \<Rightarrow> string" where
  "rpc_rsp_topic client_id func_name =
     ''aimrt_rpc_rsp/'' @ UrlEncode client_id True @ ''/'' @ UrlEncode (GetFuncNameWithoutPrefix func_name) True"

definition rpc_req_topic :: "string \<Rightarrow> string \<Rightarrow> string" where
  "rpc_req_topic server_mqtt_id func_name =
     ''aimrt_rpc_req/'' @ (if server_mqtt_id = [] then [] else UrlEncode server_mqtt_id True @ ''/'') @
     UrlEncode (GetFuncNameWithoutPrefix func_name) True"

text \<open>An option applies when its expression matches the function's name with or without its prefix.\<close>

definition find_func_option :: "(string \<Rightarrow> string \<Rightarrow> bool option) \<Rightarrow> string \<Rightarrow> (string \<times> 'o) list \<Rightarrow> 'o option" where
  "find_func_option regex func_name opts =
     map_option snd (List.find (\<lambda>(expr, _).
       (case regex expr func_name of
          None \<Rightarrow> False
        | Some m \<Rightarrow> m \<or> regex expr (GetFuncNameWithoutPrefix func_name) = Some True)) opts)"

definition qc_Initialize :: "(nat \<times> bool) option option \<Rightarrow> ('q, 'p) mqtt_client \<Rightarrow> bool \<times> ('q, 'p) mqtt_client" where
  "qc_Initialize timeout_executor s =
     (if qc_state s \<noteq> kPreInit then (False, s\<lparr>qc_state := kInit\<rparr>)
      else
        let s = s\<lparr>qc_state := kInit, qc_tool := Some new_client_tool\<rparr> in
        case timeout_executor of
          None \<Rightarrow> (True, s)
        | Some None \<Rightarrow> (False, s)
        | Some (Some ex) \<Rightarrow>
            (case RegisterTimeoutExecutor ex new_client_tool of
               None \<Rightarrow> (False, s)
             | Some tool \<Rightarrow> (True, s\<lparr>qc_tool := Some tool\<rparr>)))"

definition qc_Start :: "('q, 'p) mqtt_client \<Rightarrow> bool \<times> ('q, 'p) mqtt_client" where
  "qc_Start s = (qc_state s = kInit, s\<lparr>qc_state := kStart\<rparr>)"

definition qc_Shutdown :: "('q, 'p) mqtt_client \<Rightarrow> ('q, 'p) mqtt_client" where
  "qc_Shutdown s = (if qc_state s = kShutdown then s else s\<lparr>qc_state := kShutdown, qc_tool := None\<rparr>)"

definition qc_RegisterClientFunc ::
  "(string \<Rightarrow> string \<Rightarrow> bool option) \<Rightarrow> ('q, 'p) func_info \<Rightarrow> ('q, 'p) mqtt_client \<Rightarrow> bool \<times> ('q, 'p) mqtt_client" where
  "qc_RegisterClientFunc regex info s =
     (if qc_state s \<noteq> kInit then (False, s)
      else
        let (server_mqtt_id, qos) = (case find_func_option regex (fi_func_name info) (qc_clients_options s) of
              None \<Rightarrow> ([], 2) | Some opt \<Rightarrow> opt);
            s = s\<lparr>qc_cfg := emplace (GetFuncNameWithoutPrefix (fi_func_name info)) (server_mqtt_id, qos) (qc_cfg s)\<rparr>;
            mqtt_sub_topic = rpc_rsp_topic (qc_client_id s) (fi_func_name info)
        in if 255 < length mqtt_sub_topic then (False, s)
           else (True, s\<lparr>qc_sub_info := qc_sub_info s @ [(mqtt_sub_topic, qos)]\<rparr>))"

text \<open>
  The topics a service subscribes to and the names its handler, the same for all, is registered
  under: the broker spreads the messages of the shared topic over its subscribers.
\<close>

definition qs_sub_topics :: "bool \<Rightarrow> int \<Rightarrow> string \<Rightarrow> string \<Rightarrow> (string \<times> int) list \<times> string list" where
  "qs_sub_topics allow_share qos client_id func_name =
     (let mqtt_sub_topic = ''aimrt_rpc_req/'' @ UrlEncode (GetFuncNameWithoutPrefix func_name) True;
          mqtt_sub_topic_2 = ''aimrt_rpc_req/'' @ UrlEncode client_id True @ ''/'' @ UrlEncode (GetFuncNameWithoutPrefix func_name) True
      in if allow_share
         then ([(''$share/aimrt/'' @ mqtt_sub_topic, qos), (mqtt_sub_topic_2, qos)], [mqtt_sub_topic, mqtt_sub_topic_2])
         else ([(mqtt_sub_topic_2, qos)], [mqtt_sub_topic_2]))"

definition qs_RegisterServiceFunc ::
  "(string \<Rightarrow> string \<Rightarrow> bool option) \<Rightarrow> (string \<times> bool \<times> int) list \<Rightarrow> lc_state \<Rightarrow> string \<Rightarrow> ('q, 'p) func_info \<Rightarrow>
   ((string \<times> int) list \<times> string list) option" where
  "qs_RegisterServiceFunc regex servers_options st client_id info =
     (if st \<noteq> kInit then None
      else
        let (allow_share, qos) = (case find_func_option regex (fi_func_name info) servers_options of
              None \<Rightarrow> (True, 2) | Some opt \<Rightarrow> opt)
        in Some (qs_sub_topics allow_share qos client_id (fi_func_name info)))"

text \<open>
  A client that names a server, and one that does not, publish on a topic a sharing service of
  that name listens to.
\<close>

lemma qs_serves_req_topic:
  "rpc_req_topic [] func_name \<in> set (snd (qs_sub_topics True qos client_id func_name))"
  "client_id \<noteq> [] \<Longrightarrow> rpc_req_topic client_id func_name \<in> set (snd (qs_sub_topics allow_share qos client_id func_name))"
  by (simp_all add: qs_sub_topics_def rpc_req_topic_def Let_def)

section \<open>Packages\<close>

definition rpc_GetMetaKeyValsArray :: "rpc_context \<Rightarrow> string list" where
  "rpc_GetMetaKeyValsArray cx = concat (map (\<lambda>(k, v). [k, v]) (rc_meta cx))"

definition put_request ::
  "bool \<Rightarrow> string \<Rightarrow> string \<Rightarrow> u32 \<Rightarrow> string list \<Rightarrow> byte list list \<Rightarrow> buffer_operator \<Rightarrow> (buffer_error, buffer_operator) result" where
  "put_request little t rsp_topic req_id kvs segs b =
     bindR (SetString little (octets t) kUInt8 b) (\<lambda>b.
       bindR (SetString little (octets rsp_topic) kUInt8 b) (\<lambda>b.
         bindR (SetUint32 little req_id b) (\<lambda>b.
           bindR (put_meta little kvs b) (put_segments segs))))"

definition put_response ::
  "bool \<Rightarrow> string \<Rightarrow> byte list \<Rightarrow> u32 \<Rightarrow> byte list list \<Rightarrow> buffer_operator \<Rightarrow> (buffer_error, buffer_operator) result" where
  "put_response little t req_id_buf code segs b =
     bindR (SetString little (octets t) kUInt8 b) (\<lambda>b.
       bindR (SetBuffer req_id_buf b) (\<lambda>b.
         bindR (SetUint32 little code b) (put_segments segs)))"

text \<open>
  The fields of a request: serialisation type, response topic, the four bytes of the number, the
  metadata behind what the context already holds, and the serialised request.
\<close>

definition get_request ::
  "bool \<Rightarrow> buffer_operator \<Rightarrow>
   (buffer_error, string \<times> string \<times> byte list \<times> (string \<times> string) list \<times> byte list) result" where
  "get_request little b =
     bindR (GetString little kUInt8 b) (\<lambda>(t, b1). bindR (view_load b t) (\<lambda>t.
       bindR (GetString little kUInt8 b1) (\<lambda>(topic, b2). bindR (view_load b1 topic) (\<lambda>topic.
         bindR (GetBytes 4 b2) (\<lambda>(req_id_buf, b3).
           bindR (GetUint8 b3) (\<lambda>(ctx_num, b4).
             bindR (get_pairs little (unat ctx_num) [(''aimrt-serialization_type'', chars_of t)] b4) (\<lambda>(meta, b5).
               bindR (GetRemainingBuffer b5) (\<lambda>(v, b6). bindR (view_load b5 v) (\<lambda>req_bytes.
                 Inr (chars_of t, chars_of topic, req_id_buf, meta, req_bytes))))))))))"

definition get_response_head ::
  "bool \<Rightarrow> buffer_operator \<Rightarrow> (buffer_error, string \<times> u32 \<times> u32 \<times> buffer_operator) result" where
  "get_response_head little b =
     bindR (GetString little kUInt8 b) (\<lambda>(t, b1). bindR (view_load b t) (\<lambda>t.
       bindR (GetUint32 little b1) (\<lambda>(req_id, b2).
         bindR (GetUint32 little b2) (\<lambda>(code, b3).
           Inr (chars_of t, req_id, code, b3)))))"

section \<open>The client\<close>

definition qc_InvokeCallBack :: "nat \<Rightarrow> u32 \<Rightarrow> ('q, 'p) mqtt_client \<Rightarrow> ('q, 'p) mqtt_client" where
  "qc_InvokeCallBack c status s =
     (case qc_calls s c of
        None \<Rightarrow> s
      | Some w \<Rightarrow>
          s\<lparr>qc_log := qc_log s @ [if iw_callback w then Called c status else BadCall c],
            qc_calls := (qc_calls s)(c \<mapsto> w\<lparr>iw_callback := False\<rparr>)\<rparr>)"

text \<open>The server the call goes to, or the failure of an address of another scheme.\<close>

definition qc_server :: "('q, 'p) mqtt_client \<Rightarrow> ('q, 'p) invoke_wrapper \<Rightarrow> (string \<times> int) option" where
  "qc_server s w =
     (let (server_mqtt_id, qos) = (case map_of (qc_cfg s) (GetFuncNameWithoutPrefix (fi_func_name (iw_info w))) of
            None \<Rightarrow> ([], 2) | Some cfg \<Rightarrow> cfg);
          to_addr = rpc_GetMetaValue ''aimrt-to_addr'' (iw_ctx w)
      in if to_addr = [] then Some (server_mqtt_id, qos)
         else case ParseUrl to_addr of
           None \<Rightarrow> Some (server_mqtt_id, qos)
         | Some url \<Rightarrow> if protocol url \<noteq> ''mqtt'' then None else Some (host url, qos))"

text \<open>\<open>Invoke\<close> from the serialised request on: metadata, size, record, package.\<close>

definition qc_send_request ::
  "bool \<Rightarrow> nat \<Rightarrow> (bytes \<Rightarrow> byte list list) \<Rightarrow> nat \<Rightarrow> ('q, 'p) invoke_wrapper \<Rightarrow> string \<times> int \<Rightarrow> u32 \<Rightarrow> bytes \<Rightarrow>
   ('q, 'p) mqtt_client \<Rightarrow> ('q, 'p) mqtt_client \<times> publication option" where
  "qc_send_request little p segment c w server cur_req_id req s =
     (let t = rpc_GetMetaValue ''aimrt-serialization_type'' (iw_ctx w);
          mqtt_sub_topic = rpc_rsp_topic (qc_client_id s) (fi_func_name (iw_info w));
          w = w\<lparr>iw_ctx := rpc_SetMetaValue ''aimrt-from_mqtt_client'' (qc_client_id s) (iw_ctx w)\<rparr>;
          s = s\<lparr>qc_calls := (qc_calls s)(c \<mapsto> w)\<rparr>;
          kvs = rpc_GetMetaKeyValsArray (iw_ctx w)
      in
      if 255 < length kvs div 2 then (qc_InvokeCallBack c CLI_BACKEND_INTERNAL_ERROR s, None)
      else
        let n = 1 + length t + 1 + length mqtt_sub_topic + 4 + context_meta_kv_size kvs + sum_list (map length (segment req)) in
        if qc_max_pkg_size s < n then (qc_InvokeCallBack c CLI_SEND_REQ_FAILED s, None)
        else case qc_tool s of
          None \<Rightarrow> (s\<lparr>qc_log := qc_log s @ [NullTool]\<rparr>, None)
        | Some tool \<Rightarrow>
            let (ret, tool) = Record cur_req_id (rc_timeout (iw_ctx w)) c tool; s = s\<lparr>qc_tool := Some tool\<rparr> in
            if \<not> ret then (qc_InvokeCallBack c CLI_BACKEND_INTERNAL_ERROR s, None)
            else case put_request little t mqtt_sub_topic cur_req_id kvs (segment req) (mk_buffer_operator p (replicate n 0)) of
              Inl _ \<Rightarrow> (s, None)
            | Inr b \<Rightarrow> (s, Some (rpc_req_topic (fst server) (fi_func_name (iw_info w)), snd server, bo_mem b)))"

definition qc_Invoke ::
  "bool \<Rightarrow> nat \<Rightarrow> (bytes \<Rightarrow> byte list list) \<Rightarrow> nat \<Rightarrow> ('q, 'p) mqtt_client \<Rightarrow> ('q, 'p) mqtt_client \<times> publication option" where
  "qc_Invoke little p segment c s =
     (case qc_calls s c of
        None \<Rightarrow> (s, None)
      | Some w \<Rightarrow>
          if qc_state s \<noteq> kStart then (qc_InvokeCallBack c CLI_BACKEND_INTERNAL_ERROR s, None)
          else case qc_server s w of
            None \<Rightarrow> (qc_InvokeCallBack c CLI_BACKEND_INTERNAL_ERROR s, None)
          | Some server \<Rightarrow>
              let cur_req_id = qc_req_id s;
                  s = s\<lparr>qc_req_id := cur_req_id + 1\<rparr>;
                  t = rpc_GetMetaValue ''aimrt-serialization_type'' (iw_ctx w);
                  mqtt_sub_topic = rpc_rsp_topic (qc_client_id s) (fi_func_name (iw_info w))
              in
              if 255 < length t then (qc_InvokeCallBack c CLI_UNKNOWN s, None)
              else if 255 < length mqtt_sub_topic then (qc_InvokeCallBack c CLI_UNKNOWN s, None)
              else case TrySerializeReqWithCache w t of
                (None, w) \<Rightarrow> (qc_InvokeCallBack c CLI_SERIALIZATION_FAILED (s\<lparr>qc_calls := (qc_calls s)(c \<mapsto> w)\<rparr>), None)
              | (Some req, w) \<Rightarrow> qc_send_request little p segment c w server cur_req_id req s)"

definition qc_handle_response :: "bool \<Rightarrow> nat \<Rightarrow> byte list \<Rightarrow> ('q, 'p) mqtt_client \<Rightarrow> ('q, 'p) mqtt_client" where
  "qc_handle_response little p payload s =
     (case get_response_head little (mk_buffer_operator p payload) of
        Inl _ \<Rightarrow> s
      | Inr (t, req_id, code, b) \<Rightarrow>
          (case qc_tool s of
             None \<Rightarrow> s\<lparr>qc_log := qc_log s @ [NullTool]\<rparr>
           | Some tool \<Rightarrow>
               (case GetRecord req_id tool of
                  (None, tool) \<Rightarrow> s\<lparr>qc_tool := Some tool\<rparr>
                | (Some c, tool) \<Rightarrow>
                    let s = s\<lparr>qc_tool := Some tool\<rparr> in
                    if code \<noteq> 0 then qc_InvokeCallBack c code s
                    else case (qc_calls s c, bindR (GetRemainingBuffer b) (\<lambda>(v, _). view_load b v)) of
                      (None, _) \<Rightarrow> s
                    | (_, Inl _) \<Rightarrow> qc_InvokeCallBack c CLI_BACKEND_INTERNAL_ERROR s
                    | (Some w, Inr rsp_bytes) \<Rightarrow>
                        (case ts_deserialize (fi_rsp_support (iw_info w)) t rsp_bytes of
                           None \<Rightarrow> qc_InvokeCallBack c CLI_DESERIALIZATION_FAILED s
                         | Some rsp \<Rightarrow>
                             qc_InvokeCallBack c STATUS_OK (s\<lparr>qc_calls := (qc_calls s)(c \<mapsto> w\<lparr>iw_rsp := Some rsp\<rparr>)\<rparr>)))))"

definition qc_timeout :: "u32 \<times> u64 \<Rightarrow> ('q, 'p) mqtt_client \<Rightarrow> ('q, 'p) mqtt_client" where
  "qc_timeout timer s =
     (case qc_tool s of
        None \<Rightarrow> s
      | Some tool \<Rightarrow>
          (case GetRecord (fst timer) (tool\<lparr>ct_timers := remove1 timer (ct_timers tool)\<rparr>) of
             (None, tool) \<Rightarrow> s\<lparr>qc_tool := Some tool\<rparr>
           | (Some c, tool) \<Rightarrow> qc_InvokeCallBack c STATUS_TIMEOUT (s\<lparr>qc_tool := Some tool\<rparr>)))"

section \<open>The service\<close>

record ('q, 'p) mqtt_service_call =
  qs_wrapper :: "('q, 'p) invoke_wrapper"
  qs_topic :: string
  qs_type :: string
  qs_req_id :: "byte list"
  qs_qos :: int

definition ReturnRspWithStatusCode ::
  "bool \<Rightarrow> nat \<Rightarrow> string \<Rightarrow> int \<Rightarrow> string \<Rightarrow> byte list \<Rightarrow> u32 \<Rightarrow> (buffer_error, publication) result" where
  "ReturnRspWithStatusCode little p topic qos t req_id_buf code =
     bindR (put_response little t req_id_buf code [] (mk_buffer_operator p (replicate (1 + length t + 4 + 4) 0)))
       (\<lambda>b. Inr (topic, qos, bo_mem b))"

datatype ('q, 'p) served =
    ServeFailed buffer_error | ServeReply publication | ServeCall "('q, 'p) mqtt_service_call"

definition qs_handle_request ::
  "bool \<Rightarrow> nat \<Rightarrow> int \<Rightarrow> ('q, 'p) func_info \<Rightarrow> byte list \<Rightarrow> ('q, 'p) served" where
  "qs_handle_request little p qos info payload =
     (case get_request little (mk_buffer_operator p payload) of
        Inl e \<Rightarrow> ServeFailed e
      | Inr (t, topic, req_id_buf, meta, req_bytes) \<Rightarrow>
          let cx = \<lparr>rc_client = False, rc_used = False, rc_timeout = 0, rc_meta = meta\<rparr>;
              cx = SetFunctionName (fi_func_name info) cx;
              cx = rpc_SetMetaValue ''aimrt-backend'' ''mqtt'' cx
          in case ts_deserialize (fi_req_support info) t req_bytes of
            None \<Rightarrow>
              (case ReturnRspWithStatusCode little p topic qos t req_id_buf SVR_DESERIALIZATION_FAILED of
                 Inl e \<Rightarrow> ServeFailed e
               | Inr pub \<Rightarrow> ServeReply pub)
          | Some req \<Rightarrow>
              ServeCall
                \<lparr>qs_wrapper = \<lparr>iw_info = info, iw_req = req, iw_rsp = None, iw_ctx = cx, iw_callback = True,
                   iw_req_cache = [], iw_rsp_cache = []\<rparr>,
                 qs_topic = topic, qs_type = t, qs_req_id = req_id_buf, qs_qos = qos\<rparr>)"

text \<open>The callback of the service: the status and, as the response written, \<open>rsp\<close>.\<close>

definition qs_respond ::
  "bool \<Rightarrow> nat \<Rightarrow> nat \<Rightarrow> (bytes \<Rightarrow> byte list list) \<Rightarrow> ('q, 'p) mqtt_service_call \<Rightarrow> u32 \<Rightarrow> 'p \<Rightarrow> (buffer_error, publication) result" where
  "qs_respond little p max_pkg_size segment sc status rsp =
     (let w = (qs_wrapper sc)\<lparr>iw_rsp := Some rsp\<rparr>; t = qs_type sc;
          fail = ReturnRspWithStatusCode little p (qs_topic sc) (qs_qos sc) t (qs_req_id sc)
      in if status \<noteq> STATUS_OK then fail status
         else case TrySerializeRspWithCache w t of
           (None, _) \<Rightarrow> fail SVR_SERIALIZATION_FAILED
         | (Some rsp_bytes, _) \<Rightarrow>
             let n = 1 + length t + 4 + 4 + sum_list (map length (segment rsp_bytes)) in
             if max_pkg_size < n then fail SVR_UNKNOWN
             else bindR (put_response little t (qs_req_id sc) 0 (segment rsp_bytes) (mk_buffer_operator p (replicate n 0)))
                    (\<lambda>b. Inr (qs_topic sc, qs_qos sc, bo_mem b)))"

section \<open>What is written is what is read\<close>

definition request_bytes :: "bool \<Rightarrow> string \<Rightarrow> string \<Rightarrow> u32 \<Rightarrow> string list \<Rightarrow> byte list \<Rightarrow> byte list" where
  "request_bytes little t topic req_id kvs msg =
     string_bytes little kUInt8 (octets t) @ string_bytes little kUInt8 (octets topic) @ SetBufFromUint32 little req_id @
     meta_bytes little kvs @ msg"

definition response_bytes :: "bool \<Rightarrow> string \<Rightarrow> byte list \<Rightarrow> u32 \<Rightarrow> byte list \<Rightarrow> byte list" where
  "response_bytes little t req_id_buf code msg =
     string_bytes little kUInt8 (octets t) @ req_id_buf @ SetBufFromUint32 little code @ msg"

lemma length_request_bytes:
  "length (request_bytes little t topic req_id kvs msg) = 1 + length t + 1 + length topic + 4 + context_meta_kv_size kvs + length msg"
  by (simp add: request_bytes_def length_meta_bytes u32c.length_encode)

lemma length_response_bytes:
  "length (response_bytes little t req_id_buf code msg) = 1 + length t + length req_id_buf + 4 + length msg"
  by (simp add: response_bytes_def u32c.length_encode)

lemma SetUint32_Inr: "buf_wf b \<Longrightarrow> SetUint32 little n b = Inr b' \<Longrightarrow> wrote b (SetBufFromUint32 little n) b'"
  using SetBuffer_Inr [of b "SetBufFromUint32 little n" b'] by (simp add: SetUint32_def u32c.length_encode)

lemma put_request_Inr:
  assumes "buf_wf b" "length (request_bytes little t topic req_id kvs (concat segs)) < 2 ^ 62"
    and "put_request little t topic req_id kvs segs b = Inr b'"
  shows "wrote b (request_bytes little t topic req_id kvs (concat segs)) b' \<and> length t \<le> 255 \<and> length topic \<le> 255 \<and>
    (\<forall>s \<in> set kvs. length s \<le> 65535)"
proof -
  have small: "length t < 2 ^ 62" "length topic < 2 ^ 62" "\<forall>s \<in> set kvs. length s < 2 ^ 62" "length (concat segs) < 2 ^ 63"
    using assms(2) kvs_small [of _ kvs] by (fastforce simp: length_request_bytes)+
  obtain b1 b2 b3 b4 where b: "SetString little (octets t) kUInt8 b = Inr b1" "SetString little (octets topic) kUInt8 b1 = Inr b2"
    "SetUint32 little req_id b2 = Inr b3" "put_meta little kvs b3 = Inr b4" "put_segments segs b4 = Inr b'"
    using assms(3) by (auto simp: put_request_def bindR_eq_Inr)
  have w1: "wrote b (string_bytes little kUInt8 (octets t)) b1" "length t \<le> 255"
    using SetString_Inr [OF assms(1) _ b(1)] small(1) by simp_all
  have w2: "wrote b1 (string_bytes little kUInt8 (octets topic)) b2" "length topic \<le> 255"
    using SetString_Inr [OF wrote_wf [OF w1(1)] _ b(2)] small(2) by simp_all
  have w3: "wrote b2 (SetBufFromUint32 little req_id) b3" by (rule SetUint32_Inr [OF wrote_wf [OF w2(1)] b(3)])
  have w4: "wrote b3 (meta_bytes little kvs) b4 \<and> (\<forall>s \<in> set kvs. length s \<le> 65535)"
    by (rule put_meta_Inr [OF wrote_wf [OF w3] small(3) b(4)])
  have w5: "wrote b4 (concat segs) b'" by (rule put_segments_Inr [OF wrote_wf [OF conjunct1 [OF w4]] small(4) b(5)])
  have "wrote b (request_bytes little t topic req_id kvs (concat segs)) b'"
    using wrote_trans [OF w1(1) wrote_trans [OF w2(1) wrote_trans [OF w3 wrote_trans [OF conjunct1 [OF w4] w5]]]]
    by (simp add: request_bytes_def)
  then show ?thesis using w1(2) w2(2) w4 by simp
qed

lemma put_request_fills:
  assumes "p < 2 ^ 62" "n < 2 ^ 62" "n = length (request_bytes little t topic req_id kvs (concat segs))"
    and "put_request little t topic req_id kvs segs (mk_buffer_operator p (replicate n 0)) = Inr b"
  shows "bo_mem b = request_bytes little t topic req_id kvs (concat segs) \<and> length t \<le> 255 \<and> length topic \<le> 255 \<and>
    (\<forall>s \<in> set kvs. length s \<le> 65535)"
proof -
  have room: "buf_wf (mk_buffer_operator p (replicate n 0))" "room (mk_buffer_operator p (replicate n 0)) = n"
    "out (mk_buffer_operator p (replicate n 0)) = []" using fresh_buffer [of p n] assms(1,2) by simp_all
  note w = put_request_Inr [OF room(1) _ assms(4)]
  have "bo_mem b = request_bytes little t topic req_id kvs (concat segs)"
    by (rule wrote_all [OF conjunct1 [OF w] room(3)]) (use assms(2,3) room(2) in simp_all)
  then show ?thesis using w assms(2,3) by simp
qed

lemma put_response_Inr:
  assumes "buf_wf b" "length (response_bytes little t req_id_buf code (concat segs)) < 2 ^ 62"
    and "put_response little t req_id_buf code segs b = Inr b'"
  shows "wrote b (response_bytes little t req_id_buf code (concat segs)) b' \<and> length t \<le> 255"
proof -
  have small: "length t < 2 ^ 62" "length req_id_buf < 2 ^ 63" "length (concat segs) < 2 ^ 63"
    using assms(2) by (simp_all add: length_response_bytes)
  obtain b1 b2 b3 where b: "SetString little (octets t) kUInt8 b = Inr b1" "SetBuffer req_id_buf b1 = Inr b2"
    "SetUint32 little code b2 = Inr b3" "put_segments segs b3 = Inr b'"
    using assms(3) by (auto simp: put_response_def bindR_eq_Inr)
  have w1: "wrote b (string_bytes little kUInt8 (octets t)) b1" "length t \<le> 255"
    using SetString_Inr [OF assms(1) _ b(1)] small(1) by simp_all
  have w2: "wrote b1 req_id_buf b2" by (rule SetBuffer_Inr [OF wrote_wf [OF w1(1)] small(2) b(2)])
  have w3: "wrote b2 (SetBufFromUint32 little code) b3" by (rule SetUint32_Inr [OF wrote_wf [OF w2] b(3)])
  have w4: "wrote b3 (concat segs) b'" by (rule put_segments_Inr [OF wrote_wf [OF w3] small(3) b(4)])
  show ?thesis
    using wrote_trans [OF w1(1) wrote_trans [OF w2 wrote_trans [OF w3 w4]]] w1(2) by (simp add: response_bytes_def)
qed

lemma put_response_fills:
  assumes "p < 2 ^ 62" "n < 2 ^ 62" "n = length (response_bytes little t req_id_buf code (concat segs))"
    and "put_response little t req_id_buf code segs (mk_buffer_operator p (replicate n 0)) = Inr b"
  shows "bo_mem b = response_bytes little t req_id_buf code (concat segs) \<and> length t \<le> 255"
proof -
  have room: "buf_wf (mk_buffer_operator p (replicate n 0))" "room (mk_buffer_operator p (replicate n 0)) = n"
    "out (mk_buffer_operator p (replicate n 0)) = []" using fresh_buffer [of p n] assms(1,2) by simp_all
  note w = put_response_Inr [OF room(1) _ assms(4)]
  have "bo_mem b = response_bytes little t req_id_buf code (concat segs)"
    by (rule wrote_all [OF conjunct1 [OF w] room(3)]) (use assms(2,3) room(2) in simp_all)
  then show ?thesis using w assms(2,3) by simp
qed

lemma request_bytes_host: "request_bytes little t topic req_id kvs msg = request_bytes False t topic req_id kvs msg"
  using string_bytes_host [of little] SetBufFromUint32_host [of little] by (simp add: request_bytes_def meta_bytes_def)

lemma pairs_of_kvs:
  "meta_fits (concat (map (\<lambda>(k, v). [k, v]) ps)) \<longleftrightarrow>
     length ps \<le> 255 \<and> (\<forall>(k, v) \<in> set ps. length k \<le> 65535 \<and> length v \<le> 65535)"
  "length (concat (map (\<lambda>(k, v). [k, v]) ps)) div 2 = length ps"
proof -
  have n: "length (concat (map (\<lambda>(k, v). [k, v]) ps)) = 2 * length ps" by (induction ps) auto
  then show "length (concat (map (\<lambda>(k, v). [k, v]) ps)) div 2 = length ps" by simp
  show "meta_fits (concat (map (\<lambda>(k, v). [k, v]) ps)) \<longleftrightarrow>
     length ps \<le> 255 \<and> (\<forall>(k, v) \<in> set ps. length k \<le> 65535 \<and> length v \<le> 65535)"
    by (auto simp: meta_fits_def n)
qed

lemma get_request_stream:
  assumes "buf_wf b" "rest b = request_bytes little t topic req_id (concat (map (\<lambda>(k, v). [k, v]) ps)) msg"
    and "length (rest b) < 2 ^ 63" "length t \<le> 255" "length topic \<le> 255" "meta_fits (concat (map (\<lambda>(k, v). [k, v]) ps))"
  shows "get_request little b = Inr (t, topic, SetBufFromUint32 little req_id,
    fold (\<lambda>(k, v). AList.update k v) ps [(''aimrt-serialization_type'', t)], msg)"
proof -
  let ?kvs = "concat (map (\<lambda>(k, v). [k, v]) ps)"
  have l: "length (octets t) \<le> len_max kUInt8" "length (octets topic) \<le> len_max kUInt8" using assms(4,5) by simp_all
  have r: "rest b = string_bytes little kUInt8 (octets t) @ string_bytes little kUInt8 (octets topic) @
      SetBufFromUint32 little req_id @ meta_bytes little ?kvs @ msg"
    using assms(2) by (simp add: request_bytes_def)
  obtain v b1 where b1: "GetString little kUInt8 b = Inr (v, b1)" "view_load b v = Inr (octets t)" "buf_wf b1"
    "rest b1 = string_bytes little kUInt8 (octets topic) @ SetBufFromUint32 little req_id @ meta_bytes little ?kvs @ msg"
    using GetString_stream [OF assms(1) l(1) r] by blast
  obtain v2 b2 where b2: "GetString little kUInt8 b1 = Inr (v2, b2)" "view_load b1 v2 = Inr (octets topic)" "buf_wf b2"
    "rest b2 = SetBufFromUint32 little req_id @ meta_bytes little ?kvs @ msg"
    using GetString_stream [OF b1(3) l(2) b1(4)] by blast
  obtain b3 where b3: "GetBytes 4 b2 = Inr (SetBufFromUint32 little req_id, b3)" "buf_wf b3" "rest b3 = meta_bytes little ?kvs @ msg"
    using GetBytes_stream [OF b2(3), of 4] by (auto simp: b2(4) u32c.length_encode)
  let ?body = "concat (map (\<lambda>s. string_bytes little kUInt16 (octets s)) ?kvs) @ msg"
  obtain b4 where b4: "GetUint8 b3 = Inr (of_nat (length ps), b4)" "buf_wf b4" "rest b4 = ?body"
    using GetUint8_stream [OF b3(2)] by (auto simp: b3(3) meta_bytes_def pairs_of_kvs(2))
  have n: "unat (of_nat (length ps) :: byte) = length ps" and ok: "\<forall>(k, v) \<in> set ps. length k \<le> 65535 \<and> length v \<le> 65535"
    using assms(6) by (auto simp: pairs_of_kvs(1) unat_of_nat)
  obtain b5 where b5: "get_pairs little (length ps) [(''aimrt-serialization_type'', t)] b4 =
      Inr (fold (\<lambda>(k, v). AList.update k v) ps [(''aimrt-serialization_type'', t)], b5)" "buf_wf b5" "rest b5 = msg"
    using get_pairs_stream [OF b4(2) ok b4(3)] by blast
  have "length msg < 2 ^ 63" using assms(2,3) by (simp add: length_request_bytes)
  then obtain w b6 where "GetRemainingBuffer b5 = Inr (w, b6)" "view_load b5 w = Inr msg"
    using GetRemainingBuffer_stream [OF b5(2)] by (auto simp: b5(3))
  then show ?thesis using b1 b2 b3 b4 b5 n by (simp add: get_request_def)
qed

lemma get_response_head_stream:
  assumes "buf_wf b" "rest b = response_bytes little t (SetBufFromUint32 little' req_id) code msg" "length t \<le> 255"
  shows "\<exists>b'. get_response_head little' b = Inr (t, req_id, code, b') \<and> buf_wf b' \<and> rest b' = msg"
proof -
  have l: "length (octets t) \<le> len_max kUInt8" using assms(3) by simp
  have r: "rest b = string_bytes little' kUInt8 (octets t) @ SetBufFromUint32 little' req_id @ SetBufFromUint32 little' code @ msg"
    using assms(2) string_bytes_host [of little] string_bytes_host [of little'] SetBufFromUint32_host [of little]
      SetBufFromUint32_host [of little'] by (simp add: response_bytes_def)
  obtain v b1 where b1: "GetString little' kUInt8 b = Inr (v, b1)" "view_load b v = Inr (octets t)" "buf_wf b1"
    "rest b1 = SetBufFromUint32 little' req_id @ SetBufFromUint32 little' code @ msg"
    using GetString_stream [OF assms(1) l r] by blast
  obtain b2 where b2: "GetUint32 little' b1 = Inr (req_id, b2)" "buf_wf b2" "rest b2 = SetBufFromUint32 little' code @ msg"
    using GetUint32_stream [OF b1(3,4)] by blast
  obtain b3 where b3: "GetUint32 little' b2 = Inr (code, b3)" "buf_wf b3" "rest b3 = msg"
    using GetUint32_stream [OF b2(2,3)] by blast
  show ?thesis using b1(1,2) b2(1) b3 by (simp add: get_response_head_def)
qed

section \<open>A call and its answer\<close>

lemma TrySerializeReq_frame:
  "TrySerializeReqWithCache w t = (r, w') \<Longrightarrow>
   iw_ctx w' = iw_ctx w \<and> iw_info w' = iw_info w \<and> iw_req w' = iw_req w \<and> iw_callback w' = iw_callback w"
  by (auto simp: TrySerializeReqWithCache_def SerializeReqWithCache_def split: option.splits sum.splits)

definition call_type :: "('q, 'p) invoke_wrapper \<Rightarrow> string" where
  "call_type w = rpc_GetMetaValue ''aimrt-serialization_type'' (iw_ctx w)"

definition sent_context :: "('q, 'p) mqtt_client \<Rightarrow> ('q, 'p) invoke_wrapper \<Rightarrow> rpc_context" where
  "sent_context s w = rpc_SetMetaValue ''aimrt-from_mqtt_client'' (qc_client_id s) (iw_ctx w)"

text \<open>\<open>is_sent s c w t req r pkg s1\<close>: the call is recorded under \<open>r\<close> and its package is \<open>pkg\<close>.\<close>

lemma qc_send_request_sent:
  assumes "qc_send_request little p segment c w server r req s = (s1, Some (topic, qos, pkg))"
    and "p < 2 ^ 62" "qc_max_pkg_size s < 2 ^ 32" "\<forall>bs. concat (segment bs) = bs"
  shows "\<exists>tool tool'. qc_tool s = Some tool \<and> Record r (rc_timeout (iw_ctx w)) c tool = (True, tool') \<and>
    s1 = s\<lparr>qc_calls := (qc_calls s)(c \<mapsto> w\<lparr>iw_ctx := sent_context s w\<rparr>), qc_tool := Some tool'\<rparr> \<and>
    pkg = request_bytes little (call_type w) (rpc_rsp_topic (qc_client_id s) (fi_func_name (iw_info w))) r
      (rpc_GetMetaKeyValsArray (sent_context s w)) req \<and>
    length pkg < 2 ^ 32 \<and> length (call_type w) \<le> 255 \<and>
    length (rpc_rsp_topic (qc_client_id s) (fi_func_name (iw_info w))) \<le> 255 \<and>
    meta_fits (rpc_GetMetaKeyValsArray (sent_context s w))"
proof -
  let ?t = "call_type w" and ?topic = "rpc_rsp_topic (qc_client_id s) (fi_func_name (iw_info w))"
  let ?kvs = "rpc_GetMetaKeyValsArray (sent_context s w)"
  let ?n = "1 + length ?t + 1 + length ?topic + 4 + context_meta_kv_size ?kvs + length req"
  have segl: "sum_list (map length (segment req)) = length req" using assms(4) by (metis length_concat)
  have rt: "rc_timeout (sent_context s w) = rc_timeout (iw_ctx w)" by (simp add: sent_context_def)
  note unf = assms(1) [unfolded qc_send_request_def Let_def call_type_def [symmetric] sent_context_def [symmetric] segl]
  have chk: "length ?kvs div 2 \<le> 255" "?n \<le> qc_max_pkg_size s" using unf by (auto split: if_splits)
  obtain tool where tool: "qc_tool s = Some tool" using unf chk by (auto split: option.splits)
  obtain ret tool' where rec: "Record r (rc_timeout (iw_ctx w)) c tool = (ret, tool')" by fastforce
  have ret: "ret" using unf chk tool rec rt by (auto split: if_splits)
  obtain b where put: "put_request little ?t ?topic r ?kvs (segment req) (mk_buffer_operator p (replicate ?n 0)) = Inr b"
    and res: "pkg = bo_mem b" "s1 = s\<lparr>qc_calls := (qc_calls s)(c \<mapsto> w\<lparr>iw_ctx := sent_context s w\<rparr>), qc_tool := Some tool'\<rparr>"
    using unf chk tool rec rt ret by (auto split: sum.splits)
  have n: "?n = length (request_bytes little ?t ?topic r ?kvs (concat (segment req)))"
    using assms(4) by (simp add: length_request_bytes)
  have "?n < 2 ^ 62" using chk(2) assms(3) by simp
  from put_request_fills [OF assms(2) this n put] have f: "pkg = request_bytes little ?t ?topic r ?kvs req"
    "length ?t \<le> 255" "length ?topic \<le> 255" "\<forall>s \<in> set ?kvs. length s \<le> 65535" using res(1) assms(4) by simp_all
  have "length pkg < 2 ^ 32" using chk(2) assms(3) by (simp add: f(1) length_request_bytes)
  then show ?thesis using tool rec ret res(2) f chk(1) by (auto simp: meta_fits_def)
qed

lemma qc_Invoke_sent:
  assumes "qc_Invoke little p segment c s = (s1, Some (topic, qos, pkg))" "qc_calls s c = Some w"
    and "p < 2 ^ 62" "qc_max_pkg_size s < 2 ^ 32" "\<forall>bs. concat (segment bs) = bs"
  shows "\<exists>req w' tool tool'. TrySerializeReqWithCache w (call_type w) = (Some req, w') \<and> qc_tool s = Some tool \<and>
    Record (qc_req_id s) (rc_timeout (iw_ctx w)) c tool = (True, tool') \<and>
    s1 = s\<lparr>qc_req_id := qc_req_id s + 1, qc_calls := (qc_calls s)(c \<mapsto> w'\<lparr>iw_ctx := sent_context s w\<rparr>), qc_tool := Some tool'\<rparr> \<and>
    pkg = request_bytes little (call_type w) (rpc_rsp_topic (qc_client_id s) (fi_func_name (iw_info w))) (qc_req_id s)
      (rpc_GetMetaKeyValsArray (sent_context s w)) req \<and>
    length pkg < 2 ^ 32 \<and> length (call_type w) \<le> 255 \<and>
    length (rpc_rsp_topic (qc_client_id s) (fi_func_name (iw_info w))) \<le> 255 \<and>
    meta_fits (rpc_GetMetaKeyValsArray (sent_context s w))"
proof -
  let ?s = "s\<lparr>qc_req_id := qc_req_id s + 1\<rparr>"
  note unf = assms(1) [unfolded qc_Invoke_def Let_def call_type_def [symmetric]]
  obtain server where srv: "qc_server s w = Some server" and st: "qc_state s = kStart"
    using unf assms(2) by (auto split: if_splits option.splits)
  obtain req w' where ser: "TrySerializeReqWithCache w (call_type w) = (Some req, w')"
    and send: "qc_send_request little p segment c w' server (qc_req_id s) req ?s = (s1, Some (topic, qos, pkg))"
    using unf assms(2) st srv by (auto split: if_splits option.splits prod.splits)
  note fr = TrySerializeReq_frame [OF ser]
  have same: "call_type w' = call_type w" "sent_context ?s w' = sent_context s w"
    using fr by (simp_all add: call_type_def sent_context_def)
  show ?thesis
    using qc_send_request_sent [OF send assms(3) _ assms(5)] assms(4) ser fr by (simp add: same)
qed

text \<open>What the code relies on: the serialised request reads back in the service's process.\<close>

definition request_survives :: "('q, 'p) func_info \<Rightarrow> ('q, 'p) invoke_wrapper \<Rightarrow> bool" where
  "request_survives info w \<longleftrightarrow>
     (\<forall>b w'. TrySerializeReqWithCache w (call_type w) = (Some b, w') \<longrightarrow>
        ts_deserialize (fi_req_support info) (call_type w) b = Some (iw_req w))"

text \<open>The metadata of a request that is received, its two keys of the backend apart.\<close>

lemma received_meta:
  assumes "distinct (map fst (rc_meta cx))" "k \<in> fst ` set (rc_meta cx) - {''aimrt-backend'', ''aimrt-function_name''}"
  shows "rpc_GetMetaValue k (rpc_SetMetaValue ''aimrt-backend'' bk (SetFunctionName f \<lparr>rc_client = False, rc_used = False, rc_timeout = 0,
      rc_meta = fold (\<lambda>(k, v). AList.update k v) (rc_meta cx) [(''aimrt-serialization_type'', t)]\<rparr>)) = rpc_GetMetaValue k cx"
proof -
  have "map_of (rc_meta cx) k \<noteq> None" using assms(2) by (auto simp: map_of_eq_None_iff)
  then obtain v where v: "map_of (rc_meta cx) k = Some v" by blast
  then have "map_of (fold (\<lambda>(k, v). AList.update k v) (rc_meta cx) [(''aimrt-serialization_type'', t)]) k = Some v"
    using map_of_fold_update [OF assms(1)] by simp
  then show ?thesis using assms(2) v by (simp add: SetFunctionName_def) (simp add: rpc_GetMetaValue_def)
qed

text \<open>
  C13. The package of a call reaches the service as the call it stands for: the service gets the
  client's request and metadata, with the client's name added, answers to the client's own
  topic and under the number the client has recorded the call with, and the record is in place
  before the package leaves.
\<close>

theorem mqtt_request_reaches_service:
  assumes "qc_Invoke little p segment c s = (s1, Some (topic, qos, pkg))" "qc_calls s c = Some w"
    and "p < 2 ^ 62" "p' < 2 ^ 62" "qc_max_pkg_size s < 2 ^ 32" "\<forall>bs. concat (segment bs) = bs"
    and "distinct (map fst (rc_meta (sent_context s w)))" "request_survives info w"
  shows "\<exists>sc tool. qs_handle_request little' p' qos' info pkg = ServeCall sc \<and>
    iw_req (qs_wrapper sc) = iw_req w \<and> iw_info (qs_wrapper sc) = info \<and> qs_type sc = call_type w \<and>
    qs_topic sc = rpc_rsp_topic (qc_client_id s) (fi_func_name (iw_info w)) \<and>
    qs_req_id sc = SetBufFromUint32 little (qc_req_id s) \<and>
    (\<forall>k \<in> fst ` set (rc_meta (sent_context s w)) - {''aimrt-backend'', ''aimrt-function_name''}.
       rpc_GetMetaValue k (iw_ctx (qs_wrapper sc)) = rpc_GetMetaValue k (sent_context s w)) \<and>
    qc_tool s1 = Some tool \<and> fst (GetRecord (qc_req_id s) tool) = Some c \<and> qc_log s1 = qc_log s"
proof -
  let ?t = "call_type w" and ?topic = "rpc_rsp_topic (qc_client_id s) (fi_func_name (iw_info w))"
  let ?cx = "sent_context s w"
  let ?kvs = "rpc_GetMetaKeyValsArray ?cx"
  obtain req w' tool tool' where i: "TrySerializeReqWithCache w ?t = (Some req, w')"
    "Record (qc_req_id s) (rc_timeout (iw_ctx w)) c tool = (True, tool')"
    "s1 = s\<lparr>qc_req_id := qc_req_id s + 1, qc_calls := (qc_calls s)(c \<mapsto> w'\<lparr>iw_ctx := ?cx\<rparr>), qc_tool := Some tool'\<rparr>"
    "pkg = request_bytes little ?t ?topic (qc_req_id s) ?kvs req" "length pkg < 2 ^ 32" "length ?t \<le> 255"
    "length ?topic \<le> 255" "meta_fits ?kvs"
    using qc_Invoke_sent [OF assms(1-3,5,6)] by blast
  let ?b = "mk_buffer_operator p' pkg"
  have wf: "buf_wf ?b" using assms(4) i(5) buf_wf_mk [of p' pkg] by simp
  have r: "rest ?b = request_bytes little' ?t ?topic (qc_req_id s) (concat (map (\<lambda>(k, v). [k, v]) (rc_meta ?cx))) req"
    using request_bytes_host [of little] request_bytes_host [of little']
    by (simp add: rest_mk i(4) rpc_GetMetaKeyValsArray_def)
  let ?meta = "fold (\<lambda>(k, v). AList.update k v) (rc_meta ?cx) [(''aimrt-serialization_type'', ?t)]"
  have l: "length (rest ?b) < 2 ^ 63" using i(5) by (simp add: rest_mk)
  have "get_request little' ?b = Inr (?t, ?topic, SetBufFromUint32 little' (qc_req_id s), ?meta, req)"
    by (rule get_request_stream [OF wf r l i(6,7)]) (use i(8) in \<open>simp add: rpc_GetMetaKeyValsArray_def\<close>)
  then have g: "get_request little' ?b = Inr (?t, ?topic, SetBufFromUint32 little (qc_req_id s), ?meta, req)"
    using SetBufFromUint32_host [of little] SetBufFromUint32_host [of little'] by simp
  have d: "ts_deserialize (fi_req_support info) ?t req = Some (iw_req w)"
    using assms(8) i(1) by (auto simp: request_survives_def)
  have meta: "rpc_GetMetaValue k
      (rpc_SetMetaValue ''aimrt-backend'' ''mqtt'' (SetFunctionName f \<lparr>rc_client = False, rc_used = False, rc_timeout = 0, rc_meta = ?meta\<rparr>))
      = rpc_GetMetaValue k ?cx"
    if "k \<in> fst ` set (rc_meta ?cx) - {''aimrt-backend'', ''aimrt-function_name''}" for k f
    by (rule received_meta [OF assms(7) that])
  show ?thesis using g d meta i(3) GetRecord_Record [OF i(2)]
    by (simp add: qs_handle_request_def Let_def)
qed

text \<open>
  C14. The package of an answer completes exactly the call it answers: when the number is still
  recorded the record goes, and the client's callback runs once with the status of the service;
  on success the client finds the response the service wrote. No other call's record or
  callback is touched.
\<close>

theorem mqtt_response_reaches_caller:
  assumes "qs_respond little' p' lim segment sc status rsp = Inr (topic, qos, pkg)"
    and "qs_req_id sc = SetBufFromUint32 little r" "p < 2 ^ 62" "p' < 2 ^ 62" "lim < 2 ^ 32" "\<forall>bs. concat (segment bs) = bs"
    and "length (qs_type sc) < 2 ^ 32" "iw_rsp_cache (qs_wrapper sc) = []"
    and "codec (fi_rsp_support (iw_info (qs_wrapper sc)))" "fi_rsp_support (iw_info w) = fi_rsp_support (iw_info (qs_wrapper sc))"
    and "qc_tool s = Some tool" "ct_ok tool" "map_of (ct_map tool) r = Some c" "qc_calls s c = Some w" "iw_callback w"
  shows "\<exists>answer w' tool'. qc_handle_response little p pkg s =
      s\<lparr>qc_tool := Some tool', qc_calls := (qc_calls s)(c \<mapsto> w'), qc_log := qc_log s @ [Called c answer]\<rparr> \<and>
    topic = qs_topic sc \<and> ct_map tool' = AList.delete r (ct_map tool) \<and> \<not> iw_callback w' \<and>
    (status \<noteq> STATUS_OK \<longrightarrow> answer = status) \<and>
    (status = STATUS_OK \<longrightarrow> answer = STATUS_OK \<and> iw_rsp w' = Some rsp \<or> answer \<in> {SVR_SERIALIZATION_FAILED, SVR_UNKNOWN})"
proof -
  let ?t = "qs_type sc"
  have four: "length (qs_req_id sc) = 4" by (simp add: assms(2) u32c.length_encode)
  have fail: "pkg = response_bytes little' ?t (qs_req_id sc) code [] \<and> length ?t \<le> 255 \<and> topic = qs_topic sc"
    if ret: "ReturnRspWithStatusCode little' p' (qs_topic sc) (qs_qos sc) ?t (qs_req_id sc) code = Inr (topic, qos, pkg)" for code
  proof -
    let ?n = "1 + length ?t + 4 + 4"
    obtain b where b: "put_response little' ?t (qs_req_id sc) code [] (mk_buffer_operator p' (replicate ?n 0)) = Inr b"
      "pkg = bo_mem b" "topic = qs_topic sc"
      using ret by (auto simp: ReturnRspWithStatusCode_def bindR_eq_Inr)
    have "?n = length (response_bytes little' ?t (qs_req_id sc) code (concat []))" by (simp add: length_response_bytes four)
    from put_response_fills [OF assms(4) _ this b(1)] show ?thesis using assms(7) b(2,3) by simp
  qed
  obtain code data where pkg: "pkg = response_bytes little' ?t (qs_req_id sc) code data" "length ?t \<le> 255" "topic = qs_topic sc"
    "length data < 2 ^ 32"
    and code: "status \<noteq> STATUS_OK \<longrightarrow> code = status" "status = STATUS_OK \<and> code \<noteq> 0 \<longrightarrow> code \<in> {SVR_SERIALIZATION_FAILED, SVR_UNKNOWN}"
      "code = 0 \<longrightarrow> status = STATUS_OK \<and> ts_serialize (fi_rsp_support (iw_info (qs_wrapper sc))) ?t rsp = Some data"
  proof (cases "status = STATUS_OK")
    case False
    then have "ReturnRspWithStatusCode little' p' (qs_topic sc) (qs_qos sc) ?t (qs_req_id sc) status = Inr (topic, qos, pkg)"
      using assms(1) by (simp add: qs_respond_def Let_def)
    from fail [OF this] show thesis using False by (intro that [of status "[]"]) (auto simp: STATUS_OK_def)
  next
    case True
    let ?w = "(qs_wrapper sc)\<lparr>iw_rsp := Some rsp\<rparr>"
    show thesis
    proof (cases "ts_serialize (fi_rsp_support (iw_info (qs_wrapper sc))) ?t rsp")
      case None
      then have "fst (TrySerializeRspWithCache ?w ?t) = None"
        using assms(8) by (simp add: TrySerializeRspWithCache_def SerializeRspWithCache_def)
      then have "ReturnRspWithStatusCode little' p' (qs_topic sc) (qs_qos sc) ?t (qs_req_id sc) SVR_SERIALIZATION_FAILED = Inr (topic, qos, pkg)"
        using assms(1) True by (auto simp: qs_respond_def Let_def split: option.splits prod.splits)
      from fail [OF this] show thesis using True
        by (intro that [of SVR_SERIALIZATION_FAILED "[]"]) (auto simp: SVR_SERIALIZATION_FAILED_def)
    next
      case (Some data)
      then obtain w1 where ser: "TrySerializeRspWithCache ?w ?t = (Some data, w1)"
        using assms(8) by (auto simp: TrySerializeRspWithCache_def SerializeRspWithCache_def)
      have segl: "sum_list (map length (segment data)) = length data" using assms(6) by (metis length_concat)
      let ?n = "1 + length ?t + 4 + 4 + length data"
      show thesis
      proof (cases "lim < ?n")
        case big: True
        then have "ReturnRspWithStatusCode little' p' (qs_topic sc) (qs_qos sc) ?t (qs_req_id sc) SVR_UNKNOWN = Inr (topic, qos, pkg)"
          using assms(1) True ser segl by (simp add: qs_respond_def Let_def)
        from fail [OF this] show thesis using True by (intro that [of SVR_UNKNOWN "[]"]) (auto simp: SVR_UNKNOWN_def)
      next
        case False
        then obtain b where b: "put_response little' ?t (qs_req_id sc) 0 (segment data) (mk_buffer_operator p' (replicate ?n 0)) = Inr b"
          "pkg = bo_mem b" "topic = qs_topic sc"
          using assms(1) True ser segl by (auto simp: qs_respond_def Let_def bindR_eq_Inr)
        have n: "?n = length (response_bytes little' ?t (qs_req_id sc) 0 (concat (segment data)))"
          using assms(6) by (simp add: length_response_bytes four)
        have "?n < 2 ^ 62" using False assms(5) by simp
        from put_response_fills [OF assms(4) this n b(1)] show thesis using b(2,3) assms(5,6) False True Some
          by (intro that [of 0 data]) auto
      qed
    qed
  qed
  let ?b = "mk_buffer_operator p pkg"
  have len: "length pkg < 2 ^ 62" using pkg(2,4) by (simp add: pkg(1) length_response_bytes four)
  have wf: "buf_wf ?b" using assms(3) len buf_wf_mk [of p pkg] by simp
  have r: "rest ?b = response_bytes little' ?t (SetBufFromUint32 little r) code data" by (simp add: rest_mk pkg(1) assms(2))
  obtain b1 where b1: "get_response_head little ?b = Inr (?t, r, code, b1)" "buf_wf b1" "rest b1 = data"
    using get_response_head_stream [OF wf r pkg(2)] by blast
  let ?tool = "tool\<lparr>ct_map := AList.delete r (ct_map tool)\<rparr>"
  have gr: "GetRecord r tool = (Some c, ?tool)" using assms(13) by (simp add: GetRecord_def)
  have "length (rest b1) < 2 ^ 63" using pkg(4) by (simp add: b1(3))
  then obtain v b2 where v: "GetRemainingBuffer b1 = Inr (v, b2)" "view_load b1 v = Inr data"
    using GetRemainingBuffer_stream [OF b1(2)] by (auto simp: b1(3))
  show ?thesis
  proof (cases "code = 0")
    case False
    then have "qc_handle_response little p pkg s = s\<lparr>qc_tool := Some ?tool,
        qc_calls := (qc_calls s)(c \<mapsto> w\<lparr>iw_callback := False\<rparr>), qc_log := qc_log s @ [Called c code]\<rparr>"
      using b1(1) assms(11,14,15) gr by (simp add: qc_handle_response_def qc_InvokeCallBack_def)
    then show ?thesis using pkg(3) code(1,2) False
      by (intro exI [of _ code] exI [of _ "w\<lparr>iw_callback := False\<rparr>"] exI [of _ ?tool]) auto
  next
    case True
    then have "ts_deserialize (fi_rsp_support (iw_info w)) ?t data = Some rsp" "status = STATUS_OK"
      using code(3) assms(9,10) by (auto simp: codec_def)
    then have "qc_handle_response little p pkg s = s\<lparr>qc_tool := Some ?tool,
        qc_calls := (qc_calls s)(c \<mapsto> w\<lparr>iw_rsp := Some rsp, iw_callback := False\<rparr>), qc_log := qc_log s @ [Called c STATUS_OK]\<rparr>"
      using b1(1) assms(11,14,15) gr v True
      by (simp add: qc_handle_response_def qc_InvokeCallBack_def STATUS_OK_def)
    then show ?thesis using pkg(3) \<open>status = STATUS_OK\<close>
      by (intro exI [of _ STATUS_OK] exI [of _ "w\<lparr>iw_rsp := Some rsp, iw_callback := False\<rparr>"] exI [of _ ?tool]) auto
  qed
qed

section \<open>Any peer, any order\<close>

text \<open>
  The client meets its callers, its timers, its shutdown and whatever a peer publishes on its
  response topics: the payload of a response is arbitrary.
\<close>

datatype ('q, 'p) mqtt_act =
    MqttInvoke nat "('q, 'p) invoke_wrapper" | MqttReceive "byte list" | MqttTimeout "u32 \<times> u64" | MqttShutdown

fun mqtt_step ::
  "bool \<Rightarrow> nat \<Rightarrow> (bytes \<Rightarrow> byte list list) \<Rightarrow> ('q, 'p) mqtt_act \<Rightarrow> ('q, 'p) mqtt_client \<Rightarrow> ('q, 'p) mqtt_client option" where
  "mqtt_step little p segment (MqttInvoke c w) s =
     (if qc_calls s c = None \<and> iw_callback w
      then Some (fst (qc_Invoke little p segment c (s\<lparr>qc_calls := (qc_calls s)(c \<mapsto> w)\<rparr>))) else None)"
| "mqtt_step little p segment (MqttReceive payload) s = Some (qc_handle_response little p payload s)"
| "mqtt_step little p segment (MqttTimeout timer) s =
     (case qc_tool s of
        None \<Rightarrow> Some s
      | Some tool \<Rightarrow> if timer \<in> set (ct_timers tool) then Some (qc_timeout timer s) else None)"
| "mqtt_step little p segment MqttShutdown s = Some (qc_Shutdown s)"

definition ready_client :: "('q, 'p) mqtt_client \<Rightarrow> bool" where
  "ready_client s \<longleftrightarrow> qc_calls s = (\<lambda>_. None) \<and> qc_log s = [] \<and>
     (case qc_tool s of None \<Rightarrow> False | Some tool \<Rightarrow> ct_map tool = [])"

inductive mqtt_reach ::
  "bool \<Rightarrow> nat \<Rightarrow> (bytes \<Rightarrow> byte list list) \<Rightarrow> ('q, 'p) mqtt_client \<Rightarrow> ('q, 'p) mqtt_client \<Rightarrow> bool"
  for little p segment s0 where
  mqtt_start: "mqtt_reach little p segment s0 s0"
| mqtt_next: "mqtt_reach little p segment s0 s \<Longrightarrow> mqtt_step little p segment a s = Some s' \<Longrightarrow> mqtt_reach little p segment s0 s'"

text \<open>
  Each call owns one token until its callback runs: its record, or the hand (\<open>D\<close>) of the
  operation under way. A released client tool loses the records, never duplicates them.
\<close>

definition call_tokens :: "nat option \<Rightarrow> nat \<Rightarrow> ('q, 'p) mqtt_client \<Rightarrow> nat" where
  "call_tokens D c s = calls_of c (qc_log s) + in_tool c (qc_tool s) + (if D = Some c then 1 else 0)"

definition client_inv :: "nat option \<Rightarrow> ('q, 'p) mqtt_client \<Rightarrow> bool" where
  "client_inv D s \<longleftrightarrow>
     (\<forall>t. qc_tool s = Some t \<longrightarrow> ct_ok t) \<and>
     (\<forall>c. (qc_calls s c = None \<longrightarrow> call_tokens D c s = 0) \<and> call_tokens D c s \<le> 1 \<and>
        (qc_tool s \<noteq> None \<and> qc_calls s c \<noteq> None \<longrightarrow> call_tokens D c s = 1) \<and>
        (\<forall>w. qc_calls s c = Some w \<and> calls_of c (qc_log s) = 0 \<longrightarrow> iw_callback w) \<and>
        BadCall c \<notin> set (qc_log s))"

lemma client_invD:
  assumes "client_inv D s"
  shows "qc_tool s = Some t \<Longrightarrow> ct_ok t" "qc_calls s c = None \<Longrightarrow> call_tokens D c s = 0" "call_tokens D c s \<le> 1"
    "qc_tool s \<noteq> None \<Longrightarrow> qc_calls s c \<noteq> None \<Longrightarrow> call_tokens D c s = 1"
    "qc_calls s c = Some w \<Longrightarrow> calls_of c (qc_log s) = 0 \<Longrightarrow> iw_callback w" "BadCall c \<notin> set (qc_log s)"
  using assms by (simp_all add: client_inv_def)

lemma client_invI:
  assumes "\<And>t. qc_tool s = Some t \<Longrightarrow> ct_ok t" "\<And>c. qc_calls s c = None \<Longrightarrow> call_tokens D c s = 0"
    and "\<And>c. call_tokens D c s \<le> 1" "\<And>c. qc_tool s \<noteq> None \<Longrightarrow> qc_calls s c \<noteq> None \<Longrightarrow> call_tokens D c s = 1"
    and "\<And>c w. qc_calls s c = Some w \<Longrightarrow> calls_of c (qc_log s) = 0 \<Longrightarrow> iw_callback w" "\<And>c. BadCall c \<notin> set (qc_log s)"
  shows "client_inv D s"
  using assms unfolding client_inv_def by blast

text \<open>Changing a wrapper without its callback, or the number counter, keeps the invariant.\<close>

lemma client_inv_wrapper:
  assumes "client_inv D s" "qc_calls s c = Some w" "iw_callback w' = iw_callback w"
  shows "client_inv D (s\<lparr>qc_calls := (qc_calls s)(c \<mapsto> w')\<rparr>)"
  using assms by (auto simp: client_inv_def call_tokens_def)

lemma client_inv_id [simp]: "client_inv D (s\<lparr>qc_req_id := n\<rparr>) = client_inv D s"
  by (simp add: client_inv_def call_tokens_def)

lemma InvokeCallBack_client_inv [inv_intros]:
  assumes "client_inv (Some c) s"
  shows "client_inv None (qc_InvokeCallBack c status s)"
proof -
  have c: "call_tokens (Some c) c s \<le> 1" "qc_calls s c = None \<Longrightarrow> call_tokens (Some c) c s = 0"
    using client_invD(2,3) [OF assms] by auto
  then obtain w where w: "qc_calls s c = Some w" by (cases "qc_calls s c") (auto simp: call_tokens_def)
  have z: "calls_of c (qc_log s) = 0" "in_tool c (qc_tool s) = 0" using c(1) by (auto simp: call_tokens_def)
  have cb: "iw_callback w" using client_invD(5) [OF assms w z(1)] .
  let ?s = "s\<lparr>qc_log := qc_log s @ [Called c status], qc_calls := (qc_calls s)(c \<mapsto> w\<lparr>iw_callback := False\<rparr>)\<rparr>"
  have t: "call_tokens None d ?s = call_tokens (Some c) d s" for d
    using z by (auto simp: call_tokens_def)
  have "client_inv None ?s"
  proof (rule client_invI)
    fix d assume "qc_calls ?s d = None"
    then show "call_tokens None d ?s = 0" using client_invD(2) [OF assms, of d] t [of d] by (simp split: if_splits)
  next
    fix d show "call_tokens None d ?s \<le> 1" using client_invD(3) [OF assms, of d] t [of d] by simp
  next
    fix d assume "qc_tool ?s \<noteq> None" "qc_calls ?s d \<noteq> None"
    then show "call_tokens None d ?s = 1" using client_invD(4) [OF assms, of d] t [of d] w by (simp split: if_splits)
  next
    fix d v assume "qc_calls ?s d = Some v" "calls_of d (qc_log ?s) = 0"
    then show "iw_callback v" using client_invD(5) [OF assms, of d v] by (auto split: if_splits)
  qed (use client_invD(1,6) [OF assms] in auto)
  then show ?thesis using w cb by (simp add: qc_InvokeCallBack_def)
qed

text \<open>Taking a record puts its token into the hand, recording a call out of it.\<close>

lemma GetRecord_client_inv:
  assumes "client_inv None s" "qc_tool s = Some tool" "ct_map tool2 = ct_map tool" "GetRecord r tool2 = (co, tool')"
  shows "client_inv co (s\<lparr>qc_tool := Some tool'\<rparr>)"
proof -
  have ok: "ct_ok tool2" using client_invD(1) [OF assms(1,2)] assms(3) by (simp add: ct_ok_def)
  have n: "recorded tool d = recorded tool' d + (if co = Some d then 1 else 0)" for d
    using GetRecord_ok(2) [OF assms(4) ok] assms(3) by (simp add: recorded_def)
  have t: "call_tokens co d (s\<lparr>qc_tool := Some tool'\<rparr>) = call_tokens None d s" for d
    using n [of d] assms(2) by (simp add: call_tokens_def in_tool_def)
  show ?thesis
    by (rule client_invI) (use t client_invD [OF assms(1)] assms(2) GetRecord_ok(1) [OF assms(4) ok] in auto)
qed

lemma Record_client_inv:
  assumes "client_inv (Some c) s" "qc_tool s = Some tool" "Record r t c tool = (ret, tool')"
  shows "client_inv (if ret then None else Some c) (s\<lparr>qc_tool := Some tool'\<rparr>)"
proof -
  have ok: "ct_ok tool" using client_invD(1) [OF assms(1,2)] .
  have n: "recorded tool' d = recorded tool d + (if ret \<and> d = c then 1 else 0)" for d
    using Record_ok(2) [OF assms(3) ok] .
  let ?D = "if ret then None else Some c"
  have t: "call_tokens ?D d (s\<lparr>qc_tool := Some tool'\<rparr>) = call_tokens (Some c) d s" for d
    using n [of d] assms(2) by (auto simp: call_tokens_def in_tool_def)
  show ?thesis
    by (rule client_invI) (use t client_invD [OF assms(1)] assms(2) Record_ok(1) [OF assms(3) ok] in auto)
qed

text \<open>A call whose token is dropped: allowed once the tool has been released.\<close>

lemma client_inv_drop:
  assumes "client_inv (Some c) s" "qc_tool s = None"
  shows "client_inv None (s\<lparr>qc_log := qc_log s @ [NullTool]\<rparr>)"
proof -
  have t: "call_tokens None d (s\<lparr>qc_log := qc_log s @ [NullTool]\<rparr>) \<le> call_tokens (Some c) d s" for d
    by (simp add: call_tokens_def)
  have l: "call_tokens None d (s\<lparr>qc_log := qc_log s @ [NullTool]\<rparr>) \<le> 1" for d
    using t [of d] client_invD(3) [OF assms(1), of d] by simp
  have z: "qc_calls s d = None \<Longrightarrow> call_tokens None d (s\<lparr>qc_log := qc_log s @ [NullTool]\<rparr>) = 0" for d
    using t [of d] client_invD(2) [OF assms(1), of d] by simp
  show ?thesis
    by (rule client_invI) (use l z client_invD(5,6) [OF assms(1)] assms(2) in auto)
qed

lemma qc_send_request_inv:
  assumes "client_inv (Some c) s" "qc_calls s c \<noteq> None"
    and "\<And>v. qc_calls s c = Some v \<Longrightarrow> iw_callback w = iw_callback v"
  shows "client_inv None (fst (qc_send_request little p segment c w server r req s))"
proof -
  let ?w = "w\<lparr>iw_ctx := rpc_SetMetaValue ''aimrt-from_mqtt_client'' (qc_client_id s) (iw_ctx w)\<rparr>"
  let ?s = "s\<lparr>qc_calls := (qc_calls s)(c \<mapsto> ?w)\<rparr>"
  have i: "client_inv (Some c) ?s"
    using assms client_inv_wrapper [OF assms(1), of c _ ?w] by auto
  show ?thesis
  proof (cases "qc_tool s")
    case None
    then have "client_inv None (?s\<lparr>qc_log := qc_log ?s @ [NullTool]\<rparr>)" by (intro client_inv_drop [OF i]) simp
    then show ?thesis using InvokeCallBack_client_inv [OF i] None by (simp add: qc_send_request_def Let_def)
  next
    case (Some tool)
    obtain ret tool' where rec: "Record r (rc_timeout (iw_ctx ?w)) c tool = (ret, tool')" by fastforce
    have "qc_tool ?s = Some tool" using Some by simp
    from Record_client_inv [OF i this rec] have r: "client_inv (if ret then None else Some c) (?s\<lparr>qc_tool := Some tool'\<rparr>)" .
    show ?thesis
      using InvokeCallBack_client_inv [OF i] r InvokeCallBack_client_inv [of c "?s\<lparr>qc_tool := Some tool'\<rparr>"] Some rec
      by (simp add: qc_send_request_def Let_def split: sum.splits if_splits)
  qed
qed

lemma qc_Invoke_inv:
  assumes "client_inv (Some c) s" "qc_calls s c = Some w"
  shows "client_inv None (fst (qc_Invoke little p segment c s))"
proof -
  let ?s = "s\<lparr>qc_req_id := qc_req_id s + 1\<rparr>"
  have i: "client_inv (Some c) ?s" using assms(1) by simp
  obtain r w' where ser: "TrySerializeReqWithCache w (rpc_GetMetaValue ''aimrt-serialization_type'' (iw_ctx w)) = (r, w')" by fastforce
  have cb: "iw_callback w' = iw_callback w" using TrySerializeReq_frame [OF ser] by simp
  have i': "client_inv (Some c) (?s\<lparr>qc_calls := (qc_calls ?s)(c \<mapsto> w')\<rparr>)"
    by (rule client_inv_wrapper [OF i]) (use assms(2) cb in simp_all)
  have send: "client_inv None (fst (qc_send_request little p segment c w' server n req ?s))" for server n req
    by (rule qc_send_request_inv [OF i]) (use assms(2) cb in simp_all)
  show ?thesis
    using assms(2) ser InvokeCallBack_client_inv [OF assms(1)] InvokeCallBack_client_inv [OF i] InvokeCallBack_client_inv [OF i'] send
    by (simp add: qc_Invoke_def Let_def split: option.splits)
qed

lemma qc_handle_response_inv:
  assumes "client_inv None s"
  shows "client_inv None (qc_handle_response little p payload s)"
proof (cases "get_response_head little (mk_buffer_operator p payload)")
  case (Inr q)
  obtain t r code b where q: "q = (t, r, code, b)" by (cases q)
  show ?thesis
  proof (cases "qc_tool s")
    case None
    have "client_inv None (s\<lparr>qc_log := qc_log s @ [NullTool]\<rparr>)"
      using assms by (auto simp: client_inv_def call_tokens_def)
    then show ?thesis using Inr q None by (simp add: qc_handle_response_def)
  next
    case (Some tool)
    obtain co tool' where g: "GetRecord r tool = (co, tool')" by fastforce
    have i: "client_inv co (s\<lparr>qc_tool := Some tool'\<rparr>)" by (rule GetRecord_client_inv [OF assms Some refl g])
    show ?thesis
    proof (cases co)
      case None
      then show ?thesis using Inr q Some g i by (simp add: qc_handle_response_def)
    next
      case c: (Some c)
      let ?s = "s\<lparr>qc_tool := Some tool'\<rparr>"
      have i: "client_inv (Some c) ?s" using i c by simp
      have "qc_calls ?s c \<noteq> None" using client_invD(2) [OF i, of c] by (auto simp: call_tokens_def)
      then obtain w where w: "qc_calls ?s c = Some w" by blast
      have "client_inv None (qc_InvokeCallBack c st (?s\<lparr>qc_calls := (qc_calls ?s)(c \<mapsto> w\<lparr>iw_rsp := Some rsp\<rparr>)\<rparr>))" for rsp st
        by (rule InvokeCallBack_client_inv, rule client_inv_wrapper [OF i w]) simp
      then show ?thesis using Inr q Some g c w InvokeCallBack_client_inv [OF i]
        by (simp add: qc_handle_response_def Let_def split: sum.splits option.splits)
    qed
  qed
qed (simp add: qc_handle_response_def assms)

lemma qc_timeout_inv:
  assumes "client_inv None s"
  shows "client_inv None (qc_timeout timer s)"
proof (cases "qc_tool s")
  case (Some tool)
  let ?tool = "tool\<lparr>ct_timers := remove1 timer (ct_timers tool)\<rparr>"
  obtain co tool' where g: "GetRecord (fst timer) ?tool = (co, tool')" by fastforce
  have "client_inv co (s\<lparr>qc_tool := Some tool'\<rparr>)" by (rule GetRecord_client_inv [OF assms Some _ g]) simp
  then show ?thesis using Some g InvokeCallBack_client_inv by (cases co) (auto simp: qc_timeout_def)
qed (simp add: qc_timeout_def assms)

lemma mqtt_step_inv:
  assumes "client_inv None s" "mqtt_step little p segment a s = Some s'"
  shows "client_inv None s'"
proof (cases a)
  case (MqttInvoke c w)
  then have new: "qc_calls s c = None" "iw_callback w"
    and s': "s' = fst (qc_Invoke little p segment c (s\<lparr>qc_calls := (qc_calls s)(c \<mapsto> w)\<rparr>))"
    using assms(2) by (auto split: if_splits)
  let ?s = "s\<lparr>qc_calls := (qc_calls s)(c \<mapsto> w)\<rparr>"
  have z: "call_tokens None c s = 0" using client_invD(2) [OF assms(1) new(1)] .
  then have t: "call_tokens (Some c) d ?s = (if d = c then 1 else call_tokens None d s)" for d
    by (simp add: call_tokens_def)
  have "client_inv (Some c) ?s"
    by (rule client_invI) (use t client_invD [OF assms(1)] new in \<open>auto split: if_splits\<close>)
  then show ?thesis unfolding s' by (rule qc_Invoke_inv) simp
next
  case (MqttReceive payload)
  then show ?thesis using assms qc_handle_response_inv by auto
next
  case (MqttTimeout timer)
  then show ?thesis using assms(2) qc_timeout_inv [OF assms(1), of timer] assms(1) by (auto split: option.splits if_splits)
next
  case MqttShutdown
  have "client_inv None (s\<lparr>qc_state := kShutdown, qc_tool := None\<rparr>)"
  proof (rule client_invI)
    fix d
    have "call_tokens None d (s\<lparr>qc_state := kShutdown, qc_tool := None\<rparr>) \<le> call_tokens None d s"
      by (simp add: call_tokens_def in_tool_def)
    then show "call_tokens None d (s\<lparr>qc_state := kShutdown, qc_tool := None\<rparr>) \<le> 1"
      "qc_calls (s\<lparr>qc_state := kShutdown, qc_tool := None\<rparr>) d = None \<Longrightarrow>
        call_tokens None d (s\<lparr>qc_state := kShutdown, qc_tool := None\<rparr>) = 0"
      using client_invD(2,3) [OF assms(1), of d] by simp_all
  qed (use client_invD(5,6) [OF assms(1)] in auto)
  then show ?thesis using MqttShutdown assms by (auto simp: qc_Shutdown_def)
qed

lemma mqtt_reach_inv:
  assumes "mqtt_reach little p segment s0 s" "ready_client s0"
  shows "client_inv None s"
  using assms
proof (induction rule: mqtt_reach.induct)
  case mqtt_start
  then show ?case by (auto simp: ready_client_def client_inv_def call_tokens_def in_tool_def ct_ok_def recorded_def split: option.splits)
next
  case (mqtt_next s a s')
  then show ?case using mqtt_step_inv by blast
qed

text \<open>
  C12. Whatever a peer publishes on the client's response topics, in whatever order calls,
  responses, timeouts and the shutdown come, every call's callback runs at most once and never
  through an emptied callback; and as long as the client tool is there each call is either
  answered or still recorded.
\<close>

theorem mqtt_callback_at_most_once:
  assumes "mqtt_reach little p segment s0 s" "ready_client s0"
  shows "calls_of c (qc_log s) \<le> 1 \<and> BadCall c \<notin> set (qc_log s) \<and>
    (\<forall>tool. qc_tool s = Some tool \<and> qc_calls s c \<noteq> None \<longrightarrow> calls_of c (qc_log s) + recorded tool c = 1)"
proof -
  have i: "client_inv None s" by (rule mqtt_reach_inv [OF assms])
  have "calls_of c (qc_log s) + recorded tool c = 1" if "qc_tool s = Some tool" "qc_calls s c \<noteq> None" for tool
    using client_invD(4) [OF i, of c] that by (simp add: call_tokens_def in_tool_def)
  then show ?thesis using client_invD(3,6) [OF i, of c] by (auto simp: call_tokens_def)
qed

section \<open>A call that is stranded\<close>

lemma put_request_room:
  assumes "buf_wf b" "length (request_bytes little t topic req_id kvs (concat segs)) \<le> room b" "room b < 2 ^ 62"
    and "length t \<le> 255" "length topic \<le> 255" "meta_fits kvs"
  shows "\<exists>b'. put_request little t topic req_id kvs segs b = Inr b'"
proof -
  note len = assms(2) [unfolded length_request_bytes]
  obtain b1 where b1: "SetString little (octets t) kUInt8 b = Inr b1" "wrote b (string_bytes little kUInt8 (octets t)) b1"
    using SetString_wrote [OF assms(1), of kUInt8 "octets t" little] assms(4) len by auto
  then have r1: "room b1 + 1 + length t = room b" by (simp add: wrote_def)
  obtain b2 where b2: "SetString little (octets topic) kUInt8 b1 = Inr b2" "wrote b1 (string_bytes little kUInt8 (octets topic)) b2"
    using SetString_wrote [OF wrote_wf [OF b1(2)], of kUInt8 "octets topic" little] assms(5) r1 len by auto
  then have r2: "room b2 + 2 + length t + length topic = room b" using r1 by (simp add: wrote_def)
  have l4: "length (SetBufFromUint32 little req_id) = 4" by (rule u32c.length_encode)
  then obtain b3 where b3: "SetUint32 little req_id b2 = Inr b3" "wrote b2 (SetBufFromUint32 little req_id) b3"
    using SetBuffer_wrote [OF wrote_wf [OF b2(2)], of "SetBufFromUint32 little req_id"] r2 len by (auto simp: SetUint32_def)
  then have r3: "room b3 + 6 + length t + length topic = room b" using r2 l4 by (simp add: wrote_def)
  obtain b4 where b4: "put_meta little kvs b3 = Inr b4" "wrote b3 (meta_bytes little kvs) b4"
    using put_meta_wrote [OF wrote_wf [OF b3(2)] assms(6), of little] r3 len by auto
  then have r4: "length (concat segs) \<le> room b4" using r3 len by (simp add: wrote_def length_meta_bytes)
  have s: "length (concat segs) < 2 ^ 63" using assms(3) len by simp
  obtain b5 where "put_segments segs b4 = Inr b5" using put_segments_wrote [OF wrote_wf [OF b4(2)] r4 s] by blast
  then show ?thesis using b1(1) b2(1) b3(1) b4(1) by (simp add: put_request_def)
qed

lemma put_request_succeeds:
  assumes "p < 2 ^ 62" "n < 2 ^ 62" "n = length (request_bytes little t topic req_id kvs (concat segs))"
    and "length t \<le> 255" "length topic \<le> 255" "meta_fits kvs"
  shows "\<exists>b. put_request little t topic req_id kvs segs (mk_buffer_operator p (replicate n 0)) = Inr b"
proof -
  have "buf_wf (mk_buffer_operator p (replicate n 0))" "room (mk_buffer_operator p (replicate n 0)) = n"
    using fresh_buffer [of p n] assms(1,2) by simp_all
  then show ?thesis using put_request_room [OF _ _ _ assms(4-6)] assms(2,3) by simp
qed

lemma put_response_room:
  assumes "buf_wf b" "length (response_bytes little t req_id_buf code (concat segs)) \<le> room b" "room b < 2 ^ 62" "length t \<le> 255"
  shows "\<exists>b'. put_response little t req_id_buf code segs b = Inr b'"
proof -
  note len = assms(2) [unfolded length_response_bytes]
  obtain b1 where b1: "SetString little (octets t) kUInt8 b = Inr b1" "wrote b (string_bytes little kUInt8 (octets t)) b1"
    using SetString_wrote [OF assms(1), of kUInt8 "octets t" little] assms(4) len by auto
  then have r1: "room b1 + 1 + length t = room b" by (simp add: wrote_def)
  obtain b2 where b2: "SetBuffer req_id_buf b1 = Inr b2" "wrote b1 req_id_buf b2"
    using SetBuffer_wrote [OF wrote_wf [OF b1(2)], of req_id_buf] r1 len assms(3) by auto
  then have r2: "room b2 + 1 + length t + length req_id_buf = room b" using r1 by (simp add: wrote_def)
  have l4: "length (SetBufFromUint32 little code) = 4" by (rule u32c.length_encode)
  then obtain b3 where b3: "SetUint32 little code b2 = Inr b3" "wrote b2 (SetBufFromUint32 little code) b3"
    using SetBuffer_wrote [OF wrote_wf [OF b2(2)], of "SetBufFromUint32 little code"] r2 len by (auto simp: SetUint32_def)
  then have r3: "length (concat segs) \<le> room b3" using r2 l4 len by (simp add: wrote_def)
  have s: "length (concat segs) < 2 ^ 63" using assms(3) len by simp
  obtain b4 where "put_segments segs b3 = Inr b4" using put_segments_wrote [OF wrote_wf [OF b3(2)] r3 s] by blast
  then show ?thesis using b1(1) b2(1) b3(1) by (simp add: put_response_def)
qed

lemma put_response_succeeds:
  assumes "p < 2 ^ 62" "n < 2 ^ 62" "n = length (response_bytes little t req_id_buf code (concat segs))" "length t \<le> 255"
  shows "\<exists>b. put_response little t req_id_buf code segs (mk_buffer_operator p (replicate n 0)) = Inr b"
proof -
  have "buf_wf (mk_buffer_operator p (replicate n 0))" "room (mk_buffer_operator p (replicate n 0)) = n"
    using fresh_buffer [of p n] assms(1,2) by simp_all
  then show ?thesis using put_response_room [OF _ _ _ assms(4)] assms(2,3) by simp
qed

text \<open>
  A call with a key or value of more than 65535 bytes in its metadata passes every check of
  \<open>Invoke\<close>, is recorded, and then the package cannot be written: nothing is sent and nothing is
  called back. Without a timeout executor no timer is set, so the caller waits for ever.
\<close>

theorem overlong_meta_strands_call:
  assumes "qc_calls s c = Some w" "qc_state s = kStart" "qc_server s w = Some server"
    and "length (call_type w) \<le> 255" "length (rpc_rsp_topic (qc_client_id s) (fi_func_name (iw_info w))) \<le> 255"
    and "TrySerializeReqWithCache w (call_type w) = (Some req, w1)" "\<forall>bs. concat (segment bs) = bs"
    and "length (rpc_GetMetaKeyValsArray (sent_context s w)) div 2 \<le> 255"
    and "length (request_bytes little (call_type w) (rpc_rsp_topic (qc_client_id s) (fi_func_name (iw_info w))) (qc_req_id s)
      (rpc_GetMetaKeyValsArray (sent_context s w)) req) \<le> qc_max_pkg_size s" "qc_max_pkg_size s < 2 ^ 32" "p < 2 ^ 62"
    and "v \<in> set (rpc_GetMetaKeyValsArray (sent_context s w))" "65535 < length v"
    and "qc_tool s = Some tool" "map_of (ct_map tool) (qc_req_id s) = None"
  shows "\<exists>s1 tool1. qc_Invoke little p segment c s = (s1, None) \<and> qc_log s1 = qc_log s \<and>
    qc_tool s1 = Some tool1 \<and> map_of (ct_map tool1) (qc_req_id s) = Some c \<and>
    (ct_executor tool = None \<longrightarrow> ct_timers tool1 = ct_timers tool)"
proof -
  let ?t = "call_type w" and ?topic = "rpc_rsp_topic (qc_client_id s) (fi_func_name (iw_info w))"
  let ?kvs = "rpc_GetMetaKeyValsArray (sent_context s w)" and ?s = "s\<lparr>qc_req_id := qc_req_id s + 1\<rparr>"
  let ?n = "1 + length ?t + 1 + length ?topic + 4 + context_meta_kv_size ?kvs + length req"
  note fr = TrySerializeReq_frame [OF assms(6)]
  have same: "call_type w1 = ?t" "sent_context ?s w1 = sent_context s w" "iw_info w1 = iw_info w"
    using fr by (simp_all add: call_type_def sent_context_def)
  have segl: "sum_list (map length (segment req)) = length req" using assms(7) by (metis length_concat)
  have n: "?n = length (request_bytes little ?t ?topic (qc_req_id s) ?kvs (concat (segment req)))"
    using assms(7) by (simp add: length_request_bytes)
  have le: "?n \<le> qc_max_pkg_size s" using assms(9) by (simp add: length_request_bytes)
  then have "?n < 2 ^ 62" using assms(10) by simp
  have fails: "\<exists>e. put_request little ?t ?topic (qc_req_id s) ?kvs (segment req) (mk_buffer_operator p (replicate ?n 0)) = Inl e"
    using put_request_fills [OF assms(11) \<open>?n < 2 ^ 62\<close> n] assms(12,13)
    by (cases "put_request little ?t ?topic (qc_req_id s) ?kvs (segment req) (mk_buffer_operator p (replicate ?n 0))") fastforce+
  obtain ret tool1 where rec: "Record (qc_req_id s) (rc_timeout (sent_context s w)) c tool = (ret, tool1)" by fastforce
  have r: "ret" "map_of (ct_map tool1) (qc_req_id s) = Some c" "ct_executor tool = None \<longrightarrow> ct_timers tool1 = ct_timers tool"
    using rec assms(15) by (auto simp: Record_def Let_def map_add_def)
  have "qc_send_request little p segment c w1 server (qc_req_id s) req ?s =
      (?s\<lparr>qc_calls := (qc_calls ?s)(c \<mapsto> w1\<lparr>iw_ctx := sent_context s w\<rparr>), qc_tool := Some tool1\<rparr>, None)"
    unfolding qc_send_request_def Let_def call_type_def [symmetric] sent_context_def [symmetric] same segl
    using assms(8,14) le rec r(1) fails same(2,3) by auto
  moreover have "qc_Invoke little p segment c s = qc_send_request little p segment c w1 server (qc_req_id s) req ?s"
    unfolding qc_Invoke_def Let_def call_type_def [symmetric] using assms(1-6) by simp
  ultimately show ?thesis using r(2,3) by simp
qed

section \<open>Examples\<close>

definition num_client :: "(nat, nat) mqtt_client" where
  "num_client = \<lparr>qc_state = kStart, qc_client_id = ''c'', qc_clients_options = [], qc_max_pkg_size = 1048576, qc_req_id = 7,
     qc_cfg = [], qc_tool = Some new_client_tool, qc_sub_info = [], qc_calls = (\<lambda>_. None), qc_log = []\<rparr>"

definition num_client_with :: "(nat, nat) invoke_wrapper \<Rightarrow> (nat, nat) mqtt_client" where
  "num_client_with w = num_client\<lparr>qc_calls := (qc_calls num_client)(1 \<mapsto> w)\<rparr>"

lemma num_topic: "rpc_rsp_topic ''c'' ''f'' = ''aimrt_rpc_rsp/c/f''"
  by (simp add: rpc_rsp_topic_def GetFuncNameWithoutPrefix_def find_pos_def match_at_def UrlEncode_def url_plain_def
      isalnum_char_def is_digit_def)

lemma num_client_facts:
  "qc_calls (num_client_with w) 1 = Some w" "qc_state (num_client_with w) = kStart" "qc_client_id (num_client_with w) = ''c''"
  "qc_max_pkg_size (num_client_with w) = 1048576" "qc_tool (num_client_with w) = Some new_client_tool"
  "qc_req_id (num_client_with w) = 7" "qc_log (num_client_with w) = []" "qc_cfg (num_client_with w) = []"
  by (simp_all add: num_client_with_def num_client_def)

lemma num_call_facts:
  "call_type (num_call n) = ''bin''" "fi_func_name (iw_info (num_call n)) = ''f''"
  "sent_context (num_client_with w) (num_call n) =
     \<lparr>rc_client = True, rc_used = True, rc_timeout = 9,
      rc_meta = [(''aimrt-serialization_type'', ''bin''), (''aimrt-from_mqtt_client'', ''c'')]\<rparr>"
  "qc_server (num_client_with w) (num_call n) = Some ([], 2)"
  by (simp_all add: call_type_def num_call_def num_func_def rpc_GetMetaValue_def sent_context_def rpc_SetMetaValue_def
      num_client_facts qc_server_def)

lemma num_call_serialized:
  "n < 256 \<Longrightarrow> \<exists>w'. TrySerializeReqWithCache (num_call n) ''bin'' = (Some [of_nat n], w')"
  by (simp add: TrySerializeReqWithCache_def SerializeReqWithCache_def num_call_def num_func_def number_support_def)

lemma qc_Invoke_sends:
  assumes "qc_calls s c = Some w" "qc_state s = kStart" "qc_server s w = Some server"
    and "length (call_type w) \<le> 255" "length (rpc_rsp_topic (qc_client_id s) (fi_func_name (iw_info w))) \<le> 255"
    and "TrySerializeReqWithCache w (call_type w) = (Some req, w1)" "\<forall>bs. concat (segment bs) = bs"
    and "length (rpc_GetMetaKeyValsArray (sent_context s w)) div 2 \<le> 255"
    and "length (request_bytes little (call_type w) (rpc_rsp_topic (qc_client_id s) (fi_func_name (iw_info w))) (qc_req_id s)
      (rpc_GetMetaKeyValsArray (sent_context s w)) req) \<le> qc_max_pkg_size s" "qc_max_pkg_size s < 2 ^ 32" "p < 2 ^ 62"
    and "meta_fits (rpc_GetMetaKeyValsArray (sent_context s w))"
    and "qc_tool s = Some tool" "map_of (ct_map tool) (qc_req_id s) = None"
  shows "\<exists>s1 pub. qc_Invoke little p segment c s = (s1, Some pub)"
proof -
  let ?t = "call_type w" and ?topic = "rpc_rsp_topic (qc_client_id s) (fi_func_name (iw_info w))"
  let ?kvs = "rpc_GetMetaKeyValsArray (sent_context s w)" and ?s = "s\<lparr>qc_req_id := qc_req_id s + 1\<rparr>"
  let ?n = "1 + length ?t + 1 + length ?topic + 4 + context_meta_kv_size ?kvs + length req"
  note fr = TrySerializeReq_frame [OF assms(6)]
  have same: "call_type w1 = ?t" "sent_context ?s w1 = sent_context s w" "iw_info w1 = iw_info w"
    using fr by (simp_all add: call_type_def sent_context_def)
  have segl: "sum_list (map length (segment req)) = length req" using assms(7) by (metis length_concat)
  have n: "?n = length (request_bytes little ?t ?topic (qc_req_id s) ?kvs (concat (segment req)))"
    using assms(7) by (simp add: length_request_bytes)
  have le: "?n \<le> qc_max_pkg_size s" using assms(9) by (simp add: length_request_bytes)
  then have lt: "?n < 2 ^ 62" using assms(10) by simp
  obtain b where b: "put_request little ?t ?topic (qc_req_id s) ?kvs (segment req) (mk_buffer_operator p (replicate ?n 0)) = Inr b"
    using put_request_succeeds [OF assms(11) lt n assms(4,5,12)] by blast
  obtain ret tool1 where rec: "Record (qc_req_id s) (rc_timeout (sent_context s w)) c tool = (ret, tool1)" by fastforce
  have r: "ret" using rec assms(14) by (auto simp: Record_def Let_def)
  have "\<exists>s1 pub. qc_send_request little p segment c w1 server (qc_req_id s) req ?s = (s1, Some pub)"
    unfolding qc_send_request_def Let_def call_type_def [symmetric] sent_context_def [symmetric] same segl
    using assms(8,13) le rec r b same(2,3) by auto
  moreover have "qc_Invoke little p segment c s = qc_send_request little p segment c w1 server (qc_req_id s) req ?s"
    unfolding qc_Invoke_def Let_def call_type_def [symmetric] using assms(1-6) by simp
  ultimately show ?thesis by simp
qed

lemma num_invoke:
  assumes "n < 256"
  shows "\<exists>s1 pub. qc_Invoke True 0 (\<lambda>bs. [bs]) 1 (num_client_with (num_call n)) = (s1, Some pub)"
proof -
  let ?s = "num_client_with (num_call n)"
  obtain w' where ser: "TrySerializeReqWithCache (num_call n) (call_type (num_call n)) = (Some [of_nat n], w')"
    using num_call_serialized [OF assms] num_call_facts(1) by metis
  note facts = num_client_facts num_call_facts num_topic
  show ?thesis
    by (rule qc_Invoke_sends [OF facts(1) facts(2) facts(12) _ _ ser, where tool = new_client_tool])
      (simp_all add: facts rpc_GetMetaKeyValsArray_def length_request_bytes context_meta_kv_size_def meta_fits_def new_client_tool_def)
qed

text \<open>The call with request 5, sent, received by the service of the same function.\<close>

lemma num_request_survives: "request_survives (num_func ''q'') (num_call 5)"
  using num_call_serialized [of 5]
  by (auto simp: request_survives_def num_call_facts) (simp add: num_func_def number_support_def num_call_def)

theorem mqtt_request_reaches_service_witness:
  "\<exists>s1 topic qos pkg sc tool. qc_Invoke True 0 (\<lambda>bs. [bs]) 1 (num_client_with (num_call 5)) = (s1, Some (topic, qos, pkg)) \<and>
    qs_handle_request False 0 2 (num_func ''q'') pkg = ServeCall sc \<and> iw_req (qs_wrapper sc) = 5 \<and>
    qs_topic sc = ''aimrt_rpc_rsp/c/f'' \<and> qc_tool s1 = Some tool \<and> fst (GetRecord 7 tool) = Some 1"
proof -
  let ?s = "num_client_with (num_call 5)"
  obtain s1 topic qos pkg where i: "qc_Invoke True 0 (\<lambda>bs. [bs]) 1 ?s = (s1, Some (topic, qos, pkg))"
    using num_invoke [of 5] by fastforce
  have d: "distinct (map fst (rc_meta (sent_context ?s (num_call 5))))" by (simp add: num_call_facts)
  have m: "qc_max_pkg_size ?s < 2 ^ 32" by (simp add: num_client_facts)
  obtain sc tool where "qs_handle_request False 0 2 (num_func ''q'') pkg = ServeCall sc"
      "iw_req (qs_wrapper sc) = iw_req (num_call 5)"
      "qs_topic sc = rpc_rsp_topic (qc_client_id ?s) (fi_func_name (iw_info (num_call 5)))"
      "qc_tool s1 = Some tool" "fst (GetRecord (qc_req_id ?s) tool) = Some 1"
    using mqtt_request_reaches_service [OF i num_client_facts(1) _ _ m _ d num_request_survives, of 0 False 2]
    by auto
  moreover have "iw_req (num_call 5) = 5" by (simp add: num_call_def)
  ultimately show ?thesis using i by (auto simp: num_client_facts num_call_facts num_topic)
qed

theorem mqtt_callback_at_most_once_witness:
  "\<exists>s. mqtt_reach True 0 (\<lambda>bs. [bs]) num_client s \<and> qc_calls s 1 \<noteq> None \<and> calls_of 1 (qc_log s) \<le> 1"
proof -
  let ?s = "fst (qc_Invoke True 0 (\<lambda>bs. [bs]) 1 (num_client_with (num_call 5)))"
  have "mqtt_step True 0 (\<lambda>bs. [bs]) (MqttInvoke 1 (num_call 5)) num_client = Some ?s"
    by (simp add: num_client_with_def) (simp add: num_client_def num_call_def)
  then have r: "mqtt_reach True 0 (\<lambda>bs. [bs]) num_client ?s" by (rule mqtt_next [OF mqtt_start])
  obtain s1 pub where i: "qc_Invoke True 0 (\<lambda>bs. [bs]) 1 (num_client_with (num_call 5)) = (s1, Some pub)"
    using num_invoke [of 5] by auto
  obtain topic qos pkg where pub: "pub = (topic, qos, pkg)" by (cases pub)
  have m: "qc_max_pkg_size (num_client_with (num_call 5)) < 2 ^ 32" by (simp add: num_client_facts)
  have "qc_calls ?s 1 \<noteq> None"
    using qc_Invoke_sent [OF i [unfolded pub] num_client_facts(1) _ m] i by auto
  moreover have "calls_of 1 (qc_log ?s) \<le> 1"
    using mqtt_callback_at_most_once [OF r, of 1] by (simp add: ready_client_def num_client_def new_client_tool_def)
  ultimately show ?thesis using r by blast
qed

text \<open>The response 9 to that call.\<close>

definition num_served :: "(nat, nat) mqtt_service_call" where
  "num_served = \<lparr>qs_wrapper = (num_call 5)\<lparr>iw_info := num_func ''q''\<rparr>, qs_topic = ''t'', qs_type = ''bin'',
     qs_req_id = SetBufFromUint32 False 7, qs_qos = 2\<rparr>"

definition num_waiting :: "(nat, nat) mqtt_client" where
  "num_waiting = (num_client_with (num_call 5))\<lparr>qc_tool := Some (snd (Record 7 9 1 new_client_tool))\<rparr>"

lemma num_respond: "\<exists>pkg. qs_respond True 0 1024 (\<lambda>bs. [bs]) num_served STATUS_OK 9 = Inr (''t'', 2, pkg)"
proof -
  have four: "length (SetBufFromUint32 False 7) = 4" by (rule u32c.length_encode)
  obtain w' where ser: "TrySerializeRspWithCache ((num_call 5)\<lparr>iw_info := num_func ''q'', iw_rsp := Some 9\<rparr>) ''bin'' = (Some [9], w')"
    by (simp add: TrySerializeRspWithCache_def SerializeRspWithCache_def num_call_def num_func_def number_support_def)
  have l: "1 + length ''bin'' + 4 + 4 + length [9 :: byte] = length (response_bytes True ''bin'' (SetBufFromUint32 False 7) 0 (concat [[9]]))"
    by (simp add: length_response_bytes four)
  obtain b where b: "put_response True ''bin'' (SetBufFromUint32 False 7) 0 [[9]]
      (mk_buffer_operator 0 (replicate (1 + length ''bin'' + 4 + 4 + length [9 :: byte]) 0)) = Inr b"
    using put_response_succeeds [OF _ _ l, of 0] by auto
  then show ?thesis using ser by (simp add: qs_respond_def num_served_def Let_def)
qed

theorem mqtt_response_reaches_caller_witness:
  "\<exists>pkg s1 answer. qs_respond True 0 1024 (\<lambda>bs. [bs]) num_served STATUS_OK 9 = Inr (''t'', 2, pkg) \<and>
    qc_handle_response False 0 pkg num_waiting = s1 \<and> qc_log s1 = [Called 1 answer]"
proof -
  obtain pkg where r: "qs_respond True 0 1024 (\<lambda>bs. [bs]) num_served STATUS_OK 9 = Inr (''t'', 2, pkg)"
    using num_respond by blast
  have s: "qs_req_id num_served = SetBufFromUint32 False 7" "length (qs_type num_served) < 2 ^ 32"
      "iw_rsp_cache (qs_wrapper num_served) = []" "codec (fi_rsp_support (iw_info (qs_wrapper num_served)))"
      "fi_rsp_support (iw_info (num_call 5)) = fi_rsp_support (iw_info (qs_wrapper num_served))" "iw_callback (num_call 5)"
    using number_support_codec by (simp_all add: num_served_def num_call_def num_func_def)
  have w: "qc_tool num_waiting = Some (snd (Record 7 9 1 new_client_tool))" "qc_calls num_waiting 1 = Some (num_call 5)"
      "qc_log num_waiting = []"
    using num_client_facts(1) [of "num_call 5"] by (simp_all add: num_waiting_def num_client_facts)
  have t: "ct_ok (snd (Record 7 9 1 new_client_tool))" "map_of (ct_map (snd (Record 7 9 1 new_client_tool))) 7 = Some 1"
    by (simp_all add: Record_def new_client_tool_def Let_def ct_ok_def)
  show ?thesis
    using mqtt_response_reaches_caller [OF r s(1) _ _ _ _ s(2-5) w(1) t w(2) s(6), of 0] r w(3) by auto
qed

text \<open>A call with a metadata value of 65536 bytes.\<close>

definition long_call :: "nat \<Rightarrow> (nat, nat) invoke_wrapper" where
  "long_call n = (num_call 5)\<lparr>iw_ctx := rpc_SetMetaValue ''k'' (replicate n (CHR ''x'')) (iw_ctx (num_call 5))\<rparr>"

lemma long_call_facts:
  "call_type (long_call n) = ''bin''" "fi_func_name (iw_info (long_call n)) = ''f''"
  "rpc_GetMetaKeyValsArray (sent_context (num_client_with w) (long_call n)) =
     [''aimrt-serialization_type'', ''bin'', ''k'', replicate n (CHR ''x''), ''aimrt-from_mqtt_client'', ''c'']"
  "qc_server (num_client_with w) (long_call n) = Some ([], 2)"
  by (simp_all add: call_type_def long_call_def num_call_def num_func_def rpc_GetMetaValue_def sent_context_def rpc_SetMetaValue_def
      num_client_facts qc_server_def rpc_GetMetaKeyValsArray_def)

lemma long_call_serialized: "\<exists>w'. TrySerializeReqWithCache (long_call n) ''bin'' = (Some [5], w')"
  by (simp add: TrySerializeReqWithCache_def SerializeReqWithCache_def long_call_def num_call_def num_func_def number_support_def)

theorem overlong_meta_strands_call_witness:
  "\<exists>s1 tool1. qc_Invoke True 0 (\<lambda>bs. [bs]) 1 (num_client_with (long_call 65536)) = (s1, None) \<and> qc_log s1 = [] \<and>
    qc_tool s1 = Some tool1 \<and> map_of (ct_map tool1) 7 = Some 1 \<and> ct_timers tool1 = []"
proof -
  obtain n :: nat where n: "n = 65536" by simp
  let ?s = "num_client_with (long_call n)"
  obtain w' where ser: "TrySerializeReqWithCache (long_call n) (call_type (long_call n)) = (Some [5], w')"
    using long_call_serialized long_call_facts(1) by metis
  note facts = num_client_facts long_call_facts num_topic
  have big: "65535 < length (replicate n (CHR ''x''))" using n by simp
  have "\<exists>s1 tool1. qc_Invoke True 0 (\<lambda>bs. [bs]) 1 ?s = (s1, None) \<and> qc_log s1 = qc_log ?s \<and>
    qc_tool s1 = Some tool1 \<and> map_of (ct_map tool1) (qc_req_id ?s) = Some 1 \<and>
    (ct_executor (new_client_tool :: nat client_tool) = None \<longrightarrow> ct_timers tool1 = ct_timers (new_client_tool :: nat client_tool))"
    by (rule overlong_meta_strands_call [OF facts(1) facts(2) facts(12) _ _ ser _ _ _ _ _ _ big])
      (simp_all add: facts n length_request_bytes context_meta_kv_size_def new_client_tool_def)
  then show ?thesis unfolding n by (simp add: num_client_facts new_client_tool_def)
qed

end
