(* ===== verification/BackendConfig.thy ===== *)
theory BackendConfig
  imports ChannelManager
begin

text \<open>
  What the configuration of the channel manager and of the rpc manager have in common
  (\<open>channel_manager.cc\<close>, \<open>rpc_manager.cc\<close>): a list of backends with their options, and rules that name
  backends and filters for topics or functions. The code of the two files is the same up to
  names, so it is modelled once; backends are of any type \<open>'b\<close> with a name and an \<open>Initialize\<close>.
\<close>

section \<open>Configured backends and rules\<close>

record topic_node =
  tn_name :: "string option"
  tn_enable_backends :: "string list option"
  tn_enable_filters :: "string list option"

record topic_options =
  to_name :: string
  to_enable_backends :: "string list"
  to_enable_filters :: "string list"

text \<open>A missing name or list of backends throws; the filters are optional.\<close>

definition decode_topic :: "topic_node \<Rightarrow> topic_options option" where
  "decode_topic n =
     (case (tn_name n, tn_enable_backends n) of
        (Some name, Some backends) \<Rightarrow>
          Some \<lparr>to_name = name, to_enable_backends = backends,
            to_enable_filters = (case tn_enable_filters n of None \<Rightarrow> [] | Some fs \<Rightarrow> fs)\<rparr>
      | _ \<Rightarrow> None)"

text \<open>A backend node: its type and, when it has one, its own options node.\<close>

type_synonym 'o backend_node = "string option \<times> 'o option"

definition decode_backend :: "'o backend_node \<Rightarrow> (string \<times> 'o option) option" where
  "decode_backend n = map_option (\<lambda>t. (t, snd n)) (fst n)"

record ('b, 'o) backend_class =
  bc_name :: "'b \<Rightarrow> string"
  bc_initialize :: "'o option \<Rightarrow> 'b \<Rightarrow> bool \<times> 'b"
  bc_local :: 'b

datatype config_error =
    CfgInitializedTwice | CfgNotInit | CfgNotPreInit | CfgBadNode | CfgFilter filter_error
  | CfgInvalidBackend string | CfgBackendThrows string | CfgInvalidRule string string | CfgBackendManager

fun find_named :: "('b \<Rightarrow> string) \<Rightarrow> string \<Rightarrow> 'b list \<Rightarrow> nat option" where
  "find_named name_of t [] = None"
| "find_named name_of t (b # bs) = (if name_of b = t then Some 0 else map_option Suc (find_named name_of t bs))"

text \<open>
  The loop over the configured backends. \<open>register\<close> is \<open>RegisterChannelBackend\<close> of the backend
  manager, which may refuse; the positions of the backends used are collected.
\<close>

fun init_backends ::
  "('b, 'o) backend_class \<Rightarrow> (string \<Rightarrow> 's \<Rightarrow> 's option) \<Rightarrow> (string \<times> 'o option) list \<Rightarrow> 'b list \<times> nat list \<times> 's \<Rightarrow>
   config_error option \<times> 'b list \<times> nat list \<times> 's" where
  "init_backends bc register [] (bs, used, s) = (None, bs, used, s)"
| "init_backends bc register ((t, opts) # rest) (bs, used, s) =
     (case find_named (bc_name bc) t bs of
        None \<Rightarrow> (Some (CfgInvalidBackend t), bs, used, s)
      | Some i \<Rightarrow>
          (case bc_initialize bc opts (bs ! i) of
             (False, b) \<Rightarrow> (Some (CfgBackendThrows t), bs[i := b], used, s)
           | (True, b) \<Rightarrow>
               (case register t s of
                  None \<Rightarrow> (Some CfgBackendManager, bs[i := b], used, s)
                | Some s \<Rightarrow> init_backends bc register rest (bs[i := b], used @ [i], s))))"

text \<open>Every backend a rule names must be one of the initialised ones.\<close>

definition check_rules :: "string list \<Rightarrow> topic_options list \<Rightarrow> config_error option" where
  "check_rules names topics =
     map_option (\<lambda>(t, b). CfgInvalidRule t b)
       (List.find (\<lambda>(_, b). b \<notin> set names) (concat (map (\<lambda>o'. map (Pair (to_name o')) (to_enable_backends o')) topics)))"

definition backends_rules :: "topic_options list \<Rightarrow> rules" where
  "backends_rules topics = map (\<lambda>o'. (to_name o', to_enable_backends o')) topics"

definition filters_rules :: "topic_options list \<Rightarrow> rules" where
  "filters_rules topics = map (\<lambda>o'. (to_name o', to_enable_filters o')) topics"

section \<open>Statements in sequence\<close>

fun and_then :: "('e, 's) outcome \<Rightarrow> ('s \<Rightarrow> ('e, 's) outcome) \<Rightarrow> ('e, 's) outcome" where
  "and_then (Some e, s) f = (Some e, s)"
| "and_then (None, s) f = f s"

lemma and_then_keeps: "p (snd r) = k \<Longrightarrow> (\<And>s. p s = k \<Longrightarrow> p (snd (f s)) = k) \<Longrightarrow> p (snd (and_then r f)) = k"
  by (cases "(r, f)" rule: and_then.cases) auto

lemma and_then_None: "and_then r f = (None, s') \<longleftrightarrow> (\<exists>s. r = (None, s) \<and> f s = (None, s'))"
  by (cases "(r, f)" rule: and_then.cases) auto

lemma and_then_Some:
  "and_then r f = (Some e, s') \<longleftrightarrow> r = (Some e, s') \<or> (\<exists>s. r = (None, s) \<and> f s = (Some e, s'))"
  by (cases "(r, f)" rule: and_then.cases) auto

section \<open>What a successful initialisation sets up\<close>

text \<open>A backend keeps its name when it is initialised.\<close>

definition keeps_name :: "('b, 'o) backend_class \<Rightarrow> bool" where
  "keeps_name bc \<longleftrightarrow> (\<forall>o' b. bc_name bc (snd (bc_initialize bc o' b)) = bc_name bc b)"

lemma find_named_Some: "find_named name_of t bs = Some i \<Longrightarrow> i < length bs \<and> name_of (bs ! i) = t"
  by (induction bs arbitrary: i) (auto split: if_splits)

lemma init_backends_ok:
  assumes "init_backends bc register opts (bs, used, s) = (None, bs', used', s')" "keeps_name bc"
  shows "map (bc_name bc) bs' = map (bc_name bc) bs \<and> map (\<lambda>i. map (bc_name bc) bs ! i) used' = map (\<lambda>i. map (bc_name bc) bs ! i) used @ map fst opts \<and>
    (\<forall>i \<in> set used'. i \<in> set used \<or> i < length bs) \<and>
    fold (\<lambda>t s. Option.bind s (register t)) (map fst opts) (Some s) = Some s'"
  using assms(1)
proof (induction opts arbitrary: bs used s)
  case (Cons opt opts)
  obtain t o' where opt: "opt = (t, o')" by (cases opt)
  obtain i b s1 where i: "find_named (bc_name bc) t bs = Some i" "bc_initialize bc o' (bs ! i) = (True, b)" "register t s = Some s1"
    and rec: "init_backends bc register opts (bs[i := b], used @ [i], s1) = (None, bs', used', s')"
    using Cons.prems unfolding opt by (auto split: option.splits prod.splits bool.splits)
  note n = find_named_Some [OF i(1)]
  have "bc_name bc b = bc_name bc (bs ! i)" using assms(2) i(2) unfolding keeps_name_def by (metis snd_conv)
  then have names: "map (bc_name bc) (bs[i := b]) = map (bc_name bc) bs" using n list_update_id [of "map (bc_name bc) bs" i] by (auto simp: map_update)
  show ?case using Cons.IH [OF rec] n i(3) unfolding names by (auto simp: opt)
qed simp

text \<open>The names of the backends used are the configured types.\<close>

lemma init_backends_names:
  assumes "init_backends bc register opts (bs, [], s) = (None, bs', used', s')" "keeps_name bc"
  shows "map (\<lambda>i. bc_name bc (bs' ! i)) used' = map fst opts"
proof -
  note ok = init_backends_ok [OF assms]
  have len: "length bs' = length bs" using ok by (metis length_map)
  have "bc_name bc (bs' ! i) = map (bc_name bc) bs ! i" if "i \<in> set used'" for i
    using ok len that by (metis empty_iff list.set(1) nth_map)
  then have "map (\<lambda>i. bc_name bc (bs' ! i)) used' = map (\<lambda>i. map (bc_name bc) bs ! i) used'" by simp
  then show ?thesis using ok by simp
qed

lemma check_rules_None:
  assumes "check_rules names topics = None"
  shows "set (deciding_rule rmatch topic (backends_rules topics)) \<subseteq> set names"
proof -
  have all: "set (to_enable_backends o') \<subseteq> set names" if "o' \<in> set topics" for o'
    using assms that by (auto simp: check_rules_def find_None_iff)
  show ?thesis
  proof (cases "List.find (\<lambda>(re, _). rmatch re topic = Some True) (backends_rules topics)")
    case (Some r)
    then obtain i where "i < length (backends_rules topics)" "r = backends_rules topics ! i" by (auto simp: find_Some_iff)
    then have "r \<in> set (backends_rules topics)" by simp
    then show ?thesis using Some all by (auto simp: deciding_rule_def backends_rules_def)
  qed (simp add: deciding_rule_def)
qed

lemma init_backends_keeps:
  assumes "init_backends bc register opts (bs, used, s) = (err, bs', used', s')" "P s"
    and "\<And>t s s'. P s \<Longrightarrow> register t s = Some s' \<Longrightarrow> P s'"
  shows "P s'"
  using assms(1,2)
proof (induction opts arbitrary: bs used s)
  case (Cons opt opts)
  show ?case
  proof (cases opt)
    case (Pair t o')
    then show ?thesis using Cons assms(3)
      by (cases "find_named (bc_name bc) t bs"; cases "bc_initialize bc o' (bs ! the (find_named (bc_name bc) t bs))";
          cases "register t s") (auto split: bool.splits)
  qed
qed simp

section \<open>Sequences of steps seen through a projection\<close>

lemma fold_none: "\<exists>ops. s = fold f ops s"
  by (intro exI [of _ "[]"]) simp

lemma fold_one: "s' = f op s \<Longrightarrow> \<exists>ops. s' = fold f ops s"
  by (intro exI [of _ "[op]"]) simp

lemma folds_as:
  assumes "\<And>a s. \<exists>ops. p (g a s) = fold f ops (p s)"
  shows "\<exists>ops. p (fold g acts s) = fold f ops (p s)"
proof (induction acts arbitrary: s)
  case (Cons a acts)
  obtain ops where "p (g a s) = fold f ops (p s)" using assms by blast
  moreover obtain ops' where "p (fold g acts (g a s)) = fold f ops' (p (g a s))" using Cons by blast
  ultimately have "p (fold g (a # acts) s) = fold f (ops @ ops') (p s)" by simp
  then show ?case by blast
qed (auto intro: exI [of _ "[]"])

end
