(* ===== verification/ChannelConfig.thy ===== *)
theory ChannelConfig
  imports BackendConfig
begin

text \<open>
  The channel manager (\<open>channel_manager.cc\<close>) and the handles it gives to modules
  (\<open>channel_handle_proxy.h\<close>). It owns the backends, the filters and the registry, turns its options
  into the rules of the backend manager, and gives each module a proxy under whose name publishers
  and subscribers are made. The yaml node is given as a tree of optional fields. The filter managers and the registry live where
  the backend manager reaches them, in its own record, because the manager hands it their
  addresses; the manager's accesses to them go there.
\<close>

section \<open>The manager\<close>

record channel_node_backendless =
  cn_pub_topics :: "topic_node list option"
  cn_sub_topics :: "topic_node list option"

record 'o channel_node = channel_node_backendless +
  cn_backends :: "'o backend_node list option"

record 'o channel_options =
  co_backends :: "(string \<times> 'o option) list"
  co_pub_topics :: "topic_options list"
  co_sub_topics :: "topic_options list"

text \<open>A handle proxy: the package and the topics of the publishers and subscribers it has made.\<close>

record channel_handle_proxy =
  hp_pkg_path :: string
  hp_publishers :: "string list"
  hp_subscribers :: "string list"

record ('m, 'v, 'b, 'o) channel_manager =
  ch_options :: "'o channel_options"
  ch_state :: lc_state
  ch_passed_context_meta_keys :: "string list"
  ch_backend_vec :: "'b list"
  ch_used :: "nat list"
  ch_bm :: "('m, 'v) channel_backend_manager"
  ch_start_flag :: bool
  ch_proxies :: "(string \<times> channel_handle_proxy) list"

definition channel_decode :: "'o channel_node \<Rightarrow> 'o channel_options option" where
  "channel_decode node =
     Option.bind (decode_seq decode_backend (cn_backends node)) (\<lambda>bs.
       Option.bind (decode_seq decode_topic (cn_pub_topics node)) (\<lambda>ps.
         map_option (\<lambda>ss. \<lparr>co_backends = bs, co_pub_topics = ps, co_sub_topics = ss\<rparr>)
           (decode_seq decode_topic (cn_sub_topics node))))"

definition ch_pre_init ::
  "(('m, 'v, 'b, 'o) channel_manager \<Rightarrow> (config_error, ('m, 'v, 'b, 'o) channel_manager) outcome) \<Rightarrow>
   ('m, 'v, 'b, 'o) channel_manager \<Rightarrow> (config_error, ('m, 'v, 'b, 'o) channel_manager) outcome" where
  "ch_pre_init f s = (if ch_state s \<noteq> kPreInit then (Some CfgNotPreInit, s) else f s)"

definition ch_RegisterChannelBackend ::
  "'b \<Rightarrow> ('m, 'v, 'b, 'o) channel_manager \<Rightarrow> (config_error, ('m, 'v, 'b, 'o) channel_manager) outcome" where
  "ch_RegisterChannelBackend b = ch_pre_init (\<lambda>s. (None, s\<lparr>ch_backend_vec := ch_backend_vec s @ [b]\<rparr>))"

definition ch_RegisterPublishFilter ::
  "string \<Rightarrow> ('m msg_wrapper, 'm publish_log) afilter \<Rightarrow> ('m, 'v, 'b, 'o) channel_manager \<Rightarrow>
   (config_error, ('m, 'v, 'b, 'o) channel_manager) outcome" where
  "ch_RegisterPublishFilter name f = ch_pre_init (\<lambda>s.
     case RegisterFilter name f (cm_publish_filters (ch_bm s)) of
       Inl e \<Rightarrow> (Some (CfgFilter e), s)
     | Inr fm \<Rightarrow> (None, s\<lparr>ch_bm := (ch_bm s)\<lparr>cm_publish_filters := fm\<rparr>\<rparr>))"

definition ch_RegisterSubscribeFilter ::
  "string \<Rightarrow> ('m msg_wrapper, 'v) afilter \<Rightarrow> ('m, 'v, 'b, 'o) channel_manager \<Rightarrow>
   (config_error, ('m, 'v, 'b, 'o) channel_manager) outcome" where
  "ch_RegisterSubscribeFilter name f = ch_pre_init (\<lambda>s.
     case RegisterFilter name f (cm_subscribe_filters (ch_bm s)) of
       Inl e \<Rightarrow> (Some (CfgFilter e), s)
     | Inr fm \<Rightarrow> (None, s\<lparr>ch_bm := (ch_bm s)\<lparr>cm_subscribe_filters := fm\<rparr>\<rparr>))"

definition ch_AddPassedContextMetaKeys ::
  "string list \<Rightarrow> ('m, 'v, 'b, 'o) channel_manager \<Rightarrow> (config_error, ('m, 'v, 'b, 'o) channel_manager) outcome" where
  "ch_AddPassedContextMetaKeys keys = ch_pre_init (\<lambda>s.
     (None, s\<lparr>ch_passed_context_meta_keys := fold List.insert keys (ch_passed_context_meta_keys s)\<rparr>))"

text \<open>The filter both sides get under \<open>debug_log\<close>: it serialises the message to print it and passes it on.\<close>

definition debug_log_filter :: "('m msg_wrapper, 'w) afilter" where
  "debug_log_filter w v = Calls (snd (TrySerializeMsgWithCache w ''json'')) v Ends"

definition ch_RegisterDebugLogFilter ::
  "('m, 'v, 'b, 'o) channel_manager \<Rightarrow> (config_error, ('m, 'v, 'b, 'o) channel_manager) outcome" where
  "ch_RegisterDebugLogFilter s =
     and_then (ch_RegisterPublishFilter ''debug_log'' debug_log_filter s)
       (ch_RegisterSubscribeFilter ''debug_log'' debug_log_filter)"

text \<open>A call of the backend manager that must not throw.\<close>

fun on_bm ::
  "(('m, 'v) channel_backend_manager \<Rightarrow> (cm_error, ('m, 'v) channel_backend_manager) outcome) \<Rightarrow>
   ('m, 'v, 'b, 'o) channel_manager \<Rightarrow> (config_error, ('m, 'v, 'b, 'o) channel_manager) outcome" where
  "on_bm f s = (case f (ch_bm s) of (err, bm) \<Rightarrow> (map_option (\<lambda>_. CfgBackendManager) err, s\<lparr>ch_bm := bm\<rparr>))"

definition register_cb :: "string \<Rightarrow> ('m, 'v) channel_backend_manager \<Rightarrow> ('m, 'v) channel_backend_manager option" where
  "register_cb t bm = (case cm_RegisterChannelBackend t bm of (None, bm) \<Rightarrow> Some bm | (Some _, _) \<Rightarrow> None)"

text \<open>\<open>Initialize\<close> behind the decoding of the options.\<close>

definition ch_init_options ::
  "('b, 'o) backend_class \<Rightarrow> ('m, 'v, 'b, 'o) channel_manager \<Rightarrow> (config_error, ('m, 'v, 'b, 'o) channel_manager) outcome" where
  "ch_init_options bc s =
     and_then (on_bm (cm_SetChannelRegistry new_channel_registry) s) (\<lambda>s.
     and_then (on_bm (cm_SetPublishFrameworkAsyncChannelFilterManager (cm_publish_filters (ch_bm s))) s) (\<lambda>s.
     and_then (on_bm (cm_SetSubscribeFrameworkAsyncChannelFilterManager (cm_subscribe_filters (ch_bm s))) s) (\<lambda>s.
       case init_backends bc register_cb (co_backends (ch_options s)) (ch_backend_vec s, ch_used s, ch_bm s) of
         (err, bs, used, bm) \<Rightarrow>
           let s = s\<lparr>ch_backend_vec := bs, ch_used := used, ch_bm := bm\<rparr>;
               names = map (\<lambda>i. bc_name bc (bs ! i)) used
           in case err of
             Some e \<Rightarrow> (Some e, s)
           | None \<Rightarrow>
               (case check_rules names (co_pub_topics (ch_options s)) of
                  Some e \<Rightarrow> (Some e, s)
                | None \<Rightarrow>
                    and_then (on_bm (cm_SetPubTopicsBackendsRules (backends_rules (co_pub_topics (ch_options s)))) s) (\<lambda>s.
                    and_then (on_bm (cm_SetPublishFiltersRules (filters_rules (co_pub_topics (ch_options s)))) s) (\<lambda>s.
                      case check_rules names (co_sub_topics (ch_options s)) of
                        Some e \<Rightarrow> (Some e, s)
                      | None \<Rightarrow>
                          and_then (on_bm (cm_SetSubTopicsBackendsRules (backends_rules (co_sub_topics (ch_options s)))) s) (\<lambda>s.
                          and_then (on_bm (cm_SetSubscribeFiltersRules (filters_rules (co_sub_topics (ch_options s)))) s)
                            (on_bm (cm_Initialize ())))))))))"

definition ch_Initialize ::
  "('b, 'o) backend_class \<Rightarrow> 'o channel_node option \<Rightarrow> ('m, 'v, 'b, 'o) channel_manager \<Rightarrow>
   (config_error, ('m, 'v, 'b, 'o) channel_manager) outcome" where
  "ch_Initialize bc options_node s =
     and_then (ch_RegisterChannelBackend (bc_local bc) s) (\<lambda>s.
     and_then (ch_RegisterDebugLogFilter s) (\<lambda>s.
       let (old, new) = atomic_exchange (ch_state s) kInit; s = s\<lparr>ch_state := new\<rparr> in
       if old \<noteq> kPreInit then (Some CfgInitializedTwice, s)
       else case (case options_node of None \<Rightarrow> Some (ch_options s) | Some node \<Rightarrow> channel_decode node) of
         None \<Rightarrow> (Some CfgBadNode, s)
       | Some opts \<Rightarrow> ch_init_options bc (s\<lparr>ch_options := opts\<rparr>)))"

definition ch_Start ::
  "('m, 'v, 'b, 'o) channel_manager \<Rightarrow> (config_error, ('m, 'v, 'b, 'o) channel_manager) outcome" where
  "ch_Start s =
     (let (old, new) = atomic_exchange (ch_state s) kStart; s = s\<lparr>ch_state := new\<rparr> in
      if old \<noteq> kInit then (Some CfgNotInit, s)
      else and_then (on_bm cm_Start s) (\<lambda>s. (None, s\<lparr>ch_start_flag := True\<rparr>)))"

text \<open>
  The proxies, the backends and the registry are destroyed; the backend manager keeps the address
  of the registry but never reads it again.
\<close>

definition ch_Shutdown :: "('m, 'v, 'b, 'o) channel_manager \<Rightarrow> ('m, 'v, 'b, 'o) channel_manager" where
  "ch_Shutdown s =
     (let (old, new) = atomic_exchange (ch_state s) kShutdown; s = s\<lparr>ch_state := new\<rparr> in
      if old = kShutdown then s
      else
        let bm = cm_Shutdown (ch_bm s);
            bm = bm\<lparr>cm_registry := new_channel_registry,
                    cm_subscribe_filters := Clear (cm_subscribe_filters bm),
                    cm_publish_filters := Clear (cm_publish_filters bm)\<rparr>
        in s\<lparr>ch_proxies := [], ch_bm := bm, ch_backend_vec := []\<rparr>)"

section \<open>Handles of modules\<close>

definition GetChannelHandleProxy ::
  "string \<Rightarrow> string \<Rightarrow> ('m, 'v, 'b, 'o) channel_manager \<Rightarrow> (config_error, ('m, 'v, 'b, 'o) channel_manager) outcome" where
  "GetChannelHandleProxy name pkg_path s =
     (if ch_state s \<noteq> kInit then (Some CfgNotInit, s)
      else case map_of (ch_proxies s) name of
        Some _ \<Rightarrow> (None, s)
      | None \<Rightarrow>
          (None, s\<lparr>ch_proxies := ch_proxies s @ [(name, \<lparr>hp_pkg_path = pkg_path, hp_publishers = [], hp_subscribers = []\<rparr>)]\<rparr>))"

text \<open>Whether a handle is returned; after the start only those made before are.\<close>

definition GetPublisher :: "string \<Rightarrow> string \<Rightarrow> ('m, 'v, 'b, 'o) channel_manager \<Rightarrow> bool \<times> ('m, 'v, 'b, 'o) channel_manager" where
  "GetPublisher name topic s =
     (case map_of (ch_proxies s) name of
        None \<Rightarrow> (False, s)
      | Some hp \<Rightarrow>
          if topic \<in> set (hp_publishers hp) then (True, s)
          else if ch_start_flag s then (False, s)
          else (True, s\<lparr>ch_proxies := AList.update name (hp\<lparr>hp_publishers := hp_publishers hp @ [topic]\<rparr>) (ch_proxies s)\<rparr>))"

definition GetSubscriber :: "string \<Rightarrow> string \<Rightarrow> ('m, 'v, 'b, 'o) channel_manager \<Rightarrow> bool \<times> ('m, 'v, 'b, 'o) channel_manager" where
  "GetSubscriber name topic s =
     (case map_of (ch_proxies s) name of
        None \<Rightarrow> (False, s)
      | Some hp \<Rightarrow>
          if topic \<in> set (hp_subscribers hp) then (True, s)
          else if ch_start_flag s then (False, s)
          else (True, s\<lparr>ch_proxies := AList.update name (hp\<lparr>hp_subscribers := hp_subscribers hp @ [topic]\<rparr>) (ch_proxies s)\<rparr>))"

text \<open>What a module does with its handles; without the handle there is nothing to call.\<close>

definition with_handle ::
  "(channel_handle_proxy \<Rightarrow> string list) \<Rightarrow> string \<Rightarrow> string \<Rightarrow> ('m, 'v, 'b, 'o) channel_manager \<Rightarrow> string option" where
  "with_handle topics name topic s =
     (case map_of (ch_proxies s) name of
        None \<Rightarrow> None
      | Some hp \<Rightarrow> if topic \<in> set (topics hp) then Some (hp_pkg_path hp) else None)"

definition publisher_RegisterPublishType ::
  "'m env \<Rightarrow> string \<Rightarrow> string \<Rightarrow> 'm type_support option \<Rightarrow> ('m, 'v, 'b, 'o) channel_manager \<Rightarrow>
   (filter_error, bool) result option \<times> ('m, 'v, 'b, 'o) channel_manager" where
  "publisher_RegisterPublishType env name topic ts s =
     (case with_handle hp_publishers name topic s of
        None \<Rightarrow> (None, s)
      | Some pkg_path \<Rightarrow>
          (case cm_RegisterPublishType_proxy env
             \<lparr>px_msg_type_support = ts, px_callback_null = False, px_topic_name = topic, px_pkg_path = pkg_path,
              px_module_name = name\<rparr> (ch_bm s) of
             (r, bm) \<Rightarrow> (Some r, s\<lparr>ch_bm := bm\<rparr>)))"

definition subscriber_Subscribe ::
  "'m env \<Rightarrow> string \<Rightarrow> string \<Rightarrow> 'm type_support option \<Rightarrow> bool \<Rightarrow> ('m, 'v, 'b, 'o) channel_manager \<Rightarrow>
   (filter_error, bool) result option \<times> ('m, 'v, 'b, 'o) channel_manager" where
  "subscriber_Subscribe env name topic ts callback_null s =
     (case with_handle hp_subscribers name topic s of
        None \<Rightarrow> (None, s)
      | Some pkg_path \<Rightarrow>
          (case cm_Subscribe_proxy env
             \<lparr>px_msg_type_support = ts, px_callback_null = callback_null, px_topic_name = topic, px_pkg_path = pkg_path,
              px_module_name = name\<rparr> (ch_bm s) of
             (r, bm) \<Rightarrow> (Some r, s\<lparr>ch_bm := bm\<rparr>)))"

definition publisher_Publish ::
  "nat \<Rightarrow> string \<Rightarrow> string \<Rightarrow> string \<Rightarrow> channel_context \<Rightarrow> 'm \<Rightarrow> ('m, 'v, 'b, 'o) channel_manager \<Rightarrow>
   ('m publish_log \<times> channel_context \<times> ('m, 'v, 'b, 'o) channel_manager) option" where
  "publisher_Publish now name topic msg_type cx msg s =
     (case with_handle hp_publishers name topic s of
        None \<Rightarrow> None
      | Some pkg_path \<Rightarrow>
          (case cm_Publish_proxy now
             \<lparr>pp_msg_type = msg_type, pp_topic_name = topic, pp_pkg_path = pkg_path, pp_module_name = name, pp_msg = msg,
              pp_ctx = cx\<rparr> (ch_bm s) of
             (log, cx, bm) \<Rightarrow> Some (log, cx, s\<lparr>ch_bm := bm\<rparr>)))"

definition MergeSubscribeContextToPublishContext :: "string list \<Rightarrow> channel_context \<Rightarrow> channel_context \<Rightarrow> channel_context" where
  "MergeSubscribeContextToPublishContext passed_context_meta_keys subscribe_ctx publish_ctx =
     (if cx_publisher subscribe_ctx \<or> \<not> cx_publisher publish_ctx then publish_ctx
      else fold (\<lambda>key cx. let val = GetMetaValue key subscribe_ctx in if val \<noteq> [] then SetMetaValue key val cx else cx)
             passed_context_meta_keys publish_ctx)"

datatype 'm module_act =
    AskHandle string string | AskPublisher string string | AskSubscriber string string
  | DoRegister string string "'m type_support option" | DoSubscribe string string "'m type_support option" bool

fun module_step ::
  "'m env \<Rightarrow> 'm module_act \<Rightarrow> ('m, 'v, 'b, 'o) channel_manager \<Rightarrow> ('m, 'v, 'b, 'o) channel_manager" where
  "module_step env (AskHandle name pkg) s = snd (GetChannelHandleProxy name pkg s)"
| "module_step env (AskPublisher name topic) s = snd (GetPublisher name topic s)"
| "module_step env (AskSubscriber name topic) s = snd (GetSubscriber name topic s)"
| "module_step env (DoRegister name topic ts) s = snd (publisher_RegisterPublishType env name topic ts s)"
| "module_step env (DoSubscribe name topic ts null) s = snd (subscriber_Subscribe env name topic ts null s)"

section \<open>What the handles keep\<close>

lemma fold_merge:
  "GetMetaValue k (fold (\<lambda>key cx. let val = GetMetaValue key from in if val \<noteq> [] then SetMetaValue key val cx else cx) keys cx) =
     (if k \<in> set keys \<and> GetMetaValue k from \<noteq> [] then GetMetaValue k from else GetMetaValue k cx)"
  by (induction keys arbitrary: cx) (auto simp: Let_def SetMetaValue_get)

text \<open>Only the configured keys pass from a received message to one published because of it.\<close>

lemma merge_passes_keys:
  assumes "\<not> cx_publisher sub" "cx_publisher pub"
  shows "GetMetaValue k (MergeSubscribeContextToPublishContext keys sub pub) =
     (if k \<in> set keys \<and> GetMetaValue k sub \<noteq> [] then GetMetaValue k sub else GetMetaValue k pub)"
  using assms by (simp add: MergeSubscribeContextToPublishContext_def fold_merge)

lemma module_step_bm: "\<exists>ops. ch_bm (module_step env a s) = fold (reg_step env) ops (ch_bm s)"
proof (cases a)
  case (DoRegister name topic ts)
  then show ?thesis
  proof (cases "with_handle hp_publishers name topic s")
    case (Some pkg)
    show ?thesis
      by (rule fold_one [where op = "RegPublishProxy \<lparr>px_msg_type_support = ts, px_callback_null = False, px_topic_name = topic,
            px_pkg_path = pkg, px_module_name = name\<rparr>"])
        (simp add: DoRegister Some publisher_RegisterPublishType_def split: prod.splits)
  qed (auto simp: publisher_RegisterPublishType_def intro: fold_none)
next
  case (DoSubscribe name topic ts null)
  then show ?thesis
  proof (cases "with_handle hp_subscribers name topic s")
    case (Some pkg)
    show ?thesis
      by (rule fold_one [where op = "RegSubscribeProxy \<lparr>px_msg_type_support = ts, px_callback_null = null, px_topic_name = topic,
            px_pkg_path = pkg, px_module_name = name\<rparr>"])
        (simp add: DoSubscribe Some subscriber_Subscribe_def split: prod.splits)
  qed (auto simp: subscriber_Subscribe_def intro: fold_none)
qed (auto simp: GetChannelHandleProxy_def GetPublisher_def GetSubscriber_def split: option.splits intro: fold_none)

lemma module_steps_bm: "\<exists>ops. ch_bm (fold (module_step env) acts s) = fold (reg_step env) ops (ch_bm s)"
  by (rule folds_as [where p = ch_bm, OF module_step_bm])

section \<open>What a successful initialisation sets up\<close>

text \<open>A manager that plugins may have given backends and filters, but that nobody has initialised.\<close>

definition ch_fresh :: "('m, 'v, 'b, 'o) channel_manager \<Rightarrow> bool" where
  "ch_fresh s \<longleftrightarrow> ch_state s = kPreInit \<and> \<not> ch_start_flag s \<and> ch_used s = [] \<and> ch_proxies s = [] \<and>
     cm_state (ch_bm s) = kPreInit \<and> cm_backends (ch_bm s) = [] \<and> cm_calls (ch_bm s) = [] \<and>
     cm_pub_backend_index (ch_bm s) = (\<lambda>_. None) \<and>
     fm_ok (cm_publish_filters (ch_bm s)) \<and> (\<forall>t. GetFilterNameVec t (cm_publish_filters (ch_bm s)) = [])"

lemma register_cbs:
  assumes "cm_state bm = kPreInit"
  shows "fold (\<lambda>t s. Option.bind s (register_cb t)) ts (Some bm) = Some (bm\<lparr>cm_backends := cm_backends bm @ ts\<rparr>)"
  using assms
  by (induction ts arbitrary: bm) (simp_all add: register_cb_def cm_RegisterChannelBackend_def pre_init_def)

lemmas cm_setters = cm_SetChannelRegistry_def cm_SetPublishFrameworkAsyncChannelFilterManager_def
  cm_SetSubscribeFrameworkAsyncChannelFilterManager_def cm_SetPublishFiltersRules_def cm_SetSubscribeFiltersRules_def
  cm_SetPubTopicsBackendsRules_def cm_SetSubTopicsBackendsRules_def pre_init_def

lemma ch_init_options_ok:
  assumes "ch_init_options bc s = (None, s')" "keeps_name bc" "cm_state (ch_bm s) = kPreInit" "ch_used s = []"
  defines "o' \<equiv> ch_options s"
  shows "ch_bm s' = (ch_bm s)\<lparr>cm_registry := new_channel_registry, cm_backends := cm_backends (ch_bm s) @ map fst (co_backends o'),
      cm_pub_topics_backends_rules := backends_rules (co_pub_topics o'), cm_publish_filters_rules := filters_rules (co_pub_topics o'),
      cm_sub_topics_backends_rules := backends_rules (co_sub_topics o'), cm_subscribe_filters_rules := filters_rules (co_sub_topics o'),
      cm_state := kInit\<rparr>"
    and "check_rules (map fst (co_backends o')) (co_pub_topics o') = None"
    and "ch_start_flag s' = ch_start_flag s" "ch_state s' = ch_state s"
proof -
  let ?bm1 = "(ch_bm s)\<lparr>cm_registry := new_channel_registry\<rparr>"
  obtain err bs used bm where ib: "init_backends bc register_cb (co_backends o') (ch_backend_vec s, ch_used s, ?bm1) = (err, bs, used, bm)"
    by (metis prod_cases4)
  have err: "err = None" using assms(1,3) ib unfolding o'_def
    by (auto simp: ch_init_options_def cm_setters Let_def split: option.splits)
  note ok = init_backends_ok [OF ib [unfolded err] assms(2)] and names = init_backends_names [OF ib [unfolded err assms(4)] assms(2)]
  have bm: "bm = ?bm1\<lparr>cm_backends := cm_backends (ch_bm s) @ map fst (co_backends o')\<rparr>"
    using ok register_cbs [of ?bm1 "map fst (co_backends o')"] assms(3) by simp
  have sub: "check_rules (map fst (co_backends o')) (co_pub_topics o') = None"
    "check_rules (map fst (co_backends o')) (co_sub_topics o') = None"
    using assms(1,3) ib bm unfolding o'_def [symmetric]
    by (auto simp: ch_init_options_def cm_setters Let_def err names and_then_None o'_def [symmetric] split: option.splits)
  have "s' = s\<lparr>ch_backend_vec := bs, ch_used := used, ch_bm := (ch_bm s)\<lparr>cm_registry := new_channel_registry,
      cm_backends := cm_backends (ch_bm s) @ map fst (co_backends o'),
      cm_pub_topics_backends_rules := backends_rules (co_pub_topics o'), cm_publish_filters_rules := filters_rules (co_pub_topics o'),
      cm_sub_topics_backends_rules := backends_rules (co_sub_topics o'), cm_subscribe_filters_rules := filters_rules (co_sub_topics o'),
      cm_state := kInit\<rparr>\<rparr>"
    using assms(1,3) ib bm sub unfolding o'_def [symmetric]
    by (auto simp: ch_init_options_def cm_setters Let_def err names o'_def [symmetric] cm_Initialize_def atomic_exchange_def)
  then show "ch_bm s' = (ch_bm s)\<lparr>cm_registry := new_channel_registry, cm_backends := cm_backends (ch_bm s) @ map fst (co_backends o'),
      cm_pub_topics_backends_rules := backends_rules (co_pub_topics o'), cm_publish_filters_rules := filters_rules (co_pub_topics o'),
      cm_sub_topics_backends_rules := backends_rules (co_sub_topics o'), cm_subscribe_filters_rules := filters_rules (co_sub_topics o'),
      cm_state := kInit\<rparr>" "check_rules (map fst (co_backends o')) (co_pub_topics o') = None"
    "ch_start_flag s' = ch_start_flag s" "ch_state s' = ch_state s"
    using sub by simp_all
qed

lemma ch_register_ok:
  assumes "ch_RegisterChannelBackend b s = (None, s1)" "ch_RegisterDebugLogFilter s1 = (None, s2)" "ch_fresh s"
  shows "ch_fresh s2" "ch_options s2 = ch_options s"
proof -
  have s1: "s1 = s\<lparr>ch_backend_vec := ch_backend_vec s @ [b]\<rparr>"
    using assms(1,3) by (auto simp: ch_RegisterChannelBackend_def ch_pre_init_def split: if_splits)
  obtain fp fs where f: "RegisterFilter ''debug_log'' debug_log_filter (cm_publish_filters (ch_bm s)) = Inr fp"
    "RegisterFilter ''debug_log'' debug_log_filter (cm_subscribe_filters (ch_bm s)) = Inr fs"
    "s2 = s1\<lparr>ch_bm := (ch_bm s)\<lparr>cm_publish_filters := fp, cm_subscribe_filters := fs\<rparr>\<rparr>"
    using assms(2,3) by (auto simp: s1 ch_RegisterDebugLogFilter_def ch_RegisterPublishFilter_def ch_RegisterSubscribeFilter_def
        ch_pre_init_def ch_fresh_def and_then_None split: sum.splits)
  have "fm_ok fp" using RegisterFilter_ok f(1) assms(3) unfolding ch_fresh_def by blast
  moreover have "GetFilterNameVec t fp = GetFilterNameVec t (cm_publish_filters (ch_bm s))" for t
    using f(1) by (auto simp: RegisterFilter_def GetFilterNameVec_def split: option.splits)
  ultimately show "ch_fresh s2" "ch_options s2 = ch_options s" using assms(3) by (auto simp: f(3) s1 ch_fresh_def)
qed

lemma ch_Initialize_ok:
  assumes "ch_Initialize bc (Some node) s0 = (None, s1)" "channel_decode node = Some opts" "ch_fresh s0" "keeps_name bc"
  shows "cm_fresh (ch_bm s1)" "cm_state (ch_bm s1) = kInit" "cm_backends (ch_bm s1) = map fst (co_backends opts)"
    "cm_pub_topics_backends_rules (ch_bm s1) = backends_rules (co_pub_topics opts)"
    "cm_publish_filters_rules (ch_bm s1) = filters_rules (co_pub_topics opts)"
    "check_rules (map fst (co_backends opts)) (co_pub_topics opts) = None"
proof -
  obtain a b where ab: "ch_RegisterChannelBackend (bc_local bc) s0 = (None, a)" "ch_RegisterDebugLogFilter a = (None, b)"
    and init: "ch_init_options bc (b\<lparr>ch_state := kInit, ch_options := opts\<rparr>) = (None, s1)"
    using assms(1,2) by (auto simp: ch_Initialize_def and_then_None Let_def atomic_exchange_def split: if_splits)
  have f: "ch_fresh b" by (rule ch_register_ok [OF ab assms(3)])
  note ok = ch_init_options_ok [OF init assms(4)]
  show "cm_fresh (ch_bm s1)" "cm_state (ch_bm s1) = kInit" "cm_backends (ch_bm s1) = map fst (co_backends opts)"
    "cm_pub_topics_backends_rules (ch_bm s1) = backends_rules (co_pub_topics opts)"
    "cm_publish_filters_rules (ch_bm s1) = filters_rules (co_pub_topics opts)"
    "check_rules (map fst (co_backends opts)) (co_pub_topics opts) = None"
    using ok f by (simp_all add: ch_fresh_def cm_fresh_def)
qed

text \<open>The manager follows the life cycle all parts of the core share.\<close>

lemma on_bm_state [simp]: "ch_state (snd (on_bm f s)) = ch_state s"
  by (auto split: prod.splits)

lemma on_bm_keeps: "on_bm f s = (e, s') \<Longrightarrow> ch_state s' = ch_state s"
  using on_bm_state [of f s] by simp

lemma ch_init_options_snd: "ch_state (snd (ch_init_options bc s)) = ch_state s"
  unfolding ch_init_options_def Let_def
  by (intro and_then_keeps [where p = ch_state]) (auto intro!: and_then_keeps [where p = ch_state]
      split: prod.splits option.splits simp del: on_bm.simps)

lemma ch_init_options_state: "ch_init_options bc s = (e, s') \<Longrightarrow> ch_state s' = ch_state s"
  using ch_init_options_snd [of bc s] by simp

lemma ch_register_state:
  "ch_RegisterChannelBackend b s = (None, s') \<Longrightarrow> ch_state s = kPreInit \<and> ch_state s' = kPreInit"
  "ch_RegisterChannelBackend b s = (Some e, s') \<Longrightarrow> s' = s"
  "ch_RegisterDebugLogFilter s = (r, s') \<Longrightarrow> ch_state s' = ch_state s"
  by (auto simp: ch_RegisterChannelBackend_def ch_RegisterDebugLogFilter_def ch_RegisterPublishFilter_def ch_RegisterSubscribeFilter_def ch_pre_init_def split: if_splits sum.splits)

interpretation ch: lifecycle ch_state "ch_Initialize bc" ch_Start ch_Shutdown for bc
proof
  fix a s e s'
  show "ch_Initialize bc a s = (None, s') \<Longrightarrow> ch_state s = kPreInit \<and> ch_state s' = kInit"
    by (auto simp: ch_Initialize_def and_then_None Let_def atomic_exchange_def
        dest!: ch_register_state ch_init_options_state split: if_splits option.splits)
  show "ch_Initialize bc a s = (Some e, s') \<Longrightarrow> ch_state s' \<in> {ch_state s, kInit}"
    by (auto simp: ch_Initialize_def and_then_Some Let_def atomic_exchange_def
        dest!: ch_register_state ch_init_options_state split: if_splits option.splits)
qed (auto simp: ch_Start_def ch_Shutdown_def Let_def atomic_exchange_def and_then_None and_then_Some
    dest!: on_bm_keeps simp del: on_bm.simps split: if_splits)

section \<open>From the configuration to the backends\<close>

text \<open>
  C5. After a successful initialisation from a configuration, whatever the modules then ask of
  the manager and register through their handles, and after a successful start, a message
  published through a handle on a registered topic goes, through the filters that the first
  matching option of the topic names, to exactly the backends that option names, every one
  of which has been initialised: no configured backend is dropped, none is added.
\<close>

theorem configured_topic_reaches_its_backends:
  assumes "ch_fresh s0" "keeps_name bc" "ch_Initialize bc (Some node) s0 = (None, s1)" "channel_decode node = Some opts"
    and "s2 = fold (module_step env) acts s1" "ch_Start s2 = (None, s)"
    and "with_handle hp_publishers name topic s = Some pkg"
    and "GetPublishTypeWrapperPtr ty topic pkg name (cm_registry (ch_bm s)) = Some pw"
    and "cx_publisher cx" "\<not> cx_used cx" "publisher_Publish now name topic ty cx msg s = Some (log, cx', s')"
    and "filters = deciding_rule (en_regex_match env) topic (filters_rules (co_pub_topics opts))"
    and "backends = deciding_rule (en_regex_match env) topic (backends_rules (co_pub_topics opts))"
    and "w = \<lparr>mw_info = pw_info pw, mw_msg = Some msg, mw_ctx = cx', mw_cache = [], mw_msg_cache = None\<rparr>"
  shows "log = chain (rev (lookup_all (fm_filter_map (cm_publish_filters (ch_bm s))) filters)) (send_to_backends (ch_bm s')) w [] \<and>
    send_to_backends (ch_bm s') w [] = map (\<lambda>b. (b, w)) backends \<and> set backends \<subseteq> set (map fst (co_backends opts))"
proof -
  note init = ch_Initialize_ok [OF assms(3,4,1,2)]
  obtain ops where ops: "ch_bm s2 = fold (reg_step env) ops (ch_bm s1)" unfolding assms(5) using module_steps_bm by blast
  obtain bm where bm: "cm_Start (ch_bm s2) = (None, bm)" "ch_bm s = bm"
    using assms(6) by (auto simp: ch_Start_def Let_def atomic_exchange_def and_then_None split: if_splits prod.splits)
  note fr = cm_Start_frame [OF bm(1)]
  have "cm_inv env (ch_bm s2)" unfolding ops by (intro reg_steps_inv cm_fresh_inv init(1))
  then have inv: "cm_inv env (ch_bm s)" unfolding bm(2) cm_inv_def topic_backends_def fr(2-) .
  have same: "same_rules (ch_bm s1) (ch_bm s2)" unfolding ops by (rule reg_steps_same_rules)
  let ?pp = "\<lparr>pp_msg_type = ty, pp_topic_name = topic, pp_pkg_path = pkg, pp_module_name = name, pp_msg = msg, pp_ctx = cx\<rparr>"
  have call: "cm_Publish_proxy now ?pp (ch_bm s) = (log, cx', ch_bm s')"
    using assms(7,11) by (auto simp: publisher_Publish_def split: prod.splits)
  have rules: "cm_publish_filters_rules (ch_bm s) = filters_rules (co_pub_topics opts)"
    "cm_pub_topics_backends_rules (ch_bm s) = backends_rules (co_pub_topics opts)" "cm_backends (ch_bm s) = map fst (co_backends opts)"
    using same init(3-5) by (simp_all add: bm(2) fr same_rules_def)
  have sub: "set backends \<subseteq> set (map fst (co_backends opts))"
    unfolding assms(13) by (rule check_rules_None [OF init(6)])
  have tb: "topic_backends env (ch_bm s) topic = backends"
    unfolding topic_backends_def rules assms(13) [symmetric] using sub by (auto intro: filter_True)
  have st: "cm_state (ch_bm s) = kStart" by (simp add: bm(2) fr)
  show ?thesis
    using started_publish(1,2) [OF inv st, of ?pp pw now log cx' "ch_bm s'" filters w] call assms(8-10,12,14) rules(1) tb sub
    by simp
qed

text \<open>What a failed initialisation leaves: the backend manager is not initialised.\<close>

definition not_ready :: "('m, 'v, 'b, 'o) channel_manager \<Rightarrow> bool" where
  "not_ready s \<longleftrightarrow> cm_state (ch_bm s) = kPreInit \<and> cm_calls (ch_bm s) = [] \<and> \<not> ch_start_flag s"

lemma ch_init_options_fails:
  assumes "ch_init_options bc s = (Some e, s')" "not_ready s"
  shows "not_ready s'"
proof -
  let ?bm1 = "(ch_bm s)\<lparr>cm_registry := new_channel_registry\<rparr>"
  obtain err bs used bm where ib: "init_backends bc register_cb (co_backends (ch_options s)) (ch_backend_vec s, ch_used s, ?bm1) = (err, bs, used, bm)"
    by (metis prod_cases4)
  have "cm_state bm = kPreInit \<and> cm_calls bm = []"
    by (rule init_backends_keeps [OF ib]) (use assms(2) in \<open>auto simp: not_ready_def register_cb_def cm_RegisterChannelBackend_def pre_init_def
        split: prod.splits option.splits if_splits\<close>)
  then show ?thesis using assms ib
    by (auto simp: ch_init_options_def cm_setters not_ready_def Let_def cm_Initialize_def atomic_exchange_def split: option.splits)
qed

text \<open>
  When the configuration is refused, at whatever point, a start that is tried nevertheless
  is refused too: no backend is started and the handles never leave the stage of registration.
\<close>

theorem refused_config_never_starts:
  assumes "ch_fresh s0" "ch_Initialize bc node s0 = (Some e, s1)"
  shows "fst (ch_Start s1) \<noteq> None \<and> cm_calls (ch_bm (snd (ch_Start s1))) = [] \<and> \<not> ch_start_flag (snd (ch_Start s1))"
proof -
  have n0: "not_ready s0" using assms(1) by (simp add: ch_fresh_def not_ready_def)
  have "not_ready s1"
  proof (cases "\<exists>a. ch_RegisterChannelBackend (bc_local bc) s0 = (None, a) \<and> (\<exists>b. ch_RegisterDebugLogFilter a = (None, b))")
    case True
    then obtain a b where ab: "ch_RegisterChannelBackend (bc_local bc) s0 = (None, a)" "ch_RegisterDebugLogFilter a = (None, b)" by blast
    have f: "ch_fresh b" by (rule ch_register_ok [OF ab assms(1)])
    then have "not_ready (b\<lparr>ch_state := kInit\<rparr>)" "not_ready (b\<lparr>ch_state := kInit, ch_options := opts\<rparr>)" for opts
      by (simp_all add: ch_fresh_def not_ready_def)
    moreover have "s1 = b\<lparr>ch_state := kInit\<rparr> \<or> (\<exists>opts. ch_init_options bc (b\<lparr>ch_state := kInit, ch_options := opts\<rparr>) = (Some e, s1))"
      using assms(2) ab f by (auto simp: ch_Initialize_def Let_def atomic_exchange_def ch_fresh_def split: option.splits)
    ultimately show ?thesis using ch_init_options_fails [of bc _ e s1] by blast
  next
    case False
    then have "ch_bm s1 = ch_bm s0 \<and> ch_start_flag s1 = ch_start_flag s0 \<or> (\<exists>fp. ch_bm s1 = (ch_bm s0)\<lparr>cm_publish_filters := fp\<rparr> \<and> ch_start_flag s1 = ch_start_flag s0)"
      using assms by (auto simp: ch_Initialize_def and_then_Some ch_RegisterDebugLogFilter_def ch_RegisterChannelBackend_def
          ch_RegisterPublishFilter_def ch_RegisterSubscribeFilter_def ch_pre_init_def ch_fresh_def split: sum.splits if_splits)
    then show ?thesis using n0 by (auto simp: not_ready_def)
  qed
  then show ?thesis
    by (auto simp: ch_Start_def not_ready_def Let_def atomic_exchange_def cm_Start_def)
qed

section \<open>An example\<close>

text \<open>A configuration with the local backend for every topic, and a module that registers a publisher.\<close>

definition local_class :: "(local_channel_backend, lcb_node) backend_class" where
  "local_class = \<lparr>bc_name = (\<lambda>_. ''local''), bc_initialize = (\<lambda>opts b. case lcb_Initialize opts b of (e, b') \<Rightarrow> (e = None, b')),
     bc_local = new_local_channel_backend\<rparr>"

definition new_channel_manager :: "(nat, unit, local_channel_backend, lcb_node) channel_manager" where
  "new_channel_manager =
     \<lparr>ch_options = \<lparr>co_backends = [], co_pub_topics = [], co_sub_topics = []\<rparr>, ch_state = kPreInit, ch_passed_context_meta_keys = [],
      ch_backend_vec = [], ch_used = [],
      ch_bm = demo_manager\<lparr>cm_state := kPreInit, cm_pub_topics_backends_rules := [], cm_backends := []\<rparr>,
      ch_start_flag = False, ch_proxies = []\<rparr>"

definition local_node :: "string \<Rightarrow> lcb_node channel_node" where
  "local_node backend =
     \<lparr>cn_pub_topics = Some [\<lparr>tn_name = Some ''(.*)'', tn_enable_backends = Some [backend], tn_enable_filters = None\<rparr>],
      cn_sub_topics = None, cn_backends = Some [(Some ''local'', None)]\<rparr>"

definition module_acts :: "nat module_act list" where
  "module_acts = [AskHandle ''m'' ''p'', AskPublisher ''m'' ''t'', DoRegister ''m'' ''t'' (Some number_support)]"

lemma new_channel_manager_fresh: "ch_fresh new_channel_manager"
  by (simp add: ch_fresh_def new_channel_manager_def demo_manager_def fm_ok_new GetFilterNameVec_def new_filter_manager_def
      fm_ok_new [unfolded new_filter_manager_def])

lemma local_class_keeps_name: "keeps_name local_class"
  by (simp add: keeps_name_def local_class_def)

lemma local_node_decode:
  "channel_decode (local_node b) = Some \<lparr>co_backends = [(''local'', None)],
     co_pub_topics = [\<lparr>to_name = ''(.*)'', to_enable_backends = [b], to_enable_filters = []\<rparr>], co_sub_topics = []\<rparr>"
  by (simp add: channel_decode_def local_node_def decode_seq_def decode_backend_def decode_topic_def)

lemmas config_evals = ch_Initialize_def ch_RegisterChannelBackend_def ch_RegisterDebugLogFilter_def ch_RegisterPublishFilter_def
  ch_RegisterSubscribeFilter_def ch_pre_init_def RegisterFilter_def new_channel_manager_def demo_manager_def new_filter_manager_def
  local_node_decode atomic_exchange_def ch_init_options_def cm_setters register_cb_def cm_RegisterChannelBackend_def check_rules_def
  local_class_def lcb_Initialize_def new_local_channel_backend_def cm_Initialize_def backends_rules_def filters_rules_def

lemma local_init:
  obtains s1 where "ch_Initialize local_class (Some (local_node ''local'')) new_channel_manager = (None, s1)"
    "ch_state s1 = kInit" "ch_proxies s1 = []" "cm_state (ch_bm s1) = kInit" "\<not> ch_start_flag s1"
    "cm_publish_filters_rules (ch_bm s1) = [(''(.*)'', [])]" "cr_pub (cm_registry (ch_bm s1)) = (\<lambda>_. None)"
    "fm_collector_map (cm_publish_filters (ch_bm s1)) = (\<lambda>_. None)"
  by (simp add: config_evals Let_def new_channel_registry_def)

theorem configured_topic_reaches_its_backends_witness:
  "\<exists>(s :: (nat, unit, local_channel_backend, lcb_node) channel_manager) log cx' s' w.
    publisher_Publish 5 ''m'' ''t'' ''number'' \<lparr>cx_publisher = True, cx_used = False, cx_meta = []\<rparr> 7 s = Some (log, cx', s') \<and>
    log = [(''local'', w)]"
proof -
  obtain s1 where s1: "ch_Initialize local_class (Some (local_node ''local'')) new_channel_manager = (None, s1)"
    "ch_state s1 = kInit" "ch_proxies s1 = []" "cm_state (ch_bm s1) = kInit" "\<not> ch_start_flag s1"
    "cm_publish_filters_rules (ch_bm s1) = [(''(.*)'', [])]" "cr_pub (cm_registry (ch_bm s1)) = (\<lambda>_. None)"
    "fm_collector_map (cm_publish_filters (ch_bm s1)) = (\<lambda>_. None)" by (rule local_init)
  obtain s2 where s2: "s2 = fold (module_step demo_env) module_acts s1" by blast
  let ?info = "\<lparr>ti_msg_type = ''number'', ti_topic_name = ''t'', ti_pkg_path = ''p'', ti_module_name = ''m'',
      ti_index = cm_pub_topic_index (ch_bm s1) + 1, ti_support = number_support\<rparr>"
  let ?key = "\<lparr>k_msg_type = ''number'', k_topic_name = ''t'', k_pkg_path = ''p'', k_module_name = ''m''\<rparr>"
  have key: "info_key \<lparr>ti_msg_type = ''number'', ti_topic_name = ''t'', ti_pkg_path = ''p'', ti_module_name = ''m'',
      ti_index = i, ti_support = number_support\<rparr> = ?key" for i by (simp add: info_key_def)
  have name: "ts_name number_support = ''number''" by (simp add: number_support_def)
  have e: "ch_state s2 = kInit" "with_handle hp_publishers ''m'' ''t'' s2 = Some ''p''" "cm_state (ch_bm s2) = kInit"
    "cr_pub (cm_registry (ch_bm s2)) ?key = Some \<lparr>pw_info = ?info, pw_require = []\<rparr>"
    unfolding s2 module_acts_def
    using s1(2-8) by (auto simp: GetChannelHandleProxy_def GetPublisher_def publisher_RegisterPublishType_def with_handle_def
        cm_RegisterPublishType_proxy_def register_publish_wrapper_def Let_def demo_env_def CreateFilterCollectorIfNotExist_def
        CreateFilterCollector_def Registry.RegisterPublishType_def key name split: option.splits)
  obtain s where s: "s = snd (ch_Start s2)" by blast
  have start: "ch_Start s2 = (None, s)"
    using e(1,3) by (simp add: s ch_Start_def Let_def atomic_exchange_def cm_Start_def)
  have same: "with_handle hp_publishers ''m'' ''t'' s = Some ''p''" "cm_registry (ch_bm s) = cm_registry (ch_bm s2)" "cm_state (ch_bm s) = kStart"
    using e by (simp_all add: s ch_Start_def Let_def atomic_exchange_def cm_Start_def with_handle_def)
  have reg: "GetPublishTypeWrapperPtr ''number'' ''t'' ''p'' ''m'' (cm_registry (ch_bm s)) = Some \<lparr>pw_info = ?info, pw_require = []\<rparr>"
    using e(4) by (simp add: same GetPublishTypeWrapperPtr_def)
  let ?cx = "\<lparr>cx_publisher = True, cx_used = False, cx_meta = []\<rparr>"
  obtain log cx' bm where "cm_Publish_proxy 5 \<lparr>pp_msg_type = ''number'', pp_topic_name = ''t'', pp_pkg_path = ''p'',
      pp_module_name = ''m'', pp_msg = 7, pp_ctx = ?cx\<rparr> (ch_bm s) = (log, cx', bm)" by (rule prod_cases3)
  then obtain s' where call: "publisher_Publish 5 ''m'' ''t'' ''number'' ?cx 7 s = Some (log, cx', s')"
    by (simp add: publisher_Publish_def same(1))
  have cx: "cx_publisher ?cx" "\<not> cx_used ?cx" by simp_all
  have "deciding_rule (en_regex_match demo_env) ''t'' [(''(.*)'', [])] = []"
    "deciding_rule (en_regex_match demo_env) ''t'' [(''(.*)'', [''local''])] = [''local'']"
    by (simp_all add: deciding_rule_def demo_env_def)
  then have "\<exists>w. log = [(''local'', w)]"
    using configured_topic_reaches_its_backends [OF new_channel_manager_fresh local_class_keeps_name s1(1) local_node_decode
        s2 start same(1) reg cx call refl refl refl]
    by (simp add: backends_rules_def filters_rules_def)
  then show ?thesis using call by blast
qed

theorem refused_config_never_starts_witness:
  "\<exists>e s1. ch_Initialize local_class (Some (local_node ''mqtt'')) new_channel_manager = (Some e, s1) \<and> fst (ch_Start s1) \<noteq> None"
proof -
  obtain s1 where i: "ch_Initialize local_class (Some (local_node ''mqtt'')) new_channel_manager = (Some (CfgInvalidRule ''(.*)'' ''mqtt''), s1)"
    by (simp add: config_evals Let_def)
  from refused_config_never_starts [OF new_channel_manager_fresh i] i show ?thesis by blast
qed

end
