(* ===== verification/RpcConfig.thy ===== *)
theory RpcConfig
  imports BackendConfig RpcManager
begin

text \<open>
  The rpc manager (\<open>rpc_manager.cc\<close>) and the handles it gives to modules
  (\<open>rpc_handle_proxy.h\<close>): the twin of the channel manager, whose shared parts it takes from
  \<open>BackendConfig\<close>. It has no flag for the start: a handle passes every call on, and the backend
  manager refuses what comes at the wrong time. The filter managers and the registry live where
  the backend manager reaches them, in its own record.
\<close>

section \<open>The manager\<close>

text \<open>The yaml node, as a tree of optional fields; the items of clients and servers have the fields of topics.\<close>

record 'o rpc_node =
  qn_backends :: "'o backend_node list option"
  qn_clients :: "topic_node list option"
  qn_servers :: "topic_node list option"

record 'o rpc_options =
  qo_backends :: "(string \<times> 'o option) list"
  qo_clients :: "topic_options list"
  qo_servers :: "topic_options list"

record ('q, 'p, 'b, 'o) rpc_manager =
  rp_options :: "'o rpc_options"
  rp_state :: lc_state
  rp_passed_context_meta_keys :: "string list"
  rp_backend_vec :: "'b list"
  rp_used :: "nat list"
  rp_bm :: "('q, 'p) rpc_backend_manager"
  rp_proxies :: "(string \<times> string) list"

definition rpc_decode :: "'o rpc_node \<Rightarrow> 'o rpc_options option" where
  "rpc_decode node =
     Option.bind (decode_seq decode_backend (qn_backends node)) (\<lambda>bs.
       Option.bind (decode_seq decode_topic (qn_clients node)) (\<lambda>cs.
         map_option (\<lambda>ss. \<lparr>qo_backends = bs, qo_clients = cs, qo_servers = ss\<rparr>)
           (decode_seq decode_topic (qn_servers node))))"

definition rp_pre_init ::
  "(('q, 'p, 'b, 'o) rpc_manager \<Rightarrow> (config_error, ('q, 'p, 'b, 'o) rpc_manager) outcome) \<Rightarrow>
   ('q, 'p, 'b, 'o) rpc_manager \<Rightarrow> (config_error, ('q, 'p, 'b, 'o) rpc_manager) outcome" where
  "rp_pre_init f s = (if rp_state s \<noteq> kPreInit then (Some CfgNotPreInit, s) else f s)"

definition rp_RegisterRpcBackend ::
  "'b \<Rightarrow> ('q, 'p, 'b, 'o) rpc_manager \<Rightarrow> (config_error, ('q, 'p, 'b, 'o) rpc_manager) outcome" where
  "rp_RegisterRpcBackend b = rp_pre_init (\<lambda>s. (None, s\<lparr>rp_backend_vec := rp_backend_vec s @ [b]\<rparr>))"

type_synonym ('q, 'p) rpc_filter = "(('q, 'p) invoke_wrapper, ('q, 'p) rm_log) afilter"

definition rp_RegisterClientFilter ::
  "string \<Rightarrow> ('q, 'p) rpc_filter \<Rightarrow> ('q, 'p, 'b, 'o) rpc_manager \<Rightarrow> (config_error, ('q, 'p, 'b, 'o) rpc_manager) outcome" where
  "rp_RegisterClientFilter name f = rp_pre_init (\<lambda>s.
     case Rpc_RegisterFilter name f (rm_client_filters (rp_bm s)) of
       Inl e \<Rightarrow> (Some (CfgFilter e), s)
     | Inr fm \<Rightarrow> (None, s\<lparr>rp_bm := (rp_bm s)\<lparr>rm_client_filters := fm\<rparr>\<rparr>))"

definition rp_RegisterServerFilter ::
  "string \<Rightarrow> ('q, 'p) rpc_filter \<Rightarrow> ('q, 'p, 'b, 'o) rpc_manager \<Rightarrow> (config_error, ('q, 'p, 'b, 'o) rpc_manager) outcome" where
  "rp_RegisterServerFilter name f = rp_pre_init (\<lambda>s.
     case Rpc_RegisterFilter name f (rm_server_filters (rp_bm s)) of
       Inl e \<Rightarrow> (Some (CfgFilter e), s)
     | Inr fm \<Rightarrow> (None, s\<lparr>rp_bm := (rp_bm s)\<lparr>rm_server_filters := fm\<rparr>\<rparr>))"

definition rp_AddPassedContextMetaKeys ::
  "string list \<Rightarrow> ('q, 'p, 'b, 'o) rpc_manager \<Rightarrow> (config_error, ('q, 'p, 'b, 'o) rpc_manager) outcome" where
  "rp_AddPassedContextMetaKeys keys = rp_pre_init (\<lambda>s.
     (None, s\<lparr>rp_passed_context_meta_keys := fold List.insert keys (rp_passed_context_meta_keys s)\<rparr>))"

text \<open>
  The filter both sides get under \<open>debug_log\<close>: it serialises the request to print it and passes
  the call on. What it wraps around the callback prints the status and the response.
\<close>

definition rpc_debug_log_filter :: "('q, 'p) rpc_filter" where
  "rpc_debug_log_filter w v = Calls (snd (TrySerializeReqWithCache w ''json'')) v Ends"

definition rp_RegisterDebugLogFilter ::
  "('q, 'p, 'b, 'o) rpc_manager \<Rightarrow> (config_error, ('q, 'p, 'b, 'o) rpc_manager) outcome" where
  "rp_RegisterDebugLogFilter s =
     and_then (rp_RegisterClientFilter ''debug_log'' rpc_debug_log_filter s)
       (rp_RegisterServerFilter ''debug_log'' rpc_debug_log_filter)"

fun on_rm ::
  "(('q, 'p) rpc_backend_manager \<Rightarrow> (rm_error, ('q, 'p) rpc_backend_manager) outcome) \<Rightarrow>
   ('q, 'p, 'b, 'o) rpc_manager \<Rightarrow> (config_error, ('q, 'p, 'b, 'o) rpc_manager) outcome" where
  "on_rm f s = (case f (rp_bm s) of (err, bm) \<Rightarrow> (map_option (\<lambda>_. CfgBackendManager) err, s\<lparr>rp_bm := bm\<rparr>))"

definition register_rb :: "string \<Rightarrow> ('q, 'p) rpc_backend_manager \<Rightarrow> ('q, 'p) rpc_backend_manager option" where
  "register_rb t bm = (case rm_RegisterRpcBackend t bm of (None, bm) \<Rightarrow> Some bm | (Some _, _) \<Rightarrow> None)"

text \<open>\<open>Initialize\<close> behind the decoding of the options.\<close>

definition rp_init_options ::
  "('b, 'o) backend_class \<Rightarrow> ('q, 'p, 'b, 'o) rpc_manager \<Rightarrow> (config_error, ('q, 'p, 'b, 'o) rpc_manager) outcome" where
  "rp_init_options bc s =
     and_then (on_rm (rm_SetRpcRegistry new_rpc_registry) s) (\<lambda>s.
     and_then (on_rm (rm_SetClientFrameworkAsyncRpcFilterManager (rm_client_filters (rp_bm s))) s) (\<lambda>s.
     and_then (on_rm (rm_SetServerFrameworkAsyncRpcFilterManager (rm_server_filters (rp_bm s))) s) (\<lambda>s.
       case init_backends bc register_rb (qo_backends (rp_options s)) (rp_backend_vec s, rp_used s, rp_bm s) of
         (err, bs, used, bm) \<Rightarrow>
           let s = s\<lparr>rp_backend_vec := bs, rp_used := used, rp_bm := bm\<rparr>;
               names = map (\<lambda>i. bc_name bc (bs ! i)) used
           in case err of
             Some e \<Rightarrow> (Some e, s)
           | None \<Rightarrow>
               (case check_rules names (qo_clients (rp_options s)) of
                  Some e \<Rightarrow> (Some e, s)
                | None \<Rightarrow>
                    and_then (on_rm (rm_SetClientsBackendsRules (backends_rules (qo_clients (rp_options s)))) s) (\<lambda>s.
                    and_then (on_rm (rm_SetClientsFiltersRules (filters_rules (qo_clients (rp_options s)))) s) (\<lambda>s.
                      case check_rules names (qo_servers (rp_options s)) of
                        Some e \<Rightarrow> (Some e, s)
                      | None \<Rightarrow>
                          and_then (on_rm (rm_SetServersBackendsRules (backends_rules (qo_servers (rp_options s)))) s) (\<lambda>s.
                          and_then (on_rm (rm_SetServersFiltersRules (filters_rules (qo_servers (rp_options s)))) s)
                            (on_rm (rm_Initialize ())))))))))"

definition rp_Initialize ::
  "('b, 'o) backend_class \<Rightarrow> 'o rpc_node option \<Rightarrow> ('q, 'p, 'b, 'o) rpc_manager \<Rightarrow>
   (config_error, ('q, 'p, 'b, 'o) rpc_manager) outcome" where
  "rp_Initialize bc options_node s =
     and_then (rp_RegisterRpcBackend (bc_local bc) s) (\<lambda>s.
     and_then (rp_RegisterDebugLogFilter s) (\<lambda>s.
       let (old, new) = atomic_exchange (rp_state s) kInit; s = s\<lparr>rp_state := new\<rparr> in
       if old \<noteq> kPreInit then (Some CfgInitializedTwice, s)
       else case (case options_node of None \<Rightarrow> Some (rp_options s) | Some node \<Rightarrow> rpc_decode node) of
         None \<Rightarrow> (Some CfgBadNode, s)
       | Some opts \<Rightarrow> rp_init_options bc (s\<lparr>rp_options := opts\<rparr>)))"

definition rp_Start ::
  "('q, 'p, 'b, 'o) rpc_manager \<Rightarrow> (config_error, ('q, 'p, 'b, 'o) rpc_manager) outcome" where
  "rp_Start s =
     (let (old, new) = atomic_exchange (rp_state s) kStart; s = s\<lparr>rp_state := new\<rparr> in
      if old \<noteq> kInit then (Some CfgNotInit, s) else on_rm rm_Start s)"

definition rp_Shutdown :: "('q, 'p, 'b, 'o) rpc_manager \<Rightarrow> ('q, 'p, 'b, 'o) rpc_manager" where
  "rp_Shutdown s =
     (let (old, new) = atomic_exchange (rp_state s) kShutdown; s = s\<lparr>rp_state := new\<rparr> in
      if old = kShutdown then s
      else
        let bm = rm_Shutdown (rp_bm s);
            bm = bm\<lparr>rm_registry := new_rpc_registry,
                    rm_server_filters := Rpc_Clear (rm_server_filters bm),
                    rm_client_filters := Rpc_Clear (rm_client_filters bm)\<rparr>
        in s\<lparr>rp_proxies := [], rp_bm := bm, rp_backend_vec := []\<rparr>)"

section \<open>Handles of modules\<close>

text \<open>A proxy is the package path of the module it was first made for.\<close>

definition GetRpcHandleProxy ::
  "string \<Rightarrow> string \<Rightarrow> ('q, 'p, 'b, 'o) rpc_manager \<Rightarrow> (config_error, ('q, 'p, 'b, 'o) rpc_manager) outcome" where
  "GetRpcHandleProxy name pkg_path s =
     (if rp_state s \<noteq> kInit then (Some CfgNotInit, s)
      else case map_of (rp_proxies s) name of
        Some _ \<Rightarrow> (None, s)
      | None \<Rightarrow> (None, s\<lparr>rp_proxies := rp_proxies s @ [(name, pkg_path)]\<rparr>))"

definition handle_RegisterServiceFunc ::
  "('q, 'p) rpc_env \<Rightarrow> string \<Rightarrow> string \<Rightarrow> 'q type_support option \<Rightarrow> 'p type_support option \<Rightarrow> nat option \<Rightarrow>
   ('q, 'p, 'b, 'o) rpc_manager \<Rightarrow> (filter_error, bool) result option \<times> ('q, 'p, 'b, 'o) rpc_manager" where
  "handle_RegisterServiceFunc env name func req rsp svc s =
     (case map_of (rp_proxies s) name of
        None \<Rightarrow> (None, s)
      | Some pkg_path \<Rightarrow>
          (case rm_RegisterServiceFunc env
             \<lparr>fx_func_name = func, fx_pkg_path = pkg_path, fx_module_name = name, fx_req_type_support = req,
              fx_rsp_type_support = rsp, fx_service_func = svc\<rparr> (rp_bm s) of
             (r, bm) \<Rightarrow> (Some r, s\<lparr>rp_bm := bm\<rparr>)))"

definition handle_RegisterClientFunc ::
  "('q, 'p) rpc_env \<Rightarrow> string \<Rightarrow> string \<Rightarrow> 'q type_support option \<Rightarrow> 'p type_support option \<Rightarrow>
   ('q, 'p, 'b, 'o) rpc_manager \<Rightarrow> (filter_error, bool) result option \<times> ('q, 'p, 'b, 'o) rpc_manager" where
  "handle_RegisterClientFunc env name func req rsp s =
     (case map_of (rp_proxies s) name of
        None \<Rightarrow> (None, s)
      | Some pkg_path \<Rightarrow>
          (case rm_RegisterClientFunc env
             \<lparr>fx_func_name = func, fx_pkg_path = pkg_path, fx_module_name = name, fx_req_type_support = req,
              fx_rsp_type_support = rsp, fx_service_func = None\<rparr> (rp_bm s) of
             (r, bm) \<Rightarrow> (Some r, s\<lparr>rp_bm := bm\<rparr>)))"

definition handle_Invoke ::
  "string \<Rightarrow> string \<Rightarrow> rpc_context \<Rightarrow> 'q \<Rightarrow> 'p \<Rightarrow> ('q, 'p, 'b, 'o) rpc_manager \<Rightarrow>
   (rm_error option \<times> ('q, 'p) rm_log \<times> rpc_context \<times> ('q, 'p, 'b, 'o) rpc_manager) option" where
  "handle_Invoke name func cx req rsp s =
     (case map_of (rp_proxies s) name of
        None \<Rightarrow> None
      | Some pkg_path \<Rightarrow>
          (case rm_Invoke
             \<lparr>ii_func_name = func, ii_pkg_path = pkg_path, ii_module_name = name, ii_ctx = cx, ii_req = req, ii_rsp = rsp\<rparr>
             (rp_bm s) of
             (e, log, cx, bm) \<Rightarrow> Some (e, log, cx, s\<lparr>rp_bm := bm\<rparr>)))"

definition MergeServerContextToClientContext :: "string list \<Rightarrow> rpc_context \<Rightarrow> rpc_context \<Rightarrow> rpc_context" where
  "MergeServerContextToClientContext passed_context_meta_keys server_ctx client_ctx =
     (if rc_client server_ctx \<or> \<not> rc_client client_ctx then client_ctx
      else fold (\<lambda>key cx. let val = rpc_GetMetaValue key server_ctx in if val \<noteq> [] then rpc_SetMetaValue key val cx else cx)
             passed_context_meta_keys client_ctx)"

datatype ('q, 'p) rpc_module_act =
    AskRpcHandle string string
  | DoService string string "'q type_support option" "'p type_support option" "nat option"
  | DoClient string string "'q type_support option" "'p type_support option"

fun rpc_module_step ::
  "('q, 'p) rpc_env \<Rightarrow> ('q, 'p) rpc_module_act \<Rightarrow> ('q, 'p, 'b, 'o) rpc_manager \<Rightarrow> ('q, 'p, 'b, 'o) rpc_manager" where
  "rpc_module_step env (AskRpcHandle name pkg) s = snd (GetRpcHandleProxy name pkg s)"
| "rpc_module_step env (DoService name func req rsp svc) s = snd (handle_RegisterServiceFunc env name func req rsp svc s)"
| "rpc_module_step env (DoClient name func req rsp) s = snd (handle_RegisterClientFunc env name func req rsp s)"

section \<open>What the handles keep\<close>

lemma rpc_fold_merge:
  "rpc_GetMetaValue k (fold (\<lambda>key cx. let val = rpc_GetMetaValue key from in if val \<noteq> [] then rpc_SetMetaValue key val cx else cx) keys cx) =
     (if k \<in> set keys \<and> rpc_GetMetaValue k from \<noteq> [] then rpc_GetMetaValue k from else rpc_GetMetaValue k cx)"
  by (induction keys arbitrary: cx) (auto simp: Let_def)

lemma rpc_merge_passes_keys:
  assumes "\<not> rc_client server" "rc_client client"
  shows "rpc_GetMetaValue k (MergeServerContextToClientContext keys server client) =
     (if k \<in> set keys \<and> rpc_GetMetaValue k server \<noteq> [] then rpc_GetMetaValue k server else rpc_GetMetaValue k client)"
  using assms by (simp add: MergeServerContextToClientContext_def rpc_fold_merge)

lemma rpc_module_step_bm: "\<exists>ops. rp_bm (rpc_module_step env a s) = fold (rpc_reg_step env) ops (rp_bm s)"
proof (cases a)
  case (DoService name func req rsp svc)
  then show ?thesis
  proof (cases "map_of (rp_proxies s) name")
    case (Some pkg)
    show ?thesis
      by (rule fold_one [where op = "RegService \<lparr>fx_func_name = func, fx_pkg_path = pkg, fx_module_name = name, fx_req_type_support = req,
              fx_rsp_type_support = rsp, fx_service_func = svc\<rparr>"])
        (simp add: DoService Some handle_RegisterServiceFunc_def split: prod.splits)
  qed (auto simp: handle_RegisterServiceFunc_def intro: fold_none)
next
  case (DoClient name func req rsp)
  then show ?thesis
  proof (cases "map_of (rp_proxies s) name")
    case (Some pkg)
    show ?thesis
      by (rule fold_one [where op = "RegClient \<lparr>fx_func_name = func, fx_pkg_path = pkg, fx_module_name = name, fx_req_type_support = req,
              fx_rsp_type_support = rsp, fx_service_func = None\<rparr>"])
        (simp add: DoClient Some handle_RegisterClientFunc_def split: prod.splits)
  qed (auto simp: handle_RegisterClientFunc_def intro: fold_none)
qed (auto simp: GetRpcHandleProxy_def split: option.splits intro: fold_none)

lemma rpc_module_steps_bm: "\<exists>ops. rp_bm (fold (rpc_module_step env) acts s) = fold (rpc_reg_step env) ops (rp_bm s)"
  by (rule folds_as [where p = rp_bm, OF rpc_module_step_bm])

section \<open>What a successful initialisation sets up\<close>

definition rp_fresh :: "('q, 'p, 'b, 'o) rpc_manager \<Rightarrow> bool" where
  "rp_fresh s \<longleftrightarrow> rp_state s = kPreInit \<and> rp_used s = [] \<and> rp_proxies s = [] \<and>
     rm_state (rp_bm s) = kPreInit \<and> rm_backends (rp_bm s) = [] \<and> rm_calls (rp_bm s) = [] \<and>
     rm_clients_backend_index (rp_bm s) = (\<lambda>_. None) \<and>
     fm_ok (rm_client_filters (rp_bm s)) \<and> (\<forall>f. Rpc_GetFilterNameVec f (rm_client_filters (rp_bm s)) = [])"

lemma register_rbs:
  assumes "rm_state bm = kPreInit"
  shows "fold (\<lambda>t s. Option.bind s (register_rb t)) ts (Some bm) = Some (bm\<lparr>rm_backends := rm_backends bm @ ts\<rparr>)"
  using assms
  by (induction ts arbitrary: bm) (simp_all add: register_rb_def rm_RegisterRpcBackend_def rm_pre_init_def)

lemmas rm_setters = rm_SetRpcRegistry_def rm_SetClientFrameworkAsyncRpcFilterManager_def
  rm_SetServerFrameworkAsyncRpcFilterManager_def rm_SetClientsFiltersRules_def rm_SetServersFiltersRules_def
  rm_SetClientsBackendsRules_def rm_SetServersBackendsRules_def rm_pre_init_def

lemma rp_init_options_ok:
  assumes "rp_init_options bc s = (None, s')" "keeps_name bc" "rm_state (rp_bm s) = kPreInit" "rp_used s = []"
  defines "o' \<equiv> rp_options s"
  shows "rp_bm s' = (rp_bm s)\<lparr>rm_registry := new_rpc_registry, rm_backends := rm_backends (rp_bm s) @ map fst (qo_backends o'),
      rm_clients_backends_rules := backends_rules (qo_clients o'), rm_clients_filters_rules := filters_rules (qo_clients o'),
      rm_servers_backends_rules := backends_rules (qo_servers o'), rm_servers_filters_rules := filters_rules (qo_servers o'),
      rm_state := kInit\<rparr>"
    and "check_rules (map fst (qo_backends o')) (qo_clients o') = None" "rp_state s' = rp_state s"
proof -
  let ?bm1 = "(rp_bm s)\<lparr>rm_registry := new_rpc_registry\<rparr>"
  obtain err bs used bm where ib: "init_backends bc register_rb (qo_backends o') (rp_backend_vec s, rp_used s, ?bm1) = (err, bs, used, bm)"
    by (metis prod_cases4)
  have err: "err = None" using assms(1,3) ib unfolding o'_def
    by (auto simp: rp_init_options_def rm_setters Let_def split: option.splits)
  note ok = init_backends_ok [OF ib [unfolded err] assms(2)] and names = init_backends_names [OF ib [unfolded err assms(4)] assms(2)]
  have bm: "bm = ?bm1\<lparr>rm_backends := rm_backends (rp_bm s) @ map fst (qo_backends o')\<rparr>"
    using ok register_rbs [of ?bm1 "map fst (qo_backends o')"] assms(3) by simp
  have sub: "check_rules (map fst (qo_backends o')) (qo_clients o') = None"
    "check_rules (map fst (qo_backends o')) (qo_servers o') = None"
    using assms(1,3) ib bm unfolding o'_def [symmetric]
    by (auto simp: rp_init_options_def rm_setters Let_def err names and_then_None o'_def [symmetric] split: option.splits)
  have "s' = s\<lparr>rp_backend_vec := bs, rp_used := used, rp_bm := (rp_bm s)\<lparr>rm_registry := new_rpc_registry,
      rm_backends := rm_backends (rp_bm s) @ map fst (qo_backends o'),
      rm_clients_backends_rules := backends_rules (qo_clients o'), rm_clients_filters_rules := filters_rules (qo_clients o'),
      rm_servers_backends_rules := backends_rules (qo_servers o'), rm_servers_filters_rules := filters_rules (qo_servers o'),
      rm_state := kInit\<rparr>\<rparr>"
    using assms(1,3) ib bm sub unfolding o'_def [symmetric]
    by (auto simp: rp_init_options_def rm_setters Let_def err names o'_def [symmetric] rm_Initialize_def atomic_exchange_def)
  then show "rp_bm s' = (rp_bm s)\<lparr>rm_registry := new_rpc_registry, rm_backends := rm_backends (rp_bm s) @ map fst (qo_backends o'),
      rm_clients_backends_rules := backends_rules (qo_clients o'), rm_clients_filters_rules := filters_rules (qo_clients o'),
      rm_servers_backends_rules := backends_rules (qo_servers o'), rm_servers_filters_rules := filters_rules (qo_servers o'),
      rm_state := kInit\<rparr>" "check_rules (map fst (qo_backends o')) (qo_clients o') = None" "rp_state s' = rp_state s"
    using sub by simp_all
qed

lemma rp_register_ok:
  assumes "rp_RegisterRpcBackend b s = (None, s1)" "rp_RegisterDebugLogFilter s1 = (None, s2)" "rp_fresh s"
  shows "rp_fresh s2" "rp_options s2 = rp_options s"
proof -
  have s1: "s1 = s\<lparr>rp_backend_vec := rp_backend_vec s @ [b]\<rparr>"
    using assms(1,3) by (auto simp: rp_RegisterRpcBackend_def rp_pre_init_def split: if_splits)
  obtain fp fs where f: "Rpc_RegisterFilter ''debug_log'' rpc_debug_log_filter (rm_client_filters (rp_bm s)) = Inr fp"
    "Rpc_RegisterFilter ''debug_log'' rpc_debug_log_filter (rm_server_filters (rp_bm s)) = Inr fs"
    "s2 = s1\<lparr>rp_bm := (rp_bm s)\<lparr>rm_client_filters := fp, rm_server_filters := fs\<rparr>\<rparr>"
    using assms(2,3) by (auto simp: s1 rp_RegisterDebugLogFilter_def rp_RegisterClientFilter_def rp_RegisterServerFilter_def
        rp_pre_init_def rp_fresh_def and_then_None split: sum.splits)
  have "fm_ok fp" using RegisterFilter_ok f(1) assms(3) unfolding rp_fresh_def Rpc_same by blast
  moreover have "Rpc_GetFilterNameVec t fp = Rpc_GetFilterNameVec t (rm_client_filters (rp_bm s))" for t
    using f(1) by (auto simp: Rpc_same RegisterFilter_def GetFilterNameVec_def split: option.splits)
  ultimately show "rp_fresh s2" "rp_options s2 = rp_options s" using assms(3) by (auto simp: f(3) s1 rp_fresh_def)
qed

lemma rp_Initialize_ok:
  assumes "rp_Initialize bc (Some node) s0 = (None, s1)" "rpc_decode node = Some opts" "rp_fresh s0" "keeps_name bc"
  shows "rm_fresh (rp_bm s1)" "rm_state (rp_bm s1) = kInit" "rm_backends (rp_bm s1) = map fst (qo_backends opts)"
    "rm_clients_backends_rules (rp_bm s1) = backends_rules (qo_clients opts)"
    "rm_clients_filters_rules (rp_bm s1) = filters_rules (qo_clients opts)"
    "check_rules (map fst (qo_backends opts)) (qo_clients opts) = None"
proof -
  obtain a b where ab: "rp_RegisterRpcBackend (bc_local bc) s0 = (None, a)" "rp_RegisterDebugLogFilter a = (None, b)"
    and init: "rp_init_options bc (b\<lparr>rp_state := kInit, rp_options := opts\<rparr>) = (None, s1)"
    using assms(1,2) by (auto simp: rp_Initialize_def and_then_None Let_def atomic_exchange_def split: if_splits)
  have f: "rp_fresh b" by (rule rp_register_ok [OF ab assms(3)])
  note ok = rp_init_options_ok [OF init assms(4)]
  show "rm_fresh (rp_bm s1)" "rm_state (rp_bm s1) = kInit" "rm_backends (rp_bm s1) = map fst (qo_backends opts)"
    "rm_clients_backends_rules (rp_bm s1) = backends_rules (qo_clients opts)"
    "rm_clients_filters_rules (rp_bm s1) = filters_rules (qo_clients opts)"
    "check_rules (map fst (qo_backends opts)) (qo_clients opts) = None"
    using ok f by (simp_all add: rp_fresh_def rm_fresh_def)
qed

text \<open>The manager follows the life cycle all parts of the core share.\<close>

lemma on_rm_state [simp]: "rp_state (snd (on_rm f s)) = rp_state s"
  by (auto split: prod.splits)

lemma on_rm_keeps: "on_rm f s = (e, s') \<Longrightarrow> rp_state s' = rp_state s"
  using on_rm_state [of f s] by simp

lemma rp_init_options_snd: "rp_state (snd (rp_init_options bc s)) = rp_state s"
  unfolding rp_init_options_def Let_def
  by (intro and_then_keeps [where p = rp_state]) (auto intro!: and_then_keeps [where p = rp_state]
      split: prod.splits option.splits simp del: on_rm.simps)

lemma rp_init_options_state: "rp_init_options bc s = (e, s') \<Longrightarrow> rp_state s' = rp_state s"
  using rp_init_options_snd [of bc s] by simp

lemma rp_register_state:
  "rp_RegisterRpcBackend b s = (None, s') \<Longrightarrow> rp_state s = kPreInit \<and> rp_state s' = kPreInit"
  "rp_RegisterRpcBackend b s = (Some e, s') \<Longrightarrow> s' = s"
  "rp_RegisterDebugLogFilter s = (r, s') \<Longrightarrow> rp_state s' = rp_state s"
  by (auto simp: rp_RegisterRpcBackend_def rp_RegisterDebugLogFilter_def rp_RegisterClientFilter_def rp_RegisterServerFilter_def rp_pre_init_def split: if_splits sum.splits)

interpretation rp: lifecycle rp_state "rp_Initialize bc" rp_Start rp_Shutdown for bc
proof
  fix a s e s'
  show "rp_Initialize bc a s = (None, s') \<Longrightarrow> rp_state s = kPreInit \<and> rp_state s' = kInit"
    by (auto simp: rp_Initialize_def and_then_None Let_def atomic_exchange_def
        dest!: rp_register_state rp_init_options_state split: if_splits option.splits)
  show "rp_Initialize bc a s = (Some e, s') \<Longrightarrow> rp_state s' \<in> {rp_state s, kInit}"
    by (auto simp: rp_Initialize_def and_then_Some Let_def atomic_exchange_def
        dest!: rp_register_state rp_init_options_state split: if_splits option.splits)
qed (auto simp: rp_Start_def rp_Shutdown_def Let_def atomic_exchange_def and_then_None and_then_Some
    dest!: on_rm_keeps simp del: on_rm.simps split: if_splits)

section \<open>From the configuration to the backend\<close>

text \<open>
  C4. After a successful initialisation from a configuration, whatever the modules then register
  through their handles, and after a successful start, a call made through a handle of a
  registered function goes, through the filters that the first matching client option of the
  function names, to one backend of that option: the one its address names, or the first one.
  When it is handed to a backend, that backend is a configured and initialised one.
\<close>

theorem configured_call_reaches_its_backend:
  assumes "rp_fresh s0" "keeps_name bc" "rp_Initialize bc (Some node) s0 = (None, s1)" "rpc_decode node = Some opts"
    and "s2 = fold (rpc_module_step env) acts s1" "rp_Start s2 = (None, s)"
    and "map_of (rp_proxies s) name = Some pkg"
    and "GetClientFuncWrapperPtr func pkg name (rm_registry (rp_bm s)) = Some cf"
    and "rc_client cx" "\<not> rc_used cx" "handle_Invoke name func cx req rsp s = Some (e, log, cx', s')"
    and "filters = deciding_rule (re_regex_match env) func (filters_rules (qo_clients opts))"
    and "backends = deciding_rule (re_regex_match env) func (backends_rules (qo_clients opts))"
  shows "\<exists>w. e = None \<and> log = chain (rev (lookup_all (fm_filter_map (rm_client_filters (rp_bm s))) filters)) (invoke_backend (rp_bm s')) w [] \<and>
    invoke_backend (rp_bm s') w [] = [route backends w] \<and> iw_info w = cf_info cf \<and> iw_req w = req \<and> iw_ctx w = cx' \<and>
    (\<forall>b w'. route backends w = Handed b w' \<longrightarrow> b \<in> set backends \<and> b \<in> set (map fst (qo_backends opts)))"
proof -
  note init = rp_Initialize_ok [OF assms(3,4,1,2)]
  obtain ops where ops: "rp_bm s2 = fold (rpc_reg_step env) ops (rp_bm s1)" unfolding assms(5) using rpc_module_steps_bm by blast
  have start: "rm_Start (rp_bm s2) = (None, rp_bm s)"
    using assms(6) by (auto simp: rp_Start_def Let_def atomic_exchange_def split: if_splits prod.splits)
  note fr = rm_Start_same [OF start]
  have "rm_inv env (rp_bm s2)" unfolding ops by (intro rpc_reg_steps_inv rm_fresh_inv init(1))
  then have inv: "rm_inv env (rp_bm s)" using rm_inv_same [OF fr(1)] by blast
  have same: "rpc_same_rules (rp_bm s1) (rp_bm s2)" unfolding ops by (rule rpc_reg_steps_same_rules)
  let ?ii = "\<lparr>ii_func_name = func, ii_pkg_path = pkg, ii_module_name = name, ii_ctx = cx, ii_req = req, ii_rsp = rsp\<rparr>"
  have call: "rm_Invoke ?ii (rp_bm s) = (e, log, cx', rp_bm s')"
    using assms(7,11) by (auto simp: handle_Invoke_def split: prod.splits)
  have rules: "rm_clients_filters_rules (rp_bm s) = filters_rules (qo_clients opts)"
    "rm_clients_backends_rules (rp_bm s) = backends_rules (qo_clients opts)" "rm_backends (rp_bm s) = map fst (qo_backends opts)"
    using same init(3-5) fr(1) by (simp_all add: rpc_same_rules_def same_clients_def)
  have sub: "set backends \<subseteq> set (map fst (qo_backends opts))" unfolding assms(13) by (rule check_rules_None [OF init(6)])
  have fb: "func_backends env (rp_bm s) func = backends" "func_filters env (rp_bm s) func = filters"
    unfolding func_backends_def func_filters_def rules assms(12,13) [symmetric] using sub by (auto intro: filter_True)
  have "GetClientFuncWrapperPtr (ii_func_name ?ii) (ii_pkg_path ?ii) (ii_module_name ?ii) (rm_registry (rp_bm s)) = Some cf"
    "rc_client (ii_ctx ?ii)" "\<not> rc_used (ii_ctx ?ii)" using assms(8-10) by simp_all
  from started_call [OF inv fr(2) this call] obtain w where w: "e = None"
    "log = chain (rev (lookup_all (fm_filter_map (rm_client_filters (rp_bm s))) filters)) (invoke_backend (rp_bm s')) w []"
    "invoke_backend (rp_bm s') w [] = [route backends w]" "iw_info w = cf_info cf" "iw_req w = req" "iw_ctx w = cx'"
    by (auto simp: fb)
  have "b \<in> set backends" if "route backends w = Handed b w'" for b w'
    using that by (auto simp: route_def Let_def split: list.splits if_splits)
  then show ?thesis using w sub by (intro exI [of _ w]) auto
qed

section \<open>An example\<close>

definition local_rpc_class :: "(local_rpc_backend, lrb_node) backend_class" where
  "local_rpc_class = \<lparr>bc_name = (\<lambda>_. ''local''), bc_initialize = (\<lambda>opts b. case lrb_Initialize opts b of (e, b') \<Rightarrow> (e = None, b')),
     bc_local = new_local_rpc_backend\<rparr>"

definition new_rpc_manager :: "(nat, nat, local_rpc_backend, lrb_node) rpc_manager" where
  "new_rpc_manager =
     \<lparr>rp_options = \<lparr>qo_backends = [], qo_clients = [], qo_servers = []\<rparr>, rp_state = kPreInit, rp_passed_context_meta_keys = [],
      rp_backend_vec = [], rp_used = [],
      rp_bm = rpc_demo_manager\<lparr>rm_state := kPreInit, rm_clients_backends_rules := [], rm_backends := []\<rparr>, rp_proxies = []\<rparr>"

definition local_rpc_node :: "lrb_node rpc_node" where
  "local_rpc_node =
     \<lparr>qn_backends = Some [(Some ''local'', None)],
      qn_clients = Some [\<lparr>tn_name = Some ''(.*)'', tn_enable_backends = Some [''local''], tn_enable_filters = None\<rparr>],
      qn_servers = None\<rparr>"

lemma new_rpc_manager_fresh: "rp_fresh new_rpc_manager"
  by (simp add: rp_fresh_def new_rpc_manager_def rpc_demo_manager_def fm_ok_def key_ok_def Rpc_GetFilterNameVec_def new_filter_manager_def)

lemma local_rpc_class_keeps_name: "keeps_name local_rpc_class"
  by (simp add: keeps_name_def local_rpc_class_def)

lemma local_rpc_node_decode:
  "rpc_decode local_rpc_node = Some \<lparr>qo_backends = [(''local'', None)],
     qo_clients = [\<lparr>to_name = ''(.*)'', to_enable_backends = [''local''], to_enable_filters = []\<rparr>], qo_servers = []\<rparr>"
  by (simp add: rpc_decode_def local_rpc_node_def decode_seq_def decode_backend_def decode_topic_def)

lemmas rpc_config_evals = rp_Initialize_def rp_RegisterRpcBackend_def rp_RegisterDebugLogFilter_def rp_RegisterClientFilter_def
  rp_RegisterServerFilter_def rp_pre_init_def Rpc_RegisterFilter_def new_rpc_manager_def rpc_demo_manager_def new_filter_manager_def
  local_rpc_node_decode atomic_exchange_def rp_init_options_def rm_setters register_rb_def rm_RegisterRpcBackend_def check_rules_def
  local_rpc_class_def lrb_Initialize_def new_local_rpc_backend_def rm_Initialize_def backends_rules_def filters_rules_def

lemma local_rpc_init:
  obtains s1 where "rp_Initialize local_rpc_class (Some local_rpc_node) new_rpc_manager = (None, s1)"
    "rp_state s1 = kInit" "rp_proxies s1 = []" "rm_state (rp_bm s1) = kInit"
    "rm_clients_filters_rules (rp_bm s1) = [(''(.*)'', [])]" "rr_client (rm_registry (rp_bm s1)) = (\<lambda>_. None)"
    "fm_collector_map (rm_client_filters (rp_bm s1)) = (\<lambda>_. None)"
  by (simp add: rpc_config_evals Let_def new_rpc_registry_def)

theorem configured_call_reaches_its_backend_witness:
  "\<exists>(s :: (nat, nat, local_rpc_backend, lrb_node) rpc_manager) log cx' s' w.
    handle_Invoke ''m'' ''f'' (ii_ctx rpc_demo_call) 7 0 s = Some (None, log, cx', s') \<and> log = [route [''local''] w]"
proof -
  obtain s1 where s1: "rp_Initialize local_rpc_class (Some local_rpc_node) new_rpc_manager = (None, s1)"
    "rp_state s1 = kInit" "rp_proxies s1 = []" "rm_state (rp_bm s1) = kInit"
    "rm_clients_filters_rules (rp_bm s1) = [(''(.*)'', [])]" "rr_client (rm_registry (rp_bm s1)) = (\<lambda>_. None)"
    "fm_collector_map (rm_client_filters (rp_bm s1)) = (\<lambda>_. None)" by (rule local_rpc_init)
  obtain s2 where s2: "s2 = fold (rpc_module_step rpc_demo_env)
      [AskRpcHandle ''m'' ''p'', DoClient ''m'' ''f'' (Some number_support) (Some number_support)] s1" by blast
  let ?key = "\<lparr>fk_func_name = ''f'', fk_pkg_path = ''p'', fk_module_name = ''m''\<rparr>"
  have e: "rp_state s2 = kInit" "rp_proxies s2 = [(''m'', ''p'')]" "rm_state (rp_bm s2) = kInit"
    "rr_client (rm_registry (rp_bm s2)) ?key \<noteq> None"
    unfolding s2 using s1(2-7)
    by (auto simp: GetRpcHandleProxy_def handle_RegisterClientFunc_def rm_RegisterClientFunc_def register_client_wrapper_def
        init_request_id_def Let_def rpc_demo_env_def Rpc_same CreateFilterCollectorIfNotExist_def CreateFilterCollector_def
        RegisterClientFunc_def func_key_of_def split: option.splits prod.splits)
  obtain s where s: "s = snd (rp_Start s2)" by blast
  have start: "rp_Start s2 = (None, s)"
    using e(1,3) by (simp add: s rp_Start_def Let_def atomic_exchange_def rm_Start_def)
  have same: "map_of (rp_proxies s) ''m'' = Some ''p''" "rm_registry (rp_bm s) = rm_registry (rp_bm s2)"
    using e by (simp_all add: s rp_Start_def Let_def atomic_exchange_def rm_Start_def)
  obtain cf where cf: "GetClientFuncWrapperPtr ''f'' ''p'' ''m'' (rm_registry (rp_bm s)) = Some cf"
    using e(4) by (auto simp: GetClientFuncWrapperPtr_def same)
  have cx: "rc_client (ii_ctx rpc_demo_call)" "\<not> rc_used (ii_ctx rpc_demo_call)" by (simp_all add: rpc_demo_call_def)
  obtain err log cx' bm where "rm_Invoke \<lparr>ii_func_name = ''f'', ii_pkg_path = ''p'', ii_module_name = ''m'',
      ii_ctx = ii_ctx rpc_demo_call, ii_req = 7, ii_rsp = 0\<rparr> (rp_bm s) = (err, log, cx', bm)" by (rule prod_cases4)
  then obtain s' where call: "handle_Invoke ''m'' ''f'' (ii_ctx rpc_demo_call) 7 0 s = Some (err, log, cx', s')"
    by (simp add: handle_Invoke_def same(1))
  have "deciding_rule (re_regex_match rpc_demo_env) ''f'' [(''(.*)'', [])] = []"
    "deciding_rule (re_regex_match rpc_demo_env) ''f'' [(''(.*)'', [''local''])] = [''local'']"
    by (simp_all add: deciding_rule_def rpc_demo_env_def)
  then have "err = None \<and> (\<exists>w. log = [route [''local''] w])"
    using configured_call_reaches_its_backend [OF new_rpc_manager_fresh local_rpc_class_keeps_name s1(1) local_rpc_node_decode
        s2 start same(1) cf cx call refl refl]
    by (auto simp: backends_rules_def filters_rules_def)
  then show ?thesis using call by blast
qed

end
