(* ===== verification/Zenoh.thy ===== *)
theory Zenoh
  imports MqttChannel
begin

text \<open>
  What the two backends of the zenoh plugin share: the manager of declared publishers and
  subscribers (\<open>zenoh_manager.cc\<close>), the allocator that lets a type support serialise into lent
  shared memory (\<open>zenoh_buffer_array_allocator.h\<close>, \<open>util.h\<close>), the loop that asks for a bigger
  loan when the message does not fit, and the length in front of every package. The zenoh
  session and its shared memory provider are outside the program: whether a declaration
  succeeds and which memory the provider lends are parameters.
\<close>

section \<open>The manager\<close>

text \<open>
  What the environment of the backends decides: the byte order and an address of the machine,
  regular expressions, which declarations succeed, the memory lent in each round of one call,
  and how a serialiser cuts its output.
\<close>

record zenoh_env =
  ze_little :: bool
  ze_addr :: nat
  ze_regex :: "string \<Rightarrow> string \<Rightarrow> bool option"
  ze_declared :: "string \<Rightarrow> bool"
  ze_alloc :: "nat \<Rightarrow> nat \<Rightarrow> byte list option"
  ze_segment :: "bytes \<Rightarrow> byte list list"

text \<open>Publishers with their shared memory flag, and the declared subscriptions with their handlers.\<close>

record zenoh_manager =
  zm_pubs :: "(string \<times> bool) list"
  zm_subs :: "(string \<times> string) list"
  zm_shm_initialized :: bool

definition zm_RegisterPublisher :: "(string \<Rightarrow> bool) \<Rightarrow> string \<Rightarrow> bool \<Rightarrow> zenoh_manager \<Rightarrow> zenoh_manager" where
  "zm_RegisterPublisher declared keyexpr shm_enabled m =
     (if \<not> declared keyexpr then m
      else m\<lparr>zm_pubs := emplace keyexpr shm_enabled (zm_pubs m),
             zm_shm_initialized := zm_shm_initialized m \<or> shm_enabled\<rparr>)"

definition zm_RegisterSubscriber :: "(string \<Rightarrow> bool) \<Rightarrow> string \<Rightarrow> string \<Rightarrow> zenoh_manager \<Rightarrow> zenoh_manager" where
  "zm_RegisterSubscriber declared keyexpr handle m =
     (if \<not> declared keyexpr then m else m\<lparr>zm_subs := zm_subs m @ [(keyexpr, handle)]\<rparr>)"

definition zm_RegisterRpcNode ::
  "(string \<Rightarrow> bool) \<Rightarrow> string \<Rightarrow> string \<Rightarrow> string \<Rightarrow> bool \<Rightarrow> zenoh_manager \<Rightarrow> zenoh_manager" where
  "zm_RegisterRpcNode declared keyexpr handle role shm_enabled m =
     (if role = ''client''
      then zm_RegisterSubscriber declared (''rsp/'' @ keyexpr) handle (zm_RegisterPublisher declared (''req/'' @ keyexpr) shm_enabled m)
      else if role = ''server''
      then zm_RegisterSubscriber declared (''req/'' @ keyexpr) handle (zm_RegisterPublisher declared (''rsp/'' @ keyexpr) shm_enabled m)
      else m)"

definition zm_Publish :: "string \<Rightarrow> byte list \<Rightarrow> zenoh_manager \<Rightarrow> (string \<times> byte list) option" where
  "zm_Publish topic payload m = map_option (\<lambda>_. (topic, payload)) (map_of (zm_pubs m) topic)"

definition zm_Shutdown :: "zenoh_manager \<Rightarrow> zenoh_manager" where
  "zm_Shutdown m = m\<lparr>zm_pubs := [], zm_subs := []\<rparr>"

text \<open>The domain of the plugin's options is put behind every pattern with a slash.\<close>

definition zenoh_limit_domain :: "string option \<Rightarrow> string" where
  "zenoh_limit_domain node = (case node of None \<Rightarrow> [] | Some d \<Rightarrow> CHR ''/'' # d)"

section \<open>Serialising into lent memory\<close>

text \<open>
  The allocator hands out the lent memory from front to back. The amount asked for is added
  even when it does not fit, and the flag stays down from then on.
\<close>

record zenoh_allocator =
  za_capacity :: nat
  za_used :: nat
  za_enough :: bool

definition za_Allocate :: "nat \<Rightarrow> zenoh_allocator \<Rightarrow> nat option \<times> zenoh_allocator" where
  "za_Allocate n a =
     (let off = za_used a; a = a\<lparr>za_used := za_used a + n\<rparr>
      in if za_capacity a < za_used a then (None, a\<lparr>za_enough := False\<rparr>) else (Some off, a))"

text \<open>A serialiser that writes segment after segment and gives up when it gets no memory.\<close>

fun za_write :: "byte list list \<Rightarrow> zenoh_allocator \<Rightarrow> bool \<times> zenoh_allocator" where
  "za_write [] a = (True, a)"
| "za_write (s # ss) a =
     (case za_Allocate (length s) a of (None, a) \<Rightarrow> (False, a) | (Some _, a) \<Rightarrow> za_write ss a)"

text \<open>
  How the loop over loans ends: no loan, an exception of the header, a serialiser that fails
  with memory left, memory touched outside the loan, or the loan with header and message.
\<close>

datatype shm_end = ShmPoolShort | ShmThrows buffer_error | ShmFailed | ShmOverrun | ShmWritten "byte list"

datatype shm_round = ShmAgain nat bool | ShmDone shm_end

text \<open>
  The copy of a cached serialisation. The code indexes the shared pointer instead of the
  array behind it, so it copies a first segment and reads beside the object for a second one.
\<close>

definition copy_cache :: "byte list list \<Rightarrow> nat \<Rightarrow> byte list \<Rightarrow> shm_end" where
  "copy_cache segs off mem =
     (case segs of
        [] \<Rightarrow> ShmWritten mem
      | [s] \<Rightarrow> if off + length s \<le> length mem then ShmWritten (splice off s mem) else ShmOverrun
      | _ \<Rightarrow> ShmOverrun)"

text \<open>
  Round \<open>k\<close> of the loop. \<open>put\<close> writes the header of \<open>header_len\<close> bytes behind the four bytes of
  the length, \<open>cache\<close> is the serialisation the wrapper holds and \<open>ser\<close> what the type support
  writes; \<open>narrow\<close> is the width the sizes of a cached message are kept in. Once a cached
  serialisation is held the round does not look at the sizes again: the flag that ends the loop
  stays as it was, so the loop goes on.
\<close>

definition shm_attempt ::
  "nat \<Rightarrow> (nat \<Rightarrow> nat \<Rightarrow> byte list option) \<Rightarrow> (buffer_operator \<Rightarrow> (buffer_error, buffer_operator) result) \<Rightarrow> nat \<Rightarrow>
   (nat \<Rightarrow> nat) \<Rightarrow> byte list list option \<Rightarrow> byte list list option \<Rightarrow> nat \<Rightarrow> bool \<Rightarrow> nat \<Rightarrow> shm_round" where
  "shm_attempt p alloc put header_len narrow cache ser k held loan_size =
     (case alloc k loan_size of
        None \<Rightarrow> ShmDone ShmPoolShort
      | Some mem \<Rightarrow>
          if loan_size < 4 then ShmDone ShmOverrun
          else case put (mk_buffer_operator (p + 4) (drop 4 mem)) of
            Inl e \<Rightarrow> ShmDone (ShmThrows e)
          | Inr b \<Rightarrow>
              if held then ShmAgain loan_size True
              else
                let remaining = GetRemainingSize b; mem = take 4 mem @ bo_mem b in
                (case cache of
                   Some segs \<Rightarrow>
                     let msg_size = narrow (sum_list (map length segs)) in
                     if remaining < msg_size then ShmAgain (narrow (4 + header_len + msg_size)) True
                     else ShmDone (copy_cache segs (4 + header_len) mem)
                 | None \<Rightarrow>
                     (case ser of
                        None \<Rightarrow> ShmDone ShmFailed
                      | Some segs \<Rightarrow>
                          (case za_write segs \<lparr>za_capacity = remaining, za_used = 0, za_enough = True\<rparr> of
                             (True, _) \<Rightarrow> ShmDone (ShmWritten (splice (4 + header_len) (concat segs) mem))
                           | (False, a) \<Rightarrow>
                               if za_enough a then ShmDone ShmFailed else ShmAgain (2 * loan_size mod 2 ^ 64) False))))"

text \<open>The loop, with the loan size that is kept for the next message.\<close>

partial_function (option) shm_loop :: "(nat \<Rightarrow> bool \<Rightarrow> nat \<Rightarrow> shm_round) \<Rightarrow> nat \<Rightarrow> bool \<Rightarrow> nat \<Rightarrow> (nat \<times> shm_end) option" where
  "shm_loop attempt k held loan_size =
     (case attempt k held loan_size of
        ShmDone r \<Rightarrow> Some (loan_size, r)
      | ShmAgain n held \<Rightarrow> shm_loop attempt (k + 1) held n)"

section \<open>The loop ends and what it writes\<close>

lemma za_write_fits:
  "fst (za_write segs a) \<longleftrightarrow> za_used a + sum_list (map length segs) \<le> za_capacity a \<or> segs = []"
  "\<not> fst (za_write segs a) \<Longrightarrow> \<not> za_enough (snd (za_write segs a))"
  by (induction segs arbitrary: a) (auto simp: za_Allocate_def Let_def)

text \<open>What the rounds rely on: the header takes its bytes from the memory it is given.\<close>

definition writes_header :: "(buffer_operator \<Rightarrow> (buffer_error, buffer_operator) result) \<Rightarrow> byte list \<Rightarrow> bool" where
  "writes_header put header \<longleftrightarrow> (\<forall>b b'. buf_wf b \<and> put b = Inr b' \<longrightarrow> wrote b header b')"

definition lends :: "(nat \<Rightarrow> nat \<Rightarrow> byte list option) \<Rightarrow> nat \<Rightarrow> bool" where
  "lends alloc pool \<longleftrightarrow> pool \<le> 2 ^ 62 \<and> (\<forall>k n mem. alloc k n = Some mem \<longrightarrow> length mem = n \<and> n < pool)"

text \<open>A pool that is used up: from some round on nothing is lent.\<close>

definition runs_out :: "(nat \<Rightarrow> nat \<Rightarrow> byte list option) \<Rightarrow> bool" where
  "runs_out alloc \<longleftrightarrow> (\<exists>K. \<forall>k n. K \<le> k \<longrightarrow> alloc k n = None)"

lemma room_remaining: "GetRemainingSize b = room b"
  by (simp add: GetRemainingSize_def room_def)

lemma header_room:
  assumes "writes_header put header" "lends alloc pool" "p < 2 ^ 62" "alloc k n = Some mem" "4 \<le> n"
    and "put (mk_buffer_operator (p + 4) (drop 4 mem)) = Inr b"
  shows "4 + length header + GetRemainingSize b = n"
    "take 4 mem @ bo_mem b = take 4 mem @ header @ drop (length header) (bo_mem b)" "length (bo_mem b) = n - 4"
    "buf_wf (mk_buffer_operator (p + 4) (drop 4 mem))"
proof -
  let ?b = "mk_buffer_operator (p + 4) (drop 4 mem)"
  have n: "length mem = n" "n < 2 ^ 62" using assms(2,4) by (simp_all add: lends_def) fastforce
  show wf: "buf_wf ?b" using n assms(3,5) buf_wf_mk [of "p + 4" "drop 4 mem"] by simp
  have e: "(p + 4 + (n - 4)) mod 2 ^ 64 = p + 4 + (n - 4)" using assms(3) n(2) by (intro mod_less) simp
  have r: "room ?b = n - 4" "out ?b = []"
    using e n(1) by (simp_all add: room_def out_def mk_buffer_operator_def)
  have w: "wrote ?b header b" using assms(1,6) wf by (auto simp: writes_header_def)
  then have "room b + length header = n - 4" using r by (simp add: wrote_def)
  then show "4 + length header + GetRemainingSize b = n" using assms(5) unfolding room_remaining by linarith
  show l: "length (bo_mem b) = n - 4" using wrote_mem [OF wf w] n(1) by (simp add: mk_buffer_operator_def)
  have o: "out b = header" using w r(2) by (simp add: wrote_def)
  have "header = take (bo_cur b - bo_start b) (bo_mem b)" using o by (simp add: out_def)
  then have "bo_mem b = header @ drop (length header) (bo_mem b)" by (metis append_take_drop_id length_take min.absorb_iff2 take_all_iff nat_le_linear drop_all)
  then show "take 4 mem @ bo_mem b = take 4 mem @ header @ drop (length header) (bo_mem b)" by simp
qed

text \<open>
  The loop comes to an end when nothing is cached: the loan doubles until the pool cannot lend
  it. With a cached message it ends at once or when the pool is used up.
\<close>

lemma shm_loop_unfold:
  "shm_loop a k held n = (case a k held n of ShmDone r \<Rightarrow> Some (n, r) | ShmAgain m h \<Rightarrow> shm_loop a (k + 1) h m)"
  by (subst shm_loop.simps) simp

lemma shm_loop_runs_out:
  assumes "runs_out alloc"
  shows "\<exists>r. shm_loop (shm_attempt p alloc put header_len narrow cache ser) k held n = Some r"
proof -
  obtain K where K: "\<And>k n. K \<le> k \<Longrightarrow> alloc k n = None" using assms by (auto simp: runs_out_def)
  show ?thesis
  proof (induction "K - k" arbitrary: k held n rule: less_induct)
    case less
    show ?case
    proof (cases "K \<le> k")
      case True
      then show ?thesis by (subst shm_loop_unfold) (simp add: shm_attempt_def K)
    next
      case False
      then have "\<exists>r. shm_loop (shm_attempt p alloc put header_len narrow cache ser) (k + 1) h m = Some r" for h m
        by (intro less.hyps) simp
      then show ?thesis by (subst shm_loop_unfold) (simp split: shm_round.split)
    qed
  qed
qed

lemma shm_loop_returns:
  assumes "writes_header put header" "lends alloc pool" "p < 2 ^ 62" "0 < n" "cache = None \<or> runs_out alloc"
  shows "\<exists>r. shm_loop (shm_attempt p alloc put (length header) narrow cache ser) k False n = Some r"
proof (cases "runs_out alloc")
  case False
  let ?att = "shm_attempt p alloc put (length header) narrow cache ser"
  have none: "cache = None" using False assms(5) by simp
  have again: "?att k False n = ShmAgain m h \<Longrightarrow> n < pool \<and> m = 2 * n mod 2 ^ 64 \<and> \<not> h" for k n m h
    using assms(2) by (auto simp: shm_attempt_def none Let_def lends_def split: option.splits sum.splits if_splits prod.splits bool.splits)
  show ?thesis using assms(4)
  proof (induction "pool - n" arbitrary: k n rule: less_induct)
    case less
    show ?case
    proof (cases "?att k False n")
      case (ShmAgain m h)
      then have n: "n < pool" "m = 2 * n mod 2 ^ 64" "\<not> h" using again by blast+
      have "2 * n < 2 ^ 64" using n(1) assms(2) by (simp add: lends_def)
      then have "m = 2 * n" using n(2) by (metis mod_less)
      then show ?thesis using less.hyps [of m "k + 1"] less.prems n(1,3) ShmAgain shm_loop_unfold [of ?att k False n] by simp
    qed (simp add: shm_loop_unfold)
  qed
qed (rule shm_loop_runs_out)

text \<open>
  A cached message that did not fit: every further loan is taken and none is used, until the
  provider lends no more.
\<close>

lemma shm_loop_drains:
  assumes "\<And>j. j < K \<Longrightarrow> \<exists>mem b. alloc j n = Some mem \<and> put (mk_buffer_operator (p + 4) (drop 4 mem)) = Inr b"
    and "alloc K n = None" "4 \<le> n" "k \<le> K"
  shows "shm_loop (shm_attempt p alloc put header_len narrow cache ser) k True n = Some (n, ShmPoolShort)"
  using assms(4)
proof (induction "K - k" arbitrary: k)
  case 0
  then have "k = K" by simp
  then show ?case using assms(2) by (subst shm_loop_unfold) (simp add: shm_attempt_def)
next
  case (Suc d)
  then have "k < K" by simp
  then have "shm_attempt p alloc put header_len narrow cache ser k True n = ShmAgain n True"
    using assms(1) [of k] assms(3) by (auto simp: shm_attempt_def)
  then show ?case using Suc.hyps(1) [of "k + 1"] Suc.hyps(2) \<open>k < K\<close> by (subst shm_loop_unfold) simp
qed

text \<open>
  And a loan it has written holds the header, then exactly the message, and whatever was in the
  lent memory behind it.
\<close>

lemma shm_loop_written:
  assumes "shm_loop (shm_attempt p alloc put (length header) narrow cache ser) k held n = Some (n', ShmWritten mem)"
    and "writes_header put header" "lends alloc pool" "p < 2 ^ 62"
  shows "\<exists>segs pre tail. mem = pre @ header @ concat segs @ tail \<and> length pre = 4 \<and> length mem < pool \<and>
    (\<exists>b b'. buf_wf b \<and> put b = Inr b') \<and> (case cache of Some cs \<Rightarrow> segs = cs | None \<Rightarrow> ser = Some segs)"
proof (rule shm_loop.raw_induct [where P = "\<lambda>a k h n r. a = shm_attempt p alloc put (length header) narrow cache ser \<longrightarrow>
    (\<forall>n' mem. r = (n', ShmWritten mem) \<longrightarrow> (\<exists>segs pre tail. mem = pre @ header @ concat segs @ tail \<and> length pre = 4 \<and> length mem < pool \<and>
    (\<exists>b b'. buf_wf b \<and> put b = Inr b') \<and> (case cache of Some cs \<Rightarrow> segs = cs | None \<Rightarrow> ser = Some segs)))", OF _ assms(1), THEN mp, OF _ refl, THEN spec, THEN spec, THEN mp, OF _ refl])
  fix loop a k h n r
  let ?att = "shm_attempt p alloc put (length header) narrow cache ser"
  let ?good = "\<lambda>mem. \<exists>segs pre tail. mem = pre @ header @ concat segs @ tail \<and> length pre = 4 \<and> length mem < pool \<and>
    (\<exists>b b'. buf_wf b \<and> put b = Inr b') \<and> (case cache of Some cs \<Rightarrow> segs = cs | None \<Rightarrow> ser = Some segs)"
  assume IH: "\<And>a k h n r. loop a k h n = Some r \<Longrightarrow> a = ?att \<longrightarrow> (\<forall>n' mem. r = (n', ShmWritten mem) \<longrightarrow> ?good mem)"
    and eq: "(case a k h n of ShmDone r \<Rightarrow> Some (n, r) | ShmAgain n h \<Rightarrow> loop a (k + 1) h n) = Some r"
  show "a = ?att \<longrightarrow> (\<forall>n' mem. r = (n', ShmWritten mem) \<longrightarrow> ?good mem)"
  proof (intro impI allI)
    fix n' mem assume a: "a = ?att" and r: "r = (n', ShmWritten mem)"
    show "?good mem"
    proof (cases "?att k h n")
      case (ShmAgain m h2)
      then show ?thesis using IH [of a "k + 1" h2 m r] eq a r by simp
    next
      case (ShmDone e)
      then have e: "e = ShmWritten mem" using eq a r by simp
      obtain loan b where loan: "alloc k n = Some loan" "4 \<le> n" "put (mk_buffer_operator (p + 4) (drop 4 loan)) = Inr b"
        using ShmDone e by (auto simp: shm_attempt_def split: option.splits sum.splits if_splits)
      have ln: "length loan = n" "n < pool" using assms(3) loan(1) by (auto simp: lends_def)
      note h = header_room [OF assms(2-4) loan]
      let ?mem = "take 4 loan @ bo_mem b"
      have splice: "?good (splice (4 + length header) (concat segs) ?mem)"
        if "4 + length header + length (concat segs) \<le> n" "case cache of Some cs \<Rightarrow> segs = cs | None \<Rightarrow> ser = Some segs" for segs
      proof -
        have "take (4 + length header) ?mem = take 4 loan @ header"
          using loan(2) ln(1) unfolding h(2) by simp
        then have s: "splice (4 + length header) (concat segs) ?mem =
            take 4 loan @ header @ concat segs @ drop (4 + length header + length (concat segs)) ?mem"
          unfolding splice_def by simp
        have "length (splice (4 + length header) (concat segs) ?mem) = n"
          using that(1) ln(1) loan(2) h(3) by (subst length_splice) auto
        moreover have "length (take 4 loan) = 4" using loan(2) ln(1) by simp
        ultimately show ?thesis using s that(2) ln(2) h(4) loan(3) by blast
      qed
      show ?thesis
      proof (cases cache)
        case (Some segs)
        then have c: "copy_cache segs (4 + length header) ?mem = ShmWritten mem"
          using ShmDone e loan by (auto simp: shm_attempt_def Let_def split: if_splits)
        have len: "length ?mem = n" "4 + length header \<le> n" using h(1,3) loan(2) ln(1) by simp_all
        have "mem = splice (4 + length header) (concat segs) ?mem \<and> 4 + length header + length (concat segs) \<le> n"
        proof (cases segs)
          case Nil
          then show ?thesis using c len by (simp add: copy_cache_def splice_def)
        next
          case (Cons s ss)
          then show ?thesis using c len by (cases ss) (auto simp: copy_cache_def split: if_splits)
        qed
        then show ?thesis using splice [of segs] Some by simp
      next
        case None
        then obtain segs where s: "ser = Some segs" "mem = splice (4 + length header) (concat segs) ?mem"
          "fst (za_write segs \<lparr>za_capacity = GetRemainingSize b, za_used = 0, za_enough = True\<rparr>)"
          using ShmDone e loan by (auto simp: shm_attempt_def Let_def split: option.splits prod.splits bool.splits if_splits)
        then have "sum_list (map length segs) \<le> GetRemainingSize b" using za_write_fits(1) by auto
        then show ?thesis using splice [of segs] h(1) s(1,2) None by (simp add: length_concat)
      qed
    qed
  qed
qed

text \<open>The loan size that is kept stays positive.\<close>

lemma shm_loop_positive:
  assumes "shm_loop (shm_attempt p alloc put header_len id cache ser) k held n = Some (n', r)" "lends alloc pool" "0 < n"
  shows "0 < n'"
proof (rule shm_loop.raw_induct [where P = "\<lambda>a k h n r. a = shm_attempt p alloc put header_len id cache ser \<longrightarrow> 0 < n \<longrightarrow> 0 < fst r",
    OF _ assms(1), THEN mp, OF _ refl, THEN mp, OF _ assms(3), simplified])
  fix loop a k h n r
  let ?att = "shm_attempt p alloc put header_len id cache ser"
  assume IH: "\<And>a k h n r. loop a k h n = Some r \<Longrightarrow> a = ?att \<longrightarrow> 0 < n \<longrightarrow> 0 < fst r"
    and eq: "(case a k h n of ShmDone r \<Rightarrow> Some (n, r) | ShmAgain n h \<Rightarrow> loop a (k + 1) h n) = Some r"
  have "?att k h n = ShmAgain m h2 \<Longrightarrow> 0 < n \<Longrightarrow> 0 < m" for k h n m h2
  proof -
    assume again: "?att k h n = ShmAgain m h2" and n: "0 < n"
    then obtain mem where "alloc k n = Some mem" by (auto simp: shm_attempt_def split: option.splits)
    then have "n < pool" "pool \<le> 2 ^ 62" using assms(2) by (auto simp: lends_def)
    then have "2 * n < 2 ^ 64" by simp
    then have "0 < 2 * n mod 2 ^ 64" using n by (metis mod_less nat_0_less_mult_iff zero_less_numeral)
    then show "0 < m" using again
      by (auto simp: shm_attempt_def Let_def split: option.splits sum.splits if_splits prod.splits bool.splits)
  qed
  then show "a = ?att \<longrightarrow> 0 < n \<longrightarrow> 0 < fst r" using eq IH by (cases "?att k h n"; cases r) auto
qed

section \<open>The length in front\<close>

text \<open>
  A package is the length of its contents in four bytes and the contents. The handlers trust
  that length: they make a cursor over as many bytes, of which only the received ones are in the
  cursor's memory; a load of any other is \<open>OutOfRegion\<close>. With fewer than four bytes received
  reading the length is undefined itself (\<open>None\<close>).
\<close>

definition zenoh_region :: "bool \<Rightarrow> nat \<Rightarrow> byte list \<Rightarrow> buffer_operator option" where
  "zenoh_region little p payload =
     (if length payload < 4 then None
      else
        let n = unat (GetUint32FromBuf little (take 4 payload)) in
        Some \<lparr>bo_start = p + 4, bo_end = (p + 4 + n) mod 2 ^ 64, bo_cur = p + 4, bo_mem = take n (drop 4 payload)\<rparr>)"

lemma zenoh_region_prefixed:
  assumes "length body < 2 ^ 32"
  shows "zenoh_region little p (SetBufFromUint32 little' (of_nat (length body)) @ body @ tail) = Some (mk_buffer_operator (p + 4) body)"
proof -
  have "unat (of_nat (length body) :: u32) = length body" using assms by (simp add: unat_of_nat)
  moreover have "length (SetBufFromUint32 little' (of_nat (length body))) = 4" by (rule u32c.length_encode)
  moreover have "GetUint32FromBuf little (SetBufFromUint32 little' (of_nat (length body))) = of_nat (length body)"
    using SetBufFromUint32_host [of little] SetBufFromUint32_host [of little'] u32c.decode_encode by metis
  ultimately show ?thesis by (simp add: zenoh_region_def mk_buffer_operator_def Let_def)
qed

text \<open>A buffer of the right size takes the length and then exactly the contents.\<close>

lemma prefixed_fills:
  assumes "bindR (SetUint32 little (of_nat (length body)) (mk_buffer_operator p (replicate (length body + 4) 0))) put = Inr b"
    and "writes_header put body" "length body < 2 ^ 32" "p < 2 ^ 61"
  shows "bo_mem b = SetBufFromUint32 little (of_nat (length body)) @ body"
proof -
  let ?b = "mk_buffer_operator p (replicate (length body + 4) 0)"
  have room: "buf_wf ?b" "room ?b = length body + 4" "out ?b = []"
    using fresh_buffer [of p "length body + 4"] assms(3,4) by simp_all
  obtain b0 where b: "SetUint32 little (of_nat (length body)) ?b = Inr b0" "put b0 = Inr b"
    using assms(1) by (auto simp: bindR_eq_Inr)
  have w0: "wrote ?b (SetBufFromUint32 little (of_nat (length body))) b0"
    using SetBuffer_Inr [OF room(1) _ b(1) [unfolded SetUint32_def]] by (simp add: u32c.length_encode)
  have w1: "wrote b0 body b" using assms(2) b(2) wrote_wf [OF w0] by (auto simp: writes_header_def)
  show ?thesis by (rule wrote_all [OF wrote_trans [OF w0 w1] room(3)]) (simp add: room(2) u32c.length_encode)
qed

end
