(* ===== verification/ZenohChannel.thy ===== *)
theory ZenohChannel
  imports Zenoh
begin

text \<open>
  The zenoh channel backend (\<open>zenoh_channel_backend.cc\<close>). A message goes out in a buffer of its
  own or, when the topic is configured for it, in shared memory lent by zenoh; both ways the
  package is a length, the channel body, and for shared memory the rest of the loan. The size
  of the loan is remembered per topic and grows until the message fits; when the pool cannot
  lend it the first way is taken.
\<close>

section \<open>State and life cycle\<close>

record 'm zenoh_channel_backend =
  zb_options :: "(string \<times> bool) list"
  zb_state :: lc_state
  zb_manager :: zenoh_manager
  zb_domain :: string
  zb_tools :: "(string \<times> 'm subscribe_tool) list"
  zb_sizes :: "(string \<times> nat) list"
  zb_shm_init_loan_size :: nat

datatype zenoh_error =
    ZbInitializedTwice | ZbBadNode | ZbNotInit | ZbNotStart | ZbNotRegistered string | ZbTooMuchMeta
  | ZbSerialize msg_error | ZbShmSerialize | ZbSize | ZbBuffer buffer_error | ZbOverrun

text \<open>Both fields of an option are required.\<close>

definition decode_shm_option :: "string option \<times> bool option \<Rightarrow> (string \<times> bool) option" where
  "decode_shm_option n = (case n of (Some name, Some shm) \<Rightarrow> Some (name, shm) | _ \<Rightarrow> None)"

definition zb_Initialize ::
  "(string option \<times> bool option) list option option \<Rightarrow> 'm zenoh_channel_backend \<Rightarrow>
   (zenoh_error, 'm zenoh_channel_backend) outcome" where
  "zb_Initialize options_node b =
     (let (old, new) = atomic_exchange (zb_state b) kInit; b = b\<lparr>zb_state := new\<rparr> in
      if old \<noteq> kPreInit then (Some ZbInitializedTwice, b)
      else case options_node of
        None \<Rightarrow> (None, b)
      | Some pubs \<Rightarrow>
          (case decode_seq decode_shm_option pubs of
             None \<Rightarrow> (Some ZbBadNode, b)
           | Some opts \<Rightarrow> (None, b\<lparr>zb_options := opts\<rparr>)))"

definition zb_Start :: "'m zenoh_channel_backend \<Rightarrow> (zenoh_error, 'm zenoh_channel_backend) outcome" where
  "zb_Start b =
     (let (old, new) = atomic_exchange (zb_state b) kStart; b = b\<lparr>zb_state := new\<rparr> in
      if old \<noteq> kInit then (Some ZbNotInit, b) else (None, b))"

definition zb_Shutdown :: "'m zenoh_channel_backend \<Rightarrow> 'm zenoh_channel_backend" where
  "zb_Shutdown b = b\<lparr>zb_state := kShutdown\<rparr>"

interpretation zb: lifecycle zb_state zb_Initialize zb_Start zb_Shutdown
  by unfold_locales
    (auto simp: zb_Initialize_def zb_Start_def zb_Shutdown_def atomic_exchange_def Let_def
      split: option.splits if_splits)

section \<open>Registration\<close>

definition zenoh_pattern :: "string \<Rightarrow> string \<Rightarrow> string \<Rightarrow> string" where
  "zenoh_pattern limit_domain topic_name msg_type =
     ''channel/'' @ UrlEncode topic_name True @ ''/'' @ UrlEncode msg_type True @ limit_domain"

definition zb_RegisterPublishType ::
  "zenoh_env \<Rightarrow> 'm topic_info \<Rightarrow> 'm zenoh_channel_backend \<Rightarrow> bool \<times> 'm zenoh_channel_backend" where
  "zb_RegisterPublishType env info b =
     (if zb_state b \<noteq> kInit then (False, b)
      else
        let shm_enabled = (case find_option (ze_regex env) (ti_topic_name info) (zb_options b) of None \<Rightarrow> False | Some shm \<Rightarrow> shm);
            pattern = zenoh_pattern (zb_domain b) (ti_topic_name info) (ti_msg_type info)
        in (True, b\<lparr>zb_manager := zm_RegisterPublisher (ze_declared env) pattern shm_enabled (zb_manager b),
                    zb_sizes := AList.update pattern (zb_shm_init_loan_size b) (zb_sizes b)\<rparr>))"

text \<open>The handler is named by its pattern: it holds the tool that is made for it.\<close>

definition zb_Subscribe ::
  "zenoh_env \<Rightarrow> 'm subscribe_wrapper \<Rightarrow> 'm zenoh_channel_backend \<Rightarrow> bool \<times> 'm zenoh_channel_backend" where
  "zb_Subscribe env w b =
     (if zb_state b \<noteq> kInit then (False, b)
      else
        let pattern = zenoh_pattern (zb_domain b) (ti_topic_name (sw_info w)) (ti_msg_type (sw_info w))
        in case map_of (zb_tools b) pattern of
          Some tool \<Rightarrow> (True, b\<lparr>zb_tools := AList.update pattern (AddSubscribeWrapper w tool) (zb_tools b)\<rparr>)
        | None \<Rightarrow>
            (True, b\<lparr>zb_tools := emplace pattern (AddSubscribeWrapper w \<lparr>st_subs = [], st_require = []\<rparr>) (zb_tools b),
                     zb_manager := zm_RegisterSubscriber (ze_declared env) pattern pattern (zb_manager b)\<rparr>))"

section \<open>Publishing\<close>

text \<open>What the shared memory path finds to send: a cached serialisation, or what the type support writes.\<close>

definition SerializeMsgSupportedZenoh :: "'m msg_wrapper \<Rightarrow> string \<Rightarrow> bytes option \<times> bytes option" where
  "SerializeMsgSupportedZenoh w serialization_type =
     (map_of (mw_cache w) serialization_type,
      Option.bind (mw_msg w) (ts_serialize (ti_support (mw_info w)) serialization_type))"

definition put_channel_header :: "bool \<Rightarrow> string \<Rightarrow> string list \<Rightarrow> buffer_operator \<Rightarrow> (buffer_error, buffer_operator) result" where
  "put_channel_header little serialization_type kvs b =
     bindR (SetString little (octets serialization_type) kUInt8 b) (put_meta little kvs)"

definition zb_publish_shm ::
  "zenoh_env \<Rightarrow> string \<Rightarrow> string \<Rightarrow> string list \<Rightarrow> 'm msg_wrapper \<Rightarrow> 'm zenoh_channel_backend \<Rightarrow> (nat \<times> shm_end) option" where
  "zb_publish_shm env topic t kvs w b =
     (let (cache, ser) = SerializeMsgSupportedZenoh w t;
          loan_size = (case map_of (zb_sizes b) topic of None \<Rightarrow> 0 | Some n \<Rightarrow> n)
      in shm_loop (shm_attempt (ze_addr env) (ze_alloc env) (put_channel_header (ze_little env) t kvs)
           (1 + length t + context_meta_kv_size kvs) id
           (map_option (ze_segment env) cache) (map_option (ze_segment env) ser)) 0 False loan_size)"

text \<open>
  The other path. The sizes are signed 32-bit integers there: a negative size makes the vector
  throw, and a size with no room for the four bytes overflows.
\<close>

definition zb_publish_net ::
  "zenoh_env \<Rightarrow> string \<Rightarrow> string \<Rightarrow> string list \<Rightarrow> 'm msg_wrapper \<Rightarrow> (zenoh_error, string \<times> byte list) result \<times> 'm msg_wrapper" where
  "zb_publish_net env topic t kvs w =
     (case SerializeMsgWithCache w t of
        Inl e \<Rightarrow> (Inl (ZbSerialize e), w)
      | Inr (msg, w) \<Rightarrow>
          let segs = ze_segment env msg;
              data_size = sint (of_nat (1 + length t + context_meta_kv_size kvs + sum_list (map length segs)) :: 32 word);
              pkg_size = data_size + 4
          in if pkg_size < 0 \<or> 2 ^ 31 \<le> pkg_size then (Inl ZbSize, w)
             else case bindR (SetUint32 (ze_little env) (word_of_int data_size) (mk_buffer_operator (ze_addr env) (replicate (nat pkg_size) 0)))
                         (put_channel_body (ze_little env) t kvs segs) of
               Inl e \<Rightarrow> (Inl (ZbBuffer e), w)
             | Inr buf \<Rightarrow> (Inr (topic, bo_mem buf), w))"

text \<open>\<open>None\<close> is a call that never returns.\<close>

definition zb_Publish ::
  "zenoh_env \<Rightarrow> 'm zenoh_channel_backend \<Rightarrow> 'm msg_wrapper \<Rightarrow>
   ((zenoh_error, string \<times> byte list) result \<times> 'm msg_wrapper \<times> 'm zenoh_channel_backend) option" where
  "zb_Publish env b w =
     (if zb_state b \<noteq> kStart then Some (Inl ZbNotStart, w, b)
      else
        let topic = zenoh_pattern (zb_domain b) (ti_topic_name (mw_info w)) (ti_msg_type (mw_info w)) in
        case map_of (zm_pubs (zb_manager b)) topic of
          None \<Rightarrow> Some (Inl (ZbNotRegistered topic), w, b)
        | Some shm_enabled \<Rightarrow>
            let t = publish_type w; kvs = GetMetaKeyValsArray (mw_ctx w) in
            if \<not> length kvs div 2 \<le> 255 then Some (Inl ZbTooMuchMeta, w, b)
            else if \<not> shm_enabled then (case zb_publish_net env topic t kvs w of (r, w) \<Rightarrow> Some (r, w, b))
            else case zb_publish_shm env topic t kvs w b of
              None \<Rightarrow> None
            | Some (n, r) \<Rightarrow>
                let b = b\<lparr>zb_sizes := AList.update topic n (zb_sizes b)\<rparr> in
                (case r of
                   ShmPoolShort \<Rightarrow> (case zb_publish_net env topic t kvs w of (r, w) \<Rightarrow> Some (r, w, b))
                 | ShmThrows e \<Rightarrow> Some (Inl (ZbBuffer e), w, b)
                 | ShmFailed \<Rightarrow> Some (Inl ZbShmSerialize, w, b)
                 | ShmOverrun \<Rightarrow> Some (Inl ZbOverrun, w, b)
                 | ShmWritten mem \<Rightarrow>
                     let msg_size = (case SerializeMsgSupportedZenoh w t of
                           (Some bs, _) \<Rightarrow> length bs | (None, Some bs) \<Rightarrow> length bs | (None, None) \<Rightarrow> 0)
                     in Some (Inr (topic, SetBufFromUint32 (ze_little env)
                                     (of_nat (1 + length t + context_meta_kv_size kvs + msg_size)) @ drop 4 mem), w, b)))"

section \<open>Receiving\<close>

definition zb_handle ::
  "zenoh_env \<Rightarrow> 'm subscribe_tool \<Rightarrow> byte list \<Rightarrow> (handle_error option \<times> 'm deliveries) option" where
  "zb_handle env tool payload =
     (case zenoh_region (ze_little env) (ze_addr env) payload of
        None \<Rightarrow> None
      | Some buf \<Rightarrow>
          (case get_channel_body (ze_little env) ''zenoh'' buf of
             Inl e \<Rightarrow> if e = OutOfRegion then None else Some (Some (HandlerBuffer e), [])
           | Inr (cx, t, msg) \<Rightarrow> Some (apfst (map_option HandlerMsg) (DoSubscribeCallback_data cx t msg tool))))"

text \<open>Zenoh gives a package to every subscription declared on its key.\<close>

definition zb_receive ::
  "zenoh_env \<Rightarrow> 'm zenoh_channel_backend \<Rightarrow> string \<Rightarrow> byte list \<Rightarrow> (handle_error option \<times> 'm deliveries) option list" where
  "zb_receive env b topic payload =
     map (\<lambda>(_, h). Option.bind (map_of (zb_tools b) h) (\<lambda>tool. zb_handle env tool payload))
       (filter (\<lambda>(k, _). k = topic) (zm_subs (zb_manager b)))"

section \<open>From publisher to subscriber\<close>

definition zenoh_sub_pattern :: "string \<Rightarrow> 'm subscribe_wrapper \<Rightarrow> string" where
  "zenoh_sub_pattern limit_domain w = zenoh_pattern limit_domain (ti_topic_name (sw_info w)) (ti_msg_type (sw_info w))"

lemma zenoh_pattern_inject:
  "zenoh_pattern d topic ty = zenoh_pattern d topic' ty' \<longleftrightarrow> topic = topic' \<and> ty = ty'"
proof -
  have "channel_pattern t y = ''/'' @ zenoh_pattern [] t y" for t y by (simp add: channel_pattern_def zenoh_pattern_def)
  then have "zenoh_pattern [] topic ty = zenoh_pattern [] topic' ty' \<longleftrightarrow> topic = topic' \<and> ty = ty'"
    using pattern_inject [of topic ty topic' ty'] by simp
  moreover have "zenoh_pattern d t y = zenoh_pattern [] t y @ d" for t y by (simp add: zenoh_pattern_def)
  ultimately show ?thesis by simp
qed

lemma filter_key: "distinct (map fst m) \<Longrightarrow> map_of m k = Some v \<Longrightarrow> filter (\<lambda>(k', _). k' = k) m = [(k, v)]"
proof (induction m)
  case (Cons p m)
  obtain a x where p: "p = (a, x)" by (cases p)
  show ?case
  proof (cases "a = k")
    case True
    then have "k \<notin> fst ` set m" using Cons.prems(1) by (simp add: p)
    then have "filter (\<lambda>(k', _). k' = k) m = []" by (force simp: filter_empty_conv)
    then show ?thesis using True Cons.prems(2) by (simp add: p)
  next
    case False
    then show ?thesis using Cons by (simp add: p)
  qed
qed simp

text \<open>A backend that takes subscriptions: every declaration succeeds, and the tables agree.\<close>

definition can_subscribe_zenoh :: "zenoh_env \<Rightarrow> string \<Rightarrow> 'm zenoh_channel_backend \<Rightarrow> bool" where
  "can_subscribe_zenoh env d b \<longleftrightarrow> zb_state b = kInit \<and> (\<forall>k. ze_declared env k) \<and> zb_domain b = d \<and>
     distinct (map fst (zm_subs (zb_manager b))) \<and> fst ` set (zm_subs (zb_manager b)) = fst ` set (zb_tools b)"

lemma zb_Subscribe_known:
  assumes "can_subscribe_zenoh env d b" "map_of (zb_tools b) (zenoh_sub_pattern d w) = Some tool"
  shows "zb_Subscribe env w b = (True, b\<lparr>zb_tools := AList.update (zenoh_sub_pattern d w) (AddSubscribeWrapper w tool) (zb_tools b)\<rparr>)"
  using assms by (auto simp: zb_Subscribe_def can_subscribe_zenoh_def zenoh_sub_pattern_def Let_def)

lemma zb_Subscribe_new:
  assumes "can_subscribe_zenoh env d b" "map_of (zb_tools b) (zenoh_sub_pattern d w) = None"
  shows "zb_Subscribe env w b = (True, b\<lparr>
    zb_tools := zb_tools b @ [(zenoh_sub_pattern d w, AddSubscribeWrapper w \<lparr>st_subs = [], st_require = []\<rparr>)],
    zb_manager := (zb_manager b)\<lparr>zm_subs := zm_subs (zb_manager b) @ [(zenoh_sub_pattern d w, zenoh_sub_pattern d w)]\<rparr>\<rparr>)"
  using assms
  by (auto simp: zb_Subscribe_def can_subscribe_zenoh_def zenoh_sub_pattern_def Let_def emplace_def zm_RegisterSubscriber_def)

lemma fst_set_update: "map_of m k \<noteq> None \<Longrightarrow> fst ` set (AList.update k v m) = fst ` set m"
proof -
  assume "map_of m k \<noteq> None"
  then have "k \<in> set (map fst m)" by (auto simp: map_of_eq_None_iff)
  then have "set (map fst (AList.update k v m)) = set (map fst m)" by (simp add: update_keys)
  then show ?thesis by simp
qed

interpretation zenoh: subscription_tables "zenoh_sub_pattern d" zb_tools "\<lambda>b. zm_subs (zb_manager b)"
  "can_subscribe_zenoh env d" "zb_Subscribe env :: 'm subscribe_wrapper \<Rightarrow> _" for env d
proof
  fix b :: "'m zenoh_channel_backend" and w :: "'m subscribe_wrapper" assume ready: "can_subscribe_zenoh env d b"
  show "fst (zb_Subscribe env w b) \<and> can_subscribe_zenoh env d (snd (zb_Subscribe env w b))"
  proof (cases "map_of (zb_tools b) (zenoh_sub_pattern d w)")
    case None
    then have "zenoh_sub_pattern d w \<notin> fst ` set (zb_tools b)" by (simp add: map_of_eq_None_iff)
    then show ?thesis using ready zb_Subscribe_new [OF ready None] by (simp add: can_subscribe_zenoh_def)
  next
    case (Some tool)
    then show ?thesis using ready zb_Subscribe_known [OF ready Some] fst_set_update [of "zb_tools b" "zenoh_sub_pattern d w"]
      by (simp add: can_subscribe_zenoh_def)
  qed
next
  fix b :: "'m zenoh_channel_backend" and w :: "'m subscribe_wrapper" and tool assume ready: "can_subscribe_zenoh env d b" and known: "map_of (zb_tools b) (zenoh_sub_pattern d w) = Some tool"
  show "map_of (zb_tools (snd (zb_Subscribe env w b))) = (map_of (zb_tools b))(zenoh_sub_pattern d w \<mapsto> AddSubscribeWrapper w tool) \<and>
      map_of (zm_subs (zb_manager (snd (zb_Subscribe env w b)))) = map_of (zm_subs (zb_manager b))"
    using zb_Subscribe_known [OF ready known] by (simp add: update_conv' fun_eq_iff)
next
  fix b :: "'m zenoh_channel_backend" and w :: "'m subscribe_wrapper" assume ready: "can_subscribe_zenoh env d b" and new: "map_of (zb_tools b) (zenoh_sub_pattern d w) = None"
    "map_of (zm_subs (zb_manager b)) (zenoh_sub_pattern d w) = None"
  show "map_of (zb_tools (snd (zb_Subscribe env w b))) =
        (map_of (zb_tools b))(zenoh_sub_pattern d w \<mapsto> AddSubscribeWrapper w \<lparr>st_subs = [], st_require = []\<rparr>) \<and>
      map_of (zm_subs (zb_manager (snd (zb_Subscribe env w b)))) =
        (map_of (zm_subs (zb_manager b)))(zenoh_sub_pattern d w \<mapsto> zenoh_sub_pattern d w)"
    using zb_Subscribe_new [OF ready new(1)] new by (auto simp: map_add_def fun_eq_iff split: option.splits)
qed

lemma put_channel_header_writes:
  assumes "length t < 2 ^ 62" "\<forall>s \<in> set kvs. length s < 2 ^ 62"
  shows "writes_header (put_channel_header little t kvs) (channel_body little t kvs [])"
  unfolding writes_header_def
proof (intro allI impI, elim conjE)
  fix b b' assume wf: "buf_wf b" and put: "put_channel_header little t kvs b = Inr b'"
  obtain b1 where b: "SetString little (octets t) kUInt8 b = Inr b1" "put_meta little kvs b1 = Inr b'"
    using put by (auto simp: put_channel_header_def bindR_eq_Inr)
  have w1: "wrote b (string_bytes little kUInt8 (octets t)) b1" using SetString_Inr [OF wf _ b(1)] assms(1) by simp
  have "wrote b1 (meta_bytes little kvs) b'" using put_meta_Inr [OF wrote_wf [OF w1] assms(2) b(2)] by simp
  then show "wrote b (channel_body little t kvs []) b'" using wrote_trans [OF w1] by (simp add: channel_body_def)
qed

lemma channel_body_append: "channel_body little t kvs msg = channel_body little t kvs [] @ msg"
  by (simp add: channel_body_def)

text \<open>What both paths put into a package, and behind it.\<close>

definition is_package :: "bool \<Rightarrow> 'm msg_wrapper \<Rightarrow> bytes \<Rightarrow> byte list \<Rightarrow> bool" where
  "is_package little w msg payload \<longleftrightarrow>
     (\<exists>tail. let body = channel_body little (publish_type w) (GetMetaKeyValsArray (mw_ctx w)) msg in
        payload = SetBufFromUint32 little (of_nat (length body)) @ body @ tail \<and> length payload < 2 ^ 33 \<and>
        length body < 2 ^ 32 \<and> length (publish_type w) \<le> 255 \<and> meta_fits (GetMetaKeyValsArray (mw_ctx w)))"

lemma sint_small_nat:
  assumes "0 \<le> sint (of_nat n :: 32 word)" "nat (sint (of_nat n :: 32 word)) \<ge> n"
  shows "nat (sint (of_nat n :: 32 word)) = n"
proof -
  have "sint (of_nat n :: 32 word) < 2 ^ 32" using sint_lt [of "of_nat n :: 32 word"] by simp
  then have s: "uint (of_nat n :: 32 word) = sint (of_nat n :: 32 word)"
    using assms(1) by (simp add: uint_sint take_bit_int_eq_self)
  have "unat (of_nat n :: 32 word) = n mod 2 ^ 32" by (simp add: unat_of_nat)
  then have "nat (sint (of_nat n :: 32 word)) = n mod 2 ^ 32" unfolding s [symmetric] by (metis nat_int uint_nat)
  then show ?thesis using assms(2) by (metis le_antisym mod_less_eq_dividend)
qed

text \<open>The serialised message and the metadata are objects of the publisher's address space.\<close>

definition body_in_memory :: "'m msg_wrapper \<Rightarrow> bool" where
  "body_in_memory w \<longleftrightarrow>
     length (channel_body False (publish_type w) (GetMetaKeyValsArray (mw_ctx w)) []) < 2 ^ 62 \<and>
     (\<forall>msg w'. SerializeMsgWithCache w (publish_type w) = Inr (msg, w') \<longrightarrow>
        length (channel_body False (publish_type w) (GetMetaKeyValsArray (mw_ctx w)) msg) < 2 ^ 62)"

lemma zb_publish_net_package:
  assumes "zb_publish_net env topic (publish_type w) (GetMetaKeyValsArray (mw_ctx w)) w = (Inr (topic', payload), w')"
    and "ze_addr env < 2 ^ 61" "\<forall>bs. concat (ze_segment env bs) = bs" "length (GetMetaKeyValsArray (mw_ctx w)) div 2 \<le> 255" "body_in_memory w"
  shows "\<exists>msg. SerializeMsgWithCache w (publish_type w) = Inr (msg, w') \<and> topic' = topic \<and> is_package (ze_little env) w msg payload"
proof -
  let ?t = "publish_type w" and ?kvs = "GetMetaKeyValsArray (mw_ctx w)"
  obtain msg w1 where s: "SerializeMsgWithCache w ?t = Inr (msg, w1)"
    using assms(1) by (auto simp: zb_publish_net_def split: sum.splits)
  let ?segs = "ze_segment env msg" and ?body = "channel_body (ze_little env) ?t ?kvs msg"
  have len: "sum_list (map length ?segs) = length msg" using assms(3) by (metis length_concat)
  let ?total = "1 + length ?t + context_meta_kv_size ?kvs + length msg"
  have total: "length ?body = ?total" by (simp add: length_channel_body)
  have mem: "?total < 2 ^ 62" using assms(5) s by (auto simp: body_in_memory_def length_channel_body)
  obtain d where d_def: "d = sint (of_nat ?total :: 32 word)" by blast
  have d: "0 \<le> d + 4" "d + 4 < 2 ^ 31" unfolding d_def using assms(1) s len by (auto simp: zb_publish_net_def Let_def split: if_splits)
  let ?b = "mk_buffer_operator (ze_addr env) (replicate (nat (d + 4)) 0)"
  obtain b0 buf where b: "SetUint32 (ze_little env) (word_of_int d) ?b = Inr b0"
    "put_channel_body (ze_little env) ?t ?kvs ?segs b0 = Inr buf" "payload = bo_mem buf" "w' = w1" "topic' = topic"
    using assms(1) s len d unfolding d_def by (auto simp: zb_publish_net_def Let_def bindR_eq_Inr split: sum.splits)
  have n: "nat (d + 4) < 2 ^ 31" using d by (simp add: nat_less_iff)
  then have room: "buf_wf ?b" "room ?b = nat (d + 4)" "out ?b = []" using fresh_buffer [of "ze_addr env" "nat (d + 4)"] assms(2) by simp_all
  have w0: "wrote ?b (SetBufFromUint32 (ze_little env) (word_of_int d)) b0"
    using SetBuffer_Inr [OF room(1) _ b(1) [unfolded SetUint32_def]] by (simp add: u32c.length_encode)
  have four: "length (SetBufFromUint32 (ze_little env) (word_of_int d)) = 4" by (rule u32c.length_encode)
  have ge: "4 \<le> nat (d + 4)" using w0 room(2) four by (simp add: wrote_def)
  then have nd: "nat (d + 4) = nat d + 4" "0 \<le> d" by linarith+
  have small: "length ?t < 2 ^ 62 \<and> (\<forall>s \<in> set ?kvs. length s < 2 ^ 62) \<and> length (concat ?segs) < 2 ^ 63 \<Longrightarrow>
    wrote b0 ?body buf \<and> length ?t \<le> 255 \<and> (\<forall>s \<in> set ?kvs. length s \<le> 65535)"
    using put_channel_body_Inr [OF wrote_wf [OF w0] b(2)] assms(3) by simp
  have "\<forall>s \<in> set ?kvs. length s < 2 ^ 62" using mem kvs_small [of _ ?kvs] by fastforce
  moreover have "length ?t < 2 ^ 62" "length (concat ?segs) < 2 ^ 63" using mem assms(3) by simp_all
  ultimately have w: "wrote b0 ?body buf" "length ?t \<le> 255" "\<forall>s \<in> set ?kvs. length s \<le> 65535" using small by blast+
  have "?total \<le> nat d" using w0 w(1) room(2) nd four total by (simp add: wrote_def)
  then have eq: "nat d = ?total" using sint_small_nat [of ?total] nd(2) unfolding d_def by blast
  then have "d = int (length ?body)" using nd(2) total by simp
  then have d': "(word_of_int d :: u32) = of_nat (length ?body)" by simp
  have "bo_mem buf = SetBufFromUint32 (ze_little env) (word_of_int d) @ ?body"
    by (rule wrote_all [OF wrote_trans [OF w0 w(1)] room(3)]) (use room(2) nd(1) eq total four in simp)
  then have "payload = SetBufFromUint32 (ze_little env) (of_nat (length ?body)) @ ?body @ []" using b(3) d' by simp
  moreover have "?total < 2 ^ 31" using eq n nd(1) by linarith
  ultimately have "is_package (ze_little env) w msg payload"
    using w(2,3) assms(4) total unfolding is_package_def Let_def meta_fits_def
    by (intro exI [of _ "[]"]) (simp add: u32c.length_encode)
  then show ?thesis using s b(4,5) by blast
qed

lemma zb_Publish_package:
  assumes "zb_Publish env b w = Some (Inr (topic, payload), w', b')"
    and "ze_addr env < 2 ^ 61" "lends (ze_alloc env) pool" "pool \<le> 2 ^ 32" "\<forall>bs. concat (ze_segment env bs) = bs"
    and "coherent m w" "codec (ti_support (mw_info w))" "publish_type w \<in> set (ts_types (ti_support (mw_info w)))"
    and "body_in_memory w"
  shows "\<exists>msg. ts_deserialize (ti_support (mw_info w)) (publish_type w) msg = Some m \<and>
    topic = zenoh_pattern (zb_domain b) (ti_topic_name (mw_info w)) (ti_msg_type (mw_info w)) \<and>
    is_package (ze_little env) w msg payload"
proof -
  let ?t = "publish_type w" and ?kvs = "GetMetaKeyValsArray (mw_ctx w)"
  let ?topic = "zenoh_pattern (zb_domain b) (ti_topic_name (mw_info w)) (ti_msg_type (mw_info w))"
  have st: "zb_state b = kStart" "length ?kvs div 2 \<le> 255"
    using assms(1) by (auto simp: zb_Publish_def Let_def split: if_splits option.splits)
  obtain shm where shm: "map_of (zm_pubs (zb_manager b)) ?topic = Some shm"
    using assms(1) st by (auto simp: zb_Publish_def Let_def split: option.splits)
  have net: ?thesis if n: "zb_publish_net env ?topic ?t ?kvs w = (Inr (topic, payload), w1)" for w1
  proof -
    obtain msg where msg: "SerializeMsgWithCache w ?t = Inr (msg, w1)" "topic = ?topic" "is_package (ze_little env) w msg payload"
      using zb_publish_net_package [OF n assms(2,5) st(2) assms(9)] by blast
    then show ?thesis using SerializeMsgWithCache_coherent [OF assms(6-8) msg(1)] by blast
  qed
  show ?thesis
  proof (cases shm)
    case False
    then show ?thesis using assms(1) st shm net by (auto simp: zb_Publish_def Let_def split: prod.splits)
  next
    case True
    obtain n r where loop: "zb_publish_shm env ?topic ?t ?kvs w b = Some (n, r)"
      using assms(1) st shm True by (auto simp: zb_Publish_def Let_def split: option.splits)
    show ?thesis
    proof (cases "r = ShmPoolShort")
      case True
      then show ?thesis using assms(1) st shm \<open>shm\<close> net loop by (auto simp: zb_Publish_def Let_def split: prod.splits)
    next
      case False
      obtain cache ser where cs: "SerializeMsgSupportedZenoh w ?t = (cache, ser)" by fastforce
      let ?size = "case (cache, ser) of (Some bs, _) \<Rightarrow> length bs | (None, Some bs) \<Rightarrow> length bs | (None, None) \<Rightarrow> 0"
      obtain mem where mem: "r = ShmWritten mem" "topic = ?topic"
        "payload = SetBufFromUint32 (ze_little env) (of_nat (1 + length ?t + context_meta_kv_size ?kvs + ?size)) @ drop 4 mem"
        using assms(1) st shm \<open>shm\<close> loop False cs by (cases r) (auto simp: zb_Publish_def Let_def split: prod.splits)
      let ?header = "channel_body (ze_little env) ?t ?kvs []"
      have hl: "1 + length ?t + context_meta_kv_size ?kvs = length ?header" by (simp add: length_channel_body)
      have "length ?header < 2 ^ 62" using assms(9) by (simp add: body_in_memory_def length_channel_body)
      then have small: "length ?t < 2 ^ 62" "\<forall>s \<in> set ?kvs. length s < 2 ^ 62"
        using kvs_small [of _ ?kvs] unfolding length_channel_body by fastforce+
      note writes = put_channel_header_writes [OF small, of "ze_little env"]
      have run: "shm_loop (shm_attempt (ze_addr env) (ze_alloc env) (put_channel_header (ze_little env) ?t ?kvs) (length ?header) id
          (map_option (ze_segment env) cache) (map_option (ze_segment env) ser)) 0 False
          (case map_of (zb_sizes b) ?topic of None \<Rightarrow> 0 | Some n \<Rightarrow> n) = Some (n, ShmWritten mem)"
        using loop cs unfolding mem(1) hl [symmetric] by (simp add: zb_publish_shm_def)
      have addr: "ze_addr env < 2 ^ 62" using assms(2) by simp
      obtain segs pre tail b1 b2 where w: "mem = pre @ ?header @ concat segs @ tail" "length pre = 4" "length mem < pool"
        "buf_wf b1" "put_channel_header (ze_little env) ?t ?kvs b1 = Inr b2"
        "case map_option (ze_segment env) cache of Some cs \<Rightarrow> segs = cs | None \<Rightarrow> map_option (ze_segment env) ser = Some segs"
        using shm_loop_written [OF run writes assms(3) addr] by blast
      let ?msg = "concat segs" and ?body = "channel_body (ze_little env) ?t ?kvs (concat segs)"
      have found: "(cache = Some ?msg \<or> cache = None \<and> ser = Some ?msg) \<and> ?size = length ?msg"
        using w(6) assms(5) by (auto split: option.splits)
      have body: "?body = ?header @ ?msg" by (rule channel_body_append)
      obtain b3 where b3: "SetString (ze_little env) (octets ?t) kUInt8 b1 = Inr b3" "put_meta (ze_little env) ?kvs b3 = Inr b2"
        using w(5) by (auto simp: put_channel_header_def bindR_eq_Inr)
      have t: "length ?t \<le> 255" "wrote b1 (string_bytes (ze_little env) kUInt8 (octets ?t)) b3"
        using SetString_Inr [OF w(4) _ b3(1)] small(1) by simp_all
      have fits: "meta_fits ?kvs" using put_meta_Inr [OF wrote_wf [OF t(2)] small(2) b3(2)] st(2) by (simp add: meta_fits_def)
      have "drop 4 mem = ?body @ tail" using w(1,2) body by simp
      moreover have "1 + length ?t + context_meta_kv_size ?kvs + ?size = length ?body" using found by (simp add: length_channel_body)
      ultimately have p: "payload = SetBufFromUint32 (ze_little env) (of_nat (length ?body)) @ ?body @ tail" using mem(3) by simp
      have "length (?body @ tail) < 2 ^ 32" using w(1-3) assms(4) body by simp
      then have pkg: "is_package (ze_little env) w ?msg payload"
        using p t(1) fits unfolding is_package_def Let_def by (intro exI [of _ tail]) (simp add: u32c.length_encode)
      have "ts_deserialize (ti_support (mw_info w)) ?t ?msg = Some m"
      proof (cases cache)
        case (Some c)
        then have "(?t, ?msg) \<in> set (mw_cache w)" using found cs map_of_SomeD by (fastforce simp: SerializeMsgSupportedZenoh_def)
        then show ?thesis using assms(6) by (auto simp: coherent_def)
      next
        case None
        then obtain x where "mw_msg w = Some x" "ts_serialize (ti_support (mw_info w)) ?t x = Some ?msg"
          using found cs by (auto simp: SerializeMsgSupportedZenoh_def bind_eq_Some_conv)
        then show ?thesis using assms(6,7) by (auto simp: coherent_def codec_def)
      qed
      then show ?thesis using pkg mem(2) by blast
    qed
  qed
qed

definition zenoh_kind :: net_kind where
  "zenoh_kind = \<lparr>nk_name = ''zenoh'', nk_prefix = ''zenoh://'', nk_guards_publish = True\<rparr>"

text \<open>
  C17. Whatever way a message takes, through a buffer or through shared memory of whatever loan
  size, serialised for the occasion or taken from the cache, the package it becomes is handed
  to exactly the subscribers of its topic and type, in the order they subscribed, and each
  finds the message and the publisher's metadata.
\<close>

theorem zenoh_package_reaches_subscribers:
  assumes "zb_Publish env pb w = Some (Inr (topic, payload), w', pb')"
    and "ze_addr env < 2 ^ 61" "lends (ze_alloc env) pool" "pool \<le> 2 ^ 32" "\<forall>bs. concat (ze_segment env bs) = bs"
    and "coherent m w" "codec (ti_support (mw_info w))" "publish_type w \<in> set (ts_types (ti_support (mw_info w)))"
    and "body_in_memory w" "distinct (map fst (cx_meta (mw_ctx w)))"
    and "can_subscribe_zenoh env' (zb_domain pb) b" "zb_tools b = []" "zm_subs (zb_manager b) = []" "ze_addr env' < 2 ^ 61"
    and "sb = snd (zb_Start (fold (\<lambda>s b. snd (zb_Subscribe env' s b)) subs b))"
    and "\<forall>s \<in> set subs. on_topic w s \<longrightarrow> ti_support (sw_info s) = ti_support (mw_info w)"
    and "\<exists>s \<in> set subs. on_topic w s"
  shows "\<exists>ds. zb_receive env' sb topic payload = [Some (None, ds)] \<and> map fst ds = filter (on_topic w) subs \<and>
    (\<forall>(s, x) \<in> set ds. sees m zenoh_kind w s x)"
proof -
  let ?t = "publish_type w" and ?ss = "filter (on_topic w) subs" and ?kvs = "GetMetaKeyValsArray (mw_ctx w)"
  let ?d = "zb_domain pb" and ?sb = "fold (\<lambda>s b. snd (zb_Subscribe env' s b)) subs b"
  obtain msg where msg: "ts_deserialize (ti_support (mw_info w)) ?t msg = Some m"
    and topic: "topic = zenoh_pattern ?d (ti_topic_name (mw_info w)) (ti_msg_type (mw_info w))"
    and pkg: "is_package (ze_little env) w msg payload"
    using zb_Publish_package [OF assms(1-9)] by blast
  have on: "zenoh_sub_pattern ?d s = topic \<longleftrightarrow> on_topic w s" for s
    by (auto simp: zenoh_sub_pattern_def topic zenoh_pattern_inject on_topic_def)
  have sv: "served_by (zenoh_sub_pattern ?d) subs (zb_tools ?sb) (zm_subs (zb_manager ?sb))" "can_subscribe_zenoh env' ?d ?sb"
    using zenoh.fold_served [OF assms(11-13), of subs] by simp_all
  have same: "zb_tools sb = zb_tools ?sb" "zb_manager sb = zb_manager ?sb"
    by (simp_all add: assms(15) zb_Start_def atomic_exchange_def Let_def)
  have ss: "filter (\<lambda>s. zenoh_sub_pattern ?d s = topic) subs = ?ss" "?ss \<noteq> []"
    using assms(17) by (auto simp: on filter_empty_conv)
  have look: "map_of (zb_tools sb) topic = Some (tool_of ?ss)" "map_of (zm_subs (zb_manager sb)) topic = Some topic"
    using sv(1) ss by (simp_all add: served_by_def Let_def same)
  have "distinct (map fst (zm_subs (zb_manager sb)))" using sv(2) by (simp add: can_subscribe_zenoh_def same)
  then have one: "filter (\<lambda>(k, _). k = topic) (zm_subs (zb_manager sb)) = [(topic, topic)]"
    using look(2) by (rule filter_key)
  let ?body = "channel_body (ze_little env) ?t ?kvs msg"
  obtain tail where p: "payload = SetBufFromUint32 (ze_little env) (of_nat (length ?body)) @ ?body @ tail" "length ?body < 2 ^ 32"
    "length ?t \<le> 255" "meta_fits ?kvs" using pkg by (auto simp: is_package_def Let_def)
  let ?b = "mk_buffer_operator (ze_addr env' + 4) ?body"
  have reg: "zenoh_region (ze_little env') (ze_addr env') payload = Some ?b" unfolding p(1) by (rule zenoh_region_prefixed [OF p(2)])
  have wf: "buf_wf ?b" using assms(14) p(2) buf_wf_mk [of "ze_addr env' + 4" ?body] by simp
  have r: "rest ?b = channel_body (ze_little env') ?t ?kvs msg"
    using channel_body_host [of "ze_little env"] channel_body_host [of "ze_little env'"] by (simp add: rest_mk)
  have "length (rest ?b) < 2 ^ 63" using p(2) by (simp add: rest_mk)
  then have "get_channel_body (ze_little env') ''zenoh'' ?b = Inr (received_context ''zenoh'' ?t (cx_meta (mw_ctx w)), ?t, msg)"
    by (rule get_channel_body_stream [OF wf r _ p(3,4)])
  then have h: "zb_handle env' (tool_of ?ss) payload = Some (apfst (map_option HandlerMsg)
      (DoSubscribeCallback_data (received_context ''zenoh'' ?t (cx_meta (mw_ctx w))) ?t msg (tool_of ?ss)))"
    by (simp add: zb_handle_def reg)
  have "\<forall>s \<in> set ?ss. ts_deserialize (ti_support (sw_info s)) ?t msg = Some m" using assms(16) msg by auto
  from DoSubscribeCallback_data_sees [OF this assms(10), of zenoh_kind]
  obtain ds where "zb_handle env' (tool_of ?ss) payload = Some (None, ds)" "map fst ds = ?ss" "\<forall>(s, x) \<in> set ds. sees m zenoh_kind w s x"
    using h by (auto simp: zenoh_kind_def)
  then show ?thesis by (simp add: zb_receive_def one look(1))
qed

text \<open>
  C37. Publishing returns: the loop over loans ends once the pool cannot lend the doubled size or
  the message fits, as long as the kept loan sizes are positive; and they stay positive. For a
  message whose serialisation is cached it takes a pool that runs out.
\<close>

theorem zenoh_publish_returns:
  assumes "lends (ze_alloc env) pool" "ze_addr env < 2 ^ 61" "body_in_memory w"
    and "\<forall>topic shm. map_of (zm_pubs (zb_manager b)) topic = Some shm \<longrightarrow> (\<exists>n > 0. map_of (zb_sizes b) topic = Some n)"
    and "map_of (mw_cache w) (publish_type w) = None \<or> runs_out (ze_alloc env)"
  shows "\<exists>r w' b'. zb_Publish env b w = Some (r, w', b') \<and> zb_manager b' = zb_manager b \<and>
    (\<forall>topic shm. map_of (zm_pubs (zb_manager b')) topic = Some shm \<longrightarrow> (\<exists>n > 0. map_of (zb_sizes b') topic = Some n))"
proof -
  let ?t = "publish_type w" and ?kvs = "GetMetaKeyValsArray (mw_ctx w)"
  let ?topic = "zenoh_pattern (zb_domain b) (ti_topic_name (mw_info w)) (ti_msg_type (mw_info w))"
  show ?thesis
  proof (cases "map_of (zm_pubs (zb_manager b)) ?topic")
    case None
    then show ?thesis using assms(4) by (auto simp: zb_Publish_def Let_def)
  next
    case (Some shm)
    let ?header = "channel_body (ze_little env) ?t ?kvs []"
    have hl: "1 + length ?t + context_meta_kv_size ?kvs = length ?header" by (simp add: length_channel_body)
    have "length ?header < 2 ^ 62" using assms(3) by (simp add: body_in_memory_def length_channel_body)
    then have small: "length ?t < 2 ^ 62" "\<forall>s \<in> set ?kvs. length s < 2 ^ 62"
      using kvs_small [of _ ?kvs] unfolding length_channel_body by fastforce+
    obtain n where n: "0 < n" "map_of (zb_sizes b) ?topic = Some n" using assms(4) Some by blast
    obtain cache ser where cs: "SerializeMsgSupportedZenoh w ?t = (cache, ser)" by fastforce
    have addr: "ze_addr env < 2 ^ 62" using assms(2) by simp
    have stop: "map_option (ze_segment env) cache = None \<or> runs_out (ze_alloc env)"
      using assms(5) cs by (auto simp: SerializeMsgSupportedZenoh_def)
    let ?loop = "shm_loop (shm_attempt (ze_addr env) (ze_alloc env) (put_channel_header (ze_little env) ?t ?kvs)
      (length ?header) id (map_option (ze_segment env) cache) (map_option (ze_segment env) ser)) 0 False"
    obtain n' r where loop: "?loop n = Some (n', r)"
      using shm_loop_returns [OF put_channel_header_writes [OF small] assms(1) addr n(1) stop] by fastforce
    have pos: "0 < n'" by (rule shm_loop_positive [OF loop assms(1) n(1)])
    have shm: "zb_publish_shm env ?topic ?t ?kvs w b = Some (n', r)"
      using loop cs n(2) unfolding hl [symmetric] by (simp add: zb_publish_shm_def)
    let ?b = "b\<lparr>zb_sizes := AList.update ?topic n' (zb_sizes b)\<rparr>"
    have ok: "\<forall>topic shm. map_of (zm_pubs (zb_manager ?b)) topic = Some shm \<longrightarrow> (\<exists>n > 0. map_of (zb_sizes ?b) topic = Some n)"
      using assms(4) pos by (auto simp: update_conv')
    show ?thesis
    proof (cases "zb_state b = kStart \<and> length ?kvs div 2 \<le> 255 \<and> shm")
      case True
      obtain r1 w1 where net: "zb_publish_net env ?topic ?t ?kvs w = (r1, w1)" by fastforce
      have "\<exists>r w'. zb_Publish env b w = Some (r, w', ?b)"
        using True Some shm net by (cases r) (simp_all add: zb_Publish_def Let_def)
      then show ?thesis using ok by fastforce
    next
      case False
      then have "\<exists>r w'. zb_Publish env b w = Some (r, w', b)"
        using Some by (auto simp: zb_Publish_def Let_def split: prod.splits)
      then show ?thesis using assms(4) by fastforce
    qed
  qed
qed

lemma put_channel_header_succeeds:
  assumes "buf_wf b" "length t \<le> 255" "meta_fits kvs" "1 + length t + context_meta_kv_size kvs \<le> room b"
  shows "\<exists>b'. put_channel_header little t kvs b = Inr b' \<and> wrote b (channel_body little t kvs []) b'"
proof -
  obtain b1 where b1: "SetString little (octets t) kUInt8 b = Inr b1" "wrote b (string_bytes little kUInt8 (octets t)) b1"
    using SetString_wrote [OF assms(1), of kUInt8 "octets t" little] assms(2,4) by auto
  obtain b2 where b2: "put_meta little kvs b1 = Inr b2" "wrote b1 (meta_bytes little kvs) b2"
    using put_meta_wrote [OF wrote_wf [OF b1(2)] assms(3), of little] b1(2) assms(4) by (auto simp: wrote_def)
  then show ?thesis using b1 wrote_trans [OF b1(2) b2(2)] by (auto simp: put_channel_header_def channel_body_def)
qed

text \<open>A loan with room for the header: the header is written and the rest remains.\<close>

lemma header_written:
  assumes "length mem = n" "n < 2 ^ 61" "p < 2 ^ 61" "length t \<le> 255" "meta_fits kvs"
    and "h = 1 + length t + context_meta_kv_size kvs" "4 + h \<le> n"
  shows "\<exists>b. put_channel_header little t kvs (mk_buffer_operator (p + 4) (drop 4 mem)) = Inr b \<and> GetRemainingSize b = n - 4 - h"
proof -
  let ?b = "mk_buffer_operator (p + 4) (drop 4 mem)"
  have wf: "buf_wf ?b" using assms(1-3,7) buf_wf_mk [of "p + 4" "drop 4 mem"] by simp
  have "(p + 4 + (n - 4)) mod 2 ^ 64 = p + 4 + (n - 4)" using assms(2,3) by (intro mod_less) simp
  then have r: "room ?b = n - 4" using assms(1) by (simp add: room_def mk_buffer_operator_def)
  have fits: "1 + length t + context_meta_kv_size kvs \<le> room ?b" using assms(6,7) r by simp
  obtain b where b: "put_channel_header little t kvs ?b = Inr b" "wrote ?b (channel_body little t kvs []) b"
    using put_channel_header_succeeds [OF wf assms(4,5) fits] by blast
  have "room b + h = n - 4" using b(2) r assms(6) by (simp add: wrote_def length_channel_body)
  then show ?thesis using b(1) by (simp add: room_remaining)
qed

text \<open>
  C38. A message whose serialisation is cached and does not fit the loan kept for its topic
  uses up the shared memory: the loan grows to the right size, but the flag that asks for another
  round is not taken back, so the loop borrows that size again and again and leaves only when the
  provider lends no more. However many loans \<open>K\<close> the provider has, the message then takes the other path.
\<close>

theorem zenoh_cached_message_drains_pool:
  assumes "zb_state b = kStart" "topic = zenoh_pattern (zb_domain b) (ti_topic_name (mw_info w)) (ti_msg_type (mw_info w))"
    and "map_of (zm_pubs (zb_manager b)) topic = Some True" "map_of (zb_sizes b) topic = Some n"
    and "map_of (mw_cache w) (publish_type w) = Some bs" "\<forall>bs. concat (ze_segment env bs) = bs"
    and "length (publish_type w) \<le> 255" "meta_fits (GetMetaKeyValsArray (mw_ctx w))" "ze_addr env < 2 ^ 61"
    and "h = 1 + length (publish_type w) + context_meta_kv_size (GetMetaKeyValsArray (mw_ctx w))"
    and "4 + h \<le> n" "n < 4 + h + length bs" "4 + h + length bs < 2 ^ 61" "0 < K"
    and "\<forall>k < K. \<forall>m \<in> {n, 4 + h + length bs}. \<exists>mem. ze_alloc env k m = Some mem \<and> length mem = m"
    and "ze_alloc env K (4 + h + length bs) = None"
  shows "zb_Publish env b w =
    (case zb_publish_net env topic (publish_type w) (GetMetaKeyValsArray (mw_ctx w)) w of
       (r, w') \<Rightarrow> Some (r, w', b\<lparr>zb_sizes := AList.update topic (4 + h + length bs) (zb_sizes b)\<rparr>))"
proof -
  let ?t = "publish_type w" and ?kvs = "GetMetaKeyValsArray (mw_ctx w)"
  let ?N = "4 + h + length bs"
  let ?put = "put_channel_header (ze_little env) ?t ?kvs"
  obtain ser where cs: "SerializeMsgSupportedZenoh w ?t = (Some bs, ser)"
    using assms(5) by (simp add: SerializeMsgSupportedZenoh_def)
  let ?att = "shm_attempt (ze_addr env) (ze_alloc env) ?put h id (Some (ze_segment env bs)) (map_option (ze_segment env) ser)"
  have segl: "sum_list (map length (ze_segment env bs)) = length bs" using assms(6) by (metis length_concat)
  have wr: "\<exists>mem b. ze_alloc env k m = Some mem \<and> ?put (mk_buffer_operator (ze_addr env + 4) (drop 4 mem)) = Inr b \<and>
      GetRemainingSize b = m - 4 - h" if k: "k < K" and mm: "m \<in> {n, ?N}" for k m
  proof -
    obtain mem where m: "ze_alloc env k m = Some mem" "length mem = m" using assms(15) k mm by blast
    have "m < 2 ^ 61" "4 + h \<le> m" using mm assms(11-13) by auto
    from header_written [OF m(2) this(1) assms(9,7,8,10) this(2)] show ?thesis using m(1) by blast
  qed
  have "?att 0 False n = ShmAgain ?N True"
    using wr [of 0 n] assms(11,12,14) segl by (auto simp: shm_attempt_def Let_def)
  moreover have "shm_loop ?att (0 + 1) True ?N = Some (?N, ShmPoolShort)"
    by (rule shm_loop_drains [where K = K]) (use wr [of _ ?N] assms(14,16) in fastforce)+
  ultimately have "shm_loop ?att 0 False n = Some (?N, ShmPoolShort)" by (subst shm_loop_unfold) simp
  then have "zb_publish_shm env topic ?t ?kvs w b = Some (?N, ShmPoolShort)"
    using cs assms(4) unfolding zb_publish_shm_def assms(10) [symmetric] by simp
  moreover have "length ?kvs div 2 \<le> 255" using assms(8) by (simp add: meta_fits_def)
  ultimately show ?thesis using assms(1,3) unfolding assms(2) by (simp add: zb_Publish_def Let_def)
qed

section \<open>Examples\<close>

text \<open>A round over a loan with room for the header: it ends when the message fits too, and doubles the loan when not.\<close>

lemma shm_attempt_serialized:
  assumes "alloc k n = Some mem" "length mem = n" "n < 2 ^ 61" "p < 2 ^ 61" "length t \<le> 255" "meta_fits kvs"
    and "h = 1 + length t + context_meta_kv_size kvs" "4 + h \<le> n"
  shows "\<exists>loan. shm_attempt p alloc (put_channel_header little t kvs) h narrow None (Some [msg]) k False n =
    (if 4 + h + length msg \<le> n then ShmDone (ShmWritten loan) else ShmAgain (2 * n mod 2 ^ 64) False)"
proof -
  obtain b where b: "put_channel_header little t kvs (mk_buffer_operator (p + 4) (drop 4 mem)) = Inr b" "GetRemainingSize b = n - 4 - h"
    using header_written [OF assms(2-8)] by blast
  have "4 + h + length msg \<le> n \<longleftrightarrow> \<not> GetRemainingSize b < length msg" "\<not> n < 4" using b(2) assms(8) by linarith+
  then show ?thesis using assms(1) b(1) unfolding shm_attempt_def
    by (simp add: Let_def za_Allocate_def)
qed

text \<open>A topic in shared memory whose first loan is one byte too small for the message.\<close>

definition shm_env :: zenoh_env where
  "shm_env = \<lparr>ze_little = True, ze_addr = 0, ze_regex = (\<lambda>_ _. None), ze_declared = (\<lambda>_. True),
     ze_alloc = (\<lambda>_ n. if n < 4096 then Some (replicate n 0) else None), ze_segment = (\<lambda>bs. [bs])\<rparr>"

definition shm_backend :: "lc_state \<Rightarrow> nat zenoh_channel_backend" where
  "shm_backend st = \<lparr>zb_options = [], zb_state = st,
     zb_manager = \<lparr>zm_pubs = (if st = kStart then [(''channel/t/number'', True)] else []), zm_subs = [], zm_shm_initialized = True\<rparr>,
     zb_domain = [], zb_tools = [], zb_sizes = [(''channel/t/number'', 15)], zb_shm_init_loan_size = 1024\<rparr>"

lemma shm_env_simps:
  "ze_little shm_env" "ze_addr shm_env = 0" "ze_declared shm_env k" "ze_segment shm_env = (\<lambda>bs. [bs])"
  "ze_alloc shm_env j n = (if n < 4096 then Some (replicate n 0) else None)" "lends (ze_alloc shm_env) 4096"
  by (simp_all add: shm_env_def lends_def)

lemma wire_msg_body: "body_in_memory wire_msg"
  using wire_msg_simps(5) by (auto simp: body_in_memory_def wire_msg_simps(1,2) length_channel_body context_meta_kv_size_def)

lemma wire_msg_zenoh:
  "zenoh_pattern [] (ti_topic_name (mw_info wire_msg)) (ti_msg_type (mw_info wire_msg)) = ''channel/t/number''"
  "SerializeMsgSupportedZenoh wire_msg ''bin'' = (None, Some [7])"
  by (simp_all add: wire_msg_def number_info_def zenoh_pattern_def UrlEncode_def url_plain_def isalnum_char_def is_digit_def
      SerializeMsgSupportedZenoh_def number_support_def)

lemma shm_example:
  "\<exists>payload w' b'. zb_Publish shm_env (shm_backend kStart) wire_msg = Some (Inr (''channel/t/number'', payload), w', b')"
proof -
  let ?att = "shm_attempt 0 (ze_alloc shm_env) (put_channel_header True ''bin'' [''k'', ''v'']) 11 id None (Some [[7]])"
  have fits: "meta_fits [''k'', ''v'']" "(11 :: nat) = 1 + length ''bin'' + context_meta_kv_size [''k'', ''v'']"
    by (simp_all add: meta_fits_def context_meta_kv_size_def)
  have a: "\<exists>loan. ?att k False n = (if 4 + 11 + length [7 :: byte] \<le> n then ShmDone (ShmWritten loan) else ShmAgain (2 * n mod 2 ^ 64) False)"
    if "n < 4096" "15 \<le> n" for k n
  proof -
    have m: "ze_alloc shm_env k n = Some (replicate n 0)" "length (replicate n (0 :: byte)) = n" "4 \<le> n"
      using that by (simp_all add: shm_env_simps)
    show ?thesis by (rule shm_attempt_serialized [where mem = "replicate n 0"]) (use m fits that in simp_all)
  qed
  have "?att 0 False 15 = ShmAgain 30 False" using a [of 15 0] by simp
  moreover obtain loan where "?att 1 False 30 = ShmDone (ShmWritten loan)" using a [of 30 1] by auto
  ultimately have loop: "shm_loop ?att 0 False 15 = Some (30, ShmWritten loan)"
    by (subst shm_loop_unfold) (simp, subst shm_loop_unfold, simp)
  have h: "1 + length ''bin'' + context_meta_kv_size [''k'', ''v''] = 11" using fits(2) by simp
  have "zb_publish_shm shm_env ''channel/t/number'' ''bin'' [''k'', ''v''] wire_msg (shm_backend kStart) = Some (30, ShmWritten loan)"
    unfolding zb_publish_shm_def h using loop by (simp add: wire_msg_zenoh shm_env_simps shm_backend_def)
  moreover have "zb_state (shm_backend kStart) = kStart" "zb_domain (shm_backend kStart) = []"
    "map_of (zm_pubs (zb_manager (shm_backend kStart))) ''channel/t/number'' = Some True"
    by (simp_all add: shm_backend_def)
  ultimately show ?thesis
    by (simp add: zb_Publish_def Let_def wire_msg_simps(1,2) wire_msg_zenoh)
qed

theorem zenoh_package_reaches_subscribers_witness:
  "\<exists>b topic payload ds. zb_receive shm_env b topic payload = [Some (None, ds)] \<and>
    map fst ds = [number_sub ''a'', number_sub ''b''] \<and> (\<forall>(s, x) \<in> set ds. sees 7 zenoh_kind wire_msg s x)"
proof -
  obtain payload w' b' where p: "zb_Publish shm_env (shm_backend kStart) wire_msg = Some (Inr (''channel/t/number'', payload), w', b')"
    using shm_example by blast
  have z: "ze_addr shm_env < 2 ^ 61" "(4096 :: nat) \<le> 2 ^ 32" "\<forall>bs. concat (ze_segment shm_env bs) = bs"
    by (simp_all add: shm_env_simps)
  have b: "can_subscribe_zenoh shm_env (zb_domain (shm_backend kStart)) (shm_backend kInit)" "zb_tools (shm_backend kInit) = []"
    "zm_subs (zb_manager (shm_backend kInit)) = []"
    by (simp_all add: can_subscribe_zenoh_def shm_backend_def shm_env_simps)
  have e: "\<exists>s \<in> set [number_sub ''a'', number_sub ''b'']. on_topic wire_msg s"
    using wire_subscriber(6) by (auto simp: filter_eq_Cons_iff split: if_splits)
  show ?thesis
    by (rule exI, rule exI, rule exI)
      (rule zenoh_package_reaches_subscribers [OF p z(1) shm_env_simps(6) z(2,3) wire_msg_ok(2-4) wire_msg_body wire_msg_ok(5)
        b z(1) refl wire_subscriber(5) e, unfolded wire_subscriber(6)])
qed

theorem zenoh_publish_returns_witness:
  "\<exists>r w' b'. zb_Publish shm_env (shm_backend kStart) wire_msg = Some (r, w', b')"
proof -
  have z: "ze_addr shm_env < 2 ^ 61" by (simp add: shm_env_simps)
  have "\<forall>topic shm. map_of (zm_pubs (zb_manager (shm_backend kStart))) topic = Some shm \<longrightarrow>
      (\<exists>n > 0. map_of (zb_sizes (shm_backend kStart)) topic = Some n)" by (simp add: shm_backend_def)
  from zenoh_publish_returns [OF shm_env_simps(6) z wire_msg_body this _] show ?thesis by (fastforce simp: wire_msg_def)
qed

text \<open>A provider with three loans: the cached message of one byte takes them all.\<close>

theorem zenoh_cached_message_drains_pool_witness:
  "\<exists>r w'. zb_Publish (shm_env\<lparr>ze_alloc := (\<lambda>k n. if k < 3 then Some (replicate n 0) else None)\<rparr>)
    (shm_backend kStart) (wire_msg\<lparr>mw_cache := [(''bin'', [7])]\<rparr>) =
    Some (r, w', (shm_backend kStart)\<lparr>zb_sizes := [(''channel/t/number'', 16)]\<rparr>)"
proof -
  let ?w = "wire_msg\<lparr>mw_cache := [(''bin'', [7])]\<rparr>"
  let ?env = "shm_env\<lparr>ze_alloc := (\<lambda>k n. if k < 3 then Some (replicate n 0) else None)\<rparr>"
  have t: "publish_type ?w = ''bin''" "GetMetaKeyValsArray (mw_ctx ?w) = [''k'', ''v'']" "mw_info ?w = mw_info wire_msg"
    using wire_msg_simps(1,2) by (simp_all add: publish_type_def split: if_splits)
  have "zb_Publish ?env (shm_backend kStart) ?w =
    (case zb_publish_net ?env ''channel/t/number'' (publish_type ?w) (GetMetaKeyValsArray (mw_ctx ?w)) ?w of
       (r, w') \<Rightarrow> Some (r, w', (shm_backend kStart)\<lparr>zb_sizes := AList.update ''channel/t/number'' (4 + 11 + length [7 :: byte]) (zb_sizes (shm_backend kStart))\<rparr>))"
    by (rule zenoh_cached_message_drains_pool [where n = 15 and K = 3])
      (simp_all add: t wire_msg_simps(1,2) wire_msg_zenoh shm_env_simps shm_backend_def meta_fits_def context_meta_kv_size_def)
  then show ?thesis by (auto simp: shm_backend_def split: prod.splits)
qed

end
