(* ===== verification/ZenohRpc.thy ===== *)
theory ZenohRpc
  imports Zenoh MqttRpc
begin

text \<open>
  The zenoh rpc backend (\<open>zenoh_rpc_backend.cc\<close>). A function is a pair of zenoh nodes: requests
  are published under \<open>req/\<close> and answers under \<open>rsp/\<close> and the pattern of the function. Requests
  and answers take a buffer or shared memory as the messages of channels do; the fields are
  those of the mqtt backend, with the pattern where mqtt has the topic of the response, behind
  the length of the package.
\<close>

section \<open>State and life cycle\<close>

text \<open>\<open>zr_services\<close> are the handlers' service functions; \<open>zr_calls\<close> and \<open>zr_log\<close> are as in the other backends.\<close>

record ('q, 'p) zenoh_rpc_backend =
  zr_timeout_executor :: string
  zr_clients_options :: "(string \<times> bool) list"
  zr_servers_options :: "(string \<times> bool) list"
  zr_state :: lc_state
  zr_manager :: zenoh_manager
  zr_domain :: string
  zr_req_id :: u32
  zr_sizes :: "(string \<times> nat) list"
  zr_shm_init_loan_size :: nat
  zr_tool :: "nat client_tool option"
  zr_services :: "(string \<times> ('q, 'p) func_info) list"
  zr_calls :: "nat \<Rightarrow> ('q, 'p) invoke_wrapper option"
  zr_log :: "rpc_event list"

datatype zenoh_rpc_error = ZrInitializedTwice | ZrBadNode | ZrNoExecutorFunc | ZrNoExecutor | ZrExecutorTimer | ZrNotInit | ZrNotPreInit

record zenoh_rpc_node =
  zn_timeout_executor :: "string option"
  zn_clients_options :: "(string option \<times> bool option) list option"
  zn_servers_options :: "(string option \<times> bool option) list option"

definition decode_shm_func :: "string option \<times> bool option \<Rightarrow> (string \<times> bool) option" where
  "decode_shm_func n = (case n of (Some func_name, Some shm) \<Rightarrow> Some (func_name, shm) | _ \<Rightarrow> None)"

definition zr_decode :: "zenoh_rpc_node \<Rightarrow> (string \<times> (string \<times> bool) list \<times> (string \<times> bool) list) option" where
  "zr_decode node =
     (let timeout_executor = (case zn_timeout_executor node of None \<Rightarrow> [] | Some ex \<Rightarrow> ex)
      in Option.bind (decode_seq decode_shm_func (zn_clients_options node)) (\<lambda>clients.
           Option.bind (decode_seq decode_shm_func (zn_servers_options node)) (\<lambda>servers.
             Some (timeout_executor, clients, servers))))"

text \<open>
  \<open>get_executor\<close> is what \<open>RegisterGetExecutorFunc\<close> has set, if anything; it gives an executor and
  whether that supports timers, or none.
\<close>

definition zr_Initialize ::
  "(string \<Rightarrow> (nat \<times> bool) option) option \<times> zenoh_rpc_node option \<Rightarrow> ('q, 'p) zenoh_rpc_backend \<Rightarrow>
   (zenoh_rpc_error, ('q, 'p) zenoh_rpc_backend) outcome" where
  "zr_Initialize a b =
     (let (get_executor, options_node) = a;
          (old, new) = atomic_exchange (zr_state b) kInit; b = b\<lparr>zr_state := new\<rparr> in
      if old \<noteq> kPreInit then (Some ZrInitializedTwice, b)
      else case (case options_node of
                   None \<Rightarrow> Some (zr_timeout_executor b, zr_clients_options b, zr_servers_options b)
                 | Some node \<Rightarrow> zr_decode node) of
        None \<Rightarrow> (Some ZrBadNode, b)
      | Some (ex, clients, servers) \<Rightarrow>
          let b = b\<lparr>zr_timeout_executor := ex, zr_clients_options := clients, zr_servers_options := servers,
                    zr_tool := Some new_client_tool\<rparr> in
          if ex = [] then (None, b)
          else case get_executor of
            None \<Rightarrow> (Some ZrNoExecutorFunc, b)
          | Some get \<Rightarrow>
              (case get ex of
                 None \<Rightarrow> (Some ZrNoExecutor, b)
               | Some e \<Rightarrow>
                   (case RegisterTimeoutExecutor e new_client_tool of
                      None \<Rightarrow> (Some ZrExecutorTimer, b)
                    | Some tool \<Rightarrow> (None, b\<lparr>zr_tool := Some tool\<rparr>))))"

definition zr_Start :: "('q, 'p) zenoh_rpc_backend \<Rightarrow> (zenoh_rpc_error, ('q, 'p) zenoh_rpc_backend) outcome" where
  "zr_Start b =
     (let (old, new) = atomic_exchange (zr_state b) kStart; b = b\<lparr>zr_state := new\<rparr> in
      if old \<noteq> kInit then (Some ZrNotInit, b) else (None, b))"

definition zr_Shutdown :: "('q, 'p) zenoh_rpc_backend \<Rightarrow> ('q, 'p) zenoh_rpc_backend" where
  "zr_Shutdown b =
     (let (old, new) = atomic_exchange (zr_state b) kShutdown; b = b\<lparr>zr_state := new\<rparr> in
      if old = kShutdown then b else b\<lparr>zr_tool := None\<rparr>)"

definition zr_RegisterGetExecutorFunc ::
  "(string \<Rightarrow> (nat \<times> bool) option) \<Rightarrow> ('q, 'p) zenoh_rpc_backend \<Rightarrow>
   (zenoh_rpc_error, (string \<Rightarrow> (nat \<times> bool) option)) result" where
  "zr_RegisterGetExecutorFunc f b = (if zr_state b \<noteq> kPreInit then Inl ZrNotPreInit else Inr f)"

interpretation zr: lifecycle zr_state zr_Initialize zr_Start zr_Shutdown
  by unfold_locales
    (auto simp: zr_Initialize_def zr_Start_def zr_Shutdown_def atomic_exchange_def Let_def
      split: option.splits if_splits prod.splits)

section \<open>Registration\<close>

definition zr_pattern :: "string \<Rightarrow> string \<Rightarrow> string" where
  "zr_pattern limit_domain func_name =
     ''aimrt_rpc/'' @ UrlEncode (GetFuncNameWithoutPrefix func_name) True @ limit_domain"

text \<open>A service's handler is named by its function, a client's handler is the same for all.\<close>

definition zr_RegisterServiceFunc ::
  "zenoh_env \<Rightarrow> ('q, 'p) func_info \<Rightarrow> ('q, 'p) zenoh_rpc_backend \<Rightarrow> bool \<times> ('q, 'p) zenoh_rpc_backend" where
  "zr_RegisterServiceFunc env info b =
     (if zr_state b \<noteq> kInit then (False, b)
      else
        let shm_enabled = (case find_func_option (ze_regex env) (fi_func_name info) (zr_servers_options b) of
              None \<Rightarrow> False | Some shm \<Rightarrow> shm);
            pattern = zr_pattern (zr_domain b) (fi_func_name info)
        in (True, b\<lparr>zr_manager := zm_RegisterRpcNode (ze_declared env) pattern (fi_func_name info) ''server'' shm_enabled (zr_manager b),
                    zr_services := AList.update (fi_func_name info) info (zr_services b),
                    zr_sizes := AList.update (''rsp/'' @ pattern) (zr_shm_init_loan_size b) (zr_sizes b)\<rparr>))"

definition zr_RegisterClientFunc ::
  "zenoh_env \<Rightarrow> ('q, 'p) func_info \<Rightarrow> ('q, 'p) zenoh_rpc_backend \<Rightarrow> bool \<times> ('q, 'p) zenoh_rpc_backend" where
  "zr_RegisterClientFunc env info b =
     (if zr_state b \<noteq> kInit then (False, b)
      else
        let shm_enabled = (case find_func_option (ze_regex env) (fi_func_name info) (zr_clients_options b) of
              None \<Rightarrow> False | Some shm \<Rightarrow> shm);
            pattern = zr_pattern (zr_domain b) (fi_func_name info)
        in (True, b\<lparr>zr_manager := zm_RegisterRpcNode (ze_declared env) pattern [] ''client'' shm_enabled (zr_manager b),
                    zr_sizes := AList.update (''req/'' @ pattern) (zr_shm_init_loan_size b) (zr_sizes b)\<rparr>))"

section \<open>The client\<close>

definition zr_InvokeCallBack :: "nat \<Rightarrow> u32 \<Rightarrow> ('q, 'p) zenoh_rpc_backend \<Rightarrow> ('q, 'p) zenoh_rpc_backend" where
  "zr_InvokeCallBack c status b =
     (case zr_calls b c of
        None \<Rightarrow> b
      | Some w \<Rightarrow>
          b\<lparr>zr_log := zr_log b @ [if iw_callback w then Called c status else BadCall c],
            zr_calls := (zr_calls b)(c \<mapsto> w\<lparr>iw_callback := False\<rparr>)\<rparr>)"

text \<open>What an operation that sends leaves: a package, nothing, an exception, memory touched outside a loan.\<close>

datatype zenoh_sent = ZrSent string "byte list" | ZrNothing | ZrThrown buffer_error | ZrOverrun

definition SerializeReqSupportedZenoh :: "('q, 'p) invoke_wrapper \<Rightarrow> string \<Rightarrow> bytes option \<times> bytes option" where
  "SerializeReqSupportedZenoh w serialization_type =
     (map_of (iw_req_cache w) serialization_type, ts_serialize (fi_req_support (iw_info w)) serialization_type (iw_req w))"

definition SerializeRspSupportedZenoh :: "('q, 'p) invoke_wrapper \<Rightarrow> string \<Rightarrow> bytes option \<times> bytes option" where
  "SerializeRspSupportedZenoh w serialization_type =
     (map_of (iw_rsp_cache w) serialization_type,
      Option.bind (iw_rsp w) (ts_serialize (fi_rsp_support (iw_info w)) serialization_type))"

text \<open>The loop over loans, the same for requests and answers; sizes of 32 bits.\<close>

definition zr_shm ::
  "zenoh_env \<Rightarrow> (buffer_operator \<Rightarrow> (buffer_error, buffer_operator) result) \<Rightarrow> nat \<Rightarrow> bytes option \<times> bytes option \<Rightarrow>
   string \<Rightarrow> (string \<times> nat) list \<Rightarrow> (nat \<times> shm_end) option" where
  "zr_shm env put header_len serialized topic sizes =
     shm_loop (shm_attempt (ze_addr env) (ze_alloc env) put header_len (\<lambda>n. n mod 2 ^ 32)
       (map_option (ze_segment env) (fst serialized)) (map_option (ze_segment env) (snd serialized)))
       0 False (case map_of sizes topic of None \<Rightarrow> 0 | Some n \<Rightarrow> n)"

text \<open>The length in front of a loan that is sent: that of the header alone.\<close>

definition seal_loan :: "bool \<Rightarrow> nat \<Rightarrow> byte list \<Rightarrow> byte list" where
  "seal_loan little header_len mem = SetBufFromUint32 little (of_nat header_len) @ drop 4 mem"

definition zr_invoke_net ::
  "zenoh_env \<Rightarrow> nat \<Rightarrow> string \<Rightarrow> string \<Rightarrow> u32 \<Rightarrow> string list \<Rightarrow> ('q, 'p) zenoh_rpc_backend \<Rightarrow>
   ('q, 'p) zenoh_rpc_backend \<times> zenoh_sent" where
  "zr_invoke_net env c t pattern cur_req_id kvs b =
     (case zr_calls b c of
        None \<Rightarrow> (b, ZrNothing)
      | Some w \<Rightarrow>
          (case TrySerializeReqWithCache w t of
             (None, w) \<Rightarrow> (zr_InvokeCallBack c CLI_SERIALIZATION_FAILED (b\<lparr>zr_calls := (zr_calls b)(c \<mapsto> w)\<rparr>), ZrNothing)
           | (Some req, w) \<Rightarrow>
               let b = b\<lparr>zr_calls := (zr_calls b)(c \<mapsto> w)\<rparr>;
                   segs = ze_segment env req;
                   z_data_size = 1 + length t + 1 + length pattern + 4 + context_meta_kv_size kvs + sum_list (map length segs)
               in case bindR (SetUint32 (ze_little env) (of_nat z_data_size) (mk_buffer_operator (ze_addr env) (replicate (z_data_size + 4) 0)))
                        (put_request (ze_little env) t pattern cur_req_id kvs segs) of
                 Inl _ \<Rightarrow> (b, ZrNothing)
               | Inr buf \<Rightarrow> (b, ZrSent (''req/'' @ pattern) (bo_mem buf))))"

text \<open>\<open>Invoke\<close>, whose exceptions are caught and logged. \<open>None\<close> is a call that does not return.\<close>

definition zr_Invoke ::
  "zenoh_env \<Rightarrow> nat \<Rightarrow> ('q, 'p) zenoh_rpc_backend \<Rightarrow> (('q, 'p) zenoh_rpc_backend \<times> zenoh_sent) option" where
  "zr_Invoke env c b =
     (case zr_calls b c of
        None \<Rightarrow> Some (b, ZrNothing)
      | Some w \<Rightarrow>
          if zr_state b \<noteq> kStart then Some (zr_InvokeCallBack c CLI_BACKEND_INTERNAL_ERROR b, ZrNothing)
          else
            let pattern = zr_pattern (zr_domain b) (fi_func_name (iw_info w)); topic = ''req/'' @ pattern in
            case map_of (zm_pubs (zr_manager b)) topic of
              None \<Rightarrow> Some (b, ZrNothing)
            | Some shm_enabled \<Rightarrow>
                let cur_req_id = zr_req_id b;
                    b = b\<lparr>zr_req_id := cur_req_id + 1\<rparr>;
                    t = rpc_GetMetaValue ''aimrt-serialization_type'' (iw_ctx w);
                    kvs = rpc_GetMetaKeyValsArray (iw_ctx w)
                in
                if 255 < length t then Some (zr_InvokeCallBack c CLI_UNKNOWN b, ZrNothing)
                else if 255 < length kvs div 2 then Some (zr_InvokeCallBack c CLI_BACKEND_INTERNAL_ERROR b, ZrNothing)
                else case zr_tool b of
                  None \<Rightarrow> Some (b\<lparr>zr_log := zr_log b @ [NullTool]\<rparr>, ZrNothing)
                | Some tool \<Rightarrow>
                    let (ret, tool) = Record cur_req_id (rc_timeout (iw_ctx w)) c tool; b = b\<lparr>zr_tool := Some tool\<rparr> in
                    if \<not> ret then Some (zr_InvokeCallBack c CLI_BACKEND_INTERNAL_ERROR b, ZrNothing)
                    else if \<not> shm_enabled then Some (zr_invoke_net env c t pattern cur_req_id kvs b)
                    else
                      let header_len = 1 + length t + 1 + length pattern + 4 + context_meta_kv_size kvs in
                      case zr_shm env (put_request (ze_little env) t pattern cur_req_id kvs []) header_len
                             (SerializeReqSupportedZenoh w t) topic (zr_sizes b) of
                        None \<Rightarrow> None
                      | Some (n, r) \<Rightarrow>
                          let b = b\<lparr>zr_sizes := AList.update topic n (zr_sizes b)\<rparr> in
                          Some (case r of
                            ShmPoolShort \<Rightarrow> zr_invoke_net env c t pattern cur_req_id kvs b
                          | ShmThrows _ \<Rightarrow> (b, ZrNothing)
                          | ShmFailed \<Rightarrow> (b, ZrNothing)
                          | ShmOverrun \<Rightarrow> (b, ZrOverrun)
                          | ShmWritten mem \<Rightarrow> (b, ZrSent topic (seal_loan (ze_little env) header_len mem))))"

text \<open>
  The handler of answers. \<open>None\<close> is a run in which it reads bytes that were not received.
\<close>

definition zr_handle_response ::
  "zenoh_env \<Rightarrow> byte list \<Rightarrow> ('q, 'p) zenoh_rpc_backend \<Rightarrow> ('q, 'p) zenoh_rpc_backend option" where
  "zr_handle_response env payload b =
     (case zenoh_region (ze_little env) (ze_addr env) payload of
        None \<Rightarrow> None
      | Some buf \<Rightarrow>
          (case get_response_head (ze_little env) buf of
            Inl e \<Rightarrow> if e = OutOfRegion then None else Some b
          | Inr (t, req_id, code, buf) \<Rightarrow>
              (case zr_tool b of
                 None \<Rightarrow> Some (b\<lparr>zr_log := zr_log b @ [NullTool]\<rparr>)
               | Some tool \<Rightarrow>
                   (case GetRecord req_id tool of
                      (None, tool) \<Rightarrow> Some (b\<lparr>zr_tool := Some tool\<rparr>)
                    | (Some c, tool) \<Rightarrow>
                        let b = b\<lparr>zr_tool := Some tool\<rparr> in
                        if code \<noteq> 0 then Some (zr_InvokeCallBack c code b)
                        else case (zr_calls b c, bindR (GetRemainingBuffer buf) (\<lambda>(v, _). view_load buf v)) of
                          (None, _) \<Rightarrow> Some b
                        | (_, Inl e) \<Rightarrow> if e = OutOfRegion then None else Some (zr_InvokeCallBack c CLI_BACKEND_INTERNAL_ERROR b)
                        | (Some w, Inr rsp_bytes) \<Rightarrow>
                            Some (case ts_deserialize (fi_rsp_support (iw_info w)) t rsp_bytes of
                               None \<Rightarrow> zr_InvokeCallBack c CLI_DESERIALIZATION_FAILED b
                             | Some rsp \<Rightarrow>
                                 zr_InvokeCallBack c STATUS_OK (b\<lparr>zr_calls := (zr_calls b)(c \<mapsto> w\<lparr>iw_rsp := Some rsp\<rparr>)\<rparr>))))))"

definition zr_timeout :: "u32 \<times> u64 \<Rightarrow> ('q, 'p) zenoh_rpc_backend \<Rightarrow> ('q, 'p) zenoh_rpc_backend" where
  "zr_timeout timer b =
     (case zr_tool b of
        None \<Rightarrow> b
      | Some tool \<Rightarrow>
          (case GetRecord (fst timer) (tool\<lparr>ct_timers := remove1 timer (ct_timers tool)\<rparr>) of
             (None, tool) \<Rightarrow> b\<lparr>zr_tool := Some tool\<rparr>
           | (Some c, tool) \<Rightarrow> zr_InvokeCallBack c STATUS_TIMEOUT (b\<lparr>zr_tool := Some tool\<rparr>)))"

section \<open>The service\<close>

record ('q, 'p) zenoh_service_call =
  zs_wrapper :: "('q, 'p) invoke_wrapper"
  zs_pattern :: string
  zs_type :: string
  zs_req_id :: "byte list"

text \<open>A request that does not deserialise is an exception: it is logged and not answered.\<close>

datatype ('q, 'p) zenoh_served =
    ZsUndefined | ZsFailed buffer_error | ZsNotDeserialized | ZsCall "('q, 'p) zenoh_service_call"

definition zr_handle_request :: "zenoh_env \<Rightarrow> ('q, 'p) func_info \<Rightarrow> byte list \<Rightarrow> ('q, 'p) zenoh_served" where
  "zr_handle_request env info payload =
     (case zenoh_region (ze_little env) (ze_addr env) payload of
        None \<Rightarrow> ZsUndefined
      | Some buf \<Rightarrow>
          (case get_request (ze_little env) buf of
             Inl e \<Rightarrow> if e = OutOfRegion then ZsUndefined else ZsFailed e
           | Inr (t, pattern, req_id_buf, meta, req_bytes) \<Rightarrow>
               let cx = \<lparr>rc_client = False, rc_used = False, rc_timeout = 0, rc_meta = meta\<rparr>;
                   cx = SetFunctionName (fi_func_name info) cx;
                   cx = rpc_SetMetaValue ''aimrt-backend'' ''zenoh'' cx
               in case ts_deserialize (fi_req_support info) t req_bytes of
                 None \<Rightarrow> ZsNotDeserialized
               | Some req \<Rightarrow>
                   ZsCall
                     \<lparr>zs_wrapper = \<lparr>iw_info = info, iw_req = req, iw_rsp = None, iw_ctx = cx, iw_callback = True,
                        iw_req_cache = [], iw_rsp_cache = []\<rparr>,
                      zs_pattern = pattern, zs_type = t, zs_req_id = req_id_buf\<rparr>))"

text \<open>Zenoh gives a request to every service declared on its key.\<close>

definition zr_receive_request :: "zenoh_env \<Rightarrow> ('q, 'p) zenoh_rpc_backend \<Rightarrow> string \<Rightarrow> byte list \<Rightarrow> ('q, 'p) zenoh_served list" where
  "zr_receive_request env b topic payload =
     List.map_filter (\<lambda>(_, h). map_option (\<lambda>info. zr_handle_request env info payload) (map_of (zr_services b) h))
       (filter (\<lambda>(k, _). k = topic) (zm_subs (zr_manager b)))"

text \<open>
  The answer that is only a status. It is published as it is: nothing puts the length of the
  package in front of it.
\<close>

definition zr_ReturnRspWithStatusCode ::
  "zenoh_env \<Rightarrow> string \<Rightarrow> string \<Rightarrow> byte list \<Rightarrow> u32 \<Rightarrow> ('q, 'p) zenoh_rpc_backend \<Rightarrow> zenoh_sent" where
  "zr_ReturnRspWithStatusCode env pattern t req_id_buf code b =
     (case put_response (ze_little env) t req_id_buf code []
             (mk_buffer_operator (ze_addr env) (replicate (1 + length t + 4 + 4) 0)) of
        Inl e \<Rightarrow> ZrThrown e
      | Inr buf \<Rightarrow>
          (case zm_Publish (''rsp/'' @ pattern) (bo_mem buf) (zr_manager b) of
             None \<Rightarrow> ZrNothing
           | Some (topic, payload) \<Rightarrow> ZrSent topic payload))"

definition zr_respond_net ::
  "zenoh_env \<Rightarrow> ('q, 'p) zenoh_service_call \<Rightarrow> ('q, 'p) invoke_wrapper \<Rightarrow> ('q, 'p) zenoh_rpc_backend \<Rightarrow> zenoh_sent" where
  "zr_respond_net env sc w b =
     (let t = zs_type sc in
      case TrySerializeRspWithCache w t of
        (None, _) \<Rightarrow> zr_ReturnRspWithStatusCode env (zs_pattern sc) t (zs_req_id sc) SVR_SERIALIZATION_FAILED b
      | (Some rsp_bytes, _) \<Rightarrow>
          let segs = ze_segment env rsp_bytes;
              z_data_size = 1 + length t + 4 + 4 + sum_list (map length segs)
          in case bindR (SetUint32 (ze_little env) (of_nat z_data_size) (mk_buffer_operator (ze_addr env) (replicate (z_data_size + 4) 0)))
                   (put_response (ze_little env) t (zs_req_id sc) 0 segs) of
            Inl e \<Rightarrow> ZrThrown e
          | Inr buf \<Rightarrow> ZrSent (''rsp/'' @ zs_pattern sc) (bo_mem buf))"

text \<open>The callback of the service: the status and, as the response written, \<open>rsp\<close>.\<close>

definition zr_respond ::
  "zenoh_env \<Rightarrow> ('q, 'p) zenoh_service_call \<Rightarrow> u32 \<Rightarrow> 'p \<Rightarrow> ('q, 'p) zenoh_rpc_backend \<Rightarrow>
   (('q, 'p) zenoh_rpc_backend \<times> zenoh_sent) option" where
  "zr_respond env sc status rsp b =
     (let w = (zs_wrapper sc)\<lparr>iw_rsp := Some rsp\<rparr>; t = zs_type sc; topic = ''rsp/'' @ zs_pattern sc in
      if status \<noteq> STATUS_OK then Some (b, zr_ReturnRspWithStatusCode env (zs_pattern sc) t (zs_req_id sc) status b)
      else case map_of (zm_pubs (zr_manager b)) topic of
        None \<Rightarrow> Some (b, ZrNothing)
      | Some shm_enabled \<Rightarrow>
          if \<not> shm_enabled then Some (b, zr_respond_net env sc w b)
          else
            let header_len = 1 + length t + 4 + 4 in
            case zr_shm env (put_response (ze_little env) t (zs_req_id sc) 0 []) header_len
                   (SerializeRspSupportedZenoh w t) topic (zr_sizes b) of
              None \<Rightarrow> None
            | Some (n, r) \<Rightarrow>
                let b = b\<lparr>zr_sizes := AList.update topic n (zr_sizes b)\<rparr> in
                Some (b, case r of
                  ShmPoolShort \<Rightarrow> zr_respond_net env sc w b
                | ShmThrows e \<Rightarrow> ZrThrown e
                | ShmFailed \<Rightarrow> ZrNothing
                | ShmOverrun \<Rightarrow> ZrOverrun
                | ShmWritten mem \<Rightarrow> ZrSent topic (seal_loan (ze_little env) header_len mem)))"

section \<open>A call and its answer\<close>

lemma put_request_writes:
  assumes "length (request_bytes little t topic req_id kvs (concat segs)) < 2 ^ 62"
  shows "writes_header (put_request little t topic req_id kvs segs) (request_bytes little t topic req_id kvs (concat segs))"
  using put_request_Inr [OF _ assms] by (auto simp: writes_header_def)

lemma put_response_writes:
  assumes "length (response_bytes little t req_id_buf code (concat segs)) < 2 ^ 62"
  shows "writes_header (put_response little t req_id_buf code segs) (response_bytes little t req_id_buf code (concat segs))"
  using put_response_Inr [OF _ assms] by (auto simp: writes_header_def)

lemma prefixed_request:
  assumes "bindR (SetUint32 little (of_nat n) (mk_buffer_operator p (replicate (n + 4) 0))) (put_request little t topic r kvs segs) = Inr b"
    and "n = length (request_bytes little t topic r kvs (concat segs))" "n < 2 ^ 32" "p < 2 ^ 61"
  shows "bo_mem b = SetBufFromUint32 little (of_nat n) @ request_bytes little t topic r kvs (concat segs) \<and>
    length t \<le> 255 \<and> length topic \<le> 255 \<and> (\<forall>s \<in> set kvs. length s \<le> 65535)"
proof -
  have n: "length (request_bytes little t topic r kvs (concat segs)) < 2 ^ 62" using assms(2,3) by simp
  obtain b0 where b: "SetUint32 little (of_nat n) (mk_buffer_operator p (replicate (n + 4) 0)) = Inr b0"
    "put_request little t topic r kvs segs b0 = Inr b" using assms(1) by (auto simp: bindR_eq_Inr)
  have "buf_wf (mk_buffer_operator p (replicate (n + 4) 0))" using fresh_buffer [of p "n + 4"] assms(3,4) by simp
  from wrote_wf [OF SetUint32_Inr [OF this b(1)]] have "buf_wf b0" .
  from put_request_Inr [OF this n b(2)] show ?thesis
    using prefixed_fills [OF assms(1) [unfolded assms(2)] put_request_writes [OF n]] assms(2-4) by simp
qed

lemma prefixed_response:
  assumes "bindR (SetUint32 little (of_nat n) (mk_buffer_operator p (replicate (n + 4) 0))) (put_response little t req_id_buf code segs) = Inr b"
    and "n = length (response_bytes little t req_id_buf code (concat segs))" "n < 2 ^ 32" "p < 2 ^ 61"
  shows "bo_mem b = SetBufFromUint32 little (of_nat n) @ response_bytes little t req_id_buf code (concat segs) \<and> length t \<le> 255"
proof -
  have n: "length (response_bytes little t req_id_buf code (concat segs)) < 2 ^ 62" using assms(2,3) by simp
  obtain b0 where b: "SetUint32 little (of_nat n) (mk_buffer_operator p (replicate (n + 4) 0)) = Inr b0"
    "put_response little t req_id_buf code segs b0 = Inr b" using assms(1) by (auto simp: bindR_eq_Inr)
  have "buf_wf (mk_buffer_operator p (replicate (n + 4) 0))" using fresh_buffer [of p "n + 4"] assms(3,4) by simp
  from wrote_wf [OF SetUint32_Inr [OF this b(1)]] have "buf_wf b0" .
  from put_response_Inr [OF this n b(2)] show ?thesis
    using prefixed_fills [OF assms(1) [unfolded assms(2)] put_response_writes [OF n]] assms(2-4) by simp
qed

text \<open>\<open>call_request little w pattern r req\<close>: the contents of the package of a call.\<close>

definition call_request :: "bool \<Rightarrow> ('q, 'p) invoke_wrapper \<Rightarrow> string \<Rightarrow> u32 \<Rightarrow> byte list \<Rightarrow> byte list" where
  "call_request little w pattern r req = request_bytes little (call_type w) pattern r (rpc_GetMetaKeyValsArray (iw_ctx w)) req"

definition call_pattern :: "('q, 'p) zenoh_rpc_backend \<Rightarrow> ('q, 'p) invoke_wrapper \<Rightarrow> string" where
  "call_pattern b w = zr_pattern (zr_domain b) (fi_func_name (iw_info w))"

text \<open>The way of a call that gets as far as its package: it is recorded first.\<close>

lemma zr_Invoke_recorded:
  assumes "zr_Invoke env c b = Some (b1, ZrSent topic pkg)" "zr_calls b c = Some w"
  shows "\<exists>tool tool' shm b0. zr_tool b = Some tool \<and> Record (zr_req_id b) (rc_timeout (iw_ctx w)) c tool = (True, tool') \<and>
    map_of (zm_pubs (zr_manager b)) (''req/'' @ call_pattern b w) = Some shm \<and>
    b0 = b\<lparr>zr_req_id := zr_req_id b + 1, zr_tool := Some tool'\<rparr> \<and>
    length (call_type w) \<le> 255 \<and> length (rpc_GetMetaKeyValsArray (iw_ctx w)) div 2 \<le> 255 \<and>
    (\<not> shm \<longrightarrow> zr_invoke_net env c (call_type w) (call_pattern b w) (zr_req_id b) (rpc_GetMetaKeyValsArray (iw_ctx w)) b0
      = (b1, ZrSent topic pkg))"
proof -
  note unf = assms(1) [unfolded zr_Invoke_def Let_def call_type_def [symmetric]]
  have st: "zr_state b = kStart" using unf assms(2) by (auto split: if_splits)
  obtain shm where shm: "map_of (zm_pubs (zr_manager b)) (''req/'' @ call_pattern b w) = Some shm"
    using unf assms(2) st by (auto simp: call_pattern_def split: option.splits)
  note unf = unf [simplified assms(2) st option.case shm [unfolded call_pattern_def] simp_thms if_False]
  have chk: "length (call_type w) \<le> 255" "length (rpc_GetMetaKeyValsArray (iw_ctx w)) div 2 \<le> 255"
    using unf by (auto split: if_splits)
  obtain tool where tool: "zr_tool b = Some tool" using unf chk by (auto split: option.splits)
  obtain ret tool' where rec: "Record (zr_req_id b) (rc_timeout (iw_ctx w)) c tool = (ret, tool')" by fastforce
  have ret: "ret" using unf chk tool rec by (auto split: if_splits)
  show ?thesis using unf chk tool rec ret shm by (auto simp: call_pattern_def split: if_splits)
qed

lemma zr_invoke_net_sent:
  assumes "zr_invoke_net env c (call_type w) pattern r (rpc_GetMetaKeyValsArray (iw_ctx w)) b = (b1, ZrSent topic pkg)"
    and "zr_calls b c = Some w" "ze_addr env < 2 ^ 61" "\<forall>bs. concat (ze_segment env bs) = bs"
    and "\<forall>req w'. TrySerializeReqWithCache w (call_type w) = (Some req, w') \<longrightarrow> length (call_request False w pattern r req) < 2 ^ 32"
  shows "\<exists>req w'. TrySerializeReqWithCache w (call_type w) = (Some req, w') \<and> topic = ''req/'' @ pattern \<and>
    b1 = b\<lparr>zr_calls := (zr_calls b)(c \<mapsto> w')\<rparr> \<and>
    (let body = call_request (ze_little env) w pattern r req in
      pkg = SetBufFromUint32 (ze_little env) (of_nat (length body)) @ body \<and> length body < 2 ^ 32) \<and>
    length (call_type w) \<le> 255 \<and> length pattern \<le> 255 \<and> (\<forall>s \<in> set (rpc_GetMetaKeyValsArray (iw_ctx w)). length s \<le> 65535)"
proof -
  let ?t = "call_type w" and ?kvs = "rpc_GetMetaKeyValsArray (iw_ctx w)"
  obtain req w' where ser: "TrySerializeReqWithCache w ?t = (Some req, w')"
    using assms(1,2) by (auto simp: zr_invoke_net_def split: prod.splits option.splits)
  let ?segs = "ze_segment env req"
  let ?n = "1 + length ?t + 1 + length pattern + 4 + context_meta_kv_size ?kvs + sum_list (map length ?segs)"
  have segl: "sum_list (map length ?segs) = length req" using assms(4) by (metis length_concat)
  obtain buf where put: "bindR (SetUint32 (ze_little env) (of_nat ?n) (mk_buffer_operator (ze_addr env) (replicate (?n + 4) 0)))
      (put_request (ze_little env) ?t pattern r ?kvs ?segs) = Inr buf"
    and res: "topic = ''req/'' @ pattern" "pkg = bo_mem buf" "b1 = b\<lparr>zr_calls := (zr_calls b)(c \<mapsto> w')\<rparr>"
    using assms(1,2) ser by (auto simp: zr_invoke_net_def Let_def split: sum.splits)
  let ?body = "request_bytes (ze_little env) ?t pattern r ?kvs (concat ?segs)"
  have n: "?n = length ?body" using segl assms(4) by (simp add: length_request_bytes)
  have "length (call_request False w pattern r req) < 2 ^ 32" using assms(5) ser by blast
  then have lt: "?n < 2 ^ 32" using segl by (simp add: call_request_def length_request_bytes)
  note f = prefixed_request [OF put [unfolded n] refl lt [unfolded n] assms(3)]
  have "?body = call_request (ze_little env) w pattern r req" using assms(4) by (simp add: call_request_def)
  then show ?thesis using f ser res lt [unfolded n] unfolding Let_def by metis
qed

text \<open>A service that is registered on its own listens under its pattern, and nobody else does.\<close>

lemma zr_RegisterServiceFunc_listens:
  assumes "zr_state sb = kInit" "\<forall>k. ze_declared env k" "''req/'' @ zr_pattern (zr_domain sb) (fi_func_name info) \<notin> fst ` set (zm_subs (zr_manager sb))"
  shows "zr_receive_request env (snd (zr_RegisterServiceFunc env info sb)) (''req/'' @ zr_pattern (zr_domain sb) (fi_func_name info)) pkg
    = [zr_handle_request env info pkg]"
proof -
  let ?topic = "''req/'' @ zr_pattern (zr_domain sb) (fi_func_name info)"
  have "filter (\<lambda>(k, _). k = ?topic) (zm_subs (zr_manager sb)) = []" using assms(3) by (force simp: filter_empty_conv)
  then show ?thesis using assms(1,2)
    by (simp add: zr_RegisterServiceFunc_def Let_def zm_RegisterRpcNode_def zm_RegisterPublisher_def zm_RegisterSubscriber_def
        zr_receive_request_def List.map_filter_def update_conv')
qed

text \<open>
  C15. Without shared memory, the package of a call reaches exactly the service of that name in the
  same domain: it gets the client's request and metadata, answers under the pattern of the
  function with the number the client has recorded the call under, and the record is in place
  before the package leaves.
\<close>

theorem zenoh_request_reaches_service:
  assumes "zr_Invoke env c b = Some (b1, ZrSent topic pkg)" "zr_calls b c = Some w"
    and "map_of (zm_pubs (zr_manager b)) (''req/'' @ call_pattern b w) = Some False"
    and "ze_addr env < 2 ^ 61" "ze_addr env' < 2 ^ 61" "\<forall>bs. concat (ze_segment env bs) = bs"
    and "\<forall>req w'. TrySerializeReqWithCache w (call_type w) = (Some req, w') \<longrightarrow>
      length (call_request False w (call_pattern b w) (zr_req_id b) req) < 2 ^ 32"
    and "distinct (map fst (rc_meta (iw_ctx w)))" "request_survives info w"
    and "zr_state sb = kInit" "\<forall>k. ze_declared env' k" "zr_pattern (zr_domain sb) (fi_func_name info) = call_pattern b w"
    and "''req/'' @ call_pattern b w \<notin> fst ` set (zm_subs (zr_manager sb))"
  shows "\<exists>sc tool. zr_receive_request env' (snd (zr_RegisterServiceFunc env' info sb)) topic pkg = [ZsCall sc] \<and>
    iw_req (zs_wrapper sc) = iw_req w \<and> iw_info (zs_wrapper sc) = info \<and> zs_type sc = call_type w \<and>
    zs_pattern sc = call_pattern b w \<and> zs_req_id sc = SetBufFromUint32 (ze_little env) (zr_req_id b) \<and>
    (\<forall>k \<in> fst ` set (rc_meta (iw_ctx w)) - {''aimrt-backend'', ''aimrt-function_name''}.
       rpc_GetMetaValue k (iw_ctx (zs_wrapper sc)) = rpc_GetMetaValue k (iw_ctx w)) \<and>
    zr_tool b1 = Some tool \<and> fst (GetRecord (zr_req_id b) tool) = Some c \<and> zr_log b1 = zr_log b"
proof -
  let ?t = "call_type w" and ?pat = "call_pattern b w" and ?kvs = "rpc_GetMetaKeyValsArray (iw_ctx w)" and ?cx = "iw_ctx w"
  obtain tool tool' b0 where i: "Record (zr_req_id b) (rc_timeout ?cx) c tool = (True, tool')"
    "b0 = b\<lparr>zr_req_id := zr_req_id b + 1, zr_tool := Some tool'\<rparr>" "length ?kvs div 2 \<le> 255"
    "zr_invoke_net env c ?t ?pat (zr_req_id b) ?kvs b0 = (b1, ZrSent topic pkg)"
    using zr_Invoke_recorded [OF assms(1,2)] assms(3) by auto
  have c: "zr_calls b0 c = Some w" using assms(2) i(2) by simp
  obtain req w' where s: "TrySerializeReqWithCache w ?t = (Some req, w')" "topic = ''req/'' @ ?pat"
    "b1 = b0\<lparr>zr_calls := (zr_calls b0)(c \<mapsto> w')\<rparr>"
    "pkg = SetBufFromUint32 (ze_little env) (of_nat (length (call_request (ze_little env) w ?pat (zr_req_id b) req))) @
      call_request (ze_little env) w ?pat (zr_req_id b) req"
    "length (call_request (ze_little env) w ?pat (zr_req_id b) req) < 2 ^ 32"
    "length ?t \<le> 255" "length ?pat \<le> 255" "\<forall>s \<in> set ?kvs. length s \<le> 65535"
    using zr_invoke_net_sent [OF i(4) c assms(4,6,7)] by (auto simp: Let_def)
  let ?body = "call_request (ze_little env) w ?pat (zr_req_id b) req"
  let ?b = "mk_buffer_operator (ze_addr env' + 4) ?body"
  have region: "zenoh_region (ze_little env') (ze_addr env') pkg = Some ?b"
    using zenoh_region_prefixed [OF s(5), of _ _ _ "[]"] unfolding s(4) by simp
  have wf: "buf_wf ?b" using assms(5) s(5) buf_wf_mk [of "ze_addr env' + 4" ?body] by simp
  have r: "rest ?b = request_bytes (ze_little env') ?t ?pat (zr_req_id b) (concat (map (\<lambda>(k, v). [k, v]) (rc_meta ?cx))) req"
    using request_bytes_host [of "ze_little env"] request_bytes_host [of "ze_little env'"]
    by (simp add: rest_mk call_request_def rpc_GetMetaKeyValsArray_def)
  let ?meta = "fold (\<lambda>(k, v). AList.update k v) (rc_meta ?cx) [(''aimrt-serialization_type'', ?t)]"
  have l: "length (rest ?b) < 2 ^ 63" using s(5) by (simp add: rest_mk)
  have "meta_fits ?kvs" using i(3) s(8) by (simp add: meta_fits_def)
  then have "get_request (ze_little env') ?b = Inr (?t, ?pat, SetBufFromUint32 (ze_little env') (zr_req_id b), ?meta, req)"
    by (intro get_request_stream [OF wf r l s(6,7)]) (simp add: rpc_GetMetaKeyValsArray_def)
  then have g: "get_request (ze_little env') ?b = Inr (?t, ?pat, SetBufFromUint32 (ze_little env) (zr_req_id b), ?meta, req)"
    using SetBufFromUint32_host [of "ze_little env"] SetBufFromUint32_host [of "ze_little env'"] by simp
  have d: "ts_deserialize (fi_req_support info) ?t req = Some (iw_req w)"
    using assms(9) s(1) by (auto simp: request_survives_def)
  have meta: "rpc_GetMetaValue k
      (rpc_SetMetaValue ''aimrt-backend'' bk (SetFunctionName f \<lparr>rc_client = False, rc_used = False, rc_timeout = 0, rc_meta = ?meta\<rparr>))
      = rpc_GetMetaValue k ?cx"
    if "k \<in> fst ` set (rc_meta ?cx) - {''aimrt-backend'', ''aimrt-function_name''}" for k f bk
    by (rule received_meta [OF assms(8) that])
  have one: "zr_receive_request env' (snd (zr_RegisterServiceFunc env' info sb)) topic pkg = [zr_handle_request env' info pkg]"
    using zr_RegisterServiceFunc_listens [of sb env' info] assms(10-13) unfolding s(2) by simp
  show ?thesis using region g d meta i(2) s(3) GetRecord_Record [OF i(1)] unfolding one
    by (simp add: zr_handle_request_def Let_def)
qed

text \<open>
  C16. An answer with \<open>STATUS_OK\<close> from a publisher without shared memory completes exactly the
  call whose number it carries: the record goes, the client's callback runs once with success, and
  the client finds the response the service wrote. Neither other statuses nor answers through shared
  memory are covered: the package of another status is laid out differently from what the client
  reads, and through shared memory the response is lost.
\<close>

theorem zenoh_response_reaches_caller:
  assumes "zr_respond env' sc STATUS_OK rsp sb = Some (sb1, ZrSent topic pkg)"
    and "map_of (zm_pubs (zr_manager sb)) (''rsp/'' @ zs_pattern sc) = Some False"
    and "ts_serialize (fi_rsp_support (iw_info (zs_wrapper sc))) (zs_type sc) rsp = Some data" "length data < 2 ^ 31"
    and "length (zs_type sc) < 2 ^ 31" "iw_rsp_cache (zs_wrapper sc) = []" "zs_req_id sc = SetBufFromUint32 little r"
    and "codec (fi_rsp_support (iw_info (zs_wrapper sc)))" "fi_rsp_support (iw_info w) = fi_rsp_support (iw_info (zs_wrapper sc))"
    and "ze_addr env < 2 ^ 61" "ze_addr env' < 2 ^ 61" "\<forall>bs. concat (ze_segment env' bs) = bs"
    and "zr_tool b = Some tool" "map_of (ct_map tool) r = Some c" "zr_calls b c = Some w" "iw_callback w"
  shows "topic = ''rsp/'' @ zs_pattern sc \<and>
    zr_handle_response env pkg b = Some (b\<lparr>zr_tool := Some (tool\<lparr>ct_map := AList.delete r (ct_map tool)\<rparr>),
      zr_calls := (zr_calls b)(c \<mapsto> w\<lparr>iw_rsp := Some rsp, iw_callback := False\<rparr>),
      zr_log := zr_log b @ [Called c STATUS_OK]\<rparr>)"
proof -
  let ?t = "zs_type sc" and ?segs = "ze_segment env' data" and ?w = "(zs_wrapper sc)\<lparr>iw_rsp := Some rsp\<rparr>"
  have segl: "sum_list (map length ?segs) = length data" using assms(12) by (metis length_concat)
  have four: "length (zs_req_id sc) = 4" by (simp add: assms(7) u32c.length_encode)
  obtain w1 where ser: "TrySerializeRspWithCache ?w ?t = (Some data, w1)"
    using assms(3,6) by (auto simp: TrySerializeRspWithCache_def SerializeRspWithCache_def)
  let ?n = "1 + length ?t + 4 + 4 + sum_list (map length ?segs)"
  obtain buf where put: "bindR (SetUint32 (ze_little env') (of_nat ?n) (mk_buffer_operator (ze_addr env') (replicate (?n + 4) 0)))
      (put_response (ze_little env') ?t (zs_req_id sc) 0 ?segs) = Inr buf"
    and res: "topic = ''rsp/'' @ zs_pattern sc" "pkg = bo_mem buf"
    using assms(1,2) ser by (auto simp: zr_respond_def zr_respond_net_def Let_def split: sum.splits)
  let ?body = "response_bytes (ze_little env') ?t (zs_req_id sc) 0 data"
  have body: "response_bytes (ze_little env') ?t (zs_req_id sc) 0 (concat ?segs) = ?body" using assms(12) by simp
  have n: "?n = length ?body" using segl four by (simp add: length_response_bytes)
  have lt: "?n < 2 ^ 32 + 9" using segl assms(4,5) by simp
  have t: "length ?t \<le> 255"
  proof -
    obtain b0 b1 where b: "SetUint32 (ze_little env') (of_nat ?n) (mk_buffer_operator (ze_addr env') (replicate (?n + 4) 0)) = Inr b0"
      "SetString (ze_little env') (octets ?t) kUInt8 b0 = Inr b1" using put by (auto simp: bindR_eq_Inr put_response_def)
    have "buf_wf (mk_buffer_operator (ze_addr env') (replicate (?n + 4) 0))"
      using fresh_buffer [of "ze_addr env'" "?n + 4"] lt assms(11) by simp
    from SetString_Inr [OF wrote_wf [OF SetUint32_Inr [OF this b(1)]] _ b(2)] show ?thesis using assms(5) by simp
  qed
  then have lt: "length ?body < 2 ^ 32" using assms(4) four by (simp add: length_response_bytes)
  have pkg: "pkg = SetBufFromUint32 (ze_little env') (of_nat (length ?body)) @ ?body"
    using prefixed_response [OF put [unfolded n] _ lt assms(11)] body res(2) by simp
  let ?b = "mk_buffer_operator (ze_addr env + 4) ?body"
  have region: "zenoh_region (ze_little env) (ze_addr env) pkg = Some ?b"
    using zenoh_region_prefixed [OF lt, of _ _ _ "[]"] unfolding pkg by simp
  have wf: "buf_wf ?b" using assms(10) lt buf_wf_mk [of "ze_addr env + 4" ?body] by simp
  have r: "rest ?b = response_bytes (ze_little env') ?t (SetBufFromUint32 (ze_little env) r) 0 data"
    using assms(7) SetBufFromUint32_host [of little] SetBufFromUint32_host [of "ze_little env"] by (simp add: rest_mk)
  obtain b1 where b1: "get_response_head (ze_little env) ?b = Inr (?t, r, 0, b1)" "buf_wf b1" "rest b1 = data"
    using get_response_head_stream [OF wf r t] by blast
  have "length (rest b1) < 2 ^ 63" using assms(4) by (simp add: b1(3))
  then obtain v b2 where v: "GetRemainingBuffer b1 = Inr (v, b2)" "view_load b1 v = Inr data"
    using GetRemainingBuffer_stream [OF b1(2)] by (auto simp: b1(3))
  have d: "ts_deserialize (fi_rsp_support (iw_info w)) ?t data = Some rsp" using assms(3,8,9) by (simp add: codec_def)
  have gr: "GetRecord r tool = (Some c, tool\<lparr>ct_map := AList.delete r (ct_map tool)\<rparr>)" using assms(14) by (simp add: GetRecord_def)
  show ?thesis using res(1) region b1(1) v d gr assms(13,15,16)
    by (simp add: zr_handle_response_def zr_InvokeCallBack_def Let_def)
qed

section \<open>What goes wrong\<close>

text \<open>The number the first four bytes of a package are read as, on every machine.\<close>

lemma GetUint32_bytes:
  "unat (GetUint32FromBuf little (b0 # b1 # b2 # b3 # bs)) = unat b0 + unat b1 * 2 ^ 8 + unat b2 * 2 ^ 16 + unat b3 * 2 ^ 24"
proof -
  let ?n = "unat b0 + unat b1 * 2 ^ 8 + unat b2 * 2 ^ 16 + unat b3 * 2 ^ 24"
  have "unat b0 < 256" "unat b1 < 256" "unat b2 < 256" "unat b3 < 256"
    using unat_bound [of b0] unat_bound [of b1] unat_bound [of b2] unat_bound [of b3] by simp_all
  then have "?n < 2 ^ 32" by simp
  then have n: "unat (of_nat ?n :: u32) = ?n" unfolding unat_of_nat by (intro mod_less) simp
  have "GetUint32FromBuf little (b0 # b1 # b2 # b3 # bs) = of_nat ?n"
  proof (cases little)
    case True
    then show ?thesis by (simp add: GetUint32FromBuf_def object_value_def sum_lessThan_4)
  next
    case False
    then show ?thesis unfolding GetUint32FromBuf_def push_bit_ucast by simp
  qed
  then show ?thesis using n by simp
qed

text \<open>
  A cursor whose end lies beyond the memory it was made over: what it loads there was never received.
\<close>

lemma load_beyond:
  assumes "bo_cur b + n \<le> bo_end b" "bo_end b < 2 ^ 63" "bo_start b \<le> bo_cur b"
  shows "GetBytes n b =
    (if bo_cur b + n \<le> bo_start b + length (bo_mem b)
     then Inr (take n (drop (bo_cur b - bo_start b) (bo_mem b)), b\<lparr>bo_cur := bo_cur b + n\<rparr>)
     else Inl OutOfRegion)"
  using assms by (auto simp: GetBytes_def ptr_add_def load_bytes_def)

lemma head_beyond:
  assumes "b = \<lparr>bo_start = p, bo_end = p + n, bo_cur = p, bo_mem = mem\<rparr>" "p + n < 2 ^ 63" "264 \<le> n"
    and "mem = [] \<or> length mem < 9 + unat (mem ! 0)"
  shows "get_response_head little b = Inl OutOfRegion"
proof (cases mem)
  case Nil
  then show ?thesis using assms(1-3) load_beyond [of b 1]
    by (simp add: get_response_head_def GetString_def GetUint8_def)
next
  case (Cons x xs)
  have x: "unat x < 256" using unat_bound [of x] by simp
  let ?b1 = "b\<lparr>bo_cur := p + 1\<rparr>" and ?b2 = "b\<lparr>bo_cur := p + 1 + unat x\<rparr>" and ?b3 = "b\<lparr>bo_cur := p + 1 + unat x + 4\<rparr>"
  have g1: "GetUint8 b = Inr (x, ?b1)" using assms(1-3) Cons load_beyond [of b 1] by (simp add: GetUint8_def)
  have "GetBuffer (unat x) ?b1 = Inr ((p + 1, unat x), ?b2)"
    using assms(1-3) x by (simp add: GetBuffer_def ptr_add_def)
  then have s: "GetString little kUInt8 b = Inr ((p + 1, unat x), ?b2)" using g1 by (simp add: GetString_def)
  show ?thesis
  proof (cases "unat x \<le> length xs")
    case False
    then have "view_load b (p + 1, unat x) = Inl OutOfRegion" using assms(1) Cons by (simp add: view_load_def)
    then show ?thesis using s by (simp add: get_response_head_def)
  next
    case True
    then have v: "\<exists>t. view_load b (p + 1, unat x) = Inr t" using assms(1) Cons by (simp add: view_load_def)
    have g2: "GetUint32 little ?b2 = (if 1 + unat x + 4 \<le> length mem then Inr (GetUint32FromBuf little (take 4 (drop (1 + unat x) mem)), ?b3)
        else Inl OutOfRegion)"
      using load_beyond [of ?b2 4] assms(1-3) x by (simp add: GetUint32_def)
    have g3: "GetUint32 little ?b3 = Inl OutOfRegion"
      using load_beyond [of ?b3 4] assms x Cons by (simp add: GetUint32_def)
    show ?thesis using s v g2 g3 by (auto simp: get_response_head_def)
  qed
qed

text \<open>
  C39. The package of a status that is not success lacks the length the client's handler takes from the
  front of every package: the handler takes the start of the serialisation type for it. With a type of
  printable characters, one to thirty-five of them, the handler goes on to read bytes that were never
  received, whatever the status, the number of the request and the byte orders.
\<close>

theorem zenoh_failure_is_unreadable:
  assumes "zr_respond env' sc status rsp sb = Some (sb1, ZrSent topic pkg)" "status \<noteq> STATUS_OK"
    and "zs_type sc \<noteq> []" "length (zs_type sc) \<le> 35" "\<forall>ch \<in> set (zs_type sc). CHR '' '' \<le> ch"
    and "length (zs_req_id sc) = 4" "ze_addr env < 2 ^ 61" "ze_addr env' < 2 ^ 61"
  shows "zr_handle_response env pkg b = None"
proof -
  let ?t = "zs_type sc"
  let ?n = "1 + length ?t + 4 + 4"
  obtain buf where put: "put_response (ze_little env') ?t (zs_req_id sc) status [] (mk_buffer_operator (ze_addr env') (replicate ?n 0)) = Inr buf"
    and pkg: "pkg = bo_mem buf"
    using assms(1,2) by (auto simp: zr_respond_def Let_def zr_ReturnRspWithStatusCode_def zm_Publish_def split: sum.splits option.splits)
  have n: "?n = length (response_bytes (ze_little env') ?t (zs_req_id sc) status (concat []))" by (simp add: length_response_bytes assms(6))
  have "ze_addr env' < 2 ^ 62" "?n < 2 ^ 62" using assms(4,8) by simp_all
  from put_response_fills [OF this n put] have p: "pkg = response_bytes (ze_little env') ?t (zs_req_id sc) status []"
    using pkg by simp_all
  have len: "length pkg = 9 + length ?t" using p(1) by (simp add: length_response_bytes assms(6))
  have char: "32 \<le> unat (of_char ch :: byte)" if "ch \<in> set ?t" for ch
  proof -
    have "(of_char CHR '' '' :: nat) \<le> of_char ch" using assms(5) that by (simp add: less_eq_char_def)
    then show ?thesis by (simp add: unat_of_char)
  qed
  obtain ch t where t: "?t = ch # t" using assms(3) by (cases ?t) auto
  let ?rest = "octets t @ zs_req_id sc @ SetBufFromUint32 (ze_little env') status"
  have cons: "pkg = of_nat (length ?t) # of_char ch # ?rest"
    using p(1) by (simp add: t response_bytes_def string_bytes_def octets_def)
  have "2 \<le> length ?rest" using assms(6) by simp
  then obtain b2 b3 bs where rest: "?rest = b2 # b3 # bs" by (metis Suc_le_length_iff numeral_2_eq_2)
  let ?k = "unat (GetUint32FromBuf (ze_little env) (take 4 pkg))"
  have "unat (of_nat (length ?t) :: byte) = length ?t" using assms(4) by (simp add: unat_of_nat)
  then have k: "264 \<le> ?k" using char [of ch] t unfolding cons rest by (simp add: GetUint32_bytes)
  have k32: "?k < 2 ^ 32" using unat_bound [of "GetUint32FromBuf (ze_little env) (take 4 pkg)"] by simp
  let ?mem = "take ?k (drop 4 pkg)"
  have "length ?mem \<le> 5 + length ?t" using len by simp
  moreover have "length ?t < 4 \<or> 32 \<le> unat (?mem ! 0)"
  proof (cases "length ?t < 4")
    case False
    then have "pkg ! 4 = of_char (?t ! 3)"
      by (simp add: p response_bytes_def string_bytes_def octets_def nth_append)
    then show ?thesis using char [of "?t ! 3"] False len k by simp
  qed simp
  ultimately have "length ?mem < 9 + unat (?mem ! 0)" using assms(4) by linarith
  moreover have "zenoh_region (ze_little env) (ze_addr env) pkg =
      Some \<lparr>bo_start = ze_addr env + 4, bo_end = ze_addr env + 4 + ?k, bo_cur = ze_addr env + 4, bo_mem = ?mem\<rparr>"
    using len k32 assms(7) by (simp add: zenoh_region_def Let_def)
  ultimately show ?thesis
    using head_beyond [OF refl _ k, of "ze_addr env + 4" ?mem "ze_little env"] k32 assms(7) by (simp add: zr_handle_response_def)
qed

text \<open>
  A request that goes through shared memory arrives without its message: the length in front
  of the loan counts only the header, so the service deserialises nothing, and the call fails or
  runs with what that gives.
\<close>

theorem zenoh_shm_request_is_empty:
  assumes "zr_shm env (put_request (ze_little env) t pattern r kvs []) header_len serialized topic sizes = Some (n, ShmWritten mem)"
    and "header_len = length (request_bytes (ze_little env) t pattern r kvs [])"
    and "kvs = rpc_GetMetaKeyValsArray cx" "length kvs div 2 \<le> 255" "header_len < 2 ^ 32"
    and "lends (ze_alloc env) pool" "ze_addr env < 2 ^ 61" "ze_addr env' < 2 ^ 61"
  shows "\<exists>meta. zr_handle_request env' info (seal_loan (ze_little env) header_len mem) =
    (case ts_deserialize (fi_req_support info) t [] of
       None \<Rightarrow> ZsNotDeserialized
     | Some req \<Rightarrow>
         ZsCall \<lparr>zs_wrapper = \<lparr>iw_info = info, iw_req = req, iw_rsp = None, iw_ctx = meta, iw_callback = True,
             iw_req_cache = [], iw_rsp_cache = []\<rparr>,
           zs_pattern = pattern, zs_type = t, zs_req_id = SetBufFromUint32 (ze_little env) r\<rparr>)"
proof -
  let ?header = "request_bytes (ze_little env) t pattern r kvs []"
  have small: "length (request_bytes (ze_little env) t pattern r kvs (concat [])) < 2 ^ 62" using assms(2,5) by simp
  note writes = put_request_writes [OF small, simplified]
  have addr: "ze_addr env < 2 ^ 62" using assms(7) by simp
  obtain segs pre tail b1 b2 where w: "mem = pre @ ?header @ concat segs @ tail" "length pre = 4"
    "buf_wf b1" "put_request (ze_little env) t pattern r kvs [] b1 = Inr b2"
    using shm_loop_written [OF assms(1) [unfolded zr_shm_def assms(2)] writes assms(6) addr] by blast
  have ok: "length t \<le> 255" "length pattern \<le> 255" "\<forall>s \<in> set kvs. length s \<le> 65535"
    using put_request_Inr [OF w(3) small w(4)] by simp_all
  have lt: "length ?header < 2 ^ 32" using assms(2,5) by simp
  have seal: "seal_loan (ze_little env) header_len mem =
      SetBufFromUint32 (ze_little env) (of_nat (length ?header)) @ ?header @ concat segs @ tail"
    using w(1,2) assms(2) by (simp add: seal_loan_def)
  let ?b = "mk_buffer_operator (ze_addr env' + 4) ?header"
  have region: "zenoh_region (ze_little env') (ze_addr env') (seal_loan (ze_little env) header_len mem) = Some ?b"
    unfolding seal by (rule zenoh_region_prefixed [OF lt])
  have wf: "buf_wf ?b" using assms(8) lt buf_wf_mk [of "ze_addr env' + 4" ?header] by simp
  have r: "rest ?b = request_bytes (ze_little env') t pattern r (concat (map (\<lambda>(k, v). [k, v]) (rc_meta cx))) []"
    using request_bytes_host [of "ze_little env"] request_bytes_host [of "ze_little env'"]
    by (simp add: rest_mk assms(3) rpc_GetMetaKeyValsArray_def)
  have l: "length (rest ?b) < 2 ^ 63" using lt by (simp add: rest_mk)
  have fits: "meta_fits (concat (map (\<lambda>(k, v). [k, v]) (rc_meta cx)))"
    using assms(3,4) ok(3) by (simp add: meta_fits_def rpc_GetMetaKeyValsArray_def)
  have "SetBufFromUint32 (ze_little env') r = SetBufFromUint32 (ze_little env) r"
    using SetBufFromUint32_host [of "ze_little env"] SetBufFromUint32_host [of "ze_little env'"] by simp
  then show ?thesis using region get_request_stream [OF wf r l ok(1,2) fits]
    by (auto simp: zr_handle_request_def Let_def split: option.splits)
qed

text \<open>
  A call of a function that was not registered is lost: nothing is recorded and the callback
  never runs, whatever is received and whichever timers fire afterwards.
\<close>

lemma zr_Invoke_unregistered:
  assumes "zr_calls b c = Some w" "zr_state b = kStart" "map_of (zm_pubs (zr_manager b)) (''req/'' @ call_pattern b w) = None"
  shows "zr_Invoke env c b = Some (b, ZrNothing)"
  using assms by (simp add: zr_Invoke_def call_pattern_def Let_def)

section \<open>Examples\<close>

lemma prefixed_put_succeeds:
  assumes "n < 2 ^ 32" "p < 2 ^ 61"
    and "\<And>b. buf_wf b \<Longrightarrow> room b = n \<Longrightarrow> \<exists>b'. put b = Inr b'"
  shows "\<exists>b. bindR (SetUint32 little (of_nat n) (mk_buffer_operator p (replicate (n + 4) 0))) put = Inr b"
proof -
  let ?b = "mk_buffer_operator p (replicate (n + 4) 0)"
  have room: "buf_wf ?b" "room ?b = n + 4" using fresh_buffer [of p "n + 4"] assms(1,2) by simp_all
  have l4: "length (SetBufFromUint32 little (of_nat n)) = 4" by (rule u32c.length_encode)
  then obtain b0 where b0: "SetUint32 little (of_nat n) ?b = Inr b0" "wrote ?b (SetBufFromUint32 little (of_nat n)) b0"
    using SetBuffer_wrote [OF room(1), of "SetBufFromUint32 little (of_nat n)"] room(2) by (auto simp: SetUint32_def)
  then have "room b0 = n" using room(2) l4 by (simp add: wrote_def)
  then show ?thesis using assms(3) [OF wrote_wf [OF b0(2)]] b0(1) by auto
qed

lemma zr_invoke_net_sends:
  assumes "zr_calls b c = Some w" "TrySerializeReqWithCache w t = (Some req, w')" "\<forall>bs. concat (ze_segment env bs) = bs"
    and "length (request_bytes (ze_little env) t pattern r kvs req) < 2 ^ 32" "ze_addr env < 2 ^ 61"
    and "length t \<le> 255" "length pattern \<le> 255" "meta_fits kvs"
  shows "\<exists>b1 pkg. zr_invoke_net env c t pattern r kvs b = (b1, ZrSent (''req/'' @ pattern) pkg)"
proof -
  let ?segs = "ze_segment env req"
  let ?n = "1 + length t + 1 + length pattern + 4 + context_meta_kv_size kvs + sum_list (map length ?segs)"
  let ?put = "put_request (ze_little env) t pattern r kvs ?segs"
  have segl: "sum_list (map length ?segs) = length req" using assms(3) by (metis length_concat)
  have n: "?n = length (request_bytes (ze_little env) t pattern r kvs (concat ?segs))" "?n < 2 ^ 32"
    using segl assms(3,4) by (simp_all add: length_request_bytes)
  have "\<exists>buf. ?put b0 = Inr buf" if "buf_wf b0" "room b0 = ?n" for b0
    by (rule put_request_room [OF that(1) _ _ assms(6-8)]) (use that(2) n in simp_all)
  then obtain buf where "bindR (SetUint32 (ze_little env) (of_nat ?n) (mk_buffer_operator (ze_addr env) (replicate (?n + 4) 0))) ?put = Inr buf"
    using prefixed_put_succeeds [OF n(2) assms(5)] by blast
  then show ?thesis using assms(1,2) by (simp only: zr_invoke_net_def Let_def option.case prod.case sum.case) blast
qed

lemma zr_respond_net_sends:
  assumes "TrySerializeRspWithCache w (zs_type sc) = (Some rsp, w')" "\<forall>bs. concat (ze_segment env bs) = bs"
    and "length (response_bytes (ze_little env) (zs_type sc) (zs_req_id sc) 0 rsp) < 2 ^ 32" "ze_addr env < 2 ^ 61"
    and "length (zs_type sc) \<le> 255" "length (zs_req_id sc) = 4"
  shows "\<exists>pkg. zr_respond_net env sc w b = ZrSent (''rsp/'' @ zs_pattern sc) pkg"
proof -
  let ?segs = "ze_segment env rsp" and ?t = "zs_type sc"
  let ?n = "1 + length ?t + 4 + 4 + sum_list (map length ?segs)"
  let ?put = "put_response (ze_little env) ?t (zs_req_id sc) 0 ?segs"
  have segl: "sum_list (map length ?segs) = length rsp" using assms(2) by (metis length_concat)
  have n: "?n = length (response_bytes (ze_little env) ?t (zs_req_id sc) 0 (concat ?segs))" "?n < 2 ^ 32"
    using segl assms(2,3,6) by (simp_all add: length_response_bytes)
  have "\<exists>buf. ?put b0 = Inr buf" if "buf_wf b0" "room b0 = ?n" for b0
    by (rule put_response_room [OF that(1) _ _ assms(5)]) (use that(2) n in simp_all)
  then obtain buf where "bindR (SetUint32 (ze_little env) (of_nat ?n) (mk_buffer_operator (ze_addr env) (replicate (?n + 4) 0))) ?put = Inr buf"
    using prefixed_put_succeeds [OF n(2) assms(4)] by blast
  then show ?thesis using assms(1) by (simp only: zr_respond_net_def Let_def option.case prod.case sum.case) blast
qed

definition num_env :: zenoh_env where
  "num_env = \<lparr>ze_little = True, ze_addr = 0, ze_regex = (\<lambda>_ _. None), ze_declared = (\<lambda>_. True),
     ze_alloc = (\<lambda>_ n. if n < 4096 then Some (replicate n 0) else None), ze_segment = (\<lambda>bs. [bs])\<rparr>"

definition num_zenoh :: "lc_state \<Rightarrow> bool \<Rightarrow> (nat, nat) zenoh_rpc_backend" where
  "num_zenoh st shm = \<lparr>zr_timeout_executor = [], zr_clients_options = [], zr_servers_options = [], zr_state = st,
     zr_manager = \<lparr>zm_pubs = [(''req/aimrt_rpc/f'', shm), (''rsp/aimrt_rpc/f'', shm)], zm_subs = [], zm_shm_initialized = True\<rparr>,
     zr_domain = [], zr_req_id = 7, zr_sizes = [(''req/aimrt_rpc/f'', 1024), (''rsp/aimrt_rpc/f'', 1024)],
     zr_shm_init_loan_size = 1024, zr_tool = Some new_client_tool, zr_services = [],
     zr_calls = (\<lambda>_. None)(2 \<mapsto> num_call 5), zr_log = []\<rparr>"

lemma num_zenoh_facts:
  "zr_state (num_zenoh st shm) = st" "zr_domain (num_zenoh st shm) = []" "zr_req_id (num_zenoh st shm) = 7"
  "zr_tool (num_zenoh st shm) = Some new_client_tool" "zr_calls (num_zenoh st shm) 2 = Some (num_call 5)" "zr_log (num_zenoh st shm) = []"
  "map_of (zm_pubs (zr_manager (num_zenoh st shm))) ''req/aimrt_rpc/f'' = Some shm"
  "map_of (zm_pubs (zr_manager (num_zenoh st shm))) ''rsp/aimrt_rpc/f'' = Some shm"
  "zm_subs (zr_manager (num_zenoh st shm)) = []" "map_of (zr_sizes (num_zenoh st shm)) ''req/aimrt_rpc/f'' = Some 1024"
  "ze_addr num_env = 0" "ze_declared num_env k" "ze_segment num_env = (\<lambda>bs. [bs])" "ze_little num_env"
  "lends (ze_alloc num_env) 4096"
  by (simp_all add: num_zenoh_def num_env_def lends_def)

lemma num_pattern: "zr_pattern [] ''f'' = ''aimrt_rpc/f''"
  by (simp add: zr_pattern_def GetFuncNameWithoutPrefix_def find_pos_def match_at_def UrlEncode_def url_plain_def
      isalnum_char_def is_digit_def)

lemma num_zenoh_call:
  "call_pattern (num_zenoh st shm) (num_call n) = ''aimrt_rpc/f''"
  "rpc_GetMetaKeyValsArray (iw_ctx (num_call n)) = [''aimrt-serialization_type'', ''bin'']"
  by (simp_all add: call_pattern_def num_zenoh_facts num_call_facts num_pattern)
    (simp add: num_call_def rpc_GetMetaKeyValsArray_def)

lemma num_zenoh_request:
  "TrySerializeReqWithCache (num_call 5) (call_type (num_call 5)) = (Some req, w') \<Longrightarrow> req = [5]"
  by (simp add: TrySerializeReqWithCache_def SerializeReqWithCache_def num_call_def num_func_def number_support_def num_call_facts
      call_type_def rpc_GetMetaValue_def)

lemma num_zenoh_small: "length (request_bytes little (call_type (num_call 5)) ''aimrt_rpc/f'' r [''aimrt-serialization_type'', ''bin''] [5]) < 2 ^ 32"
  by (simp add: length_request_bytes num_call_facts context_meta_kv_size_def)

lemma num_zenoh_invoke: "\<exists>b1 pkg. zr_Invoke num_env 2 (num_zenoh kStart False) = Some (b1, ZrSent ''req/aimrt_rpc/f'' pkg)"
proof -
  let ?b = "num_zenoh kStart False" and ?w = "num_call 5"
  let ?kvs = "[''aimrt-serialization_type'', ''bin'']"
  obtain tool' where rec: "Record 7 (rc_timeout (iw_ctx ?w)) (2 :: nat) new_client_tool = (True, tool')"
    by (simp add: Record_def new_client_tool_def Let_def)
  obtain w' where ser: "TrySerializeReqWithCache ?w (call_type ?w) = (Some [5], w')"
    using num_call_serialized [of 5] by (auto simp: num_call_facts)
  have fits: "meta_fits ?kvs" by (simp add: meta_fits_def)
  define b0 where "b0 = ?b\<lparr>zr_req_id := zr_req_id ?b + 1, zr_tool := Some tool'\<rparr>"
  have p: "zr_calls b0 2 = Some ?w" "\<forall>bs. concat (ze_segment num_env bs) = bs" "ze_addr num_env < 2 ^ 61"
    "length (call_type ?w) \<le> 255" "length ''aimrt_rpc/f'' \<le> 255"
    by (simp_all add: b0_def num_zenoh_facts num_call_facts)
  obtain b1 pkg where "zr_invoke_net num_env 2 (call_type ?w) ''aimrt_rpc/f'' 7 ?kvs b0 = (b1, ZrSent (''req/'' @ ''aimrt_rpc/f'') pkg)"
    using zr_invoke_net_sends [OF p(1) ser p(2) num_zenoh_small p(3-5) fits] by blast
  moreover have "zr_Invoke num_env 2 ?b = Some (zr_invoke_net num_env 2 (call_type ?w) ''aimrt_rpc/f'' 7 ?kvs b0)"
    unfolding zr_Invoke_def Let_def call_type_def [symmetric] b0_def
    by (simp add: num_zenoh_facts num_call_facts num_zenoh_call num_pattern rec)
  ultimately show ?thesis by simp
qed

theorem zenoh_request_reaches_service_witness:
  "\<exists>b1 topic pkg sc. zr_Invoke num_env 2 (num_zenoh kStart False) = Some (b1, ZrSent topic pkg) \<and>
    zr_receive_request num_env (snd (zr_RegisterServiceFunc num_env (num_func ''q'') (num_zenoh kInit False))) topic pkg = [ZsCall sc] \<and>
    iw_req (zs_wrapper sc) = 5 \<and> zs_pattern sc = ''aimrt_rpc/f''"
proof -
  obtain b1 pkg where i: "zr_Invoke num_env 2 (num_zenoh kStart False) = Some (b1, ZrSent ''req/aimrt_rpc/f'' pkg)"
    using num_zenoh_invoke by blast
  have small: "\<forall>req w'. TrySerializeReqWithCache (num_call 5) (call_type (num_call 5)) = (Some req, w') \<longrightarrow>
      length (call_request False (num_call 5) (call_pattern (num_zenoh kStart False) (num_call 5)) (zr_req_id (num_zenoh kStart False)) req) < 2 ^ 32"
  proof (intro allI impI)
    fix req w' assume "TrySerializeReqWithCache (num_call 5) (call_type (num_call 5)) = (Some req, w')"
    then have "req = [5]" by (rule num_zenoh_request)
    then show "length (call_request False (num_call 5) (call_pattern (num_zenoh kStart False) (num_call 5)) (zr_req_id (num_zenoh kStart False)) req) < 2 ^ 32"
      using num_zenoh_small unfolding call_request_def num_zenoh_call by metis
  qed
  have d: "distinct (map fst (rc_meta (iw_ctx (num_call 5))))" by (simp add: num_call_def)
  have p: "map_of (zm_pubs (zr_manager (num_zenoh kStart False))) (''req/'' @ call_pattern (num_zenoh kStart False) (num_call 5)) = Some False"
    "zr_pattern (zr_domain (num_zenoh kInit False)) (fi_func_name (num_func ''q'')) = call_pattern (num_zenoh kStart False) (num_call 5)"
    "''req/'' @ call_pattern (num_zenoh kStart False) (num_call 5) \<notin> fst ` set (zm_subs (zr_manager (num_zenoh kInit False)))"
    "ze_addr num_env < 2 ^ 61" "\<forall>bs. concat (ze_segment num_env bs) = bs" "\<forall>k. ze_declared num_env k"
    by (simp_all add: num_zenoh_call num_zenoh_facts num_pattern num_func_def)
  have "iw_req (num_call 5) = 5" by (simp add: num_call_def)
  with zenoh_request_reaches_service [OF i num_zenoh_facts(5) p(1,4,4,5) small d num_request_survives num_zenoh_facts(1) p(6,2,3)]
  show ?thesis using i unfolding num_zenoh_call by metis
qed

definition num_zenoh_served :: "(nat, nat) zenoh_service_call" where
  "num_zenoh_served = \<lparr>zs_wrapper = (num_call 5)\<lparr>iw_info := num_func ''q''\<rparr>, zs_pattern = ''aimrt_rpc/f'', zs_type = ''bin'',
     zs_req_id = SetBufFromUint32 True 7\<rparr>"

lemma num_zenoh_served_facts:
  "ts_serialize (fi_rsp_support (iw_info (zs_wrapper num_zenoh_served))) (zs_type num_zenoh_served) 9 = Some [9]"
  "zs_type num_zenoh_served = ''bin''" "zs_pattern num_zenoh_served = ''aimrt_rpc/f''" "iw_rsp_cache (zs_wrapper num_zenoh_served) = []"
  "zs_req_id num_zenoh_served = SetBufFromUint32 True 7" "codec (fi_rsp_support (iw_info (zs_wrapper num_zenoh_served)))"
  "fi_rsp_support (iw_info (num_call 5)) = fi_rsp_support (iw_info (zs_wrapper num_zenoh_served))" "iw_callback (num_call 5)"
  using number_support_codec by (simp_all add: num_zenoh_served_def num_call_def num_func_def number_support_def)

definition num_zenoh_waiting :: "(nat, nat) zenoh_rpc_backend" where
  "num_zenoh_waiting = (num_zenoh kStart False)\<lparr>zr_tool := Some (snd (Record 7 9 2 new_client_tool))\<rparr>"

theorem zenoh_response_reaches_caller_witness:
  "\<exists>topic pkg b. zr_respond num_env num_zenoh_served STATUS_OK 9 (num_zenoh kStart False) = Some (num_zenoh kStart False, ZrSent topic pkg) \<and>
    zr_handle_response num_env pkg num_zenoh_waiting = Some b \<and> zr_log b = [Called 2 STATUS_OK]"
proof -
  have four: "length (SetBufFromUint32 True 7) = 4" by (rule u32c.length_encode)
  let ?w = "(zs_wrapper num_zenoh_served)\<lparr>iw_rsp := Some 9\<rparr>"
  obtain w' where ser: "TrySerializeRspWithCache ?w ''bin'' = (Some [9], w')"
    using num_zenoh_served_facts(1,2,4) by (auto simp: TrySerializeRspWithCache_def SerializeRspWithCache_def)
  note s = num_zenoh_served_facts
  have p: "map_of (zm_pubs (zr_manager (num_zenoh kStart False))) (''rsp/'' @ zs_pattern num_zenoh_served) = Some False"
    "length (zs_type num_zenoh_served) < 2 ^ 31" "ze_addr num_env < 2 ^ 61" "\<forall>bs. concat (ze_segment num_env bs) = bs"
    "length (zs_type num_zenoh_served) \<le> 255" "length (zs_req_id num_zenoh_served) = 4"
    "length (response_bytes (ze_little num_env) (zs_type num_zenoh_served) (zs_req_id num_zenoh_served) 0 [9]) < 2 ^ 32"
    by (simp_all add: num_zenoh_facts s(2,3,5) four length_response_bytes)
  obtain pkg where pkg: "zr_respond_net num_env num_zenoh_served ?w (num_zenoh kStart False) = ZrSent (''rsp/'' @ ''aimrt_rpc/f'') pkg"
    using zr_respond_net_sends [OF ser [folded s(2)] p(4,7,3,5,6)] s(3) by auto
  have r: "zr_respond num_env num_zenoh_served STATUS_OK 9 (num_zenoh kStart False)
      = Some (num_zenoh kStart False, ZrSent ''rsp/aimrt_rpc/f'' pkg)"
    using pkg by (simp add: zr_respond_def Let_def s(3) num_zenoh_facts)
  have w: "zr_tool num_zenoh_waiting = Some (snd (Record 7 9 2 new_client_tool))" "zr_calls num_zenoh_waiting 2 = Some (num_call 5)"
    "zr_log num_zenoh_waiting = []" "map_of (ct_map (snd (Record 7 9 2 new_client_tool))) 7 = Some 2"
    using num_zenoh_facts(5) by (simp_all add: num_zenoh_waiting_def num_zenoh_facts Record_def new_client_tool_def Let_def)
  have "length [9 :: byte] < 2 ^ 31" by simp
  from zenoh_response_reaches_caller [OF r p(1) s(1) this p(2) s(4-7) p(3,3,4) w(1,4,2) s(8)]
  show ?thesis using r w(3) by auto
qed

theorem zenoh_failure_is_unreadable_witness:
  "\<exists>topic pkg. zr_respond num_env num_zenoh_served SVR_UNKNOWN 9 (num_zenoh kStart False) = Some (num_zenoh kStart False, ZrSent topic pkg) \<and>
    zr_handle_response num_env pkg num_zenoh_waiting = None"
proof -
  have four: "length (SetBufFromUint32 True 7) = 4" by (rule u32c.length_encode)
  have n: "1 + length ''bin'' + 4 + 4 = length (response_bytes True ''bin'' (SetBufFromUint32 True 7) SVR_UNKNOWN (concat []))"
    by (simp add: length_response_bytes four)
  obtain buf where put: "put_response True ''bin'' (SetBufFromUint32 True 7) SVR_UNKNOWN []
      (mk_buffer_operator 0 (replicate (1 + length ''bin'' + 4 + 4) 0)) = Inr buf"
    using put_response_succeeds [OF _ _ n, of 0] by auto
  have u: "SVR_UNKNOWN \<noteq> STATUS_OK" by (simp add: SVR_UNKNOWN_def STATUS_OK_def)
  have r: "zr_respond num_env num_zenoh_served SVR_UNKNOWN 9 (num_zenoh kStart False)
      = Some (num_zenoh kStart False, ZrSent ''rsp/aimrt_rpc/f'' (bo_mem buf))"
    using put u by (simp add: zr_respond_def zr_ReturnRspWithStatusCode_def zm_Publish_def Let_def num_zenoh_served_facts(2,3,5) num_zenoh_facts)
  have t: "zs_type num_zenoh_served \<noteq> []" "length (zs_type num_zenoh_served) \<le> 35" "length (zs_req_id num_zenoh_served) = 4"
    "\<forall>ch \<in> set (zs_type num_zenoh_served). CHR '' '' \<le> ch" "ze_addr num_env < 2 ^ 61"
    by (simp_all add: num_zenoh_served_facts(2,5) four num_zenoh_facts less_eq_char_def)
  show ?thesis using zenoh_failure_is_unreadable [OF r u t(1,2,4,3,5,5)] r by blast
qed

lemma num_zenoh_loan:
  assumes "header_len = length (request_bytes True t pattern r kvs [])" "header_len + 5 \<le> 1024"
    and "length t \<le> 255" "length pattern \<le> 255" "meta_fits kvs"
  shows "\<exists>mem. zr_shm num_env (put_request (ze_little num_env) t pattern r kvs []) header_len (None, Some [5]) topic [(topic, 1024)]
    = Some (1024, ShmWritten mem)"
proof -
  let ?put = "put_request True t pattern r kvs []" and ?header = "request_bytes True t pattern r kvs []"
  obtain n :: nat where n: "n = 1024" by simp
  have alloc: "ze_alloc num_env 0 n = Some (replicate n 0)" "4 \<le> n" by (simp_all add: num_env_def n)
  have small: "length (request_bytes True t pattern r kvs (concat [])) < 2 ^ 62" using assms(1,2) by simp
  note writes = put_request_writes [OF small, simplified]
  let ?b = "mk_buffer_operator (0 + 4) (drop 4 (replicate n (0 :: byte)))"
  have wf: "buf_wf ?b" using buf_wf_mk [of "0 + 4" "drop 4 (replicate n (0 :: byte))"] by (simp add: n)
  have room: "room ?b = n - 4" by (simp add: room_def mk_buffer_operator_def n)
  obtain b where b: "?put ?b = Inr b"
    using put_request_room [OF wf _ _ assms(3-5), of True r "[]"] assms(1,2) room n by auto
  have "4 + length ?header + GetRemainingSize b = n"
    by (rule header_room(1) [OF writes num_zenoh_facts(15) _ alloc b]) simp
  then have rem: "1 \<le> GetRemainingSize b" using assms(1,2) n by simp
  have "shm_attempt 0 (ze_alloc num_env) ?put header_len (\<lambda>n. n mod 2 ^ 32) None (Some [[5]]) 0 False n =
      ShmDone (ShmWritten (splice (4 + header_len) (concat [[5]]) (take 4 (replicate n 0) @ bo_mem b)))"
    using alloc b rem by (simp add: shm_attempt_def Let_def za_Allocate_def)
  then show ?thesis unfolding zr_shm_def n [symmetric] num_zenoh_facts(11,13,14)
    by (subst shm_loop_unfold) (simp add: num_zenoh_facts(14))
qed

theorem zenoh_shm_request_is_empty_witness:
  "\<exists>header_len mem. zr_shm num_env (put_request (ze_little num_env) ''bin'' ''aimrt_rpc/f'' 7 [''aimrt-serialization_type'', ''bin''] [])
      header_len (None, Some [5]) ''req/aimrt_rpc/f'' [(''req/aimrt_rpc/f'', 1024)] = Some (1024, ShmWritten mem) \<and>
    zr_handle_request num_env (num_func ''q'') (seal_loan (ze_little num_env) header_len mem) = ZsNotDeserialized"
proof -
  let ?kvs = "[''aimrt-serialization_type'', ''bin'']"
  let ?h = "length (request_bytes True ''bin'' ''aimrt_rpc/f'' 7 ?kvs [])"
  have h: "?h + 5 \<le> 1024" "?h < 2 ^ 32" "meta_fits ?kvs" "length ?kvs div 2 \<le> 255"
    by (simp_all add: length_request_bytes context_meta_kv_size_def meta_fits_def)
  obtain mem where m: "zr_shm num_env (put_request (ze_little num_env) ''bin'' ''aimrt_rpc/f'' 7 ?kvs []) ?h (None, Some [5])
      ''req/aimrt_rpc/f'' [(''req/aimrt_rpc/f'', 1024)] = Some (1024, ShmWritten mem)"
    using num_zenoh_loan [OF refl h(1) _ _ h(3)] by fastforce
  have l: "?h = length (request_bytes (ze_little num_env) ''bin'' ''aimrt_rpc/f'' 7 ?kvs [])" by (simp add: num_zenoh_facts)
  have a: "ze_addr num_env < 2 ^ 61" by (simp add: num_zenoh_facts)
  have "ts_deserialize (fi_req_support (num_func ''q'')) ''bin'' [] = None" by (simp add: num_func_def number_support_def)
  with zenoh_shm_request_is_empty [OF m l num_zenoh_call(2) [symmetric] h(4,2) num_zenoh_facts(15) a a]
  show ?thesis using m by (metis option.case(1))
qed

end
