(* ===== verification/TimeManipulator.thy ===== *)
theory TimeManipulator
  imports TimeWheel Complex_Main
begin

text \<open>
  The time manipulator (\<open>time_manipulator_executor.cc\<close>, \<open>.h\<close> and \<open>service.cc\<close>): an executor whose
  virtual time runs faster or slower than the clock, or stands still. Its wheels are those of the
  time-wheel executor, but a borrowed task is put into the slot its tick gives modulo the
  \<open>scale\<close> of the wheel instead of its size, and a scheduled task into the slot that the sum of
  the two quotients gives instead of the quotient of the sum. A ratio is a rational number;
  \<open>recip\<close> is the reciprocal of the machine's doubles.
\<close>

section \<open>Data\<close>

datatype vt_error =
    VtIndex | VtDivideByZero | VtNoGetExecutor | VtInitializedTwice | VtNotInit | VtNotPreInit
  | VtBadNode | VtEmptyBind | VtBadBind string | VtRatioRange

record vt_options =
  vo_bind_executor :: string
  vo_dt :: nat
  vo_init_ratio :: rat
  vo_wheel_size :: "nat list"
  vo_thread_sched_policy :: string
  vo_thread_bind_cpu :: "nat list"
  vo_use_system_clock :: bool

definition default_vt_options :: vt_options where
  "default_vt_options = \<lparr>vo_bind_executor = [], vo_dt = 100000000, vo_init_ratio = 1, vo_wheel_size = [100, 360],
     vo_thread_sched_policy = [], vo_thread_bind_cpu = [], vo_use_system_clock = False\<rparr>"

record vt_node =
  vn_is_map :: bool
  vn_bind_executor :: "string option"
  vn_dt_us :: "nat option"
  vn_init_ratio :: "rat option"
  vn_wheel_size :: "nat list option"
  vn_thread_sched_policy :: "string option"
  vn_thread_bind_cpu :: "nat list option"
  vn_use_system_clock :: "bool option"

definition vt_encode :: "vt_options \<Rightarrow> vt_node" where
  "vt_encode rhs =
     \<lparr>vn_is_map = True, vn_bind_executor = Some (vo_bind_executor rhs), vn_dt_us = Some (vo_dt rhs div 1000),
      vn_init_ratio = Some (vo_init_ratio rhs), vn_wheel_size = Some (vo_wheel_size rhs),
      vn_thread_sched_policy = Some (vo_thread_sched_policy rhs), vn_thread_bind_cpu = Some (vo_thread_bind_cpu rhs),
      vn_use_system_clock = Some (vo_use_system_clock rhs)\<rparr>"

text \<open>\<open>bind_executor\<close> is required: without it the conversion throws.\<close>

definition vt_decode :: "vt_node \<Rightarrow> vt_options \<Rightarrow> vt_options option" where
  "vt_decode node rhs =
     (if \<not> vn_is_map node then None
      else map_option (\<lambda>bind.
        \<lparr>vo_bind_executor = bind,
         vo_dt = (case vn_dt_us node of None \<Rightarrow> vo_dt rhs | Some us \<Rightarrow> us * 1000),
         vo_init_ratio = or_keep (vn_init_ratio node) (vo_init_ratio rhs),
         vo_wheel_size = or_keep (vn_wheel_size node) (vo_wheel_size rhs),
         vo_thread_sched_policy = or_keep (vn_thread_sched_policy node) (vo_thread_sched_policy rhs),
         vo_thread_bind_cpu = or_keep (vn_thread_bind_cpu node) (vo_thread_bind_cpu rhs),
         vo_use_system_clock = or_keep (vn_use_system_clock node) (vo_use_system_clock rhs)\<rparr>) (vn_bind_executor node))"

record time_manipulator =
  vt_name :: string
  vt_options :: vt_options
  vt_state :: lc_state
  vt_get_executor_func :: "(string \<Rightarrow> executor_ref option) option"
  vt_bind_executor_ref :: "executor_ref option"
  vt_thread_safe :: bool
  vt_dt_count :: nat
  vt_ratio_direction :: bool
  vt_real_ratio :: nat
  vt_start_time_point :: nat
  vt_start_flag :: bool
  vt_current_tick_count :: nat
  vt_timing_wheel_vec :: "timing_wheel_tool list"
  vt_timing_task_map :: task_map
  vt_timer_thread :: bool
  vt_bound_calls :: "task_id list"

section \<open>The ratio\<close>

definition max_uint32 :: nat where "max_uint32 = 2 ^ 32 - 1"

text \<open>A ratio whose integral part no \<open>uint32_t\<close> holds is converted to an unspecified value: an error.\<close>

definition SetTimeRatio :: "(rat \<Rightarrow> rat) \<Rightarrow> rat \<Rightarrow> time_manipulator \<Rightarrow> (vt_error, time_manipulator) result" where
  "SetTimeRatio recip ratio s =
     (if 1 \<le> ratio
      then if 2 ^ 32 \<le> ratio then Inl VtRatioRange
           else Inr (s\<lparr>vt_ratio_direction := True, vt_real_ratio := nat \<lfloor>ratio\<rfloor>\<rparr>)
      else
        let s = s\<lparr>vt_ratio_direction := False\<rparr> in
        if 1 / 10 ^ 15 < ratio \<and> ratio < 1 \<and> recip ratio < of_nat max_uint32
        then Inr (s\<lparr>vt_real_ratio := nat \<lfloor>recip ratio\<rfloor>\<rparr>)
        else Inr (s\<lparr>vt_real_ratio := max_uint32\<rparr>))"

definition GetTimeRatio :: "(rat \<Rightarrow> rat) \<Rightarrow> time_manipulator \<Rightarrow> rat" where
  "GetTimeRatio recip s =
     (if vt_ratio_direction s then of_nat (vt_real_ratio s)
      else if vt_real_ratio s = max_uint32 then 0
      else recip (of_nat (vt_real_ratio s)))"

section \<open>The wheels\<close>

definition splice_scaled :: "task_with_timestamp \<Rightarrow> timing_wheel_tool \<Rightarrow> (vt_error, timing_wheel_tool) result" where
  "splice_scaled t w =
     (let p = tick_count t mod scale w
      in if length (wheel w) \<le> p then Inl VtIndex else Inr (w\<lparr>wheel := (wheel w)[p := wheel w ! p @ [t]]\<rparr>))"

fun vt_Tick :: "timing_wheel_tool list \<Rightarrow> task_map \<Rightarrow>
    (vt_error, task_list \<times> timing_wheel_tool list \<times> task_map) result" where
  "vt_Tick [] m = Inl VtIndex"
| "vt_Tick (w # ws) m =
     (if length (wheel w) \<le> current_pos w then Inl VtIndex
      else
        let out = wheel w ! current_pos w;
            w1 = w\<lparr>wheel := (wheel w)[current_pos w := []], current_pos := current_pos w + 1\<rparr>
        in if current_pos w1 = length (wheel w1)
           then bindR (if ws \<noteq> [] then vt_Tick ws m
                       else (case map_borrow m of (l, m') \<Rightarrow> Inr (l, [], m')))
                  (\<lambda>(borrowed, ws', m').
                     bindR (foldR splice_scaled borrowed (w1\<lparr>current_pos := 0\<rparr>)) (\<lambda>w2. Inr (out, w2 # ws', m')))
           else Inr (out, w1 # ws, m))"

section \<open>The executor\<close>

definition vt_setup_wheels :: "time_manipulator \<Rightarrow> time_manipulator" where
  "vt_setup_wheels s =
     s\<lparr>vt_dt_count := vo_dt (vt_options s),
       vt_timing_wheel_vec := vt_timing_wheel_vec s @ make_wheels 0 1 (vo_wheel_size (vt_options s)),
       vt_timing_task_map := (vt_timing_task_map s)\<lparr>tm_pos := 1\<rparr>\<rparr>"

definition vt_Initialize ::
  "(rat \<Rightarrow> rat) \<times> string \<times> vt_node option \<Rightarrow> time_manipulator \<Rightarrow> (vt_error, time_manipulator) outcome" where
  "vt_Initialize = (\<lambda>(recip, name, options_node) s.
     case vt_get_executor_func s of
       None \<Rightarrow> (Some VtNoGetExecutor, s)
     | Some get_executor \<Rightarrow>
         (let (old, new) = atomic_exchange (vt_state s) kInit; s = s\<lparr>vt_state := new\<rparr> in
          if old \<noteq> kPreInit then (Some VtInitializedTwice, s)
          else
            let s = s\<lparr>vt_name := name\<rparr> in
            case (case options_node of None \<Rightarrow> Some (vt_options s) | Some node \<Rightarrow> vt_decode node default_vt_options) of
              None \<Rightarrow> (Some VtBadNode, s)
            | Some opts \<Rightarrow>
                let s = s\<lparr>vt_options := opts\<rparr> in
                if vo_bind_executor opts = [] then (Some VtEmptyBind, s)
                else
                  let r = get_executor (vo_bind_executor opts); s = s\<lparr>vt_bind_executor_ref := r\<rparr> in
                  case r of
                    None \<Rightarrow> (Some (VtBadBind (vo_bind_executor opts)), s)
                  | Some e \<Rightarrow>
                      let s = s\<lparr>vt_thread_safe := er_thread_safe e\<rparr> in
                      (case SetTimeRatio recip (vo_init_ratio opts) s of
                         Inl err \<Rightarrow> (Some err, s)
                       | Inr s \<Rightarrow> (None, vt_setup_wheels s))))"

definition vt_Start :: "time_manipulator \<Rightarrow> (vt_error, time_manipulator) outcome" where
  "vt_Start s =
     (let (old, new) = atomic_exchange (vt_state s) kStart; s = s\<lparr>vt_state := new\<rparr> in
      if old \<noteq> kInit then (Some VtNotInit, s)
      else (None, s\<lparr>vt_timer_thread := True\<rparr>))"

text \<open>The start of the timer thread, which \<open>Start\<close> waits for: virtual time begins at the clock's.\<close>

definition vt_loop_begin :: "nat \<Rightarrow> nat \<Rightarrow> time_manipulator \<Rightarrow> time_manipulator" where
  "vt_loop_begin sys_now std_now s =
     s\<lparr>vt_start_time_point := (if vo_use_system_clock (vt_options s) then sys_now else std_now), vt_start_flag := True\<rparr>"

definition vt_Shutdown :: "time_manipulator \<Rightarrow> time_manipulator" where
  "vt_Shutdown s =
     (let (old, new) = atomic_exchange (vt_state s) kShutdown; s = s\<lparr>vt_state := new\<rparr> in
      if old = kShutdown then s
      else s\<lparr>vt_timer_thread := False,
             vt_timing_task_map := (vt_timing_task_map s)\<lparr>tm_map := []\<rparr>,
             vt_timing_wheel_vec := [],
             vt_get_executor_func := None\<rparr>)"

definition vt_RegisterGetExecutorFunc ::
  "(string \<Rightarrow> executor_ref option) \<Rightarrow> time_manipulator \<Rightarrow> (vt_error, time_manipulator) outcome" where
  "vt_RegisterGetExecutorFunc f s =
     (if vt_state s \<noteq> kPreInit then (Some VtNotPreInit, s)
      else (None, s\<lparr>vt_get_executor_func := Some f\<rparr>))"

interpretation vt: lifecycle vt_state vt_Initialize vt_Start vt_Shutdown
  by unfold_locales
    (auto simp: vt_Initialize_def vt_Start_def vt_Shutdown_def atomic_exchange_def vt_setup_wheels_def SetTimeRatio_def Let_def
      split: option.splits if_splits prod.splits sum.splits)

definition vt_Execute :: "task_id \<Rightarrow> time_manipulator \<Rightarrow> time_manipulator" where
  "vt_Execute t s = s\<lparr>vt_bound_calls := vt_bound_calls s @ [t]\<rparr>"

definition vt_Now :: "time_manipulator \<Rightarrow> nat" where
  "vt_Now s = wrap64 (int (vt_current_tick_count s * vt_dt_count s + vt_start_time_point s))"

text \<open>The loop of \<open>ExecuteAt\<close>: \<open>cur\<close> and \<open>diff\<close> are divided by the sizes of the levels passed.\<close>

fun vt_place :: "nat \<Rightarrow> nat list \<Rightarrow> nat \<Rightarrow> nat \<Rightarrow> task_with_timestamp \<Rightarrow>
    timing_wheel_tool list \<Rightarrow> task_map \<Rightarrow>
    (vt_error, timing_wheel_tool list \<times> task_map) result" where
  "vt_place ii [] cur diff e ws m =
     Inr (ws, m\<lparr>tm_map := AList.update (diff + cur) (or_keep (map_of (tm_map m) (diff + cur)) [] @ [e]) (tm_map m)\<rparr>)"
| "vt_place ii (n # ns) cur diff e ws m =
     (if diff < n
      then let p = (diff + cur) mod n in
           if ii < length ws \<and> p < length (wheel (ws ! ii))
           then Inr (ws[ii := (ws ! ii)\<lparr>wheel := (wheel (ws ! ii))[p := wheel (ws ! ii) ! p @ [e]]\<rparr>], m)
           else Inl VtIndex
      else if n = 0 then Inl VtDivideByZero
      else vt_place (ii + 1) ns (cur div n) (diff div n) e ws m)"

definition vt_ExecuteAt :: "nat \<Rightarrow> task_id \<Rightarrow> time_manipulator \<Rightarrow> (vt_error, time_manipulator) result" where
  "vt_ExecuteAt tp t s =
     (let virtual_tp = wrap64 (int tp - int (vt_start_time_point s)) in
      if virtual_tp < wrap64 (int (vt_current_tick_count s * vt_dt_count s)) then Inr (vt_Execute t s)
      else if vt_dt_count s = 0 then Inl VtDivideByZero
      else
        let diff_tick_count = wrap64 (int (virtual_tp div vt_dt_count s) - int (vt_current_tick_count s))
        in bindR (vt_place 0 (vo_wheel_size (vt_options s)) (vt_current_tick_count s) diff_tick_count
                    \<lparr>tick_count = virtual_tp div vt_dt_count s, task = t\<rparr>
                    (vt_timing_wheel_vec s) (vt_timing_task_map s))
             (\<lambda>(ws, m). Inr (s\<lparr>vt_timing_wheel_vec := ws, vt_timing_task_map := m\<rparr>)))"

section \<open>The timer loop\<close>

text \<open>
  How long a round sleeps: \<open>dt\<close>, \<open>real_ratio\<close> times that when time is slowed down, in pieces
  of at most a second, the last one up to \<open>dt\<close> longer.
\<close>

definition round_dt :: "time_manipulator \<Rightarrow> nat" where
  "round_dt s = (if vt_ratio_direction s then vo_dt (vt_options s) else vo_dt (vt_options s) * vt_real_ratio s)"

function sleep_loop :: "nat \<Rightarrow> nat \<Rightarrow> nat list" where
  "sleep_loop step real_dt =
     (let sleep_time = (if 10 ^ 9 < real_dt then 10 ^ 9 else real_dt);
          real_dt' = real_dt - sleep_time;
          join = real_dt' \<noteq> 0 \<and> step < 10 ^ 9 \<and> real_dt' \<le> step;
          sleep_time = (if join then sleep_time + real_dt' else sleep_time);
          real_dt' = (if join then 0 else real_dt')
      in sleep_time # (if real_dt' \<noteq> 0 then sleep_loop step real_dt' else []))"
  by auto
termination
  by (relation "measure snd") (auto simp: Let_def split: if_splits)

declare sleep_loop.simps [simp del]

text \<open>
  One round of \<open>TimerLoop\<close>. \<open>VtRound\<close> is the point where it reads the ratio, before its sleep: from
  then on \<open>vr_left\<close> ticks are to be done, whatever ratio is set while it sleeps. A round that reads the
  pause value sleeps a second and does none. Behind the sleep follow the ticks, each a tick of the wheels
  under the lock, its tasks handed to the bound executor without the lock (\<open>vr_pending\<close>), and the new
  count. Other threads, and the tasks, call the executor between the lock regions and during the sleep. \<open>vr_log\<close> records which task was taken out
  at which tick.
\<close>

record vt_run =
  vr_exec :: time_manipulator
  vr_left :: nat
  vr_pending :: "task_list option"
  vr_log :: "(nat \<times> task_with_timestamp) list"

datatype vt_op =
    VtExecuteAt nat task_id | VtExecute task_id | VtSetTimeRatio rat | VtRound | VtTake | VtFinish

definition vt_finish :: "vt_run \<Rightarrow> vt_run" where
  "vt_finish r =
     r\<lparr>vr_exec := (vr_exec r)\<lparr>vt_current_tick_count := vt_current_tick_count (vr_exec r) + 1\<rparr>,
       vr_left := vr_left r - 1, vr_pending := None\<rparr>"

fun vt_step :: "(rat \<Rightarrow> rat) \<Rightarrow> vt_op \<Rightarrow> vt_run \<Rightarrow> (vt_error, vt_run) result" where
  "vt_step recip (VtExecuteAt tp t) r = bindR (vt_ExecuteAt tp t (vr_exec r)) (\<lambda>s. Inr (r\<lparr>vr_exec := s\<rparr>))"
| "vt_step recip (VtExecute t) r = Inr (r\<lparr>vr_exec := vt_Execute t (vr_exec r)\<rparr>)"
| "vt_step recip (VtSetTimeRatio ratio) r = bindR (SetTimeRatio recip ratio (vr_exec r)) (\<lambda>s. Inr (r\<lparr>vr_exec := s\<rparr>))"
| "vt_step recip VtRound r =
     (let s = vr_exec r in
      if vr_left r \<noteq> 0 \<or> vt_real_ratio s = max_uint32 then Inr r
      else Inr (r\<lparr>vr_left := (if vt_ratio_direction s then vt_real_ratio s else 1)\<rparr>))"
| "vt_step recip VtTake r =
     (if vr_left r = 0 \<or> vr_pending r \<noteq> None then Inr r
      else
        let s = vr_exec r in
        bindR (vt_Tick (vt_timing_wheel_vec s) (vt_timing_task_map s)) (\<lambda>(l, ws, m).
          let s = s\<lparr>vt_timing_wheel_vec := ws, vt_timing_task_map := m\<rparr> in
          if l = [] then Inr (vt_finish (r\<lparr>vr_exec := s\<rparr>))
          else Inr (r\<lparr>vr_exec := s, vr_pending := Some l,
                      vr_log := vr_log r @ map (Pair (vt_current_tick_count s)) l\<rparr>)))"
| "vt_step recip VtFinish r =
     (case vr_pending r of
        None \<Rightarrow> Inr r
      | Some l \<Rightarrow>
          Inr (vt_finish (r\<lparr>vr_exec := (vr_exec r)\<lparr>vt_bound_calls := vt_bound_calls (vr_exec r) @ map task l\<rparr>\<rparr>)))"

abbreviation vt_steps :: "(rat \<Rightarrow> rat) \<Rightarrow> vt_op list \<Rightarrow> vt_run \<Rightarrow> (vt_error, vt_run) result" where
  "vt_steps recip \<equiv> foldR (vt_step recip)"

section \<open>The service\<close>

text \<open>The service's answers: the ratio, a code and a message.\<close>

record common_rsp =
  cr_time_ratio :: rat
  cr_code :: nat
  cr_msg :: string

definition vt_SetErrorCode :: "nat \<Rightarrow> common_rsp \<Rightarrow> common_rsp" where
  "vt_SetErrorCode code rsp = rsp\<lparr>cr_code := code, cr_msg := [[], ''INVALID_EXECUTOR_NAME''] ! code\<rparr>"

definition RegisterTimeManipulatorExecutor :: "time_manipulator \<Rightarrow> (string \<times> time_manipulator) list \<Rightarrow> (string \<times> time_manipulator) list" where
  "RegisterTimeManipulatorExecutor s executor_map = emplace (vt_name s) s executor_map"

definition svc_SetTimeRatio ::
  "(rat \<Rightarrow> rat) \<Rightarrow> string \<Rightarrow> rat \<Rightarrow> common_rsp \<Rightarrow> (string \<times> time_manipulator) list \<Rightarrow>
   (vt_error, common_rsp \<times> (string \<times> time_manipulator) list) result" where
  "svc_SetTimeRatio recip executor_name time_ratio rsp executor_map =
     (case map_of executor_map executor_name of
        None \<Rightarrow> Inr (vt_SetErrorCode 1 rsp, executor_map)
      | Some s \<Rightarrow>
          bindR (SetTimeRatio recip time_ratio s) (\<lambda>s.
            Inr (rsp\<lparr>cr_time_ratio := GetTimeRatio recip s\<rparr>, AList.update executor_name s executor_map)))"

definition svc_Pause ::
  "(rat \<Rightarrow> rat) \<Rightarrow> string \<Rightarrow> common_rsp \<Rightarrow> (string \<times> time_manipulator) list \<Rightarrow>
   (vt_error, common_rsp \<times> (string \<times> time_manipulator) list) result" where
  "svc_Pause recip executor_name rsp executor_map =
     (case map_of executor_map executor_name of
        None \<Rightarrow> Inr (vt_SetErrorCode 1 rsp, executor_map)
      | Some s \<Rightarrow>
          bindR (SetTimeRatio recip 0 s) (\<lambda>s.
            Inr (rsp\<lparr>cr_time_ratio := GetTimeRatio recip s\<rparr>, AList.update executor_name s executor_map)))"

definition svc_GetTimeRatio ::
  "(rat \<Rightarrow> rat) \<Rightarrow> string \<Rightarrow> common_rsp \<Rightarrow> (string \<times> time_manipulator) list \<Rightarrow> common_rsp" where
  "svc_GetTimeRatio recip executor_name rsp executor_map =
     (case map_of executor_map executor_name of
        None \<Rightarrow> vt_SetErrorCode 1 rsp
      | Some s \<Rightarrow> rsp\<lparr>cr_time_ratio := GetTimeRatio recip s\<rparr>)"

section \<open>Ticks\<close>

abbreviation scales :: "timing_wheel_tool list \<Rightarrow> nat list" where
  "scales ws \<equiv> map scale ws"

lemma splice_scaled_frame:
  assumes "foldR splice_scaled l w = Inr w'"
  shows "length (wheel w') = length (wheel w) \<and> current_pos w' = current_pos w \<and> scale w' = scale w \<and>
    (\<forall>i < length (wheel w). set (wheel w ! i) \<subseteq> set (wheel w' ! i))"
proof (rule foldR_invariant [OF assms(1)])
  fix t v v'
  let ?P = "\<lambda>v. length (wheel v) = length (wheel w) \<and> current_pos v = current_pos w \<and> scale v = scale w \<and>
    (\<forall>i < length (wheel w). set (wheel w ! i) \<subseteq> set (wheel v ! i))"
  assume v: "?P v" and step: "splice_scaled t v = Inr v'"
  let ?p = "tick_count t mod scale v"
  have v': "?p < length (wheel v)" "v' = v\<lparr>wheel := (wheel v)[?p := wheel v ! ?p @ [t]]\<rparr>"
    using step by (auto simp: splice_scaled_def Let_def split: if_splits)
  have "set (wheel v ! i) \<subseteq> set (wheel v' ! i)" if "i < length (wheel v)" for i
    using slot_append [OF that] by (simp add: v'(2))
  then show "?P v'" using v v'(2) by fastforce
qed simp

text \<open>In the first wheel, whose scale is its size, nothing is out of range.\<close>

lemma splice_scaled_first:
  assumes "scale w = length (wheel w)" "wheel w \<noteq> []"
  shows "foldR splice_scaled l w = Inr (fold splice_task l w)"
  using assms
proof (induction l arbitrary: w)
  case (Cons t l)
  have "splice_scaled t w = Inr (splice_task t w)" using Cons.prems
    by (simp add: splice_scaled_def splice_task_def Let_def not_le)
  moreover have "scale (splice_task t w) = scale w" by (simp add: splice_task_def Let_def)
  moreover have "wheel (splice_task t w) \<noteq> []" using Cons.prems(2) splice_task_simps(1) by (metis length_0_conv)
  ultimately show ?case using Cons by simp
qed simp

lemma vt_Tick_head:
  assumes "vt_Tick (w # ws) m = Inr (out, ws', m')"
  shows "current_pos w < length (wheel w) \<and> out = wheel w ! current_pos w \<and>
    (\<exists>w' vs. ws' = w' # vs \<and> length (wheel w') = length (wheel w) \<and> scale w' = scale w \<and>
       (\<forall>i < length (wheel w). i \<noteq> current_pos w \<longrightarrow> set (wheel w ! i) \<subseteq> set (wheel w' ! i)))"
proof (cases "current_pos w + 1 = length (wheel w)")
  case True
  let ?w1 = "w\<lparr>wheel := (wheel w)[current_pos w := []], current_pos := 0\<rparr>"
  obtain l w2 vs where t: "foldR splice_scaled l ?w1 = Inr w2" "out = wheel w ! current_pos w" "ws' = w2 # vs"
    using assms True by (auto simp: Let_def bindR_eq_Inr split: if_splits)
  have "set (wheel w ! i) \<subseteq> set (wheel w2 ! i)" if "i < length (wheel w)" "i \<noteq> current_pos w" for i
    using splice_scaled_frame [OF t(1)] that by (auto dest!: spec [of _ i])
  then show ?thesis using t splice_scaled_frame [OF t(1)] True by auto
next
  case False
  then show ?thesis using assms by (auto simp: Let_def split: if_splits)
qed

lemma vt_Tick_pos_ok:
  assumes "vt_Tick ws m = Inr (out, ws', m')" "pos_ok u ws (tm_pos m)"
  shows "pos_ok (u + 1) ws' (tm_pos m') \<and> sizes ws' = sizes ws \<and> scales ws' = scales ws"
  using assms
proof (induction ws m arbitrary: u out ws' m' rule: vt_Tick.induct)
  case (2 w ws m)
  let ?n = "length (wheel w)" and ?p = "current_pos w"
  let ?w1 = "w\<lparr>wheel := (wheel w)[?p := []], current_pos := ?p + 1\<rparr>"
  have n: "0 < ?n" and p: "?p = u mod ?n" and tl: "pos_ok (u div ?n + 1) ws (tm_pos m)"
    using "2.prems"(2) by auto
  have lt: "?p < ?n" using n p by simp
  show ?case
  proof (cases "?p + 1 = ?n")
    case False
    then show ?thesis using n lt tl wrap_step(3) [OF n, of u] "2.prems"(1) by (auto simp: Let_def simp flip: p)
  next
    case True
    let ?r = "if ws \<noteq> [] then vt_Tick ws m else (case map_borrow m of (l, m') \<Rightarrow> Inr (l, [], m'))"
    obtain l vs w2 where r: "?r = Inr (l, vs, m')" "foldR splice_scaled l (?w1\<lparr>current_pos := 0\<rparr>) = Inr w2" "ws' = w2 # vs"
      using "2.prems"(1) True lt by (auto simp: Let_def bindR_eq_Inr)
    have ih: "pos_ok (u div ?n + 1 + 1) vs (tm_pos m') \<and> sizes vs = sizes ws \<and> scales vs = scales ws"
    proof (cases "ws = []")
      case True
      then show ?thesis using r(1) tl map_borrow_pos [of m] by (cases "map_borrow m") auto
    next
      case False
      then show ?thesis using "2.IH" [OF _ refl refl _ _ _ tl] lt \<open>?p + 1 = ?n\<close> r(1) by auto
    qed
    have "(u + 1) mod ?n = 0" "(u + 1) div ?n = u div ?n + 1"
      using True p wrap_step(1,2) [OF n, of u] by auto
    then show ?thesis using ih r(3) splice_scaled_frame [OF r(2)] n by auto
  qed
qed simp

section \<open>Where a task waits, and for which tick\<close>

text \<open>
  \<open>waits u ws e F\<close>: with \<open>u\<close> ticks done, the entry \<open>e\<close> sits in the slot of the first or second
  wheel from which tick \<open>F\<close> takes it out.
\<close>

fun waits :: "nat \<Rightarrow> timing_wheel_tool list \<Rightarrow> task_with_timestamp \<Rightarrow> nat \<Rightarrow> bool" where
  "waits u [] e F = False"
| "waits u (w # ws) e F =
     (let n = length (wheel w) in
      F mod n = tick_count e mod n \<and>
      (u \<le> F \<and> F < u + n \<and> e \<in> set (wheel w ! (F mod n)) \<or>
       (case ws of
          [] \<Rightarrow> False
        | v # _ \<Rightarrow>
            let k = length (wheel v); d = F div n
            in u div n + 1 \<le> d \<and> d < u div n + 1 + k \<and> e \<in> set (wheel v ! (d mod k)))))"

lemma vt_Tick_waits0:
  assumes "pos_ok u (w # ws) (tm_pos m)" "vt_Tick (w # ws) m = Inr (out, ws', m')"
    and "F mod length (wheel w) = tick_count e mod length (wheel w)" "u \<le> F" "F < u + length (wheel w)"
    and "e \<in> set (wheel w ! (F mod length (wheel w)))"
  shows "if F = u then e \<in> set out else waits (u + 1) ws' e F"
proof -
  let ?n = "length (wheel w)"
  obtain w' vs where h: "out = wheel w ! current_pos w" "ws' = w' # vs" "length (wheel w') = ?n"
    "\<And>i. i < ?n \<Longrightarrow> i \<noteq> current_pos w \<Longrightarrow> set (wheel w ! i) \<subseteq> set (wheel w' ! i)"
    using vt_Tick_head [OF assms(2)] by blast
  have p: "current_pos w = u mod ?n" and n: "0 < ?n" using assms(1) by auto
  show ?thesis
  proof (cases "F = u")
    case True
    then show ?thesis using assms(6) h(1) p by simp
  next
    case False
    then have "F mod ?n \<noteq> u mod ?n" using mod_eq_within [OF assms(4,5)] by blast
    then have "e \<in> set (wheel w' ! (F mod ?n))" using h(4) [of "F mod ?n"] assms(6) p n by auto
    then show ?thesis using False assms(3-5) h(2,3) by (auto simp: Let_def)
  qed
qed

lemma vt_Tick_waits1:
  assumes "pos_ok u (w # v # vs) (tm_pos m)" "vt_Tick (w # v # vs) m = Inr (out, ws', m')" "scale w = length (wheel w)"
    and "F mod length (wheel w) = tick_count e mod length (wheel w)"
    and "u div length (wheel w) + 1 \<le> F div length (wheel w)"
    and "F div length (wheel w) < u div length (wheel w) + 1 + length (wheel v)"
    and "e \<in> set (wheel v ! (F div length (wheel w) mod length (wheel v)))"
  shows "F \<noteq> u \<and> waits (u + 1) ws' e F"
proof -
  let ?n = "length (wheel w)" and ?k = "length (wheel v)"
  let ?d = "F div ?n" and ?u1 = "u div ?n + 1"
  have p: "current_pos w = u mod ?n" "current_pos v = ?u1 mod ?k" and n: "0 < ?n" "0 < ?k"
    using assms(1) by auto
  have lt: "current_pos w < ?n" using p n by simp
  have ne: "F \<noteq> u" using assms(5) by auto
  show ?thesis
  proof (cases "current_pos w + 1 = ?n")
    case False
    then have "(u + 1) div ?n = u div ?n" using wrap_step(3) [OF n(1), of u] p by simp
    moreover have "ws' = w\<lparr>wheel := (wheel w)[current_pos w := []], current_pos := current_pos w + 1\<rparr> # v # vs"
      using assms(2) False lt by (auto simp: Let_def)
    ultimately show ?thesis using assms(4-7) ne by (simp add: Let_def)
  next
    case True
    have u1: "(u + 1) div ?n = ?u1" "(u + 1) mod ?n = 0" using True p wrap_step [OF n(1), of u] by auto
    let ?w2 = "w\<lparr>wheel := (wheel w)[current_pos w := []], current_pos := 0\<rparr>"
    have "wheel ?w2 \<noteq> []" "scale ?w2 = length (wheel ?w2)" using n(1) assms(3) by auto
    then obtain l ws2 where t: "vt_Tick (v # vs) m = Inr (l, ws2, m')" "ws' = fold splice_task l ?w2 # ws2"
      using assms(2) True lt splice_scaled_first [of ?w2] by (auto simp: Let_def bindR_eq_Inr simp del: vt_Tick.simps(2) dest: sym split: if_splits)
        (auto simp: Let_def bindR_eq_Inr)
    obtain v' vs' where h: "l = wheel v ! current_pos v" "ws2 = v' # vs'" "length (wheel v') = ?k"
      "\<And>i. i < ?k \<Longrightarrow> i \<noteq> current_pos v \<Longrightarrow> set (wheel v ! i) \<subseteq> set (wheel v' ! i)"
      using vt_Tick_head [OF t(1)] by blast
    show ?thesis
    proof (cases "?d = ?u1")
      case True
      then have el: "e \<in> set l" using assms(7) h(1) p by simp
      have "u + 1 = ?u1 * ?n" using u1 by (metis div_mult_mod_eq add.right_neutral)
      moreover have "F = ?u1 * ?n + F mod ?n" using True by (metis div_mult_mod_eq)
      moreover have "F mod ?n < ?n" using n by simp
      ultimately have "u + 1 \<le> F \<and> F < u + 1 + ?n" by linarith
      then show ?thesis using ne el n assms(4) by (simp add: t(2) Let_def fold_splice_slot)
    next
      case False
      then have "?d mod ?k \<noteq> ?u1 mod ?k" using mod_eq_within [OF assms(5,6)] by blast
      then have "e \<in> set (wheel v' ! (?d mod ?k))" using h(4) [of "?d mod ?k"] assms(7) p n by auto
      then show ?thesis using ne False assms(4-6) u1 by (simp add: t(2) h Let_def)
    qed
  qed
qed

lemma vt_Tick_waits:
  assumes "pos_ok u ws (tm_pos m)" "vt_Tick ws m = Inr (out, ws', m')" "scales ws \<noteq> [] \<longrightarrow> hd (scales ws) = hd (sizes ws)"
    and "waits u ws e F"
  shows "if F = u then e \<in> set out else waits (u + 1) ws' e F"
proof (cases ws)
  case (Cons w vs)
  let ?n = "length (wheel w)"
  have F: "F mod ?n = tick_count e mod ?n" using assms(4) Cons by (simp add: Let_def)
  show ?thesis
  proof (cases "u \<le> F \<and> F < u + ?n \<and> e \<in> set (wheel w ! (F mod ?n))")
    case True
    then show ?thesis using vt_Tick_waits0 [OF assms(1,2) [unfolded Cons] F] by blast
  next
    case False
    then obtain v us where v: "vs = v # us" "u div ?n + 1 \<le> F div ?n" "F div ?n < u div ?n + 1 + length (wheel v)"
      "e \<in> set (wheel v ! (F div ?n mod length (wheel v)))"
      using assms(4) Cons by (auto simp: Let_def split: list.splits)
    have "scale w = ?n" using assms(3) Cons by simp
    then show ?thesis using vt_Tick_waits1 [OF assms(1,2) [unfolded Cons v(1)] _ F v(2-4)] by simp
  qed
qed (use assms in simp)

section \<open>Runs\<close>

lemma grows_waits:
  assumes "grows ws ws'" "pos_ok u ws p" "waits u ws e F"
  shows "waits u ws' e F"
proof (cases ws)
  case w: (Cons w vs)
  let ?n = "length (wheel w)"
  obtain w' vs' where w': "ws' = w' # vs'" "length (wheel w') = ?n" "grows vs vs'"
    "\<forall>i < ?n. set (wheel w ! i) \<subseteq> set (wheel w' ! i)"
    using grows_Cons assms(1) w by blast
  have n: "0 < ?n" using assms(2) w by simp
  have lvl0: "e \<in> set (wheel w ! (F mod ?n)) \<Longrightarrow> e \<in> set (wheel w' ! (F mod ?n))"
    using w'(4) mod_less_divisor [OF n, of F] by blast
  show ?thesis
  proof (cases vs)
    case Nil
    then have e: "F mod ?n = tick_count e mod ?n" "u \<le> F" "F < u + ?n" "e \<in> set (wheel w' ! (F mod ?n))"
      using assms(3) w lvl0 by (auto simp: Let_def)
    show ?thesis by (simp add: w'(1,2) Let_def e) (use e in simp)
  next
    case (Cons v us)
    let ?k = "length (wheel v)"
    obtain v' us' where v': "vs' = v' # us'" "length (wheel v') = ?k"
      "\<forall>i < ?k. set (wheel v ! i) \<subseteq> set (wheel v' ! i)"
      using grows_Cons w'(3) Cons by blast
    have k: "0 < ?k" using assms(2) w Cons by simp
    have "e \<in> set (wheel v ! (F div ?n mod ?k)) \<Longrightarrow> e \<in> set (wheel v' ! (F div ?n mod ?k))"
      using v'(3) mod_less_divisor [OF k, of "F div ?n"] by blast
    then show ?thesis using assms(3) lvl0 by (auto simp: w w'(1,2) v'(1,2) Cons Let_def)
  qed
qed (use assms in simp)

lemma vt_place_grows:
  "vt_place ii ns cur diff e ws m = Inr (ws', m') \<Longrightarrow> grows ws ws' \<and> scales ws' = scales ws \<and> tm_pos m' = tm_pos m"
proof (induction ii ns cur diff e ws m rule: vt_place.induct)
  case (2 ii n ns cur diff e ws m)
  show ?case
  proof (cases "diff < n")
    case True
    let ?p = "(diff + cur) mod n"
    have ii: "ii < length ws" and ws': "ws' = ws[ii := (ws ! ii)\<lparr>wheel := (wheel (ws ! ii))[?p := wheel (ws ! ii) ! ?p @ [e]]\<rparr>]" "m' = m"
      using "2.prems" True by (auto simp: Let_def split: if_splits)
    have "scales ws' = scales ws" unfolding ws' map_update by (simp add: list_update_same_conv ii)
    then show ?thesis using add_slot_grows [OF ii] ws' by simp
  next
    case False
    then show ?thesis using 2 by (auto split: if_splits)
  qed
qed auto

text \<open>The tick a task scheduled for tick \<open>T\<close> with \<open>u\<close> ticks done is taken out at.\<close>

definition fire_tick :: "nat \<Rightarrow> nat \<Rightarrow> nat \<Rightarrow> nat" where
  "fire_tick n u T = (if n \<le> T - u \<and> n \<le> u mod n + (T - u) mod n then T - n else T)"

lemma fire_tick_level1:
  assumes "0 < n" "u \<le> T" "n \<le> T - u"
  shows "fire_tick n u T div n = u div n + (T - u) div n \<and> fire_tick n u T mod n = T mod n"
proof -
  let ?d = "T - u"
  have T: "T div n = u div n + ?d div n + (u mod n + ?d mod n) div n"
    using div_add1_eq [of u ?d n] assms(2) by simp
  show ?thesis
  proof (cases "n \<le> u mod n + ?d mod n")
    case True
    have "u mod n + ?d mod n < 2 * n" using mod_less_divisor [OF assms(1), of u] mod_less_divisor [OF assms(1), of ?d] by linarith
    then have "(u mod n + ?d mod n) div n = 1" using True assms(1) by (simp add: div_nat_eqI)
    moreover have "n \<le> T" using assms(3) by linarith
    ultimately show ?thesis using T True assms(1,3) le_div_geq [of n T] le_mod_geq [of n T] by (simp add: fire_tick_def)
  next
    case False
    then show ?thesis using T by (simp add: fire_tick_def)
  qed
qed

lemma vt_place_waits:
  assumes "sizes ws = n0 # n1 # ns" "0 < n0" "0 < n1" "u \<le> tick_count e" "tick_count e - u < n0 * n1"
    and "vt_place 0 (n0 # n1 # ns) u (tick_count e - u) e ws m = Inr (ws', m')"
  shows "waits u ws' e (fire_tick n0 u (tick_count e))"
proof -
  let ?T = "tick_count e" and ?F = "fire_tick n0 u (tick_count e)"
  obtain w v us where ws: "ws = w # v # us" "length (wheel w) = n0" "length (wheel v) = n1"
    using assms(1) by (auto simp: map_eq_Cons_conv)
  show ?thesis
  proof (cases "?T - u < n0")
    case True
    then have F: "?F = ?T" by (simp add: fire_tick_def)
    have "ws' = w\<lparr>wheel := (wheel w)[?T mod n0 := wheel w ! (?T mod n0) @ [e]]\<rparr> # v # us"
      using assms(2,4,6) True ws by (auto simp: Let_def)
    moreover have "?T < u + n0" using True assms(4) by linarith
    ultimately show ?thesis using assms(2,4) ws(2) unfolding F by (simp add: Let_def)
  next
    case False
    note F = fire_tick_level1 [OF assms(2,4)]
    have lt: "(?T - u) div n0 < n1" using assms(5) by (simp add: less_mult_imp_div_less mult.commute)
    let ?p = "((?T - u) div n0 + u div n0) mod n1"
    have ws': "ws' = w # v\<lparr>wheel := (wheel v)[?p := wheel v ! ?p @ [e]]\<rparr> # us"
      using assms(2,3,6) False lt ws by (auto simp: Let_def)
    have "1 \<le> (?T - u) div n0" using False assms(2) by (simp add: Suc_le_eq div_greater_zero_iff)
    then have "u div n0 + 1 \<le> ?F div n0" "?F div n0 < u div n0 + 1 + n1" "?F mod n0 = ?T mod n0" "?F div n0 mod n1 = ?p"
      using F False lt by (auto simp: add.commute)
    then show ?thesis using assms(3) ws(2,3) unfolding ws' by (simp add: Let_def)
  qed
qed

definition vt_inv :: "nat \<Rightarrow> time_manipulator \<Rightarrow> bool" where
  "vt_inv u s \<longleftrightarrow>
     pos_ok u (vt_timing_wheel_vec s) (tm_pos (vt_timing_task_map s)) \<and>
     sizes (vt_timing_wheel_vec s) = vo_wheel_size (vt_options s) \<and>
     (scales (vt_timing_wheel_vec s) \<noteq> [] \<longrightarrow> hd (scales (vt_timing_wheel_vec s)) = hd (sizes (vt_timing_wheel_vec s))) \<and>
     0 < vt_dt_count s"

definition vr_ticks :: "vt_run \<Rightarrow> nat" where
  "vr_ticks r = vt_current_tick_count (vr_exec r) + (if vr_pending r = None then 0 else 1)"

definition vt_tracked :: "task_with_timestamp \<Rightarrow> nat \<Rightarrow> vt_run \<Rightarrow> bool" where
  "vt_tracked e F r \<longleftrightarrow>
     (if F < vr_ticks r then (F, e) \<in> set (vr_log r)
      else waits (vr_ticks r) (vt_timing_wheel_vec (vr_exec r)) e F)"

lemma vt_ExecuteAt_frame:
  assumes "vt_ExecuteAt tp t s = Inr s'" "vt_inv u s"
  shows "vt_inv u s' \<and> vt_current_tick_count s' = vt_current_tick_count s \<and>
    (\<forall>e F. waits u (vt_timing_wheel_vec s) e F \<longrightarrow> waits u (vt_timing_wheel_vec s') e F)"
proof (cases "s' = vt_Execute t s")
  case True
  then show ?thesis using assms(2) by (simp add: vt_inv_def vt_Execute_def)
next
  case False
  then obtain ns cur diff e ws m where p: "vt_place 0 ns cur diff e (vt_timing_wheel_vec s) (vt_timing_task_map s) = Inr (ws, m)"
    and s': "s' = s\<lparr>vt_timing_wheel_vec := ws, vt_timing_task_map := m\<rparr>"
    using assms(1) by (auto simp: vt_ExecuteAt_def Let_def bindR_eq_Inr split: if_splits)
  note g = vt_place_grows [OF p]
  have "pos_ok u (vt_timing_wheel_vec s) (tm_pos (vt_timing_task_map s))" using assms(2) by (simp add: vt_inv_def)
  then show ?thesis using assms(2) g grows_waits [OF conjunct1 [OF g]] grows_pos_ok [OF conjunct1 [OF g]] grows_sizes [OF conjunct1 [OF g]]
    by (auto simp: s' vt_inv_def)
qed

lemma SetTimeRatio_frame:
  assumes "SetTimeRatio recip ratio s = Inr s'"
  shows "vt_timing_wheel_vec s' = vt_timing_wheel_vec s" "vt_current_tick_count s' = vt_current_tick_count s"
    "vt_inv u s' = vt_inv u s" "vt_dt_count s' = vt_dt_count s" "vt_start_time_point s' = vt_start_time_point s"
  using assms by (auto simp: SetTimeRatio_def Let_def vt_inv_def split: if_splits)

lemma vt_inv_wheels:
  "vt_inv v (s\<lparr>vt_timing_wheel_vec := ws, vt_timing_task_map := m\<rparr>) \<longleftrightarrow>
     pos_ok v ws (tm_pos m) \<and> sizes ws = vo_wheel_size (vt_options s) \<and>
     (scales ws \<noteq> [] \<longrightarrow> hd (scales ws) = hd (sizes ws)) \<and> 0 < vt_dt_count s"
  by (simp add: vt_inv_def)

lemma vt_step_tracked:
  assumes "vt_step recip op r = Inr r'" "vt_inv (vr_ticks r) (vr_exec r)"
  shows "vt_inv (vr_ticks r') (vr_exec r') \<and> (vt_tracked e F r \<longrightarrow> vt_tracked e F r')"
proof (cases op)
  case (VtExecuteAt tp t)
  then obtain s where s: "vt_ExecuteAt tp t (vr_exec r) = Inr s" "r' = r\<lparr>vr_exec := s\<rparr>"
    using assms(1) by (auto simp: bindR_eq_Inr)
  note f = vt_ExecuteAt_frame [OF s(1) assms(2)]
  have "vr_ticks r' = vr_ticks r" using f s(2) by (simp add: vr_ticks_def)
  then show ?thesis using f s(2) by (simp add: vt_tracked_def)
next
  case (VtExecute t)
  then have r': "r' = r\<lparr>vr_exec := vt_Execute t (vr_exec r)\<rparr>" using assms(1) by simp
  have "vr_ticks r' = vr_ticks r" "vt_inv (vr_ticks r) (vr_exec r')" using assms(2) by (simp_all add: r' vr_ticks_def vt_Execute_def vt_inv_def)
  then show ?thesis by (simp add: r' vt_tracked_def vt_Execute_def)
next
  case (VtSetTimeRatio ratio)
  then obtain s where s: "SetTimeRatio recip ratio (vr_exec r) = Inr s" "r' = r\<lparr>vr_exec := s\<rparr>"
    using assms(1) by (auto simp: bindR_eq_Inr)
  have "vr_ticks r' = vr_ticks r" using SetTimeRatio_frame(2) [OF s(1)] by (simp add: s(2) vr_ticks_def)
  then show ?thesis using assms(2) SetTimeRatio_frame(1,3) [OF s(1)] by (simp add: s(2) vt_tracked_def)
next
  case VtRound
  then have "vr_exec r' = vr_exec r" "vr_pending r' = vr_pending r" "vr_log r' = vr_log r"
    using assms(1) by (auto simp: Let_def split: if_splits)
  then show ?thesis using assms(2) by (simp add: vr_ticks_def vt_tracked_def)
next
  case VtFinish
  show ?thesis
  proof (cases "vr_pending r")
    case (Some l)
    then have r': "r' = vt_finish (r\<lparr>vr_exec := (vr_exec r)\<lparr>vt_bound_calls := vt_bound_calls (vr_exec r) @ map task l\<rparr>\<rparr>)"
      using assms(1) VtFinish by simp
    have "vr_ticks r' = vr_ticks r" "vt_inv (vr_ticks r) (vr_exec r')" "vr_log r' = vr_log r"
      "vt_timing_wheel_vec (vr_exec r') = vt_timing_wheel_vec (vr_exec r)"
      using assms(2) Some by (simp_all add: r' vt_finish_def vr_ticks_def vt_inv_def)
    then show ?thesis by (simp add: vt_tracked_def)
  qed (use assms VtFinish in simp)
next
  case VtTake
  show ?thesis
  proof (cases "vr_left r = 0 \<or> vr_pending r \<noteq> None")
    case True
    then show ?thesis using assms VtTake by simp
  next
    case False
    let ?s = "vr_exec r" and ?c = "vt_current_tick_count (vr_exec r)"
    have u: "vr_ticks r = ?c" using False by (simp add: vr_ticks_def)
    obtain l ws m where t: "vt_Tick (vt_timing_wheel_vec ?s) (vt_timing_task_map ?s) = Inr (l, ws, m)"
      using assms(1) False VtTake by (auto simp: Let_def bindR_eq_Inr)
    let ?s' = "?s\<lparr>vt_timing_wheel_vec := ws, vt_timing_task_map := m\<rparr>"
    have p: "pos_ok ?c (vt_timing_wheel_vec ?s) (tm_pos (vt_timing_task_map ?s))"
      "scales (vt_timing_wheel_vec ?s) \<noteq> [] \<longrightarrow> hd (scales (vt_timing_wheel_vec ?s)) = hd (sizes (vt_timing_wheel_vec ?s))"
      using assms(2) u by (simp_all add: vt_inv_def)
    have k: "pos_ok (Suc ?c) ws (tm_pos m)" "sizes ws = sizes (vt_timing_wheel_vec ?s)" "scales ws = scales (vt_timing_wheel_vec ?s)"
      using vt_Tick_pos_ok [OF t p(1)] by simp_all
    have inv: "vt_inv (Suc ?c) ?s'" using assms(2) k(1) unfolding vt_inv_wheels k(2,3) unfolding vt_inv_def by blast
    have w: "waits ?c (vt_timing_wheel_vec ?s) e F \<Longrightarrow> if F = ?c then e \<in> set l else waits (Suc ?c) ws e F"
      unfolding Suc_eq_plus1 by (rule vt_Tick_waits [OF p(1) t p(2)])
    show ?thesis
    proof (cases "l = []")
      case True
      then have r': "r' = vt_finish (r\<lparr>vr_exec := ?s'\<rparr>)" using assms(1) False VtTake t by (simp add: Let_def)
      have "vr_ticks r' = Suc ?c" "vt_timing_wheel_vec (vr_exec r') = ws" "vr_log r' = vr_log r" "vt_inv (Suc ?c) (vr_exec r')"
        using inv by (simp_all add: r' vt_finish_def vr_ticks_def vt_inv_def)
      moreover have "F = ?c \<Longrightarrow> \<not> waits ?c (vt_timing_wheel_vec ?s) e F" using w True by auto
      moreover have "F > ?c \<Longrightarrow> waits ?c (vt_timing_wheel_vec ?s) e F \<Longrightarrow> waits (Suc ?c) ws e F" using w by simp
      ultimately show ?thesis using u by (cases F ?c rule: linorder_cases) (simp_all add: vt_tracked_def)
    next
      case ne: False
      then have r': "r' = r\<lparr>vr_exec := ?s', vr_pending := Some l, vr_log := vr_log r @ map (Pair ?c) l\<rparr>"
        using assms(1) False VtTake t by (simp add: Let_def)
      have "vr_ticks r' = Suc ?c" "vt_timing_wheel_vec (vr_exec r') = ws" "vt_inv (Suc ?c) (vr_exec r')"
        "set (vr_log r') = set (vr_log r) \<union> Pair ?c ` set l"
        using inv by (simp_all add: r' vr_ticks_def)
      then show ?thesis using w u by (cases F ?c rule: linorder_cases) (simp_all add: vt_tracked_def)
    qed
  qed
qed

lemma vt_steps_tracked:
  assumes "vt_steps recip ops r = Inr r'" "vt_inv (vr_ticks r) (vr_exec r)" "vt_tracked e F r"
  shows "vt_tracked e F r'"
proof -
  have "vt_inv (vr_ticks r') (vr_exec r') \<and> vt_tracked e F r'"
    by (rule foldR_invariant [OF assms(1)]) (use assms(2,3) vt_step_tracked in blast)+
  then show ?thesis by simp
qed

text \<open>
  C18. When a task runs: a task scheduled between two ticks (the thread is not handing out the
  tasks of a tick, which it does without the lock and before it counts the tick), not before the
  current tick and within the reach of the first two wheels, is taken out at its own tick, unless
  the two remainders modulo the first wheel's size carry; then it is taken out one turn of the first
  wheel early. What else is scheduled afterwards, the ratios set and the interleaving with the
  timer thread make no difference.
\<close>

theorem manipulated_task_fires:
  assumes "vt_inv (vr_ticks r) (vr_exec r)" "vr_pending r = None" "s = vr_exec r" "u = vt_current_tick_count s"
    and "vo_wheel_size (vt_options s) = n0 # n1 # ns" "vt_start_time_point s \<le> tp" "tp < 2 ^ 64"
    and "T = (tp - vt_start_time_point s) div vt_dt_count s" "u \<le> T" "T - u < n0 * n1"
    and "vt_steps recip (VtExecuteAt tp t # ops) r = Inr r'"
    and "F = (if n0 \<le> T - u \<and> n0 \<le> u mod n0 + (T - u) mod n0 then T - n0 else T)" "F < vr_ticks r'"
  shows "(F, \<lparr>tick_count = T, task = t\<rparr>) \<in> set (vr_log r')"
proof -
  let ?dt = "vt_dt_count s" and ?e = "\<lparr>tick_count = T, task = t\<rparr>"
  have v: "wrap64 (int tp - int (vt_start_time_point s)) = tp - vt_start_time_point s"
    using assms(6,7) by (subst wrap64_id) auto
  have "u * ?dt \<le> T * ?dt" using assms(9) by simp
  also have "\<dots> \<le> tp - vt_start_time_point s" by (simp add: assms(8))
  finally have "u * ?dt \<le> tp - vt_start_time_point s" .
  then have late: "\<not> tp - vt_start_time_point s < wrap64 (int (u * ?dt))"
    using assms(7) by (subst wrap64_id) (auto simp del: of_nat_mult)
  have "T \<le> tp - vt_start_time_point s" unfolding assms(8) by (rule div_le_dividend)
  then have d: "wrap64 (int T - int u) = T - u" using assms(7,9) by (subst wrap64_id) auto
  have ticks: "vr_ticks r = u" using assms(2-4) by (simp add: vr_ticks_def)
  have inv: "vt_inv u s" using assms(1,3) ticks by simp
  obtain s1 where s1: "vt_ExecuteAt tp t s = Inr s1" "vt_steps recip ops (r\<lparr>vr_exec := s1\<rparr>) = Inr r'"
    using assms(3,11) by (auto simp: bindR_eq_Inr)
  obtain ws m where pl: "vt_place 0 (n0 # n1 # ns) u (T - u) ?e (vt_timing_wheel_vec s) (vt_timing_task_map s) = Inr (ws, m)"
    "s1 = s\<lparr>vt_timing_wheel_vec := ws, vt_timing_task_map := m\<rparr>"
    using s1(1) late inv unfolding assms(4,5,8)
    by (auto simp: vt_ExecuteAt_def Let_def v d [unfolded assms(4,8)] assms(5) vt_inv_def bindR_eq_Inr simp del: vt_place.simps split: if_splits)
  have sz: "sizes (vt_timing_wheel_vec s) = n0 # n1 # ns" using inv assms(5) by (simp add: vt_inv_def)
  obtain w0 w1 ws0 where w: "vt_timing_wheel_vec s = w0 # w1 # ws0" "length (wheel w0) = n0" "length (wheel w1) = n1"
    using sz by (auto simp: map_eq_Cons_conv)
  have pos: "0 < n0" "0 < n1" using inv by (auto simp: vt_inv_def w(1) simp flip: w(2,3))
  have "waits u ws ?e (fire_tick n0 u T)"
    using vt_place_waits [OF sz pos, of u ?e] pl(1) assms(9,10) by simp
  moreover have F: "fire_tick n0 u T = F" by (simp add: fire_tick_def assms(12))
  moreover have "u \<le> F"
  proof -
    have "n0 \<le> T - u \<Longrightarrow> u \<le> T - n0" using assms(9) by linarith
    then show ?thesis using assms(9,12) by auto
  qed
  moreover have f: "vt_inv u s1" "vt_current_tick_count s1 = u" using vt_ExecuteAt_frame [OF s1(1) inv] assms(4) by simp_all
  ultimately have "vt_tracked ?e F (r\<lparr>vr_exec := s1\<rparr>)" "vr_ticks (r\<lparr>vr_exec := s1\<rparr>) = u"
    using assms(2) pl(2) by (simp_all add: vt_tracked_def vr_ticks_def)
  then have "vt_tracked ?e F r'" using vt_steps_tracked [OF s1(2)] f(1) by simp
  then show ?thesis using assms(13) by (simp add: vt_tracked_def)
qed

section \<open>Virtual time\<close>

text \<open>What the round under way still has to do, and what is done.\<close>

lemma vt_ExecuteAt_time:
  assumes "vt_ExecuteAt tp t s = Inr s'"
  shows "vt_current_tick_count s' = vt_current_tick_count s" "vt_dt_count s' = vt_dt_count s"
    "vt_start_time_point s' = vt_start_time_point s" "vt_real_ratio s' = vt_real_ratio s"
    "vt_ratio_direction s' = vt_ratio_direction s"
  using assms by (auto simp: vt_ExecuteAt_def vt_Execute_def Let_def bindR_eq_Inr split: if_splits)

definition owed :: "vt_run \<Rightarrow> nat" where
  "owed r = vt_current_tick_count (vr_exec r) + vr_left r"

definition round_ok :: "vt_run \<Rightarrow> bool" where
  "round_ok r \<longleftrightarrow> (vr_pending r \<noteq> None \<longrightarrow> vr_left r \<noteq> 0)"

lemma vt_step_owed:
  assumes "vt_step recip op r = Inr r'" "round_ok r"
  shows "round_ok r' \<and> vt_dt_count (vr_exec r') = vt_dt_count (vr_exec r) \<and>
    vt_start_time_point (vr_exec r') = vt_start_time_point (vr_exec r) \<and>
    vt_current_tick_count (vr_exec r) \<le> vt_current_tick_count (vr_exec r') \<and>
    owed r' = owed r + (if op = VtRound \<and> vr_left r = 0 \<and> vt_real_ratio (vr_exec r) \<noteq> max_uint32
      then if vt_ratio_direction (vr_exec r) then vt_real_ratio (vr_exec r) else 1 else 0)"
proof (cases op)
  case (VtExecuteAt tp t)
  then show ?thesis using assms by (auto simp: bindR_eq_Inr owed_def round_ok_def vt_ExecuteAt_time)
next
  case (VtExecute t)
  then show ?thesis using assms by (auto simp: owed_def round_ok_def vt_Execute_def)
next
  case (VtSetTimeRatio ratio)
  then show ?thesis using assms by (auto simp: bindR_eq_Inr owed_def round_ok_def SetTimeRatio_frame)
next
  case VtRound
  then show ?thesis using assms by (auto simp: owed_def round_ok_def Let_def)
next
  case VtFinish
  then show ?thesis using assms by (auto simp: owed_def round_ok_def vt_finish_def split: option.splits)
next
  case VtTake
  show ?thesis
  proof (cases "vr_left r = 0 \<or> vr_pending r \<noteq> None")
    case True
    then show ?thesis using assms VtTake by simp
  next
    case False
    obtain l ws m where t: "vt_Tick (vt_timing_wheel_vec (vr_exec r)) (vt_timing_task_map (vr_exec r)) = Inr (l, ws, m)"
      using assms(1) False VtTake by (auto simp: Let_def bindR_eq_Inr)
    let ?s = "(vr_exec r)\<lparr>vt_timing_wheel_vec := ws, vt_timing_task_map := m\<rparr>"
    have "r' = (if l = [] then vt_finish (r\<lparr>vr_exec := ?s\<rparr>) else r\<lparr>vr_exec := ?s, vr_pending := Some l,
        vr_log := vr_log r @ map (Pair (vt_current_tick_count ?s)) l\<rparr>)"
      using assms(1) False VtTake t by (simp add: Let_def split: if_splits)
    then show ?thesis using False VtTake by (cases "l = []") (simp_all add: owed_def round_ok_def vt_finish_def)
  qed
qed

lemma vt_step_ratio:
  assumes "vt_step recip op r = Inr r'" "\<forall>ratio. op \<noteq> VtSetTimeRatio ratio"
  shows "vt_real_ratio (vr_exec r') = vt_real_ratio (vr_exec r) \<and> vt_ratio_direction (vr_exec r') = vt_ratio_direction (vr_exec r)"
  using assms
  by (cases op)
    (auto simp: bindR_eq_Inr vt_ExecuteAt_time vt_Execute_def vt_finish_def Let_def split: if_splits option.splits)

lemma wrap64_add_left: "wrap64 (int (wrap64 x) + y) = wrap64 (x + y)"
  by (simp add: wrap64_def mod_add_left_eq)

text \<open>
  C19. A pause stops virtual time at the end of the round under way: from the moment a ratio of
  zero or less is set, and until another ratio is set, the clock goes on by exactly the ticks the round
  under way had left (its ratio was read before its sleep), whatever is scheduled; with no round under
  way \<open>Now\<close> gives the same time point throughout. \<open>GetTimeRatio\<close> gives zero at once.
\<close>

theorem pause_stops_time:
  assumes "SetTimeRatio recip ratio (vr_exec r) = Inr s" "ratio \<le> 0" "round_ok r"
    and "vt_steps recip ops (r\<lparr>vr_exec := s\<rparr>) = Inr r'" "\<forall>ratio. VtSetTimeRatio ratio \<notin> set ops"
  shows "vt_current_tick_count (vr_exec r') + vr_left r' = vt_current_tick_count (vr_exec r) + vr_left r \<and>
    vt_current_tick_count (vr_exec r) \<le> vt_current_tick_count (vr_exec r') \<and>
    (vr_left r = 0 \<longrightarrow> vt_Now (vr_exec r') = vt_Now s) \<and>
    (vr_left r' = 0 \<longrightarrow> vt_Now (vr_exec r') = wrap64 (int (vt_Now s + vr_left r * vt_dt_count s))) \<and>
    GetTimeRatio recip (vr_exec r') = 0"
proof -
  have s: "vt_real_ratio s = max_uint32" "\<not> vt_ratio_direction s" using assms(1,2) by (auto simp: SetTimeRatio_def Let_def)
  note fr = SetTimeRatio_frame [OF assms(1)]
  let ?P = "\<lambda>q. round_ok q \<and> owed q = owed r \<and> vt_real_ratio (vr_exec q) = max_uint32 \<and> \<not> vt_ratio_direction (vr_exec q) \<and>
    vt_current_tick_count s \<le> vt_current_tick_count (vr_exec q) \<and> vt_dt_count (vr_exec q) = vt_dt_count s \<and>
    vt_start_time_point (vr_exec q) = vt_start_time_point s"
  have P: "?P r'"
  proof (rule foldR_invariant [OF assms(4)])
    fix op r1 r2 assume op: "op \<in> set ops" and P: "?P r1" and step: "vt_step recip op r1 = Inr r2"
    have "\<forall>ratio. op \<noteq> VtSetTimeRatio ratio" using op assms(5) by blast
    note ratio = vt_step_ratio [OF step this]
    have ok: "round_ok r1" using P by simp
    show "?P r2" using P ratio vt_step_owed [OF step ok] by auto
  qed (use s assms(3) fr in \<open>simp add: round_ok_def owed_def\<close>)
  then have count: "vt_current_tick_count (vr_exec r') + vr_left r' = vt_current_tick_count s + vr_left r" using fr by (simp add: owed_def)
  have same: "vt_Now (vr_exec r') = vt_Now s" if "vr_left r = 0"
  proof -
    have "vt_current_tick_count (vr_exec r') = vt_current_tick_count s" using that P count by linarith
    then show ?thesis using P by (simp add: vt_Now_def)
  qed
  have round: "vt_Now (vr_exec r') = wrap64 (int (vt_Now s + vr_left r * vt_dt_count s))" if "vr_left r' = 0"
  proof -
    have "vt_current_tick_count (vr_exec r') = vt_current_tick_count s + vr_left r" using that count by simp
    then show ?thesis using P wrap64_add_left [of "int (vt_current_tick_count s * vt_dt_count s + vt_start_time_point s)"]
      by (simp add: vt_Now_def algebra_simps)
  qed
  show ?thesis using P count same round fr by (simp add: GetTimeRatio_def)
qed

text \<open>
  Fast and slow: a round that begins with a ratio of \<open>k\<close> or more, below \<open>k + 1\<close>, sleeps one
  \<open>dt\<close> and is over after exactly \<open>k\<close> ticks; with a ratio below one it sleeps \<open>dt\<close> times the
  reciprocal's integral part and is over after one tick.
\<close>

theorem round_advances_by_ratio:
  assumes "SetTimeRatio recip ratio (vr_exec r) = Inr s" "0 < ratio" "vt_real_ratio s \<noteq> max_uint32"
    and "vr_left r = 0" "vr_pending r = None" "vt_step recip VtRound (r\<lparr>vr_exec := s\<rparr>) = Inr r1"
    and "vt_steps recip ops r1 = Inr r2" "VtRound \<notin> set ops" "vr_left r2 = 0"
  shows "vt_current_tick_count (vr_exec r2) = vt_current_tick_count (vr_exec r) + (if 1 \<le> ratio then nat \<lfloor>ratio\<rfloor> else 1) \<and>
    round_dt s = (if 1 \<le> ratio then vo_dt (vt_options s) else vo_dt (vt_options s) * nat \<lfloor>recip ratio\<rfloor>)"
proof -
  have s: "vt_ratio_direction s \<longleftrightarrow> 1 \<le> ratio" "1 \<le> ratio \<longrightarrow> vt_real_ratio s = nat \<lfloor>ratio\<rfloor>"
    "\<not> 1 \<le> ratio \<longrightarrow> vt_real_ratio s = nat \<lfloor>recip ratio\<rfloor>" "vt_current_tick_count s = vt_current_tick_count (vr_exec r)"
    using assms(1,3) by (auto simp: SetTimeRatio_def Let_def split: if_splits)
  have ok: "round_ok (r\<lparr>vr_exec := s\<rparr>)" using assms(5) by (simp add: round_ok_def)
  have r1: "owed r1 = vt_current_tick_count (vr_exec r) + (if 1 \<le> ratio then nat \<lfloor>ratio\<rfloor> else 1)" "round_ok r1"
    using vt_step_owed [OF assms(6) ok] s assms(3,4) by (auto simp: owed_def)
  have "round_ok r2 \<and> owed r2 = owed r1"
    by (rule foldR_invariant [OF assms(7)]) (use r1(2) vt_step_owed assms(8) in fastforce)+
  then show ?thesis using r1(1) assms(9) s by (auto simp: owed_def round_dt_def)
qed

text \<open>The sleeps of a round add up to its time, and only the last may be longer than a second.\<close>

lemma sleep_loop_sum: "sum_list (sleep_loop step real_dt) = real_dt"
proof (induction step real_dt rule: sleep_loop.induct)
  case (1 step real_dt)
  show ?case
    by (subst sleep_loop.simps) (use 1 in \<open>auto simp: Let_def split: if_splits\<close>)
qed

lemma sleep_loop_bound:
  assumes "x \<in> set (sleep_loop step real_dt)"
  shows "x \<le> 10 ^ 9 + step"
  using assms
proof (induction step real_dt rule: sleep_loop.induct)
  case (1 step real_dt)
  show ?case using 1(2)
    by (subst (asm) sleep_loop.simps) (use 1(1) in \<open>auto simp: Let_def split: if_splits\<close>)
qed

text \<open>
  C40. A task put into the map, once it is borrowed into the last of two wheels, is stored at the
  index its tick gives modulo the product of all sizes: beyond the size of that wheel, for all
  but the ticks whose remainder is small. The access is out of range.
\<close>

theorem overflow_map_breaks_wheels:
  assumes "vt_steps recip ops r = Inr r1" "vt_inv (vr_ticks r) (vr_exec r)" "vr_pending r1 = None" "vr_left r1 \<noteq> 0"
    and "vt_timing_wheel_vec (vr_exec r1) = [w, v]" "u = vt_current_tick_count (vr_exec r1)"
    and "(u + 1) mod length (wheel w) = 0" "(u div length (wheel w) + 2) mod length (wheel v) = 0"
    and "map_of (tm_map (vt_timing_task_map (vr_exec r1))) ((u div length (wheel w) + 1) div length (wheel v) + 1) = Some l"
    and "e \<in> set l" "length (wheel v) \<le> tick_count e mod scale v"
  shows "vt_step recip VtTake r1 = Inl VtIndex"
proof -
  let ?n = "length (wheel w)" and ?k = "length (wheel v)" and ?m = "vt_timing_task_map (vr_exec r1)"
  have "vt_inv (vr_ticks r1) (vr_exec r1)"
    by (rule foldR_invariant [OF assms(1)]) (use assms(2) vt_step_tracked in blast)+
  then have p: "pos_ok u [w, v] (tm_pos ?m)" using assms(3,5,6) by (simp add: vt_inv_def vr_ticks_def)
  then have n: "0 < ?n" "0 < ?k" "current_pos w = u mod ?n" "current_pos v = (u div ?n + 1) mod ?k"
    "tm_pos ?m = (u div ?n + 1) div ?k + 1" by auto
  have w: "current_pos w + 1 = ?n" "current_pos v + 1 = ?k"
    using wrap_step(1) [OF n(1), of u] wrap_step(1) [OF n(2), of "u div ?n + 1"] assms(7,8) n(3,4) by simp_all
  have borrow: "fst (map_borrow ?m) = l" using assms(9) n(5) by (simp add: map_borrow_def)
  let ?v = "v\<lparr>wheel := (wheel v)[current_pos v := []], current_pos := 0\<rparr>"
  have "foldR splice_scaled l ?v = Inl VtIndex"
  proof -
    have "\<exists>w'. foldR splice_scaled l x = Inr w' \<Longrightarrow> length (wheel x) = ?k \<Longrightarrow> scale x = scale v \<Longrightarrow> False" for x
      using assms(10)
    proof (induction l arbitrary: x)
      case (Cons t l)
      then obtain x' w' where x': "splice_scaled t x = Inr x'" "foldR splice_scaled l x' = Inr w'"
        by (auto simp: bindR_eq_Inr)
      then have fits: "tick_count t mod scale v < ?k" "length (wheel x') = ?k" "scale x' = scale v"
        using Cons.prems(2,3) by (auto simp: splice_scaled_def Let_def split: if_splits)
      then have "e \<in> set l" using Cons.prems(4) assms(11) by auto
      then show False using Cons.IH [of x'] x'(2) fits(2,3) by blast
    qed simp
    moreover have "foldR splice_scaled l x = Inl er \<Longrightarrow> er = VtIndex" for x er
      by (induction l arbitrary: x) (auto simp: splice_scaled_def Let_def bindR_eq_Inl split: if_splits)
    ultimately show ?thesis by (cases "foldR splice_scaled l ?v") fastforce+
  qed
  then have "vt_Tick [v] ?m = Inl VtIndex" using w n(2) borrow by (cases "map_borrow ?m") (simp add: Let_def)
  then have "vt_Tick [w, v] ?m = Inl VtIndex" using w n(1) by (simp add: Let_def)
  then show ?thesis using assms(3-5) by (simp add: Let_def)
qed

section \<open>Examples\<close>

definition new_time_manipulator :: "(string \<Rightarrow> executor_ref option) option \<Rightarrow> time_manipulator" where
  "new_time_manipulator f =
     \<lparr>vt_name = [], vt_options = default_vt_options, vt_state = kPreInit, vt_get_executor_func = f,
      vt_bind_executor_ref = None, vt_thread_safe = True, vt_dt_count = 0, vt_ratio_direction = True, vt_real_ratio = 1,
      vt_start_time_point = 0, vt_start_flag = False, vt_current_tick_count = 0, vt_timing_wheel_vec = [],
      vt_timing_task_map = \<lparr>tm_pos = 0, tm_map = []\<rparr>, vt_timer_thread = False, vt_bound_calls = []\<rparr>"

lemma vt_setup_wheels_inv:
  assumes "vt_timing_wheel_vec s = []" "good_sizes (vo_wheel_size (vt_options s))" "0 < vo_dt (vt_options s)"
  shows "vt_inv 0 (vt_setup_wheels s)"
  using assms make_wheels_pos_ok0 [OF assms(2)]
  by (cases "vo_wheel_size (vt_options s)") (auto simp: vt_inv_def vt_setup_wheels_def good_sizes_def)

definition vt_demo :: "time_manipulator" where
  "vt_demo = vt_setup_wheels ((new_time_manipulator None)\<lparr>vt_options := default_vt_options\<lparr>vo_dt := 1, vo_wheel_size := [4, 3]\<rparr>\<rparr>)"

definition vt_demo_run :: vt_run where
  "vt_demo_run = \<lparr>vr_exec = vt_demo, vr_left = 100, vr_pending = None, vr_log = []\<rparr>"

text \<open>\<open>after ops r P\<close>: the calls \<open>ops\<close> succeed from \<open>r\<close> and end where \<open>P\<close> holds.\<close>

definition after :: "vt_op list \<Rightarrow> vt_run \<Rightarrow> (vt_run \<Rightarrow> bool) \<Rightarrow> bool" where
  "after ops r P = (case vt_steps id ops r of Inl _ \<Rightarrow> False | Inr r' \<Rightarrow> P r')"

lemma afterE: "after ops r P \<Longrightarrow> (\<And>r'. vt_steps id ops r = Inr r' \<Longrightarrow> P r' \<Longrightarrow> thesis) \<Longrightarrow> thesis"
  by (auto simp: after_def split: sum.splits)

lemma vt_demo_inv: "vt_inv (vr_ticks vt_demo_run) (vr_exec vt_demo_run)"
proof -
  have "vt_inv 0 vt_demo" unfolding vt_demo_def
    by (rule vt_setup_wheels_inv) (simp_all add: new_time_manipulator_def good_sizes_def)
  moreover have "vr_ticks vt_demo_run = 0"
    by (simp add: vr_ticks_def vt_demo_run_def vt_demo_def vt_setup_wheels_def new_time_manipulator_def)
  ultimately show ?thesis by (simp add: vt_demo_run_def)
qed

lemma vt_demo_early:
  "after [VtTake, VtTake] vt_demo_run (\<lambda>r. vr_pending r = None \<and> vt_current_tick_count (vr_exec r) = 2 \<and>
     vo_wheel_size (vt_options (vr_exec r)) = [4, 3] \<and> vt_start_time_point (vr_exec r) = 0 \<and> vt_dt_count (vr_exec r) = 1 \<and>
     after [VtExecuteAt 8 9, VtTake, VtTake, VtTake, VtFinish] r (\<lambda>r'. 4 < vr_ticks r'))"
  by code_simp

text \<open>With wheels of 4 and 3 slots and two ticks done, tick 8 is six away: the task runs at tick 4.\<close>

theorem manipulated_task_fires_witness:
  "\<exists>r r'. vt_steps id [VtTake, VtTake] vt_demo_run = Inr r \<and>
    vt_steps id [VtExecuteAt 8 9, VtTake, VtTake, VtTake, VtFinish] r = Inr r' \<and>
    (4, \<lparr>tick_count = 8, task = 9\<rparr>) \<in> set (vr_log r')"
proof -
  obtain r where r: "vt_steps id [VtTake, VtTake] vt_demo_run = Inr r" "vr_pending r = None" "vt_current_tick_count (vr_exec r) = 2"
    "vo_wheel_size (vt_options (vr_exec r)) = [4, 3]" "vt_start_time_point (vr_exec r) = 0" "vt_dt_count (vr_exec r) = 1"
    "after [VtExecuteAt 8 9, VtTake, VtTake, VtTake, VtFinish] r (\<lambda>r'. 4 < vr_ticks r')"
    by (rule afterE [OF vt_demo_early]) blast
  obtain r' where r': "vt_steps id [VtExecuteAt 8 9, VtTake, VtTake, VtTake, VtFinish] r = Inr r'" "4 < vr_ticks r'"
    by (rule afterE [OF r(7)])
  have "vt_inv (vr_ticks r) (vr_exec r)"
    by (rule foldR_invariant [OF r(1)]) (use vt_demo_inv vt_step_tracked in blast)+
  from manipulated_task_fires [OF this r(2) refl r(3) [symmetric] r(4) _ _ _ _ _ r'(1), of 8 4] show ?thesis
    using r(1,5,6) r' by fastforce
qed

text \<open>A pause set while two ticks of a round are left: they are done, and the clock stands.\<close>

lemma vt_demo_count: "vt_current_tick_count vt_demo = 0"
  by code_simp

lemma vt_demo_pause:
  "after [VtTake, VtExecute 1, VtTake] (vt_demo_run\<lparr>vr_left := 2, vr_exec := vt_demo\<lparr>vt_ratio_direction := False, vt_real_ratio := max_uint32\<rparr>\<rparr>)
    (\<lambda>r. vr_left r = 0)"
  by code_simp

theorem pause_stops_time_witness:
  "\<exists>s r'. SetTimeRatio id 0 vt_demo = Inr s \<and>
    vt_steps id [VtTake, VtExecute 1, VtTake] (vt_demo_run\<lparr>vr_left := 2, vr_exec := s\<rparr>) = Inr r' \<and>
    vt_current_tick_count (vr_exec r') = 2 \<and> GetTimeRatio id (vr_exec r') = 0"
proof -
  let ?r = "vt_demo_run\<lparr>vr_left := 2\<rparr>" and ?s = "vt_demo\<lparr>vt_ratio_direction := False, vt_real_ratio := max_uint32\<rparr>"
  have s: "SetTimeRatio id 0 (vr_exec ?r) = Inr ?s" by (simp add: SetTimeRatio_def Let_def vt_demo_run_def)
  obtain r' where r': "vt_steps id [VtTake, VtExecute 1, VtTake] (?r\<lparr>vr_exec := ?s\<rparr>) = Inr r'" "vr_left r' = 0"
    using vt_demo_pause by (auto simp: after_def split: sum.splits)
  have "round_ok ?r" by (simp add: round_ok_def vt_demo_run_def)
  from pause_stops_time [OF s _ this r'(1)]
  have "vt_current_tick_count (vr_exec r') + vr_left r' = vt_current_tick_count (vr_exec ?r) + vr_left ?r"
    "GetTimeRatio id (vr_exec r') = 0" by simp_all
  then have "vt_current_tick_count (vr_exec r') = 2" "GetTimeRatio id (vr_exec r') = 0"
    using r'(2) by (simp_all add: vt_demo_run_def vt_demo_count)
  moreover have "SetTimeRatio id 0 vt_demo = Inr ?s" using s by (simp add: vt_demo_run_def)
  ultimately show ?thesis using r'(1) by blast
qed

lemma vt_demo_fast:
  "after [] (vt_demo_run\<lparr>vr_left := 0, vr_exec := vt_demo\<lparr>vt_ratio_direction := True, vt_real_ratio := 2\<rparr>\<rparr>) (\<lambda>r.
     after [VtRound] r (\<lambda>r1. after [VtTake, VtTake, VtTake] r1 (\<lambda>r2. vr_left r2 = 0)))"
  by code_simp

theorem round_advances_by_ratio_witness:
  "\<exists>s r1 r2. SetTimeRatio id 2 vt_demo = Inr s \<and> vt_step id VtRound (vt_demo_run\<lparr>vr_left := 0, vr_exec := s\<rparr>) = Inr r1 \<and>
    vt_steps id [VtTake, VtTake, VtTake] r1 = Inr r2 \<and> vt_current_tick_count (vr_exec r2) = 2"
proof -
  let ?s = "vt_demo\<lparr>vt_ratio_direction := True, vt_real_ratio := 2\<rparr>"
  let ?r = "vt_demo_run\<lparr>vr_left := 0\<rparr>"
  have s: "SetTimeRatio id 2 (vr_exec ?r) = Inr ?s" by (simp add: SetTimeRatio_def vt_demo_run_def)
  have a: "after [VtRound] (?r\<lparr>vr_exec := ?s\<rparr>) (\<lambda>r1. after [VtTake, VtTake, VtTake] r1 (\<lambda>r2. vr_left r2 = 0))"
    using vt_demo_fast by (simp add: after_def)
  obtain r1 where r1: "vt_step id VtRound (?r\<lparr>vr_exec := ?s\<rparr>) = Inr r1" "after [VtTake, VtTake, VtTake] r1 (\<lambda>r2. vr_left r2 = 0)"
    by (rule afterE [OF a]) (auto simp: bindR_eq_Inr)
  obtain r2 where r2: "vt_steps id [VtTake, VtTake, VtTake] r1 = Inr r2" "vr_left r2 = 0"
    by (rule afterE [OF r1(2)])
  have "vr_left ?r = 0" "vr_pending ?r = None" "vt_real_ratio ?s \<noteq> max_uint32" "vt_current_tick_count vt_demo = 0"
    by (simp_all add: vt_demo_run_def max_uint32_def vt_demo_def vt_setup_wheels_def new_time_manipulator_def)
  with round_advances_by_ratio [OF s _ this(3,1,2) r1(1) r2(1) _ r2(2)] show ?thesis
    using s r1(1) r2(1) by (auto simp: vt_demo_run_def)
qed

lemma vt_demo_overflow:
  "after (VtExecuteAt 17 9 # replicate 7 VtTake) vt_demo_run (\<lambda>r. vr_pending r = None \<and> vr_left r \<noteq> 0 \<and>
     vt_current_tick_count (vr_exec r) = 7 \<and>
     (case vt_timing_wheel_vec (vr_exec r) of
        [w, v] \<Rightarrow> length (wheel w) = 4 \<and> length (wheel v) = 3 \<and> scale v = 12
      | _ \<Rightarrow> False) \<and>
     (case map_of (tm_map (vt_timing_task_map (vr_exec r))) 1 of
        Some (e # _) \<Rightarrow> tick_count e = 17
      | _ \<Rightarrow> False))"
  by code_simp

theorem overflow_map_breaks_wheels_witness:
  "\<exists>r1. vt_steps id (VtExecuteAt 17 9 # replicate 7 VtTake) vt_demo_run = Inr r1 \<and> vt_step id VtTake r1 = Inl VtIndex"
proof -
  obtain r1 w v e l where r1: "vt_steps id (VtExecuteAt 17 9 # replicate 7 VtTake) vt_demo_run = Inr r1" "vr_pending r1 = None"
    "vr_left r1 \<noteq> 0" "vt_current_tick_count (vr_exec r1) = 7" "vt_timing_wheel_vec (vr_exec r1) = [w, v]"
    "length (wheel w) = 4" "length (wheel v) = 3" "scale v = 12"
    "map_of (tm_map (vt_timing_task_map (vr_exec r1))) 1 = Some (e # l)" "tick_count e = 17"
    by (rule afterE [OF vt_demo_overflow]) (auto split: list.splits option.splits)
  have "vt_step id VtTake r1 = Inl VtIndex"
    by (rule overflow_map_breaks_wheels [where e = e and l = "e # l", OF r1(1) vt_demo_inv r1(2,3,5) r1(4) [symmetric]]) (use r1(6-10) in simp_all)
  then show ?thesis using r1(1) by blast
qed

end
