(* ===== verification/LogFormat.thy ===== *)
theory LogFormat
  imports StringEdit
begin

text \<open>
  \<open>src/runtime/core/logger/formatter.h\<close>, \<open>log_level_tool.h\<close> and \<open>log_data_wrapper.h\<close>, with the
  strings of \<open>src/common/util/time_util.h\<close> they print: the scanner that turns a pattern into a
  list of handlers, the handlers, and the names of the levels. The scanner is shown equal to a
  direct reading of the pattern. Broken-down local time comes from the C library: \<open>loc\<close> is
  \<open>localtime_r\<close>.
\<close>

section \<open>Broken-down time\<close>

record tm =
  tm_sec :: int
  tm_min :: int
  tm_hour :: int
  tm_mday :: int
  tm_mon :: int
  tm_year :: int
  tm_wday :: nat

text \<open>\<open>x % mu\<close> for a signed \<open>x\<close>, which becomes an unsigned number first, and \<open>%0wd\<close>.\<close>

definition field :: "int \<Rightarrow> nat \<Rightarrow> nat" where
  "field x m = nat (x mod 2 ^ 32) mod m"

definition pad :: "nat \<Rightarrow> nat \<Rightarrow> string" where
  "pad w n = (let s = to_string n in replicate (w - length s) CHR ''0'' @ s)"

definition GetYearStr :: "tm \<Rightarrow> string" where "GetYearStr t = pad 4 (field (tm_year t + 1900) 10000)"
definition GetMonthStr :: "tm \<Rightarrow> string" where "GetMonthStr t = pad 2 (field (tm_mon t + 1) 100)"
definition GetDayStr :: "tm \<Rightarrow> string" where "GetDayStr t = pad 2 (field (tm_mday t) 100)"
definition GetHourStr :: "tm \<Rightarrow> string" where "GetHourStr t = pad 2 (field (tm_hour t) 100)"
definition GetMinuteStr :: "tm \<Rightarrow> string" where "GetMinuteStr t = pad 2 (field (tm_min t) 100)"
definition GetSecondStr :: "tm \<Rightarrow> string" where "GetSecondStr t = pad 2 (field (tm_sec t) 100)"

definition GetDateStr :: "tm \<Rightarrow> string" where
  "GetDateStr t = pad 4 (field (tm_year t + 1900) 10000) @ ''-'' @ pad 2 (field (tm_mon t + 1) 100) @ ''-'' @
     pad 2 (field (tm_mday t) 100)"

definition GetClockStr :: "tm \<Rightarrow> string" where
  "GetClockStr t = pad 2 (field (tm_hour t) 100) @ '':'' @ pad 2 (field (tm_min t) 100) @ '':'' @
     pad 2 (field (tm_sec t) 100)"

definition GetTimeStr :: "tm \<Rightarrow> string" where
  "GetTimeStr t = pad 4 (field (tm_year t + 1900) 10000) @ ''-'' @ pad 2 (field (tm_mon t + 1) 100) @ ''-'' @
     pad 2 (field (tm_mday t) 100) @ '' '' @ pad 2 (field (tm_hour t) 100) @ '':'' @
     pad 2 (field (tm_min t) 100) @ '':'' @ pad 2 (field (tm_sec t) 100)"

definition GetWeekDayStr :: "tm \<Rightarrow> string" where
  "GetWeekDayStr t =
     [''Sunday'', ''Monday'', ''Tuesday'', ''Wednesday'', ''Thursday'', ''Friday'', ''Saturday''] ! tm_wday t"

definition GetWeekDayStrShort :: "tm \<Rightarrow> string" where
  "GetWeekDayStrShort t = [''Sun'', ''Mon'', ''Tue'', ''Wed'', ''Thu'', ''Fri'', ''Sat''] ! tm_wday t"

text \<open>
  The printed fields fill the buffers the code gives them, whatever the C library returns: the
  sizes the formatter expects of them are exact.
\<close>

lemma length_to_string: "n < 10 ^ w \<Longrightarrow> 0 < w \<Longrightarrow> length (to_string n) \<le> w"
proof (induction n arbitrary: w rule: to_string.induct)
  case (1 n)
  show ?case
  proof (cases "n < 10")
    case False
    then obtain v where v: "w = Suc v" "0 < v" using 1(2,3) by (cases w; cases "w - 1") auto
    then have "length (to_string (n div 10)) \<le> v" using 1 False by (intro 1(1)) auto
    then show ?thesis using False v by (subst to_string.simps) simp
  qed (use 1 in \<open>subst to_string.simps, simp\<close>)
qed

lemma length_pad: "n < 10 ^ w \<Longrightarrow> 0 < w \<Longrightarrow> length (pad w n) = w"
  using length_to_string [of n w] by (simp add: pad_def Let_def)

lemma field_less [simp]: "0 < m \<Longrightarrow> field x m < m"
  by (simp add: field_def)

lemma time_strings_exact:
  "length (GetTimeStr t) = 19" "length (GetDateStr t) = 10" "length (GetClockStr t) = 8"
  "length (GetYearStr t) = 4" "length (GetMonthStr t) = 2" "length (GetSecondStr t) = 2"
  by (simp_all add: GetTimeStr_def GetDateStr_def GetClockStr_def GetYearStr_def GetMonthStr_def GetSecondStr_def length_pad)

section \<open>Levels\<close>

datatype log_level = LevelTrace | LevelDebug | LevelInfo | LevelWarn | LevelError | LevelFatal | LevelOff

definition all_levels :: "log_level list" where
  "all_levels = [LevelTrace, LevelDebug, LevelInfo, LevelWarn, LevelError, LevelFatal, LevelOff]"

fun level_num :: "log_level \<Rightarrow> nat" where
  "level_num LevelTrace = 0" | "level_num LevelDebug = 1" | "level_num LevelInfo = 2" | "level_num LevelWarn = 3"
| "level_num LevelError = 4" | "level_num LevelFatal = 5" | "level_num LevelOff = 6"

lemma level_num_inject [simp]: "level_num a = level_num b \<longleftrightarrow> a = b"
  by (cases a; cases b) auto

instantiation log_level :: linorder
begin

definition less_eq_log_level :: "log_level \<Rightarrow> log_level \<Rightarrow> bool" where
  "a \<le> b \<longleftrightarrow> level_num a \<le> level_num b"

definition less_log_level :: "log_level \<Rightarrow> log_level \<Rightarrow> bool" where
  "a < b \<longleftrightarrow> level_num a < level_num b"

instance
  by standard (auto simp: less_eq_log_level_def less_log_level_def)

end

definition kLvlNameArray :: "string list" where
  "kLvlNameArray = [''Trace'', ''Debug'', ''Info'', ''Warn'', ''Error'', ''Fatal'', ''Off'']"

definition GetLogLevelName :: "log_level \<Rightarrow> string" where
  "GetLogLevelName lvl = kLvlNameArray ! level_num lvl"

text \<open>The loop over the names: a name of the same length that is equal without regard to case.\<close>

definition GetLogLevelFromName :: "string \<Rightarrow> log_level" where
  "GetLogLevelFromName lvl_name =
     (case find (\<lambda>l. length lvl_name = length (GetLogLevelName l) \<and> StrToLower lvl_name = StrToLower (GetLogLevelName l)) all_levels of
        Some l \<Rightarrow> l
      | None \<Rightarrow> LevelOff)"

lemma GetLogLevelFromName_any_case:
  assumes "StrToLower s = StrToLower (GetLogLevelName l)"
  shows "GetLogLevelFromName s = l"
proof -
  have "length s = length (GetLogLevelName l)" using assms by (metis StrToLower_def length_map)
  then show ?thesis using assms
    by (cases l) (simp_all add: GetLogLevelFromName_def all_levels_def GetLogLevelName_def kLvlNameArray_def StrToLower_def CharToLower_def)
qed

section \<open>Handlers\<close>

text \<open>Time points are nanoseconds since the epoch.\<close>

record log_data =
  ld_module_name :: string
  ld_thread_id :: nat
  ld_t :: nat
  ld_lvl :: log_level
  ld_line :: nat
  ld_file_name :: string
  ld_function_name :: string
  ld_log_data :: string

datatype format_handler =
    FmtText string | FmtChar char
  | FormatTime | FormatYear | FormatMonth | FormatDay | FormatHour | FormatMinute | FormatSecond
  | FormatDate | FormatClock | FormatMicroseconds | FormatWeekday | FormatWeekdayShort
  | FormatLevel | FormatThreadId | FormatModule | FormatFileShort | FormatFile | FormatLine
  | FormatFunction | FormatMessage

text \<open>What stands behind the last separator, as \<open>strrchr\<close> finds it.\<close>

definition file_short :: "string \<Rightarrow> string" where
  "file_short s = rev (takeWhile (\<lambda>c. c \<noteq> CHR ''/'') (rev s))"

fun format_field :: "(nat \<Rightarrow> tm) \<Rightarrow> log_data \<Rightarrow> format_handler \<Rightarrow> string" where
  "format_field loc d (FmtText text) = text"
| "format_field loc d (FmtChar c) = [c]"
| "format_field loc d FormatTime = GetTimeStr (loc (ld_t d div 10 ^ 9))"
| "format_field loc d FormatYear = GetYearStr (loc (ld_t d div 10 ^ 9))"
| "format_field loc d FormatMonth = GetMonthStr (loc (ld_t d div 10 ^ 9))"
| "format_field loc d FormatDay = GetDayStr (loc (ld_t d div 10 ^ 9))"
| "format_field loc d FormatHour = GetHourStr (loc (ld_t d div 10 ^ 9))"
| "format_field loc d FormatMinute = GetMinuteStr (loc (ld_t d div 10 ^ 9))"
| "format_field loc d FormatSecond = GetSecondStr (loc (ld_t d div 10 ^ 9))"
| "format_field loc d FormatDate = GetDateStr (loc (ld_t d div 10 ^ 9))"
| "format_field loc d FormatClock = GetClockStr (loc (ld_t d div 10 ^ 9))"
| "format_field loc d FormatMicroseconds = pad 6 (ld_t d div 10 ^ 3 mod 10 ^ 6)"
| "format_field loc d FormatWeekday = GetWeekDayStr (loc (ld_t d div 10 ^ 9))"
| "format_field loc d FormatWeekdayShort = GetWeekDayStrShort (loc (ld_t d div 10 ^ 9))"
| "format_field loc d FormatLevel = GetLogLevelName (ld_lvl d)"
| "format_field loc d FormatThreadId = to_string (ld_thread_id d)"
| "format_field loc d FormatModule = ld_module_name d"
| "format_field loc d FormatFileShort = file_short (ld_file_name d)"
| "format_field loc d FormatFile = ld_file_name d"
| "format_field loc d FormatLine = to_string (ld_line d)"
| "format_field loc d FormatFunction = ld_function_name d"
| "format_field loc d FormatMessage = ld_log_data d"

section \<open>The formatter\<close>

record log_formatter =
  lf_handlers :: "format_handler list"
  lf_estimated_size :: nat

definition new_log_formatter :: log_formatter where
  "new_log_formatter = \<lparr>lf_handlers = [], lf_estimated_size = 0\<rparr>"

definition Format :: "(nat \<Rightarrow> tm) \<Rightarrow> log_formatter \<Rightarrow> log_data \<Rightarrow> string" where
  "Format loc f d = fold (\<lambda>h buffer. buffer @ format_field loc d h) (lf_handlers f) []"

text \<open>The switch over the character behind a percent sign, with the space it expects to need.\<close>

definition specifiers :: "(char \<times> format_handler \<times> nat) list" where
  "specifiers =
     [(CHR ''c'', FormatTime, 19), (CHR ''Y'', FormatYear, 4), (CHR ''m'', FormatMonth, 2), (CHR ''d'', FormatDay, 2),
      (CHR ''H'', FormatHour, 2), (CHR ''M'', FormatMinute, 2), (CHR ''S'', FormatSecond, 2), (CHR ''D'', FormatDate, 10),
      (CHR ''T'', FormatClock, 8), (CHR ''f'', FormatMicroseconds, 6), (CHR ''A'', FormatWeekday, 9),
      (CHR ''a'', FormatWeekdayShort, 3), (CHR ''l'', FormatLevel, 5), (CHR ''t'', FormatThreadId, 10),
      (CHR ''n'', FormatModule, 32), (CHR ''G'', FormatFileShort, 32), (CHR ''g'', FormatFile, 256),
      (CHR ''R'', FormatLine, 8), (CHR ''F'', FormatFunction, 32), (CHR ''v'', FormatMessage, 0)]"

definition specifier :: "char \<Rightarrow> format_handler \<times> nat" where
  "specifier c = (case map_of specifiers c of Some h \<Rightarrow> h | None \<Rightarrow> (FmtChar c, 0))"

definition add_handler :: "format_handler \<Rightarrow> nat \<Rightarrow> log_formatter \<Rightarrow> log_formatter" where
  "add_handler h n f = f\<lparr>lf_handlers := lf_handlers f @ [h], lf_estimated_size := lf_estimated_size f + n\<rparr>"

text \<open>The loop of \<open>SetPattern\<close>: \<open>text\<close> begins at \<open>last_text_pos\<close> and has been read up to \<open>pos\<close>.\<close>

function pattern_loop :: "string \<Rightarrow> nat \<Rightarrow> nat \<Rightarrow> log_formatter \<Rightarrow> nat \<times> log_formatter" where
  "pattern_loop pattern pos last_text_pos f =
     (if pos < length pattern then
        if pattern ! pos = CHR ''%'' \<and> pos + 1 < length pattern then
          let text = take (pos - last_text_pos) (drop last_text_pos pattern);
              f = (if pos > 0 \<and> pattern ! (pos - 1) \<noteq> CHR ''%'' \<and> text \<noteq> []
                   then add_handler (FmtText text) (length text) f else f);
              (h, n) = specifier (pattern ! (pos + 1))
          in pattern_loop pattern (pos + 2) (pos + 2) (add_handler h n f)
        else pattern_loop pattern (pos + 1) last_text_pos f
      else (last_text_pos, f))"
  by pat_completeness auto
termination
  by (relation "measure (\<lambda>(pattern, pos, _, _). length pattern - pos)") auto

declare pattern_loop.simps [simp del]

datatype log_error = EmptyPattern

definition SetPattern :: "string \<Rightarrow> log_formatter \<Rightarrow> (log_error, log_formatter) result" where
  "SetPattern pattern f =
     (if pattern = [] then Inl EmptyPattern
      else
        let (last_text_pos, f) = pattern_loop pattern 0 0 (f\<lparr>lf_handlers := []\<rparr>);
            text = drop last_text_pos pattern
        in Inr (if last_text_pos < length pattern then add_handler (FmtText text) (length text) f else f))"

section \<open>What a pattern means\<close>

text \<open>A direct reading: a percent sign takes the next character with it, unless it is the last one.\<close>

fun expand_pattern :: "(nat \<Rightarrow> tm) \<Rightarrow> log_data \<Rightarrow> string \<Rightarrow> string" where
  "expand_pattern loc d [] = []"
| "expand_pattern loc d [c] = [c]"
| "expand_pattern loc d (c # c' # s) =
     (if c = CHR ''%'' then format_field loc d (fst (specifier c')) @ expand_pattern loc d s
      else c # expand_pattern loc d (c' # s))"

lemma Format_concat: "Format loc f d = concat (map (format_field loc d) (lf_handlers f))"
proof -
  have "fold (\<lambda>h buffer. buffer @ format_field loc d h) hs b = b @ concat (map (format_field loc d) hs)" for hs b
    by (induction hs arbitrary: b) auto
  then show ?thesis by (simp add: Format_def)
qed

lemma Format_add_handler: "Format loc (add_handler h n f) d = Format loc f d @ format_field loc d h"
  by (simp add: Format_concat add_handler_def)

text \<open>Plain text in front of a position, and the text that is left at the end.\<close>

lemma expand_plain: "CHR ''%'' \<notin> set s \<Longrightarrow> expand_pattern loc d (s @ t) = s @ expand_pattern loc d t"
proof (induction s)
  case (Cons c s)
  then show ?case by (cases "s @ t") auto
qed simp

lemma pattern_loop_expands:
  assumes "pattern_loop p pos l0 f = (l1, f')" "l0 \<le> pos" "pos \<le> length p + 1"
    and "pos < length p \<Longrightarrow> CHR ''%'' \<notin> set (take (pos - l0) (drop l0 p))"
    and "\<not> pos < length p \<Longrightarrow> expand_pattern loc d (drop l0 p) = drop l0 p"
  shows "Format loc f' d @ drop l1 p = Format loc f d @ expand_pattern loc d (drop l0 p)"
  using assms
proof (induction p pos l0 f rule: pattern_loop.induct)
  case (1 p pos l0 f)
  let ?text = "take (pos - l0) (drop l0 p)"
  have split: "drop l0 p = ?text @ drop pos p" using 1(4)
    by (metis append_take_drop_id drop_drop le_add_diff_inverse2)
  show ?case
  proof (cases "pos < length p")
    case False
    then show ?thesis using 1(3,7) by (subst (asm) pattern_loop.simps) simp
  next
    case pos: True
    note plain = 1(6) [OF pos]
    show ?thesis
    proof (cases "p ! pos = CHR ''%'' \<and> pos + 1 < length p")
      case True
      let ?f = "if pos > 0 \<and> p ! (pos - 1) \<noteq> CHR ''%'' \<and> ?text \<noteq> [] then add_handler (FmtText ?text) (length ?text) f else f"
      let ?h = "specifier (p ! (pos + 1))"
      have r: "pattern_loop p (pos + 2) (pos + 2) (add_handler (fst ?h) (snd ?h) ?f) = (l1, f')"
        using 1(3) unfolding pattern_loop.simps [of p pos] Let_def case_prod_beta if_P [OF pos] if_P [OF True] .
      have ft: "Format loc ?f d = Format loc f d @ ?text"
      proof (cases "?text = []")
        case False
        then have "l0 < pos" by auto
        then have "p ! (pos - 1) \<in> set ?text" using pos by (auto simp: in_set_conv_nth intro!: exI [of _ "pos - 1 - l0"])
        then show ?thesis using plain False \<open>l0 < pos\<close> by (auto simp: Format_add_handler)
      qed auto
      have d2: "drop pos p = CHR ''%'' # p ! (pos + 1) # drop (pos + 2) p"
        using True pos by (metis Cons_nth_drop_Suc Suc_eq_plus1 add_2_eq_Suc')
      have "Format loc f' d @ drop l1 p =
          Format loc (add_handler (fst ?h) (snd ?h) ?f) d @ expand_pattern loc d (drop (pos + 2) p)"
        by (rule 1(1) [OF pos True refl refl refl prod.collapse r]) (use pos True in auto)
      moreover have "expand_pattern loc d (drop l0 p) =
          ?text @ format_field loc d (fst ?h) @ expand_pattern loc d (drop (pos + 2) p)"
        using plain by (subst split) (simp add: expand_plain d2)
      ultimately show ?thesis by (simp only: Format_add_handler ft append_assoc)
    next
      case False
      have r: "pattern_loop p (pos + 1) l0 f = (l1, f')"
        using 1(3) False pos by (subst (asm) pattern_loop.simps) (simp split: if_splits)
      have t1: "take (pos + 1 - l0) (drop l0 p) = ?text @ [p ! pos]"
        using pos 1(4) by (simp add: Suc_diff_le take_Suc_conv_app_nth)
      show ?thesis
      proof (rule 1(2) [OF pos False r])
        show "CHR ''%'' \<notin> set (take (pos + 1 - l0) (drop l0 p))" if "pos + 1 < length p"
          using plain False that unfolding t1 by auto
        show "expand_pattern loc d (drop l0 p) = drop l0 p" if "\<not> pos + 1 < length p"
        proof -
          have "drop pos p = [p ! pos]" using that pos by (simp add: Cons_nth_drop_Suc [symmetric])
          then show ?thesis using plain by (subst split, subst (2) split) (simp add: expand_plain)
        qed
      qed (use 1(4) pos in auto)
    qed
  qed
qed

lemma SetPattern_expands:
  assumes "SetPattern pattern f = Inr f'"
  shows "Format loc f' d = expand_pattern loc d pattern"
proof -
  obtain l f1 where l: "pattern_loop pattern 0 0 (f\<lparr>lf_handlers := []\<rparr>) = (l, f1)" by fastforce
  have p: "pattern \<noteq> []" "f' = (if l < length pattern then add_handler (FmtText (drop l pattern)) (length (drop l pattern)) f1 else f1)"
    using assms l by (auto simp: SetPattern_def Let_def split: if_splits)
  have "Format loc f1 d @ drop l pattern = expand_pattern loc d pattern"
    using pattern_loop_expands [OF l, where loc = loc and d = d] p(1) by (simp add: Format_concat)
  then show ?thesis using p(2) by (cases "l < length pattern") (auto simp: Format_add_handler)
qed

text \<open>
  C23. What a formatter prints is its pattern read from left to right: the scanner, with its two
  positions and its look back at the character in front, gives every specifier its field and
  every other character itself, whatever pattern was set before.
\<close>

theorem format_reads_pattern:
  assumes "pattern \<noteq> []"
  shows "\<exists>f'. SetPattern pattern f = Inr f' \<and> (\<forall>loc d. Format loc f' d = expand_pattern loc d pattern)"
proof -
  have "\<exists>f'. SetPattern pattern f = Inr f'" using assms by (simp add: SetPattern_def Let_def split: prod.splits)
  then show ?thesis using SetPattern_expands by blast
qed

section \<open>Module filters\<close>

text \<open>
  \<open>CheckLog\<close> of the backends: the answer of the regular expression, which \<open>None\<close> says has
  thrown, is kept for every module name.
\<close>

definition check_log :: "(string \<Rightarrow> string \<Rightarrow> bool option) \<Rightarrow> string \<Rightarrow> string \<Rightarrow> (string \<times> bool) list \<Rightarrow> bool \<times> (string \<times> bool) list" where
  "check_log regex module_filter module_name m =
     (case map_of m module_name of
        Some b \<Rightarrow> (b, m)
      | None \<Rightarrow>
          let if_log = (regex module_filter module_name = Some True)
          in (if_log, emplace module_name if_log m))"

definition filter_map_ok :: "(string \<Rightarrow> string \<Rightarrow> bool option) \<Rightarrow> string \<Rightarrow> (string \<times> bool) list \<Rightarrow> bool" where
  "filter_map_ok regex module_filter m \<longleftrightarrow> (\<forall>n b. map_of m n = Some b \<longrightarrow> b = (regex module_filter n = Some True))"

lemma check_log_filters:
  assumes "filter_map_ok regex flt m"
  shows "fst (check_log regex flt n m) = (regex flt n = Some True)" "filter_map_ok regex flt (snd (check_log regex flt n m))"
proof -
  show "fst (check_log regex flt n m) = (regex flt n = Some True)"
    using assms by (auto simp: check_log_def filter_map_ok_def Let_def split: option.splits)
  show "filter_map_ok regex flt (snd (check_log regex flt n m))"
    using assms by (auto simp: check_log_def filter_map_ok_def emplace_def Let_def map_add_def split: option.splits)
qed

definition demo_data :: log_data where
  "demo_data = \<lparr>ld_module_name = ''test_module'', ld_thread_id = 1234, ld_t = 12000, ld_lvl = LevelInfo, ld_line = 20,
     ld_file_name = ''XX/YY/test_file.cpp'', ld_function_name = ''test_function'', ld_log_data = ''test log message''\<rparr>"

definition demo_tm :: tm where
  "demo_tm = \<lparr>tm_sec = 10, tm_min = 10, tm_hour = 10, tm_mday = 1, tm_mon = 9, tm_year = 124, tm_wday = 2\<rparr>"

text \<open>The patterns of the code's own test.\<close>

lemma demo_fields:
  "format_field (\<lambda>_. demo_tm) demo_data FormatTime = ''2024-10-01 10:10:10''"
  "format_field (\<lambda>_. demo_tm) demo_data FormatMicroseconds = ''000012''"
  "format_field (\<lambda>_. demo_tm) demo_data FormatLevel = ''Info''"
  "format_field (\<lambda>_. demo_tm) demo_data FormatThreadId = ''1234''"
  "format_field (\<lambda>_. demo_tm) demo_data FormatModule = ''test_module''"
  "format_field (\<lambda>_. demo_tm) demo_data FormatFileShort = ''test_file.cpp''"
  "format_field (\<lambda>_. demo_tm) demo_data FormatLine = ''20''"
  "format_field (\<lambda>_. demo_tm) demo_data FormatFunction = ''test_function''"
  "format_field (\<lambda>_. demo_tm) demo_data FormatMessage = ''test log message''"
proof -
  have t: "GetTimeStr demo_tm = ''2024-10-01 10:10:10''" by code_simp
  have p: "pad 6 12 = ''000012''" by code_simp
  have n: "to_string 1234 = ''1234''" "to_string 20 = ''20''" by (code_simp, code_simp)
  show "format_field (\<lambda>_. demo_tm) demo_data FormatTime = ''2024-10-01 10:10:10''" by (simp add: t)
  show "format_field (\<lambda>_. demo_tm) demo_data FormatMicroseconds = ''000012''" by (simp add: demo_data_def p)
  show "format_field (\<lambda>_. demo_tm) demo_data FormatThreadId = ''1234''" by (simp add: demo_data_def n)
  show "format_field (\<lambda>_. demo_tm) demo_data FormatLine = ''20''" by (simp add: demo_data_def n)
  show "format_field (\<lambda>_. demo_tm) demo_data FormatFileShort = ''test_file.cpp''" by (simp add: demo_data_def file_short_def)
qed (simp_all add: demo_data_def GetLogLevelName_def kLvlNameArray_def)

lemma demo_patterns:
  "expand_pattern (\<lambda>_. demo_tm) demo_data ''[%c.%f][%l][%t][%n][%G:%R @%F]%v'' =
     ''[2024-10-01 10:10:10.000012][Info][1234][test_module][test_file.cpp:20 @test_function]test log message''"
  "expand_pattern (\<lambda>_. demo_tm) demo_data ''%%123456%%%q!@#$%^&*()+-*/12345678%%'' = ''%123456%q!@#$^&*()+-*/12345678%''"
proof -
  have s: "map (fst \<circ> specifier) ''cfltnGRFv'' = [FormatTime, FormatMicroseconds, FormatLevel, FormatThreadId, FormatModule,
      FormatFileShort, FormatLine, FormatFunction, FormatMessage]" "map (fst \<circ> specifier) ''%q^'' = map FmtChar ''%q^''"
    by (simp_all add: specifier_def specifiers_def)
  show "expand_pattern (\<lambda>_. demo_tm) demo_data ''[%c.%f][%l][%t][%n][%G:%R @%F]%v'' =
     ''[2024-10-01 10:10:10.000012][Info][1234][test_module][test_file.cpp:20 @test_function]test log message''"
    using s(1) by (simp add: demo_fields del: format_field.simps)
  show "expand_pattern (\<lambda>_. demo_tm) demo_data ''%%123456%%%q!@#$%^&*()+-*/12345678%%'' = ''%123456%q!@#$^&*()+-*/12345678%''"
    using s(2) by simp
qed

theorem format_reads_pattern_witness:
  "\<exists>f. SetPattern ''[%c.%f][%l][%t][%n][%G:%R @%F]%v'' new_log_formatter = Inr f \<and> Format (\<lambda>_. demo_tm) f demo_data =
     ''[2024-10-01 10:10:10.000012][Info][1234][test_module][test_file.cpp:20 @test_function]test log message''"
  using format_reads_pattern [of "''[%c.%f][%l][%t][%n][%G:%R @%F]%v''" new_log_formatter] demo_patterns(1) by auto

end
