(* ===== verification/RotateFile.thy ===== *)
theory RotateFile
  imports LogFormat Lifecycle "HOL-Library.AList" "HOL-Library.Sublist" "HOL-Library.Code_Target_Nat"
begin

text \<open>
  \<open>src/runtime/core/logger/rotate_file_logger_backend.cc\<close> and \<open>.h\<close>: the logger backend that
  appends lines to a file, renames the file when it has grown too large, compresses the renamed
  one and removes the oldest. The log directory is a map from the names that
  \<open>directory_iterator\<close> yields to contents; what can fail in it, the regular expression of the
  module filter and the two compressors are parameters. The streams of the C++ library and of the C
  library, which \<open>enable_sync\<close> chooses between, do the same here: one flag says whether a
  file is open.
\<close>

section \<open>Options\<close>

datatype compression_mode = CompressNone | CompressGzip | CompressZstd
datatype compression_level = LevelFast | LevelDefault | LevelSlow

record rotate_options =
  ro_path :: string
  ro_filename :: string
  ro_max_file_size_m :: u32
  ro_max_file_num :: u32
  ro_module_filter :: string
  ro_pattern :: string
  ro_enable_sync :: bool
  ro_sync_interval_ms :: u32
  ro_sync_executor_name :: string
  ro_suffix_with_timestamp :: bool
  ro_compression_mode :: string
  ro_compression_level :: string

definition default_rotate_options :: rotate_options where
  "default_rotate_options = \<lparr>ro_path = ''./log'', ro_filename = ''aimrt.log'', ro_max_file_size_m = 16, ro_max_file_num = 100,
     ro_module_filter = ''(.*)'', ro_pattern = [], ro_enable_sync = False, ro_sync_interval_ms = 30000,
     ro_sync_executor_name = [], ro_suffix_with_timestamp = True, ro_compression_mode = ''none'',
     ro_compression_level = ''default''\<rparr>"

record rotate_node =
  rn_is_map :: bool
  rn_path :: "string option"
  rn_filename :: "string option"
  rn_max_file_size_m :: "u32 option"
  rn_max_file_num :: "u32 option"
  rn_module_filter :: "string option"
  rn_pattern :: "string option"
  rn_enable_sync :: "bool option"
  rn_sync_interval_ms :: "u32 option"
  rn_sync_executor_name :: "string option"
  rn_suffix_with_timestamp :: "bool option"
  rn_compression_mode :: "string option"
  rn_compression_level :: "string option"

definition rf_encode :: "rotate_options \<Rightarrow> rotate_node" where
  "rf_encode rhs =
     \<lparr>rn_is_map = True, rn_path = Some (ro_path rhs), rn_filename = Some (ro_filename rhs),
      rn_max_file_size_m = Some (ro_max_file_size_m rhs), rn_max_file_num = Some (ro_max_file_num rhs),
      rn_module_filter = Some (ro_module_filter rhs), rn_pattern = Some (ro_pattern rhs),
      rn_enable_sync = Some (ro_enable_sync rhs), rn_sync_interval_ms = Some (ro_sync_interval_ms rhs),
      rn_sync_executor_name = Some (ro_sync_executor_name rhs),
      rn_suffix_with_timestamp = Some (ro_suffix_with_timestamp rhs),
      rn_compression_mode = Some (ro_compression_mode rhs), rn_compression_level = Some (ro_compression_level rhs)\<rparr>"

definition rf_decode :: "rotate_node \<Rightarrow> rotate_options \<Rightarrow> rotate_options option" where
  "rf_decode node rhs =
     (if \<not> rn_is_map node then None
      else Some
        \<lparr>ro_path = or_keep (rn_path node) (ro_path rhs),
         ro_filename = or_keep (rn_filename node) (ro_filename rhs),
         ro_max_file_size_m = or_keep (rn_max_file_size_m node) (ro_max_file_size_m rhs),
         ro_max_file_num = or_keep (rn_max_file_num node) (ro_max_file_num rhs),
         ro_module_filter = or_keep (rn_module_filter node) (ro_module_filter rhs),
         ro_pattern = or_keep (rn_pattern node) (ro_pattern rhs),
         ro_enable_sync = or_keep (rn_enable_sync node) (ro_enable_sync rhs),
         ro_sync_interval_ms = or_keep (rn_sync_interval_ms node) (ro_sync_interval_ms rhs),
         ro_sync_executor_name = or_keep (rn_sync_executor_name node) (ro_sync_executor_name rhs),
         ro_suffix_with_timestamp = or_keep (rn_suffix_with_timestamp node) (ro_suffix_with_timestamp rhs),
         ro_compression_mode = or_keep (rn_compression_mode node) (ro_compression_mode rhs),
         ro_compression_level = or_keep (rn_compression_level node) (ro_compression_level rhs)\<rparr>)"

lemma rf_decode_encode: "rf_decode (rf_encode rhs) opts = Some rhs"
  by (simp add: rf_decode_def rf_encode_def or_keep_def)

section \<open>The log directory\<close>

type_synonym directory = "(string \<times> string) list"

definition content_of :: "string \<Rightarrow> directory \<Rightarrow> string" where
  "content_of path d = (case map_of d path of None \<Rightarrow> [] | Some c \<Rightarrow> c)"

definition fs_append :: "string \<Rightarrow> string \<Rightarrow> directory \<Rightarrow> directory" where
  "fs_append path s d = AList.update path (content_of path d @ s) d"

definition fs_rename :: "string \<Rightarrow> string \<Rightarrow> directory \<Rightarrow> directory" where
  "fs_rename a b d = AList.update b (content_of a d) (AList.delete a d)"

text \<open>
  What the functions need from outside: which opening, renaming and removing succeeds, the
  compressors (given the pieces they are fed, they yield a file unless something fails), the zstd
  library's default level and the size it reads in, the clock, and the regular expressions
  (\<open>None\<close> is an exception).
\<close>

record log_env =
  le_mkdir :: "string \<Rightarrow> bool"
  le_open :: "string \<Rightarrow> bool"
  le_rename :: "string \<Rightarrow> string \<Rightarrow> bool"
  le_remove :: "string \<Rightarrow> bool"
  le_gzip :: "nat \<Rightarrow> string list \<Rightarrow> string option"
  le_zstd :: "nat \<Rightarrow> string list \<Rightarrow> string option"
  le_zstd_default :: nat
  le_zstd_in_size :: nat
  le_tm :: tm
  le_loc :: "nat \<Rightarrow> tm"
  le_regex :: "string \<Rightarrow> string \<Rightarrow> bool option"

section \<open>Names of rotated files\<close>

definition kGzipFileExtension :: string where "kGzipFileExtension = ''.gz''"
definition kZstdFileExtension :: string where "kZstdFileExtension = ''.zst''"
definition kCompressBufSize :: nat where "kCompressBufSize = 128 * 1024"

definition GetCompressedFileExtension :: "compression_mode \<Rightarrow> string" where
  "GetCompressedFileExtension mode = (if mode = CompressGzip then kGzipFileExtension else kZstdFileExtension)"

fun GetGzipLevel :: "compression_level \<Rightarrow> nat" where
  "GetGzipLevel LevelFast = 1"
| "GetGzipLevel LevelSlow = 9"
| "GetGzipLevel LevelDefault = 6"

fun GetZstdLevel :: "log_env \<Rightarrow> compression_level \<Rightarrow> nat" where
  "GetZstdLevel env LevelFast = 1"
| "GetZstdLevel env LevelSlow = 19"
| "GetZstdLevel env LevelDefault = le_zstd_default env"

definition ends_with :: "string \<Rightarrow> string \<Rightarrow> bool" where
  "ends_with s e \<longleftrightarrow> length e \<le> length s \<and> drop (length s - length e) s = e"

definition strip_extension :: "string \<Rightarrow> string" where
  "strip_extension s =
     (if ends_with s kGzipFileExtension then take (length s - length kGzipFileExtension) s
      else if ends_with s kZstdFileExtension then take (length s - length kZstdFileExtension) s
      else s)"

definition ParseRotatedFileIndex :: "string \<Rightarrow> string \<Rightarrow> u32 option" where
  "ParseRotatedFileIndex file_name base_file_name =
     (let n = length base_file_name in
      if length file_name \<le> n + 1 then None
      else if take n file_name \<noteq> base_file_name then None
      else if file_name ! n \<noteq> CHR ''_'' then None
      else
        let suffix = takeWhile (\<lambda>c. c \<noteq> CHR ''_'') (drop (n + 1) (strip_extension file_name)) in
        if \<not> IsDigitStr suffix then None
        else if 2 ^ 32 \<le> of_digits suffix then None
        else Some (of_nat (of_digits suffix)))"

section \<open>The backend\<close>

datatype rotate_error =
    RfBadNode | RfMkdir string | RfNoLogExecutor | RfPattern | RfBadMode string | RfBadLevel string
  | RfNoSyncName | RfBadSync string | RfSyncNoTimer string | RfRename string | RfRemove string

text \<open>
  \<open>rf_open\<close> says whether \<open>ofs_\<close> is open or \<open>file_\<close> is not null, \<open>rf_sync_timer\<close> is the
  interval of the timer and whether it still runs.
\<close>

record rotate_file =
  rf_options :: rotate_options
  rf_compression_mode :: compression_mode
  rf_compression_level :: compression_level
  rf_base_file_name :: string
  rf_open :: bool
  rf_run_flag :: bool
  rf_module_filter_map :: "(string \<times> bool) list"
  rf_formatter :: log_formatter
  rf_pattern :: string
  rf_sync_timer :: "(u32 \<times> bool) option"
  rf_dir :: directory

definition new_rotate_file :: "directory \<Rightarrow> rotate_file" where
  "new_rotate_file d = \<lparr>rf_options = default_rotate_options, rf_compression_mode = CompressNone, rf_compression_level = LevelDefault,
     rf_base_file_name = [], rf_open = False, rf_run_flag = False, rf_module_filter_map = [], rf_formatter = new_log_formatter,
     rf_pattern = ''[%c.%f][%l][%t][%n][%g:%R @%F]%v'', rf_sync_timer = None, rf_dir = d\<rparr>"

text \<open>\<open>operator/\<close> of paths.\<close>

definition path_append :: "string \<Rightarrow> string \<Rightarrow> string" where
  "path_append p f =
     (if f \<noteq> [] \<and> hd f = CHR ''/'' then f
      else if p = [] \<or> last p = CHR ''/'' then p @ f
      else p @ ''/'' @ f)"

definition compression_mode_map :: "(string \<times> compression_mode) list" where
  "compression_mode_map = [(''none'', CompressNone), (''gzip'', CompressGzip), (''zstd'', CompressZstd)]"

definition compression_level_map :: "(string \<times> compression_level) list" where
  "compression_level_map = [(''fast'', LevelFast), (''default'', LevelDefault), (''slow'', LevelSlow)]"

text \<open>
  Each backend is given the directory as its own: what two backends of one configuration do to each
  other on one file, or on files whose names overlap, is not represented.
  \<open>get_executor\<close> finds an executor by its name (the empty name stands for the guard thread) and
  says whether it schedules timers.
\<close>

definition rf_set_sync :: "(string \<Rightarrow> bool option) \<Rightarrow> rotate_file \<Rightarrow> (rotate_error, rotate_file) outcome" where
  "rf_set_sync get_executor s =
     (let opts = rf_options s; name = ro_sync_executor_name opts in
      if \<not> ro_enable_sync opts then (None, s)
      else if name = [] then (Some RfNoSyncName, s)
      else case get_executor name of
        None \<Rightarrow> (Some (RfBadSync name), s)
      | Some timers \<Rightarrow>
          if \<not> timers then (Some (RfSyncNoTimer name), s)
          else (None, s\<lparr>rf_sync_timer := Some (ro_sync_interval_ms opts, True)\<rparr>))"

definition rf_Initialize ::
  "log_env \<Rightarrow> (string \<Rightarrow> bool option) \<Rightarrow> rotate_node option \<Rightarrow> rotate_file \<Rightarrow> (rotate_error, rotate_file) outcome" where
  "rf_Initialize env get_executor options_node s =
     (case (case options_node of None \<Rightarrow> Some (rf_options s) | Some node \<Rightarrow> rf_decode node default_rotate_options) of
        None \<Rightarrow> (Some RfBadNode, s)
      | Some opts \<Rightarrow>
          let s = s\<lparr>rf_options := opts, rf_base_file_name := path_append (ro_path opts) (ro_filename opts)\<rparr> in
          if \<not> le_mkdir env (ro_path opts) then (Some (RfMkdir (ro_path opts)), s)
          else if get_executor [] = None then (Some RfNoLogExecutor, s)
          else
            let s = (if ro_pattern opts \<noteq> [] then s\<lparr>rf_pattern := ro_pattern opts\<rparr> else s) in
            case SetPattern (rf_pattern s) (rf_formatter s) of
              Inl _ \<Rightarrow> (Some RfPattern, s)
            | Inr f \<Rightarrow>
                let s = s\<lparr>rf_formatter := f\<rparr> in
                case map_of compression_mode_map (ro_compression_mode opts) of
                  None \<Rightarrow> (Some (RfBadMode (ro_compression_mode opts)), s)
                | Some mode \<Rightarrow>
                    let s = s\<lparr>rf_compression_mode := mode\<rparr> in
                    case map_of compression_level_map (ro_compression_level opts) of
                      None \<Rightarrow> (Some (RfBadLevel (ro_compression_level opts)), s)
                    | Some level \<Rightarrow>
                        case rf_set_sync get_executor (s\<lparr>rf_compression_level := level\<rparr>) of
                          (Some e, s) \<Rightarrow> (Some e, s)
                        | (None, s) \<Rightarrow> (None, s\<lparr>rf_run_flag := True\<rparr>))"

definition rf_Shutdown :: "rotate_file \<Rightarrow> rotate_file" where
  "rf_Shutdown s =
     s\<lparr>rf_run_flag := False, rf_sync_timer := map_option (\<lambda>(ms, _). (ms, False)) (rf_sync_timer s)\<rparr>"

text \<open>
  What the timer posts to the log executor, and the destructor: \<open>None\<close> is a null file handed
  to \<open>fileno\<close> or \<open>fclose\<close>.
\<close>

definition rf_sync_work :: "rotate_file \<Rightarrow> rotate_file option" where
  "rf_sync_work s = (if rf_open s then Some s else None)"

definition rf_destroy :: "rotate_file \<Rightarrow> rotate_file option" where
  "rf_destroy s =
     (if ro_enable_sync (rf_options s) \<and> \<not> rf_open s then None else Some (s\<lparr>rf_open := False\<rparr>))"

definition rf_CheckLog :: "log_env \<Rightarrow> string \<Rightarrow> rotate_file \<Rightarrow> bool \<times> rotate_file" where
  "rf_CheckLog env module_name s =
     (case check_log (le_regex env) (ro_module_filter (rf_options s)) module_name (rf_module_filter_map s) of
        (if_log, m) \<Rightarrow> (if_log, s\<lparr>rf_module_filter_map := m\<rparr>))"

text \<open>\<open>Log\<close> hands the formatted line to the log executor.\<close>

definition rf_Log :: "log_env \<Rightarrow> log_data \<Rightarrow> rotate_file \<Rightarrow> string option \<times> rotate_file" where
  "rf_Log env d s =
     (if \<not> rf_run_flag s then (None, s)
      else case rf_CheckLog env (ld_module_name d) s of
        (False, s) \<Rightarrow> (None, s)
      | (True, s) \<Rightarrow> (Some (Format (le_loc env) (rf_formatter s) d), s))"

section \<open>Rotation\<close>

text \<open>
  The names that \<open>directory_iterator\<close> yields begin with the directory as it was configured, so they
  are the keys of \<open>rf_dir\<close> when the configured path is spelt as the iterator joins it
  (\<open>./log\<close>, or \<open>./log/\<close> with one separator); for another spelling nothing would be
  recognised as a rotated file.
\<close>

definition GetNextIndex :: "rotate_file \<Rightarrow> u32" where
  "GetNextIndex s =
     fold (\<lambda>(name, _) idx.
         case ParseRotatedFileIndex name (rf_base_file_name s) of
           None \<Rightarrow> idx
         | Some cur_idx \<Rightarrow> if idx \<le> cur_idx then cur_idx + 1 else idx) (rf_dir s) 1"

definition timestamp :: "tm \<Rightarrow> string" where
  "timestamp t = ''_'' @ pad 4 (field (tm_year t + 1900) 10000) @ pad 2 (field (tm_mon t + 1) 100) @
     pad 2 (field (tm_mday t) 100) @ ''_'' @ pad 2 (field (tm_hour t) 100) @ pad 2 (field (tm_min t) 100) @
     pad 2 (field (tm_sec t) 100)"

definition rotated_name :: "log_env \<Rightarrow> rotate_file \<Rightarrow> string" where
  "rotated_name env s =
     rf_base_file_name s @ ''_'' @ to_string (unat (GetNextIndex s)) @
     (if ro_suffix_with_timestamp (rf_options s) then timestamp (le_tm env) else [])"

text \<open>
  The pieces a file is read in. The gzip loop stops at an empty piece; the zstd loop stops
  behind the first piece that is not full, which it marks as the last one.
\<close>

fun gzip_chunks :: "nat \<Rightarrow> string \<Rightarrow> string list" where
  "gzip_chunks n s = (if s = [] \<or> n = 0 then [] else take n s # gzip_chunks n (drop n s))"

fun zstd_chunks :: "nat \<Rightarrow> string \<Rightarrow> string list" where
  "zstd_chunks n s = (if length s < n \<or> n = 0 then [s] else take n s # zstd_chunks n (drop n s))"

declare gzip_chunks.simps [simp del] zstd_chunks.simps [simp del]

definition compressed :: "log_env \<Rightarrow> rotate_file \<Rightarrow> string \<Rightarrow> string option" where
  "compressed env s text =
     (if rf_compression_mode s = CompressGzip
      then le_gzip env (GetGzipLevel (rf_compression_level s)) (gzip_chunks kCompressBufSize text)
      else le_zstd env (GetZstdLevel env (rf_compression_level s)) (zstd_chunks (le_zstd_in_size env) text))"

definition CompressFile :: "log_env \<Rightarrow> string \<Rightarrow> rotate_file \<Rightarrow> rotate_file" where
  "CompressFile env src s =
     (let dst = src @ GetCompressedFileExtension (rf_compression_mode s); d = rf_dir s in
      case (if map_of d src = None \<or> \<not> le_open env dst then None else compressed env s (content_of src d)) of
        None \<Rightarrow> s\<lparr>rf_dir := AList.delete dst d\<rparr>
      | Some z \<Rightarrow>
          let d = AList.update dst z d
          in s\<lparr>rf_dir := (if le_remove env src then AList.delete src d else d)\<rparr>)"

definition Rename :: "log_env \<Rightarrow> rotate_file \<Rightarrow> (rotate_error, rotate_file) outcome" where
  "Rename env s =
     (let base = rf_base_file_name s; name = rotated_name env s in
      if \<not> le_rename env base name then (Some (RfRename name), s)
      else
        let s = s\<lparr>rf_dir := fs_rename base name (rf_dir s)\<rparr>
        in (None, if rf_compression_mode s \<noteq> CompressNone then CompressFile env name s else s))"

text \<open>The map from indices to names keeps the first name of an index; the oldest are removed.\<close>

definition log_files :: "rotate_file \<Rightarrow> (u32 \<times> string) list" where
  "log_files s =
     sort_key fst (fold (\<lambda>(name, _) m.
         case ParseRotatedFileIndex name (rf_base_file_name s) of None \<Rightarrow> m | Some idx \<Rightarrow> emplace idx name m) (rf_dir s) [])"

fun remove_files :: "log_env \<Rightarrow> string list \<Rightarrow> directory \<Rightarrow> rotate_error option \<times> directory" where
  "remove_files env [] d = (None, d)"
| "remove_files env (f # fs) d = (if le_remove env f then remove_files env fs (AList.delete f d) else (Some (RfRemove f), d))"

definition CleanLogFile :: "log_env \<Rightarrow> rotate_file \<Rightarrow> (rotate_error, rotate_file) outcome" where
  "CleanLogFile env s =
     (let max_num = unat (ro_max_file_num (rf_options s)); fs = log_files s in
      if max_num = 0 then (None, s)
      else if length fs \<le> max_num then (None, s)
      else case remove_files env (map snd (take (length fs - max_num) fs)) (rf_dir s) of
        (e, d) \<Rightarrow> (e, s\<lparr>rf_dir := d\<rparr>))"

text \<open>The limit is computed in 32 bits.\<close>

definition too_large :: "rotate_file \<Rightarrow> bool" where
  "too_large s \<longleftrightarrow>
     unat (ro_max_file_size_m (rf_options s) * 1024 * 1024) < length (content_of (rf_base_file_name s) (rf_dir s))"

definition OpenNewFile :: "log_env \<Rightarrow> rotate_file \<Rightarrow> (rotate_error, bool) result \<times> rotate_file" where
  "OpenNewFile env s =
     (let base = rf_base_file_name s; rename_flag = (rf_open s \<and> too_large s); s = s\<lparr>rf_open := False\<rparr> in
      case (if rename_flag \<and> map_of (rf_dir s) base \<noteq> None then Rename env s else (None, s)) of
        (Some e, s) \<Rightarrow> (Inl e, s)
      | (None, s) \<Rightarrow>
          if \<not> le_open env base then (Inr False, s)
          else
            case CleanLogFile env (s\<lparr>rf_open := True, rf_dir := fs_append base [] (rf_dir s)\<rparr>) of
              (Some e, s) \<Rightarrow> (Inl e, s)
            | (None, s) \<Rightarrow> (Inr True, s))"

definition line_end :: string where "line_end = [CHR 0x0A]"

definition log_work :: "log_env \<Rightarrow> string \<Rightarrow> rotate_file \<Rightarrow> (rotate_error, rotate_file) outcome" where
  "log_work env line s =
     (case (if \<not> rf_open s \<or> too_large s then OpenNewFile env s else (Inr True, s)) of
        (Inl e, s) \<Rightarrow> (Some e, s)
      | (Inr False, s) \<Rightarrow> (None, s)
      | (Inr True, s) \<Rightarrow> (None, s\<lparr>rf_dir := fs_append (rf_base_file_name s) (line @ line_end) (rf_dir s)\<rparr>))"

section \<open>Names and indices\<close>

lemma to_string_digits: "list_all is_digit (to_string n)"
proof (induction n rule: to_string.induct)
  case (1 n)
  have d: "is_digit (char_of (48 + k))" if "k < 10" for k :: nat using that by (simp add: is_digit_def)
  show ?case
  proof (cases "n < 10")
    case True
    then show ?thesis using d [of n] by (subst to_string.simps) simp
  next
    case False
    then show ?thesis using 1 d [of "n mod 10"] by (subst to_string.simps) simp
  qed
qed

lemma to_string_not_Nil [simp]: "to_string n \<noteq> []"
  by (subst to_string.simps) simp

lemma pad_digits: "list_all is_digit (pad w n)" "0 < w \<Longrightarrow> pad w n \<noteq> []"
  using to_string_digits [of n] by (auto simp: pad_def Let_def list_all_iff is_digit_def)

lemma last_digit: "list_all is_digit s \<Longrightarrow> s \<noteq> [] \<Longrightarrow> is_digit (last s)"
  by (simp add: list_all_iff)

lemma not_digit: "\<not> is_digit CHR ''_''" "\<not> is_digit CHR ''z''" "\<not> is_digit CHR ''t''"
  by (simp_all add: is_digit_def)

lemma timestamp_shape: "\<exists>r. timestamp t = CHR ''_'' # r @ pad 2 (field (tm_sec t) 100)"
  by (simp add: timestamp_def)

lemma ends_with_last: "ends_with s e \<Longrightarrow> e \<noteq> [] \<Longrightarrow> last s = last e"
  unfolding ends_with_def by (metis append_take_drop_id last_appendR)

lemma ends_with_append: "ends_with (s @ e) e"
  by (simp add: ends_with_def)

lemma plain_name_last: "is_digit (last s) \<Longrightarrow> \<not> ends_with s kGzipFileExtension \<and> \<not> ends_with s kZstdFileExtension"
  using ends_with_last [of s kGzipFileExtension] ends_with_last [of s kZstdFileExtension] not_digit
  by (auto simp: kGzipFileExtension_def kZstdFileExtension_def)

lemma strip_extension_cases:
  assumes "is_digit (last s)"
  shows "strip_extension s = s" "strip_extension (s @ GetCompressedFileExtension mode) = s"
proof -
  show "strip_extension s = s" using plain_name_last [OF assms] by (simp add: strip_extension_def)
  have "\<not> ends_with (s @ kZstdFileExtension) kGzipFileExtension"
    using ends_with_last [of "s @ kZstdFileExtension" kGzipFileExtension]
    by (auto simp: kGzipFileExtension_def kZstdFileExtension_def)
  then show "strip_extension (s @ GetCompressedFileExtension mode) = s"
    by (auto simp: strip_extension_def GetCompressedFileExtension_def ends_with_append)
qed

text \<open>The name of a rotated file, with or without time and extension, yields its index.\<close>

definition name_tail :: "string \<Rightarrow> bool" where
  "name_tail ts \<longleftrightarrow> ts = [] \<or> (\<exists>r. ts = CHR ''_'' # r \<and> is_digit (last r) \<and> r \<noteq> [])"

lemma name_tail_timestamp: "name_tail (if b then timestamp t else [])"
proof -
  have "is_digit (last (pad 2 n))" "pad 2 n \<noteq> []" for n using last_digit [OF pad_digits(1)] pad_digits(2) by simp_all
  then show ?thesis using timestamp_shape [of t] by (auto simp: name_tail_def)
qed

lemma ParseRotatedFileIndex_name:
  assumes "name_tail ts" "n < 2 ^ 32" "ext = [] \<or> ext = GetCompressedFileExtension mode"
  shows "ParseRotatedFileIndex (base @ ''_'' @ to_string n @ ts @ ext) base = Some (of_nat n)"
proof -
  let ?s = "base @ ''_'' @ to_string n @ ts"
  let ?p = "\<lambda>c. c \<noteq> CHR ''_''"
  note ds = to_string_digits [of n] to_string_not_Nil [of n]
  have "is_digit (last ?s)" using assms(1) last_digit [OF ds] by (auto simp: name_tail_def)
  note strip = strip_extension_cases [OF this]
  have strip: "strip_extension (?s @ ext) = ?s" using assms(3) strip by auto
  have num: "\<forall>c \<in> set (to_string n). ?p c" using ds(1) not_digit(1) by (auto simp: list_all_iff)
  have "takeWhile ?p ts = []" using assms(1) by (auto simp: name_tail_def)
  then have suffix: "takeWhile ?p (drop (length base + 1) ?s) = to_string n" using num by (simp add: takeWhile_append)
  have "IsDigitStr (to_string n)" using ds by (simp add: IsDigitStr_def)
  moreover have "length base + 1 < length (?s @ ext)" "take (length base) (?s @ ext) = base" "(?s @ ext) ! length base = CHR ''_''"
    using ds(2) by (simp_all add: nth_append)
  ultimately have "ParseRotatedFileIndex (?s @ ext) base = Some (of_nat n)"
    unfolding ParseRotatedFileIndex_def Let_def strip suffix of_digits_to_string using assms(2) by simp
  then show ?thesis by simp
qed

lemma ParseRotatedFileIndex_base [simp]: "ParseRotatedFileIndex base base = None"
  by (simp add: ParseRotatedFileIndex_def Let_def)

section \<open>The rotated files in order\<close>

definition rot :: "string \<Rightarrow> directory \<Rightarrow> (u32 \<times> string \<times> string) list" where
  "rot base d = sort_key fst (List.map_filter (\<lambda>(n, c). map_option (\<lambda>i. (i, n, c)) (ParseRotatedFileIndex n base)) d)"

abbreviation rotated :: "rotate_file \<Rightarrow> (u32 \<times> string \<times> string) list" where
  "rotated s \<equiv> rot (rf_base_file_name s) (rf_dir s)"

definition dir_ok :: "string \<Rightarrow> directory \<Rightarrow> bool" where
  "dir_ok base d \<longleftrightarrow> distinct (map fst d) \<and>
     (\<forall>m \<in> fst ` set d. \<forall>n \<in> fst ` set d. \<forall>i. ParseRotatedFileIndex m base = Some i \<and> ParseRotatedFileIndex n base = Some i \<longrightarrow> m = n)"

lemma set_map_filter: "set (List.map_filter f xs) = {y. \<exists>x \<in> set xs. f x = Some y}"
  by (force simp: List.map_filter_def)

lemma set_rot:
  assumes "distinct (map fst d)"
  shows "(i, n, c) \<in> set (rot base d) \<longleftrightarrow> map_of d n = Some c \<and> ParseRotatedFileIndex n base = Some i"
proof -
  have "(i, n, c) \<in> set (rot base d) \<longleftrightarrow>
      (\<exists>x \<in> set d. map_option (\<lambda>j. (j, fst x, snd x)) (ParseRotatedFileIndex (fst x) base) = Some (i, n, c))"
    by (simp add: rot_def set_map_filter case_prod_beta)
  also have "\<dots> \<longleftrightarrow> (n, c) \<in> set d \<and> ParseRotatedFileIndex n base = Some i" by force
  finally show ?thesis using assms by simp
qed

lemma rot_sorted: "dir_ok base d \<Longrightarrow> sorted (map fst (rot base d)) \<and> distinct (map fst (rot base d))"
proof -
  assume ok: "dir_ok base d"
  let ?f = "\<lambda>(n, c). map_option (\<lambda>i. (i, n, c)) (ParseRotatedFileIndex n base)"
  have "distinct (map fst (List.map_filter ?f d))" using ok
  proof (induction d)
    case (Cons x d)
    have ok: "dir_ok base d" using Cons.prems by (auto simp: dir_ok_def)
    show ?case
    proof (cases "?f x")
      case None
      then show ?thesis using Cons.IH [OF ok] by (simp add: List.map_filter_simps)
    next
      case (Some y)
      then obtain n c i where x: "x = (n, c)" "ParseRotatedFileIndex n base = Some i" "y = (i, n, c)" by (cases x) auto
      have "i \<notin> fst ` set (List.map_filter ?f d)"
      proof
        assume "i \<in> fst ` set (List.map_filter ?f d)"
        then obtain m c' where m: "(m, c') \<in> set d" "ParseRotatedFileIndex m base = Some i"
          by (auto simp: set_map_filter)
        then have "m = n" using Cons.prems x by (force simp: dir_ok_def)
        then show False using m(1) x(1) Cons.prems by (auto simp: dir_ok_def image_iff)
      qed
      then show ?thesis using Some x Cons.IH [OF ok] by (simp add: List.map_filter_simps)
    qed
  qed (simp add: List.map_filter_simps)
  moreover have "mset (map fst (rot base d)) = mset (map fst (List.map_filter ?f d))" by (simp add: rot_def)
  ultimately have "distinct (map fst (rot base d))" using mset_eq_imp_distinct_iff by blast
  then show ?thesis by (simp add: rot_def)
qed

lemma rot_eqI:
  assumes "dir_ok base d" "sorted (map fst xs)" "distinct (map fst xs)"
    and "\<And>i n c. (i, n, c) \<in> set xs \<longleftrightarrow> map_of d n = Some c \<and> ParseRotatedFileIndex n base = Some i"
  shows "rot base d = xs"
proof -
  have keys: "distinct (map fst d)" using assms(1) by (simp add: dir_ok_def)
  have set: "set (rot base d) = set xs" using assms(4) set_rot [OF keys] by auto
  then have "inj_on fst (set (rot base d) \<union> set xs)" using assms(3) by (simp add: distinct_map)
  then show ?thesis
    using map_sorted_distinct_set_unique [of fst "rot base d" xs] rot_sorted [OF assms(1)] assms(2,3) set by blast
qed

lemma dir_okI:
  assumes "distinct (map fst d)"
    and "\<And>m n i. m \<in> dom (map_of d) \<Longrightarrow> n \<in> dom (map_of d) \<Longrightarrow> ParseRotatedFileIndex m base = Some i \<Longrightarrow>
      ParseRotatedFileIndex n base = Some i \<Longrightarrow> m = n"
  shows "dir_ok base d"
  using assms by (auto simp: dir_ok_def dom_map_of_conv_image_fst)

lemma dir_ok_keys: "dir_ok base d \<Longrightarrow> distinct (map fst d)"
  by (simp add: dir_ok_def)

lemma dir_ok_same:
  "dir_ok base d \<Longrightarrow> map_of d m = Some a \<Longrightarrow> map_of d n = Some b \<Longrightarrow> ParseRotatedFileIndex m base = Some i \<Longrightarrow>
   ParseRotatedFileIndex n base = Some i \<Longrightarrow> m = n"
  unfolding dir_ok_def by (metis domI dom_map_of_conv_image_fst)

section \<open>What the operations do to the directory\<close>

lemma fs_append_frame:
  assumes "dir_ok base d"
  shows "dir_ok base (fs_append base s d)" "rot base (fs_append base s d) = rot base d"
    "content_of base (fs_append base s d) = content_of base d @ s"
proof -
  let ?d = "fs_append base s d"
  have m: "map_of ?d = (map_of d)(base \<mapsto> content_of base d @ s)" by (simp add: fs_append_def update_conv')
  have k: "distinct (map fst ?d)" using dir_ok_keys [OF assms] by (simp add: fs_append_def distinct_update)
  show ok: "dir_ok base ?d"
    by (rule dir_okI [OF k]) (use dir_ok_same [OF assms] in \<open>auto simp: m split: if_splits\<close>)
  show "rot base ?d = rot base d"
    by (rule rot_eqI [OF ok]) (use rot_sorted [OF assms] set_rot [OF dir_ok_keys [OF assms]] in \<open>auto simp: m\<close>)
  show "content_of base ?d = content_of base d @ s" by (simp add: content_of_def m)
qed

text \<open>
  One name goes and another comes, with an index above all the others: the base file is renamed,
  or the youngest rotated file is compressed.
\<close>

lemma rot_replace:
  assumes ok: "dir_ok base d" and d': "distinct (map fst d')" "map_of d' = (map_of d)(a := None, b \<mapsto> z)"
    and r: "rot base d = xs @ ys" "ys = [] \<and> ParseRotatedFileIndex a base = None \<or> (\<exists>c. ys = [(i, a, c)])"
    and b: "ParseRotatedFileIndex b base = Some i" "\<forall>x \<in> set xs. fst x < i" "map_of d b = None"
  shows "dir_ok base d'" "rot base d' = xs @ [(i, b, z)]"
proof -
  note mem = set_rot [OF dir_ok_keys [OF ok], of _ _ _ base]
  have xs: "(j, n, c) \<in> set xs \<longleftrightarrow> n \<noteq> a \<and> map_of d n = Some c \<and> ParseRotatedFileIndex n base = Some j" for j n c
  proof
    assume x: "(j, n, c) \<in> set xs"
    then have n: "map_of d n = Some c" "ParseRotatedFileIndex n base = Some j" using mem [of j n c] r(1) by auto
    moreover have "n \<noteq> a"
    proof
      assume "n = a"
      then have "\<exists>c. ys = [(i, a, c)]" using r(2) n(2) by auto
      then have "(i, a, c) \<in> set (rot base d)" if "ys = [(i, a, c)]" for c using that r(1) by simp
      then have "j = i" using \<open>\<exists>c. ys = [(i, a, c)]\<close> mem n(2) \<open>n = a\<close> by auto
      then show False using b(2) x by auto
    qed
    ultimately show "n \<noteq> a \<and> map_of d n = Some c \<and> ParseRotatedFileIndex n base = Some j" by blast
  next
    assume "n \<noteq> a \<and> map_of d n = Some c \<and> ParseRotatedFileIndex n base = Some j"
    moreover from this have "(j, n, c) \<in> set (rot base d)" using mem by blast
    ultimately show "(j, n, c) \<in> set xs" using r by auto
  qed
  have other: "n = b" if n: "n \<in> dom (map_of d')" "ParseRotatedFileIndex n base = Some i" for n
  proof (rule ccontr)
    assume "n \<noteq> b"
    then obtain c where "n \<noteq> a" "map_of d n = Some c" using n(1) by (auto simp: d'(2) split: if_splits)
    then have "(i, n, c) \<in> set xs" using xs n(2) by blast
    then show False using b(2) by auto
  qed
  show ok': "dir_ok base d'"
  proof (rule dir_okI [OF d'(1)])
    fix m n j
    assume "m \<in> dom (map_of d')" "n \<in> dom (map_of d')" "ParseRotatedFileIndex m base = Some j" "ParseRotatedFileIndex n base = Some j"
    then show "m = n"
    proof (cases "j = i")
      case True
      then show ?thesis using other b(1) \<open>m \<in> _\<close> \<open>n \<in> _\<close> \<open>ParseRotatedFileIndex m base = _\<close> \<open>ParseRotatedFileIndex n base = _\<close> by metis
    next
      case False
      then have "m \<noteq> b" "n \<noteq> b" using b(1) \<open>ParseRotatedFileIndex m base = _\<close> \<open>ParseRotatedFileIndex n base = _\<close> by auto
      then obtain x y where "map_of d m = Some x" "map_of d n = Some y"
        using \<open>m \<in> _\<close> \<open>n \<in> _\<close> by (auto simp: d'(2) split: if_splits)
      then show ?thesis using dir_ok_same [OF ok] \<open>ParseRotatedFileIndex m base = _\<close> \<open>ParseRotatedFileIndex n base = _\<close> by blast
    qed
  qed
  show "rot base d' = xs @ [(i, b, z)]"
  proof (rule rot_eqI [OF ok'])
    have "sorted (map fst xs)" "distinct (map fst xs)" using rot_sorted [OF ok] r(1) by (auto simp: sorted_append)
    then show "sorted (map fst (xs @ [(i, b, z)]))" "distinct (map fst (xs @ [(i, b, z)]))"
      using b(2) by (auto simp: sorted_append intro: less_imp_le)
    show "(j, n, c) \<in> set (xs @ [(i, b, z)]) \<longleftrightarrow> map_of d' n = Some c \<and> ParseRotatedFileIndex n base = Some j" for j n c
      using xs [of j n c] b(1,3) by (auto simp: d'(2))
  qed
qed

lemma fold_emplace:
  assumes "dir_ok base d" "\<forall>n \<in> fst ` set d. \<forall>i. ParseRotatedFileIndex n base = Some i \<longrightarrow> i \<notin> fst ` set m"
  shows "fold (\<lambda>(n, _) m. case ParseRotatedFileIndex n base of None \<Rightarrow> m | Some idx \<Rightarrow> emplace idx n m) d m =
    m @ map (\<lambda>(i, n, _). (i, n)) (List.map_filter (\<lambda>(n, c). map_option (\<lambda>i. (i, n, c)) (ParseRotatedFileIndex n base)) d)"
  using assms
proof (induction d arbitrary: m)
  case (Cons x d)
  obtain n c where x: "x = (n, c)" by fastforce
  have ok: "dir_ok base d" using Cons.prems(1) by (auto simp: dir_ok_def)
  show ?case
  proof (cases "ParseRotatedFileIndex n base")
    case None
    then show ?thesis using Cons.IH [OF ok, of m] Cons.prems(2) x by (simp add: List.map_filter_simps)
  next
    case (Some i)
    then have "map_of m i = None" using Cons.prems(2) x by (auto simp: map_of_eq_None_iff)
    then have e: "emplace i n m = m @ [(i, n)]" by (simp add: emplace_def)
    have "j \<notin> fst ` set (m @ [(i, n)])" if "k \<in> fst ` set d" "ParseRotatedFileIndex k base = Some j" for k j
    proof -
      have "k \<noteq> n" using that(1) Cons.prems(1) x by (auto simp: dir_ok_def)
      then have "j \<noteq> i" using that Some Cons.prems(1) x by (auto simp: dir_ok_def)
      then show ?thesis using that Cons.prems(2) x by auto
    qed
    then have "fold (\<lambda>(n, _) m. case ParseRotatedFileIndex n base of None \<Rightarrow> m | Some idx \<Rightarrow> emplace idx n m) d (m @ [(i, n)]) =
        (m @ [(i, n)]) @ map (\<lambda>(i, n, _). (i, n)) (List.map_filter (\<lambda>(n, c). map_option (\<lambda>i. (i, n, c)) (ParseRotatedFileIndex n base)) d)"
      by (intro Cons.IH [OF ok]) blast
    then show ?thesis using x Some e by (simp add: List.map_filter_simps)
  qed
qed (simp add: List.map_filter_simps)

lemma log_files_rot:
  assumes "dir_ok (rf_base_file_name s) (rf_dir s)"
  shows "log_files s = map (\<lambda>(i, n, _). (i, n)) (rotated s)"
proof -
  let ?g = "\<lambda>(i :: u32, n :: string, _ :: string). (i, n)"
  let ?l = "List.map_filter (\<lambda>(n, c). map_option (\<lambda>i. (i, n, c)) (ParseRotatedFileIndex n (rf_base_file_name s))) (rf_dir s)"
  have l: "log_files s = sort_key fst (map ?g ?l)" using fold_emplace [OF assms, of "[]"] by (simp add: log_files_def)
  have fst: "map fst (map ?g xs) = map fst xs" for xs by (induction xs) auto
  have "mset (map fst (rotated s)) = mset (map fst ?l)" by (simp add: rot_def)
  then have dist: "distinct (map fst ?l)" using rot_sorted [OF assms] mset_eq_imp_distinct_iff by blast
  show ?thesis unfolding l
  proof (rule map_sorted_distinct_set_unique)
    show "sorted (map fst (sort_key fst (map ?g ?l)))" by simp
    have "mset (map fst (sort_key fst (map ?g ?l))) = mset (map fst (map ?g ?l))" by (simp only: mset_map mset_sort)
    then show d: "distinct (map fst (sort_key fst (map ?g ?l)))" using dist unfolding fst using mset_eq_imp_distinct_iff by blast
    show "sorted (map fst (map ?g (rotated s)))" "distinct (map fst (map ?g (rotated s)))"
      unfolding fst using rot_sorted [OF assms] by simp_all
    show s: "set (sort_key fst (map ?g ?l)) = set (map ?g (rotated s))" by (simp add: rot_def)
    show "inj_on fst (set (sort_key fst (map ?g ?l)) \<union> set (map ?g (rotated s)))"
      using d unfolding s distinct_map by (simp only: Un_absorb s)
  qed
qed

lemma remove_files_None:
  assumes "remove_files env names d = (None, d')"
  shows "map_of d' = (\<lambda>n. if n \<in> set names then None else map_of d n) \<and> (distinct (map fst d) \<longrightarrow> distinct (map fst d'))"
  using assms
proof (induction names arbitrary: d)
  case (Cons f fs)
  then have "remove_files env fs (AList.delete f d) = (None, d')" by (simp split: if_splits)
  from Cons.IH [OF this] show ?case by (auto simp: delete_conv' fun_eq_iff distinct_delete)
qed simp

lemma CleanLogFile_None:
  assumes "CleanLogFile env s = (None, s')" "dir_ok (rf_base_file_name s) (rf_dir s)"
  shows "\<exists>k d. s' = s\<lparr>rf_dir := d\<rparr> \<and> dir_ok (rf_base_file_name s) d \<and> rot (rf_base_file_name s) d = drop k (rotated s) \<and>
    content_of (rf_base_file_name s) d = content_of (rf_base_file_name s) (rf_dir s) \<and>
    (let n = unat (ro_max_file_num (rf_options s)) in if n = 0 then k = 0 else k = length (rotated s) - n)"
proof -
  let ?base = "rf_base_file_name s" and ?n = "unat (ro_max_file_num (rf_options s))"
  note files = log_files_rot [OF assms(2)]
  show ?thesis
  proof (cases "?n = 0 \<or> length (rotated s) \<le> ?n")
    case True
    then have "s' = s" using assms(1) files by (auto simp: CleanLogFile_def Let_def split: prod.splits if_splits)
    then show ?thesis using True assms(2)
      by (intro exI [of _ 0] exI [of _ "rf_dir s"]) (auto simp: Let_def)
  next
    case False
    let ?k = "length (rotated s) - ?n"
    let ?names = "map (\<lambda>(i, n, c). n) (take ?k (rotated s))"
    have names: "map snd (take ?k (log_files s)) = ?names" by (simp add: files take_map split_beta)
    obtain d where d: "remove_files env ?names (rf_dir s) = (None, d)" "s' = s\<lparr>rf_dir := d\<rparr>"
      using assms(1) False names files by (auto simp: CleanLogFile_def Let_def split: prod.splits)
    note m = remove_files_None [OF d(1)]
    note keys = dir_ok_keys [OF assms(2)]
    note mem = set_rot [OF keys, of _ _ _ ?base]
    have ok: "dir_ok ?base d"
      by (rule dir_okI) (use m keys dir_ok_same [OF assms(2)] in \<open>auto split: if_splits\<close>)
    have srt: "sorted (map fst (drop ?k (rotated s)))" "distinct (map fst (drop ?k (rotated s)))"
      using rot_sorted [OF assms(2)] by (simp_all add: drop_map [symmetric] sorted_wrt_drop)
    have "rot ?base d = drop ?k (rotated s)"
    proof (rule rot_eqI [OF ok srt])
      fix i n c
      have split: "set (rotated s) = set (take ?k (rotated s)) \<union> set (drop ?k (rotated s))"
        by (metis append_take_drop_id set_append)
      have "distinct (map fst (take ?k (rotated s) @ drop ?k (rotated s)))" using rot_sorted [OF assms(2)] by simp
      then have disj: "(i, n', c') \<in> set (take ?k (rotated s)) \<Longrightarrow> (i, n, c) \<notin> set (drop ?k (rotated s))" for n' c'
        unfolding map_append distinct_append by force
      have early: "n \<in> set ?names \<Longrightarrow> map_of (rf_dir s) n = Some c \<Longrightarrow> ParseRotatedFileIndex n ?base = Some i \<Longrightarrow>
          (i, n, c) \<in> set (take ?k (rotated s))"
      proof -
        assume a: "n \<in> set ?names" "map_of (rf_dir s) n = Some c" "ParseRotatedFileIndex n ?base = Some i"
        then obtain j c' where t: "(j, n, c') \<in> set (take ?k (rotated s))" by auto
        then have "(j, n, c') \<in> set (rotated s)" by (metis in_set_takeD)
        then have "j = i" "c' = c" using mem a(2,3) by auto
        then show ?thesis using t by simp
      qed
      then show "(i, n, c) \<in> set (drop ?k (rotated s)) \<longleftrightarrow> map_of d n = Some c \<and> ParseRotatedFileIndex n ?base = Some i"
      proof (cases "n \<in> set ?names")
        case True
        then have "map_of d n = None" using m by simp
        moreover have "(i, n, c) \<notin> set (drop ?k (rotated s))"
        proof
          assume t: "(i, n, c) \<in> set (drop ?k (rotated s))"
          then have "(i, n, c) \<in> set (rotated s)" by (rule in_set_dropD)
          then show False using early [OF True] mem disj t by blast
        qed
        ultimately show ?thesis by simp
      next
        case False
        then have "map_of d n = map_of (rf_dir s) n" using m by simp
        moreover have "(i, n, c) \<notin> set (take ?k (rotated s))" using False by force
        ultimately show ?thesis using mem [of i n c] split by auto
      qed
    qed
    moreover have "?base \<notin> set ?names"
    proof
      assume "?base \<in> set ?names"
      then obtain j c where "(j, ?base, c) \<in> set (rotated s)" by (auto dest: in_set_takeD)
      then show False using mem by simp
    qed
    ultimately show ?thesis using d(2) ok m False
      by (intro exI [of _ ?k] exI [of _ d]) (auto simp: Let_def content_of_def)
  qed
qed

section \<open>The order of the lines\<close>

lemma next_index_fold:
  assumes "r = fold (\<lambda>(name, _) idx. case ParseRotatedFileIndex name base of None \<Rightarrow> idx
      | Some cur_idx \<Rightarrow> if idx \<le> cur_idx then cur_idx + 1 else idx) d idx"
    and "\<forall>n \<in> fst ` set d. \<forall>i. ParseRotatedFileIndex n base = Some i \<longrightarrow> unat i < N" "N < 2 ^ 32" "unat idx \<le> N"
  shows "idx \<le> r \<and> unat r \<le> N \<and> (\<forall>n \<in> fst ` set d. \<forall>i. ParseRotatedFileIndex n base = Some i \<longrightarrow> i < r)"
  using assms
proof (induction d arbitrary: idx)
  case (Cons x d)
  obtain n c where x: "x = (n, c)" by fastforce
  let ?idx = "case ParseRotatedFileIndex n base of None \<Rightarrow> idx | Some cur_idx \<Rightarrow> if idx \<le> cur_idx then cur_idx + 1 else idx"
  have step: "idx \<le> ?idx \<and> unat ?idx \<le> N \<and> (\<forall>i. ParseRotatedFileIndex n base = Some i \<longrightarrow> i < ?idx)"
  proof (cases "ParseRotatedFileIndex n base")
    case (Some i)
    then have i: "unat i < N" using Cons.prems(2) x by auto
    then have "unat (i + 1) = unat i + 1" using Cons.prems(3) by (simp add: unat_word_ariths)
    then show ?thesis using Some i Cons.prems(4) by (auto simp: word_le_nat_alt word_less_nat_alt)
  qed (use Cons.prems(4) in simp)
  have "?idx \<le> r \<and> unat r \<le> N \<and> (\<forall>n \<in> fst ` set d. \<forall>i. ParseRotatedFileIndex n base = Some i \<longrightarrow> i < r)"
    by (rule Cons.IH) (use Cons.prems x step in auto)
  then show ?case using step x by (auto intro: order_trans order_less_le_trans)
qed simp

lemma GetNextIndex_above:
  assumes "\<forall>x \<in> set (rotated s). unat (fst x) < N" "dir_ok (rf_base_file_name s) (rf_dir s)" "1 \<le> N" "N < 2 ^ 32"
  shows "(\<forall>x \<in> set (rotated s). fst x < GetNextIndex s) \<and> unat (GetNextIndex s) \<le> N"
proof -
  note mem = set_rot [OF dir_ok_keys [OF assms(2)], of _ _ _ "rf_base_file_name s"]
  have "unat i < N" if n: "n \<in> fst ` set (rf_dir s)" "ParseRotatedFileIndex n (rf_base_file_name s) = Some i" for n i
  proof -
    obtain c where "map_of (rf_dir s) n = Some c" using n(1) by (auto simp: dom_map_of_conv_image_fst [symmetric])
    then have "(i, n, c) \<in> set (rotated s)" using mem n(2) by blast
    then show ?thesis using assms(1) by force
  qed
  then have "unat (GetNextIndex s) \<le> N \<and>
      (\<forall>n \<in> fst ` set (rf_dir s). \<forall>i. ParseRotatedFileIndex n (rf_base_file_name s) = Some i \<longrightarrow> i < GetNextIndex s)"
    using next_index_fold [of "GetNextIndex s" "rf_base_file_name s" "rf_dir s" 1 N] assms(3,4)
    unfolding GetNextIndex_def by simp
  moreover have "n \<in> fst ` set (rf_dir s)" "ParseRotatedFileIndex n (rf_base_file_name s) = Some i"
    if "(i, n, c) \<in> set (rotated s)" for i n c
    using that mem by (auto simp: dom_map_of_conv_image_fst [symmetric])
  ultimately show ?thesis by fastforce
qed

text \<open>What is in a file once it is unpacked, and all the lines that the files of the backend hold.\<close>

definition reads :: "(string \<Rightarrow> string) \<Rightarrow> (string \<Rightarrow> string) \<Rightarrow> string \<Rightarrow> string \<Rightarrow> string" where
  "reads gunzip unzstd n c =
     (if ends_with n kGzipFileExtension then gunzip c else if ends_with n kZstdFileExtension then unzstd c else c)"

definition unpacks :: "log_env \<Rightarrow> (string \<Rightarrow> string) \<Rightarrow> (string \<Rightarrow> string) \<Rightarrow> bool" where
  "unpacks env gunzip unzstd \<longleftrightarrow>
     (\<forall>level pieces z. (le_gzip env level pieces = Some z \<longrightarrow> gunzip z = concat pieces) \<and>
                       (le_zstd env level pieces = Some z \<longrightarrow> unzstd z = concat pieces))"

definition file_history :: "(string \<Rightarrow> string) \<Rightarrow> (string \<Rightarrow> string) \<Rightarrow> string \<Rightarrow> directory \<Rightarrow> string" where
  "file_history gunzip unzstd base d =
     concat (map (\<lambda>(i, n, c). reads gunzip unzstd n c) (rot base d)) @ content_of base d"

lemma concat_gzip_chunks: "0 < n \<Longrightarrow> concat (gzip_chunks n s) = s"
  by (induction n s rule: gzip_chunks.induct) (subst gzip_chunks.simps, simp)

lemma concat_zstd_chunks: "concat (zstd_chunks n s) = s"
  by (induction n s rule: zstd_chunks.induct) (subst zstd_chunks.simps, simp)

lemma reads_plain: "is_digit (last n) \<Longrightarrow> reads gunzip unzstd n c = c"
  using plain_name_last by (simp add: reads_def)

lemma reads_compressed:
  assumes "compressed env s text = Some z" "unpacks env gunzip unzstd"
  shows "reads gunzip unzstd (n @ GetCompressedFileExtension (rf_compression_mode s)) z = text"
proof (cases "rf_compression_mode s = CompressGzip")
  case True
  have "0 < kCompressBufSize" by (simp add: kCompressBufSize_def)
  then show ?thesis using True assms
    by (auto simp: compressed_def GetCompressedFileExtension_def reads_def ends_with_append unpacks_def concat_gzip_chunks)
next
  case False
  have "\<not> ends_with (n @ kZstdFileExtension) kGzipFileExtension"
    using ends_with_last [of "n @ kZstdFileExtension" kGzipFileExtension]
    by (auto simp: kGzipFileExtension_def kZstdFileExtension_def)
  then show ?thesis using False assms
    by (auto simp: compressed_def GetCompressedFileExtension_def reads_def ends_with_append unpacks_def concat_zstd_chunks)
qed

lemma CompressFile_frame:
  assumes "dir_ok (rf_base_file_name s) (rf_dir s)" "rotated s = xs @ [(i, src, c)]" "\<forall>x \<in> set xs. fst x < i"
    and "src = rf_base_file_name s @ ''_'' @ to_string (unat i) @ ts" "name_tail ts"
    and "unpacks env gunzip unzstd" "\<forall>f. le_remove env f"
  shows "\<exists>d n z. CompressFile env src s = s\<lparr>rf_dir := d\<rparr> \<and> dir_ok (rf_base_file_name s) d \<and>
    rot (rf_base_file_name s) d = xs @ [(i, n, z)] \<and> reads gunzip unzstd n z = c \<and>
    content_of (rf_base_file_name s) d = content_of (rf_base_file_name s) (rf_dir s)"
proof -
  let ?base = "rf_base_file_name s" and ?d = "rf_dir s"
  let ?ext = "GetCompressedFileExtension (rf_compression_mode s)"
  let ?dst = "src @ ?ext"
  have keys: "distinct (map fst ?d)" using dir_ok_keys [OF assms(1)] .
  have src: "map_of ?d src = Some c" "ParseRotatedFileIndex src ?base = Some i"
    using set_rot [OF keys, of i src c ?base] assms(2) by simp_all
  have ext: "?ext \<noteq> []" by (simp add: GetCompressedFileExtension_def kGzipFileExtension_def kZstdFileExtension_def)
  have dst: "ParseRotatedFileIndex ?dst ?base = Some i"
    using ParseRotatedFileIndex_name [OF assms(5), of "unat i" ?ext "rf_compression_mode s" ?base] assms(4) unsigned_less [of i] by simp
  have new: "map_of ?d ?dst = None"
  proof (rule ccontr)
    assume "map_of ?d ?dst \<noteq> None"
    then have "?dst = src" using dir_ok_same [OF assms(1) _ src(1) dst src(2)] by blast
    then show False using ext by simp
  qed
  have "is_digit (last src)"
    using assms(4,5) last_digit [OF to_string_digits to_string_not_Nil] by (auto simp: name_tail_def)
  note plain = reads_plain [OF this, of gunzip unzstd c]
  have cont: "content_of src ?d = c" using src by (simp add: content_of_def)
  show ?thesis
  proof (cases "if map_of ?d src = None \<or> \<not> le_open env ?dst then None else compressed env s (content_of src ?d)")
    case None
    have "AList.delete ?dst ?d = ?d" using new by (intro delete_id) (simp add: map_of_eq_None_iff)
    then have "CompressFile env src s = s\<lparr>rf_dir := ?d\<rparr>" using None by (simp add: CompressFile_def Let_def)
    then show ?thesis using assms(1,2) plain by (intro exI [of _ ?d] exI [of _ src] exI [of _ c]) simp
  next
    case (Some z)
    let ?e = "AList.delete src (AList.update ?dst z ?d)"
    have "compressed env s c = Some z" using Some cont by (simp split: if_splits)
    note r = reads_compressed [OF this assms(6), of src]
    have e: "distinct (map fst ?e)" "map_of ?e = (map_of ?d)(src := None, ?dst \<mapsto> z)"
      using keys ext by (auto simp: distinct_delete distinct_update delete_conv' update_conv' fun_eq_iff)
    have "CompressFile env src s = s\<lparr>rf_dir := ?e\<rparr>" using Some assms(7) by (simp add: CompressFile_def Let_def)
    moreover have "?base \<noteq> src" "?base \<noteq> ?dst" using assms(4) by simp_all
    then have "content_of ?base ?e = content_of ?base ?d" by (simp add: content_of_def e(2))
    moreover note rot_replace [OF assms(1) e assms(2) _ dst assms(3) new]
    ultimately show ?thesis using r by (intro exI [of _ ?e] exI [of _ ?dst] exI [of _ z]) simp
  qed
qed

lemma Rename_frame:
  assumes "Rename env s = (None, s')" "dir_ok (rf_base_file_name s) (rf_dir s)"
    and "map_of (rf_dir s) (rf_base_file_name s) = Some c" "\<forall>x \<in> set (rotated s). unat (fst x) < N" "1 \<le> N" "N < 2 ^ 32"
    and "unpacks env gunzip unzstd" "\<forall>f. le_remove env f"
  shows "\<exists>d i n z. s' = s\<lparr>rf_dir := d\<rparr> \<and> dir_ok (rf_base_file_name s) d \<and>
    rot (rf_base_file_name s) d = rotated s @ [(i, n, z)] \<and> unat i \<le> N \<and> reads gunzip unzstd n z = c \<and>
    content_of (rf_base_file_name s) d = []"
proof -
  let ?base = "rf_base_file_name s" and ?i = "GetNextIndex s" and ?n = "rotated_name env s" and ?d = "rf_dir s"
  obtain ts where n: "?n = ?base @ ''_'' @ to_string (unat ?i) @ ts" and ts: "name_tail ts"
    using name_tail_timestamp [of "ro_suffix_with_timestamp (rf_options s)" "le_tm env"] unfolding rotated_name_def by blast
  note keys = dir_ok_keys [OF assms(2)]
  have idx: "\<forall>x \<in> set (rotated s). fst x < ?i" "unat ?i \<le> N" using GetNextIndex_above [OF assms(4,2,5,6)] by simp_all
  have p: "ParseRotatedFileIndex ?n ?base = Some ?i"
    using ParseRotatedFileIndex_name [OF ts, of "unat ?i" "[]" CompressNone ?base] idx(2) assms(6) unfolding n by simp
  have new: "map_of ?d ?n = None"
  proof (rule ccontr)
    assume "map_of ?d ?n \<noteq> None"
    then obtain c where "(?i, ?n, c) \<in> set (rotated s)" using set_rot [OF keys, of ?i ?n _ ?base] p by auto
    then show False using idx(1) by force
  qed
  let ?e = "fs_rename ?base ?n ?d"
  have e: "distinct (map fst ?e)" "map_of ?e = (map_of ?d)(?base := None, ?n \<mapsto> c)"
    using keys assms(3) by (auto simp: fs_rename_def distinct_delete distinct_update delete_conv' update_conv' fun_eq_iff content_of_def)
  have r: "rotated s = rotated s @ []" by simp
  note moved = rot_replace [OF assms(2) e r _ p idx(1) new, simplified]
  have "?n \<noteq> ?base" using n by simp
  then have gone: "content_of ?base ?e = []" by (simp add: content_of_def e(2))
  have "is_digit (last ?n)"
    using n ts last_digit [OF to_string_digits to_string_not_Nil] by (auto simp: name_tail_def split: if_splits)
  note plain = reads_plain [OF this, of gunzip unzstd c]
  let ?s = "s\<lparr>rf_dir := ?e\<rparr>"
  have s': "s' = (if rf_compression_mode s \<noteq> CompressNone then CompressFile env ?n ?s else ?s)"
    using assms(1) by (auto simp: Rename_def Let_def split: if_splits)
  show ?thesis
  proof (cases "rf_compression_mode s = CompressNone")
    case True
    then show ?thesis using s' moved idx(2) plain gone
      by (intro exI [of _ ?e] exI [of _ ?i] exI [of _ ?n] exI [of _ c]) simp
  next
    case False
    have "\<exists>d n z. CompressFile env ?n ?s = ?s\<lparr>rf_dir := d\<rparr> \<and> dir_ok (rf_base_file_name ?s) d \<and>
        rot (rf_base_file_name ?s) d = rotated s @ [(?i, n, z)] \<and> reads gunzip unzstd n z = c \<and>
        content_of (rf_base_file_name ?s) d = content_of (rf_base_file_name ?s) (rf_dir ?s)"
      by (rule CompressFile_frame [OF _ _ idx(1) _ ts assms(7,8)]) (use moved n in simp_all)
    then show ?thesis using s' False idx(2) gone by auto
  qed
qed

text \<open>A new file: the old one may have been renamed, and the oldest may have gone.\<close>

lemma OpenNewFile_frame:
  assumes "OpenNewFile env s = (Inr True, s')" "dir_ok (rf_base_file_name s) (rf_dir s)"
    and "\<forall>x \<in> set (rotated s). unat (fst x) < N" "1 \<le> N" "N < 2 ^ 32" "unpacks env gunzip unzstd" "\<forall>f. le_remove env f"
  shows "\<exists>d rs k. s' = s\<lparr>rf_open := True, rf_dir := d\<rparr> \<and> dir_ok (rf_base_file_name s) d \<and>
    rot (rf_base_file_name s) d = drop k (rotated s @ rs) \<and> (\<forall>x \<in> set rs. unat (fst x) \<le> N) \<and> length rs \<le> 1 \<and>
    (let n = unat (ro_max_file_num (rf_options s)) in if n = 0 then k = 0 else k = length (rotated s @ rs) - n) \<and>
    concat (map (\<lambda>(i, n, c). reads gunzip unzstd n c) rs) @ content_of (rf_base_file_name s) d =
      content_of (rf_base_file_name s) (rf_dir s) \<and>
    (rf_open s \<and> too_large s \<longrightarrow> content_of (rf_base_file_name s) d = [])"
proof -
  let ?base = "rf_base_file_name s" and ?s = "s\<lparr>rf_open := False\<rparr>"
  let ?rename = "rf_open s \<and> too_large s \<and> map_of (rf_dir s) ?base \<noteq> None"
  have large: "map_of (rf_dir s) ?base \<noteq> None" if "too_large s"
    using that by (auto simp: too_large_def content_of_def split: option.splits)
  obtain s1 where s1: "(if ?rename then Rename env ?s else (None, ?s)) = (None, s1)"
    "CleanLogFile env (s1\<lparr>rf_open := True, rf_dir := fs_append ?base [] (rf_dir s1)\<rparr>) = (None, s')"
    using assms(1) by (auto simp: OpenNewFile_def Let_def split: prod.splits option.splits if_splits)
  have "\<exists>d rs. s1 = ?s\<lparr>rf_dir := d\<rparr> \<and> dir_ok ?base d \<and> rot ?base d = rotated s @ rs \<and> (\<forall>x \<in> set rs. unat (fst x) \<le> N) \<and> length rs \<le> 1 \<and>
      concat (map (\<lambda>(i, n, c). reads gunzip unzstd n c) rs) @ content_of ?base d = content_of ?base (rf_dir s) \<and>
      (?rename \<longrightarrow> content_of ?base d = [])"
  proof (cases ?rename)
    case True
    then obtain c where c: "map_of (rf_dir ?s) (rf_base_file_name ?s) = Some c" by auto
    have "Rename env ?s = (None, s1)" using s1(1) True by simp
    then have "\<exists>d i n z. s1 = ?s\<lparr>rf_dir := d\<rparr> \<and> dir_ok (rf_base_file_name ?s) d \<and>
        rot (rf_base_file_name ?s) d = rotated ?s @ [(i, n, z)] \<and> unat i \<le> N \<and> reads gunzip unzstd n z = c \<and>
        content_of (rf_base_file_name ?s) d = []"
      by (rule Rename_frame [OF _ _ c _ assms(4-7)]) (use assms(2,3) in simp_all)
    then obtain d i n z where r: "s1 = ?s\<lparr>rf_dir := d\<rparr>" "dir_ok ?base d" "rot ?base d = rotated s @ [(i, n, z)]" "unat i \<le> N"
      "reads gunzip unzstd n z = c" "content_of ?base d = []" by auto
    then show ?thesis using c by (intro exI [of _ d] exI [of _ "[(i, n, z)]"]) (simp add: content_of_def)
  next
    case False
    then have "s1 = ?s\<lparr>rf_dir := rf_dir s\<rparr>" using s1(1) by auto
    then show ?thesis using assms(2) False by (intro exI [of _ "rf_dir s"] exI [of _ "[]"]) auto
  qed
  then obtain d rs where d: "s1 = ?s\<lparr>rf_dir := d\<rparr>" "dir_ok ?base d" "rot ?base d = rotated s @ rs" "\<forall>x \<in> set rs. unat (fst x) \<le> N"
    "length rs \<le> 1" "concat (map (\<lambda>(i, n, c). reads gunzip unzstd n c) rs) @ content_of ?base d = content_of ?base (rf_dir s)"
    "?rename \<longrightarrow> content_of ?base d = []" by blast
  note e = fs_append_frame [OF d(2), of "[]"]
  define t where "t = s1\<lparr>rf_open := True, rf_dir := fs_append ?base [] (rf_dir s1)\<rparr>"
  have t: "rf_base_file_name t = ?base" "rf_options t = rf_options s" "rf_dir t = fs_append ?base [] d"
    "t\<lparr>rf_dir := x\<rparr> = s\<lparr>rf_open := True, rf_dir := x\<rparr>" for x using d(1) by (simp_all add: t_def)
  have "dir_ok (rf_base_file_name t) (rf_dir t)" using t e by simp
  from CleanLogFile_None [OF s1(2) [folded t_def] this] obtain k d2 where k: "s' = s\<lparr>rf_open := True, rf_dir := d2\<rparr>"
    "dir_ok ?base d2" "rot ?base d2 = drop k (rotated s @ rs)" "content_of ?base d2 = content_of ?base d"
    "let n = unat (ro_max_file_num (rf_options s)) in if n = 0 then k = 0 else k = length (rotated s @ rs) - n"
    unfolding t e(2) d(3) e(3) append_Nil2 by blast
  then show ?thesis using d large by (intro exI [of _ d2] exI [of _ rs] exI [of _ k]) auto
qed

text \<open>One line: it is the last of the history, which may lose a beginning.\<close>

lemma log_work_frame:
  assumes "log_work env line s = (None, s')" "dir_ok (rf_base_file_name s) (rf_dir s)" "\<forall>f. le_open env f"
    and "\<forall>x \<in> set (rotated s). unat (fst x) < N" "1 \<le> N" "N < 2 ^ 32" "unpacks env gunzip unzstd" "\<forall>f. le_remove env f"
  shows "\<exists>d. s' = s\<lparr>rf_open := True, rf_dir := d\<rparr> \<and> dir_ok (rf_base_file_name s) d \<and>
    (\<forall>x \<in> set (rot (rf_base_file_name s) d). unat (fst x) < N + 1) \<and>
    suffix (file_history gunzip unzstd (rf_base_file_name s) d)
      (file_history gunzip unzstd (rf_base_file_name s) (rf_dir s) @ line @ line_end) \<and>
    (let n = unat (ro_max_file_num (rf_options s)) in
       if n = 0 then file_history gunzip unzstd (rf_base_file_name s) d =
         file_history gunzip unzstd (rf_base_file_name s) (rf_dir s) @ line @ line_end
       else (rf_open s \<longrightarrow> length (rotated s) \<le> n) \<longrightarrow> length (rot (rf_base_file_name s) d) \<le> n) \<and>
    (rf_open s \<longrightarrow> length (content_of (rf_base_file_name s) d) \<le>
       unat (ro_max_file_size_m (rf_options s) * 1024 * 1024) + length line + 1) \<and>
    (length (rotated s) < unat (ro_max_file_num (rf_options s)) \<longrightarrow>
       file_history gunzip unzstd (rf_base_file_name s) d =
         file_history gunzip unzstd (rf_base_file_name s) (rf_dir s) @ line @ line_end) \<and>
    length (rot (rf_base_file_name s) d) \<le> length (rotated s) + 1 \<and>
    suffix (line @ line_end) (content_of (rf_base_file_name s) d)"
proof (cases "\<not> rf_open s \<or> too_large s")
  case True
  let ?base = "rf_base_file_name s"
  obtain s1 where s1: "OpenNewFile env s = (Inr True, s1)"
    "s' = s1\<lparr>rf_dir := fs_append (rf_base_file_name s1) (line @ line_end) (rf_dir s1)\<rparr>"
    using assms(1,3) True
    by (auto simp: log_work_def OpenNewFile_def Let_def split: prod.splits sum.splits bool.splits option.splits if_splits)
  from OpenNewFile_frame [OF s1(1) assms(2,4-8)] obtain d rs k where
    d: "s1 = s\<lparr>rf_open := True, rf_dir := d\<rparr>" "dir_ok ?base d" "rot ?base d = drop k (rotated s @ rs)"
    "\<forall>x \<in> set rs. unat (fst x) \<le> N" "length rs \<le> 1"
    "let n = unat (ro_max_file_num (rf_options s)) in if n = 0 then k = 0 else k = length (rotated s @ rs) - n"
    "concat (map (\<lambda>(i, n, c). reads gunzip unzstd n c) rs) @ content_of ?base d = content_of ?base (rf_dir s)"
    "rf_open s \<and> too_large s \<longrightarrow> content_of ?base d = []" by blast
  let ?d = "fs_append ?base (line @ line_end) d" and ?r = "\<lambda>(i, n, c). reads gunzip unzstd n c"
  note e = fs_append_frame [OF d(2), of "line @ line_end"]
  have small: "\<forall>x \<in> set (rot ?base ?d). unat (fst x) < N + 1"
    using assms(4) d(3,4) e(2) by (fastforce dest: in_set_dropD)
  have old: "file_history gunzip unzstd ?base (rf_dir s) @ line @ line_end =
      concat (map ?r (rotated s @ rs)) @ content_of ?base d @ line @ line_end"
    using d(7) by (simp add: file_history_def)
  have new: "file_history gunzip unzstd ?base ?d = concat (map ?r (drop k (rotated s @ rs))) @ content_of ?base d @ line @ line_end"
    by (simp add: file_history_def e d(3))
  have "concat (map ?r (rotated s @ rs)) =
      concat (map ?r (take k (rotated s @ rs))) @ concat (map ?r (drop k (rotated s @ rs)))"
    by (metis append_take_drop_id concat_append map_append)
  then have suf: "suffix (file_history gunzip unzstd ?base ?d) (file_history gunzip unzstd ?base (rf_dir s) @ line @ line_end)"
    unfolding old new by (simp add: suffix_def)
  show ?thesis
  proof (intro exI [of _ ?d] conjI)
    show "s' = s\<lparr>rf_open := True, rf_dir := ?d\<rparr>" by (simp add: s1(2) d(1))
    show "let n = unat (ro_max_file_num (rf_options s)) in
       if n = 0 then file_history gunzip unzstd ?base ?d = file_history gunzip unzstd ?base (rf_dir s) @ line @ line_end
       else (rf_open s \<longrightarrow> length (rotated s) \<le> n) \<longrightarrow> length (rot ?base ?d) \<le> n"
      unfolding old new using d(6) by (auto simp: Let_def e(2) d(3))
    show "rf_open s \<longrightarrow> length (content_of ?base ?d) \<le> unat (ro_max_file_size_m (rf_options s) * 1024 * 1024) + length line + 1"
      using True d(8) e(3) by (auto simp: line_end_def)
    show "length (rotated s) < unat (ro_max_file_num (rf_options s)) \<longrightarrow>
        file_history gunzip unzstd ?base ?d = file_history gunzip unzstd ?base (rf_dir s) @ line @ line_end"
      unfolding old new using d(5,6) by (auto simp: Let_def split: if_splits)
    show "length (rot ?base ?d) \<le> length (rotated s) + 1" using d(5) by (simp add: e(2) d(3))
    show "suffix (line @ line_end) (content_of ?base ?d)" by (simp add: e(3) suffix_def)
  qed (use e(1) small suf in simp_all)
next
  case False
  let ?base = "rf_base_file_name s" and ?d = "fs_append (rf_base_file_name s) (line @ line_end) (rf_dir s)"
  note e = fs_append_frame [OF assms(2), of "line @ line_end"]
  have s': "s' = s\<lparr>rf_dir := ?d\<rparr>" "rf_open s" "\<not> too_large s" using assms(1) False by (auto simp: log_work_def)
  have "s\<lparr>rf_dir := ?d\<rparr> = s\<lparr>rf_open := True, rf_dir := ?d\<rparr>" using s'(2) by (cases s) simp
  moreover have "file_history gunzip unzstd ?base ?d = file_history gunzip unzstd ?base (rf_dir s) @ line @ line_end"
    by (simp add: file_history_def e)
  moreover have "\<forall>x \<in> set (rotated s). unat (fst x) < N + 1" using assms(4) by fastforce
  ultimately show ?thesis using s' e by (intro exI [of _ ?d]) (auto simp: Let_def too_large_def line_end_def suffix_def)
qed

fun log_works :: "(log_env \<times> string) list \<Rightarrow> rotate_file \<Rightarrow> (rotate_error, rotate_file) outcome" where
  "log_works [] s = (None, s)"
| "log_works ((env, line) # ws) s =
     (case log_work env line s of (Some e, s) \<Rightarrow> (Some e, s) | (None, s) \<Rightarrow> log_works ws s)"

definition env_ok :: "(string \<Rightarrow> string) \<Rightarrow> (string \<Rightarrow> string) \<Rightarrow> log_env \<Rightarrow> bool" where
  "env_ok gunzip unzstd env \<longleftrightarrow> (\<forall>f. le_open env f) \<and> (\<forall>f. le_remove env f) \<and> unpacks env gunzip unzstd"

lemma log_works_history:
  assumes "log_works ws s = (None, s')" "ws \<noteq> []" "\<not> rf_open s" "dir_ok (rf_base_file_name s) (rf_dir s)"
    and "\<forall>(env, _) \<in> set ws. env_ok gunzip unzstd env"
    and "\<forall>x \<in> set (rotated s). unat (fst x) < N" "1 \<le> N" "N + length ws \<le> 2 ^ 32"
  shows "suffix (file_history gunzip unzstd (rf_base_file_name s) (rf_dir s'))
      (file_history gunzip unzstd (rf_base_file_name s) (rf_dir s) @ concat (map (\<lambda>(_, line). line @ line_end) ws)) \<and>
    (let n = unat (ro_max_file_num (rf_options s)) in
       if n = 0 then file_history gunzip unzstd (rf_base_file_name s) (rf_dir s') =
         file_history gunzip unzstd (rf_base_file_name s) (rf_dir s) @ concat (map (\<lambda>(_, line). line @ line_end) ws)
       else length (rot (rf_base_file_name s) (rf_dir s')) \<le> n)"
proof -
  let ?n = "unat (ro_max_file_num (rf_options s))" and ?base = "rf_base_file_name s"
  let ?lines = "\<lambda>ws :: (log_env \<times> string) list. concat (map (\<lambda>(_, line). line @ line_end) ws)"
  let ?h = "file_history gunzip unzstd ?base"
  have "suffix (?h (rf_dir s')) (?h (rf_dir t) @ ?lines ws) \<and>
      (if ?n = 0 then ?h (rf_dir s') = ?h (rf_dir t) @ ?lines ws else ws = [] \<or> length (rot ?base (rf_dir s')) \<le> ?n)"
    if "log_works ws t = (None, s')" "dir_ok ?base (rf_dir t)" "\<forall>x \<in> set (rot ?base (rf_dir t)). unat (fst x) < N"
      "1 \<le> N" "N + length ws \<le> 2 ^ 32" "rf_base_file_name t = ?base" "rf_options t = rf_options s"
      "rf_open t \<and> ?n \<noteq> 0 \<longrightarrow> length (rot ?base (rf_dir t)) \<le> ?n" "\<forall>(env, _) \<in> set ws. env_ok gunzip unzstd env" for t
    using that
  proof (induction ws arbitrary: t N)
    case (Cons w ws)
    obtain env line where w: "w = (env, line)" by fastforce
    then obtain t1 where t1: "log_work env line t = (None, t1)" "log_works ws t1 = (None, s')"
      using Cons.prems(1) by (auto split: prod.splits option.splits)
    have env: "\<forall>f. le_open env f" "\<forall>f. le_remove env f" "unpacks env gunzip unzstd"
      using Cons.prems(9) w by (auto simp: env_ok_def)
    have "N < 2 ^ 32" using Cons.prems(5) by simp
    from log_work_frame [OF t1(1) _ env(1) _ Cons.prems(4) this env(3,2)] Cons.prems(2,3) obtain d where
      d: "t1 = t\<lparr>rf_open := True, rf_dir := d\<rparr>" "dir_ok ?base d" "\<forall>x \<in> set (rot ?base d). unat (fst x) < N + 1"
      "suffix (?h d) (?h (rf_dir t) @ line @ line_end)" "?n = 0 \<longrightarrow> ?h d = ?h (rf_dir t) @ line @ line_end"
      "?n \<noteq> 0 \<longrightarrow> length (rot ?base d) \<le> ?n"
      unfolding Cons.prems(6,7) Let_def using Cons.prems(8) by (metis (no_types, lifting))
    have ih: "suffix (?h (rf_dir s')) (?h d @ ?lines ws) \<and>
        (if ?n = 0 then ?h (rf_dir s') = ?h d @ ?lines ws else ws = [] \<or> length (rot ?base (rf_dir s')) \<le> ?n)"
      using Cons.IH [OF t1(2), of "N + 1"] d Cons.prems(4-7,9) by simp
    have "suffix (?h d @ ?lines ws) (?h (rf_dir t) @ ?lines (w # ws))" using d(4) w by (auto simp: suffix_def)
    moreover have "ws = [] \<Longrightarrow> rf_dir s' = d" using t1(2) arg_cong [OF d(1), of rf_dir] by simp
    ultimately show ?case using ih d(5,6) w by (auto intro: suffix_order.trans)
  qed simp
  from this [of s] show ?thesis using assms by (auto simp: Let_def split: if_splits)
qed

text \<open>
  C22. Rotation neither loses nor reorders lines: behind any number of lines the files, unpacked
  and read from the lowest index to the open one, are the old contents followed by those lines,
  less a beginning; nothing is missing when the number of files is not limited, and there are never
  more rotated files than the limit. Names with or without time, and whether or not a compression
  succeeds, make no difference.
\<close>

theorem rotation_keeps_order:
  assumes "log_works ws s = (None, s')" "ws \<noteq> []" "\<not> rf_open s" "dir_ok (rf_base_file_name s) (rf_dir s)"
    and "\<forall>(env, _) \<in> set ws. env_ok gunzip unzstd env"
    and "\<forall>x \<in> set (rotated s). unat (fst x) < N" "1 \<le> N" "N + length ws \<le> 2 ^ 32"
  shows "suffix (file_history gunzip unzstd (rf_base_file_name s) (rf_dir s'))
      (file_history gunzip unzstd (rf_base_file_name s) (rf_dir s) @ concat (map (\<lambda>(_, line). line @ line_end) ws)) \<and>
    (let n = unat (ro_max_file_num (rf_options s)) in
       if n = 0 then file_history gunzip unzstd (rf_base_file_name s) (rf_dir s') =
         file_history gunzip unzstd (rf_base_file_name s) (rf_dir s) @ concat (map (\<lambda>(_, line). line @ line_end) ws)
       else length (rot (rf_base_file_name s) (rf_dir s')) \<le> n)"
  by (rule log_works_history [OF assms])

text \<open>
  An open file never exceeds the limit by more than its last line. But the limit is a product of
  32-bit numbers: from 4096 megabytes on it wraps, and every line gets a file of its own.
\<close>

lemma limit_wraps:
  assumes "ro_max_file_size_m (rf_options s) = 4096" "content_of (rf_base_file_name s) (rf_dir s) \<noteq> []"
  shows "too_large s"
  using assms by (simp add: too_large_def)

text \<open>
  With \<open>enable_sync\<close> the timer may come before the first line, or after a file could not be
  opened: the null file is handed to \<open>fileno\<close>.
\<close>

lemma sync_before_first_line:
  assumes "rf_Initialize env get_executor (Some node) (new_rotate_file d) = (None, s)"
  shows "rf_sync_work s = None"
proof -
  have "rf_open s = False"
    using assms by (auto simp: rf_Initialize_def rf_set_sync_def new_rotate_file_def Let_def split: option.splits if_splits prod.splits sum.splits)
  then show ?thesis by (simp add: rf_sync_work_def)
qed

section \<open>Example\<close>

definition demo_log_env :: log_env where
  "demo_log_env = \<lparr>le_mkdir = \<lambda>_. True, le_open = \<lambda>_. True, le_rename = \<lambda>_ _. True, le_remove = \<lambda>_. True, le_gzip = \<lambda>_ _. None,
     le_zstd = \<lambda>_ _. None, le_zstd_default = 3, le_zstd_in_size = 8, le_tm = demo_tm, le_loc = \<lambda>_. demo_tm, le_regex = \<lambda>_ _. Some True\<rparr>"

text \<open>A limit of nothing, and of one rotated file.\<close>

definition demo_rotate :: rotate_file where
  "demo_rotate = (new_rotate_file [])\<lparr>rf_base_file_name := ''l/a'', rf_run_flag := True, rf_compression_mode := CompressGzip,
     rf_options := default_rotate_options\<lparr>ro_max_file_size_m := 0, ro_max_file_num := 1, ro_suffix_with_timestamp := False\<rparr>\<rparr>"

lemma demo_rotates:
  "log_works [(demo_log_env, ''x''), (demo_log_env, ''y''), (demo_log_env, ''z'')] demo_rotate =
     (None, demo_rotate\<lparr>rf_open := True, rf_dir := [(''l/a_2'', ''y'' @ line_end), (''l/a'', ''z'' @ line_end)]\<rparr>)"
  by code_simp

theorem rotation_keeps_order_witness:
  "\<exists>s'. log_works [(demo_log_env, ''x''), (demo_log_env, ''y''), (demo_log_env, ''z'')] demo_rotate = (None, s') \<and>
    suffix (file_history id id ''l/a'' (rf_dir s')) (''x'' @ line_end @ ''y'' @ line_end @ ''z'' @ line_end) \<and>
    length (rot ''l/a'' (rf_dir s')) \<le> 1"
proof -
  let ?s = "demo_rotate\<lparr>rf_open := True, rf_dir := [(''l/a_2'', ''y'' @ line_end), (''l/a'', ''z'' @ line_end)]\<rparr>"
  have s: "\<not> rf_open demo_rotate" "rf_base_file_name demo_rotate = ''l/a''" "rf_dir demo_rotate = []"
    "unat (ro_max_file_num (rf_options demo_rotate)) = 1"
    by (simp_all add: demo_rotate_def new_rotate_file_def)
  have env: "env_ok id id demo_log_env" by (simp add: env_ok_def unpacks_def demo_log_env_def)
  have h: "rot base [] = []" "dir_ok base []" "file_history id id base [] = []" for base
    by (simp_all add: rot_def dir_ok_def file_history_def content_of_def List.map_filter_simps)
  from rotation_keeps_order [OF demo_rotates _ s(1), of id id 1] s env h demo_rotates show ?thesis by auto
qed

end
