(* ===== verification/LoggerManager.thy ===== *)
theory LoggerManager
  imports RotateFile
begin

text \<open>
  \<open>src/runtime/core/logger/logger_manager.cc\<close>, \<open>logger_proxy.h\<close> and \<open>console_logger_backend.cc\<close>:
  the loggers of the modules with their levels, the backends made from the configuration, and the
  way of a line from a logger through the backends to the log executor, which runs the posted work
  in order. Backends of plugins are a parameter.
\<close>

section \<open>The console\<close>

record console_options =
  co_print_color :: bool
  co_module_filter :: string
  co_pattern :: string

definition default_console_options :: console_options where
  "default_console_options = \<lparr>co_print_color = True, co_module_filter = ''(.*)'', co_pattern = []\<rparr>"

record console_node =
  cn_is_map :: bool
  cn_color :: "bool option"
  cn_module_filter :: "string option"
  cn_pattern :: "string option"

definition cb_encode :: "console_options \<Rightarrow> console_node" where
  "cb_encode rhs = \<lparr>cn_is_map = True, cn_color = Some (co_print_color rhs),
     cn_module_filter = Some (co_module_filter rhs), cn_pattern = Some (co_pattern rhs)\<rparr>"

definition cb_decode :: "console_node \<Rightarrow> console_options \<Rightarrow> console_options option" where
  "cb_decode node rhs =
     (if \<not> cn_is_map node then None
      else Some \<lparr>co_print_color = or_keep (cn_color node) (co_print_color rhs),
                 co_module_filter = or_keep (cn_module_filter node) (co_module_filter rhs),
                 co_pattern = or_keep (cn_pattern node) (co_pattern rhs)\<rparr>)"

lemma cb_decode_encode: "cb_decode (cb_encode rhs) opts = Some rhs"
  by (simp add: cb_decode_def cb_encode_def or_keep_def)

text \<open>\<open>cb_out\<close> is what was written to the standard output.\<close>

record console_backend =
  cb_options :: console_options
  cb_run_flag :: bool
  cb_module_filter_map :: "(string \<times> bool) list"
  cb_formatter :: log_formatter
  cb_pattern :: string
  cb_out :: string

definition new_console_backend :: console_backend where
  "new_console_backend = \<lparr>cb_options = default_console_options, cb_run_flag = False, cb_module_filter_map = [],
     cb_formatter = new_log_formatter, cb_pattern = ''[%c.%f][%l][%t][%n][%g:%R @%F]%v'', cb_out = []\<rparr>"

definition cb_Initialize ::
  "(string \<Rightarrow> bool option) \<Rightarrow> console_node option \<Rightarrow> console_backend \<Rightarrow> (rotate_error, console_backend) outcome" where
  "cb_Initialize get_executor options_node s =
     (case (case options_node of None \<Rightarrow> Some (cb_options s) | Some node \<Rightarrow> cb_decode node default_console_options) of
        None \<Rightarrow> (Some RfBadNode, s)
      | Some opts \<Rightarrow>
          let s = s\<lparr>cb_options := opts\<rparr> in
          if get_executor [] = None then (Some RfNoLogExecutor, s)
          else
            let s = (if co_pattern opts \<noteq> [] then s\<lparr>cb_pattern := co_pattern opts\<rparr> else s) in
            case SetPattern (cb_pattern s) (cb_formatter s) of
              Inl _ \<Rightarrow> (Some RfPattern, s)
            | Inr f \<Rightarrow> (None, s\<lparr>cb_formatter := f, cb_run_flag := True\<rparr>))"

definition cb_CheckLog :: "log_env \<Rightarrow> string \<Rightarrow> console_backend \<Rightarrow> bool \<times> console_backend" where
  "cb_CheckLog env module_name s =
     (case check_log (le_regex env) (co_module_filter (cb_options s)) module_name (cb_module_filter_map s) of
        (if_log, m) \<Rightarrow> (if_log, s\<lparr>cb_module_filter_map := m\<rparr>))"

definition cb_Log :: "log_env \<Rightarrow> log_data \<Rightarrow> console_backend \<Rightarrow> string option \<times> console_backend" where
  "cb_Log env d s =
     (if \<not> cb_run_flag s then (None, s)
      else case cb_CheckLog env (ld_module_name d) s of
        (False, s) \<Rightarrow> (None, s)
      | (True, s) \<Rightarrow> (Some (Format (le_loc env) (cb_formatter s) d), s))"

text \<open>
  The posted work. The table of colours has one entry for every level but \<open>Off\<close>; a line at that
  level reads behind its end (\<open>None\<close>).
\<close>

definition ansi_escape :: "string \<Rightarrow> string" where "ansi_escape s = CHR 0x1B # ''['' @ s @ ''m''"

definition kColorArray :: "string list" where
  "kColorArray = [[], ansi_escape ''0;34'', ansi_escape ''0;32'', ansi_escape ''1;33'', ansi_escape ''0;35'', ansi_escape ''0;31'']"

definition console_text :: "console_options \<Rightarrow> log_level \<Rightarrow> string \<Rightarrow> string option" where
  "console_text opts lvl line =
     (if co_print_color opts then
        if level_num lvl < length kColorArray then
          let colour = kColorArray ! level_num lvl
          in Some ((if colour = [] then line else colour @ line @ ansi_escape ''0'') @ line_end)
        else None
      else Some (line @ line_end))"

definition console_work :: "log_level \<Rightarrow> string \<Rightarrow> console_backend \<Rightarrow> console_backend option" where
  "console_work lvl line s = map_option (\<lambda>t. s\<lparr>cb_out := cb_out s @ t\<rparr>) (console_text (cb_options s) lvl line)"

section \<open>Backends\<close>

datatype 'x logger_backend = ConsoleBackend console_backend | RotateBackend rotate_file | OtherBackend 'x

text \<open>
  What is outside: the reading of a backend's options, the directory of the log files, and the
  backends of plugins.
\<close>

record ('x, 'n) logger_env =
  ge_log :: log_env
  ge_dir :: directory
  ge_as_console :: "'n \<Rightarrow> console_node option"
  ge_as_rotate :: "'n \<Rightarrow> rotate_node option"
  ge_other_type :: "'x \<Rightarrow> string"
  ge_other_duplicates :: "'x \<Rightarrow> bool"
  ge_other_Initialize :: "'n \<Rightarrow> 'x \<Rightarrow> (rotate_error, 'x) outcome"
  ge_other_Start :: "'x \<Rightarrow> 'x"
  ge_other_Shutdown :: "'x \<Rightarrow> 'x"
  ge_other_Log :: "log_data \<Rightarrow> 'x \<Rightarrow> 'x"

fun backend_type :: "('x, 'n) logger_env \<Rightarrow> 'x logger_backend \<Rightarrow> string" where
  "backend_type env (ConsoleBackend b) = ''console''"
| "backend_type env (RotateBackend b) = ''rotate_file''"
| "backend_type env (OtherBackend x) = ge_other_type env x"

fun allow_duplicates :: "('x, 'n) logger_env \<Rightarrow> 'x logger_backend \<Rightarrow> bool" where
  "allow_duplicates env (ConsoleBackend b) = False"
| "allow_duplicates env (RotateBackend b) = True"
| "allow_duplicates env (OtherBackend x) = ge_other_duplicates env x"

fun backend_Initialize ::
  "('x, 'n) logger_env \<Rightarrow> (string \<Rightarrow> bool option) \<Rightarrow> 'n \<Rightarrow> 'x logger_backend \<Rightarrow> (rotate_error, 'x logger_backend) outcome" where
  "backend_Initialize env get_executor node (ConsoleBackend b) =
     (case cb_Initialize get_executor (ge_as_console env node) b of (e, b) \<Rightarrow> (e, ConsoleBackend b))"
| "backend_Initialize env get_executor node (RotateBackend b) =
     (case rf_Initialize (ge_log env) get_executor (ge_as_rotate env node) b of (e, b) \<Rightarrow> (e, RotateBackend b))"
| "backend_Initialize env get_executor node (OtherBackend x) =
     (case ge_other_Initialize env node x of (e, x) \<Rightarrow> (e, OtherBackend x))"

fun backend_Start :: "('x, 'n) logger_env \<Rightarrow> 'x logger_backend \<Rightarrow> 'x logger_backend" where
  "backend_Start env (OtherBackend x) = OtherBackend (ge_other_Start env x)"
| "backend_Start env b = b"

fun backend_Shutdown :: "('x, 'n) logger_env \<Rightarrow> 'x logger_backend \<Rightarrow> 'x logger_backend" where
  "backend_Shutdown env (ConsoleBackend b) = ConsoleBackend (b\<lparr>cb_run_flag := False\<rparr>)"
| "backend_Shutdown env (RotateBackend b) = RotateBackend (rf_Shutdown b)"
| "backend_Shutdown env (OtherBackend x) = OtherBackend (ge_other_Shutdown env x)"

text \<open>What a backend posts to the log executor; the backends of plugins log on their own.\<close>

datatype posted = ConsoleWork log_level string | RotateWork string

fun backend_Log :: "('x, 'n) logger_env \<Rightarrow> log_data \<Rightarrow> 'x logger_backend \<Rightarrow> posted option \<times> 'x logger_backend" where
  "backend_Log env d (ConsoleBackend b) =
     (case cb_Log (ge_log env) d b of (l, b) \<Rightarrow> (map_option (ConsoleWork (ld_lvl d)) l, ConsoleBackend b))"
| "backend_Log env d (RotateBackend b) =
     (case rf_Log (ge_log env) d b of (l, b) \<Rightarrow> (map_option RotateWork l, RotateBackend b))"
| "backend_Log env d (OtherBackend x) = (None, OtherBackend (ge_other_Log env d x))"

section \<open>The manager\<close>

datatype logger_error =
    LmNotPreInit | LmInitTwice | LmNotInit | LmNotStart | LmBadNode | LmBadType string | LmGenFailed string
  | LmDuplicate string | LmBackend rotate_error

record 'n logger_options =
  lo_core_lvl :: log_level
  lo_default_module_lvl :: log_level
  lo_enable_crash_log :: bool
  lo_backends_options :: "(string \<times> 'n) list"

definition default_logger_options :: "'n logger_options" where
  "default_logger_options = \<lparr>lo_core_lvl = LevelInfo, lo_default_module_lvl = LevelInfo, lo_enable_crash_log = False,
     lo_backends_options = []\<rparr>"

text \<open>A backend node without a type does not convert; without options it gets the null node.\<close>

record 'n logger_node =
  mn_is_map :: bool
  mn_core_lvl :: "string option"
  mn_default_module_lvl :: "string option"
  mn_enable_crash_log :: "bool option"
  mn_backends :: "(string option \<times> 'n option) list option"

definition lm_decode :: "'n \<Rightarrow> 'n logger_node \<Rightarrow> 'n logger_options \<Rightarrow> 'n logger_options option" where
  "lm_decode null_node node rhs =
     (if \<not> mn_is_map node then None
      else map_option (\<lambda>bs.
        \<lparr>lo_core_lvl = (case mn_core_lvl node of None \<Rightarrow> lo_core_lvl rhs | Some n \<Rightarrow> GetLogLevelFromName n),
         lo_default_module_lvl = (case mn_default_module_lvl node of None \<Rightarrow> lo_default_module_lvl rhs | Some n \<Rightarrow> GetLogLevelFromName n),
         lo_enable_crash_log = or_keep (mn_enable_crash_log node) (lo_enable_crash_log rhs),
         lo_backends_options = lo_backends_options rhs @ bs\<rparr>)
        (decode_seq (\<lambda>(t, n). map_option (\<lambda>t. (t, or_keep n null_node)) t) (mn_backends node)))"

record logger_proxy =
  lp_module_name :: string
  lp_lvl :: log_level

text \<open>The generators are kept as what they generate, \<open>None\<close> being a null pointer.\<close>

record ('x, 'n) logger_manager =
  lm_options :: "'n logger_options"
  lm_state :: lc_state
  lm_crash_handling :: bool
  lm_get_executor_func :: "(string \<Rightarrow> bool option) option"
  lm_gen_funcs :: "(string \<times> 'x logger_backend option) list"
  lm_backends :: "'x logger_backend list"
  lm_proxies :: "(string \<times> logger_proxy) list"

definition new_logger_manager :: "('x, 'n) logger_manager" where
  "new_logger_manager = \<lparr>lm_options = default_logger_options, lm_state = kPreInit, lm_crash_handling = False,
     lm_get_executor_func = None, lm_gen_funcs = [], lm_backends = [], lm_proxies = []\<rparr>"

definition lm_RegisterGetExecutorFunc ::
  "(string \<Rightarrow> bool option) \<Rightarrow> ('x, 'n) logger_manager \<Rightarrow> (logger_error, ('x, 'n) logger_manager) outcome" where
  "lm_RegisterGetExecutorFunc f s =
     (if lm_state s \<noteq> kPreInit then (Some LmNotPreInit, s) else (None, s\<lparr>lm_get_executor_func := Some f\<rparr>))"

definition RegisterLoggerBackendGenFunc ::
  "string \<Rightarrow> 'x logger_backend option \<Rightarrow> ('x, 'n) logger_manager \<Rightarrow> (logger_error, ('x, 'n) logger_manager) outcome" where
  "RegisterLoggerBackendGenFunc t g s =
     (if lm_state s \<noteq> kPreInit then (Some LmNotPreInit, s)
      else (None, s\<lparr>lm_gen_funcs := emplace t g (lm_gen_funcs s)\<rparr>))"

text \<open>Without a function that finds executors the call of it throws, as when it finds none.\<close>

definition init_logger_backend ::
  "('x, 'n) logger_env \<Rightarrow> string \<times> 'n \<Rightarrow> ('x, 'n) logger_manager \<Rightarrow> (logger_error, ('x, 'n) logger_manager) outcome" where
  "init_logger_backend env = (\<lambda>(t, node) s.
     case map_of (lm_gen_funcs s) t of
       None \<Rightarrow> (Some (LmBadType t), s)
     | Some None \<Rightarrow> (Some (LmGenFailed t), s)
     | Some (Some b) \<Rightarrow>
         if \<not> allow_duplicates env b \<and> (\<exists>b' \<in> set (lm_backends s). backend_type env b' = t) then (Some (LmDuplicate t), s)
         else
           (case backend_Initialize env (or_keep (lm_get_executor_func s) (\<lambda>_. None)) node b of
              (Some e, _) \<Rightarrow> (Some (LmBackend e), s)
            | (None, b) \<Rightarrow> (None, s\<lparr>lm_backends := lm_backends s @ [b]\<rparr>)))"

fun init_logger_backends ::
  "('x, 'n) logger_env \<Rightarrow> (string \<times> 'n) list \<Rightarrow> ('x, 'n) logger_manager \<Rightarrow> (logger_error, ('x, 'n) logger_manager) outcome" where
  "init_logger_backends env [] s = (None, s)"
| "init_logger_backends env (b # bs) s =
     (case init_logger_backend env b s of (Some e, s) \<Rightarrow> (Some e, s) | (None, s) \<Rightarrow> init_logger_backends env bs s)"

text \<open>
  The two built-in generators are registered first, which refuses every second call before the
  state is touched.
\<close>

definition lm_Initialize ::
  "('x, 'n) logger_env \<times> 'n \<times> 'n logger_node option \<Rightarrow> ('x, 'n) logger_manager \<Rightarrow> (logger_error, ('x, 'n) logger_manager) outcome" where
  "lm_Initialize = (\<lambda>(env, null_node, options_node) s.
     case RegisterLoggerBackendGenFunc ''console'' (Some (ConsoleBackend new_console_backend)) s of
       (Some e, s) \<Rightarrow> (Some e, s)
     | (None, s) \<Rightarrow>
         (case RegisterLoggerBackendGenFunc ''rotate_file'' (Some (RotateBackend (new_rotate_file (ge_dir env)))) s of
            (Some e, s) \<Rightarrow> (Some e, s)
          | (None, s) \<Rightarrow>
              let (old, new) = atomic_exchange (lm_state s) kInit; s = s\<lparr>lm_state := new\<rparr> in
              if old \<noteq> kPreInit then (Some LmInitTwice, s)
              else
                (case (case options_node of None \<Rightarrow> Some (lm_options s) | Some node \<Rightarrow> lm_decode null_node node default_logger_options) of
                   None \<Rightarrow> (Some LmBadNode, s)
                 | Some opts \<Rightarrow>
                     (case init_logger_backends env (lo_backends_options opts) (s\<lparr>lm_options := opts\<rparr>) of
                        (Some e, s) \<Rightarrow> (Some e, s)
                      | (None, s) \<Rightarrow> (None, s\<lparr>lm_crash_handling := lo_enable_crash_log opts\<rparr>)))))"

definition lm_Start :: "('x, 'n) logger_env \<Rightarrow> ('x, 'n) logger_manager \<Rightarrow> (logger_error, ('x, 'n) logger_manager) outcome" where
  "lm_Start env s =
     (let (old, new) = atomic_exchange (lm_state s) kStart; s = s\<lparr>lm_state := new\<rparr> in
      if old \<noteq> kInit then (Some LmNotInit, s)
      else (None, s\<lparr>lm_backends := map (backend_Start env) (lm_backends s)\<rparr>))"

definition lm_Shutdown :: "('x, 'n) logger_env \<Rightarrow> ('x, 'n) logger_manager \<Rightarrow> ('x, 'n) logger_manager" where
  "lm_Shutdown env s =
     (let (old, new) = atomic_exchange (lm_state s) kShutdown; s = s\<lparr>lm_state := new\<rparr> in
      if old = kShutdown then s
      else s\<lparr>lm_backends := map (backend_Shutdown env) (lm_backends s), lm_gen_funcs := [], lm_get_executor_func := None\<rparr>)"

lemma init_logger_backend_frame:
  "init_logger_backend env b s = (e, s') \<Longrightarrow> lm_state s' = lm_state s \<and> lm_proxies s' = lm_proxies s \<and> lm_options s' = lm_options s"
  by (auto simp: init_logger_backend_def split: prod.splits option.splits if_splits)

lemma init_logger_backends_frame:
  "init_logger_backends env bs s = (e, s') \<Longrightarrow> lm_state s' = lm_state s \<and> lm_proxies s' = lm_proxies s \<and> lm_options s' = lm_options s"
proof (induction bs arbitrary: s)
  case (Cons b bs)
  then show ?case
    by (cases "init_logger_backend env b s") (auto dest!: init_logger_backend_frame Cons.IH split: option.splits)
qed simp

lemma lm_Initialize_state: "lm_Initialize a s = (e, s') \<Longrightarrow> lm_state s' \<in> {lm_state s, kInit} \<and> (e = None \<longrightarrow> lm_state s = kPreInit \<and> lm_state s' = kInit)"
  by (auto simp: lm_Initialize_def RegisterLoggerBackendGenFunc_def atomic_exchange_def Let_def
      dest!: init_logger_backends_frame split: prod.splits option.splits if_splits)

interpretation lm: lifecycle lm_state lm_Initialize "lm_Start env" "lm_Shutdown env" for env
  by unfold_locales
    (auto dest: lm_Initialize_state simp: lm_Start_def lm_Shutdown_def atomic_exchange_def Let_def split: if_splits)

section \<open>Loggers\<close>

definition GetLoggerProxy_module ::
  "string \<Rightarrow> bool \<Rightarrow> log_level \<Rightarrow> ('x, 'n) logger_manager \<Rightarrow> (logger_error, logger_proxy) result \<times> ('x, 'n) logger_manager" where
  "GetLoggerProxy_module name use_default_log_lvl log_lvl s =
     (if lm_state s \<noteq> kInit then (Inl LmNotInit, s)
      else
        let real_module_name = (if name = [] then ''core'' else name) in
        case map_of (lm_proxies s) real_module_name of
          Some p \<Rightarrow> (Inr p, s)
        | None \<Rightarrow>
            let lvl = (if real_module_name = ''core'' then lo_core_lvl (lm_options s)
                       else if use_default_log_lvl then lo_default_module_lvl (lm_options s) else log_lvl);
                p = \<lparr>lp_module_name = real_module_name, lp_lvl = lvl\<rparr>
            in (Inr p, s\<lparr>lm_proxies := emplace real_module_name p (lm_proxies s)\<rparr>))"

definition GetLoggerProxy ::
  "string \<Rightarrow> ('x, 'n) logger_manager \<Rightarrow> (logger_error, logger_proxy) result \<times> ('x, 'n) logger_manager" where
  "GetLoggerProxy logger_name s =
     (if lm_state s \<noteq> kInit then (Inl LmNotInit, s)
      else
        let real_logger_name = (if logger_name = [] then ''core'' else logger_name) in
        case map_of (lm_proxies s) real_logger_name of
          Some p \<Rightarrow> (Inr p, s)
        | None \<Rightarrow>
            let p = \<lparr>lp_module_name = real_logger_name, lp_lvl = lo_core_lvl (lm_options s)\<rparr>
            in (Inr p, s\<lparr>lm_proxies := emplace real_logger_name p (lm_proxies s)\<rparr>))"

definition GetAllLoggerLevels :: "('x, 'n) logger_manager \<Rightarrow> (logger_error, (string \<times> log_level) list) result" where
  "GetAllLoggerLevels s =
     (if lm_state s \<noteq> kStart then Inl LmNotStart
      else Inr (fold (\<lambda>(n, p) m. emplace n (lp_lvl p) m) (lm_proxies s) []))"

definition SetLoggerLevels ::
  "(string \<times> log_level) list \<Rightarrow> ('x, 'n) logger_manager \<Rightarrow> (logger_error, ('x, 'n) logger_manager) outcome" where
  "SetLoggerLevels lvls s =
     (if lm_state s \<noteq> kStart then (Some LmNotStart, s)
      else (None, s\<lparr>lm_proxies := fold (\<lambda>(n, l) ps.
             case map_of ps n of None \<Rightarrow> ps | Some p \<Rightarrow> AList.update n (p\<lparr>lp_lvl := l\<rparr>) ps) lvls (lm_proxies s)\<rparr>))"

text \<open>\<open>Log\<close> of a logger: below its level nothing happens; otherwise every backend is given the line.\<close>

fun backends_Log ::
  "('x, 'n) logger_env \<Rightarrow> log_data \<Rightarrow> nat \<Rightarrow> 'x logger_backend list \<Rightarrow> (nat \<times> posted) list \<times> 'x logger_backend list" where
  "backends_Log env d i [] = ([], [])"
| "backends_Log env d i (b # bs) =
     (case backend_Log env d b of (w, b) \<Rightarrow>
        (case backends_Log env d (i + 1) bs of (ws, bs) \<Rightarrow> ((case w of None \<Rightarrow> ws | Some w \<Rightarrow> (i, w) # ws), b # bs)))"

definition proxy_Log ::
  "('x, 'n) logger_env \<Rightarrow> logger_proxy \<Rightarrow> log_data \<Rightarrow> ('x, 'n) logger_manager \<Rightarrow> (nat \<times> posted) list \<times> ('x, 'n) logger_manager" where
  "proxy_Log env p d s =
     (if lp_lvl p \<le> ld_lvl d then
        case backends_Log env (d\<lparr>ld_module_name := lp_module_name p\<rparr>) 0 (lm_backends s) of
          (ws, bs) \<Rightarrow> (ws, s\<lparr>lm_backends := bs\<rparr>)
      else ([], s))"

section \<open>Levels\<close>

text \<open>A logger carries the name it is kept under.\<close>

definition proxies_ok :: "('x, 'n) logger_manager \<Rightarrow> bool" where
  "proxies_ok s \<longleftrightarrow> distinct (map fst (lm_proxies s)) \<and> (\<forall>(n, p) \<in> set (lm_proxies s). lp_module_name p = n)"

definition level_of :: "('x, 'n) logger_manager \<Rightarrow> string \<Rightarrow> log_level option" where
  "level_of s n = map_option lp_lvl (map_of (lm_proxies s) n)"

definition override :: "(string \<times> log_level) list \<Rightarrow> (string \<Rightarrow> log_level option) \<Rightarrow> string \<Rightarrow> log_level option" where
  "override lvls levels n =
     (case levels n of None \<Rightarrow> None | Some l \<Rightarrow> Some (case map_of (rev lvls) n of None \<Rightarrow> l | Some l' \<Rightarrow> l'))"

lemma proxies_ok_lookup: "proxies_ok s \<Longrightarrow> map_of (lm_proxies s) n = Some p \<Longrightarrow> lp_module_name p = n"
  by (auto simp: proxies_ok_def dest!: map_of_SomeD)

lemma set_levels_fold:
  fixes lvls :: "(string \<times> log_level) list"
  defines "f \<equiv> (\<lambda>(n, l) ps. case map_of ps n of None \<Rightarrow> ps | Some p \<Rightarrow> AList.update n (p\<lparr>lp_lvl := l\<rparr>) ps)"
  assumes "distinct (map fst ps)" "\<forall>(n, p) \<in> set ps. lp_module_name p = n"
  shows "distinct (map fst (fold f lvls ps)) \<and> (\<forall>(n, p) \<in> set (fold f lvls ps). lp_module_name p = n) \<and>
    map_option lp_lvl (map_of (fold f lvls ps) n) = override lvls (\<lambda>n. map_option lp_lvl (map_of ps n)) n"
  using assms(2,3)
proof (induction lvls arbitrary: ps)
  case Nil
  then show ?case by (simp add: override_def split: option.splits)
next
  case (Cons x lvls)
  obtain k l where x: "x = (k, l)" by fastforce
  let ?ps = "f x ps"
  have d: "distinct (map fst ?ps)" using Cons.prems(1) by (auto simp: f_def x distinct_update split: option.splits)
  have look: "map_option lp_lvl (map_of ?ps m) = override [x] (\<lambda>n. map_option lp_lvl (map_of ps n)) m" for m
    by (auto simp: f_def x override_def update_conv' split: option.splits)
  have "lp_module_name p = m" if "(m, p) \<in> set ?ps" for m p
  proof -
    have m: "map_of ?ps m = Some p" using that d by simp
    show ?thesis
    proof (cases "map_of ps k")
      case None
      then show ?thesis using m Cons.prems by (auto simp: f_def x dest!: map_of_SomeD)
    next
      case (Some q)
      then have "lp_module_name q = k" using Cons.prems by (auto dest!: map_of_SomeD)
      then show ?thesis using m Some Cons.prems by (auto simp: f_def x update_conv' split: if_splits dest!: map_of_SomeD)
    qed
  qed
  then have names: "\<forall>(m, p) \<in> set ?ps. lp_module_name p = m" by blast
  have "override lvls (override [x] g) n = override (x # lvls) g n" for g
    by (auto simp: override_def x map_add_def split: option.splits)
  then show ?case using Cons.IH [OF d names] by (simp add: look)
qed

lemma SetLoggerLevels_levels:
  assumes "proxies_ok s" "SetLoggerLevels lvls s = (None, s')"
  shows "proxies_ok s' \<and> level_of s' = override lvls (level_of s) \<and> lm_backends s' = lm_backends s \<and> lm_state s' = lm_state s"
proof -
  let ?f = "\<lambda>(n, l) ps. case map_of ps n of None \<Rightarrow> ps | Some p \<Rightarrow> AList.update n (p\<lparr>lp_lvl := l\<rparr>) ps"
  have s': "s' = s\<lparr>lm_proxies := fold ?f lvls (lm_proxies s)\<rparr>" using assms(2) by (auto simp: SetLoggerLevels_def split: if_splits)
  show ?thesis using set_levels_fold [of "lm_proxies s" lvls] assms(1)
    unfolding s' proxies_ok_def level_of_def by (auto simp: fun_eq_iff)
qed

text \<open>The level of a new logger.\<close>

lemma GetLoggerProxy_module_level:
  assumes "GetLoggerProxy_module name use_default lvl s = (Inr p, s')" "proxies_ok s" "name \<noteq> []"
  shows "proxies_ok s' \<and> lp_module_name p = name \<and> level_of s' name = Some (lp_lvl p) \<and>
    (level_of s name = None \<longrightarrow> lp_lvl p =
       (if name = ''core'' then lo_core_lvl (lm_options s) else if use_default then lo_default_module_lvl (lm_options s) else lvl))"
proof (cases "map_of (lm_proxies s) name")
  case None
  then have "name \<notin> fst ` set (lm_proxies s)" by (simp add: map_of_eq_None_iff)
  then show ?thesis using assms None
    by (auto simp: GetLoggerProxy_module_def Let_def level_of_def proxies_ok_def emplace_def map_add_def split: if_splits)
next
  case (Some q)
  then show ?thesis using assms proxies_ok_lookup [OF assms(2) Some]
    by (auto simp: GetLoggerProxy_module_def level_of_def split: if_splits)
qed

section \<open>Lines on their way\<close>

text \<open>
  The log executor runs what was posted one after another; between its tasks loggers are used from
  any thread, levels are set and the manager is shut down.
\<close>

datatype log_event =
    EvLog string log_data | EvSetLevels "(string \<times> log_level) list" | EvRun log_env | EvShutdown

datatype work_error = WorkThrew rotate_error | WorkUndefined

record ('x, 'n) logger_world =
  lw_manager :: "('x, 'n) logger_manager"
  lw_queue :: "(nat \<times> posted) list"

definition run_posted ::
  "log_env \<Rightarrow> nat \<times> posted \<Rightarrow> ('x, 'n) logger_manager \<Rightarrow> (work_error, ('x, 'n) logger_manager) outcome" where
  "run_posted renv = (\<lambda>(i, work) s.
     case (work, lm_backends s ! i) of
       (RotateWork line, RotateBackend b) \<Rightarrow>
         (case log_work renv line b of
            (e, b) \<Rightarrow> (map_option WorkThrew e, s\<lparr>lm_backends := (lm_backends s)[i := RotateBackend b]\<rparr>))
     | (ConsoleWork lvl line, ConsoleBackend b) \<Rightarrow>
         (case console_work lvl line b of
            None \<Rightarrow> (Some WorkUndefined, s)
          | Some b \<Rightarrow> (None, s\<lparr>lm_backends := (lm_backends s)[i := ConsoleBackend b]\<rparr>))
     | _ \<Rightarrow> (None, s))"

fun log_event_step ::
  "('x, 'n) logger_env \<Rightarrow> log_event \<Rightarrow> ('x, 'n) logger_world \<Rightarrow> (work_error, ('x, 'n) logger_world) outcome" where
  "log_event_step env (EvLog name d) w =
     (case map_of (lm_proxies (lw_manager w)) name of
        None \<Rightarrow> (None, w)
      | Some p \<Rightarrow>
          (case proxy_Log env p d (lw_manager w) of
             (ws, m) \<Rightarrow> (None, w\<lparr>lw_manager := m, lw_queue := lw_queue w @ ws\<rparr>)))"
| "log_event_step env (EvSetLevels lvls) w = (None, w\<lparr>lw_manager := snd (SetLoggerLevels lvls (lw_manager w))\<rparr>)"
| "log_event_step env (EvRun renv) w =
     (case lw_queue w of
        [] \<Rightarrow> (None, w)
      | x # q \<Rightarrow> (case run_posted renv x (lw_manager w) of (e, m) \<Rightarrow> (e, w\<lparr>lw_manager := m, lw_queue := q\<rparr>)))"
| "log_event_step env EvShutdown w = (None, w\<lparr>lw_manager := lm_Shutdown env (lw_manager w)\<rparr>)"

fun log_events ::
  "('x, 'n) logger_env \<Rightarrow> log_event list \<Rightarrow> ('x, 'n) logger_world \<Rightarrow> (work_error, ('x, 'n) logger_world) outcome" where
  "log_events env [] w = (None, w)"
| "log_events env (ev # evs) w =
     (case log_event_step env ev w of (Some e, w) \<Rightarrow> (Some e, w) | (None, w) \<Rightarrow> log_events env evs w)"

text \<open>
  The lines a backend is to write, told from the events, its module filter and its pattern alone.
\<close>

fun expected_lines ::
  "log_env \<Rightarrow> string \<Rightarrow> string \<Rightarrow> bool \<Rightarrow> (string \<Rightarrow> log_level option) \<Rightarrow> log_event list \<Rightarrow> string list" where
  "expected_lines env flt pattern running levels [] = []"
| "expected_lines env flt pattern running levels (EvLog name d # evs) =
     (case levels name of
        None \<Rightarrow> []
      | Some l \<Rightarrow>
          if running \<and> l \<le> ld_lvl d \<and> le_regex env flt name = Some True
          then [expand_pattern (le_loc env) (d\<lparr>ld_module_name := name\<rparr>) pattern] else []) @
     expected_lines env flt pattern running levels evs"
| "expected_lines env flt pattern running levels (EvSetLevels lvls # evs) =
     expected_lines env flt pattern running (if running then override lvls levels else levels) evs"
| "expected_lines env flt pattern running levels (EvRun renv # evs) = expected_lines env flt pattern running levels evs"
| "expected_lines env flt pattern running levels (EvShutdown # evs) = expected_lines env flt pattern False levels evs"

definition pending :: "nat \<Rightarrow> (nat \<times> posted) list \<Rightarrow> string list" where
  "pending i q = List.map_filter (\<lambda>(j, wk). case wk of RotateWork line \<Rightarrow> if j = i then Some line else None | _ \<Rightarrow> None) q"

lemma pending_append: "pending i (p @ q) = pending i p @ pending i q"
  by (simp add: pending_def List.map_filter_def)

lemma pending_Cons:
  "pending i ((j, RotateWork l) # q) = (if j = i then l # pending i q else pending i q)"
  "pending i ((j, ConsoleWork v l) # q) = pending i q"
  by (simp_all add: pending_def List.map_filter_simps)

text \<open>
  What is on the disk, against what was logged: nothing is missing while the files cannot have
  outgrown their limit \<open>n\<close> (\<open>M\<close> bounds the rotated ones), afterwards a beginning may be.
\<close>

definition keeps :: "nat \<Rightarrow> nat \<Rightarrow> string \<Rightarrow> string \<Rightarrow> bool" where
  "keeps n M a b \<longleftrightarrow> suffix a b \<and> (n = 0 \<or> M \<le> n \<longrightarrow> a = b)"

lemma keeps_append: "keeps n M a b \<Longrightarrow> keeps n M (a @ c) (b @ c)"
  by (auto simp: keeps_def)

lemma keeps_trans: "keeps n M a b \<Longrightarrow> keeps n L b c \<Longrightarrow> L \<le> M \<Longrightarrow> keeps n M a c"
  by (auto simp: keeps_def intro: suffix_order.trans)

lemma keeps_refl [simp]: "keeps n M a a"
  by (simp add: keeps_def)

abbreviation lines :: "string list \<Rightarrow> string" where
  "lines ls \<equiv> concat (map (\<lambda>l. l @ line_end) ls)"

text \<open>
  Of the lines \<open>ls\<close> admitted so far those in \<open>p\<close> still wait; the others are in the history
  \<open>h\<close> behind its old contents, the newest of them in the open file \<open>c\<close>.
\<close>

definition written :: "nat \<Rightarrow> nat \<Rightarrow> string \<Rightarrow> string \<Rightarrow> string list \<Rightarrow> string \<Rightarrow> string list \<Rightarrow> bool" where
  "written n M h c p old ls \<longleftrightarrow>
     (\<exists>ran. ls = ran @ p \<and> keeps n M h (old @ lines ran) \<and> (ran \<noteq> [] \<longrightarrow> suffix (List.last ran @ line_end) c))"

lemma written_start: "written n M h c [] h []"
  by (simp add: written_def)

lemma written_post: "written n M h c p old ls \<Longrightarrow> written n M h c (p @ q) old (ls @ q)"
  by (auto simp: written_def)

lemma written_run:
  assumes "written n L h c (l # p) old ls" "keeps n M h' (h @ l @ line_end)" "L \<le> M" "suffix (l @ line_end) c'"
  shows "written n M h' c' p old ls"
proof -
  obtain ran where ran: "ls = ran @ l # p" "keeps n L h (old @ lines ran)" using assms(1) by (auto simp: written_def)
  have "keeps n M h' (old @ lines (ran @ [l]))"
    using keeps_trans [OF assms(2) keeps_append [OF ran(2), of "l @ line_end"] assms(3)] by simp
  then show ?thesis using ran(1) assms(4) unfolding written_def by (intro exI [of _ "ran @ [l]"]) simp
qed

lemma written_mono: "written n L h c p old ls \<Longrightarrow> L \<le> M \<Longrightarrow> written n M h c p old ls"
  by (force simp: written_def keeps_def)

lemma log_work_written:
  assumes "log_work env line s = (None, s')" "dir_ok (rf_base_file_name s) (rf_dir s)" "env_ok gunzip unzstd env"
    and "\<forall>x \<in> set (rotated s). unat (fst x) < N" "1 \<le> N" "N < 2 ^ 32" "length (rotated s) \<le> M"
  shows "\<exists>d. s' = s\<lparr>rf_open := True, rf_dir := d\<rparr> \<and> dir_ok (rf_base_file_name s) d \<and>
    (\<forall>x \<in> set (rot (rf_base_file_name s) d). unat (fst x) < N + 1) \<and> length (rot (rf_base_file_name s) d) \<le> M + 1 \<and>
    keeps (unat (ro_max_file_num (rf_options s))) (M + 1) (file_history gunzip unzstd (rf_base_file_name s) d)
      (file_history gunzip unzstd (rf_base_file_name s) (rf_dir s) @ line @ line_end) \<and>
    suffix (line @ line_end) (content_of (rf_base_file_name s) d)"
proof -
  have env: "\<forall>f. le_open env f" "unpacks env gunzip unzstd" "\<forall>f. le_remove env f" using assms(3) by (simp_all add: env_ok_def)
  from log_work_frame [OF assms(1,2) env(1) assms(4-6) env(2,3)] obtain d where
    d: "s' = s\<lparr>rf_open := True, rf_dir := d\<rparr>" "dir_ok (rf_base_file_name s) d"
      "\<forall>x \<in> set (rot (rf_base_file_name s) d). unat (fst x) < N + 1"
      "length (rot (rf_base_file_name s) d) \<le> length (rotated s) + 1"
      "suffix (line @ line_end) (content_of (rf_base_file_name s) d)"
    and h: "suffix (file_history gunzip unzstd (rf_base_file_name s) d)
        (file_history gunzip unzstd (rf_base_file_name s) (rf_dir s) @ line @ line_end)"
      "unat (ro_max_file_num (rf_options s)) = 0 \<or> length (rotated s) < unat (ro_max_file_num (rf_options s)) \<longrightarrow>
       file_history gunzip unzstd (rf_base_file_name s) d =
         file_history gunzip unzstd (rf_base_file_name s) (rf_dir s) @ line @ line_end"
    unfolding Let_def by (metis (no_types, lifting))
  have "keeps (unat (ro_max_file_num (rf_options s))) (M + 1) (file_history gunzip unzstd (rf_base_file_name s) d)
      (file_history gunzip unzstd (rf_base_file_name s) (rf_dir s) @ line @ line_end)"
    unfolding keeps_def using h assms(7) by auto
  then show ?thesis using d assms(7) by (intro exI [of _ d]) simp
qed

definition rotate_ready :: "log_env \<Rightarrow> bool \<Rightarrow> rotate_file \<Rightarrow> bool" where
  "rotate_ready env running b \<longleftrightarrow> rf_run_flag b = running \<and>
     (\<forall>loc d. Format loc (rf_formatter b) d = expand_pattern loc d (rf_pattern b)) \<and>
     filter_map_ok (le_regex env) (ro_module_filter (rf_options b)) (rf_module_filter_map b) \<and>
     dir_ok (rf_base_file_name b) (rf_dir b)"

lemma rf_Initialize_ready:
  assumes "rf_Initialize env get_executor node (new_rotate_file d) = (None, b)" "dir_ok (rf_base_file_name b) d"
  shows "rotate_ready env True b \<and> rf_dir b = d \<and> \<not> rf_open b"
proof -
  have s: "rf_run_flag b" "rf_module_filter_map b = []" "rf_dir b = d" "\<not> rf_open b"
    "SetPattern (rf_pattern b) new_log_formatter = Inr (rf_formatter b)"
    using assms(1) by (auto simp: rf_Initialize_def rf_set_sync_def new_rotate_file_def Let_def split: option.splits if_splits prod.splits sum.splits)
  then show ?thesis using SetPattern_expands [OF s(5)] assms(2) by (simp add: rotate_ready_def filter_map_ok_def)
qed

lemma rf_Log_line:
  assumes "rf_Log env d b = (l, b')" "rotate_ready env running b"
  shows "l = (if running \<and> le_regex env (ro_module_filter (rf_options b)) (ld_module_name d) = Some True
      then Some (expand_pattern (le_loc env) d (rf_pattern b)) else None) \<and>
    rotate_ready env running b' \<and> rf_options b' = rf_options b \<and> rf_pattern b' = rf_pattern b \<and>
    rf_base_file_name b' = rf_base_file_name b \<and> rf_dir b' = rf_dir b \<and> rf_open b' = rf_open b"
proof -
  have ok: "filter_map_ok (le_regex env) (ro_module_filter (rf_options b)) (rf_module_filter_map b)"
    using assms(2) by (simp add: rotate_ready_def)
  note c = check_log_filters [OF ok, of "ld_module_name d"]
  show ?thesis using assms c
    by (cases "check_log (le_regex env) (ro_module_filter (rf_options b)) (ld_module_name d) (rf_module_filter_map b)")
      (auto simp: rf_Log_def rf_CheckLog_def rotate_ready_def split: if_splits bool.splits)
qed

lemma pending_none: "\<forall>(j, wk) \<in> set q. j \<noteq> i \<Longrightarrow> pending i q = []"
  by (induction q) (auto simp: pending_def List.map_filter_simps split: posted.splits)

lemma backends_Log_shape:
  "backends_Log env d k bs = (ws, bs') \<Longrightarrow> length bs' = length bs \<and> (\<forall>(j, wk) \<in> set ws. k \<le> j)"
proof (induction bs arbitrary: k ws bs')
  case (Cons x bs)
  obtain w x' where x: "backend_Log env d x = (w, x')" by fastforce
  obtain vs cs where r: "backends_Log env d (k + 1) bs = (vs, cs)" by fastforce
  show ?case using Cons.prems x r Cons.IH [OF r] by (fastforce split: option.splits)
qed simp

lemma backends_Log_at:
  assumes "backends_Log env d k bs = (ws, bs')" "i < length bs" "bs ! i = RotateBackend b"
  shows "bs' ! i = RotateBackend (snd (rf_Log (ge_log env) d b)) \<and>
    pending (k + i) ws = (case fst (rf_Log (ge_log env) d b) of None \<Rightarrow> [] | Some l \<Rightarrow> [l])"
  using assms
proof (induction bs arbitrary: k i ws bs')
  case (Cons x bs)
  obtain w x' where x: "backend_Log env d x = (w, x')" by fastforce
  obtain vs cs where r: "backends_Log env d (k + 1) bs = (vs, cs)" by fastforce
  have ws: "ws = (case w of None \<Rightarrow> vs | Some w \<Rightarrow> (k, w) # vs)" "bs' = x' # cs" using Cons.prems(1) x r by auto
  show ?case
  proof (cases i)
    case 0
    then have "x = RotateBackend b" using Cons.prems(3) by simp
    moreover have "pending k vs = []" using backends_Log_shape [OF r] by (intro pending_none) fastforce
    ultimately show ?thesis using x ws 0 by (auto simp: pending_Cons split: prod.splits option.splits)
  next
    case (Suc j)
    have "pending (k + i) ws = pending (k + 1 + j) vs"
      unfolding ws(1) Suc by (auto simp: pending_def List.map_filter_simps split: option.splits posted.splits)
    then show ?thesis using Cons.IH [OF r, of j] Cons.prems ws(2) Suc by simp
  qed
qed simp

section \<open>From the logger to the file\<close>

definition tracks ::
  "('x, 'n) logger_env \<Rightarrow> (string \<Rightarrow> string) \<Rightarrow> (string \<Rightarrow> string) \<Rightarrow> nat \<Rightarrow> rotate_file \<Rightarrow> nat \<Rightarrow> nat \<Rightarrow> bool \<Rightarrow> string \<Rightarrow> string list \<Rightarrow>
   ('x, 'n) logger_world \<Rightarrow> bool" where
  "tracks env gunzip unzstd i b0 N M running old ls w \<longleftrightarrow>
     (\<exists>b. i < length (lm_backends (lw_manager w)) \<and> lm_backends (lw_manager w) ! i = RotateBackend b \<and>
        rotate_ready (ge_log env) running b \<and> rf_options b = rf_options b0 \<and> rf_pattern b = rf_pattern b0 \<and>
        rf_base_file_name b = rf_base_file_name b0 \<and> (\<forall>x \<in> set (rotated b). unat (fst x) < N) \<and>
        length (rotated b) \<le> M \<and>
        written (unat (ro_max_file_num (rf_options b0))) M (file_history gunzip unzstd (rf_base_file_name b0) (rf_dir b))
          (content_of (rf_base_file_name b0) (rf_dir b)) (pending i (lw_queue w)) old ls) \<and>
     proxies_ok (lw_manager w) \<and> lm_state (lw_manager w) = (if running then kStart else kShutdown)"

lemma tracks_mono: "tracks env gunzip unzstd i b0 N M running old ls w \<Longrightarrow> tracks env gunzip unzstd i b0 (N + 1) (M + 1) running old ls w"
  unfolding tracks_def by (elim conjE exE, intro conjI exI, assumption+) (auto intro: written_mono)

lemma expected_after_shutdown: "expected_lines env flt pattern False levels evs = []"
proof (induction evs)
  case (Cons ev evs)
  then show ?case by (cases ev) (auto split: option.splits)
qed simp

lemma log_step_EvLog:
  assumes "log_event_step env (EvLog name d) w = (None, w')" "tracks env gunzip unzstd i b0 N M running old ls w"
  shows "tracks env gunzip unzstd i b0 N M running old
      (ls @ expected_lines (ge_log env) (ro_module_filter (rf_options b0)) (rf_pattern b0) running
         (level_of (lw_manager w)) [EvLog name d]) w' \<and> level_of (lw_manager w') = level_of (lw_manager w)"
proof -
  let ?m = "lw_manager w"
  obtain b where b: "i < length (lm_backends ?m)" "lm_backends ?m ! i = RotateBackend b" "rotate_ready (ge_log env) running b"
    "rf_options b = rf_options b0" "rf_pattern b = rf_pattern b0" "rf_base_file_name b = rf_base_file_name b0"
    "\<forall>x \<in> set (rotated b). unat (fst x) < N" "length (rotated b) \<le> M"
    "written (unat (ro_max_file_num (rf_options b0))) M (file_history gunzip unzstd (rf_base_file_name b0) (rf_dir b))
       (content_of (rf_base_file_name b0) (rf_dir b)) (pending i (lw_queue w)) old ls"
    and ok: "proxies_ok ?m" "lm_state ?m = (if running then kStart else kShutdown)"
    using assms(2) unfolding tracks_def by blast
  show ?thesis
  proof (cases "map_of (lm_proxies ?m) name")
    case None
    then have "w' = w" "level_of ?m name = None" using assms(1) by (simp_all add: level_of_def)
    then show ?thesis using assms(2) by simp
  next
    case (Some p)
    have lv: "level_of ?m name = Some (lp_lvl p)" "lp_module_name p = name"
      using Some proxies_ok_lookup [OF ok(1)] by (simp_all add: level_of_def)
    let ?d = "d\<lparr>ld_module_name := name\<rparr>"
    show ?thesis
    proof (cases "lp_lvl p \<le> ld_lvl d")
      case False
      then have "w' = w" using assms(1) Some by (simp add: proxy_Log_def)
      then show ?thesis using assms(2) lv False by simp
    next
      case True
      obtain ws bs where l: "backends_Log env ?d 0 (lm_backends ?m) = (ws, bs)" by fastforce
      have w': "w' = w\<lparr>lw_manager := ?m\<lparr>lm_backends := bs\<rparr>, lw_queue := lw_queue w @ ws\<rparr>"
        using assms(1) Some True l lv(2) by (simp add: proxy_Log_def)
      obtain line b' where r: "rf_Log (ge_log env) ?d b = (line, b')" by fastforce
      note at = backends_Log_at [OF l b(1,2)] and fr = rf_Log_line [OF r b(3)]
      have e: "expected_lines (ge_log env) (ro_module_filter (rf_options b0)) (rf_pattern b0) running (level_of ?m) [EvLog name d] =
          pending i ws"
        using at fr r lv True b(4,5) by simp
      show ?thesis unfolding e tracks_def
      proof (intro conjI exI [of _ b'])
        show "written (unat (ro_max_file_num (rf_options b0))) M (file_history gunzip unzstd (rf_base_file_name b0) (rf_dir b'))
            (content_of (rf_base_file_name b0) (rf_dir b')) (pending i (lw_queue w')) old (ls @ pending i ws)"
          using written_post [OF b(9), of "pending i ws"] fr by (simp add: w' pending_append)
      qed (use w' at fr r b ok backends_Log_shape [OF l] in \<open>simp_all add: proxies_ok_def level_of_def fun_eq_iff\<close>)
    qed
  qed
qed

lemma log_step_EvRun:
  assumes "log_event_step env (EvRun renv) w = (None, w')" "tracks env gunzip unzstd i b0 N M running old ls w"
    and "env_ok gunzip unzstd renv" "1 \<le> N" "N < 2 ^ 32"
  shows "tracks env gunzip unzstd i b0 (N + 1) (M + 1) running old ls w' \<and> level_of (lw_manager w') = level_of (lw_manager w)"
proof -
  let ?m = "lw_manager w" and ?base = "rf_base_file_name b0" and ?n = "unat (ro_max_file_num (rf_options b0))"
  obtain b where b: "i < length (lm_backends ?m)" "lm_backends ?m ! i = RotateBackend b" "rotate_ready (ge_log env) running b"
    "rf_options b = rf_options b0" "rf_pattern b = rf_pattern b0" "rf_base_file_name b = ?base"
    "\<forall>x \<in> set (rotated b). unat (fst x) < N" "length (rotated b) \<le> M"
    "written ?n M (file_history gunzip unzstd ?base (rf_dir b)) (content_of ?base (rf_dir b)) (pending i (lw_queue w)) old ls"
    and ok: "proxies_ok ?m" "lm_state ?m = (if running then kStart else kShutdown)"
    using assms(2) unfolding tracks_def by blast
  show ?thesis
  proof (cases "lw_queue w")
    case Nil
    then have "w' = w" using assms(1) by simp
    then show ?thesis using tracks_mono [OF assms(2)] by simp
  next
    case (Cons x q)
    obtain j wk where x: "x = (j, wk)" by fastforce
    obtain m where m: "run_posted renv x ?m = (None, m)" "w' = w\<lparr>lw_manager := m, lw_queue := q\<rparr>"
      using assms(1) Cons by (auto split: prod.splits)
    have same: "lm_proxies m = lm_proxies ?m" "lm_state m = lm_state ?m" "length (lm_backends m) = length (lm_backends ?m)"
      using m(1) by (auto simp: run_posted_def x split: posted.splits logger_backend.splits prod.splits option.splits)
    have lv: "level_of m = level_of ?m" "proxies_ok m" using same(1) ok(1) by (simp_all add: level_of_def proxies_ok_def fun_eq_iff)
    show ?thesis
    proof (cases "j = i \<and> (\<exists>line. wk = RotateWork line)")
      case True
      then obtain line where wk: "wk = RotateWork line" by blast
      obtain b' where l: "log_work renv line b = (None, b')" "m = ?m\<lparr>lm_backends := (lm_backends ?m)[i := RotateBackend b']\<rparr>"
        using m(1) True wk b(2) by (auto simp: run_posted_def x split: prod.splits)
      have ready: "dir_ok (rf_base_file_name b) (rf_dir b)" using b(3) by (simp add: rotate_ready_def)
      from log_work_written [OF l(1) ready assms(3) b(7) assms(4,5) b(8)] obtain d where
        d: "b' = b\<lparr>rf_open := True, rf_dir := d\<rparr>" "dir_ok ?base d" "\<forall>x \<in> set (rot ?base d). unat (fst x) < N + 1"
        "length (rot ?base d) \<le> M + 1"
        "keeps ?n (M + 1) (file_history gunzip unzstd ?base d) (file_history gunzip unzstd ?base (rf_dir b) @ line @ line_end)"
        "suffix (line @ line_end) (content_of ?base d)"
        unfolding b(4,6) by blast
      have "pending i (lw_queue w) = line # pending i q"
        using Cons x wk True by (simp add: pending_Cons)
      with b(9) have k: "written ?n (M + 1) (file_history gunzip unzstd ?base d) (content_of ?base d) (pending i q) old ls"
        using written_run [OF _ d(5) _ d(6)] by simp
      show ?thesis unfolding tracks_def
      proof (intro conjI exI [of _ b'])
        show "rotate_ready (ge_log env) running b'" using b(3,6) d(1,2) by (simp add: rotate_ready_def)
      qed (use m(2) l(2) d b k lv same ok in simp_all)
    next
      case False
      have "pending i (lw_queue w) = pending i q" using False Cons x by (cases wk) (auto simp: pending_Cons)
      moreover have "lm_backends m ! i = RotateBackend b"
        using m(1) False b(1,2)
        by (cases "j = i") (auto simp: run_posted_def x split: posted.splits logger_backend.splits prod.splits option.splits)
      ultimately have "tracks env gunzip unzstd i b0 N M running old ls w'"
        unfolding tracks_def using m(2) b ok same lv by (intro conjI exI [of _ b]) simp_all
      then show ?thesis using tracks_mono m(2) lv(1) by simp
    qed
  qed
qed

lemma log_step_tracks:
  assumes "log_event_step env ev w = (None, w')" "tracks env gunzip unzstd i b0 N M running old ls w"
    and "\<And>renv. ev = EvRun renv \<Longrightarrow> env_ok gunzip unzstd renv" "1 \<le> N" "N < 2 ^ 32"
  shows "\<exists>run'. tracks env gunzip unzstd i b0 (N + 1) (M + 1) run' old
      (ls @ expected_lines (ge_log env) (ro_module_filter (rf_options b0)) (rf_pattern b0) running
         (level_of (lw_manager w)) [ev]) w' \<and>
    (\<forall>evs. expected_lines (ge_log env) flt pattern running (level_of (lw_manager w)) (ev # evs) =
       expected_lines (ge_log env) flt pattern running (level_of (lw_manager w)) [ev] @
       expected_lines (ge_log env) flt pattern run' (level_of (lw_manager w')) evs)"
proof -
  note more = tracks_mono [where w = w']
  show ?thesis
  proof (cases ev)
    case (EvLog name d)
    then show ?thesis using log_step_EvLog [OF assms(1) [unfolded EvLog] assms(2)] more
      by (intro exI [of _ running]) (auto split: option.splits)
  next
    case (EvSetLevels lvls)
    have w': "w' = w\<lparr>lw_manager := snd (SetLoggerLevels lvls (lw_manager w))\<rparr>" using assms(1) EvSetLevels by simp
    show ?thesis
    proof (cases running)
      case True
      then have st: "lm_state (lw_manager w) = kStart" and ok: "proxies_ok (lw_manager w)" using assms(2) by (simp_all add: tracks_def)
      obtain m where m: "SetLoggerLevels lvls (lw_manager w) = (None, m)" using st by (simp add: SetLoggerLevels_def)
      have "tracks env gunzip unzstd i b0 N M running old ls w'"
        using assms(2) SetLoggerLevels_levels [OF ok m] st unfolding tracks_def w' m by simp
      then show ?thesis using more SetLoggerLevels_levels [OF ok m] EvSetLevels True w' m by (intro exI [of _ True]) simp
    next
      case False
      then have "w' = w" using assms(2) w' by (simp add: tracks_def SetLoggerLevels_def)
      then show ?thesis using more assms(2) EvSetLevels False by (intro exI [of _ False]) simp
    qed
  next
    case (EvRun renv)
    then show ?thesis using log_step_EvRun [OF assms(1) [unfolded EvRun] assms(2) assms(3) [OF EvRun] assms(4,5)]
      by (intro exI [of _ running]) simp
  next
    case EvShutdown
    have w': "w' = w\<lparr>lw_manager := lm_Shutdown env (lw_manager w)\<rparr>" using assms(1) EvShutdown by simp
    obtain b where b: "i < length (lm_backends (lw_manager w))" "lm_backends (lw_manager w) ! i = RotateBackend b"
      "rotate_ready (ge_log env) running b" "rf_options b = rf_options b0" "rf_pattern b = rf_pattern b0"
      "rf_base_file_name b = rf_base_file_name b0" "\<forall>x \<in> set (rotated b). unat (fst x) < N" "length (rotated b) \<le> M"
      "written (unat (ro_max_file_num (rf_options b0))) M (file_history gunzip unzstd (rf_base_file_name b0) (rf_dir b))
         (content_of (rf_base_file_name b0) (rf_dir b)) (pending i (lw_queue w)) old ls"
      and ok: "proxies_ok (lw_manager w)" "lm_state (lw_manager w) = (if running then kStart else kShutdown)"
      using assms(2) unfolding tracks_def by blast
    have "tracks env gunzip unzstd i b0 N M False old ls w'"
    proof (cases running)
      case True
      have "rotate_ready (ge_log env) False (rf_Shutdown b)" using b(3) by (simp add: rotate_ready_def rf_Shutdown_def)
      moreover have "rf_dir (rf_Shutdown b) = rf_dir b" "rf_options (rf_Shutdown b) = rf_options b"
        "rf_base_file_name (rf_Shutdown b) = rf_base_file_name b" "rf_pattern (rf_Shutdown b) = rf_pattern b"
        by (simp_all add: rf_Shutdown_def)
      ultimately show ?thesis using b ok True unfolding tracks_def w'
        by (intro conjI exI [of _ "rf_Shutdown b"]) (simp_all add: lm_Shutdown_def atomic_exchange_def proxies_ok_def)
    next
      case False
      then have "w' = w" using ok by (simp add: w' lm.shutdown_again)
      then show ?thesis using assms(2) False by simp
    qed
    then show ?thesis using more EvShutdown by (intro exI [of _ False]) (simp add: expected_after_shutdown)
  qed
qed

lemma log_events_tracks:
  assumes "log_events env evs w = (None, w')" "tracks env gunzip unzstd i b0 N M running old ls w"
    and "\<And>renv. EvRun renv \<in> set evs \<Longrightarrow> env_ok gunzip unzstd renv" "1 \<le> N" "N + length evs \<le> 2 ^ 32"
  shows "\<exists>run'. tracks env gunzip unzstd i b0 (N + length evs) (M + length evs) run' old
      (ls @ expected_lines (ge_log env) (ro_module_filter (rf_options b0)) (rf_pattern b0) running
         (level_of (lw_manager w)) evs) w'"
  using assms
proof (induction evs arbitrary: w N M running ls)
  case (Cons ev evs)
  let ?e = "expected_lines (ge_log env) (ro_module_filter (rf_options b0)) (rf_pattern b0)"
  obtain w1 where w1: "log_event_step env ev w = (None, w1)" "log_events env evs w1 = (None, w')"
    using Cons.prems(1) by (auto split: prod.splits option.splits)
  have "env_ok gunzip unzstd renv" if "ev = EvRun renv" for renv using Cons.prems(3) that by simp
  moreover have "N < 2 ^ 32" using Cons.prems(5) by simp
  ultimately obtain run' where
    r: "tracks env gunzip unzstd i b0 (N + 1) (M + 1) run' old (ls @ ?e running (level_of (lw_manager w)) [ev]) w1"
    "?e running (level_of (lw_manager w)) (ev # evs) =
       ?e running (level_of (lw_manager w)) [ev] @ ?e run' (level_of (lw_manager w1)) evs"
    using log_step_tracks [OF w1(1) Cons.prems(2) _ Cons.prems(4), where flt = "ro_module_filter (rf_options b0)" and pattern = "rf_pattern b0"]
    by blast
  have "N + 1 + length evs \<le> 2 ^ 32" "1 \<le> N + 1" using Cons.prems(5) by simp_all
  with Cons.IH [OF w1(2) r(1)] Cons.prems(3) obtain run2 where
    "tracks env gunzip unzstd i b0 (N + 1 + length evs) (M + 1 + length evs) run2 old
      ((ls @ ?e running (level_of (lw_manager w)) [ev]) @ ?e run' (level_of (lw_manager w1)) evs) w'"
    by auto
  then show ?case using r(2) by (intro exI [of _ run2]) (simp add: add.assoc)
qed auto

text \<open>The backend an entry of the configuration makes.\<close>

lemma init_logger_backends_at:
  assumes "init_logger_backends env bs s = (None, s')" "j < length bs"
  shows "\<exists>b0. map_of (lm_gen_funcs s) (fst (bs ! j)) = Some (Some b0) \<and> length (lm_backends s') = length (lm_backends s) + length bs \<and>
    backend_Initialize env (or_keep (lm_get_executor_func s) (\<lambda>_. None)) (snd (bs ! j)) b0 =
      (None, lm_backends s' ! (length (lm_backends s) + j))"
  using assms
proof (induction bs arbitrary: s j)
  case (Cons x bs)
  obtain t node where x: "x = (t, node)" by fastforce
  obtain s1 where s1: "init_logger_backend env x s = (None, s1)" "init_logger_backends env bs s1 = (None, s')"
    using Cons.prems(1) by (auto split: prod.splits option.splits)
  obtain b0 b where b: "map_of (lm_gen_funcs s) t = Some (Some b0)"
    "backend_Initialize env (or_keep (lm_get_executor_func s) (\<lambda>_. None)) node b0 = (None, b)"
    "s1 = s\<lparr>lm_backends := lm_backends s @ [b]\<rparr>"
    using s1(1) by (auto simp: init_logger_backend_def x split: option.splits prod.splits if_splits)
  have keep: "init_logger_backends env cs u = (None, u') \<Longrightarrow>
      length (lm_backends u') = length (lm_backends u) + length cs \<and> (\<forall>k < length (lm_backends u). lm_backends u' ! k = lm_backends u ! k)"
    for cs u u'
  proof (induction cs arbitrary: u)
    case (Cons y cs)
    obtain u1 where u1: "init_logger_backend env y u = (None, u1)" "init_logger_backends env cs u1 = (None, u')"
      using Cons.prems by (auto split: prod.splits option.splits)
    then obtain c where "u1 = u\<lparr>lm_backends := lm_backends u @ [c]\<rparr>"
      by (auto simp: init_logger_backend_def split: option.splits prod.splits if_splits)
    then show ?case using Cons.IH [OF u1(2)] by (auto simp: nth_append)
  qed simp
  show ?case
  proof (cases j)
    case 0
    then show ?thesis using keep [OF s1(2)] b x by (intro exI [of _ b0]) (auto simp: nth_append)
  next
    case (Suc k)
    then show ?thesis using Cons.IH [OF s1(2), of k] Cons.prems(2) b(3) by auto
  qed
qed simp

lemma configured_rotate_file:
  assumes "lm_Initialize (env, null_node, node) (new_logger_manager\<lparr>lm_get_executor_func := f\<rparr>) = (None, m)"
    and "j < length (lo_backends_options (lm_options m))" "lo_backends_options (lm_options m) ! j = (''rotate_file'', n)"
  shows "\<exists>b. j < length (lm_backends m) \<and> lm_backends m ! j = RotateBackend b \<and> lm_proxies m = [] \<and> lm_state m = kInit \<and>
    rf_Initialize (ge_log env) (or_keep f (\<lambda>_. None)) (ge_as_rotate env n) (new_rotate_file (ge_dir env)) = (None, b)"
proof -
  let ?gens = "[(''console'', Some (ConsoleBackend new_console_backend)), (''rotate_file'', Some (RotateBackend (new_rotate_file (ge_dir env))))]"
  obtain opts s1 where i: "init_logger_backends env (lo_backends_options opts)
      (new_logger_manager\<lparr>lm_get_executor_func := f, lm_gen_funcs := ?gens, lm_state := kInit, lm_options := opts\<rparr>) = (None, s1)"
    "m = s1\<lparr>lm_crash_handling := lo_enable_crash_log opts\<rparr>"
    using assms(1)
    by (auto simp: lm_Initialize_def RegisterLoggerBackendGenFunc_def new_logger_manager_def atomic_exchange_def emplace_def Let_def
        split: option.splits prod.splits if_splits)
  have fr: "lm_state m = kInit" "lm_proxies m = []" "lm_options m = opts"
    using init_logger_backends_frame [OF i(1)] i(2) by (simp_all add: new_logger_manager_def)
  show ?thesis using init_logger_backends_at [OF i(1), of j] assms(2,3) fr i(2)
    by (auto simp: new_logger_manager_def split: prod.splits)
qed

definition get_loggers :: "(string \<times> bool \<times> log_level) list \<Rightarrow> ('x, 'n) logger_manager \<Rightarrow> ('x, 'n) logger_manager" where
  "get_loggers calls s = fold (\<lambda>(name, use_default, lvl) s. snd (GetLoggerProxy_module name use_default lvl s)) calls s"

lemma get_loggers_frame:
  "proxies_ok s \<Longrightarrow> proxies_ok (get_loggers calls s) \<and> lm_backends (get_loggers calls s) = lm_backends s \<and>
    lm_state (get_loggers calls s) = lm_state s"
proof (induction calls arbitrary: s)
  case (Cons c calls)
  obtain name use_default lvl where c: "c = (name, use_default, lvl)" using prod_cases3 by blast
  let ?s = "snd (GetLoggerProxy_module name use_default lvl s)"
  have "proxies_ok ?s \<and> lm_backends ?s = lm_backends s \<and> lm_state ?s = lm_state s"
    using Cons.prems by (auto simp: GetLoggerProxy_module_def Let_def proxies_ok_def emplace_def map_of_eq_None_iff split: option.splits)
  then show ?case using Cons.IH [of ?s] by (simp add: get_loggers_def c)
qed (simp add: get_loggers_def)

text \<open>
  C6. From the configuration to the file: loggers are handed out, the manager is started, and then
  loggers are used, levels set, posted lines run and the manager shut down in any order. The
  admitted lines are those logged before the shutdown at or above the level their logger had at that
  moment and whose module the backend's filter admits, each as the configured pattern reads it, in
  the order they were logged. Once the executor has run everything that was posted, no rotation
  having thrown, the files of a configured backend hold an end of their old contents followed by
  exactly the admitted lines. It is the whole of it when the number of files is not limited
  (\<open>max_file_num\<close> 0), and also with a limit as long as the files that were there and one for
  each event stay within it; beyond that the oldest files may have gone, but the newest line is
  always at the end of the open one.
\<close>

theorem logged_lines_reach_file:
  assumes "lm_Initialize (env, null_node, node) (new_logger_manager\<lparr>lm_get_executor_func := f\<rparr>) = (None, m1)"
    and "j < length (lo_backends_options (lm_options m1))" "lo_backends_options (lm_options m1) ! j = (''rotate_file'', n)"
    and "ge_as_rotate env n = Some rn" "rf_decode rn default_rotate_options = Some opts"
    and "base = path_append (ro_path opts) (ro_filename opts)"
      "pattern = (if ro_pattern opts = [] then ''[%c.%f][%l][%t][%n][%g:%R @%F]%v'' else ro_pattern opts)"
    and "lm_Start env (get_loggers calls m1) = (None, m2)"
    and "log_events env evs \<lparr>lw_manager = m2, lw_queue = []\<rparr> = (None, w)" "lw_queue w = []"
    and "\<And>renv. EvRun renv \<in> set evs \<Longrightarrow> env_ok gunzip unzstd renv"
    and "dir_ok base (ge_dir env)" "\<forall>x \<in> set (rot base (ge_dir env)). unat (fst x) < N" "1 \<le> N" "N + length evs \<le> 2 ^ 32"
    and "ls = expected_lines (ge_log env) (ro_module_filter opts) pattern True (level_of m2) evs"
      "old = file_history gunzip unzstd base (ge_dir env)" "n_max = unat (ro_max_file_num opts)"
  shows "\<exists>b. lm_backends (lw_manager w) ! j = RotateBackend b \<and>
    suffix (file_history gunzip unzstd base (rf_dir b)) (old @ lines ls) \<and>
    (n_max = 0 \<or> length (rot base (ge_dir env)) + length evs \<le> n_max \<longrightarrow>
       file_history gunzip unzstd base (rf_dir b) = old @ lines ls) \<and>
    (ls \<noteq> [] \<longrightarrow> suffix (List.last ls @ line_end) (content_of base (rf_dir b)))"
proof -
  from configured_rotate_file [OF assms(1-3)] obtain b where b: "j < length (lm_backends m1)" "lm_backends m1 ! j = RotateBackend b"
    "lm_proxies m1 = []" "lm_state m1 = kInit"
    "rf_Initialize (ge_log env) (or_keep f (\<lambda>_. None)) (Some rn) (new_rotate_file (ge_dir env)) = (None, b)"
    using assms(4) by auto
  have opts: "rf_options b = opts" "rf_base_file_name b = base" "rf_pattern b = pattern"
    using b(5) assms(5-7)
    by (auto simp: rf_Initialize_def rf_set_sync_def new_rotate_file_def Let_def split: option.splits if_splits prod.splits sum.splits)
  have ready: "rotate_ready (ge_log env) True b" "rf_dir b = ge_dir env" using rf_Initialize_ready [OF b(5)] assms(12) opts by simp_all
  have p: "proxies_ok m1" using b(3) by (simp add: proxies_ok_def)
  note g = get_loggers_frame [OF p, of calls]
  have m2: "m2 = (get_loggers calls m1)\<lparr>lm_state := kStart, lm_backends := map (backend_Start env) (lm_backends m1)\<rparr>"
    using assms(8) g by (auto simp: lm_Start_def atomic_exchange_def Let_def split: if_splits)
  let ?w = "\<lparr>lw_manager = m2, lw_queue = []\<rparr>"
  have "tracks env gunzip unzstd j b N (length (rot base (ge_dir env))) True old [] ?w" unfolding tracks_def
    by (intro conjI exI [of _ b]) (use b(1,2) opts ready assms(13,17) written_start g in \<open>simp_all add: m2 pending_def List.map_filter_simps proxies_ok_def\<close>)
  from log_events_tracks [OF assms(9) this assms(11,14,15)] obtain run' where
    t: "tracks env gunzip unzstd j b (N + length evs) (length (rot base (ge_dir env)) + length evs) run' old ls w"
    using opts assms(16) by auto
  then obtain b' where "lm_backends (lw_manager w) ! j = RotateBackend b'"
    "written n_max (length (rot base (ge_dir env)) + length evs) (file_history gunzip unzstd base (rf_dir b')) (content_of base (rf_dir b'))
       [] old ls"
    using assms(10,18) opts unfolding tracks_def by (auto simp: pending_def List.map_filter_simps)
  then show ?thesis by (intro exI [of _ b']) (auto simp: written_def keeps_def)
qed

section \<open>Example\<close>

definition demo_logger_env :: "(unit, rotate_node) logger_env" where
  "demo_logger_env = \<lparr>ge_log = demo_log_env, ge_dir = [], ge_as_console = \<lambda>_. None, ge_as_rotate = Some, ge_other_type = \<lambda>_. [],
     ge_other_duplicates = \<lambda>_. True, ge_other_Initialize = \<lambda>_ x. (None, x), ge_other_Start = id, ge_other_Shutdown = id,
     ge_other_Log = \<lambda>_ x. x\<rparr>"

definition demo_rotate_node :: rotate_node where
  "demo_rotate_node = rf_encode (default_rotate_options\<lparr>ro_pattern := ''%n %v''\<rparr>)"

definition demo_logger_node :: "rotate_node logger_node" where
  "demo_logger_node = \<lparr>mn_is_map = True, mn_core_lvl = None, mn_default_module_lvl = Some ''warn'', mn_enable_crash_log = None,
     mn_backends = Some [(Some ''console'', None), (Some ''rotate_file'', Some demo_rotate_node)]\<rparr>"

definition demo_logger_manager :: "(unit, rotate_node) logger_manager" where
  "demo_logger_manager = snd (lm_Start demo_logger_env (get_loggers [(''m'', True, LevelInfo)]
     (snd (lm_Initialize (demo_logger_env, demo_rotate_node, Some demo_logger_node)
       (new_logger_manager\<lparr>lm_get_executor_func := Some (\<lambda>_. Some True)\<rparr>)))))"

definition demo_line :: "log_level \<Rightarrow> string \<Rightarrow> log_data" where
  "demo_line lvl text = demo_data\<lparr>ld_lvl := lvl, ld_log_data := text\<rparr>"

definition demo_events :: "log_event list" where
  "demo_events = [EvLog ''m'' (demo_line LevelInfo ''a''), EvLog ''m'' (demo_line LevelWarn ''b''), EvSetLevels [(''m'', LevelInfo)],
     EvLog ''m'' (demo_line LevelInfo ''c''), EvRun demo_log_env, EvShutdown, EvLog ''m'' (demo_line LevelError ''d''),
     EvRun demo_log_env, EvRun demo_log_env, EvRun demo_log_env]"

lemma demo_logger_runs:
  "fst (lm_Initialize (demo_logger_env, demo_rotate_node, Some demo_logger_node)
     (new_logger_manager\<lparr>lm_get_executor_func := Some (\<lambda>_. Some True)\<rparr>)) = None"
  "lo_backends_options (lm_options (snd (lm_Initialize (demo_logger_env, demo_rotate_node, Some demo_logger_node)
     (new_logger_manager\<lparr>lm_get_executor_func := Some (\<lambda>_. Some True)\<rparr>)))) =
     [(''console'', demo_rotate_node), (''rotate_file'', demo_rotate_node)]"
  "fst (lm_Start demo_logger_env (get_loggers [(''m'', True, LevelInfo)]
     (snd (lm_Initialize (demo_logger_env, demo_rotate_node, Some demo_logger_node)
       (new_logger_manager\<lparr>lm_get_executor_func := Some (\<lambda>_. Some True)\<rparr>))))) = None"
  "fst (log_events demo_logger_env demo_events \<lparr>lw_manager = demo_logger_manager, lw_queue = []\<rparr>) = None"
  "lw_queue (snd (log_events demo_logger_env demo_events \<lparr>lw_manager = demo_logger_manager, lw_queue = []\<rparr>)) = []"
  "expected_lines demo_log_env ''(.*)'' ''%n %v'' True (level_of demo_logger_manager) demo_events = [''m b'', ''m c'']"
  by (code_simp, code_simp, code_simp, code_simp, code_simp, code_simp)

theorem logged_lines_reach_file_witness:
  "\<exists>w b. log_events demo_logger_env demo_events \<lparr>lw_manager = demo_logger_manager, lw_queue = []\<rparr> = (None, w) \<and>
    lm_backends (lw_manager w) ! 1 = RotateBackend b \<and>
    file_history id id ''./log/aimrt.log'' (rf_dir b) = ''m b'' @ line_end @ ''m c'' @ line_end \<and>
    suffix (''m c'' @ line_end) (content_of ''./log/aimrt.log'' (rf_dir b))"
proof -
  let ?m0 = "new_logger_manager\<lparr>lm_get_executor_func := Some (\<lambda>_. Some True)\<rparr> :: (unit, rotate_node) logger_manager"
  obtain m1 where m1: "lm_Initialize (demo_logger_env, demo_rotate_node, Some demo_logger_node) ?m0 = (None, m1)"
    "lo_backends_options (lm_options m1) = [(''console'', demo_rotate_node), (''rotate_file'', demo_rotate_node)]"
    using demo_logger_runs(1,2) by (cases "lm_Initialize (demo_logger_env, demo_rotate_node, Some demo_logger_node) ?m0") auto
  obtain m2 where m2: "lm_Start demo_logger_env (get_loggers [(''m'', True, LevelInfo)] m1) = (None, m2)" "demo_logger_manager = m2"
    using demo_logger_runs(3) m1(1) by (cases "lm_Start demo_logger_env (get_loggers [(''m'', True, LevelInfo)] m1)")
      (auto simp: demo_logger_manager_def)
  obtain w where w: "log_events demo_logger_env demo_events \<lparr>lw_manager = m2, lw_queue = []\<rparr> = (None, w)" "lw_queue w = []"
    using demo_logger_runs(4,5) m2(2) by (cases "log_events demo_logger_env demo_events \<lparr>lw_manager = m2, lw_queue = []\<rparr>") auto
  let ?o = "default_rotate_options\<lparr>ro_pattern := ''%n %v''\<rparr>"
  have o: "ge_as_rotate demo_logger_env demo_rotate_node = Some demo_rotate_node" "rf_decode demo_rotate_node default_rotate_options = Some ?o"
    "ge_dir demo_logger_env = []" "ge_log demo_logger_env = demo_log_env"
    by (simp_all add: demo_logger_env_def demo_rotate_node_def rf_decode_encode)
  have p: "''./log/aimrt.log'' = path_append (ro_path ?o) (ro_filename ?o)"
    "''%n %v'' = (if ro_pattern ?o = [] then ''[%c.%f][%l][%t][%n][%g:%R @%F]%v'' else ro_pattern ?o)"
    by (simp_all add: path_append_def default_rotate_options_def)
  have env: "env_ok id id renv" if "EvRun renv \<in> set demo_events" for renv
    using that by (auto simp: demo_events_def env_ok_def unpacks_def demo_log_env_def)
  have e: "rot base [] = []" "dir_ok base []" "file_history id id base [] = []" for base
    by (simp_all add: rot_def dir_ok_def file_history_def content_of_def List.map_filter_simps)
  have "length demo_events = 10" by (simp add: demo_events_def)
  with logged_lines_reach_file [OF m1(1) _ _ o(1,2) p m2(1) w env _ _ _ _ refl refl refl, where N = 1 and j = 1]
  obtain b where "lm_backends (lw_manager w) ! 1 = RotateBackend b"
    "file_history id id ''./log/aimrt.log'' (rf_dir b) = lines [''m b'', ''m c'']"
    "suffix (''m c'' @ line_end) (content_of ''./log/aimrt.log'' (rf_dir b))"
    using m1(2) o(3,4) e demo_logger_runs(6) m2(2) by (auto simp: default_rotate_options_def)
  then show ?thesis using w(1) m2(2) by auto
qed

end
