(* ===== verification/Spec2Isabelle.thy ===== *)
theory Spec2Isabelle
  imports BufferUtil StringUtil StringSearch StringEdit UrlUtil TimeWheel Sync FilterChain
    LocalChannel ChannelManager LocalRpc RpcManager Core ModuleManager
    NetStream MqttRpc ChannelConfig RpcConfig ZenohChannel ZenohRpc TimeManipulator
    LoggerManager
begin

text \<open>
  A verification development for AimRT, a runtime that loads modules and connects them by
  publish-subscribe channels and remote procedure calls.

  \<^bold>\<open>The program.\<close> A core (\<open>runtime/core/aimrt_core.cc\<close>) initialises, starts and shuts down its parts in
  a fixed order with hooks in between. The executor manager makes the configured executors, which
  run tasks; the module manager loads packages of modules and takes them through their life cycle;
  the channel and the rpc side each have a registry of what modules offer, a backend manager that
  routes by configured rules through filters, and backends: the local one inside the process, and
  those of the network plugins, which write packages for another process. Helpers under
  \<open>common/util\<close> and \<open>common/net\<close> serve them all.

  \<^bold>\<open>The theories.\<close>
  \<^item> \<open>Prelude\<close>: outcomes, results, folds over failing steps, collections of hints. \<open>Lifecycle\<close>: the state
    word of managers, executors and backends, and the contract of its three operations (a locale
    that every such component interprets).
  \<^item> \<open>BufferUtil\<close>, \<open>StringUtil\<close>, \<open>StringSearch\<close>, \<open>StringEdit\<close>, \<open>UrlUtil\<close>: \<open>common/util/buffer_util.h\<close>,
    \<open>string_util.h\<close>, \<open>url_encode.h\<close>, \<open>url_parser.h\<close>. Cursors over byte regions with their bounds checks and
    the wrap-around of lengths and addresses; splitting, joining, searching, rewriting; percent
    encoding and urls.
  \<^item> \<open>TimeWheel\<close>, \<open>ThreadExecutor\<close>, \<open>ExecutorManager\<close>: \<open>time_wheel_executor.cc\<close>, \<open>guard_thread_executor.cc\<close>,
    \<open>simple_thread_executor.cc\<close>, \<open>executor_manager.cc\<close>. \<open>Sync\<close>: \<open>dynamic_latch.h\<close>, \<open>block_queue.h\<close>,
    \<open>light_signal.h\<close>, as interleavings of atomic steps.
  \<^item> \<open>FilterChain\<close>, \<open>ChannelMsg\<close>, \<open>Registry\<close>, \<open>LocalChannel\<close>, \<open>ChannelManager\<close>: the filters, message wrappers with
    their serialisation cache, the registries, the local channel backend and the channel backend
    manager. \<open>RpcCall\<close>, \<open>LocalRpc\<close>, \<open>RpcManager\<close>: the same for rpc, where the exchange between client,
    service, timer and shutdown is a step relation.
  \<^item> \<open>BackendConfig\<close>, \<open>ChannelConfig\<close>, \<open>RpcConfig\<close>: \<open>channel_manager.cc\<close>, \<open>rpc_manager.cc\<close> and the handle
    proxies, which turn a configuration into the rules and backends of the backend managers and give
    modules their publishers, subscribers and rpc handles. What the two files share is in the first.
  \<^item> \<open>Frames\<close>, \<open>NetChannel\<close>, \<open>NetStream\<close>, \<open>MqttChannel\<close>, \<open>MqttRpc\<close>: what the network plugins write and read.
    \<open>Frames\<close> gives the byte cursors a stream view, in which a package is a concatenation; the others
    model the tcp and udp channel backends, the tcp session with its sending coroutine, and the
    mqtt channel and rpc backends.
  \<^item> \<open>Zenoh\<close>, \<open>ZenohChannel\<close>, \<open>ZenohRpc\<close>: the plugin's manager and the loop that borrows shared memory
    until a package fits, and the two backends over them. A package a handler is given is a cursor that
    may claim more than was received; a handler that reads bytes which were not received is \<open>None\<close>.
  \<^item> \<open>TimeManipulator\<close>: \<open>time_manipulator_executor.cc\<close> and its service, a second time wheel whose clock can
    be slowed down, sped up and paused, as steps of its timer loop between its lock regions.
  \<^item> \<open>LogFormat\<close>, \<open>RotateFile\<close>, \<open>LoggerManager\<close>: \<open>runtime/core/logger\<close>. The scanner that reads a pattern,
    the backend that rotates, compresses and removes log files, and the manager with its loggers and
    levels; the log directory is a map from names to contents.
  \<^item> \<open>ModuleManager\<close>, \<open>Core\<close>: \<open>module_manager.cc\<close>, \<open>module_loader.cc\<close>, \<open>aimrt_core.cc\<close>. This theory puts core,
    guard, executor manager and module manager together.

  \<^bold>\<open>Correspondence.\<close> A class is a record with a field per member that an operation reads or writes; an
  operation is a definition of the same name, with a short prefix where several classes share the
  name (\<open>em_Initialize\<close>, \<open>nb_Publish\<close>, \<open>qc_Invoke\<close>). An operation that throws yields an error value and
  the state it leaves behind; an operation that posts work to an executor yields the work. Concurrent
  code is cut at its atomic accesses and suspension points into steps, and the theorems hold for every
  interleaving. Machine integers are words of their width. A pointer to an object that may be gone is
  a handle that is looked up when it is used. Events the code only logs are kept as a log where a
  theorem counts them.

  \<^bold>\<open>What the lemmas show.\<close> Each component has lemmas on what its operations do in each branch, an invariant
  that every operation keeps, and theorems on whole runs: every call is called back at most once
  and, unless it is stranded, exactly once; a published message reaches each of its subscribers once
  and unchanged, inside the process and through the packages of the network backends; registries
  and their index tables agree; modules stop in the reverse of their start, while their executors
  run; the latch loses no wake-up; tasks run in order, and a thread executor's shutdown wakes and joins
  its thread; the log files hold the logged
  lines in order, all of them until the limit on files is reached. Interfaces are locales: life cycles, round
  trips of integer codecs, subscription tables, and each is interpreted on the code's own model. Some
  theorems state what goes wrong where the code does not do what it means to.

  \<^bold>\<open>Bounds and termination.\<close> Loops are structural or have a measure, so no fuel is used; only the
  loop that borrows shared memory depends on what the provider lends, and is a partial function into
  \<open>option\<close>; that it returns is a theorem, also for a provider whose pool runs out. Addresses are
  assumed below \<open>2 ^ 62\<close> where a region of memory is placed, which keeps pointer sums from
  wrapping and holds on every supported machine. A read through a cursor or a string view yields an error
  of its own when it leaves the memory that is there, so a dropped length check would show. Packages are below \<open>2 ^ 32\<close> bytes where the code keeps
  their size in 32 bits; that \<open>Publish\<close> enforces this is a theorem, not an assumption.

  \<^bold>\<open>Concurrency and hooks as they are cut.\<close> A filter is a tree of calls of the handle it is given: the handle it
  was registered over is moved into the first call, a further call meets an empty function, and a
  filter that keeps its handle and calls it after it has returned is not represented. The thread
  executors wait, are notified and may wake spuriously; each \<open>Shutdown\<close> notifies, joins and resets the
  thread in steps of its own, so the state \<open>Shutdown\<close> leaves behind in a sequential run of the core is
  the one at the notification. Their options are
  decoded field by field, a wrong type or a node that is no map being an exception. The local rpc
  backend reads its state and records the call in one step.

  \<^bold>\<open>Parameters.\<close> Serialisers of message types, regular expressions, the parsing of IP addresses, yaml nodes
  (given as decoded options), \<open>dlopen\<close>, the modules' own code and the hooks of plugins are arguments
  of the definitions; what a theorem relies on of them is a hypothesis of the theorem.

  \<^bold>\<open>Not modelled.\<close> The python runtime, the code generators and the conversions to ROS 2 types are glue around
  libraries outside the repository; the http, websocket, grpc, iceoryx and ROS 2 backends are
  coroutines or callbacks of such libraries; recording and playback work on databases of
  such a library; the parameter manager, the configurator, the plugin manager and the main program
  only pass text and calls on. Thread set-up, log lines and report tables are left out everywhere.
  Each rotating log backend has the log directory to itself, and the configured path is taken to be
  spelt as the directory iterator spells it.
\<close>

section \<open>The runtime put together\<close>

text \<open>
  The core with its guard thread, its executor manager and its module manager as they are modelled
  in their own theories; the parts that are not modelled do nothing here. The configuration of the
  core gives each part its node, and the module manager is handed the core proxy configurator
  right before it is initialised.
\<close>

record ('x, 'n, 'm) runtime =
  rw_guard :: thread_executor
  rw_em :: "('x, 'n) executor_manager"
  rw_mm :: "'m module_manager"

record ('x, 'n, 'm) runtime_cfg =
  rc_main_thread_name :: string
  rc_guard_node :: "gt_node option"
  rc_executor_env :: "('x, 'n) executor_env"
  rc_executor_node :: "(string \<times> string \<times> 'n option) list option option"
  rc_module_env :: "'m module_env"
  rc_module_node :: "(pkg_node list option \<times> module_node list option) option"

fun runtime_call ::
  "('x, 'n, 'm) runtime_cfg \<Rightarrow> phase \<Rightarrow> part \<Rightarrow> ('x, 'n, 'm) runtime \<Rightarrow> bool \<times> ('x, 'n, 'm) runtime \<times> registrations" where
  "runtime_call cfg InitPhase GuardThread w =
     (case gt_Initialize (rc_guard_node cfg) (rw_guard w) of (err, g) \<Rightarrow> (err = None, w\<lparr>rw_guard := g\<rparr>, []))"
| "runtime_call cfg StartPhase GuardThread w =
     (case gt_Start (rw_guard w) of (err, g) \<Rightarrow> (err = None, w\<lparr>rw_guard := g\<rparr>, []))"
| "runtime_call cfg ShutdownPhase GuardThread w = (True, w\<lparr>rw_guard := gt_Shutdown (rw_guard w)\<rparr>, [])"
| "runtime_call cfg InitPhase Executor w =
     (case em_Initialize (rc_executor_env cfg) (rc_executor_node cfg) (rw_em w) of
        (err, em) \<Rightarrow> (err = None, w\<lparr>rw_em := em\<rparr>, []))"
| "runtime_call cfg StartPhase Executor w =
     (case em_Start (rc_executor_env cfg) (rw_em w) of (err, em) \<Rightarrow> (err = None, w\<lparr>rw_em := em\<rparr>, []))"
| "runtime_call cfg ShutdownPhase Executor w = (True, w\<lparr>rw_em := em_Shutdown (rc_executor_env cfg) (rw_em w)\<rparr>, [])"
| "runtime_call cfg InitPhase Modules w =
     (case RegisterCoreProxyConfigurator (rw_mm w) of
        (Some e, mm) \<Rightarrow> (False, w\<lparr>rw_mm := mm\<rparr>, [])
      | (None, mm) \<Rightarrow>
          (case mm_Initialize (rc_module_env cfg) (rc_module_node cfg) mm of
             (err, mm) \<Rightarrow> (err = None, w\<lparr>rw_mm := mm\<rparr>, [])))"
| "runtime_call cfg StartPhase Modules w =
     (case mm_Start (rc_module_env cfg) (rw_mm w) of (err, mm) \<Rightarrow> (err = None, w\<lparr>rw_mm := mm\<rparr>, []))"
| "runtime_call cfg ShutdownPhase Modules w = (True, w\<lparr>rw_mm := mm_Shutdown (rw_mm w)\<rparr>, [])"
| "runtime_call cfg ph p w = (True, w, [])"

definition runtime_env :: "('x, 'n, 'm) runtime_cfg \<Rightarrow> ('x, 'n, 'm) runtime core_env" where
  "runtime_env cfg =
     \<lparr>ce_call = runtime_call cfg, ce_hook = (\<lambda>h w. (True, w, [])),
      ce_used = (\<lambda>w. w\<lparr>rw_em := SetUsedExecutorName (te_name (rw_guard w))
                                 (SetUsedExecutorName (rc_main_thread_name cfg) (rw_em w))\<rparr>),
      ce_report = (\<lambda>w. em_state (rw_em w) = kInit \<and> mm_state (rw_mm w) = kInit)\<rparr>"

text \<open>The runtime as the modules see it: in front of each of the three operations of the module manager.\<close>

fun module_views :: "'w core_env \<Rightarrow> instr list \<Rightarrow> 'w core_view \<Rightarrow> (phase \<times> 'w) list" where
  "module_views env [] v = []"
| "module_views env (c # cs) v =
     (case c of Do ph p \<Rightarrow> (if p = Modules then [(ph, fst v)] else []) | _ \<Rightarrow> []) @
     module_views env cs (snd (view_instr env c v))"

lemma runtime_env_sel [simp]:
  "ce_call (runtime_env cfg) = runtime_call cfg" "ce_hook (runtime_env cfg) = (\<lambda>h w. (True, w, []))"
  "ce_report (runtime_env cfg) w = (em_state (rw_em w) = kInit \<and> mm_state (rw_mm w) = kInit)"
  "ce_used (runtime_env cfg) w = w\<lparr>rw_em := SetUsedExecutorName (te_name (rw_guard w))
     (SetUsedExecutorName (rc_main_thread_name cfg) (rw_em w))\<rparr>"
  by (simp_all add: runtime_env_def)

text \<open>
  C3. When every operation of the three parts succeeds, the core gets through a whole run; the
  modules are initialised with the executors initialised, started with the executors started, and
  shut down while the executors still run; and behind the run the guard, the executor manager and
  the module manager are shut down, no executor can be looked up any more, and exactly the started
  modules have been shut down, in the reverse order.
\<close>

theorem modules_run_on_live_executors:
  assumes guard: "gt_Initialize (rc_guard_node cfg) g0 = (None, g1)" "gt_Start g1 = (None, g2)"
    and em: "em_Initialize (rc_executor_env cfg) (rc_executor_node cfg)
        (SetUsedExecutorName (te_name g1) (SetUsedExecutorName (rc_main_thread_name cfg) em0)) = (None, em1)"
      "em_Start (rc_executor_env cfg) em1 = (None, em2)"
    and mm: "mm_fresh mm0" "RegisterCoreProxyConfigurator mm0 = (None, mm0')"
      "mm_Initialize (rc_module_env cfg) (rc_module_node cfg) mm0' = (None, mm1)" "mm_Start (rc_module_env cfg) mm1 = (None, mm2)"
    and w: "w = \<lparr>rw_guard = g0, rw_em = em0, rw_mm = mm0\<rparr>"
  shows "\<exists>s. core_run (runtime_env cfg) full_run (new_core w) = Some s \<and>
    map (\<lambda>(ph, w). (ph, te_state (rw_guard w), em_state (rw_em w)))
        (module_views (runtime_env cfg) (executed (co_log s)) (w, \<lambda>_. [])) =
      [(InitPhase, kInit, kInit), (StartPhase, kStart, kStart), (ShutdownPhase, kStart, kStart)] \<and>
    te_state (rw_guard (co_parts s)) = kShutdown \<and> em_state (rw_em (co_parts s)) = kShutdown \<and>
    mm_state (rw_mm (co_parts s)) = kShutdown \<and>
    (\<forall>n. em_GetExecutor (rc_executor_env cfg) (rw_em (co_parts s)) n = None) \<and>
    shut_down_of (mm_log (rw_mm (co_parts s))) = rev (started_of (mm_log (rw_mm (co_parts s)))) \<and>
    started_of (mm_log (rw_mm (co_parts s))) = inited_of (mm_log mm1)"
proof -
  let ?env = "runtime_env cfg" and ?h = "(\<lambda>_. []) :: core_state \<Rightarrow> nat list"
  let ?w1 = "\<lparr>rw_guard = g1, rw_em = em1, rw_mm = mm1\<rparr>" and ?w2 = "\<lparr>rw_guard = g2, rw_em = em2, rw_mm = mm2\<rparr>"
  let ?w3 = "\<lparr>rw_guard = gt_Shutdown g2, rw_em = em_Shutdown (rc_executor_env cfg) em2, rw_mm = mm_Shutdown mm2\<rparr>"
  have st: "te_state g1 = kInit" "te_state g2 = kStart" "em_state em1 = kInit" "em_state em2 = kStart"
    "mm_state mm1 = kInit" "mm_state mm2 = kStart"
    using gt.initialize_ok [OF guard(1)] gt.start_ok [OF guard(2)] em.initialize_ok [OF em(1)] em.start_ok [OF em(2)]
      mm.initialize_ok [OF mm(3)] mm.start_ok [OF mm(4)] by simp_all
  have v1: "view_all ?env Initialize_prog (w, ?h) = (True, (?w1, ?h))"
    by (simp add: Initialize_prog_def w guard em mm)
  have v2: "view_all ?env StartImpl_prog (?w1, ?h) = (True, (?w2, ?h))"
    by (simp add: StartImpl_prog_def guard em mm)
  have v3: "view_all ?env ShutdownImpl_prog (?w2, ?h) = (True, (?w3, ?h))"
    by (simp add: ShutdownImpl_prog_def)
  have rep: "ce_report ?env (fst (?w1, ?h))" using st by simp
  obtain s where s: "core_run ?env full_run (new_core w) = Some s" "co_parts s = ?w3"
    "executed (co_log s) = Initialize_prog @ StartImpl_prog @ ShutdownImpl_prog"
    using full_run_through [OF v1 rep v2 v3] by (auto simp: view_def)
  have views: "module_views ?env (xs @ ys) v = module_views ?env xs v @ module_views ?env ys (snd (view_all ?env xs v))"
    if "fst (view_all ?env xs v)" for xs ys v
    using that by (induction xs arbitrary: v) (auto split: prod.splits bool.splits)
  have "map (\<lambda>(ph, w). (ph, te_state (rw_guard w), em_state (rw_em w))) (module_views ?env Initialize_prog (w, ?h)) = [(InitPhase, kInit, kInit)]"
    by (simp add: Initialize_prog_def w guard em st)
  moreover have "map (\<lambda>(ph, w). (ph, te_state (rw_guard w), em_state (rw_em w))) (module_views ?env StartImpl_prog (?w1, ?h)) = [(StartPhase, kStart, kStart)]"
    by (simp add: StartImpl_prog_def guard em st)
  moreover have "map (\<lambda>(ph, w). (ph, te_state (rw_guard w), em_state (rw_em w))) (module_views ?env ShutdownImpl_prog (?w2, ?h)) = [(ShutdownPhase, kStart, kStart)]"
    by (simp add: ShutdownImpl_prog_def st)
  ultimately have order: "map (\<lambda>(ph, w). (ph, te_state (rw_guard w), em_state (rw_em w))) (module_views ?env (executed (co_log s)) (w, ?h)) =
      [(InitPhase, kInit, kInit), (StartPhase, kStart, kStart), (ShutdownPhase, kStart, kStart)]"
    by (simp add: s(3) views v1 v2)
  have "mm_fresh mm0'" using mm(1,2) by (auto simp: RegisterCoreProxyConfigurator_def mm_fresh_def split: if_splits)
  then have inv: "mm_inv mm1" "mm_state mm1 \<noteq> kShutdown" using mm_Initialize_inv [OF _ mm(3)] by blast+
  have "(True, mm2) = (if True then (fst (mm_Start (rc_module_env cfg) mm1) = None, snd (mm_Start (rc_module_env cfg) mm1)) else (False, mm1))"
    using mm(4) by simp
  note stop = modules_stop [OF inv this]
  have down: "te_state (gt_Shutdown g2) = kShutdown" "em_state (em_Shutdown (rc_executor_env cfg) em2) = kShutdown"
    "mm_state (mm_Shutdown mm2) = kShutdown"
    by (rule gt.shutdown_state em.shutdown_state mm.shutdown_state)+
  have "em_proxy_map (em_Shutdown (rc_executor_env cfg) em2) = (\<lambda>_. None)" by (rule em_Shutdown_proxies) (simp add: st)
  then show ?thesis using s order stop mm_Shutdown_frame [of mm2] down by (simp add: em_GetExecutor_def)
qed

text \<open>A runtime with a thread executor, a time wheel bound to it and two modules.\<close>

definition small_cfg :: "(nat, gt_node + tw_node, nat) runtime_cfg" where
  "small_cfg = \<lparr>rc_main_thread_name = ''aimrt_main'', rc_guard_node = None, rc_executor_env = plain_env,
     rc_executor_node = Some (Some two_executors), rc_module_env = three_modules\<lparr>mv_start := (\<lambda>m. True)\<rparr>, rc_module_node = None\<rparr>"

definition small_runtime :: "(nat, gt_node + tw_node, nat) runtime" where
  "small_runtime = \<lparr>rw_guard = new_thread_executor, rw_em = new_executor_manager,
     rw_mm = new_module_manager\<lparr>mm_registered := [(''core'', 1), (''core'', 2)]\<rparr>\<rparr>"

theorem modules_run_on_live_executors_witness:
  "\<exists>s. core_run (runtime_env small_cfg) full_run (new_core small_runtime) = Some s \<and>
    shut_down_of (mm_log (rw_mm (co_parts s))) = [2, 1]"
proof -
  let ?env = "rc_module_env small_cfg" and ?mm0 = "rw_mm small_runtime"
  obtain g1 where g1: "gt_Initialize (rc_guard_node small_cfg) new_thread_executor = (None, g1)"
    by (simp add: small_cfg_def gt_Initialize_def new_thread_executor_def atomic_exchange_def Let_def)
  obtain g2 where g2: "gt_Start g1 = (None, g2)"
    using gt.initialize_ok [OF g1] by (simp add: gt_Start_def atomic_exchange_def Let_def)
  have name: "te_name g1 = ''aimrt_guard''"
    using g1 by (auto simp: gt_Initialize_def new_thread_executor_def atomic_exchange_def Let_def small_cfg_def gt_default_options_def)
  have em0: "SetUsedExecutorName (te_name g1) (SetUsedExecutorName (rc_main_thread_name small_cfg) (rw_em small_runtime)) =
      new_executor_manager\<lparr>em_used_names := {''aimrt_guard'', ''aimrt_main''}\<rparr>"
    by (simp add: name SetUsedExecutorName_def small_cfg_def small_runtime_def new_executor_manager_def)
  obtain em1 em2 where em: "em_Initialize (rc_executor_env small_cfg) (rc_executor_node small_cfg)
      (SetUsedExecutorName (te_name g1) (SetUsedExecutorName (rc_main_thread_name small_cfg) (rw_em small_runtime))) = (None, em1)"
    "em_Start (rc_executor_env small_cfg) em1 = (None, em2)"
    unfolding em0 by (rule two_executors_run [of "{''aimrt_guard'', ''aimrt_main''}"]) (simp_all add: small_cfg_def)
  obtain mm0' mm1 mm2 where mm: "RegisterCoreProxyConfigurator ?mm0 = (None, mm0')"
    "mm_Initialize ?env (rc_module_node small_cfg) mm0' = (None, mm1)" "mm_Start ?env mm1 = (None, mm2)" "inited_of (mm_log mm1) = [1, 2]"
    by (simp add: mm_Initialize_def small_runtime_def small_cfg_def new_module_manager_def atomic_exchange_def Let_def three_modules_def
        init_registered_def mm_enabled_def GetModuleOptions_def add_module_def InitModule_def new_detail_def with_options_def
        named_info_def to_string_inject mm_Start_def start_module_def RegisterCoreProxyConfigurator_def)
  have fresh: "mm_fresh ?mm0" by (simp add: mm_fresh_def small_runtime_def new_module_manager_def)
  have w: "small_runtime = \<lparr>rw_guard = new_thread_executor, rw_em = rw_em small_runtime, rw_mm = ?mm0\<rparr>"
    by (simp add: small_runtime_def)
  from modules_run_on_live_executors [OF g1 g2 em fresh mm(1-3) w] mm(4) show ?thesis by auto
qed

end
